(* ===== verification/Prelude.thy ===== *)
theory Prelude
  imports Main "HOL-Library.Word"
begin

text \<open>
  What every component shares: bytes, results that may be an error, operations on an object
  whose state survives an exception, and generic lemmas on lists, words and div/mod.
  Every \<open>throw\<close> of the source is an \<open>Inl\<close> value of a sum type.  Where the object that throws
  lives on, an operation returns the result \<^emph>\<open>and\<close> the object, so that what was assigned
  before the \<open>throw\<close> stays visible, as it does in JavaScript.
\<close>

named_theorems op_simps "how the operations of an object run"
named_theorems codec_simps "what the binary reader returns on encoded input"

type_synonym byte = "8 word"
type_synonym bytes = "8 word list"

section \<open>Results\<close>

fun res_bind :: "'e + 'a \<Rightarrow> ('a \<Rightarrow> 'e + 'b) \<Rightarrow> 'e + 'b" where
  "res_bind (Inl e) f = Inl e"
| "res_bind (Inr x) f = f x"

lemma res_bind_eq_Inr [simp]:
  "res_bind m f = Inr y \<longleftrightarrow> (\<exists>x. m = Inr x \<and> f x = Inr y)"
  by (cases m) auto

lemma res_bind_assoc: "res_bind (res_bind m f) g = res_bind m (\<lambda>x. res_bind (f x) g)"
  by (cases m) auto

text \<open>A guard: \<open>if (bad) throw e\<close>.\<close>

definition res_require :: "bool \<Rightarrow> 'e \<Rightarrow> 'e + unit" where
  "res_require ok e = (if ok then Inr () else Inl e)"

lemma res_require_simps [simp]:
  "res_require True e = Inr ()" "res_require False e = Inl e"
  by (simp_all add: res_require_def)

lemma res_require_eq_Inr [simp]: "res_require b e = Inr u \<longleftrightarrow> b"
  by (simp add: res_require_def)

definition is_ok :: "'e + 'a \<Rightarrow> bool" where
  "is_ok r = (case r of Inl e \<Rightarrow> False | Inr x \<Rightarrow> True)"

lemma is_ok_simps [simp]: "\<not> is_ok (Inl e)" "is_ok (Inr x)"
  by (simp_all add: is_ok_def)

lemma is_ok_iff: "is_ok r \<longleftrightarrow> (\<exists>x. r = Inr x)"
  by (cases r) auto

section \<open>Operations on an object\<close>

type_synonym ('s, 'e, 'a) op = "'s \<Rightarrow> ('e + 'a) \<times> 's"

definition op_return :: "'a \<Rightarrow> ('s, 'e, 'a) op" where
  "op_return x s = (Inr x, s)"

definition op_throw :: "'e \<Rightarrow> ('s, 'e, 'a) op" where
  "op_throw e s = (Inl e, s)"

definition op_bind :: "('s, 'e, 'a) op \<Rightarrow> ('a \<Rightarrow> ('s, 'e, 'b) op) \<Rightarrow> ('s, 'e, 'b) op" where
  "op_bind m f s = (case m s of (Inl e, s') \<Rightarrow> (Inl e, s') | (Inr x, s') \<Rightarrow> f x s')"

definition op_get :: "('s \<Rightarrow> 'a) \<Rightarrow> ('s, 'e, 'a) op" where
  "op_get f s = (Inr (f s), s)"

definition op_modify :: "('s \<Rightarrow> 's) \<Rightarrow> ('s, 'e, unit) op" where
  "op_modify f s = (Inr (), f s)"

definition op_require :: "bool \<Rightarrow> 'e \<Rightarrow> ('s, 'e, unit) op" where
  "op_require ok e s = (if ok then Inr () else Inl e, s)"

definition op_lift :: "'e + 'a \<Rightarrow> ('s, 'e, 'a) op" where
  "op_lift r s = (r, s)"

lemmas op_defs =
  op_return_def op_throw_def op_bind_def op_get_def op_modify_def op_require_def op_lift_def

declare op_defs [op_simps]

lemma op_bind_Inr: "m s = (Inr x, s') \<Longrightarrow> op_bind m f s = f x s'"
  by (simp add: op_bind_def)

lemma op_bind_Inl: "m s = (Inl e, s') \<Longrightarrow> op_bind m f s = (Inl e, s')"
  by (simp add: op_bind_def)

lemma op_bind_InrE:
  assumes "op_bind m f s = (Inr y, t)"
  obtains x s' where "m s = (Inr x, s')" "f x s' = (Inr y, t)"
  using assms by (auto simp: op_bind_def split: prod.splits sum.splits)

section \<open>Systems with an invariant\<close>

text \<open>
  The interface of a component whose events \<open>run\<close> drives and whose invariant \<open>inv\<close> every event
  preserves: the invariant holds after every sequence of events.
\<close>

locale invariant_system =
  fixes run :: "'x \<Rightarrow> 's \<Rightarrow> 's" and inv :: "'s \<Rightarrow> bool"
  assumes preserved: "inv s \<Longrightarrow> inv (run x s)"
begin

lemma always: "inv s \<Longrightarrow> inv (fold run xs s)"
  by (induction xs arbitrary: s) (simp_all add: preserved)

lemma always_consequence: "inv s \<Longrightarrow> (\<And>t. inv t \<Longrightarrow> P t) \<Longrightarrow> P (fold run xs s)"
  by (simp add: always)

end

section \<open>Lists\<close>

lemma take_eq_self_append [simp]: "take (length xs) (xs @ ys) = xs"
  by simp

lemma drop_eq_self_append [simp]: "drop (length xs) (xs @ ys) = ys"
  by simp

lemma length_filter_distinct_bound:
  assumes "distinct xs" and "set xs \<subseteq> set ys"
  shows "length xs \<le> length ys"
  by (metis assms card_length card_mono distinct_card finite_set le_trans)

lemma sum_list_drop_le: "sum_list (drop n xs) \<le> sum_list (xs :: nat list)"
proof -
  have "sum_list xs = sum_list (take n xs) + sum_list (drop n xs)"
    by (metis append_take_drop_id sum_list_append)
  then show ?thesis by simp
qed

section \<open>Words and division\<close>

lemma uint_byte_bounds [simp]: "0 \<le> uint (b :: byte)" "uint (b :: byte) < 256"
  using uint_lt2p [of b] by simp_all

lemma uint_byte_le [simp]: "uint (b :: byte) \<le> 255"
  using uint_byte_bounds(2) [of b] by linarith

lemma unat_byte_bounds [simp]: "unat (b :: byte) < 256"
  using unsigned_less [of b, where ?'a = nat] by simp

text \<open>
  A number stored into a byte of a \<open>Buffer\<close>: the low eight bits.  They are constants of their own
  so that the simplifier does not distribute the conversion over sums.
\<close>

definition byte_of :: "nat \<Rightarrow> byte" where
  "byte_of n = word_of_nat n"

definition byte_of_int :: "int \<Rightarrow> byte" where
  "byte_of_int n = word_of_int n"

lemma unat_byte_of [simp]: "unat (byte_of n) = n mod 256"
  by (simp add: byte_of_def unat_of_nat)

lemma uint_byte_of [simp]: "uint (byte_of n) = int n mod 256"
  using unat_byte_of [of n] by (metis of_nat_mod of_nat_numeral uint_nat)

lemma uint_byte_of_int [simp]: "uint (byte_of_int n) = n mod 256"
  by (simp add: byte_of_int_def uint_word_of_int)

lemma byte_of_unat [simp]: "byte_of (unat b) = b"
  by (simp add: byte_of_def)

lemma byte_of_int_uint [simp]: "byte_of_int (uint b) = b"
  by (simp add: byte_of_int_def)

lemma byte_of_int_mod_eq: "m mod 256 = uint b \<Longrightarrow> byte_of_int m = b"
  by (metis byte_of_int_uint uint_byte_of_int word_uint_eq_iff)

lemma uint_word_of_int_byte [simp]: "uint (word_of_int n :: byte) = n mod 256"
  by (simp add: uint_word_of_int)

lemma unat_word_of_nat_byte [simp]: "unat (word_of_nat n :: byte) = n mod 256"
  by (simp add: unat_of_nat)

lemma word_of_int_byte_cong:
  "m mod 256 = n mod 256 \<Longrightarrow> (word_of_int m :: byte) = word_of_int n"
  by (metis uint_word_of_int_byte word_uint_eq_iff)

end
