(* ===== verification/JsString.thy ===== *)
theory JsString
  imports Prelude
begin

text \<open>
  The strings of the source.  A JavaScript string is a sequence of UTF-16 code units; here it
  is the list of their numbers, so \<open>length\<close> counts what \<open>.length\<close> counts.  \<open>js ''abc''\<close> is the
  literal \<open>"abc"\<close>.  The theory defines the methods the source calls on strings
  (\<open>trim\<close>, \<open>toLowerCase\<close>, \<open>split\<close>, \<open>join\<close>, \<open>slice\<close>, \<open>startsWith\<close>, \<open>indexOf\<close>, \<open>Number\<close>,
  \<open>toString(16)\<close>, \<open>parseInt(_, 16)\<close>) and Node's UTF-8 encoder and decoder, and proves
  their laws.  These are the language and its standard library, so nothing here is mapped to
  lines of the repository.

  One bound: \<open>js_lower\<close> maps the Latin-1 capitals and the two further characters whose lower
  case contains an ASCII letter (the Kelvin sign and the dotted capital I); other non-Latin
  capitals are left as they are.
\<close>

type_synonym jsstring = "nat list"

definition js :: "string \<Rightarrow> jsstring" where
  "js s = map of_char s"

lemma js_simps [simp]:
  "js [] = []"
  "js (c # s) = of_char c # js s"
  by (simp_all add: js_def)

lemma js_append [simp]: "js (s @ t) = js s @ js t"
  by (simp add: js_def)

lemma length_js [simp]: "length (js s) = length s"
  by (simp add: js_def)

lemma js_inject [simp]: "js s = js t \<longleftrightarrow> s = t"
  by (simp add: js_def inj_map_eq_map inj_def)

section \<open>White space and case\<close>

definition js_ws :: "nat \<Rightarrow> bool" where
  "js_ws u \<longleftrightarrow> (9 \<le> u \<and> u \<le> 13) \<or> u = 32 \<or> u = 160 \<or> u = 5760 \<or> (8192 \<le> u \<and> u \<le> 8202)
     \<or> u = 8232 \<or> u = 8233 \<or> u = 8239 \<or> u = 8287 \<or> u = 12288 \<or> u = 65279"

definition js_trim_start :: "jsstring \<Rightarrow> jsstring" where
  "js_trim_start s = dropWhile js_ws s"

definition js_trim_end :: "jsstring \<Rightarrow> jsstring" where
  "js_trim_end s = rev (dropWhile js_ws (rev s))"

definition js_trim :: "jsstring \<Rightarrow> jsstring" where
  "js_trim s = js_trim_end (js_trim_start s)"

definition lower_unit :: "nat \<Rightarrow> jsstring" where
  "lower_unit u =
     (if (65 \<le> u \<and> u \<le> 90) \<or> (192 \<le> u \<and> u \<le> 222 \<and> u \<noteq> 215) then [u + 32]
      else if u = 8490 then [107]
      else if u = 304 then [105, 775]
      else [u])"

definition js_lower :: "jsstring \<Rightarrow> jsstring" where
  "js_lower s = concat (map lower_unit s)"

lemma js_lower_simps [simp]:
  "js_lower [] = []"
  "js_lower (u # s) = lower_unit u @ js_lower s"
  by (simp_all add: js_lower_def)

lemma js_lower_append [simp]: "js_lower (s @ t) = js_lower s @ js_lower t"
  by (simp add: js_lower_def)

lemma js_lower_id:
  assumes "\<forall>u \<in> set s. lower_unit u = [u]"
  shows "js_lower s = s"
  using assms by (induction s) auto

lemma lower_unit_idem: "js_lower (lower_unit u) = lower_unit u"
  by (auto simp: lower_unit_def)

lemma js_lower_idem [simp]: "js_lower (js_lower s) = js_lower s"
  by (induction s) (auto simp: lower_unit_idem)

lemma dropWhile_none: "\<forall>u \<in> set s. \<not> P u \<Longrightarrow> dropWhile P s = s"
  by (cases s) auto

lemma js_trim_Nil [simp]: "js_trim [] = []"
  by (simp add: js_trim_def js_trim_start_def js_trim_end_def)

lemma js_trim_id:
  assumes "\<forall>u \<in> set s. \<not> js_ws u"
  shows "js_trim s = s"
proof -
  have "dropWhile js_ws s = s" and "dropWhile js_ws (rev s) = rev s"
    using assms by (simp_all add: dropWhile_none)
  then show ?thesis by (simp add: js_trim_def js_trim_start_def js_trim_end_def)
qed

lemma set_js_trim: "set (js_trim s) \<subseteq> set s"
  by (auto simp: js_trim_def js_trim_start_def js_trim_end_def dest!: set_dropWhileD)

lemma js_trim_ends:
  assumes "js_trim s \<noteq> []"
  shows "\<not> js_ws (hd (js_trim s))" and "\<not> js_ws (last (js_trim s))"
proof -
  let ?a = "dropWhile js_ws s" and ?t = "js_trim s"
  have t: "?t = rev (dropWhile js_ws (rev ?a))"
    by (simp add: js_trim_def js_trim_start_def js_trim_end_def)
  show "\<not> js_ws (last ?t)"
    using assms hd_dropWhile [of js_ws "rev ?a"] by (simp add: t last_rev)
  have "?a = ?t @ rev (takeWhile js_ws (rev ?a))"
    by (metis t rev_append rev_rev_ident takeWhile_dropWhile_id)
  then have "hd ?a = hd ?t" and "?a \<noteq> []"
    using assms by (metis hd_append2, metis append_is_Nil_conv)
  then show "\<not> js_ws (hd ?t)" using hd_dropWhile [of js_ws s] by simp
qed

lemma js_trim_idem [simp]: "js_trim (js_trim s) = js_trim s"
proof (cases "js_trim s = []")
  case True
  then show ?thesis by simp
next
  case False
  then have "dropWhile js_ws (js_trim s) = js_trim s"
    and "dropWhile js_ws (rev (js_trim s)) = rev (js_trim s)"
    using js_trim_ends [OF False] by (simp_all add: dropWhile_eq_self_iff hd_rev)
  then show ?thesis by (subst js_trim_def) (simp add: js_trim_start_def js_trim_end_def)
qed

lemma js_trim_solid: "s \<noteq> [] \<Longrightarrow> \<not> js_ws (hd s) \<Longrightarrow> \<not> js_ws (last s) \<Longrightarrow> js_trim s = s"
proof -
  assume ne: "s \<noteq> []" and ends: "\<not> js_ws (hd s)" "\<not> js_ws (last s)"
  obtain u a where s: "s = u # a" using ne by (cases s) auto
  obtain b v where t: "s = b @ [v]" using ne by (cases s rule: rev_cases) auto
  have "js_trim_start s = s" using ends(1) by (simp add: js_trim_start_def s)
  moreover have "js_trim_end s = s" using ends(2) by (simp add: js_trim_end_def t)
  ultimately show "js_trim s = s" by (simp add: js_trim_def)
qed

lemma lower_unit_solid: "\<not> js_ws u \<Longrightarrow> lower_unit u \<noteq> [] \<and> \<not> js_ws (hd (lower_unit u)) \<and> \<not> js_ws (last (lower_unit u))"
  by (auto simp: lower_unit_def js_ws_def)

lemma js_trim_lower [simp]: "js_trim (js_lower (js_trim s)) = js_lower (js_trim s)"
proof (cases "js_trim s = []")
  case False
  obtain u a where a: "js_trim s = u # a" using False by (cases "js_trim s") auto
  obtain b v where b: "js_trim s = b @ [v]" using False by (cases "js_trim s" rule: rev_cases) auto
  have "\<not> js_ws u" using js_trim_ends(1) [OF False] by (simp add: a)
  moreover have "\<not> js_ws v" using js_trim_ends(2) [OF False] by (simp add: b)
  ultimately have "hd (js_lower (js_trim s)) = hd (lower_unit u)" "last (js_lower (js_trim s)) = last (lower_unit v)"
    "js_lower (js_trim s) \<noteq> []" "\<not> js_ws (hd (lower_unit u))" "\<not> js_ws (last (lower_unit v))"
    using lower_unit_solid [of u] lower_unit_solid [of v] by (simp add: a, simp add: b, simp add: a, simp_all)
  then show ?thesis by (intro js_trim_solid) simp_all
qed simp

section \<open>Searching, slicing, splitting and joining\<close>

definition starts_with :: "jsstring \<Rightarrow> jsstring \<Rightarrow> bool" where
  "starts_with p s \<longleftrightarrow> take (length p) s = p"

definition ends_with :: "jsstring \<Rightarrow> jsstring \<Rightarrow> bool" where
  "ends_with p s \<longleftrightarrow> length p \<le> length s \<and> drop (length s - length p) s = p"

fun js_includes :: "jsstring \<Rightarrow> jsstring \<Rightarrow> bool" where
  "js_includes p [] = (p = [])"
| "js_includes p (u # s) = (starts_with p (u # s) \<or> js_includes p s)"

text \<open>\<open>indexOf\<close> and \<open>lastIndexOf\<close> of one unit; the source's \<open>-1\<close> is \<open>None\<close>.\<close>

fun index_of :: "nat \<Rightarrow> jsstring \<Rightarrow> nat option" where
  "index_of c [] = None"
| "index_of c (u # s) = (if u = c then Some 0 else map_option Suc (index_of c s))"

definition last_index_of :: "nat \<Rightarrow> jsstring \<Rightarrow> nat option" where
  "last_index_of c s = map_option (\<lambda>i. length s - 1 - i) (index_of c (rev s))"

fun cons_hd :: "'a \<Rightarrow> 'a list list \<Rightarrow> 'a list list" where
  "cons_hd u [] = [[u]]"
| "cons_hd u (w # ws) = (u # w) # ws"

function split_on :: "jsstring \<Rightarrow> jsstring \<Rightarrow> jsstring list" where
  "split_on sep [] = [[]]"
| "split_on sep (u # s) =
     (if sep \<noteq> [] \<and> starts_with sep (u # s) then [] # split_on sep (drop (length sep - 1) s)
      else cons_hd u (split_on sep s))"
  by pat_completeness auto
termination
  by (relation "measure (\<lambda>(sep, s). length s)") auto

fun js_join :: "jsstring \<Rightarrow> jsstring list \<Rightarrow> jsstring" where
  "js_join sep [] = []"
| "js_join sep [w] = w"
| "js_join sep (w # v # ws) = w @ sep @ js_join sep (v # ws)"

lemma starts_with_append [simp]: "starts_with p (p @ s)"
  by (simp add: starts_with_def)

lemma starts_with_iff: "starts_with p s \<longleftrightarrow> (\<exists>t. s = p @ t)"
  by (metis append_take_drop_id starts_with_def starts_with_append)

lemma ends_with_iff: "ends_with p s \<longleftrightarrow> (\<exists>t. s = t @ p)"
proof
  assume "ends_with p s"
  then show "\<exists>t. s = t @ p" by (metis append_take_drop_id ends_with_def)
qed (auto simp: ends_with_def)

lemma starts_with_single: "starts_with [c] (u # s) \<longleftrightarrow> u = c"
  by (auto simp: starts_with_def)

lemma js_includes_iff: "js_includes p s \<longleftrightarrow> (\<exists>a b. s = a @ p @ b)"
proof (induction s)
  case (Cons u s)
  show ?case
  proof
    assume "js_includes p (u # s)"
    then consider "starts_with p (u # s)" | "js_includes p s" by auto
    then show "\<exists>a b. u # s = a @ p @ b"
    proof cases
      case 1
      then show ?thesis by (metis append_Nil starts_with_iff)
    next
      case 2
      then show ?thesis using Cons.IH by (metis append_Cons)
    qed
  next
    assume "\<exists>a b. u # s = a @ p @ b"
    then obtain a b where ab: "u # s = a @ p @ b" by blast
    show "js_includes p (u # s)"
    proof (cases a)
      case Nil
      then have "starts_with p (u # s)" using ab by simp
      then show ?thesis by simp
    next
      case (Cons x a')
      then show ?thesis using ab Cons.IH by auto
    qed
  qed
qed auto

lemma js_includes_single [simp]: "js_includes [c] s \<longleftrightarrow> c \<in> set s"
  by (auto simp: js_includes_iff in_set_conv_decomp)

lemma index_of_None [simp]: "index_of c s = None \<longleftrightarrow> c \<notin> set s"
  by (induction s) auto

lemma index_of_Some:
  "index_of c s = Some i \<longleftrightarrow> i < length s \<and> s ! i = c \<and> c \<notin> set (take i s)"
proof (induction s arbitrary: i)
  case (Cons u s)
  show ?case by (cases i) (auto simp: Cons.IH)
qed simp

lemma index_of_append: "c \<notin> set a \<Longrightarrow> index_of c (a @ c # b) = Some (length a)"
  by (induction a) auto

lemma split_on_single_simps [simp]:
  "split_on [c] (u # s) = (if u = c then [] # split_on [c] s else cons_hd u (split_on [c] s))"
  by (simp add: starts_with_single)

lemma split_on_ne [simp]: "split_on sep s \<noteq> []"
proof (induction sep s rule: split_on.induct)
  case (2 sep u s)
  then show ?case by (cases "split_on sep s") auto
qed simp

declare split_on.simps(2) [simp del]

lemma split_on_absent: "c \<notin> set s \<Longrightarrow> split_on [c] s = [s]"
  by (induction s) auto

lemma split_on_step: "c \<notin> set a \<Longrightarrow> split_on [c] (a @ c # b) = a # split_on [c] b"
  by (induction a) auto

lemma split_join:
  assumes "ws \<noteq> []" and "\<forall>w \<in> set ws. c \<notin> set w"
  shows "split_on [c] (js_join [c] ws) = ws"
  using assms
  by (induction "[c]" ws rule: js_join.induct) (auto simp: split_on_absent split_on_step)

lemma join_split: "js_join [c] (split_on [c] s) = s"
proof (induction s)
  case (Cons u s)
  obtain w ws where sp: "split_on [c] s = w # ws" by (metis split_on_ne list.exhaust)
  then show ?case using Cons.IH by (cases ws) auto
qed simp

lemma split_on_parts: "w \<in> set (split_on [c] s) \<Longrightarrow> c \<notin> set w \<and> set w \<subseteq> set s"
proof (induction s arbitrary: w)
  case (Cons u s)
  obtain v vs where sp: "split_on [c] s = v # vs" by (metis split_on_ne list.exhaust)
  show ?case using Cons.prems Cons.IH [of v] Cons.IH [of w] by (auto simp: sp split: if_splits)
qed simp

section \<open>Numerals\<close>

definition is_digit :: "nat \<Rightarrow> bool" where
  "is_digit u \<longleftrightarrow> 48 \<le> u \<and> u \<le> 57"

definition is_hex_digit :: "nat \<Rightarrow> bool" where
  "is_hex_digit u \<longleftrightarrow> is_digit u \<or> (97 \<le> u \<and> u \<le> 102) \<or> (65 \<le> u \<and> u \<le> 70)"

definition is_alpha :: "nat \<Rightarrow> bool" where
  "is_alpha u \<longleftrightarrow> (97 \<le> u \<and> u \<le> 122) \<or> (65 \<le> u \<and> u \<le> 90)"

definition is_alnum :: "nat \<Rightarrow> bool" where
  "is_alnum u \<longleftrightarrow> is_digit u \<or> is_alpha u"

definition digit_unit :: "nat \<Rightarrow> nat" where
  "digit_unit d = (if d < 10 then 48 + d else 87 + d)"

definition digit_val :: "nat \<Rightarrow> nat" where
  "digit_val u = (if u \<le> 57 then u - 48 else if u \<le> 70 then u - 55 else u - 87)"

text \<open>\<open>n.toString(radix)\<close> and the value of a digit string.\<close>

function radix_string :: "nat \<Rightarrow> nat \<Rightarrow> jsstring" where
  "radix_string r n =
     (if n < r \<or> r < 2 then [digit_unit n] else radix_string r (n div r) @ [digit_unit (n mod r)])"
  by pat_completeness auto
termination
  by (relation "measure snd") (auto intro: div_less_dividend)

declare radix_string.simps [simp del]

definition radix_value :: "nat \<Rightarrow> jsstring \<Rightarrow> nat" where
  "radix_value r s = foldl (\<lambda>a u. r * a + digit_val u) 0 s"

lemma radix_value_simps [simp]:
  "radix_value r [] = 0"
  "radix_value r (s @ [u]) = r * radix_value r s + digit_val u"
  by (simp_all add: radix_value_def)

lemma digit_val_unit [simp]: "d < 16 \<Longrightarrow> digit_val (digit_unit d) = d"
  by (auto simp: digit_val_def digit_unit_def)

lemma radix_value_string [simp]:
  "2 \<le> r \<Longrightarrow> r \<le> 16 \<Longrightarrow> radix_value r (radix_string r n) = n"
proof (induction r n rule: radix_string.induct)
  case (1 r n)
  show ?case
  proof (cases "n < r")
    case True
    then show ?thesis using 1 radix_value_simps(2) [of r "[]"]
      by (simp add: radix_string.simps [of r n])
  next
    case False
    have "n mod r < 16" using 1 by (meson less_le_trans mod_less_divisor order_less_le_trans zero_less_numeral)
    with False 1 show ?thesis by (simp add: radix_string.simps [of r n])
  qed
qed

lemma radix_string_ne [simp]: "radix_string r n \<noteq> []"
  by (subst radix_string.simps) simp

lemma radix_string_inj: "2 \<le> r \<Longrightarrow> r \<le> 16 \<Longrightarrow> radix_string r m = radix_string r n \<longleftrightarrow> m = n"
  by (metis radix_value_string)

lemma radix_string_units:
  "2 \<le> r \<Longrightarrow> u \<in> set (radix_string r n) \<Longrightarrow> \<exists>d < r. u = digit_unit d"
proof (induction r n rule: radix_string.induct)
  case (1 r n)
  show ?case
  proof (cases "n < r")
    case True
    then show ?thesis using 1 by (auto simp: radix_string.simps [of r n])
  next
    case False
    have "n mod r < r" using "1.prems" by simp
    then have "\<exists>d < r. u = digit_unit d" if "u = digit_unit (n mod r)" using that by blast
    then show ?thesis using False 1 by (auto simp: radix_string.simps [of r n])
  qed
qed

lemma digit_unit_decimal: "d < 10 \<Longrightarrow> is_digit (digit_unit d)"
  by (simp add: is_digit_def digit_unit_def)

lemma digit_unit_hex:
  "d < 16 \<Longrightarrow> is_digit (digit_unit d) \<or> (97 \<le> digit_unit d \<and> digit_unit d \<le> 102)"
  by (simp add: is_digit_def digit_unit_def)

lemma radix_string_digits: "u \<in> set (radix_string 10 n) \<Longrightarrow> is_digit u"
  using radix_string_units [of 10 u n] digit_unit_decimal by auto

lemma radix_string_hex_lower:
  "u \<in> set (radix_string 16 n) \<Longrightarrow> is_digit u \<or> (97 \<le> u \<and> u \<le> 102)"
  using radix_string_units [of 16 u n] digit_unit_hex by auto

lemma radix_string_hex: "u \<in> set (radix_string 16 n) \<Longrightarrow> is_hex_digit u"
  using radix_string_hex_lower [of u n] by (auto simp: is_hex_digit_def)

lemma radix_string_length:
  "2 \<le> r \<Longrightarrow> n < r ^ k \<Longrightarrow> 0 < k \<Longrightarrow> length (radix_string r n) \<le> k"
proof (induction r n arbitrary: k rule: radix_string.induct)
  case (1 r n)
  show ?case
  proof (cases "n < r")
    case True
    then show ?thesis using 1 by (simp add: radix_string.simps [of r n])
  next
    case False
    then have k: "1 < k" using 1 by (cases k; cases "k - 1") auto
    then obtain j where j: "k = Suc j" "0 < j" by (cases k) auto
    have "n div r < r ^ j"
      using "1.prems" j by (simp add: less_mult_imp_div_less mult.commute)
    then have "length (radix_string r (n div r)) \<le> j" using 1 False j by simp
    then show ?thesis using False j "1.prems" by (simp add: radix_string.simps [of r n])
  qed
qed

lemma radix_string_hd:
  "2 \<le> r \<Longrightarrow> r \<le> 16 \<Longrightarrow> 0 < n \<Longrightarrow> hd (radix_string r n) \<noteq> 48"
proof (induction r n rule: radix_string.induct)
  case (1 r n)
  show ?case
  proof (cases "n < r")
    case True
    then show ?thesis using 1 by (simp add: radix_string.simps [of r n] digit_unit_def)
  next
    case False
    then have "0 < n div r" using "1.prems" by (simp add: div_greater_zero_iff)
    then show ?thesis using 1 False by (simp add: radix_string.simps [of r n])
  qed
qed

lemma radix_string_no_leading_zero:
  assumes "2 \<le> r" "r \<le> 16" "1 < length (radix_string r n)"
  shows "hd (radix_string r n) \<noteq> 48"
proof -
  have "0 < n" using assms by (cases n) (auto simp: radix_string.simps [of r 0])
  then show ?thesis using assms radix_string_hd by blast
qed

text \<open>
  \<open>Number(text)\<close>, as far as the source looks at it: \<open>Some n\<close> when it is the integer \<open>n\<close>,
  \<open>None\<close> when it is \<open>NaN\<close>, an infinity or has a fraction.  Blank text is 0; \<open>0x\<close>, \<open>0o\<close> and
  \<open>0b\<close> literals, signs, fractions and exponents are read as ECMAScript's
  StringNumericLiteral reads them.  The value is exact: the rounding of literals with
  more than 15 significant digits is not modelled.
\<close>

definition all_digits :: "jsstring \<Rightarrow> bool" where
  "all_digits s \<longleftrightarrow> s \<noteq> [] \<and> list_all is_digit s"

definition radix_literal :: "nat \<Rightarrow> (nat \<Rightarrow> bool) \<Rightarrow> jsstring \<Rightarrow> int option" where
  "radix_literal r ok s = (if s \<noteq> [] \<and> list_all ok s then Some (int (radix_value r s)) else None)"

definition exponent_value :: "jsstring \<Rightarrow> int option" where
  "exponent_value s =
     (let body = (if starts_with [43] s \<or> starts_with [45] s then drop 1 s else s)
      in if all_digits body
         then Some ((if starts_with [45] s then -1 else 1) * int (radix_value 10 body))
         else None)"

definition scaled_int :: "nat \<Rightarrow> int \<Rightarrow> int option" where
  "scaled_int m k =
     (if m = 0 then Some 0
      else if 0 \<le> k then Some (int m * 10 ^ nat k)
      else if (10 ^ nat (- k)) dvd m then Some (int (m div 10 ^ nat (- k))) else None)"

definition unsigned_decimal :: "jsstring \<Rightarrow> int option" where
  "unsigned_decimal s =
     (let mant = takeWhile (\<lambda>u. u \<noteq> 101 \<and> u \<noteq> 69) s;
          tail = drop (length mant) s;
          ip = takeWhile is_digit mant;
          rest = drop (length ip) mant;
          fp = (if starts_with [46] rest then drop 1 rest else [])
      in if (rest \<noteq> [] \<and> \<not> starts_with [46] rest) \<or> \<not> list_all is_digit fp \<or> ip @ fp = [] then None
         else case (if tail = [] then Some 0 else exponent_value (drop 1 tail)) of
                None \<Rightarrow> None
              | Some e \<Rightarrow> scaled_int (radix_value 10 (ip @ fp)) (e - int (length fp)))"

definition js_number :: "jsstring \<Rightarrow> int option" where
  "js_number text =
     (let s = js_trim text in
      if s = [] then Some 0
      else if starts_with (js ''0x'') s \<or> starts_with (js ''0X'') s
        then radix_literal 16 is_hex_digit (drop 2 s)
      else if starts_with (js ''0o'') s \<or> starts_with (js ''0O'') s
        then radix_literal 8 (\<lambda>u. 48 \<le> u \<and> u \<le> 55) (drop 2 s)
      else if starts_with (js ''0b'') s \<or> starts_with (js ''0B'') s
        then radix_literal 2 (\<lambda>u. 48 \<le> u \<and> u \<le> 49) (drop 2 s)
      else if starts_with [45] s then map_option uminus (unsigned_decimal (drop 1 s))
      else if starts_with [43] s then unsigned_decimal (drop 1 s)
      else unsigned_decimal s)"

lemma is_digit_not_ws: "is_digit u \<Longrightarrow> \<not> js_ws u"
  by (auto simp: is_digit_def js_ws_def)

lemma takeWhile_all: "list_all P s \<Longrightarrow> takeWhile P s = s"
  by (induction s) auto

lemma js_number_digits:
  assumes "all_digits s"
  shows "js_number s = Some (int (radix_value 10 s))"
proof -
  have d: "list_all is_digit s" and ne: "s \<noteq> []" using assms by (simp_all add: all_digits_def)
  have dd: "\<forall>u \<in> set s. is_digit u" using d by (simp add: list_all_iff)
  have tr: "js_trim s = s" using dd by (simp add: js_trim_id is_digit_not_ws)
  have no: "\<not> starts_with (p # q) s" if "\<not> is_digit p" for p q
    using dd that by (auto simp: starts_with_iff)
  have no2: "\<not> starts_with (p # q # r) s" if "\<not> is_digit q" for p q r
    using dd that by (auto simp: starts_with_iff)
  have tw: "takeWhile (\<lambda>u. u \<noteq> 101 \<and> u \<noteq> 69) s = s"
    by (rule takeWhile_all) (use dd in \<open>auto simp: list_all_iff is_digit_def\<close>)
  have td: "takeWhile is_digit s = s" using d by (rule takeWhile_all)
  have "unsigned_decimal s = Some (int (radix_value 10 s))"
    by (simp add: unsigned_decimal_def Let_def tw td ne starts_with_def scaled_int_def)
  then show ?thesis
    by (simp add: js_number_def Let_def tr ne no no2 is_digit_def)
qed

end
