(* ===== verification/Utf8.thy ===== *)
theory Utf8
  imports JsString
begin

text \<open>
  Node's \<open>Buffer.from(text, "utf8")\<close> and \<open>buffer.toString("utf8")\<close>, between UTF-16 code units
  and bytes.  Encoding writes a lone surrogate as U+FFFD; decoding replaces every maximal
  ill-formed subsequence by one U+FFFD.  Main law: decoding an encoded well-formed string
  gives the string back.
\<close>

definition is_high :: "nat \<Rightarrow> bool" where "is_high u \<longleftrightarrow> 55296 \<le> u \<and> u \<le> 56319"
definition is_low :: "nat \<Rightarrow> bool" where "is_low u \<longleftrightarrow> 56320 \<le> u \<and> u \<le> 57343"

fun wf_utf16 :: "jsstring \<Rightarrow> bool" where
  "wf_utf16 [] = True"
| "wf_utf16 [u] = (u < 65536 \<and> \<not> is_high u \<and> \<not> is_low u)"
| "wf_utf16 (u # v # s) =
     (if is_high u then is_low v \<and> wf_utf16 s else u < 65536 \<and> \<not> is_low u \<and> wf_utf16 (v # s))"

definition utf8_unit :: "nat \<Rightarrow> bytes" where
  "utf8_unit u =
     (if u < 128 then [byte_of u]
      else if u < 2048 then [byte_of (192 + u div 64), byte_of (128 + u mod 64)]
      else if is_high u \<or> is_low u then [239, 191, 189]
      else [byte_of (224 + u div 4096), byte_of (128 + u div 64 mod 64), byte_of (128 + u mod 64)])"

definition utf8_pair :: "nat \<Rightarrow> nat \<Rightarrow> bytes" where
  "utf8_pair u v =
     (let cp = 65536 + (u - 55296) * 1024 + (v - 56320)
      in [byte_of (240 + cp div 262144), byte_of (128 + cp div 4096 mod 64),
          byte_of (128 + cp div 64 mod 64), byte_of (128 + cp mod 64)])"

fun utf8_encode :: "jsstring \<Rightarrow> bytes" where
  "utf8_encode [] = []"
| "utf8_encode [u] = utf8_unit u"
| "utf8_encode (u # v # s) =
     (if is_high u \<and> is_low v then utf8_pair u v @ utf8_encode s
      else utf8_unit u @ utf8_encode (v # s))"

text \<open>The lead byte: how many continuation bytes follow, and the bounds of the first of them.\<close>

definition utf8_lead :: "nat \<Rightarrow> (nat \<times> nat \<times> nat) option" where
  "utf8_lead n =
     (if 194 \<le> n \<and> n \<le> 223 then Some (1, 128, 191)
      else if n = 224 then Some (2, 160, 191)
      else if n = 237 then Some (2, 128, 159)
      else if 225 \<le> n \<and> n \<le> 239 then Some (2, 128, 191)
      else if n = 240 then Some (3, 144, 191)
      else if 241 \<le> n \<and> n \<le> 243 then Some (3, 128, 191)
      else if n = 244 then Some (3, 128, 143)
      else None)"

definition is_cont :: "byte \<Rightarrow> bool" where
  "is_cont b \<longleftrightarrow> 128 \<le> unat b \<and> unat b \<le> 191"

definition units_of_cp :: "nat \<Rightarrow> jsstring" where
  "units_of_cp cp =
     (if cp < 65536 then [cp]
      else [55296 + (cp - 65536) div 1024, 56320 + (cp - 65536) mod 1024])"

text \<open>One step: the code units written and the number of bytes consumed after the first.\<close>

definition utf8_step :: "nat \<Rightarrow> bytes \<Rightarrow> jsstring \<times> nat" where
  "utf8_step n bs =
     (if n < 128 then ([n], 0)
      else case utf8_lead n of None \<Rightarrow> ([65533], 0)
      | Some (k, lo, hi) \<Rightarrow>
         (case bs of [] \<Rightarrow> ([65533], 0)
          | b1 # bs1 \<Rightarrow>
            if unat b1 < lo \<or> hi < unat b1 then ([65533], 0)
            else if k = 1 then ([(n - 192) * 64 + (unat b1 - 128)], 1)
            else (case bs1 of [] \<Rightarrow> ([65533], 1)
             | b2 # bs2 \<Rightarrow>
               if \<not> is_cont b2 then ([65533], 1)
               else if k = 2
                 then ([(n - 224) * 4096 + (unat b1 - 128) * 64 + (unat b2 - 128)], 2)
               else (case bs2 of [] \<Rightarrow> ([65533], 2)
                | b3 # bs3 \<Rightarrow>
                  if \<not> is_cont b3 then ([65533], 2)
                  else (units_of_cp ((n - 240) * 262144 + (unat b1 - 128) * 4096
                          + (unat b2 - 128) * 64 + (unat b3 - 128)), 3)))))"

function utf8_decode :: "bytes \<Rightarrow> jsstring" where
  "utf8_decode [] = []"
| "utf8_decode (b # bs) =
     (let (us, k) = utf8_step (unat b) bs in us @ utf8_decode (drop k bs))"
  by pat_completeness auto
termination
  by (relation "measure length") auto

declare utf8_decode.simps(2) [simp del]

lemma utf8_decode_step:
  "utf8_step (unat b) bs = (us, k) \<Longrightarrow> utf8_decode (b # bs) = us @ utf8_decode (drop k bs)"
  by (simp add: utf8_decode.simps(2))

lemma base64_step: "(n :: nat) = 64 * (n div 64) + n mod 64"
  by simp

lemma base64_step2: "(n :: nat) div k = 64 * (n div (k * 64)) + n div k mod 64"
  by (simp add: div_mult2_eq)

lemma num_eqs: "(64 * 64 :: nat) = 4096" "(4096 * 64 :: nat) = 262144"
  by simp_all

lemma utf8_decode_unit:
  assumes "u < 65536" "\<not> is_high u" "\<not> is_low u"
  shows "utf8_decode (utf8_unit u @ bs) = u # utf8_decode bs"
proof -
  consider "u < 128" | "128 \<le> u" "u < 2048" | "2048 \<le> u" "u < 65536" using assms by linarith
  then show ?thesis
  proof cases
    case 1
    then have "utf8_step (unat (byte_of u)) bs = ([u], 0)" by (simp add: utf8_step_def)
    then show ?thesis using 1 by (simp add: utf8_unit_def utf8_decode_step)
  next
    case 2
    then have "u div 64 < 32" "2 \<le> u div 64" by auto
    then have "utf8_step (unat (byte_of (192 + u div 64))) (byte_of (128 + u mod 64) # bs) = ([u], 1)"
      by (simp add: utf8_step_def utf8_lead_def)
    then show ?thesis using 2 by (simp add: utf8_unit_def utf8_decode_step)
  next
    case 3
    define a b c where "a = u div 4096" and "b = u div 64 mod 64" and "c = u mod 64"
    have u: "u = a * 4096 + b * 64 + c"
      unfolding a_def b_def c_def using base64_step [of u] base64_step2 [of u 64] unfolding num_eqs by linarith
    have bd: "b < 64" "c < 64" "a < 16" using 3 by (auto simp: a_def b_def c_def)
    have "a = 0 \<Longrightarrow> 32 \<le> b" using u bd 3 by linarith
    moreover have "a = 13 \<Longrightarrow> b < 32" using u bd assms by (simp add: is_high_def is_low_def)
    ultimately have "utf8_step (unat (byte_of (224 + a)))
        (byte_of (128 + b) # byte_of (128 + c) # bs) = ([u], 2)"
      using bd u by (cases "a = 0"; cases "a = 13") (simp_all add: utf8_step_def utf8_lead_def is_cont_def)
    then show ?thesis using 3 assms
      by (simp add: utf8_unit_def utf8_decode_step a_def b_def c_def)
  qed
qed

lemma utf8_decode_pair:
  assumes "is_high u" "is_low v"
  shows "utf8_decode (utf8_pair u v @ bs) = u # v # utf8_decode bs"
proof -
  define cp where "cp = 65536 + (u - 55296) * 1024 + (v - 56320)"
  define a b c d where "a = cp div 262144" and "b = cp div 4096 mod 64"
    and "c = cp div 64 mod 64" and "d = cp mod 64"
  have cpb: "65536 \<le> cp" "cp < 1114112" using assms by (auto simp: cp_def is_high_def is_low_def)
  have cp: "cp = a * 262144 + b * 4096 + c * 64 + d"
    unfolding a_def b_def c_def d_def
    using base64_step [of cp] base64_step2 [of cp 64] base64_step2 [of cp 4096] unfolding num_eqs by linarith
  have bd: "b < 64" "c < 64" "d < 64" "a \<le> 4" using cpb by (auto simp: a_def b_def c_def d_def)
  have lim: "a = 0 \<Longrightarrow> 16 \<le> b" "a = 4 \<Longrightarrow> b < 16" using cp bd cpb by linarith+
  have "u = 55296 + (u - 55296)" "v = 56320 + (v - 56320)" "v - 56320 < 1024"
    using assms by (auto simp: is_high_def is_low_def)
  then obtain x y where xy: "u = 55296 + x" "v = 56320 + y" "y < 1024" by metis
  have un: "units_of_cp cp = [u, v]"
    using xy(3) by (simp add: units_of_cp_def cp_def xy(1,2))
  have "utf8_step (unat (byte_of (240 + a)))
      (byte_of (128 + b) # byte_of (128 + c) # byte_of (128 + d) # bs) = ([u, v], 3)"
    using bd lim un [unfolded cp]
    by (cases "a = 0"; cases "a = 4") (simp_all add: utf8_step_def utf8_lead_def is_cont_def)
  then show ?thesis
    by (simp add: utf8_pair_def Let_def utf8_decode_step flip: cp_def a_def b_def c_def d_def)
qed

lemma utf8_decode_encode_append:
  "wf_utf16 s \<Longrightarrow> utf8_decode (utf8_encode s @ bs) = s @ utf8_decode bs"
proof (induction s rule: utf8_encode.induct)
  case (3 u v s)
  then show ?case
    by (cases "is_high u")
       (auto simp: utf8_decode_pair utf8_decode_unit is_low_def is_high_def)
qed (simp_all add: utf8_decode_unit)

lemma utf8_decode_encode [simp]: "wf_utf16 s \<Longrightarrow> utf8_decode (utf8_encode s) = s"
  using utf8_decode_encode_append [of s "[]"] by simp

definition is_ascii :: "jsstring \<Rightarrow> bool" where
  "is_ascii s \<longleftrightarrow> list_all (\<lambda>u. u < 128) s"

lemma ascii_wf_utf16: "is_ascii s \<Longrightarrow> wf_utf16 s"
  by (induction s rule: wf_utf16.induct) (auto simp: is_ascii_def is_high_def is_low_def)

lemma is_ascii_simps [simp]:
  "is_ascii []" "is_ascii (u # s) \<longleftrightarrow> u < 128 \<and> is_ascii s"
  by (simp_all add: is_ascii_def)

lemma utf8_encode_ascii: "is_ascii s \<Longrightarrow> utf8_encode s = map byte_of s"
  by (induction s rule: utf8_encode.induct) (auto simp: utf8_unit_def is_high_def)

lemma utf8_decode_ascii: "is_ascii s \<Longrightarrow> utf8_decode (map byte_of s) = s"
  by (metis ascii_wf_utf16 utf8_decode_encode utf8_encode_ascii)

lemma length_utf8_unit:
  "length (utf8_unit u) = (if u < 128 then 1 else if u < 2048 then 2 else 3)"
  by (simp add: utf8_unit_def)

lemma length_utf8_pair [simp]: "length (utf8_pair u v) = 4"
  by (simp add: utf8_pair_def Let_def)

lemma wf_utf16_append: "wf_utf16 s \<Longrightarrow> wf_utf16 t \<Longrightarrow> wf_utf16 (s @ t)"
proof (induction s rule: wf_utf16.induct)
  case (2 u)
  then show ?case by (cases t) auto
qed (auto split: if_splits)

lemma utf8_encode_eq_Nil [simp]: "utf8_encode s = [] \<longleftrightarrow> s = []"
  by (cases s rule: utf8_encode.cases) (auto simp: utf8_unit_def utf8_pair_def Let_def)

lemma wf_utf16_join:
  "\<forall>w \<in> set ws. wf_utf16 w \<Longrightarrow> wf_utf16 sep \<Longrightarrow> wf_utf16 (js_join sep ws)"
  by (induction sep ws rule: js_join.induct) (auto intro: wf_utf16_append)

end
