(* ===== verification/SshError.thy ===== *)
theory SshError
  imports Utf8
begin

text \<open>
  The exceptions of \<open>src/core/ssh\<close>, one datatype per file that throws them and one constructor
  per message of a \<open>throw\<close>, with the values the message shows where a caller or a property
  looks at them.  \<open>NodeRangeError\<close> is the \<open>RangeError\<close> of Node's fixed-width buffer writers;
  \<open>NodeCryptoError\<close> is an exception of \<open>node:crypto\<close>.
\<close>

datatype binary_error = Uint32OutOfRange | NegativeMpint | UnexpectedEnd | NodeRangeError

datatype packet_error =
    BlockSizeTooSmall | PacketTooShort | PacketMisaligned | PacketLengthMismatch
  | PaddingTooShort | PayloadLengthInvalid
  | PacketLengthBelowMinimum int | PacketLengthAboveMaximum int | PacketLengthMisaligned
  | PacketBufferExceeded string | MacVerificationFailed | MidPacketSwitch

datatype version_error =
    UnsupportedVersionCharacters | NotVersionLine | MalformedVersionLine
  | UnsupportedProtocol jsstring | EmptySoftwareVersion

datatype message_error =
    CookieLengthInvalid | MissingCookie | UnexpectedMessage int int | TrailingBytes string
  | EmptyPayload | ExpectedGlobalRequest | ChannelRecipientOutOfRange
  | NoCompatibleAlgorithm string

datatype channel_error =
    UnknownChannel int | ChannelNotOpening int | RemoteIdInvalid int | RemoteWindowInvalid int
  | RemoteMaximumInvalid int | WindowBytesNegative | RemoteWindowExhausted int
  | RemoteWindowOverflow int | LocalWindowExhausted int | AcknowledgedBytesNegative
  | AcknowledgedTooMuch int | NotOpenForSending int | NotOpenForReceiving int

datatype key_error =
    UnsupportedCipher jsstring | UnsupportedMac jsstring | NegativeInteger
  | X25519KeyLength | Ed25519KeyLength | UnsupportedHostKeyAlgorithm jsstring
  | UnsupportedRsaSignature jsstring | UnsupportedEcdsaSignature jsstring
  | CoordinateTooLong | NodeCryptoError

datatype session_error =
    InvalidPhase | ClientKexInitMissing | UnsupportedKex jsstring | KexStateIncomplete
  | HostKeyMismatch jsstring jsstring jsstring jsstring "jsstring list"
  | HostKeyChanged jsstring jsstring | HostKeyInconsistent jsstring
  | UnsupportedNegotiatedHostKey jsstring | SignatureVerificationFailed
  | ExpectedNewKeys | UnexpectedServiceAccept jsstring | UnexpectedAuthResult int
  | ChannelNotConfirmed int | MaximumPacketSizeExceeded int
  | InboundPacketSizeExceeded int | UnexpectedChannelMessage int | SessionIdMissing

datatype pbkdf_error = PbkdfRounds | PbkdfPassphrase | PbkdfSalt | PbkdfKeyLength

datatype key_problem = UnsupportedEncryption | PassphraseRequired | WrongPassphrase | SecurityKey

datatype load_message =
    LoadUnsupportedEncryption | LoadPassphraseRequired | LoadSecurityKey | LoadWrongPassphrase
  | LoadCheckFormatAndPassphrase

datatype key_file_error =
    KeyProblem key_problem | PemBodyEmpty | MagicMissing | EnvelopeTrailingBytes
  | BcryptOptionsTrailingBytes | SectionNotWholeBlocks | TrailerDoesNotFit | PublicKeyCount int
  | CheckintsDiffer | Ed25519PublicLength nat | Ed25519PrivateLength nat | EcdsaPointInvalid
  | UnsupportedKeyType jsstring | UnsupportedKeyCurve jsstring | KeyPaddingInvalid
  | NegativeKeyInteger | KeyIntegerTooLarge | BigIntDivisionByZero
  | KeyTextEmpty | KeyTextPublicKey | KeyTextNoHeader
  | IncompatibleKeyAlgorithm jsstring | UnsupportedPublicKeyType jsstring | UnsupportedPublicCurve "jsstring option"
  | RsaKeyIncomplete | BigIntSyntax | KeyLoadFailed load_message

datatype ssh_error =
    KdfError pbkdf_error
  | KeyFileError key_file_error
  | BinaryError binary_error
  | PacketError packet_error
  | VersionError version_error
  | MessageError message_error
  | ChannelError channel_error
  | KeyError key_error
  | SessionError session_error

end
