(* ===== verification/SshBinary.thy ===== *)
theory SshBinary
  imports SshError
begin

text \<open>
  \<open>src/core/ssh/binary.ts\<close>: the writer and the reader of SSH wire data.
  A writer is the list of its chunks; a method returns the extended writer or the error it throws.
  A reader is its buffer and offset; a method returns its result and the reader, because the
  offset survives a \<open>throw\<close> (a \<open>string\<close> whose body is missing has already read its length).

  The interface the message codecs rely on is the locale \<open>codec\<close>: decoding what was encoded
  returns the value and leaves the reader right behind it, and its strengthening
  \<open>canonical_codec\<close>: whatever decodes was encoded so.  Both are interpreted on the
  methods of this file.
\<close>

section \<open>The writer\<close>

type_synonym writer = "bytes list"

definition enc_byte :: "int \<Rightarrow> bytes" where
  "enc_byte n = [byte_of_int n]"

definition enc_uint32 :: "int \<Rightarrow> bytes" where
  "enc_uint32 n =
     [byte_of_int (n div 16777216), byte_of_int (n div 65536), byte_of_int (n div 256), byte_of_int n]"

definition uint32_ok :: "int \<Rightarrow> bool" where
  "uint32_ok n \<longleftrightarrow> 0 \<le> n \<and> n \<le> 0xffffffff"

definition w_byte :: "int \<Rightarrow> writer \<Rightarrow> ssh_error + writer" where
  "w_byte n w = Inr (w @ [enc_byte n])"

definition w_boolean :: "bool \<Rightarrow> writer \<Rightarrow> ssh_error + writer" where
  "w_boolean b = w_byte (if b then 1 else 0)"

definition w_uint32 :: "int \<Rightarrow> writer \<Rightarrow> ssh_error + writer" where
  "w_uint32 n w =
     (if n < 0 \<or> n > 0xffffffff then Inl (BinaryError Uint32OutOfRange) else Inr (w @ [enc_uint32 n]))"

definition w_buffer :: "bytes \<Rightarrow> writer \<Rightarrow> ssh_error + writer" where
  "w_buffer b w = res_bind (w_uint32 (int (length b)) w) (\<lambda>w'. Inr (w' @ [b]))"

definition w_text :: "jsstring \<Rightarrow> writer \<Rightarrow> ssh_error + writer" where
  "w_text s = w_buffer (utf8_encode s)"

definition w_nameList :: "jsstring list \<Rightarrow> writer \<Rightarrow> ssh_error + writer" where
  "w_nameList names = w_text (js_join (js '','') names)"

text \<open>\<open>Buffer.from(hex, "hex")\<close> on an even number of hexadecimal digits.\<close>

fun hex_bytes :: "jsstring \<Rightarrow> bytes" where
  "hex_bytes (a # b # s) = byte_of (16 * digit_val a + digit_val b) # hex_bytes s"
| "hex_bytes _ = []"

text \<open>\<open>buffer.toString("hex")\<close>.\<close>

definition bytes_hex :: "bytes \<Rightarrow> jsstring" where
  "bytes_hex bs = concat (map (\<lambda>b. [digit_unit (unat b div 16), digit_unit (unat b mod 16)]) bs)"

definition mpint_bytes :: "nat \<Rightarrow> bytes" where
  "mpint_bytes v =
     (let hex = radix_string 16 v;
          hex = (if odd (length hex) then 48 # hex else hex);
          bytes = hex_bytes hex
      in if bytes \<noteq> [] \<and> bit (hd bytes) 7 then 0 # bytes else bytes)"

definition w_mpint :: "int \<Rightarrow> writer \<Rightarrow> ssh_error + writer" where
  "w_mpint v w =
     (if v < 0 then Inl (BinaryError NegativeMpint)
      else if v = 0 then w_buffer [] w
      else w_buffer (mpint_bytes (nat v)) w)"

definition w_raw :: "bytes \<Rightarrow> writer \<Rightarrow> ssh_error + writer" where
  "w_raw b w = Inr (w @ [b])"

definition w_toBuffer :: "writer \<Rightarrow> bytes" where
  "w_toBuffer w = concat w"

text \<open>A fluent chain \<open>new SshBinaryWriter().m1().m2() \<dots> .toBuffer()\<close>.\<close>

fun w_chain :: "(writer \<Rightarrow> ssh_error + writer) list \<Rightarrow> writer \<Rightarrow> ssh_error + writer" where
  "w_chain [] w = Inr w"
| "w_chain (m # ms) w = res_bind (m w) (w_chain ms)"

definition w_run :: "(writer \<Rightarrow> ssh_error + writer) list \<Rightarrow> ssh_error + bytes" where
  "w_run ms = res_bind (w_chain ms []) (\<lambda>w. Inr (w_toBuffer w))"

section \<open>The reader\<close>

record reader =
  rd_buffer :: bytes
  rd_offset :: nat

type_synonym 'a reading = "(reader, ssh_error, 'a) op"

definition rd_new :: "bytes \<Rightarrow> reader" where
  "rd_new b = \<lparr>rd_buffer = b, rd_offset = 0\<rparr>"

definition rd_ensure :: "nat \<Rightarrow> unit reading" where
  "rd_ensure n r =
     (if rd_offset r + n > length (rd_buffer r) then Inl (BinaryError UnexpectedEnd) else Inr (), r)"

definition rd_skip :: "nat \<Rightarrow> unit reading" where
  "rd_skip n = op_modify (\<lambda>r. r\<lparr>rd_offset := rd_offset r + n\<rparr>)"

definition rd_slice :: "nat \<Rightarrow> bytes reading" where
  "rd_slice n = op_get (\<lambda>r. take n (drop (rd_offset r) (rd_buffer r)))"

definition be_value :: "bytes \<Rightarrow> int" where
  "be_value bs = foldl (\<lambda>a b. 256 * a + uint b) 0 bs"

definition rd_byte :: "int reading" where
  "rd_byte = op_bind (rd_ensure 1) (\<lambda>_. op_bind (rd_slice 1) (\<lambda>b. op_bind (rd_skip 1) (\<lambda>_.
     op_return (be_value b))))"

definition rd_boolean :: "bool reading" where
  "rd_boolean = op_bind rd_byte (\<lambda>b. op_return (b \<noteq> 0))"

definition rd_uint32 :: "int reading" where
  "rd_uint32 = op_bind (rd_ensure 4) (\<lambda>_. op_bind (rd_slice 4) (\<lambda>b. op_bind (rd_skip 4) (\<lambda>_.
     op_return (be_value b))))"

definition rd_string :: "bytes reading" where
  "rd_string = op_bind rd_uint32 (\<lambda>n. op_bind (rd_ensure (nat n)) (\<lambda>_.
     op_bind (rd_slice (nat n)) (\<lambda>v. op_bind (rd_skip (nat n)) (\<lambda>_. op_return v))))"

definition rd_utf8String :: "jsstring reading" where
  "rd_utf8String = op_bind rd_string (\<lambda>b. op_return (utf8_decode b))"

definition rd_nameList :: "jsstring list reading" where
  "rd_nameList = op_bind rd_utf8String (\<lambda>raw.
     op_return (if raw \<noteq> [] then split_on (js '','') raw else []))"

definition rd_mpint :: "int reading" where
  "rd_mpint = op_bind rd_string (\<lambda>bs.
     if bs = [] then op_return 0
     else if bit (hd bs) 7 then op_throw (BinaryError NegativeMpint)
     else op_return (int (radix_value 16 (bytes_hex bs))))"

definition rd_remaining :: "bytes reading" where
  "rd_remaining = op_get (\<lambda>r. drop (rd_offset r) (rd_buffer r))"

definition rd_eof :: "bool reading" where
  "rd_eof = op_get (\<lambda>r. rd_offset r = length (rd_buffer r))"

text \<open>A decoder of a whole payload: the result of reading it from the start.\<close>

definition read_all :: "'a reading \<Rightarrow> bytes \<Rightarrow> ssh_error + 'a" where
  "read_all m b = fst (m (rd_new b))"

section \<open>A reader in the middle of its buffer\<close>

text \<open>\<open>rdr p s\<close> has consumed \<open>p\<close> and has \<open>s\<close> before it.\<close>

definition rdr :: "bytes \<Rightarrow> bytes \<Rightarrow> reader" where
  "rdr p s = \<lparr>rd_buffer = p @ s, rd_offset = length p\<rparr>"

lemma rd_new_rdr: "rd_new b = rdr [] b"
  by (simp add: rd_new_def rdr_def)

lemma rdr_inject: "rdr p s = rdr p' s' \<longleftrightarrow> p = p' \<and> s = s'"
  by (auto simp: rdr_def)

lemma rd_ensure_rdr [codec_simps]:
  "rd_ensure n (rdr p s) = (if n \<le> length s then Inr () else Inl (BinaryError UnexpectedEnd), rdr p s)"
  by (simp add: rd_ensure_def rdr_def not_le)

lemma rd_skip_rdr [codec_simps]:
  "n \<le> length s \<Longrightarrow> rd_skip n (rdr p s) = (Inr (), rdr (p @ take n s) (drop n s))"
  by (simp add: rd_skip_def rdr_def op_defs min_def)

lemma rd_slice_rdr [codec_simps]: "rd_slice n (rdr p s) = (Inr (take n s), rdr p s)"
  by (simp add: rd_slice_def rdr_def op_defs)

lemma rd_remaining_rdr [codec_simps]: "rd_remaining (rdr p s) = (Inr s, rdr p s)"
  by (simp add: rd_remaining_def rdr_def op_defs)

lemma rd_eof_rdr [codec_simps]: "rd_eof (rdr p s) = (Inr (s = []), rdr p s)"
  by (simp add: rd_eof_def rdr_def op_defs)

section \<open>The codec interface\<close>

locale codec =
  fixes enc :: "'a \<Rightarrow> bytes" and dec :: "'a reading" and ok :: "'a \<Rightarrow> bool"
  assumes dec_enc: "ok x \<Longrightarrow> dec (rdr p (enc x @ s)) = (Inr x, rdr (p @ enc x) s)"
begin

lemma dec_last: "ok x \<Longrightarrow> dec (rdr p (enc x)) = (Inr x, rdr (p @ enc x) [])"
  using dec_enc [of x p "[]"] by simp

lemma dec_bind: "ok x \<Longrightarrow> op_bind dec f (rdr p (enc x @ s)) = f x (rdr (p @ enc x) s)"
  by (simp add: op_bind_def dec_enc)

lemma dec_bind_last: "ok x \<Longrightarrow> op_bind dec f (rdr p (enc x)) = f x (rdr (p @ enc x) [])"
  by (simp add: op_bind_def dec_last)

lemma prefix_free:
  assumes "ok x" "ok y" "enc x @ s = enc y @ t"
  shows "x = y \<and> s = t"
proof -
  have "(Inr x, rdr ([] @ enc x) s) = (Inr y :: ssh_error + 'a, rdr ([] @ enc y) t)"
    using dec_enc [OF assms(1), of "[]" s] dec_enc [OF assms(2), of "[]" t] unfolding assms(3)
    by (rule trans [OF sym])
  then show ?thesis by (simp add: rdr_inject)
qed

end

locale canonical_codec = codec +
  assumes dec_inv: "dec (rdr p s) = (Inr x, r) \<Longrightarrow> ok x \<and> (\<exists>t. s = enc x @ t \<and> r = rdr (p @ enc x) t)"
begin

lemma dec_iff: "dec (rdr p s) = (Inr x, r) \<longleftrightarrow> ok x \<and> (\<exists>t. s = enc x @ t \<and> r = rdr (p @ enc x) t)"
  using dec_inv dec_enc by auto

lemma bind_iff:
  "op_bind dec f (rdr p s) = (Inr y, r) \<longleftrightarrow>
     (\<exists>x t. ok x \<and> s = enc x @ t \<and> f x (rdr (p @ enc x) t) = (Inr y, r))"
proof
  assume "op_bind dec f (rdr p s) = (Inr y, r)"
  then obtain x r' where d: "dec (rdr p s) = (Inr x, r')" and f: "f x r' = (Inr y, r)"
    by (rule op_bind_InrE)
  then show "\<exists>x t. ok x \<and> s = enc x @ t \<and> f x (rdr (p @ enc x) t) = (Inr y, r)"
    using dec_inv [OF d] by auto
qed (auto simp: dec_bind)

end

section \<open>The codecs of the reader's methods\<close>

definition byte_ok :: "int \<Rightarrow> bool" where
  "byte_ok n \<longleftrightarrow> 0 \<le> n \<and> n < 256"

definition enc_boolean :: "bool \<Rightarrow> bytes" where
  "enc_boolean b = enc_byte (if b then 1 else 0)"

definition enc_buffer :: "bytes \<Rightarrow> bytes" where
  "enc_buffer b = enc_uint32 (int (length b)) @ b"

definition buffer_ok :: "bytes \<Rightarrow> bool" where
  "buffer_ok b \<longleftrightarrow> length b \<le> 0xffffffff"

definition enc_text :: "jsstring \<Rightarrow> bytes" where
  "enc_text s = enc_buffer (utf8_encode s)"

definition text_ok :: "jsstring \<Rightarrow> bool" where
  "text_ok s \<longleftrightarrow> wf_utf16 s \<and> buffer_ok (utf8_encode s)"

definition enc_nameList :: "jsstring list \<Rightarrow> bytes" where
  "enc_nameList names = enc_text (js_join (js '','') names)"

text \<open>
  A name list survives the trip when no name holds a comma and it is not the list of one
  empty name, which the wire cannot tell from the empty list.
\<close>

definition nameList_ok :: "jsstring list \<Rightarrow> bool" where
  "nameList_ok names \<longleftrightarrow> (\<forall>w \<in> set names. wf_utf16 w \<and> 44 \<notin> set w) \<and> names \<noteq> [[]]
     \<and> buffer_ok (utf8_encode (js_join (js '','') names))"

definition enc_mpint :: "int \<Rightarrow> bytes" where
  "enc_mpint v = enc_buffer (if v = 0 then [] else mpint_bytes (nat v))"

definition mpint_ok :: "int \<Rightarrow> bool" where
  "mpint_ok v \<longleftrightarrow> 0 \<le> v \<and> buffer_ok (if v = 0 then [] else mpint_bytes (nat v))"

lemma be_value_simps [simp]:
  "be_value [] = 0"
  "be_value (bs @ [b]) = 256 * be_value bs + uint b"
  by (simp_all add: be_value_def)

lemma length_enc_byte [simp]: "length (enc_byte n) = 1"
  by (simp add: enc_byte_def)

lemma length_enc_uint32 [simp]: "length (enc_uint32 n) = 4"
  by (simp add: enc_uint32_def)

lemma be_value_byte: "be_value [b] = uint b"
  by (simp add: be_value_def)

lemma be_value_4:
  "be_value [a, b, c, d] = uint a * 16777216 + uint b * 65536 + uint c * 256 + uint d"
  by (simp add: be_value_def algebra_simps)

lemma be_value_enc_byte: "byte_ok n \<Longrightarrow> be_value (enc_byte n) = n"
  by (simp add: enc_byte_def be_value_byte byte_ok_def)

lemma int_byte_split: "(n :: int) = 256 * (n div 256) + n mod 256"
  by simp

lemma byte_digit:
  assumes "0 \<le> x" "x < (256 :: int)"
  shows "(x + 256 * y) div 256 = y" and "(x + 256 * y) mod 256 = x"
  using assms by simp_all

lemma uint32_digits:
  assumes "0 \<le> n" "n \<le> 0xffffffff"
  shows "(n div 16777216) mod 256 * 16777216 + (n div 65536) mod 256 * 65536
    + (n div 256) mod 256 * 256 + n mod 256 = (n :: int)"
proof -
  have "n div 256 = 256 * (n div 65536) + n div 256 mod 256"
    using int_byte_split [of "n div 256"] by (simp flip: zdiv_zmult2_eq)
  moreover have "n div 65536 = 256 * (n div 16777216) + n div 65536 mod 256"
    using int_byte_split [of "n div 65536"] by (simp flip: zdiv_zmult2_eq)
  moreover have "n div 16777216 mod 256 = n div 16777216" using assms by simp
  ultimately show ?thesis using int_byte_split [of n] by linarith
qed

lemma be_value_enc_uint32: "uint32_ok n \<Longrightarrow> be_value (enc_uint32 n) = n"
  unfolding enc_uint32_def be_value_4 uint_byte_of_int uint32_ok_def
  by (rule uint32_digits) auto

lemma be_value_4_bounds: "0 \<le> be_value [a, b, c, d] \<and> be_value [a, b, c, d] \<le> 0xffffffff"
proof -
  have "uint x \<le> 255" "0 \<le> uint x" for x :: byte by simp_all
  from this [of a] this [of b] this [of c] this [of d] show ?thesis
    unfolding be_value_4 by linarith
qed

lemma enc_uint32_be_value: "enc_uint32 (be_value [a, b, c, d]) = [a, b, c, d]"
proof -
  have bd: "0 \<le> uint x" "uint x < 256" for x :: byte by simp_all
  let ?n = "be_value [a, b, c, d]"
  have n: "?n = uint d + 256 * (uint c + 256 * (uint b + 256 * uint a))"
    by (simp add: be_value_4)
  have d1: "?n div 256 = uint c + 256 * (uint b + 256 * uint a)" and m1: "?n mod 256 = uint d"
    unfolding n using bd by (rule byte_digit)+
  have q2: "?n div 65536 = ?n div 256 div 256" and q3: "?n div 16777216 = ?n div 65536 div 256"
    by (simp_all flip: zdiv_zmult2_eq)
  have d2: "?n div 65536 = uint b + 256 * uint a" and m2: "?n div 256 mod 256 = uint c"
    unfolding q2 d1 using bd by (rule byte_digit)+
  have d3: "?n div 16777216 = uint a" and m3: "?n div 65536 mod 256 = uint b"
    unfolding q3 d2 using bd by (rule byte_digit)+
  have m4: "?n div 16777216 mod 256 = uint a" using bd(1,2) [of a] by (simp add: d3)
  show ?thesis
    unfolding enc_uint32_def by (simp add: byte_of_int_mod_eq m1 m2 m3 m4)
qed

lemma rd_byte_rdr:
  "rd_byte (rdr p s) = (if s = [] then (Inl (BinaryError UnexpectedEnd), rdr p s)
     else (Inr (uint (hd s)), rdr (p @ [hd s]) (tl s)))"
  by (cases s) (simp_all add: rd_byte_def op_simps codec_simps be_value_byte)

interpretation byte_codec: canonical_codec enc_byte rd_byte byte_ok
proof
  show "byte_ok x \<Longrightarrow> rd_byte (rdr p (enc_byte x @ s)) = (Inr x, rdr (p @ enc_byte x) s)" for x p s
    by (simp add: rd_byte_rdr enc_byte_def byte_ok_def)
  show "rd_byte (rdr p s) = (Inr x, r) \<Longrightarrow>
      byte_ok x \<and> (\<exists>t. s = enc_byte x @ t \<and> r = rdr (p @ enc_byte x) t)" for p s x r
    by (cases s) (auto simp: rd_byte_rdr enc_byte_def byte_ok_def)
qed

interpretation boolean_codec: codec enc_boolean rd_boolean "\<lambda>_. True"
proof
  show "rd_boolean (rdr p (enc_boolean x @ s)) = (Inr x, rdr (p @ enc_boolean x) s)" for x p s
    by (cases x) (simp_all add: rd_boolean_def enc_boolean_def byte_codec.dec_bind byte_ok_def op_return_def)
qed

lemma list_4: "length s = 4 \<Longrightarrow> \<exists>a b c d. s = [a, b, c, d]"
  by (auto simp: numeral_eq_Suc length_Suc_conv)

lemma rd_uint32_rdr:
  "rd_uint32 (rdr p s) =
     (if length s < 4 then (Inl (BinaryError UnexpectedEnd), rdr p s)
      else (Inr (be_value (take 4 s)), rdr (p @ take 4 s) (drop 4 s)))"
  by (simp add: rd_uint32_def op_simps codec_simps)

interpretation uint32_codec: canonical_codec enc_uint32 rd_uint32 uint32_ok
proof
  show "uint32_ok x \<Longrightarrow> rd_uint32 (rdr p (enc_uint32 x @ s)) = (Inr x, rdr (p @ enc_uint32 x) s)" for x p s
    by (simp add: rd_uint32_rdr be_value_enc_uint32)
  fix p s x r
  assume "rd_uint32 (rdr p s) = (Inr x, r)"
  then have len: "4 \<le> length s" and x: "x = be_value (take 4 s)"
    and r: "r = rdr (p @ take 4 s) (drop 4 s)"
    by (auto simp: rd_uint32_rdr split: if_splits)
  obtain a b c d where t: "take 4 s = [a, b, c, d]" using list_4 [of "take 4 s"] len by auto
  then have e: "enc_uint32 x = take 4 s" using enc_uint32_be_value x by simp
  moreover have "uint32_ok x" using be_value_4_bounds x t by (simp add: uint32_ok_def)
  ultimately show "uint32_ok x \<and> (\<exists>t. s = enc_uint32 x @ t \<and> r = rdr (p @ enc_uint32 x) t)"
    using r by (auto intro!: exI [of _ "drop 4 s"])
qed

lemma buffer_ok_uint32: "buffer_ok b \<longleftrightarrow> uint32_ok (int (length b))"
  by (simp add: buffer_ok_def uint32_ok_def)

interpretation buffer_codec: canonical_codec enc_buffer rd_string buffer_ok
proof
  show "buffer_ok x \<Longrightarrow> rd_string (rdr p (enc_buffer x @ s)) = (Inr x, rdr (p @ enc_buffer x) s)" for x p s
    by (simp add: rd_string_def enc_buffer_def uint32_codec.dec_bind buffer_ok_uint32)
       (simp add: op_simps codec_simps)
  fix p s x r
  assume "rd_string (rdr p s) = (Inr x, r)"
  then obtain n t where n: "uint32_ok n" "s = enc_uint32 n @ t"
    and body: "op_bind (rd_ensure (nat n)) (\<lambda>_. op_bind (rd_slice (nat n)) (\<lambda>v.
        op_bind (rd_skip (nat n)) (\<lambda>_. op_return v))) (rdr (p @ enc_uint32 n) t) = (Inr x, r)"
    unfolding rd_string_def uint32_codec.bind_iff by auto
  then have k: "nat n \<le> length t" "x = take (nat n) t"
    "r = rdr ((p @ enc_uint32 n) @ take (nat n) t) (drop (nat n) t)"
    by (auto simp: op_simps codec_simps split: if_splits)
  then have "int (length x) = n" "s = enc_buffer x @ drop (nat n) t"
    using n by (auto simp: uint32_ok_def enc_buffer_def)
  then show "buffer_ok x \<and> (\<exists>t. s = enc_buffer x @ t \<and> r = rdr (p @ enc_buffer x) t)"
    using n k by (auto simp: buffer_ok_uint32 enc_buffer_def intro!: exI [of _ "drop (nat n) t"])
qed

interpretation text_codec: codec enc_text rd_utf8String text_ok
proof
  show "text_ok x \<Longrightarrow> rd_utf8String (rdr p (enc_text x @ s)) = (Inr x, rdr (p @ enc_text x) s)" for x p s
    by (simp add: rd_utf8String_def enc_text_def text_ok_def buffer_codec.dec_bind op_return_def)
qed

lemma js_join_eq_Nil: "js_join [c] names = [] \<longleftrightarrow> names = [] \<or> names = [[]]"
  by (induction "[c]" names rule: js_join.induct) auto

lemma js_comma: "js '','' = [44]"
  by (simp add: of_char_def)

interpretation nameList_codec: codec enc_nameList rd_nameList nameList_ok
proof
  fix x p s
  assume ok: "nameList_ok x"
  have t: "text_ok (js_join (js '','') x)"
    using ok wf_utf16_join [of x "[44]"]
    by (simp add: nameList_ok_def text_ok_def js_comma is_high_def is_low_def)
  have "(if js_join (js '','') x \<noteq> [] then split_on (js '','') (js_join (js '','') x) else []) = x"
    using ok by (auto simp: js_comma js_join_eq_Nil nameList_ok_def split_join)
  then show "rd_nameList (rdr p (enc_nameList x @ s)) = (Inr x, rdr (p @ enc_nameList x) s)"
    using t by (simp only: rd_nameList_def enc_nameList_def text_codec.dec_bind op_return_def)
qed

section \<open>Multi-precision integers\<close>

fun be_bytes :: "nat \<Rightarrow> bytes" where
  "be_bytes n = (if n < 256 then [byte_of n] else be_bytes (n div 256) @ [byte_of (n mod 256)])"

declare be_bytes.simps [simp del]

lemma hex_bytes_append: "even (length s) \<Longrightarrow> hex_bytes (s @ t) = hex_bytes s @ hex_bytes t"
  by (induction s rule: hex_bytes.induct) auto

text \<open>The detour through hexadecimal text computes the big-endian bytes.\<close>

lemma padded_hex_step:
  assumes "256 \<le> n"
  shows "radix_string 16 n = radix_string 16 (n div 256) @ [digit_unit (n div 16 mod 16), digit_unit (n mod 16)]"
proof -
  have "radix_string 16 n = radix_string 16 (n div 16) @ [digit_unit (n mod 16)]"
    using assms by (subst radix_string.simps) simp
  also have "radix_string 16 (n div 16) = radix_string 16 (n div 16 div 16) @ [digit_unit (n div 16 mod 16)]"
    using assms by (subst radix_string.simps) simp
  finally show ?thesis by (simp flip: div_mult2_eq)
qed

definition padded_hex :: "nat \<Rightarrow> jsstring" where
  "padded_hex n = (let hex = radix_string 16 n in if odd (length hex) then 48 # hex else hex)"

lemma even_padded_hex [simp]: "even (length (padded_hex n))"
  by (simp add: padded_hex_def Let_def)

lemma hex_bytes_padded: "hex_bytes (padded_hex n) = be_bytes n"
proof (induction n rule: be_bytes.induct)
  case (1 n)
  consider "n < 16" | "16 \<le> n" "n < 256" | "256 \<le> n" by linarith
  then show ?case
  proof cases
    case 1
    then have "radix_string 16 n = [digit_unit n]" by (subst radix_string.simps) simp
    then show ?thesis using 1
      by (simp add: padded_hex_def be_bytes.simps [of n] digit_val_def [of 48])
  next
    case 2
    then have "radix_string 16 n = [digit_unit (n div 16), digit_unit (n mod 16)]"
      by (simp add: radix_string.simps [of 16 n] radix_string.simps [of 16 "n div 16"])
    then show ?thesis using 2 by (simp add: padded_hex_def be_bytes.simps [of n])
  next
    case 3
    have step: "padded_hex n = padded_hex (n div 256) @ [digit_unit (n div 16 mod 16), digit_unit (n mod 16)]"
      using 3 by (simp add: padded_hex_def Let_def padded_hex_step)
    have "16 * (n div 16 mod 16) + n mod 16 = n mod 256"
      using mod_mult2_eq [of n 16 16] by simp
    then show ?thesis using 3 1 by (simp add: step hex_bytes_append be_bytes.simps [of n])
  qed
qed

lemma mpint_bytes_alt:
  "mpint_bytes v = (if bit (hd (be_bytes v)) 7 then 0 # be_bytes v else be_bytes v)"
proof -
  have "be_bytes v \<noteq> []" by (subst be_bytes.simps) simp
  then show ?thesis
    by (simp add: mpint_bytes_def Let_def hex_bytes_padded [unfolded padded_hex_def Let_def])
qed

lemma bytes_hex_simps [simp]:
  "bytes_hex [] = []"
  "bytes_hex (b # bs) = digit_unit (unat b div 16) # digit_unit (unat b mod 16) # bytes_hex bs"
  by (simp_all add: bytes_hex_def)

lemma bytes_hex_append [simp]: "bytes_hex (a @ b) = bytes_hex a @ bytes_hex b"
  by (simp add: bytes_hex_def)

lemma radix_value_append2:
  assumes "d < 16" "e < 16"
  shows "radix_value 16 (s @ [digit_unit d, digit_unit e]) = 256 * radix_value 16 s + (16 * d + e)"
  using assms radix_value_simps(2) [of 16 "s @ [digit_unit d]"] by simp

lemma nibble_split:
  fixes n :: nat
  assumes "n < 256"
  obtains d e where "n div 16 = d" "n mod 16 = e" "d < 16" "e < 16" "16 * d + e = n"
  using assms by (metis less_mult_imp_div_less mod_less_divisor mult_div_mod_eq numeral_times_numeral
      num_double semiring_norm(13) zero_less_numeral)

lemma hex_value_be: "int (radix_value 16 (bytes_hex bs)) = be_value bs"
proof (induction bs rule: rev_induct)
  case (snoc b bs)
  obtain d e where de: "unat b div 16 = d" "unat b mod 16 = e" "d < 16" "e < 16" "16 * d + e = unat b"
    by (rule nibble_split [OF unat_byte_bounds])
  have "int (radix_value 16 (bytes_hex (bs @ [b]))) = 256 * be_value bs + int (unat b)"
    by (simp only: bytes_hex_append bytes_hex_simps de(1,2) radix_value_append2 [OF de(3,4)] de(5)
        of_nat_add of_nat_mult of_nat_numeral snoc)
  then show ?case by simp
qed simp

lemma be_value_be_bytes: "be_value (be_bytes n) = int n"
proof (induction n rule: be_bytes.induct)
  case (1 n)
  show ?case
  proof (cases "n < 256")
    case True
    then show ?thesis by (simp add: be_bytes.simps [of n] be_value_byte)
  next
    case False
    have "256 * int (n div 256) + int (n mod 256) = int n"
      by (metis mult.commute div_mult_mod_eq of_nat_add of_nat_mult of_nat_numeral)
    with False show ?thesis using 1 by (simp add: be_bytes.simps [of n])
  qed
qed

lemma be_value_zero: "be_value (0 # bs) = be_value bs"
  by (simp add: be_value_def)

lemma be_value_mpint: "be_value (mpint_bytes n) = int n"
  by (simp add: mpint_bytes_alt be_value_be_bytes be_value_zero)

lemma mpint_bytes_positive: "mpint_bytes n \<noteq> [] \<and> \<not> bit (hd (mpint_bytes n)) 7"
proof -
  have "be_bytes n \<noteq> []" by (subst be_bytes.simps) simp
  then show ?thesis by (simp add: mpint_bytes_alt)
qed

interpretation mpint_codec: codec enc_mpint rd_mpint mpint_ok
proof
  fix x p s
  assume ok: "mpint_ok x"
  show "rd_mpint (rdr p (enc_mpint x @ s)) = (Inr x, rdr (p @ enc_mpint x) s)"
  proof (cases "x = 0")
    case True
    then show ?thesis using ok
      by (simp add: rd_mpint_def enc_mpint_def mpint_ok_def buffer_codec.dec_bind op_return_def)
  next
    case False
    then show ?thesis using ok mpint_bytes_positive [of "nat x"]
      by (simp add: rd_mpint_def enc_mpint_def mpint_ok_def buffer_codec.dec_bind op_return_def
          hex_value_be be_value_mpint)
  qed
qed

section \<open>Chains of writer methods\<close>

named_theorems writer_simps "what a chain of writer methods produces"

lemma w_byte_ok [writer_simps]: "w_byte n w = Inr (w @ [enc_byte n])"
  by (simp add: w_byte_def)

lemma w_boolean_ok [writer_simps]: "w_boolean b w = Inr (w @ [enc_boolean b])"
  by (simp add: w_boolean_def w_byte_def enc_boolean_def)

lemma w_uint32_ok [writer_simps]: "uint32_ok n \<Longrightarrow> w_uint32 n w = Inr (w @ [enc_uint32 n])"
  by (simp add: w_uint32_def uint32_ok_def)

lemma w_uint32_bad [writer_simps]:
  "\<not> uint32_ok n \<Longrightarrow> w_uint32 n w = Inl (BinaryError Uint32OutOfRange)"
  by (auto simp: w_uint32_def uint32_ok_def)

lemma w_buffer_ok [writer_simps]:
  "buffer_ok b \<Longrightarrow> w_buffer b w = Inr (w @ [enc_uint32 (int (length b)), b])"
  by (simp add: w_buffer_def w_uint32_ok buffer_ok_uint32)

lemma w_text_ok [writer_simps]:
  "text_ok s \<Longrightarrow> w_text s w = Inr (w @ [enc_uint32 (int (length (utf8_encode s))), utf8_encode s])"
  by (simp add: w_text_def w_buffer_ok text_ok_def)

lemma w_raw_ok [writer_simps]: "w_raw b w = Inr (w @ [b])"
  by (simp add: w_raw_def)

lemma enc_buffer_fold [writer_simps]:
  "enc_uint32 (int (length b)) @ b @ s = enc_buffer b @ s"
  "enc_uint32 (int (length b)) @ b = enc_buffer b"
  by (simp_all add: enc_buffer_def)

lemma enc_text_fold [writer_simps]: "enc_buffer (utf8_encode s) = enc_text s"
  by (simp add: enc_text_def)

lemma w_nameList_ok [writer_simps]:
  "nameList_ok names \<Longrightarrow> w_nameList names w =
     Inr (w @ [enc_uint32 (int (length (utf8_encode (js_join (js '','') names)))),
               utf8_encode (js_join (js '','') names)])"
  using wf_utf16_join [of names "[44]"]
  by (simp add: w_nameList_def w_text_def w_buffer_ok nameList_ok_def)

lemma enc_nameList_fold [writer_simps]: "enc_text (js_join (js '','') names) = enc_nameList names"
  by (simp add: enc_nameList_def)

lemma w_mpint_ok [writer_simps]:
  "mpint_ok v \<Longrightarrow> w_mpint v w =
     Inr (w @ [enc_uint32 (int (length (if v = 0 then [] else mpint_bytes (nat v)))),
               if v = 0 then [] else mpint_bytes (nat v)])"
  by (auto simp: w_mpint_def w_buffer_ok mpint_ok_def)

lemma enc_mpint_fold [writer_simps]: "enc_buffer (if v = 0 then [] else mpint_bytes (nat v)) = enc_mpint v"
  by (simp add: enc_mpint_def)

lemmas w_run_defs = w_run_def w_toBuffer_def

declare w_run_defs [writer_simps]

lemmas codec_bind =
  byte_codec.dec_bind byte_codec.dec_bind_last boolean_codec.dec_bind boolean_codec.dec_bind_last
  uint32_codec.dec_bind uint32_codec.dec_bind_last buffer_codec.dec_bind buffer_codec.dec_bind_last
  text_codec.dec_bind text_codec.dec_bind_last nameList_codec.dec_bind nameList_codec.dec_bind_last
  mpint_codec.dec_bind mpint_codec.dec_bind_last

lemmas codec_bind_iff =
  byte_codec.bind_iff uint32_codec.bind_iff buffer_codec.bind_iff

lemma op_bind_remaining: "op_bind rd_remaining f (rdr p s) = f s (rdr p s)"
  by (simp add: op_bind_Inr codec_simps)

lemma op_bind_eof: "op_bind rd_eof f (rdr p s) = f (s = []) (rdr p s)"
  by (simp add: op_bind_Inr codec_simps)

end
