(* ===== verification/SshPacket.thy ===== *)
theory SshPacket
  imports SshBinary "HOL-Library.Sublist"
begin

text \<open>
  \<open>src/core/ssh/packet.ts\<close>, \<open>packet-codec.ts\<close> and \<open>packet-stream.ts\<close>: binary packets, their
  padding, MAC and encryption, and the readers that cut a TCP byte stream into packets.

  Parameters: \<open>rng\<close> gives the bytes \<open>randomFillSync\<close> fills in (a fresh one for every packet), \<open>hmac\<close> is \<open>createHmac\<close>, and \<open>ks\<close>
  the AES key stream of \<open>node:crypto\<close>; counter mode itself (XOR with the key stream at a running
  position) is defined here.

  Both readers are a loop over one step that either extracts a payload or stops for want of
  input.  The locale \<open>packet_source\<close> states what such a step promises, and proves once that how
  the bytes are cut into chunks does not matter; both readers interpret it.
\<close>

unbundle bit_operations_syntax

section \<open>Packets\<close>

definition MIN_SSH_PACKET_LENGTH :: int where "MIN_SSH_PACKET_LENGTH = 12"
definition MAX_SSH_PACKET_LENGTH :: int where "MAX_SSH_PACKET_LENGTH = 256 * 1024"

record decoded_packet =
  dp_payload :: bytes
  dp_padding :: bytes

definition assertSshPacketLength :: "int \<Rightarrow> int \<Rightarrow> ssh_error + unit" where
  "assertSshPacketLength packetLength blockSize =
     (if packetLength < MIN_SSH_PACKET_LENGTH
        then Inl (PacketError (PacketLengthBelowMinimum packetLength))
      else if packetLength > MAX_SSH_PACKET_LENGTH
        then Inl (PacketError (PacketLengthAboveMaximum packetLength))
      else if (packetLength + 4) mod blockSize \<noteq> 0
        then Inl (PacketError PacketLengthMisaligned)
      else Inr ())"

definition padding_length :: "int \<Rightarrow> int \<Rightarrow> int" where
  "padding_length len blockSize =
     (let p = blockSize - ((len + 5) mod blockSize) in if p < 4 then p + blockSize else p)"

definition encodeSshPacket :: "(nat \<Rightarrow> byte) \<Rightarrow> bytes \<Rightarrow> int \<Rightarrow> ssh_error + bytes" where
  "encodeSshPacket rng payload blockSize =
     (if blockSize < 8 then Inl (PacketError BlockSizeTooSmall)
      else let len = int (length payload);
               paddingLength = padding_length len blockSize;
               packetLength = len + paddingLength + 1
           in res_bind (assertSshPacketLength packetLength blockSize) (\<lambda>_.
                if paddingLength > 255 then Inl (BinaryError NodeRangeError)
                else Inr (enc_uint32 packetLength @ enc_byte paddingLength @ payload @ map rng [0..<nat paddingLength])))"

definition decodeSshPacket :: "bytes \<Rightarrow> int \<Rightarrow> ssh_error + decoded_packet" where
  "decodeSshPacket packet blockSize =
     (if length packet < 5 then Inl (PacketError PacketTooShort)
      else if int (length packet) mod blockSize \<noteq> 0 then Inl (PacketError PacketMisaligned)
      else let packetLength = be_value (take 4 packet) in
        res_bind (assertSshPacketLength packetLength blockSize) (\<lambda>_.
          if packetLength \<noteq> int (length packet) - 4 then Inl (PacketError PacketLengthMismatch)
          else let paddingLength = uint (packet ! 4) in
            if paddingLength < 4 then Inl (PacketError PaddingTooShort)
            else let payloadLength = packetLength - paddingLength - 1 in
              if payloadLength < 0 then Inl (PacketError PayloadLengthInvalid)
              else Inr \<lparr>dp_payload = take (nat payloadLength) (drop 5 packet),
                        dp_padding = drop (5 + nat payloadLength) packet\<rparr>))"

section \<open>Packet protection\<close>

datatype cipher_name = Aes128Ctr | Aes192Ctr | Aes256Ctr
datatype mac_name = HmacSha256 | HmacSha512

record protection_config =
  pc_cipherName :: cipher_name
  pc_encryptionKey :: bytes
  pc_initialIv :: bytes
  pc_macName :: mac_name
  pc_macKey :: bytes

definition macLength :: "mac_name \<Rightarrow> nat" where
  "macLength m = (if m = HmacSha256 then 32 else 64)"

type_synonym hmac_fun = "mac_name \<Rightarrow> bytes \<Rightarrow> bytes \<Rightarrow> bytes"
type_synonym keystream = "protection_config \<Rightarrow> nat \<Rightarrow> byte"

definition u32 :: "int \<Rightarrow> int" where
  "u32 n = n mod 4294967296"

definition computeSshMac :: "hmac_fun \<Rightarrow> mac_name \<Rightarrow> bytes \<Rightarrow> int \<Rightarrow> bytes \<Rightarrow> bytes" where
  "computeSshMac hmac macName macKey sequenceNumber plainPacket =
     hmac macName macKey (enc_uint32 (u32 sequenceNumber) @ plainPacket)"

text \<open>\<open>cipher.update\<close> and \<open>decipher.update\<close> of a counter-mode cipher at stream position \<open>pos\<close>.\<close>

definition ctr_update :: "(nat \<Rightarrow> byte) \<Rightarrow> nat \<Rightarrow> bytes \<Rightarrow> bytes" where
  "ctr_update ks pos data = map (\<lambda>i. data ! i XOR ks (pos + i)) [0..<length data]"

section \<open>The loop of the stream readers\<close>

text \<open>
  \<open>drain step sz limit s acc\<close> runs \<open>step\<close> while it yields payloads and fewer than \<open>max\<close> were
  collected (\<open>None\<close> is the default, no maximum).  \<open>sz\<close> is the number of buffered bytes; a
  step that yields a payload consumes some, so the test that makes the recursion terminate
  always succeeds (\<open>step_size\<close> of the locale below).
\<close>

function drain :: "('s \<Rightarrow> ('e + 'p option) \<times> 's) \<Rightarrow> ('s \<Rightarrow> nat) \<Rightarrow> nat option \<Rightarrow> 's \<Rightarrow> 'p list
    \<Rightarrow> ('e + 'p list) \<times> 's" where
  "drain step sz limit s acc =
     (if (case limit of None \<Rightarrow> False | Some m \<Rightarrow> m \<le> length acc) then (Inr acc, s)
      else case step s of
        (Inl e, t) \<Rightarrow> (Inl e, t)
      | (Inr None, t) \<Rightarrow> (Inr acc, t)
      | (Inr (Some p), t) \<Rightarrow>
          if sz t < sz s then drain step sz limit t (acc @ [p]) else (Inr (acc @ [p]), t))"
  by pat_completeness auto
termination
  by (relation "measure (\<lambda>(step, sz, limit, s, acc). sz s)") auto

declare drain.simps [simp del]

definition MAX_BUFFERED_STREAM_BYTES :: int where
  "MAX_BUFFERED_STREAM_BYTES = MAX_SSH_PACKET_LENGTH * 2 + 1024"

definition appendBounded :: "bytes \<Rightarrow> bytes \<Rightarrow> string \<Rightarrow> ssh_error + bytes" where
  "appendBounded buffer chunk label =
     (if int (length buffer) + int (length chunk) > MAX_BUFFERED_STREAM_BYTES
        then Inl (PacketError (PacketBufferExceeded label))
      else if buffer = [] then Inr chunk
      else if chunk = [] then Inr buffer
      else Inr (buffer @ chunk))"

section \<open>Plain packets\<close>

record plain_reader =
  pr_buffer :: bytes
  pr_sequenceNumber :: int

definition plain_reader_new :: plain_reader where
  "plain_reader_new = \<lparr>pr_buffer = [], pr_sequenceNumber = 0\<rparr>"

definition plain_step :: "plain_reader \<Rightarrow> (ssh_error + bytes option) \<times> plain_reader" where
  "plain_step s =
     (if length (pr_buffer s) < 4 then (Inr None, s)
      else let packetLength = be_value (take 4 (pr_buffer s)) in
        case assertSshPacketLength packetLength 8 of
          Inl e \<Rightarrow> (Inl e, s)
        | Inr _ \<Rightarrow>
            let totalLength = nat (4 + packetLength) in
            if length (pr_buffer s) < totalLength then (Inr None, s)
            else let packet = take totalLength (pr_buffer s);
                     s' = s\<lparr>pr_buffer := drop totalLength (pr_buffer s)\<rparr>
                 in case decodeSshPacket packet 8 of
                      Inl e \<Rightarrow> (Inl e, s')
                    | Inr d \<Rightarrow> (Inr (Some (dp_payload d)),
                        s'\<lparr>pr_sequenceNumber := u32 (pr_sequenceNumber s + 1)\<rparr>))"

definition plain_size :: "plain_reader \<Rightarrow> nat" where
  "plain_size s = length (pr_buffer s)"

definition plain_push :: "bytes \<Rightarrow> nat option \<Rightarrow> (plain_reader, ssh_error, bytes list) op" where
  "plain_push chunk maximumPayloads s =
     (case appendBounded (pr_buffer s) chunk ''plaintext'' of
        Inl e \<Rightarrow> (Inl e, s)
      | Inr b \<Rightarrow> drain plain_step plain_size maximumPayloads (s\<lparr>pr_buffer := b\<rparr>) [])"

definition plain_takeBufferedData :: "(plain_reader, ssh_error, bytes) op" where
  "plain_takeBufferedData s = (Inr (pr_buffer s), s\<lparr>pr_buffer := []\<rparr>)"

definition plain_write :: "(nat \<Rightarrow> byte) \<Rightarrow> bytes \<Rightarrow> (int, ssh_error, bytes) op" where
  "plain_write rng payload sequenceNumber =
     (case encodeSshPacket rng payload 8 of
        Inl e \<Rightarrow> (Inl e, sequenceNumber)
      | Inr packet \<Rightarrow> (Inr packet, u32 (sequenceNumber + 1)))"

section \<open>Encrypted packets\<close>

text \<open>
  \<open>er_plain\<close> holds the decrypted bytes of the packet under way (the first \<open>plainPacketBytes\<close>
  bytes of the source's \<open>plainPacket\<close>), \<open>er_expected\<close> its \<open>expectedPlainPacketLength\<close>, and
  \<open>er_pos\<close> the position of the decipher in its key stream.
\<close>

record enc_reader =
  er_encrypted :: bytes
  er_plain :: bytes
  er_expected :: "nat option"
  er_sequenceNumber :: int
  er_pos :: nat

definition enc_reader_new :: "int \<Rightarrow> enc_reader" where
  "enc_reader_new initialSequenceNumber =
     \<lparr>er_encrypted = [], er_plain = [], er_expected = None,
      er_sequenceNumber = u32 initialSequenceNumber, er_pos = 0\<rparr>"

text \<open>\<open>consumeEncrypted\<close> and the \<open>decipher.update\<close> of what it returns, appended to the packet.\<close>

definition enc_decrypt :: "(nat \<Rightarrow> byte) \<Rightarrow> nat \<Rightarrow> enc_reader \<Rightarrow> enc_reader" where
  "enc_decrypt ks n s =
     s\<lparr>er_encrypted := drop n (er_encrypted s),
       er_plain := er_plain s @ ctr_update ks (er_pos s) (take n (er_encrypted s)),
       er_pos := er_pos s + min n (length (er_encrypted s))\<rparr>"

text \<open>The first part of an iteration: the length field, once four bytes are there.\<close>

definition enc_length_part :: "(nat \<Rightarrow> byte) \<Rightarrow> enc_reader \<Rightarrow> (ssh_error + nat option) \<times> enc_reader" where
  "enc_length_part ks s =
     (case er_expected s of
        Some n \<Rightarrow> (Inr (Some n), s)
      | None \<Rightarrow>
          if length (er_encrypted s) < 4 then (Inr None, s)
          else let s1 = enc_decrypt ks 4 (s\<lparr>er_plain := []\<rparr>);
                   packetLength = be_value (er_plain s1)
               in case assertSshPacketLength packetLength 16 of
                    Inl e \<Rightarrow> (Inl e, s1\<lparr>er_plain := er_plain s\<rparr>)
                  | Inr _ \<Rightarrow> (Inr (Some (nat (4 + packetLength))),
                      s1\<lparr>er_expected := Some (nat (4 + packetLength))\<rparr>))"

text \<open>The second part: as much of the body as is there; whether the packet is complete.\<close>

definition enc_body_part :: "(nat \<Rightarrow> byte) \<Rightarrow> nat \<Rightarrow> enc_reader \<Rightarrow> bool \<times> enc_reader" where
  "enc_body_part ks expected s =
     (let remaining = expected - length (er_plain s) in
      if remaining > 0 then
        (if er_encrypted s = [] then (False, s)
         else let s' = enc_decrypt ks (min remaining (length (er_encrypted s))) s
              in (\<not> length (er_plain s') < expected, s'))
      else (True, s))"

text \<open>The third part: the MAC, then the payload.\<close>

definition enc_mac_part :: "hmac_fun \<Rightarrow> protection_config \<Rightarrow> enc_reader
    \<Rightarrow> (ssh_error + bytes option) \<times> enc_reader" where
  "enc_mac_part hmac config s =
     (let n = macLength (pc_macName config) in
      if length (er_encrypted s) < n then (Inr None, s)
      else let mac = take n (er_encrypted s);
               s1 = s\<lparr>er_encrypted := drop n (er_encrypted s)\<rparr>
           in if mac \<noteq> computeSshMac hmac (pc_macName config) (pc_macKey config)
                   (er_sequenceNumber s) (er_plain s)
              then (Inl (PacketError MacVerificationFailed), s1)
              else case decodeSshPacket (er_plain s) 16 of
                     Inl e \<Rightarrow> (Inl e, s1)
                   | Inr d \<Rightarrow> (Inr (Some (dp_payload d)),
                       s1\<lparr>er_sequenceNumber := u32 (er_sequenceNumber s + 1),
                          er_plain := [], er_expected := None\<rparr>))"

definition enc_step :: "hmac_fun \<Rightarrow> keystream \<Rightarrow> protection_config \<Rightarrow> enc_reader
    \<Rightarrow> (ssh_error + bytes option) \<times> enc_reader" where
  "enc_step hmac ks config s =
     (case enc_length_part (ks config) s of
        (Inl e, s1) \<Rightarrow> (Inl e, s1)
      | (Inr None, s1) \<Rightarrow> (Inr None, s1)
      | (Inr (Some expected), s1) \<Rightarrow>
          (case enc_body_part (ks config) expected s1 of
             (False, s2) \<Rightarrow> (Inr None, s2)
           | (True, s2) \<Rightarrow> enc_mac_part hmac config s2))"

definition enc_size :: "enc_reader \<Rightarrow> nat" where
  "enc_size s = length (er_encrypted s)"

definition enc_push :: "hmac_fun \<Rightarrow> keystream \<Rightarrow> protection_config \<Rightarrow> bytes \<Rightarrow> nat option
    \<Rightarrow> (enc_reader, ssh_error, bytes list) op" where
  "enc_push hmac ks config chunk maximumPayloads s =
     (case appendBounded (er_encrypted s) chunk ''encrypted'' of
        Inl e \<Rightarrow> (Inl e, s)
      | Inr b \<Rightarrow> drain (enc_step hmac ks config) enc_size maximumPayloads (s\<lparr>er_encrypted := b\<rparr>) [])"

definition enc_takeBufferedData :: "(enc_reader, ssh_error, bytes) op" where
  "enc_takeBufferedData s =
     (if er_expected s \<noteq> None \<or> er_plain s \<noteq> [] then (Inl (PacketError MidPacketSwitch), s)
      else (Inr (er_encrypted s), s\<lparr>er_encrypted := []\<rparr>))"

record enc_writer =
  ew_sequenceNumber :: int
  ew_pos :: nat

definition enc_writer_new :: "int \<Rightarrow> enc_writer" where
  "enc_writer_new initialSequenceNumber =
     \<lparr>ew_sequenceNumber = u32 initialSequenceNumber, ew_pos = 0\<rparr>"

definition enc_protect :: "(nat \<Rightarrow> byte) \<Rightarrow> hmac_fun \<Rightarrow> keystream \<Rightarrow> protection_config \<Rightarrow> bytes
    \<Rightarrow> (enc_writer, ssh_error, bytes \<times> bytes) op" where
  "enc_protect rng hmac ks config payload w =
     (case encodeSshPacket rng payload 16 of
        Inl e \<Rightarrow> (Inl e, w)
      | Inr plainPacket \<Rightarrow>
          (Inr (ctr_update (ks config) (ew_pos w) plainPacket,
                computeSshMac hmac (pc_macName config) (pc_macKey config) (ew_sequenceNumber w) plainPacket),
           w\<lparr>ew_pos := ew_pos w + length plainPacket,
             ew_sequenceNumber := u32 (ew_sequenceNumber w + 1)\<rparr>))"

definition enc_write :: "(nat \<Rightarrow> byte) \<Rightarrow> hmac_fun \<Rightarrow> keystream \<Rightarrow> protection_config \<Rightarrow> bytes
    \<Rightarrow> (enc_writer, ssh_error, bytes) op" where
  "enc_write rng hmac ks config payload =
     op_bind (enc_protect rng hmac ks config payload) (\<lambda>(encryptedPacket, mac).
       op_return (encryptedPacket @ mac))"

section \<open>Chunks of a stream\<close>

text \<open>What the calls of an operation on a list of arguments return, one after the other.\<close>

fun run_all :: "('x \<Rightarrow> ('s, 'e, 'p list) op) \<Rightarrow> 'x list \<Rightarrow> ('s, 'e, 'p list) op" where
  "run_all f [] s = (Inr [], s)"
| "run_all f (x # xs) s =
     (case f x s of
        (Inl e, t) \<Rightarrow> (Inl e, t)
      | (Inr ps, t) \<Rightarrow>
          (case run_all f xs t of (Inl e, u) \<Rightarrow> (Inl e, u) | (Inr qs, u) \<Rightarrow> (Inr (ps @ qs), u)))"

definition op_one :: "('s, 'e, 'p) op \<Rightarrow> ('s, 'e, 'p list) op" where
  "op_one m s = (case m s of (Inl e, t) \<Rightarrow> (Inl e, t) | (Inr p, t) \<Rightarrow> (Inr [p], t))"

lemma op_one_eq_Inr: "op_one m s = (Inr bs, t) \<longleftrightarrow> (\<exists>b. m s = (Inr b, t) \<and> bs = [b])"
  by (auto simp: op_one_def split: prod.splits sum.splits)

text \<open>
  What a step promises, \<open>app s c\<close> being the reader \<open>s\<close> with the chunk \<open>c\<close> behind its buffer:
  more input changes neither a payload nor an error that is already determined, and what a
  starved step did before it stopped is what it would have done later.  A reader that has
  nothing to do keeps few enough bytes for a chunk of the maximal packet length to fit.
\<close>

locale packet_source =
  fixes step :: "'s \<Rightarrow> (ssh_error + 'p option) \<times> 's"
    and sz :: "'s \<Rightarrow> nat"
    and app :: "'s \<Rightarrow> bytes \<Rightarrow> 's"
    and push :: "bytes \<Rightarrow> ('s, ssh_error, 'p list) op"
  assumes step_size: "step s = (Inr (Some p), t) \<Longrightarrow> sz t < sz s"
    and step_more_Some: "step s = (Inr (Some p), t) \<Longrightarrow> step (app s c) = (Inr (Some p), app t c)"
    and step_more_None: "step s = (Inr None, t) \<Longrightarrow> step (app s c) = step (app t c)"
    and step_more_Inl: "step s = (Inl e, t) \<Longrightarrow> fst (step (app s c)) = Inl e"
    and app_Nil: "app s [] = s"
    and app_app: "app (app s c) d = app s (c @ d)"
    and idle_size: "step s = (Inr None, s) \<Longrightarrow> int (sz s) \<le> MAX_SSH_PACKET_LENGTH + 4"
    and push_drain: "int (sz s) + int (length c) \<le> MAX_BUFFERED_STREAM_BYTES \<Longrightarrow>
       push c s = drain step sz None (app s c) []"
begin

lemma drain_stop: "step s = (Inr None, t) \<Longrightarrow> drain step sz None s acc = (Inr acc, t)"
  by (subst drain.simps) simp

lemma drain_more: "step s = (Inr (Some p), t) \<Longrightarrow> drain step sz None s acc = drain step sz None t (acc @ [p])"
  using step_size [of s p t] by (subst drain.simps) simp

lemma drain_error: "step s = (Inl e, t) \<Longrightarrow> drain step sz None s acc = (Inl e, t)"
  by (subst drain.simps) simp

text \<open>A drained reader is idle, and its state is what a later chunk needs.\<close>

lemma drain_idle:
  "drain step sz None s acc = (Inr ps, t) \<Longrightarrow> step t = (Inr None, t)"
proof (induction "sz s" arbitrary: s acc rule: less_induct)
  case less
  consider e u where "step s = (Inl e, u)" | u where "step s = (Inr None, u)"
    | p u where "step s = (Inr (Some p), u)"
    by (metis old.sum.exhaust option.exhaust surj_pair)
  then show ?case
  proof cases
    case 1
    then show ?thesis using less.prems by (simp add: drain_error)
  next
    case 2
    then show ?thesis using less.prems step_more_None [of s u "[]"]
      by (simp add: drain_stop app_Nil)
  next
    case 3
    show ?thesis
      using less.hyps [OF step_size [OF 3]] less.prems by (simp add: drain_more [OF 3])
  qed
qed

lemma drain_resume:
  "drain step sz None s acc = (Inr ps, t) \<Longrightarrow>
     drain step sz None (app s c) acc = drain step sz None (app t c) ps"
proof (induction "sz s" arbitrary: s acc rule: less_induct)
  case less
  consider e u where "step s = (Inl e, u)" | u where "step s = (Inr None, u)"
    | p u where "step s = (Inr (Some p), u)"
    by (metis old.sum.exhaust option.exhaust surj_pair)
  then show ?case
  proof cases
    case 1
    then show ?thesis using less.prems by (simp add: drain_error)
  next
    case 2
    have tu: "t = u" and "ps = acc" using less.prems by (simp_all add: drain_stop [OF 2])
    moreover have "drain step sz None (app s c) acc = drain step sz None (app u c) acc"
      unfolding drain.simps [of step sz None "app s c"] drain.simps [of step sz None "app u c"]
      using step_more_None [OF 2, of c] step_size
      by (auto split: prod.split sum.split option.split) 
    ultimately show ?thesis by simp
  next
    case 3
    show ?thesis
      using less.hyps [OF step_size [OF 3]] less.prems
      by (simp add: drain_more [OF 3] drain_more [OF step_more_Some [OF 3]])
  qed
qed

lemma drain_acc:
  "drain step sz None s (acc @ bcc) =
     (case drain step sz None s bcc of (Inl e, t) \<Rightarrow> (Inl e, t) | (Inr ps, t) \<Rightarrow> (Inr (acc @ ps), t))"
proof (induction "sz s" arbitrary: s bcc rule: less_induct)
  case less
  consider e u where "step s = (Inl e, u)" | u where "step s = (Inr None, u)"
    | p u where "step s = (Inr (Some p), u)"
    by (metis old.sum.exhaust option.exhaust surj_pair)
  then show ?case
    using less.hyps [OF step_size] by cases (simp_all add: drain_error drain_stop drain_more)
qed

lemma drain_error_more:
  "drain step sz None s acc = (Inl e, t) \<Longrightarrow> fst (drain step sz None (app s c) acc) = Inl e"
proof (induction "sz s" arbitrary: s acc rule: less_induct)
  case less
  consider e' u where "step s = (Inl e', u)" | u where "step s = (Inr None, u)"
    | p u where "step s = (Inr (Some p), u)"
    by (metis old.sum.exhaust option.exhaust surj_pair)
  then show ?case
  proof cases
    case 1
    obtain r v where r: "step (app s c) = (r, v)" by fastforce
    then show ?thesis using less.prems step_more_Inl [OF 1, of c] 1
      by (simp add: drain_error)
  next
    case 2
    then show ?thesis using less.prems by (simp add: drain_stop)
  next
    case 3
    show ?thesis
      using less.hyps [OF step_size [OF 3]] less.prems
      by (simp add: drain_more [OF 3] drain_more [OF step_more_Some [OF 3]])
  qed
qed

lemma push_small:
  assumes "step s = (Inr None, s)" and "int (length c) \<le> MAX_SSH_PACKET_LENGTH"
  shows "push c s = drain step sz None (app s c) []"
  using idle_size [OF assms(1)] assms(2)
  by (intro push_drain) (simp add: MAX_BUFFERED_STREAM_BYTES_def MAX_SSH_PACKET_LENGTH_def)

text \<open>However the bytes are cut into chunks, the calls of \<open>push\<close> return what one pass returns.\<close>

theorem chunking:
  assumes "step s = (Inr None, s)" and "\<forall>c\<in>set cs. int (length c) \<le> MAX_SSH_PACKET_LENGTH"
  shows "fst (run_all push cs s) = fst (drain step sz None (app s (concat cs)) []) \<and>
    (\<forall>ps t. drain step sz None (app s (concat cs)) [] = (Inr ps, t) \<longrightarrow> run_all push cs s = (Inr ps, t))"
  using assms
proof (induction cs arbitrary: s)
  case Nil
  then show ?case by (simp add: app_Nil drain_stop)
next
  case (Cons c cs)
  have p: "push c s = drain step sz None (app s c) []" using Cons.prems by (simp add: push_small)
  obtain r t where r: "drain step sz None (app s c) [] = (r, t)" by fastforce
  show ?case
  proof (cases r)
    case (Inl e)
    then show ?thesis
      using drain_error_more [of "app s c" "[]" e t "concat cs"] r p by (auto simp: app_app)
  next
    case (Inr ps)
    then have d: "drain step sz None (app s (concat (c # cs))) [] = drain step sz None (app t (concat cs)) (ps @ [])"
      using drain_resume [of "app s c" "[]" ps t "concat cs"] r by (simp add: app_app)
    have "step t = (Inr None, t)" using drain_idle r Inr by blast
    from Cons.IH [OF this] Cons.prems(2) show ?thesis
      using p r Inr unfolding d drain_acc [of "app t (concat cs)" ps "[]"]
      by (auto split: prod.splits sum.splits)
  qed
qed

end

text \<open>
  A writer and a reader of the same packets: \<open>rel w s\<close> relates their states between packets.
\<close>

locale packet_link = packet_source step sz app push
  for step :: "'s \<Rightarrow> (ssh_error + bytes option) \<times> 's"
    and sz :: "'s \<Rightarrow> nat" and app :: "'s \<Rightarrow> bytes \<Rightarrow> 's"
    and push :: "bytes \<Rightarrow> ('s, ssh_error, bytes list) op" +
  fixes wr :: "(nat \<Rightarrow> byte) \<times> bytes \<Rightarrow> ('w, ssh_error, bytes) op"
    and rel :: "'w \<Rightarrow> 's \<Rightarrow> bool"
  assumes rel_idle: "rel w s \<Longrightarrow> step s = (Inr None, s)"
    and rel_write: "rel w s \<Longrightarrow> wr x w = (Inr b, w') \<Longrightarrow>
       \<exists>t. step (app s b) = (Inr (Some (snd x)), t) \<and> rel w' t"
begin

lemma write_drain:
  assumes "rel w s" and "run_all (\<lambda>x. op_one (wr x)) xs w = (Inr bs, w')"
  shows "\<exists>t. (\<forall>acc. drain step sz None (app s (concat bs)) acc = (Inr (acc @ map snd xs), t)) \<and> rel w' t"
  using assms
proof (induction xs arbitrary: w s bs)
  case Nil
  then show ?case using drain_stop [OF rel_idle] by (auto simp: app_Nil)
next
  case (Cons x xs)
  from Cons.prems(2) obtain b v bs' where b: "wr x w = (Inr b, v)"
    and v: "run_all (\<lambda>x. op_one (wr x)) xs v = (Inr bs', w')"
    and bs: "bs = b # bs'"
    by (auto simp: op_one_eq_Inr split: prod.splits sum.splits)
  obtain t where t: "step (app s b) = (Inr (Some (snd x)), t)" "rel v t"
    using rel_write [OF Cons.prems(1) b] by blast
  obtain u where u: "\<forall>acc. drain step sz None (app t (concat bs')) acc = (Inr (acc @ map snd xs), u)"
    "rel w' u"
    using Cons.IH [OF t(2) v] by blast
  have "drain step sz None (app s (concat bs)) acc = (Inr (acc @ map snd (x # xs)), u)" for acc
    using drain_more [OF step_more_Some [OF t(1), of "concat bs'"]] u(1) by (simp add: bs app_app)
  then show ?case using u(2) by blast
qed

theorem delivery:
  assumes "rel w s" and "run_all (\<lambda>x. op_one (wr x)) xs w = (Inr bs, w')"
    and "concat cs = concat bs" and "\<forall>c\<in>set cs. int (length c) \<le> MAX_SSH_PACKET_LENGTH"
  shows "\<exists>t. run_all push cs s = (Inr (map snd xs), t) \<and> rel w' t"
proof -
  obtain t where "drain step sz None (app s (concat bs)) [] = (Inr ([] @ map snd xs), t)" "rel w' t"
    using write_drain [OF assms(1,2)] by blast
  then show ?thesis using chunking [OF rel_idle [OF assms(1)] assms(4)] assms(3) by auto
qed

end

section \<open>Packets: padding, alignment, decoding\<close>

lemma assertSshPacketLength_ok:
  "assertSshPacketLength n b = Inr u \<longleftrightarrow>
     MIN_SSH_PACKET_LENGTH \<le> n \<and> n \<le> MAX_SSH_PACKET_LENGTH \<and> (n + 4) mod b = 0"
  by (auto simp: assertSshPacketLength_def)

lemma padding_length_bounds:
  assumes "8 \<le> b"
  shows "4 \<le> padding_length len b" and "padding_length len b < b + 4"
    and "(len + 5 + padding_length len b) mod b = 0"
proof -
  define r where "r = (len + 5) mod b"
  have r: "0 \<le> r" "r < b" using assms by (simp_all add: r_def)
  then show "4 \<le> padding_length len b" "padding_length len b < b + 4"
    using assms by (simp_all add: padding_length_def Let_def flip: r_def)
  have "len + 5 = b * ((len + 5) div b) + r" by (simp add: r_def)
  then have "len + 5 + (b - r) = b * ((len + 5) div b + 1)" "len + 5 + (b - r + b) = b * ((len + 5) div b + 2)"
    by (simp_all add: distrib_left)
  then have "(len + 5 + (b - r)) mod b = 0" "(len + 5 + (b - r + b)) mod b = 0" by simp_all
  then show "(len + 5 + padding_length len b) mod b = 0"
    by (simp add: padding_length_def Let_def flip: r_def)
qed

lemma encodeSshPacket_eq_Inr:
  "encodeSshPacket rng payload b = Inr packet \<longleftrightarrow>
     8 \<le> b \<and> MIN_SSH_PACKET_LENGTH \<le> int (length payload) + padding_length (int (length payload)) b + 1 \<and>
     int (length payload) + padding_length (int (length payload)) b + 1 \<le> MAX_SSH_PACKET_LENGTH \<and>
     padding_length (int (length payload)) b \<le> 255 \<and>
     packet = enc_uint32 (int (length payload) + padding_length (int (length payload)) b + 1) @
       enc_byte (padding_length (int (length payload)) b) @ payload @
       map rng [0..<nat (padding_length (int (length payload)) b)]"
  using padding_length_bounds(3) [of b "int (length payload)"]
  by (auto simp: encodeSshPacket_def Let_def add.commute add.left_commute assertSshPacketLength_ok)

lemma length_encodeSshPacket:
  assumes "encodeSshPacket rng payload b = Inr packet"
  shows "int (length packet) = int (length payload) + padding_length (int (length payload)) b + 5"
  using assms padding_length_bounds(1) [of b "int (length payload)"]
  by (auto simp: encodeSshPacket_eq_Inr enc_uint32_def enc_byte_def)

lemma be_value_encodeSshPacket:
  assumes "encodeSshPacket rng payload b = Inr packet"
  shows "be_value (take 4 packet) = int (length packet) - 4"
proof -
  let ?n = "int (length payload) + padding_length (int (length payload)) b + 1"
  have "take 4 packet = enc_uint32 ?n"
    using assms by (auto simp: encodeSshPacket_eq_Inr enc_uint32_def)
  moreover have "uint32_ok ?n"
    using assms by (auto simp: encodeSshPacket_eq_Inr uint32_ok_def MIN_SSH_PACKET_LENGTH_def MAX_SSH_PACKET_LENGTH_def)
  ultimately show ?thesis
    using length_encodeSshPacket [OF assms] by (simp add: be_value_enc_uint32)
qed

lemma encoded_length_ok:
  assumes "encodeSshPacket rng payload b = Inr packet"
  shows "assertSshPacketLength (int (length packet) - 4) b = Inr ()"
    and "int (length packet) mod b = 0"
  using assms length_encodeSshPacket [OF assms] padding_length_bounds(3) [of b "int (length payload)"]
  by (auto simp: encodeSshPacket_eq_Inr algebra_simps assertSshPacketLength_ok)

lemma decode_encode_packet:
  assumes "encodeSshPacket rng payload b = Inr packet"
  shows "decodeSshPacket packet b =
    Inr \<lparr>dp_payload = payload, dp_padding = map rng [0..<nat (padding_length (int (length payload)) b)]\<rparr>"
proof -
  let ?p = "padding_length (int (length payload)) b"
  have b: "4 \<le> ?p" "?p \<le> 255"
    and pk: "packet = enc_uint32 (int (length payload) + ?p + 1) @ enc_byte ?p @ payload @ map rng [0..<nat ?p]"
    using assms padding_length_bounds(1) by (auto simp: encodeSshPacket_eq_Inr)
  have len: "int (length packet) = int (length payload) + ?p + 5"
    by (rule length_encodeSshPacket [OF assms])
  have p4: "uint (packet ! 4) = ?p"
    using b unfolding pk by (simp add: enc_uint32_def enc_byte_def)
  have d5: "drop 5 packet = payload @ map rng [0..<nat ?p]"
    unfolding pk by (simp add: enc_uint32_def enc_byte_def)
  have pl: "nat (int (length packet) - 4 - ?p - 1) = length payload" using len by simp
  have "drop (5 + length payload) packet = map rng [0..<nat ?p]"
    using d5 by (metis add.commute append_eq_conv_conj drop_drop)
  then show ?thesis
    using encoded_length_ok [OF assms] len b
    by (simp add: decodeSshPacket_def Let_def be_value_encodeSshPacket [OF assms] p4 pl d5)
qed

section \<open>The readers as packet sources\<close>

definition plain_app :: "plain_reader \<Rightarrow> bytes \<Rightarrow> plain_reader" where
  "plain_app s c = s\<lparr>pr_buffer := pr_buffer s @ c\<rparr>"

lemma appendBounded_eq:
  "appendBounded b c label =
     (if int (length b) + int (length c) > MAX_BUFFERED_STREAM_BYTES
      then Inl (PacketError (PacketBufferExceeded label)) else Inr (b @ c))"
  by (simp add: appendBounded_def)

lemma plain_step_more:
  "plain_step s = (Inr (Some p), t) \<Longrightarrow> plain_step (plain_app s c) = (Inr (Some p), plain_app t c)"
  "plain_step s = (Inl e, t) \<Longrightarrow> fst (plain_step (plain_app s c)) = Inl e"
  "plain_step s = (Inr None, t) \<Longrightarrow> t = s"
  by (auto simp: plain_step_def plain_app_def Let_def split: if_splits sum.splits)

interpretation plain_source: packet_source plain_step plain_size plain_app "\<lambda>c. plain_push c None"
proof
  show "plain_step s = (Inr (Some p), t) \<Longrightarrow> plain_size t < plain_size s" for s p t
    by (auto simp: plain_step_def plain_size_def Let_def MIN_SSH_PACKET_LENGTH_def
        assertSshPacketLength_ok split: if_splits sum.splits)
  show "plain_step s = (Inr None, s) \<Longrightarrow> int (plain_size s) \<le> MAX_SSH_PACKET_LENGTH + 4" for s
    by (auto simp: plain_step_def plain_size_def Let_def MIN_SSH_PACKET_LENGTH_def MAX_SSH_PACKET_LENGTH_def
        assertSshPacketLength_ok split: if_splits sum.splits)
  show "int (plain_size s) + int (length c) \<le> MAX_BUFFERED_STREAM_BYTES \<Longrightarrow>
      plain_push c None s = drain plain_step plain_size None (plain_app s c) []" for s c
    by (simp add: plain_push_def appendBounded_eq plain_size_def plain_app_def)
  show "plain_app s [] = s" "plain_app (plain_app s c) d = plain_app s (c @ d)" for s c d
    by (simp_all add: plain_app_def)
  show "plain_step s = (Inr None, t) \<Longrightarrow> plain_step (plain_app s c) = plain_step (plain_app t c)" for s t c
    using plain_step_more(3) by metis
qed (use plain_step_more in auto)

lemma length_ctr_update [simp]: "length (ctr_update ks p d) = length d"
  by (simp add: ctr_update_def)

lemma nth_ctr_update [simp]: "i < length d \<Longrightarrow> ctr_update ks p d ! i = d ! i XOR ks (p + i)"
  by (simp add: ctr_update_def)

lemma ctr_update_append:
  "ctr_update ks p (a @ b) = ctr_update ks p a @ ctr_update ks (p + length a) b"
  by (rule nth_equalityI) (auto simp: nth_append)

lemma ctr_update_Nil [simp]: "ctr_update ks p [] = []"
  by (simp add: ctr_update_def)

lemma ctr_update_inverse: "ctr_update ks p (ctr_update ks p d) = d"
  by (rule nth_equalityI) (simp_all add: xor.assoc)

definition enc_app :: "enc_reader \<Rightarrow> bytes \<Rightarrow> enc_reader" where
  "enc_app s c = s\<lparr>er_encrypted := er_encrypted s @ c\<rparr>"

lemma enc_app_simps [simp]:
  "er_encrypted (enc_app s c) = er_encrypted s @ c" "er_plain (enc_app s c) = er_plain s"
  "er_expected (enc_app s c) = er_expected s" "er_pos (enc_app s c) = er_pos s"
  "er_sequenceNumber (enc_app s c) = er_sequenceNumber s"
  by (simp_all add: enc_app_def)

lemma enc_decrypt_app:
  "k \<le> length (er_encrypted s) \<Longrightarrow> enc_decrypt ks k (enc_app s c) = enc_app (enc_decrypt ks k s) c"
  by (simp add: enc_decrypt_def enc_app_def min_def)

lemma enc_decrypt_twice:
  assumes "j \<le> length (er_encrypted s)"
  shows "enc_decrypt ks k (enc_decrypt ks j s) = enc_decrypt ks (j + k) s"
proof -
  have "take (j + k) (er_encrypted s) = take j (er_encrypted s) @ take k (drop j (er_encrypted s))"
    by (rule take_add)
  moreover have "j + min k (length (er_encrypted s) - j) = min (j + k) (length (er_encrypted s))"
    using assms by simp
  ultimately show ?thesis
    using assms by (simp add: enc_decrypt_def ctr_update_append min_absorb1 add.commute)
qed

lemma enc_decrypt_simps [simp]:
  "er_expected (enc_decrypt ks k s) = er_expected s"
  "er_sequenceNumber (enc_decrypt ks k s) = er_sequenceNumber s"
  "er_encrypted (enc_decrypt ks k s) = drop k (er_encrypted s)"
  "length (er_plain (enc_decrypt ks k s)) = length (er_plain s) + min (length (er_encrypted s)) k"
  by (simp_all add: enc_decrypt_def)

lemma enc_length_part_app:
  "enc_length_part ks s = (Inr (Some n), t) \<Longrightarrow> enc_length_part ks (enc_app s c) = (Inr (Some n), enc_app t c)"
  "enc_length_part ks s = (Inl e, t) \<Longrightarrow> fst (enc_length_part ks (enc_app s c)) = Inl e"
  "enc_length_part ks s = (Inr None, t) \<Longrightarrow> t = s"
  "enc_length_part ks s = (Inr (Some n), t) \<Longrightarrow> er_expected t = Some n"
proof -
  let ?s = "s\<lparr>er_plain := []\<rparr>"
  have a: "enc_app s c\<lparr>er_plain := []\<rparr> = enc_app ?s c" by (simp add: enc_app_def)
  have d: "enc_decrypt ks 4 (enc_app ?s c) = enc_app (enc_decrypt ks 4 ?s) c" if "4 \<le> length (er_encrypted s)"
    using that by (simp add: enc_decrypt_app)
  have u: "enc_app r c\<lparr>er_expected := x\<rparr> = enc_app (r\<lparr>er_expected := x\<rparr>) c" for r x by (simp add: enc_app_def)
  show "enc_length_part ks s = (Inr (Some n), t) \<Longrightarrow> enc_length_part ks (enc_app s c) = (Inr (Some n), enc_app t c)"
    by (auto simp: enc_length_part_def Let_def a d u split: if_splits sum.splits option.splits)
  show "enc_length_part ks s = (Inl e, t) \<Longrightarrow> fst (enc_length_part ks (enc_app s c)) = Inl e"
    by (auto simp: enc_length_part_def Let_def a d u split: if_splits sum.splits option.splits)
  show "enc_length_part ks s = (Inr None, t) \<Longrightarrow> t = s" 
    "enc_length_part ks s = (Inr (Some n), t) \<Longrightarrow> er_expected t = Some n"
    by (auto simp: enc_length_part_def Let_def split: if_splits sum.splits option.splits)
qed

lemma enc_length_part_Some: "er_expected s = Some n \<Longrightarrow> enc_length_part ks s = (Inr (Some n), s)"
  by (simp add: enc_length_part_def)

lemma enc_body_part_app:
  "enc_body_part ks n s = (True, t) \<Longrightarrow> enc_body_part ks n (enc_app s c) = (True, enc_app t c)"
  "enc_body_part ks n s = (True, t) \<Longrightarrow> enc_body_part ks n (enc_app t c) = (True, enc_app t c)"
  "enc_body_part ks n s = (b, t) \<Longrightarrow> er_expected t = er_expected s"
  by (auto simp: enc_body_part_def Let_def enc_decrypt_app min_def split: if_splits)

lemma enc_body_part_resume:
  assumes "enc_body_part ks n s = (False, t)"
  shows "enc_body_part ks n (enc_app s c) = enc_body_part ks n (enc_app t c)" and "er_encrypted t = []"
proof -
  let ?m = "length (er_encrypted s)" and ?r = "n - length (er_plain s)"
  have m: "?m < ?r" and t: "t = enc_decrypt ks ?m s"
    using assms by (auto simp: enc_body_part_def Let_def enc_decrypt_def split: if_splits)
  then show e: "er_encrypted t = []" by simp
  show "enc_body_part ks n (enc_app s c) = enc_body_part ks n (enc_app t c)"
  proof (cases "c = []")
    case True
    then show ?thesis using m by (auto simp: enc_body_part_def Let_def t enc_app_def enc_decrypt_def)
  next
    case False
    have "enc_decrypt ks (min (?r - ?m) (length c)) (enc_app t c) = enc_decrypt ks (min ?r (?m + length c)) (enc_app s c)"
      using m by (simp add: t enc_decrypt_app [symmetric] enc_decrypt_twice min_def)
    moreover have "?m + length (er_plain s) < n" using m by linarith
    ultimately show ?thesis using m False by (simp add: enc_body_part_def Let_def t add.commute)
  qed
qed

lemma enc_mac_part_app:
  "enc_mac_part hmac cf s = (Inr (Some p), t) \<Longrightarrow>
     enc_mac_part hmac cf (enc_app s c) = (Inr (Some p), enc_app t c)"
  "enc_mac_part hmac cf s = (Inl e, t) \<Longrightarrow> fst (enc_mac_part hmac cf (enc_app s c)) = Inl e"
  "enc_mac_part hmac cf s = (Inr None, t) \<Longrightarrow> t = s \<and> length (er_encrypted s) < 64"
  by (auto simp: enc_mac_part_def Let_def enc_app_def macLength_def split: if_splits sum.splits)

text \<open>A starved step stopped in one of three places; there it goes on.\<close>

lemma enc_step_None:
  assumes "enc_step hmac ks cf s = (Inr None, t)"
  shows "enc_step hmac ks cf (enc_app s c) = enc_step hmac ks cf (enc_app t c)"
    and "length (er_encrypted t) < 64"
proof -
  obtain r s1 where l: "enc_length_part (ks cf) s = (r, s1)" by fastforce
  consider "r = Inr None" "t = s1" | n where "r = Inr (Some n)"
    using assms by (auto simp: enc_step_def l split: sum.splits option.splits)
  then have "enc_step hmac ks cf (enc_app s c) = enc_step hmac ks cf (enc_app t c) \<and> length (er_encrypted t) < 64"
  proof cases
    case 1
    then have "t = s" using enc_length_part_app(3) l by blast
    moreover have "length (er_encrypted s) < 4"
      using l 1 by (auto simp: enc_length_part_def Let_def split: option.splits if_splits sum.splits)
    ultimately show ?thesis by simp
  next
    case (2 n)
    note l' = l [unfolded 2]
    have ex: "er_expected s1 = Some n" by (rule enc_length_part_app(4) [OF l'])
    obtain b s2 where b: "enc_body_part (ks cf) n s1 = (b, s2)" by fastforce
    have ex2: "er_expected s2 = Some n" using enc_body_part_app(3) [OF b] ex by simp
    show ?thesis
    proof (cases b)
      case False
      then have "t = s2" using assms by (simp add: enc_step_def l' b)
      then show ?thesis
        using enc_body_part_resume [of "ks cf" n s1 s2] b False ex2
          enc_length_part_app(1) [OF l', of c]
        by (simp add: enc_step_def enc_length_part_Some)
    next
      case True
      then have b': "enc_body_part (ks cf) n s1 = (True, s2)" using b by simp
      have m: "enc_mac_part hmac cf s2 = (Inr None, t)" using assms True by (simp add: enc_step_def l' b)
      then have "t = s2" "length (er_encrypted s2) < 64" using enc_mac_part_app(3) by blast+
      then show ?thesis
        using enc_body_part_app(1,2) [OF b', of c] ex2 enc_length_part_app(1) [OF l', of c]
        by (simp add: enc_step_def enc_length_part_Some)
    qed
  qed
  then show "enc_step hmac ks cf (enc_app s c) = enc_step hmac ks cf (enc_app t c)"
    and "length (er_encrypted t) < 64" by simp_all
qed

lemma enc_step_more:
  "enc_step hmac ks cf s = (Inr (Some p), t) \<Longrightarrow> enc_step hmac ks cf (enc_app s c) = (Inr (Some p), enc_app t c)"
  "enc_step hmac ks cf s = (Inl e, t) \<Longrightarrow> fst (enc_step hmac ks cf (enc_app s c)) = Inl e"
proof -
  have split: "(\<exists>e s1. enc_length_part (ks cf) s = (Inl e, s1)) \<or> (\<exists>s1. enc_length_part (ks cf) s = (Inr None, s1))
      \<or> (\<exists>n s1 s2. enc_length_part (ks cf) s = (Inr (Some n), s1) \<and> enc_body_part (ks cf) n s1 = (False, s2))
      \<or> (\<exists>n s1 s2. enc_length_part (ks cf) s = (Inr (Some n), s1) \<and> enc_body_part (ks cf) n s1 = (True, s2))"
    by (cases "enc_length_part (ks cf) s"; cases "fst (enc_length_part (ks cf) s)")
       (auto, metis (full_types) old.prod.exhaust option.exhaust)
  show "enc_step hmac ks cf s = (Inr (Some p), t) \<Longrightarrow> enc_step hmac ks cf (enc_app s c) = (Inr (Some p), enc_app t c)"
    using split enc_length_part_app(1) [of "ks cf" s _ _ c] enc_body_part_app(1) [of "ks cf" _ _ _ c]
      enc_mac_part_app(1) [of hmac cf _ p t c]
    by (auto simp: enc_step_def)
  show "fst (enc_step hmac ks cf (enc_app s c)) = Inl e" if a: "enc_step hmac ks cf s = (Inl e, t)"
  proof -
    consider s1 where "enc_length_part (ks cf) s = (Inl e, s1)"
      | n s1 s2 where "enc_length_part (ks cf) s = (Inr (Some n), s1)" "enc_body_part (ks cf) n s1 = (True, s2)"
          "enc_mac_part hmac cf s2 = (Inl e, t)"
      using split a by (auto simp: enc_step_def)
    then show ?thesis
    proof cases
      case 1
      obtain r u where r: "enc_length_part (ks cf) (enc_app s c) = (r, u)" by fastforce
      then show ?thesis using enc_length_part_app(2) [OF 1, of c] by (simp add: enc_step_def)
    next
      case 2
      then show ?thesis
        using enc_length_part_app(1) [OF 2(1), of c] enc_body_part_app(1) [OF 2(2), of c]
          enc_mac_part_app(2) [OF 2(3), of c]
        by (simp add: enc_step_def)
    qed
  qed
qed

interpretation enc_source: packet_source "enc_step hmac ks cf" enc_size enc_app
  "\<lambda>c. enc_push hmac ks cf c None" for hmac ks cf
proof
  fix s t :: enc_reader and c d :: bytes
  show "enc_size t < enc_size s" if "enc_step hmac ks cf s = (Inr (Some p), t)" for p
  proof -
    have "length (er_encrypted s2) > length (er_encrypted t)" if "enc_mac_part hmac cf s2 = (Inr (Some p), t)" for s2
      using that by (auto simp: enc_mac_part_def Let_def macLength_def split: if_splits sum.splits)
    moreover have "length (er_encrypted s2) \<le> length (er_encrypted s1)"
      if "enc_body_part (ks cf) n s1 = (b, s2)" for n b s1 s2
      using that by (auto simp: enc_body_part_def Let_def split: if_splits)
    moreover have "length (er_encrypted s1) \<le> length (er_encrypted s)" if "enc_length_part (ks cf) s = (r, s1)" for r s1
      using that by (auto simp: enc_length_part_def Let_def split: if_splits option.splits sum.splits)
    ultimately show ?thesis
      using that unfolding enc_size_def
      by (fastforce simp: enc_step_def split: prod.splits sum.splits option.splits bool.splits)
  qed
  show "int (enc_size s) \<le> MAX_SSH_PACKET_LENGTH + 4" if "enc_step hmac ks cf s = (Inr None, s)"
    using enc_step_None(2) [OF that] by (simp add: enc_size_def MAX_SSH_PACKET_LENGTH_def)
  show "int (enc_size s) + int (length c) \<le> MAX_BUFFERED_STREAM_BYTES \<Longrightarrow>
      enc_push hmac ks cf c None s = drain (enc_step hmac ks cf) enc_size None (enc_app s c) []"
    by (simp add: enc_push_def appendBounded_eq enc_size_def enc_app_def)
  show "enc_app s [] = s" "enc_app (enc_app s c) d = enc_app s (c @ d)"
    by (simp_all add: enc_app_def)
qed (use enc_step_more enc_step_None(1) in auto)

section \<open>Writers and readers\<close>

definition plain_rel :: "int \<Rightarrow> plain_reader \<Rightarrow> bool" where
  "plain_rel w s \<longleftrightarrow> pr_buffer s = [] \<and> pr_sequenceNumber s = w"

lemma encoded_length_min:
  assumes "encodeSshPacket rng payload b = Inr packet"
  shows "16 \<le> length packet"
  using encoded_length_ok(1) [OF assms]
  by (simp add: assertSshPacketLength_ok MIN_SSH_PACKET_LENGTH_def)

interpretation plain_link: packet_link plain_step plain_size plain_app "\<lambda>c. plain_push c None"
  "\<lambda>x. plain_write (fst x) (snd x)" plain_rel
proof
  show "plain_rel w s \<Longrightarrow> plain_step s = (Inr None, s)" for w s
    by (simp add: plain_rel_def plain_step_def)
  fix w s x b w'
  assume rel: "plain_rel w s" and wr: "plain_write (fst x) (snd x) w = (Inr b, w')"
  then have e: "encodeSshPacket (fst x) (snd x) 8 = Inr b" and w': "w' = u32 (w + 1)"
    by (auto simp: plain_write_def split: sum.splits)
  have "plain_step (plain_app s b) =
      (Inr (Some (snd x)), s\<lparr>pr_buffer := [], pr_sequenceNumber := u32 (pr_sequenceNumber s + 1)\<rparr>)"
    using rel encoded_length_min [OF e] encoded_length_ok(1) [OF e] 
    by (simp add: plain_step_def plain_app_def plain_rel_def Let_def be_value_encodeSshPacket [OF e]
        decode_encode_packet [OF e])
  then show "\<exists>t. plain_step (plain_app s b) = (Inr (Some (snd x)), t) \<and> plain_rel w' t"
    using rel w' by (simp add: plain_rel_def)
qed

lemma take_ctr_update: "take k (ctr_update ks p d) = ctr_update ks p (take k d)"
  by (rule nth_equalityI) simp_all

lemma drop_ctr_update: "k \<le> length d \<Longrightarrow> drop k (ctr_update ks p d) = ctr_update ks (p + k) (drop k d)"
  by (rule nth_equalityI) (simp_all add: add.assoc)

definition enc_rel :: "enc_writer \<Rightarrow> enc_reader \<Rightarrow> bool" where
  "enc_rel w s \<longleftrightarrow> er_encrypted s = [] \<and> er_plain s = [] \<and> er_expected s = None \<and>
     er_sequenceNumber s = ew_sequenceNumber w \<and> er_pos s = ew_pos w"

text \<open>\<open>createHmac(\<dots>).digest()\<close> has the digest length of its hash function.\<close>

definition hmac_length_ok :: "hmac_fun \<Rightarrow> bool" where
  "hmac_length_ok hmac \<longleftrightarrow> (\<forall>m k d. length (hmac m k d) = macLength m)"

lemma enc_step_packet:
  assumes rel: "enc_rel w s" and ok: "hmac_length_ok hmac" 
    and e: "encodeSshPacket rng payload 16 = Inr pk"
  shows "enc_step hmac ks cf (enc_app s (ctr_update (ks cf) (ew_pos w) pk @
        computeSshMac hmac (pc_macName cf) (pc_macKey cf) (ew_sequenceNumber w) pk)) =
      (Inr (Some payload), s\<lparr>er_pos := ew_pos w + length pk,
         er_sequenceNumber := u32 (ew_sequenceNumber w + 1)\<rparr>)"
proof -
  let ?mac = "computeSshMac hmac (pc_macName cf) (pc_macKey cf) (ew_sequenceNumber w) pk"
  let ?n = "length pk"
  let ?s = "enc_app s (ctr_update (ks cf) (ew_pos w) pk @ ?mac)"
  let ?s1 = "s\<lparr>er_encrypted := ctr_update (ks cf) (ew_pos w + 4) (drop 4 pk) @ ?mac,
     er_plain := take 4 pk, er_pos := ew_pos w + 4, er_expected := Some ?n\<rparr>"
  let ?s2 = "s\<lparr>er_encrypted := ?mac, er_plain := pk, er_pos := ew_pos w + ?n, er_expected := Some ?n\<rparr>"
  have n: "16 \<le> ?n" by (rule encoded_length_min [OF e])
  have mac: "length ?mac = macLength (pc_macName cf)"
    using ok by (simp add: computeSshMac_def hmac_length_ok_def)
  then have mac0: "?mac \<noteq> []" by (auto simp: macLength_def split: if_splits)
  have s: "er_encrypted s = []" "er_plain s = []" "er_expected s = None"
    "er_sequenceNumber s = ew_sequenceNumber w" "er_pos s = ew_pos w"
    using rel by (simp_all add: enc_rel_def)
  have "enc_decrypt (ks cf) 4 (?s\<lparr>er_plain := []\<rparr>) = s\<lparr>er_encrypted := ctr_update (ks cf) (ew_pos w + 4) (drop 4 pk) @ ?mac,
     er_plain := take 4 pk, er_pos := ew_pos w + 4\<rparr>"
    using n by (simp add: enc_decrypt_def enc_app_def s take_ctr_update drop_ctr_update ctr_update_inverse)
  then have l: "enc_length_part (ks cf) ?s = (Inr (Some ?n), ?s1)"
    using n encoded_length_ok(1) [OF e]
    by (simp add: enc_length_part_def Let_def s be_value_encodeSshPacket [OF e])
  have "enc_decrypt (ks cf) (?n - 4) ?s1 = ?s2"
    using n by (simp add: enc_decrypt_def ctr_update_inverse)
  then have b: "enc_body_part (ks cf) ?n ?s1 = (True, ?s2)"
    using n mac0 by (simp add: enc_body_part_def Let_def)
  have m: "enc_mac_part hmac cf ?s2 = (Inr (Some payload), s\<lparr>er_pos := ew_pos w + ?n,
      er_sequenceNumber := u32 (ew_sequenceNumber w + 1)\<rparr>)"
    using s by (simp add: enc_mac_part_def Let_def mac decode_encode_packet [OF e])
  show ?thesis by (simp add: enc_step_def l b m)
qed

lemma enc_link:
  assumes "hmac_length_ok hmac"
  shows "packet_link (enc_step hmac ks cf) enc_size enc_app (\<lambda>c. enc_push hmac ks cf c None)
    (\<lambda>x. enc_write (fst x) hmac ks cf (snd x)) enc_rel"
proof
  show "enc_rel w s \<Longrightarrow> enc_step hmac ks cf s = (Inr None, s)" for w s
    by (simp add: enc_rel_def enc_step_def enc_length_part_def)
  fix w s x b w'
  assume rel: "enc_rel w s" and wr: "enc_write (fst x) hmac ks cf (snd x) w = (Inr b, w')"
  then obtain pk where e: "encodeSshPacket (fst x) (snd x) 16 = Inr pk"
    and b: "b = ctr_update (ks cf) (ew_pos w) pk @
      computeSshMac hmac (pc_macName cf) (pc_macKey cf) (ew_sequenceNumber w) pk"
    and w': "w' = w\<lparr>ew_pos := ew_pos w + length pk, ew_sequenceNumber := u32 (ew_sequenceNumber w + 1)\<rparr>"
    by (auto simp: enc_write_def enc_protect_def op_bind_def op_return_def split: sum.splits)
  show "\<exists>t. enc_step hmac ks cf (enc_app s b) = (Inr (Some (snd x)), t) \<and> enc_rel w' t"
    unfolding b enc_step_packet [OF rel assms e] using rel w' by (simp add: enc_rel_def)
qed

section \<open>Bounds on what a peer can make the readers keep\<close>

lemma drain_preserves:
  assumes "\<And>s r t. step s = (r, t) \<Longrightarrow> P s \<Longrightarrow> P t" and "P s" and "drain step sz limit s acc = (r, t)"
  shows "P t"
  using assms(2,3)
proof (induction "sz s" arbitrary: s acc rule: less_induct)
  case less
  obtain q u where q: "step s = (q, u)" by fastforce
  then have u: "P u" using assms(1) less.prems(1) by blast
  show ?case
    using less q u
    by (subst (asm) (2) drain.simps) (auto split: if_splits sum.splits option.splits)
qed

definition enc_reader_ok :: "enc_reader \<Rightarrow> bool" where
  "enc_reader_ok s \<longleftrightarrow> int (length (er_encrypted s)) \<le> MAX_BUFFERED_STREAM_BYTES \<and>
     int (length (er_plain s)) \<le> MAX_SSH_PACKET_LENGTH + 4 \<and>
     (case er_expected s of None \<Rightarrow> er_plain s = []
      | Some n \<Rightarrow> length (er_plain s) \<le> n \<and> int n \<le> MAX_SSH_PACKET_LENGTH + 4)"

lemma enc_length_part_ok:
  "enc_length_part ks s = (r, t) \<Longrightarrow> enc_reader_ok s \<Longrightarrow>
     enc_reader_ok t \<and> (\<forall>n. r = Inr (Some n) \<longrightarrow> er_expected t = Some n)"
  by (auto simp: enc_length_part_def enc_reader_ok_def Let_def enc_decrypt_def assertSshPacketLength_ok
      MIN_SSH_PACKET_LENGTH_def split: option.splits if_splits sum.splits)

lemma enc_body_part_ok:
  "enc_body_part ks n s = (b, t) \<Longrightarrow> enc_reader_ok s \<Longrightarrow> er_expected s = Some n \<Longrightarrow> enc_reader_ok t"
  by (auto simp: enc_body_part_def enc_reader_ok_def Let_def split: if_splits)

lemma enc_mac_part_ok: "enc_mac_part hmac cf s = (r, t) \<Longrightarrow> enc_reader_ok s \<Longrightarrow> enc_reader_ok t"
  by (auto simp: enc_mac_part_def enc_reader_ok_def Let_def MAX_SSH_PACKET_LENGTH_def
      split: if_splits sum.splits option.splits)

lemma enc_step_ok: "enc_step hmac ks cf s = (r, t) \<Longrightarrow> enc_reader_ok s \<Longrightarrow> enc_reader_ok t"
  by (auto simp: enc_step_def split: prod.splits sum.splits option.splits bool.splits
      dest!: enc_length_part_ok enc_body_part_ok enc_mac_part_ok)

lemma enc_push_ok:
  assumes "enc_push hmac ks cf c limit s = (r, t)" and "enc_reader_ok s"
  shows "enc_reader_ok t"
proof (cases "int (length (er_encrypted s)) + int (length c) > MAX_BUFFERED_STREAM_BYTES")
  case True
  then show ?thesis using assms by (simp add: enc_push_def appendBounded_eq)
next
  case False
  then have d: "drain (enc_step hmac ks cf) enc_size limit (enc_app s c) [] = (r, t)"
    using assms(1) by (simp add: enc_push_def appendBounded_eq enc_app_def)
  have "enc_reader_ok (enc_app s c)" using False assms(2) by (auto simp: enc_reader_ok_def split: option.splits)
  then show ?thesis
    using drain_preserves [of "enc_step hmac ks cf" enc_reader_ok "enc_app s c"] enc_step_ok d by blast
qed

section \<open>The properties\<close>

text \<open>A packet that \<open>encodeSshPacket\<close> produces is a multiple of the block size long, has between
  4 and 255 padding bytes and a length field that counts everything behind it, and
  \<open>decodeSshPacket\<close> returns exactly the payload from it.\<close>

theorem packet_roundtrip:
  assumes "encodeSshPacket rng payload blockSize = Inr packet"
  shows "int (length packet) mod blockSize = 0 \<and>
    be_value (take 4 packet) = int (length packet) - 4 \<and>
    4 \<le> uint (packet ! 4) \<and>
    int (length packet) = 5 + int (length payload) + uint (packet ! 4) \<and>
    (\<exists>d. decodeSshPacket packet blockSize = Inr d \<and> dp_payload d = payload \<and>
         int (length (dp_padding d)) = uint (packet ! 4))"
proof -
  let ?p = "padding_length (int (length payload)) blockSize"
  have p: "4 \<le> ?p" "?p \<le> 255"
    using assms padding_length_bounds(1) by (auto simp: encodeSshPacket_eq_Inr)
  have p4: "uint (packet ! 4) = ?p"
    using assms p by (auto simp: encodeSshPacket_eq_Inr enc_uint32_def enc_byte_def)
  show ?thesis
    using encoded_length_ok(2) [OF assms] be_value_encodeSshPacket [OF assms]
      length_encodeSshPacket [OF assms] decode_encode_packet [OF assms] p
    by (simp add: p4)
qed

lemma packet_roundtrip_witness:
  "\<exists>d. decodeSshPacket (enc_uint32 12 @ enc_byte 8 @ [1, 2, 3] @ replicate 8 7) 8 = Inr d \<and> dp_payload d = [1, 2, 3]"
proof -
  have "encodeSshPacket (\<lambda>_. 7) [1, 2, 3] 8 = Inr (enc_uint32 12 @ enc_byte 8 @ [1, 2, 3] @ replicate 8 7)"
    by code_simp
  from packet_roundtrip [OF this] show ?thesis by blast
qed

text \<open>\<open>encodeSshPacket\<close> fails, at the block sizes in use, for no other reason than the size of
  the payload, and never for a payload of up to 256 KiB less 32 bytes.\<close>

theorem packet_encode_total:
  assumes "blockSize = 8 \<or> blockSize = 16" and "int (length payload) \<le> MAX_SSH_PACKET_LENGTH - 32"
  shows "\<exists>packet. encodeSshPacket rng payload blockSize = Inr packet"
proof -
  let ?p = "padding_length (int (length payload)) blockSize"
  have p: "4 \<le> ?p" "?p < blockSize + 4" "(int (length payload) + 5 + ?p) mod blockSize = 0"
    using padding_length_bounds [of blockSize "int (length payload)"] assms(1) by auto
  define n where "n = int (length payload)"
  have "12 \<le> n + ?p + 1"
    using assms(1) p(1,3) of_nat_0_le_iff [of "length payload", where ?'a = int]
    unfolding n_def [symmetric] by (elim disjE; hypsubst) presburger+
  then show ?thesis
    using assms p by (auto simp: encodeSshPacket_eq_Inr MIN_SSH_PACKET_LENGTH_def MAX_SSH_PACKET_LENGTH_def n_def)
qed

lemma packet_encode_total_witness:
  "\<exists>packet. encodeSshPacket (\<lambda>_. 0) [5] 16 = Inr packet"
  using packet_encode_total [of 16 "[5]" "\<lambda>_. 0"] by (simp add: MAX_SSH_PACKET_LENGTH_def)

text \<open>Before encryption, whatever payloads the writer turns into packets and however TCP cuts
  the bytes into chunks of at most a maximal packet, the reader's calls return those payloads in
  order, keep nothing back, and both sides count the same sequence number.\<close>

theorem plain_stream_delivery:
  assumes "run_all (\<lambda>x. op_one (plain_write (fst x) (snd x))) xs 0 = (Inr packets, n)"
    and "concat chunks = concat packets"
    and "\<forall>c\<in>set chunks. int (length c) \<le> MAX_SSH_PACKET_LENGTH"
  shows "run_all (\<lambda>c. plain_push c None) chunks plain_reader_new =
    (Inr (map snd xs), \<lparr>pr_buffer = [], pr_sequenceNumber = n\<rparr>)"
  using plain_link.delivery [OF _ assms, of plain_reader_new]
  by (auto simp: plain_rel_def plain_reader_new_def)

lemma plain_stream_delivery_witness:
  "\<exists>w. run_all (\<lambda>c. plain_push c None) [take 7 w, drop 7 w] plain_reader_new =
     (Inr [[20], [21, 22]], \<lparr>pr_buffer = [], pr_sequenceNumber = 2\<rparr>)"
proof -
  let ?xs = "[(\<lambda>_. 0, [20]), (\<lambda>_. 9, [21, 22])]"
  let ?p = "enc_uint32 12 @ enc_byte 10 @ [20] @ replicate 10 0"
  let ?q = "enc_uint32 12 @ enc_byte 9 @ [21, 22] @ replicate 9 9"
  have w: "run_all (\<lambda>x. op_one (plain_write (fst x) (snd x))) ?xs 0 = (Inr [?p, ?q], 2)"
    by code_simp
  have c: "concat [take 7 (?p @ ?q), drop 7 (?p @ ?q)] = concat [?p, ?q]"
    by (simp only: concat.simps append_Nil2 append_take_drop_id)
  have l: "\<forall>c\<in>set [take 7 (?p @ ?q), drop 7 (?p @ ?q)]. int (length c) \<le> MAX_SSH_PACKET_LENGTH"
    by (simp add: MAX_SSH_PACKET_LENGTH_def enc_uint32_def enc_byte_def)
  have m: "map snd ?xs = [[20], [21, 22]]" by simp
  show ?thesis
    by (rule exI [of _ "?p @ ?q"]) (rule plain_stream_delivery [OF w c l, unfolded m])
qed





text \<open>C2: The encrypted reader returns a payload only when the MAC that follows the packet on the wire
  is the one computed over the reader's current sequence number and the decrypted packet, and that
  packet decodes to the payload; the next packet is checked with the next sequence number.\<close>

theorem encrypted_payload_authenticated:
  assumes "enc_step hmac ks cf s = (Inr (Some payload), t)"
  shows "\<exists>plain mac d. mac = computeSshMac hmac (pc_macName cf) (pc_macKey cf) (er_sequenceNumber s) plain \<and>
    length mac = macLength (pc_macName cf) \<and> suffix (mac @ er_encrypted t) (er_encrypted s) \<and>
    decodeSshPacket plain 16 = Inr d \<and> dp_payload d = payload \<and>
    er_sequenceNumber t = u32 (er_sequenceNumber s + 1)"
proof -
  obtain n s1 s2 where l: "enc_length_part (ks cf) s = (Inr (Some n), s1)"
    and b: "enc_body_part (ks cf) n s1 = (True, s2)"
    and m: "enc_mac_part hmac cf s2 = (Inr (Some payload), t)"
    using assms by (auto simp: enc_step_def split: prod.splits sum.splits option.splits bool.splits)
  have "suffix (er_encrypted s1) (er_encrypted s)" "er_sequenceNumber s1 = er_sequenceNumber s"
    using l by (auto simp: enc_length_part_def Let_def suffix_drop split: option.splits if_splits sum.splits)
  moreover have "suffix (er_encrypted s2) (er_encrypted s1)" "er_sequenceNumber s2 = er_sequenceNumber s1"
    using b by (auto simp: enc_body_part_def Let_def suffix_drop split: if_splits)
  moreover have "er_encrypted s2 = take (macLength (pc_macName cf)) (er_encrypted s2) @ er_encrypted t"
    using m by (simp only: append_take_drop_id enc_mac_part_def Let_def)
      (auto simp del: append_take_drop_id split: if_splits sum.splits, metis append_take_drop_id)
  moreover have "length (take (macLength (pc_macName cf)) (er_encrypted s2)) = macLength (pc_macName cf)"
    "take (macLength (pc_macName cf)) (er_encrypted s2) =
       computeSshMac hmac (pc_macName cf) (pc_macKey cf) (er_sequenceNumber s2) (er_plain s2)"
    "\<exists>d. decodeSshPacket (er_plain s2) 16 = Inr d \<and> dp_payload d = payload"
    "er_sequenceNumber t = u32 (er_sequenceNumber s2 + 1)"
    using m by (auto simp: enc_mac_part_def Let_def split: if_splits sum.splits)
  ultimately show ?thesis by (metis suffix_order.trans)
qed

lemma encrypted_payload_authenticated_witness:
  "\<exists>plain mac d. mac = computeSshMac (\<lambda>m k d. replicate (macLength m) 5) HmacSha256 [] 3 plain \<and>
     length mac = 32 \<and> decodeSshPacket plain 16 = Inr d \<and> dp_payload d = [20]"
proof -
  have "enc_step (\<lambda>m k d. replicate (macLength m) 5) (\<lambda>_ _. 0)
      \<lparr>pc_cipherName = Aes128Ctr, pc_encryptionKey = [], pc_initialIv = [], pc_macName = HmacSha256, pc_macKey = []\<rparr>
      (enc_app (enc_reader_new 3) (enc_uint32 12 @ enc_byte 10 @ [20] @ replicate 10 0 @ replicate 32 5)) =
    (Inr (Some [20]), \<lparr>er_encrypted = [], er_plain = [], er_expected = None, er_sequenceNumber = 4, er_pos = 16\<rparr>)"
    by code_simp
  from encrypted_payload_authenticated [OF this] show ?thesis
    by (simp add: enc_reader_new_def u32_def macLength_def) blast
qed

text \<open>C4: Whatever chunks arrive and whatever the calls return, errors included, the encrypted reader
  never keeps more than the buffer limit of undecrypted bytes, nor more than one maximal packet of
  decrypted ones.\<close>

theorem encrypted_reader_bounded:
  "let s = foldl (\<lambda>s c. snd (enc_push hmac ks cf c limit s)) (enc_reader_new n) chunks
   in int (length (er_encrypted s)) \<le> MAX_BUFFERED_STREAM_BYTES \<and>
      int (length (er_plain s)) \<le> MAX_SSH_PACKET_LENGTH + 4"
proof -
  have "enc_reader_ok r \<Longrightarrow> enc_reader_ok (foldl (\<lambda>s c. snd (enc_push hmac ks cf c limit s)) r chunks)" for r
    by (induction chunks arbitrary: r) (auto intro: enc_push_ok [OF prod.collapse [symmetric]])
  moreover have "enc_reader_ok (enc_reader_new n)"
    by (simp add: enc_reader_ok_def enc_reader_new_def MAX_BUFFERED_STREAM_BYTES_def MAX_SSH_PACKET_LENGTH_def)
  ultimately show ?thesis by (auto simp: enc_reader_ok_def Let_def)
qed

end
