(* ===== verification/SshMessages.thy ===== *)
theory SshMessages
  imports SshBinary
begin

text \<open>
  The messages of the protocol: \<open>version.ts\<close>, \<open>messages.ts\<close> (KEXINIT), \<open>transport-messages.ts\<close>,
  \<open>auth-messages.ts\<close>, \<open>channel-messages.ts\<close> and \<open>connection-messages.ts\<close> of \<open>src/core/ssh\<close>.
  An encoder is its chain of writer methods, a decoder its sequence of reader methods.  The
  locale \<open>payload_codec\<close> relates the two where the program has both; an optional argument is an
  \<open>option\<close>, its default written out by \<open>or_else\<close>.
\<close>

definition or_else :: "'a option \<Rightarrow> 'a \<Rightarrow> 'a" where
  "or_else x d = (case x of None \<Rightarrow> d | Some y \<Rightarrow> y)"

lemma or_else_simps [simp]: "or_else None d = d" "or_else (Some y) d = y"
  by (simp_all add: or_else_def)

section \<open>The version line\<close>

record parsed_version =
  pv_protocol :: jsstring
  pv_software :: jsstring
  pv_comments :: "jsstring option"
  pv_raw :: jsstring

definition CLIENT_SOFTWARE_VERSION :: jsstring where
  "CLIENT_SOFTWARE_VERSION = js ''shadow-ssh-desktop_0.1''"

definition version_char :: "nat \<Rightarrow> bool" where
  "version_char u \<longleftrightarrow> is_alnum u \<or> u = 46 \<or> u = 95 \<or> u = 43 \<or> u = 45"

definition formatClientVersion :: "jsstring \<Rightarrow> ssh_error + jsstring" where
  "formatClientVersion software =
     (if software = [] \<or> \<not> list_all version_char software
        then Inl (VersionError UnsupportedVersionCharacters)
      else Inr (js ''SSH-2.0-'' @ software @ [13, 10]))"

text \<open>\<open>line.replace(/\r?\n$/, "")\<close>\<close>

definition strip_line_end :: "jsstring \<Rightarrow> jsstring" where
  "strip_line_end line =
     (if ends_with [13, 10] line then take (length line - 2) line
      else if ends_with [10] line then take (length line - 1) line else line)"

definition parseSshVersionLine :: "jsstring \<Rightarrow> ssh_error + parsed_version" where
  "parseSshVersionLine line =
     (let raw = strip_line_end line in
      if \<not> starts_with (js ''SSH-'') raw then Inl (VersionError NotVersionLine)
      else case index_of 45 raw of
        None \<Rightarrow> Inl (VersionError MalformedVersionLine)
      | Some firstDash \<Rightarrow>
         (case index_of 45 (drop (firstDash + 1) raw) of
            None \<Rightarrow> Inl (VersionError MalformedVersionLine)
          | Some k \<Rightarrow>
             (let protocol = take k (drop (firstDash + 1) raw);
                  rest = drop (firstDash + 1 + k + 1) raw;
                  spaceIndex = index_of 32 rest;
                  software = (case spaceIndex of Some i \<Rightarrow> take i rest | None \<Rightarrow> rest);
                  comments = (case spaceIndex of Some i \<Rightarrow> Some (drop (i + 1) rest) | None \<Rightarrow> None)
              in if protocol \<noteq> js ''2.0'' then Inl (VersionError (UnsupportedProtocol protocol))
                 else if software = [] then Inl (VersionError EmptySoftwareVersion)
                 else Inr \<lparr>pv_protocol = protocol, pv_software = software, pv_comments = comments,
                           pv_raw = raw\<rparr>)))"

section \<open>What every decoder starts and ends with\<close>

definition messageNumber :: "bytes \<Rightarrow> ssh_error + int" where
  "messageNumber payload = (if payload = [] then Inl (MessageError EmptyPayload) else Inr (uint (hd payload)))"

definition expectMessage :: "int \<Rightarrow> unit reading" where
  "expectMessage expected = op_bind rd_byte (\<lambda>actual.
     op_require (actual = expected) (MessageError (UnexpectedMessage actual expected)))"

definition ensureEof :: "string \<Rightarrow> unit reading" where
  "ensureEof label = op_bind rd_eof (\<lambda>e. op_require e (MessageError (TrailingBytes label)))"

section \<open>KEXINIT\<close>

definition SSH_MSG_KEXINIT :: int where "SSH_MSG_KEXINIT = 20"

record kexinit =
  cookie :: bytes
  kexAlgorithms :: "jsstring list"
  serverHostKeyAlgorithms :: "jsstring list"
  encryptionAlgorithmsClientToServer :: "jsstring list"
  encryptionAlgorithmsServerToClient :: "jsstring list"
  macAlgorithmsClientToServer :: "jsstring list"
  macAlgorithmsServerToClient :: "jsstring list"
  compressionAlgorithmsClientToServer :: "jsstring list"
  compressionAlgorithmsServerToClient :: "jsstring list"
  languagesClientToServer :: "jsstring list"
  languagesServerToClient :: "jsstring list"
  firstKexPacketFollows :: bool
  reserved :: int

text \<open>\<open>createDefaultKexInit\<close>; \<open>random\<close> are the 16 bytes of \<open>randomBytes\<close>.\<close>

definition createDefaultKexInit :: "bytes \<Rightarrow> kexinit" where
  "createDefaultKexInit random =
     \<lparr>cookie = random,
      kexAlgorithms = [js ''curve25519-sha256'', js ''curve25519-sha256@libssh.org'',
        js ''diffie-hellman-group14-sha256''],
      serverHostKeyAlgorithms = [js ''ssh-ed25519'', js ''rsa-sha2-512'', js ''rsa-sha2-256''],
      encryptionAlgorithmsClientToServer = [js ''aes128-ctr'', js ''aes256-ctr'', js ''aes192-ctr''],
      encryptionAlgorithmsServerToClient = [js ''aes128-ctr'', js ''aes256-ctr'', js ''aes192-ctr''],
      macAlgorithmsClientToServer = [js ''hmac-sha2-256'', js ''hmac-sha2-512''],
      macAlgorithmsServerToClient = [js ''hmac-sha2-256'', js ''hmac-sha2-512''],
      compressionAlgorithmsClientToServer = [js ''none''],
      compressionAlgorithmsServerToClient = [js ''none''],
      languagesClientToServer = [], languagesServerToClient = [],
      firstKexPacketFollows = False, reserved = 0\<rparr>"

definition encodeKexInit :: "kexinit \<Rightarrow> ssh_error + bytes" where
  "encodeKexInit m =
     (if length (cookie m) \<noteq> 16 then Inl (MessageError CookieLengthInvalid)
      else w_run [w_byte SSH_MSG_KEXINIT, w_raw (cookie m),
        w_nameList (kexAlgorithms m), w_nameList (serverHostKeyAlgorithms m),
        w_nameList (encryptionAlgorithmsClientToServer m), w_nameList (encryptionAlgorithmsServerToClient m),
        w_nameList (macAlgorithmsClientToServer m), w_nameList (macAlgorithmsServerToClient m),
        w_nameList (compressionAlgorithmsClientToServer m), w_nameList (compressionAlgorithmsServerToClient m),
        w_nameList (languagesClientToServer m), w_nameList (languagesServerToClient m),
        w_boolean (firstKexPacketFollows m), w_uint32 (reserved m)])"

definition kexinit_body :: "bytes \<Rightarrow> kexinit reading" where
  "kexinit_body c =
     op_bind rd_nameList (\<lambda>kex. op_bind rd_nameList (\<lambda>hk.
     op_bind rd_nameList (\<lambda>ecs. op_bind rd_nameList (\<lambda>esc.
     op_bind rd_nameList (\<lambda>mcs. op_bind rd_nameList (\<lambda>msc.
     op_bind rd_nameList (\<lambda>ccs. op_bind rd_nameList (\<lambda>csc.
     op_bind rd_nameList (\<lambda>lcs. op_bind rd_nameList (\<lambda>lsc.
     op_bind rd_boolean (\<lambda>f. op_bind rd_uint32 (\<lambda>r.
     op_bind (ensureEof ''KEXINIT'') (\<lambda>_. op_return
       \<lparr>cookie = c, kexAlgorithms = kex, serverHostKeyAlgorithms = hk,
        encryptionAlgorithmsClientToServer = ecs, encryptionAlgorithmsServerToClient = esc,
        macAlgorithmsClientToServer = mcs, macAlgorithmsServerToClient = msc,
        compressionAlgorithmsClientToServer = ccs, compressionAlgorithmsServerToClient = csc,
        languagesClientToServer = lcs, languagesServerToClient = lsc,
        firstKexPacketFollows = f, reserved = r\<rparr>)))))))))))))"

definition decodeKexInit :: "bytes \<Rightarrow> ssh_error + kexinit" where
  "decodeKexInit = read_all (op_bind (expectMessage SSH_MSG_KEXINIT) (\<lambda>_.
     op_bind rd_remaining (\<lambda>cookieAndRest.
       if length (take 16 cookieAndRest) \<noteq> 16 then op_throw (MessageError MissingCookie)
       else op_lift (read_all (kexinit_body (take 16 cookieAndRest)) (drop 16 cookieAndRest)))))"

section \<open>Transport messages\<close>

definition SSH_MSG_DISCONNECT :: int where "SSH_MSG_DISCONNECT = 1"
definition SSH_MSG_IGNORE :: int where "SSH_MSG_IGNORE = 2"
definition SSH_MSG_UNIMPLEMENTED :: int where "SSH_MSG_UNIMPLEMENTED = 3"
definition SSH_MSG_DEBUG :: int where "SSH_MSG_DEBUG = 4"
definition SSH_MSG_GLOBAL_REQUEST :: int where "SSH_MSG_GLOBAL_REQUEST = 80"
definition SSH_MSG_REQUEST_SUCCESS :: int where "SSH_MSG_REQUEST_SUCCESS = 81"
definition SSH_MSG_REQUEST_FAILURE :: int where "SSH_MSG_REQUEST_FAILURE = 82"

definition encodeDisconnect :: "int \<Rightarrow> jsstring \<Rightarrow> jsstring \<Rightarrow> ssh_error + bytes" where
  "encodeDisconnect reasonCode description language =
     w_run [w_byte SSH_MSG_DISCONNECT, w_uint32 reasonCode, w_text description, w_text language]"

definition encodeKeepaliveRequest :: "jsstring option \<Rightarrow> bool option \<Rightarrow> ssh_error + bytes" where
  "encodeKeepaliveRequest requestName wantReply =
     w_run [w_byte SSH_MSG_GLOBAL_REQUEST, w_text (or_else requestName (js ''keepalive@openssh.com'')),
       w_boolean (or_else wantReply True)]"

record global_request =
  gr_requestName :: jsstring
  gr_wantReply :: bool
  gr_requestData :: bytes

definition decodeGlobalRequest :: "bytes \<Rightarrow> ssh_error + global_request" where
  "decodeGlobalRequest = read_all (op_bind rd_byte (\<lambda>n.
     op_bind (op_require (n = SSH_MSG_GLOBAL_REQUEST) (MessageError ExpectedGlobalRequest)) (\<lambda>_.
     op_bind rd_utf8String (\<lambda>name. op_bind rd_boolean (\<lambda>w. op_bind rd_remaining (\<lambda>d.
       op_return \<lparr>gr_requestName = name, gr_wantReply = w, gr_requestData = d\<rparr>))))))"

definition encodeRequestFailure :: bytes where
  "encodeRequestFailure = enc_byte SSH_MSG_REQUEST_FAILURE"

section \<open>Authentication messages\<close>

definition SSH_MSG_SERVICE_REQUEST :: int where "SSH_MSG_SERVICE_REQUEST = 5"
definition SSH_MSG_USERAUTH_REQUEST :: int where "SSH_MSG_USERAUTH_REQUEST = 50"
definition SSH_SERVICE_USERAUTH :: jsstring where "SSH_SERVICE_USERAUTH = js ''ssh-userauth''"
definition SSH_SERVICE_CONNECTION :: jsstring where "SSH_SERVICE_CONNECTION = js ''ssh-connection''"

record password_request =
  pwr_username :: jsstring
  pwr_password :: jsstring
  pwr_service :: "jsstring option"

record publickey_request =
  pkr_username :: jsstring
  pkr_publicKeyAlgorithm :: jsstring
  pkr_publicKeyBlob :: bytes
  pkr_service :: "jsstring option"
  pkr_signatureBlob :: bytes

definition encodeServiceRequest :: "jsstring \<Rightarrow> ssh_error + bytes" where
  "encodeServiceRequest serviceName = w_run [w_byte SSH_MSG_SERVICE_REQUEST, w_text serviceName]"

definition encodePasswordAuthRequest :: "password_request \<Rightarrow> ssh_error + bytes" where
  "encodePasswordAuthRequest r =
     w_run [w_byte SSH_MSG_USERAUTH_REQUEST, w_text (pwr_username r),
       w_text (or_else (pwr_service r) SSH_SERVICE_CONNECTION), w_text (js ''password''),
       w_boolean False, w_text (pwr_password r)]"

definition encodePublicKeyAuthSignedRequest :: "publickey_request \<Rightarrow> ssh_error + bytes" where
  "encodePublicKeyAuthSignedRequest r =
     w_run [w_byte SSH_MSG_USERAUTH_REQUEST, w_text (pkr_username r),
       w_text (or_else (pkr_service r) SSH_SERVICE_CONNECTION), w_text (js ''publickey''),
       w_boolean True, w_text (pkr_publicKeyAlgorithm r), w_buffer (pkr_publicKeyBlob r),
       w_buffer (pkr_signatureBlob r)]"

section \<open>Channel messages of the client\<close>

definition SSH_MSG_CHANNEL_OPEN :: int where "SSH_MSG_CHANNEL_OPEN = 90"
definition SSH_MSG_CHANNEL_OPEN_FAILURE :: int where "SSH_MSG_CHANNEL_OPEN_FAILURE = 92"
definition SSH_MSG_CHANNEL_DATA :: int where "SSH_MSG_CHANNEL_DATA = 94"
definition SSH_MSG_CHANNEL_WINDOW_ADJUST :: int where "SSH_MSG_CHANNEL_WINDOW_ADJUST = 93"
definition SSH_MSG_CHANNEL_EOF :: int where "SSH_MSG_CHANNEL_EOF = 96"
definition SSH_MSG_CHANNEL_CLOSE :: int where "SSH_MSG_CHANNEL_CLOSE = 97"
definition SSH_MSG_CHANNEL_REQUEST :: int where "SSH_MSG_CHANNEL_REQUEST = 98"
definition SSH_MSG_CHANNEL_FAILURE :: int where "SSH_MSG_CHANNEL_FAILURE = 100"

definition DEFAULT_WINDOW_SIZE :: int where "DEFAULT_WINDOW_SIZE = 1024 * 1024"
definition DEFAULT_MAX_PACKET_SIZE :: int where "DEFAULT_MAX_PACKET_SIZE = 32 * 1024"

record channel_open_base =
  cob_senderChannel :: int
  cob_initialWindowSize :: "int option"
  cob_maximumPacketSize :: "int option"

record direct_tcpip_open = channel_open_base +
  dto_hostToConnect :: jsstring
  dto_portToConnect :: int
  dto_originatorIpAddress :: jsstring
  dto_originatorPort :: int

record pty_request =
  pty_recipientChannel :: int
  pty_terminalType :: "jsstring option"
  pty_columns :: int
  pty_rows :: int
  pty_pixelWidth :: "int option"
  pty_pixelHeight :: "int option"
  pty_terminalModes :: "bytes option"
  pty_wantReply :: "bool option"

record shell_request =
  shr_recipientChannel :: int
  shr_wantReply :: "bool option"

record window_change_request =
  wcr_recipientChannel :: int
  wcr_columns :: int
  wcr_rows :: int
  wcr_pixelWidth :: "int option"
  wcr_pixelHeight :: "int option"
  wcr_wantReply :: "bool option"

record channel_data =
  cd_recipientChannel :: int
  cd_data :: bytes

definition encodeSessionChannelOpen :: "channel_open_base \<Rightarrow> ssh_error + bytes" where
  "encodeSessionChannelOpen r =
     w_run [w_byte SSH_MSG_CHANNEL_OPEN, w_text (js ''session''), w_uint32 (cob_senderChannel r),
       w_uint32 (or_else (cob_initialWindowSize r) DEFAULT_WINDOW_SIZE),
       w_uint32 (or_else (cob_maximumPacketSize r) DEFAULT_MAX_PACKET_SIZE)]"

definition encodeDirectTcpIpChannelOpen :: "direct_tcpip_open \<Rightarrow> ssh_error + bytes" where
  "encodeDirectTcpIpChannelOpen r =
     w_run [w_byte SSH_MSG_CHANNEL_OPEN, w_text (js ''direct-tcpip''), w_uint32 (cob_senderChannel r),
       w_uint32 (or_else (cob_initialWindowSize r) DEFAULT_WINDOW_SIZE),
       w_uint32 (or_else (cob_maximumPacketSize r) DEFAULT_MAX_PACKET_SIZE),
       w_text (dto_hostToConnect r), w_uint32 (dto_portToConnect r),
       w_text (dto_originatorIpAddress r), w_uint32 (dto_originatorPort r)]"

definition encodePtyRequest :: "pty_request \<Rightarrow> ssh_error + bytes" where
  "encodePtyRequest r =
     w_run [w_byte SSH_MSG_CHANNEL_REQUEST, w_uint32 (pty_recipientChannel r), w_text (js ''pty-req''),
       w_boolean (or_else (pty_wantReply r) True),
       w_text (or_else (pty_terminalType r) (js ''xterm-256color'')),
       w_uint32 (pty_columns r), w_uint32 (pty_rows r),
       w_uint32 (or_else (pty_pixelWidth r) 0), w_uint32 (or_else (pty_pixelHeight r) 0),
       w_buffer (or_else (pty_terminalModes r) [0])]"

definition encodeShellRequest :: "shell_request \<Rightarrow> ssh_error + bytes" where
  "encodeShellRequest r =
     w_run [w_byte SSH_MSG_CHANNEL_REQUEST, w_uint32 (shr_recipientChannel r), w_text (js ''shell''),
       w_boolean (or_else (shr_wantReply r) True)]"

definition encodeWindowChangeRequest :: "window_change_request \<Rightarrow> ssh_error + bytes" where
  "encodeWindowChangeRequest r =
     w_run [w_byte SSH_MSG_CHANNEL_REQUEST, w_uint32 (wcr_recipientChannel r), w_text (js ''window-change''),
       w_boolean (or_else (wcr_wantReply r) False), w_uint32 (wcr_columns r), w_uint32 (wcr_rows r),
       w_uint32 (or_else (wcr_pixelWidth r) 0), w_uint32 (or_else (wcr_pixelHeight r) 0)]"

text \<open>The hand-written fast path: \<open>writeUInt32BE\<close> of the length is Node's, with its range check.\<close>

definition encodeChannelData :: "channel_data \<Rightarrow> ssh_error + bytes" where
  "encodeChannelData r =
     (if cd_recipientChannel r < 0 \<or> cd_recipientChannel r > 0xffffffff
        then Inl (MessageError ChannelRecipientOutOfRange)
      else if int (length (cd_data r)) > 0xffffffff then Inl (BinaryError NodeRangeError)
      else Inr (enc_byte SSH_MSG_CHANNEL_DATA @ enc_uint32 (cd_recipientChannel r) @
                enc_uint32 (int (length (cd_data r))) @ cd_data r))"

record window_adjust =
  wa_recipientChannel :: int
  wa_bytesToAdd :: int

definition encodeChannelWindowAdjust :: "int \<Rightarrow> int \<Rightarrow> ssh_error + bytes" where
  "encodeChannelWindowAdjust recipientChannel bytesToAdd =
     w_run [w_byte SSH_MSG_CHANNEL_WINDOW_ADJUST, w_uint32 recipientChannel, w_uint32 bytesToAdd]"

definition encodeChannelEof :: "int \<Rightarrow> ssh_error + bytes" where
  "encodeChannelEof recipientChannel = w_run [w_byte SSH_MSG_CHANNEL_EOF, w_uint32 recipientChannel]"

definition encodeChannelClose :: "int \<Rightarrow> ssh_error + bytes" where
  "encodeChannelClose recipientChannel = w_run [w_byte SSH_MSG_CHANNEL_CLOSE, w_uint32 recipientChannel]"

record channel_open_failure =
  cof_recipientChannel :: int
  cof_reasonCode :: int
  cof_description :: jsstring
  cof_languageTag :: jsstring

definition encodeChannelOpenFailure :: "int \<Rightarrow> int option \<Rightarrow> jsstring option \<Rightarrow> jsstring option
    \<Rightarrow> ssh_error + bytes" where
  "encodeChannelOpenFailure recipientChannel reasonCode description language =
     w_run [w_byte SSH_MSG_CHANNEL_OPEN_FAILURE, w_uint32 recipientChannel, w_uint32 (or_else reasonCode 1),
       w_text (or_else description (js ''Server-initiated channels are not supported.'')),
       w_text (or_else language [])]"

definition encodeChannelFailure :: "int \<Rightarrow> ssh_error + bytes" where
  "encodeChannelFailure recipientChannel = w_run [w_byte SSH_MSG_CHANNEL_FAILURE, w_uint32 recipientChannel]"

section \<open>Messages of the server\<close>

definition SSH_MSG_NEWKEYS :: int where "SSH_MSG_NEWKEYS = 21"
definition SSH_MSG_SERVICE_ACCEPT :: int where "SSH_MSG_SERVICE_ACCEPT = 6"
definition SSH_MSG_USERAUTH_FAILURE :: int where "SSH_MSG_USERAUTH_FAILURE = 51"
definition SSH_MSG_USERAUTH_SUCCESS :: int where "SSH_MSG_USERAUTH_SUCCESS = 52"
definition SSH_MSG_USERAUTH_BANNER :: int where "SSH_MSG_USERAUTH_BANNER = 53"
definition SSH_MSG_CHANNEL_OPEN_CONFIRMATION :: int where "SSH_MSG_CHANNEL_OPEN_CONFIRMATION = 91"
definition SSH_MSG_CHANNEL_EXTENDED_DATA :: int where "SSH_MSG_CHANNEL_EXTENDED_DATA = 95"
definition SSH_MSG_CHANNEL_SUCCESS :: int where "SSH_MSG_CHANNEL_SUCCESS = 99"

record userauth_failure =
  uf_methodsThatCanContinue :: "jsstring list"
  uf_partialSuccess :: bool

record open_confirmation =
  oc_recipientChannel :: int
  oc_senderChannel :: int
  oc_initialWindowSize :: int
  oc_maximumPacketSize :: int

record extended_data = channel_data +
  ed_dataTypeCode :: int

record channel_open_request =
  cor_channelType :: jsstring
  cor_senderChannel :: int
  cor_initialWindowSize :: int
  cor_maximumPacketSize :: int
  cor_requestData :: bytes

record channel_request =
  crq_recipientChannel :: int
  crq_requestType :: jsstring
  crq_wantReply :: bool
  crq_requestData :: bytes

definition decodeServiceAccept :: "bytes \<Rightarrow> ssh_error + jsstring" where
  "decodeServiceAccept = read_all (op_bind (expectMessage SSH_MSG_SERVICE_ACCEPT) (\<lambda>_.
     op_bind rd_utf8String (\<lambda>serviceName. op_bind (ensureEof ''SERVICE_ACCEPT'') (\<lambda>_.
       op_return serviceName))))"

definition decodeUserAuthFailure :: "bytes \<Rightarrow> ssh_error + userauth_failure" where
  "decodeUserAuthFailure = read_all (op_bind (expectMessage SSH_MSG_USERAUTH_FAILURE) (\<lambda>_.
     op_bind rd_nameList (\<lambda>methods. op_bind rd_boolean (\<lambda>partial.
     op_bind (ensureEof ''USERAUTH_FAILURE'') (\<lambda>_.
       op_return \<lparr>uf_methodsThatCanContinue = methods, uf_partialSuccess = partial\<rparr>)))))"

definition decodeChannelOpenConfirmation :: "bytes \<Rightarrow> ssh_error + open_confirmation" where
  "decodeChannelOpenConfirmation = read_all (op_bind (expectMessage SSH_MSG_CHANNEL_OPEN_CONFIRMATION) (\<lambda>_.
     op_bind rd_uint32 (\<lambda>r. op_bind rd_uint32 (\<lambda>sc. op_bind rd_uint32 (\<lambda>w. op_bind rd_uint32 (\<lambda>mp.
     op_bind (ensureEof ''CHANNEL_OPEN_CONFIRMATION'') (\<lambda>_.
       op_return \<lparr>oc_recipientChannel = r, oc_senderChannel = sc, oc_initialWindowSize = w,
                  oc_maximumPacketSize = mp\<rparr>)))))))"

definition decodeChannelOpenFailure :: "bytes \<Rightarrow> ssh_error + channel_open_failure" where
  "decodeChannelOpenFailure = read_all (op_bind (expectMessage SSH_MSG_CHANNEL_OPEN_FAILURE) (\<lambda>_.
     op_bind rd_uint32 (\<lambda>r. op_bind rd_uint32 (\<lambda>reason. op_bind rd_utf8String (\<lambda>d. op_bind rd_utf8String (\<lambda>l.
     op_bind (ensureEof ''CHANNEL_OPEN_FAILURE'') (\<lambda>_.
       op_return \<lparr>cof_recipientChannel = r, cof_reasonCode = reason, cof_description = d,
                  cof_languageTag = l\<rparr>)))))))"

definition decodeChannelWindowAdjust :: "bytes \<Rightarrow> ssh_error + window_adjust" where
  "decodeChannelWindowAdjust = read_all (op_bind (expectMessage SSH_MSG_CHANNEL_WINDOW_ADJUST) (\<lambda>_.
     op_bind rd_uint32 (\<lambda>r. op_bind rd_uint32 (\<lambda>n. op_bind (ensureEof ''CHANNEL_WINDOW_ADJUST'') (\<lambda>_.
       op_return \<lparr>wa_recipientChannel = r, wa_bytesToAdd = n\<rparr>)))))"

definition decodeChannelData :: "bytes \<Rightarrow> ssh_error + channel_data" where
  "decodeChannelData = read_all (op_bind (expectMessage SSH_MSG_CHANNEL_DATA) (\<lambda>_.
     op_bind rd_uint32 (\<lambda>r. op_bind rd_string (\<lambda>d. op_bind (ensureEof ''CHANNEL_DATA'') (\<lambda>_.
       op_return \<lparr>cd_recipientChannel = r, cd_data = d\<rparr>)))))"

definition decodeChannelExtendedData :: "bytes \<Rightarrow> ssh_error + extended_data" where
  "decodeChannelExtendedData = read_all (op_bind (expectMessage SSH_MSG_CHANNEL_EXTENDED_DATA) (\<lambda>_.
     op_bind rd_uint32 (\<lambda>r. op_bind rd_uint32 (\<lambda>t. op_bind rd_string (\<lambda>d.
     op_bind (ensureEof ''CHANNEL_EXTENDED_DATA'') (\<lambda>_.
       op_return \<lparr>cd_recipientChannel = r, cd_data = d, ed_dataTypeCode = t\<rparr>))))))"

definition decodeChannelOpen :: "bytes \<Rightarrow> ssh_error + channel_open_request" where
  "decodeChannelOpen = read_all (op_bind (expectMessage 90) (\<lambda>_.
     op_bind rd_utf8String (\<lambda>t. op_bind rd_uint32 (\<lambda>sc. op_bind rd_uint32 (\<lambda>w. op_bind rd_uint32 (\<lambda>mp.
     op_bind rd_remaining (\<lambda>d.
       op_return \<lparr>cor_channelType = t, cor_senderChannel = sc, cor_initialWindowSize = w,
                  cor_maximumPacketSize = mp, cor_requestData = d\<rparr>)))))))"

definition decodeChannelRequest :: "bytes \<Rightarrow> ssh_error + channel_request" where
  "decodeChannelRequest = read_all (op_bind (expectMessage 98) (\<lambda>_.
     op_bind rd_uint32 (\<lambda>r. op_bind rd_utf8String (\<lambda>t. op_bind rd_boolean (\<lambda>w.
     op_bind rd_remaining (\<lambda>d.
       op_return \<lparr>crq_recipientChannel = r, crq_requestType = t, crq_wantReply = w,
                  crq_requestData = d\<rparr>))))))"

definition decodeChannelEndpoint :: "int \<Rightarrow> bytes \<Rightarrow> ssh_error + int" where
  "decodeChannelEndpoint expectedMessage = read_all (op_bind (expectMessage expectedMessage) (\<lambda>_.
     op_bind rd_uint32 (\<lambda>r. op_bind (ensureEof ''message'') (\<lambda>_. op_return r))))"

section \<open>Running encoders and decoders\<close>

lemma read_all_iff: "read_all m b = Inr y \<longleftrightarrow> (\<exists>r. m (rdr [] b) = (Inr y, r))"
  by (cases "m (rdr [] b)") (auto simp: read_all_def rd_new_rdr)

lemma read_all_rdr: "read_all m b = fst (m (rdr [] b))"
  by (simp add: read_all_def rd_new_rdr)

lemma expect_bind [codec_simps]:
  "byte_ok n \<Longrightarrow> op_bind (expectMessage n) f (rdr p (enc_byte n @ s)) = f () (rdr (p @ enc_byte n) s)"
  by (simp add: expectMessage_def op_bind_Inr op_bind_def byte_codec.dec_enc op_require_def)

lemma expect_bind_iff:
  assumes "byte_ok n"
  shows "op_bind (expectMessage n) f (rdr p s) = (Inr y, r) \<longleftrightarrow>
     (\<exists>t. s = enc_byte n @ t \<and> f () (rdr (p @ enc_byte n) t) = (Inr y, r))"
proof
  assume a: "op_bind (expectMessage n) f (rdr p s) = (Inr y, r)"
  then obtain u r' where e: "expectMessage n (rdr p s) = (Inr u, r')" and f: "f u r' = (Inr y, r)"
    by (rule op_bind_InrE)
  from e obtain x t where "s = enc_byte x @ t" "op_require (x = n) (MessageError (UnexpectedMessage x n))
      (rdr (p @ enc_byte x) t) = (Inr u, r')"
    unfolding expectMessage_def byte_codec.bind_iff by auto
  then show "\<exists>t. s = enc_byte n @ t \<and> f () (rdr (p @ enc_byte n) t) = (Inr y, r)"
    using f by (auto simp: op_require_def split: if_splits)
qed (use assms in \<open>auto simp: expect_bind\<close>)

lemma eof_bind [codec_simps]: "op_bind (ensureEof l) f (rdr p []) = f () (rdr p [])"
  by (simp add: ensureEof_def op_bind_def rd_eof_rdr op_require_def)

lemma eof_bind_iff:
  "op_bind (ensureEof l) f (rdr p s) = (Inr y, r) \<longleftrightarrow> s = [] \<and> f () (rdr p []) = (Inr y, r)"
  by (auto simp: ensureEof_def op_bind_def rd_eof_rdr op_require_def)

lemma return_iff: "op_return x s = (Inr y, r) \<longleftrightarrow> x = y \<and> s = r"
  by (auto simp: op_return_def)

lemmas message_numbers =
  SSH_MSG_KEXINIT_def SSH_MSG_DISCONNECT_def SSH_MSG_GLOBAL_REQUEST_def SSH_MSG_REQUEST_FAILURE_def
  SSH_MSG_SERVICE_REQUEST_def SSH_MSG_USERAUTH_REQUEST_def SSH_MSG_CHANNEL_OPEN_def
  SSH_MSG_CHANNEL_OPEN_FAILURE_def SSH_MSG_CHANNEL_DATA_def SSH_MSG_CHANNEL_WINDOW_ADJUST_def
  SSH_MSG_CHANNEL_EOF_def SSH_MSG_CHANNEL_CLOSE_def SSH_MSG_CHANNEL_REQUEST_def SSH_MSG_CHANNEL_FAILURE_def
  SSH_MSG_NEWKEYS_def SSH_MSG_SERVICE_ACCEPT_def SSH_MSG_USERAUTH_FAILURE_def SSH_MSG_USERAUTH_SUCCESS_def
  SSH_MSG_USERAUTH_BANNER_def SSH_MSG_CHANNEL_OPEN_CONFIRMATION_def SSH_MSG_CHANNEL_EXTENDED_DATA_def
  SSH_MSG_CHANNEL_SUCCESS_def SSH_MSG_IGNORE_def SSH_MSG_UNIMPLEMENTED_def SSH_MSG_DEBUG_def
  SSH_MSG_REQUEST_SUCCESS_def

lemma message_bytes [simp]:
  "byte_ok SSH_MSG_KEXINIT" "byte_ok SSH_MSG_GLOBAL_REQUEST" "byte_ok SSH_MSG_CHANNEL_OPEN"
  "byte_ok SSH_MSG_CHANNEL_OPEN_FAILURE" "byte_ok SSH_MSG_CHANNEL_DATA" "byte_ok SSH_MSG_CHANNEL_WINDOW_ADJUST"
  "byte_ok SSH_MSG_CHANNEL_EOF" "byte_ok SSH_MSG_CHANNEL_CLOSE" "byte_ok SSH_MSG_CHANNEL_REQUEST"
  "byte_ok SSH_MSG_CHANNEL_FAILURE" "byte_ok SSH_MSG_SERVICE_ACCEPT" "byte_ok SSH_MSG_USERAUTH_FAILURE"
  "byte_ok SSH_MSG_CHANNEL_OPEN_CONFIRMATION" "byte_ok SSH_MSG_CHANNEL_EXTENDED_DATA"
  "byte_ok SSH_MSG_CHANNEL_SUCCESS"
  by (simp_all add: byte_ok_def message_numbers)

text \<open>A short ASCII literal is text the writer accepts.\<close>

lemma text_ok_literal: "is_ascii s \<Longrightarrow> length s \<le> 0xffffffff \<Longrightarrow> text_ok s"
  by (simp add: text_ok_def buffer_ok_def ascii_wf_utf16 utf8_encode_ascii)

lemma enc_nameList_comma [writer_simps]: "enc_text (js_join [44] names) = enc_nameList names"
  by (simp add: enc_nameList_def)

section \<open>The payload codecs\<close>

text \<open>
  \<open>payload_codec\<close>: what the encoder makes of an acceptable message, the decoder turns back into
  it.  \<open>exact_codec\<close>: and nothing else decodes, so the decoder accepts exactly the encoder's
  output.
\<close>

locale payload_codec =
  fixes encode :: "'m \<Rightarrow> ssh_error + bytes" and decode :: "bytes \<Rightarrow> ssh_error + 'm" and ok :: "'m \<Rightarrow> bool"
  assumes encode_ok: "ok m \<Longrightarrow> \<exists>b. encode m = Inr b"
    and decode_encode: "ok m \<Longrightarrow> encode m = Inr b \<Longrightarrow> decode b = Inr m"
begin

lemma roundtrip: "ok m \<Longrightarrow> res_bind (encode m) decode = Inr m"
  using encode_ok decode_encode by fastforce

lemma encode_inj: "ok m \<Longrightarrow> ok n \<Longrightarrow> encode m = encode n \<Longrightarrow> m = n"
  by (metis decode_encode encode_ok Inr_inject)

end

locale exact_codec = payload_codec +
  assumes decode_inv: "decode b = Inr m \<Longrightarrow> ok m \<and> encode m = Inr b"
begin

lemma decode_iff: "decode b = Inr m \<longleftrightarrow> ok m \<and> encode m = Inr b"
  using decode_inv decode_encode by blast

lemma decode_inj: "decode a = Inr m \<Longrightarrow> decode b = Inr m \<Longrightarrow> a = b"
  by (metis decode_inv Inr_inject)

end

definition kexinit_ok :: "kexinit \<Rightarrow> bool" where
  "kexinit_ok m \<longleftrightarrow> length (cookie m) = 16 \<and> nameList_ok (kexAlgorithms m) \<and>
     nameList_ok (serverHostKeyAlgorithms m) \<and> nameList_ok (encryptionAlgorithmsClientToServer m) \<and>
     nameList_ok (encryptionAlgorithmsServerToClient m) \<and> nameList_ok (macAlgorithmsClientToServer m) \<and>
     nameList_ok (macAlgorithmsServerToClient m) \<and> nameList_ok (compressionAlgorithmsClientToServer m) \<and>
     nameList_ok (compressionAlgorithmsServerToClient m) \<and> nameList_ok (languagesClientToServer m) \<and>
     nameList_ok (languagesServerToClient m) \<and> uint32_ok (reserved m)"

lemma encodeKexInit_eq:
  assumes "kexinit_ok m"
  shows "encodeKexInit m = Inr (enc_byte SSH_MSG_KEXINIT @ cookie m @ 
    enc_nameList (kexAlgorithms m) @ enc_nameList (serverHostKeyAlgorithms m) @
    enc_nameList (encryptionAlgorithmsClientToServer m) @ enc_nameList (encryptionAlgorithmsServerToClient m) @
    enc_nameList (macAlgorithmsClientToServer m) @ enc_nameList (macAlgorithmsServerToClient m) @
    enc_nameList (compressionAlgorithmsClientToServer m) @ enc_nameList (compressionAlgorithmsServerToClient m) @
    enc_nameList (languagesClientToServer m) @ enc_nameList (languagesServerToClient m) @
    enc_boolean (firstKexPacketFollows m) @ enc_uint32 (reserved m))"
  using assms by (simp add: encodeKexInit_def kexinit_ok_def writer_simps)

interpretation kexinit_codec: payload_codec encodeKexInit decodeKexInit kexinit_ok
proof
  fix m b
  assume ok: "kexinit_ok m"
  then show "\<exists>b. encodeKexInit m = Inr b" by (simp add: encodeKexInit_eq)
  assume b: "encodeKexInit m = Inr b"
  have c: "length (cookie m) = 16" using ok by (simp add: kexinit_ok_def)
  obtain body where body: "b = enc_byte SSH_MSG_KEXINIT @ cookie m @ body"
    and m: "read_all (kexinit_body (cookie m)) body = Inr m"
  proof
    show "b = enc_byte SSH_MSG_KEXINIT @ cookie m @ drop 17 b"
      using b ok c by (auto simp: encodeKexInit_eq enc_byte_def)
    have "drop 17 b = drop 16 (tl b)" by (simp add: drop_Suc numeral_eq_Suc)
    then show "read_all (kexinit_body (cookie m)) (drop 17 b) = Inr m"
      using b ok c
      by (auto simp: encodeKexInit_eq read_all_rdr kexinit_ok_def kexinit_body_def codec_bind codec_simps
          op_return_def enc_byte_def)
  qed
  show "decodeKexInit b = Inr m"
    using m c by (simp add: decodeKexInit_def read_all_rdr body codec_simps op_bind_remaining op_lift_def)
qed

definition channel_data_ok :: "channel_data \<Rightarrow> bool" where
  "channel_data_ok m \<longleftrightarrow> uint32_ok (cd_recipientChannel m) \<and> buffer_ok (cd_data m)"

lemma encodeChannelData_eq:
  "encodeChannelData m = Inr b \<longleftrightarrow> channel_data_ok m \<and>
     b = enc_byte SSH_MSG_CHANNEL_DATA @ enc_uint32 (cd_recipientChannel m) @ enc_buffer (cd_data m)"
  by (auto simp: encodeChannelData_def channel_data_ok_def uint32_ok_def buffer_ok_def enc_buffer_def)

interpretation channel_data_codec: exact_codec encodeChannelData decodeChannelData channel_data_ok
proof
  fix m b
  show "channel_data_ok m \<Longrightarrow> \<exists>b. encodeChannelData m = Inr b" by (simp add: encodeChannelData_eq)
  show "channel_data_ok m \<Longrightarrow> encodeChannelData m = Inr b \<Longrightarrow> decodeChannelData b = Inr m"
    by (auto simp: encodeChannelData_eq decodeChannelData_def read_all_rdr channel_data_ok_def codec_bind
        codec_simps op_return_def)
  show "decodeChannelData b = Inr m \<Longrightarrow> channel_data_ok m \<and> encodeChannelData m = Inr b"
    unfolding decodeChannelData_def read_all_iff
    by (auto simp: expect_bind_iff codec_bind_iff eof_bind_iff return_iff encodeChannelData_eq channel_data_ok_def)
qed

definition window_adjust_ok :: "window_adjust \<Rightarrow> bool" where
  "window_adjust_ok m \<longleftrightarrow> uint32_ok (wa_recipientChannel m) \<and> uint32_ok (wa_bytesToAdd m)"

lemma w_uint32_eq_Inr: "w_uint32 n w = Inr w' \<longleftrightarrow> uint32_ok n \<and> w' = w @ [enc_uint32 n]"
  by (auto simp: w_uint32_def uint32_ok_def)

interpretation window_adjust_codec: exact_codec
  "\<lambda>m. encodeChannelWindowAdjust (wa_recipientChannel m) (wa_bytesToAdd m)" decodeChannelWindowAdjust window_adjust_ok
proof
  fix m b
  have e: "encodeChannelWindowAdjust (wa_recipientChannel m) (wa_bytesToAdd m) = Inr b \<longleftrightarrow>
      window_adjust_ok m \<and> b = enc_byte SSH_MSG_CHANNEL_WINDOW_ADJUST @ enc_uint32 (wa_recipientChannel m) @
        enc_uint32 (wa_bytesToAdd m)" for b
    by (auto simp: encodeChannelWindowAdjust_def w_run_defs w_byte_def w_uint32_eq_Inr window_adjust_ok_def)
  show "window_adjust_ok m \<Longrightarrow> \<exists>b. encodeChannelWindowAdjust (wa_recipientChannel m) (wa_bytesToAdd m) = Inr b"
    by (simp add: e)
  show "window_adjust_ok m \<Longrightarrow> encodeChannelWindowAdjust (wa_recipientChannel m) (wa_bytesToAdd m) = Inr b \<Longrightarrow>
      decodeChannelWindowAdjust b = Inr m"
    by (auto simp: e decodeChannelWindowAdjust_def read_all_rdr window_adjust_ok_def codec_bind codec_simps op_return_def)
  show "decodeChannelWindowAdjust b = Inr m \<Longrightarrow>
      window_adjust_ok m \<and> encodeChannelWindowAdjust (wa_recipientChannel m) (wa_bytesToAdd m) = Inr b"
    unfolding decodeChannelWindowAdjust_def read_all_iff e
    by (auto simp: expect_bind_iff codec_bind_iff eof_bind_iff return_iff window_adjust_ok_def)
qed

lemma endpoint_codec:
  assumes "byte_ok n"
  shows "exact_codec (\<lambda>r. w_run [w_byte n, w_uint32 r]) (decodeChannelEndpoint n) uint32_ok"
proof
  fix m b
  have e: "w_run [w_byte n, w_uint32 m] = Inr b \<longleftrightarrow> uint32_ok m \<and> b = enc_byte n @ enc_uint32 m" for b
    by (auto simp: w_run_defs w_byte_def w_uint32_eq_Inr)
  show "uint32_ok m \<Longrightarrow> \<exists>b. w_run [w_byte n, w_uint32 m] = Inr b" by (simp add: e)
  show "uint32_ok m \<Longrightarrow> w_run [w_byte n, w_uint32 m] = Inr b \<Longrightarrow> decodeChannelEndpoint n b = Inr m"
    using assms by (auto simp: e decodeChannelEndpoint_def read_all_rdr codec_bind codec_simps op_return_def)
  show "decodeChannelEndpoint n b = Inr m \<Longrightarrow> uint32_ok m \<and> w_run [w_byte n, w_uint32 m] = Inr b"
    unfolding decodeChannelEndpoint_def read_all_iff e
    using assms by (auto simp: expect_bind_iff codec_bind_iff eof_bind_iff return_iff)
qed

interpretation eof_codec: exact_codec encodeChannelEof "decodeChannelEndpoint SSH_MSG_CHANNEL_EOF" uint32_ok
  using endpoint_codec [of SSH_MSG_CHANNEL_EOF] by (simp add: encodeChannelEof_def [abs_def])

interpretation close_codec: exact_codec encodeChannelClose "decodeChannelEndpoint SSH_MSG_CHANNEL_CLOSE" uint32_ok
  using endpoint_codec [of SSH_MSG_CHANNEL_CLOSE] by (simp add: encodeChannelClose_def [abs_def])

interpretation failure_codec: exact_codec encodeChannelFailure "decodeChannelEndpoint SSH_MSG_CHANNEL_FAILURE" uint32_ok
  using endpoint_codec [of SSH_MSG_CHANNEL_FAILURE] by (simp add: encodeChannelFailure_def [abs_def])

definition open_failure_ok :: "channel_open_failure \<Rightarrow> bool" where
  "open_failure_ok m \<longleftrightarrow> uint32_ok (cof_recipientChannel m) \<and> uint32_ok (cof_reasonCode m) \<and>
     text_ok (cof_description m) \<and> text_ok (cof_languageTag m)"

interpretation open_failure_codec: payload_codec
  "\<lambda>m. encodeChannelOpenFailure (cof_recipientChannel m) (Some (cof_reasonCode m)) (Some (cof_description m))
     (Some (cof_languageTag m))" decodeChannelOpenFailure open_failure_ok
proof
  fix m b
  have e: "open_failure_ok m \<Longrightarrow> encodeChannelOpenFailure (cof_recipientChannel m) (Some (cof_reasonCode m))
      (Some (cof_description m)) (Some (cof_languageTag m)) =
      Inr (enc_byte SSH_MSG_CHANNEL_OPEN_FAILURE @ enc_uint32 (cof_recipientChannel m) @
        enc_uint32 (cof_reasonCode m) @ enc_text (cof_description m) @ enc_text (cof_languageTag m))"
    by (simp add: encodeChannelOpenFailure_def open_failure_ok_def writer_simps)
  show "open_failure_ok m \<Longrightarrow> \<exists>b. encodeChannelOpenFailure (cof_recipientChannel m) (Some (cof_reasonCode m))
      (Some (cof_description m)) (Some (cof_languageTag m)) = Inr b"
    by (simp add: e)
  show "decodeChannelOpenFailure b = Inr m" if "open_failure_ok m"
    "encodeChannelOpenFailure (cof_recipientChannel m) (Some (cof_reasonCode m)) (Some (cof_description m))
      (Some (cof_languageTag m)) = Inr b"
    using that(2) that(1) unfolding e [OF that(1)]
    by (auto simp: decodeChannelOpenFailure_def read_all_rdr open_failure_ok_def codec_bind codec_simps op_return_def)
qed

definition global_request_ok :: "global_request \<Rightarrow> bool" where
  "global_request_ok m \<longleftrightarrow> text_ok (gr_requestName m) \<and> gr_requestData m = []"

interpretation keepalive_codec: payload_codec
  "\<lambda>m. encodeKeepaliveRequest (Some (gr_requestName m)) (Some (gr_wantReply m))" decodeGlobalRequest global_request_ok
proof
  fix m b
  have e: "global_request_ok m \<Longrightarrow> encodeKeepaliveRequest (Some (gr_requestName m)) (Some (gr_wantReply m)) =
      Inr (enc_byte SSH_MSG_GLOBAL_REQUEST @ enc_text (gr_requestName m) @ enc_boolean (gr_wantReply m))"
    by (simp add: encodeKeepaliveRequest_def global_request_ok_def writer_simps)
  show "global_request_ok m \<Longrightarrow> \<exists>b. encodeKeepaliveRequest (Some (gr_requestName m)) (Some (gr_wantReply m)) = Inr b"
    by (simp add: e)
  show "decodeGlobalRequest b = Inr m" if "global_request_ok m"
    "encodeKeepaliveRequest (Some (gr_requestName m)) (Some (gr_wantReply m)) = Inr b"
    using that(2) that(1) unfolding e [OF that(1)]
    by (auto simp: decodeGlobalRequest_def read_all_rdr global_request_ok_def codec_bind codec_simps
        op_return_def op_bind_remaining op_bind_def [of "op_require _ _"] op_require_def)
qed

section \<open>The properties\<close>

lemma index_of_split: "index_of c s = Some i \<Longrightarrow> s = take i s @ c # drop (Suc i) s \<and> c \<notin> set (take i s)"
  by (auto simp: index_of_Some id_take_nth_drop)

lemma parse_SSH: "starts_with (js ''SSH-'') raw \<longleftrightarrow> (\<exists>r. raw = [83, 83, 72, 45] @ r)"
  by (simp add: starts_with_iff)

definition comment_part :: "jsstring option \<Rightarrow> jsstring" where
  "comment_part c = (case c of None \<Rightarrow> [] | Some t \<Rightarrow> 32 # t)"

lemma software_split:
  "(software = (case index_of 32 rest of Some i \<Rightarrow> take i rest | None \<Rightarrow> rest) \<and>
    comments = (case index_of 32 rest of Some i \<Rightarrow> Some (drop (i + 1) rest) | None \<Rightarrow> None)) \<longleftrightarrow>
   32 \<notin> set software \<and> rest = software @ comment_part comments"
proof (cases "index_of 32 rest")
  case None
  then have "32 \<notin> set rest" by simp
  then show ?thesis unfolding None option.case by (auto simp: comment_part_def split: option.splits)
next
  case (Some i)
  have r: "rest = take i rest @ 32 # drop (Suc i) rest" "32 \<notin> set (take i rest)"
    using index_of_split [OF Some] by blast+
  show ?thesis
  proof
    assume "software = (case index_of 32 rest of Some i \<Rightarrow> take i rest | None \<Rightarrow> rest) \<and>
      comments = (case index_of 32 rest of Some i \<Rightarrow> Some (drop (i + 1) rest) | None \<Rightarrow> None)"
    then show "32 \<notin> set software \<and> rest = software @ comment_part comments"
      using r Some by (simp add: comment_part_def)
  next
    assume a: "32 \<notin> set software \<and> rest = software @ comment_part comments"
    then obtain t where t: "comments = Some t"
      using Some index_of_None [of 32 rest] by (cases comments) (auto simp: comment_part_def)
    then have "index_of 32 rest = Some (length software)"
      using a by (simp add: comment_part_def index_of_append)
    then show "software = (case index_of 32 rest of Some i \<Rightarrow> take i rest | None \<Rightarrow> rest) \<and>
      comments = (case index_of 32 rest of Some i \<Rightarrow> Some (drop (i + 1) rest) | None \<Rightarrow> None)"
      using a t by (simp add: comment_part_def)
  qed
qed

text \<open>\<open>parseSshVersionLine\<close> accepts exactly the lines that are, up to their line end, \<open>SSH-2.0-\<close>,
  a non-empty software version without a space, and possibly a space and comments; it returns
  those parts.\<close>

theorem version_line_exact:
  "parseSshVersionLine line = Inr v \<longleftrightarrow>
     pv_raw v = strip_line_end line \<and> pv_protocol v = js ''2.0'' \<and>
     pv_software v \<noteq> [] \<and> 32 \<notin> set (pv_software v) \<and>
     strip_line_end line = js ''SSH-2.0-'' @ pv_software v @
       (case pv_comments v of None \<Rightarrow> [] | Some c \<Rightarrow> 32 # c)"
proof (cases "starts_with (js ''SSH-'') (strip_line_end line)")
  case False
  moreover have "strip_line_end line \<noteq> js ''SSH-2.0-'' @ u" for u
    using False by (auto simp: starts_with_def)
  ultimately show ?thesis by (auto simp: parseSshVersionLine_def)
next
  case True
  then obtain r where r: "strip_line_end line = [83, 83, 72, 45] @ r" unfolding parse_SSH by blast
  have k: "index_of 45 r = Some k \<and> take k r = js ''2.0'' \<longleftrightarrow> k = 3 \<and> r = js ''2.0-'' @ drop 4 r" for k
  proof
    assume a: "index_of 45 r = Some k \<and> take k r = js ''2.0''"
    then have i: "index_of 45 r = Some k" and t: "take k r = js ''2.0''" by simp_all
    have "k < length r" using i by (simp add: index_of_Some)
    then have "k = 3" using arg_cong [OF t, of length] by simp
    then show "k = 3 \<and> r = js ''2.0-'' @ drop 4 r" using index_of_split [OF i] t by simp
  next
    assume "k = 3 \<and> r = js ''2.0-'' @ drop 4 r"
    then obtain t where "r = js ''2.0-'' @ t" "k = 3" by blast
    then show "index_of 45 r = Some k \<and> take k r = js ''2.0''" by simp
  qed
  show ?thesis
  proof (cases "r = js ''2.0-'' @ drop 4 r")
    case True
    then obtain t where t: "r = js ''2.0-'' @ t" by blast
    have "parseSshVersionLine line = Inr v \<longleftrightarrow> pv_raw v = strip_line_end line \<and> pv_protocol v = js ''2.0'' \<and>
        pv_software v \<noteq> [] \<and> (pv_software v = (case index_of 32 t of Some i \<Rightarrow> take i t | None \<Rightarrow> t) \<and>
        pv_comments v = (case index_of 32 t of Some i \<Rightarrow> Some (drop (i + 1) t) | None \<Rightarrow> None))"
      unfolding parseSshVersionLine_def r t Let_def
      by (cases v) (auto simp: starts_with_def cong: option.case_cong)
    then show ?thesis unfolding software_split r t comment_part_def by auto
  next
    case False
    then have "\<not> (index_of 45 r = Some k \<and> take k r = js ''2.0'')" for k using k by blast
    then have "parseSshVersionLine line \<noteq> Inr v"
      unfolding parseSshVersionLine_def r Let_def
      by (auto simp: starts_with_def split: option.splits)
    then show ?thesis using False by (auto simp: r)
  qed
qed

lemma is_ascii_append: "is_ascii (a @ b) \<longleftrightarrow> is_ascii a \<and> is_ascii b"
  by (simp add: is_ascii_def)

lemma is_ascii_join: "\<forall>w\<in>set names. is_ascii w \<Longrightarrow> is_ascii (js_join [44] names)"
  by (induction "[44::nat]" names rule: js_join.induct) (auto simp: is_ascii_append)

definition ascii_names :: "jsstring list \<Rightarrow> bool" where
  "ascii_names names \<longleftrightarrow> list_all (\<lambda>w. is_ascii w \<and> 44 \<notin> set w) names \<and> names \<noteq> [[]] \<and>
     length (js_join [44] names) \<le> 1000"

lemma nameList_ok_ascii: "ascii_names names \<Longrightarrow> nameList_ok names"
  using is_ascii_join [of names]
  by (auto simp: ascii_names_def nameList_ok_def list_all_iff js_comma buffer_ok_def utf8_encode_ascii
      intro: ascii_wf_utf16)

lemma default_names:
  "ascii_names [js ''curve25519-sha256'', js ''curve25519-sha256@libssh.org'', js ''diffie-hellman-group14-sha256'']"
  "ascii_names [js ''ssh-ed25519'', js ''rsa-sha2-512'', js ''rsa-sha2-256'']"
  "ascii_names [js ''aes128-ctr'', js ''aes256-ctr'', js ''aes192-ctr'']"
  "ascii_names [js ''hmac-sha2-256'', js ''hmac-sha2-512'']"
  "ascii_names [js ''none'']"
  "ascii_names []"
  by code_simp+

lemma default_kexinit_ok: "length random = 16 \<Longrightarrow> kexinit_ok (createDefaultKexInit random)"
  by (simp only: kexinit_ok_def createDefaultKexInit_def kexinit.simps default_names nameList_ok_ascii)
    (simp add: uint32_ok_def)

text \<open>Every key exchange offer with a 16 byte cookie whose name lists the wire can carry is encoded,
  and decoding returns it; so what the exchange hash covers is what was offered.  (The client's own
  default offer is of this kind, see the witness.)\<close>

theorem kexinit_roundtrip:
  assumes "kexinit_ok m"
  shows "\<exists>b. encodeKexInit m = Inr b \<and> decodeKexInit b = Inr m \<and> messageNumber b = Inr SSH_MSG_KEXINIT"
proof -
  obtain b where b: "encodeKexInit m = Inr b" using kexinit_codec.encode_ok [OF assms] by blast
  have "messageNumber b = Inr SSH_MSG_KEXINIT"
    using b unfolding encodeKexInit_eq [OF assms] by (auto simp: messageNumber_def enc_byte_def SSH_MSG_KEXINIT_def)
  then show ?thesis using kexinit_codec.decode_encode [OF assms b] b by blast
qed

lemma kexinit_roundtrip_witness:
  "\<exists>b. encodeKexInit (createDefaultKexInit (replicate 16 7)) = Inr b \<and>
     decodeKexInit b = Inr (createDefaultKexInit (replicate 16 7))"
  using kexinit_roundtrip [OF default_kexinit_ok [of "replicate 16 7"]] by auto

lemma channel_codecs_exact:
  "decodeChannelData b = Inr d \<longleftrightarrow> encodeChannelData d = Inr b"
  "decodeChannelWindowAdjust b = Inr w \<longleftrightarrow>
     encodeChannelWindowAdjust (wa_recipientChannel w) (wa_bytesToAdd w) = Inr b"
  "decodeChannelEndpoint SSH_MSG_CHANNEL_EOF b = Inr n \<longleftrightarrow> encodeChannelEof n = Inr b"
  "decodeChannelEndpoint SSH_MSG_CHANNEL_CLOSE b = Inr n \<longleftrightarrow> encodeChannelClose n = Inr b"
  "decodeChannelEndpoint SSH_MSG_CHANNEL_FAILURE b = Inr n \<longleftrightarrow> encodeChannelFailure n = Inr b"
proof -
  have u: "w_run [w_byte k, w_uint32 n] = Inr b \<Longrightarrow> uint32_ok n" for k n b
    by (auto simp: w_run_defs w_byte_def w_uint32_eq_Inr)
  show "decodeChannelData b = Inr d \<longleftrightarrow> encodeChannelData d = Inr b"
    unfolding channel_data_codec.decode_iff by (simp add: encodeChannelData_eq)
  show "decodeChannelWindowAdjust b = Inr w \<longleftrightarrow>
     encodeChannelWindowAdjust (wa_recipientChannel w) (wa_bytesToAdd w) = Inr b"
    unfolding window_adjust_codec.decode_iff
    by (auto simp: encodeChannelWindowAdjust_def w_run_defs w_byte_def w_uint32_eq_Inr window_adjust_ok_def)
  show "decodeChannelEndpoint SSH_MSG_CHANNEL_EOF b = Inr n \<longleftrightarrow> encodeChannelEof n = Inr b"
    unfolding eof_codec.decode_iff using u by (auto simp: encodeChannelEof_def)
  show "decodeChannelEndpoint SSH_MSG_CHANNEL_CLOSE b = Inr n \<longleftrightarrow> encodeChannelClose n = Inr b"
    unfolding close_codec.decode_iff using u by (auto simp: encodeChannelClose_def)
  show "decodeChannelEndpoint SSH_MSG_CHANNEL_FAILURE b = Inr n \<longleftrightarrow> encodeChannelFailure n = Inr b"
    unfolding failure_codec.decode_iff using u by (auto simp: encodeChannelFailure_def)
qed

text \<open>For channel data, window adjustments, EOF, CLOSE and FAILURE the decoder accepts a payload
  exactly when it is what the encoder produces for the decoded message: no field is out of range,
  nothing is truncated and nothing trails.\<close>

theorem channel_messages_exact:
  "(decodeChannelData b = Inr d \<longleftrightarrow> encodeChannelData d = Inr b) \<and>
   (decodeChannelWindowAdjust b = Inr w \<longleftrightarrow>
        encodeChannelWindowAdjust (wa_recipientChannel w) (wa_bytesToAdd w) = Inr b) \<and>
   (decodeChannelEndpoint SSH_MSG_CHANNEL_EOF b = Inr n \<longleftrightarrow> encodeChannelEof n = Inr b) \<and>
   (decodeChannelEndpoint SSH_MSG_CHANNEL_CLOSE b = Inr n \<longleftrightarrow> encodeChannelClose n = Inr b) \<and>
   (decodeChannelEndpoint SSH_MSG_CHANNEL_FAILURE b = Inr n \<longleftrightarrow> encodeChannelFailure n = Inr b)"
  by (simp only: channel_codecs_exact)

text \<open>\<open>decodeChannelOpenConfirmation\<close> accepts exactly the 17 byte payloads with the message number
  and four uint32 fields, and returns those fields; \<open>decodeChannelExtendedData\<close> exactly a message
  number, two uint32 fields and one complete string.\<close>

theorem server_channel_messages_exact:
  "decodeChannelOpenConfirmation b = Inr c \<longleftrightarrow>
     uint32_ok (oc_recipientChannel c) \<and> uint32_ok (oc_senderChannel c) \<and>
     uint32_ok (oc_initialWindowSize c) \<and> uint32_ok (oc_maximumPacketSize c) \<and>
     b = enc_byte 91 @ enc_uint32 (oc_recipientChannel c) @ enc_uint32 (oc_senderChannel c) @
       enc_uint32 (oc_initialWindowSize c) @ enc_uint32 (oc_maximumPacketSize c)"
  "decodeChannelExtendedData b = Inr e \<longleftrightarrow>
     uint32_ok (cd_recipientChannel e) \<and> uint32_ok (ed_dataTypeCode e) \<and> buffer_ok (cd_data e) \<and>
     b = enc_byte 95 @ enc_uint32 (cd_recipientChannel e) @ enc_uint32 (ed_dataTypeCode e) @ enc_buffer (cd_data e)"
proof -
  show "decodeChannelOpenConfirmation b = Inr c \<longleftrightarrow>
     uint32_ok (oc_recipientChannel c) \<and> uint32_ok (oc_senderChannel c) \<and>
     uint32_ok (oc_initialWindowSize c) \<and> uint32_ok (oc_maximumPacketSize c) \<and>
     b = enc_byte 91 @ enc_uint32 (oc_recipientChannel c) @ enc_uint32 (oc_senderChannel c) @
       enc_uint32 (oc_initialWindowSize c) @ enc_uint32 (oc_maximumPacketSize c)"
    unfolding decodeChannelOpenConfirmation_def read_all_iff
    by (cases c) (auto simp: expect_bind_iff codec_bind_iff eof_bind_iff return_iff
        SSH_MSG_CHANNEL_OPEN_CONFIRMATION_def byte_ok_def)
  show "decodeChannelExtendedData b = Inr e \<longleftrightarrow>
     uint32_ok (cd_recipientChannel e) \<and> uint32_ok (ed_dataTypeCode e) \<and> buffer_ok (cd_data e) \<and>
     b = enc_byte 95 @ enc_uint32 (cd_recipientChannel e) @ enc_uint32 (ed_dataTypeCode e) @ enc_buffer (cd_data e)"
    unfolding decodeChannelExtendedData_def read_all_iff
    by (cases e) (auto simp: expect_bind_iff codec_bind_iff eof_bind_iff return_iff
        SSH_MSG_CHANNEL_EXTENDED_DATA_def byte_ok_def)
qed

lemma request_numbers [simp]: "byte_ok 90" "byte_ok 98"
  by (simp_all add: byte_ok_def)

lemma literals_ok:
  "text_ok (js ''session'')" "text_ok (js ''direct-tcpip'')" "text_ok (js ''pty-req'')" "text_ok (js ''shell'')"
  "text_ok (js ''window-change'')" "text_ok (js ''xterm-256color'')"
  by (rule text_ok_literal, code_simp, simp)+

text \<open>The channel requests and opens of the client carry what they were given: decoding them by
  the rules of the protocol (with this program's own request decoders) returns the recipient, the
  request type, the wish for a reply and, as the request data, the encoded parameters in order.\<close>

theorem client_requests_readable:
  assumes "uint32_ok recipient" "uint32_ok cols" "uint32_ok rows" "text_ok host" "uint32_ok port"
  shows "res_bind (encodePtyRequest \<lparr>pty_recipientChannel = recipient, pty_terminalType = None,
        pty_columns = cols, pty_rows = rows, pty_pixelWidth = None, pty_pixelHeight = None,
        pty_terminalModes = None, pty_wantReply = None\<rparr>) decodeChannelRequest =
      Inr \<lparr>crq_recipientChannel = recipient, crq_requestType = js ''pty-req'', crq_wantReply = True,
        crq_requestData = enc_text (js ''xterm-256color'') @ enc_uint32 cols @ enc_uint32 rows @
          enc_uint32 0 @ enc_uint32 0 @ enc_uint32 1 @ [0]\<rparr> \<and>
    res_bind (encodeShellRequest \<lparr>shr_recipientChannel = recipient, shr_wantReply = None\<rparr>) decodeChannelRequest =
      Inr \<lparr>crq_recipientChannel = recipient, crq_requestType = js ''shell'', crq_wantReply = True,
        crq_requestData = []\<rparr> \<and>
    res_bind (encodeWindowChangeRequest \<lparr>wcr_recipientChannel = recipient, wcr_columns = cols, wcr_rows = rows,
        wcr_pixelWidth = None, wcr_pixelHeight = None, wcr_wantReply = None\<rparr>) decodeChannelRequest =
      Inr \<lparr>crq_recipientChannel = recipient, crq_requestType = js ''window-change'', crq_wantReply = False,
        crq_requestData = enc_uint32 cols @ enc_uint32 rows @ enc_uint32 0 @ enc_uint32 0\<rparr> \<and>
    res_bind (encodeDirectTcpIpChannelOpen \<lparr>cob_senderChannel = recipient, cob_initialWindowSize = None,
        cob_maximumPacketSize = None, dto_hostToConnect = host, dto_portToConnect = port,
        dto_originatorIpAddress = host, dto_originatorPort = port\<rparr>) decodeChannelOpen =
      Inr \<lparr>cor_channelType = js ''direct-tcpip'', cor_senderChannel = recipient,
        cor_initialWindowSize = 1048576, cor_maximumPacketSize = 32768,
        cor_requestData = enc_text host @ enc_uint32 port @ enc_text host @ enc_uint32 port\<rparr>"
proof (intro conjI)
  note [simp del] = js_simps
  note ok = assms literals_ok uint32_ok_def [of 0] buffer_ok_def [of "[0]"]
  note defs = SSH_MSG_CHANNEL_REQUEST_def SSH_MSG_CHANNEL_OPEN_def DEFAULT_WINDOW_SIZE_def DEFAULT_MAX_PACKET_SIZE_def
    writer_simps read_all_rdr codec_bind codec_simps op_bind_remaining op_return_def
  have w: "uint32_ok 1048576" "uint32_ok 32768" by (simp_all add: uint32_ok_def)
  show "res_bind (encodePtyRequest \<lparr>pty_recipientChannel = recipient, pty_terminalType = None,
        pty_columns = cols, pty_rows = rows, pty_pixelWidth = None, pty_pixelHeight = None,
        pty_terminalModes = None, pty_wantReply = None\<rparr>) decodeChannelRequest =
      Inr \<lparr>crq_recipientChannel = recipient, crq_requestType = js ''pty-req'', crq_wantReply = True,
        crq_requestData = enc_text (js ''xterm-256color'') @ enc_uint32 cols @ enc_uint32 rows @
          enc_uint32 0 @ enc_uint32 0 @ enc_uint32 1 @ [0]\<rparr>"
    by (simp add: encodePtyRequest_def decodeChannelRequest_def ok defs)
  show "res_bind (encodeShellRequest \<lparr>shr_recipientChannel = recipient, shr_wantReply = None\<rparr>) decodeChannelRequest =
      Inr \<lparr>crq_recipientChannel = recipient, crq_requestType = js ''shell'', crq_wantReply = True,
        crq_requestData = []\<rparr>"
    by (simp add: encodeShellRequest_def decodeChannelRequest_def boolean_codec.dec_bind_last ok defs)
  show "res_bind (encodeWindowChangeRequest \<lparr>wcr_recipientChannel = recipient, wcr_columns = cols, wcr_rows = rows,
        wcr_pixelWidth = None, wcr_pixelHeight = None, wcr_wantReply = None\<rparr>) decodeChannelRequest =
      Inr \<lparr>crq_recipientChannel = recipient, crq_requestType = js ''window-change'', crq_wantReply = False,
        crq_requestData = enc_uint32 cols @ enc_uint32 rows @ enc_uint32 0 @ enc_uint32 0\<rparr>"
    by (simp add: encodeWindowChangeRequest_def decodeChannelRequest_def ok defs)
  show "res_bind (encodeDirectTcpIpChannelOpen \<lparr>cob_senderChannel = recipient, cob_initialWindowSize = None,
        cob_maximumPacketSize = None, dto_hostToConnect = host, dto_portToConnect = port,
        dto_originatorIpAddress = host, dto_originatorPort = port\<rparr>) decodeChannelOpen =
      Inr \<lparr>cor_channelType = js ''direct-tcpip'', cor_senderChannel = recipient,
        cor_initialWindowSize = 1048576, cor_maximumPacketSize = 32768,
        cor_requestData = enc_text host @ enc_uint32 port @ enc_text host @ enc_uint32 port\<rparr>"
    by (simp add: encodeDirectTcpIpChannelOpen_def decodeChannelOpen_def ok w defs)
qed

lemma client_requests_readable_witness:
  "res_bind (encodeShellRequest \<lparr>shr_recipientChannel = 5, shr_wantReply = None\<rparr>) decodeChannelRequest =
    Inr \<lparr>crq_recipientChannel = 5, crq_requestType = js ''shell'', crq_wantReply = True, crq_requestData = []\<rparr>"
  using client_requests_readable [of 5 80 24 "js ''shell''" 22]
  by (simp add: uint32_ok_def literals_ok del: js_simps)

end
