(* ===== verification/SshAlgorithms.thy ===== *)
theory SshAlgorithms
  imports SshMessages "HOL-Library.Multiset"
begin

text \<open>
  \<open>src/core/ssh/algorithms.ts\<close>: the choice of algorithms from the two KEXINIT offers, and the
  host-key algorithms to ask for when another key type is wanted.
\<close>

section \<open>Negotiation\<close>

definition chooseAlgorithm :: "string \<Rightarrow> jsstring list \<Rightarrow> jsstring list \<Rightarrow> ssh_error + jsstring" where
  "chooseAlgorithm label clientAlgorithms serverAlgorithms =
     (case find (\<lambda>a. a \<in> set serverAlgorithms) clientAlgorithms of
        None \<Rightarrow> Inl (MessageError (NoCompatibleAlgorithm label))
      | Some a \<Rightarrow> if a = [] then Inl (MessageError (NoCompatibleAlgorithm label)) else Inr a)"

record negotiated_algorithms =
  na_kexAlgorithm :: jsstring
  na_serverHostKeyAlgorithm :: jsstring
  na_encryptionClientToServer :: jsstring
  na_encryptionServerToClient :: jsstring
  na_macClientToServer :: jsstring
  na_macServerToClient :: jsstring
  na_compressionClientToServer :: jsstring
  na_compressionServerToClient :: jsstring

definition negotiateAlgorithms :: "kexinit \<Rightarrow> kexinit \<Rightarrow> ssh_error + negotiated_algorithms" where
  "negotiateAlgorithms client server =
     res_bind (chooseAlgorithm ''kex'' (kexAlgorithms client) (kexAlgorithms server)) (\<lambda>kex.
     res_bind (chooseAlgorithm ''server host key''
       (serverHostKeyAlgorithms client) (serverHostKeyAlgorithms server)) (\<lambda>hk.
     res_bind (chooseAlgorithm ''client-to-server encryption''
       (encryptionAlgorithmsClientToServer client) (encryptionAlgorithmsClientToServer server)) (\<lambda>ecs.
     res_bind (chooseAlgorithm ''server-to-client encryption''
       (encryptionAlgorithmsServerToClient client) (encryptionAlgorithmsServerToClient server)) (\<lambda>esc.
     res_bind (chooseAlgorithm ''client-to-server mac''
       (macAlgorithmsClientToServer client) (macAlgorithmsClientToServer server)) (\<lambda>mcs.
     res_bind (chooseAlgorithm ''server-to-client mac''
       (macAlgorithmsServerToClient client) (macAlgorithmsServerToClient server)) (\<lambda>msc.
     res_bind (chooseAlgorithm ''client-to-server compression''
       (compressionAlgorithmsClientToServer client) (compressionAlgorithmsClientToServer server)) (\<lambda>ccs.
     res_bind (chooseAlgorithm ''server-to-client compression''
       (compressionAlgorithmsServerToClient client) (compressionAlgorithmsServerToClient server)) (\<lambda>csc.
       Inr \<lparr>na_kexAlgorithm = kex, na_serverHostKeyAlgorithm = hk,
         na_encryptionClientToServer = ecs, na_encryptionServerToClient = esc,
         na_macClientToServer = mcs, na_macServerToClient = msc,
         na_compressionClientToServer = ccs, na_compressionServerToClient = csc\<rparr>))))))))"

section \<open>Host key types\<close>

definition hostKeyTypeOf :: "jsstring \<Rightarrow> jsstring" where
  "hostKeyTypeOf a = (if a = js ''rsa-sha2-512'' \<or> a = js ''rsa-sha2-256'' then js ''ssh-rsa'' else a)"

definition nextHostKeyAlgorithms :: "jsstring list \<Rightarrow> jsstring list \<Rightarrow> jsstring set \<Rightarrow> jsstring list option" where
  "nextHostKeyAlgorithms clientAlgorithms serverAlgorithms tried =
     (let candidates = filter (\<lambda>a. a \<in> set serverAlgorithms \<and> hostKeyTypeOf a \<notin> tried) clientAlgorithms in
      if candidates = [] then None
      else let keyType = hostKeyTypeOf (candidates ! 0) in
        Some (filter (\<lambda>a. hostKeyTypeOf a = keyType) candidates))"

definition preferHostKeyType :: "jsstring list \<Rightarrow> jsstring option \<Rightarrow> jsstring list option" where
  "preferHostKeyType clientAlgorithms keyType =
     (case keyType of
        None \<Rightarrow> None
      | Some k \<Rightarrow>
         if k = [] \<or> clientAlgorithms = [] \<or> hostKeyTypeOf (clientAlgorithms ! 0) = k then None
         else let preferred = filter (\<lambda>a. hostKeyTypeOf a = k) clientAlgorithms in
           if preferred = [] then None
           else Some (preferred @ filter (\<lambda>a. hostKeyTypeOf a \<noteq> k) clientAlgorithms))"

section \<open>Lemmas\<close>

definition first_common :: "jsstring list \<Rightarrow> jsstring list \<Rightarrow> jsstring \<Rightarrow> bool" where
  "first_common client server a \<longleftrightarrow>
     (\<exists>pre post. client = pre @ a # post \<and> a \<in> set server \<and> set pre \<inter> set server = {})"

lemma find_first: "find P xs = Some a \<longleftrightarrow> (\<exists>pre post. xs = pre @ a # post \<and> P a \<and> (\<forall>x\<in>set pre. \<not> P x))"
proof (induction xs)
  case (Cons x xs)
  show ?case
  proof (cases "P x")
    case True
    then show ?thesis by (auto simp: Cons_eq_append_conv)
  next
    case False
    have "(\<exists>pre post. x # xs = pre @ a # post \<and> P a \<and> (\<forall>x\<in>set pre. \<not> P x)) \<longleftrightarrow>
        (\<exists>pre post. xs = pre @ a # post \<and> P a \<and> (\<forall>x\<in>set pre. \<not> P x))" (is "?L \<longleftrightarrow> ?R")
    proof
      assume ?R
      then obtain pre post where "xs = pre @ a # post" "P a" "\<forall>x\<in>set pre. \<not> P x" by blast
      then show ?L using False by (intro exI [of _ "x # pre"] exI [of _ post]) auto
    qed (use False in \<open>auto simp: Cons_eq_append_conv\<close>)
    then show ?thesis using False Cons by simp
  qed
qed simp

lemma first_common_find: "first_common c s a \<longleftrightarrow> find (\<lambda>a. a \<in> set s) c = Some a"
  by (auto simp: first_common_def find_first disjoint_iff)

lemma chooseAlgorithm_Inr:
  "chooseAlgorithm label c s = Inr a \<longleftrightarrow> a \<noteq> [] \<and> first_common c s a"
  by (auto simp: chooseAlgorithm_def first_common_find split: option.splits if_splits)

section \<open>The properties\<close>

text \<open>Negotiation succeeds exactly when every category has a common algorithm, and chooses in each
  the first of the client's list that the server offers; so both sides, applying the rule of the
  protocol to the same two offers, arrive at the same algorithms.\<close>

theorem negotiation_first_common:
  "negotiateAlgorithms c s = Inr n \<longleftrightarrow>
     na_kexAlgorithm n \<noteq> [] \<and> first_common (kexAlgorithms c) (kexAlgorithms s) (na_kexAlgorithm n) \<and>
     na_serverHostKeyAlgorithm n \<noteq> [] \<and>
       first_common (serverHostKeyAlgorithms c) (serverHostKeyAlgorithms s) (na_serverHostKeyAlgorithm n) \<and>
     na_encryptionClientToServer n \<noteq> [] \<and> first_common (encryptionAlgorithmsClientToServer c)
       (encryptionAlgorithmsClientToServer s) (na_encryptionClientToServer n) \<and>
     na_encryptionServerToClient n \<noteq> [] \<and> first_common (encryptionAlgorithmsServerToClient c)
       (encryptionAlgorithmsServerToClient s) (na_encryptionServerToClient n) \<and>
     na_macClientToServer n \<noteq> [] \<and> first_common (macAlgorithmsClientToServer c)
       (macAlgorithmsClientToServer s) (na_macClientToServer n) \<and>
     na_macServerToClient n \<noteq> [] \<and> first_common (macAlgorithmsServerToClient c)
       (macAlgorithmsServerToClient s) (na_macServerToClient n) \<and>
     na_compressionClientToServer n \<noteq> [] \<and> first_common (compressionAlgorithmsClientToServer c)
       (compressionAlgorithmsClientToServer s) (na_compressionClientToServer n) \<and>
     na_compressionServerToClient n \<noteq> [] \<and> first_common (compressionAlgorithmsServerToClient c)
       (compressionAlgorithmsServerToClient s) (na_compressionServerToClient n)"
  by (cases n) (auto simp: negotiateAlgorithms_def chooseAlgorithm_Inr)



text \<open>Preferring a key type only reorders the offer: no algorithm is lost, added or repeated, the
  preferred type comes first, and within each part the client's order is kept.  It declines exactly
  when there is nothing to reorder.\<close>

theorem prefer_host_key_reorders:
  "(preferHostKeyType c k = Some as \<longrightarrow>
     mset as = mset c \<and> k = Some (hostKeyTypeOf (hd as)) \<and>
     (\<exists>n. list_all (\<lambda>a. Some (hostKeyTypeOf a) = k) (take n as) \<and>
          list_all (\<lambda>a. Some (hostKeyTypeOf a) \<noteq> k) (drop n as)) \<and>
     (\<forall>t. filter (\<lambda>a. hostKeyTypeOf a = t) as = filter (\<lambda>a. hostKeyTypeOf a = t) c)) \<and>
   (preferHostKeyType c k = None \<longleftrightarrow>
     k = None \<or> k = Some [] \<or> k \<notin> Some ` hostKeyTypeOf ` set c \<or> k = Some (hostKeyTypeOf (hd c)))"
proof (intro conjI impI)
  assume "preferHostKeyType c k = Some as"
  then obtain t where k: "k = Some t" and ne: "filter (\<lambda>a. hostKeyTypeOf a = t) c \<noteq> []"
    and as: "as = filter (\<lambda>a. hostKeyTypeOf a = t) c @ filter (\<lambda>a. hostKeyTypeOf a \<noteq> t) c"
    by (auto simp: preferHostKeyType_def Let_def split: option.splits if_splits)
  show "mset as = mset c" unfolding as by (simp add: multiset_partition [symmetric])
  show "k = Some (hostKeyTypeOf (hd as))"
    using ne hd_in_set [OF ne] unfolding as k by (auto simp: hd_append)
  show "\<exists>n. list_all (\<lambda>a. Some (hostKeyTypeOf a) = k) (take n as) \<and>
      list_all (\<lambda>a. Some (hostKeyTypeOf a) \<noteq> k) (drop n as)"
    by (rule exI [of _ "length (filter (\<lambda>a. hostKeyTypeOf a = t) c)"]) (simp add: as k list_all_iff)
  show "\<forall>t. filter (\<lambda>a. hostKeyTypeOf a = t) as = filter (\<lambda>a. hostKeyTypeOf a = t) c"
  proof
    fix u
    show "filter (\<lambda>a. hostKeyTypeOf a = u) as = filter (\<lambda>a. hostKeyTypeOf a = u) c"
      by (cases "u = t") (auto simp: as filter_empty_conv intro: filter_cong)
  qed
next
  show "preferHostKeyType c k = None \<longleftrightarrow>
     k = None \<or> k = Some [] \<or> k \<notin> Some ` hostKeyTypeOf ` set c \<or> k = Some (hostKeyTypeOf (hd c))"
    by (cases k; cases c) (auto simp: preferHostKeyType_def Let_def filter_empty_conv)
qed

lemma prefer_host_key_reorders_witness:
  "mset [js ''rsa-sha2-512'', js ''rsa-sha2-256'', js ''ssh-ed25519''] =
   mset [js ''ssh-ed25519'', js ''rsa-sha2-512'', js ''rsa-sha2-256'']"
proof -
  have "preferHostKeyType [js ''ssh-ed25519'', js ''rsa-sha2-512'', js ''rsa-sha2-256''] (Some (js ''ssh-rsa'')) =
      Some [js ''rsa-sha2-512'', js ''rsa-sha2-256'', js ''ssh-ed25519'']"
    by code_simp
  then show ?thesis by (rule prefer_host_key_reorders [THEN conjunct1, rule_format, THEN conjunct1])
qed

end
