(* ===== verification/SshChannel.thy ===== *)
theory SshChannel
  imports SshError
begin

text \<open>
  \<open>src/core/ssh/channel-state.ts\<close>: the channels of a connection and their flow-control windows.
  The \<open>Map\<close> of the source is a partial map from local ids, and \<open>cm_order\<close> its keys in insertion
  order (\<open>list()\<close> returns the channels in that order).  Every method returns a copy of the channel's
  state.
\<close>

section \<open>The state\<close>

datatype channel_lifecycle = Opening | Open | EofSent | EofReceived | Closed
datatype channel_kind = SessionChannel | DirectTcpip

definition MAXIMUM_OUTBOUND_CHANNEL_DATA_SIZE :: int where
  "MAXIMUM_OUTBOUND_CHANNEL_DATA_SIZE = 128 * 1024"

record channel_state =
  cs_localId :: int
  cs_remoteId :: "int option"
  cs_kind :: channel_kind
  cs_lifecycle :: channel_lifecycle
  cs_localWindow :: int
  cs_localWindowMaximum :: int
  cs_acknowledgedLocalBytes :: int
  cs_remoteWindow :: int
  cs_localMaximumPacketSize :: int
  cs_remoteMaximumPacketSize :: "int option"
  cs_maximumPacketSize :: int

record channel_manager =
  cm_channels :: "int \<rightharpoonup> channel_state"
  cm_order :: "int list"
  cm_nextLocalId :: int

definition cm_new :: channel_manager where
  "cm_new = \<lparr>cm_channels = Map.empty, cm_order = [], cm_nextLocalId = 0\<rparr>"

type_synonym 'a managing = "(channel_manager, ssh_error, 'a) op"

definition cm_put :: "int \<Rightarrow> channel_state \<Rightarrow> channel_manager \<Rightarrow> channel_manager" where
  "cm_put i c m = m\<lparr>cm_channels := (cm_channels m)(i \<mapsto> c),
     cm_order := (if i \<in> set (cm_order m) then cm_order m else cm_order m @ [i])\<rparr>"

section \<open>The operations\<close>

definition cm_open :: "channel_kind \<Rightarrow> int option \<Rightarrow> int option \<Rightarrow> channel_state managing" where
  "cm_open kind localWindow maximumPacketSize m =
     (let localId = cm_nextLocalId m;
          window = (case localWindow of None \<Rightarrow> 16 * 1024 * 1024 | Some w \<Rightarrow> w);
          packet = (case maximumPacketSize of None \<Rightarrow> 64 * 1024 | Some p \<Rightarrow> p);
          state = \<lparr>cs_localId = localId, cs_remoteId = None, cs_kind = kind, cs_lifecycle = Opening,
            cs_localWindow = window, cs_localWindowMaximum = window, cs_acknowledgedLocalBytes = 0,
            cs_remoteWindow = 0, cs_localMaximumPacketSize = packet, cs_remoteMaximumPacketSize = None,
            cs_maximumPacketSize = packet\<rparr>
      in (Inr state, cm_put localId state (m\<lparr>cm_nextLocalId := cm_nextLocalId m + 1\<rparr>)))"

definition cm_require :: "int \<Rightarrow> channel_state managing" where
  "cm_require localId m =
     (case cm_channels m localId of
        None \<Rightarrow> (Inl (ChannelError (UnknownChannel localId)), m)
      | Some c \<Rightarrow> (Inr c, m))"

definition cm_requireCanSend :: "int \<Rightarrow> channel_state managing" where
  "cm_requireCanSend localId = op_bind (cm_require localId) (\<lambda>c.
     if cs_lifecycle c \<noteq> Open \<and> cs_lifecycle c \<noteq> EofReceived
       then op_throw (ChannelError (NotOpenForSending localId)) else op_return c)"

definition cm_requireCanReceive :: "int \<Rightarrow> channel_state managing" where
  "cm_requireCanReceive localId = op_bind (cm_require localId) (\<lambda>c.
     if cs_lifecycle c \<noteq> Open \<and> cs_lifecycle c \<noteq> EofSent
       then op_throw (ChannelError (NotOpenForReceiving localId)) else op_return c)"

definition cm_store :: "int \<Rightarrow> channel_state \<Rightarrow> channel_state managing" where
  "cm_store localId c = op_bind (op_modify (cm_put localId c)) (\<lambda>_. op_return c)"

definition cm_confirmOpen :: "int \<Rightarrow> int \<Rightarrow> int \<Rightarrow> int \<Rightarrow> channel_state managing" where
  "cm_confirmOpen localId remoteId remoteWindow maximumPacketSize =
     op_bind (cm_require localId) (\<lambda>c.
       if cs_lifecycle c \<noteq> Opening then op_throw (ChannelError (ChannelNotOpening localId))
       else if remoteId < 0 \<or> remoteId > 0xffffffff then op_throw (ChannelError (RemoteIdInvalid localId))
       else if remoteWindow < 0 \<or> remoteWindow > 0xffffffff
         then op_throw (ChannelError (RemoteWindowInvalid localId))
       else if maximumPacketSize \<le> 0 \<or> maximumPacketSize > 0xffffffff
         then op_throw (ChannelError (RemoteMaximumInvalid localId))
       else cm_store localId (c\<lparr>cs_remoteId := Some remoteId, cs_remoteWindow := remoteWindow,
         cs_remoteMaximumPacketSize := Some maximumPacketSize,
         cs_maximumPacketSize := min maximumPacketSize MAXIMUM_OUTBOUND_CHANNEL_DATA_SIZE,
         cs_lifecycle := Open\<rparr>))"

definition cm_consumeRemoteWindow :: "int \<Rightarrow> int \<Rightarrow> channel_state managing" where
  "cm_consumeRemoteWindow localId n = op_bind (cm_requireCanSend localId) (\<lambda>c.
     if n < 0 then op_throw (ChannelError WindowBytesNegative)
     else if n > cs_remoteWindow c then op_throw (ChannelError (RemoteWindowExhausted localId))
     else cm_store localId (c\<lparr>cs_remoteWindow := cs_remoteWindow c - n\<rparr>))"

definition cm_expandRemoteWindow :: "int \<Rightarrow> int \<Rightarrow> channel_state managing" where
  "cm_expandRemoteWindow localId n = op_bind (cm_require localId) (\<lambda>c.
     if n < 0 then op_throw (ChannelError WindowBytesNegative)
     else if cs_remoteWindow c + n > 0xffffffff then op_throw (ChannelError (RemoteWindowOverflow localId))
     else cm_store localId (c\<lparr>cs_remoteWindow := cs_remoteWindow c + n\<rparr>))"

definition cm_consumeLocalWindow :: "int \<Rightarrow> int \<Rightarrow> channel_state managing" where
  "cm_consumeLocalWindow localId n = op_bind (cm_requireCanReceive localId) (\<lambda>c.
     if n < 0 then op_throw (ChannelError WindowBytesNegative)
     else if n > cs_localWindow c then op_throw (ChannelError (LocalWindowExhausted localId))
     else cm_store localId (c\<lparr>cs_localWindow := cs_localWindow c - n\<rparr>))"

definition cm_replenishLocalWindow :: "int \<Rightarrow> int \<Rightarrow> channel_state managing" where
  "cm_replenishLocalWindow localId n = op_bind (cm_requireCanReceive localId) (\<lambda>c.
     if n < 0 then op_throw (ChannelError WindowBytesNegative)
     else cm_store localId (c\<lparr>cs_localWindow := cs_localWindow c + n\<rparr>))"

definition cm_acknowledgeLocalData :: "int \<Rightarrow> int \<Rightarrow> channel_state managing" where
  "cm_acknowledgeLocalData localId n = op_bind (cm_require localId) (\<lambda>c.
     if n < 0 then op_throw (ChannelError AcknowledgedBytesNegative)
     else let outstandingBytes =
         cs_localWindowMaximum c - cs_localWindow c - cs_acknowledgedLocalBytes c in
       if n > outstandingBytes then op_throw (ChannelError (AcknowledgedTooMuch localId))
       else cm_store localId (c\<lparr>cs_acknowledgedLocalBytes := cs_acknowledgedLocalBytes c + n\<rparr>))"

definition cm_replenishAcknowledgedLocalWindow :: "int \<Rightarrow> (channel_state \<times> int) managing" where
  "cm_replenishAcknowledgedLocalWindow localId = op_bind (cm_require localId) (\<lambda>c.
     let bytesToAdd = cs_acknowledgedLocalBytes c in
     if bytesToAdd > 0 then
       op_bind (cm_store localId (c\<lparr>cs_localWindow := cs_localWindow c + bytesToAdd,
         cs_acknowledgedLocalBytes := 0\<rparr>)) (\<lambda>c'. op_return (c', bytesToAdd))
     else op_return (c, bytesToAdd))"

definition cm_markEofSent :: "int \<Rightarrow> channel_state managing" where
  "cm_markEofSent localId = op_bind (cm_require localId) (\<lambda>c.
     cm_store localId (c\<lparr>cs_lifecycle := if cs_lifecycle c = EofReceived then Closed else EofSent\<rparr>))"

definition cm_markEofReceived :: "int \<Rightarrow> channel_state managing" where
  "cm_markEofReceived localId = op_bind (cm_require localId) (\<lambda>c.
     cm_store localId (c\<lparr>cs_lifecycle := if cs_lifecycle c = EofSent then Closed else EofReceived\<rparr>))"

definition cm_close :: "int \<Rightarrow> channel_state managing" where
  "cm_close localId = op_bind (cm_require localId) (\<lambda>c.
     op_bind (op_modify (\<lambda>m. m\<lparr>cm_channels := (cm_channels m)(localId := None),
       cm_order := remove1 localId (cm_order m)\<rparr>)) (\<lambda>_. op_return (c\<lparr>cs_lifecycle := Closed\<rparr>)))"

definition cm_get :: "int \<Rightarrow> channel_manager \<Rightarrow> channel_state option" where
  "cm_get localId m = cm_channels m localId"

definition cm_list :: "channel_manager \<Rightarrow> channel_state list" where
  "cm_list m = map (\<lambda>i. the (cm_channels m i)) (cm_order m)"

section \<open>The invariant\<close>

text \<open>
  Every byte of the local window is in one of three places: still granted to the peer
  (\<open>localWindow\<close>), acknowledged and not yet granted again, or received and not acknowledged.
  The remote side is known exactly from the confirmation on, and windows stay in uint32.
\<close>

definition channel_ok :: "channel_state \<Rightarrow> bool" where
  "channel_ok c \<longleftrightarrow>
     0 \<le> cs_localWindow c \<and> 0 \<le> cs_acknowledgedLocalBytes c \<and>
     cs_localWindow c + cs_acknowledgedLocalBytes c \<le> cs_localWindowMaximum c \<and>
     cs_localWindowMaximum c \<le> 0xffffffff \<and>
     0 \<le> cs_remoteWindow c \<and> cs_remoteWindow c \<le> 0xffffffff \<and> 0 < cs_maximumPacketSize c \<and>
     (case cs_remoteId c of None \<Rightarrow> cs_lifecycle c \<noteq> Open | Some r \<Rightarrow> 0 \<le> r \<and> r \<le> 0xffffffff \<and> cs_lifecycle c \<noteq> Opening \<and>
        cs_maximumPacketSize c \<le> MAXIMUM_OUTBOUND_CHANNEL_DATA_SIZE)"

definition unacknowledged :: "channel_state \<Rightarrow> int" where
  "unacknowledged c = cs_localWindowMaximum c - cs_localWindow c - cs_acknowledgedLocalBytes c"

definition manager_ok :: "channel_manager \<Rightarrow> bool" where
  "manager_ok m \<longleftrightarrow>
     (\<forall>i c. cm_channels m i = Some c \<longrightarrow> channel_ok c \<and> cs_localId c = i \<and> 0 \<le> i \<and> i < cm_nextLocalId m) \<and>
     set (cm_order m) = dom (cm_channels m) \<and> distinct (cm_order m) \<and> 0 \<le> cm_nextLocalId m"

lemma manager_okD:
  assumes "manager_ok m" "cm_channels m i = Some c"
  shows "channel_ok c" "cs_localId c = i" "0 \<le> i" "i < cm_nextLocalId m"
  using assms unfolding manager_ok_def by blast+

lemma manager_okI:
  assumes "\<And>i c. cm_channels m i = Some c \<Longrightarrow> channel_ok c \<and> cs_localId c = i \<and> 0 \<le> i \<and> i < cm_nextLocalId m"
    and "set (cm_order m) = dom (cm_channels m)" and "distinct (cm_order m)" and "0 \<le> cm_nextLocalId m"
  shows "manager_ok m"
  using assms unfolding manager_ok_def by blast

lemma cm_put_ok:
  assumes "manager_ok m" "cm_channels m i = Some d" "channel_ok c" "cs_localId c = i"
  shows "manager_ok (cm_put i c m)"
  using assms unfolding manager_ok_def cm_put_def by (auto simp: insert_absorb domI)

lemma cm_new_ok: "manager_ok cm_new"
  by (simp add: manager_ok_def cm_new_def)

text \<open>
  What every operation on an existing channel does: it fails and changes nothing, or puts a new
  state of the same channel.  \<open>updates P i op\<close> says so, \<open>P\<close> relating the old state to the new.
\<close>

definition updates :: "(channel_state \<Rightarrow> channel_state \<Rightarrow> bool) \<Rightarrow> int \<Rightarrow> 'a managing \<Rightarrow> bool" where
  "updates P i f \<longleftrightarrow> (\<forall>m. snd (f m) = m \<or>
     (\<exists>c c'. cm_channels m i = Some c \<and> P c c' \<and> cs_localId c' = cs_localId c \<and> snd (f m) = cm_put i c' m))"

lemmas cm_op_simps = op_simps cm_require_def cm_requireCanSend_def cm_requireCanReceive_def cm_store_def

lemma updates_ok:
  assumes "updates P i f" and "manager_ok m" and "\<And>c c'. channel_ok c \<Longrightarrow> P c c' \<Longrightarrow> channel_ok c'"
  shows "manager_ok (snd (f m))"
proof -
  consider "snd (f m) = m" | c c' where "cm_channels m i = Some c" "P c c'" "cs_localId c' = cs_localId c"
      "snd (f m) = cm_put i c' m"
    using assms(1) unfolding updates_def by blast
  then show ?thesis
  proof cases
    case 2
    then show ?thesis
      using assms(3) manager_okD [OF assms(2) 2(1)] by (auto intro: cm_put_ok [OF assms(2)])
  qed (use assms(2) in simp)
qed

lemma cm_put_same: "cm_channels m i = Some c \<Longrightarrow> i \<in> set (cm_order m) \<Longrightarrow> cm_put i c m = m"
  by (simp add: cm_put_def fun_upd_idem)

lemma updates_confirmOpen:
  "updates (\<lambda>c c'. cs_lifecycle c = Opening \<and> 0 \<le> r \<and> r \<le> 0xffffffff \<and> 0 \<le> w \<and> w \<le> 0xffffffff \<and> 0 < p \<and>
     c' = c\<lparr>cs_remoteId := Some r, cs_remoteWindow := w, cs_remoteMaximumPacketSize := Some p,
       cs_maximumPacketSize := min p MAXIMUM_OUTBOUND_CHANNEL_DATA_SIZE, cs_lifecycle := Open\<rparr>) i (cm_confirmOpen i r w p)"
  by (auto simp: updates_def cm_confirmOpen_def cm_op_simps split: option.split)

lemma updates_consumeRemoteWindow:
  "updates (\<lambda>c c'. cs_lifecycle c \<in> {Open, EofReceived} \<and> 0 \<le> n \<and> n \<le> cs_remoteWindow c \<and>
     c' = c\<lparr>cs_remoteWindow := cs_remoteWindow c - n\<rparr>) i (cm_consumeRemoteWindow i n)"
  by (auto simp: updates_def cm_consumeRemoteWindow_def cm_op_simps split: option.split)

lemma updates_expandRemoteWindow:
  "updates (\<lambda>c c'. 0 \<le> n \<and> cs_remoteWindow c + n \<le> 0xffffffff \<and>
     c' = c\<lparr>cs_remoteWindow := cs_remoteWindow c + n\<rparr>) i (cm_expandRemoteWindow i n)"
  by (auto simp: updates_def cm_expandRemoteWindow_def cm_op_simps split: option.split)

lemma updates_consumeLocalWindow:
  "updates (\<lambda>c c'. cs_lifecycle c \<in> {Open, EofSent} \<and> 0 \<le> n \<and> n \<le> cs_localWindow c \<and>
     c' = c\<lparr>cs_localWindow := cs_localWindow c - n\<rparr>) i (cm_consumeLocalWindow i n)"
  by (auto simp: updates_def cm_consumeLocalWindow_def cm_op_simps split: option.split)

lemma updates_acknowledgeLocalData:
  "updates (\<lambda>c c'. 0 \<le> n \<and> n \<le> unacknowledged c \<and>
     c' = c\<lparr>cs_acknowledgedLocalBytes := cs_acknowledgedLocalBytes c + n\<rparr>) i (cm_acknowledgeLocalData i n)"
  by (auto simp: updates_def cm_acknowledgeLocalData_def unacknowledged_def Let_def cm_op_simps split: option.split)

lemma updates_replenishAcknowledged:
  "updates (\<lambda>c c'. c' = c\<lparr>cs_localWindow := cs_localWindow c + cs_acknowledgedLocalBytes c,
     cs_acknowledgedLocalBytes := 0\<rparr>) i (cm_replenishAcknowledgedLocalWindow i)"
  by (auto simp: updates_def cm_replenishAcknowledgedLocalWindow_def Let_def cm_op_simps split: option.split)

lemma updates_markEofSent:
  "updates (\<lambda>c c'. c' = c\<lparr>cs_lifecycle := if cs_lifecycle c = EofReceived then Closed else EofSent\<rparr>) i (cm_markEofSent i)"
  by (auto simp: updates_def cm_markEofSent_def cm_op_simps split: option.split)

lemma updates_markEofReceived:
  "updates (\<lambda>c c'. c' = c\<lparr>cs_lifecycle := if cs_lifecycle c = EofSent then Closed else EofReceived\<rparr>) i (cm_markEofReceived i)"
  by (auto simp: updates_def cm_markEofReceived_def cm_op_simps split: option.split)

lemmas channel_updates = updates_confirmOpen updates_consumeRemoteWindow updates_expandRemoteWindow
  updates_consumeLocalWindow updates_acknowledgeLocalData updates_replenishAcknowledged
  updates_markEofSent updates_markEofReceived

lemma cm_updates_ok:
  assumes "manager_ok m"
  shows "manager_ok (snd (cm_confirmOpen i r w p m))" "manager_ok (snd (cm_consumeRemoteWindow i n m))"
    "manager_ok (snd (cm_expandRemoteWindow i n m))" "manager_ok (snd (cm_consumeLocalWindow i n m))"
    "manager_ok (snd (cm_acknowledgeLocalData i n m))" "manager_ok (snd (cm_replenishAcknowledgedLocalWindow i m))"
    "manager_ok (snd (cm_markEofSent i m))" "manager_ok (snd (cm_markEofReceived i m))"
  by (rule updates_ok [OF updates_confirmOpen assms] updates_ok [OF updates_consumeRemoteWindow assms]
      updates_ok [OF updates_expandRemoteWindow assms] updates_ok [OF updates_consumeLocalWindow assms]
      updates_ok [OF updates_acknowledgeLocalData assms] updates_ok [OF updates_replenishAcknowledged assms]
      updates_ok [OF updates_markEofSent assms] updates_ok [OF updates_markEofReceived assms];
      auto simp: channel_ok_def unacknowledged_def MAXIMUM_OUTBOUND_CHANNEL_DATA_SIZE_def split: option.splits)+

lemma cm_open_ok:
  assumes "manager_ok m" and "\<And>w. lw = Some w \<Longrightarrow> 0 \<le> w \<and> w \<le> 0xffffffff" and "\<And>p. mp = Some p \<Longrightarrow> 0 < p"
  shows "manager_ok (snd (cm_open k lw mp m))"
proof -
  let ?i = "cm_nextLocalId m"
  obtain c where o: "cm_open k lw mp m = (Inr c, cm_put ?i c (m\<lparr>cm_nextLocalId := ?i + 1\<rparr>))"
    and c: "channel_ok c" "cs_localId c = ?i"
    using assms(2,3) by (auto simp: cm_open_def Let_def channel_ok_def split: option.splits)
  have i: "?i \<notin> dom (cm_channels m)" and n: "0 \<le> ?i"
    using assms(1) unfolding manager_ok_def by fastforce+
  have "channel_ok d \<and> cs_localId d = j \<and> 0 \<le> j \<and> j < ?i + 1"
    if "((cm_channels m)(?i \<mapsto> c)) j = Some d" for j d
  proof (cases "j = ?i")
    case True
    then show ?thesis using that c n by simp
  next
    case False
    then have "cm_channels m j = Some d" using that by simp
    from manager_okD [OF assms(1) this] show ?thesis by simp
  qed
  note new = this
  have o1: "set (cm_order m) = dom (cm_channels m)" and o2: "distinct (cm_order m)"
    using assms(1) by (simp_all add: manager_ok_def)
  have o3: "?i \<notin> set (cm_order m)" using o1 i by blast
  define m' where "m' = cm_put ?i c (m\<lparr>cm_nextLocalId := ?i + 1\<rparr>)"
  have m': "cm_channels m' = (cm_channels m)(?i \<mapsto> c)" "cm_order m' = cm_order m @ [?i]" "cm_nextLocalId m' = ?i + 1"
    using o3 by (simp_all add: m'_def cm_put_def)
  have "manager_ok m'"
  proof (rule manager_okI)
    show "channel_ok d \<and> cs_localId d = j \<and> 0 \<le> j \<and> j < cm_nextLocalId m'" if "cm_channels m' j = Some d" for j d
      using new [of j d] that unfolding m' by blast
    show "set (cm_order m') = dom (cm_channels m')" unfolding m' using o1 by auto
    show "distinct (cm_order m')" unfolding m' using o2 o3 by simp
    show "0 \<le> cm_nextLocalId m'" unfolding m' using n by simp
  qed
  then show ?thesis by (simp only: o snd_conv m'_def)
qed

lemma cm_close_ok: "manager_ok m \<Longrightarrow> manager_ok (snd (cm_close i m))"
  unfolding manager_ok_def cm_close_def by (auto simp: cm_op_simps split: option.split)

section \<open>Sequences of operations and the ledger of a channel\<close>

datatype channel_op =
    OpOpen channel_kind
  | OpConfirm int int int int
  | OpConsumeRemote int int
  | OpExpandRemote int int
  | OpConsumeLocal int int
  | OpAcknowledge int int
  | OpReplenish int
  | OpEofSent int
  | OpEofReceived int
  | OpClose int

text \<open>One call; its result is the number of bytes to add to the peer's window, or the error.\<close>

fun channel_run :: "channel_op \<Rightarrow> int managing" where
  "channel_run (OpOpen k) = op_bind (cm_open k None None) (\<lambda>_. op_return 0)"
| "channel_run (OpConfirm i r w p) = op_bind (cm_confirmOpen i r w p) (\<lambda>_. op_return 0)"
| "channel_run (OpConsumeRemote i n) = op_bind (cm_consumeRemoteWindow i n) (\<lambda>_. op_return 0)"
| "channel_run (OpExpandRemote i n) = op_bind (cm_expandRemoteWindow i n) (\<lambda>_. op_return 0)"
| "channel_run (OpConsumeLocal i n) = op_bind (cm_consumeLocalWindow i n) (\<lambda>_. op_return 0)"
| "channel_run (OpAcknowledge i n) = op_bind (cm_acknowledgeLocalData i n) (\<lambda>_. op_return 0)"
| "channel_run (OpReplenish i) = op_bind (cm_replenishAcknowledgedLocalWindow i) (\<lambda>x. op_return (snd x))"
| "channel_run (OpEofSent i) = op_bind (cm_markEofSent i) (\<lambda>_. op_return 0)"
| "channel_run (OpEofReceived i) = op_bind (cm_markEofReceived i) (\<lambda>_. op_return 0)"
| "channel_run (OpClose i) = op_bind (cm_close i) (\<lambda>_. op_return 0)"

text \<open>
  The abstract specification of the operations on an existing channel: which channel, and how the
  old state, the new state and the result are related when the call succeeds.
\<close>

fun op_target :: "channel_op \<Rightarrow> int option" where
  "op_target (OpOpen k) = None"
| "op_target (OpConfirm i r w p) = Some i"
| "op_target (OpConsumeRemote i n) = Some i"
| "op_target (OpExpandRemote i n) = Some i"
| "op_target (OpConsumeLocal i n) = Some i"
| "op_target (OpAcknowledge i n) = Some i"
| "op_target (OpReplenish i) = Some i"
| "op_target (OpEofSent i) = Some i"
| "op_target (OpEofReceived i) = Some i"
| "op_target (OpClose i) = Some i"

fun op_effect :: "channel_op \<Rightarrow> channel_state \<Rightarrow> channel_state \<Rightarrow> int \<Rightarrow> bool" where
  "op_effect (OpConfirm i r w p) c c' k \<longleftrightarrow> cs_lifecycle c = Opening \<and> 0 \<le> w \<and>
     c' = c\<lparr>cs_remoteId := Some r, cs_remoteWindow := w, cs_remoteMaximumPacketSize := Some p,
       cs_maximumPacketSize := min p MAXIMUM_OUTBOUND_CHANNEL_DATA_SIZE, cs_lifecycle := Open\<rparr>"
| "op_effect (OpConsumeRemote i n) c c' k \<longleftrightarrow> cs_lifecycle c \<in> {Open, EofReceived} \<and> 0 \<le> n \<and>
     n \<le> cs_remoteWindow c \<and> c' = c\<lparr>cs_remoteWindow := cs_remoteWindow c - n\<rparr>"
| "op_effect (OpExpandRemote i n) c c' k \<longleftrightarrow> 0 \<le> n \<and> c' = c\<lparr>cs_remoteWindow := cs_remoteWindow c + n\<rparr>"
| "op_effect (OpConsumeLocal i n) c c' k \<longleftrightarrow> cs_lifecycle c \<in> {Open, EofSent} \<and> 0 \<le> n \<and>
     n \<le> cs_localWindow c \<and> c' = c\<lparr>cs_localWindow := cs_localWindow c - n\<rparr>"
| "op_effect (OpAcknowledge i n) c c' k \<longleftrightarrow> 0 \<le> n \<and> n \<le> unacknowledged c \<and>
     c' = c\<lparr>cs_acknowledgedLocalBytes := cs_acknowledgedLocalBytes c + n\<rparr>"
| "op_effect (OpReplenish i) c c' k \<longleftrightarrow> cs_acknowledgedLocalBytes c = k \<and>
     (if 0 < k then c' = c\<lparr>cs_localWindow := cs_localWindow c + k, cs_acknowledgedLocalBytes := 0\<rparr> else c' = c)"
| "op_effect (OpEofSent i) c c' k \<longleftrightarrow>
     c' = c\<lparr>cs_lifecycle := if cs_lifecycle c = EofReceived then Closed else EofSent\<rparr>"
| "op_effect (OpEofReceived i) c c' k \<longleftrightarrow>
     c' = c\<lparr>cs_lifecycle := if cs_lifecycle c = EofSent then Closed else EofReceived\<rparr>"
| "op_effect _ c c' k \<longleftrightarrow> False"

lemma cm_open_default_ok: "manager_ok m \<Longrightarrow> manager_ok (snd (cm_open k None None m))"
  by (rule cm_open_ok) auto

lemma channel_run_ok: "manager_ok m \<Longrightarrow> manager_ok (snd (channel_run x m))"
proof -
  assume m: "manager_ok m"
  have s: "snd (op_bind f (\<lambda>y. op_return (g y)) m) = snd (f m)" for f :: "'b managing" and g :: "'b \<Rightarrow> int"
    by (auto simp: op_bind_def op_return_def split: prod.split sum.split)
  show ?thesis
    using m by (cases x) (simp_all add: s cm_updates_ok cm_open_default_ok cm_close_ok)
qed

interpretation channel_system: invariant_system "\<lambda>x m. snd (channel_run x m)" manager_ok
  by unfold_locales (rule channel_run_ok)

text \<open>What an operation on channel \<open>i\<close> does, result included.\<close>

definition performs :: "int \<Rightarrow> (channel_state \<Rightarrow> channel_state \<Rightarrow> int \<Rightarrow> bool) \<Rightarrow> int managing \<Rightarrow> bool" where
  "performs i P f \<longleftrightarrow> (\<forall>m r m'. f m = (r, m') \<longrightarrow> (\<exists>e. r = Inl e \<and> m' = m) \<or>
     (\<exists>c c' k. cm_channels m i = Some c \<and> r = Inr k \<and> P c c' k \<and>
        cm_channels m' = (cm_channels m)(i \<mapsto> c') \<and> cm_nextLocalId m' = cm_nextLocalId m))"

lemma performs_bind:
  assumes "\<And>m r m'. f m = (r, m') \<Longrightarrow> (\<exists>e. r = Inl e \<and> m' = m) \<or>
     (\<exists>c c' y. cm_channels m i = Some c \<and> r = Inr y \<and> P c c' (g y) \<and>
        cm_channels m' = (cm_channels m)(i \<mapsto> c') \<and> cm_nextLocalId m' = cm_nextLocalId m)"
  shows "performs i P (op_bind f (\<lambda>y. op_return (g y)))"
  unfolding performs_def
proof (intro allI impI)
  fix m r m' assume a: "op_bind f (\<lambda>y. op_return (g y)) m = (r, m')"
  obtain q n where q: "f m = (q, n)" by fastforce
  from assms [OF q] a q show "(\<exists>e. r = Inl e \<and> m' = m) \<or>
     (\<exists>c c' k. cm_channels m i = Some c \<and> r = Inr k \<and> P c c' k \<and>
        cm_channels m' = (cm_channels m)(i \<mapsto> c') \<and> cm_nextLocalId m' = cm_nextLocalId m)"
    by (auto simp: op_bind_def op_return_def)
qed

lemma each_performs:
  "performs i (op_effect (OpConfirm i r w p)) (channel_run (OpConfirm i r w p))"
  "performs i (op_effect (OpConsumeRemote i n)) (channel_run (OpConsumeRemote i n))"
  "performs i (op_effect (OpExpandRemote i n)) (channel_run (OpExpandRemote i n))"
  "performs i (op_effect (OpConsumeLocal i n)) (channel_run (OpConsumeLocal i n))"
  "performs i (op_effect (OpAcknowledge i n)) (channel_run (OpAcknowledge i n))"
  "performs i (op_effect (OpReplenish i)) (channel_run (OpReplenish i))"
  "performs i (op_effect (OpEofSent i)) (channel_run (OpEofSent i))"
  "performs i (op_effect (OpEofReceived i)) (channel_run (OpEofReceived i))"
  unfolding channel_run.simps
  by (rule performs_bind, fastforce simp: cm_op_simps cm_confirmOpen_def cm_consumeRemoteWindow_def
      cm_expandRemoteWindow_def cm_consumeLocalWindow_def cm_acknowledgeLocalData_def unacknowledged_def
      cm_replenishAcknowledgedLocalWindow_def cm_markEofSent_def cm_markEofReceived_def cm_put_def Let_def
      split: option.splits if_splits)+

lemma channel_run_performs:
  assumes "op_target x = Some i" and "x \<noteq> OpClose i"
  shows "performs i (op_effect x) (channel_run x)"
  using assms each_performs by (cases x) (auto simp del: channel_run.simps)

section \<open>Observers of a channel\<close>

text \<open>
  An observer of channel \<open>i\<close> keeps a value of its own that \<open>gstep\<close> updates after every successful call;
  \<open>link\<close> relates it to the channel's state.  If the abstract effect of every operation keeps the link,
  it holds after every sequence of calls, as long as the channel exists: ids are never used again.
\<close>

definition observe :: "(channel_op \<Rightarrow> int \<Rightarrow> 'g \<Rightarrow> 'g) \<Rightarrow> channel_op \<Rightarrow> channel_manager \<times> 'g \<Rightarrow> channel_manager \<times> 'g" where
  "observe gstep x = (\<lambda>(m, L). case channel_run x m of
     (Inl e, m') \<Rightarrow> (m', L) | (Inr k, m') \<Rightarrow> (m', gstep x k L))"

definition observed :: "int \<Rightarrow> (channel_state \<Rightarrow> 'g \<Rightarrow> bool) \<Rightarrow> channel_manager \<times> 'g \<Rightarrow> bool" where
  "observed i link = (\<lambda>(m, L). manager_ok m \<and> i < cm_nextLocalId m \<and>
     (\<forall>c. cm_channels m i = Some c \<longrightarrow> link c L))"

locale channel_observer =
  fixes i :: int and gstep :: "channel_op \<Rightarrow> int \<Rightarrow> 'g \<Rightarrow> 'g" and link :: "channel_state \<Rightarrow> 'g \<Rightarrow> bool"
  assumes other: "op_target x \<noteq> Some i \<Longrightarrow> gstep x k L = L"
    and same: "op_target x = Some i \<Longrightarrow> x \<noteq> OpClose i \<Longrightarrow> channel_ok c \<Longrightarrow> op_effect x c c' k \<Longrightarrow>
      link c L \<Longrightarrow> link c' (gstep x k L)"
begin

lemma observe_update:
  assumes x: "op_target x = Some j" "x \<noteq> OpClose j" and inv: "observed i link (m, L)"
  shows "observed i link (observe gstep x (m, L))"
proof -
  obtain r m' where r: "channel_run x m = (r, m')" by fastforce
  have m: "manager_ok m" and ok: "manager_ok m'"
    using channel_run_ok [of m x] inv r by (simp_all add: observed_def)
  from channel_run_performs [OF x] r consider e where "r = Inl e" "m' = m"
    | c c' k where "cm_channels m j = Some c" "r = Inr k" "op_effect x c c' k"
      "cm_channels m' = (cm_channels m)(j \<mapsto> c')" "cm_nextLocalId m' = cm_nextLocalId m"
    unfolding performs_def by blast
  then show ?thesis
  proof cases
    case 1
    then show ?thesis using inv r by (simp add: observe_def)
  next
    case 2
    then have "link d (gstep x k L)" if "cm_channels m' i = Some d" for d
      using that inv same [OF _ _ manager_okD(1) [OF m 2(1)] 2(3)] other [of x k L] x
      by (cases "j = i") (auto simp: observed_def)
    then show ?thesis using 2 inv ok r by (simp add: observe_def observed_def)
  qed
qed

lemma observe_open:
  assumes "observed i link (m, L)"
  shows "observed i link (observe gstep (OpOpen k) (m, L))"
proof -
  obtain r m' where r: "channel_run (OpOpen k) m = (r, m')" by fastforce
  have "manager_ok m'" using channel_run_ok [of m "OpOpen k"] assms r by (simp add: observed_def)
  moreover have "cm_nextLocalId m' = cm_nextLocalId m + 1" "\<And>j. j \<noteq> cm_nextLocalId m \<Longrightarrow> cm_channels m' j = cm_channels m j"
    using r by (auto simp: cm_op_simps cm_open_def cm_put_def Let_def)
  moreover have "observe gstep (OpOpen k) (m, L) = (m', L)"
    using r by (auto simp: observe_def other split: sum.splits)
  ultimately show ?thesis using assms by (auto simp: observed_def)
qed

lemma observe_close:
  assumes "observed i link (m, L)"
  shows "observed i link (observe gstep (OpClose j) (m, L))"
proof -
  obtain r m' where r: "channel_run (OpClose j) m = (r, m')" by fastforce
  have ok: "manager_ok m'" using channel_run_ok [of m "OpClose j"] assms r by (simp add: observed_def)
  have n: "cm_nextLocalId m' = cm_nextLocalId m" "\<And>d. cm_channels m' i = Some d \<Longrightarrow> cm_channels m i = Some d"
    using r by (auto simp: cm_op_simps cm_close_def split: option.splits if_splits)
  show ?thesis
  proof (cases "cm_channels m' i")
    case None
    then show ?thesis using ok n assms r by (auto simp: observed_def observe_def split: sum.splits)
  next
    case (Some d)
    then have "j \<noteq> i \<or> (\<exists>e. r = Inl e)"
      using r by (auto simp: cm_op_simps cm_close_def split: option.splits)
    then have "observe gstep (OpClose j) (m, L) = (m', L)"
      using r other [of "OpClose j"] by (auto simp: observe_def split: sum.splits)
    then show ?thesis using ok n assms by (auto simp: observed_def)
  qed
qed

lemma observe_preserves: "observed i link s \<Longrightarrow> observed i link (observe gstep x s)"
proof -
  assume s: "observed i link s"
  obtain m L where mL: "s = (m, L)" by fastforce
  consider k where "x = OpOpen k" | j where "x = OpClose j" | j where "op_target x = Some j" "x \<noteq> OpClose j"
    by (cases x) auto
  then show ?thesis
    using s observe_open observe_close observe_update unfolding mL by cases auto
qed

end

sublocale channel_observer \<subseteq> invariant_system "observe gstep" "observed i link"
  by unfold_locales (rule observe_preserves)

section \<open>The ledger\<close>

text \<open>
  A ledger of what was received, acknowledged and granted again on
  the local side of channel \<open>i\<close>, and of what was sent and allowed on the remote side.
\<close>

record ledger =
  lg_received :: int
  lg_acknowledged :: int
  lg_granted :: int
  lg_sent :: int
  lg_allowed :: int

definition ledger_new :: ledger where
  "ledger_new = \<lparr>lg_received = 0, lg_acknowledged = 0, lg_granted = 0, lg_sent = 0, lg_allowed = 0\<rparr>"

fun ledger_step :: "int \<Rightarrow> channel_op \<Rightarrow> int \<Rightarrow> ledger \<Rightarrow> ledger" where
  "ledger_step i (OpConfirm j r w p) k L = (if j = i then L\<lparr>lg_allowed := lg_allowed L + w\<rparr> else L)"
| "ledger_step i (OpExpandRemote j n) k L = (if j = i then L\<lparr>lg_allowed := lg_allowed L + n\<rparr> else L)"
| "ledger_step i (OpConsumeRemote j n) k L = (if j = i then L\<lparr>lg_sent := lg_sent L + n\<rparr> else L)"
| "ledger_step i (OpConsumeLocal j n) k L = (if j = i then L\<lparr>lg_received := lg_received L + n\<rparr> else L)"
| "ledger_step i (OpAcknowledge j n) k L = (if j = i then L\<lparr>lg_acknowledged := lg_acknowledged L + n\<rparr> else L)"
| "ledger_step i (OpReplenish j) k L = (if j = i then L\<lparr>lg_granted := lg_granted L + k\<rparr> else L)"
| "ledger_step i _ k L = L"

definition ledger_agrees :: "channel_state \<Rightarrow> ledger \<Rightarrow> bool" where
  "ledger_agrees c L \<longleftrightarrow>
     cs_localWindow c = cs_localWindowMaximum c + lg_granted L - lg_received L \<and>
     cs_acknowledgedLocalBytes c + lg_granted L = lg_acknowledged L \<and>
     lg_sent L + cs_remoteWindow c \<le> lg_allowed L"

definition ledger_link :: "int \<Rightarrow> channel_state \<Rightarrow> ledger \<Rightarrow> bool" where
  "ledger_link w c L \<longleftrightarrow> cs_localWindowMaximum c = w \<and> ledger_agrees c L \<and>
     (cs_lifecycle c = Opening \<longrightarrow> lg_sent L = 0 \<and> 0 \<le> lg_allowed L)"

lemma ledger_link_simps:
  "ledger_link w c L \<longleftrightarrow> cs_localWindowMaximum c = w \<and>
     cs_localWindow c = w + lg_granted L - lg_received L \<and>
     cs_acknowledgedLocalBytes c + lg_granted L = lg_acknowledged L \<and>
     lg_sent L + cs_remoteWindow c \<le> lg_allowed L \<and>
     (cs_lifecycle c = Opening \<longrightarrow> lg_sent L = 0 \<and> 0 \<le> lg_allowed L)"
  by (auto simp: ledger_link_def ledger_agrees_def)

interpretation ledger_system: channel_observer i "ledger_step i" "ledger_link w" for i w
proof
  show "op_target x \<noteq> Some i \<Longrightarrow> ledger_step i x k L = L" for x k L
    by (cases x) auto
  show "ledger_link w c' (ledger_step i x k L)" if "op_target x = Some i" "channel_ok c"
    "op_effect x c c' k" "ledger_link w c L" for x c c' k L
    using that unfolding ledger_link_simps
    by (cases x) (auto simp: channel_ok_def split: if_splits)
qed

section \<open>EOF\<close>

text \<open>The observer of the two EOFs: whether ours was sent, and how many of the peer's arrived.\<close>

fun eof_step :: "int \<Rightarrow> channel_op \<Rightarrow> int \<Rightarrow> bool \<times> nat \<Rightarrow> bool \<times> nat" where
  "eof_step i (OpEofSent j) k (sent, received) = (if j = i then (True, received) else (sent, received))"
| "eof_step i (OpEofReceived j) k (sent, received) = (if j = i then (sent, received + 1) else (sent, received))"
| "eof_step i _ k g = g"

definition eof_link :: "channel_state \<Rightarrow> bool \<times> nat \<Rightarrow> bool" where
  "eof_link c = (\<lambda>(sent, received).
     (received = 0 \<longrightarrow> cs_lifecycle c \<in> (if sent then {EofSent} else {Opening, Open})) \<and>
     (received = 1 \<longrightarrow> cs_lifecycle c \<in> (if sent then {Closed, EofSent} else {EofReceived})))"

interpretation eof_system: channel_observer i "eof_step i" eof_link for i
proof
  show "op_target x \<noteq> Some i \<Longrightarrow> eof_step i x k L = L" for x k L
    by (cases L; cases x) auto
  show "eof_link c' (eof_step i x k L)" if "op_target x = Some i" "channel_ok c"
    "op_effect x c c' k" "eof_link c L" for x c c' k L
    using that by (cases L; cases x) (auto simp: eof_link_def split: if_splits)
qed

section \<open>The properties\<close>




text \<open>Once our EOF was sent on a channel, and as long as the peer sends at most one EOF on it, no
  later sequence of calls lets data be sent on it: taking remote window is refused.\<close>

theorem no_data_after_eof:
  assumes "manager_ok m" and "cm_open kind None None m = (Inr opened, m1)"
    and "fold (observe (eof_step (cs_localId opened))) ops (m1, (False, 0)) = (m2, (True, received))"
    and "received \<le> 1"
  shows "\<exists>e. cm_consumeRemoteWindow (cs_localId opened) n m2 = (Inl e, m2)"
proof -
  let ?i = "cs_localId opened"
  have i: "?i < cm_nextLocalId m1" and m1: "cm_channels m1 ?i = Some opened" "cs_lifecycle opened = Opening"
    using assms(2) by (auto simp: cm_open_def Let_def cm_put_def)
  have "manager_ok m1" using cm_open_default_ok [OF assms(1), of kind] assms(2) by simp
  then have "observed ?i eof_link (m1, (False, 0))"
    using i m1 by (simp add: observed_def eof_link_def)
  from eof_system.always [OF this, of ops] have "observed ?i eof_link (m2, (True, received))"
    by (simp add: assms(3))
  moreover have "received = 0 \<or> received = 1" using assms(4) by linarith
  ultimately have "cs_lifecycle c \<in> {Closed, EofSent}" if "cm_channels m2 ?i = Some c" for c
    using that by (auto simp: observed_def eof_link_def)
  then show ?thesis
    by (fastforce simp: cm_consumeRemoteWindow_def cm_op_simps split: option.splits)
qed

lemma no_data_after_eof_witness:
  "\<exists>e m2. fold (observe (eof_step 0)) [OpConfirm 0 7 100 50, OpEofSent 0, OpEofReceived 0, OpExpandRemote 0 9]
      (snd (cm_open SessionChannel None None cm_new), (False, 0)) = (m2, (True, 1)) \<and>
     cm_consumeRemoteWindow 0 5 m2 = (Inl e, m2)"
proof -
  let ?ops = "[OpConfirm 0 7 100 50, OpEofSent 0, OpEofReceived 0, OpExpandRemote 0 9]"
  obtain opened m1 where o: "cm_open SessionChannel None None cm_new = (Inr opened, m1)" "cs_localId opened = 0"
    by (simp add: cm_open_def Let_def cm_new_def)
  obtain m2 where f: "fold (observe (eof_step 0)) ?ops (m1, (False, 0)) = (m2, (True, 1))"
    using o by (auto simp: observe_def cm_open_def cm_new_def cm_put_def Let_def cm_op_simps cm_confirmOpen_def
        cm_markEofSent_def cm_markEofReceived_def cm_expandRemoteWindow_def MAXIMUM_OUTBOUND_CHANNEL_DATA_SIZE_def)
  show ?thesis using no_data_after_eof [OF cm_new_ok o(1), of ?ops m2 1 5] f o by auto
qed

text \<open>
  The bound on the peer's EOFs is needed: a second EOF of the peer takes a channel that both sides
  have finished from \<open>closed\<close> back to \<open>eof-received\<close>, where sending is allowed again.
\<close>

lemma second_eof_reopens:
  "\<exists>c m2. fold (\<lambda>x m. snd (channel_run x m))
      [OpOpen SessionChannel, OpConfirm 0 7 100 50, OpEofSent 0, OpEofReceived 0, OpEofReceived 0] cm_new = m2 \<and>
    cm_consumeRemoteWindow 0 5 m2 = (Inr c, cm_put 0 c m2) \<and> cs_lifecycle c = EofReceived"
  by (simp add: cm_open_def cm_new_def cm_put_def Let_def cm_op_simps cm_confirmOpen_def
      cm_markEofSent_def cm_markEofReceived_def cm_consumeRemoteWindow_def MAXIMUM_OUTBOUND_CHANNEL_DATA_SIZE_def)

end
