(* ===== verification/SshKex.thy ===== *)
theory SshKex
  imports SshMessages
begin

text \<open>
  Key exchange: \<open>kex-curve25519.ts\<close>, \<open>kex-group14.ts\<close>, \<open>key-derivation.ts\<close>, \<open>host-key.ts\<close> and
  \<open>fingerprint.ts\<close> of \<open>src/core/ssh\<close>.  What \<open>node:crypto\<close> computes is the parameter record
  \<open>crypto\<close>: the SHA-256 digest, the public value and the shared secret of a private key, whether
  \<open>createPublicKey\<close> accepts a key, and whether a signature verifies.
\<close>

section \<open>The cryptographic parameters\<close>

datatype key_object = RsaKey int int | Ed25519Key bytes
datatype signature_hash = NoHash | Sha1 | Sha256 | Sha512

record crypto =
  cr_sha256 :: "bytes \<Rightarrow> bytes"
  cr_x25519_public :: "bytes \<Rightarrow> bytes"
  cr_x25519_secret :: "bytes \<Rightarrow> bytes \<Rightarrow> ssh_error + bytes"
  cr_group14_public :: "bytes \<Rightarrow> bytes"
  cr_group14_secret :: "bytes \<Rightarrow> bytes \<Rightarrow> ssh_error + bytes"
  cr_key_valid :: "key_object \<Rightarrow> bool"
  cr_verify :: "signature_hash \<Rightarrow> bytes \<Rightarrow> key_object \<Rightarrow> bytes \<Rightarrow> bool"

section \<open>Numbers and buffers\<close>

definition trimLeadingZeroes :: "bytes \<Rightarrow> bytes" where
  "trimLeadingZeroes b = dropWhile (\<lambda>x. x = 0) b"

definition bufferToBigInt :: "bytes \<Rightarrow> int" where
  "bufferToBigInt b =
     (let trimmed = trimLeadingZeroes b in
      if trimmed = [] then 0 else int (radix_value 16 (bytes_hex trimmed)))"

definition bigIntToBuffer :: "int \<Rightarrow> ssh_error + bytes" where
  "bigIntToBuffer v =
     (if v < 0 then Inl (KeyError NegativeInteger)
      else if v = 0 then Inr [0]
      else let hex = radix_string 16 (nat v);
               hex = (if odd (length hex) then 48 # hex else hex)
           in Inr (hex_bytes hex))"

definition stripVersionLineEnding :: "jsstring \<Rightarrow> jsstring" where
  "stripVersionLineEnding version = strip_line_end version"

section \<open>Fingerprints\<close>

definition base64_unit :: "nat \<Rightarrow> nat" where
  "base64_unit n =
     (if n < 26 then 65 + n else if n < 52 then 71 + n else if n < 62 then n - 4
      else if n = 62 then 43 else 47)"

text \<open>\<open>digest("base64")\<close> with its padding \<open>=\<close> (61).\<close>

fun base64 :: "bytes \<Rightarrow> jsstring" where
  "base64 [] = []"
| "base64 [a] = [base64_unit (unat a div 4), base64_unit (unat a mod 4 * 16), 61, 61]"
| "base64 [a, b] = [base64_unit (unat a div 4), base64_unit (unat a mod 4 * 16 + unat b div 16),
     base64_unit (unat b mod 16 * 4), 61]"
| "base64 (a # b # c # s) = [base64_unit (unat a div 4), base64_unit (unat a mod 4 * 16 + unat b div 16),
     base64_unit (unat b mod 16 * 4 + unat c div 64), base64_unit (unat c mod 64)] @ base64 s"

definition sha256Fingerprint :: "crypto \<Rightarrow> bytes \<Rightarrow> jsstring" where
  "sha256Fingerprint cr blob =
     js ''SHA256:'' @ rev (dropWhile (\<lambda>u. u = 61) (rev (base64 (cr_sha256 cr blob))))"

section \<open>Curve25519\<close>

definition SSH_MSG_KEX_ECDH_INIT :: int where "SSH_MSG_KEX_ECDH_INIT = 30"
definition SSH_MSG_KEX_ECDH_REPLY :: int where "SSH_MSG_KEX_ECDH_REPLY = 31"

record curve_reply =
  cu_hostKey :: bytes
  cu_serverPublicKey :: bytes
  cu_signature :: bytes

definition ensureX25519PublicKey :: "bytes \<Rightarrow> ssh_error + unit" where
  "ensureX25519PublicKey k = res_require (length k = 32) (KeyError X25519KeyLength)"

text \<open>\<open>generateKeyPairSync\<close> draws \<open>privateKey\<close>; the raw public key is checked to have 32 bytes.\<close>

definition createCurve25519ClientExchange :: "crypto \<Rightarrow> bytes \<Rightarrow> ssh_error + bytes" where
  "createCurve25519ClientExchange cr privateKey =
     res_bind (ensureX25519PublicKey (cr_x25519_public cr privateKey)) (\<lambda>_.
       Inr (cr_x25519_public cr privateKey))"

definition curve_computeSharedSecret :: "crypto \<Rightarrow> bytes \<Rightarrow> bytes \<Rightarrow> ssh_error + int" where
  "curve_computeSharedSecret cr privateKey serverPublicKey =
     res_bind (ensureX25519PublicKey serverPublicKey) (\<lambda>_.
     res_bind (cr_x25519_secret cr privateKey serverPublicKey) (\<lambda>s. Inr (bufferToBigInt s)))"

definition encodeCurve25519KexInit :: "bytes \<Rightarrow> ssh_error + bytes" where
  "encodeCurve25519KexInit publicKey =
     res_bind (ensureX25519PublicKey publicKey) (\<lambda>_.
       w_run [w_byte SSH_MSG_KEX_ECDH_INIT, w_buffer publicKey])"

definition decodeCurve25519KexReply :: "bytes \<Rightarrow> ssh_error + curve_reply" where
  "decodeCurve25519KexReply = read_all (op_bind (expectMessage SSH_MSG_KEX_ECDH_REPLY) (\<lambda>_.
     op_bind rd_string (\<lambda>hostKey. op_bind rd_string (\<lambda>serverPublicKey. op_bind rd_string (\<lambda>signature.
     op_bind (op_lift (ensureX25519PublicKey serverPublicKey)) (\<lambda>_.
     op_bind (ensureEof ''KEX_ECDH_REPLY'') (\<lambda>_.
       op_return \<lparr>cu_hostKey = hostKey, cu_serverPublicKey = serverPublicKey, cu_signature = signature\<rparr>)))))))"

record curve_hash_input =
  ch_clientVersion :: jsstring
  ch_serverVersion :: jsstring
  ch_clientKexInitPayload :: bytes
  ch_serverKexInitPayload :: bytes
  ch_serverHostKey :: bytes
  ch_clientPublicKey :: bytes
  ch_serverPublicKey :: bytes
  ch_sharedSecret :: int

definition curve_hash_material :: "curve_hash_input \<Rightarrow> ssh_error + bytes" where
  "curve_hash_material i =
     w_run [w_text (stripVersionLineEnding (ch_clientVersion i)), w_text (stripVersionLineEnding (ch_serverVersion i)),
       w_buffer (ch_clientKexInitPayload i), w_buffer (ch_serverKexInitPayload i), w_buffer (ch_serverHostKey i),
       w_buffer (ch_clientPublicKey i), w_buffer (ch_serverPublicKey i), w_mpint (ch_sharedSecret i)]"

definition computeCurve25519Sha256ExchangeHash :: "crypto \<Rightarrow> curve_hash_input \<Rightarrow> ssh_error + bytes" where
  "computeCurve25519Sha256ExchangeHash cr i =
     res_bind (curve_hash_material i) (\<lambda>material. Inr (cr_sha256 cr material))"

section \<open>Diffie-Hellman group 14\<close>

definition SSH_MSG_KEXDH_INIT :: int where "SSH_MSG_KEXDH_INIT = 30"
definition SSH_MSG_KEXDH_REPLY :: int where "SSH_MSG_KEXDH_REPLY = 31"

record dh_reply =
  dh_hostKey :: bytes
  dh_serverExchangeValue :: int
  dh_signature :: bytes

definition createGroup14Sha256ClientExchange :: "crypto \<Rightarrow> bytes \<Rightarrow> int" where
  "createGroup14Sha256ClientExchange cr privateKey = bufferToBigInt (cr_group14_public cr privateKey)"

definition group14_computeSharedSecret :: "crypto \<Rightarrow> bytes \<Rightarrow> int \<Rightarrow> ssh_error + int" where
  "group14_computeSharedSecret cr privateKey serverExchangeValue =
     res_bind (bigIntToBuffer serverExchangeValue) (\<lambda>v.
     res_bind (cr_group14_secret cr privateKey v) (\<lambda>s. Inr (bufferToBigInt s)))"

definition encodeKexDhInit :: "int \<Rightarrow> ssh_error + bytes" where
  "encodeKexDhInit exchangeValue = w_run [w_byte SSH_MSG_KEXDH_INIT, w_mpint exchangeValue]"

definition decodeKexDhReply :: "bytes \<Rightarrow> ssh_error + dh_reply" where
  "decodeKexDhReply = read_all (op_bind (expectMessage SSH_MSG_KEXDH_REPLY) (\<lambda>_.
     op_bind rd_string (\<lambda>hostKey. op_bind rd_mpint (\<lambda>value. op_bind rd_string (\<lambda>signature.
     op_bind (ensureEof ''KEXDH_REPLY'') (\<lambda>_.
       op_return \<lparr>dh_hostKey = hostKey, dh_serverExchangeValue = value, dh_signature = signature\<rparr>))))))"

record group14_hash_input =
  gh_clientVersion :: jsstring
  gh_serverVersion :: jsstring
  gh_clientKexInitPayload :: bytes
  gh_serverKexInitPayload :: bytes
  gh_serverHostKey :: bytes
  gh_clientExchangeValue :: int
  gh_serverExchangeValue :: int
  gh_sharedSecret :: int

definition group14_hash_material :: "group14_hash_input \<Rightarrow> ssh_error + bytes" where
  "group14_hash_material i =
     w_run [w_text (stripVersionLineEnding (gh_clientVersion i)), w_text (stripVersionLineEnding (gh_serverVersion i)),
       w_buffer (gh_clientKexInitPayload i), w_buffer (gh_serverKexInitPayload i), w_buffer (gh_serverHostKey i),
       w_mpint (gh_clientExchangeValue i), w_mpint (gh_serverExchangeValue i), w_mpint (gh_sharedSecret i)]"

definition computeGroup14Sha256ExchangeHash :: "crypto \<Rightarrow> group14_hash_input \<Rightarrow> ssh_error + bytes" where
  "computeGroup14Sha256ExchangeHash cr i =
     res_bind (group14_hash_material i) (\<lambda>material. Inr (cr_sha256 cr material))"

section \<open>Key derivation\<close>

record transport_keys =
  tk_initialIvClientToServer :: bytes
  tk_initialIvServerToClient :: bytes
  tk_encryptionKeyClientToServer :: bytes
  tk_encryptionKeyServerToClient :: bytes
  tk_integrityKeyClientToServer :: bytes
  tk_integrityKeyServerToClient :: bytes

record key_lengths =
  kl_ivLength :: nat
  kl_cipherKeyLength :: nat
  kl_macKeyLength :: nat

text \<open>
  The \<open>while\<close> loop of \<open>deriveKey\<close>.  A digest is never empty, so every round makes the output
  longer; the test for an empty digest is only there to make the recursion total.
\<close>

function derive_loop :: "(bytes \<Rightarrow> bytes) \<Rightarrow> bytes \<Rightarrow> nat \<Rightarrow> bytes \<Rightarrow> bytes" where
  "derive_loop h prefix n output =
     (if length output < n then
        (let nxt = h (prefix @ output) in
         if nxt = [] then output else derive_loop h prefix n (output @ nxt))
      else output)"
  by pat_completeness auto
termination
  by (relation "measure (\<lambda>(h, prefix, n, output). n - length output)") (auto simp: length_greater_0_conv [symmetric]
      simp del: length_greater_0_conv)

declare derive_loop.simps [simp del]

definition deriveKey :: "crypto \<Rightarrow> int \<Rightarrow> bytes \<Rightarrow> bytes \<Rightarrow> byte \<Rightarrow> nat \<Rightarrow> ssh_error + bytes" where
  "deriveKey cr sharedSecret exchangeHash sessionId letter requiredLength =
     (if requiredLength = 0 then Inr []
      else res_bind (w_run [w_mpint sharedSecret]) (\<lambda>blob.
        let output = cr_sha256 cr (blob @ exchangeHash @ [letter] @ sessionId) in
        Inr (take requiredLength (derive_loop (cr_sha256 cr) (blob @ exchangeHash) requiredLength output))))"

definition deriveDirectionalTransportKeys :: "crypto \<Rightarrow> int \<Rightarrow> bytes \<Rightarrow> bytes \<Rightarrow> key_lengths \<Rightarrow> key_lengths
    \<Rightarrow> ssh_error + transport_keys" where
  "deriveDirectionalTransportKeys cr k h sid clientToServer serverToClient =
     res_bind (deriveKey cr k h sid 65 (kl_ivLength clientToServer)) (\<lambda>a.
     res_bind (deriveKey cr k h sid 66 (kl_ivLength serverToClient)) (\<lambda>b.
     res_bind (deriveKey cr k h sid 67 (kl_cipherKeyLength clientToServer)) (\<lambda>c.
     res_bind (deriveKey cr k h sid 68 (kl_cipherKeyLength serverToClient)) (\<lambda>d.
     res_bind (deriveKey cr k h sid 69 (kl_macKeyLength clientToServer)) (\<lambda>e.
     res_bind (deriveKey cr k h sid 70 (kl_macKeyLength serverToClient)) (\<lambda>f.
       Inr \<lparr>tk_initialIvClientToServer = a, tk_initialIvServerToClient = b,
            tk_encryptionKeyClientToServer = c, tk_encryptionKeyServerToClient = d,
            tk_integrityKeyClientToServer = e, tk_integrityKeyServerToClient = f\<rparr>))))))"

definition deriveTransportKeys :: "crypto \<Rightarrow> int \<Rightarrow> bytes \<Rightarrow> bytes \<Rightarrow> key_lengths \<Rightarrow> ssh_error + transport_keys" where
  "deriveTransportKeys cr k h sid lengths = deriveDirectionalTransportKeys cr k h sid lengths lengths"

definition cipherKeyLength :: "jsstring \<Rightarrow> ssh_error + nat" where
  "cipherKeyLength c =
     (if c = js ''aes128-ctr'' then Inr 16
      else if c = js ''aes192-ctr'' then Inr 24
      else if c = js ''aes256-ctr'' then Inr 32
      else Inl (KeyError (UnsupportedCipher c)))"

definition macKeyLength :: "jsstring \<Rightarrow> ssh_error + nat" where
  "macKeyLength m =
     (if m = js ''hmac-sha2-256'' then Inr 32
      else if m = js ''hmac-sha2-512'' then Inr 64
      else Inl (KeyError (UnsupportedMac m)))"

definition transportKeyLengthsFor :: "jsstring \<Rightarrow> jsstring \<Rightarrow> ssh_error + key_lengths" where
  "transportKeyLengthsFor cipherName macName =
     res_bind (cipherKeyLength cipherName) (\<lambda>c. res_bind (macKeyLength macName) (\<lambda>m.
       Inr \<lparr>kl_ivLength = 16, kl_cipherKeyLength = c, kl_macKeyLength = m\<rparr>))"

section \<open>Host keys and signatures\<close>

definition is_rsa_name :: "jsstring \<Rightarrow> bool" where
  "is_rsa_name a \<longleftrightarrow> a = js ''ssh-rsa'' \<or> a = js ''rsa-sha2-256'' \<or> a = js ''rsa-sha2-512''"

record parsed_host_key =
  ph_algorithm :: jsstring
  ph_blob :: bytes
  ph_keyObject :: key_object

record parsed_signature =
  ps_algorithm :: jsstring
  ps_signature :: bytes

definition createPublicKey :: "crypto \<Rightarrow> key_object \<Rightarrow> ssh_error + key_object" where
  "createPublicKey cr k = (if cr_key_valid cr k then Inr k else Inl (KeyError NodeCryptoError))"

definition parseSshHostKeyBlob :: "crypto \<Rightarrow> bytes \<Rightarrow> ssh_error + parsed_host_key" where
  "parseSshHostKeyBlob cr blob = read_all (op_bind rd_utf8String (\<lambda>algorithm.
     if is_rsa_name algorithm then
       op_bind rd_mpint (\<lambda>exponent. op_bind rd_mpint (\<lambda>modulus. op_bind (ensureEof ''host key'') (\<lambda>_.
       op_bind (op_lift (createPublicKey cr (RsaKey exponent modulus))) (\<lambda>k.
         op_return \<lparr>ph_algorithm = algorithm, ph_blob = blob, ph_keyObject = k\<rparr>))))
     else if algorithm = js ''ssh-ed25519'' then
       op_bind rd_string (\<lambda>publicKey. op_bind (ensureEof ''host key'') (\<lambda>_.
       op_bind (op_require (length publicKey = 32) (KeyError Ed25519KeyLength)) (\<lambda>_.
       op_bind (op_lift (createPublicKey cr (Ed25519Key publicKey))) (\<lambda>k.
         op_return \<lparr>ph_algorithm = algorithm, ph_blob = blob, ph_keyObject = k\<rparr>))))
     else op_throw (KeyError (UnsupportedHostKeyAlgorithm algorithm)))) blob"

definition parseSshSignatureBlob :: "bytes \<Rightarrow> ssh_error + parsed_signature" where
  "parseSshSignatureBlob = read_all (op_bind rd_utf8String (\<lambda>algorithm. op_bind rd_string (\<lambda>signature.
     op_bind (ensureEof ''signature'') (\<lambda>_.
       op_return \<lparr>ps_algorithm = algorithm, ps_signature = signature\<rparr>))))"

definition isCompatibleSignatureAlgorithm :: "jsstring \<Rightarrow> jsstring \<Rightarrow> bool" where
  "isCompatibleSignatureAlgorithm hostKeyAlgorithm signatureAlgorithm =
     (if hostKeyAlgorithm = js ''ssh-ed25519'' then signatureAlgorithm = js ''ssh-ed25519''
      else is_rsa_name signatureAlgorithm)"

definition rsaHashForSignature :: "jsstring \<Rightarrow> ssh_error + signature_hash" where
  "rsaHashForSignature a =
     (if a = js ''ssh-rsa'' then Inr Sha1
      else if a = js ''rsa-sha2-256'' then Inr Sha256
      else if a = js ''rsa-sha2-512'' then Inr Sha512
      else Inl (KeyError (UnsupportedRsaSignature a)))"

definition verifySshSignature :: "crypto \<Rightarrow> bytes \<Rightarrow> bytes \<Rightarrow> bytes \<Rightarrow> ssh_error + bool" where
  "verifySshSignature cr hostKeyBlob dat signatureBlob =
     res_bind (parseSshHostKeyBlob cr hostKeyBlob) (\<lambda>hostKey.
     res_bind (parseSshSignatureBlob signatureBlob) (\<lambda>signature.
       if \<not> isCompatibleSignatureAlgorithm (ph_algorithm hostKey) (ps_algorithm signature) then Inr False
       else if ps_algorithm signature = js ''ssh-ed25519''
         then Inr (cr_verify cr NoHash dat (ph_keyObject hostKey) (ps_signature signature))
       else res_bind (rsaHashForSignature (ps_algorithm signature)) (\<lambda>h.
         Inr (cr_verify cr h dat (ph_keyObject hostKey) (ps_signature signature)))))"

definition encodeRsaPublicKeyBlob :: "int \<Rightarrow> int \<Rightarrow> jsstring option \<Rightarrow> ssh_error + bytes" where
  "encodeRsaPublicKeyBlob modulus exponent algorithm =
     w_run [w_text (or_else algorithm (js ''ssh-rsa'')), w_mpint exponent, w_mpint modulus]"

definition encodeEd25519PublicKeyBlob :: "bytes \<Rightarrow> ssh_error + bytes" where
  "encodeEd25519PublicKeyBlob publicKey =
     res_bind (res_require (length publicKey = 32) (KeyError Ed25519KeyLength)) (\<lambda>_.
       w_run [w_text (js ''ssh-ed25519''), w_buffer publicKey])"

definition encodeSshSignatureBlob :: "jsstring \<Rightarrow> bytes \<Rightarrow> ssh_error + bytes" where
  "encodeSshSignatureBlob algorithm signature = w_run [w_text algorithm, w_buffer signature]"

definition leftPad :: "bytes \<Rightarrow> nat \<Rightarrow> ssh_error + bytes" where
  "leftPad v n =
     (if length v > n then Inl (KeyError CoordinateTooLong)
      else Inr (if length v = n then v else replicate (n - length v) 0 @ v))"

section \<open>Numbers and buffers: lemmas\<close>

lemma bufferToBigInt_value: "bufferToBigInt b = be_value b"
proof -
  have "be_value (dropWhile (\<lambda>x. x = 0) b) = be_value b"
    by (induction b) (auto simp: be_value_zero)
  moreover have "(if t = [] then 0 else int (radix_value 16 (bytes_hex t))) = be_value t" for t
    by (simp add: hex_value_be)
  ultimately show ?thesis by (simp only: bufferToBigInt_def trimLeadingZeroes_def Let_def)
qed

lemma bigIntToBuffer_eq: "bigIntToBuffer v = (if v < 0 then Inl (KeyError NegativeInteger)
    else Inr (be_bytes (nat v)))"
proof -
  have "be_bytes 0 = [0]" by (simp add: be_bytes.simps byte_of_def)
  then show ?thesis
    using hex_bytes_padded [of "nat v"] by (auto simp: bigIntToBuffer_def padded_hex_def Let_def)
qed

section \<open>Fingerprints: lemmas\<close>

lemma base64_unit_inj: "m < 64 \<Longrightarrow> n < 64 \<Longrightarrow> base64_unit m = base64_unit n \<longleftrightarrow> m = n"
  by (auto simp: base64_unit_def split: if_splits)

lemma base64_unit_pad [simp]: "n < 64 \<Longrightarrow> base64_unit n \<noteq> 61"
  by (auto simp: base64_unit_def)

lemma digit_pair_inj:
  fixes k m m' r r' :: nat
  assumes "m * k + r = m' * k + r'" "r < k" "r' < k"
  shows "m = m' \<and> r = r'"
proof -
  have "(m * k + r) mod k = r" "(m' * k + r') mod k = r'" using assms(2,3) by simp_all
  then have "r = r'" using assms(1) by simp
  then show ?thesis using assms by simp
qed

lemma sextets_inj:
  fixes a b c a' b' c' :: nat
  assumes bd: "a < 256" "b < 256" "c < 256" "a' < 256" "b' < 256" "c' < 256"
    and e: "a div 4 = a' div 4" "a mod 4 * 16 + b div 16 = a' mod 4 * 16 + b' div 16"
      "b mod 16 * 4 + c div 64 = b' mod 16 * 4 + c' div 64" "c mod 64 = c' mod 64"
  shows "a = a' \<and> b = b' \<and> c = c'"
proof -
  have "a mod 4 = a' mod 4 \<and> b div 16 = b' div 16"
    using bd by (intro digit_pair_inj [OF e(2)]) simp_all
  moreover have "b mod 16 = b' mod 16 \<and> c div 64 = c' div 64"
    using bd by (intro digit_pair_inj [OF e(3)]) simp_all
  ultimately show ?thesis
    using e(1,4) by (metis div_mult_mod_eq)
qed

lemma sextet_bounds:
  fixes a b c :: nat
  assumes "a < 256" "b < 256" "c < 256"
  shows "a div 4 < 64" "a mod 4 * 16 + b div 16 < 64" "b mod 16 * 4 + c div 64 < 64" "c mod 64 < 64"
    "a mod 4 * 16 < 64" "b mod 16 * 4 < 64"
proof -
  have "a mod 4 \<le> 3" "b mod 16 \<le> 15" "b div 16 \<le> 15" "c div 64 \<le> 3" "a div 4 \<le> 63"
    using assms less_Suc_eq_le [of "a mod 4" 3] less_Suc_eq_le [of "b mod 16" 15]
      less_Suc_eq_le [of "b div 16" 15] less_Suc_eq_le [of "c div 64" 3] less_Suc_eq_le [of "a div 4" 63]
    by simp_all
  then show "a div 4 < 64" "a mod 4 * 16 + b div 16 < 64" "b mod 16 * 4 + c div 64 < 64" "c mod 64 < 64"
    "a mod 4 * 16 < 64" "b mod 16 * 4 < 64"
    by simp_all
qed

lemmas byte_sextets = sextet_bounds [OF unat_byte_bounds unat_byte_bounds unat_byte_bounds]

lemma byte_unat_eq: "unat (a :: byte) = unat b \<longleftrightarrow> a = b"
  by (metis byte_of_unat)

lemma base64_inj: "length x = length y \<Longrightarrow> base64 x = base64 y \<Longrightarrow> x = y"
proof (induction x arbitrary: y rule: base64.induct)
  case 1
  then show ?case by simp
next
  case (2 a)
  then obtain a' where y: "y = [a']" by (metis length_0_conv length_Suc_conv list.size(3,4))
  have "unat a = unat a' \<and> (0 :: nat) = 0 \<and> (0 :: nat) = 0"
    using 2(2) by (intro sextets_inj) (simp_all add: y base64_unit_inj byte_sextets)
  then show ?case by (simp add: y byte_unat_eq)
next
  case (3 a b)
  obtain a' b' where y: "y = [a', b']" using 3(1) [symmetric] by (auto simp: length_Suc_conv)
  have e: "base64_unit (unat a div 4) = base64_unit (unat a' div 4)"
    "base64_unit (unat a mod 4 * 16 + unat b div 16) = base64_unit (unat a' mod 4 * 16 + unat b' div 16)"
    "base64_unit (unat b mod 16 * 4) = base64_unit (unat b' mod 16 * 4)"
    using 3(2) unfolding y base64.simps by simp_all
  note e = e [unfolded base64_unit_inj [OF byte_sextets(1) byte_sextets(1)]
      base64_unit_inj [OF byte_sextets(2) byte_sextets(2)] base64_unit_inj [OF byte_sextets(6) byte_sextets(6)]]
  have "unat a = unat a' \<and> unat b = unat b' \<and> (0 :: nat) = 0"
    by (rule sextets_inj) (simp_all only: e unat_byte_bounds zero_less_numeral)
  then show ?case by (simp add: y byte_unat_eq)
next
  case (4 a b c s)
  obtain a' b' c' s' where y: "y = a' # b' # c' # s'"
    using 4(2) [symmetric] by (auto simp: length_Suc_conv)
  have e: "base64_unit (unat a div 4) = base64_unit (unat a' div 4)"
    "base64_unit (unat a mod 4 * 16 + unat b div 16) = base64_unit (unat a' mod 4 * 16 + unat b' div 16)"
    "base64_unit (unat b mod 16 * 4 + unat c div 64) = base64_unit (unat b' mod 16 * 4 + unat c' div 64)"
    "base64_unit (unat c mod 64) = base64_unit (unat c' mod 64)" and t: "base64 s = base64 s'"
    using 4(3) unfolding y base64.simps by simp_all
  note e = e [unfolded base64_unit_inj [OF byte_sextets(1) byte_sextets(1)]
      base64_unit_inj [OF byte_sextets(2) byte_sextets(2)] base64_unit_inj [OF byte_sextets(3) byte_sextets(3)]
      base64_unit_inj [OF byte_sextets(4) byte_sextets(4)]]
  have "unat a = unat a' \<and> unat b = unat b' \<and> unat c = unat c'"
    by (rule sextets_inj) (simp_all only: e unat_byte_bounds)
  moreover have "length s = length s'" using 4(2) by (simp add: y)
  then have "s = s'" using 4(1) t by blast
  ultimately show ?case by (simp add: y byte_unat_eq)
qed

lemma base64_padding:
  "\<exists>core. base64 x = core @ replicate ((3 - length x mod 3) mod 3) 61 \<and> 61 \<notin> set core"
proof (induction x rule: base64.induct)
  case 1
  show ?case by simp
next
  case (2 a)
  show ?case
    by (rule exI [of _ "[base64_unit (unat a div 4), base64_unit (unat a mod 4 * 16)]"])
      (simp add: numeral_2_eq_2 byte_sextets(1,5) eq_commute [of 61])
next
  case (3 a b)
  show ?case
    by (rule exI [of _ "[base64_unit (unat a div 4), base64_unit (unat a mod 4 * 16 + unat b div 16),
         base64_unit (unat b mod 16 * 4)]"])
      (simp add: byte_sextets(1,2,6) eq_commute [of 61])
next
  case (4 a b c s)
  then obtain core where c: "base64 s = core @ replicate ((3 - length s mod 3) mod 3) 61" "61 \<notin> set core" by blast
  have "length (a # b # c # s) = length s + 3" by simp
  then have "length (a # b # c # s) mod 3 = length s mod 3" by (simp only: mod_add_self2)
  then show ?case unfolding \<open>length (a # b # c # s) mod 3 = length s mod 3\<close> using c
    by (intro exI [of _ "take 4 (base64 (a # b # c # s)) @ core"])
      (simp add: byte_sextets(1-4) eq_commute [of 61])
qed

lemma strip_padding: "61 \<notin> set core \<Longrightarrow> rev (dropWhile (\<lambda>u. u = 61) (rev (core @ replicate n 61))) = core"
proof -
  assume a: "61 \<notin> set core"
  have "dropWhile (\<lambda>u. u = 61) (replicate n 61 @ rev core) = dropWhile (\<lambda>u. u = 61) (rev core)"
    by (induction n) auto
  also have "\<dots> = rev core" using a by (intro dropWhile_none) auto
  finally show ?thesis by simp
qed

definition digest_ok :: "crypto \<Rightarrow> bool" where
  "digest_ok cr \<longleftrightarrow> (\<forall>x. length (cr_sha256 cr x) = 32)"

section \<open>What a successful chain wrote\<close>

lemma w_buffer_iff: "w_buffer b w = Inr w' \<longleftrightarrow> buffer_ok b \<and> w' = w @ [enc_uint32 (int (length b)), b]"
  by (auto simp: w_buffer_def w_uint32_eq_Inr buffer_ok_uint32)

lemma w_text_iff: "w_text s w = Inr w' \<longleftrightarrow> buffer_ok (utf8_encode s) \<and>
    w' = w @ [enc_uint32 (int (length (utf8_encode s))), utf8_encode s]"
  by (simp add: w_text_def w_buffer_iff)

lemma w_mpint_iff: "w_mpint v w = Inr w' \<longleftrightarrow> mpint_ok v \<and>
    w' = w @ [enc_uint32 (int (length (if v = 0 then [] else mpint_bytes (nat v)))), if v = 0 then [] else mpint_bytes (nat v)]"
  by (auto simp: w_mpint_def w_buffer_iff mpint_ok_def)

lemma w_byte_iff: "w_byte n w = Inr w' \<longleftrightarrow> w' = w @ [enc_byte n]"
  by (auto simp: w_byte_def)

lemmas writer_iffs = w_byte_iff w_uint32_eq_Inr w_buffer_iff w_text_iff w_mpint_iff

lemma curve_hash_material_iff:
  "curve_hash_material i = Inr m \<longleftrightarrow>
     buffer_ok (utf8_encode (strip_line_end (ch_clientVersion i))) \<and>
     buffer_ok (utf8_encode (strip_line_end (ch_serverVersion i))) \<and>
     buffer_ok (ch_clientKexInitPayload i) \<and> buffer_ok (ch_serverKexInitPayload i) \<and> buffer_ok (ch_serverHostKey i) \<and>
     buffer_ok (ch_clientPublicKey i) \<and> buffer_ok (ch_serverPublicKey i) \<and> mpint_ok (ch_sharedSecret i) \<and>
     m = enc_buffer (utf8_encode (strip_line_end (ch_clientVersion i))) @
       enc_buffer (utf8_encode (strip_line_end (ch_serverVersion i))) @ enc_buffer (ch_clientKexInitPayload i) @
       enc_buffer (ch_serverKexInitPayload i) @ enc_buffer (ch_serverHostKey i) @ enc_buffer (ch_clientPublicKey i) @
       enc_buffer (ch_serverPublicKey i) @ enc_mpint (ch_sharedSecret i)"
  unfolding curve_hash_material_def stripVersionLineEnding_def w_run_def w_toBuffer_def w_chain.simps
  by (simp add: writer_iffs enc_buffer_fold enc_mpint_fold del: if_split) (auto simp: enc_mpint_def enc_buffer_def)

lemma group14_hash_material_iff:
  "group14_hash_material i = Inr m \<longleftrightarrow>
     buffer_ok (utf8_encode (strip_line_end (gh_clientVersion i))) \<and>
     buffer_ok (utf8_encode (strip_line_end (gh_serverVersion i))) \<and>
     buffer_ok (gh_clientKexInitPayload i) \<and> buffer_ok (gh_serverKexInitPayload i) \<and> buffer_ok (gh_serverHostKey i) \<and>
     mpint_ok (gh_clientExchangeValue i) \<and> mpint_ok (gh_serverExchangeValue i) \<and> mpint_ok (gh_sharedSecret i) \<and>
     m = enc_buffer (utf8_encode (strip_line_end (gh_clientVersion i))) @
       enc_buffer (utf8_encode (strip_line_end (gh_serverVersion i))) @ enc_buffer (gh_clientKexInitPayload i) @
       enc_buffer (gh_serverKexInitPayload i) @ enc_buffer (gh_serverHostKey i) @ enc_mpint (gh_clientExchangeValue i) @
       enc_mpint (gh_serverExchangeValue i) @ enc_mpint (gh_sharedSecret i)"
  unfolding group14_hash_material_def stripVersionLineEnding_def w_run_def w_toBuffer_def w_chain.simps
  by (simp add: writer_iffs enc_buffer_fold enc_mpint_fold del: if_split) (auto simp: enc_mpint_def enc_buffer_def)

lemma utf8_encode_inj: "wf_utf16 s \<Longrightarrow> wf_utf16 t \<Longrightarrow> utf8_encode s = utf8_encode t \<longleftrightarrow> s = t"
  by (metis utf8_decode_encode)

lemma buffer_step: "buffer_ok a \<Longrightarrow> buffer_ok b \<Longrightarrow> enc_buffer a @ s = enc_buffer b @ t \<longleftrightarrow> a = b \<and> s = t"
  using buffer_codec.prefix_free [of a b s t] by auto

lemma mpint_step: "mpint_ok a \<Longrightarrow> mpint_ok b \<Longrightarrow> enc_mpint a @ s = enc_mpint b @ t \<longleftrightarrow> a = b \<and> s = t"
  using mpint_codec.prefix_free [of a b s t] by auto

lemma mpint_last: "mpint_ok a \<Longrightarrow> mpint_ok b \<Longrightarrow> enc_mpint a = enc_mpint b \<longleftrightarrow> a = b"
  using mpint_step [of a b "[]" "[]"] by simp

section \<open>Key derivation: the specification\<close>

text \<open>RFC 4253, 7.2: the concatenation of the first \<open>n + 1\<close> digests; each further one hashes all before it.\<close>

fun rfc_blocks :: "(bytes \<Rightarrow> bytes) \<Rightarrow> bytes \<Rightarrow> bytes \<Rightarrow> nat \<Rightarrow> bytes" where
  "rfc_blocks h prefix k1 0 = k1"
| "rfc_blocks h prefix k1 (Suc n) = (let blocks = rfc_blocks h prefix k1 n in blocks @ h (prefix @ blocks))"

lemma rfc_blocks_extend: "\<exists>t. rfc_blocks h p k1 (m + n) = rfc_blocks h p k1 m @ t"
  by (induction n) (auto simp: Let_def)

lemma take_rfc_blocks:
  "k \<le> length (rfc_blocks h p k1 m) \<Longrightarrow> k \<le> length (rfc_blocks h p k1 n) \<Longrightarrow>
     take k (rfc_blocks h p k1 m) = take k (rfc_blocks h p k1 n)"
proof (induction m n rule: linorder_wlog)
  case (le m n)
  then show ?case using rfc_blocks_extend [of h p k1 m "n - m"] by auto
next
  case (sym m n)
  then show ?case by simp
qed

lemma length_rfc_blocks:
  assumes "\<And>x. length (h x) = 32"
  shows "length (rfc_blocks h p (h y) n) = 32 * (n + 1)"
  by (induction n) (simp_all add: assms Let_def)

lemma derive_loop_blocks:
  assumes h: "\<And>x. length (h x) = 32"
  shows "\<exists>j. derive_loop h p n (rfc_blocks h p (h y) i) = rfc_blocks h p (h y) j \<and> n \<le> 32 * (j + 1)"
proof (induction "n - 32 * (i + 1)" arbitrary: i rule: less_induct)
  case less
  let ?b = "rfc_blocks h p (h y) i"
  show ?case
  proof (cases "32 * (i + 1) < n")
    case True
    have ne: "h (p @ ?b) \<noteq> []" using h [of "p @ ?b"] by auto
    have "derive_loop h p n ?b = derive_loop h p n (rfc_blocks h p (h y) (Suc i))"
      using True ne by (subst derive_loop.simps) (simp add: length_rfc_blocks [of h, OF h] Let_def)
    then show ?thesis using less [of "Suc i"] True by simp
  next
    case False
    then have "derive_loop h p n ?b = ?b"
      by (subst derive_loop.simps) (simp add: length_rfc_blocks [of h, OF h])
    then show ?thesis using False by (intro exI [of _ i]) simp
  qed
qed

section \<open>The properties\<close>

text \<open>The Curve25519 exchange hash, which the host key signs, is computed from an unambiguous
  encoding: two exchanges with the same hashed material agree in both version lines (up to the line
  end), both KEXINIT payloads, the host key, both public keys and the shared secret.\<close>

theorem curve_exchange_hash_binds:
  assumes "curve_hash_material i = Inr m" and "curve_hash_material j = Inr m"
    and "wf_utf16 (strip_line_end (ch_clientVersion i))" "wf_utf16 (strip_line_end (ch_serverVersion i))"
    and "wf_utf16 (strip_line_end (ch_clientVersion j))" "wf_utf16 (strip_line_end (ch_serverVersion j))"
  shows "strip_line_end (ch_clientVersion i) = strip_line_end (ch_clientVersion j) \<and>
    strip_line_end (ch_serverVersion i) = strip_line_end (ch_serverVersion j) \<and>
    ch_clientKexInitPayload i = ch_clientKexInitPayload j \<and>
    ch_serverKexInitPayload i = ch_serverKexInitPayload j \<and> ch_serverHostKey i = ch_serverHostKey j \<and>
    ch_clientPublicKey i = ch_clientPublicKey j \<and> ch_serverPublicKey i = ch_serverPublicKey j \<and>
    ch_sharedSecret i = ch_sharedSecret j"
proof -
  note I = assms(1) [unfolded curve_hash_material_iff] and J = assms(2) [unfolded curve_hash_material_iff]
  have v: "utf8_encode (strip_line_end (ch_clientVersion i)) = utf8_encode (strip_line_end (ch_clientVersion j)) \<and>
    utf8_encode (strip_line_end (ch_serverVersion i)) = utf8_encode (strip_line_end (ch_serverVersion j)) \<and>
    ch_clientKexInitPayload i = ch_clientKexInitPayload j \<and>
    ch_serverKexInitPayload i = ch_serverKexInitPayload j \<and> ch_serverHostKey i = ch_serverHostKey j \<and>
    ch_clientPublicKey i = ch_clientPublicKey j \<and> ch_serverPublicKey i = ch_serverPublicKey j \<and>
    ch_sharedSecret i = ch_sharedSecret j"
    using I J by (elim conjE) (simp add: buffer_step mpint_step mpint_last)
  then show ?thesis using assms(3-6) by (simp add: utf8_encode_inj)
qed

lemma strip_example:
  "strip_line_end [83] = [83]" "strip_line_end [84] = [84]" "strip_line_end [84, 13, 10] = [84]"
  by (simp_all add: strip_line_end_def ends_with_def)

lemma example_mpint_ok: "mpint_ok 4" "mpint_ok 5" "mpint_ok 200" "mpint_ok 300"
  by (simp_all add: mpint_ok_def buffer_ok_def mpint_bytes_alt be_bytes.simps)

lemma curve_exchange_hash_binds_witness:
  "\<exists>m i j. curve_hash_material i = Inr m \<and> curve_hash_material j = Inr m \<and>
     ch_serverVersion i \<noteq> ch_serverVersion j \<and> ch_serverHostKey i = ch_serverHostKey j"
proof -
  let ?i = "\<lparr>ch_clientVersion = [83], ch_serverVersion = [84, 13, 10], ch_clientKexInitPayload = [1],
    ch_serverKexInitPayload = [2], ch_serverHostKey = [3], ch_clientPublicKey = [4], ch_serverPublicKey = [5],
    ch_sharedSecret = 200\<rparr>"
  let ?j = "?i\<lparr>ch_serverVersion := [84]\<rparr>"
  let ?m = "enc_buffer (utf8_encode [83]) @ enc_buffer (utf8_encode [84]) @ enc_buffer [1] @ enc_buffer [2] @
    enc_buffer [3] @ enc_buffer [4] @ enc_buffer [5] @ enc_mpint 200"
  have i: "curve_hash_material ?i = Inr ?m" and j: "curve_hash_material ?j = Inr ?m"
    unfolding curve_hash_material_iff by (simp_all add: strip_example buffer_ok_def example_mpint_ok length_utf8_unit)
  have "wf_utf16 (strip_line_end (ch_clientVersion ?i))" "wf_utf16 (strip_line_end (ch_serverVersion ?i))"
    "wf_utf16 (strip_line_end (ch_clientVersion ?j))" "wf_utf16 (strip_line_end (ch_serverVersion ?j))"
    by (simp_all add: strip_example is_high_def is_low_def)
  from curve_exchange_hash_binds [OF i j this] have "ch_serverHostKey ?i = ch_serverHostKey ?j" by blast
  moreover have "ch_serverVersion ?i \<noteq> ch_serverVersion ?j" by simp
  ultimately show ?thesis using i j by blast
qed

text \<open>The same for the group 14 exchange: equal hashed material means equal version lines, KEXINIT
  payloads, host key, exchange values and shared secret.\<close>

theorem group14_exchange_hash_binds:
  assumes "group14_hash_material i = Inr m" and "group14_hash_material j = Inr m"
    and "wf_utf16 (strip_line_end (gh_clientVersion i))" "wf_utf16 (strip_line_end (gh_serverVersion i))"
    and "wf_utf16 (strip_line_end (gh_clientVersion j))" "wf_utf16 (strip_line_end (gh_serverVersion j))"
  shows "strip_line_end (gh_clientVersion i) = strip_line_end (gh_clientVersion j) \<and>
    strip_line_end (gh_serverVersion i) = strip_line_end (gh_serverVersion j) \<and>
    gh_clientKexInitPayload i = gh_clientKexInitPayload j \<and>
    gh_serverKexInitPayload i = gh_serverKexInitPayload j \<and> gh_serverHostKey i = gh_serverHostKey j \<and>
    gh_clientExchangeValue i = gh_clientExchangeValue j \<and> gh_serverExchangeValue i = gh_serverExchangeValue j \<and>
    gh_sharedSecret i = gh_sharedSecret j"
proof -
  note I = assms(1) [unfolded group14_hash_material_iff] and J = assms(2) [unfolded group14_hash_material_iff]
  have v: "utf8_encode (strip_line_end (gh_clientVersion i)) = utf8_encode (strip_line_end (gh_clientVersion j)) \<and>
    utf8_encode (strip_line_end (gh_serverVersion i)) = utf8_encode (strip_line_end (gh_serverVersion j)) \<and>
    gh_clientKexInitPayload i = gh_clientKexInitPayload j \<and>
    gh_serverKexInitPayload i = gh_serverKexInitPayload j \<and> gh_serverHostKey i = gh_serverHostKey j \<and>
    gh_clientExchangeValue i = gh_clientExchangeValue j \<and> gh_serverExchangeValue i = gh_serverExchangeValue j \<and>
    gh_sharedSecret i = gh_sharedSecret j"
    using I J by (elim conjE) (simp add: buffer_step mpint_step mpint_last)
  then show ?thesis using assms(3-6) by (simp add: utf8_encode_inj)
qed

lemma group14_exchange_hash_binds_witness:
  "\<exists>m i j. group14_hash_material i = Inr m \<and> group14_hash_material j = Inr m \<and>
     gh_serverVersion i \<noteq> gh_serverVersion j \<and> gh_sharedSecret i = gh_sharedSecret j"
proof -
  let ?i = "\<lparr>gh_clientVersion = [83], gh_serverVersion = [84, 13, 10], gh_clientKexInitPayload = [1],
    gh_serverKexInitPayload = [2], gh_serverHostKey = [3], gh_clientExchangeValue = 4, gh_serverExchangeValue = 5,
    gh_sharedSecret = 200\<rparr>"
  let ?j = "?i\<lparr>gh_serverVersion := [84]\<rparr>"
  let ?m = "enc_buffer (utf8_encode [83]) @ enc_buffer (utf8_encode [84]) @ enc_buffer [1] @ enc_buffer [2] @
    enc_buffer [3] @ enc_mpint 4 @ enc_mpint 5 @ enc_mpint 200"
  have i: "group14_hash_material ?i = Inr ?m" and j: "group14_hash_material ?j = Inr ?m"
    unfolding group14_hash_material_iff by (simp_all add: strip_example buffer_ok_def example_mpint_ok length_utf8_unit)
  have "wf_utf16 (strip_line_end (gh_clientVersion ?i))" "wf_utf16 (strip_line_end (gh_serverVersion ?i))"
    "wf_utf16 (strip_line_end (gh_clientVersion ?j))" "wf_utf16 (strip_line_end (gh_serverVersion ?j))"
    by (simp_all add: strip_example is_high_def is_low_def)
  from group14_exchange_hash_binds [OF i j this] have "gh_sharedSecret ?i = gh_sharedSecret ?j" by blast
  moreover have "gh_serverVersion ?i \<noteq> gh_serverVersion ?j" by simp
  ultimately show ?thesis using i j by blast
qed

text \<open>
  Concrete parameters for the witnesses: a digest that sums up the length of its input, an exchange
  that copies keys, and a signature that is the data.
\<close>

definition example_crypto :: crypto where
  "example_crypto = \<lparr>cr_sha256 = (\<lambda>b. replicate 31 9 @ [byte_of (length b)]),
     cr_x25519_public = (\<lambda>k. take 32 (k @ replicate 32 0)),
     cr_x25519_secret = (\<lambda>k p. Inr (k @ p)),
     cr_group14_public = (\<lambda>k. k), cr_group14_secret = (\<lambda>k p. Inr (k @ p)),
     cr_key_valid = (\<lambda>k. True), cr_verify = (\<lambda>h d k s. s = d)\<rparr>"

lemma example_verify: "cr_verify example_crypto h d k s \<longleftrightarrow> s = d"
  by (simp add: example_crypto_def)

lemma example_digest_ok: "digest_ok example_crypto"
  by (simp add: digest_ok_def example_crypto_def)

lemma deriveKey_blocks:
  assumes "digest_ok cr" and "mpint_ok secret" and "n \<le> 32 * (i + 1)"
  shows "\<exists>key. deriveKey cr secret H sid letter n = Inr key \<and> length key = n \<and>
    key = take n (rfc_blocks (cr_sha256 cr) (enc_mpint secret @ H)
      (cr_sha256 cr (enc_mpint secret @ H @ [letter] @ sid)) i)"
proof (cases "n = 0")
  case True
  then show ?thesis by (simp add: deriveKey_def)
next
  case False
  let ?h = "cr_sha256 cr" and ?p = "enc_mpint secret @ H"
  let ?y = "enc_mpint secret @ H @ [letter] @ sid"
  have h: "\<And>x. length (?h x) = 32" using assms(1) by (simp add: digest_ok_def)
  obtain j where j: "derive_loop ?h ?p n (rfc_blocks ?h ?p (?h ?y) 0) = rfc_blocks ?h ?p (?h ?y) j"
    "n \<le> 32 * (j + 1)"
    using derive_loop_blocks [of ?h, OF h, of ?p n ?y 0] by blast
  have "w_run [w_mpint secret] = Inr (enc_mpint secret)"
    using assms(2) by (simp add: writer_simps)
  then have "deriveKey cr secret H sid letter n = Inr (take n (rfc_blocks ?h ?p (?h ?y) j))"
    using False j(1) by (simp add: deriveKey_def)
  moreover have "take n (rfc_blocks ?h ?p (?h ?y) j) = take n (rfc_blocks ?h ?p (?h ?y) i)"
    using j(2) assms(3) by (intro take_rfc_blocks) (simp_all add: length_rfc_blocks [of ?h, OF h])
  moreover have "length (rfc_blocks ?h ?p (?h ?y) i) = 32 * (i + 1)" by (rule length_rfc_blocks) (rule h)
  ultimately show ?thesis using assms(3) by simp
qed

text \<open>C11: \<open>deriveKey\<close> implements the key derivation of RFC 4253: for every requested length its loop
  ends with exactly that many bytes, the leading bytes of the concatenated digests
  \<open>K1 = HASH(K || H || letter || session id)\<close>, \<open>K(i+1) = HASH(K || H || K1 || .. || Ki)\<close>.\<close>

theorem derive_key_rfc:
  assumes "digest_ok cr" and "mpint_ok secret" and "n \<le> 32 * (i + 1)"
  shows "\<exists>key. deriveKey cr secret H sid letter n = Inr key \<and> length key = n \<and>
    key = take n (rfc_blocks (cr_sha256 cr) (enc_mpint secret @ H)
      (cr_sha256 cr (enc_mpint secret @ H @ [letter] @ sid)) i)"
  by (rule deriveKey_blocks [OF assms])

lemma derive_key_rfc_witness:
  "\<exists>key. deriveKey example_crypto 300 [1, 2] [3] 67 40 = Inr key \<and> length key = 40"
proof -
  from derive_key_rfc [OF example_digest_ok example_mpint_ok(4), of 40 1 "[1, 2]" "[3]" 67] show ?thesis by auto
qed

text \<open>Two host keys have the same fingerprint exactly when their SHA-256 digests are equal: the
  base64 text loses nothing, although its padding is cut off.\<close>

theorem fingerprint_faithful:
  assumes "digest_ok cr"
  shows "sha256Fingerprint cr a = sha256Fingerprint cr b \<longleftrightarrow> cr_sha256 cr a = cr_sha256 cr b"
proof -
  let ?x = "cr_sha256 cr a" and ?y = "cr_sha256 cr b"
  have len: "length ?x = 32" "length ?y = 32" using assms by (simp_all add: digest_ok_def)
  obtain c where c: "base64 ?x = c @ replicate ((3 - 32 mod 3) mod 3) 61" "61 \<notin> set c"
    using base64_padding [of ?x] len by auto
  obtain d where d: "base64 ?y = d @ replicate ((3 - 32 mod 3) mod 3) 61" "61 \<notin> set d"
    using base64_padding [of ?y] len by auto
  have "sha256Fingerprint cr a = js ''SHA256:'' @ c" "sha256Fingerprint cr b = js ''SHA256:'' @ d"
    unfolding sha256Fingerprint_def c(1) d(1) strip_padding [OF c(2)] strip_padding [OF d(2)] by simp_all
  then have "sha256Fingerprint cr a = sha256Fingerprint cr b \<longleftrightarrow> base64 ?x = base64 ?y"
    using c d by simp
  then show ?thesis using base64_inj [of ?x ?y] len by auto
qed

lemma fingerprint_faithful_witness:
  "sha256Fingerprint example_crypto [1] \<noteq> sha256Fingerprint example_crypto [1, 2]"
  unfolding fingerprint_faithful [OF example_digest_ok] by (simp add: example_crypto_def byte_of_def)

text \<open>\<open>verifySshSignature\<close> says yes only if the host key blob and the signature blob parse, the
  signature's algorithm fits the key's, and the primitive verifies the signature over the data with
  the hash of that algorithm: no other combination is accepted.\<close>

theorem verify_signature_sound:
  assumes "verifySshSignature cr hostKey dat sig = Inr True"
  shows "\<exists>k s h. parseSshHostKeyBlob cr hostKey = Inr k \<and> parseSshSignatureBlob sig = Inr s \<and>
    cr_verify cr h dat (ph_keyObject k) (ps_signature s) \<and>
    ((ph_algorithm k = js ''ssh-ed25519'' \<and> ps_algorithm s = js ''ssh-ed25519'' \<and> h = NoHash \<and>
        (\<exists>pk. ph_keyObject k = Ed25519Key pk \<and> length pk = 32)) \<or>
     (is_rsa_name (ph_algorithm k) \<and> (\<exists>e n. ph_keyObject k = RsaKey e n) \<and>
        rsaHashForSignature (ps_algorithm s) = Inr h))"
proof -
  obtain k s where k: "parseSshHostKeyBlob cr hostKey = Inr k" and s: "parseSshSignatureBlob sig = Inr s"
    and c: "isCompatibleSignatureAlgorithm (ph_algorithm k) (ps_algorithm s)"
    and v: "(if ps_algorithm s = js ''ssh-ed25519'' then Inr (cr_verify cr NoHash dat (ph_keyObject k) (ps_signature s))
       else res_bind (rsaHashForSignature (ps_algorithm s)) (\<lambda>h.
         Inr (cr_verify cr h dat (ph_keyObject k) (ps_signature s)))) = Inr True"
    using assms by (auto simp: verifySshSignature_def simp del: js_simps split: if_splits)
  have kinds: "(ph_algorithm k = js ''ssh-ed25519'' \<and> (\<exists>pk. ph_keyObject k = Ed25519Key pk \<and> length pk = 32)) \<or>
      (is_rsa_name (ph_algorithm k) \<and> (\<exists>e n. ph_keyObject k = RsaKey e n))"
    using k unfolding parseSshHostKeyBlob_def read_all_iff
    by (auto simp: op_defs createPublicKey_def simp del: js_simps split: prod.splits sum.splits if_splits)
  have d: "js ''ssh-rsa'' \<noteq> js ''ssh-ed25519''" "js ''rsa-sha2-256'' \<noteq> js ''ssh-ed25519''"
    "js ''rsa-sha2-512'' \<noteq> js ''ssh-ed25519''"
    by code_simp+
  show ?thesis
  proof (cases "ph_algorithm k = js ''ssh-ed25519''")
    case True
    then have "ps_algorithm s = js ''ssh-ed25519''" using c by (simp add: isCompatibleSignatureAlgorithm_def del: js_simps)
    moreover have "\<not> is_rsa_name (ph_algorithm k)" using True d by (simp add: is_rsa_name_def del: js_simps)
    ultimately show ?thesis using True k s v kinds by (auto simp del: js_simps)
  next
    case False
    then have r: "is_rsa_name (ps_algorithm s)" using c by (simp add: isCompatibleSignatureAlgorithm_def del: js_simps)
    then have "ps_algorithm s \<noteq> js ''ssh-ed25519''" using d by (auto simp: is_rsa_name_def simp del: js_simps)
    then obtain h where "rsaHashForSignature (ps_algorithm s) = Inr h"
      "cr_verify cr h dat (ph_keyObject k) (ps_signature s)"
      using v by (auto simp del: js_simps)
    then show ?thesis using False k s kinds by blast
  qed
qed

lemma verify_signature_sound_witness:
  "\<exists>k s. parseSshHostKeyBlob example_crypto (enc_text (js ''ssh-ed25519'') @ enc_buffer (replicate 32 5)) = Inr k \<and>
     parseSshSignatureBlob (enc_text (js ''ssh-ed25519'') @ enc_buffer [8, 8]) = Inr s"
proof -
  have t: "text_ok (js ''ssh-ed25519'')" by (rule text_ok_literal, code_simp, simp)
  have b: "buffer_ok (replicate 32 5)" "buffer_ok [8, 8]" by (simp_all add: buffer_ok_def)
  have r: "\<not> is_rsa_name (js ''ssh-ed25519'')" by code_simp
  have k: "parseSshHostKeyBlob example_crypto (enc_text (js ''ssh-ed25519'') @ enc_buffer (replicate 32 5)) =
      Inr \<lparr>ph_algorithm = js ''ssh-ed25519'',
        ph_blob = enc_text (js ''ssh-ed25519'') @ enc_buffer (replicate 32 5), ph_keyObject = Ed25519Key (replicate 32 5)\<rparr>"
    using t b r by (simp add: parseSshHostKeyBlob_def read_all_rdr codec_bind codec_simps del: js_simps)
      (simp add: op_defs createPublicKey_def example_crypto_def)
  have s: "parseSshSignatureBlob (enc_text (js ''ssh-ed25519'') @ enc_buffer [8, 8]) =
      Inr \<lparr>ps_algorithm = js ''ssh-ed25519'', ps_signature = [8, 8]\<rparr>"
    using t b by (simp add: parseSshSignatureBlob_def read_all_rdr codec_bind codec_simps op_return_def del: js_simps)
  have "verifySshSignature example_crypto (enc_text (js ''ssh-ed25519'') @ enc_buffer (replicate 32 5))
      [8, 8] (enc_text (js ''ssh-ed25519'') @ enc_buffer [8, 8]) = Inr True"
    by (simp add: verifySshSignature_def k s isCompatibleSignatureAlgorithm_def example_verify del: js_simps)
  from verify_signature_sound [OF this] show ?thesis by blast
qed

end
