(* ===== verification/SshSession.thy ===== *)
theory SshSession
  imports SshAlgorithms SshChannel SshKex
begin

text \<open>
  \<open>src/core/ssh/session-state.ts\<close>: the state machine of one SSH connection: key exchange and
  re-exchange, authentication, and the dispatch of channel messages to the channel table.

  A method is an operation on the record \<open>session\<close>; what it assigned before it throws stays
  assigned.  Random bytes (the new cookie of a re-exchange, the private keys) are arguments.
\<close>

section \<open>The state\<close>

datatype session_phase =
    PhIdle | PhKexinitSent | PhKexdhSent | PhNewkeysSent | PhEncrypted | PhServiceRequestSent
  | PhAuthenticating | PhAuthenticated | PhClosed

record session_options =
  so_clientVersion :: jsstring
  so_serverVersion :: jsstring
  so_expectedServerFingerprint :: "jsstring option"

datatype client_exchange = CurveExchange bytes bytes | Group14Exchange int bytes

record session =
  ss_options :: session_options
  ss_phase :: session_phase
  ss_channels :: channel_manager
  ss_clientKexInitTemplate :: kexinit
  ss_activeClientKexInit :: "kexinit option"
  ss_clientKexInitPayload :: "bytes option"
  ss_serverKexInitPayload :: "bytes option"
  ss_serverHostKeyAlgorithms :: "jsstring list"
  ss_negotiated :: "negotiated_algorithms option"
  ss_clientExchange :: "client_exchange option"
  ss_sessionId :: "bytes option"
  ss_resumePhaseAfterKex :: session_phase
  ss_completedKexCount :: nat
  ss_serverHostKeyFingerprint :: "jsstring option"

type_synonym 'a sessioning = "(session, ssh_error, 'a) op"

definition session_new :: "session_options \<Rightarrow> kexinit \<Rightarrow> session" where
  "session_new options clientKexInit =
     \<lparr>ss_options = options, ss_phase = PhIdle, ss_channels = cm_new, ss_clientKexInitTemplate = clientKexInit,
      ss_activeClientKexInit = None, ss_clientKexInitPayload = None, ss_serverKexInitPayload = None,
      ss_serverHostKeyAlgorithms = [], ss_negotiated = None, ss_clientExchange = None, ss_sessionId = None,
      ss_resumePhaseAfterKex = PhEncrypted, ss_completedKexCount = 0, ss_serverHostKeyFingerprint = None\<rparr>"

definition requirePhase :: "session_phase \<Rightarrow> unit sessioning" where
  "requirePhase expected s = (if ss_phase s \<noteq> expected then Inl (SessionError InvalidPhase) else Inr (), s)"

text \<open>A call of a method of the channel table.\<close>

definition ss_channel :: "'a managing \<Rightarrow> 'a sessioning" where
  "ss_channel f s = (case f (ss_channels s) of (r, m) \<Rightarrow> (r, s\<lparr>ss_channels := m\<rparr>))"

section \<open>Key exchange\<close>

definition startKex :: "bytes \<Rightarrow> bytes sessioning" where
  "startKex random s =
     (if ss_phase s \<noteq> PhIdle \<and> ss_phase s \<noteq> PhAuthenticated then (Inl (SessionError InvalidPhase), s)
      else let s1 = s\<lparr>ss_resumePhaseAfterKex :=
                 (if ss_phase s = PhAuthenticated then PhAuthenticated else PhEncrypted)\<rparr>;
               active = (if ss_completedKexCount s = 0 then ss_clientKexInitTemplate s
                 else (ss_clientKexInitTemplate s)\<lparr>cookie := random\<rparr>);
               s2 = s1\<lparr>ss_activeClientKexInit := Some active\<rparr>
           in case encodeKexInit active of
                Inl e \<Rightarrow> (Inl e, s2)
              | Inr payload \<Rightarrow>
                  (Inr payload, s2\<lparr>ss_clientKexInitPayload := Some payload, ss_serverKexInitPayload := None,
                     ss_negotiated := None, ss_clientExchange := None, ss_phase := PhKexinitSent\<rparr>))"

definition isCurve25519Kex :: "jsstring \<Rightarrow> bool" where
  "isCurve25519Kex a \<longleftrightarrow> a = js ''curve25519-sha256'' \<or> a = js ''curve25519-sha256@libssh.org''"

record kex_dh_init_result =
  ki_negotiated :: negotiated_algorithms
  ki_kexDhInitPayload :: bytes
  ki_ignoreNextServerKexPacket :: bool

definition first_is_not :: "jsstring list \<Rightarrow> jsstring \<Rightarrow> bool" where
  "first_is_not xs a \<longleftrightarrow> (case xs of [] \<Rightarrow> True | x # _ \<Rightarrow> x \<noteq> a)"

definition receiveServerKexInit :: "crypto \<Rightarrow> bytes \<Rightarrow> bytes \<Rightarrow> kex_dh_init_result sessioning" where
  "receiveServerKexInit cr privateKey serverKexInitPayload =
     op_bind (requirePhase PhKexinitSent) (\<lambda>_.
     op_bind (op_lift (decodeKexInit serverKexInitPayload)) (\<lambda>server.
     op_bind (op_get ss_activeClientKexInit) (\<lambda>active.
     case active of None \<Rightarrow> op_throw (SessionError ClientKexInitMissing) | Some client \<Rightarrow>
     op_bind (op_lift (negotiateAlgorithms client server)) (\<lambda>neg.
     op_bind (op_modify (\<lambda>s. s\<lparr>ss_negotiated := Some neg, ss_serverKexInitPayload := Some serverKexInitPayload,
       ss_serverHostKeyAlgorithms := serverHostKeyAlgorithms server\<rparr>)) (\<lambda>_.
     let ignore = firstKexPacketFollows server \<and>
           (first_is_not (kexAlgorithms server) (na_kexAlgorithm neg) \<or>
            first_is_not (serverHostKeyAlgorithms server) (na_serverHostKeyAlgorithm neg)) in
     if isCurve25519Kex (na_kexAlgorithm neg) then
       op_bind (op_lift (createCurve25519ClientExchange cr privateKey)) (\<lambda>publicKey.
       op_bind (op_modify (\<lambda>s. s\<lparr>ss_clientExchange := Some (CurveExchange publicKey privateKey),
         ss_phase := PhKexdhSent\<rparr>)) (\<lambda>_.
       op_bind (op_lift (encodeCurve25519KexInit publicKey)) (\<lambda>payload.
         op_return \<lparr>ki_negotiated = neg, ki_kexDhInitPayload = payload, ki_ignoreNextServerKexPacket = ignore\<rparr>)))
     else if na_kexAlgorithm neg \<noteq> js ''diffie-hellman-group14-sha256'' then
       op_throw (SessionError (UnsupportedKex (na_kexAlgorithm neg)))
     else
       let exchangeValue = createGroup14Sha256ClientExchange cr privateKey in
       op_bind (op_modify (\<lambda>s. s\<lparr>ss_clientExchange := Some (Group14Exchange exchangeValue privateKey),
         ss_phase := PhKexdhSent\<rparr>)) (\<lambda>_.
       op_bind (op_lift (encodeKexDhInit exchangeValue)) (\<lambda>payload.
         op_return \<lparr>ki_negotiated = neg, ki_kexDhInitPayload = payload, ki_ignoreNextServerKexPacket = ignore\<rparr>)))))))"

record kex_outcome =
  ko_hostKey :: bytes
  ko_signature :: bytes
  ko_exchangeHash :: bytes
  ko_sharedSecret :: int

text \<open>
  \<open>completeKexExchange\<close>.  The source casts the exchange object to the kind the algorithm's name
  asks for; an object of the other kind has no such method, which is an exception here.
\<close>

definition completeKexExchange :: "crypto \<Rightarrow> jsstring \<Rightarrow> client_exchange \<Rightarrow> bytes \<Rightarrow> jsstring \<Rightarrow> jsstring
    \<Rightarrow> bytes \<Rightarrow> bytes \<Rightarrow> ssh_error + kex_outcome" where
  "completeKexExchange cr algorithm exchange payload clientVersion serverVersion clientPayload serverPayload =
     (if isCurve25519Kex algorithm then
        (case exchange of
           Group14Exchange v k \<Rightarrow> Inl (SessionError KexStateIncomplete)
         | CurveExchange publicKey privateKey \<Rightarrow>
             res_bind (decodeCurve25519KexReply payload) (\<lambda>reply.
             res_bind (curve_computeSharedSecret cr privateKey (cu_serverPublicKey reply)) (\<lambda>secret.
             res_bind (computeCurve25519Sha256ExchangeHash cr
               \<lparr>ch_clientVersion = clientVersion, ch_serverVersion = serverVersion,
                ch_clientKexInitPayload = clientPayload, ch_serverKexInitPayload = serverPayload,
                ch_serverHostKey = cu_hostKey reply, ch_clientPublicKey = publicKey,
                ch_serverPublicKey = cu_serverPublicKey reply, ch_sharedSecret = secret\<rparr>) (\<lambda>h.
               Inr \<lparr>ko_hostKey = cu_hostKey reply, ko_signature = cu_signature reply,
                    ko_exchangeHash = h, ko_sharedSecret = secret\<rparr>))))
      else
        (case exchange of
           CurveExchange p k \<Rightarrow> Inl (SessionError KexStateIncomplete)
         | Group14Exchange exchangeValue privateKey \<Rightarrow>
             res_bind (decodeKexDhReply payload) (\<lambda>reply.
             res_bind (group14_computeSharedSecret cr privateKey (dh_serverExchangeValue reply)) (\<lambda>secret.
             res_bind (computeGroup14Sha256ExchangeHash cr
               \<lparr>gh_clientVersion = clientVersion, gh_serverVersion = serverVersion,
                gh_clientKexInitPayload = clientPayload, gh_serverKexInitPayload = serverPayload,
                gh_serverHostKey = dh_hostKey reply, gh_clientExchangeValue = exchangeValue,
                gh_serverExchangeValue = dh_serverExchangeValue reply, gh_sharedSecret = secret\<rparr>) (\<lambda>h.
               Inr \<lparr>ko_hostKey = dh_hostKey reply, ko_signature = dh_signature reply,
                    ko_exchangeHash = h, ko_sharedSecret = secret\<rparr>)))))"

definition key_type_char :: "nat \<Rightarrow> bool" where
  "key_type_char u \<longleftrightarrow> is_alnum u \<or> u = 64 \<or> u = 46 \<or> u = 95 \<or> u = 43 \<or> u = 45"

definition hostKeyBlobType :: "bytes \<Rightarrow> jsstring option" where
  "hostKeyBlobType blob =
     (case read_all rd_utf8String blob of
        Inl e \<Rightarrow> None
      | Inr keyType \<Rightarrow>
          if 1 \<le> length keyType \<and> length keyType \<le> 64 \<and> list_all key_type_char keyType
          then Some keyType else None)"

definition assertNegotiatedHostKeyAndSignature :: "crypto \<Rightarrow> jsstring \<Rightarrow> bytes \<Rightarrow> bytes \<Rightarrow> ssh_error + unit" where
  "assertNegotiatedHostKeyAndSignature cr negotiated hostKeyBlob signatureBlob =
     res_bind (parseSshHostKeyBlob cr hostKeyBlob) (\<lambda>hostKey.
     res_bind (parseSshSignatureBlob signatureBlob) (\<lambda>signature.
       if negotiated = js ''ssh-ed25519'' then
         (if ph_algorithm hostKey \<noteq> js ''ssh-ed25519'' \<or> ps_algorithm signature \<noteq> js ''ssh-ed25519''
            then Inl (SessionError (HostKeyInconsistent negotiated)) else Inr ())
       else if is_rsa_name negotiated then
         (if \<not> is_rsa_name (ph_algorithm hostKey) \<or> ps_algorithm signature \<noteq> negotiated
            then Inl (SessionError (HostKeyInconsistent negotiated)) else Inr ())
       else Inl (SessionError (UnsupportedNegotiatedHostKey negotiated))))"

record kex_complete_result =
  kc_newKeysPayload :: bytes
  kc_exchangeHash :: bytes
  kc_sessionId :: bytes
  kc_transportKeys :: transport_keys
  kc_serverHostKeyFingerprint :: jsstring
  kc_serverHostKeyType :: jsstring

text \<open>\<open>if (wanted && wanted !== actual)\<close>: an empty string counts as absent.\<close>

definition differs :: "jsstring option \<Rightarrow> jsstring \<Rightarrow> bool" where
  "differs wanted actual \<longleftrightarrow> (case wanted of None \<Rightarrow> False | Some w \<Rightarrow> w \<noteq> [] \<and> w \<noteq> actual)"

definition completeKex :: "crypto \<Rightarrow> bytes \<Rightarrow> kex_complete_result sessioning" where
  "completeKex cr payload =
     op_bind (requirePhase PhKexdhSent) (\<lambda>_.
     op_bind (op_get (\<lambda>s. s)) (\<lambda>s.
     case (ss_clientExchange s, ss_clientKexInitPayload s, ss_serverKexInitPayload s, ss_negotiated s) of
       (Some exchange, Some clientPayload, Some serverPayload, Some neg) \<Rightarrow>
         op_bind (op_lift (completeKexExchange cr (na_kexAlgorithm neg) exchange payload
           (so_clientVersion (ss_options s)) (so_serverVersion (ss_options s)) clientPayload serverPayload)) (\<lambda>kex.
         let fingerprint = sha256Fingerprint cr (ko_hostKey kex);
             hostKeyType = or_else (hostKeyBlobType (ko_hostKey kex)) (na_serverHostKeyAlgorithm neg) in
         op_bind (op_require (\<not> differs (so_expectedServerFingerprint (ss_options s)) fingerprint)
           (SessionError (HostKeyMismatch (or_else (so_expectedServerFingerprint (ss_options s)) []) fingerprint
              hostKeyType (na_serverHostKeyAlgorithm neg) (ss_serverHostKeyAlgorithms s)))) (\<lambda>_.
         op_bind (op_require (\<not> differs (ss_serverHostKeyFingerprint s) fingerprint)
           (SessionError (HostKeyChanged (or_else (ss_serverHostKeyFingerprint s) []) fingerprint))) (\<lambda>_.
         op_bind (op_lift (assertNegotiatedHostKeyAndSignature cr (na_serverHostKeyAlgorithm neg)
           (ko_hostKey kex) (ko_signature kex))) (\<lambda>_.
         op_bind (op_lift (verifySshSignature cr (ko_hostKey kex) (ko_exchangeHash kex) (ko_signature kex))) (\<lambda>good.
         op_bind (op_require good (SessionError SignatureVerificationFailed)) (\<lambda>_.
         let sessionId = or_else (ss_sessionId s) (ko_exchangeHash kex) in
         op_bind (op_modify (\<lambda>s. s\<lparr>ss_sessionId := Some sessionId,
           ss_serverHostKeyFingerprint := Some (or_else (ss_serverHostKeyFingerprint s) fingerprint),
           ss_phase := PhNewkeysSent\<rparr>)) (\<lambda>_.
         op_bind (op_lift (transportKeyLengthsFor (na_encryptionClientToServer neg) (na_macClientToServer neg))) (\<lambda>cs.
         op_bind (op_lift (transportKeyLengthsFor (na_encryptionServerToClient neg) (na_macServerToClient neg))) (\<lambda>sc.
         op_bind (op_lift (deriveDirectionalTransportKeys cr (ko_sharedSecret kex) (ko_exchangeHash kex)
           sessionId cs sc)) (\<lambda>keys.
           op_return \<lparr>kc_newKeysPayload = enc_byte SSH_MSG_NEWKEYS, kc_exchangeHash = ko_exchangeHash kex,
             kc_sessionId = sessionId, kc_transportKeys = keys,
             kc_serverHostKeyFingerprint = fingerprint, kc_serverHostKeyType = hostKeyType\<rparr>))))))))))
     | _ \<Rightarrow> op_throw (SessionError KexStateIncomplete)))"

definition receiveNewKeys :: "bytes \<Rightarrow> unit sessioning" where
  "receiveNewKeys payload =
     op_bind (requirePhase PhNewkeysSent) (\<lambda>_.
     op_bind (op_lift (messageNumber payload)) (\<lambda>n.
     op_bind (op_require (n = SSH_MSG_NEWKEYS) (SessionError ExpectedNewKeys)) (\<lambda>_.
       op_modify (\<lambda>s. s\<lparr>ss_phase := ss_resumePhaseAfterKex s,
         ss_completedKexCount := ss_completedKexCount s + 1\<rparr>))))"

section \<open>Authentication\<close>

definition requestUserAuthService :: "bytes sessioning" where
  "requestUserAuthService =
     op_bind (requirePhase PhEncrypted) (\<lambda>_.
     op_bind (op_modify (\<lambda>s. s\<lparr>ss_phase := PhServiceRequestSent\<rparr>)) (\<lambda>_.
       op_lift (encodeServiceRequest SSH_SERVICE_USERAUTH)))"

definition receiveServiceAccept :: "bytes \<Rightarrow> jsstring sessioning" where
  "receiveServiceAccept payload =
     op_bind (requirePhase PhServiceRequestSent) (\<lambda>_.
     op_bind (op_lift (decodeServiceAccept payload)) (\<lambda>accepted.
     op_bind (op_require (accepted = SSH_SERVICE_USERAUTH) (SessionError (UnexpectedServiceAccept accepted))) (\<lambda>_.
     op_bind (op_modify (\<lambda>s. s\<lparr>ss_phase := PhAuthenticating\<rparr>)) (\<lambda>_. op_return accepted))))"

definition buildPasswordAuth :: "jsstring \<Rightarrow> jsstring \<Rightarrow> bytes sessioning" where
  "buildPasswordAuth username password =
     op_bind (requirePhase PhAuthenticating) (\<lambda>_.
       op_lift (encodePasswordAuthRequest \<lparr>pwr_username = username, pwr_password = password, pwr_service = None\<rparr>))"

datatype auth_result = AuthSuccess | AuthFailure userauth_failure

definition receiveAuthResult :: "bytes \<Rightarrow> auth_result sessioning" where
  "receiveAuthResult payload =
     op_bind (requirePhase PhAuthenticating) (\<lambda>_.
     op_bind (op_lift (messageNumber payload)) (\<lambda>n.
       if n = SSH_MSG_USERAUTH_SUCCESS then
         op_bind (op_modify (\<lambda>s. s\<lparr>ss_phase := PhAuthenticated\<rparr>)) (\<lambda>_. op_return AuthSuccess)
       else if n = SSH_MSG_USERAUTH_FAILURE then
         op_bind (op_lift (decodeUserAuthFailure payload)) (\<lambda>f. op_return (AuthFailure f))
       else op_throw (SessionError (UnexpectedAuthResult n))))"

section \<open>Channels\<close>

definition openSessionChannel :: "(channel_state \<times> bytes) sessioning" where
  "openSessionChannel =
     op_bind (requirePhase PhAuthenticated) (\<lambda>_.
     op_bind (ss_channel (cm_open SessionChannel None None)) (\<lambda>c.
     op_bind (op_lift (encodeSessionChannelOpen \<lparr>cob_senderChannel = cs_localId c,
       cob_initialWindowSize = Some (cs_localWindow c), cob_maximumPacketSize = Some (cs_maximumPacketSize c)\<rparr>)) (\<lambda>p.
       op_return (c, p))))"

definition openDirectTcpIpChannel :: "jsstring \<Rightarrow> int \<Rightarrow> jsstring \<Rightarrow> int \<Rightarrow> (channel_state \<times> bytes) sessioning" where
  "openDirectTcpIpChannel hostToConnect portToConnect originatorIpAddress originatorPort =
     op_bind (requirePhase PhAuthenticated) (\<lambda>_.
     op_bind (ss_channel (cm_open DirectTcpip None None)) (\<lambda>c.
     op_bind (op_lift (encodeDirectTcpIpChannelOpen \<lparr>cob_senderChannel = cs_localId c,
       cob_initialWindowSize = Some (cs_localWindow c), cob_maximumPacketSize = Some (cs_maximumPacketSize c),
       dto_hostToConnect = hostToConnect, dto_portToConnect = portToConnect,
       dto_originatorIpAddress = originatorIpAddress, dto_originatorPort = originatorPort\<rparr>)) (\<lambda>p.
       op_return (c, p))))"

text \<open>The lookup most methods start with: the channel and its remote id, or the exception.\<close>

definition confirmed_channel :: "int \<Rightarrow> (channel_state \<times> int) sessioning" where
  "confirmed_channel localChannel s =
     (case cm_get localChannel (ss_channels s) of
        None \<Rightarrow> (Inl (SessionError (ChannelNotConfirmed localChannel)), s)
      | Some c \<Rightarrow> (case cs_remoteId c of
          None \<Rightarrow> (Inl (SessionError (ChannelNotConfirmed localChannel)), s)
        | Some r \<Rightarrow> (Inr (c, r), s)))"

definition buildPtyAndShellRequests :: "int \<Rightarrow> int \<Rightarrow> int \<Rightarrow> (bytes \<times> bytes) sessioning" where
  "buildPtyAndShellRequests localChannel columns rows =
     op_bind (confirmed_channel localChannel) (\<lambda>(c, r).
     op_bind (op_lift (encodePtyRequest \<lparr>pty_recipientChannel = r, pty_terminalType = None, pty_columns = columns,
       pty_rows = rows, pty_pixelWidth = None, pty_pixelHeight = None, pty_terminalModes = None,
       pty_wantReply = None\<rparr>)) (\<lambda>pty.
     op_bind (op_lift (encodeShellRequest \<lparr>shr_recipientChannel = r, shr_wantReply = None\<rparr>)) (\<lambda>shell.
       op_return (pty, shell))))"

definition buildChannelData :: "int \<Rightarrow> bytes \<Rightarrow> bytes sessioning" where
  "buildChannelData localChannel dat =
     op_bind (confirmed_channel localChannel) (\<lambda>(c, r).
       if int (length dat) > cs_maximumPacketSize c
         then op_throw (SessionError (MaximumPacketSizeExceeded localChannel))
       else op_bind (ss_channel (cm_consumeRemoteWindow localChannel (int (length dat)))) (\<lambda>_.
         op_lift (encodeChannelData \<lparr>cd_recipientChannel = r, cd_data = dat\<rparr>)))"

function buildChannelDataFrames :: "int \<Rightarrow> bytes \<Rightarrow> (bytes list \<times> nat) sessioning" where
  "buildChannelDataFrames localChannel dat s =
     (if dat = [] then (Inr ([], 0), s)
      else case confirmed_channel localChannel s of
        (Inl e, s') \<Rightarrow> (Inl e, s')
      | (Inr (c, r), _) \<Rightarrow>
          let chunkLength = min (min (cs_maximumPacketSize c) (cs_remoteWindow c)) (int (length dat)) in
          if chunkLength \<le> 0 then (Inr ([], 0), s)
          else case buildChannelData localChannel (take (nat chunkLength) dat) s of
            (Inl e, s') \<Rightarrow> (Inl e, s')
          | (Inr payload, s') \<Rightarrow>
              (case buildChannelDataFrames localChannel (drop (nat chunkLength) dat) s' of
                 (Inl e, s'') \<Rightarrow> (Inl e, s'')
               | (Inr (payloads, n), s'') \<Rightarrow> (Inr (payload # payloads, nat chunkLength + n), s'')))"
  by pat_completeness auto
termination
  by (relation "measure (\<lambda>(c, dat, s). length dat)") (auto simp: length_greater_0_conv [symmetric]
      simp del: length_greater_0_conv)

declare buildChannelDataFrames.simps [simp del]

definition buildWindowChange :: "int \<Rightarrow> int \<Rightarrow> int \<Rightarrow> bytes sessioning" where
  "buildWindowChange localChannel columns rows =
     op_bind (confirmed_channel localChannel) (\<lambda>(c, r).
       op_lift (encodeWindowChangeRequest \<lparr>wcr_recipientChannel = r, wcr_columns = columns, wcr_rows = rows,
         wcr_pixelWidth = None, wcr_pixelHeight = None, wcr_wantReply = None\<rparr>))"

definition buildChannelEof :: "int \<Rightarrow> bytes sessioning" where
  "buildChannelEof localChannel =
     op_bind (confirmed_channel localChannel) (\<lambda>(c, r).
     op_bind (ss_channel (cm_markEofSent localChannel)) (\<lambda>_. op_lift (encodeChannelEof r)))"

definition buildChannelClose :: "int \<Rightarrow> bytes sessioning" where
  "buildChannelClose localChannel =
     op_bind (confirmed_channel localChannel) (\<lambda>(c, r).
     op_bind (ss_channel (cm_close localChannel)) (\<lambda>_. op_lift (encodeChannelClose r)))"

definition getSessionId :: "bytes sessioning" where
  "getSessionId s = (case ss_sessionId s of None \<Rightarrow> (Inl (SessionError SessionIdMissing), s) | Some i \<Rightarrow> (Inr i, s))"

section \<open>Channel messages of the server\<close>

datatype event_type =
    EvOpenConfirmed | EvOpenFailed | EvWindowAdjust | EvData | EvExtendedData | EvEof | EvClose
  | EvSuccess | EvFailure | EvIgnored

record channel_event =
  ev_type :: event_type
  ev_localChannel :: "int option"
  ev_data :: "bytes option"
  ev_dataTypeCode :: "int option"
  ev_description :: "jsstring option"
  ev_responsePayload :: "bytes option"

definition event_of :: "event_type \<Rightarrow> int \<Rightarrow> channel_event" where
  "event_of t i = \<lparr>ev_type = t, ev_localChannel = Some i, ev_data = None, ev_dataTypeCode = None,
     ev_description = None, ev_responsePayload = None\<rparr>"

definition ignored_event :: "int \<Rightarrow> string \<Rightarrow> channel_event" where
  "ignored_event i why = (event_of EvIgnored i)\<lparr>ev_description := Some (js why)\<rparr>"

definition channel_get :: "int \<Rightarrow> channel_state option sessioning" where
  "channel_get i = op_get (\<lambda>s. cm_get i (ss_channels s))"

definition receiveOpen :: "bytes \<Rightarrow> channel_event sessioning" where
  "receiveOpen payload =
     op_bind (op_lift (decodeChannelOpen payload)) (\<lambda>request.
     op_bind (op_lift (encodeChannelOpenFailure (cor_senderChannel request) None None None)) (\<lambda>response.
       op_return \<lparr>ev_type = EvIgnored, ev_localChannel = None, ev_data = None, ev_dataTypeCode = None,
         ev_description = Some (js ''unsupported server channel open '' @ cor_channelType request),
         ev_responsePayload = Some response\<rparr>))"

definition receiveOpenConfirmation :: "bytes \<Rightarrow> channel_event sessioning" where
  "receiveOpenConfirmation payload =
     op_bind (op_lift (decodeChannelOpenConfirmation payload)) (\<lambda>c.
     op_bind (channel_get (oc_recipientChannel c)) (\<lambda>known.
       if known = None then
         op_bind (op_lift (encodeChannelClose (oc_senderChannel c))) (\<lambda>response.
           op_return ((ignored_event (oc_recipientChannel c) ''late confirmation for abandoned channel'')
             \<lparr>ev_responsePayload := Some response\<rparr>))
       else op_bind (ss_channel (cm_confirmOpen (oc_recipientChannel c) (oc_senderChannel c)
           (oc_initialWindowSize c) (oc_maximumPacketSize c))) (\<lambda>_.
         op_return (event_of EvOpenConfirmed (oc_recipientChannel c)))))"

definition receiveOpenFailure :: "bytes \<Rightarrow> channel_event sessioning" where
  "receiveOpenFailure payload =
     op_bind (op_lift (decodeChannelOpenFailure payload)) (\<lambda>f.
     op_bind (channel_get (cof_recipientChannel f)) (\<lambda>known.
       if known = None then op_return (ignored_event (cof_recipientChannel f) ''failure for abandoned channel'')
       else op_bind (ss_channel (cm_close (cof_recipientChannel f))) (\<lambda>_.
         op_return ((event_of EvOpenFailed (cof_recipientChannel f))\<lparr>ev_description := Some (cof_description f)\<rparr>))))"

definition receiveWindowAdjust :: "bytes \<Rightarrow> channel_event sessioning" where
  "receiveWindowAdjust payload =
     op_bind (op_lift (decodeChannelWindowAdjust payload)) (\<lambda>a.
     op_bind (channel_get (wa_recipientChannel a)) (\<lambda>known.
       if known = None then op_return (ignored_event (wa_recipientChannel a) ''window-adjust for unknown channel'')
       else op_bind (ss_channel (cm_expandRemoteWindow (wa_recipientChannel a) (wa_bytesToAdd a))) (\<lambda>_.
         op_return (event_of EvWindowAdjust (wa_recipientChannel a)))))"

definition receiveData :: "bytes \<Rightarrow> channel_event sessioning" where
  "receiveData payload =
     op_bind (op_lift (decodeChannelData payload)) (\<lambda>d.
     op_bind (channel_get (cd_recipientChannel d)) (\<lambda>known.
       case known of
         None \<Rightarrow> op_return (ignored_event (cd_recipientChannel d) ''data for unknown channel'')
       | Some c \<Rightarrow>
           if int (length (cd_data d)) > cs_localMaximumPacketSize c
             then op_throw (SessionError (InboundPacketSizeExceeded (cd_recipientChannel d)))
           else op_bind (ss_channel (cm_consumeLocalWindow (cd_recipientChannel d) (int (length (cd_data d))))) (\<lambda>_.
             op_return ((event_of EvData (cd_recipientChannel d))\<lparr>ev_data := Some (cd_data d)\<rparr>))))"

definition receiveExtendedData :: "bytes \<Rightarrow> channel_event sessioning" where
  "receiveExtendedData payload =
     op_bind (op_lift (decodeChannelExtendedData payload)) (\<lambda>d.
     op_bind (channel_get (cd_recipientChannel d)) (\<lambda>known.
       case known of
         None \<Rightarrow> op_return (ignored_event (cd_recipientChannel d) ''extended data for unknown channel'')
       | Some c \<Rightarrow>
           if int (length (cd_data d)) > cs_localMaximumPacketSize c
             then op_throw (SessionError (InboundPacketSizeExceeded (cd_recipientChannel d)))
           else op_bind (ss_channel (cm_consumeLocalWindow (cd_recipientChannel d) (int (length (cd_data d))))) (\<lambda>_.
             op_return ((event_of EvExtendedData (cd_recipientChannel d))
               \<lparr>ev_data := Some (cd_data d), ev_dataTypeCode := Some (ed_dataTypeCode d)\<rparr>))))"

definition receiveEof :: "bytes \<Rightarrow> channel_event sessioning" where
  "receiveEof payload =
     op_bind (op_lift (decodeChannelEndpoint SSH_MSG_CHANNEL_EOF payload)) (\<lambda>i.
     op_bind (channel_get i) (\<lambda>known.
       if known = None then op_return (ignored_event i ''eof for unknown channel'')
       else op_bind (ss_channel (cm_markEofReceived i)) (\<lambda>_. op_return (event_of EvEof i))))"

definition receiveClose :: "bytes \<Rightarrow> channel_event sessioning" where
  "receiveClose payload =
     op_bind (op_lift (decodeChannelEndpoint SSH_MSG_CHANNEL_CLOSE payload)) (\<lambda>i.
     op_bind (channel_get i) (\<lambda>known.
       case known of
         None \<Rightarrow> op_return (ignored_event i ''close for unknown channel'')
       | Some c \<Rightarrow>
           op_bind (op_lift (case cs_remoteId c of None \<Rightarrow> Inr None
             | Some r \<Rightarrow> res_bind (encodeChannelClose r) (\<lambda>p. Inr (Some p)))) (\<lambda>response.
           op_bind (ss_channel (cm_close i)) (\<lambda>_.
             op_return ((event_of EvClose i)\<lparr>ev_responsePayload := response\<rparr>)))))"

definition receiveRequestReply :: "int \<Rightarrow> event_type \<Rightarrow> string \<Rightarrow> bytes \<Rightarrow> channel_event sessioning" where
  "receiveRequestReply number t unknown payload =
     op_bind (op_lift (decodeChannelEndpoint number payload)) (\<lambda>i.
     op_bind (channel_get i) (\<lambda>known.
       op_return (if known = None then ignored_event i unknown else event_of t i)))"

definition receiveChannelRequest :: "bytes \<Rightarrow> channel_event sessioning" where
  "receiveChannelRequest payload =
     op_bind (op_lift (decodeChannelRequest payload)) (\<lambda>request.
     op_bind (channel_get (crq_recipientChannel request)) (\<lambda>known.
     op_bind (op_lift (case (if crq_wantReply request then known else None) of
         None \<Rightarrow> Inr None
       | Some c \<Rightarrow> (case cs_remoteId c of None \<Rightarrow> Inr None
           | Some r \<Rightarrow> res_bind (encodeChannelFailure r) (\<lambda>p. Inr (Some p))))) (\<lambda>response.
       op_return ((event_of EvIgnored (crq_recipientChannel request))\<lparr>
         ev_description := Some (js ''unsupported channel request '' @ crq_requestType request),
         ev_responsePayload := response\<rparr>))))"

definition receiveChannelMessage :: "bytes \<Rightarrow> channel_event sessioning" where
  "receiveChannelMessage payload =
     op_bind (op_lift (messageNumber payload)) (\<lambda>number.
       if number = SSH_MSG_CHANNEL_OPEN then receiveOpen payload
       else if number = SSH_MSG_CHANNEL_OPEN_CONFIRMATION then receiveOpenConfirmation payload
       else if number = SSH_MSG_CHANNEL_OPEN_FAILURE then receiveOpenFailure payload
       else if number = SSH_MSG_CHANNEL_WINDOW_ADJUST then receiveWindowAdjust payload
       else if number = SSH_MSG_CHANNEL_DATA then receiveData payload
       else if number = SSH_MSG_CHANNEL_EXTENDED_DATA then receiveExtendedData payload
       else if number = SSH_MSG_CHANNEL_EOF then receiveEof payload
       else if number = SSH_MSG_CHANNEL_CLOSE then receiveClose payload
       else if number = SSH_MSG_CHANNEL_SUCCESS then
         receiveRequestReply SSH_MSG_CHANNEL_SUCCESS EvSuccess ''success for unknown channel'' payload
       else if number = SSH_MSG_CHANNEL_FAILURE then
         receiveRequestReply SSH_MSG_CHANNEL_FAILURE EvFailure ''failure for unknown channel'' payload
       else if number = SSH_MSG_CHANNEL_REQUEST then receiveChannelRequest payload
       else op_throw (SessionError (UnexpectedChannelMessage number)))"

definition abortChannel :: "int \<Rightarrow> bytes option sessioning" where
  "abortChannel localChannel =
     op_bind (channel_get localChannel) (\<lambda>known.
       case known of
         None \<Rightarrow> op_return None
       | Some c \<Rightarrow> op_bind (ss_channel (cm_close localChannel)) (\<lambda>_.
           op_lift (case cs_remoteId c of None \<Rightarrow> Inr None
             | Some r \<Rightarrow> res_bind (encodeChannelClose r) (\<lambda>p. Inr (Some p)))))"

definition acknowledgeChannelData :: "int \<Rightarrow> int \<Rightarrow> bytes option sessioning" where
  "acknowledgeChannelData localChannel n =
     op_bind (ss_channel (cm_acknowledgeLocalData localChannel n)) (\<lambda>a.
       if cs_lifecycle a = EofReceived \<or> cs_localWindow a > cs_localWindowMaximum a div 2 \<or> cs_remoteId a = None
         then op_return None
       else op_bind (ss_channel (cm_replenishAcknowledgedLocalWindow localChannel)) (\<lambda>(c, bytesToAdd).
         case cs_remoteId c of
           None \<Rightarrow> op_return None
         | Some r \<Rightarrow> if bytesToAdd = 0 then op_return None
             else op_lift (res_bind (encodeChannelWindowAdjust r bytesToAdd) (\<lambda>p. Inr (Some p)))))"

definition getPhase :: "session \<Rightarrow> session_phase" where
  "getPhase s = ss_phase s"

definition getChannel :: "int \<Rightarrow> session \<Rightarrow> channel_state option" where
  "getChannel i s = cm_get i (ss_channels s)"

section \<open>Operations that only touch the channel table\<close>

text \<open>
  \<open>chan_only f\<close>: whatever \<open>f\<close> returns, it changes at most the channel table, keeps its
  invariant and opens no channel.
\<close>

definition table_step :: "channel_manager \<Rightarrow> channel_manager \<Rightarrow> bool" where
  "table_step m m' \<longleftrightarrow> (manager_ok m \<longrightarrow> manager_ok m') \<and> cm_nextLocalId m' = cm_nextLocalId m"

definition chan_only :: "'a sessioning \<Rightarrow> bool" where
  "chan_only f \<longleftrightarrow> (\<forall>s. \<exists>m. snd (f s) = s\<lparr>ss_channels := m\<rparr> \<and> table_step (ss_channels s) m)"

lemma table_step_refl [simp]: "table_step m m"
  by (simp add: table_step_def)

lemma table_step_trans: "table_step a b \<Longrightarrow> table_step b c \<Longrightarrow> table_step a c"
  by (simp add: table_step_def)

lemma chan_only_id: "(\<And>s. snd (f s) = s) \<Longrightarrow> chan_only f"
  unfolding chan_only_def
proof
  fix s assume "\<And>s. snd (f s) = s"
  then have "snd (f s) = s\<lparr>ss_channels := ss_channels s\<rparr> \<and> table_step (ss_channels s) (ss_channels s)" by simp
  then show "\<exists>m. snd (f s) = s\<lparr>ss_channels := m\<rparr> \<and> table_step (ss_channels s) m" by blast
qed

lemma chan_only_pure:
  "chan_only (op_return x)" "chan_only (op_throw e)" "chan_only (op_lift r)" "chan_only (op_require b e)"
  "chan_only (op_get g)" "chan_only (channel_get i)" "chan_only (requirePhase p)" "chan_only (confirmed_channel i)"
  "chan_only getSessionId"
  by (rule chan_only_id; simp add: op_return_def op_throw_def op_lift_def op_require_def op_get_def channel_get_def
    requirePhase_def confirmed_channel_def getSessionId_def split: option.split)+

lemma chan_only_bind:
  assumes "chan_only f" and "\<And>x. chan_only (g x)"
  shows "chan_only (op_bind f g)"
  unfolding chan_only_def
proof
  fix s
  obtain r t where f: "f s = (r, t)" by fastforce
  then obtain m where m: "t = s\<lparr>ss_channels := m\<rparr>" "table_step (ss_channels s) m"
    using assms(1) unfolding chan_only_def by (metis snd_conv)
  show "\<exists>m. snd (op_bind f g s) = s\<lparr>ss_channels := m\<rparr> \<and> table_step (ss_channels s) m"
  proof (cases r)
    case (Inl e)
    then show ?thesis using f m by (auto simp: op_bind_def)
  next
    case (Inr x)
    obtain m' where "snd (g x t) = t\<lparr>ss_channels := m'\<rparr>" "table_step (ss_channels t) m'"
      using assms(2) unfolding chan_only_def by blast
    then show ?thesis using f m Inr by (auto simp: op_bind_def intro: table_step_trans)
  qed
qed

lemma chan_only_channel: "(\<And>m. table_step m (snd (f m))) \<Longrightarrow> chan_only (ss_channel f)"
  by (auto simp: chan_only_def ss_channel_def split: prod.splits) (metis snd_conv)

lemma chan_only_branch:
  "(b \<Longrightarrow> chan_only f) \<Longrightarrow> (\<not> b \<Longrightarrow> chan_only g) \<Longrightarrow> chan_only (if b then f else g)"
  "(x = None \<Longrightarrow> chan_only f) \<Longrightarrow> (\<And>y. x = Some y \<Longrightarrow> chan_only (h y)) \<Longrightarrow> chan_only (case x of None \<Rightarrow> f | Some y \<Rightarrow> h y)"
  "(\<And>a b. chan_only (k a b)) \<Longrightarrow> chan_only (case z of (a, b) \<Rightarrow> k a b)"
  by (auto split: option.split prod.split)

lemma updates_next: "updates P i f \<Longrightarrow> cm_nextLocalId (snd (f m)) = cm_nextLocalId m"
  unfolding updates_def by (auto simp: cm_put_def) (metis cm_put_def channel_manager.select_convs(3)
      channel_manager.update_convs(1) channel_manager.update_convs(2) channel_manager.surjective)

lemma table_steps:
  "table_step m (snd (cm_confirmOpen i r w p m))" "table_step m (snd (cm_consumeRemoteWindow i n m))"
  "table_step m (snd (cm_expandRemoteWindow i n m))" "table_step m (snd (cm_consumeLocalWindow i n m))"
  "table_step m (snd (cm_acknowledgeLocalData i n m))" "table_step m (snd (cm_replenishAcknowledgedLocalWindow i m))"
  "table_step m (snd (cm_markEofSent i m))" "table_step m (snd (cm_markEofReceived i m))"
  "table_step m (snd (cm_close i m))"
  using channel_updates [THEN updates_next]
  by (auto simp: table_step_def cm_updates_ok cm_close_ok)
    (auto simp: cm_close_def cm_op_simps split: option.split)

lemmas chan_only_rules = chan_only_pure chan_only_bind chan_only_branch chan_only_channel table_steps

lemma chan_only_receive: "chan_only (receiveChannelMessage payload)"
  unfolding receiveChannelMessage_def receiveOpen_def receiveOpenConfirmation_def receiveOpenFailure_def
    receiveWindowAdjust_def receiveData_def receiveExtendedData_def receiveEof_def receiveClose_def
    receiveRequestReply_def receiveChannelRequest_def
  by (intro chan_only_rules)

lemma chan_only_builders:
  "chan_only (buildPtyAndShellRequests i c r)" "chan_only (buildChannelData i d)" "chan_only (buildWindowChange i c r)"
  "chan_only (buildChannelEof i)" "chan_only (buildChannelClose i)"
  "chan_only (abortChannel i)" "chan_only (acknowledgeChannelData i n)"
  unfolding buildPtyAndShellRequests_def buildChannelData_def buildWindowChange_def buildChannelEof_def
    buildChannelClose_def abortChannel_def acknowledgeChannelData_def
  by (intro chan_only_rules)+
section \<open>What the key exchange steps do\<close>

lemma requirePhase_bind:
  "op_bind (requirePhase p) f s = (if ss_phase s = p then f () s else (Inl (SessionError InvalidPhase), s))"
  by (simp add: op_bind_def requirePhase_def)

lemma op_lift_bind: "op_bind (op_lift r) f s = (case r of Inl e \<Rightarrow> (Inl e, s) | Inr x \<Rightarrow> f x s)"
  by (simp add: op_bind_def op_lift_def)

lemma op_require_bind: "op_bind (op_require b e) f s = (if b then f () s else (Inl e, s))"
  by (simp add: op_bind_def op_require_def)

lemma op_modify_bind: "op_bind (op_modify g) f s = f () (g s)"
  by (simp add: op_bind_def op_modify_def)

lemma op_get_bind: "op_bind (op_get g) f s = f (g s) s"
  by (simp add: op_bind_def op_get_def)

lemmas op_binds = requirePhase_bind op_lift_bind op_require_bind op_modify_bind op_get_bind

text \<open>\<open>host_key_proved cr s kex\<close>: the checks between the reply and NEWKEYS.\<close>

definition host_key_proved :: "crypto \<Rightarrow> session \<Rightarrow> negotiated_algorithms \<Rightarrow> kex_outcome \<Rightarrow> bool" where
  "host_key_proved cr s neg kex \<longleftrightarrow>
     \<not> differs (so_expectedServerFingerprint (ss_options s)) (sha256Fingerprint cr (ko_hostKey kex)) \<and>
     \<not> differs (ss_serverHostKeyFingerprint s) (sha256Fingerprint cr (ko_hostKey kex)) \<and>
     assertNegotiatedHostKeyAndSignature cr (na_serverHostKeyAlgorithm neg) (ko_hostKey kex) (ko_signature kex) = Inr () \<and>
     verifySshSignature cr (ko_hostKey kex) (ko_exchangeHash kex) (ko_signature kex) = Inr True"

lemma completeKex_step:
  assumes "completeKex cr payload s = (r, t)"
  shows "(t = s \<and> (\<exists>e. r = Inl e)) \<or>
    (\<exists>exchange cp sp neg kex. ss_phase s = PhKexdhSent \<and> ss_clientExchange s = Some exchange \<and>
       ss_clientKexInitPayload s = Some cp \<and> ss_serverKexInitPayload s = Some sp \<and> ss_negotiated s = Some neg \<and>
       completeKexExchange cr (na_kexAlgorithm neg) exchange payload (so_clientVersion (ss_options s))
         (so_serverVersion (ss_options s)) cp sp = Inr kex \<and>
       host_key_proved cr s neg kex \<and>
       t = s\<lparr>ss_sessionId := Some (or_else (ss_sessionId s) (ko_exchangeHash kex)),
         ss_serverHostKeyFingerprint :=
           Some (or_else (ss_serverHostKeyFingerprint s) (sha256Fingerprint cr (ko_hostKey kex))),
         ss_phase := PhNewkeysSent\<rparr> \<and>
       (\<forall>c. r = Inr c \<longrightarrow> kc_exchangeHash c = ko_exchangeHash kex \<and>
          Some (kc_sessionId c) = ss_sessionId t \<and>
          kc_serverHostKeyFingerprint c = sha256Fingerprint cr (ko_hostKey kex)))"
proof (cases "\<exists>exchange cp sp neg. ss_phase s = PhKexdhSent \<and> ss_clientExchange s = Some exchange \<and>
       ss_clientKexInitPayload s = Some cp \<and> ss_serverKexInitPayload s = Some sp \<and> ss_negotiated s = Some neg")
  case False
  then show ?thesis
    using assms unfolding completeKex_def op_binds
    by (auto simp: op_throw_def split: option.splits if_splits)
next
  case True
  then obtain exchange cp sp neg where st: "ss_phase s = PhKexdhSent" "ss_clientExchange s = Some exchange"
       "ss_clientKexInitPayload s = Some cp" "ss_serverKexInitPayload s = Some sp" "ss_negotiated s = Some neg"
    by blast
  show ?thesis
    using assms unfolding completeKex_def op_binds st option.case prod.case Let_def
    by (auto simp: st host_key_proved_def op_return_def split: sum.splits if_splits)
qed

lemma startKex_step:
  assumes "startKex random s = (r, t)"
  shows "t = s \<or> (ss_phase s \<in> {PhIdle, PhAuthenticated} \<and>
    (\<exists>active payload. t = s\<lparr>ss_resumePhaseAfterKex := (if ss_phase s = PhAuthenticated then PhAuthenticated else PhEncrypted),
        ss_activeClientKexInit := Some active\<rparr> \<or>
      t = s\<lparr>ss_resumePhaseAfterKex := (if ss_phase s = PhAuthenticated then PhAuthenticated else PhEncrypted),
        ss_activeClientKexInit := Some active, ss_clientKexInitPayload := Some payload,
        ss_serverKexInitPayload := None, ss_negotiated := None, ss_clientExchange := None, ss_phase := PhKexinitSent\<rparr>))"
  using assms by (auto simp: startKex_def Let_def split: if_splits sum.splits)

definition exchange_fits :: "negotiated_algorithms \<Rightarrow> client_exchange \<Rightarrow> bool" where
  "exchange_fits neg x \<longleftrightarrow> (case x of CurveExchange p k \<Rightarrow> isCurve25519Kex (na_kexAlgorithm neg)
     | Group14Exchange v k \<Rightarrow> \<not> isCurve25519Kex (na_kexAlgorithm neg))"

lemma receiveServerKexInit_step:
  assumes "receiveServerKexInit cr k payload s = (r, t)"
  shows "t = s \<or> (ss_phase s = PhKexinitSent \<and>
    (\<exists>neg algs. t = s\<lparr>ss_negotiated := Some neg, ss_serverKexInitPayload := Some payload,
        ss_serverHostKeyAlgorithms := algs\<rparr> \<or>
      (\<exists>x. exchange_fits neg x \<and> t = s\<lparr>ss_negotiated := Some neg, ss_serverKexInitPayload := Some payload,
        ss_serverHostKeyAlgorithms := algs, ss_clientExchange := Some x, ss_phase := PhKexdhSent\<rparr>)))"
proof -
  consider "t = s"
    | server client neg where "ss_phase s = PhKexinitSent" "decodeKexInit payload = Inr server"
      "ss_activeClientKexInit s = Some client" "negotiateAlgorithms client server = Inr neg"
    using assms unfolding receiveServerKexInit_def op_binds
    by (auto simp: op_throw_def split: if_splits sum.splits option.splits)
  then show ?thesis
  proof cases
    case 1
    then show ?thesis by blast
  next
    case 2
    define A where "A = s\<lparr>ss_negotiated := Some neg, ss_serverKexInitPayload := Some payload,
        ss_serverHostKeyAlgorithms := serverHostKeyAlgorithms server\<rparr>"
    have "t = A \<or> (\<exists>x. exchange_fits neg x \<and> t = A\<lparr>ss_clientExchange := Some x, ss_phase := PhKexdhSent\<rparr>)"
    proof (cases "isCurve25519Kex (na_kexAlgorithm neg)")
      case True
      then have f: "exchange_fits neg (CurveExchange p k)" for p by (simp add: exchange_fits_def)
      have "t = A \<or> (\<exists>p. t = A\<lparr>ss_clientExchange := Some (CurveExchange p k), ss_phase := PhKexdhSent\<rparr>)"
        using assms unfolding receiveServerKexInit_def op_binds 2 sum.case option.case Let_def A_def [symmetric] if_P [OF True]
        by (cases "createCurve25519ClientExchange cr k")
          (auto simp: 2 op_binds op_return_def split: sum.splits)
      then show ?thesis using f by blast
    next
      case False
      then have f: "exchange_fits neg (Group14Exchange v k)" for v by (simp add: exchange_fits_def)
      have "t = A \<or> (\<exists>v. t = A\<lparr>ss_clientExchange := Some (Group14Exchange v k), ss_phase := PhKexdhSent\<rparr>)"
        using assms unfolding receiveServerKexInit_def op_binds 2 sum.case option.case Let_def A_def [symmetric] if_not_P [OF False]
        by (cases "na_kexAlgorithm neg = js ''diffie-hellman-group14-sha256''")
          (auto simp: 2 op_binds op_return_def op_throw_def split: sum.splits simp del: js_simps)
      then show ?thesis using f by blast
    qed
    then show ?thesis unfolding A_def using 2(1) by blast
  qed
qed

lemma phase_steps:
  "receiveNewKeys payload s = (r, t) \<Longrightarrow> t = s \<or> (ss_phase s = PhNewkeysSent \<and>
     t = s\<lparr>ss_phase := ss_resumePhaseAfterKex s, ss_completedKexCount := ss_completedKexCount s + 1\<rparr>)"
  "requestUserAuthService s = (q, t) \<Longrightarrow> t = s \<or> (ss_phase s = PhEncrypted \<and> t = s\<lparr>ss_phase := PhServiceRequestSent\<rparr>)"
  "receiveServiceAccept payload s = (u, t) \<Longrightarrow> t = s \<or>
     (ss_phase s = PhServiceRequestSent \<and> t = s\<lparr>ss_phase := PhAuthenticating\<rparr>)"
  "buildPasswordAuth name pw s = (q, t) \<Longrightarrow> t = s"
  "receiveAuthResult payload s = (v, t) \<Longrightarrow> t = s \<or> (ss_phase s = PhAuthenticating \<and> t = s\<lparr>ss_phase := PhAuthenticated\<rparr>)"
  unfolding receiveNewKeys_def requestUserAuthService_def receiveServiceAccept_def buildPasswordAuth_def
    receiveAuthResult_def op_binds
  by (auto simp: op_binds op_modify_def op_lift_def op_return_def op_throw_def split: if_splits sum.splits)

lemma open_steps:
  "openSessionChannel s = (r, t) \<Longrightarrow> t = s \<or> (ss_phase s = PhAuthenticated \<and>
     t = s\<lparr>ss_channels := snd (cm_open SessionChannel None None (ss_channels s))\<rparr>)"
  "openDirectTcpIpChannel h p oh op s = (r, t) \<Longrightarrow> t = s \<or> (ss_phase s = PhAuthenticated \<and>
     t = s\<lparr>ss_channels := snd (cm_open DirectTcpip None None (ss_channels s))\<rparr>)"
  unfolding openSessionChannel_def openDirectTcpIpChannel_def op_binds
  by (auto simp: op_bind_def ss_channel_def cm_open_def Let_def op_lift_def op_return_def split: if_splits sum.splits)

lemma chan_only_frames: "chan_only (buildChannelDataFrames i d)"
proof -
  have "\<exists>m. snd (buildChannelDataFrames i d s) = s\<lparr>ss_channels := m\<rparr> \<and> table_step (ss_channels s) m" for s
  proof (induction i d s rule: buildChannelDataFrames.induct)
    case (1 i d s)
    have keep: "\<exists>m. s = s\<lparr>ss_channels := m\<rparr> \<and> table_step (ss_channels s) m"
      by (rule exI [of _ "ss_channels s"]) simp
    show ?case
    proof (cases "d = []")
      case True
      then show ?thesis using keep by (simp add: buildChannelDataFrames.simps)
    next
      case d: False
      obtain q s' where q: "confirmed_channel i s = (q, s')" by fastforce
      then have s': "s' = s" by (auto simp: confirmed_channel_def split: option.splits)
      show ?thesis
      proof (cases q)
        case (Inl e)
        then show ?thesis using d q s' keep by (simp add: buildChannelDataFrames.simps)
      next
        case (Inr cr)
        obtain c r where cr: "cr = (c, r)" by fastforce
        define n where "n = min (min (cs_maximumPacketSize c) (cs_remoteWindow c)) (int (length d))"
        show ?thesis
        proof (cases "n \<le> 0")
          case True
          then show ?thesis using d q s' keep Inr cr by (simp add: buildChannelDataFrames.simps Let_def n_def)
        next
          case False
          obtain b t where b: "buildChannelData i (take (nat n) d) s = (b, t)" by fastforce
          then obtain m where m: "t = s\<lparr>ss_channels := m\<rparr>" "table_step (ss_channels s) m"
            using chan_only_builders(2) unfolding chan_only_def by (metis snd_conv)
          show ?thesis
          proof (cases b)
            case (Inl e)
            then show ?thesis using d q s' \<open>q = Inr cr\<close> cr False b m
              by (auto simp: buildChannelDataFrames.simps [of i d s] Let_def n_def [symmetric])
          next
            case (Inr p)
            have "\<exists>m. snd (buildChannelDataFrames i (drop (nat n) d) t) = t\<lparr>ss_channels := m\<rparr> \<and> table_step (ss_channels t) m"
              using 1 [OF d q [symmetric] \<open>q = Inr cr\<close> cr [symmetric] n_def False b [symmetric] Inr] .
            then show ?thesis using d q s' \<open>q = Inr cr\<close> cr False b m Inr
              by (auto simp: buildChannelDataFrames.simps [of i d s] Let_def n_def [symmetric] intro: table_step_trans
                  split: prod.splits sum.splits)
          qed
        qed
      qed
    qed
  qed
  then show ?thesis by (simp add: chan_only_def)
qed
section \<open>Runs of a session\<close>

text \<open>
  One call of a method, with any arguments, any random bytes and any payload of the server, whether
  it returns or throws.
\<close>

inductive session_step :: "crypto \<Rightarrow> session \<Rightarrow> session \<Rightarrow> bool" for cr where
  step_startKex: "startKex random s = (r, t) \<Longrightarrow> session_step cr s t"
| step_serverKexInit: "receiveServerKexInit cr k p s = (r, t) \<Longrightarrow> session_step cr s t"
| step_completeKex: "completeKex cr p s = (r, t) \<Longrightarrow> session_step cr s t"
| step_newKeys: "receiveNewKeys p s = (r, t) \<Longrightarrow> session_step cr s t"
| step_requestService: "requestUserAuthService s = (r, t) \<Longrightarrow> session_step cr s t"
| step_serviceAccept: "receiveServiceAccept p s = (r, t) \<Longrightarrow> session_step cr s t"
| step_passwordAuth: "buildPasswordAuth name pw s = (r, t) \<Longrightarrow> session_step cr s t"
| step_authResult: "receiveAuthResult p s = (r, t) \<Longrightarrow> session_step cr s t"
| step_openSession: "openSessionChannel s = (r, t) \<Longrightarrow> session_step cr s t"
| step_openDirect: "openDirectTcpIpChannel h port oh oport s = (r, t) \<Longrightarrow> session_step cr s t"
| step_pty: "buildPtyAndShellRequests i cols rows s = (r, t) \<Longrightarrow> session_step cr s t"
| step_data: "buildChannelData i d s = (r, t) \<Longrightarrow> session_step cr s t"
| step_frames: "buildChannelDataFrames i d s = (r, t) \<Longrightarrow> session_step cr s t"
| step_windowChange: "buildWindowChange i cols rows s = (r, t) \<Longrightarrow> session_step cr s t"
| step_eof: "buildChannelEof i s = (r, t) \<Longrightarrow> session_step cr s t"
| step_close: "buildChannelClose i s = (r, t) \<Longrightarrow> session_step cr s t"
| step_sessionId: "getSessionId s = (r, t) \<Longrightarrow> session_step cr s t"
| step_message: "receiveChannelMessage p s = (r, t) \<Longrightarrow> session_step cr s t"
| step_abort: "abortChannel i s = (r, t) \<Longrightarrow> session_step cr s t"
| step_acknowledge: "acknowledgeChannelData i n s = (r, t) \<Longrightarrow> session_step cr s t"

inductive session_run :: "crypto \<Rightarrow> session \<Rightarrow> session \<Rightarrow> bool" for cr s where
  run_refl: "session_run cr s s"
| run_step: "session_run cr s t \<Longrightarrow> session_step cr t u \<Longrightarrow> session_run cr s u"

text \<open>Every step is one of these, and the first kind covers all methods that only use channels.\<close>

lemma session_step_cases:
  assumes "session_step cr s t"
  obtains (channels) m where "t = s\<lparr>ss_channels := m\<rparr>" "table_step (ss_channels s) m"
  | (startKex) random r where "startKex random s = (r, t)"
  | (serverKexInit) k p r where "receiveServerKexInit cr k p s = (r, t)"
  | (completeKex) p r where "completeKex cr p s = (r, t)"
  | (newKeys) p r where "receiveNewKeys p s = (r, t)"
  | (requestService) r where "requestUserAuthService s = (r, t)"
  | (serviceAccept) p r where "receiveServiceAccept p s = (r, t)"
  | (authResult) p r where "receiveAuthResult p s = (r, t)"
  | (openChannel) k where "ss_phase s = PhAuthenticated" "t = s\<lparr>ss_channels := snd (cm_open k None None (ss_channels s))\<rparr>"
proof -
  have c: thesis if c0: "chan_only f" "f s = (r, t)" for f :: "'x sessioning" and r
  proof -
    obtain m where "t = s\<lparr>ss_channels := m\<rparr>" "table_step (ss_channels s) m"
      using c0 unfolding chan_only_def by (metis snd_conv)
    then show thesis by (rule channels)
  qed
  have same: thesis if "t = s"
    by (rule channels [of "ss_channels s"]) (simp_all add: that)
  from assms show thesis
  proof cases
    case (step_passwordAuth name pw r)
    then show ?thesis using phase_steps(4) same by blast
  next
    case (step_openSession r)
    then show ?thesis using open_steps(1) same openChannel by blast
  next
    case (step_openDirect h port oh oport r)
    then show ?thesis using open_steps(2) same openChannel by blast
  next
    case (step_startKex random r)
    then show ?thesis by (rule startKex)
  next
    case (step_serverKexInit k p r)
    then show ?thesis by (rule serverKexInit)
  next
    case (step_completeKex p r)
    then show ?thesis by (rule completeKex)
  next
    case (step_newKeys p r)
    then show ?thesis by (rule newKeys)
  next
    case (step_requestService r)
    then show ?thesis by (rule requestService)
  next
    case (step_serviceAccept p r)
    then show ?thesis by (rule serviceAccept)
  next
    case (step_authResult p r)
    then show ?thesis by (rule authResult)
  next
    case (step_pty i cols rows r)
    show ?thesis by (rule c [OF chan_only_builders(1) step_pty])
  next
    case (step_data i d r)
    show ?thesis by (rule c [OF chan_only_builders(2) step_data])
  next
    case (step_frames i d r)
    show ?thesis by (rule c [OF chan_only_frames step_frames])
  next
    case (step_windowChange i cols rows r)
    show ?thesis by (rule c [OF chan_only_builders(3) step_windowChange])
  next
    case (step_eof i r)
    show ?thesis by (rule c [OF chan_only_builders(4) step_eof])
  next
    case (step_close i r)
    show ?thesis by (rule c [OF chan_only_builders(5) step_close])
  next
    case (step_sessionId r)
    show ?thesis by (rule c [OF chan_only_pure(9) step_sessionId])
  next
    case (step_message p r)
    show ?thesis by (rule c [OF chan_only_receive step_message])
  next
    case (step_abort i r)
    show ?thesis by (rule c [OF chan_only_builders(6) step_abort])
  next
    case (step_acknowledge i n r)
    show ?thesis by (rule c [OF chan_only_builders(7) step_acknowledge])
  qed
qed

section \<open>The invariant of a session\<close>

definition secured_phases :: "session_phase set" where
  "secured_phases = {PhNewkeysSent, PhEncrypted, PhServiceRequestSent, PhAuthenticating, PhAuthenticated}"

definition session_inv :: "session \<Rightarrow> bool" where
  "session_inv s \<longleftrightarrow>
     manager_ok (ss_channels s) \<and>
     ss_resumePhaseAfterKex s \<in> {PhEncrypted, PhAuthenticated} \<and>
     (ss_sessionId s \<noteq> None \<longrightarrow> ss_serverHostKeyFingerprint s \<noteq> None) \<and>
     (\<forall>f. ss_serverHostKeyFingerprint s = Some f \<longrightarrow> \<not> differs (so_expectedServerFingerprint (ss_options s)) f) \<and>
     (ss_phase s \<in> secured_phases \<or> ss_resumePhaseAfterKex s = PhAuthenticated \<longrightarrow> ss_sessionId s \<noteq> None) \<and>
     (0 < cm_nextLocalId (ss_channels s) \<longrightarrow> ss_phase s = PhAuthenticated \<or>
        (ss_phase s \<in> {PhKexinitSent, PhKexdhSent, PhNewkeysSent} \<and> ss_resumePhaseAfterKex s = PhAuthenticated)) \<and>
     (ss_phase s \<in> {PhKexinitSent, PhKexdhSent} \<longrightarrow>
        ss_activeClientKexInit s \<noteq> None \<and> ss_clientKexInitPayload s \<noteq> None) \<and>
     (ss_phase s = PhKexdhSent \<longrightarrow> ss_serverKexInitPayload s \<noteq> None \<and>
        (\<exists>neg x. ss_negotiated s = Some neg \<and> ss_clientExchange s = Some x \<and> exchange_fits neg x))"

lemma session_new_inv: "session_inv (session_new options template)"
  by (simp add: session_inv_def session_new_def cm_new_ok secured_phases_def) (simp add: cm_new_def)

lemma cm_open_next: "cm_nextLocalId (snd (cm_open k lw mp m)) = cm_nextLocalId m + 1"
  by (simp add: cm_open_def Let_def cm_put_def)

lemma inv_channels:
  "session_inv s \<Longrightarrow> table_step (ss_channels s) m \<Longrightarrow> session_inv (s\<lparr>ss_channels := m\<rparr>)"
  by (auto simp: session_inv_def table_step_def)

lemma inv_completeKex:
  assumes "session_inv s" and "completeKex cr p s = (r, t)"
  shows "session_inv t"
proof -
  from completeKex_step [OF assms(2)] consider "t = s"
    | neg kex where "ss_phase s = PhKexdhSent" "host_key_proved cr s neg kex"
      "t = s\<lparr>ss_sessionId := Some (or_else (ss_sessionId s) (ko_exchangeHash kex)),
         ss_serverHostKeyFingerprint :=
           Some (or_else (ss_serverHostKeyFingerprint s) (sha256Fingerprint cr (ko_hostKey kex))),
         ss_phase := PhNewkeysSent\<rparr>"
    by blast
  then show ?thesis
  proof cases
    case 2
    then have "\<not> differs (so_expectedServerFingerprint (ss_options s))
        (or_else (ss_serverHostKeyFingerprint s) (sha256Fingerprint cr (ko_hostKey kex)))"
      using assms(1) by (cases "ss_serverHostKeyFingerprint s") (auto simp: session_inv_def host_key_proved_def)
    then show ?thesis using assms(1) 2 by (auto simp: session_inv_def secured_phases_def)
  qed (use assms(1) in simp)
qed

lemma inv_startKex:
  assumes "session_inv s" and "startKex random s = (r, t)"
  shows "session_inv t"
proof -
  let ?r = "if ss_phase s = PhAuthenticated then PhAuthenticated else PhEncrypted"
  from startKex_step [OF assms(2)] consider "t = s"
    | active where "ss_phase s \<in> {PhIdle, PhAuthenticated}"
      "t = s\<lparr>ss_resumePhaseAfterKex := ?r, ss_activeClientKexInit := Some active\<rparr>"
    | active payload where "ss_phase s \<in> {PhIdle, PhAuthenticated}"
      "t = s\<lparr>ss_resumePhaseAfterKex := ?r, ss_activeClientKexInit := Some active, ss_clientKexInitPayload := Some payload,
        ss_serverKexInitPayload := None, ss_negotiated := None, ss_clientExchange := None, ss_phase := PhKexinitSent\<rparr>"
    by blast
  then show ?thesis
  proof cases
    case 1
    then show ?thesis using assms(1) by simp
  next
    case 2
    from 2(1) show ?thesis
      using assms(1) unfolding 2(2) by (elim insertE emptyE) (auto simp: session_inv_def secured_phases_def)
  next
    case 3
    from 3(1) show ?thesis
      using assms(1) unfolding 3(2) by (elim insertE emptyE) (auto simp: session_inv_def secured_phases_def)
  qed
qed

lemma inv_serverKexInit:
  assumes "session_inv s" and "receiveServerKexInit cr k p s = (r, t)"
  shows "session_inv t"
proof -
  from receiveServerKexInit_step [OF assms(2)] consider "t = s"
    | neg algs where "ss_phase s = PhKexinitSent"
      "t = s\<lparr>ss_negotiated := Some neg, ss_serverKexInitPayload := Some p, ss_serverHostKeyAlgorithms := algs\<rparr>"
    | neg algs x where "ss_phase s = PhKexinitSent" "exchange_fits neg x"
      "t = s\<lparr>ss_negotiated := Some neg, ss_serverKexInitPayload := Some p, ss_serverHostKeyAlgorithms := algs,
        ss_clientExchange := Some x, ss_phase := PhKexdhSent\<rparr>"
    by blast
  then show ?thesis
    by cases (use assms(1) in \<open>auto simp: session_inv_def secured_phases_def\<close>)
qed

lemma inv_newKeys:
  assumes "session_inv s" and "receiveNewKeys p s = (r, t)"
  shows "session_inv t"
proof -
  from phase_steps(1) [OF assms(2)] consider "t = s"
    | "ss_phase s = PhNewkeysSent"
      "t = s\<lparr>ss_phase := ss_resumePhaseAfterKex s, ss_completedKexCount := ss_completedKexCount s + 1\<rparr>"
    by blast
  then show ?thesis
  proof cases
    case 2
    have "ss_resumePhaseAfterKex s = PhEncrypted \<or> ss_resumePhaseAfterKex s = PhAuthenticated"
      using assms(1) by (simp add: session_inv_def)
    then show ?thesis
      using assms(1) 2(1) unfolding 2(2)
      by (elim disjE) (simp_all add: session_inv_def secured_phases_def)
  qed (use assms(1) in simp)
qed

lemma inv_phase:
  assumes "session_inv s" and "ss_phase s \<in> {PhEncrypted, PhServiceRequestSent, PhAuthenticating}"
    and "q \<in> {PhServiceRequestSent, PhAuthenticating, PhAuthenticated}"
  shows "session_inv (s\<lparr>ss_phase := q\<rparr>)"
proof -
  have sid: "ss_sessionId s \<noteq> None"
    using assms(1,2) by (auto simp: session_inv_def secured_phases_def)
  have "0 < cm_nextLocalId (ss_channels s) \<longrightarrow> ss_phase s = PhAuthenticated \<or>
        (ss_phase s \<in> {PhKexinitSent, PhKexdhSent, PhNewkeysSent} \<and> ss_resumePhaseAfterKex s = PhAuthenticated)"
    using assms(1) by (simp add: session_inv_def)
  then have none: "\<not> 0 < cm_nextLocalId (ss_channels s)" using assms(2) by (elim insertE emptyE) simp_all
  show ?thesis
    using assms(1,3) sid none unfolding session_inv_def by (elim insertE emptyE) (simp_all del: not_less)
qed

lemma inv_step: "session_step cr s t \<Longrightarrow> session_inv s \<Longrightarrow> session_inv t"
proof (erule session_step_cases)
  assume inv: "session_inv s"
  show "session_inv t" if "t = s\<lparr>ss_channels := m\<rparr>" "table_step (ss_channels s) m" for m
    using inv that by (simp add: inv_channels)
  show "session_inv t" if "startKex random s = (r, t)" for random r
    using inv_startKex [OF inv that] .
  show "session_inv t" if "receiveServerKexInit cr k p s = (r, t)" for k p r
    using inv_serverKexInit [OF inv that] .
  show "session_inv t" if "completeKex cr p s = (r, t)" for p r
    using inv_completeKex [OF inv that] .
  show "session_inv t" if "receiveNewKeys p s = (r, t)" for p r
    using inv_newKeys [OF inv that] .
  show "session_inv t" if "requestUserAuthService s = (r, t)" for r
    using phase_steps(2) [OF that] inv inv_phase [OF inv] by fastforce
  show "session_inv t" if "receiveServiceAccept p s = (r, t)" for p r
    using phase_steps(3) [OF that] inv inv_phase [OF inv] by fastforce
  show "session_inv t" if "receiveAuthResult p s = (r, t)" for p r
    using phase_steps(5) [OF that] inv inv_phase [OF inv] by fastforce
  show "session_inv t" if "ss_phase s = PhAuthenticated"
    "t = s\<lparr>ss_channels := snd (cm_open k None None (ss_channels s))\<rparr>" for k
    using inv that by (simp add: session_inv_def cm_open_default_ok secured_phases_def)
qed

lemma inv_run: "session_run cr s t \<Longrightarrow> session_inv s \<Longrightarrow> session_inv t"
  by (induction rule: session_run.induct) (auto intro: inv_step)

text \<open>What no step takes back: the options, the session id and the pinned host key.\<close>

definition keeps :: "session \<Rightarrow> session \<Rightarrow> bool" where
  "keeps s t \<longleftrightarrow> ss_options t = ss_options s \<and> ss_clientKexInitTemplate t = ss_clientKexInitTemplate s \<and>
     (\<forall>i. ss_sessionId s = Some i \<longrightarrow> ss_sessionId t = Some i) \<and>
     (\<forall>f. ss_serverHostKeyFingerprint s = Some f \<longrightarrow> ss_serverHostKeyFingerprint t = Some f)"

lemma keeps_step: "session_step cr s t \<Longrightarrow> keeps s t"
proof (erule session_step_cases)
  show "keeps s t" if "startKex random s = (r, t)" for random r
    using startKex_step [OF that] by (auto simp: keeps_def)
  show "keeps s t" if "receiveServerKexInit cr k p s = (r, t)" for k p r
    using receiveServerKexInit_step [OF that] by (auto simp: keeps_def)
  show "keeps s t" if "completeKex cr p s = (r, t)" for p r
    using completeKex_step [OF that] by (auto simp: keeps_def)
  show "keeps s t" if "receiveNewKeys p s = (r, t)" for p r
    using phase_steps(1) [OF that] by (auto simp: keeps_def)
  show "keeps s t" if "requestUserAuthService s = (r, t)" for r
    using phase_steps(2) [OF that] by (auto simp: keeps_def)
  show "keeps s t" if "receiveServiceAccept p s = (r, t)" for p r
    using phase_steps(3) [OF that] by (auto simp: keeps_def)
  show "keeps s t" if "receiveAuthResult p s = (r, t)" for p r
    using phase_steps(5) [OF that] by (auto simp: keeps_def)
qed (auto simp: keeps_def)

lemma keeps_run: "session_run cr s t \<Longrightarrow> keeps s t"
  by (induction rule: session_run.induct) (auto simp: keeps_def dest!: keeps_step)

section \<open>Sending data\<close>

lemma confirmed_channel_eq:
  "confirmed_channel i s = (Inr (c, r), t) \<longleftrightarrow>
     cm_channels (ss_channels s) i = Some c \<and> cs_remoteId c = Some r \<and> t = s"
  by (auto simp: confirmed_channel_def cm_get_def split: option.splits)

definition with_remote_window :: "int \<Rightarrow> channel_state \<Rightarrow> int \<Rightarrow> session \<Rightarrow> session" where
  "with_remote_window i c w s = s\<lparr>ss_channels := cm_put i (c\<lparr>cs_remoteWindow := w\<rparr>) (ss_channels s)\<rparr>"

lemma buildChannelData_ok:
  assumes "cm_channels (ss_channels s) i = Some c" "cs_remoteId c = Some r" "channel_ok c"
    and "cs_lifecycle c \<in> {Open, EofReceived}"
    and "int (length d) \<le> cs_maximumPacketSize c" "int (length d) \<le> cs_remoteWindow c"
  shows "\<exists>p. encodeChannelData \<lparr>cd_recipientChannel = r, cd_data = d\<rparr> = Inr p \<and>
    buildChannelData i d s = (Inr p, with_remote_window i c (cs_remoteWindow c - int (length d)) s)"
proof -
  have r: "0 \<le> r" "r \<le> 0xffffffff" and w: "cs_remoteWindow c \<le> 0xffffffff"
    using assms(2,3) by (simp_all add: channel_ok_def)
  then have "channel_data_ok \<lparr>cd_recipientChannel = r, cd_data = d\<rparr>"
    using assms(6) by (simp add: channel_data_ok_def uint32_ok_def buffer_ok_def)
  then obtain p where p: "encodeChannelData \<lparr>cd_recipientChannel = r, cd_data = d\<rparr> = Inr p"
    by (simp add: encodeChannelData_eq)
  have "cm_consumeRemoteWindow i (int (length d)) (ss_channels s) =
      (Inr (c\<lparr>cs_remoteWindow := cs_remoteWindow c - int (length d)\<rparr>),
       cm_put i (c\<lparr>cs_remoteWindow := cs_remoteWindow c - int (length d)\<rparr>) (ss_channels s))"
    using assms by (auto simp: cm_consumeRemoteWindow_def cm_op_simps)
  then show ?thesis
    using p assms(5) confirmed_channel_eq [of i s c r s] assms(1,2)
    by (simp add: buildChannelData_def op_bind_def op_lift_def ss_channel_def with_remote_window_def)
qed

lemma with_remote_window_twice:
  assumes "i \<in> set (cm_order (ss_channels s))"
  shows "with_remote_window i (c\<lparr>cs_remoteWindow := v\<rparr>) w (with_remote_window i c v s) = with_remote_window i c w s"
  using assms by (simp add: with_remote_window_def cm_put_def)

lemma with_remote_window_self:
  assumes "cm_channels (ss_channels s) i = Some c" "i \<in> set (cm_order (ss_channels s))"
  shows "with_remote_window i c (cs_remoteWindow c) s = s"
proof -
  have "cm_put i c (ss_channels s) = ss_channels s" by (rule cm_put_same) (use assms in simp_all)
  then show ?thesis by (simp add: with_remote_window_def)
qed

lemma frames_exact:
  assumes "cm_channels (ss_channels s) i = Some c" "cs_remoteId c = Some r" "channel_ok c"
    and "cs_lifecycle c \<in> {Open, EofReceived}" and "i \<in> set (cm_order (ss_channels s))"
  shows "\<exists>chunks payloads. let n = min (int (length d)) (cs_remoteWindow c) in
    buildChannelDataFrames i d s = (Inr (payloads, nat n), with_remote_window i c (cs_remoteWindow c - n) s) \<and>
    concat chunks = take (nat n) d \<and>
    map (\<lambda>x. encodeChannelData \<lparr>cd_recipientChannel = r, cd_data = x\<rparr>) chunks = map Inr payloads \<and>
    (\<forall>x\<in>set chunks. x \<noteq> [] \<and> int (length x) \<le> cs_maximumPacketSize c)"
  using assms
proof (induction "length d" arbitrary: d s c rule: less_induct)
  case less
  note I = less.prems
  have mp: "0 < cs_maximumPacketSize c" and w0: "0 \<le> cs_remoteWindow c" using I(3) by (simp_all add: channel_ok_def)
  define k where "k = min (min (cs_maximumPacketSize c) (cs_remoteWindow c)) (int (length d))"
  have cc: "confirmed_channel i s = (Inr (c, r), s)" using I(1,2) by (simp add: confirmed_channel_eq)
  show ?case
  proof (cases "k \<le> 0")
    case True
    then have z: "min (int (length d)) (cs_remoteWindow c) = 0" using mp w0 by (simp add: k_def min_def split: if_splits)
    have "buildChannelDataFrames i d s = (Inr ([], 0), s)"
      using True cc by (subst buildChannelDataFrames.simps) (simp add: k_def)
    then show ?thesis using I(1,5) z
      by (intro exI [of _ "[]"]) (simp add: with_remote_window_self)
  next
    case False
    then have d: "d \<noteq> []" by (auto simp: k_def)
    have "k \<le> int (length d)" by (simp add: k_def)
    then have "nat k \<le> length d" by linarith
    then have kb: "int (length (take (nat k) d)) = k" using False by simp
    have kle: "k \<le> cs_maximumPacketSize c" "k \<le> cs_remoteWindow c" by (simp_all add: k_def)
    obtain p where p: "encodeChannelData \<lparr>cd_recipientChannel = r, cd_data = take (nat k) d\<rparr> = Inr p"
      and b: "buildChannelData i (take (nat k) d) s = (Inr p, with_remote_window i c (cs_remoteWindow c - k) s)"
      using buildChannelData_ok [OF I(1-4), of "take (nat k) d", unfolded kb] kle by blast
    let ?c = "c\<lparr>cs_remoteWindow := cs_remoteWindow c - k\<rparr>" and ?s = "with_remote_window i c (cs_remoteWindow c - k) s"
    let ?d = "drop (nat k) d"
    have ok: "channel_ok ?c" using I(3) False kle by (auto simp: channel_ok_def split: option.splits)
    have st: "cm_channels (ss_channels ?s) i = Some ?c" "i \<in> set (cm_order (ss_channels ?s))"
      using I(5) by (simp_all add: with_remote_window_def cm_put_def)
    define m where "m = min (int (length ?d)) (cs_remoteWindow ?c)"
    obtain chunks payloads where IH:
      "buildChannelDataFrames i ?d ?s = (Inr (payloads, nat m), with_remote_window i ?c (cs_remoteWindow ?c - m) ?s)"
      "concat chunks = take (nat m) ?d"
      "map (\<lambda>x. encodeChannelData \<lparr>cd_recipientChannel = r, cd_data = x\<rparr>) chunks = map Inr payloads"
      "\<forall>x\<in>set chunks. x \<noteq> [] \<and> int (length x) \<le> cs_maximumPacketSize ?c"
      using less.hyps [of ?d ?s ?c, OF _ st(1) _ ok _ st(2)] I(2,4) d False unfolding m_def Let_def
      by (auto simp: length_greater_0_conv [symmetric] simp del: length_greater_0_conv)
    have n: "min (int (length d)) (cs_remoteWindow c) = k + m" "0 \<le> m"
      using False by (auto simp: m_def k_def min_def split: if_splits)
    have "buildChannelDataFrames i d s = (Inr (p # payloads, nat k + nat m), with_remote_window i c (cs_remoteWindow c - (k + m)) s)"
      using d cc False b IH(1) with_remote_window_twice [OF I(5)]
      by (subst buildChannelDataFrames.simps) (simp add: k_def [symmetric] algebra_simps)
    moreover have "nat (k + m) = nat k + nat m" using False n(2) by (simp add: nat_add_distrib)
    moreover have "take (nat k + nat m) d = take (nat k) d @ take (nat m) ?d" by (rule take_add)
    moreover have "int (length (take (nat k) d)) \<le> cs_maximumPacketSize c" using kb by (simp add: k_def)
    ultimately show ?thesis
      using IH(2-4) p False d unfolding n Let_def
      by (intro exI [of _ "take (nat k) d # chunks"] exI [of _ "p # payloads"]) auto
  qed
qed

end
