(* ===== verification/SshSessionSafety.thy ===== *)
theory SshSessionSafety
  imports SshSession
begin

text \<open>
  What the state machine of \<open>src/core/ssh/session-state.ts\<close> guarantees: a completed key exchange
  has verified the server, the reachable states are safe, data sent on a channel is a prefix of the
  data given, and a message of the server touches only the channel it names.  The last section
  runs a complete key exchange on a concrete client.
\<close>

inductive_cases session_runE: "session_run cr s t"

lemma table_channel_open:
  assumes "manager_ok m" "cm_channels m i = Some c"
  shows "0 < cm_nextLocalId m"
  using manager_okD(3,4) [OF assms] by linarith

section \<open>Properties\<close>

text \<open>C5: A key exchange that completes has verified the server: the reply that was received, together
  with the transcript the client stored, hashes to the exchange hash; the server's signature over that
  hash verifies under the host key of the reply; the key's fingerprint is the expected one and the one
  pinned by an earlier exchange, where there are such; key and signature are of the negotiated
  algorithm; and the session id is that of the first exchange.\<close>

theorem kex_completion_verified:
  assumes "completeKex cr reply s = (Inr c, t)"
  shows "\<exists>exchange cp sp neg kex k sig.
    ss_phase s = PhKexdhSent \<and> ss_phase t = PhNewkeysSent \<and>
    ss_clientExchange s = Some exchange \<and> ss_clientKexInitPayload s = Some cp \<and>
    ss_serverKexInitPayload s = Some sp \<and> ss_negotiated s = Some neg \<and>
    completeKexExchange cr (na_kexAlgorithm neg) exchange reply (so_clientVersion (ss_options s))
      (so_serverVersion (ss_options s)) cp sp = Inr kex \<and>
    kc_exchangeHash c = ko_exchangeHash kex \<and>
    verifySshSignature cr (ko_hostKey kex) (ko_exchangeHash kex) (ko_signature kex) = Inr True \<and>
    parseSshHostKeyBlob cr (ko_hostKey kex) = Inr k \<and> parseSshSignatureBlob (ko_signature kex) = Inr sig \<and>
    ps_algorithm sig = na_serverHostKeyAlgorithm neg \<and>
    (is_rsa_name (ph_algorithm k) \<or> ph_algorithm k = js ''ssh-ed25519'') \<and>
    kc_serverHostKeyFingerprint c = sha256Fingerprint cr (ko_hostKey kex) \<and>
    so_expectedServerFingerprint (ss_options s) \<in> {None, Some [], Some (kc_serverHostKeyFingerprint c)} \<and>
    ss_serverHostKeyFingerprint s \<in> {None, Some [], Some (kc_serverHostKeyFingerprint c)} \<and>
    ss_sessionId t = Some (kc_sessionId c) \<and>
    kc_sessionId c = (case ss_sessionId s of None \<Rightarrow> kc_exchangeHash c | Some i \<Rightarrow> i)"
proof -
  from completeKex_step [OF assms] obtain exchange cp sp neg kex where st:
    "ss_phase s = PhKexdhSent" "ss_clientExchange s = Some exchange" "ss_clientKexInitPayload s = Some cp"
    "ss_serverKexInitPayload s = Some sp" "ss_negotiated s = Some neg"
    "completeKexExchange cr (na_kexAlgorithm neg) exchange reply (so_clientVersion (ss_options s))
      (so_serverVersion (ss_options s)) cp sp = Inr kex"
    and hk: "host_key_proved cr s neg kex"
    and t: "ss_phase t = PhNewkeysSent" "ss_sessionId t = Some (or_else (ss_sessionId s) (ko_exchangeHash kex))"
    and c: "kc_exchangeHash c = ko_exchangeHash kex" "Some (kc_sessionId c) = ss_sessionId t"
      "kc_serverHostKeyFingerprint c = sha256Fingerprint cr (ko_hostKey kex)"
    by auto
  obtain k sig where ks: "parseSshHostKeyBlob cr (ko_hostKey kex) = Inr k"
      "parseSshSignatureBlob (ko_signature kex) = Inr sig" "ps_algorithm sig = na_serverHostKeyAlgorithm neg"
      "is_rsa_name (ph_algorithm k) \<or> ph_algorithm k = js ''ssh-ed25519''"
    using hk unfolding host_key_proved_def assertNegotiatedHostKeyAndSignature_def
    by (auto simp: res_bind_eq_Inr simp del: js_simps split: if_splits)
  have fp: "x \<in> {None, Some [], Some f}" if "\<not> differs x f" for x f
    using that by (cases x) (auto simp: differs_def)
  have "so_expectedServerFingerprint (ss_options s) \<in> {None, Some [], Some (kc_serverHostKeyFingerprint c)}"
    "ss_serverHostKeyFingerprint s \<in> {None, Some [], Some (kc_serverHostKeyFingerprint c)}"
    using fp [of _ "sha256Fingerprint cr (ko_hostKey kex)"] hk unfolding host_key_proved_def c(3) by blast+
  moreover have "verifySshSignature cr (ko_hostKey kex) (ko_exchangeHash kex) (ko_signature kex) = Inr True"
    using hk by (simp add: host_key_proved_def)
  moreover have "kc_sessionId c = (case ss_sessionId s of None \<Rightarrow> kc_exchangeHash c | Some i \<Rightarrow> i)"
    using t(2) c(1,2) by (simp add: or_else_def split: option.split)
  ultimately show ?thesis using st t(1) c ks
    by (intro exI [of _ exchange] exI [of _ cp] exI [of _ sp] exI [of _ neg] exI [of _ kex] exI [of _ k] exI [of _ sig])
      (simp del: js_simps)
qed

text \<open>C6: Safety of every reachable state: a session that has left its first key exchange has a session
  id and a pinned host key, and the pin is the expected fingerprint where one was configured; a channel
  exists only in an authenticated session (or one re-exchanging keys after authentication); and
  when the server's key exchange reply is awaited, all that completing the exchange needs is stored,
  with the exchange object of the kind the negotiated algorithm asks for.\<close>

theorem session_reachable_safety:
  assumes "session_run cr (session_new options template) s"
  shows "(getPhase s \<in> {PhNewkeysSent, PhEncrypted, PhServiceRequestSent, PhAuthenticating, PhAuthenticated} \<longrightarrow>
      ss_sessionId s \<noteq> None \<and>
      (\<exists>f. ss_serverHostKeyFingerprint s = Some f \<and> so_expectedServerFingerprint options \<in> {None, Some [], Some f})) \<and>
    (getChannel i s \<noteq> None \<longrightarrow> getPhase s = PhAuthenticated \<or>
      (getPhase s \<in> {PhKexinitSent, PhKexdhSent, PhNewkeysSent} \<and> ss_resumePhaseAfterKex s = PhAuthenticated)) \<and>
    (getPhase s = PhKexdhSent \<longrightarrow> ss_clientKexInitPayload s \<noteq> None \<and> ss_serverKexInitPayload s \<noteq> None \<and>
      (\<exists>neg x. ss_negotiated s = Some neg \<and> ss_clientExchange s = Some x \<and>
        isCurve25519Kex (na_kexAlgorithm neg) = (\<exists>p k. x = CurveExchange p k)))"
proof -
  have inv: "session_inv s" using inv_run [OF assms session_new_inv] .
  have opt: "ss_options s = options" using keeps_run [OF assms] by (simp add: keeps_def session_new_def)
  have "ss_sessionId s \<noteq> None \<and>
      (\<exists>f. ss_serverHostKeyFingerprint s = Some f \<and> so_expectedServerFingerprint options \<in> {None, Some [], Some f})"
    if "ss_phase s \<in> secured_phases"
  proof -
    have "ss_sessionId s \<noteq> None" using inv that by (simp add: session_inv_def)
    moreover obtain f where "ss_serverHostKeyFingerprint s = Some f" "\<not> differs (so_expectedServerFingerprint options) f"
      using inv calculation unfolding opt [symmetric] by (auto simp: session_inv_def)
    ultimately show ?thesis by (cases "so_expectedServerFingerprint options") (auto simp: differs_def)
  qed
  moreover have "ss_phase s = PhAuthenticated \<or>
      (ss_phase s \<in> {PhKexinitSent, PhKexdhSent, PhNewkeysSent} \<and> ss_resumePhaseAfterKex s = PhAuthenticated)"
    if gc: "getChannel i s \<noteq> None"
  proof -
    obtain c where "cm_channels (ss_channels s) i = Some c" using gc by (cases "cm_channels (ss_channels s) i") (simp_all add: getChannel_def cm_get_def)
    moreover have "manager_ok (ss_channels s)" using inv by (simp add: session_inv_def)
    ultimately have "0 < cm_nextLocalId (ss_channels s)" by (intro table_channel_open)
    then show ?thesis using inv by (simp add: session_inv_def)
  qed
  moreover have "\<exists>neg x. ss_negotiated s = Some neg \<and> ss_clientExchange s = Some x \<and>
        isCurve25519Kex (na_kexAlgorithm neg) = (\<exists>p k. x = CurveExchange p k)" if ph: "ss_phase s = PhKexdhSent"
  proof -
    obtain neg x where "ss_negotiated s = Some neg" "ss_clientExchange s = Some x" "exchange_fits neg x"
      using inv ph unfolding session_inv_def by blast
    then show ?thesis by (cases x) (auto simp: exchange_fits_def)
  qed
  moreover have "ss_clientKexInitPayload s \<noteq> None \<and> ss_serverKexInitPayload s \<noteq> None" if "ss_phase s = PhKexdhSent"
    using inv that by (simp add: session_inv_def)
  ultimately show ?thesis unfolding getPhase_def secured_phases_def by blast
qed


text \<open>C8: The peer of the frames below is the receiving end of a channel: it reads a payload with
  \<open>decodeChannelData\<close>.  What is sent is a prefix of the data, as long as the window allows, whole and
  in order, in packets the peer accepts; the window shrinks by exactly the bytes sent.\<close>

theorem frames_deliver_prefix:
  assumes "manager_ok (ss_channels s)" and "getChannel i s = Some c" and "cs_remoteId c = Some r"
    and "cs_lifecycle c \<in> {Open, EofReceived}"
  shows "\<exists>chunks payloads. let n = min (int (length d)) (cs_remoteWindow c) in
    buildChannelDataFrames i d s = (Inr (payloads, nat n), with_remote_window i c (cs_remoteWindow c - n) s) \<and>
    concat chunks = take (nat n) d \<and>
    map decodeChannelData payloads = map (\<lambda>x. Inr \<lparr>cd_recipientChannel = r, cd_data = x\<rparr>) chunks \<and>
    list_all (\<lambda>x. x \<noteq> [] \<and> int (length x) \<le> cs_maximumPacketSize c) chunks"
proof -
  have c: "cm_channels (ss_channels s) i = Some c" using assms(2) by (simp add: getChannel_def cm_get_def)
  have ok: "channel_ok c" using manager_okD(1) [OF assms(1) c] .
  have ord: "i \<in> set (cm_order (ss_channels s))" using assms(1) c by (auto simp: manager_ok_def)
  obtain chunks payloads where F: "let n = min (int (length d)) (cs_remoteWindow c) in
    buildChannelDataFrames i d s = (Inr (payloads, nat n), with_remote_window i c (cs_remoteWindow c - n) s) \<and>
    concat chunks = take (nat n) d \<and>
    map (\<lambda>x. encodeChannelData \<lparr>cd_recipientChannel = r, cd_data = x\<rparr>) chunks = map Inr payloads \<and>
    (\<forall>x\<in>set chunks. x \<noteq> [] \<and> int (length x) \<le> cs_maximumPacketSize c)"
    using frames_exact [OF c assms(3) ok assms(4) ord] by blast
  have "map decodeChannelData payloads = map (\<lambda>x. Inr \<lparr>cd_recipientChannel = r, cd_data = x\<rparr>) chunks"
  proof (rule nth_equalityI)
    have E: "map (\<lambda>x. encodeChannelData \<lparr>cd_recipientChannel = r, cd_data = x\<rparr>) chunks = map Inr payloads"
      using F by (simp add: Let_def)
    from arg_cong [OF E, of length] show l: "length (map decodeChannelData payloads) =
        length (map (\<lambda>x. Inr \<lparr>cd_recipientChannel = r, cd_data = x\<rparr> :: ssh_error + channel_data) chunks)" by simp
    fix j assume j: "j < length (map decodeChannelData payloads)"
    have "encodeChannelData \<lparr>cd_recipientChannel = r, cd_data = chunks ! j\<rparr> = Inr (payloads ! j)"
      using arg_cong [OF E, of "\<lambda>xs. xs ! j"] j l by simp
    moreover have "channel_data_ok \<lparr>cd_recipientChannel = r, cd_data = chunks ! j\<rparr>"
    proof -
      have "int (length (chunks ! j)) \<le> cs_maximumPacketSize c" using F j l by (simp add: Let_def)
      then show ?thesis using ok assms(3)
        by (simp add: channel_ok_def channel_data_ok_def uint32_ok_def buffer_ok_def MAXIMUM_OUTBOUND_CHANNEL_DATA_SIZE_def)
    qed
    ultimately show "map decodeChannelData payloads ! j =
        map (\<lambda>x. Inr \<lparr>cd_recipientChannel = r, cd_data = x\<rparr>) chunks ! j"
      using j l by (simp add: channel_data_codec.decode_encode)
  qed
  then show ?thesis using F by (intro exI [of _ chunks] exI [of _ payloads]) (simp add: Let_def list_all_iff)
qed

section \<open>A server message touches one channel\<close>

definition event_frame :: "channel_event sessioning \<Rightarrow> session \<Rightarrow> bool" where
  "event_frame f s \<longleftrightarrow> (case f s of (Inl e, t) \<Rightarrow> t = s
     | (Inr ev, t) \<Rightarrow> \<exists>m. t = s\<lparr>ss_channels := m\<rparr> \<and>
         {j. cm_channels m j \<noteq> cm_channels (ss_channels s) j} \<subseteq>
         {j. ev_localChannel ev = Some j \<and> cm_channels (ss_channels s) j \<noteq> None})"

lemma event_frame_same: "snd (f s) = s \<Longrightarrow> event_frame f s"
  by (cases "f s") (auto simp: event_frame_def intro!: exI [of _ "ss_channels s"] split: sum.split)

lemma event_frame_throw: "event_frame (op_throw e) s"
  by (simp add: event_frame_def op_throw_def)

lemma event_frame_lift: "(\<And>x. r = Inr x \<Longrightarrow> event_frame (f x) s) \<Longrightarrow> event_frame (op_bind (op_lift r) f) s"
  by (cases r) (simp_all add: event_frame_def op_binds)

lemma event_frame_get: "event_frame (f (cm_channels (ss_channels s) i)) s \<Longrightarrow> event_frame (op_bind (channel_get i) f) s"
  by (simp add: event_frame_def channel_get_def op_binds cm_get_def)

text \<open>An operation of the channel table either fails and changes nothing or changes one channel.\<close>

definition on_channel :: "int \<Rightarrow> 'a managing \<Rightarrow> bool" where
  "on_channel i f \<longleftrightarrow> (\<forall>m. case f m of (Inl e, m') \<Rightarrow> m' = m
     | (Inr x, m') \<Rightarrow> {j. cm_channels m' j \<noteq> cm_channels m j} \<subseteq> {i})"

lemma on_channel_ops:
  "on_channel i (cm_confirmOpen i r w p)" "on_channel i (cm_consumeLocalWindow i n)" "on_channel i (cm_expandRemoteWindow i n)"
  "on_channel i (cm_markEofReceived i)" "on_channel i (cm_close i)"
  unfolding on_channel_def
  by (rule allI; case_tac "cm_channels m i"; simp add: cm_confirmOpen_def cm_consumeLocalWindow_def
      cm_expandRemoteWindow_def cm_markEofReceived_def cm_close_def cm_op_simps cm_put_def subset_iff)+

lemma event_frame_channel:
  assumes "on_channel i f" "ev_localChannel ev = Some i" "cm_channels (ss_channels s) i \<noteq> None"
  shows "event_frame (op_bind (ss_channel f) (\<lambda>_. op_return ev)) s"
proof -
  obtain r m where f: "f (ss_channels s) = (r, m)" by fastforce
  have "case (r, m) of (Inl e, m') \<Rightarrow> m' = ss_channels s
     | (Inr x, m') \<Rightarrow> {j. cm_channels m' j \<noteq> cm_channels (ss_channels s) j} \<subseteq> {i}"
    using spec [OF assms(1) [unfolded on_channel_def], of "ss_channels s"] f by simp
  then show ?thesis using f assms(2,3)
    by (cases r) (auto simp: event_frame_def op_bind_def ss_channel_def op_return_def)
qed

lemma event_frame_handlers:
  "event_frame (receiveOpen p) s" "event_frame (receiveOpenConfirmation p) s" "event_frame (receiveOpenFailure p) s"
  "event_frame (receiveWindowAdjust p) s" "event_frame (receiveData p) s" "event_frame (receiveExtendedData p) s"
  "event_frame (receiveEof p) s" "event_frame (receiveClose p) s" "event_frame (receiveRequestReply n t u p) s"
  "event_frame (receiveChannelRequest p) s"
  unfolding receiveOpen_def receiveOpenConfirmation_def receiveOpenFailure_def receiveWindowAdjust_def receiveData_def
    receiveExtendedData_def receiveEof_def receiveClose_def receiveRequestReply_def receiveChannelRequest_def
  by (intro event_frame_lift event_frame_get;
      auto intro!: event_frame_lift event_frame_channel on_channel_ops
        simp: event_frame_throw event_of_def event_frame_same op_return_def split: option.split)+

text \<open>C7: Whatever the server sends, a message that is rejected changes nothing, and one that is accepted
  changes at most the one channel its event names, and only if that channel exists: data, window
  adjustments, EOF and CLOSE for unknown or abandoned channels are ignored.\<close>

theorem server_message_isolated:
  "case receiveChannelMessage payload s of
     (Inl e, t) \<Rightarrow> t = s
   | (Inr ev, t) \<Rightarrow> \<exists>m. t = s\<lparr>ss_channels := m\<rparr> \<and>
       {j. getChannel j t \<noteq> getChannel j s} \<subseteq> {j. ev_localChannel ev = Some j \<and> getChannel j s \<noteq> None}"
proof -
  have "event_frame (receiveChannelMessage payload) s"
    unfolding receiveChannelMessage_def
    by (intro event_frame_lift) (simp add: event_frame_handlers event_frame_throw)
  moreover obtain r t where "receiveChannelMessage payload s = (r, t)" by fastforce
  ultimately show ?thesis
    by (cases r) (auto simp: event_frame_def getChannel_def cm_get_def)
qed


section \<open>Examples\<close>

text \<open>A server whose every signature is accepted, and a client that waits for its reply.\<close>

definition accepting_crypto :: crypto where
  "accepting_crypto = \<lparr>cr_sha256 = (\<lambda>b. replicate 32 9), cr_x25519_public = (\<lambda>k. k),
     cr_x25519_secret = (\<lambda>k p. Inr [1]), cr_group14_public = (\<lambda>k. k), cr_group14_secret = (\<lambda>k p. Inr [1]),
     cr_key_valid = (\<lambda>k. True), cr_verify = (\<lambda>h d k s. True)\<rparr>"

definition example_algorithms :: negotiated_algorithms where
  "example_algorithms = \<lparr>na_kexAlgorithm = js ''curve25519-sha256'', na_serverHostKeyAlgorithm = js ''ssh-ed25519'',
     na_encryptionClientToServer = js ''aes256-ctr'', na_encryptionServerToClient = js ''aes128-ctr'',
     na_macClientToServer = js ''hmac-sha2-256'', na_macServerToClient = js ''hmac-sha2-512'',
     na_compressionClientToServer = js ''none'', na_compressionServerToClient = js ''none''\<rparr>"

definition example_host_key :: bytes where
  "example_host_key = enc_text (js ''ssh-ed25519'') @ enc_buffer (replicate 32 5)"

definition example_signature :: bytes where
  "example_signature = enc_text (js ''ssh-ed25519'') @ enc_buffer [8, 8]"

definition example_reply :: bytes where
  "example_reply = enc_byte SSH_MSG_KEX_ECDH_REPLY @ enc_buffer example_host_key @ enc_buffer (replicate 32 7) @
     enc_buffer example_signature"

definition waiting_session :: session where
  "waiting_session = (session_new \<lparr>so_clientVersion = [67], so_serverVersion = [83],
       so_expectedServerFingerprint = Some (sha256Fingerprint accepting_crypto example_host_key)\<rparr>
       (createDefaultKexInit (replicate 16 7)))
     \<lparr>ss_phase := PhKexdhSent, ss_clientKexInitPayload := Some [20], ss_serverKexInitPayload := Some [20],
      ss_negotiated := Some example_algorithms, ss_clientExchange := Some (CurveExchange (replicate 32 1) [2])\<rparr>"

lemma accepting_digest_ok: "digest_ok accepting_crypto"
  by (simp add: digest_ok_def accepting_crypto_def)

lemma accepting_verify: "cr_verify accepting_crypto h d k s"
  by (simp add: accepting_crypto_def)

lemma example_key_parses:
  "parseSshHostKeyBlob accepting_crypto example_host_key =
     Inr \<lparr>ph_algorithm = js ''ssh-ed25519'', ph_blob = example_host_key, ph_keyObject = Ed25519Key (replicate 32 5)\<rparr>"
  "parseSshSignatureBlob example_signature = Inr \<lparr>ps_algorithm = js ''ssh-ed25519'', ps_signature = [8, 8]\<rparr>"
proof -
  have t: "text_ok (js ''ssh-ed25519'')" by (rule text_ok_literal, code_simp, simp)
  have b: "buffer_ok (replicate 32 5)" "buffer_ok [8, 8]" by (simp_all add: buffer_ok_def)
  have r: "\<not> is_rsa_name (js ''ssh-ed25519'')" by code_simp
  show "parseSshHostKeyBlob accepting_crypto example_host_key =
     Inr \<lparr>ph_algorithm = js ''ssh-ed25519'', ph_blob = example_host_key, ph_keyObject = Ed25519Key (replicate 32 5)\<rparr>"
    using t b r by (simp add: example_host_key_def parseSshHostKeyBlob_def read_all_rdr codec_bind codec_simps del: js_simps)
      (simp add: op_defs createPublicKey_def accepting_crypto_def)
  show "parseSshSignatureBlob example_signature = Inr \<lparr>ps_algorithm = js ''ssh-ed25519'', ps_signature = [8, 8]\<rparr>"
    using t b by (simp add: example_signature_def parseSshSignatureBlob_def read_all_rdr codec_bind codec_simps
        op_return_def del: js_simps)
qed

lemma example_lengths:
  "buffer_ok example_host_key" "buffer_ok example_signature"
proof -
  have "is_ascii (js ''ssh-ed25519'')" "length (js ''ssh-ed25519'') = 11" by code_simp+
  then have "length (enc_text (js ''ssh-ed25519'')) = 15"
    by (simp add: enc_text_def enc_buffer_def utf8_encode_ascii enc_uint32_def del: js_simps)
  then show "buffer_ok example_host_key" "buffer_ok example_signature"
    by (simp_all add: example_host_key_def example_signature_def buffer_ok_def enc_buffer_def enc_uint32_def)
qed

lemma example_reply_decodes:
  "decodeCurve25519KexReply example_reply =
     Inr \<lparr>cu_hostKey = example_host_key, cu_serverPublicKey = replicate 32 7, cu_signature = example_signature\<rparr>"
  using example_lengths
  by (simp add: example_reply_def decodeCurve25519KexReply_def read_all_rdr codec_bind codec_simps buffer_ok_def
      byte_ok_def SSH_MSG_KEX_ECDH_REPLY_def ensureX25519PublicKey_def op_lift_bind op_return_def)

lemma example_kex:
  "completeKexExchange accepting_crypto (js ''curve25519-sha256'') (CurveExchange (replicate 32 1) [2]) example_reply
     [67] [83] [20] [20] =
   Inr \<lparr>ko_hostKey = example_host_key, ko_signature = example_signature, ko_exchangeHash = replicate 32 9,
     ko_sharedSecret = 1\<rparr>"
proof -
  have s: "curve_computeSharedSecret accepting_crypto [2] (replicate 32 7) = Inr 1"
    by (simp add: curve_computeSharedSecret_def accepting_crypto_def bufferToBigInt_value be_value_def ensureX25519PublicKey_def)
  have m: "mpint_ok 1" by (simp add: mpint_ok_def buffer_ok_def mpint_bytes_alt be_bytes.simps)
  have v: "strip_line_end [67] = [67]" "strip_line_end [83] = [83]" by (simp_all add: strip_line_end_def ends_with_def)
  have "\<exists>m. curve_hash_material \<lparr>ch_clientVersion = [67], ch_serverVersion = [83], ch_clientKexInitPayload = [20],
      ch_serverKexInitPayload = [20], ch_serverHostKey = example_host_key, ch_clientPublicKey = replicate 32 1,
      ch_serverPublicKey = replicate 32 7, ch_sharedSecret = 1\<rparr> = Inr m"
    using m example_lengths(1) by (simp add: curve_hash_material_iff v buffer_ok_def length_utf8_unit)
  then have "computeCurve25519Sha256ExchangeHash accepting_crypto \<lparr>ch_clientVersion = [67], ch_serverVersion = [83],
      ch_clientKexInitPayload = [20],
      ch_serverKexInitPayload = [20], ch_serverHostKey = example_host_key, ch_clientPublicKey = replicate 32 1,
      ch_serverPublicKey = replicate 32 7, ch_sharedSecret = 1\<rparr> = Inr (replicate 32 9)"
    by (auto simp: computeCurve25519Sha256ExchangeHash_def accepting_crypto_def)
  then show ?thesis
    by (simp add: completeKexExchange_def isCurve25519Kex_def example_reply_decodes s)
qed


lemma example_kex_completes: "\<exists>c t. completeKex accepting_crypto example_reply waiting_session = (Inr c, t)"
proof -
  have m: "mpint_ok 1" by (simp add: mpint_ok_def buffer_ok_def mpint_bytes_alt be_bytes.simps)
  have key: "\<exists>k. deriveKey accepting_crypto 1 h i l n = Inr k" for h i l n
    using deriveKey_blocks [OF accepting_digest_ok m, of n n h i l] by auto
  have keys: "\<exists>k. deriveDirectionalTransportKeys accepting_crypto 1 h i a b = Inr k" for h i a b
    using key [of h i] unfolding deriveDirectionalTransportKeys_def by (metis res_bind.simps(2))
  have l: "\<exists>a. transportKeyLengthsFor (js ''aes256-ctr'') (js ''hmac-sha2-256'') = Inr a"
    "\<exists>a. transportKeyLengthsFor (js ''aes128-ctr'') (js ''hmac-sha2-512'') = Inr a"
    by (simp_all add: transportKeyLengthsFor_def cipherKeyLength_def macKeyLength_def)
  obtain x y where xy: "transportKeyLengthsFor (js ''aes256-ctr'') (js ''hmac-sha2-256'') = Inr x"
    "transportKeyLengthsFor (js ''aes128-ctr'') (js ''hmac-sha2-512'') = Inr y" using l by blast
  obtain k where k: "deriveDirectionalTransportKeys accepting_crypto 1 (replicate 32 9) (replicate 32 9) x y = Inr k"
    using keys by blast
  have a: "assertNegotiatedHostKeyAndSignature accepting_crypto (js ''ssh-ed25519'') example_host_key example_signature = Inr ()"
    by (simp add: assertNegotiatedHostKeyAndSignature_def example_key_parses del: js_simps)
  have v: "verifySshSignature accepting_crypto example_host_key h example_signature = Inr True" for h
    by (simp add: verifySshSignature_def example_key_parses isCompatibleSignatureAlgorithm_def accepting_verify del: js_simps)
  show ?thesis
    by (simp add: xy k or_else_def completeKex_def op_binds waiting_session_def session_new_def example_algorithms_def example_kex
        differs_def a v op_return_def Let_def del: js_simps)
qed

lemma kex_completion_verified_witness:
  "\<exists>c t. completeKex accepting_crypto example_reply waiting_session = (Inr c, t) \<and>
     kc_serverHostKeyFingerprint c = sha256Fingerprint accepting_crypto example_host_key \<and> kc_sessionId c = kc_exchangeHash c"
proof -
  obtain c t where c: "completeKex accepting_crypto example_reply waiting_session = (Inr c, t)"
    using example_kex_completes by blast
  have e: "so_expectedServerFingerprint (ss_options waiting_session) = Some (sha256Fingerprint accepting_crypto example_host_key)"
    "ss_sessionId waiting_session = None" "sha256Fingerprint accepting_crypto example_host_key \<noteq> []"
    by (simp_all add: waiting_session_def session_new_def sha256Fingerprint_def)
  from kex_completion_verified [OF c] have
    "so_expectedServerFingerprint (ss_options waiting_session) \<in> {None, Some [], Some (kc_serverHostKeyFingerprint c)}"
    "kc_sessionId c = (case ss_sessionId waiting_session of None \<Rightarrow> kc_exchangeHash c | Some i \<Rightarrow> i)"
    by blast+
  then show ?thesis using c e by auto
qed

lemma session_reachable_safety_witness:
  "\<exists>s. session_run example_crypto (session_new \<lparr>so_clientVersion = [67], so_serverVersion = [83],
       so_expectedServerFingerprint = None\<rparr> (createDefaultKexInit (replicate 16 7))) s \<and>
     getPhase s = PhKexinitSent \<and> getChannel 0 s = None"
proof -
  let ?o = "\<lparr>so_clientVersion = [67], so_serverVersion = [83], so_expectedServerFingerprint = None\<rparr>"
  let ?k = "createDefaultKexInit (replicate 16 7)"
  obtain b where "encodeKexInit ?k = Inr b" using kexinit_codec.encode_ok [OF default_kexinit_ok [of "replicate 16 7"]] by auto
  then have st: "startKex [] (session_new ?o ?k) = (Inr b, snd (startKex [] (session_new ?o ?k)))"
    and p: "getPhase (snd (startKex [] (session_new ?o ?k))) = PhKexinitSent"
    by (simp_all add: startKex_def session_new_def Let_def getPhase_def)
  have r: "session_run example_crypto (session_new ?o ?k) (snd (startKex [] (session_new ?o ?k)))" (is "session_run _ _ ?s")
    by (rule run_step [OF run_refl step_startKex [OF st]])
  have "getChannel 0 ?s = None"
  proof (cases "ss_resumePhaseAfterKex ?s = PhAuthenticated")
    case True
    then show ?thesis by (auto simp: startKex_def session_new_def Let_def split: sum.splits)
  next
    case False
    then show ?thesis using session_reachable_safety [OF r, of 0] p by auto
  qed
  then show ?thesis using r p by blast
qed

definition example_channel :: channel_state where
  "example_channel = \<lparr>cs_localId = 0, cs_remoteId = Some 9, cs_kind = DirectTcpip, cs_lifecycle = Open, cs_localWindow = 10,
     cs_localWindowMaximum = 10, cs_acknowledgedLocalBytes = 0, cs_remoteWindow = 4, cs_localMaximumPacketSize = 2,
     cs_remoteMaximumPacketSize = Some 2, cs_maximumPacketSize = 2\<rparr>"

definition example_session :: session where
  "example_session = (session_new \<lparr>so_clientVersion = [], so_serverVersion = [], so_expectedServerFingerprint = None\<rparr>
     (createDefaultKexInit []))\<lparr>ss_phase := PhAuthenticated,
       ss_channels := \<lparr>cm_channels = [0 \<mapsto> example_channel], cm_order = [0], cm_nextLocalId = 1\<rparr>\<rparr>"

lemma example_session_ok:
  "manager_ok (ss_channels example_session)" "getChannel 0 example_session = Some example_channel"
  by (auto simp: manager_ok_def channel_ok_def MAXIMUM_OUTBOUND_CHANNEL_DATA_SIZE_def example_session_def
      example_channel_def getChannel_def cm_get_def split: if_splits)

lemma frames_deliver_prefix_witness:
  "\<exists>chunks payloads t. buildChannelDataFrames 0 [1, 2, 3, 4, 5] example_session = (Inr (payloads, 4), t) \<and>
     concat chunks = [1, 2, 3, 4 :: byte] \<and> length chunks = length payloads"
proof -
  have c: "cs_remoteId example_channel = Some 9" "cs_lifecycle example_channel \<in> {Open, EofReceived}"
    "cs_remoteWindow example_channel = 4"
    by (simp_all add: example_channel_def)
  from frames_deliver_prefix [OF example_session_ok c(1,2), of "[1, 2, 3, 4, 5]"]
  obtain chunks payloads where
    "buildChannelDataFrames 0 [1, 2, 3, 4, 5] example_session = (Inr (payloads, 4), with_remote_window 0 example_channel 0 example_session)"
    "concat chunks = [1, 2, 3, 4 :: byte]"
    "map decodeChannelData payloads = map (\<lambda>x. Inr \<lparr>cd_recipientChannel = 9, cd_data = x\<rparr>) chunks"
    by (auto simp: c Let_def)
  then show ?thesis by (metis length_map)
qed

text \<open>The session id and the pinned host key survive everything that can happen afterwards, key
  re-exchanges included.\<close>

theorem session_identity_stable:
  assumes "session_run cr s t" and "ss_sessionId s = Some i" and "ss_serverHostKeyFingerprint s = Some f"
  shows "getSessionId t = (Inr i, t) \<and> ss_serverHostKeyFingerprint t = Some f \<and> ss_options t = ss_options s"
  using keeps_run [OF assms(1)] assms(2,3) by (simp add: keeps_def getSessionId_def)

lemma session_identity_stable_witness:
  "\<exists>s t. session_run accepting_crypto s t \<and> getPhase s = PhNewkeysSent \<and> getPhase t = PhEncrypted \<and>
     getSessionId t = (Inr [9, 9], t)"
proof -
  let ?s = "waiting_session\<lparr>ss_sessionId := Some [9, 9], ss_serverHostKeyFingerprint := Some [1], ss_phase := PhNewkeysSent\<rparr>"
  let ?t = "?s\<lparr>ss_phase := PhEncrypted, ss_completedKexCount := ss_completedKexCount ?s + 1\<rparr>"
  have "receiveNewKeys [21] ?s = (Inr (), ?t)"
    by (simp add: receiveNewKeys_def op_binds messageNumber_def SSH_MSG_NEWKEYS_def op_modify_def waiting_session_def
        session_new_def)
  then have r: "session_run accepting_crypto ?s ?t" by (rule run_step [OF run_refl step_newKeys])
  have i: "ss_sessionId ?s = Some [9, 9]" "ss_serverHostKeyFingerprint ?s = Some [1]" by simp_all
  show ?thesis using session_identity_stable [OF r i] r
    by (intro exI [of _ ?s] exI [of _ ?t]) (simp add: getPhase_def)
qed

end
