(* ===== verification/BcryptPbkdf.thy ===== *)
theory BcryptPbkdf
  imports BlowfishTables SshError
begin

text \<open>
  \<open>bcrypt_pbkdf\<close> (\<open>src/core/ssh/bcrypt-pbkdf.ts\<close>), the key derivation of passphrase-protected OpenSSH
  keys.  The code keeps Blowfish's state in one array of 32-bit words and reads keys and salts as words;
  the reference below is the algorithm as OpenBSD publishes it: P-array and S-boxes apart, keys and salts
  read as a stream of bytes that wraps around, and the key bytes spread over the blocks.  Both are shown
  to derive the same key.  SHA-512 is a parameter.
\<close>

unbundle bit_operations_syntax

type_synonym word32 = "32 word"

section \<open>The code\<close>

definition BCRYPT_HASH_BYTES :: nat where "BCRYPT_HASH_BYTES = 32"
definition MAXIMUM_KEY_BYTES :: nat where "MAXIMUM_KEY_BYTES = BCRYPT_HASH_BYTES * BCRYPT_HASH_BYTES"
definition MAXIMUM_SALT_BYTES :: nat where "MAXIMUM_SALT_BYTES = 2 ^ 20"
definition BLOWFISH_STATE_WORDS :: nat where "BLOWFISH_STATE_WORDS = 18 + 4 * 256"
definition S0 :: nat where "S0 = 18"
definition S1 :: nat where "S1 = S0 + 256"
definition S2 :: nat where "S2 = S1 + 256"
definition S3 :: nat where "S3 = S2 + 256"

text \<open>\<open>readUInt32BE\<close> and \<open>writeUInt32LE\<close>.\<close>

definition be_word :: "byte \<Rightarrow> byte \<Rightarrow> byte \<Rightarrow> byte \<Rightarrow> word32" where
  "be_word a b c d = ucast a * 16777216 + ucast b * 65536 + ucast c * 256 + ucast d"

definition le_bytes :: "word32 \<Rightarrow> bytes" where
  "le_bytes w = [ucast w, ucast (drop_bit 8 w), ucast (drop_bit 16 w), ucast (drop_bit 24 w)]"

definition be_counter :: "nat \<Rightarrow> bytes" where
  "be_counter n = [byte_of (n div 16777216), byte_of (n div 65536), byte_of (n div 256), byte_of n]"

definition bytesToWords :: "bytes \<Rightarrow> word32 list" where
  "bytesToWords bs = map (\<lambda>i. be_word (bs ! (4 * i)) (bs ! (4 * i + 1)) (bs ! (4 * i + 2)) (bs ! (4 * i + 3)))
     [0..<length bs div 4]"

definition MAGIC_BYTES :: bytes where
  "MAGIC_BYTES = map (\<lambda>c. byte_of (of_char c)) ''OxychromaticBlowfishSwatDynamite''"

definition MAGIC_WORDS :: "word32 list" where "MAGIC_WORDS = bytesToWords MAGIC_BYTES"

text \<open>In JavaScript the sums leave the 32 bits, but every one is cut back by \<open>^\<close> or \<open>| 0\<close>.\<close>

definition feistel :: "word32 list \<Rightarrow> word32 \<Rightarrow> word32" where
  "feistel state v =
     ((state ! (S0 + unat (drop_bit 24 v)) + state ! (S1 + unat (drop_bit 16 v AND 255)))
        XOR state ! (S2 + unat (drop_bit 8 v AND 255)))
     + state ! (S3 + unat (v AND 255))"

definition encrypt_round :: "word32 list \<Rightarrow> nat \<Rightarrow> word32 \<times> word32 \<Rightarrow> word32 \<times> word32" where
  "encrypt_round state index lr =
     (let right = snd lr XOR (feistel state (fst lr) XOR state ! index);
          left = fst lr XOR (feistel state right XOR state ! (index + 1))
      in (left, right))"

definition encryptBlock :: "word32 list \<Rightarrow> word32 \<times> word32 \<Rightarrow> word32 \<times> word32" where
  "encryptBlock state block =
     (let (left, right) = fold (encrypt_round state) [1, 3, 5, 7, 9, 11, 13, 15] (fst block XOR state ! 0, snd block)
      in (right XOR state ! 17, left))"

definition xor_key :: "word32 list \<Rightarrow> word32 list \<Rightarrow> word32 list" where
  "xor_key key state = fold (\<lambda>index st. st[index := st ! index XOR key ! (index mod length key)]) [0..<18] state"

definition expand_step ::
  "word32 list option \<Rightarrow> nat \<Rightarrow> word32 list \<times> (word32 \<times> word32) \<times> nat \<Rightarrow> word32 list \<times> (word32 \<times> word32) \<times> nat" where
  "expand_step salt index s =
     (case s of (state, (b0, b1), saltIndex) \<Rightarrow>
        let (block, saltIndex') =
              (case salt of None \<Rightarrow> ((b0, b1), saltIndex)
               | Some w \<Rightarrow> ((b0 XOR w ! saltIndex, b1 XOR w ! ((saltIndex + 1) mod length w)), (saltIndex + 2) mod length w));
            (c0, c1) = encryptBlock state block
        in (state[index := c0, index + 1 := c1], (c0, c1), saltIndex'))"

definition expandState :: "word32 list \<Rightarrow> word32 list option \<Rightarrow> word32 list \<Rightarrow> word32 list" where
  "expandState key salt state =
     fst (fold (expand_step salt) (map (\<lambda>i. 2 * i) [0..<BLOWFISH_STATE_WORDS div 2]) (xor_key key state, (0, 0), 0))"

fun encrypt_pairs :: "word32 list \<Rightarrow> word32 list \<Rightarrow> word32 list" where
  "encrypt_pairs state (a # b # rest) =
     (let (c, d) = encryptBlock state (a, b) in c # d # encrypt_pairs state rest)"
| "encrypt_pairs state rest = rest"

definition bcryptHash :: "bytes \<Rightarrow> bytes \<Rightarrow> bytes" where
  "bcryptHash hashedPassphrase hashedSalt =
     (let passphraseWords = bytesToWords hashedPassphrase;
          saltWords = bytesToWords hashedSalt;
          state0 = expandState passphraseWords (Some saltWords) BLOWFISH_INITIAL_STATE;
          state = ((\<lambda>st. expandState passphraseWords None (expandState saltWords None st)) ^^ 64) state0;
          data = (encrypt_pairs state ^^ 64) MAGIC_WORDS
      in concat (map le_bytes data))"

text \<open>One round beyond the first: the hash of the hash before, mixed into the output.\<close>

definition pbkdf_round :: "(bytes \<Rightarrow> bytes) \<Rightarrow> bytes \<Rightarrow> bytes \<times> bytes \<Rightarrow> bytes \<times> bytes" where
  "pbkdf_round sha512 hashedPassphrase ro =
     (let roundOutput = bcryptHash hashedPassphrase (sha512 (fst ro))
      in (roundOutput, map2 (XOR) (snd ro) roundOutput))"

definition pbkdf_output :: "(bytes \<Rightarrow> bytes) \<Rightarrow> bytes \<Rightarrow> bytes \<Rightarrow> nat \<Rightarrow> nat \<Rightarrow> bytes" where
  "pbkdf_output sha512 hashedPassphrase salt rounds blockNumber =
     (let roundOutput = bcryptHash hashedPassphrase (sha512 (salt @ be_counter blockNumber))
      in snd ((pbkdf_round sha512 hashedPassphrase ^^ (rounds - 1)) (roundOutput, roundOutput)))"

definition spread_output :: "nat \<Rightarrow> nat \<Rightarrow> bytes \<Rightarrow> bytes \<Rightarrow> bytes" where
  "spread_output blocks blockNumber outb key =
     fold (\<lambda>index k. k[index * blocks + blockNumber - 1 := outb ! index]) [0..<length outb] key"

definition bcryptPbkdf :: "(bytes \<Rightarrow> bytes) \<Rightarrow> bytes \<Rightarrow> bytes \<Rightarrow> int \<Rightarrow> int \<Rightarrow> pbkdf_error + bytes" where
  "bcryptPbkdf sha512 passphrase salt keyLength rounds =
     (if rounds < 1 then Inl PbkdfRounds
      else if passphrase = [] then Inl PbkdfPassphrase
      else if salt = [] \<or> MAXIMUM_SALT_BYTES < length salt then Inl PbkdfSalt
      else if keyLength < 1 \<or> int MAXIMUM_KEY_BYTES < keyLength then Inl PbkdfKeyLength
      else let blocks = (nat keyLength + BCRYPT_HASH_BYTES - 1) div BCRYPT_HASH_BYTES;
               hashedPassphrase = sha512 passphrase;
               key = fold (\<lambda>blockNumber. spread_output blocks blockNumber
                       (pbkdf_output sha512 hashedPassphrase salt (nat rounds) blockNumber))
                     [1..<blocks + 1] (replicate (blocks * BCRYPT_HASH_BYTES) 0)
           in Inr (take (nat keyLength) key))"

section \<open>The reference\<close>

text \<open>Blowfish with P-array and S-boxes apart, and its byte stream.\<close>

record blowfish =
  blf_P :: "word32 list"
  blf_S :: "word32 list list"

definition blf_F :: "blowfish \<Rightarrow> word32 \<Rightarrow> word32" where
  "blf_F c x = ((blf_S c ! 0 ! unat (drop_bit 24 x AND 255) + blf_S c ! 1 ! unat (drop_bit 16 x AND 255))
      XOR blf_S c ! 2 ! unat (drop_bit 8 x AND 255)) + blf_S c ! 3 ! unat (x AND 255)"

text \<open>The sixteen rounds: odd ones change the right half, even ones the left.\<close>

definition blf_round :: "blowfish \<Rightarrow> nat \<Rightarrow> word32 \<times> word32 \<Rightarrow> word32 \<times> word32" where
  "blf_round c n lr = (if odd n then (fst lr, snd lr XOR (blf_F c (fst lr) XOR blf_P c ! n))
     else (fst lr XOR (blf_F c (snd lr) XOR blf_P c ! n), snd lr))"

definition blf_encipher :: "blowfish \<Rightarrow> word32 \<times> word32 \<Rightarrow> word32 \<times> word32" where
  "blf_encipher c x =
     (let (l, r) = fold (blf_round c) [1..<17] (fst x XOR blf_P c ! 0, snd x) in (r XOR blf_P c ! 17, l))"

text \<open>\<open>Blowfish_stream2word\<close>: four bytes from the cursor on, which wraps around at the end of the data.\<close>

fun stream_bytes :: "nat \<Rightarrow> bytes \<Rightarrow> nat \<Rightarrow> word32 \<Rightarrow> word32 \<times> nat" where
  "stream_bytes 0 data j w = (w, j)"
| "stream_bytes (Suc n) data j w =
     (let j' = (if length data \<le> j then 0 else j)
      in stream_bytes n data (j' + 1) (push_bit 8 w OR ucast (data ! j')))"

definition stream2word :: "bytes \<Rightarrow> nat \<Rightarrow> word32 \<times> nat" where
  "stream2word data j = stream_bytes 4 data j 0"

fun stream_words :: "nat \<Rightarrow> bytes \<Rightarrow> nat \<Rightarrow> word32 list" where
  "stream_words 0 data j = []"
| "stream_words (Suc n) data j = (let (w, j') = stream2word data j in w # stream_words n data j')"

text \<open>Where the words of a rebuilt state go: the P-array, then each S-box.\<close>

datatype blf_slot = PSlot nat | SSlot nat nat

definition blf_slots :: "blf_slot list" where
  "blf_slots = map (\<lambda>i. PSlot (2 * i)) [0..<9] @ concat (map (\<lambda>b. map (\<lambda>k. SSlot b (2 * k)) [0..<128]) [0..<4])"

fun blf_store :: "blf_slot \<Rightarrow> word32 \<times> word32 \<Rightarrow> blowfish \<Rightarrow> blowfish" where
  "blf_store (PSlot i) x c = c\<lparr>blf_P := (blf_P c)[i := fst x, i + 1 := snd x]\<rparr>"
| "blf_store (SSlot b k) x c = c\<lparr>blf_S := (blf_S c)[b := (blf_S c ! b)[k := fst x, k + 1 := snd x]]\<rparr>"

definition blf_fill :: "bytes option \<Rightarrow> blf_slot \<Rightarrow> blowfish \<times> (word32 \<times> word32) \<times> nat \<Rightarrow> blowfish \<times> (word32 \<times> word32) \<times> nat" where
  "blf_fill data slot s =
     (case s of (c, (l, r), j) \<Rightarrow>
        let (x, j') = (case data of None \<Rightarrow> ((l, r), j)
              | Some d \<Rightarrow> let (w1, j1) = stream2word d j; (w2, j2) = stream2word d j1 in ((l XOR w1, r XOR w2), j2));
            y = blf_encipher c x
        in (blf_store slot y c, y, j'))"

definition blf_expand :: "bytes option \<Rightarrow> bytes \<Rightarrow> blowfish \<Rightarrow> blowfish" where
  "blf_expand data key c =
     (let c' = c\<lparr>blf_P := map2 (XOR) (blf_P c) (stream_words 18 key 0)\<rparr>
      in fst (fold (blf_fill data) blf_slots (c', (0, 0), 0)))"

fun blf_enc :: "blowfish \<Rightarrow> word32 list \<Rightarrow> word32 list" where
  "blf_enc c (a # b # rest) = (let (x, y) = blf_encipher c (a, b) in x # y # blf_enc c rest)"
| "blf_enc c rest = rest"

definition blf_init :: blowfish where
  "blf_init = \<lparr>blf_P = take 18 BLOWFISH_INITIAL_STATE,
     blf_S = map (\<lambda>b. take 256 (drop (18 + 256 * b) BLOWFISH_INITIAL_STATE)) [0..<4]\<rparr>"

definition bcrypt_hash_ref :: "bytes \<Rightarrow> bytes \<Rightarrow> bytes" where
  "bcrypt_hash_ref sha2pass sha2salt =
     (let c0 = blf_expand (Some sha2salt) sha2pass blf_init;
          c = ((\<lambda>c. blf_expand None sha2pass (blf_expand None sha2salt c)) ^^ 64) c0;
          cdata = (blf_enc c ^^ 64) (stream_words 8 MAGIC_BYTES 0)
      in concat (map le_bytes cdata))"

text \<open>The hashes of one block: of the salt with the block's number, then each of the one before; the
  block is all of them mixed.\<close>

fun block_hashes :: "(bytes \<Rightarrow> bytes) \<Rightarrow> bytes \<Rightarrow> bytes \<Rightarrow> nat \<Rightarrow> bytes list" where
  "block_hashes sha512 sha2pass salted 0 = []"
| "block_hashes sha512 sha2pass salted (Suc n) =
     (let h = bcrypt_hash_ref sha2pass (sha512 salted) in h # block_hashes sha512 sha2pass h n)"

definition key_block :: "(bytes \<Rightarrow> bytes) \<Rightarrow> bytes \<Rightarrow> bytes \<Rightarrow> nat \<Rightarrow> nat \<Rightarrow> nat \<Rightarrow> byte" where
  "key_block sha512 sha2pass salt rounds number i =
     foldl (XOR) 0 (map (\<lambda>h. h ! i) (block_hashes sha512 sha2pass (salt @ be_counter number) rounds))"

definition pbkdf_reference :: "(bytes \<Rightarrow> bytes) \<Rightarrow> bytes \<Rightarrow> bytes \<Rightarrow> nat \<Rightarrow> nat \<Rightarrow> bytes" where
  "pbkdf_reference sha512 passphrase salt keylen rounds =
     (let stride = (keylen + 31) div 32
      in map (\<lambda>d. key_block sha512 (sha512 passphrase) salt rounds (d mod stride + 1) (d div stride)) [0..<keylen])"

section \<open>One array against P-array and S-boxes\<close>

definition flat :: "blowfish \<Rightarrow> word32 list" where
  "flat c = blf_P c @ concat (blf_S c)"

definition blf_ok :: "blowfish \<Rightarrow> bool" where
  "blf_ok c \<longleftrightarrow> length (blf_P c) = 18 \<and> length (blf_S c) = 4 \<and> list_all (\<lambda>b. length b = 256) (blf_S c)"

lemma blf_okE:
  assumes "blf_ok c"
  obtains P a b d e where "c = \<lparr>blf_P = P, blf_S = [a, b, d, e]\<rparr>" "length P = 18" "length a = 256" "length b = 256" "length d = 256" "length e = 256"
proof -
  from assms have "length (blf_S c) = Suc (Suc (Suc (Suc 0)))" by (simp add: blf_ok_def)
  then obtain a b d e where "blf_S c = [a, b, d, e]" by (auto simp: length_Suc_conv)
  then show ?thesis using that [of "blf_P c" a b d e] assms by (simp add: blf_ok_def)
qed

lemma length_flat: "blf_ok c \<Longrightarrow> length (flat c) = 1042"
  by (erule blf_okE) (simp add: flat_def)

lemma flat_P: "blf_ok c \<Longrightarrow> i < 18 \<Longrightarrow> flat c ! i = blf_P c ! i"
  by (simp add: flat_def blf_ok_def nth_append)

lemma flat_S:
  assumes "blf_ok c" "k < 256"
  shows "flat c ! (S0 + k) = blf_S c ! 0 ! k" "flat c ! (S1 + k) = blf_S c ! 1 ! k"
    "flat c ! (S2 + k) = blf_S c ! 2 ! k" "flat c ! (S3 + k) = blf_S c ! 3 ! k"
  by (rule blf_okE [OF assms(1)], use assms(2) in \<open>simp add: flat_def nth_append S0_def S1_def S2_def S3_def\<close>)+

lemma low_byte_bound: "unat (x AND (255 :: word32)) < 256"
proof -
  have "x AND 255 \<le> 255" by (rule word_and_le1)
  then have "unat (x AND 255) \<le> unat (255 :: word32)" by (simp add: word_le_nat_alt)
  then show ?thesis by simp
qed

lemma top_byte: "drop_bit 24 (x :: word32) AND 255 = drop_bit 24 x"
proof -
  have m: "(255 :: word32) = mask 8" by (simp add: mask_eq_exp_minus_1)
  have "take_bit 32 x = x" using take_bit_length_eq [of x] by simp
  then have "drop_bit 24 x = take_bit 8 (drop_bit 24 x)" by (simp add: take_bit_drop_bit)
  then show ?thesis unfolding m by (simp add: take_bit_eq_mask)
qed

lemma feistel_flat: "blf_ok c \<Longrightarrow> feistel (flat c) x = blf_F c x"
  using low_byte_bound [of x] low_byte_bound [of "drop_bit 8 x"] low_byte_bound [of "drop_bit 16 x"] low_byte_bound [of "drop_bit 24 x"]
  unfolding top_byte by (simp add: feistel_def blf_F_def flat_S top_byte)

lemma two_rounds:
  assumes "blf_ok c" "odd i" "i < 17"
  shows "blf_round c (i + 1) (blf_round c i x) = encrypt_round (flat c) i x"
  using assms by (simp add: encrypt_round_def blf_round_def feistel_flat flat_P Let_def)

lemma encryptBlock_flat:
  assumes "blf_ok c" shows "encryptBlock (flat c) x = blf_encipher c x"
proof -
  have up: "[1..<17] = [1, 2, 3, 4, 5, 6, 7, 8, 9, 10, 11, 12, 13, 14, 15, 16 :: nat]" by (simp add: upt_rec)
  have "blf_round c (i + 1) (blf_round c i y) = encrypt_round (flat c) i y"
    if "i \<in> set [1, 3, 5, 7, 9, 11, 13, 15]" for i y by (rule two_rounds [OF assms]) (use that in auto)
  from this [of 1] this [of 3] this [of 5] this [of 7] this [of 9] this [of 11] this [of 13] this [of 15]
  have "fold (blf_round c) [1..<17] y = fold (encrypt_round (flat c)) [1, 3, 5, 7, 9, 11, 13, 15] y" for y
    unfolding up by (simp add: numeral_2_eq_2)
  then show ?thesis using assms by (simp add: encryptBlock_def blf_encipher_def flat_P)
qed

fun slot_index :: "blf_slot \<Rightarrow> nat" where
  "slot_index (PSlot i) = i"
| "slot_index (SSlot b k) = 18 + 256 * b + k"

fun slot_ok :: "blf_slot \<Rightarrow> bool" where
  "slot_ok (PSlot i) = (i + 1 < 18)"
| "slot_ok (SSlot b k) = (b < 4 \<and> k + 1 < 256)"

lemma blf_store_flat:
  assumes "blf_ok c" "slot_ok slot"
  shows "flat (blf_store slot x c) = (flat c)[slot_index slot := fst x, slot_index slot + 1 := snd x]"
    "blf_ok (blf_store slot x c)"
proof -
  obtain P a b d e where c: "c = \<lparr>blf_P = P, blf_S = [a, b, d, e]\<rparr>" "length P = 18" "length a = 256" "length b = 256"
      "length d = 256" "length e = 256"
    using blf_okE [OF assms(1)] by metis
  show "flat (blf_store slot x c) = (flat c)[slot_index slot := fst x, slot_index slot + 1 := snd x]"
  proof (cases slot)
    case (PSlot i)
    then show ?thesis using assms c by (simp add: flat_def list_update_append)
  next
    case (SSlot n k)
    then consider "n = 0" | "n = 1" | "n = 2" | "n = 3" using assms(2) by fastforce
    then show ?thesis using assms(2) SSlot c
      by cases (simp_all add: flat_def list_update_append eval_nat_numeral)
  qed
  show "blf_ok (blf_store slot x c)"
  proof (cases slot)
    case (SSlot n k)
    then consider "n = 0" | "n = 1" | "n = 2" | "n = 3" using assms(2) by fastforce
    then show ?thesis using SSlot c by cases (simp_all add: blf_ok_def eval_nat_numeral)
  qed (use c in \<open>simp add: blf_ok_def\<close>)
qed

section \<open>Words against a stream of bytes\<close>

lemma push_byte: "push_bit 8 w OR ucast (b :: byte) = w * 256 + (ucast b :: word32)"
proof -
  have "push_bit 8 w + (ucast b :: word32) = push_bit 8 w OR ucast b"
    by (rule disjunctive_add) (auto simp: bit_push_bit_iff bit_ucast_iff dest: bit_imp_le_length)
  then show ?thesis by (simp add: push_bit_eq_mult)
qed

lemma four_bytes:
  "push_bit 8 (push_bit 8 (push_bit 8 (push_bit 8 0 OR ucast a) OR ucast b) OR ucast c) OR ucast d = be_word a b c d"
  unfolding push_byte be_word_def by (simp add: algebra_simps)

lemma stream2word_inside:
  assumes "j + 4 \<le> length data"
  shows "stream2word data j = (be_word (data ! j) (data ! (j + 1)) (data ! (j + 2)) (data ! (j + 3)), j + 4)"
proof -
  have s: "stream_bytes (Suc n) data i w = stream_bytes n data (i + 1) (push_bit 8 w OR ucast (data ! i))" if "i < length data" for n i w
    using that by simp
  have "(4 :: nat) = Suc (Suc (Suc (Suc 0)))" by simp
  then have "stream2word data j = stream_bytes (Suc (Suc (Suc (Suc 0)))) data j 0" by (simp only: stream2word_def)
  also have "\<dots> = (push_bit 8 (push_bit 8 (push_bit 8 (push_bit 8 0 OR ucast (data ! j)) OR ucast (data ! (j + 1)))
      OR ucast (data ! (j + 1 + 1))) OR ucast (data ! (j + 1 + 1 + 1)), j + 1 + 1 + 1 + 1)"
    using assms by (subst s, linarith)+ (simp only: stream_bytes.simps)
  finally show ?thesis unfolding four_bytes by (simp add: numeral_3_eq_3)
qed

lemma stream2word_words:
  assumes "length data = 4 * m" "0 < m" "k \<le> m"
  shows "stream2word data (4 * k) = (bytesToWords data ! (k mod m), 4 * (k mod m + 1))"
proof -
  have s: "stream2word data (4 * i) = (bytesToWords data ! i, 4 * (i + 1))" if "i < m" for i
    using that assms(1) stream2word_inside [of "4 * i" data] by (simp add: bytesToWords_def)
  have wrap: "stream_bytes (Suc n) data (length data) w = stream_bytes (Suc n) data 0 w" for n w by simp
  have "(4 :: nat) = Suc 3" by simp
  then have "stream2word data (length data) = stream2word data 0" unfolding stream2word_def by (simp only: wrap)
  show ?thesis
  proof (cases "k = m")
    case True
    then show ?thesis using \<open>stream2word data (length data) = stream2word data 0\<close> s [of 0] assms by simp
  next
    case False
    then show ?thesis using s [of k] assms by simp
  qed
qed

lemma stream_words_nth:
  assumes "length data = 4 * m" "0 < m" "k \<le> m"
  shows "stream_words n data (4 * k) = map (\<lambda>i. bytesToWords data ! ((k + i) mod m)) [0..<n]"
  using assms(3)
proof (induction n arbitrary: k)
  case (Suc n)
  have k: "k mod m + 1 \<le> m" using assms(2) by (simp add: Suc_leI)
  have "stream_words (Suc n) data (4 * k) = bytesToWords data ! (k mod m) # stream_words n data (4 * (k mod m + 1))"
    using stream2word_words [OF assms(1,2) Suc.prems] by simp
  also have "\<dots> = bytesToWords data ! (k mod m) # map (\<lambda>i. bytesToWords data ! ((k + Suc i) mod m)) [0..<n]"
  proof -
    have "(k mod m + 1 + i) mod m = (k + Suc i) mod m" for i
      by (metis add.assoc mod_add_left_eq plus_1_eq_Suc)
    then show ?thesis using Suc.IH [OF k] by simp
  qed
  also have "\<dots> = map (\<lambda>i. bytesToWords data ! ((k + i) mod m)) [0..<Suc n]"
    by (simp add: map_upt_Suc del: upt_Suc)
  finally show ?case .
qed simp

lemma length_bytesToWords [simp]: "length (bytesToWords bs) = length bs div 4"
  by (simp add: bytesToWords_def)

lemma xor_key_nth:
  assumes "n \<le> length st"
  shows "fold (\<lambda>i st. st[i := st ! i XOR key ! (i mod length key)]) [0..<n] st =
    map2 (XOR) (take n st) (map (\<lambda>i. key ! (i mod length key)) [0..<n]) @ drop n st"
  using assms
proof (induction n)
  case (Suc n)
  then have "drop n st = st ! n # drop (Suc n) st" by (simp add: Cons_nth_drop_Suc)
  then show ?case using Suc by (simp add: nth_append list_update_append take_Suc_conv_app_nth min_def)
qed simp

section \<open>The key schedule\<close>

lemma xor_key_flat:
  assumes "blf_ok c" "length key = 64"
  shows "xor_key (bytesToWords key) (flat c) = flat (c\<lparr>blf_P := map2 (XOR) (blf_P c) (stream_words 18 key 0)\<rparr>)"
    "blf_ok (c\<lparr>blf_P := map2 (XOR) (blf_P c) (stream_words 18 key 0)\<rparr>)"
proof -
  have words: "stream_words 18 key 0 = map (\<lambda>i. bytesToWords key ! (i mod 16)) [0..<18]"
    using stream_words_nth [of key 16 0 18] assms(2) by simp
  have "length (blf_P c) = 18" "take 18 (flat c) = blf_P c" "drop 18 (flat c) = concat (blf_S c)"
    using assms(1) by (simp_all add: flat_def blf_ok_def)
  then show "xor_key (bytesToWords key) (flat c) = flat (c\<lparr>blf_P := map2 (XOR) (blf_P c) (stream_words 18 key 0)\<rparr>)"
    using xor_key_nth [of 18 "flat c" "bytesToWords key"] length_flat [OF assms(1)] assms(2)
    by (simp add: xor_key_def words flat_def del: upt_Suc)
  show "blf_ok (c\<lparr>blf_P := map2 (XOR) (blf_P c) (stream_words 18 key 0)\<rparr>)"
    using assms(1) by (simp add: blf_ok_def words del: upt_Suc)
qed

text \<open>The cursor of the stream stands right behind the word the code's index names.\<close>

definition same_cursor :: "bytes option \<Rightarrow> nat \<Rightarrow> nat \<Rightarrow> bool" where
  "same_cursor data j i \<longleftrightarrow> (data \<noteq> None \<longrightarrow> (\<exists>k \<le> 16. j = 4 * k \<and> i = k mod 16))"

definition data_ok :: "bytes option \<Rightarrow> bool" where
  "data_ok data \<longleftrightarrow> (case data of None \<Rightarrow> True | Some d \<Rightarrow> length d = 64)"

lemma expand_step_fill:
  assumes "blf_ok c" "slot_ok slot" "data_ok data" "same_cursor data j i" "blf_fill data slot (c, x, j) = (c', x', j')"
  shows "blf_ok c'" "\<exists>i'. expand_step (map_option bytesToWords data) (slot_index slot) (flat c, x, i) = (flat c', x', i') \<and> same_cursor data j' i'"
proof -
  obtain l r where x: "x = (l, r)" by fastforce
  have "blf_ok c' \<and> (\<exists>i'. expand_step (map_option bytesToWords data) (slot_index slot) (flat c, x, i) = (flat c', x', i') \<and> same_cursor data j' i')"
  proof (cases data)
    case None
    then show ?thesis using assms x blf_store_flat [OF assms(1,2)]
      by (auto simp: blf_fill_def expand_step_def encryptBlock_flat same_cursor_def Let_def split: prod.splits)
  next
    case (Some d)
    then have d: "length d = 4 * 16" using assms(3) by (simp add: data_ok_def)
    obtain k where k: "k \<le> 16" "j = 4 * k" "i = k mod 16" using assms(4) Some by (auto simp: same_cursor_def)
    have w1: "stream2word d j = (bytesToWords d ! i, 4 * (i + 1))"
      using stream2word_words [OF d, of k] k by simp
    have "i + 1 \<le> 16" using k(3) by (simp add: Suc_leI)
    then have w2: "stream2word d (4 * (i + 1)) = (bytesToWords d ! ((i + 1) mod 16), 4 * ((i + 1) mod 16 + 1))"
      using stream2word_words [OF d, of "i + 1"] by simp
    have "same_cursor data (4 * ((i + 1) mod 16 + 1)) ((i + 2) mod 16)"
      unfolding same_cursor_def by (intro impI exI [of _ "(i + 1) mod 16 + 1"]) (auto simp: mod_simps Suc_leI)
    then show ?thesis using assms(1,5) x Some d blf_store_flat [OF assms(1,2)] w1 w2
      by (auto simp: blf_fill_def expand_step_def encryptBlock_flat Let_def split: prod.splits)
  qed
  then show "blf_ok c'" "\<exists>i'. expand_step (map_option bytesToWords data) (slot_index slot) (flat c, x, i) = (flat c', x', i') \<and> same_cursor data j' i'"
    by simp_all
qed

lemma expand_fold_fill:
  assumes "blf_ok c" "list_all slot_ok slots" "data_ok data" "same_cursor data j i" "fold (blf_fill data) slots (c, x, j) = (c', x', j')"
  shows "blf_ok c' \<and> (\<exists>i'. fold (expand_step (map_option bytesToWords data)) (map slot_index slots) (flat c, x, i) = (flat c', x', i'))"
  using assms
proof (induction slots arbitrary: c x j i)
  case (Cons slot slots)
  obtain c1 x1 j1 where s: "blf_fill data slot (c, x, j) = (c1, x1, j1)" by (metis prod_cases3)
  have "slot_ok slot" using Cons.prems(2) by simp
  note step = expand_step_fill [OF Cons.prems(1) this Cons.prems(3,4) s]
  then obtain i1 where i1: "expand_step (map_option bytesToWords data) (slot_index slot) (flat c, x, i) = (flat c1, x1, i1)"
    "same_cursor data j1 i1" by blast
  show ?case using Cons.IH [OF step(1) _ Cons.prems(3) i1(2)] Cons.prems(2,5) s i1(1) by simp
qed simp

lemma slots_in_order: "map slot_index blf_slots = map (\<lambda>i. 2 * i) [0..<521]" "list_all slot_ok blf_slots"
proof -
  have four: "[0..<4] = [0, 1, 2, 3 :: nat]" by (simp add: upt_rec)
  have shift: "map (\<lambda>k. 18 + 256 * b + 2 * k) [0..<128] = map (\<lambda>i. 2 * i) [9 + 128 * b..<9 + 128 * (b + 1)]" for b :: nat
  proof -
    have "[9 + 128 * b..<9 + 128 * (b + 1)] = map (\<lambda>k. k + (9 + 128 * b)) [0..<128]" by (simp add: map_add_upt)
    then show ?thesis by simp
  qed
  have cat: "[i..<j] @ [j..<k] = [i..<k]" if "i \<le> j" "j \<le> k" for i j k :: nat
    using that by (metis le_Suc_ex upt_add_eq_append)
  have "[0..<9] @ [9..<137] @ [137..<265] @ [265..<393] @ [393..<521] = [0..<521 :: nat]"
    by (subst cat, simp, simp)+ (rule refl)
  then have "map (\<lambda>i. 2 * i) [0..<521] = map (\<lambda>i. 2 * i) ([0..<9] @ [9..<137] @ [137..<265] @ [265..<393] @ [393..<521 :: nat])"
    by (simp only:)
  then show "map slot_index blf_slots = map (\<lambda>i. 2 * i) [0..<521]"
    using shift [of 0] shift [of 1] shift [of 2] shift [of 3] unfolding blf_slots_def four
    by (simp add: o_def del: upt_Suc)
  show "list_all slot_ok blf_slots"
    unfolding blf_slots_def four by (auto simp: list_all_iff)
qed

lemma expandState_flat:
  assumes "blf_ok c" "length key = 64" "data_ok data"
  shows "expandState (bytesToWords key) (map_option bytesToWords data) (flat c) = flat (blf_expand data key c)"
    "blf_ok (blf_expand data key c)"
proof -
  define c0 where "c0 = c\<lparr>blf_P := map2 (XOR) (blf_P c) (stream_words 18 key 0)\<rparr>"
  note c0 = xor_key_flat [OF assms(1,2), folded c0_def]
  obtain c' x' j' where r: "fold (blf_fill data) blf_slots (c0, (0, 0), 0) = (c', x', j')" by (metis prod_cases3)
  have "same_cursor data 0 0" by (auto simp: same_cursor_def)
  from expand_fold_fill [OF c0(2) slots_in_order(2) assms(3) this r]
  show "expandState (bytesToWords key) (map_option bytesToWords data) (flat c) = flat (blf_expand data key c)"
    "blf_ok (blf_expand data key c)"
    using r unfolding slots_in_order(1) by (auto simp: expandState_def blf_expand_def BLOWFISH_STATE_WORDS_def Let_def c0(1) c0_def)
qed

section \<open>The hash\<close>

lemma blf_init_flat: "flat blf_init = BLOWFISH_INITIAL_STATE" "blf_ok blf_init"
proof -
  have cut: "take m (drop n xs) @ drop (n + m) xs = drop n xs" for m n and xs :: "word32 list"
    by (metis add.commute append_take_drop_id drop_drop)
  have four: "[0..<4] = [0, 1, 2, 3 :: nat]" by (simp add: upt_rec)
  have "take 256 (drop 786 BLOWFISH_INITIAL_STATE) = drop 786 BLOWFISH_INITIAL_STATE" by simp
  then show "flat blf_init = BLOWFISH_INITIAL_STATE"
    using cut [of 256 18 BLOWFISH_INITIAL_STATE] cut [of 256 274 BLOWFISH_INITIAL_STATE] cut [of 256 530 BLOWFISH_INITIAL_STATE]
    unfolding flat_def blf_init_def four by simp
  show "blf_ok blf_init" unfolding blf_init_def four blf_ok_def by simp
qed

lemma schedule_flat:
  assumes "blf_ok c" "length p = 64" "length s = 64"
  shows "blf_ok (((\<lambda>c. blf_expand None p (blf_expand None s c)) ^^ n) c) \<and>
    ((\<lambda>st. expandState (bytesToWords p) None (expandState (bytesToWords s) None st)) ^^ n) (flat c) =
     flat (((\<lambda>c. blf_expand None p (blf_expand None s c)) ^^ n) c)"
proof (induction n)
  case (Suc n)
  have "data_ok None" by (simp add: data_ok_def)
  then show ?case using Suc expandState_flat [OF _ assms(2), of _ None] expandState_flat [OF _ assms(3), of _ None] by simp
qed (use assms in simp)

lemma encrypt_pairs_flat: "blf_ok c \<Longrightarrow> encrypt_pairs (flat c) ws = blf_enc c ws"
  by (induction c ws rule: blf_enc.induct) (simp_all add: encryptBlock_flat split: prod.split)

lemma length_encrypt_pairs [simp]: "length (encrypt_pairs st ws) = length ws"
  by (induction st ws rule: encrypt_pairs.induct) (simp_all split: prod.split)

lemma length_MAGIC_BYTES [simp]: "length MAGIC_BYTES = 32"
  by (simp add: MAGIC_BYTES_def)

lemma magic_stream: "stream_words 8 MAGIC_BYTES 0 = MAGIC_WORDS"
proof -
  have "stream_words 8 MAGIC_BYTES 0 = map (\<lambda>i. bytesToWords MAGIC_BYTES ! (i mod 8)) [0..<8]"
    using stream_words_nth [of MAGIC_BYTES 8 0 8] by simp
  also have "\<dots> = map ((!) (bytesToWords MAGIC_BYTES)) [0..<length (bytesToWords MAGIC_BYTES)]"
    by (rule map_cong) simp_all
  finally show ?thesis by (simp only: MAGIC_WORDS_def map_nth)
qed

lemma bcryptHash_ref:
  assumes "length p = 64" "length s = 64"
  shows "bcryptHash p s = bcrypt_hash_ref p s"
proof -
  have "data_ok (Some s)" using assms by (simp add: data_ok_def)
  note first = expandState_flat [OF blf_init_flat(2) assms(1) this, unfolded blf_init_flat(1), simplified]
  note sched = schedule_flat [OF first(2) assms, of 64]
  have "(encrypt_pairs (flat c) ^^ n) ws = (blf_enc c ^^ n) ws" if "blf_ok c" for c n ws
    by (induction n) (simp_all add: encrypt_pairs_flat that)
  then show ?thesis using sched unfolding bcryptHash_def bcrypt_hash_ref_def Let_def first(1) magic_stream by simp
qed

lemma length_bcryptHash [simp]: "length (bcryptHash p s) = 32"
proof -
  have n: "length ((encrypt_pairs st ^^ n) ws) = length ws" for st n ws by (induction n) simp_all
  have "length (concat (map le_bytes ws)) = 4 * length ws" for ws by (induction ws) (simp_all add: le_bytes_def)
  then show ?thesis by (simp add: bcryptHash_def Let_def n MAGIC_WORDS_def)
qed

section \<open>The key\<close>

lemma rounds_mixed:
  assumes "\<And>x. length (sha512 x) = 64" "length p = 64" "length acc = 32" "i < 32"
  shows "snd ((pbkdf_round sha512 p ^^ n) (h, acc)) ! i = foldl (XOR) (acc ! i) (map (\<lambda>h. h ! i) (block_hashes sha512 p h n))"
  using assms(3)
proof (induction n arbitrary: h acc)
  case (Suc n)
  have "pbkdf_round sha512 p (h, acc) = (bcryptHash p (sha512 h), map2 (XOR) acc (bcryptHash p (sha512 h)))"
    by (simp add: pbkdf_round_def Let_def)
  moreover have "bcryptHash p (sha512 h) = bcrypt_hash_ref p (sha512 h)" by (rule bcryptHash_ref [OF assms(2,1)])
  moreover have "length (bcrypt_hash_ref p (sha512 h)) = 32" using calculation(2) length_bcryptHash [of p "sha512 h"] by simp
  ultimately show ?case using Suc assms(4) by (simp add: funpow_swap1 Let_def)
qed simp

lemma length_pbkdf_output: "length (pbkdf_output sha512 p salt rounds n) = 32"
proof -
  have "length (snd ((pbkdf_round sha512 p ^^ m) (h, acc))) = 32" if "length acc = 32" for m h acc
    using that by (induction m arbitrary: h acc) (simp_all add: funpow_swap1 pbkdf_round_def Let_def)
  then show ?thesis by (simp add: pbkdf_output_def Let_def)
qed

lemma pbkdf_output_block:
  assumes "\<And>x. length (sha512 x) = 64" "length p = 64" "0 < rounds" "i < 32"
  shows "pbkdf_output sha512 p salt rounds number ! i = key_block sha512 p salt rounds number i"
proof -
  obtain n where n: "rounds = Suc n" using assms(3) by (cases rounds) auto
  define h where "h = bcryptHash p (sha512 (salt @ be_counter number))"
  have ref: "h = bcrypt_hash_ref p (sha512 (salt @ be_counter number))"
    unfolding h_def by (rule bcryptHash_ref [OF assms(2,1)])
  have "length h = 32" by (simp add: h_def)
  then have "snd ((pbkdf_round sha512 p ^^ n) (h, h)) ! i = foldl (XOR) (h ! i) (map (\<lambda>h. h ! i) (block_hashes sha512 p h n))"
    by (intro rounds_mixed) (use assms in simp_all)
  then show ?thesis by (simp add: pbkdf_output_def key_block_def Let_def n ref [symmetric] flip: h_def)
qed

lemma spread_nth:
  assumes "k < blocks" "m * blocks \<le> length key" "d < length key"
  shows "fold (\<lambda>i key. key[i * blocks + k := outb ! i]) [0..<m] key ! d =
    (if d mod blocks = k \<and> d div blocks < m then outb ! (d div blocks) else key ! d)"
  using assms(2)
proof (induction m)
  case (Suc m)
  have idx: "m * blocks + k = d \<longleftrightarrow> d mod blocks = k \<and> d div blocks = m"
    using assms(1) by (auto simp: div_mult_mod_eq)
  have len: "length (fold (\<lambda>i key. key[i * blocks + k := outb ! i]) [0..<m] key) = length key"
    by (induction m) simp_all
  show ?case using Suc idx assms(3) by (auto simp: len nth_list_update)
qed simp

lemma length_spread_output [simp]: "length (spread_output blocks n outb key) = length key"
proof -
  have "length (fold (\<lambda>i k. k[i * blocks + n - 1 := outb ! i]) is key) = length key" for "is"
    by (induction "is" arbitrary: key) simp_all
  then show ?thesis by (simp add: spread_output_def)
qed

lemma spread_output_nth:
  assumes "0 < n" "n \<le> blocks" "length outb * blocks \<le> length key" "d < length key"
  shows "spread_output blocks n outb key ! d =
    (if d mod blocks + 1 = n \<and> d div blocks < length outb then outb ! (d div blocks) else key ! d)"
proof -
  have "(\<lambda>i k. k[i * blocks + n - 1 := outb ! i]) = (\<lambda>i k. k[i * blocks + (n - 1) := outb ! i])"
    using assms(1) by simp
  then show ?thesis using spread_nth [where k = "n - 1" and blocks = blocks and m = "length outb" and key = key and d = d and outb = outb] assms
    unfolding spread_output_def by auto
qed

lemma all_blocks_nth:
  assumes "\<And>n. length (out n) = 32" "m \<le> blocks" "length key = blocks * 32" "d < length key"
  shows "length (fold (\<lambda>n. spread_output blocks n (out n)) [1..<m + 1] key) = blocks * 32 \<and>
    fold (\<lambda>n. spread_output blocks n (out n)) [1..<m + 1] key ! d =
    (if d mod blocks < m then out (d mod blocks + 1) ! (d div blocks) else key ! d)"
  using assms(2)
proof (induction m)
  case (Suc m)
  define k where "k = fold (\<lambda>n. spread_output blocks n (out n)) [1..<m + 1] key"
  have k: "length k = blocks * 32" "k ! d = (if d mod blocks < m then out (d mod blocks + 1) ! (d div blocks) else key ! d)"
    using Suc by (simp_all add: k_def)
  have "d div blocks < 32" using assms(3,4) by (metis less_mult_imp_div_less mult.commute)
  moreover have "fold (\<lambda>n. spread_output blocks n (out n)) [1..<Suc m + 1] key = spread_output blocks (m + 1) (out (m + 1)) k"
    by (simp add: k_def)
  moreover have "spread_output blocks (m + 1) (out (m + 1)) k ! d =
      (if d mod blocks + 1 = m + 1 \<and> d div blocks < length (out (m + 1)) then out (m + 1) ! (d div blocks) else k ! d)"
    by (rule spread_output_nth) (use k Suc.prems assms in simp_all)
  ultimately show ?case using k assms(1,3) by (auto simp: less_Suc_eq simp del: upt_Suc)
qed (use assms in simp)

lemma bcryptPbkdf_eq:
  assumes "\<And>x. length (sha512 x) = 64"
  shows "bcryptPbkdf sha512 passphrase salt keyLength rounds =
    (if rounds < 1 then Inl PbkdfRounds else if passphrase = [] then Inl PbkdfPassphrase
     else if salt = [] \<or> 1048576 < length salt then Inl PbkdfSalt
     else if keyLength < 1 \<or> 1024 < keyLength then Inl PbkdfKeyLength
     else Inr (pbkdf_reference sha512 passphrase salt (nat keyLength) (nat rounds)))"
proof (cases "rounds < 1 \<or> passphrase = [] \<or> salt = [] \<or> 1048576 < length salt \<or> keyLength < 1 \<or> 1024 < keyLength")
  case True
  then show ?thesis by (auto simp: bcryptPbkdf_def MAXIMUM_SALT_BYTES_def MAXIMUM_KEY_BYTES_def BCRYPT_HASH_BYTES_def)
next
  case False
  define n where "n = nat keyLength"
  define blocks where "blocks = (n + 31) div 32"
  define out where "out = pbkdf_output sha512 (sha512 passphrase) salt (nat rounds)"
  define key where "key = fold (\<lambda>m. spread_output blocks m (out m)) [1..<blocks + 1] (replicate (blocks * 32) 0)"
  have n: "0 < n" "n \<le> blocks * 32" "0 < blocks" using False by (simp_all add: n_def blocks_def) linarith+
  have len: "length (out m) = 32" for m by (simp add: out_def length_pbkdf_output)
  have nth: "length key = blocks * 32 \<and> key ! d = out (d mod blocks + 1) ! (d div blocks)" if "d < blocks * 32" for d
    using all_blocks_nth [of out blocks blocks "replicate (blocks * 32) 0" d] len that n
    by (simp add: key_def del: upt_Suc One_nat_def)
  have "take n key = pbkdf_reference sha512 passphrase salt n (nat rounds)"
  proof (rule nth_equalityI)
    show "length (take n key) = length (pbkdf_reference sha512 passphrase salt n (nat rounds))"
      using nth [of 0] n by (simp add: pbkdf_reference_def Let_def)
    fix d assume "d < length (take n key)"
    then have d: "d < n" "d < blocks * 32" using n by simp_all
    then have "d div blocks < 32" by (metis less_mult_imp_div_less mult.commute)
    then have "out (d mod blocks + 1) ! (d div blocks) = key_block sha512 (sha512 passphrase) salt (nat rounds) (d mod blocks + 1) (d div blocks)"
      unfolding out_def by (intro pbkdf_output_block) (use assms False in auto)
    then show "take n key ! d = pbkdf_reference sha512 passphrase salt n (nat rounds) ! d"
      using d nth by (simp add: pbkdf_reference_def Let_def flip: blocks_def)
  qed
  moreover have "n + 32 - 1 = n + 31" by simp
  moreover have "bcryptPbkdf sha512 passphrase salt keyLength rounds = Inr (take n (fold (\<lambda>m. spread_output ((n + 32 - 1) div 32) m (out m))
      [1..<(n + 32 - 1) div 32 + 1] (replicate ((n + 32 - 1) div 32 * 32) 0)))"
    using False unfolding bcryptPbkdf_def MAXIMUM_SALT_BYTES_def MAXIMUM_KEY_BYTES_def BCRYPT_HASH_BYTES_def Let_def out_def n_def
    by (simp del: upt_Suc)
  ultimately have "bcryptPbkdf sha512 passphrase salt keyLength rounds = Inr (pbkdf_reference sha512 passphrase salt n (nat rounds))"
    unfolding key_def blocks_def by (simp only:)
  then show ?thesis using False by (simp add: n_def)
qed

text \<open>The derived key has the length asked for.\<close>

lemma length_bcryptPbkdf:
  "(\<And>x. length (sha512 x) = 64) \<Longrightarrow> bcryptPbkdf sha512 passphrase salt keyLength rounds = Inr key \<Longrightarrow> int (length key) = keyLength"
  by (subst (asm) bcryptPbkdf_eq) (auto simp: pbkdf_reference_def Let_def split: if_splits)

text \<open>C26: The code derives, for every valid input, exactly the key the reference derives, and refuses
  every other input.\<close>

theorem bcrypt_pbkdf_reference:
  assumes "\<And>x. length (sha512 x) = 64"
  shows "bcryptPbkdf sha512 passphrase salt keyLength rounds =
    (if rounds < 1 then Inl PbkdfRounds else if passphrase = [] then Inl PbkdfPassphrase
     else if salt = [] \<or> 1048576 < length salt then Inl PbkdfSalt
     else if keyLength < 1 \<or> 1024 < keyLength then Inl PbkdfKeyLength
     else Inr (pbkdf_reference sha512 passphrase salt (nat keyLength) (nat rounds)))"
  using assms by (rule bcryptPbkdf_eq)

lemma bcrypt_pbkdf_reference_witness:
  "bcryptPbkdf (\<lambda>x. replicate 64 (of_nat (length x))) [1] [2] 3 1 =
     Inr (pbkdf_reference (\<lambda>x. replicate 64 (of_nat (length x))) [1] [2] 3 1)"
  by (subst bcrypt_pbkdf_reference) simp_all

end
