(* ===== verification/IpAddress.thy ===== *)
theory IpAddress
  imports JsString
begin

text \<open>
  \<open>src/core/routing/ip-address.ts\<close>: IP literals and CIDR ranges.  Values are the \<open>bigint\<close>s of
  the source, here \<open>int\<close>; strings are the UTF-16 unit lists of \<open>JsString\<close>.  The lemmas relate
  the bit masks to leading bits of addresses, and the printers to the parsers.
\<close>

unbundle bit_operations_syntax

section \<open>Data\<close>

datatype ip_version = V4 | V6

record parsed_ip =
  ip_version_of :: ip_version
  ip_value :: int

record cidr_range =
  cr_version :: ip_version
  cr_network :: int
  cr_prefixLength :: int

definition IPV4_BITS :: int where "IPV4_BITS = 32"
definition IPV6_BITS :: int where "IPV6_BITS = 128"
definition IPV6_GROUPS :: nat where "IPV6_GROUPS = 8"

definition version_bits :: "ip_version \<Rightarrow> int" where
  "version_bits v = (if v = V4 then IPV4_BITS else IPV6_BITS)"

section \<open>Parsing\<close>

definition ipv4_octet :: "jsstring \<Rightarrow> int option" where
  "ipv4_octet octet =
     (if \<not> all_digits octet \<or> (1 < length octet \<and> starts_with (js ''0'') octet) then None
      else let parsed = int (radix_value 10 octet) in if 255 < parsed then None else Some parsed)"

fun ipv4_octets :: "jsstring list \<Rightarrow> int \<Rightarrow> int option" where
  "ipv4_octets [] v = Some v"
| "ipv4_octets (o1 # os) v = (case ipv4_octet o1 of None \<Rightarrow> None
     | Some parsed \<Rightarrow> ipv4_octets os (push_bit 8 v OR parsed))"

definition parseIpv4 :: "jsstring \<Rightarrow> parsed_ip option" where
  "parseIpv4 input =
     (let octets = split_on (js ''.'') input in
      if length octets \<noteq> 4 then None
      else map_option (\<lambda>v. \<lparr>ip_version_of = V4, ip_value = v\<rparr>) (ipv4_octets octets 0))"

definition hex_group :: "jsstring \<Rightarrow> bool" where
  "hex_group g \<longleftrightarrow> list_all is_hex_digit g \<and> 1 \<le> length g \<and> length g \<le> 4"

definition parseIpv6Groups :: "jsstring \<Rightarrow> int list option" where
  "parseIpv6Groups input =
     (if input = [] then Some []
      else let groups = split_on (js '':'') input in
        if list_ex (\<lambda>g. length g = 0) groups then None
        else if list_all hex_group groups then Some (map (\<lambda>g. int (radix_value 16 g)) groups) else None)"

text \<open>\<open>parts[i] ? parseIpv6Groups(parts[i]) : []\<close>: an absent part and an empty one are both falsy.\<close>

definition ipv6_part :: "jsstring list \<Rightarrow> nat \<Rightarrow> int list option" where
  "ipv6_part parts i = (if i < length parts \<and> parts ! i \<noteq> [] then parseIpv6Groups (parts ! i) else Some [])"

definition parseIpv6 :: "jsstring \<Rightarrow> parsed_ip option" where
  "parseIpv6 input =
     (if input = [] \<or> js_includes (js '':::'') input then None
      else let parts = split_on (js ''::'') input in
        if 2 < length parts then None
        else case (ipv6_part parts 0, ipv6_part parts 1) of
          (Some left, Some right) \<Rightarrow>
            let compression = (length parts = 2);
                missing = int IPV6_GROUPS - int (length left) - int (length right) in
            if (if compression then missing < 1 else missing \<noteq> 0) then None
            else let groups = left @ replicate (nat missing) 0 @ right in
              if length groups \<noteq> IPV6_GROUPS then None
              else Some \<lparr>ip_version_of = V6, ip_value = fold (\<lambda>g v. push_bit 16 v OR g) groups 0\<rparr>
        | _ \<Rightarrow> None)"

definition parseIpAddress :: "jsstring \<Rightarrow> parsed_ip option" where
  "parseIpAddress input =
     (let value = js_trim input in
      if js_includes (js ''.'') value then parseIpv4 value
      else if js_includes (js '':'') value then parseIpv6 value
      else None)"

section \<open>Printing\<close>

definition dec :: "int \<Rightarrow> jsstring" where "dec n = radix_string 10 (nat n)"
definition hex :: "int \<Rightarrow> jsstring" where "hex n = radix_string 16 (nat n)"

definition formatIpv4 :: "int \<Rightarrow> jsstring" where
  "formatIpv4 v = js_join (js ''.'') (map (\<lambda>shift. dec (drop_bit shift v AND 0xff)) [24, 16, 8, 0])"

definition ipv6_groups :: "int \<Rightarrow> jsstring list" where
  "ipv6_groups v = map (\<lambda>index. hex (drop_bit ((IPV6_GROUPS - 1 - index) * 16) v AND 0xffff)) [0..<IPV6_GROUPS]"

text \<open>The scan for the longest run of zero groups.\<close>

definition zero_run_end :: "jsstring list \<Rightarrow> nat \<Rightarrow> nat" where
  "zero_run_end groups index =
     index + 1 + length (takeWhile (\<lambda>g. g = js ''0'') (drop (index + 1) groups))"

function best_run :: "jsstring list \<Rightarrow> nat \<Rightarrow> int \<Rightarrow> nat \<Rightarrow> int \<times> nat" where
  "best_run groups index bestStart bestLength =
     (if length groups \<le> index then (bestStart, bestLength)
      else if groups ! index \<noteq> js ''0'' then best_run groups (index + 1) bestStart bestLength
      else let e = zero_run_end groups index in
        if bestLength < e - index \<and> 2 \<le> e - index then best_run groups e (int index) (e - index)
        else best_run groups e bestStart bestLength)"
  by pat_completeness auto
termination
  by (relation "measure (\<lambda>(groups, index, s, n). length groups - index)") (auto simp: zero_run_end_def)

declare best_run.simps [simp del]

definition formatIpv6 :: "int \<Rightarrow> jsstring" where
  "formatIpv6 v =
     (let groups = ipv6_groups v; (bestStart, bestLength) = best_run groups 0 (-1) 0 in
      if bestStart < 0 then js_join (js '':'') groups
      else js_join (js '':'') (take (nat bestStart) groups) @ js ''::'' @
           js_join (js '':'') (drop (nat bestStart + bestLength) groups))"

definition canonicalizeIpAddress :: "jsstring \<Rightarrow> jsstring option" where
  "canonicalizeIpAddress input =
     (let trimmed = js_lower (js_trim input);
          withoutMappedPrefix = (if starts_with (js ''::ffff:'') trimmed then drop 7 trimmed else trimmed) in
      case parseIpAddress withoutMappedPrefix of
        None \<Rightarrow> None
      | Some parsed \<Rightarrow> Some (if ip_version_of parsed = V4
          then js_join (js ''.'') (map (\<lambda>shift. dec (drop_bit shift (ip_value parsed) AND 0xff)) [24, 16, 8, 0])
          else formatIpv6 (ip_value parsed)))"

text \<open>\<open>s.replace(/^\[(.*)\]$/u, "$1")\<close>; the dot of the pattern does not match line terminators.\<close>

definition line_terminator :: "nat \<Rightarrow> bool" where
  "line_terminator u \<longleftrightarrow> u = 10 \<or> u = 13 \<or> u = 8232 \<or> u = 8233"

definition strip_brackets :: "jsstring \<Rightarrow> jsstring" where
  "strip_brackets s =
     (if starts_with (js ''['') s \<and> ends_with (js '']'') s \<and> 2 \<le> length s \<and>
         \<not> list_ex line_terminator (butlast (tl s)) then butlast (tl s) else s)"

definition parseDottedTailIpv6 :: "jsstring \<Rightarrow> jsstring \<Rightarrow> parsed_ip option" where
  "parseDottedTailIpv6 head tail =
     (case parseIpv4 tail of
        None \<Rightarrow> None
      | Some ipv4 \<Rightarrow> parseIpv6 (head @ hex (drop_bit 16 (ip_value ipv4)) @ js '':'' @ hex (ip_value ipv4 AND 0xffff)))"

text \<open>\<open>/^(.*:)([^:]*\.[^:]*)$/u.exec(value)\<close>: the head ends at the last colon.\<close>

definition dotted_tail :: "jsstring \<Rightarrow> (jsstring \<times> jsstring) option" where
  "dotted_tail value =
     (case last_index_of 58 value of
        None \<Rightarrow> None
      | Some i \<Rightarrow> if js_includes (js ''.'') (drop (i + 1) value) \<and> \<not> list_ex line_terminator (take i value)
          then Some (take (i + 1) value, drop (i + 1) value) else None)"

definition parseIpAddressUnmapped :: "jsstring \<Rightarrow> parsed_ip option" where
  "parseIpAddressUnmapped input =
     (let value = js_lower (strip_brackets (js_trim input));
          parsed = (case dotted_tail value of
              Some (head, tail) \<Rightarrow> parseDottedTailIpv6 head tail
            | None \<Rightarrow> parseIpAddress value) in
      case parsed of
        Some p \<Rightarrow> if ip_version_of p = V6 \<and> drop_bit 32 (ip_value p) = 0xffff
          then Some \<lparr>ip_version_of = V4, ip_value = ip_value p AND 0xffffffff\<rparr> else Some p
      | None \<Rightarrow> None)"

definition unmapIpv4MappedAddress :: "jsstring \<Rightarrow> jsstring" where
  "unmapIpv4MappedAddress host =
     (case parseIpAddressUnmapped host of
        Some p \<Rightarrow> if ip_version_of p \<noteq> V4 \<or> \<not> js_includes (js '':'') host then host else formatIpv4 (ip_value p)
      | None \<Rightarrow> host)"

section \<open>Ranges\<close>

definition prefixToMask :: "int \<Rightarrow> int \<Rightarrow> int" where
  "prefixToMask bits prefixLength =
     (if prefixLength = 0 then 0 else push_bit (nat (bits - prefixLength)) (push_bit (nat prefixLength) 1 - 1))"

definition parseCidrRange :: "jsstring \<Rightarrow> cidr_range option" where
  "parseCidrRange input =
     (let parts = split_on (js ''/'') (js_trim input); ipRaw = parts ! 0 in
      if ipRaw = [] then None
      else case parseIpAddress ipRaw of
        None \<Rightarrow> None
      | Some ip \<Rightarrow>
          let bits = version_bits (ip_version_of ip) in
          case (if length parts < 2 then Some bits else js_number (parts ! 1)) of
            None \<Rightarrow> None
          | Some prefixLength \<Rightarrow>
              if prefixLength < 0 \<or> bits < prefixLength then None
              else Some \<lparr>cr_version = ip_version_of ip,
                cr_network = ip_value ip AND prefixToMask bits prefixLength, cr_prefixLength = prefixLength\<rparr>)"

definition ipMatchesCidr :: "parsed_ip \<Rightarrow> cidr_range \<Rightarrow> bool" where
  "ipMatchesCidr ip cidr =
     (if ip_version_of ip \<noteq> cr_version cidr then False
      else (ip_value ip AND prefixToMask (version_bits (ip_version_of ip)) (cr_prefixLength cidr)) = cr_network cidr)"

definition formatCidrRange :: "cidr_range \<Rightarrow> jsstring" where
  "formatCidrRange r =
     (if cr_version r = V4 then formatIpv4 (cr_network r) else formatIpv6 (cr_network r)) @
     js ''/'' @ dec (cr_prefixLength r)"

definition ipAddressKey :: "jsstring \<Rightarrow> jsstring option" where
  "ipAddressKey input =
     (case canonicalizeIpAddress input of
        None \<Rightarrow> None
      | Some canonical \<Rightarrow> if canonical = [] then None
          else map_option (\<lambda>p. (if ip_version_of p = V4 then js ''4'' else js ''6'') @ js '':'' @ hex (ip_value p))
            (parseIpAddress canonical))"

section \<open>Local destinations\<close>

definition LOCAL_DESTINATION_CIDRS :: "jsstring list" where
  "LOCAL_DESTINATION_CIDRS =
     [js ''0.0.0.0/8'', js ''10.0.0.0/8'', js ''100.64.0.0/10'', js ''127.0.0.0/8'', js ''169.254.0.0/16'',
      js ''172.16.0.0/12'', js ''192.168.0.0/16'', js ''::1/128'', js ''fc00::/7'', js ''fe80::/10'']"

text \<open>A range that did not parse would throw when the module loads; none does (\<open>local_ranges\<close>).\<close>

definition LOCAL_DESTINATION_RANGES :: "cidr_range list" where
  "LOCAL_DESTINATION_RANGES = map (\<lambda>cidr. the (parseCidrRange cidr)) LOCAL_DESTINATION_CIDRS"

definition isLocalDestinationIp :: "jsstring \<Rightarrow> bool" where
  "isLocalDestinationIp input =
     (case parseIpAddressUnmapped input of
        None \<Rightarrow> False
      | Some ip \<Rightarrow> list_ex (\<lambda>r. ipMatchesCidr ip r) LOCAL_DESTINATION_RANGES)"

text \<open>\<open>s.replace(/\.$/u, "")\<close>.\<close>

definition strip_final_dot :: "jsstring \<Rightarrow> jsstring" where
  "strip_final_dot s = (if ends_with (js ''.'') s then butlast s else s)"

definition isLocalDestinationHost :: "jsstring \<Rightarrow> bool" where
  "isLocalDestinationHost host =
     (let value = strip_final_dot (js_lower (strip_brackets (js_trim host))) in
      if value = [] then False
      else if parseIpAddressUnmapped value \<noteq> None then isLocalDestinationIp value
      else \<not> js_includes (js ''.'') value \<or> value = js ''localhost'' \<or> ends_with (js ''.local'') value)"

definition overlapsLocalDestinationRange :: "jsstring \<Rightarrow> bool" where
  "overlapsLocalDestinationRange input =
     (case parseCidrRange input of
        None \<Rightarrow> False
      | Some r \<Rightarrow>
          let bits = version_bits (cr_version r) in
          list_ex (\<lambda>loc. if cr_version loc \<noteq> cr_version r then False
            else let mask = prefixToMask bits (min (cr_prefixLength loc) (cr_prefixLength r)) in
              (cr_network loc AND mask) = (cr_network r AND mask)) LOCAL_DESTINATION_RANGES)"

section \<open>Masks and leading bits\<close>

lemma push_or: "0 \<le> d \<Longrightarrow> d < 2 ^ k \<Longrightarrow> push_bit k v OR d = v * 2 ^ k + (d :: int)"
  using concat_bit_eq [of k d v] by (simp add: concat_bit_def take_bit_int_eq_self push_bit_eq_mult ac_simps or.commute)

lemma prefixToMask_eq:
  "0 \<le> p \<Longrightarrow> p \<le> b \<Longrightarrow> prefixToMask b p = push_bit (nat (b - p)) (mask (nat p))"
  by (simp add: prefixToMask_def mask_eq_exp_minus_1 push_bit_of_1)

lemma and_prefix:
  assumes "0 \<le> v" "v < 2 ^ b" "k \<le> b"
  shows "(v :: int) AND push_bit (b - k) (mask k) = v div 2 ^ (b - k) * 2 ^ (b - k)"
proof -
  have v: "take_bit b v = v" using assms by (simp add: take_bit_int_eq_self)
  have "v AND push_bit (b - k) (mask k) = push_bit (b - k) (drop_bit (b - k) v)"
  proof (rule bit_eqI)
    fix n
    have "bit v n \<Longrightarrow> n < b" using v by (metis bit_take_bit_iff)
    then show "bit (v AND push_bit (b - k) (mask k)) n = bit (push_bit (b - k) (drop_bit (b - k) v)) n"
      using assms(3) by (auto simp: bit_and_iff bit_push_bit_iff bit_mask_iff bit_drop_bit_eq)
  qed
  then show ?thesis by (simp add: push_bit_eq_mult drop_bit_eq_div)
qed

definition ip_ok :: "parsed_ip \<Rightarrow> bool" where
  "ip_ok ip \<longleftrightarrow> 0 \<le> ip_value ip \<and> ip_value ip < 2 ^ nat (version_bits (ip_version_of ip))"

lemma version_bits_simps [simp]: "version_bits V4 = 32" "version_bits V6 = 128"
  by (simp_all add: version_bits_def IPV4_BITS_def IPV6_BITS_def)

lemma version_bits_pos [simp]: "0 < version_bits v" "0 \<le> version_bits v"
  by (cases v; simp)+

lemma and_prefixToMask:
  assumes "0 \<le> v" "v < 2 ^ nat b" "0 \<le> p" "p \<le> b"
  shows "v AND prefixToMask b p = v div 2 ^ nat (b - p) * 2 ^ nat (b - p)"
proof -
  have "nat (b - p) = nat b - nat p" using assms by simp
  then show ?thesis
    using and_prefix [of v "nat b" "nat p"] assms by (simp add: prefixToMask_eq)
qed

lemma block_eq: "(0 :: int) < k \<Longrightarrow> a div k * k = b div k * k \<longleftrightarrow> a div k = b div k"
  by simp

lemma block_block: "(0 :: int) < k \<Longrightarrow> a div k * k div k = a div k"
  by simp

section \<open>Parsed addresses are in range\<close>

lemma ipv4_octet_bounds: "ipv4_octet o1 = Some d \<Longrightarrow> 0 \<le> d \<and> d \<le> 255"
  by (auto simp: ipv4_octet_def Let_def split: if_splits)

lemma ipv4_octets_Some:
  "ipv4_octets os v = Some w \<longleftrightarrow> (\<exists>ds. map ipv4_octet os = map Some ds \<and> w = fold (\<lambda>d v. v * 256 + d) ds v)"
proof (induction os arbitrary: v)
  case (Cons o1 os)
  show ?case
  proof (cases "ipv4_octet o1")
    case None
    then show ?thesis by (auto simp: Cons_eq_map_conv)
  next
    case (Some d)
    have "push_bit 8 v OR d = v * 256 + d" using ipv4_octet_bounds [OF Some] push_or [of d 8 v] by simp
    then show ?thesis using Some by (auto simp: Cons Cons_eq_map_conv)
  qed
qed auto

lemma fold_digits_bounds:
  assumes "\<forall>d \<in> set ds. 0 \<le> d \<and> d < (B :: int)" "0 \<le> v" "v < B ^ n" "1 < B"
  shows "0 \<le> fold (\<lambda>d v. v * B + d) ds v \<and> fold (\<lambda>d v. v * B + d) ds v < B ^ (n + length ds)"
  using assms
proof (induction ds arbitrary: v n)
  case (Cons d ds)
  have "v * B + d < B ^ Suc n"
  proof -
    have "v * B + d < (v + 1) * B" using Cons.prems(1) by (simp add: algebra_simps)
    also have "\<dots> \<le> B ^ n * B" using Cons.prems(3,4) by (intro mult_right_mono) simp_all
    finally show ?thesis by (simp add: ac_simps)
  qed
  moreover have "0 \<le> v * B + d" using Cons.prems by simp
  ultimately show ?case using Cons.IH [of "v * B + d" "Suc n"] Cons.prems(1,4) by simp
qed simp

lemma parseIpv4_ok:
  assumes "parseIpv4 s = Some ip"
  shows "ip_version_of ip = V4" "0 \<le> ip_value ip" "ip_value ip < 2 ^ 32"
proof -
  from assms obtain ds where ds: "map ipv4_octet (split_on [46] s) = map Some ds" "length (split_on [46] s) = 4"
    "ip = \<lparr>ip_version_of = V4, ip_value = fold (\<lambda>d v. v * 256 + d) ds 0\<rparr>"
    by (auto simp: parseIpv4_def Let_def ipv4_octets_Some split: if_splits)
  have l: "length ds = 4" using ds(1,2) by (metis length_map)
  have b: "\<forall>d \<in> set ds. 0 \<le> d \<and> d < 256"
  proof
    fix d assume "d \<in> set ds"
    then obtain o1 where "ipv4_octet o1 = Some d" using ds(1) by (metis imageE image_eqI list.set_map)
    then show "0 \<le> d \<and> d < 256" using ipv4_octet_bounds by force
  qed
  show "ip_version_of ip = V4" using ds(3) by simp
  show "0 \<le> ip_value ip" "ip_value ip < 2 ^ 32"
    using fold_digits_bounds [OF b, of 0 0] l ds(3) by simp_all
qed

lemma hex_group_bounds:
  assumes "hex_group g"
  shows "radix_value 16 g < 65536"
proof -
  have "foldl (\<lambda>a u. 16 * a + digit_val u) a g < (a + 1) * 16 ^ length g" if "list_all is_hex_digit g" for a g
    using that
  proof (induction g arbitrary: a)
    case (Cons u g)
    have "digit_val u < 16" using Cons.prems by (auto simp: digit_val_def is_hex_digit_def is_digit_def)
    then have "(16 * a + digit_val u + 1) * 16 ^ length g \<le> (16 * (a + 1)) * 16 ^ length g" by (intro mult_right_mono) simp_all
    also have "\<dots> = (a + 1) * 16 ^ length (u # g)" by (simp add: algebra_simps)
    finally have "(16 * a + digit_val u + 1) * 16 ^ length g \<le> (a + 1) * 16 ^ length (u # g)" .
    moreover have "foldl (\<lambda>a u. 16 * a + digit_val u) (16 * a + digit_val u) g < (16 * a + digit_val u + 1) * 16 ^ length g"
      using Cons.IH [of "16 * a + digit_val u"] Cons.prems by simp
    ultimately show ?case by (simp only: foldl.simps less_le_trans)
  qed simp
  from this [of g 0] have "radix_value 16 g < 16 ^ length g" using assms by (simp add: radix_value_def hex_group_def)
  also have "\<dots> \<le> 16 ^ 4" using assms by (intro power_increasing) (simp_all add: hex_group_def)
  finally show ?thesis by simp
qed

lemma parseIpv6Groups_bounds: "parseIpv6Groups s = Some gs \<Longrightarrow> g \<in> set gs \<Longrightarrow> 0 \<le> g \<and> g < 65536"
  using hex_group_bounds by (auto simp: parseIpv6Groups_def Let_def list_all_iff split: if_splits)

lemma group_fold:
  assumes "\<forall>g \<in> set gs. 0 \<le> g \<and> g < 65536"
  shows "fold (\<lambda>g v. push_bit 16 v OR g) gs (v :: int) = fold (\<lambda>g v. v * 65536 + g) gs v"
  using assms
proof (induction gs arbitrary: v)
  case (Cons g gs)
  have "push_bit 16 v OR g = v * 65536 + g" using push_or [of g 16 v] Cons.prems by simp
  then show ?case using Cons by simp
qed simp

lemma parseIpv6_groups:
  assumes "parseIpv6 s = Some ip"
  shows "\<exists>gs. length gs = 8 \<and> (\<forall>g \<in> set gs. 0 \<le> g \<and> g < 65536) \<and>
    ip = \<lparr>ip_version_of = V6, ip_value = fold (\<lambda>g v. v * 65536 + g) gs 0\<rparr>"
proof -
  let ?p = "split_on (js ''::'') s"
  obtain l r where lr: "ipv6_part ?p 0 = Some l" "ipv6_part ?p 1 = Some r"
    using assms by (auto simp: parseIpv6_def Let_def split: if_splits option.splits)
  let ?gs = "l @ replicate (nat (int IPV6_GROUPS - int (length l) - int (length r))) 0 @ r"
  have g: "\<forall>g \<in> set ?gs. 0 \<le> g \<and> g < 65536"
    using lr parseIpv6Groups_bounds by (fastforce simp: ipv6_part_def split: if_splits)
  have "length ?gs = 8" "ip = \<lparr>ip_version_of = V6, ip_value = fold (\<lambda>g v. push_bit 16 v OR g) ?gs 0\<rparr>"
    using assms lr by (auto simp: parseIpv6_def Let_def IPV6_GROUPS_def split: if_splits)
  then show ?thesis using g group_fold [OF g] by (intro exI [of _ ?gs]) simp
qed

lemma parseIpv6_ok:
  assumes "parseIpv6 s = Some ip"
  shows "ip_version_of ip = V6" "0 \<le> ip_value ip" "ip_value ip < 2 ^ 128"
proof -
  obtain gs where gs: "length gs = 8" "\<forall>g \<in> set gs. 0 \<le> g \<and> g < 65536"
    "ip = \<lparr>ip_version_of = V6, ip_value = fold (\<lambda>g v. v * 65536 + g) gs 0\<rparr>"
    using parseIpv6_groups [OF assms] by blast
  then show "ip_version_of ip = V6" "0 \<le> ip_value ip" "ip_value ip < 2 ^ 128"
    using fold_digits_bounds [OF gs(2), of 0 0] by simp_all
qed

lemma parseIpAddress_ok: "parseIpAddress s = Some ip \<Longrightarrow> ip_ok ip"
  using parseIpv4_ok [of "js_trim s" ip] parseIpv6_ok [of "js_trim s" ip]
  by (auto simp: parseIpAddress_def ip_ok_def Let_def split: if_splits)

lemma parseIpAddressUnmapped_ok: "parseIpAddressUnmapped s = Some ip \<Longrightarrow> ip_ok ip"
proof -
  assume p: "parseIpAddressUnmapped s = Some ip"
  let ?v = "js_lower (strip_brackets (js_trim s))"
  let ?q = "case dotted_tail ?v of Some (head, tail) \<Rightarrow> parseDottedTailIpv6 head tail | None \<Rightarrow> parseIpAddress ?v"
  have "ip_ok q" if "?q = Some q" for q
    using that parseIpAddress_ok parseIpv6_ok
    by (fastforce simp: parseDottedTailIpv6_def ip_ok_def split: option.splits prod.splits)
  moreover have "0 \<le> v AND (0xffffffff :: int) \<and> v AND (0xffffffff :: int) < 2 ^ 32" for v
    using take_bit_eq_mask [of 32 v] take_bit_nonnegative [of 32 v] take_bit_int_less_exp [of 32 v]
    by (simp add: mask_eq_exp_minus_1)
  ultimately show "ip_ok ip"
    using p unfolding parseIpAddressUnmapped_def Let_def
    by (auto simp: ip_ok_def split: option.splits if_splits)
qed

section \<open>Ranges: lemmas\<close>

definition range_shift :: "cidr_range \<Rightarrow> nat" where
  "range_shift r = nat (version_bits (cr_version r) - cr_prefixLength r)"

definition range_ok :: "cidr_range \<Rightarrow> bool" where
  "range_ok r \<longleftrightarrow> 0 \<le> cr_prefixLength r \<and> cr_prefixLength r \<le> version_bits (cr_version r) \<and>
     0 \<le> cr_network r \<and> cr_network r < 2 ^ nat (version_bits (cr_version r)) \<and>
     cr_network r div 2 ^ range_shift r * 2 ^ range_shift r = cr_network r"

lemma div_block_le:
  assumes "0 \<le> (v :: int)" "v < 2 ^ b"
  shows "0 \<le> v div 2 ^ k * 2 ^ k" "v div 2 ^ k * 2 ^ k < 2 ^ b"
proof -
  have "v div 2 ^ k * 2 ^ k \<le> v" using div_mult_mod_eq [of v "2 ^ k"] pos_mod_sign [of "2 ^ k" v] zero_less_power [of "2 :: int" k] by linarith
  then show "v div 2 ^ k * 2 ^ k < 2 ^ b" using assms(2) by linarith
  show "0 \<le> v div 2 ^ k * 2 ^ k" using assms(1) by (simp add: pos_imp_zdiv_nonneg_iff)
qed

lemma parseCidrRange_Some:
  assumes "parseCidrRange s = Some r"
  obtains base where "parseIpAddress (split_on (js ''/'') (js_trim s) ! 0) = Some base" "ip_ok base"
    "cr_version r = ip_version_of base" "range_ok r"
    "cr_network r = ip_value base div 2 ^ range_shift r * 2 ^ range_shift r"
proof -
  let ?parts = "split_on (js ''/'') (js_trim s)"
  obtain base p where b: "parseIpAddress (?parts ! 0) = Some base" "0 \<le> p" "p \<le> version_bits (ip_version_of base)"
    "r = \<lparr>cr_version = ip_version_of base,
      cr_network = ip_value base AND prefixToMask (version_bits (ip_version_of base)) p, cr_prefixLength = p\<rparr>"
    using assms by (auto simp: parseCidrRange_def Let_def not_less split: if_splits option.splits)
  have ok: "ip_ok base" using parseIpAddress_ok [OF b(1)] .
  have n: "cr_network r = ip_value base div 2 ^ range_shift r * 2 ^ range_shift r"
    using b ok by (simp add: range_shift_def ip_ok_def and_prefixToMask)
  have "range_ok r"
    using b(2,3) arg_cong [OF b(4), of cr_version] arg_cong [OF b(4), of cr_prefixLength]
      n ok div_block_le [of "ip_value base" "nat (version_bits (ip_version_of base))" "range_shift r"]
    by (simp add: range_ok_def ip_ok_def)
  then show thesis using that b(1,4) ok n by simp
qed

lemma ipMatchesCidr_prefix:
  assumes "ip_ok ip" "range_ok r"
  shows "ipMatchesCidr ip r \<longleftrightarrow> ip_version_of ip = cr_version r \<and>
     ip_value ip div 2 ^ range_shift r = cr_network r div 2 ^ range_shift r"
proof (cases "ip_version_of ip = cr_version r")
  case True
  have "(ip_value ip AND prefixToMask (version_bits (cr_version r)) (cr_prefixLength r)) =
      ip_value ip div 2 ^ range_shift r * 2 ^ range_shift r"
    using assms True by (simp add: ip_ok_def range_ok_def and_prefixToMask range_shift_def)
  moreover have "cr_network r div 2 ^ range_shift r * 2 ^ range_shift r = cr_network r"
    using assms(2) by (simp add: range_ok_def)
  ultimately show ?thesis using True block_eq [of "2 ^ range_shift r" "ip_value ip" "cr_network r"]
    by (simp add: ipMatchesCidr_def)
qed (simp add: ipMatchesCidr_def)

lemma local_parses_v4:
  "parseCidrRange (js ''0.0.0.0/8'') = Some \<lparr>cr_version = V4, cr_network = 0, cr_prefixLength = 8\<rparr>"
  "parseCidrRange (js ''10.0.0.0/8'') = Some \<lparr>cr_version = V4, cr_network = 10 * 2 ^ 24, cr_prefixLength = 8\<rparr>"
  "parseCidrRange (js ''100.64.0.0/10'') = Some \<lparr>cr_version = V4, cr_network = 401 * 2 ^ 22, cr_prefixLength = 10\<rparr>"
  "parseCidrRange (js ''127.0.0.0/8'') = Some \<lparr>cr_version = V4, cr_network = 127 * 2 ^ 24, cr_prefixLength = 8\<rparr>"
  "parseCidrRange (js ''169.254.0.0/16'') = Some \<lparr>cr_version = V4, cr_network = 43518 * 2 ^ 16, cr_prefixLength = 16\<rparr>"
  "parseCidrRange (js ''172.16.0.0/12'') = Some \<lparr>cr_version = V4, cr_network = 2753 * 2 ^ 20, cr_prefixLength = 12\<rparr>"
  "parseCidrRange (js ''192.168.0.0/16'') = Some \<lparr>cr_version = V4, cr_network = 49320 * 2 ^ 16, cr_prefixLength = 16\<rparr>"
  by (simp add: parseCidrRange_def js_trim_def js_trim_start_def js_trim_end_def js_ws_def parseIpAddress_def
      parseIpv4_def ipv4_octet_def all_digits_def is_digit_def starts_with_def radix_value_def digit_val_def
      js_number_digits prefixToMask_def push_bit_eq_mult)+

lemma zeros_7: "replicate 7 (0 :: int) = [0, 0, 0, 0, 0, 0, 0]"
  by (simp add: eval_nat_numeral)

lemma local_parses_v6:
  "parseCidrRange (js ''::1/128'') = Some \<lparr>cr_version = V6, cr_network = 1, cr_prefixLength = 128\<rparr>"
  "parseCidrRange (js ''fc00::/7'') = Some \<lparr>cr_version = V6, cr_network = 126 * 2 ^ 121, cr_prefixLength = 7\<rparr>"
  "parseCidrRange (js ''fe80::/10'') = Some \<lparr>cr_version = V6, cr_network = 1018 * 2 ^ 118, cr_prefixLength = 10\<rparr>"
  by (simp add: parseCidrRange_def js_trim_def js_trim_start_def js_trim_end_def js_ws_def parseIpAddress_def
      parseIpv4_def ipv4_octet_def all_digits_def is_digit_def starts_with_def radix_value_def digit_val_def
      js_number_digits prefixToMask_def push_bit_eq_mult
      parseIpv6_def ipv6_part_def parseIpv6Groups_def hex_group_def is_hex_digit_def IPV6_GROUPS_def Let_def zeros_7 split_on.simps)+

lemma local_ranges:
  "LOCAL_DESTINATION_RANGES =
     [\<lparr>cr_version = V4, cr_network = 0, cr_prefixLength = 8\<rparr>,
      \<lparr>cr_version = V4, cr_network = 10 * 2 ^ 24, cr_prefixLength = 8\<rparr>,
      \<lparr>cr_version = V4, cr_network = 401 * 2 ^ 22, cr_prefixLength = 10\<rparr>,
      \<lparr>cr_version = V4, cr_network = 127 * 2 ^ 24, cr_prefixLength = 8\<rparr>,
      \<lparr>cr_version = V4, cr_network = 43518 * 2 ^ 16, cr_prefixLength = 16\<rparr>,
      \<lparr>cr_version = V4, cr_network = 2753 * 2 ^ 20, cr_prefixLength = 12\<rparr>,
      \<lparr>cr_version = V4, cr_network = 49320 * 2 ^ 16, cr_prefixLength = 16\<rparr>,
      \<lparr>cr_version = V6, cr_network = 1, cr_prefixLength = 128\<rparr>,
      \<lparr>cr_version = V6, cr_network = 126 * 2 ^ 121, cr_prefixLength = 7\<rparr>,
      \<lparr>cr_version = V6, cr_network = 1018 * 2 ^ 118, cr_prefixLength = 10\<rparr>]"
  by (simp add: LOCAL_DESTINATION_RANGES_def LOCAL_DESTINATION_CIDRS_def local_parses_v4 local_parses_v6 del: js_simps)

section \<open>What the ranges mean\<close>

text \<open>A parsed address matches a parsed range exactly when it has the version of the address written
  before the slash and the same leading \<open>prefixLength\<close> bits; the bits behind the prefix, in the
  written address or in the matched one, play no role.\<close>

theorem cidr_match_prefix:
  assumes "parseCidrRange s = Some r" and "parseIpAddressUnmapped t = Some ip"
  shows "\<exists>base. parseIpAddress (split_on (js ''/'') (js_trim s) ! 0) = Some base \<and>
    0 \<le> cr_prefixLength r \<and> cr_prefixLength r \<le> version_bits (ip_version_of base) \<and>
    (ipMatchesCidr ip r \<longleftrightarrow> ip_version_of ip = ip_version_of base \<and>
       ip_value ip div 2 ^ nat (version_bits (ip_version_of base) - cr_prefixLength r) =
       ip_value base div 2 ^ nat (version_bits (ip_version_of base) - cr_prefixLength r))"
proof -
  obtain base where b: "parseIpAddress (split_on (js ''/'') (js_trim s) ! 0) = Some base"
    "cr_version r = ip_version_of base" "range_ok r"
    "cr_network r = ip_value base div 2 ^ range_shift r * 2 ^ range_shift r"
    using parseCidrRange_Some [OF assms(1)] by blast
  have "cr_network r div 2 ^ range_shift r = ip_value base div 2 ^ range_shift r"
    using block_block [of "2 ^ range_shift r" "ip_value base"] b(4) by simp
  then show ?thesis
    using b ipMatchesCidr_prefix [OF parseIpAddressUnmapped_ok [OF assms(2)] b(3)]
    by (intro exI [of _ base]) (simp add: range_ok_def range_shift_def)
qed

lemma cidr_match_prefix_witness:
  "\<exists>r ip. parseCidrRange (js ''10.0.0.0/8'') = Some r \<and> parseIpAddressUnmapped (js ''[::1]'') = Some ip \<and> \<not> ipMatchesCidr ip r"
proof -
  have p: "parseIpAddressUnmapped (js ''[::1]'') = Some \<lparr>ip_version_of = V6, ip_value = 1\<rparr>"
    by (simp add: parseIpAddressUnmapped_def strip_brackets_def js_trim_def js_trim_start_def js_trim_end_def js_ws_def
        starts_with_def ends_with_def line_terminator_def lower_unit_def dotted_tail_def last_index_of_def
        parseIpAddress_def parseIpv6_def ipv6_part_def parseIpv6Groups_def hex_group_def is_hex_digit_def is_digit_def
        digit_val_def radix_value_def IPV6_GROUPS_def Let_def zeros_7 split_on.simps)
  from cidr_match_prefix [OF local_parses_v4(2) p] show ?thesis
    using p local_parses_v4(2) by (intro exI conjI) (auto simp: ipMatchesCidr_def)
qed

lemma local_range_ok: "r \<in> set LOCAL_DESTINATION_RANGES \<Longrightarrow> range_ok r"
  by (auto simp: local_ranges range_ok_def range_shift_def)

lemma local_destination_values:
  "isLocalDestinationIp s = (case parseIpAddressUnmapped s of
     None \<Rightarrow> False
   | Some ip \<Rightarrow> (case ip_version_of ip of
       V4 \<Rightarrow> ip_value ip div 2 ^ 24 \<in> {0, 10, 127} \<or> ip_value ip div 2 ^ 22 = 100 * 4 + 1 \<or>
         ip_value ip div 2 ^ 16 \<in> {169 * 256 + 254, 192 * 256 + 168} \<or> ip_value ip div 2 ^ 20 = 172 * 16 + 1
     | V6 \<Rightarrow> ip_value ip = 1 \<or> ip_value ip div 2 ^ 121 = 0xfc div 2 \<or> ip_value ip div 2 ^ 118 = 0xfe80 div 64))"
proof (cases "parseIpAddressUnmapped s")
  case (Some ip)
  have ok: "ip_ok ip" using parseIpAddressUnmapped_ok [OF Some] .
  have "list_ex (\<lambda>r. ipMatchesCidr ip r) LOCAL_DESTINATION_RANGES \<longleftrightarrow>
      list_ex (\<lambda>r. ip_version_of ip = cr_version r \<and>
        ip_value ip div 2 ^ range_shift r = cr_network r div 2 ^ range_shift r) LOCAL_DESTINATION_RANGES"
    using ipMatchesCidr_prefix [OF ok local_range_ok] by (auto simp: list_ex_iff)
  then show ?thesis
    unfolding isLocalDestinationIp_def Some option.case
    by (cases "ip_version_of ip") (simp_all add: local_ranges range_shift_def disj_ac)
qed (simp add: isLocalDestinationIp_def)

text \<open>\<open>isLocalDestinationIp\<close> holds for the IPv4 addresses of \<open>0/8\<close>, \<open>10/8\<close>, \<open>127/8\<close>, \<open>100.64/10\<close>,
  \<open>169.254/16\<close>, \<open>192.168/16\<close> and \<open>172.16/12\<close>, for \<open>::1\<close>, \<open>fc00::/7\<close> and \<open>fe80::/10\<close>, for the
  IPv4-mapped spellings of the former, and for nothing else.\<close>

theorem local_destination_exact:
  "isLocalDestinationIp s = (case parseIpAddressUnmapped s of
     None \<Rightarrow> False
   | Some ip \<Rightarrow> (case ip_version_of ip of
       V4 \<Rightarrow> ip_value ip div 2 ^ 24 \<in> {0, 10, 127} \<or> ip_value ip div 2 ^ 22 = 100 * 4 + 1 \<or>
         ip_value ip div 2 ^ 16 \<in> {169 * 256 + 254, 192 * 256 + 168} \<or> ip_value ip div 2 ^ 20 = 172 * 16 + 1
     | V6 \<Rightarrow> ip_value ip = 1 \<or> ip_value ip div 2 ^ 121 = 0xfc div 2 \<or> ip_value ip div 2 ^ 118 = 0xfe80 div 64))"
  by (rule local_destination_values)

lemma div_shift_mono:
  assumes "(v :: int) div 2 ^ k = w div 2 ^ k" "k \<le> m"
  shows "v div 2 ^ m = w div 2 ^ m"
proof -
  have "u div 2 ^ m = u div 2 ^ k div 2 ^ (m - k)" for u :: int
    using assms(2) by (simp add: zdiv_zmult2_eq [symmetric] power_add [symmetric])
  then show ?thesis using assms(1) by metis
qed

lemma common_address:
  assumes "range_ok a" "range_ok b" "cr_version a = cr_version b"
  defines "m \<equiv> max (range_shift a) (range_shift b)"
  shows "(\<exists>ip. ip_ok ip \<and> ipMatchesCidr ip a \<and> ipMatchesCidr ip b) \<longleftrightarrow>
    cr_network a div 2 ^ m = cr_network b div 2 ^ m"
proof
  assume "\<exists>ip. ip_ok ip \<and> ipMatchesCidr ip a \<and> ipMatchesCidr ip b"
  then obtain ip where "ip_ok ip" "ipMatchesCidr ip a" "ipMatchesCidr ip b" by blast
  then have "ip_value ip div 2 ^ range_shift a = cr_network a div 2 ^ range_shift a"
    "ip_value ip div 2 ^ range_shift b = cr_network b div 2 ^ range_shift b"
    using assms(1,2) by (simp_all add: ipMatchesCidr_prefix)
  then have "ip_value ip div 2 ^ m = cr_network a div 2 ^ m" "ip_value ip div 2 ^ m = cr_network b div 2 ^ m"
    unfolding m_def by (auto intro: div_shift_mono)
  then show "cr_network a div 2 ^ m = cr_network b div 2 ^ m" by simp
next
  assume e: "cr_network a div 2 ^ m = cr_network b div 2 ^ m"
  let ?r = "if range_shift a \<le> range_shift b then a else b"
  let ?ip = "\<lparr>ip_version_of = cr_version a, ip_value = cr_network ?r\<rparr>"
  have ok: "ip_ok ?ip" using assms(1-3) by (simp add: ip_ok_def range_ok_def)
  have "ipMatchesCidr ?ip a" "ipMatchesCidr ?ip b"
    using e assms(3) ok by (auto simp: ipMatchesCidr_prefix assms(1,2) m_def max_def split: if_splits)
  then show "\<exists>ip. ip_ok ip \<and> ipMatchesCidr ip a \<and> ipMatchesCidr ip b" using ok by blast
qed

text \<open>\<open>overlapsLocalDestinationRange\<close> says yes exactly for the ranges that cover at least one address
  of the local destinations.\<close>

theorem overlap_exact:
  "overlapsLocalDestinationRange s \<longleftrightarrow> (\<exists>r ip. parseCidrRange s = Some r \<and>
     0 \<le> ip_value ip \<and> ip_value ip < 2 ^ nat (version_bits (ip_version_of ip)) \<and>
     ipMatchesCidr ip r \<and> list_ex (\<lambda>loc. ipMatchesCidr ip loc) LOCAL_DESTINATION_RANGES)"
proof (cases "parseCidrRange s")
  case None
  then show ?thesis by (simp add: overlapsLocalDestinationRange_def)
next
  case (Some r)
  have ok: "range_ok r" using parseCidrRange_Some [OF Some] by blast
  have m: "x AND prefixToMask (version_bits (cr_version r)) (min (cr_prefixLength a) (cr_prefixLength r)) =
      x div 2 ^ max (range_shift a) (range_shift r) * 2 ^ max (range_shift a) (range_shift r)"
    if "range_ok a" "cr_version a = cr_version r" "0 \<le> x" "x < 2 ^ nat (version_bits (cr_version r))" for a x
  proof -
    have "nat (version_bits (cr_version r) - min (cr_prefixLength a) (cr_prefixLength r)) =
        max (range_shift a) (range_shift r)" using that(2) by (simp add: range_shift_def)
    then show ?thesis using that ok by (simp add: and_prefixToMask range_ok_def min_def)
  qed
  have "(cr_version a = cr_version r \<and>
      (cr_network a AND prefixToMask (version_bits (cr_version r)) (min (cr_prefixLength a) (cr_prefixLength r))) =
      (cr_network r AND prefixToMask (version_bits (cr_version r)) (min (cr_prefixLength a) (cr_prefixLength r)))) \<longleftrightarrow>
      (\<exists>ip. ip_ok ip \<and> ipMatchesCidr ip r \<and> ipMatchesCidr ip a)" if a: "range_ok a" for a
  proof (cases "cr_version a = cr_version r")
    case True
    have "0 \<le> cr_network a" "cr_network a < 2 ^ nat (version_bits (cr_version r))"
      "0 \<le> cr_network r" "cr_network r < 2 ^ nat (version_bits (cr_version r))"
      using a ok True by (simp_all add: range_ok_def)
    then show ?thesis using common_address [OF a ok True] True
      by (simp add: m [OF a True] conj_commute)
  qed (auto simp: ipMatchesCidr_def)
  then have "list_ex (\<lambda>loc. cr_version loc = cr_version r \<and>
      (cr_network loc AND prefixToMask (version_bits (cr_version r)) (min (cr_prefixLength loc) (cr_prefixLength r))) =
      (cr_network r AND prefixToMask (version_bits (cr_version r)) (min (cr_prefixLength loc) (cr_prefixLength r))))
      LOCAL_DESTINATION_RANGES \<longleftrightarrow>
    (\<exists>ip. ip_ok ip \<and> ipMatchesCidr ip r \<and> list_ex (\<lambda>loc. ipMatchesCidr ip loc) LOCAL_DESTINATION_RANGES)"
    using local_range_ok by (auto simp: list_ex_iff)
  moreover have "overlapsLocalDestinationRange s = list_ex (\<lambda>loc. cr_version loc = cr_version r \<and>
      (cr_network loc AND prefixToMask (version_bits (cr_version r)) (min (cr_prefixLength loc) (cr_prefixLength r))) =
      (cr_network r AND prefixToMask (version_bits (cr_version r)) (min (cr_prefixLength loc) (cr_prefixLength r))))
      LOCAL_DESTINATION_RANGES"
    by (auto simp: overlapsLocalDestinationRange_def Some Let_def list_ex_iff)
  ultimately show ?thesis using Some by (simp add: ip_ok_def conj_assoc)
qed

end
