(* ===== verification/IpPrinting.thy ===== *)
theory IpPrinting
  imports IpAddress
begin

text \<open>
  The texts \<open>src/core/routing/ip-address.ts\<close> prints: \<open>formatIpv4\<close>, \<open>formatIpv6\<close> and
  \<open>canonicalizeIpAddress\<close> against the parsers, and the spellings of IPv4-mapped addresses.
\<close>

section \<open>Printing and parsing IPv4\<close>

lemma dec_octet:
  assumes "0 \<le> d" "d \<le> 255"
  shows "ipv4_octet (dec d) = Some d"
proof -
  have "all_digits (dec d)" using radix_string_digits by (auto simp: all_digits_def dec_def list_all_iff)
  moreover have "\<not> starts_with [48] (dec d)" if "1 < length (dec d)"
    using radix_string_no_leading_zero [of 10 "nat d"] that
    by (cases "radix_string 10 (nat d)") (auto simp: dec_def starts_with_single)
  ultimately show ?thesis using assms by (auto simp: ipv4_octet_def dec_def)
qed

lemma byte_and: "drop_bit k v AND 255 = (v :: int) div 2 ^ k mod 256"
  using take_bit_eq_mask [of 8 "drop_bit k v"] by (simp add: mask_eq_exp_minus_1 take_bit_eq_mod drop_bit_eq_div)

lemma group_and: "drop_bit k v AND 65535 = (v :: int) div 2 ^ k mod 65536"
  using take_bit_eq_mask [of 16 "drop_bit k v"] by (simp add: mask_eq_exp_minus_1 take_bit_eq_mod drop_bit_eq_div)

lemma dec_not_dot: "u \<in> set (dec d) \<Longrightarrow> is_digit u"
  using radix_string_digits by (simp add: dec_def)

definition ipv4_bytes :: "int \<Rightarrow> int list" where
  "ipv4_bytes v = [v div 2 ^ 24 mod 256, v div 2 ^ 16 mod 256, v div 2 ^ 8 mod 256, v mod 256]"

lemma formatIpv4_eq: "formatIpv4 v = js_join [46] (map dec (ipv4_bytes v))"
  by (simp add: formatIpv4_def byte_and ipv4_bytes_def take_bit_eq_mask [of 8, symmetric, simplified mask_eq_exp_minus_1, simplified]
      take_bit_eq_mod)

lemma digits_value:
  assumes "0 < (B :: int)"
  shows "fold (\<lambda>d a. a * B + d) (map (\<lambda>i. v div B ^ (n - 1 - i) mod B) [0..<n]) 0 = v mod B ^ n"
proof (induction n arbitrary: v)
  case (Suc n)
  have "map (\<lambda>i. v div B ^ (Suc n - 1 - i) mod B) [0..<n] = map (\<lambda>i. v div B div B ^ (n - 1 - i) mod B) [0..<n]"
  proof (rule map_cong)
    fix i assume "i \<in> set [0..<n]"
    then have "B ^ (Suc n - 1 - i) = B * B ^ (n - 1 - i)" by (simp add: power_Suc [symmetric] Suc_diff_Suc del: power_Suc)
    then show "v div B ^ (Suc n - 1 - i) mod B = v div B div B ^ (n - 1 - i) mod B"
      using assms by (simp add: zdiv_zmult2_eq)
  qed simp
  then have "fold (\<lambda>d a. a * B + d) (map (\<lambda>i. v div B ^ (Suc n - 1 - i) mod B) [0..<n]) 0 = v div B mod B ^ n"
    using Suc [of "v div B"] by (simp only:)
  then have "fold (\<lambda>d a. a * B + d) (map (\<lambda>i. v div B ^ (Suc n - 1 - i) mod B) [0..<Suc n]) 0 =
      (v div B mod B ^ n) * B + v mod B"
    by simp
  also have "\<dots> = v mod B ^ Suc n" using assms by (simp add: zmod_zmult2_eq)
  finally show ?case .
qed simp

lemma ipv4_bytes_value:
  assumes "0 \<le> v" "v < 2 ^ 32"
  shows "fold (\<lambda>d v. v * 256 + d) (ipv4_bytes v) 0 = v"
proof -
  have "ipv4_bytes v = map (\<lambda>i. v div 256 ^ (4 - 1 - i) mod 256) [0..<4]"
    by (simp add: ipv4_bytes_def upt_rec)
  then show ?thesis using digits_value [of 256 v 4] assms by simp
qed

lemma parseIpv4_format:
  assumes "0 \<le> v" "v < 2 ^ 32"
  shows "parseIpv4 (formatIpv4 v) = Some \<lparr>ip_version_of = V4, ip_value = v\<rparr>"
proof -
  have sp: "split_on [46] (formatIpv4 v) = map dec (ipv4_bytes v)"
    unfolding formatIpv4_eq by (rule split_join) (auto simp: ipv4_bytes_def is_digit_def dest!: dec_not_dot)
  have "map ipv4_octet (map dec (ipv4_bytes v)) = map Some (ipv4_bytes v)"
    by (simp add: ipv4_bytes_def dec_octet order.strict_implies_order [OF pos_mod_bound, of 256, simplified])
  then have "ipv4_octets (map dec (ipv4_bytes v)) 0 = Some v"
    unfolding ipv4_octets_Some using ipv4_bytes_value [OF assms] by metis
  moreover have "length (ipv4_bytes v) = 4" by (simp add: ipv4_bytes_def)
  ultimately show ?thesis by (simp add: parseIpv4_def sp)
qed

lemma set_js_join: "set (js_join sep ws) \<subseteq> set sep \<union> \<Union> (set ` set ws)"
  by (induction sep ws rule: js_join.induct) auto

lemma formatIpv4_units: "u \<in> set (formatIpv4 v) \<Longrightarrow> is_digit u \<or> u = 46" "46 \<in> set (formatIpv4 v)"
  using set_js_join [of "[46]" "map dec (ipv4_bytes v)"] dec_not_dot
  by (auto simp: formatIpv4_eq) (simp add: ipv4_bytes_def)

lemma ipv4_print_parse:
  assumes "0 \<le> v" "v < 2 ^ 32"
  shows "parseIpAddress (formatIpv4 v) = Some \<lparr>ip_version_of = V4, ip_value = v\<rparr>"
proof -
  have "js_trim (formatIpv4 v) = formatIpv4 v"
  proof (rule js_trim_id, rule ballI)
    fix u assume "u \<in> set (formatIpv4 v)"
    from formatIpv4_units(1) [OF this] show "\<not> js_ws u"
      by (elim disjE) (simp add: is_digit_not_ws, simp add: js_ws_def)
  qed
  then show ?thesis using formatIpv4_units(2) [of v] parseIpv4_format [OF assms] by (simp add: parseIpAddress_def)
qed

section \<open>Double colons\<close>

fun adjacent :: "jsstring \<Rightarrow> bool" where
  "adjacent (u # v # s) \<longleftrightarrow> (u = 58 \<and> v = 58) \<or> adjacent (v # s)"
| "adjacent s \<longleftrightarrow> False"

lemma adjacent_append:
  "adjacent (a @ b) \<longleftrightarrow> adjacent a \<or> adjacent b \<or> (a \<noteq> [] \<and> b \<noteq> [] \<and> last a = 58 \<and> hd b = 58)"
  by (induction a rule: adjacent.induct) (cases b; auto)+

lemma adjacent_Cons: "adjacent (u # s) \<longleftrightarrow> (u = 58 \<and> s \<noteq> [] \<and> hd s = 58) \<or> adjacent s"
  by (cases s) auto

lemma adjacent_free: "58 \<notin> set s \<Longrightarrow> \<not> adjacent s"
  by (induction s rule: adjacent.induct) auto

lemma starts_with_Cons: "starts_with (p # ps) (u # s) \<longleftrightarrow> p = u \<and> starts_with ps s"
  by (auto simp: starts_with_def)

lemma starts_with_Nil [simp]: "starts_with [] s" "starts_with (p # ps) [] \<longleftrightarrow> False"
  by (simp_all add: starts_with_def)

lemma split_double_none: "\<not> adjacent s \<Longrightarrow> split_on [58, 58] s = [s]"
proof (induction s)
  case (Cons u s)
  then have "\<not> adjacent s" by (cases s) auto
  moreover have "\<not> starts_with [58, 58] (u # s)" using Cons.prems by (cases s) (auto simp: starts_with_Cons)
  ultimately show ?case using Cons.IH by (simp add: split_on.simps)
qed (simp add: split_on.simps)

lemma split_double:
  "\<not> adjacent l \<Longrightarrow> (l \<noteq> [] \<Longrightarrow> last l \<noteq> 58) \<Longrightarrow> split_on [58, 58] (l @ 58 # 58 # r) = l # split_on [58, 58] r"
proof (induction l)
  case Nil
  then show ?case by (simp add: split_on.simps starts_with_Cons)
next
  case (Cons u l)
  then have "\<not> adjacent l" "l \<noteq> [] \<Longrightarrow> last l \<noteq> 58" by (cases l; auto)+
  moreover have "\<not> starts_with [58, 58] (u # l @ 58 # 58 # r)"
    using Cons.prems by (cases l) (auto simp: starts_with_Cons)
  ultimately show ?case using Cons.IH by (simp add: split_on.simps)
qed

lemma includes_adjacent: "js_includes [58, 58, 58] s \<Longrightarrow> adjacent s"
  by (auto simp: js_includes_iff adjacent_append)

lemma no_triple:
  assumes "\<not> adjacent r" "r \<noteq> [] \<Longrightarrow> hd r \<noteq> 58"
  shows "\<not> adjacent l \<Longrightarrow> (l \<noteq> [] \<Longrightarrow> last l \<noteq> 58) \<Longrightarrow> \<not> js_includes [58, 58, 58] (l @ 58 # 58 # r)"
proof (induction l)
  case Nil
  have "\<not> js_includes [58, 58, 58] r" using assms(1) includes_adjacent by blast
  then show ?case using assms(2) by (cases r) (auto simp: starts_with_Cons)
next
  case (Cons u l)
  then have "\<not> adjacent l" "l \<noteq> [] \<Longrightarrow> last l \<noteq> 58" by (cases l; auto)+
  moreover have "\<not> starts_with [58, 58, 58] (u # l @ 58 # 58 # r)"
    using Cons.prems by (cases l) (auto simp: starts_with_Cons)
  ultimately show ?case using Cons.IH by simp
qed

lemma join_words:
  assumes "\<forall>w \<in> set ws. w \<noteq> [] \<and> 58 \<notin> set w"
  shows "\<not> adjacent (js_join [58] ws) \<and> (ws \<noteq> [] \<longrightarrow> js_join [58] ws \<noteq> [] \<and> hd (js_join [58] ws) \<noteq> 58 \<and> last (js_join [58] ws) \<noteq> 58)"
  using assms
proof (induction ws rule: induct_list012)
  case (2 w)
  then show ?case by (auto simp: adjacent_free dest: list.set_sel(1) last_in_set)
next
  case (3 w v ws)
  then have "w \<noteq> []" "58 \<notin> set w" by simp_all
  then have "hd w \<noteq> 58" "last w \<noteq> 58" by (metis list.set_sel(1), metis last_in_set)
  then show ?case using 3 by (auto simp: adjacent_append adjacent_Cons adjacent_free)
qed simp


section \<open>Printing and parsing IPv6\<close>

definition ipv6_values :: "int \<Rightarrow> int list" where
  "ipv6_values v = map (\<lambda>i. v div 65536 ^ (8 - 1 - i) mod 65536) [0..<8]"

lemma ipv6_groups_eq: "ipv6_groups v = map hex (ipv6_values v)"
proof -
  have "2 ^ ((8 - 1 - i) * 16) = (65536 :: int) ^ (8 - 1 - i)" for i :: nat
    by (simp add: power_mult mult.commute [of _ 16])
  then show ?thesis by (simp add: ipv6_groups_def ipv6_values_def IPV6_GROUPS_def group_and)
qed

lemma ipv6_values_props:
  "length (ipv6_values v) = 8" "g \<in> set (ipv6_values v) \<Longrightarrow> 0 \<le> g \<and> g < 65536"
  by (auto simp: ipv6_values_def)

lemma ipv6_values_value: "0 \<le> v \<Longrightarrow> v < 2 ^ 128 \<Longrightarrow> fold (\<lambda>g v. v * 65536 + g) (ipv6_values v) 0 = v"
  using digits_value [of 65536 v 8] by (simp add: ipv6_values_def)

lemma hex_group_hex:
  assumes "0 \<le> g" "g < 65536"
  shows "hex_group (hex g)" "int (radix_value 16 (hex g)) = g" "hex g \<noteq> []" "58 \<notin> set (hex g)"
    "46 \<notin> set (hex g)" "hex g = [48] \<longleftrightarrow> g = 0"
proof -
  have "length (hex g) \<le> 4" unfolding hex_def using radix_string_length [of 16 "nat g" 4] assms by simp
  moreover have "0 < length (hex g)" by (simp add: hex_def)
  ultimately show "hex_group (hex g)"
    using radix_string_hex by (auto simp: hex_group_def hex_def list_all_iff Suc_le_eq)
  show "int (radix_value 16 (hex g)) = g" "hex g \<noteq> []" using assms by (simp_all add: hex_def)
  have "is_hex_digit u" if "u \<in> set (hex g)" for u using that radix_string_hex by (simp add: hex_def)
  then show "58 \<notin> set (hex g)" "46 \<notin> set (hex g)" by (force simp: is_hex_digit_def is_digit_def)+
  have "[48] = hex 0" by (simp add: hex_def radix_string.simps digit_unit_def)
  then show "hex g = [48] \<longleftrightarrow> g = 0" using assms by (auto simp: hex_def radix_string_inj)
qed

lemma parse_groups:
  assumes "\<forall>g \<in> set gs. 0 \<le> g \<and> g < 65536"
  shows "parseIpv6Groups (js_join [58] (map hex gs)) = Some gs"
proof (cases "gs = []")
  case True
  then show ?thesis by (simp add: parseIpv6Groups_def)
next
  case False
  have h: "hex_group (hex g) \<and> int (radix_value 16 (hex g)) = g \<and> hex g \<noteq> [] \<and> 58 \<notin> set (hex g)" if "g \<in> set gs" for g
    using hex_group_hex(1-4) [of g] assms that by simp
  have sp: "split_on [58] (js_join [58] (map hex gs)) = map hex gs"
    using False h by (intro split_join) auto
  have "js_join [58] (map hex gs) \<noteq> []"
    using join_words [of "map hex gs"] False h by auto
  moreover have "map (\<lambda>g. int (radix_value 16 g)) (map hex gs) = gs" using h by (simp add: map_idI)
  moreover have "\<not> list_ex (\<lambda>g. length g = 0) (map hex gs)" "list_all hex_group (map hex gs)"
    using h by (fastforce simp: list_ex_iff list_all_iff)+
  moreover have "split_on (js '':'') (js_join [58] (map hex gs)) = map hex gs" using sp by simp
  ultimately show ?thesis unfolding parseIpv6Groups_def Let_def by (simp only: if_False if_True)
qed

definition run_ok :: "jsstring list \<Rightarrow> int \<Rightarrow> nat \<Rightarrow> bool" where
  "run_ok groups s n \<longleftrightarrow> s < 0 \<or>
     (2 \<le> n \<and> nat s + n \<le> length groups \<and> (\<forall>i. nat s \<le> i \<and> i < nat s + n \<longrightarrow> groups ! i = [48]))"

lemma zero_run:
  assumes "index < length groups" "groups ! index = [48]"
  shows "index < zero_run_end groups index" "zero_run_end groups index \<le> length groups"
    "index \<le> i \<Longrightarrow> i < zero_run_end groups index \<Longrightarrow> groups ! i = [48]"
proof -
  let ?t = "takeWhile (\<lambda>g. g = [48]) (drop (index + 1) groups)"
  have "length ?t \<le> length groups - (index + 1)" by (metis length_drop length_takeWhile_le)
  then show "index < zero_run_end groups index" "zero_run_end groups index \<le> length groups"
    using assms(1) by (simp_all add: zero_run_end_def)
  assume i: "index \<le> i" "i < zero_run_end groups index"
  show "groups ! i = [48]"
  proof (cases "i = index")
    case False
    let ?j = "i - (index + 1)"
    have j: "?j < length ?t" using i False by (simp add: zero_run_end_def)
    from set_takeWhileD [OF nth_mem [OF j]] have "?t ! ?j = [48]" by blast
    then have "drop (index + 1) groups ! ?j = [48]" using takeWhile_nth [OF j] by simp
    then show ?thesis using i False assms(1) by (simp add: nth_drop)
  qed (use assms(2) in simp)
qed

lemma best_run_sound:
  "run_ok groups bestStart bestLength \<Longrightarrow> best_run groups index bestStart bestLength = (s, n) \<Longrightarrow> run_ok groups s n"
proof (induction groups index bestStart bestLength rule: best_run.induct)
  case (1 groups index bestStart bestLength)
  note step = best_run.simps [of groups index bestStart bestLength]
  consider "length groups \<le> index" | "index < length groups" "groups ! index \<noteq> [48]"
    | "index < length groups" "groups ! index = [48]" by fastforce
  then show ?case
  proof cases
    case 1
    then show ?thesis using "1.prems" step by simp
  next
    case 2
    then show ?thesis using "1.IH"(1) "1.prems" step by simp
  next
    case 3
    let ?e = "zero_run_end groups index"
    have ok: "run_ok groups (int index) (?e - index)" if "2 \<le> ?e - index"
      using zero_run [OF 3] that by (simp add: run_ok_def)
    show ?thesis
    proof (cases "bestLength < ?e - index \<and> 2 \<le> ?e - index")
      case True
      then have "best_run groups ?e (int index) (?e - index) = (s, n)" using "1.prems"(2) step 3 by (simp add: Let_def)
      then show ?thesis using "1.IH"(2) 3 True ok by simp
    next
      case False
      then have "best_run groups ?e bestStart bestLength = (s, n)" using "1.prems"(2) step 3 by (auto simp: Let_def)
      then show ?thesis using "1.IH"(3) 3 False "1.prems"(1) by simp
    qed
  qed
qed

lemma formatIpv6_shape:
  obtains "formatIpv6 v = js_join [58] (map hex (ipv6_values v))"
  | l r k where "ipv6_values v = l @ replicate k 0 @ r" "2 \<le> k"
    "formatIpv6 v = js_join [58] (map hex l) @ 58 # 58 # js_join [58] (map hex r)"
proof -
  let ?g = "ipv6_groups v"
  obtain s n where b: "best_run ?g 0 (-1) 0 = (s, n)" by fastforce
  have ok: "run_ok ?g s n" by (rule best_run_sound [OF _ b]) (simp add: run_ok_def)
  show thesis
  proof (cases "s < 0")
    case True
    then show ?thesis using b that(1) by (simp add: formatIpv6_def ipv6_groups_eq)
  next
    case False
    then have n: "2 \<le> n" "nat s + n \<le> length ?g" "\<And>i. nat s \<le> i \<Longrightarrow> i < nat s + n \<Longrightarrow> ?g ! i = [48]"
      using ok by (auto simp: run_ok_def)
    let ?v = "ipv6_values v"
    have len: "nat s + n \<le> length ?v" using n(2) by (simp add: ipv6_groups_eq)
    have zero: "?v ! i = 0" if "nat s \<le> i" "i < nat s + n" for i
    proof -
      have i: "i < length ?v" using that len by simp
      then have "?v ! i \<in> set ?v" by simp
      then show ?thesis using n(3) [OF that] i hex_group_hex(6) ipv6_values_props(2)
        by (metis ipv6_groups_eq nth_map)
    qed
    have "take n (drop (nat s) ?v) = replicate n 0"
      by (rule nth_equalityI) (use len zero in auto)
    then have v: "?v = take (nat s) ?v @ replicate n 0 @ drop (nat s + n) ?v"
      by (metis append_take_drop_id drop_drop add.commute)
    have "formatIpv6 v = js_join [58] (map hex (take (nat s) ?v)) @ 58 # 58 # js_join [58] (map hex (drop (nat s + n) ?v))"
      using b False by (simp add: formatIpv6_def ipv6_groups_eq take_map drop_map)
    then show ?thesis using that(2) [OF v n(1)] by blast
  qed
qed

lemma hex_words: "\<forall>g \<in> set gs. 0 \<le> g \<and> g < 65536 \<Longrightarrow> \<forall>w \<in> set (map hex gs). w \<noteq> [] \<and> 58 \<notin> set w"
  using hex_group_hex(3,4) by simp

lemma parse_compressed:
  assumes "\<forall>g \<in> set l \<union> set r. 0 \<le> g \<and> g < 65536" and "length l + length r < 8"
  shows "parseIpv6 (js_join [58] (map hex l) @ 58 # 58 # js_join [58] (map hex r)) =
    Some \<lparr>ip_version_of = V6,
      ip_value = fold (\<lambda>g v. push_bit 16 v OR g) (l @ replicate (8 - length l - length r) 0 @ r) 0\<rparr>"
proof -
  let ?l = "js_join [58] (map hex l)" and ?r = "js_join [58] (map hex r)"
  have words: "\<forall>w \<in> set (map hex gs). w \<noteq> [] \<and> 58 \<notin> set w" if "set gs \<subseteq> set l \<union> set r" for gs
    using hex_words assms(1) that by blast
  have jl: "\<not> adjacent ?l" "?l \<noteq> [] \<Longrightarrow> last ?l \<noteq> 58" and jr: "\<not> adjacent ?r" "?r \<noteq> [] \<Longrightarrow> hd ?r \<noteq> 58"
    using join_words [OF words [of l]] join_words [OF words [of r]] by (cases l; cases r; auto)+
  have t: "\<not> js_includes [58, 58, 58] (?l @ 58 # 58 # ?r)" using no_triple [OF jr jl] .
  have sp: "split_on [58, 58] (?l @ 58 # 58 # ?r) = [?l, ?r]"
    using split_double [OF jl] split_double_none [OF jr(1)] by simp
  have parts: "ipv6_part [?l, ?r] 0 = Some l" "ipv6_part [?l, ?r] 1 = Some r"
    using parse_groups [of l] parse_groups [of r] assms(1)
    by (auto simp: ipv6_part_def parseIpv6Groups_def split: if_splits)
  have "nat (int IPV6_GROUPS - int (length l) - int (length r)) = 8 - length l - length r"
    "1 \<le> int IPV6_GROUPS - int (length l) - int (length r)"
    using assms(2) by (simp_all add: IPV6_GROUPS_def)
  then show ?thesis
    using t sp parts assms(2) by (simp add: parseIpv6_def Let_def IPV6_GROUPS_def)
qed

lemma parse_uncompressed:
  assumes "\<forall>g \<in> set gs. 0 \<le> g \<and> g < 65536" and "gs \<noteq> []"
  shows "parseIpv6 (js_join [58] (map hex gs)) = (if length gs = 8
    then Some \<lparr>ip_version_of = V6, ip_value = fold (\<lambda>g v. push_bit 16 v OR g) gs 0\<rparr> else None)"
proof -
  let ?t = "js_join [58] (map hex gs)"
  have "\<forall>w \<in> set (map hex gs). w \<noteq> [] \<and> 58 \<notin> set w" using hex_words assms(1) by blast
  then have t: "\<not> adjacent ?t" "?t \<noteq> []" using join_words [of "map hex gs"] assms(2) by auto
  then have "\<not> js_includes [58, 58, 58] ?t" "split_on [58, 58] ?t = [?t]"
    using includes_adjacent split_double_none by blast+
  then show ?thesis
    using t parse_groups [OF assms(1)] by (auto simp: parseIpv6_def ipv6_part_def IPV6_GROUPS_def Let_def)
qed

lemma parseIpv6_format:
  assumes "0 \<le> v" "v < 2 ^ 128"
  shows "parseIpv6 (formatIpv6 v) = Some \<lparr>ip_version_of = V6, ip_value = v\<rparr>"
proof -
  let ?v = "ipv6_values v"
  have V: "fold (\<lambda>g v. push_bit 16 v OR g) ?v 0 = v"
    using group_fold [of ?v 0] ipv6_values_props(2) ipv6_values_value [OF assms] by auto
  have b: "\<forall>g \<in> set ?v. 0 \<le> g \<and> g < 65536" using ipv6_values_props(2) by blast
  show ?thesis
  proof (cases rule: formatIpv6_shape [of v])
    case 1
    have "?v \<noteq> []" "length ?v = 8" using ipv6_values_props(1) [of v] by auto
    then show ?thesis using parse_uncompressed [OF b] V unfolding 1 by simp
  next
    case (2 l r k)
    have "length l + k + length r = 8" using ipv6_values_props(1) [of v] 2(1) by simp
    then have "length l + length r < 8" "8 - length l - length r = k" using 2(2) by linarith+
    then show ?thesis using parse_compressed [of l r] b V unfolding 2(1,3) by simp
  qed
qed

lemma hex_units: "u \<in> set (hex g) \<Longrightarrow> is_digit u \<or> (97 \<le> u \<and> u \<le> 102)"
  using radix_string_hex_lower by (simp add: hex_def)

lemma formatIpv6_units:
  assumes "u \<in> set (formatIpv6 v)"
  shows "is_digit u \<or> (97 \<le> u \<and> u \<le> 102) \<or> u = 58"
proof (cases rule: formatIpv6_shape [of v])
  case 1
  then show ?thesis using assms set_js_join [of "[58]" "map hex (ipv6_values v)"] hex_units by fastforce
next
  case (2 l r k)
  then show ?thesis
    using assms set_js_join [of "[58]" "map hex l"] set_js_join [of "[58]" "map hex r"] hex_units by fastforce
qed

lemma formatIpv6_colon: "58 \<in> set (formatIpv6 v)"
proof (cases rule: formatIpv6_shape [of v])
  case 1
  have "\<exists>w x ws. map hex (ipv6_values v) = w # x # ws" by (simp add: ipv6_values_def upt_rec)
  then show ?thesis unfolding 1 by (auto)
next
  case (2 l r k)
  then show ?thesis by simp
qed

lemma formatIpv6_text:
  "js_trim (formatIpv6 v) = formatIpv6 v" "js_lower (formatIpv6 v) = formatIpv6 v" "46 \<notin> set (formatIpv6 v)"
proof -
  have u: "\<not> js_ws u \<and> lower_unit u = [u] \<and> u \<noteq> 46" if "u \<in> set (formatIpv6 v)" for u
    using formatIpv6_units [OF that] by (auto simp: is_digit_def js_ws_def lower_unit_def)
  show "js_trim (formatIpv6 v) = formatIpv6 v" using u by (intro js_trim_id) blast
  show "js_lower (formatIpv6 v) = formatIpv6 v" using u by (intro js_lower_id) blast
  show "46 \<notin> set (formatIpv6 v)" using u by blast
qed

lemma ipv6_print_parse:
  assumes "0 \<le> v" "v < 2 ^ 128"
  shows "parseIpAddress (formatIpv6 v) = Some \<lparr>ip_version_of = V6, ip_value = v\<rparr>"
  using parseIpv6_format [OF assms] formatIpv6_colon [of v] formatIpv6_text [of v] by (simp add: parseIpAddress_def)

text \<open>Printing an address and reading it back gives the address again, for every address of either
  version; for IPv6 this includes the choice of the run of zero groups the printer leaves out.\<close>

theorem ip_print_parse:
  assumes "0 \<le> ip_value ip" and "ip_value ip < 2 ^ nat (version_bits (ip_version_of ip))"
  shows "parseIpAddress (case ip_version_of ip of V4 \<Rightarrow> formatIpv4 (ip_value ip) | V6 \<Rightarrow> formatIpv6 (ip_value ip)) = Some ip"
  using assms ipv4_print_parse [of "ip_value ip"] ipv6_print_parse [of "ip_value ip"]
  by (cases ip; cases "ip_version_of ip") simp_all

lemma ip_print_parse_witness:
  "parseIpAddress (formatIpv6 (0xfe80 * 2 ^ 112 + 7)) = Some \<lparr>ip_version_of = V6, ip_value = 0xfe80 * 2 ^ 112 + 7\<rparr>"
  using ip_print_parse [of "\<lparr>ip_version_of = V6, ip_value = 0xfe80 * 2 ^ 112 + 7\<rparr>"] by simp

lemma formatIpv4_text:
  "js_trim (formatIpv4 v) = formatIpv4 v" "js_lower (formatIpv4 v) = formatIpv4 v"
  "\<not> starts_with (js ''::ffff:'') (formatIpv4 v)"
proof -
  have u: "\<not> js_ws u \<and> lower_unit u = [u] \<and> u \<noteq> 58" if "u \<in> set (formatIpv4 v)" for u
    using formatIpv4_units(1) [OF that] by (auto simp: is_digit_def js_ws_def lower_unit_def)
  show "js_trim (formatIpv4 v) = formatIpv4 v" using u by (intro js_trim_id) blast
  show "js_lower (formatIpv4 v) = formatIpv4 v" using u by (intro js_lower_id) blast
  have "58 \<notin> set (formatIpv4 v)" using u by blast
  then show "\<not> starts_with (js ''::ffff:'') (formatIpv4 v)" by (auto simp: starts_with_iff)
qed

text \<open>What is left of an IPv6 text behind \<open>::ffff:\<close> is a list of at most six groups.\<close>

lemma mapped_rest:
  assumes "starts_with (js ''::ffff:'') (formatIpv6 v)"
  shows "parseIpAddress (drop 7 (formatIpv6 v)) = None"
proof -
  obtain rest where t: "formatIpv6 v = 58 # 58 # 102 # 102 # 102 # 102 # 58 # rest"
    using assms by (auto simp: starts_with_iff)
  have b: "\<forall>g \<in> set (ipv6_values v). 0 \<le> g \<and> g < 65536" using ipv6_values_props(2) by blast
  obtain l r k where lr: "ipv6_values v = l @ replicate k 0 @ r" "2 \<le> k"
    "formatIpv6 v = js_join [58] (map hex l) @ 58 # 58 # js_join [58] (map hex r)"
  proof (cases rule: formatIpv6_shape [of v])
    case 1
    have "map hex (ipv6_values v) \<noteq> []" using ipv6_values_props(1) [of v] by auto
    then have "hd (formatIpv6 v) \<noteq> 58" using join_words [OF hex_words [OF b]] unfolding 1 by blast
    then show ?thesis using t by simp
  next
    case (2 l r k)
    then show ?thesis using that by blast
  qed
  have "l = []"
  proof (rule ccontr)
    assume l: "l \<noteq> []"
    have "\<forall>w \<in> set (map hex l). w \<noteq> [] \<and> 58 \<notin> set w" using b lr(1) by (intro hex_words) simp
    then have "js_join [58] (map hex l) \<noteq> [] \<and> hd (js_join [58] (map hex l)) \<noteq> 58" using join_words l by blast
    then show False using t lr(3) by (cases "js_join [58] (map hex l)") auto
  qed
  then have j: "js_join [58] (map hex r) = [102, 102, 102, 102] @ 58 # rest" using t lr(3) by simp
  have rb: "\<forall>g \<in> set r. 0 \<le> g \<and> g < 65536" using b lr(1) by simp
  have "r \<noteq> []" using j by auto
  then have "split_on [58] (js_join [58] (map hex r)) = map hex r" using hex_words [OF rb] by (intro split_join) auto
  then have sp: "map hex r = [102, 102, 102, 102] # split_on [58] rest"
    unfolding j by (simp add: split_on_step [of 58 "[102, 102, 102, 102]", simplified])
  then have rest: "map hex (tl r) = split_on [58] rest" by (metis list.sel(3) map_tl)
  then have rj: "rest = js_join [58] (map hex (tl r))" using join_split [of 58 rest] by simp
  have "length (tl r) < 8" "tl r \<noteq> []"
    using ipv6_values_props(1) [of v] lr(1,2) rest split_on_ne [of "[58]" rest] by (auto simp del: split_on_ne)
  moreover have "\<forall>g \<in> set (tl r). 0 \<le> g \<and> g < 65536" using rb \<open>r \<noteq> []\<close> by (meson list.set_sel(2))
  ultimately have six: "parseIpv6 rest = None"
    using parse_uncompressed [of "tl r"] unfolding rj by simp
  have "set rest \<subseteq> set (formatIpv6 v)" using t by auto
  then have u: "\<not> js_ws u \<and> u \<noteq> 46" if "u \<in> set rest" for u
    using formatIpv6_units [of u v] that by (auto simp: is_digit_def js_ws_def)
  then have "js_trim rest = rest" "46 \<notin> set rest" by (auto intro: js_trim_id)
  then show ?thesis using six t by (simp add: parseIpAddress_def)
qed

text \<open>\<open>canonicalizeIpAddress\<close> on its own results.  An IPv4 text it returns stays as it is.  An IPv6
  text it returns stays as it is unless it begins with \<open>::ffff:\<close>: the function strips that prefix
  without looking at what follows, the rest is not an address, and a valid address is refused.\<close>

theorem canonicalize_again:
  assumes "canonicalizeIpAddress input = Some text"
  shows "canonicalizeIpAddress text = (if starts_with (js ''::ffff:'') text then None else Some text)"
proof -
  obtain u ip where ip: "parseIpAddress u = Some ip"
    "text = (if ip_version_of ip = V4 then formatIpv4 (ip_value ip) else formatIpv6 (ip_value ip))"
    using assms by (auto simp: canonicalizeIpAddress_def formatIpv4_def Let_def split: option.splits)
  have ok: "ip_ok ip" using parseIpAddress_ok [OF ip(1)] .
  show ?thesis
  proof (cases "ip_version_of ip")
    case V4
    let ?t = "formatIpv4 (ip_value ip)"
    have "parseIpAddress ?t = Some \<lparr>ip_version_of = V4, ip_value = ip_value ip\<rparr>"
      using ipv4_print_parse ok V4 by (simp add: ip_ok_def)
    then show ?thesis using ip(2) V4 formatIpv4_text [of "ip_value ip"]
      by (simp add: canonicalizeIpAddress_def del: js_simps) (simp add: formatIpv4_def)
  next
    case V6
    let ?t = "formatIpv6 (ip_value ip)"
    have p: "parseIpAddress ?t = Some \<lparr>ip_version_of = V6, ip_value = ip_value ip\<rparr>"
      using ipv6_print_parse ok V6 by (simp add: ip_ok_def)
    show ?thesis
    proof (cases "starts_with (js ''::ffff:'') ?t")
      case True
      then have "parseIpAddress (drop 7 ?t) = None" by (rule mapped_rest)
      then show ?thesis using ip(2) V6 True formatIpv6_text [of "ip_value ip"]
        by (simp add: canonicalizeIpAddress_def del: js_simps)
    next
      case False
      then show ?thesis using ip(2) V6 p formatIpv6_text [of "ip_value ip"]
        by (simp add: canonicalizeIpAddress_def del: js_simps)
    qed
  qed
qed


lemma canonicalize_again_witness:
  "canonicalizeIpAddress (js ''10.0.0.7'') = Some (js ''10.0.0.7'')"
proof -
  have t: "formatIpv4 (10 * 2 ^ 24 + 7) = js ''10.0.0.7''"
    by (simp add: formatIpv4_eq ipv4_bytes_def dec_def radix_string.simps digit_unit_def)
  have "canonicalizeIpAddress (js '' 10.0.0.7'') = Some (js ''10.0.0.7'')"
    using formatIpv4_text [of "10 * 2 ^ 24 + 7"] ipv4_print_parse [of "10 * 2 ^ 24 + 7"]
    by (simp add: canonicalizeIpAddress_def js_trim_def js_trim_start_def js_trim_end_def js_ws_def lower_unit_def
        starts_with_def parseIpAddress_def parseIpv4_def ipv4_octet_def all_digits_def is_digit_def radix_value_def digit_val_def
        push_bit_eq_mult dec_def radix_string.simps digit_unit_def)
  from canonicalize_again [OF this] show ?thesis by (simp add: starts_with_def)
qed

section \<open>IPv4-mapped addresses\<close>

lemma strip_brackets_id: "\<not> starts_with [91] s \<Longrightarrow> strip_brackets s = s"
  by (simp add: strip_brackets_def)

lemma unmapped_plain:
  assumes "js_trim t = t" "js_lower t = t" "\<not> starts_with [91] t" "dotted_tail t = None"
  shows "parseIpAddressUnmapped t = (case parseIpAddress t of
      Some p \<Rightarrow> if ip_version_of p = V6 \<and> drop_bit 32 (ip_value p) = 0xffff
        then Some \<lparr>ip_version_of = V4, ip_value = ip_value p AND 0xffffffff\<rparr> else Some p
    | None \<Rightarrow> None)"
  using assms by (simp add: parseIpAddressUnmapped_def strip_brackets_id)

lemma no_bracket: "91 \<notin> set t \<Longrightarrow> \<not> starts_with [91] t"
  by (auto simp: starts_with_iff)

lemma low_bits: "(v :: int) AND 0xffffffff = v mod 2 ^ 32"
  using take_bit_eq_mask [of 32 v] by (simp add: mask_eq_exp_minus_1 take_bit_eq_mod)

lemma block_parts: "0 \<le> (v :: int) \<Longrightarrow> v < m \<Longrightarrow> (k * m + v) div m = k \<and> (k * m + v) mod m = v"
  by simp

lemma mapped_hex:
  assumes "0 \<le> v" "v < 2 ^ 32"
  shows "parseIpAddressUnmapped (formatIpv6 (0xffff * 2 ^ 32 + v)) = Some \<lparr>ip_version_of = V4, ip_value = v\<rparr>"
proof -
  let ?t = "formatIpv6 (0xffff * 2 ^ 32 + v)"
  have "\<not> starts_with [91] ?t" using formatIpv6_units [of 91] by (intro no_bracket) (auto simp: is_digit_def)
  moreover have "dotted_tail ?t = None"
    using formatIpv6_text(3) by (auto simp: dotted_tail_def split: option.split dest: in_set_dropD)
  moreover have "drop_bit 32 (0xffff * 2 ^ 32 + v) = 0xffff" "(0xffff * 2 ^ 32 + v) mod 2 ^ 32 = v"
    using block_parts [of v "2 ^ 32" "0xffff"] assms by (simp_all add: drop_bit_eq_div)
  ultimately show ?thesis
    using assms ipv6_print_parse [of "0xffff * 2 ^ 32 + v"] formatIpv6_text(1,2) [of "0xffff * 2 ^ 32 + v"]
    by (simp add: unmapped_plain low_bits)
qed

lemma mapped_dotted:
  assumes "0 \<le> v" "v < 2 ^ 32"
  shows "parseIpAddressUnmapped (js ''::ffff:'' @ formatIpv4 v) = Some \<lparr>ip_version_of = V4, ip_value = v\<rparr>"
proof -
  let ?f = "formatIpv4 v" and ?t = "js ''::ffff:'' @ formatIpv4 v"
  have f: "\<not> js_ws u \<and> lower_unit u = [u] \<and> u \<noteq> 58 \<and> u \<noteq> 91" if "u \<in> set ?f" for u
    using formatIpv4_units(1) [OF that] by (auto simp: is_digit_def js_ws_def lower_unit_def)
  have tu: "\<not> js_ws u \<and> lower_unit u = [u] \<and> u \<noteq> 91" if "u \<in> set ?t" for u
    using that f [of u] by (cases "u \<in> set ?f") (simp, auto simp: js_ws_def lower_unit_def)
  have t: "js_trim ?t = ?t" "js_lower ?t = ?t" "\<not> starts_with [91] ?t"
    using tu by (intro js_trim_id js_lower_id no_bracket; blast)+
  have rt: "rev ?t = rev ?f @ 58 # rev [58, 58, 102, 102, 102, 102]" by simp
  have "58 \<notin> set (rev ?f)" using f by auto
  then have "index_of 58 (rev ?t) = Some (length ?f)" unfolding rt using index_of_append by fastforce
  then have "last_index_of 58 ?t = Some 6" by (simp add: last_index_of_def)
  then have d: "dotted_tail ?t = Some (js ''::ffff:'', ?f)"
    using formatIpv4_units(2) by (simp add: dotted_tail_def line_terminator_def)
  have hl: "drop_bit 16 v = v div 2 ^ 16" "v AND 0xffff = v mod 2 ^ 16"
    using take_bit_eq_mask [of 16 v] by (simp_all add: drop_bit_eq_div mask_eq_exp_minus_1 take_bit_eq_mod)
  have b: "0 \<le> v div 2 ^ 16" "v div 2 ^ 16 < 65536"
    using assms by (simp_all add: pos_imp_zdiv_nonneg_iff)
  have h: "hex 0xffff = [102, 102, 102, 102]" by (simp add: hex_def radix_string.simps digit_unit_def)
  have "parseDottedTailIpv6 (js ''::ffff:'') ?f = parseIpv6 (js_join [58] (map hex []) @ 58 # 58 #
      js_join [58] (map hex [0xffff, v div 2 ^ 16, v mod 2 ^ 16]))"
    by (simp add: parseDottedTailIpv6_def parseIpv4_format [OF assms] hl h del: div_exp_eq)
  also have "\<dots> = Some \<lparr>ip_version_of = V6, ip_value = fold (\<lambda>g v. push_bit 16 v OR g) ([] @ replicate (8 - 0 - 3) 0 @
      [0xffff, v div 2 ^ 16, v mod 2 ^ 16]) 0\<rparr>"
    using b by (subst parse_compressed) (simp_all)
  also have "fold (\<lambda>g v. push_bit 16 v OR g) ([] @ replicate (8 - 0 - 3) 0 @ [0xffff, v div 2 ^ 16, v mod 2 ^ 16]) 0 =
      0xffff * 2 ^ 32 + v"
  proof -
    have "replicate (8 - 0 - 3) (0 :: int) = [0, 0, 0, 0, 0]" by (simp add: eval_nat_numeral)
    then have "fold (\<lambda>g v. push_bit 16 v OR g) ([] @ replicate (8 - 0 - 3) 0 @ [0xffff, v div 2 ^ 16, v mod 2 ^ 16]) 0 =
      fold (\<lambda>g v. v * 65536 + g) [0, 0, 0, 0, 0, 0xffff, v div 2 ^ 16, v mod 2 ^ 16] 0"
      using b by (subst group_fold) simp_all
    also have "\<dots> = 0xffff * 2 ^ 32 + (v div 65536 * 65536 + v mod 65536)" by (simp del: div_mult_mod_eq)
    also have "\<dots> = 0xffff * 2 ^ 32 + v" by (simp only: div_mult_mod_eq)
    finally show ?thesis .
  qed
  finally have p: "parseDottedTailIpv6 (js ''::ffff:'') ?f = Some \<lparr>ip_version_of = V6, ip_value = 0xffff * 2 ^ 32 + v\<rparr>" .
  have "drop_bit 32 (0xffff * 2 ^ 32 + v) = 0xffff" "(0xffff * 2 ^ 32 + v) mod 2 ^ 32 = v"
    using block_parts [of v "2 ^ 32" "0xffff"] assms by (simp_all add: drop_bit_eq_div)
  then show ?thesis
    using t d p by (simp add: parseIpAddressUnmapped_def strip_brackets_id low_bits del: js_simps)
qed

text \<open>All spellings of an IPv4 address a proxy client may send are read as that IPv4 address: dotted,
  IPv4-mapped in hexadecimal groups, and IPv4-mapped with a dotted tail.\<close>

theorem mapped_address_is_ipv4:
  assumes "0 \<le> v" and "v < 2 ^ 32"
  shows "parseIpAddressUnmapped (formatIpv4 v) = Some \<lparr>ip_version_of = V4, ip_value = v\<rparr> \<and>
    parseIpAddressUnmapped (formatIpv6 (0xffff * 2 ^ 32 + v)) = Some \<lparr>ip_version_of = V4, ip_value = v\<rparr> \<and>
    parseIpAddressUnmapped (js ''::ffff:'' @ formatIpv4 v) = Some \<lparr>ip_version_of = V4, ip_value = v\<rparr>"
proof -
  have n: "58 \<notin> set (formatIpv4 v)" "\<not> starts_with [91] (formatIpv4 v)"
    using formatIpv4_units(1) [of 58 v] formatIpv4_units(1) [of 91 v] no_bracket [of "formatIpv4 v"]
    by (auto simp: is_digit_def)
  then have "last_index_of 58 (formatIpv4 v) = None" by (simp add: last_index_of_def)
  with n have "parseIpAddressUnmapped (formatIpv4 v) = Some \<lparr>ip_version_of = V4, ip_value = v\<rparr>"
    using formatIpv4_text(1,2) [of v] ipv4_print_parse [OF assms]
    by (subst unmapped_plain) (simp_all add: dotted_tail_def)
  then show ?thesis using mapped_hex [OF assms] mapped_dotted [OF assms] by blast
qed

lemma mapped_address_is_ipv4_witness:
  "parseIpAddressUnmapped (js ''::ffff:'' @ formatIpv4 (127 * 2 ^ 24 + 1)) = Some \<lparr>ip_version_of = V4, ip_value = 127 * 2 ^ 24 + 1\<rparr>"
  using mapped_address_is_ipv4 [of "127 * 2 ^ 24 + 1"] by simp

end
