(* ===== verification/Validation.thy ===== *)
theory Validation
  imports IpPrinting
begin

text \<open>
  \<open>src/shared/validation.ts\<close>: the checks every rule, endpoint and profile name passes before it is
  stored.  The Unicode classes of letters and numbers (\<open>\p{L}\<close>, \<open>\p{N}\<close>), which the standard
  library of the language reads from the Unicode tables, are a parameter on code points.
\<close>

section \<open>Results\<close>

record validation_result =
  vr_ok :: bool
  vr_message :: "jsstring option"

definition valid :: validation_result where
  "valid = \<lparr>vr_ok = True, vr_message = None\<rparr>"

definition invalid :: "string \<Rightarrow> validation_result" where
  "invalid m = \<lparr>vr_ok = False, vr_message = Some (js m)\<rparr>"

lemma vr_ok_simps [simp]: "vr_ok valid" "\<not> vr_ok (invalid m)"
  by (simp_all add: valid_def invalid_def)

datatype rule_type = DomainRule | IpRule | ProcessRule

section \<open>Code points\<close>

definition high_surrogate :: "nat \<Rightarrow> bool" where
  "high_surrogate u \<longleftrightarrow> 0xD800 \<le> u \<and> u \<le> 0xDBFF"

definition low_surrogate :: "nat \<Rightarrow> bool" where
  "low_surrogate u \<longleftrightarrow> 0xDC00 \<le> u \<and> u \<le> 0xDFFF"

text \<open>\<open>Array.from(s)\<close>: the units of each code point; a lone surrogate stands for itself.\<close>

fun code_point_units :: "jsstring \<Rightarrow> jsstring list" where
  "code_point_units (u # v # s) =
     (if high_surrogate u \<and> low_surrogate v then [u, v] # code_point_units s else [u] # code_point_units (v # s))"
| "code_point_units [u] = [[u]]"
| "code_point_units [] = []"

fun code_point :: "jsstring \<Rightarrow> nat" where
  "code_point [u, v] = (u - 0xD800) * 0x400 + (v - 0xDC00) + 0x10000"
| "code_point [u] = u"
| "code_point _ = 0"

section \<open>Fingerprints and endpoints\<close>

definition base64_char :: "nat \<Rightarrow> bool" where
  "base64_char u \<longleftrightarrow> is_alnum u \<or> u = 43 \<or> u = 47"

definition SSH_SHA256_FINGERPRINT :: "jsstring \<Rightarrow> bool" where
  "SSH_SHA256_FINGERPRINT s \<longleftrightarrow> starts_with (js ''SHA256:'') s \<and> length s = 7 + 43 \<and> list_all base64_char (drop 7 s)"

definition validateSshServerFingerprint :: "jsstring \<Rightarrow> bool \<Rightarrow> validation_result" where
  "validateSshServerFingerprint value allowDiscovery =
     (let fingerprint = js_trim value in
      if fingerprint = [] then
        (if allowDiscovery then valid else invalid ''A verified SSH server SHA256 fingerprint is required.'')
      else if \<not> SSH_SHA256_FINGERPRINT fingerprint then
        invalid ''SSH server fingerprint must use the OpenSSH SHA256:base64 format (43 characters after SHA256:).''
      else valid)"

definition isValidIpv4 :: "jsstring \<Rightarrow> bool" where
  "isValidIpv4 value =
     (let octets = split_on (js ''.'') value in
      if length octets \<noteq> 4 then False
      else list_all (\<lambda>octet. if \<not> all_digits octet then False
        else if 1 < length octet \<and> starts_with (js ''0'') octet then False
        else radix_value 10 octet \<le> 255) octets)"

definition isValidIpv6 :: "jsstring \<Rightarrow> bool" where
  "isValidIpv6 value =
     (if value = [] \<or> js_includes (js '':::'') value then False
      else let compressedParts = split_on (js ''::'') value in
        if 2 < length compressedParts then False
        else let hasCompression = (length compressedParts = 2);
                 part = (\<lambda>i. if i < length compressedParts \<and> compressedParts ! i \<noteq> []
                   then split_on (js '':'') (compressedParts ! i) else []);
                 groups = part 0 @ part 1 in
          if \<not> list_all hex_group groups then False
          else if hasCompression then length groups < 8 else length groups = 8)"

text \<open>\<open>/[a-z]/iu\<close>: with both flags the class also contains the long s and the Kelvin sign.\<close>

definition alpha_iu :: "nat \<Rightarrow> bool" where
  "alpha_iu u \<longleftrightarrow> is_alpha u \<or> u = 0x17F \<or> u = 0x212A"

definition has_scheme :: "jsstring \<Rightarrow> bool" where
  "has_scheme s = (case s of [] \<Rightarrow> False
     | u # t \<Rightarrow> alpha_iu u \<and>
         starts_with (js ''://'') (dropWhile (\<lambda>v. alpha_iu v \<or> is_digit v \<or> v = 43 \<or> v = 46 \<or> v = 45) t))"

definition forbidden_endpoint_char :: "nat \<Rightarrow> bool" where
  "forbidden_endpoint_char u \<longleftrightarrow> u = 47 \<or> u = 63 \<or> u = 35 \<or> u = 64 \<or> u = 92"

text \<open>The optional port: \<open>(?::(.*))?$\<close> after the host.  \<open>None\<close> is no match at all.\<close>

definition endpoint_rest :: "jsstring \<Rightarrow> jsstring option option" where
  "endpoint_rest rest =
     (if rest = [] then Some None
      else if starts_with (js '':'') rest \<and> \<not> list_ex line_terminator (drop 1 rest) then Some (Some (drop 1 rest))
      else None)"

definition bracketed_endpoint :: "jsstring \<Rightarrow> (jsstring \<times> jsstring option) option" where
  "bracketed_endpoint s =
     (if \<not> starts_with (js ''['') s then None
      else let host = takeWhile (\<lambda>u. u \<noteq> 93) (tl s); rest = dropWhile (\<lambda>u. u \<noteq> 93) (tl s) in
        if host = [] \<or> rest = [] then None
        else map_option (Pair host) (endpoint_rest (tl rest)))"

definition plain_endpoint :: "jsstring \<Rightarrow> (jsstring \<times> jsstring option) option" where
  "plain_endpoint s =
     (let host = takeWhile (\<lambda>u. u \<noteq> 58) s; rest = dropWhile (\<lambda>u. u \<noteq> 58) s in
      if host = [] then None else map_option (Pair host) (endpoint_rest rest))"

definition endpoint_label :: "(nat \<Rightarrow> bool) \<Rightarrow> jsstring \<Rightarrow> bool" where
  "endpoint_label letterOrNumber label =
     (let cs = map code_point (code_point_units label); word = (\<lambda>c. letterOrNumber c \<or> c = 95) in
      cs \<noteq> [] \<and> length cs \<le> 63 \<and> word (hd cs) \<and> word (last cs) \<and>
      list_all (\<lambda>c. word c \<or> c = 45) (butlast (tl cs)))"

definition isValidCheckEndpointHost :: "(nat \<Rightarrow> bool) \<Rightarrow> jsstring \<Rightarrow> bool" where
  "isValidCheckEndpointHost letterOrNumber host =
     (if isValidIpv4 host then True
      else let name = (if ends_with (js ''.'') host then butlast host else host) in
        if name = [] \<or> 253 < length name \<or> list_all (\<lambda>u. is_digit u \<or> u = 46) name then False
        else list_all (endpoint_label letterOrNumber) (split_on (js ''.'') name))"

definition CHECK_ENDPOINT_FORMAT_MESSAGE :: jsstring where
  "CHECK_ENDPOINT_FORMAT_MESSAGE =
     js ''Enter host:port without https:// or a path '' @ [8212] @ js '' for example youtube.com:443.''"

definition validateCheckEndpoint :: "(nat \<Rightarrow> bool) \<Rightarrow> jsstring \<Rightarrow> validation_result" where
  "validateCheckEndpoint letterOrNumber value =
     (let endpoint = js_trim value in
      if endpoint = [] then invalid ''Endpoint is required. Use host:port.''
      else if has_scheme endpoint \<or> list_ex forbidden_endpoint_char endpoint then \<lparr>vr_ok = False, vr_message = Some CHECK_ENDPOINT_FORMAT_MESSAGE\<rparr>
      else let bracketed = bracketed_endpoint endpoint;
               matched = (if bracketed \<noteq> None then bracketed else plain_endpoint endpoint) in
        case matched of
          None \<Rightarrow> invalid ''Endpoint must use host:port, for example youtube.com:443.''
        | Some (host, rawPort) \<Rightarrow>
            if (if bracketed \<noteq> None then \<not> isValidIpv6 host else \<not> isValidCheckEndpointHost letterOrNumber host)
              then invalid ''Endpoint must use host:port, for example youtube.com:443.''
            else (case rawPort of
                None \<Rightarrow> invalid ''Endpoint must use host:port with a valid TCP port.''
              | Some p \<Rightarrow> if \<not> all_digits p \<or> 5 < length p \<or> radix_value 10 p < 1 \<or> 65535 < radix_value 10 p
                  then invalid ''Endpoint must use host:port with a valid TCP port.'' else valid))"

section \<open>Rules\<close>

text \<open>\<open>/^[a-z0-9](?:[a-z0-9-]{0,61}[a-z0-9])?$/i\<close>.\<close>

definition domain_label :: "jsstring \<Rightarrow> bool" where
  "domain_label s \<longleftrightarrow> s \<noteq> [] \<and> length s \<le> 63 \<and> is_alnum (hd s) \<and> is_alnum (last s) \<and>
     list_all (\<lambda>u. is_alnum u \<or> u = 45) (butlast (tl s))"

definition validateDomainPattern :: "jsstring \<Rightarrow> validation_result" where
  "validateDomainPattern value =
     (let pattern = js_lower (js_trim value) in
      if pattern = [] then invalid ''Domain pattern is required.''
      else let normalized = (if starts_with (js ''*.'') pattern then drop 2 pattern else pattern) in
        if 253 < length normalized then invalid ''Domain pattern is too long.''
        else let labels = split_on (js ''.'') normalized in
          if length labels < 2 then invalid ''Domain pattern must include at least two labels.''
          else if \<not> list_all domain_label labels
            then invalid ''Domain labels may contain letters, numbers, and internal hyphens.''
          else valid)"

definition validateIpOrCidr :: "jsstring \<Rightarrow> validation_result" where
  "validateIpOrCidr value =
     (let input = js_trim value in
      if input = [] then invalid ''IP address or CIDR is required.''
      else let parts = split_on (js ''/'') input in
        if 2 < length parts then invalid ''CIDR may contain only one slash.''
        else let ip = parts ! 0; version = (if isValidIpv4 ip then 4 else if isValidIpv6 ip then 6 else 0 :: nat) in
          if version = 0 then invalid ''IP address must be valid IPv4 or IPv6.''
          else if length parts = 2 then
            (let rawPrefix = parts ! 1 in
             if \<not> all_digits rawPrefix then invalid ''CIDR prefix must be a number.''
             else if 1 < length rawPrefix \<and> starts_with (js ''0'') rawPrefix
               then invalid ''CIDR prefix must not have leading zeros.''
             else let prefix = radix_value 10 rawPrefix; bound = (if version = 4 then 32 else 128) in
               if bound < prefix then invalid (if version = 4 then ''CIDR prefix must be between 0 and 32.''
               else ''CIDR prefix must be between 0 and 128.'') else valid)
          else valid)"

text \<open>
  \<open>/^(.*)\/(0\d+)$/u\<close>: the slash is the last one.  The prefix is printed exactly, where \<open>Number\<close> would round
  one of more than 15 significant digits.
\<close>

definition canonicalIpRuleValue :: "jsstring \<Rightarrow> jsstring" where
  "canonicalIpRuleValue value =
     (let s = js_trim value in
      case last_index_of 47 s of
        None \<Rightarrow> value
      | Some i \<Rightarrow>
          let base = take i s; prefix = drop (i + 1) s in
          if 1 < length prefix \<and> all_digits prefix \<and> starts_with (js ''0'') prefix \<and> \<not> list_ex line_terminator base
          then base @ js ''/'' @ radix_string 10 (radix_value 10 prefix) else value)"

definition process_char :: "nat \<Rightarrow> bool" where
  "process_char u \<longleftrightarrow> is_alnum u \<or> u = 46 \<or> u = 95 \<or> u = 43 \<or> u = 45 \<or> u = 32"

definition validateProcessName :: "jsstring \<Rightarrow> validation_result" where
  "validateProcessName value =
     (let name = js_trim value in
      if name = [] then invalid ''Process name is required.''
      else if 260 < length name then invalid ''Process name is too long.''
      else if list_ex (\<lambda>u. u = 92 \<or> u = 47) name then invalid ''Use a process name, not a path.''
      else if \<not> list_all process_char name then invalid ''Process name contains unsupported characters.''
      else valid)"

definition validateRoutingRuleValue :: "rule_type \<Rightarrow> jsstring \<Rightarrow> validation_result" where
  "validateRoutingRuleValue t value = (case t of
       DomainRule \<Rightarrow> validateDomainPattern value
     | IpRule \<Rightarrow> validateIpOrCidr value
     | ProcessRule \<Rightarrow> validateProcessName value)"

definition normalizeRuleValue :: "rule_type \<Rightarrow> jsstring \<Rightarrow> jsstring" where
  "normalizeRuleValue t value =
     (let trimmed = js_trim value in if t = DomainRule \<or> t = ProcessRule then js_lower trimmed else trimmed)"

section \<open>Profile names\<close>

definition MAX_PROXY_PROFILE_NAME_LENGTH :: nat where "MAX_PROXY_PROFILE_NAME_LENGTH = 64"

text \<open>\<open>[\p{Cc}\p{Zl}\p{Zp}]\<close>.\<close>

definition control_unit :: "nat \<Rightarrow> bool" where
  "control_unit u \<longleftrightarrow> u < 32 \<or> (127 \<le> u \<and> u \<le> 159) \<or> u = 8232 \<or> u = 8233"

definition normalizeProxyProfileName :: "jsstring \<Rightarrow> jsstring" where
  "normalizeProxyProfileName input =
     (let flattened = js_trim (map (\<lambda>u. if control_unit u then 32 else u) input) in
      js_trim_end (concat (take MAX_PROXY_PROFILE_NAME_LENGTH (code_point_units flattened))))"

section \<open>The two address parsers agree\<close>

lemma isValidIpv4_parse: "isValidIpv4 s \<longleftrightarrow> parseIpv4 s \<noteq> None"
proof -
  have o1: "(if \<not> all_digits d then False else if 1 < length d \<and> starts_with (js ''0'') d then False
      else radix_value 10 d \<le> 255) \<longleftrightarrow> ipv4_octet d \<noteq> None" for d
    by (simp add: ipv4_octet_def Let_def)
  have os: "list_all (\<lambda>d. ipv4_octet d \<noteq> None) ds \<longleftrightarrow> ipv4_octets ds v \<noteq> None" for ds v
    by (induction ds arbitrary: v) (auto split: option.split)
  show ?thesis unfolding isValidIpv4_def parseIpv4_def Let_def o1 os [of _ 0] by simp
qed

lemma parseIpv6Groups_Some:
  "s \<noteq> [] \<Longrightarrow> parseIpv6Groups s = (if list_all hex_group (split_on [58] s)
     then Some (map (\<lambda>g. int (radix_value 16 g)) (split_on [58] s)) else None)"
  by (auto simp: parseIpv6Groups_def Let_def list_ex_iff list_all_iff hex_group_def)

lemma isValidIpv6_parse: "isValidIpv6 s \<longleftrightarrow> parseIpv6 s \<noteq> None"
proof -
  define P where "P = split_on (js ''::'') s"
  let ?part = "\<lambda>i. if i < length P \<and> P ! i \<noteq> [] then split_on (js '':'') (P ! i) else []"
  have p: "ipv6_part P i = (if list_all hex_group (?part i) then Some (map (\<lambda>g. int (radix_value 16 g)) (?part i)) else None)" for i
    by (simp add: ipv6_part_def parseIpv6Groups_Some)
  define a where "a = ?part 0"
  define b where "b = ?part 1"
  have "isValidIpv6 s \<longleftrightarrow> s \<noteq> [] \<and> \<not> js_includes (js '':::'') s \<and> length P \<le> 2 \<and>
      list_all hex_group a \<and> list_all hex_group b \<and>
      (if length P = 2 then length a + length b < 8 else length a + length b = 8)"
    unfolding isValidIpv6_def Let_def P_def [symmetric] a_def [symmetric] b_def [symmetric] by auto
  moreover have "parseIpv6 s \<noteq> None \<longleftrightarrow> s \<noteq> [] \<and> \<not> js_includes (js '':::'') s \<and> length P \<le> 2 \<and>
      list_all hex_group a \<and> list_all hex_group b \<and>
      (if length P = 2 then length a + length b < 8 else length a + length b = 8)"
    unfolding parseIpv6_def Let_def P_def [symmetric] p a_def [symmetric] b_def [symmetric]
    by (auto simp: IPV6_GROUPS_def)
  ultimately show ?thesis by blast
qed

section \<open>Checked rules are usable\<close>

lemma ipv4_valid_units:
  assumes "isValidIpv4 s"
  shows "46 \<in> set s" "u \<in> set s \<Longrightarrow> is_digit u \<or> u = 46"
proof -
  have l: "length (split_on [46] s) = 4" and d: "\<forall>w \<in> set (split_on [46] s). list_all is_digit w"
    using assms by (auto simp: isValidIpv4_def Let_def list_all_iff all_digits_def split: if_splits)
  show "46 \<in> set s" using l split_on_absent [of 46 s] by (cases "46 \<in> set s") auto
  assume "u \<in> set s"
  then have "u \<in> set (js_join [46] (split_on [46] s))" by (simp add: join_split)
  then show "is_digit u \<or> u = 46"
    using set_js_join [of "[46]" "split_on [46] s"] d by (auto simp: list_all_iff)
qed

lemma set_split_on: "set s \<subseteq> set sep \<union> \<Union> (set ` set (split_on sep s))"
proof (induction sep s rule: split_on.induct)
  case (2 sep u s)
  show ?case
  proof (cases "sep \<noteq> [] \<and> starts_with sep (u # s)")
    case True
    then obtain t where t: "u # s = sep @ t" by (auto simp: starts_with_iff)
    then have d: "drop (length sep - 1) s = t" using True by (cases sep) auto
    have "split_on sep (u # s) = [] # split_on sep t" using True d by (simp add: split_on.simps)
    moreover have "set t \<subseteq> set sep \<union> \<Union> (set ` set (split_on sep t))" using 2(1) True d by simp
    ultimately show ?thesis unfolding t by auto
  next
    case False
    obtain w ws where "split_on sep s = w # ws" by (metis split_on_ne list.exhaust)
    then show ?thesis using 2(2) False by (auto simp: split_on.simps)
  qed
qed simp

lemma ipv6_valid_units:
  assumes "isValidIpv6 s"
  shows "58 \<in> set s" "u \<in> set s \<Longrightarrow> is_hex_digit u \<or> u = 58"
proof -
  define P where "P = split_on [58, 58] s"
  have len: "length P \<le> 2" and P: "P \<noteq> []" using assms by (auto simp: isValidIpv6_def P_def Let_def split: if_splits)
  have hx: "list_all hex_group (split_on [58] (P ! i))" if "i < length P" "P ! i \<noteq> []" for i
  proof -
    have "i = 0 \<or> (i = 1 \<and> length P = 2)" using that(1) len by linarith
    then consider "i = 0" | "i = 1" "length P = 2" by blast
    then show ?thesis
      by cases (use assms that in \<open>auto simp: isValidIpv6_def Let_def P_def [symmetric] split: if_splits\<close>)
  qed
  have w: "is_hex_digit u \<or> u = 58" if wp: "w \<in> set P" "u \<in> set w" for w u
  proof -
    obtain i where i: "i < length P" "P ! i = w" using wp(1) by (auto simp: in_set_conv_nth)
    then have "list_all hex_group (split_on [58] w)" using hx wp(2) by fastforce
    then show ?thesis using wp(2) set_split_on [of w "[58]"] by (fastforce simp: list_all_iff hex_group_def)
  qed
  show "58 \<in> set s"
  proof (rule ccontr)
    assume n: "58 \<notin> set s"
    then have "P = [s]" using split_double_none [OF adjacent_free] by (simp add: P_def)
    then show False using assms n split_on_absent [OF n]
      by (auto simp: isValidIpv6_def Let_def P_def [symmetric] split: if_splits)
  qed
  assume "u \<in> set s"
  then show "is_hex_digit u \<or> u = 58" using w set_split_on [of s "[58, 58]"] unfolding P_def [symmetric] by fastforce
qed

lemma valid_ip_parses:
  assumes "isValidIpv4 s \<or> isValidIpv6 s"
  shows "parseIpAddress s = (if isValidIpv4 s then parseIpv4 s else parseIpv6 s)"
    "parseIpAddress s \<noteq> None" "isValidIpv4 s \<Longrightarrow> \<not> isValidIpv6 s" "s \<noteq> []"
proof -
  have dot: "46 \<notin> set s" if "isValidIpv6 s"
    using ipv6_valid_units(2) [OF that, of 46] by (auto simp: is_hex_digit_def is_digit_def)
  have "\<not> js_ws u" if "u \<in> set s" for u
    using assms ipv4_valid_units(2) [of s u] ipv6_valid_units(2) [of s u] that
    by (auto simp: is_hex_digit_def is_digit_def js_ws_def)
  then have t: "js_trim s = s" by (blast intro: js_trim_id)
  show "isValidIpv4 s \<Longrightarrow> \<not> isValidIpv6 s" using ipv4_valid_units(1) dot by blast
  show e: "parseIpAddress s = (if isValidIpv4 s then parseIpv4 s else parseIpv6 s)"
    using assms t dot ipv4_valid_units(1) ipv6_valid_units(1) by (auto simp: parseIpAddress_def)
  show "parseIpAddress s \<noteq> None" using assms unfolding e isValidIpv4_parse isValidIpv6_parse by auto
  show "s \<noteq> []" using assms ipv4_valid_units(1) ipv6_valid_units(1) by fastforce
qed

text \<open>The two ways the program has of reading an IP literal agree: \<open>validation.ts\<close> accepts exactly the
  texts \<open>ip-address.ts\<close> parses, for each version, and no text is of both versions.\<close>

theorem ip_validators_agree:
  "isValidIpv4 s = (parseIpv4 s \<noteq> None) \<and> isValidIpv6 s = (parseIpv6 s \<noteq> None) \<and> \<not> (isValidIpv4 s \<and> isValidIpv6 s)"
  using isValidIpv4_parse isValidIpv6_parse valid_ip_parses(3) by blast

lemma validateIpOrCidr_parses:
  assumes "vr_ok (validateIpOrCidr value)"
  shows "parseCidrRange (normalizeRuleValue IpRule value) \<noteq> None"
proof -
  let ?s = "js_trim value" let ?parts = "split_on (js ''/'') ?s" let ?ip = "?parts ! 0"
  have ip: "isValidIpv4 ?ip \<or> isValidIpv6 ?ip" and len: "length ?parts \<le> 2"
    using assms by (auto simp: validateIpOrCidr_def Let_def split: if_splits)
  obtain base where base: "parseIpAddress ?ip = Some base" using valid_ip_parses(2) [OF ip] by blast
  have v: "ip_version_of base = (if isValidIpv4 ?ip then V4 else V6)"
    using base valid_ip_parses(1) [OF ip] parseIpv4_ok(1) parseIpv6_ok(1) by (auto split: if_splits)
  show ?thesis
  proof (cases "length ?parts = 2")
    case True
    let ?p = "?parts ! 1"
    have "all_digits ?p" "radix_value 10 ?p \<le> (if isValidIpv4 ?ip then 32 else 128)"
      using assms True ip by (auto simp: validateIpOrCidr_def Let_def split: if_splits)
    then have "js_number ?p = Some (int (radix_value 10 ?p))" "int (radix_value 10 ?p) \<le> version_bits (ip_version_of base)"
      using v by (auto simp: js_number_digits)
    then show ?thesis
      using True base valid_ip_parses(4) [OF ip] by (simp add: parseCidrRange_def normalizeRuleValue_def Let_def)
  next
    case False
    then have "length ?parts < 2" using len by simp
    then show ?thesis
      using base valid_ip_parses(4) [OF ip] by (simp add: parseCidrRange_def normalizeRuleValue_def Let_def not_less)
  qed
qed

text \<open>An IP rule the validation accepts is one the routing can compile: \<open>parseCidrRange\<close> of the stored
  value succeeds, so the rule is never counted as invalid there.\<close>

theorem valid_ip_rule_compiles:
  assumes "vr_ok (validateIpOrCidr value)"
  shows "parseCidrRange (normalizeRuleValue IpRule value) \<noteq> None"
  using assms by (rule validateIpOrCidr_parses)

lemma valid_ip_rule_compiles_witness:
  "vr_ok (validateIpOrCidr (js '' 10.8.0.0/16 '')) \<and> parseCidrRange (normalizeRuleValue IpRule (js '' 10.8.0.0/16 '')) \<noteq> None"
proof -
  have "vr_ok (validateIpOrCidr (js '' 10.8.0.0/16 ''))"
    by (simp add: validateIpOrCidr_def js_trim_def js_trim_start_def js_trim_end_def js_ws_def isValidIpv4_def
        all_digits_def is_digit_def starts_with_def radix_value_def digit_val_def)
  from valid_ip_rule_compiles [OF this] this show ?thesis by blast
qed

end
