(* ===== verification/DomainLists.thy ===== *)
theory DomainLists
  imports Validation
begin

text \<open>
  \<open>src/core/routing/domain-proxy-list.ts\<close> and \<open>src/core/routing/process-route-domains.ts\<close>: parsing
  of the curated domain lists, and the question whether a list or a set of rule patterns covers a
  domain.  A JavaScript \<open>Set\<close> of strings is the list of its elements in insertion order;
  \<open>localeCompare\<close>, whose order depends on the locale data of the platform, is a parameter.
\<close>

section \<open>Sets in insertion order\<close>

definition set_add :: "'a \<Rightarrow> 'a list \<Rightarrow> 'a list" where
  "set_add x xs = (if x \<in> set xs then xs else xs @ [x])"

lemma set_add_simps [simp]:
  "set (set_add x xs) = insert x (set xs)" "distinct (set_add x xs) = distinct xs"
  by (auto simp: set_add_def)

section \<open>Curated lists\<close>

datatype domain_error = DomainListTooLarge | HintsNotIterable

definition MAX_PROXY_DOMAINS :: nat where "MAX_PROXY_DOMAINS = 20000"
definition MAX_DOMAIN_LENGTH :: nat where "MAX_DOMAIN_LENGTH = 253"

text \<open>\<open>/^[a-z0-9](?:[a-z0-9-]{0,61}[a-z0-9])?$/iu\<close>.\<close>

definition alnum_iu :: "nat \<Rightarrow> bool" where
  "alnum_iu u \<longleftrightarrow> alpha_iu u \<or> is_digit u"

definition list_domain_label :: "jsstring \<Rightarrow> bool" where
  "list_domain_label s \<longleftrightarrow> s \<noteq> [] \<and> length s \<le> 63 \<and> alnum_iu (hd s) \<and> alnum_iu (last s) \<and>
     list_all (\<lambda>u. alnum_iu u \<or> u = 45) (butlast (tl s))"

definition normalizeProxyDomain :: "jsstring \<Rightarrow> jsstring option" where
  "normalizeProxyDomain value =
     (let trimmed = strip_final_dot (js_lower (js_trim value)) in
      if trimmed = [] \<or> starts_with (js ''#'') trimmed then None
      else let suffixRule = starts_with (js ''.'') trimmed \<or> starts_with (js ''*.'') trimmed;
               domain = (if starts_with (js ''*.'') trimmed then drop 2 trimmed
                 else if starts_with (js ''.'') trimmed then drop 1 trimmed else trimmed) in
        if domain = [] \<or> MAX_DOMAIN_LENGTH < length domain then None
        else let labels = split_on (js ''.'') domain in
          if (\<not> suffixRule \<and> length labels < 2) \<or> \<not> list_all list_domain_label labels then None
          else Some (if suffixRule then js ''.'' @ domain else domain))"

text \<open>\<open>text.split(/\s+/u)\<close>.\<close>

function split_ws :: "jsstring \<Rightarrow> jsstring list" where
  "split_ws s =
     (let token = takeWhile (\<lambda>u. \<not> js_ws u) s; rest = dropWhile (\<lambda>u. \<not> js_ws u) s in
      if rest = [] then [token] else token # split_ws (dropWhile js_ws rest))"
  by pat_completeness auto
termination
proof (relation "measure length", simp)
  fix s token and rest :: jsstring
  assume r: "rest = dropWhile (\<lambda>u. \<not> js_ws u) s" "rest \<noteq> []"
  then have "js_ws (hd rest)" by (metis hd_dropWhile)
  then have "length (dropWhile js_ws rest) < length rest"
    using r(2) by (cases rest) (auto simp: le_imp_less_Suc length_dropWhile_le)
  also have "\<dots> \<le> length s" using r(1) by (simp add: length_dropWhile_le)
  finally show "(dropWhile js_ws rest, s) \<in> measure length" by simp
qed

declare split_ws.simps [simp del]

fun collect_domains :: "jsstring list \<Rightarrow> jsstring list \<Rightarrow> domain_error + jsstring list" where
  "collect_domains [] domains = Inr domains"
| "collect_domains (token # tokens) domains =
     (case normalizeProxyDomain token of
        None \<Rightarrow> collect_domains tokens domains
      | Some domain \<Rightarrow>
          let domains' = set_add domain domains in
          if MAX_PROXY_DOMAINS < length domains' then Inl DomainListTooLarge
          else collect_domains tokens domains')"

text \<open>\<open>[...domains].sort(compare)\<close> with \<open>leq a b\<close> for \<open>compare(a, b) <= 0\<close>.\<close>

fun insert_by :: "('a \<Rightarrow> 'a \<Rightarrow> bool) \<Rightarrow> 'a \<Rightarrow> 'a list \<Rightarrow> 'a list" where
  "insert_by leq x [] = [x]"
| "insert_by leq x (y # ys) = (if leq x y then x # y # ys else y # insert_by leq x ys)"

definition sort_by :: "('a \<Rightarrow> 'a \<Rightarrow> bool) \<Rightarrow> 'a list \<Rightarrow> 'a list" where
  "sort_by leq xs = foldr (insert_by leq) xs []"

definition parseDomainProxyList :: "(jsstring \<Rightarrow> jsstring \<Rightarrow> bool) \<Rightarrow> jsstring \<Rightarrow> domain_error + jsstring list" where
  "parseDomainProxyList leq text =
     res_bind (collect_domains (split_ws text) []) (\<lambda>domains. Inr (sort_by leq domains))"

section \<open>Hints for applications\<close>

definition DISCORD_ROUTE_DOMAIN_HINTS :: "jsstring list" where
  "DISCORD_ROUTE_DOMAIN_HINTS =
     [js ''discord.com'', js ''*.discord.com'', js ''discord.gg'', js ''*.discord.gg'', js ''discordapp.com'',
      js ''*.discordapp.com'', js ''discordapp.net'', js ''*.discordapp.net'', js ''discord.media'', js ''*.discord.media'']"

text \<open>
  The hints are a plain object indexed with the process name.  Indexing an object also finds what it
  inherits from \<open>Object.prototype\<close>; of the inherited names, \<open>constructor\<close> and \<open>__proto__\<close> are
  the ones without capitals.  The constructor is a function of length 1 and the prototype is an object
  without length; iterating over either is a \<open>TypeError\<close>.
\<close>

datatype hint_lookup = NoHints | HintDomains "jsstring list" | InheritedConstructor | InheritedPrototype

definition PROCESS_ROUTE_DOMAIN_HINTS :: "jsstring \<Rightarrow> hint_lookup" where
  "PROCESS_ROUTE_DOMAIN_HINTS name =
     (if name \<in> set [js ''discord.exe'', js ''discordcanary.exe'', js ''discorddevelopment.exe'', js ''discordptb.exe'']
        then HintDomains DISCORD_ROUTE_DOMAIN_HINTS
      else if name = js ''constructor'' then InheritedConstructor
      else if name = js ''__proto__'' then InheritedPrototype
      else NoHints)"

definition add_hints :: "jsstring list \<Rightarrow> jsstring list \<Rightarrow> jsstring list" where
  "add_hints hints domains =
     fold (\<lambda>domain ds. if vr_ok (validateRoutingRuleValue DomainRule domain) then set_add domain ds else ds) hints domains"

fun hint_domains :: "jsstring list \<Rightarrow> jsstring list \<Rightarrow> domain_error + jsstring list" where
  "hint_domains [] domains = Inr domains"
| "hint_domains (processName # names) domains =
     (case PROCESS_ROUTE_DOMAIN_HINTS (js_lower (js_trim processName)) of
        NoHints \<Rightarrow> hint_domains names domains
      | HintDomains hints \<Rightarrow> hint_domains names (add_hints hints domains)
      | _ \<Rightarrow> Inl HintsNotIterable)"

definition processRouteDomainHints :: "jsstring list \<Rightarrow> domain_error + jsstring list" where
  "processRouteDomainHints processNames = hint_domains processNames []"

definition hasProcessRouteDomainHints :: "jsstring \<Rightarrow> bool" where
  "hasProcessRouteDomainHints processName =
     ((case PROCESS_ROUTE_DOMAIN_HINTS (js_lower (js_trim processName)) of
        HintDomains hints \<Rightarrow> length hints
      | InheritedConstructor \<Rightarrow> 1
      | _ \<Rightarrow> 0) > 0)"

section \<open>Coverage\<close>

definition route_name :: "jsstring \<Rightarrow> jsstring" where
  "route_name s = strip_final_dot (js_lower (js_trim s))"

definition isDomainCoveredByRoutePatterns :: "jsstring \<Rightarrow> jsstring list \<Rightarrow> bool" where
  "isDomainCoveredByRoutePatterns domain patterns =
     (let normalizedDomain = route_name domain in
      if \<not> vr_ok (validateRoutingRuleValue DomainRule normalizedDomain) \<or> starts_with (js ''*.'') normalizedDomain
        then False
      else list_ex (\<lambda>rawPattern.
        let pattern = route_name rawPattern in
        if \<not> vr_ok (validateRoutingRuleValue DomainRule pattern) then False
        else if starts_with (js ''*.'') pattern then
          (let suffix = drop 2 pattern in
           normalizedDomain \<noteq> suffix \<and> ends_with (js ''.'' @ suffix) normalizedDomain)
        else normalizedDomain = pattern \<or> ends_with (js ''.'' @ pattern) normalizedDomain) patterns)"

definition normalizeProcessRouteDirectDomains :: "jsstring list \<Rightarrow> jsstring list" where
  "normalizeProcessRouteDirectDomains directDomains =
     fold (\<lambda>directDomain normalized.
       case normalizeProxyDomain directDomain of
         None \<Rightarrow> normalized
       | Some d \<Rightarrow>
           let suffix = (if starts_with (js ''.'') d then drop 1 d else d) in
           if suffix = [] then normalized else set_add suffix normalized) directDomains []"

function suffix_walk :: "jsstring list \<Rightarrow> jsstring \<Rightarrow> bool" where
  "suffix_walk suffixes candidate =
     (if candidate = [] then False
      else if candidate \<in> set suffixes then True
      else case index_of 46 candidate of
        None \<Rightarrow> False
      | Some dot \<Rightarrow> suffix_walk suffixes (drop (dot + 1) candidate))"
  by pat_completeness auto
termination
  by (relation "measure (\<lambda>(suffixes, candidate). length candidate)") (auto simp: index_of_Some)

declare suffix_walk.simps [simp del]

definition isDomainCoveredByDirectDomainSuffixes :: "jsstring \<Rightarrow> jsstring list \<Rightarrow> bool" where
  "isDomainCoveredByDirectDomainSuffixes domain suffixes =
     (let normalizedDomain = route_name domain in
      if \<not> vr_ok (validateRoutingRuleValue DomainRule normalizedDomain) \<or> starts_with (js ''*.'') normalizedDomain
        then False
      else suffix_walk suffixes normalizedDomain)"

definition isDomainCoveredByDirectDomains :: "jsstring \<Rightarrow> jsstring list \<Rightarrow> bool" where
  "isDomainCoveredByDirectDomains domain directDomains =
     isDomainCoveredByDirectDomainSuffixes domain (normalizeProcessRouteDirectDomains directDomains)"

section \<open>What the lists mean\<close>

text \<open>A name covers itself and its subdomains.\<close>

definition covers :: "jsstring \<Rightarrow> jsstring \<Rightarrow> bool" where
  "covers p d \<longleftrightarrow> d = p \<or> ends_with (46 # p) d"

lemma covers_iff: "covers p d \<longleftrightarrow> d = p \<or> (\<exists>x. d = x @ 46 # p)"
  by (auto simp: covers_def ends_with_iff)

text \<open>One step of the walk over the labels.\<close>

lemma covers_step:
  assumes "index_of 46 d = Some i"
  shows "covers p d \<longleftrightarrow> d = p \<or> covers p (drop (i + 1) d)"
proof -
  have i: "i < length d" "d ! i = 46" "46 \<notin> set (take i d)" using assms by (auto simp: index_of_Some)
  have d: "d = take i d @ 46 # drop (i + 1) d" using i(1,2) id_take_nth_drop by fastforce
  show ?thesis
  proof
    assume "covers p d"
    then consider "d = p" | x where "d = x @ 46 # p" by (auto simp: covers_iff)
    then show "d = p \<or> covers p (drop (i + 1) d)"
    proof cases
      case 2
      have "i \<le> length x"
      proof (rule ccontr)
        assume "\<not> i \<le> length x"
        then have "46 \<in> set (take i d)" using 2 by (auto simp: take_Cons')
        then show False using i(3) by simp
      qed
      then have "drop (i + 1) d = (if i = length x then p else drop (i + 1) x @ 46 # p)" using 2 by auto
      then show ?thesis by (auto simp: covers_iff)
    qed simp
  next
    assume "d = p \<or> covers p (drop (i + 1) d)"
    then show "covers p d"
    proof
      assume "covers p (drop (i + 1) d)"
      then consider "drop (i + 1) d = p" | x where "drop (i + 1) d = x @ 46 # p" by (auto simp: covers_iff)
      then show ?thesis
      proof cases
        case 1
        then have "d = take i d @ 46 # p" using d by simp
        then show ?thesis unfolding covers_iff by blast
      next
        case 2
        then have "d = (take i d @ 46 # x) @ 46 # p" using d by simp
        then show ?thesis unfolding covers_iff by blast
      qed
    qed (simp add: covers_def)
  qed
qed

lemma covers_no_dot: "46 \<notin> set d \<Longrightarrow> covers p d \<longleftrightarrow> d = p"
  by (auto simp: covers_iff)

lemma suffix_walk_covers: "suffix_walk suffixes d \<longleftrightarrow> (\<exists>p \<in> set suffixes. p \<noteq> [] \<and> covers p d)"
proof (induction suffixes d rule: suffix_walk.induct)
  case (1 suffixes d)
  consider "d = []" | "d \<noteq> []" "d \<in> set suffixes" | "d \<noteq> []" "d \<notin> set suffixes" "index_of 46 d = None"
    | i where "d \<noteq> []" "d \<notin> set suffixes" "index_of 46 d = Some i" by fastforce
  then show ?case
  proof cases
    case 1
    then show ?thesis by (subst suffix_walk.simps) (auto simp: covers_iff)
  next
    case 2
    then show ?thesis by (subst suffix_walk.simps) (auto simp: covers_def)
  next
    case 3
    have "suffix_walk suffixes d = False" by (subst suffix_walk.simps) (simp only: 3 if_False option.case)
    moreover have "46 \<notin> set d" using 3(3) by simp
    ultimately show ?thesis using 3(2) by (auto simp: covers_no_dot)
  next
    case (4 i)
    then have "suffix_walk suffixes d = suffix_walk suffixes (drop (i + 1) d)" by (subst suffix_walk.simps) simp
    then show ?thesis using 1(1) [of i] 4 covers_step [OF 4(3)] by auto
  qed
qed


lemma set_sort_by [simp]: "set (sort_by leq xs) = set xs"
proof -
  have i: "set (insert_by leq x ys) = insert x (set ys)" for x ys by (induction ys) auto
  show ?thesis unfolding sort_by_def by (induction xs) (simp_all add: i)
qed

lemma distinct_sort_by [simp]: "distinct (sort_by leq xs) = distinct xs"
proof -
  have "length (insert_by leq x ys) = Suc (length ys)" for x ys by (induction ys) auto
  then have "length (sort_by leq xs) = length xs" unfolding sort_by_def by (induction xs) simp_all
  then show ?thesis using set_sort_by [of leq xs] by (metis card_distinct distinct_card)
qed

lemma sorted_sort_by:
  assumes "\<And>a b. leq a b \<or> leq b a" "\<And>a b c. leq a b \<Longrightarrow> leq b c \<Longrightarrow> leq a c"
  shows "sorted_wrt leq (sort_by leq xs)"
proof -
  have i: "set (insert_by leq x ys) = insert x (set ys)" for x ys by (induction ys) auto
  have "sorted_wrt leq ys \<Longrightarrow> sorted_wrt leq (insert_by leq x ys)" for x ys
    using assms by (induction ys) (auto simp: i)
  then show ?thesis unfolding sort_by_def by (induction xs) simp_all
qed

lemma collect_domains_result:
  assumes "distinct acc" "length acc \<le> MAX_PROXY_DOMAINS"
  shows "collect_domains tokens acc =
    (if card (set acc \<union> {d. \<exists>t \<in> set tokens. normalizeProxyDomain t = Some d}) \<le> MAX_PROXY_DOMAINS
     then Inr (fold (\<lambda>t. case normalizeProxyDomain t of None \<Rightarrow> id | Some d \<Rightarrow> set_add d) tokens acc)
     else Inl DomainListTooLarge)"
  using assms
proof (induction tokens arbitrary: acc)
  case Nil
  then show ?case by (simp add: distinct_card)
next
  case (Cons t ts)
  let ?D = "{d. \<exists>t \<in> set ts. normalizeProxyDomain t = Some d}"
  have fin: "finite ?D"
    by (rule finite_subset [of _ "(\<lambda>t. the (normalizeProxyDomain t)) ` set ts"]) (auto intro: rev_image_eqI)
  show ?case
  proof (cases "normalizeProxyDomain t")
    case None
    then show ?thesis using Cons by simp
  next
    case (Some d)
    let ?acc = "set_add d acc"
    have D: "{d. \<exists>t \<in> set (t # ts). normalizeProxyDomain t = Some d} = insert d ?D" using Some by auto
    have dist: "distinct ?acc" "set ?acc = insert d (set acc)" using Cons.prems(1) by simp_all
    have un: "set acc \<union> insert d ?D = set ?acc \<union> ?D" by auto
    show ?thesis
    proof (cases "MAX_PROXY_DOMAINS < length ?acc")
      case True
      have "length ?acc = card (set ?acc)" using distinct_card [OF dist(1)] by simp
      also have "\<dots> \<le> card (set ?acc \<union> ?D)" using fin by (intro card_mono) auto
      finally show ?thesis using True Some by (simp only: D un) (simp add: Let_def)
    next
      case False
      then have "collect_domains (t # ts) acc = collect_domains ts ?acc" using Some by (simp add: Let_def)
      then show ?thesis using Cons.IH [OF dist(1)] False Some by (simp only: D un not_less) simp
    qed
  qed
qed

lemma collected_domains:
  "set (fold (\<lambda>t. case normalizeProxyDomain t of None \<Rightarrow> id | Some d \<Rightarrow> set_add d) tokens acc) =
     set acc \<union> {d. \<exists>t \<in> set tokens. normalizeProxyDomain t = Some d}"
  "distinct acc \<Longrightarrow> distinct (fold (\<lambda>t. case normalizeProxyDomain t of None \<Rightarrow> id | Some d \<Rightarrow> set_add d) tokens acc)"
  by (induction tokens arbitrary: acc) (auto split: option.split)

text \<open>A curated list is parsed into exactly the domains its white-space separated tokens normalise to,
  each once, in the order of the comparison; the parser fails exactly if there are more than 20000.\<close>

theorem curated_list_exact:
  assumes "\<And>a b. leq a b \<or> leq b a" and "\<And>a b c. leq a b \<Longrightarrow> leq b c \<Longrightarrow> leq a c"
  shows "case parseDomainProxyList leq text of
      Inr ds \<Rightarrow> set ds = {d. \<exists>t \<in> set (split_ws text). normalizeProxyDomain t = Some d} \<and>
        distinct ds \<and> sorted_wrt leq ds \<and> length ds \<le> 20000
    | Inl e \<Rightarrow> e = DomainListTooLarge \<and> 20000 < card {d. \<exists>t \<in> set (split_ws text). normalizeProxyDomain t = Some d}"
proof -
  let ?D = "{d. \<exists>t \<in> set (split_ws text). normalizeProxyDomain t = Some d}"
  let ?F = "fold (\<lambda>t. case normalizeProxyDomain t of None \<Rightarrow> id | Some d \<Rightarrow> set_add d) (split_ws text) []"
  have c: "collect_domains (split_ws text) [] = (if card ?D \<le> MAX_PROXY_DOMAINS then Inr ?F else Inl DomainListTooLarge)"
    using collect_domains_result [of "[]" "split_ws text"] by simp
  have f: "set ?F = ?D" "distinct ?F" using collected_domains [where acc = "[]"] by simp_all
  show ?thesis
  proof (cases "card ?D \<le> MAX_PROXY_DOMAINS")
    case True
    have "distinct (sort_by leq ?F)" "set (sort_by leq ?F) = ?D" using f by simp_all
    then have "length (sort_by leq ?F) \<le> 20000" using True by (metis MAX_PROXY_DOMAINS_def distinct_card)
    then show ?thesis using True c f sorted_sort_by [of leq ?F, OF assms] by (simp add: parseDomainProxyList_def)
  next
    case False
    then show ?thesis using c by (simp add: parseDomainProxyList_def MAX_PROXY_DOMAINS_def)
  qed
qed

lemma curated_list_exact_witness:
  "\<exists>ds. parseDomainProxyList (\<lambda>a b. length a \<le> length b) (js ''.RU a.b'') = Inr ds \<and> js ''.ru'' \<in> set ds"
proof -
  let ?leq = "\<lambda>(a :: jsstring) b. length a \<le> length b"
  have s: "split_ws (js ''.RU a.b'') = [js ''.RU'', js ''a.b'']"
    by (simp add: split_ws.simps js_ws_def)
  have n: "normalizeProxyDomain (js ''.RU'') = Some (js ''.ru'')" "normalizeProxyDomain (js ''a.b'') = Some (js ''a.b'')"
    by (simp_all add: normalizeProxyDomain_def js_trim_def js_trim_start_def js_trim_end_def js_ws_def lower_unit_def
        strip_final_dot_def ends_with_def starts_with_def MAX_DOMAIN_LENGTH_def list_domain_label_def alnum_iu_def alpha_iu_def
        is_alpha_def is_digit_def Let_def)
  have "\<exists>ds. parseDomainProxyList ?leq (js ''.RU a.b'') = Inr ds"
    by (simp add: parseDomainProxyList_def s n set_add_def MAX_PROXY_DOMAINS_def Let_def del: js_simps)
  then obtain ds where ds: "parseDomainProxyList ?leq (js ''.RU a.b'') = Inr ds" by blast
  have "case parseDomainProxyList ?leq (js ''.RU a.b'') of
      Inr ds \<Rightarrow> set ds = {d. \<exists>t \<in> set (split_ws (js ''.RU a.b'')). normalizeProxyDomain t = Some d} \<and>
        distinct ds \<and> sorted_wrt ?leq ds \<and> length ds \<le> 20000
    | Inl e \<Rightarrow> e = DomainListTooLarge \<and> 20000 < card {d. \<exists>t \<in> set (split_ws (js ''.RU a.b'')). normalizeProxyDomain t = Some d}"
    by (rule curated_list_exact) linarith+
  then have "set ds = {d. \<exists>t \<in> {js ''.RU'', js ''a.b''}. normalizeProxyDomain t = Some d}" unfolding ds s by simp
  then show ?thesis using ds n by blast
qed

text \<open>A domain is covered by a direct or proxy list exactly if it is a well-formed domain and it or one
  of its parent domains is on the list: the walk over the labels finds what a search of the whole list
  would find.\<close>

theorem direct_list_covers:
  "isDomainCoveredByDirectDomainSuffixes domain suffixes \<longleftrightarrow>
     (let d = strip_final_dot (js_lower (js_trim domain)) in
      vr_ok (validateDomainPattern d) \<and> \<not> starts_with (js ''*.'') d \<and>
      list_ex (\<lambda>p. p \<noteq> [] \<and> (d = p \<or> ends_with (46 # p) d)) suffixes)"
  unfolding isDomainCoveredByDirectDomainSuffixes_def route_name_def suffix_walk_covers covers_def Let_def
    validateRoutingRuleValue_def
  by (auto simp: list_ex_iff)

text \<open>The process hints fail on a process named like an inherited property: \<open>processRouteDomainHints\<close>
  throws exactly if one of the names is \<open>constructor\<close> or \<open>__proto__\<close>, and
  \<open>hasProcessRouteDomainHints\<close> claims hints for \<open>constructor\<close>.\<close>

theorem inherited_hint_names:
  "(processRouteDomainHints names = Inl HintsNotIterable \<longleftrightarrow>
     list_ex (\<lambda>n. js_lower (js_trim n) \<in> {js ''constructor'', js ''__proto__''}) names) \<and>
   hasProcessRouteDomainHints (js ''constructor'')"
proof
  have "hint_domains names ds = Inl HintsNotIterable \<longleftrightarrow>
     list_ex (\<lambda>n. js_lower (js_trim n) \<in> {js ''constructor'', js ''__proto__''}) names" for ds
  proof (induction names arbitrary: ds)
    case (Cons n names)
    then show ?case by (auto simp: PROCESS_ROUTE_DOMAIN_HINTS_def simp del: js_simps)
  qed simp
  then show "processRouteDomainHints names = Inl HintsNotIterable \<longleftrightarrow>
     list_ex (\<lambda>n. js_lower (js_trim n) \<in> {js ''constructor'', js ''__proto__''}) names"
    by (simp only: processRouteDomainHints_def)
  have "js_lower (js_trim (js ''constructor'')) = js ''constructor''"
    by (simp add: js_trim_def js_trim_start_def js_trim_end_def js_ws_def lower_unit_def)
  then show "hasProcessRouteDomainHints (js ''constructor'')"
    by (simp add: hasProcessRouteDomainHints_def PROCESS_ROUTE_DOMAIN_HINTS_def del: js_simps)
qed

end
