(* ===== verification/Routing.thy ===== *)
theory Routing
  imports DomainLists
begin

text \<open>
  \<open>src/core/routing/routing-matcher.ts\<close> and \<open>src/core/routing/traffic-policy.ts\<close>: the user's
  rules compiled into indexes, and the routing decision every path shares.  A JavaScript \<open>Map\<close> that is
  only looked up is a partial function.
\<close>

section \<open>Rules and answers\<close>

datatype routing_mode = ProxyAll | SelectedRules

record routing_rule =
  rr_id :: jsstring
  rr_type :: rule_type
  rr_value :: jsstring
  rr_enabled :: bool

record traffic_descriptor =
  td_destinationDomain :: "jsstring option"
  td_destinationIp :: "jsstring option"
  td_processName :: "jsstring option"

datatype match_reason = RProxyAll | RDomain | RIp | RProcess | RNoMatch | RNoEnabledRules | RDirectList | RProxyList

record routing_match =
  rm_shouldProxy :: bool
  rm_reason :: match_reason
  rm_ruleId :: "jsstring option"

record compiled_domain_rule =
  cd_id :: jsstring
  cd_order :: nat

record routing_matcher =
  mt_mode :: routing_mode
  mt_domains :: "jsstring \<rightharpoonup> compiled_domain_rule"
  mt_wildcardDomains :: "jsstring \<rightharpoonup> compiled_domain_rule"
  mt_ips :: "(jsstring \<times> cidr_range) list"
  mt_processes :: "jsstring \<rightharpoonup> jsstring"
  mt_domainRules :: nat
  mt_processRules :: nat
  mt_invalidRules :: nat

section \<open>Compiling the rules\<close>

definition matcher_empty :: "routing_mode \<Rightarrow> routing_matcher" where
  "matcher_empty mode = \<lparr>mt_mode = mode, mt_domains = Map.empty, mt_wildcardDomains = Map.empty, mt_ips = [],
     mt_processes = Map.empty, mt_domainRules = 0, mt_processRules = 0, mt_invalidRules = 0\<rparr>"

text \<open>\<open>if (!index.has(key)) index.set(key, value)\<close>.\<close>

definition add_first :: "'k \<Rightarrow> 'v \<Rightarrow> ('k \<rightharpoonup> 'v) \<Rightarrow> ('k \<rightharpoonup> 'v)" where
  "add_first k v index = (if index k = None then index(k \<mapsto> v) else index)"

definition compile_rule :: "nat \<Rightarrow> routing_rule \<Rightarrow> routing_matcher \<Rightarrow> routing_matcher" where
  "compile_rule order rule m =
     (if \<not> rr_enabled rule then m
      else if \<not> vr_ok (validateRoutingRuleValue (rr_type rule) (rr_value rule))
        then m\<lparr>mt_invalidRules := mt_invalidRules m + 1\<rparr>
      else let normalized = normalizeRuleValue (rr_type rule) (rr_value rule) in
        case rr_type rule of
          DomainRule \<Rightarrow>
            let wildcard = starts_with (js ''*.'') normalized;
                pattern = (if wildcard then drop 2 normalized else normalized);
                entry = \<lparr>cd_id = rr_id rule, cd_order = order\<rparr>;
                m' = (if wildcard then m\<lparr>mt_wildcardDomains := add_first pattern entry (mt_wildcardDomains m)\<rparr>
                  else m\<lparr>mt_domains := add_first pattern entry (mt_domains m)\<rparr>)
            in m'\<lparr>mt_domainRules := mt_domainRules m' + 1\<rparr>
        | IpRule \<Rightarrow> (case parseCidrRange normalized of
              Some r \<Rightarrow> m\<lparr>mt_ips := mt_ips m @ [(rr_id rule, r)]\<rparr>
            | None \<Rightarrow> m\<lparr>mt_invalidRules := mt_invalidRules m + 1\<rparr>)
        | ProcessRule \<Rightarrow> m\<lparr>mt_processes := add_first normalized (rr_id rule) (mt_processes m),
              mt_processRules := mt_processRules m + 1\<rparr>)"

fun compile_rules :: "nat \<Rightarrow> routing_rule list \<Rightarrow> routing_matcher \<Rightarrow> routing_matcher" where
  "compile_rules order [] m = m"
| "compile_rules order (rule # rules) m = compile_rules (order + 1) rules (compile_rule order rule m)"

definition matcher_new :: "routing_mode \<Rightarrow> routing_rule list \<Rightarrow> routing_matcher" where
  "matcher_new mode rules = compile_rules 0 rules (matcher_empty mode)"

section \<open>Matching\<close>

definition enabledRulesCount :: "routing_matcher \<Rightarrow> nat" where
  "enabledRulesCount m = mt_domainRules m + length (mt_ips m) + mt_processRules m"

definition better :: "compiled_domain_rule option \<Rightarrow> compiled_domain_rule option \<Rightarrow> compiled_domain_rule option" where
  "better candidate matched = (case candidate of
       None \<Rightarrow> matched
     | Some c \<Rightarrow> (case matched of
         None \<Rightarrow> Some c
       | Some b \<Rightarrow> if cd_order c < cd_order b then Some c else Some b))"

text \<open>
  The loop over the dots of the domain.  Its state is the part behind the last dot seen, in which
  \<open>indexOf\<close> finds the next one.
\<close>

function match_parents :: "routing_matcher \<Rightarrow> jsstring \<Rightarrow> compiled_domain_rule option \<Rightarrow> compiled_domain_rule option" where
  "match_parents m part matched =
     (case index_of 46 part of
        None \<Rightarrow> matched
      | Some separator \<Rightarrow>
          if separator + 1 < length part then
            let parent = drop (separator + 1) part in
            match_parents m parent (better (mt_wildcardDomains m parent) (better (mt_domains m parent) matched))
          else matched)"
  by pat_completeness auto
termination
  by (relation "measure (\<lambda>(m, part, matched). length part)") auto

declare match_parents.simps [simp del]

definition matchDomain :: "routing_matcher \<Rightarrow> jsstring \<Rightarrow> compiled_domain_rule option" where
  "matchDomain m domain = match_parents m domain (mt_domains m domain)"

definition matchDestination :: "routing_matcher \<Rightarrow> traffic_descriptor \<Rightarrow> routing_match option" where
  "matchDestination m descriptor =
     (let domain = map_option (\<lambda>d. js_lower (js_trim d)) (td_destinationDomain descriptor);
          byDomain = (case domain of None \<Rightarrow> None | Some d \<Rightarrow> if d = [] then None else matchDomain m d) in
      case byDomain of
        Some c \<Rightarrow> Some \<lparr>rm_shouldProxy = True, rm_reason = RDomain, rm_ruleId = Some (cd_id c)\<rparr>
      | None \<Rightarrow>
          (case (case td_destinationIp descriptor of None \<Rightarrow> None
              | Some t \<Rightarrow> if t = [] then None else parseIpAddressUnmapped t) of
             None \<Rightarrow> None
           | Some ip \<Rightarrow> (case find (\<lambda>rule. ipMatchesCidr ip (snd rule)) (mt_ips m) of
               None \<Rightarrow> None
             | Some rule \<Rightarrow> Some \<lparr>rm_shouldProxy = True, rm_reason = RIp, rm_ruleId = Some (fst rule)\<rparr>)))"

definition matchProcess :: "routing_matcher \<Rightarrow> jsstring option \<Rightarrow> routing_match option" where
  "matchProcess m processName =
     (case map_option (\<lambda>n. js_lower (js_trim n)) processName of
        None \<Rightarrow> None
      | Some name \<Rightarrow> if name = [] then None
          else map_option (\<lambda>i. \<lparr>rm_shouldProxy = True, rm_reason = RProcess, rm_ruleId = Some i\<rparr>) (mt_processes m name))"

definition unmatched :: "routing_matcher \<Rightarrow> routing_match" where
  "unmatched m =
     (if mt_mode m = ProxyAll then \<lparr>rm_shouldProxy = True, rm_reason = RProxyAll, rm_ruleId = None\<rparr>
      else if enabledRulesCount m = 0 then \<lparr>rm_shouldProxy = False, rm_reason = RNoEnabledRules, rm_ruleId = None\<rparr>
      else \<lparr>rm_shouldProxy = False, rm_reason = RNoMatch, rm_ruleId = None\<rparr>)"

definition match_traffic :: "routing_matcher \<Rightarrow> traffic_descriptor \<Rightarrow> routing_match" where
  "match_traffic m descriptor =
     (if mt_mode m \<noteq> ProxyAll \<and> enabledRulesCount m = 0 then unmatched m
      else case matchDestination m descriptor of
        Some r \<Rightarrow> r
      | None \<Rightarrow> (case matchProcess m (td_processName descriptor) of Some r \<Rightarrow> r | None \<Rightarrow> unmatched m))"

record matcher_summary =
  ms_mode :: routing_mode
  ms_enabledRules :: nat
  ms_domainRules :: nat
  ms_ipRules :: nat
  ms_processRules :: nat
  ms_invalidRules :: nat

definition matcher_summary_of :: "routing_matcher \<Rightarrow> matcher_summary" where
  "matcher_summary_of m = \<lparr>ms_mode = mt_mode m, ms_enabledRules = enabledRulesCount m, ms_domainRules = mt_domainRules m,
     ms_ipRules = length (mt_ips m), ms_processRules = mt_processRules m, ms_invalidRules = mt_invalidRules m\<rparr>"

section \<open>The traffic policy\<close>

datatype transport_protocol = Tcp | Udp

datatype blocked_reason = UdpNotSupported | ProtectedSshConnection | LocalDestination

record policy_decision = routing_match +
  pd_protocol :: transport_protocol
  pd_blockedReason :: "blocked_reason option"

record policy_options =
  po_udpSupported :: "bool option"
  po_protectedSshEndpoint :: "(jsstring \<times> int) option"
  po_proxyListDomains :: "jsstring list option"
  po_directListDomains :: "jsstring list option"

record traffic_policy =
  tp_matcher :: routing_matcher
  tp_udpSupported :: bool
  tp_protectedSshEndpoint :: "(jsstring \<times> int) option"
  tp_proxyListSuffixes :: "jsstring list"
  tp_directListSuffixes :: "jsstring list"

datatype policy_argument = UdpFlag bool | PolicyOptions policy_options

definition policy_new :: "routing_mode \<Rightarrow> routing_rule list \<Rightarrow> policy_argument \<Rightarrow> traffic_policy" where
  "policy_new mode rules options = (case options of
       UdpFlag udp \<Rightarrow> \<lparr>tp_matcher = matcher_new mode rules, tp_udpSupported = udp, tp_protectedSshEndpoint = None,
         tp_proxyListSuffixes = [], tp_directListSuffixes = []\<rparr>
     | PolicyOptions p \<Rightarrow> \<lparr>tp_matcher = matcher_new mode rules,
         tp_udpSupported = (case po_udpSupported p of None \<Rightarrow> False | Some b \<Rightarrow> b),
         tp_protectedSshEndpoint = map_option (\<lambda>(host, port). (js_lower (js_trim host), port)) (po_protectedSshEndpoint p),
         tp_proxyListSuffixes = normalizeProcessRouteDirectDomains
           (case po_proxyListDomains p of None \<Rightarrow> [] | Some ds \<Rightarrow> ds),
         tp_directListSuffixes = normalizeProcessRouteDirectDomains
           (case po_directListDomains p of None \<Rightarrow> [] | Some ds \<Rightarrow> ds)\<rparr>)"

definition isProtectedSshConnection :: "traffic_policy \<Rightarrow> traffic_descriptor \<Rightarrow> int option \<Rightarrow> bool" where
  "isProtectedSshConnection p descriptor destinationPort =
     (case tp_protectedSshEndpoint p of
        None \<Rightarrow> False
      | Some (host, port) \<Rightarrow>
          if destinationPort \<noteq> Some port then False
          else map_option (\<lambda>d. js_lower (js_trim d)) (td_destinationDomain descriptor) = Some host \<or>
               map_option (\<lambda>d. js_lower (js_trim d)) (td_destinationIp descriptor) = Some host)"

definition isLocalDestination :: "traffic_descriptor \<Rightarrow> bool" where
  "isLocalDestination descriptor =
     ((case td_destinationIp descriptor of None \<Rightarrow> False | Some ip \<Rightarrow> isLocalDestinationIp ip) \<or>
      (case td_destinationDomain descriptor of None \<Rightarrow> False | Some d \<Rightarrow> isLocalDestinationHost d))"

definition decision_of :: "transport_protocol \<Rightarrow> routing_match \<Rightarrow> policy_decision" where
  "decision_of protocol m = \<lparr>rm_shouldProxy = rm_shouldProxy m, rm_reason = rm_reason m, rm_ruleId = rm_ruleId m,
     pd_protocol = protocol, pd_blockedReason = None\<rparr>"

definition blocked :: "transport_protocol \<Rightarrow> blocked_reason \<Rightarrow> policy_decision" where
  "blocked protocol reason = \<lparr>rm_shouldProxy = False, rm_reason = RNoMatch, rm_ruleId = None,
     pd_protocol = protocol, pd_blockedReason = Some reason\<rparr>"

definition on_list :: "jsstring option \<Rightarrow> jsstring list \<Rightarrow> bool" where
  "on_list domain suffixes =
     (case domain of None \<Rightarrow> False | Some d \<Rightarrow> d \<noteq> [] \<and> isDomainCoveredByDirectDomainSuffixes d suffixes)"

definition decide :: "traffic_policy \<Rightarrow> transport_protocol \<Rightarrow> traffic_descriptor \<Rightarrow> int option \<Rightarrow> policy_decision" where
  "decide p protocol descriptor destinationPort =
     (if protocol = Udp \<and> \<not> tp_udpSupported p then blocked protocol UdpNotSupported
      else if isProtectedSshConnection p descriptor destinationPort then blocked protocol ProtectedSshConnection
      else case matchDestination (tp_matcher p) descriptor of
        Some rule \<Rightarrow> decision_of protocol rule
      | None \<Rightarrow>
          if isLocalDestination descriptor then blocked protocol LocalDestination
          else case matchProcess (tp_matcher p) (td_processName descriptor) of
            Some processRule \<Rightarrow> decision_of protocol processRule
          | None \<Rightarrow>
              if on_list (td_destinationDomain descriptor) (tp_directListSuffixes p)
                then decision_of protocol \<lparr>rm_shouldProxy = False, rm_reason = RDirectList, rm_ruleId = None\<rparr>
              else if rm_shouldProxy (unmatched (tp_matcher p)) then decision_of protocol (unmatched (tp_matcher p))
              else if on_list (td_destinationDomain descriptor) (tp_proxyListSuffixes p)
                then decision_of protocol \<lparr>rm_shouldProxy = True, rm_reason = RProxyList, rm_ruleId = None\<rparr>
              else decision_of protocol (unmatched (tp_matcher p)))"

end
