(* ===== verification/RoutingMeaning.thy ===== *)
theory RoutingMeaning
  imports Routing
begin

text \<open>
  What the routing rules mean.  The matcher compiles the rules into indexes and walks the labels of a
  domain; here its answers are shown to be those of a plain search of the rule list, and the decision
  of the traffic policy is reduced to a formula over the rules, the mode and the lists.
\<close>

section \<open>The rules read one by one\<close>

text \<open>The pattern a valid domain rule compiles to: whether it is a wildcard, and the name.\<close>

definition domain_pattern :: "routing_rule \<Rightarrow> (bool \<times> jsstring) option" where
  "domain_pattern r =
     (if rr_enabled r \<and> rr_type r = DomainRule \<and> vr_ok (validateRoutingRuleValue DomainRule (rr_value r)) then
        let n = normalizeRuleValue DomainRule (rr_value r) in
        Some (if starts_with (js ''*.'') n then (True, drop 2 n) else (False, n))
      else None)"

definition names_domain :: "routing_rule \<Rightarrow> jsstring \<Rightarrow> bool" where
  "names_domain r d = (case domain_pattern r of
       None \<Rightarrow> False
     | Some (wildcard, p) \<Rightarrow> if wildcard then ends_with (46 # p) d else d = p \<or> ends_with (46 # p) d)"

definition ip_rule_range :: "routing_rule \<Rightarrow> cidr_range option" where
  "ip_rule_range r =
     (if rr_enabled r \<and> rr_type r = IpRule \<and> vr_ok (validateRoutingRuleValue IpRule (rr_value r))
      then parseCidrRange (normalizeRuleValue IpRule (rr_value r)) else None)"

definition names_ip :: "routing_rule \<Rightarrow> parsed_ip \<Rightarrow> bool" where
  "names_ip r ip = (case ip_rule_range r of None \<Rightarrow> False | Some g \<Rightarrow> ipMatchesCidr ip g)"

definition names_process :: "routing_rule \<Rightarrow> jsstring \<Rightarrow> bool" where
  "names_process r name \<longleftrightarrow> rr_enabled r \<and> rr_type r = ProcessRule \<and>
     vr_ok (validateRoutingRuleValue ProcessRule (rr_value r)) \<and> normalizeRuleValue ProcessRule (rr_value r) = name"

definition traffic_domain :: "traffic_descriptor \<Rightarrow> jsstring option" where
  "traffic_domain t = (case td_destinationDomain t of
       None \<Rightarrow> None | Some d \<Rightarrow> if js_lower (js_trim d) = [] then None else Some (js_lower (js_trim d)))"

definition traffic_ip :: "traffic_descriptor \<Rightarrow> parsed_ip option" where
  "traffic_ip t = (case td_destinationIp t of None \<Rightarrow> None | Some s \<Rightarrow> if s = [] then None else parseIpAddressUnmapped s)"

definition domain_rule_hits :: "traffic_descriptor \<Rightarrow> routing_rule \<Rightarrow> bool" where
  "domain_rule_hits t r = (case traffic_domain t of None \<Rightarrow> False | Some d \<Rightarrow> names_domain r d)"

definition ip_rule_hits :: "traffic_descriptor \<Rightarrow> routing_rule \<Rightarrow> bool" where
  "ip_rule_hits t r = (case traffic_ip t of None \<Rightarrow> False | Some ip \<Rightarrow> names_ip r ip)"

definition process_rule_hits :: "traffic_descriptor \<Rightarrow> routing_rule \<Rightarrow> bool" where
  "process_rule_hits t r = (case td_processName t of
       None \<Rightarrow> False | Some n \<Rightarrow> js_lower (js_trim n) \<noteq> [] \<and> names_process r (js_lower (js_trim n)))"

section \<open>The compiled indexes\<close>

definition entry_of :: "nat \<times> routing_rule \<Rightarrow> compiled_domain_rule" where
  "entry_of ir = \<lparr>cd_id = rr_id (snd ir), cd_order = fst ir\<rparr>"

definition first_entry :: "bool \<Rightarrow> jsstring \<Rightarrow> (nat \<times> routing_rule) list \<Rightarrow> compiled_domain_rule option" where
  "first_entry wildcard p irs = map_option entry_of (find (\<lambda>ir. domain_pattern (snd ir) = Some (wildcard, p)) irs)"

lemma first_entry_simps [simp]:
  "first_entry w p [] = None"
  "first_entry w p (ir # irs) = (if domain_pattern (snd ir) = Some (w, p) then Some (entry_of ir) else first_entry w p irs)"
  by (simp_all add: first_entry_def)

lemma add_first_apply: "add_first k v m p = (case m p of None \<Rightarrow> if p = k then Some v else None | Some x \<Rightarrow> Some x)"
  by (auto simp: add_first_def split: option.split)

lemma compile_rule_domains:
  "mt_domains (compile_rule i r m) p =
     (case mt_domains m p of Some c \<Rightarrow> Some c
      | None \<Rightarrow> if domain_pattern r = Some (False, p) then Some (entry_of (i, r)) else None)"
  "mt_wildcardDomains (compile_rule i r m) p =
     (case mt_wildcardDomains m p of Some c \<Rightarrow> Some c
      | None \<Rightarrow> if domain_pattern r = Some (True, p) then Some (entry_of (i, r)) else None)"
  by (auto simp: compile_rule_def domain_pattern_def entry_of_def Let_def add_first_apply
      split: rule_type.split option.split)

lemma compile_rule_ips:
  "mt_ips (compile_rule i r m) = mt_ips m @ (case ip_rule_range r of None \<Rightarrow> [] | Some g \<Rightarrow> [(rr_id r, g)])"
  by (auto simp: compile_rule_def ip_rule_range_def Let_def split: rule_type.split option.split)

lemma compile_rule_processes:
  "mt_processes (compile_rule i r m) n =
     (case mt_processes m n of Some c \<Rightarrow> Some c | None \<Rightarrow> if names_process r n then Some (rr_id r) else None)"
  by (auto simp: compile_rule_def names_process_def Let_def add_first_apply split: rule_type.split option.split)

lemma compile_rule_mode [simp]: "mt_mode (compile_rule i r m) = mt_mode m"
  by (auto simp: compile_rule_def Let_def split: rule_type.split option.split)

lemma compile_rules_indexes:
  "mt_domains (compile_rules i rs m) p = (case mt_domains m p of Some c \<Rightarrow> Some c | None \<Rightarrow> first_entry False p (enumerate i rs))"
  "mt_wildcardDomains (compile_rules i rs m) p =
     (case mt_wildcardDomains m p of Some c \<Rightarrow> Some c | None \<Rightarrow> first_entry True p (enumerate i rs))"
  by (induction rs arbitrary: i m) (simp_all add: compile_rule_domains split: option.split)

lemma compile_rules_ips:
  "mt_ips (compile_rules i rs m) =
     mt_ips m @ concat (map (\<lambda>r. case ip_rule_range r of None \<Rightarrow> [] | Some g \<Rightarrow> [(rr_id r, g)]) rs)"
  by (induction rs arbitrary: i m) (simp_all add: compile_rule_ips)

lemma compile_rules_processes:
  "mt_processes (compile_rules i rs m) n =
     (case mt_processes m n of Some c \<Rightarrow> Some c | None \<Rightarrow> map_option rr_id (find (\<lambda>r. names_process r n) rs))"
  by (induction rs arbitrary: i m) (auto simp: compile_rule_processes split: option.split)

lemma compile_rules_mode [simp]: "mt_mode (compile_rules i rs m) = mt_mode m"
  by (induction rs arbitrary: i m) simp_all

lemma matcher_new_indexes:
  "mt_domains (matcher_new mode rules) p = first_entry False p (enumerate 0 rules)"
  "mt_wildcardDomains (matcher_new mode rules) p = first_entry True p (enumerate 0 rules)"
  "mt_mode (matcher_new mode rules) = mode"
  by (simp_all add: matcher_new_def matcher_empty_def compile_rules_indexes)

lemma find_ips:
  "find (\<lambda>rule. ipMatchesCidr ip (snd rule)) (concat (map (\<lambda>r. case ip_rule_range r of None \<Rightarrow> [] | Some g \<Rightarrow> [(rr_id r, g)]) rs)) =
     map_option (\<lambda>r. (rr_id r, the (ip_rule_range r))) (find (\<lambda>r. names_ip r ip) rs)"
  by (induction rs) (auto simp: names_ip_def split: option.split)

section \<open>The best rule of a walk\<close>

text \<open>\<open>best S c\<close>: \<open>c\<close> is an entry of \<open>S\<close> with the least order, if there is any.\<close>

definition best :: "compiled_domain_rule set \<Rightarrow> compiled_domain_rule option \<Rightarrow> bool" where
  "best S c = (case c of None \<Rightarrow> S = {} | Some b \<Rightarrow> b \<in> S \<and> (\<forall>x \<in> S. cd_order b \<le> cd_order x))"

lemma best_better: "best S b \<Longrightarrow> best (S \<union> set_option c) (better c b)"
  by (auto simp: best_def better_def split: option.splits)

definition parents_of :: "jsstring \<Rightarrow> jsstring set" where
  "parents_of d = {p. p \<noteq> [] \<and> ends_with (46 # p) d}"

definition parent_entries :: "routing_matcher \<Rightarrow> jsstring \<Rightarrow> compiled_domain_rule set" where
  "parent_entries m d = (\<Union>p \<in> parents_of d. set_option (mt_domains m p) \<union> set_option (mt_wildcardDomains m p))"

lemma parents_no_dot: "46 \<notin> set d \<Longrightarrow> parents_of d = {}"
  by (auto simp: parents_of_def ends_with_iff)

lemma ends_with_step:
  assumes "index_of 46 d = Some i"
  shows "ends_with (46 # p) d \<longleftrightarrow> p = drop (i + 1) d \<or> ends_with (46 # p) (drop (i + 1) d)"
proof -
  have i: "i < length d" "d ! i = 46" "46 \<notin> set (take i d)" using assms by (auto simp: index_of_Some)
  have d: "d = take i d @ 46 # drop (i + 1) d" using i(1,2) id_take_nth_drop by fastforce
  show ?thesis
  proof
    assume "ends_with (46 # p) d"
    then obtain x where x: "d = x @ 46 # p" by (auto simp: ends_with_iff)
    show "p = drop (i + 1) d \<or> ends_with (46 # p) (drop (i + 1) d)"
    proof (cases "length x = i")
      case True
      then show ?thesis using x by simp
    next
      case False
      have "\<not> length x < i"
      proof
        assume "length x < i"
        then have "46 \<in> set (take i d)" using x by (auto simp: take_Cons')
        then show False using i(3) by simp
      qed
      then have "drop (i + 1) d = drop (i + 1) x @ 46 # p" using False x by simp
      then show ?thesis by (auto simp: ends_with_iff)
    qed
  next
    assume "p = drop (i + 1) d \<or> ends_with (46 # p) (drop (i + 1) d)"
    then show "ends_with (46 # p) d"
    proof
      assume "p = drop (i + 1) d"
      then show ?thesis using d by (metis ends_with_iff)
    next
      assume "ends_with (46 # p) (drop (i + 1) d)"
      then obtain x where "drop (i + 1) d = x @ 46 # p" by (auto simp: ends_with_iff)
      then have "d = (take i d @ 46 # x) @ 46 # p" using d by simp
      then show ?thesis unfolding ends_with_iff by blast
    qed
  qed
qed

lemma parents_step:
  assumes "index_of 46 d = Some i"
  shows "parents_of d = (if i + 1 < length d then insert (drop (i + 1) d) (parents_of (drop (i + 1) d)) else {})"
proof (cases "i + 1 < length d")
  case True
  then show ?thesis using ends_with_step [OF assms] by (auto simp: parents_of_def)
next
  case False
  then have "drop (i + 1) d = []" by simp
  then show ?thesis using False ends_with_step [OF assms] by (auto simp: parents_of_def ends_with_iff)
qed

lemma match_parents_best: "best S b \<Longrightarrow> best (S \<union> parent_entries m d) (match_parents m d b)"
proof (induction m d b arbitrary: S rule: match_parents.induct)
  case (1 m d b)
  consider "index_of 46 d = None" | i where "index_of 46 d = Some i" by fastforce
  then show ?case
  proof cases
    case 1
    then have "parent_entries m d = {}" by (simp add: parent_entries_def parents_no_dot)
    moreover have "match_parents m d b = b" by (subst match_parents.simps) (simp only: 1 option.case)
    ultimately show ?thesis using "1.prems" by simp
  next
    case (2 i)
    show ?thesis
    proof (cases "i + 1 < length d")
      case False
      then have "parent_entries m d = {}" using parents_step [OF 2] by (simp add: parent_entries_def)
      moreover have "match_parents m d b = b" using False by (subst match_parents.simps) (simp add: 2)
      ultimately show ?thesis using "1.prems" by simp
    next
      case True
      let ?p = "drop (i + 1) d"
      let ?b = "better (mt_wildcardDomains m ?p) (better (mt_domains m ?p) b)"
      have "best (S \<union> set_option (mt_domains m ?p) \<union> set_option (mt_wildcardDomains m ?p)) ?b"
        by (intro best_better "1.prems")
      then have "best (S \<union> set_option (mt_domains m ?p) \<union> set_option (mt_wildcardDomains m ?p) \<union> parent_entries m ?p)
          (match_parents m ?p ?b)"
        using "1.IH" [OF 2 True refl] by blast
      moreover have "parent_entries m d = set_option (mt_domains m ?p) \<union> set_option (mt_wildcardDomains m ?p) \<union> parent_entries m ?p"
        using parents_step [OF 2] True by (simp add: parent_entries_def)
      moreover have "match_parents m d b = match_parents m ?p ?b" using True by (subst match_parents.simps) (simp add: 2 Let_def)
      ultimately show ?thesis by (simp add: Un_assoc)
    qed
  qed
qed


section \<open>The first rule of the list\<close>

lemma domain_pattern_nonempty: "domain_pattern r = Some (w, p) \<Longrightarrow> p \<noteq> []"
  by (auto simp: domain_pattern_def validateRoutingRuleValue_def validateDomainPattern_def normalizeRuleValue_def Let_def
      split: if_splits)

lemma find_enumerate_Some:
  "find P (enumerate 0 xs) = Some (i, x) \<longleftrightarrow> i < length xs \<and> x = xs ! i \<and> P (i, x) \<and> (\<forall>j < i. \<not> P (j, xs ! j))"
  by (auto simp: find_Some_iff nth_enumerate_eq)

lemma find_enumerate_None: "find P (enumerate 0 xs) = None \<longleftrightarrow> (\<forall>j < length xs. \<not> P (j, xs ! j))"
  by (auto simp: find_None_iff in_set_enumerate_eq)

lemma find_enumerate_snd:
  "map_option (\<lambda>ir. f (snd ir)) (find (\<lambda>ir. P (snd ir)) (enumerate n xs)) = map_option f (find P xs)"
  by (induction xs arbitrary: n) auto

lemma find_enumerate_least:
  assumes "find P (enumerate 0 xs) = Some ir" "j < length xs" "P (j, xs ! j)"
  shows "fst ir \<le> j"
  using assms by (cases ir) (auto simp: find_enumerate_Some not_less [symmetric])

text \<open>The pattern of a rule that names a domain is the domain itself or one of its parents.\<close>

lemma names_domain_iff:
  "names_domain r d \<longleftrightarrow> domain_pattern r = Some (False, d) \<or> (\<exists>w. \<exists>p \<in> parents_of d. domain_pattern r = Some (w, p))"
  using domain_pattern_nonempty [of r] by (auto simp: names_domain_def parents_of_def split: option.split if_splits)

definition domain_entries :: "routing_rule list \<Rightarrow> jsstring \<Rightarrow> compiled_domain_rule set" where
  "domain_entries rules d = set_option (first_entry False d (enumerate 0 rules)) \<union>
     (\<Union>p \<in> parents_of d. set_option (first_entry False p (enumerate 0 rules)) \<union> set_option (first_entry True p (enumerate 0 rules)))"

lemma matchDomain_best: "best (domain_entries rules d) (matchDomain (matcher_new mode rules) d)"
proof -
  have "best (set_option (mt_domains m d)) (mt_domains m d)" for m by (auto simp: best_def split: option.split)
  from match_parents_best [OF this [of "matcher_new mode rules"], of "matcher_new mode rules" d] show ?thesis
    by (simp add: matchDomain_def parent_entries_def domain_entries_def matcher_new_indexes)
qed

lemma domain_entries_iff:
  "c \<in> domain_entries rules d \<longleftrightarrow> (\<exists>w p. (p = d \<and> \<not> w \<or> p \<in> parents_of d) \<and> first_entry w p (enumerate 0 rules) = Some c)"
  by (auto simp: domain_entries_def) (metis (full_types))

lemma first_entryD:
  assumes "first_entry w p (enumerate 0 rules) = Some c"
  obtains i where "i < length rules" "c = entry_of (i, rules ! i)" "domain_pattern (rules ! i) = Some (w, p)"
    "\<forall>j < i. domain_pattern (rules ! j) \<noteq> Some (w, p)"
  using assms that by (auto simp: first_entry_def find_enumerate_Some)

lemma domain_entriesE:
  assumes "c \<in> domain_entries rules d"
  obtains i where "i < length rules" "c = entry_of (i, rules ! i)" "names_domain (rules ! i) d"
proof -
  obtain w p where wp: "p = d \<and> \<not> w \<or> p \<in> parents_of d" "first_entry w p (enumerate 0 rules) = Some c"
    using assms by (auto simp: domain_entries_iff)
  obtain i where "i < length rules" "c = entry_of (i, rules ! i)" "domain_pattern (rules ! i) = Some (w, p)"
    using wp(2) by (rule first_entryD)
  then show thesis using that [of i] wp(1) by (auto simp: names_domain_iff)
qed

lemma domain_entries_first:
  assumes "i < length rules" "names_domain (rules ! i) d" "\<forall>j < i. \<not> names_domain (rules ! j) d"
  shows "entry_of (i, rules ! i) \<in> domain_entries rules d"
proof -
  obtain w p where wp: "p = d \<and> \<not> w \<or> p \<in> parents_of d" "domain_pattern (rules ! i) = Some (w, p)"
    using assms(2) by (auto simp: names_domain_iff)
  have "domain_pattern (rules ! j) \<noteq> Some (w, p)" if "j < i" for j
    using assms(3) that wp(1) by (auto simp: names_domain_iff)
  then have "find (\<lambda>ir. domain_pattern (snd ir) = Some (w, p)) (enumerate 0 rules) = Some (i, rules ! i)"
    using assms(1) wp(2) by (simp add: find_enumerate_Some)
  then have "first_entry w p (enumerate 0 rules) = Some (entry_of (i, rules ! i))" by (simp add: first_entry_def)
  then show ?thesis using wp(1) by (auto simp: domain_entries_iff)
qed

lemma matchDomain_first:
  "matchDomain (matcher_new mode rules) d = map_option entry_of (find (\<lambda>ir. names_domain (snd ir) d) (enumerate 0 rules))"
proof (cases "find (\<lambda>ir. names_domain (snd ir) d) (enumerate 0 rules)")
  case None
  then have "domain_entries rules d = {}" by (auto simp: find_enumerate_None elim: domain_entriesE)
  then show ?thesis using matchDomain_best [of rules d mode] None by (auto simp: best_def split: option.splits)
next
  case (Some ir)
  obtain i where i: "ir = (i, rules ! i)" "i < length rules" "names_domain (rules ! i) d" "\<forall>j < i. \<not> names_domain (rules ! j) d"
    using Some by (cases ir) (auto simp: find_enumerate_Some)
  have e: "entry_of (i, rules ! i) \<in> domain_entries rules d" using i by (intro domain_entries_first) simp_all
  then obtain c where c: "matchDomain (matcher_new mode rules) d = Some c" "c \<in> domain_entries rules d" "cd_order c \<le> i"
    using matchDomain_best [of rules d mode] by (auto simp: best_def entry_of_def split: option.splits)
  obtain j where j: "j < length rules" "c = entry_of (j, rules ! j)" "names_domain (rules ! j) d"
    using c(2) by (rule domain_entriesE)
  moreover have "\<not> j < i" using j(3) i(4) by blast
  ultimately have "j = i" using c(3) by (simp add: entry_of_def)
  then show ?thesis using c(1) j(2) Some i(1) by simp
qed

lemma matchDestination_first:
  "matchDestination (matcher_new mode rules) t =
     (case find (domain_rule_hits t) rules of
        Some r \<Rightarrow> Some \<lparr>rm_shouldProxy = True, rm_reason = RDomain, rm_ruleId = Some (rr_id r)\<rparr>
      | None \<Rightarrow> map_option (\<lambda>r. \<lparr>rm_shouldProxy = True, rm_reason = RIp, rm_ruleId = Some (rr_id r)\<rparr>) (find (ip_rule_hits t) rules))"
proof -
  let ?m = "matcher_new mode rules"
  have ids: "map_option cd_id (matchDomain ?m d) = map_option rr_id (find (\<lambda>r. names_domain r d) rules)" for d
    using find_enumerate_snd [of rr_id "\<lambda>r. names_domain r d" 0 rules]
    by (simp add: matchDomain_first option.map_comp o_def entry_of_def)
  have none: "find (\<lambda>_. False) rules = None" by (simp add: find_None_iff)
  have dom: "map_option cd_id (case map_option (\<lambda>d. js_lower (js_trim d)) (td_destinationDomain t) of None \<Rightarrow> None
        | Some d \<Rightarrow> if d = [] then None else matchDomain ?m d) = map_option rr_id (find (domain_rule_hits t) rules)"
    by (cases "td_destinationDomain t") (auto simp: domain_rule_hits_def [abs_def] traffic_domain_def ids none)
  have ips: "find (\<lambda>rule. ipMatchesCidr ip (snd rule)) (mt_ips ?m) =
      map_option (\<lambda>r. (rr_id r, the (ip_rule_range r))) (find (\<lambda>r. names_ip r ip) rules)" for ip
    by (simp add: matcher_new_def matcher_empty_def compile_rules_ips find_ips)
  have ip: "(case traffic_ip t of None \<Rightarrow> None | Some ip \<Rightarrow> (case find (\<lambda>rule. ipMatchesCidr ip (snd rule)) (mt_ips ?m) of
        None \<Rightarrow> None | Some rule \<Rightarrow> Some \<lparr>rm_shouldProxy = True, rm_reason = RIp, rm_ruleId = Some (fst rule)\<rparr>)) =
      map_option (\<lambda>r. \<lparr>rm_shouldProxy = True, rm_reason = RIp, rm_ruleId = Some (rr_id r)\<rparr>) (find (ip_rule_hits t) rules)"
    by (cases "traffic_ip t") (auto simp: ip_rule_hits_def [abs_def] none ips option.case_eq_if option.map_sel)
  show ?thesis
  proof (cases "find (domain_rule_hits t) rules")
    case None
    then show ?thesis using dom ip unfolding matchDestination_def Let_def traffic_ip_def by simp
  next
    case (Some r)
    then show ?thesis using dom unfolding matchDestination_def Let_def by auto
  qed
qed

lemma matchProcess_first:
  "matchProcess (matcher_new mode rules) (td_processName t) =
     map_option (\<lambda>r. \<lparr>rm_shouldProxy = True, rm_reason = RProcess, rm_ruleId = Some (rr_id r)\<rparr>) (find (process_rule_hits t) rules)"
proof -
  have p: "mt_processes (matcher_new mode rules) n = map_option rr_id (find (\<lambda>r. names_process r n) rules)" for n
    by (simp add: matcher_new_def matcher_empty_def compile_rules_processes)
  have none: "find (\<lambda>_. False) rules = None" by (simp add: find_None_iff)
  show ?thesis
    by (cases "td_processName t") (auto simp: matchProcess_def process_rule_hits_def [abs_def] p none option.map_comp o_def)
qed


section \<open>The answers of the matcher and of the policy\<close>

definition rule_active :: "routing_rule \<Rightarrow> bool" where
  "rule_active r \<longleftrightarrow> rr_enabled r \<and> vr_ok (validateRoutingRuleValue (rr_type r) (rr_value r)) \<and>
     (rr_type r = IpRule \<longrightarrow> parseCidrRange (normalizeRuleValue IpRule (rr_value r)) \<noteq> None)"

lemma compile_rule_counts:
  "enabledRulesCount (compile_rule i r m) = enabledRulesCount m + (if rule_active r then 1 else 0)"
  "mt_invalidRules (compile_rule i r m) = mt_invalidRules m + (if rr_enabled r \<and> \<not> rule_active r then 1 else 0)"
  by (auto simp: compile_rule_def enabledRulesCount_def rule_active_def Let_def split: rule_type.split option.split)

lemma compile_rules_counts:
  "enabledRulesCount (compile_rules i rs m) = enabledRulesCount m + length (filter rule_active rs)"
  "mt_invalidRules (compile_rules i rs m) = mt_invalidRules m + length (filter (\<lambda>r. rr_enabled r \<and> \<not> rule_active r) rs)"
  by (induction rs arbitrary: i m) (simp_all add: compile_rule_counts)

lemma matcher_new_counts:
  "enabledRulesCount (matcher_new mode rules) = length (filter rule_active rules)"
  "mt_invalidRules (matcher_new mode rules) = length (filter (\<lambda>r. rr_enabled r \<and> \<not> rule_active r) rules)"
  by (simp_all add: matcher_new_def compile_rules_counts, simp_all add: matcher_empty_def enabledRulesCount_def)

lemma hits_active: "domain_rule_hits t r \<or> ip_rule_hits t r \<or> process_rule_hits t r \<Longrightarrow> rule_active r"
  by (auto simp: domain_rule_hits_def names_domain_def domain_pattern_def ip_rule_hits_def names_ip_def ip_rule_range_def
      process_rule_hits_def names_process_def rule_active_def split: option.splits if_splits)

definition by_rule :: "match_reason \<Rightarrow> routing_rule \<Rightarrow> routing_match" where
  "by_rule reason r = \<lparr>rm_shouldProxy = True, rm_reason = reason, rm_ruleId = Some (rr_id r)\<rparr>"

definition default_match :: "routing_mode \<Rightarrow> routing_rule list \<Rightarrow> routing_match" where
  "default_match mode rules =
     \<lparr>rm_shouldProxy = (mode = ProxyAll),
      rm_reason = (if mode = ProxyAll then RProxyAll else if list_ex rule_active rules then RNoMatch else RNoEnabledRules),
      rm_ruleId = None\<rparr>"

lemma no_active: "length (filter P xs) = 0 \<longleftrightarrow> \<not> list_ex P xs"
  by (induction xs) auto

lemma unmatched_default: "unmatched (matcher_new mode rules) = default_match mode rules"
  by (simp add: unmatched_def default_match_def matcher_new_indexes matcher_new_counts no_active del: length_0_conv)

lemma no_rule_hits:
  assumes "\<not> list_ex rule_active rules"
  shows "find (domain_rule_hits t) rules = None" "find (ip_rule_hits t) rules = None" "find (process_rule_hits t) rules = None"
  using assms hits_active [of t] by (auto simp: find_None_iff list_ex_iff)

text \<open>C14: The indexed matcher answers what a search of the rules in the user's order would answer: the first
  domain rule that names the destination or a parent of it, else the first IP rule whose range contains
  the address, else the first process rule of that name, else the mode's default.\<close>

theorem routing_first_rule:
  "match_traffic (matcher_new mode rules) t =
     (case find (domain_rule_hits t) rules of Some r \<Rightarrow> by_rule RDomain r
      | None \<Rightarrow> (case find (ip_rule_hits t) rules of Some r \<Rightarrow> by_rule RIp r
      | None \<Rightarrow> (case find (process_rule_hits t) rules of Some r \<Rightarrow> by_rule RProcess r
      | None \<Rightarrow> default_match mode rules)))"
proof (cases "list_ex rule_active rules")
  case False
  then show ?thesis
    by (simp add: match_traffic_def matchDestination_first matchProcess_first unmatched_default no_rule_hits)
next
  case True
  then have "enabledRulesCount (matcher_new mode rules) \<noteq> 0" by (simp only: matcher_new_counts no_active not_not)
  then show ?thesis
    by (simp add: match_traffic_def matchDestination_first matchProcess_first unmatched_default by_rule_def split: option.split)
qed

text \<open>The documented order of the policy as a list of conditions with their outcomes.\<close>

fun first_outcome :: "(bool \<times> 'a) list \<Rightarrow> 'a \<Rightarrow> 'a" where
  "first_outcome [] otherwise = otherwise"
| "first_outcome ((c, x) # steps) otherwise = (if c then x else first_outcome steps otherwise)"

definition policy_steps ::
  "traffic_policy \<Rightarrow> routing_mode \<Rightarrow> routing_rule list \<Rightarrow> transport_protocol \<Rightarrow> traffic_descriptor \<Rightarrow> int option
   \<Rightarrow> (bool \<times> policy_decision) list" where
  "policy_steps p mode rules protocol t port =
    [(protocol = Udp \<and> \<not> tp_udpSupported p, blocked protocol UdpNotSupported),
     (isProtectedSshConnection p t port, blocked protocol ProtectedSshConnection),
     (list_ex (domain_rule_hits t) rules, decision_of protocol (by_rule RDomain (the (find (domain_rule_hits t) rules)))),
     (list_ex (ip_rule_hits t) rules, decision_of protocol (by_rule RIp (the (find (ip_rule_hits t) rules)))),
     (isLocalDestination t, blocked protocol LocalDestination),
     (list_ex (process_rule_hits t) rules, decision_of protocol (by_rule RProcess (the (find (process_rule_hits t) rules)))),
     (on_list (td_destinationDomain t) (tp_directListSuffixes p),
      decision_of protocol \<lparr>rm_shouldProxy = False, rm_reason = RDirectList, rm_ruleId = None\<rparr>),
     (mode = ProxyAll, decision_of protocol (default_match mode rules)),
     (on_list (td_destinationDomain t) (tp_proxyListSuffixes p),
      decision_of protocol \<lparr>rm_shouldProxy = True, rm_reason = RProxyList, rm_ruleId = None\<rparr>)]"

lemma list_ex_find: "list_ex P xs \<longleftrightarrow> find P xs \<noteq> None"
  by (auto simp: find_None_iff list_ex_iff)

lemma policy_matcher [simp]: "tp_matcher (policy_new mode rules options) = matcher_new mode rules"
  by (simp add: policy_new_def split: policy_argument.split)

lemma decide_steps:
  "decide (policy_new mode rules options) protocol t port =
     first_outcome (policy_steps (policy_new mode rules options) mode rules protocol t port)
       (decision_of protocol (default_match mode rules))"
proof -
  let ?p = "policy_new mode rules options"
  have d: "matchDestination (tp_matcher ?p) t = (case find (domain_rule_hits t) rules of Some r \<Rightarrow> Some (by_rule RDomain r)
      | None \<Rightarrow> map_option (by_rule RIp) (find (ip_rule_hits t) rules))"
    by (simp add: matchDestination_first by_rule_def split: option.split)
        (cases "find (ip_rule_hits t) rules"; simp add: by_rule_def)
  have q: "matchProcess (tp_matcher ?p) (td_processName t) = map_option (by_rule RProcess) (find (process_rule_hits t) rules)"
    by (cases "find (process_rule_hits t) rules") (simp_all add: matchProcess_first by_rule_def)
  have u: "unmatched (tp_matcher ?p) = default_match mode rules" "rm_shouldProxy (default_match mode rules) \<longleftrightarrow> mode = ProxyAll"
    by (simp_all add: unmatched_default default_match_def)
  show ?thesis
    unfolding decide_def policy_steps_def d q u first_outcome.simps list_ex_find
    by (cases "find (domain_rule_hits t) rules"; cases "find (ip_rule_hits t) rules"; cases "find (process_rule_hits t) rules")
      (simp_all only: option.case option.map option.sel not_False_eq_True not_True_eq_False if_True if_False option.distinct simp_thms)
qed

text \<open>C13: The policy takes the documented steps in the documented order: unsupported UDP, the protected
  endpoint, domain and IP rules, local destinations, process rules, the direct list, proxy-all, the proxy
  list, and direct for everything else; the first step that applies decides.\<close>

theorem policy_documented_order:
  "decide (policy_new mode rules options) protocol t port =
     first_outcome (policy_steps (policy_new mode rules options) mode rules protocol t port)
       (decision_of protocol (default_match mode rules))"
  by (rule decide_steps)

lemma tunnelled_cases:
  "rm_shouldProxy (decide (policy_new mode rules options) protocol t port) \<longleftrightarrow>
     (protocol = Tcp \<or> tp_udpSupported (policy_new mode rules options)) \<and>
     \<not> isProtectedSshConnection (policy_new mode rules options) t port \<and>
     (if list_ex (\<lambda>r. domain_rule_hits t r \<or> ip_rule_hits t r) rules then True
      else \<not> isLocalDestination t \<and>
        (list_ex (process_rule_hits t) rules \<or>
         \<not> on_list (td_destinationDomain t) (tp_directListSuffixes (policy_new mode rules options)) \<and>
         (mode = ProxyAll \<or> on_list (td_destinationDomain t) (tp_proxyListSuffixes (policy_new mode rules options)))))"
proof -
  have p: "protocol = Tcp \<longleftrightarrow> protocol \<noteq> Udp" by (cases protocol) simp_all
  have e: "list_ex (\<lambda>r. domain_rule_hits t r \<or> ip_rule_hits t r) rules \<longleftrightarrow>
      list_ex (domain_rule_hits t) rules \<or> list_ex (ip_rule_hits t) rules"
    by (auto simp: list_ex_iff)
  show ?thesis
    unfolding decide_steps policy_steps_def e p
    by (simp add: blocked_def decision_of_def by_rule_def default_match_def del: not_None_eq)
qed

text \<open>C15: What goes through the tunnel: traffic that is neither unsupported UDP nor to the protected endpoint,
  and that either a domain or IP rule names, or that is not local and is named by a process rule or, not
  being on the direct list, falls under proxy-all or the proxy list.  A local destination is tunnelled
  only where a domain or IP rule names it.\<close>

theorem tunnelled_exactly:
  "rm_shouldProxy (decide (policy_new mode rules options) protocol t port) \<longleftrightarrow>
     (protocol = Tcp \<or> tp_udpSupported (policy_new mode rules options)) \<and>
     \<not> isProtectedSshConnection (policy_new mode rules options) t port \<and>
     (if list_ex (\<lambda>r. domain_rule_hits t r \<or> ip_rule_hits t r) rules then True
      else \<not> isLocalDestination t \<and>
        (list_ex (process_rule_hits t) rules \<or>
         \<not> on_list (td_destinationDomain t) (tp_directListSuffixes (policy_new mode rules options)) \<and>
         (mode = ProxyAll \<or> on_list (td_destinationDomain t) (tp_proxyListSuffixes (policy_new mode rules options)))))"
  by (rule tunnelled_cases)

end
