(* ===== verification/ProcessLearning.thy ===== *)
theory ProcessLearning
  imports RoutingMeaning DomainLists
begin

text \<open>
  What process-name routing learns (\<open>src/service/process-route-learning.ts\<close>, with the range tests of
  \<open>src/core/network/windows-process-connections.ts\<close>): the remote addresses the selected applications
  were seen talking to and the names those addresses had, kept bounded, and their translation into
  rules.  A learning cycle waits for the operating system up to three times; it is a function per
  stretch between two waits, so that other cycles and \<open>clear\<close> may run in between.  A JavaScript \<open>Map\<close> is the
  list of its entries in insertion order.  Times are integers.
\<close>

section \<open>Maps in insertion order\<close>

type_synonym 'v js_map = "(jsstring \<times> 'v) list"

definition jm_delete :: "jsstring \<Rightarrow> 'v js_map \<Rightarrow> 'v js_map" where
  "jm_delete k m = filter (\<lambda>e. fst e \<noteq> k) m"

definition jm_keys :: "'v js_map \<Rightarrow> jsstring list" where
  "jm_keys m = map fst m"

definition jm_has :: "jsstring \<Rightarrow> 'v js_map \<Rightarrow> bool" where
  "jm_has k m \<longleftrightarrow> k \<in> set (jm_keys m)"

definition jm_set :: "jsstring \<Rightarrow> 'v \<Rightarrow> 'v js_map \<Rightarrow> 'v js_map" where
  "jm_set k v m = (if jm_has k m then map (\<lambda>e. if fst e = k then (k, v) else e) m else m @ [(k, v)])"

definition jm_or :: "'v js_map \<Rightarrow> jsstring \<Rightarrow> 'v \<Rightarrow> 'v" where
  "jm_or m k d = (case map_of m k of None \<Rightarrow> d | Some v \<Rightarrow> v)"

text \<open>The default order of \<open>sort()\<close>: by UTF-16 code units.\<close>

fun units_leq :: "jsstring \<Rightarrow> jsstring \<Rightarrow> bool" where
  "units_leq [] t = True"
| "units_leq (u # s) [] = False"
| "units_leq (u # s) (v # t) = (u < v \<or> (u = v \<and> units_leq s t))"

section \<open>Which addresses may be learned\<close>

definition AUTO_LEARNABLE_IPV6_RANGE :: cidr_range where
  "AUTO_LEARNABLE_IPV6_RANGE = the (parseCidrRange (js ''2000::/3''))"

definition PROCESS_ROUTE_FALLBACK_EXCLUDED_RANGES :: "cidr_range list" where
  "PROCESS_ROUTE_FALLBACK_EXCLUDED_RANGES = map (\<lambda>c. the (parseCidrRange c))
     [js ''0.0.0.0/32'', js ''127.0.0.0/8'', js ''169.254.0.0/16'', js ''::/128'', js ''::1/128'', js ''fe80::/10'']"

definition AUTO_LEARN_EXCLUDED_RANGES :: "cidr_range list" where
  "AUTO_LEARN_EXCLUDED_RANGES = map (\<lambda>c. the (parseCidrRange c))
     [js ''0.0.0.0/8'', js ''10.0.0.0/8'', js ''100.64.0.0/10'', js ''127.0.0.0/8'', js ''169.254.0.0/16'', js ''172.16.0.0/12'',
      js ''192.0.0.0/24'', js ''192.0.2.0/24'', js ''192.31.196.0/24'', js ''192.52.193.0/24'', js ''192.88.99.0/24'',
      js ''192.168.0.0/16'', js ''192.175.48.0/24'', js ''198.18.0.0/15'', js ''198.51.100.0/24'', js ''203.0.113.0/24'',
      js ''224.0.0.0/4'', js ''240.0.0.0/4'', js ''2001::/23'', js ''2001:db8::/32'', js ''2002::/16'',
      js ''2620:4f:8000::/48'', js ''3fff::/20'']"

definition canonical_parse :: "jsstring \<Rightarrow> parsed_ip option" where
  "canonical_parse address =
     (case canonicalizeIpAddress address of None \<Rightarrow> None | Some c \<Rightarrow> if c = [] then None else parseIpAddress c)"

definition isAutoLearnableRemoteAddress :: "jsstring \<Rightarrow> bool" where
  "isAutoLearnableRemoteAddress address =
     (case canonical_parse address of None \<Rightarrow> False
      | Some ip \<Rightarrow> if ip_version_of ip = V6 \<and> \<not> ipMatchesCidr ip AUTO_LEARNABLE_IPV6_RANGE then False
          else \<not> list_ex (ipMatchesCidr ip) AUTO_LEARN_EXCLUDED_RANGES)"

definition isRoutableRemoteAddress :: "jsstring \<Rightarrow> bool" where
  "isRoutableRemoteAddress address =
     (case canonical_parse address of None \<Rightarrow> False
      | Some ip \<Rightarrow> \<not> list_ex (ipMatchesCidr ip) PROCESS_ROUTE_FALLBACK_EXCLUDED_RANGES)"

definition normalizeRemoteAddress :: "jsstring \<Rightarrow> jsstring" where
  "normalizeRemoteAddress address = (case canonicalizeIpAddress address of None \<Rightarrow> [] | Some c \<Rightarrow> c)"

definition normalizeWindowsProcessName :: "jsstring \<Rightarrow> jsstring" where
  "normalizeWindowsProcessName name =
     (let normalized = js_lower (js_trim name)
      in if normalized = [] \<or> ends_with (js ''.exe'') normalized then normalized else normalized @ js ''.exe'')"

section \<open>The learner\<close>

definition PROCESS_ROUTE_TTL_MS :: int where "PROCESS_ROUTE_TTL_MS = 300000"
definition PROCESS_ROUTE_REFRESH_INTERVAL_MS :: int where "PROCESS_ROUTE_REFRESH_INTERVAL_MS = 10000"
definition PROCESS_ROUTE_DISCOVERY_DELAYS_MS :: "int list" where "PROCESS_ROUTE_DISCOVERY_DELAYS_MS = [1000, 2000, 4000, 8000]"
definition PROCESS_ROUTE_DNS_REFRESH_MS :: int where "PROCESS_ROUTE_DNS_REFRESH_MS = 300000"
definition PROCESS_ROUTE_DNS_MIN_REFRESH_MS :: int where "PROCESS_ROUTE_DNS_MIN_REFRESH_MS = 1000"
definition PROCESS_ROUTE_DNS_RETRY_BASE_MS :: int where "PROCESS_ROUTE_DNS_RETRY_BASE_MS = 10000"
definition MAX_PROCESS_ROUTE_SESSION_LEASES :: nat where "MAX_PROCESS_ROUTE_SESSION_LEASES = 256"
definition MAX_LEARNED_PROCESS_ROUTE_IPS :: int where "MAX_LEARNED_PROCESS_ROUTE_IPS = 2048"
definition MAX_LEARNED_PROCESS_ROUTE_DOMAINS :: int where "MAX_LEARNED_PROCESS_ROUTE_DOMAINS = 512"

record session_evidence =
  se_processName :: jsstring
  se_address :: jsstring
  se_domain :: jsstring
  se_firstObservedAt :: int

record process_connection =
  pc_processName :: jsstring
  pc_remoteAddress :: jsstring

text \<open>\<open>dc_ttlSeconds\<close> is \<open>None\<close> where it is not a safe integer.\<close>

record dns_cache_entry =
  dc_address :: jsstring
  dc_domain :: jsstring
  dc_ttlSeconds :: "int option"

datatype learner_warning = DnsEnrichmentFailed | MonitorFailed

record learner =
  pl_ips :: "int js_map"
  pl_domains :: "int js_map"
  pl_sessionLeases :: "session_evidence js_map"
  pl_lastSignature :: jsstring
  pl_appliedSignature :: jsstring
  pl_applyPending :: bool
  pl_lastMatchedConnections :: nat
  pl_warningEmitted :: bool
  pl_hintDomains :: "jsstring list"
  pl_dnsLookupAt :: "int js_map"
  pl_dnsLookupFailures :: "int js_map"
  pl_profileCoveredAddresses :: "int js_map"
  pl_targetSignature :: jsstring
  pl_dnsWarningEmitted :: bool
  pl_discoveryStep :: nat
  pl_warnings :: "learner_warning list"

definition learner_new :: learner where
  "learner_new = \<lparr>pl_ips = [], pl_domains = [], pl_sessionLeases = [], pl_lastSignature = [], pl_appliedSignature = [],
     pl_applyPending = False, pl_lastMatchedConnections = 0, pl_warningEmitted = False, pl_hintDomains = [],
     pl_dnsLookupAt = [], pl_dnsLookupFailures = [], pl_profileCoveredAddresses = [], pl_targetSignature = [],
     pl_dnsWarningEmitted = False, pl_discoveryStep = 0, pl_warnings = []\<rparr>"

definition beginDiscovery :: "learner \<Rightarrow> learner" where
  "beginDiscovery s = s\<lparr>pl_discoveryStep := 0\<rparr>"

definition learner_clear :: "learner \<Rightarrow> learner" where
  "learner_clear s = s\<lparr>pl_ips := [], pl_hintDomains := [], pl_domains := [], pl_dnsLookupAt := [], pl_dnsLookupFailures := [],
     pl_profileCoveredAddresses := [], pl_sessionLeases := [], pl_lastSignature := [], pl_appliedSignature := [],
     pl_targetSignature := [], pl_applyPending := False, pl_lastMatchedConnections := 0, pl_dnsWarningEmitted := False\<rparr>"

text \<open>What the platform asks for when its function is called: a number, one that is not finite, or a throw.\<close>

datatype requested_interval = RequestedInterval int | RequestedNotFinite | RequestThrows

definition learner_refreshIntervalMs :: "requested_interval \<Rightarrow> int" where
  "learner_refreshIntervalMs requested = (case requested of
       RequestedInterval n \<Rightarrow> if 1000 \<le> n then min n 600000 else PROCESS_ROUTE_REFRESH_INTERVAL_MS
     | _ \<Rightarrow> PROCESS_ROUTE_REFRESH_INTERVAL_MS)"

definition nextRefreshIntervalMs :: "requested_interval \<Rightarrow> learner \<Rightarrow> int \<times> learner" where
  "nextRefreshIntervalMs requested s =
     (if pl_discoveryStep s < length PROCESS_ROUTE_DISCOVERY_DELAYS_MS
      then (PROCESS_ROUTE_DISCOVERY_DELAYS_MS ! pl_discoveryStep s, s\<lparr>pl_discoveryStep := pl_discoveryStep s + 1\<rparr>)
      else (learner_refreshIntervalMs requested, s))"

definition learner_ttlMs :: "requested_interval \<Rightarrow> int" where
  "learner_ttlMs requested = max PROCESS_ROUTE_TTL_MS (learner_refreshIntervalMs requested * 3)"

definition lease_domains :: "session_evidence js_map \<Rightarrow> jsstring list" where
  "lease_domains leases = map (\<lambda>e. se_domain (snd e)) leases"

definition to_set :: "jsstring list \<Rightarrow> jsstring list" where
  "to_set xs = fold set_add xs []"

lemma to_set_set [simp]: "set (to_set xs) = set xs"
proof -
  have "set (fold set_add xs ys) = set ys \<union> set xs" for ys :: "jsstring list" by (induction xs arbitrary: ys) auto
  then show ?thesis by (simp add: to_set_def)
qed

definition currentIps :: "learner \<Rightarrow> jsstring list" where
  "currentIps s = jm_keys (pl_ips s)"

definition currentDomains :: "learner \<Rightarrow> jsstring list" where
  "currentDomains s = to_set (pl_hintDomains s @ jm_keys (pl_domains s) @ lease_domains (pl_sessionLeases s))"

section \<open>Bounded maps\<close>

text \<open>The loop stops at an empty key, which \<open>!oldest\<close> takes for the end of the map.\<close>

fun evict_oldest :: "int \<Rightarrow> int js_map \<Rightarrow> int js_map" where
  "evict_oldest maximum [] = []"
| "evict_oldest maximum (e # m) =
     (if int (length (e # m)) > maximum then if fst e = [] then e # m else evict_oldest maximum m else e # m)"

definition recordBoundedProcessRouteIp :: "int js_map \<Rightarrow> jsstring \<Rightarrow> int \<Rightarrow> int \<Rightarrow> int js_map" where
  "recordBoundedProcessRouteIp entries ip observedAt maximum =
     (if maximum \<le> 0 then [] else evict_oldest maximum (jm_delete ip entries @ [(ip, observedAt)]))"

definition dns_name :: "jsstring \<Rightarrow> jsstring" where
  "dns_name domain = strip_final_dot (normalizeRuleValue DomainRule domain)"

definition exact_domain :: "jsstring \<Rightarrow> bool" where
  "exact_domain d \<longleftrightarrow> \<not> starts_with (js ''*.'') d \<and> vr_ok (validateRoutingRuleValue DomainRule d)"

definition recordBoundedProcessRouteDomain :: "int js_map \<Rightarrow> jsstring \<Rightarrow> int \<Rightarrow> int \<Rightarrow> int js_map" where
  "recordBoundedProcessRouteDomain entries domain expiresAt maximum =
     (let normalized = dns_name domain
      in if \<not> exact_domain normalized then entries
         else if maximum \<le> 0 then []
         else evict_oldest maximum (jm_delete normalized entries @ [(normalized, expiresAt)]))"

section \<open>Signatures and targets\<close>

definition buildProcessRouteSignature :: "jsstring list \<Rightarrow> jsstring list \<Rightarrow> jsstring" where
  "buildProcessRouteSignature ips domains =
     js ''ips:'' @ js_join (js '','') (sort_by units_leq ips) @ js ''|domains:'' @ js_join (js '','') (sort_by units_leq domains)"

definition enabledProcessRuleNames :: "routing_rule list \<Rightarrow> jsstring list" where
  "enabledProcessRuleNames rules = to_set (filter (\<lambda>n. n \<noteq> [])
     (map (\<lambda>r. normalizeWindowsProcessName (normalizeRuleValue ProcessRule (rr_value r)))
       (filter (\<lambda>r. rr_enabled r \<and> rr_type r = ProcessRule \<and> vr_ok (validateRoutingRuleValue (rr_type r) (rr_value r))) rules)))"

definition supportsDynamicProcessRouting :: "bool \<Rightarrow> routing_mode \<Rightarrow> routing_rule list \<Rightarrow> bool" where
  "supportsDynamicProcessRouting windows mode rules \<longleftrightarrow> windows \<and> mode = SelectedRules \<and> enabledProcessRuleNames rules \<noteq> []"

text \<open>Nothing happens while the targets stay; the hints of the new ones may throw in the middle.\<close>

definition resetForTargets :: "jsstring list \<Rightarrow> (learner, domain_error, unit) op" where
  "resetForTargets processNames s =
     (let targetSignature = js_join (js '','') (sort_by units_leq processNames)
      in if targetSignature = pl_targetSignature s then (Inr (), s)
         else let s1 = s\<lparr>pl_targetSignature := targetSignature, pl_ips := [], pl_hintDomains := [], pl_domains := [], pl_dnsLookupAt := []\<rparr>
           in case processRouteDomainHints processNames of Inl e \<Rightarrow> (Inl e, s1)
              | Inr hints \<Rightarrow> (Inr (), s1\<lparr>pl_hintDomains := hints, pl_dnsLookupFailures := [],
                  pl_profileCoveredAddresses := [], pl_sessionLeases := [], pl_lastSignature := [], pl_appliedSignature := [],
                  pl_applyPending := False, pl_lastMatchedConnections := 0, pl_warningEmitted := False,
                  pl_dnsWarningEmitted := False\<rparr>))"

definition learner_commit :: "int js_map \<Rightarrow> int js_map \<Rightarrow> int js_map \<Rightarrow> session_evidence js_map \<Rightarrow> learner \<Rightarrow> bool \<times> learner" where
  "learner_commit ips domains covered leases s =
     (let signature = buildProcessRouteSignature (jm_keys ips) (pl_hintDomains s @ jm_keys domains @ lease_domains leases)
      in (signature \<noteq> pl_lastSignature s,
          s\<lparr>pl_ips := ips, pl_domains := domains, pl_profileCoveredAddresses := covered, pl_sessionLeases := leases,
            pl_lastSignature := signature\<rparr>))"

definition pruneExpired :: "requested_interval \<Rightarrow> int \<Rightarrow> learner \<Rightarrow> bool \<times> learner" where
  "pruneExpired requested now s =
     (let ips = filter (\<lambda>e. now - learner_ttlMs requested \<le> snd e) (pl_ips s);
          domains = filter (\<lambda>e. now < snd e) (pl_domains s);
          covered = filter (\<lambda>e. now < snd e) (pl_profileCoveredAddresses s);
          signature = buildProcessRouteSignature (jm_keys ips)
            (pl_hintDomains s @ jm_keys domains @ lease_domains (pl_sessionLeases s))
      in (signature \<noteq> pl_lastSignature s,
          s\<lparr>pl_ips := ips, pl_domains := domains, pl_profileCoveredAddresses := covered, pl_lastSignature := signature\<rparr>))"

section \<open>A learning cycle\<close>

text \<open>What a cycle keeps from its start, and from the stretch between the connections and the names.\<close>

record learn_targets =
  lt_rules :: "routing_rule list"
  lt_directSuffixes :: "jsstring list"
  lt_signatureBefore :: jsstring
  lt_ipsBefore :: "jsstring list"
  lt_processNames :: "jsstring list"

record learn_maps =
  lm_now :: int
  lm_ttl :: int
  lm_ips :: "int js_map"
  lm_domains :: "int js_map"
  lm_covered :: "int js_map"
  lm_leases :: "session_evidence js_map"
  lm_known :: "jsstring list"
  lm_observed :: "jsstring list"
  lm_unprofiled :: "jsstring list"
  lm_owners :: "jsstring list js_map"
  lm_addressPatterns :: "jsstring list js_map"
  lm_processPatterns :: "jsstring list js_map"
  lm_matched :: nat

datatype learn_progress =
    LearnDone bool
  | AwaitConnections learn_targets
  | AwaitPublish learn_targets learn_maps
  | AwaitNames learn_targets learn_maps "jsstring list"

definition learn_failed :: "learn_targets \<Rightarrow> requested_interval \<Rightarrow> int \<Rightarrow> learner \<Rightarrow> learn_progress \<times> learner" where
  "learn_failed t requested now s =
     (let s1 = s\<lparr>pl_lastMatchedConnections := 0,
            pl_domains := filter (\<lambda>e. \<not> isDomainCoveredByDirectDomainSuffixes (fst e) (lt_directSuffixes t)) (pl_domains s),
            pl_sessionLeases := filter (\<lambda>e. \<not> isDomainCoveredByDirectDomainSuffixes (se_domain (snd e)) (lt_directSuffixes t))
              (pl_sessionLeases s)\<rparr>;
          (changed, s2) = pruneExpired requested now s1
      in (LearnDone changed, if pl_warningEmitted s2 then s2
            else s2\<lparr>pl_warningEmitted := True, pl_warnings := pl_warnings s2 @ [MonitorFailed]\<rparr>))"

definition learn_start :: "bool \<Rightarrow> routing_rule list \<Rightarrow> jsstring list \<Rightarrow> bool \<Rightarrow> requested_interval \<Rightarrow> int \<Rightarrow> learner \<Rightarrow> learn_progress \<times> learner" where
  "learn_start windows rules directDomains stale requested now s =
     (if \<not> supportsDynamicProcessRouting windows SelectedRules rules then (LearnDone False, s)
      else if stale then (LearnDone False, s)
      else let t = \<lparr>lt_rules = rules, lt_directSuffixes = normalizeProcessRouteDirectDomains directDomains,
             lt_signatureBefore = pl_lastSignature s, lt_ipsBefore = jm_keys (pl_ips s),
             lt_processNames = enabledProcessRuleNames rules\<rparr>
        in case resetForTargets (lt_processNames t) s of
             (Inl e, s1) \<Rightarrow> learn_failed t requested now s1
           | (Inr u, s1) \<Rightarrow> (AwaitConnections t, s1))"

definition observe_connection :: "jsstring list \<Rightarrow> process_connection \<Rightarrow> learn_maps \<Rightarrow> learn_maps" where
  "observe_connection processNames c m =
     (let processName = normalizeWindowsProcessName (pc_processName c); address = pc_remoteAddress c
      in if processName \<notin> set processNames then m
         else let patterns = jm_or (lm_processPatterns m) processName [];
                  m1 = m\<lparr>lm_matched := lm_matched m + 1, lm_observed := set_add address (lm_observed m),
                    lm_ips := recordBoundedProcessRouteIp (lm_ips m) address (lm_now m) MAX_LEARNED_PROCESS_ROUTE_IPS,
                    lm_owners := jm_set address (set_add processName (jm_or (lm_owners m) address [])) (lm_owners m)\<rparr>
           in if patterns = [] then m1\<lparr>lm_unprofiled := set_add address (lm_unprofiled m1)\<rparr>
              else m1\<lparr>lm_addressPatterns := jm_set address
                  (fold set_add patterns (jm_or (lm_addressPatterns m1) address [])) (lm_addressPatterns m1)\<rparr>)"

text \<open>\<open>profilePatternsByProcess\<close>: the lookups of the hints, any of which may throw.\<close>

fun process_patterns :: "jsstring list \<Rightarrow> domain_error + jsstring list js_map" where
  "process_patterns [] = Inr []"
| "process_patterns (p # ps) =
     res_bind (processRouteDomainHints [p]) (\<lambda>hints. res_bind (process_patterns ps) (\<lambda>m. Inr ((p, hints) # m)))"

definition initial_maps :: "learn_targets \<Rightarrow> int \<Rightarrow> int \<Rightarrow> jsstring list js_map \<Rightarrow> learner \<Rightarrow> learn_maps" where
  "initial_maps t now ttl patterns s =
     (let ips = map (\<lambda>e. (fst e, now)) (filter (\<lambda>e. now - ttl \<le> snd e) (pl_ips s));
          covered = map (\<lambda>e. (fst e, now + ttl)) (filter (\<lambda>e. now < snd e) (pl_profileCoveredAddresses s))
      in \<lparr>lm_now = now, lm_ttl = ttl, lm_ips = ips,
           lm_domains = map (\<lambda>e. (fst e, now + ttl)) (filter (\<lambda>e. now < snd e \<and>
             \<not> isDomainCoveredByDirectDomainSuffixes (fst e) (lt_directSuffixes t)) (pl_domains s)),
           lm_covered = covered, lm_leases = pl_sessionLeases s,
           lm_known = to_set (jm_keys ips @ jm_keys covered @ jm_keys (pl_sessionLeases s)),
           lm_observed = [], lm_unprofiled = [], lm_owners = [], lm_addressPatterns = [], lm_processPatterns = patterns,
           lm_matched = 0\<rparr>)"

definition drop_direct_leases :: "learn_targets \<Rightarrow> learn_maps \<Rightarrow> learn_maps" where
  "drop_direct_leases t m = m\<lparr>lm_leases :=
     filter (\<lambda>e. \<not> isDomainCoveredByDirectDomainSuffixes (se_domain (snd e)) (lt_directSuffixes t)) (lm_leases m)\<rparr>"

definition reviewed_only :: "learn_maps \<Rightarrow> jsstring \<Rightarrow> bool" where
  "reviewed_only m address \<longleftrightarrow> jm_has address (lm_addressPatterns m) \<and> address \<notin> set (lm_unprofiled m)"

definition renew_covered :: "learn_maps \<Rightarrow> learn_maps" where
  "renew_covered m = fold (\<lambda>address m. if reviewed_only m address
      then m\<lparr>lm_covered := jm_set address (lm_now m + lm_ttl m) (lm_covered m), lm_ips := jm_delete address (lm_ips m)\<rparr> else m)
    (jm_keys (lm_covered m)) m"

definition observed_maps :: "learn_targets \<Rightarrow> process_connection list \<Rightarrow> int \<Rightarrow> int \<Rightarrow> jsstring list js_map \<Rightarrow> learner \<Rightarrow> learn_maps" where
  "observed_maps t connections now ttl patterns s = renew_covered (drop_direct_leases t
     (fold (observe_connection (lt_processNames t)) connections (initial_maps t now ttl patterns s)))"

definition learn_finish :: "learn_targets \<Rightarrow> learn_maps \<Rightarrow> learner \<Rightarrow> learn_progress \<times> learner" where
  "learn_finish t m s =
     (let s1 = snd (learner_commit (lm_ips m) (lm_domains m) (lm_covered m) (lm_leases m) s)
      in (LearnDone (pl_lastSignature s1 \<noteq> lt_signatureBefore t), s1))"

definition mark_lookup :: "int \<Rightarrow> jsstring \<Rightarrow> learner \<Rightarrow> learner" where
  "mark_lookup now address s =
     (let failures = min (jm_or (pl_dnsLookupFailures s) address 0 + 1) 16;
          retryDelay = min PROCESS_ROUTE_DNS_REFRESH_MS (PROCESS_ROUTE_DNS_RETRY_BASE_MS * 2 ^ nat (min (failures - 1) 5))
      in s\<lparr>pl_dnsLookupFailures := recordBoundedProcessRouteIp (pl_dnsLookupFailures s) address failures MAX_LEARNED_PROCESS_ROUTE_IPS,
           pl_dnsLookupAt := recordBoundedProcessRouteIp (pl_dnsLookupAt s) address (now + retryDelay) MAX_LEARNED_PROCESS_ROUTE_IPS\<rparr>)"

definition learn_lookup :: "learn_targets \<Rightarrow> learn_maps \<Rightarrow> learner \<Rightarrow> learn_progress \<times> learner" where
  "learn_lookup t m s =
     (let addresses = filter (\<lambda>a. case map_of (pl_dnsLookupAt s) a of None \<Rightarrow> True | Some at \<Rightarrow> at \<le> lm_now m) (lm_observed m)
      in if addresses = [] then learn_finish t m s
         else (AwaitNames t m addresses, fold (mark_lookup (lm_now m)) addresses s))"

text \<open>The connections arrive (\<open>None\<close> when the provider failed) at the time \<open>now\<close>.\<close>

definition learn_connections :: "learn_targets \<Rightarrow> bool \<Rightarrow> process_connection list option \<Rightarrow> bool \<Rightarrow> requested_interval \<Rightarrow> int \<Rightarrow>
    learner \<Rightarrow> learn_progress \<times> learner" where
  "learn_connections t publishes result stale requested now s =
     (case result of None \<Rightarrow> learn_failed t requested now s
      | Some connections \<Rightarrow>
          if stale then (LearnDone False, s)
          else case process_patterns (lt_processNames t) of Inl e \<Rightarrow> learn_failed t requested now s
            | Inr patterns \<Rightarrow>
               let m = observed_maps t connections now (learner_ttlMs requested) patterns s;
                   (changed, s1) = learner_commit (lm_ips m) (lm_domains m) (lm_covered m) (lm_leases m)
                     (s\<lparr>pl_lastMatchedConnections := lm_matched m\<rparr>);
                   ipsChanged = (length (lt_ipsBefore t) \<noteq> length (lm_ips m) \<or>
                     list_ex (\<lambda>a. \<not> jm_has a (lm_ips m)) (lt_ipsBefore t))
               in if lt_directSuffixes t = [] \<and> changed \<and> ipsChanged \<and> publishes then (AwaitPublish t m, s1)
                  else learn_lookup t m s1)"

definition learn_published :: "learn_targets \<Rightarrow> learn_maps \<Rightarrow> bool \<Rightarrow> bool \<Rightarrow> requested_interval \<Rightarrow> int \<Rightarrow> learner \<Rightarrow> learn_progress \<times> learner" where
  "learn_published t m success stale requested now s =
     (if \<not> success then learn_failed t requested now s
      else if stale then (LearnDone False, s)
      else learn_lookup t m s)"

section \<open>The names of the addresses\<close>

text \<open>\<open>validDnsEntries\<close>: one entry per address and name, with the longest time to live.\<close>

definition keep_dns_entry :: "learn_maps \<Rightarrow> dns_cache_entry \<Rightarrow> (jsstring \<times> int) js_map \<Rightarrow> (jsstring \<times> int) js_map" where
  "keep_dns_entry m e tuples =
     (let domain = dns_name (dc_domain e); key = dc_address e @ [0] @ domain
      in if dc_address e \<notin> set (lm_observed m) \<or> (case dc_ttlSeconds e of None \<Rightarrow> True | Some t \<Rightarrow> t \<le> 0) \<or> \<not> exact_domain domain
         then tuples
         else case map_of tuples key of
             Some old \<Rightarrow> if snd old < the (dc_ttlSeconds e) then jm_set key (dc_address e, the (dc_ttlSeconds e)) tuples else tuples
           | None \<Rightarrow> jm_set key (dc_address e, the (dc_ttlSeconds e)) tuples)"

record valid_entry =
  ve_address :: jsstring
  ve_domain :: jsstring
  ve_ttl :: int

definition valid_dns_entries :: "learn_maps \<Rightarrow> dns_cache_entry list \<Rightarrow> valid_entry list" where
  "valid_dns_entries m entries =
     map (\<lambda>(key, address, ttl). \<lparr>ve_address = address, ve_domain = drop (length address + 1) key, ve_ttl = ttl\<rparr>)
       (fold (keep_dns_entry m) entries [])"

definition covered_by_profile :: "learn_maps \<Rightarrow> valid_entry \<Rightarrow> bool" where
  "covered_by_profile m e = (case map_of (lm_addressPatterns m) (ve_address e) of None \<Rightarrow> False
     | Some patterns \<Rightarrow> isDomainCoveredByRoutePatterns (ve_domain e) patterns)"

definition profile_covered :: "learn_maps \<Rightarrow> valid_entry list \<Rightarrow> jsstring list" where
  "profile_covered m es = to_set (map ve_address (filter (covered_by_profile m) es))"

definition exact_domains_of :: "valid_entry list \<Rightarrow> jsstring \<Rightarrow> jsstring list" where
  "exact_domains_of es address = to_set (map ve_domain (filter (\<lambda>e. ve_address e = address) es))"

definition refresh_at :: "learn_maps \<Rightarrow> valid_entry \<Rightarrow> int" where
  "refresh_at m e = lm_now m + max PROCESS_ROUTE_DNS_MIN_REFRESH_MS
     (min (lm_ttl m) (min PROCESS_ROUTE_DNS_REFRESH_MS (ve_ttl e * 1000)))"

definition dns_refresh_times :: "learn_maps \<Rightarrow> valid_entry list \<Rightarrow> int js_map" where
  "dns_refresh_times m es = fold (\<lambda>e times. case map_of times (ve_address e) of
       None \<Rightarrow> jm_set (ve_address e) (refresh_at m e) times
     | Some at \<Rightarrow> if refresh_at m e < at then jm_set (ve_address e) (refresh_at m e) times else times) es []"

definition high_confidence :: "learn_targets \<Rightarrow> learn_maps \<Rightarrow> jsstring list \<Rightarrow> valid_entry list \<Rightarrow> jsstring \<Rightarrow> (jsstring \<times> jsstring) option" where
  "high_confidence t m covered es address =
     (case (jm_or (lm_owners m) address [], exact_domains_of es address) of
        ([processName], [domain]) \<Rightarrow>
          if processName \<noteq> [] \<and> domain \<noteq> [] \<and> jm_or (lm_processPatterns m) processName [] = [] \<and>
             \<not> (jm_has address (lm_addressPatterns m) \<or> address \<in> set covered \<or> jm_has address (lm_covered m)) \<and>
             isAutoLearnableRemoteAddress address \<and> \<not> isDomainCoveredByDirectDomainSuffixes domain (lt_directSuffixes t)
          then Some (processName, domain) else None
      | _ \<Rightarrow> None)"

definition promote_lease :: "learn_targets \<Rightarrow> jsstring list \<Rightarrow> valid_entry list \<Rightarrow> jsstring \<Rightarrow> learn_maps \<times> jsstring list \<Rightarrow> learn_maps \<times> jsstring list" where
  "promote_lease t covered es address mp =
     (case (mp, high_confidence t (fst mp) covered es address) of
        ((m, promoted), Some (processName, domain)) \<Rightarrow>
          if address \<notin> set (lm_known m) \<and> length (lm_leases m) < MAX_PROCESS_ROUTE_SESSION_LEASES
          then (m\<lparr>lm_leases := jm_set address \<lparr>se_processName = processName, se_address = address, se_domain = domain,
                 se_firstObservedAt = lm_now m\<rparr> (lm_leases m)\<rparr>, set_add address promoted)
          else (m, promoted)
      | (mp, None) \<Rightarrow> mp)"

definition learn_name :: "learn_targets \<Rightarrow> jsstring list \<Rightarrow> jsstring list \<Rightarrow> valid_entry \<Rightarrow> learn_maps \<Rightarrow> learn_maps" where
  "learn_name t stablePatterns covered e m =
     (let restricted = ((ve_address e \<in> set covered \<or> jm_has (ve_address e) (lm_covered m)) \<and> ve_address e \<notin> set (lm_unprofiled m))
      in if restricted \<and> \<not> covered_by_profile m e then m
         else if \<not> isDomainCoveredByRoutePatterns (ve_domain e) stablePatterns \<and>
                 \<not> isDomainCoveredByDirectDomainSuffixes (ve_domain e) (lt_directSuffixes t)
         then m\<lparr>lm_domains := recordBoundedProcessRouteDomain (lm_domains m) (ve_domain e) (lm_now m + lm_ttl m)
                MAX_LEARNED_PROCESS_ROUTE_DOMAINS\<rparr>
         else m)"

definition cover_address :: "jsstring \<Rightarrow> learn_maps \<Rightarrow> learn_maps" where
  "cover_address address m =
     (let m1 = m\<lparr>lm_covered := recordBoundedProcessRouteIp (lm_covered m) address (lm_now m + lm_ttl m) MAX_LEARNED_PROCESS_ROUTE_IPS\<rparr>
      in if address \<in> set (lm_unprofiled m1) then m1 else m1\<lparr>lm_ips := jm_delete address (lm_ips m1)\<rparr>)"

definition note_refresh :: "int js_map \<Rightarrow> int \<Rightarrow> jsstring \<Rightarrow> learner \<Rightarrow> learner" where
  "note_refresh refreshTimes now address s =
     s\<lparr>pl_dnsLookupAt := recordBoundedProcessRouteIp (pl_dnsLookupAt s) address
         (jm_or refreshTimes address (now + PROCESS_ROUTE_DNS_RETRY_BASE_MS)) MAX_LEARNED_PROCESS_ROUTE_IPS,
       pl_dnsLookupFailures := jm_delete address (pl_dnsLookupFailures s)\<rparr>"

definition note_promoted :: "int \<Rightarrow> jsstring \<Rightarrow> learner \<Rightarrow> learner" where
  "note_promoted now address s = s\<lparr>pl_dnsLookupAt := recordBoundedProcessRouteIp (pl_dnsLookupAt s) address
     (now + PROCESS_ROUTE_DNS_RETRY_BASE_MS) MAX_LEARNED_PROCESS_ROUTE_IPS\<rparr>"

definition configured_patterns :: "routing_rule list \<Rightarrow> jsstring list" where
  "configured_patterns rules = map (\<lambda>r. normalizeRuleValue DomainRule (rr_value r))
     (filter (\<lambda>r. rr_enabled r \<and> rr_type r = DomainRule \<and> vr_ok (validateRoutingRuleValue (rr_type r) (rr_value r))) rules)"

definition enrich :: "learn_targets \<Rightarrow> jsstring list \<Rightarrow> dns_cache_entry list \<Rightarrow> learn_maps \<Rightarrow> learner \<Rightarrow> learn_maps \<times> learner" where
  "enrich t addresses entries m s =
     (let stablePatterns = pl_hintDomains s @ configured_patterns (lt_rules t);
          es = valid_dns_entries m entries;
          named = to_set (map ve_address es);
          covered = profile_covered m es;
          refreshTimes = dns_refresh_times m es;
          (m1, promoted) = fold (promote_lease t covered es) addresses (m, []);
          m2 = fold (learn_name t stablePatterns covered) es m1;
          s1 = fold (note_refresh refreshTimes (lm_now m)) named s;
          s2 = fold (note_promoted (lm_now m)) promoted s1;
          m3 = fold cover_address covered m2
      in (m3, if named \<noteq> [] then s2\<lparr>pl_dnsWarningEmitted := False\<rparr> else s2))"

definition keep_leased :: "jsstring \<Rightarrow> learn_maps \<Rightarrow> learn_maps" where
  "keep_leased address m =
     (if jm_has address (lm_leases m) \<and> address \<in> set (lm_observed m)
      then m\<lparr>lm_ips := recordBoundedProcessRouteIp (lm_ips m) address (lm_now m) MAX_LEARNED_PROCESS_ROUTE_IPS\<rparr> else m)"

definition learn_names :: "learn_targets \<Rightarrow> learn_maps \<Rightarrow> jsstring list \<Rightarrow> dns_cache_entry list option \<Rightarrow> bool \<Rightarrow> learner \<Rightarrow> learn_progress \<times> learner" where
  "learn_names t m addresses result stale s =
     (case result of
        None \<Rightarrow> learn_finish t (fold keep_leased addresses m)
          (if pl_dnsWarningEmitted s then s
           else s\<lparr>pl_dnsWarningEmitted := True, pl_warnings := pl_warnings s @ [DnsEnrichmentFailed]\<rparr>)
      | Some entries \<Rightarrow> if stale then (LearnDone False, s)
          else let (m', s') = enrich t addresses entries m s in learn_finish t m' s')"

section \<open>Learned rules\<close>

definition LEARNED_PROCESS_IP_RULE_PREFIX :: jsstring where
  "LEARNED_PROCESS_IP_RULE_PREFIX = js ''process-ip:''"

definition buildSelectedRulesWithProcessIps :: "routing_rule list \<Rightarrow> jsstring list \<Rightarrow> jsstring list \<Rightarrow> routing_rule list" where
  "buildSelectedRulesWithProcessIps rules processIps processDomains =
     (if processIps = [] \<and> processDomains = [] then rules
      else let existingIps = map (\<lambda>r. js_lower (normalizeRuleValue IpRule (rr_value r)))
                 (filter (\<lambda>r. rr_enabled r \<and> rr_type r = IpRule) rules);
               existingDomains = map (\<lambda>r. normalizeRuleValue DomainRule (rr_value r))
                 (filter (\<lambda>r. rr_enabled r \<and> rr_type r = DomainRule) rules);
               domains = sort_by units_leq (filter (\<lambda>d. d \<notin> set existingDomains)
                 (filter (\<lambda>d. vr_ok (validateRoutingRuleValue DomainRule d) \<and> \<not> isLocalDestinationHost d)
                   (map (normalizeRuleValue DomainRule) processDomains)));
               ips = sort_by units_leq (filter (\<lambda>ip. js_lower ip \<notin> set existingIps)
                 (filter (\<lambda>ip. vr_ok (validateRoutingRuleValue IpRule ip) \<and> \<not> isLocalDestinationHost ip)
                   (map js_trim processIps)))
           in rules @
              map (\<lambda>d. \<lparr>rr_id = js ''process-domain:'' @ d, rr_type = DomainRule, rr_value = d, rr_enabled = True\<rparr>) domains @
              map (\<lambda>ip. \<lparr>rr_id = LEARNED_PROCESS_IP_RULE_PREFIX @ ip, rr_type = IpRule, rr_value = ip, rr_enabled = True\<rparr>) ips)"

end
