(* ===== verification/AddressText.thy ===== *)
theory AddressText
  imports IpPrinting Validation
begin

text \<open>
  Addresses as text: what a valid address is made of, what a printed address parses to, and the reading of
  an IPv4-mapped address as the IPv4 address in it.
\<close>

section \<open>Units\<close>

lemma ends_dot_split: "\<exists>w ws. split_on [46] (z @ [46]) = (w # ws) @ [[]]"
proof (induction z)
  case (Cons u z)
  then obtain w ws where "split_on [46] (z @ [46]) = (w # ws) @ [[]]" by blast
  then show ?case by (cases "u = 46") (auto intro: exI [of _ "[]"] exI [of _ "w # ws"])
qed simp

lemma address_units:
  assumes "isValidIpv4 x \<or> isValidIpv6 x"
  shows "js_trim x = x" "47 \<notin> set x" "91 \<notin> set x" "x \<noteq> []" "\<not> ends_with [46] x" "dotted_tail x = None" "strip_brackets x = x"
proof -
  have u: "is_hex_digit u \<or> u = 58 \<or> u = 46" if "u \<in> set x" for u
    using assms ipv4_valid_units(2) [of x u] ipv6_valid_units(2) [of x u] that by (auto simp: is_hex_digit_def)
  have "\<not> js_ws v" if "v \<in> set x" for v
    using u [OF that] by (auto simp: is_hex_digit_def is_digit_def js_ws_def)
  then show "js_trim x = x" by (blast intro: js_trim_id)
  show "47 \<notin> set x" "91 \<notin> set x" using u [of 47] u [of 91] by (auto simp: is_hex_digit_def is_digit_def)
  then show "strip_brackets x = x" by (cases x) (auto simp: strip_brackets_def starts_with_def)
  show "x \<noteq> []" using valid_ip_parses(4) [OF assms] .
  have dot: "46 \<notin> set x" if "isValidIpv6 x"
    using ipv6_valid_units(2) [OF that, of 46] by (auto simp: is_hex_digit_def is_digit_def)
  show "\<not> ends_with [46] x"
  proof
    assume "ends_with [46] x"
    then obtain z where z: "x = z @ [46]" by (auto simp: ends_with_iff)
    then have v4: "isValidIpv4 x" using assms dot by auto
    obtain w ws where "split_on [46] x = (w # ws) @ [[]]" using ends_dot_split z by blast
    then show False using v4 by (auto simp: isValidIpv4_def Let_def all_digits_def split: if_splits)
  qed
  have "58 \<notin> set x" if "isValidIpv4 x" using ipv4_valid_units(2) [OF that, of 58] by (auto simp: is_digit_def)
  then have "last_index_of 58 x = None \<or> 46 \<notin> set x" using assms dot by (auto simp: last_index_of_def)
  moreover have "46 \<notin> set x \<Longrightarrow> 46 \<notin> set (drop n x)" for n by (meson in_set_dropD)
  ultimately show "dotted_tail x = None" by (auto simp: dotted_tail_def split: option.splits)
qed

definition unmapped_ip :: "parsed_ip \<Rightarrow> parsed_ip" where
  "unmapped_ip p = (if ip_version_of p = V6 \<and> drop_bit 32 (ip_value p) = 0xffff
     then \<lparr>ip_version_of = V4, ip_value = ip_value p AND 0xffffffff\<rparr> else p)"

lemma unmapped_address:
  assumes "isValidIpv4 x \<or> isValidIpv6 x" "js_lower x = x" "parseIpAddress x = Some b"
  shows "parseIpAddressUnmapped x = Some (unmapped_ip b)"
  using address_units [OF assms(1)] assms(2,3) by (simp add: parseIpAddressUnmapped_def unmapped_ip_def)

lemma unmapped_not_mapped:
  "parseIpAddressUnmapped t = Some a \<Longrightarrow> \<not> (ip_version_of a = V6 \<and> drop_bit 32 (ip_value a) = 0xffff)"
  by (auto simp: parseIpAddressUnmapped_def Let_def split: option.splits if_splits)

section \<open>Printed addresses\<close>

definition print_ip :: "parsed_ip \<Rightarrow> jsstring" where
  "print_ip a = (case ip_version_of a of V4 \<Rightarrow> formatIpv4 (ip_value a) | V6 \<Rightarrow> formatIpv6 (ip_value a))"

lemma print_ip_parse: "ip_ok a \<Longrightarrow> parseIpAddress (print_ip a) = Some a"
  using ipv4_print_parse [of "ip_value a"] ipv6_print_parse [of "ip_value a"]
  by (cases a; cases "ip_version_of a") (simp_all add: print_ip_def ip_ok_def)

lemma print_ip_eq: "ip_ok a \<Longrightarrow> ip_ok b \<Longrightarrow> print_ip a = print_ip b \<longleftrightarrow> a = b"
  by (metis print_ip_parse option.inject)

end
