(* ===== verification/LearningSafety.thy ===== *)
theory LearningSafety
  imports ProcessLearning AddressText
begin

text \<open>
  What holds of process-name learning (\<open>ProcessLearning\<close>) however its cycles overlap: everything it keeps is
  bounded, no name of the direct list is learned, and what it learned never decides about a destination on
  the local network.
\<close>

section \<open>Cycles that overlap\<close>

text \<open>An event names the cycle it continues by its position; one that does not fit changes nothing.\<close>

datatype cycle_event =
    CycleStart bool "routing_rule list" "jsstring list" bool requested_interval int
  | CycleConnections nat bool "process_connection list option" bool requested_interval int
  | CyclePublished nat bool bool requested_interval int
  | CycleNames nat "dns_cache_entry list option" bool
  | CycleClear
  | CycleDiscovery requested_interval

type_synonym cycles = "learner \<times> learn_progress list"

definition continue_cycle :: "nat \<Rightarrow> learn_progress \<times> learner \<Rightarrow> learn_progress list \<Rightarrow> cycles" where
  "continue_cycle i r ps = (snd r, ps[i := fst r])"

fun cycle_step :: "cycle_event \<Rightarrow> cycles \<Rightarrow> cycles" where
  "cycle_step (CycleStart windows rules direct stale requested now) (s, ps) =
     (let r = learn_start windows rules direct stale requested now s in (snd r, ps @ [fst r]))"
| "cycle_step (CycleConnections i publishes result stale requested now) (s, ps) =
     (if i < length ps then case ps ! i of
        AwaitConnections t \<Rightarrow> continue_cycle i (learn_connections t publishes result stale requested now s) ps
      | _ \<Rightarrow> (s, ps) else (s, ps))"
| "cycle_step (CyclePublished i success stale requested now) (s, ps) =
     (if i < length ps then case ps ! i of
        AwaitPublish t m \<Rightarrow> continue_cycle i (learn_published t m success stale requested now s) ps
      | _ \<Rightarrow> (s, ps) else (s, ps))"
| "cycle_step (CycleNames i result stale) (s, ps) =
     (if i < length ps then case ps ! i of
        AwaitNames t m addresses \<Rightarrow> continue_cycle i (learn_names t m addresses result stale s) ps
      | _ \<Rightarrow> (s, ps) else (s, ps))"
| "cycle_step CycleClear (s, ps) = (learner_clear s, ps)"
| "cycle_step (CycleDiscovery requested) (s, ps) = (snd (nextRefreshIntervalMs requested s), ps)"

section \<open>Sizes\<close>

definition capped :: "nat \<Rightarrow> 'v js_map \<Rightarrow> bool" where
  "capped n m \<longleftrightarrow> length m \<le> n \<and> (\<forall>e \<in> set m. fst e \<noteq> [])"

lemma capped_Nil [simp]: "capped n []"
  by (simp add: capped_def)

lemma capped_filter: "capped n m \<Longrightarrow> capped n (filter P m)"
  by (auto simp: capped_def intro: le_trans [OF length_filter_le])

lemma capped_delete: "capped n m \<Longrightarrow> capped n (jm_delete k m)"
  by (simp add: jm_delete_def capped_filter)

lemma capped_retime: "capped n m \<Longrightarrow> capped n (map (\<lambda>e. (fst e, f e)) m)"
  by (auto simp: capped_def)

lemma capped_update: "capped n m \<Longrightarrow> jm_has k m \<Longrightarrow> capped n (jm_set k v m)"
  by (auto simp: capped_def jm_set_def jm_has_def jm_keys_def)

lemma capped_insert: "capped n m \<Longrightarrow> length m < n \<Longrightarrow> k \<noteq> [] \<Longrightarrow> capped n (jm_set k v m)"
  by (auto simp: capped_def jm_set_def)

lemma evict_length: "\<forall>e \<in> set m. fst e \<noteq> [] \<Longrightarrow> 0 < maximum \<Longrightarrow> capped (nat maximum) (evict_oldest maximum m)"
proof (induction m)
  case (Cons e m)
  then show ?case by (auto simp: capped_def)
qed simp

lemma capped_record: "capped n m \<Longrightarrow> ip \<noteq> [] \<Longrightarrow> capped 2048 (recordBoundedProcessRouteIp m ip at MAX_LEARNED_PROCESS_ROUTE_IPS)"
proof -
  assume "capped n m" "ip \<noteq> []"
  then have "\<forall>e \<in> set (jm_delete ip m @ [(ip, at)]). fst e \<noteq> []" by (auto simp: capped_def jm_delete_def)
  from evict_length [OF this, of MAX_LEARNED_PROCESS_ROUTE_IPS] show ?thesis
    by (simp add: recordBoundedProcessRouteIp_def MAX_LEARNED_PROCESS_ROUTE_IPS_def)
qed

lemma exact_domain_ne: "exact_domain d \<Longrightarrow> d \<noteq> []"
  by (auto simp: exact_domain_def validateRoutingRuleValue_def validateDomainPattern_def)

lemma capped_record_domain:
  "capped 512 m \<Longrightarrow> capped 512 (recordBoundedProcessRouteDomain m d at MAX_LEARNED_PROCESS_ROUTE_DOMAINS)"
proof -
  assume "capped 512 m"
  then have "exact_domain (dns_name d) \<Longrightarrow> capped 512 (evict_oldest 512 (jm_delete (dns_name d) m @ [(dns_name d, at)]))"
    using exact_domain_ne [of "dns_name d"] evict_length [of "jm_delete (dns_name d) m @ [(dns_name d, at)]" 512]
    by (auto simp: capped_def jm_delete_def)
  with \<open>capped 512 m\<close> show ?thesis
    by (simp add: recordBoundedProcessRouteDomain_def MAX_LEARNED_PROCESS_ROUTE_DOMAINS_def Let_def)
qed

section \<open>The invariant\<close>

text \<open>
  One invariant serves two properties: sizes, and that every learned name satisfies \<open>P\<close>, which has to
  hold of every name the direct list of a cycle does not cover (\<open>permits\<close>).
\<close>

definition names_in :: "(jsstring \<Rightarrow> bool) \<Rightarrow> int js_map \<Rightarrow> session_evidence js_map \<Rightarrow> bool" where
  "names_in P domains leases \<longleftrightarrow> (\<forall>e \<in> set domains. P (fst e)) \<and> (\<forall>e \<in> set leases. P (se_domain (snd e)))"

definition permits :: "(jsstring \<Rightarrow> bool) \<Rightarrow> jsstring list \<Rightarrow> bool" where
  "permits P suffixes \<longleftrightarrow> (\<forall>d. \<not> isDomainCoveredByDirectDomainSuffixes d suffixes \<longrightarrow> P d)"

definition learner_ok :: "(jsstring \<Rightarrow> bool) \<Rightarrow> learner \<Rightarrow> bool" where
  "learner_ok P s \<longleftrightarrow> capped 2048 (pl_ips s) \<and> capped 512 (pl_domains s) \<and> capped 256 (pl_sessionLeases s) \<and>
     capped 2048 (pl_profileCoveredAddresses s) \<and> capped 2048 (pl_dnsLookupAt s) \<and> capped 2048 (pl_dnsLookupFailures s) \<and>
     names_in P (pl_domains s) (pl_sessionLeases s)"

definition maps_ok :: "(jsstring \<Rightarrow> bool) \<Rightarrow> learn_maps \<Rightarrow> bool" where
  "maps_ok P m \<longleftrightarrow> capped 2048 (lm_ips m) \<and> capped 512 (lm_domains m) \<and> capped 2048 (lm_covered m) \<and>
     capped 256 (lm_leases m) \<and> [] \<notin> set (lm_observed m) \<and> names_in P (lm_domains m) (lm_leases m)"

fun progress_ok :: "(jsstring \<Rightarrow> bool) \<Rightarrow> learn_progress \<Rightarrow> bool" where
  "progress_ok P (LearnDone b) \<longleftrightarrow> True"
| "progress_ok P (AwaitConnections t) \<longleftrightarrow> permits P (lt_directSuffixes t)"
| "progress_ok P (AwaitPublish t m) \<longleftrightarrow> permits P (lt_directSuffixes t) \<and> maps_ok P m"
| "progress_ok P (AwaitNames t m addresses) \<longleftrightarrow> permits P (lt_directSuffixes t) \<and> maps_ok P m \<and> [] \<notin> set addresses"

definition step_ok :: "(jsstring \<Rightarrow> bool) \<Rightarrow> learn_progress \<times> learner \<Rightarrow> bool" where
  "step_ok P r \<longleftrightarrow> progress_ok P (fst r) \<and> learner_ok P (snd r)"

definition cycles_ok :: "(jsstring \<Rightarrow> bool) \<Rightarrow> cycles \<Rightarrow> bool" where
  "cycles_ok P c \<longleftrightarrow> learner_ok P (fst c) \<and> (\<forall>p \<in> set (snd c). progress_ok P p)"

text \<open>The provider reports no connection to an empty address, and \<open>P\<close> fits the direct list.\<close>

fun event_ok :: "(jsstring \<Rightarrow> bool) \<Rightarrow> cycle_event \<Rightarrow> bool" where
  "event_ok P (CycleConnections i publishes result stale requested now) \<longleftrightarrow>
     (case result of None \<Rightarrow> True | Some cs \<Rightarrow> list_all (\<lambda>c. pc_remoteAddress c \<noteq> []) cs)"
| "event_ok P (CycleStart windows rules direct stale requested now) \<longleftrightarrow> permits P (normalizeProcessRouteDirectDomains direct)"
| "event_ok P ev \<longleftrightarrow> True"

lemma fold_preserves: "P m \<Longrightarrow> (\<And>x m. x \<in> set xs \<Longrightarrow> P m \<Longrightarrow> P (f x m)) \<Longrightarrow> P (fold f xs m)"
  by (induction xs arbitrary: m) auto

lemma names_in_filter: "names_in P a b \<Longrightarrow> names_in P (filter Q a) (filter R b)"
  by (auto simp: names_in_def)

lemma failed_ok:
  assumes "learner_ok P s"
  shows "step_ok P (learn_failed t requested now s)"
  using assms
  by (auto simp: step_ok_def learn_failed_def pruneExpired_def Let_def learner_ok_def capped_filter names_in_def)

lemma commit_ok:
  "learner_ok P s \<Longrightarrow> maps_ok P m \<Longrightarrow>
     learner_ok P (snd (learner_commit (lm_ips m) (lm_domains m) (lm_covered m) (lm_leases m) s))"
  by (simp add: learner_commit_def Let_def learner_ok_def maps_ok_def)

lemma finish_ok: "learner_ok P s \<Longrightarrow> maps_ok P m \<Longrightarrow> step_ok P (learn_finish t m s)"
  using commit_ok [of P s m] by (simp add: step_ok_def learn_finish_def Let_def)

lemma reset_ok: "learner_ok P s \<Longrightarrow> learner_ok P (snd (resetForTargets ns s))"
  by (auto simp: resetForTargets_def Let_def learner_ok_def names_in_def split: sum.split)

lemma start_ok:
  assumes "learner_ok P s" "permits P (normalizeProcessRouteDirectDomains direct)"
  shows "step_ok P (learn_start w rules direct stale requested now s)"
proof -
  obtain r s1 where r: "resetForTargets (enabledProcessRuleNames rules) s = (r, s1)" by fastforce
  then have "learner_ok P s1" using reset_ok [OF assms(1)] by (metis snd_conv)
  then show ?thesis using assms r failed_ok [of P s1]
    by (simp add: learn_start_def Let_def step_ok_def split: sum.split)
qed

lemma observe_ok: "maps_ok P m \<Longrightarrow> pc_remoteAddress c \<noteq> [] \<Longrightarrow> maps_ok P (observe_connection ns c m)"
  by (auto simp: observe_connection_def Let_def maps_ok_def intro: capped_record)

lemma initial_ok: "learner_ok P s \<Longrightarrow> maps_ok P (initial_maps t now ttl patterns s)"
  by (auto simp: initial_maps_def Let_def learner_ok_def maps_ok_def names_in_def intro!: capped_retime capped_filter)

lemma renew_ok: "maps_ok P m \<Longrightarrow> maps_ok P (renew_covered m)"
proof -
  assume m: "maps_ok P m"
  let ?f = "\<lambda>address m. if reviewed_only m address
      then m\<lparr>lm_covered := jm_set address (lm_now m + lm_ttl m) (lm_covered m), lm_ips := jm_delete address (lm_ips m)\<rparr> else m"
  have keys: "jm_keys (jm_set k v n) = jm_keys n" if "jm_has k n" for k and v :: int and n
    using that by (induction n) (auto simp: jm_set_def jm_has_def jm_keys_def)
  have "maps_ok P (fold ?f ks m)" if "set ks \<subseteq> set (jm_keys (lm_covered m))" for ks
    using that m
  proof (induction ks arbitrary: m)
    case (Cons k ks)
    then have k: "jm_has k (lm_covered m)" by (simp add: jm_has_def)
    have "maps_ok P (?f k m)"
      using Cons.prems(2) k by (simp add: maps_ok_def capped_delete capped_update)
    moreover have "set ks \<subseteq> set (jm_keys (lm_covered (?f k m)))" using Cons.prems(1) keys [OF k] by simp
    ultimately show ?case using Cons.IH [of "?f k m"] by simp
  qed simp
  then show ?thesis by (simp add: renew_covered_def)
qed

lemma drop_direct_ok: "maps_ok P m \<Longrightarrow> maps_ok P (drop_direct_leases t m)"
  by (auto simp: drop_direct_leases_def maps_ok_def names_in_def capped_filter)

lemma mark_ok: "learner_ok P s \<Longrightarrow> a \<noteq> [] \<Longrightarrow> learner_ok P (mark_lookup now a s)"
  by (auto simp: mark_lookup_def Let_def learner_ok_def intro: capped_record)

lemma lookup_ok:
  assumes "learner_ok P s" "maps_ok P m" "permits P (lt_directSuffixes t)"
  shows "step_ok P (learn_lookup t m s)"
proof -
  define as where "as = filter (\<lambda>a. case map_of (pl_dnsLookupAt s) a of None \<Rightarrow> True | Some at \<Rightarrow> at \<le> lm_now m) (lm_observed m)"
  have "[] \<notin> set as" using assms(2) by (simp add: as_def maps_ok_def)
  moreover from this have "learner_ok P (fold (mark_lookup (lm_now m)) as s)"
    by (intro fold_preserves [where P = "learner_ok P"] assms(1) mark_ok) auto
  ultimately show ?thesis
    using finish_ok [OF assms(1,2)] assms unfolding learn_lookup_def Let_def as_def [symmetric] by (simp add: step_ok_def)
qed

lemma connections_ok:
  assumes "learner_ok P s" "permits P (lt_directSuffixes t)"
    and "case result of None \<Rightarrow> True | Some cs \<Rightarrow> list_all (\<lambda>c. pc_remoteAddress c \<noteq> []) cs"
  shows "step_ok P (learn_connections t publishes result stale requested now s)"
proof (cases "result = None \<or> stale \<or> (\<exists>e. process_patterns (lt_processNames t) = Inl e)")
  case True
  then show ?thesis using assms(1) failed_ok [OF assms(1)]
    by (auto simp: learn_connections_def step_ok_def split: option.split sum.split)
next
  case False
  then obtain cs patterns where cs: "result = Some cs" "process_patterns (lt_processNames t) = Inr patterns"
    by (metis not_None_eq obj_sumE)
  define m where "m = observed_maps t cs now (learner_ttlMs requested) patterns s"
  have "maps_ok P (fold (observe_connection (lt_processNames t)) cs (initial_maps t now (learner_ttlMs requested) patterns s))"
    using assms(3) cs(1)
    by (intro fold_preserves [where P = "maps_ok P"] initial_ok assms(1) observe_ok) (auto simp: list_all_iff)
  then have m: "maps_ok P m" by (simp add: m_def observed_maps_def renew_ok drop_direct_ok)
  obtain changed s1 where c: "learner_commit (lm_ips m) (lm_domains m) (lm_covered m) (lm_leases m)
      (s\<lparr>pl_lastMatchedConnections := lm_matched m\<rparr>) = (changed, s1)" by fastforce
  have "learner_ok P (s\<lparr>pl_lastMatchedConnections := lm_matched m\<rparr>)" using assms(1) by (simp add: learner_ok_def)
  then have s1: "learner_ok P s1" using commit_ok [OF _ m] c by (metis snd_conv)
  have "learn_connections t publishes result stale requested now s \<in> {(AwaitPublish t m, s1), learn_lookup t m s1}"
    using False cs c by (simp add: learn_connections_def Let_def flip: m_def)
  then show ?thesis
    using lookup_ok [OF s1 m assms(2)] s1 m assms(2) by (auto simp: step_ok_def)
qed

lemma published_ok:
  assumes "learner_ok P s" "maps_ok P m" "permits P (lt_directSuffixes t)"
  shows "step_ok P (learn_published t m success stale requested now s)"
  using lookup_ok [OF assms] failed_ok [OF assms(1)] assms(1) by (simp add: learn_published_def step_ok_def)

section \<open>The names\<close>

lemma domain_pattern_shape:
  assumes "vr_ok (validateRoutingRuleValue DomainRule d)"
  shows "route_name (route_name d) = route_name d \<and> route_name d = js_lower (js_trim d)"
proof -
  let ?y = "js_lower (js_trim d)"
  let ?n = "if starts_with (js ''*.'') ?y then drop 2 ?y else ?y"
  have l: "list_all domain_label (split_on (js ''.'') ?n)" and ne: "split_on (js ''.'') ?n \<noteq> []"
    using assms by (auto simp: validateRoutingRuleValue_def validateDomainPattern_def Let_def split: if_splits)
  have dot: "js ''.'' = [46]" by simp
  have units: "\<forall>u \<in> set ?n. is_alnum u \<or> u = 45 \<or> u = 46"
  proof
    fix u assume "u \<in> set ?n"
    then have "u \<in> set [46] \<union> \<Union> (set ` set (split_on [46] ?n))" using set_split_on [of ?n "[46]"] by blast
    then obtain w where "u = 46 \<or> (w \<in> set (split_on [46] ?n) \<and> u \<in> set w)" by auto
    then show "is_alnum u \<or> u = 45 \<or> u = 46"
    proof
      assume w: "w \<in> set (split_on [46] ?n) \<and> u \<in> set w"
      then have "domain_label w" using l by (simp add: dot list_all_iff)
      then obtain a b where "w = a # b" "is_alnum a" "is_alnum (last w)" "list_all (\<lambda>u. is_alnum u \<or> u = 45) (butlast b)"
        by (cases w) (auto simp: domain_label_def)
      then show ?thesis using w by (cases b rule: rev_cases) (auto simp: list_all_iff)
    qed simp
  qed
  have "set ?y \<subseteq> {42, 46} \<union> set ?n"
    by (cases ?y rule: list.exhaust; cases "tl ?y") (auto simp: starts_with_def)
  with units have y: "\<forall>u \<in> set ?y. \<not> js_ws u"
    by (auto simp: js_ws_def is_alnum_def is_alpha_def is_digit_def dest!: subsetD)
  have last: "\<not> ends_with [46] ?y"
  proof
    assume "ends_with [46] ?y"
    then obtain z where z: "?y = z @ [46]" by (auto simp: ends_with_iff)
    then obtain z' where "?n = z' @ [46]" using ne l
      by (cases "starts_with (js ''*.'') ?y"; cases z; cases "tl z") (auto simp: starts_with_def domain_label_def)
    moreover have "\<exists>w ws. split_on [46] (z' @ [46]) = (w # ws) @ [[]]" for z' :: jsstring
    proof (induction z')
      case (Cons u z')
      then obtain w ws where "split_on [46] (z' @ [46]) = (w # ws) @ [[]]" by blast
      then show ?case by (cases "u = 46") (auto intro: exI [of _ "[]"] exI [of _ "w # ws"])
    qed simp
    then have "[] \<in> set (split_on [46] (z' @ [46]))" for z' :: jsstring by (metis in_set_conv_decomp)
    ultimately show False using l by (auto simp: dot list_all_iff domain_label_def)
  qed
  then have "route_name d = ?y" by (simp add: route_name_def strip_final_dot_def)
  moreover have "js_trim ?y = ?y" using y by (rule js_trim_id)
  ultimately show ?thesis using last by (simp add: route_name_def strip_final_dot_def)
qed

lemma dns_name_route: "dns_name d = route_name d"
  by (simp add: dns_name_def route_name_def normalizeRuleValue_def)

text \<open>The name a domain is filed under is covered by the direct list exactly when the domain is.\<close>

lemma covered_filed:
  "vr_ok (validateRoutingRuleValue DomainRule d) \<Longrightarrow>
     isDomainCoveredByDirectDomainSuffixes (dns_name d) suffixes = isDomainCoveredByDirectDomainSuffixes d suffixes"
  using domain_pattern_shape [of d] unfolding isDomainCoveredByDirectDomainSuffixes_def dns_name_route by metis

lemma record_domain_names:
  assumes "names_in P m l" "P (dns_name d)"
  shows "names_in P (recordBoundedProcessRouteDomain m d at n) l"
proof -
  have evict: "set (evict_oldest n m) \<subseteq> set m" for m
    by (induction m) auto
  have "set (recordBoundedProcessRouteDomain m d at n) \<subseteq> set m \<union> {(dns_name d, at)}"
    using evict [of "jm_delete (dns_name d) m @ [(dns_name d, at)]"]
    by (auto simp: recordBoundedProcessRouteDomain_def Let_def jm_delete_def)
  with assms show ?thesis by (auto simp: names_in_def dest!: subsetD)
qed

section \<open>The second stretch\<close>

lemma valid_entry_facts:
  assumes "e \<in> set (valid_dns_entries m entries)"
  shows "ve_address e \<in> set (lm_observed m) \<and> exact_domain (ve_domain e)"
proof -
  define ok where "ok = (\<lambda>tuples :: (jsstring \<times> int) js_map. \<forall>(key, address, ttl) \<in> set tuples. address \<in> set (lm_observed m) \<and>
    (\<exists>d. key = address @ [0] @ d \<and> exact_domain d))"
  have set: "ok (jm_set k v tuples)" if "ok tuples" "fst v \<in> set (lm_observed m)" "\<exists>d. k = fst v @ [0] @ d \<and> exact_domain d" for k v tuples
    using that by (auto simp: ok_def jm_set_def)
  have "ok (fold (keep_dns_entry m) entries [])"
  proof (rule fold_preserves [where P = ok])
    show "ok []" by (simp add: ok_def)
    fix e tuples assume "ok tuples"
    then show "ok (keep_dns_entry m e tuples)"
      by (auto simp: keep_dns_entry_def Let_def intro: set split: option.splits)
  qed
  then show ?thesis using assms by (fastforce simp: valid_dns_entries_def ok_def)
qed

lemma high_confidence_direct:
  "high_confidence t m covered es address = Some (p, d) \<Longrightarrow> \<not> isDomainCoveredByDirectDomainSuffixes d (lt_directSuffixes t)"
  by (auto simp: high_confidence_def split: list.splits if_splits)

lemma names_in_lease: "names_in P a b \<Longrightarrow> P (se_domain v) \<Longrightarrow> names_in P a (jm_set k v b)"
  by (auto simp: names_in_def jm_set_def)

lemma promote_ok:
  assumes "maps_ok P (fst mp) \<and> [] \<notin> set (snd mp)" "permits P (lt_directSuffixes t)" "address \<noteq> []"
  shows "maps_ok P (fst (promote_lease t covered es address mp)) \<and> [] \<notin> set (snd (promote_lease t covered es address mp))"
proof (cases "high_confidence t (fst mp) covered es address")
  case None
  then show ?thesis using assms(1) by (cases mp) (simp add: promote_lease_def)
next
  case (Some pd)
  obtain p d m promoted where pd: "pd = (p, d)" "mp = (m, promoted)" by (cases pd; cases mp) auto
  have "P d" using high_confidence_direct [of t m covered es address p d] Some pd assms(2) by (simp add: permits_def)
  then have "maps_ok P (m\<lparr>lm_leases := jm_set address \<lparr>se_processName = p, se_address = address, se_domain = d,
      se_firstObservedAt = lm_now m\<rparr> (lm_leases m)\<rparr>)" if "length (lm_leases m) < 256"
    using assms(1,3) that pd by (auto simp: maps_ok_def capped_insert names_in_lease)
  then show ?thesis
    using Some pd assms(1,3) by (auto simp: promote_lease_def MAX_PROCESS_ROUTE_SESSION_LEASES_def)
qed

lemma learn_name_ok:
  assumes "maps_ok P m" "permits P (lt_directSuffixes t)" "exact_domain (ve_domain e)"
  shows "maps_ok P (learn_name t stablePatterns covered e m)"
proof -
  have "P (dns_name (ve_domain e))" if "\<not> isDomainCoveredByDirectDomainSuffixes (ve_domain e) (lt_directSuffixes t)"
    using that assms(2,3) covered_filed by (auto simp: permits_def exact_domain_def)
  then show ?thesis
    using assms(1) by (auto simp: learn_name_def Let_def maps_ok_def intro: capped_record_domain record_domain_names)
qed

lemma cover_ok: "maps_ok P m \<Longrightarrow> a \<noteq> [] \<Longrightarrow> maps_ok P (cover_address a m)"
  by (auto simp: cover_address_def Let_def maps_ok_def intro: capped_record capped_delete)

lemma note_ok:
  "learner_ok P s \<Longrightarrow> a \<noteq> [] \<Longrightarrow> learner_ok P (note_refresh refreshTimes now a s)"
  "learner_ok P s \<Longrightarrow> a \<noteq> [] \<Longrightarrow> learner_ok P (note_promoted now a s)"
  by (auto simp: note_refresh_def note_promoted_def learner_ok_def intro: capped_record capped_delete)

lemma keep_leased_ok: "maps_ok P m \<Longrightarrow> a \<noteq> [] \<Longrightarrow> maps_ok P (keep_leased a m)"
  by (auto simp: keep_leased_def maps_ok_def intro: capped_record)

lemma enrich_ok:
  assumes "learner_ok P s" "maps_ok P m" "permits P (lt_directSuffixes t)" "[] \<notin> set addresses"
  shows "maps_ok P (fst (enrich t addresses entries m s)) \<and> learner_ok P (snd (enrich t addresses entries m s))"
proof -
  define es covered named stablePatterns where "es = valid_dns_entries m entries" and "covered = profile_covered m es"
    and "named = to_set (map ve_address es)"
    and "stablePatterns = pl_hintDomains s @ configured_patterns (lt_rules t)"
  have es: "exact_domain (ve_domain e)" "ve_address e \<noteq> []" if "e \<in> set es" for e
    using valid_entry_facts [of e m entries] that assms(2) by (auto simp: es_def maps_ok_def)
  obtain m1 promoted where f: "fold (promote_lease t covered es) addresses (m, []) = (m1, promoted)" by fastforce
  have "maps_ok P (fst (fold (promote_lease t covered es) addresses (m, []))) \<and>
      [] \<notin> set (snd (fold (promote_lease t covered es) addresses (m, [])))"
    by (rule fold_preserves [where P = "\<lambda>mp. maps_ok P (fst mp) \<and> [] \<notin> set (snd mp)"])
       (simp_all only: assms(2) list.set empty_iff not_False_eq_True simp_thms fst_conv snd_conv, metis promote_ok assms(3,4))
  then have m1: "maps_ok P m1" "[] \<notin> set promoted" using f by simp_all
  have m2: "maps_ok P (fold (learn_name t stablePatterns covered) es m1)"
    by (rule fold_preserves [where P = "maps_ok P", OF m1(1)]) (use learn_name_ok assms(3) es(1) in auto)
  have "[] \<notin> set covered" using es(2) unfolding covered_def profile_covered_def by fastforce
  then have m3: "maps_ok P (fold cover_address covered (fold (learn_name t stablePatterns covered) es m1))"
    by (intro fold_preserves [where P = "maps_ok P", OF m2] cover_ok) auto
  have "[] \<notin> set named" using es(2) unfolding named_def by fastforce
  then have n1: "learner_ok P (fold (note_refresh (dns_refresh_times m es) (lm_now m)) named s)"
    by (intro fold_preserves [where P = "learner_ok P", OF assms(1)] note_ok(1)) auto
  define s2 where "s2 = fold (note_promoted (lm_now m)) promoted (fold (note_refresh (dns_refresh_times m es) (lm_now m)) named s)"
  have s2: "learner_ok P s2"
    using m1(2) unfolding s2_def by (intro fold_preserves [where P = "learner_ok P", OF n1] note_ok(2)) auto
  then have "learner_ok P (s2\<lparr>pl_dnsWarningEmitted := False\<rparr>)" by (simp add: learner_ok_def)
  moreover have "enrich t addresses entries m s = (fold cover_address covered (fold (learn_name t stablePatterns covered) es m1),
      if named \<noteq> [] then s2\<lparr>pl_dnsWarningEmitted := False\<rparr> else s2)"
    unfolding enrich_def Let_def es_def [symmetric] covered_def [symmetric] stablePatterns_def [symmetric] named_def [symmetric]
      f s2_def by simp
  ultimately show ?thesis using m3 s2 by simp
qed

lemma names_ok:
  assumes "learner_ok P s" "maps_ok P m" "permits P (lt_directSuffixes t)" "[] \<notin> set addresses"
  shows "step_ok P (learn_names t m addresses result stale s)"
proof (cases result)
  case None
  have "maps_ok P (fold keep_leased addresses m)"
    using assms(4) by (intro fold_preserves [where P = "maps_ok P", OF assms(2)] keep_leased_ok) auto
  moreover have "learner_ok P (s\<lparr>pl_dnsWarningEmitted := True, pl_warnings := pl_warnings s @ [DnsEnrichmentFailed]\<rparr>)"
    using assms(1) by (simp add: learner_ok_def)
  ultimately show ?thesis using None assms(1) by (simp add: learn_names_def finish_ok)
next
  case (Some entries)
  obtain m' s' where e: "enrich t addresses entries m s = (m', s')" by fastforce
  then have "maps_ok P m'" "learner_ok P s'" using enrich_ok [OF assms, of entries] by simp_all
  then show ?thesis using Some assms(1) e by (simp add: learn_names_def finish_ok step_ok_def [of P "(LearnDone False, s)"])
qed

lemma cycle_step_ok:
  assumes "cycles_ok P c" "event_ok P ev"
  shows "cycles_ok P (cycle_step ev c)"
proof -
  obtain s ps where c: "c = (s, ps)" by fastforce
  have s: "learner_ok P s" and ps: "\<And>i. i < length ps \<Longrightarrow> progress_ok P (ps ! i)" using assms(1) c by (auto simp: cycles_ok_def)
  have continue: "cycles_ok P (continue_cycle i r ps)" if "step_ok P r" for i r
    using that assms(1) c set_update_subset_insert [of ps i "fst r"]
    by (auto simp: cycles_ok_def continue_cycle_def step_ok_def)
  show ?thesis
  proof (cases ev)
    case (CycleStart w rules direct stale requested now)
    then show ?thesis using start_ok [OF s, of direct w rules stale requested now] assms c
      by (auto simp: cycles_ok_def step_ok_def Let_def)
  next
    case (CycleConnections i publishes result stale requested now)
    then show ?thesis using connections_ok [OF s] ps [of i] assms c
      by (auto intro!: continue split: learn_progress.split)
  next
    case (CyclePublished i success stale requested now)
    then show ?thesis using published_ok [OF s] ps [of i] assms c
      by (auto intro!: continue split: learn_progress.split)
  next
    case (CycleNames i result stale)
    then show ?thesis using names_ok [OF s] ps [of i] assms c
      by (auto intro!: continue split: learn_progress.split)
  next
    case CycleClear
    then show ?thesis using assms c by (simp add: cycles_ok_def learner_clear_def learner_ok_def names_in_def)
  next
    case (CycleDiscovery requested)
    then show ?thesis using assms c by (simp add: cycles_ok_def nextRefreshIntervalMs_def learner_ok_def)
  qed
qed

interpretation learning: invariant_system "\<lambda>ev c. if event_ok P ev then cycle_step ev c else c" "cycles_ok P" for P
  by unfold_locales (simp add: cycle_step_ok)

lemma valid_events_fold:
  "list_all (event_ok P) events \<Longrightarrow> fold cycle_step events c = fold (\<lambda>ev c. if event_ok P ev then cycle_step ev c else c) events c"
  by (induction events arbitrary: c) auto

lemma learner_new_ok: "cycles_ok P (learner_new, [])"
  by (simp add: cycles_ok_def learner_new_def learner_ok_def names_in_def)

lemma cycles_always: "list_all (event_ok P) events \<Longrightarrow> cycles_ok P (fold cycle_step events (learner_new, []))"
  by (simp add: valid_events_fold learning.always learner_new_ok)

text \<open>However cycles, their waits and \<open>clear\<close> interleave, what the learner keeps stays within its limits.\<close>

theorem learning_bounded:
  assumes "list_all (event_ok (\<lambda>d. True)) events"
  shows "let s = fst (fold cycle_step events (learner_new, [])) in
    length (pl_ips s) \<le> 2048 \<and> length (pl_domains s) \<le> 512 \<and> length (pl_sessionLeases s) \<le> 256 \<and>
    length (pl_profileCoveredAddresses s) \<le> 2048 \<and> length (pl_dnsLookupAt s) \<le> 2048 \<and> length (pl_dnsLookupFailures s) \<le> 2048"
  using cycles_always [OF assms] by (simp add: cycles_ok_def learner_ok_def capped_def Let_def)

text \<open>C32: While the direct list stays the same, no name it covers is ever among the learned ones, however cycles
  interleave; a name is covered also when it is filed in another spelling.\<close>

theorem direct_names_never_learned:
  assumes "list_all (event_ok (\<lambda>d. \<not> isDomainCoveredByDirectDomainSuffixes d (normalizeProcessRouteDirectDomains direct))) events"
    and "d \<in> set (currentDomains (fst (fold cycle_step events (learner_new, []))))"
    and "d \<notin> set (pl_hintDomains (fst (fold cycle_step events (learner_new, []))))"
  shows "\<not> isDomainCoveredByDirectDomains d direct"
  using cycles_always [OF assms(1)] assms(2,3)
  by (auto simp: cycles_ok_def learner_ok_def names_in_def currentDomains_def jm_keys_def lease_domains_def
      isDomainCoveredByDirectDomains_def)

section \<open>Learned rules and the local network\<close>

text \<open>An address rule names exactly its own address.\<close>

lemma address_rule_exact:
  assumes "isValidIpv4 x \<or> isValidIpv6 x" "parseIpAddress x = Some b" "ip_ok a" "parseCidrRange x = Some g"
  shows "ipMatchesCidr a g \<longleftrightarrow> a = b"
proof -
  note units = address_units [OF assms(1)]
  have g: "g = \<lparr>cr_version = ip_version_of b,
      cr_network = ip_value b AND prefixToMask (version_bits (ip_version_of b)) (version_bits (ip_version_of b)),
      cr_prefixLength = version_bits (ip_version_of b)\<rparr>"
    using assms(2,4) units split_on_absent [OF units(2)] by (cases "ip_version_of b") (simp_all add: parseCidrRange_def Let_def)
  have ok: "ip_ok b" using parseIpAddress_ok [OF assms(2)] .
  have id: "ip_value v AND prefixToMask (version_bits (ip_version_of v)) (version_bits (ip_version_of v)) = ip_value v" if "ip_ok v" for v
    using that and_prefixToMask [of "ip_value v" "version_bits (ip_version_of v)" "version_bits (ip_version_of v)"] by (simp add: ip_ok_def)
  show ?thesis
    using id [OF ok] id [OF assms(3)] by (cases a; cases b) (auto simp: ipMatchesCidr_def g)
qed

definition plain_address :: "jsstring \<Rightarrow> bool" where
  "plain_address ip \<longleftrightarrow> parseIpAddress ip \<noteq> None \<and> js_lower (js_trim ip) = js_trim ip"

lemma plain_address_valid: "plain_address ip \<Longrightarrow> isValidIpv4 (js_trim ip) \<or> isValidIpv6 (js_trim ip)"
  by (auto simp: plain_address_def parseIpAddress_def isValidIpv4_parse isValidIpv6_parse Let_def split: if_splits)

lemma learned_ip_never_local:
  assumes "plain_address ip" "x = js_trim ip" "\<not> isLocalDestinationHost x" "parseIpAddressUnmapped t = Some a" "isLocalDestinationIp t"
  shows "\<not> names_ip \<lparr>rr_id = i, rr_type = IpRule, rr_value = x, rr_enabled = True\<rparr> a"
proof
  assume n: "names_ip \<lparr>rr_id = i, rr_type = IpRule, rr_value = x, rr_enabled = True\<rparr> a"
  have x: "isValidIpv4 x \<or> isValidIpv6 x" "js_lower x = x"
    using plain_address_valid [OF assms(1)] assms(1,2) by (simp_all add: plain_address_def)
  note units = address_units [OF x(1)]
  obtain b where b: "parseIpAddress x = Some b"
    using valid_ip_parses(2) [OF x(1)] by blast
  have "ipMatchesCidr a (the (parseCidrRange x)) \<and> parseCidrRange x \<noteq> None"
    using n units(1) by (auto simp: names_ip_def ip_rule_range_def normalizeRuleValue_def split: option.splits if_splits)
  then have "a = b" using address_rule_exact [OF x(1) b parseIpAddressUnmapped_ok [OF assms(4)]] by auto
  then have "unmapped_ip b = a" using unmapped_not_mapped [OF assms(4)] by (auto simp: unmapped_ip_def)
  then have "parseIpAddressUnmapped x = Some a" using unmapped_address [OF x b] by simp
  then have "isLocalDestinationIp x" using assms(4,5) by (simp add: isLocalDestinationIp_def)
  moreover have "strip_final_dot (js_lower (strip_brackets (js_trim x))) = x"
    using units x(2) by (simp add: strip_final_dot_def)
  ultimately show False using assms(3) \<open>parseIpAddressUnmapped x = Some a\<close> units(4)
    by (simp add: isLocalDestinationHost_def)
qed

text \<open>A local name that is no address literal, as a destination.\<close>

definition local_name :: "jsstring \<Rightarrow> bool" where
  "local_name d \<longleftrightarrow> isLocalDestinationHost d \<and>
     parseIpAddressUnmapped (strip_final_dot (js_lower (strip_brackets (js_trim d)))) = None"

lemma pattern_units:
  assumes "vr_ok (validateRoutingRuleValue DomainRule p)" "p = js_lower (js_trim p)" "q = (if starts_with (js ''*.'') p then drop 2 p else p)"
  shows "list_all domain_label (split_on [46] q)" "2 \<le> length (split_on [46] q)" "46 \<in> set q" "\<not> ends_with [46] q" "\<forall>u \<in> set q. is_alnum u \<or> u = 45 \<or> u = 46"
proof -
  show l: "list_all domain_label (split_on [46] q)" "2 \<le> length (split_on [46] q)"
    using assms by (auto simp: validateRoutingRuleValue_def validateDomainPattern_def Let_def split: if_splits)
  show "46 \<in> set q" using l(2) split_on_absent [of 46 q] by (cases "46 \<in> set q") auto
  show "\<not> ends_with [46] q"
  proof
    assume "ends_with [46] q"
    then obtain z where "q = z @ [46]" by (auto simp: ends_with_iff)
    then obtain w ws where "split_on [46] q = (w # ws) @ [[]]" using ends_dot_split by blast
    then show False using l(1) by (simp add: domain_label_def)
  qed
  show "\<forall>u \<in> set q. is_alnum u \<or> u = 45 \<or> u = 46"
  proof
    fix u assume "u \<in> set q"
    then consider "u = 46" | w where "w \<in> set (split_on [46] q)" "u \<in> set w" using set_split_on [of q "[46]"] by auto
    then show "is_alnum u \<or> u = 45 \<or> u = 46"
    proof cases
      case 2
      then have "domain_label w" using l(1) by (simp add: list_all_iff)
      then have "\<forall>u \<in> set w. is_alnum u \<or> u = 45"
        by (cases w; cases "tl w" rule: rev_cases) (auto simp: domain_label_def list_all_iff)
      then show ?thesis using 2(2) by blast
    qed simp
  qed
qed

lemma suffix_of_local:
  assumes "ends_with q v" "46 \<in> set q" "ends_with (js ''.local'') v"
  shows "ends_with (js ''.local'') q"
proof -
  obtain a where a: "v = a @ q" using assms(1) unfolding ends_with_iff by blast
  obtain b where b: "v = b @ js ''.local''" using assms(3) unfolding ends_with_iff by blast
  have len: "length v = length b + 6" "length v = length a + length q" using arg_cong [OF b, of length] arg_cong [OF a, of length] by simp_all
  show ?thesis
  proof (cases "length q \<le> 5")
    case True
    then have "length b + 1 \<le> length a" using len by linarith
    then have "set (drop (length a) v) \<subseteq> set (drop (length b + 1) v)" by (rule set_drop_subset_set_drop)
    moreover have "drop (length b + 1) v = js ''local''" using b by simp
    moreover have "drop (length a) v = q" using a by simp
    ultimately show ?thesis using assms(2) by auto
  next
    case False
    then have "length a \<le> length b" using len by linarith
    then have "q = drop (length a) b @ js ''.local''" using a b by (metis append_eq_conv_conj drop_append diff_is_0_eq drop0)
    then show ?thesis unfolding ends_with_iff by blast
  qed
qed

lemma last_lower: "s \<noteq> [] \<Longrightarrow> last (js_lower s) = last (lower_unit (last s))"
  by (cases s rule: rev_cases) (auto simp: lower_unit_def)

lemma domain_no_ip:
  assumes "58 \<notin> set x" "46 \<in> set x" "111 \<in> set x" "js_lower x = x" "js_trim x = x" "strip_brackets x = x"
  shows "parseIpAddressUnmapped x = None"
proof -
  have "\<not> isValidIpv4 x" using ipv4_valid_units(2) [of x 111] assms(3) by (auto simp: is_digit_def)
  then have "parseIpAddress x = None" using assms(2,5) by (simp add: parseIpAddress_def isValidIpv4_parse)
  moreover have "dotted_tail x = None" using assms(1) by (simp add: dotted_tail_def last_index_of_def index_of_None [THEN iffD2])
  ultimately show ?thesis using assms(4-6) by (simp add: parseIpAddressUnmapped_def)
qed

lemma learned_name_never_local:
  assumes "x = normalizeRuleValue DomainRule d0" "\<not> isLocalDestinationHost x" "local_name d"
  shows "\<not> names_domain \<lparr>rr_id = i, rr_type = DomainRule, rr_value = x, rr_enabled = True\<rparr> (js_lower (js_trim d))"
proof
  let ?r = "\<lparr>rr_id = i, rr_type = DomainRule, rr_value = x, rr_enabled = True\<rparr>" and ?d = "js_lower (js_trim d)"
  assume n: "names_domain ?r ?d"
  have ok: "vr_ok (validateRoutingRuleValue DomainRule x)" using n by (auto simp: names_domain_def domain_pattern_def split: option.splits if_splits)
  have x: "js_trim x = x" "js_lower x = x" using assms(1) by (simp_all add: normalizeRuleValue_def)
  define q where "q = (if starts_with (js ''*.'') x then drop 2 x else x)"
  have xq: "ends_with q x" "set x \<subseteq> set q \<union> {42, 46}"
    by (auto simp: q_def ends_with_iff starts_with_iff intro: exI [of _ "[]"])
  note q = pattern_units [OF ok _ q_def, simplified x, OF refl]
  have "?d = q \<or> ends_with (46 # q) ?d"
    using n x ok by (auto simp: names_domain_def domain_pattern_def normalizeRuleValue_def q_def Let_def split: if_splits)
  then have e: "ends_with q ?d" by (auto simp: ends_with_iff)
  have qn: "q \<noteq> []" using q(3) by auto
  then have "last q \<in> set q" "q = butlast q @ [last q]" by simp_all
  then have ql: "last q \<noteq> 93" "last q \<noteq> 46"
    using q(4,5) by (auto simp: is_alnum_def is_alpha_def is_digit_def ends_with_iff)
  have last: "last ?d = last q" "?d \<noteq> []" using e qn by (auto simp: ends_with_iff)
  then have "js_trim d \<noteq> []" by auto
  then have "last (js_trim d) \<noteq> 93" using last(1) ql(1) last_lower [of "js_trim d"] by (auto simp: lower_unit_def)
  then have "strip_brackets (js_trim d) = js_trim d" by (auto simp: strip_brackets_def ends_with_iff)
  moreover have "strip_final_dot ?d = ?d" using last ql(2) by (auto simp: strip_final_dot_def ends_with_iff)
  moreover have "46 \<in> set ?d" using e q(3) by (auto simp: ends_with_iff)
  moreover from this have "js_includes (js ''.'') ?d" by simp
  moreover have "?d \<noteq> js ''localhost''" using \<open>46 \<in> set ?d\<close> by auto
  ultimately have "ends_with (js ''.local'') ?d"
    using assms(3) last(2) by (auto simp: local_name_def isLocalDestinationHost_def Let_def simp del: js_simps split: if_splits)
  then have "ends_with (js ''.local'') q" by (rule suffix_of_local [OF e q(3)])
  then have xl: "ends_with (js ''.local'') x" using xq(1) by (metis append.assoc ends_with_iff)
  then have tl: "last x = 108" "46 \<in> set x" "111 \<in> set x" "x \<noteq> []" by (auto simp: ends_with_iff)
  have "58 \<notin> set x" using xq(2) q(5) by (auto simp: is_alnum_def is_alpha_def is_digit_def dest!: subsetD)
  moreover have b: "strip_brackets x = x" "strip_final_dot x = x" using tl(1) by (auto simp: strip_brackets_def strip_final_dot_def ends_with_iff)
  ultimately have "parseIpAddressUnmapped x = None" using tl x by (intro domain_no_ip)
  then have "isLocalDestinationHost x" using xl x b tl(4) by (simp add: isLocalDestinationHost_def)
  then show False using assms(2) by simp
qed

text \<open>A destination on the local network: an address without a name, or a local name without an address.\<close>

definition local_target :: "traffic_descriptor \<Rightarrow> bool" where
  "local_target t \<longleftrightarrow> (case (td_destinationDomain t, td_destinationIp t) of
       (None, Some ip) \<Rightarrow> isLocalDestinationIp ip
     | (Some d, None) \<Rightarrow> local_name d
     | _ \<Rightarrow> False)"

lemma learned_rules_shape:
  assumes "r \<in> set (buildSelectedRulesWithProcessIps rules ips domains)" "r \<notin> set rules"
  shows "(\<exists>d0 \<in> set domains. r = \<lparr>rr_id = js ''process-domain:'' @ normalizeRuleValue DomainRule d0, rr_type = DomainRule,
      rr_value = normalizeRuleValue DomainRule d0, rr_enabled = True\<rparr> \<and> \<not> isLocalDestinationHost (normalizeRuleValue DomainRule d0)) \<or>
    (\<exists>ip \<in> set ips. r = \<lparr>rr_id = LEARNED_PROCESS_IP_RULE_PREFIX @ js_trim ip, rr_type = IpRule, rr_value = js_trim ip,
      rr_enabled = True\<rparr> \<and> \<not> isLocalDestinationHost (js_trim ip))"
  using assms by (auto simp: buildSelectedRulesWithProcessIps_def Let_def simp del: js_simps split: if_splits)

lemma learned_rules_prefix: "\<exists>more. buildSelectedRulesWithProcessIps rules ips domains = rules @ more"
  by (simp add: buildSelectedRulesWithProcessIps_def Let_def)

lemma find_append_none: "(\<And>x. x \<in> set ys \<Longrightarrow> \<not> Q x) \<Longrightarrow> find Q (xs @ ys) = find Q xs"
  by (induction xs) (auto simp: find_None_iff)

lemma learned_rule_misses:
  assumes "local_target t" "list_all plain_address ips"
    and "r \<in> set (buildSelectedRulesWithProcessIps rules ips domains)" "r \<notin> set rules"
  shows "\<not> domain_rule_hits t r \<and> \<not> ip_rule_hits t r"
proof (cases "td_destinationDomain t")
  case None
  then obtain a where a: "td_destinationIp t = Some a" "isLocalDestinationIp a"
    using assms(1) by (auto simp: local_target_def split: option.splits)
  then obtain ip where a_ip: "parseIpAddressUnmapped a = Some ip" by (auto simp: isLocalDestinationIp_def split: option.splits)
  then have "traffic_ip t = Some ip" using a(1) by (cases a) (auto simp: traffic_ip_def parseIpAddressUnmapped_def parseIpAddress_def dotted_tail_def last_index_of_def strip_brackets_def starts_with_def parseIpv4_def)
  note ip = this a_ip
  have "\<not> names_ip r ip"
    using learned_rules_shape [OF assms(3,4)]
  proof (elim disjE bexE conjE)
    fix x assume x: "x \<in> set ips" "\<not> isLocalDestinationHost (js_trim x)"
      "r = \<lparr>rr_id = LEARNED_PROCESS_IP_RULE_PREFIX @ js_trim x, rr_type = IpRule, rr_value = js_trim x, rr_enabled = True\<rparr>"
    then show ?thesis using learned_ip_never_local [OF _ refl x(2) ip(2) a(2)] assms(2) by (simp add: list_all_iff)
  qed (simp add: names_ip_def ip_rule_range_def)
  then show ?thesis using None ip(1) by (simp add: domain_rule_hits_def ip_rule_hits_def traffic_domain_def)
next
  case (Some d)
  then have d: "local_name d" "td_destinationIp t = None"
    using assms(1) by (auto simp: local_target_def split: option.splits)
  have "\<not> names_domain r (js_lower (js_trim d))"
    using learned_rules_shape [OF assms(3,4)]
  proof (elim disjE bexE conjE)
    fix d0 assume x: "\<not> isLocalDestinationHost (normalizeRuleValue DomainRule d0)"
      "r = \<lparr>rr_id = js ''process-domain:'' @ normalizeRuleValue DomainRule d0, rr_type = DomainRule,
        rr_value = normalizeRuleValue DomainRule d0, rr_enabled = True\<rparr>"
    then show ?thesis using learned_name_never_local [OF refl x(1) d(1)] by (simp del: js_simps)
  qed (simp add: names_domain_def domain_pattern_def)
  then show ?thesis using Some d(2) by (simp add: domain_rule_hits_def ip_rule_hits_def traffic_domain_def traffic_ip_def)
qed

text \<open>C31: Rules made of what was learned never decide about a destination on the local network: with them, the
  user's rules answer for it as they would alone.\<close>

theorem learned_rules_spare_local:
  assumes "local_target t" and "list_all plain_address ips"
  shows "matchDestination (matcher_new mode (buildSelectedRulesWithProcessIps rules ips domains)) t =
    matchDestination (matcher_new mode rules) t"
proof -
  obtain added where added: "buildSelectedRulesWithProcessIps rules ips domains = rules @ added"
    using learned_rules_prefix by blast
  have find: "find Q (rules @ added) = find Q rules" if "\<And>r. r \<in> set added \<Longrightarrow> r \<notin> set rules \<Longrightarrow> \<not> Q r" for Q
  proof (cases "find Q rules")
    case None
    then have "\<not> Q r" if "r \<in> set added" for r using that \<open>\<And>r. r \<in> set added \<Longrightarrow> r \<notin> set rules \<Longrightarrow> \<not> Q r\<close>
      by (auto simp: find_None_iff)
    then show ?thesis by (rule find_append_none)
  next
    case (Some r)
    then show ?thesis by (induction rules) (auto split: if_splits)
  qed
  have "\<not> domain_rule_hits t r \<and> \<not> ip_rule_hits t r" if "r \<in> set added" "r \<notin> set rules" for r
    using learned_rule_misses [OF assms, of r rules domains] that by (simp add: added)
  then have "find (domain_rule_hits t) (rules @ added) = find (domain_rule_hits t) rules"
    "find (ip_rule_hits t) (rules @ added) = find (ip_rule_hits t) rules"
    by (blast intro: find)+
  then show ?thesis by (simp only: matchDestination_first added)
qed

section \<open>A cycle followed through\<close>

definition learning_example_rules :: "routing_rule list" where
  "learning_example_rules = [\<lparr>rr_id = [1], rr_type = ProcessRule, rr_value = js ''a'', rr_enabled = True\<rparr>]"

definition learning_example_cycle :: "cycle_event list" where
  "learning_example_cycle = [CycleStart True learning_example_rules [js ''x.ru''] False RequestThrows 0,
     CycleConnections 0 False (Some [\<lparr>pc_processName = js ''a.exe'', pc_remoteAddress = js ''8.8.8.8''\<rparr>]) False RequestThrows 5,
     CycleNames 0 (Some [\<lparr>dc_address = js ''8.8.8.8'', dc_domain = js ''a.com'', dc_ttlSeconds = Some 60\<rparr>,
       \<lparr>dc_address = js ''8.8.8.8'', dc_domain = js ''x.ru'', dc_ttlSeconds = Some 60\<rparr>]) False]"

lemmas rule_value_evals = js_trim_def js_trim_start_def js_trim_end_def js_ws_def lower_unit_def starts_with_def ends_with_def
  validateRoutingRuleValue_def validateProcessName_def validateDomainPattern_def normalizeRuleValue_def process_char_def is_alnum_def is_alpha_def
  is_digit_def domain_label_def strip_final_dot_def

lemma learning_example_targets:
  "enabledProcessRuleNames learning_example_rules = [js ''a.exe'']" "processRouteDomainHints [js ''a.exe''] = Inr []"
  "normalizeProcessRouteDirectDomains [js ''x.ru''] = [js ''x.ru'']" "configured_patterns learning_example_rules = []"
  by (simp_all add: enabledProcessRuleNames_def learning_example_rules_def rule_value_evals normalizeWindowsProcessName_def to_set_def set_add_def
     processRouteDomainHints_def PROCESS_ROUTE_DOMAIN_HINTS_def normalizeProcessRouteDirectDomains_def normalizeProxyDomain_def
     MAX_DOMAIN_LENGTH_def list_domain_label_def alnum_iu_def alpha_iu_def configured_patterns_def)

lemma learning_example_names:
  "dns_name (js ''a.com'') = js ''a.com''" "dns_name (js ''x.ru'') = js ''x.ru''" "exact_domain (js ''a.com'')" "exact_domain (js ''x.ru'')"
  "isDomainCoveredByDirectDomainSuffixes (js ''x.ru'') [js ''x.ru'']" "\<not> isDomainCoveredByDirectDomainSuffixes (js ''a.com'') [js ''x.ru'']"
  by (simp_all add: dns_name_def rule_value_evals exact_domain_def isDomainCoveredByDirectDomainSuffixes_def route_name_def suffix_walk.simps)

definition learning_example_t :: learn_targets where
  "learning_example_t = \<lparr>lt_rules = learning_example_rules, lt_directSuffixes = [js ''x.ru''],
             lt_signatureBefore = [], lt_ipsBefore = [],
             lt_processNames = [js ''a.exe'']\<rparr>"

lemma learning_example_s1: "\<exists>sig. cycle_step (learning_example_cycle ! 0) (learner_new, []) = (learner_new\<lparr>pl_targetSignature := sig\<rparr>, [AwaitConnections learning_example_t])"
  by (simp add: learning_example_cycle_def learn_start_def supportsDynamicProcessRouting_def learning_example_targets resetForTargets_def
      sort_by_def learner_new_def jm_keys_def learning_example_t_def Let_def del: js_simps)

definition learning_example_m :: learn_maps where
  "learning_example_m = \<lparr>lm_now = 5, lm_ttl = 300000, lm_ips = [(js ''8.8.8.8'', 5)], lm_domains = [], lm_covered = [], lm_leases = [],
   lm_known = [], lm_observed = [js ''8.8.8.8''], lm_unprofiled = [js ''8.8.8.8''], lm_owners = [(js ''8.8.8.8'', [js ''a.exe''])],
   lm_addressPatterns = [], lm_processPatterns = [(js ''a.exe'', [])], lm_matched = 1\<rparr>"

lemma learning_example_observed:
  "pl_ips s = [] \<Longrightarrow> pl_domains s = [] \<Longrightarrow> pl_sessionLeases s = [] \<Longrightarrow> pl_profileCoveredAddresses s = [] \<Longrightarrow>
  observed_maps learning_example_t [\<lparr>pc_processName = js ''a.exe'', pc_remoteAddress = js ''8.8.8.8''\<rparr>] 5 300000 [(js ''a.exe'', [])] s = learning_example_m"
  by (simp add: observed_maps_def initial_maps_def observe_connection_def learning_example_t_def learning_example_m_def renew_covered_def drop_direct_leases_def jm_keys_def Let_def
    normalizeWindowsProcessName_def rule_value_evals to_set_def set_add_def jm_or_def jm_set_def jm_has_def recordBoundedProcessRouteIp_def jm_delete_def
    MAX_LEARNED_PROCESS_ROUTE_IPS_def)

lemma learning_example_ttl: "learner_ttlMs RequestThrows = 300000"
  by (simp add: learner_ttlMs_def learner_refreshIntervalMs_def PROCESS_ROUTE_TTL_MS_def PROCESS_ROUTE_REFRESH_INTERVAL_MS_def)

lemma learning_example_s2:
  "pl_ips s = [] \<Longrightarrow> pl_domains s = [] \<Longrightarrow> pl_sessionLeases s = [] \<Longrightarrow> pl_profileCoveredAddresses s = [] \<Longrightarrow> pl_dnsLookupAt s = [] \<Longrightarrow> pl_hintDomains s = [] \<Longrightarrow>
   \<exists>s'. cycle_step (learning_example_cycle ! 1) (s, [AwaitConnections learning_example_t]) = (s', [AwaitNames learning_example_t learning_example_m [js ''8.8.8.8'']]) \<and> pl_hintDomains s' = []"
  using learning_example_observed [of s]
  by (simp add: learning_example_cycle_def learn_connections_def learning_example_t_def [THEN arg_cong, of lt_processNames] learning_example_t_def [THEN arg_cong, of lt_directSuffixes]
     learning_example_targets learning_example_ttl Let_def learner_commit_def learn_lookup_def learning_example_m_def [THEN arg_cong, of lm_observed] mark_lookup_def continue_cycle_def del: js_simps)

lemma learning_example_valid: "valid_dns_entries learning_example_m [\<lparr>dc_address = js ''8.8.8.8'', dc_domain = js ''a.com'', dc_ttlSeconds = Some 60\<rparr>,
       \<lparr>dc_address = js ''8.8.8.8'', dc_domain = js ''x.ru'', dc_ttlSeconds = Some 60\<rparr>] =
     [\<lparr>ve_address = js ''8.8.8.8'', ve_domain = js ''a.com'', ve_ttl = 60\<rparr>, \<lparr>ve_address = js ''8.8.8.8'', ve_domain = js ''x.ru'', ve_ttl = 60\<rparr>]"
  using learning_example_names
  by (simp add: valid_dns_entries_def keep_dns_entry_def learning_example_m_def jm_set_def jm_has_def jm_keys_def)

abbreviation learning_example_entries :: "dns_cache_entry list" where
  "learning_example_entries \<equiv> [\<lparr>dc_address = js ''8.8.8.8'', dc_domain = js ''a.com'', dc_ttlSeconds = Some 60\<rparr>,
       \<lparr>dc_address = js ''8.8.8.8'', dc_domain = js ''x.ru'', dc_ttlSeconds = Some 60\<rparr>]"

lemma hints_kept: "pl_hintDomains (fold (note_refresh r n) as s) = pl_hintDomains s" "pl_hintDomains (fold (note_promoted n) as s) = pl_hintDomains s"
  by (induction as arbitrary: s) (simp_all add: note_refresh_def note_promoted_def)

lemma learning_example_enrich:
  assumes "pl_hintDomains s = []"
  shows "\<exists>m' s'. enrich learning_example_t [js ''8.8.8.8''] learning_example_entries learning_example_m s = (m', s') \<and> js ''a.com'' \<in> set (jm_keys (lm_domains m')) \<and> pl_hintDomains s' = []"
proof -
  note [simp del] = js_simps
  have c: "profile_covered learning_example_m (valid_dns_entries learning_example_m learning_example_entries) = []"
    unfolding learning_example_valid by (simp add: profile_covered_def covered_by_profile_def learning_example_m_def to_set_def)
  have p: "promote_lease learning_example_t [] (valid_dns_entries learning_example_m learning_example_entries) (js ''8.8.8.8'') (learning_example_m, []) = (learning_example_m, [])"
    unfolding learning_example_valid by (simp add: promote_lease_def high_confidence_def exact_domains_of_def to_set_def set_add_def split: list.splits)
  have l: "js ''a.com'' \<in> set (jm_keys (lm_domains (fold (learn_name learning_example_t [] []) (valid_dns_entries learning_example_m learning_example_entries) learning_example_m)))"
    unfolding learning_example_valid using learning_example_names
    by (simp add: learn_name_def learning_example_m_def learning_example_t_def isDomainCoveredByRoutePatterns_def recordBoundedProcessRouteDomain_def Let_def jm_delete_def jm_keys_def MAX_LEARNED_PROCESS_ROUTE_DOMAINS_def jm_has_def)
  show ?thesis using assms p l
    by (simp add: hints_kept enrich_def Let_def c learning_example_targets learning_example_t_def [THEN arg_cong, of lt_rules])
qed

lemma learning_example_s3: "pl_hintDomains s = [] \<Longrightarrow> let f = fst (cycle_step (learning_example_cycle ! 2) (s, [AwaitNames learning_example_t learning_example_m [js ''8.8.8.8'']])) in js ''a.com'' \<in> set (currentDomains f) \<and> pl_hintDomains f = []"
  using learning_example_enrich [of s]
  by (auto simp: learning_example_cycle_def learn_names_def learn_finish_def learner_commit_def continue_cycle_def currentDomains_def Let_def simp del: js_simps)

lemma learning_example_run: "let f = fst (fold cycle_step learning_example_cycle (learner_new, [])) in js ''a.com'' \<in> set (currentDomains f) \<and> pl_hintDomains f = []"
proof -
  obtain sig where 1: "cycle_step (learning_example_cycle ! 0) (learner_new, []) = (learner_new\<lparr>pl_targetSignature := sig\<rparr>, [AwaitConnections learning_example_t])"
    using learning_example_s1 by blast
  obtain s' where "cycle_step (learning_example_cycle ! 1) (learner_new\<lparr>pl_targetSignature := sig\<rparr>, [AwaitConnections learning_example_t]) = (s', [AwaitNames learning_example_t learning_example_m [js ''8.8.8.8'']]) \<and> pl_hintDomains s' = []"
    using learning_example_s2 [of "learner_new\<lparr>pl_targetSignature := sig\<rparr>"] by (auto simp: learner_new_def)
  moreover have "learning_example_cycle = [learning_example_cycle ! 0, learning_example_cycle ! 1, learning_example_cycle ! 2]" by (simp add: learning_example_cycle_def)
  ultimately show ?thesis using 1 learning_example_s3 [of s'] by (metis fold_simps)
qed

theorem direct_names_never_learned_witness:
  "\<not> isDomainCoveredByDirectDomains (js ''a.com'') [js ''x.ru'']"
proof (rule direct_names_never_learned [of _ learning_example_cycle])
  show "list_all (event_ok (\<lambda>d. \<not> isDomainCoveredByDirectDomainSuffixes d (normalizeProcessRouteDirectDomains [js ''x.ru'']))) learning_example_cycle"
    by (simp add: learning_example_cycle_def permits_def)
qed (use learning_example_run in \<open>simp_all add: Let_def del: js_simps\<close>)

theorem learning_bounded_witness:
  "let s = fst (fold cycle_step learning_example_cycle (learner_new, [])) in
     js ''a.com'' \<in> set (currentDomains s) \<and> length (pl_domains s) \<le> 512"
proof -
  have "list_all (event_ok (\<lambda>d. True)) learning_example_cycle"
    by (simp add: learning_example_cycle_def permits_def)
  from learning_bounded [OF this] show ?thesis using learning_example_run by (simp add: Let_def del: js_simps)
qed

theorem learned_rules_spare_local_witness:
  "matchDestination (matcher_new SelectedRules (buildSelectedRulesWithProcessIps [] [js ''8.8.8.8''] [js ''a.com'']))
     \<lparr>td_destinationDomain = Some (js ''tv.local''), td_destinationIp = None, td_processName = None\<rparr> =
   matchDestination (matcher_new SelectedRules []) \<lparr>td_destinationDomain = Some (js ''tv.local''), td_destinationIp = None, td_processName = None\<rparr>"
proof (rule learned_rules_spare_local)
  show "local_target \<lparr>td_destinationDomain = Some (js ''tv.local''), td_destinationIp = None, td_processName = None\<rparr>"
    by (simp add: local_target_def local_name_def isLocalDestinationHost_def rule_value_evals strip_brackets_def
       parseIpAddressUnmapped_def parseIpAddress_def dotted_tail_def last_index_of_def all_digits_def parseIpv4_def)
  have "isValidIpv4 (js ''8.8.8.8'')"
    by (simp add: isValidIpv4_def all_digits_def is_digit_def radix_value_def digit_val_def)
  from valid_ip_parses(2) [OF disjI1 [OF this]] show "list_all plain_address [js ''8.8.8.8'']"
    by (simp add: plain_address_def rule_value_evals)
qed

end
