(* ===== verification/ProxyPac.thy ===== *)
theory ProxyPac
  imports RoutingMeaning ProcessLearning
begin

text \<open>
  The proxy auto-configuration of \<open>src/core/network/windows-system-proxy.ts\<close>: \<open>buildProxyPac\<close> writes a
  program in JavaScript that Windows and the browsers run.  Its text is a fixed list of functions around
  values computed from the rules; here \<open>buildProxyPac\<close> computes those values (the variables and the
  conditions it inserts) and the functions of the text are definitions over them.  The functions a
  browser offers to a PAC (\<open>dnsResolve\<close>, \<open>isInNetEx\<close>, \dots) are a record of parameters.
\<close>

section \<open>Values\<close>

datatype proxy_protocol = MixedProxy | HttpProxyOnly | SocksProxy

text \<open>\<open>s.replace(/^\[|\]$/gu, "")\<close>, and the same as two replacements one after the other.\<close>

definition strip_bracket_ends :: "jsstring \<Rightarrow> jsstring" where
  "strip_bracket_ends s =
     (let s1 = (if starts_with (js ''['') s then drop 1 s else s)
      in if ends_with (js '']'') s1 then butlast s1 else s1)"

definition formatProxyEndpoint :: "jsstring \<Rightarrow> int \<Rightarrow> jsstring" where
  "formatProxyEndpoint host port =
     (let normalizedHost = strip_bracket_ends (js_trim host)
      in (if js_includes (js '':'') normalizedHost then js ''['' @ normalizedHost @ js '']'' else normalizedHost) @ js '':'' @ dec port)"

definition buildPacProxyReturn :: "jsstring \<Rightarrow> int \<Rightarrow> proxy_protocol \<Rightarrow> jsstring" where
  "buildPacProxyReturn host port proxyProtocol =
     (let endpoint = formatProxyEndpoint host port
      in if proxyProtocol = SocksProxy then js ''SOCKS5 '' @ endpoint else js ''PROXY '' @ endpoint)"

definition normalizeProxyDomains :: "jsstring list option \<Rightarrow> jsstring list" where
  "normalizeProxyDomains domains =
     (case domains of None \<Rightarrow> [] | Some ds \<Rightarrow> to_set (List.map_filter normalizeProxyDomain ds))"

text \<open>\<open>domain.replace(/^\*?\./u, "")\<close>.\<close>

definition normalizeSuffixDomain :: "jsstring \<Rightarrow> jsstring" where
  "normalizeSuffixDomain domain =
     (if starts_with (js ''*.'') domain then drop 2 domain
      else if starts_with (js ''.'') domain then drop 1 domain else domain)"

definition normalizeDomainRule :: "jsstring \<Rightarrow> jsstring" where
  "normalizeDomainRule value = js_lower (js_trim value)"

text \<open>The keys of the object literal: the domains that are not empty, each once.\<close>

definition domainLookupLiteral :: "jsstring list \<Rightarrow> jsstring list" where
  "domainLookupLiteral domains = to_set (filter (\<lambda>d. d \<noteq> []) domains)"

definition ipv4BigIntToDotted :: "int \<Rightarrow> jsstring" where
  "ipv4BigIntToDotted v = js_join (js ''.'') (map (\<lambda>shift. dec (drop_bit shift v AND 0xff)) [24, 16, 8, 0])"

definition ipv6BigIntToString :: "int \<Rightarrow> jsstring" where
  "ipv6BigIntToString v =
     (let groups = map (\<lambda>index. hex (drop_bit ((7 - index) * 16) v AND 0xffff)) [0..<8];
          (bestStart, bestLength) = best_run groups 0 (-1) 0
      in if bestStart < 0 then js_join (js '':'') groups
         else js_join (js '':'') (take (nat bestStart) groups) @ js ''::'' @
              js_join (js '':'') (drop (nat bestStart + bestLength) groups))"

text \<open>The mask of a prefix length as a dotted address, computed on 32-bit integers.\<close>

definition dotted_mask :: "int \<Rightarrow> jsstring" where
  "dotted_mask prefixLength =
     (if prefixLength < 0 \<or> 32 < prefixLength then js ''255.255.255.255''
      else let mask = (if prefixLength = 0 then 0 else push_bit (nat (32 - prefixLength)) (-1 :: 32 word))
           in js_join (js ''.'') (map (\<lambda>shift. dec (uint (drop_bit shift mask AND 0xff))) [24, 16, 8, 0]))"

datatype pac_check =
    NetCheck jsstring jsstring jsstring  \<comment> \<open>\<open>isInNet(resolvedHost, network, mask) || resolvedIsInNetEx(resolvedHosts, range)\<close>\<close>
  | RangeCheck jsstring                  \<comment> \<open>\<open>resolvedIsInNetEx(resolvedHosts, range)\<close>\<close>

definition buildIpChecks :: "jsstring \<Rightarrow> pac_check list" where
  "buildIpChecks rule =
     (case parseCidrRange rule of
        None \<Rightarrow> []
      | Some r \<Rightarrow>
          if cr_version r = V4 then
            (let networkIp = ipv4BigIntToDotted (cr_network r)
             in if cr_prefixLength r = 32 then []
                else [NetCheck networkIp (dotted_mask (cr_prefixLength r)) (networkIp @ js ''/'' @ dec (cr_prefixLength r))])
          else [RangeCheck (ipv6BigIntToString (cr_network r) @ js ''/'' @ dec (cr_prefixLength r))])"

record pac_ip_rule =
  pi_range :: cidr_range
  pi_rule :: jsstring
  pi_learned :: bool

definition pac_ip_rules :: "routing_rule list \<Rightarrow> pac_ip_rule list" where
  "pac_ip_rules validRules = List.map_filter (\<lambda>rule.
     if rr_type rule \<noteq> IpRule then None
     else map_option (\<lambda>g. \<lparr>pi_range = g, pi_rule = js_trim (rr_value rule),
            pi_learned = starts_with LEARNED_PROCESS_IP_RULE_PREFIX (rr_id rule)\<rparr>) (parseCidrRange (js_trim (rr_value rule)))) validRules"

definition exact_range :: "cidr_range \<Rightarrow> bool" where
  "exact_range g \<longleftrightarrow> cr_prefixLength g = (if cr_version g = V4 then 32 else 128)"

definition exact_address :: "cidr_range \<Rightarrow> jsstring" where
  "exact_address g = (if cr_version g = V4 then ipv4BigIntToDotted (cr_network g) else ipv6BigIntToString (cr_network g))"

record pac =
  pac_proxy :: jsstring
  pac_mode :: routing_mode
  pac_directDomains :: "jsstring list"
  pac_proxyListDomains :: "jsstring list"
  pac_proxyRuleDomains :: "jsstring list"
  pac_proxyWildcardDomains :: "jsstring list"
  pac_proxyExactIps :: "jsstring list"
  pac_proxyResolvedExactIps :: "jsstring list"
  pac_learnedResolvedExactIps :: "jsstring list"
  pac_ipChecks :: "pac_check list"
  pac_learnedIpChecks :: "pac_check list"
  pac_resolvesHosts :: bool
  pac_needsIpv4Dns :: bool

record pac_options =
  px_proxyDomains :: "jsstring list option"
  px_directDomains :: "jsstring list option"
  px_mode :: "routing_mode option"

definition buildProxyPac :: "routing_rule list \<Rightarrow> jsstring \<Rightarrow> int \<Rightarrow> proxy_protocol \<Rightarrow> pac_options \<Rightarrow> pac" where
  "buildProxyPac rules socksHost socksPort proxyProtocol options =
     (let validRules = filter (\<lambda>r. rr_enabled r \<and> vr_ok (validateRoutingRuleValue (rr_type r) (rr_value r))) rules;
          domainRules = map (\<lambda>r. normalizeDomainRule (rr_value r)) (filter (\<lambda>r. rr_type r = DomainRule) validRules);
          directListDomains = map normalizeSuffixDomain (normalizeProxyDomains (px_directDomains options));
          proxyListDomains = map normalizeSuffixDomain (normalizeProxyDomains (px_proxyDomains options));
          plainDomainRules = filter (\<lambda>r. \<not> starts_with (js ''*.'') r) domainRules;
          wildcardDomainRules = map (drop 2) (filter (starts_with (js ''*.'')) domainRules);
          dnsIpRules = pac_ip_rules validRules;
          exactIpRules = map (\<lambda>r. exact_address (pi_range r)) (filter (\<lambda>r. exact_range (pi_range r)) dnsIpRules);
          resolvedExactIpRules = map (\<lambda>r. exact_address (pi_range r))
            (filter (\<lambda>r. \<not> pi_learned r \<and> exact_range (pi_range r)) dnsIpRules);
          learnedResolvedExactIpRules = map (\<lambda>r. exact_address (pi_range r))
            (filter (\<lambda>r. pi_learned r \<and> exact_range (pi_range r)) dnsIpRules)
      in \<lparr>pac_proxy = buildPacProxyReturn socksHost socksPort proxyProtocol,
          pac_mode = (case px_mode options of None \<Rightarrow> SelectedRules | Some mode \<Rightarrow> mode),
          pac_directDomains = domainLookupLiteral directListDomains,
          pac_proxyListDomains = domainLookupLiteral proxyListDomains,
          pac_proxyRuleDomains = domainLookupLiteral plainDomainRules,
          pac_proxyWildcardDomains = domainLookupLiteral wildcardDomainRules,
          pac_proxyExactIps = domainLookupLiteral exactIpRules,
          pac_proxyResolvedExactIps = domainLookupLiteral resolvedExactIpRules,
          pac_learnedResolvedExactIps = domainLookupLiteral learnedResolvedExactIpRules,
          pac_ipChecks = concat (map (\<lambda>r. buildIpChecks (pi_rule r)) (filter (\<lambda>r. \<not> pi_learned r) dnsIpRules)),
          pac_learnedIpChecks = concat (map (\<lambda>r. buildIpChecks (pi_rule r))
            (filter (\<lambda>r. pi_learned r \<and> \<not> exact_range (pi_range r)) dnsIpRules)),
          pac_resolvesHosts = (dnsIpRules \<noteq> []),
          pac_needsIpv4Dns = list_ex (\<lambda>r. cr_version (pi_range r) = V4) dnsIpRules\<rparr>)"

section \<open>The functions of the text\<close>

text \<open>What a browser offers: a missing function, one that throws and one that returns nothing are alike.\<close>

record pac_env =
  env_dnsResolveEx :: "jsstring \<Rightarrow> jsstring option"
  env_dnsResolve :: "jsstring \<Rightarrow> jsstring option"
  env_isInNet :: "jsstring \<Rightarrow> jsstring \<Rightarrow> jsstring \<Rightarrow> bool"
  env_isInNetEx :: "(jsstring \<Rightarrow> jsstring \<Rightarrow> bool) option"

text \<open>\<open>/^(\d{1,3})\.(\d{1,3})\.\d{1,3}\.\d{1,3}$/.exec(s)\<close>, with its two groups.\<close>

definition pac_ipv4 :: "jsstring \<Rightarrow> (jsstring \<times> jsstring) option" where
  "pac_ipv4 s =
     (let parts = split_on (js ''.'') s
      in if length parts = 4 \<and> list_all (\<lambda>p. list_all is_digit p \<and> 1 \<le> length p \<and> length p \<le> 3) parts
         then Some (parts ! 0, parts ! 1) else None)"

definition isLocalIpv4 :: "nat \<Rightarrow> nat \<Rightarrow> bool" where
  "isLocalIpv4 a b \<longleftrightarrow> a = 0 \<or> a = 10 \<or> a = 127 \<or> (a = 100 \<and> 64 \<le> b \<and> b \<le> 127) \<or> (a = 169 \<and> b = 254) \<or>
     (a = 172 \<and> 16 \<le> b \<and> b \<le> 31) \<or> (a = 192 \<and> b = 168)"

definition lower_hex :: "nat \<Rightarrow> bool" where
  "lower_hex u \<longleftrightarrow> is_digit u \<or> (97 \<le> u \<and> u \<le> 102)"

text \<open>\<open>/^::ffff:([0-9a-f]{1,4}):[0-9a-f]{1,4}$/.exec(host)\<close>, with its group.\<close>

definition mapped_hex :: "jsstring \<Rightarrow> jsstring option" where
  "mapped_hex host =
     (let parts = split_on (js '':'') (drop 7 host)
      in if starts_with (js ''::ffff:'') host \<and> length parts = 2 \<and>
            list_all (\<lambda>p. list_all lower_hex p \<and> 1 \<le> length p \<and> length p \<le> 4) parts
         then Some (parts ! 0) else None)"

definition isLocalIpv6 :: "jsstring \<Rightarrow> bool" where
  "isLocalIpv6 host =
     (case (if starts_with (js ''::ffff:'') host then pac_ipv4 (drop 7 host) else None) of
        Some (a, b) \<Rightarrow> isLocalIpv4 (radix_value 10 a) (radix_value 10 b)
      | None \<Rightarrow>
          (case mapped_hex host of
             Some g \<Rightarrow> isLocalIpv4 (radix_value 16 g div 256) (radix_value 16 g mod 256)
           | None \<Rightarrow> host = js ''::1'' \<or>
               (starts_with (js ''fe'') host \<and> 4 < length host \<and> host ! 2 \<in> set (js ''89ab'') \<and> lower_hex (host ! 3) \<and> host ! 4 = 58) \<or>
               (starts_with (js ''f'') host \<and> 4 < length host \<and> host ! 1 \<in> set (js ''cd'') \<and>
                  lower_hex (host ! 2) \<and> lower_hex (host ! 3) \<and> host ! 4 = 58)))"

definition pac_isLocalDestination :: "jsstring \<Rightarrow> bool" where
  "pac_isLocalDestination host =
     (let name = strip_final_dot host
      in if name = [] then False
         else case pac_ipv4 name of
             Some (a, b) \<Rightarrow> isLocalIpv4 (radix_value 10 a) (radix_value 10 b)
           | None \<Rightarrow>
               if js_includes (js '':'') name then isLocalIpv6 name
               else \<not> js_includes (js ''.'') name \<or> ends_with (js ''.local'') name)"

function matchesDomainOrParent :: "jsstring \<Rightarrow> jsstring list \<Rightarrow> bool" where
  "matchesDomainOrParent candidate keys =
     (if candidate = [] then False
      else if candidate \<in> set keys then True
      else case index_of 46 candidate of
          None \<Rightarrow> False
        | Some dot \<Rightarrow> matchesDomainOrParent (drop (dot + 1) candidate) keys)"
  by pat_completeness auto
termination
  by (relation "measure (\<lambda>(candidate, keys). length candidate)") (auto simp: index_of_Some)

declare matchesDomainOrParent.simps [simp del]

function matchesSubdomain :: "jsstring \<Rightarrow> jsstring list \<Rightarrow> bool" where
  "matchesSubdomain host keys =
     (case index_of 46 host of
        None \<Rightarrow> False
      | Some dot \<Rightarrow> let host' = drop (dot + 1) host in host' \<in> set keys \<or> matchesSubdomain host' keys)"
  by pat_completeness auto
termination
  by (relation "measure (\<lambda>(host, keys). length host)") (auto simp: index_of_Some)

declare matchesSubdomain.simps [simp del]

section \<open>Looking addresses up\<close>

text \<open>\<open>s.split(/[;,\s]+/)\<close> without the empty entries.\<close>

definition entry_separator :: "nat \<Rightarrow> bool" where
  "entry_separator u \<longleftrightarrow> u = 59 \<or> u = 44 \<or> js_ws u"

fun split_entries :: "jsstring \<Rightarrow> jsstring \<Rightarrow> jsstring list" where
  "split_entries entry [] = (if entry = [] then [] else [entry])"
| "split_entries entry (u # s) =
     (if entry_separator u then (if entry = [] then split_entries [] s else entry # split_entries [] s)
      else split_entries (entry @ [u]) s)"

definition splitResolvedHosts :: "jsstring \<Rightarrow> jsstring list" where
  "splitResolvedHosts s = split_entries [] s"

definition resolveHostsUncached :: "pac_env \<Rightarrow> jsstring \<Rightarrow> jsstring list" where
  "resolveHostsUncached e host =
     (let entries = splitResolvedHosts (js_lower (case env_dnsResolveEx e host of None \<Rightarrow> [] | Some v \<Rightarrow> v));
          entries1 = (if entries = [] then
              (case env_dnsResolve e host of None \<Rightarrow> [] | Some v \<Rightarrow> if v = [] then [] else [js_lower v]) else entries)
      in if entries1 = [] then [host] else entries1)"

record pac_cache =
  rc_entries :: "jsstring list js_map"
  rc_order :: "jsstring list"

definition pac_cache_new :: pac_cache where
  "pac_cache_new = \<lparr>rc_entries = [], rc_order = []\<rparr>"

definition resolvedHostCacheLimit :: nat where "resolvedHostCacheLimit = 256"

definition resolveHosts :: "pac_env \<Rightarrow> jsstring \<Rightarrow> pac_cache \<Rightarrow> jsstring list \<times> pac_cache" where
  "resolveHosts e host c =
     (let cacheKey = js ''$'' @ host
      in case map_of (rc_entries c) cacheKey of
           Some entries \<Rightarrow> (entries, c)
         | None \<Rightarrow>
             let entries = resolveHostsUncached e host
             in if entries = [host] then (entries, c)
                else let c1 = (if resolvedHostCacheLimit \<le> length (rc_order c)
                       then (case rc_order c of [] \<Rightarrow> c
                         | expiredKey # order \<Rightarrow> \<lparr>rc_entries = jm_delete expiredKey (rc_entries c), rc_order = order\<rparr>) else c)
                     in (entries, \<lparr>rc_entries = jm_set cacheKey entries (rc_entries c1), rc_order = rc_order c1 @ [cacheKey]\<rparr>))"

definition firstIpv4OrHost :: "jsstring list \<Rightarrow> jsstring \<Rightarrow> jsstring" where
  "firstIpv4OrHost entries host = (case find (\<lambda>x. pac_ipv4 x \<noteq> None) entries of Some x \<Rightarrow> x | None \<Rightarrow> host)"

definition resolvedHasOwn :: "jsstring list \<Rightarrow> jsstring list \<Rightarrow> bool" where
  "resolvedHasOwn entries keys = list_ex (\<lambda>x. x \<in> set keys) entries"

definition resolvedIsInNetEx :: "pac_env \<Rightarrow> jsstring list \<Rightarrow> jsstring \<Rightarrow> bool" where
  "resolvedIsInNetEx e entries r =
     (case env_isInNetEx e of None \<Rightarrow> False | Some isInNetEx \<Rightarrow> list_ex (\<lambda>x. isInNetEx x r) entries)"

fun check_holds :: "pac_env \<Rightarrow> jsstring \<Rightarrow> jsstring list \<Rightarrow> pac_check \<Rightarrow> bool" where
  "check_holds e resolvedHost resolvedHosts (NetCheck network netmask r) =
     (env_isInNet e resolvedHost network netmask \<or> resolvedIsInNetEx e resolvedHosts r)"
| "check_holds e resolvedHost resolvedHosts (RangeCheck r) = resolvedIsInNetEx e resolvedHosts r"

text \<open>The conditions written after the lookup: for the user's addresses, and for the learned ones.\<close>

definition resolved_hit :: "pac_env \<Rightarrow> jsstring list \<Rightarrow> pac_check list \<Rightarrow> jsstring \<Rightarrow> jsstring list \<Rightarrow> bool" where
  "resolved_hit e exact checks resolvedHost resolvedHosts \<longleftrightarrow>
     (exact \<noteq> [] \<and> (resolvedHost \<in> set exact \<or> resolvedHasOwn resolvedHosts exact)) \<or>
     list_ex (check_holds e resolvedHost resolvedHosts) checks"

definition user_rule_hit :: "pac \<Rightarrow> jsstring \<Rightarrow> bool" where
  "user_rule_hit p host \<longleftrightarrow> matchesDomainOrParent host (pac_proxyRuleDomains p) \<or>
     matchesSubdomain host (pac_proxyWildcardDomains p) \<or> (pac_proxyExactIps p \<noteq> [] \<and> host \<in> set (pac_proxyExactIps p))"

definition looks_up :: "pac \<Rightarrow> bool" where
  "looks_up p \<longleftrightarrow> pac_resolvesHosts p \<and> (pac_proxyResolvedExactIps p \<noteq> [] \<or> pac_ipChecks p \<noteq> [] \<or>
     pac_learnedResolvedExactIps p \<noteq> [] \<or> pac_learnedIpChecks p \<noteq> [])"

definition DIRECT :: jsstring where "DIRECT = js ''DIRECT''"

definition FindProxyForURL :: "pac_env \<Rightarrow> pac \<Rightarrow> jsstring \<Rightarrow> pac_cache \<Rightarrow> jsstring \<times> pac_cache" where
  "FindProxyForURL e p host0 c =
     (let host = strip_bracket_ends (js_lower host0)
      in if user_rule_hit p host then (pac_proxy p, c)
         else let direct = (pac_isLocalDestination host \<or> matchesDomainOrParent host (pac_directDomains p))
           in if \<not> direct \<and> (pac_mode p = ProxyAll \<or> matchesDomainOrParent host (pac_proxyListDomains p)) then (pac_proxy p, c)
              else if \<not> looks_up p then (DIRECT, c)
              else let (resolvedHosts, c1) = resolveHosts e host c;
                       resolvedHost = (if pac_needsIpv4Dns p then firstIpv4OrHost resolvedHosts host else host)
                in if resolved_hit e (pac_proxyResolvedExactIps p) (pac_ipChecks p) resolvedHost resolvedHosts then (pac_proxy p, c1)
                   else if \<not> direct \<and> resolved_hit e (pac_learnedResolvedExactIps p) (pac_learnedIpChecks p) resolvedHost resolvedHosts
                   then (pac_proxy p, c1)
                   else (DIRECT, c1))"

end
