(* ===== verification/PacLocal.thy ===== *)
theory PacLocal
  imports ProxyPac AddressText
begin

text \<open>
  The local network as the proxy auto-configuration sees it: on the text of an address its patterns find
  exactly the ranges the rest of the program compares numbers with.
\<close>

section \<open>Printed addresses\<close>

lemma dotted_format: "ipv4BigIntToDotted v = formatIpv4 v"
  by (simp add: ipv4BigIntToDotted_def formatIpv4_def)

lemma colon_format: "ipv6BigIntToString v = formatIpv6 v"
  by (simp add: ipv6BigIntToString_def formatIpv6_def ipv6_groups_def IPV6_GROUPS_def)

lemma exact_print: "exact_address g = print_ip \<lparr>ip_version_of = cr_version g, ip_value = cr_network g\<rparr>"
  by (cases "cr_version g") (simp_all add: exact_address_def print_ip_def dotted_format colon_format)

lemma octet_bounds: "0 \<le> v mod 256 \<and> v mod 256 < (256 :: int)"
  by simp

lemma dec_short: "0 \<le> n \<Longrightarrow> n < 1000 \<Longrightarrow> length (dec n) \<le> 3 \<and> list_all is_digit (dec n) \<and> dec n \<noteq> []"
  using radix_string_length [of 10 "nat n" 3] radix_string_digits by (auto simp: dec_def list_all_iff)

lemma format_ipv4_parts: "split_on [46] (formatIpv4 v) = map dec (ipv4_bytes v)"
  unfolding formatIpv4_eq by (rule split_join) (auto simp: ipv4_bytes_def is_digit_def dest: dec_not_dot)

lemma pac_ipv4_format: "pac_ipv4 (formatIpv4 v) = Some (dec (v div 2 ^ 24 mod 256), dec (v div 2 ^ 16 mod 256))"
proof -
  have short: "list_all is_digit (dec (w mod 256)) \<and> 1 \<le> length (dec (w mod 256)) \<and> length (dec (w mod 256)) \<le> 3" for w
    using dec_short [of "w mod 256"] octet_bounds [of w] by (simp add: Suc_leI)
  show ?thesis using short by (simp add: pac_ipv4_def format_ipv4_parts ipv4_bytes_def)
qed

lemma radix_dec: "0 \<le> n \<Longrightarrow> int (radix_value 10 (dec n)) = n" "radix_value 10 (dec n) = nat n"
  by (simp_all add: dec_def)

lemma pac_ipv4_no_dot: "46 \<notin> set s \<Longrightarrow> pac_ipv4 s = None"
  by (simp add: pac_ipv4_def split_on_absent)

lemma byte_block:
  assumes "0 \<le> (b :: int)" "b < 256" "0 \<le> l" "h < 256"
  shows "c * 256 + l \<le> a * 256 + b \<and> a * 256 + b \<le> c * 256 + h \<longleftrightarrow> a = c \<and> l \<le> b \<and> b \<le> h"
proof
  assume "c * 256 + l \<le> a * 256 + b \<and> a * 256 + b \<le> c * 256 + h"
  moreover from this have "\<not> a < c" "\<not> c < a" using assms by linarith+
  ultimately show "a = c \<and> l \<le> b \<and> b \<le> h" by simp
qed simp

lemma div_block:
  assumes "0 < (k :: int)"
  shows "w div k = q \<longleftrightarrow> k * q \<le> w \<and> w \<le> k * q + k - 1"
proof
  assume "w div k = q"
  then have "w = k * q + w mod k" using div_mult_mod_eq [of w k] by (simp add: mult.commute)
  then show "k * q \<le> w \<and> w \<le> k * q + k - 1" using pos_mod_bound [OF assms, of w] pos_mod_sign [OF assms, of w] by linarith
next
  assume "k * q \<le> w \<and> w \<le> k * q + k - 1"
  then show "w div k = q" by (intro int_div_pos_eq [of _ _ _ "w - k * q"]) auto
qed

lemma local_ipv4_value:
  assumes "0 \<le> v" "v < 2 ^ 32"
  shows "isLocalIpv4 (nat (v div 2 ^ 24 mod 256)) (nat (v div 2 ^ 16 mod 256)) \<longleftrightarrow>
    v div 2 ^ 24 \<in> {0, 10, 127} \<or> v div 2 ^ 22 = 100 * 4 + 1 \<or>
    v div 2 ^ 16 \<in> {169 * 256 + 254, 192 * 256 + 168} \<or> v div 2 ^ 20 = (172 * 16 + 1 :: int)"
proof -
  define a where "a = v div 2 ^ 24"
  define w where "w = v div 2 ^ 16"
  define b where "b = w mod 256"
  have a: "a = w div 256" by (simp add: a_def w_def zdiv_zmult2_eq [symmetric] del: div_mult2_eq)
  have w: "w = a * 256 + b" and b: "0 \<le> b" "b < 256" by (simp_all add: a b_def)
  have ab: "0 \<le> a" "a < 256" using assms by (simp_all add: a_def)
  have q: "v div 2 ^ 22 = w div 64" "v div 2 ^ 20 = w div 16" by (simp_all add: w_def zdiv_zmult2_eq [symmetric])
  have "w div 64 = 401 \<longleftrightarrow> a = 100 \<and> 64 \<le> b \<and> b \<le> 127" "w div 16 = 2753 \<longleftrightarrow> a = 172 \<and> 16 \<le> b \<and> b \<le> 31"
    using byte_block [OF b, of 64 127 100 a] byte_block [OF b, of 16 31 172 a] div_block [of 64 w 401] div_block [of 16 w 2753]
    by (simp_all add: w)
  moreover have "w = 43518 \<longleftrightarrow> a = 169 \<and> b = 254" "w = 49320 \<longleftrightarrow> a = 192 \<and> b = 168"
    using byte_block [OF b, of 254 254 169 a] byte_block [OF b, of 168 168 192 a] by (auto simp: w)
  moreover have "a mod 256 = a" using ab by simp
  ultimately show ?thesis using ab b
    unfolding q a_def [symmetric] w_def [symmetric] b_def [symmetric]
    by (auto simp: isLocalIpv4_def nat_eq_iff le_nat_iff nat_le_iff)
qed

section \<open>The first groups of a printed address\<close>

lemma radix_four:
  assumes "4096 \<le> n" "n < 65536"
  shows "radix_string 16 n = map digit_unit [n div 4096, n div 256 mod 16, n div 16 mod 16, n mod 16]"
proof -
  have "n div 4096 < 16" "\<not> n div 256 < 16" "\<not> n div 16 < 16" "\<not> n < 16" using assms by (simp_all add: less_mult_imp_div_less)
  moreover have "n div 16 div 16 = n div 256" "n div 256 div 16 = n div 4096" by (simp_all add: div_mult2_eq [symmetric])
  ultimately show ?thesis
    by (simp add: radix_string.simps [of 16 n] radix_string.simps [of 16 "n div 16"] radix_string.simps [of 16 "n div 256"] radix_string.simps [of 16 "n div 4096"])
qed

lemma hex_four:
  assumes "4096 \<le> g" "g < 65536"
  shows "hex g = map digit_unit [nat g div 4096, nat g div 256 mod 16, nat g div 16 mod 16, nat g mod 16]"
  using assms radix_four [of "nat g"] by (simp add: hex_def le_nat_iff nat_less_iff)

lemma hex_below: "0 \<le> g \<Longrightarrow> g < 4096 \<Longrightarrow> length (hex g) \<le> 3"
  using radix_string_length [of 16 "nat g" 3] by (simp add: hex_def nat_less_iff)

text \<open>The two patterns for a first group.\<close>

definition fe_group :: "jsstring \<Rightarrow> bool" where
  "fe_group host \<longleftrightarrow> starts_with (js ''fe'') host \<and> 4 < length host \<and> host ! 2 \<in> set (js ''89ab'') \<and> lower_hex (host ! 3) \<and> host ! 4 = 58"

definition fc_group :: "jsstring \<Rightarrow> bool" where
  "fc_group host \<longleftrightarrow> starts_with (js ''f'') host \<and> 4 < length host \<and> host ! 1 \<in> set (js ''cd'') \<and>
     lower_hex (host ! 2) \<and> lower_hex (host ! 3) \<and> host ! 4 = 58"

lemma digit_unit_is:
  "digit_unit d = 102 \<longleftrightarrow> d = 15" "digit_unit d = 101 \<longleftrightarrow> d = 14" "digit_unit d = 100 \<longleftrightarrow> d = 13" "digit_unit d = 99 \<longleftrightarrow> d = 12"
  "digit_unit d = 98 \<longleftrightarrow> d = 11" "digit_unit d = 97 \<longleftrightarrow> d = 10" "digit_unit d = 57 \<longleftrightarrow> d = 9" "digit_unit d = 56 \<longleftrightarrow> d = 8"
  by (auto simp: digit_unit_def)

lemma lower_hex_unit: "d < 16 \<Longrightarrow> lower_hex (digit_unit d)"
  by (auto simp: lower_hex_def is_digit_def digit_unit_def)

lemma first_group:
  assumes "0 \<le> g" "g < 65536" "host = hex g @ 58 # t"
  shows "fe_group host \<longleftrightarrow> g div 64 = 1018" "fc_group host \<longleftrightarrow> g div 512 = 126"
proof -
  show "fe_group host \<longleftrightarrow> g div 64 = 1018" "fc_group host \<longleftrightarrow> g div 512 = 126"
  proof (atomize (full), cases "g < 4096")
    case True
    then have l: "length (hex g) \<le> 3" using hex_below assms(1) by simp
    have "host ! length (hex g) = 58" using assms(3) by simp
    moreover have "hex g \<noteq> []" by (simp add: hex_def)
    ultimately have "host ! 1 = 58 \<or> host ! 2 = 58 \<or> host ! 3 = 58"
      using l by (cases "hex g"; cases "tl (hex g)"; cases "tl (tl (hex g))") (auto simp: numeral_2_eq_2 numeral_3_eq_3)
    then have "\<not> fe_group host \<and> \<not> fc_group host"
      by (auto simp: fe_group_def fc_group_def lower_hex_def is_digit_def starts_with_iff)
    then show "(fe_group host \<longleftrightarrow> g div 64 = 1018) \<and> (fc_group host \<longleftrightarrow> g div 512 = 126)" using True by auto
  next
    case False
    define n where "n = nat g"
    have n: "4096 \<le> n" "n < 65536" "int n = g" using False assms(1,2) by (simp_all add: n_def)
    have d: "n div 4096 < 16" "n div 256 mod 16 < 16" "n div 16 mod 16 < 16" "n mod 16 < 16" using n by (simp_all add: less_mult_imp_div_less)
    have "int (n div 64) = g div 64" "int (n div 512) = g div 512" by (simp_all add: zdiv_int n(3))
    then have gs: "g div 64 = 1018 \<longleftrightarrow> n div 64 = 1018" "g div 512 = 126 \<longleftrightarrow> n div 512 = 126"
      by (metis nat_int nat_numeral of_nat_numeral)+
    have h: "host = digit_unit (n div 4096) # digit_unit (n div 256 mod 16) # digit_unit (n div 16 mod 16) # digit_unit (n mod 16) # 58 # t"
      using hex_four [of g] False assms by (simp add: n_def)
    have "fe_group host \<longleftrightarrow> n div 4096 = 15 \<and> n div 256 mod 16 = 14 \<and> n div 16 mod 16 \<in> {8, 9, 10, 11}"
      using d lower_hex_unit [OF d(4)] by (simp add: h fe_group_def starts_with_def digit_unit_is)
    moreover have "fc_group host \<longleftrightarrow> n div 4096 = 15 \<and> n div 256 mod 16 \<in> {12, 13}"
      using d lower_hex_unit [OF d(4)] lower_hex_unit [OF d(3)] by (simp add: h fc_group_def starts_with_def digit_unit_is)
    moreover have "n div 64 = 1018 \<longleftrightarrow> n div 4096 = 15 \<and> n div 256 mod 16 = 14 \<and> n div 16 mod 16 \<in> {8, 9, 10, 11}"
      "n div 512 = 126 \<longleftrightarrow> n div 4096 = 15 \<and> n div 256 mod 16 \<in> {12, 13}"
    proof -
      define a b c where "a = n div 4096" and "b = n div 256 mod 16" and "c = n div 16 mod 16"
      have "n div 256 = 16 * a + b" "n div 16 = 16 * (n div 256) + c"
        using mult_div_mod_eq [of 16 "n div 256"] mult_div_mod_eq [of 16 "n div 16"]
        by (simp_all add: a_def b_def c_def div_mult2_eq [symmetric])
      moreover have "n div 64 = n div 16 div 4" "n div 512 = n div 256 div 2" by (simp_all add: div_mult2_eq [symmetric])
      ultimately have e: "n div 64 = 64 * a + 4 * b + c div 4" "n div 512 = 8 * a + b div 2" by simp_all
      have bd: "a < 16" "b < 16" "c < 16" using d by (simp_all add: a_def b_def c_def)
      have "c div 4 < 4" "b div 2 < 8" using bd by simp_all
      have "a = 15 \<and> b = 14 \<and> c div 4 = 2" if "n div 64 = 1018"
      proof -
        have sum: "64 * a + 4 * b + c div 4 = 1018" using that e by simp
        have a: "a = 15" using sum bd \<open>c div 4 < 4\<close> by linarith
        then have b: "b = 14" using sum \<open>c div 4 < 4\<close> by linarith
        then show ?thesis using sum a by linarith
      qed
      moreover have "a = 15 \<and> b div 2 = 6" if "n div 512 = 126"
      proof -
        have sum: "8 * a + b div 2 = 126" using that e by simp
        have a: "a = 15" using sum bd \<open>b div 2 < 8\<close> by linarith
        then show ?thesis using sum by linarith
      qed
      ultimately have "n div 64 = 1018 \<longleftrightarrow> a = 15 \<and> b = 14 \<and> c div 4 = 2" "n div 512 = 126 \<longleftrightarrow> a = 15 \<and> b div 2 = 6"
        unfolding e by auto
      moreover have "c div 4 = 2 \<longleftrightarrow> c \<in> {8, 9, 10, 11}" "b div 2 = 6 \<longleftrightarrow> b \<in> {12, 13}" by auto
      ultimately show "n div 64 = 1018 \<longleftrightarrow> a = 15 \<and> b = 14 \<and> c \<in> {8, 9, 10, 11}" "n div 512 = 126 \<longleftrightarrow> a = 15 \<and> b \<in> {12, 13}" by simp_all
    qed
    ultimately show "(fe_group host \<longleftrightarrow> g div 64 = 1018) \<and> (fc_group host \<longleftrightarrow> g div 512 = 126)"
      by (simp add: gs)
  qed
qed


lemma formatIpv6_start:
  fixes v defines "g \<equiv> v div 65536 ^ 7 mod 65536"
  obtains t where "formatIpv6 v = hex g @ 58 # t" | t where "formatIpv6 v = 58 # 58 # t" "g = 0"
proof -
  have v: "ipv6_values v = g # tl (ipv6_values v)" "tl (ipv6_values v) \<noteq> []"
    by (simp_all add: ipv6_values_def g_def upt_rec)
  have join: "\<exists>t. js_join [58] (hex g # map hex gs) = hex g @ 58 # t" if "gs \<noteq> []" for gs
    using that by (cases gs) auto
  show thesis
  proof (cases rule: formatIpv6_shape [of v])
    case 1
    then show ?thesis using join [OF v(2)] v(1) that(1) by (metis list.simps(9))
  next
    case (2 l r k)
    show ?thesis
    proof (cases l)
      case Nil
      then have "g = 0" using 2(1,2) v(1) by (cases k) auto
      then show ?thesis using 2(3) Nil that(2) by simp
    next
      case (Cons x l')
      then have "x = g" using 2(1) v(1) by simp
      then show ?thesis using join [of l'] 2(3) Cons that(1) by (cases "l' = []") auto
    qed
  qed
qed

lemma best_run_mapped:
  assumes "length gs = 3" "gs ! 0 \<noteq> [48]"
  shows "best_run (replicate 5 [48] @ gs) 0 (-1) 0 = (0, 5)"
proof -
  obtain x y z where gs: "gs = [x, y, z]" "x \<noteq> [48]" using assms by (auto simp: numeral_3_eq_3 length_Suc_conv)
  have r: "replicate 5 [48 :: nat] = [[48], [48], [48], [48], [48]]" by (simp add: numeral_eq_Suc)
  show ?thesis using gs(2)
    by (simp add: gs(1) r best_run.simps zero_run_end_def Let_def)
qed
lemma formatIpv6_one: "formatIpv6 1 = js ''::1''"
  by (simp add: formatIpv6_def ipv6_groups_def IPV6_GROUPS_def best_run.simps zero_run_end_def hex_def radix_string.simps upt_rec digit_unit_def)

lemma low_groups:
  assumes "0 \<le> v" "v div 2 ^ 32 = 65535"
  shows "ipv6_values v = replicate 5 0 @ [65535, v div 65536 mod 65536, v mod 65536]"
proof -
  have "v div 65536 ^ 2 = 65535" using assms(2) by simp
  then have "v div 65536 ^ (2 + k) = 65535 div 65536 ^ k" for k
    by (metis power_add zdiv_zmult2_eq zero_le_numeral zero_le_power)
  from this [of 0] this [of 1] this [of 2] this [of 3] this [of 4] this [of 5]
  show ?thesis by (simp add: ipv6_values_def upt_rec numeral_eq_Suc)
qed

lemma formatIpv6_mapped:
  assumes "0 \<le> v" "v div 2 ^ 32 = 65535"
  shows "formatIpv6 v = js ''::ffff:'' @ hex (v div 65536 mod 65536) @ 58 # hex (v mod 65536)"
proof -
  have g: "ipv6_groups v = replicate 5 [48] @ [hex 65535, hex (v div 65536 mod 65536), hex (v mod 65536)]"
    using low_groups [OF assms] by (simp add: ipv6_groups_eq hex_def radix_string.simps digit_unit_def)
  have h: "hex 65535 = js ''ffff''" by (simp add: hex_def radix_string.simps digit_unit_def)
  then show ?thesis
    using best_run_mapped [of "[hex 65535, hex (v div 65536 mod 65536), hex (v mod 65536)]"]
    by (simp add: formatIpv6_def g)
qed

lemma lower_hex_hex: "0 \<le> g \<Longrightarrow> g < 65536 \<Longrightarrow> list_all lower_hex (hex g) \<and> 1 \<le> length (hex g) \<and> length (hex g) \<le> 4"
  using hex_units [of _ g] radix_string_length [of 16 "nat g" 4]
  by (auto simp: list_all_iff lower_hex_def hex_def nat_less_iff Suc_leI)

lemma mapped_hex_format:
  assumes "0 \<le> v" "v < 2 ^ 128"
  shows "mapped_hex (formatIpv6 v) = (if v div 2 ^ 32 = 65535 then Some (hex (v div 65536 mod 65536)) else None)"
proof (cases "v div 2 ^ 32 = 65535")
  case True
  have "58 \<notin> set (hex (w mod 65536))" for w by (rule hex_group_hex(4)) simp_all
  moreover have "list_all lower_hex (hex (w mod 65536)) \<and> 1 \<le> length (hex (w mod 65536)) \<and> length (hex (w mod 65536)) \<le> 4" for w
    by (rule lower_hex_hex) simp_all
  ultimately show ?thesis
    using True by (simp add: formatIpv6_mapped [OF assms(1) True] mapped_hex_def starts_with_def split_on_step split_on_absent)
next
  case False
  have "mapped_hex (formatIpv6 v) = None"
  proof (rule ccontr)
    assume "mapped_hex (formatIpv6 v) \<noteq> None"
    then have s: "starts_with (js ''::ffff:'') (formatIpv6 v)" "length (split_on [58] (drop 7 (formatIpv6 v))) = 2"
      by (auto simp: mapped_hex_def Let_def split: if_splits)
    have no: "formatIpv6 v \<noteq> js_join [58] (hex x # xs) @ y" for x xs y
    proof
      assume t: "formatIpv6 v = js_join [58] (hex x # xs) @ y"
      have "\<exists>z. js_join [58] (hex x # xs) = hex x @ z" by (cases xs) simp_all
      then obtain z where "formatIpv6 v = hex x @ z" using t by auto
      moreover obtain u us where "hex x = u # us" "u \<noteq> 58"
        using hex_units [of "hd (hex x)" x] by (cases "hex x") (auto simp: hex_def is_digit_def)
      ultimately show False using s(1) by (simp add: starts_with_def)
    qed
    show False
    proof (cases rule: formatIpv6_shape [of v])
      case 1
      moreover have "\<exists>x xs. ipv6_values v = x # xs" by (simp add: ipv6_values_def upt_rec)
      then obtain x xs where "ipv6_values v = x # xs" by blast
      ultimately show ?thesis using no [of x "map hex xs" "[]"] by simp
    next
      case (2 l r k)
      have l: "l = []"
      proof (cases l)
        case (Cons x xs)
        then show ?thesis using no [of x "map hex xs" "58 # 58 # js_join [58] (map hex r)"] 2(3) by simp
      qed simp
      define x where "x = drop 7 (formatIpv6 v)"
      have j: "js_join [58] (map hex r) = js ''ffff'' @ 58 # x"
        using s(1) 2(3) l by (auto simp: starts_with_iff x_def)
      then have "r \<noteq> []" by auto
      have vals: "\<forall>g \<in> set r. 0 \<le> g \<and> g < 65536" using 2(1) ipv6_values_props(2) [of _ v] by simp
      then have "split_on [58] (js_join [58] (map hex r)) = map hex r"
        using hex_words [OF vals] \<open>r \<noteq> []\<close> by (intro split_join) auto
      then have m: "map hex r = js ''ffff'' # split_on [58] x" by (simp add: j split_on_step)
      have "length r = 3" using arg_cong [OF m, of length] s(2) by (simp add: x_def)
      then obtain a b c where r: "r = [a, b, c]" by (auto simp: eval_nat_numeral length_Suc_conv)
      have "hex a = js ''ffff''" using m r by simp
      then have a: "a = 65535" using hex_group_hex(2) [of a] vals r by (simp add: radix_value_def digit_val_def)
      have "length (ipv6_values v) = k + 3" using 2(1) l r by simp
      then have "k = 5" by (simp add: ipv6_values_props(1))
      moreover have "replicate 5 (0 :: int) = [0, 0, 0, 0, 0]" by (simp add: numeral_eq_Suc)
      ultimately have "ipv6_values v = [0, 0, 0, 0, 0, 65535, b, c]" using 2(1) l r a by simp
      then have "v = 2 ^ 32 * 65535 + (b * 65536 + c)" using ipv6_values_value [OF assms] by simp
      then have "v div 2 ^ 32 = 65535" by (rule int_div_pos_eq) (use vals r in auto)
      then show ?thesis using False by simp
    qed
  qed
  then show ?thesis using False by simp
qed

lemma isLocalIpv6_eq:
  "isLocalIpv6 host = (case (if starts_with (js ''::ffff:'') host then pac_ipv4 (drop 7 host) else None) of
        Some (a, b) \<Rightarrow> isLocalIpv4 (radix_value 10 a) (radix_value 10 b)
      | None \<Rightarrow> (case mapped_hex host of
             Some g \<Rightarrow> isLocalIpv4 (radix_value 16 g div 256) (radix_value 16 g mod 256)
           | None \<Rightarrow> host = js ''::1'' \<or> fe_group host \<or> fc_group host))"
  unfolding isLocalIpv6_def fe_group_def fc_group_def by (rule refl)

lemma pac_local_ipv6:
  assumes "0 \<le> v" "v < 2 ^ 128"
  shows "isLocalIpv6 (formatIpv6 v) \<longleftrightarrow> (if v div 2 ^ 32 = 65535
    then isLocalIpv4 (nat (v mod 2 ^ 32 div 2 ^ 24 mod 256)) (nat (v mod 2 ^ 32 div 2 ^ 16 mod 256))
    else v = 1 \<or> v div 2 ^ 121 = 126 \<or> v div 2 ^ 118 = 1018)"
proof -
  have no_dot: "pac_ipv4 (drop 7 (formatIpv6 v)) = None"
    using formatIpv6_text(3) [of v] by (intro pac_ipv4_no_dot) (auto dest: in_set_dropD)
  show ?thesis
  proof (cases "v div 2 ^ 32 = 65535")
    case True
    define w where "w = v mod 2 ^ 32"
    define g where "g = v div 65536 mod 65536"
    have v: "v = 65535 * 2 ^ 32 + w" "0 \<le> w" "w < 2 ^ 32"
      using True div_mult_mod_eq [of v "2 ^ 32"] by (simp_all add: w_def)
    then have "v div 65536 = 65535 * 65536 + w div 65536" by simp
    moreover have "0 \<le> w div 65536" "w div 65536 < 65536" using v by simp_all
    ultimately have g: "g = w div 65536" using mod_mult_self3 [of 65535 65536 "w div 65536"] by (simp add: g_def del: mod_mult_self3)
    have "int (radix_value 16 (hex g)) = g" using v by (intro hex_group_hex(2)) (simp_all add: g)
    then have "radix_value 16 (hex g) = nat g" by simp
    moreover have "nat g div 256 = nat (w div 2 ^ 24 mod 256)" "nat g mod 256 = nat (w div 2 ^ 16 mod 256)"
      using v by (simp_all add: g nat_mod_distrib nat_div_distrib zdiv_zmult2_eq [symmetric] div_mult2_eq [symmetric])
    ultimately show ?thesis using True no_dot mapped_hex_format [OF assms]
      unfolding isLocalIpv6_eq w_def [symmetric] g_def [symmetric] by (simp del: js_simps)
  next
    case False
    have one: "formatIpv6 v = js ''::1'' \<longleftrightarrow> v = 1"
      using parseIpv6_format [OF assms] parseIpv6_format [of 1] by (auto simp: formatIpv6_one simp del: js_simps)
    define g where "g = v div 65536 ^ 7 mod 65536"
    have g: "g = v div 2 ^ 112" "0 \<le> g" "g < 65536" using assms by (simp_all add: g_def)
    have q: "v div 2 ^ 118 = g div 64" "v div 2 ^ 121 = g div 512" by (simp_all add: g(1) zdiv_zmult2_eq [symmetric])
    have "fe_group (formatIpv6 v) \<longleftrightarrow> g div 64 = 1018" "fc_group (formatIpv6 v) \<longleftrightarrow> g div 512 = 126"
    proof (atomize (full), cases rule: formatIpv6_start [of v, folded g_def])
      case (1 t)
      then show "(fe_group (formatIpv6 v) \<longleftrightarrow> g div 64 = 1018) \<and> (fc_group (formatIpv6 v) \<longleftrightarrow> g div 512 = 126)"
        using first_group [OF g(2,3) 1] by simp
    next
      case (2 t)
      then show "(fe_group (formatIpv6 v) \<longleftrightarrow> g div 64 = 1018) \<and> (fc_group (formatIpv6 v) \<longleftrightarrow> g div 512 = 126)"
        by (simp add: fe_group_def fc_group_def starts_with_def)
    qed
    then show ?thesis using False one mapped_hex_format [OF assms] no_dot
      unfolding isLocalIpv6_eq q by (auto simp del: js_simps)
  qed
qed

text \<open>A printed address is what it is read as; a mapped one is read as the IPv4 address in it.\<close>

lemma print_ip_text:
  assumes "ip_ok a"
  shows "js_trim (print_ip a) = print_ip a" "js_lower (print_ip a) = print_ip a" "print_ip a \<noteq> []"
    "strip_brackets (print_ip a) = print_ip a" "dotted_tail (print_ip a) = None" "strip_final_dot (print_ip a) = print_ip a"
    "strip_bracket_ends (print_ip a) = print_ip a"
proof -
  show t: "js_trim (print_ip a) = print_ip a" "js_lower (print_ip a) = print_ip a"
    using formatIpv4_text formatIpv6_text by (simp_all add: print_ip_def split: ip_version.split)
  have u: "is_digit u \<or> (97 \<le> u \<and> u \<le> 102) \<or> u = 58 \<or> u = 46" if "u \<in> set (print_ip a)" for u
    using that formatIpv4_units(1) [of u] formatIpv6_units [of u] by (auto simp: print_ip_def split: ip_version.splits)
  show ne: "print_ip a \<noteq> []" using print_ip_parse [OF assms] by (auto simp: parseIpAddress_def)
  have b: "91 \<notin> set (print_ip a)" "93 \<notin> set (print_ip a)" using u [of 91] u [of 93] by (auto simp: is_digit_def)
  then show "strip_brackets (print_ip a) = print_ip a" "strip_bracket_ends (print_ip a) = print_ip a"
    by (cases "print_ip a"; auto simp: strip_brackets_def strip_bracket_ends_def starts_with_def ends_with_iff Let_def)+
  show "dotted_tail (print_ip a) = None"
  proof (cases "ip_version_of a")
    case V4
    have "58 \<notin> set (formatIpv4 w)" for w using formatIpv4_units(1) [of 58 w] by (auto simp: is_digit_def)
    then show ?thesis using V4 by (simp add: print_ip_def dotted_tail_def last_index_of_def index_of_None [THEN iffD2])
  next
    case V6
    then have "46 \<notin> set (drop n (print_ip a))" for n using formatIpv6_text(3) by (auto simp: print_ip_def dest: in_set_dropD)
    then show ?thesis by (auto simp: dotted_tail_def split: option.split)
  qed
  have "\<not> ends_with [46] (print_ip a)"
  proof (cases "ip_version_of a")
    case V4
    show ?thesis
    proof
      assume "ends_with [46] (print_ip a)"
      then obtain z where z: "formatIpv4 (ip_value a) = z @ [46]" using V4 by (auto simp: print_ip_def ends_with_iff)
      obtain w ws where "split_on [46] (z @ [46]) = (w # ws) @ [[]]" using ends_dot_split by blast
      then have "map dec (ipv4_bytes (ip_value a)) = w # ws @ [[]]" using format_ipv4_parts [of "ip_value a"] by (simp add: z)
      then have "[] \<in> set (map dec (ipv4_bytes (ip_value a)))" by (simp only: set_append list.set) simp
      moreover have "[] \<noteq> dec x" for x using radix_string_ne [of 10 "nat x"] unfolding dec_def by metis
      ultimately show False by auto
    qed
  next
    case V6
    then show ?thesis using formatIpv6_text(3) [of "ip_value a"] by (auto simp: print_ip_def ends_with_iff)
  qed
  then show "strip_final_dot (print_ip a) = print_ip a" by (simp add: strip_final_dot_def)
qed

lemma unmapped_print: "ip_ok a \<Longrightarrow> parseIpAddressUnmapped (print_ip a) = Some (unmapped_ip a)"
  using print_ip_text [of a] print_ip_parse [of a] by (simp add: parseIpAddressUnmapped_def unmapped_ip_def)

text \<open>The test of the PAC for local addresses is the one of the rest of the program.\<close>

lemma pac_local_address:
  assumes "ip_ok a"
  shows "pac_isLocalDestination (print_ip a) = isLocalDestinationIp (print_ip a)"
proof (cases "ip_version_of a")
  case V4
  then have v: "0 \<le> ip_value a" "ip_value a < 2 ^ 32" using assms by (simp_all add: ip_ok_def)
  have "unmapped_ip a = a" using V4 by (simp add: unmapped_ip_def)
  then have r: "isLocalDestinationIp (print_ip a) \<longleftrightarrow> isLocalIpv4 (nat (ip_value a div 2 ^ 24 mod 256)) (nat (ip_value a div 2 ^ 16 mod 256))"
    unfolding local_destination_values unmapped_print [OF assms] using V4 local_ipv4_value [OF v] by simp
  have p: "print_ip a = formatIpv4 (ip_value a)" using V4 by (simp add: print_ip_def)
  show ?thesis
    unfolding r using print_ip_text [OF assms] radix_dec(2)
    by (simp add: pac_isLocalDestination_def p pac_ipv4_format)
next
  case V6
  then have v: "0 \<le> ip_value a" "ip_value a < 2 ^ 128" using assms by (simp_all add: ip_ok_def)
  have p: "print_ip a = formatIpv6 (ip_value a)" using V6 by (simp add: print_ip_def)
  have l: "pac_isLocalDestination (print_ip a) = isLocalIpv6 (formatIpv6 (ip_value a))"
    using print_ip_text [OF assms] formatIpv6_text(3) [of "ip_value a"] formatIpv6_colon
    by (simp add: pac_isLocalDestination_def p pac_ipv4_no_dot)
  show ?thesis
  proof (cases "ip_value a div 2 ^ 32 = 65535")
    case True
    define w where "w = ip_value a mod 2 ^ 32"
    have w: "0 \<le> w" "w < 2 ^ 32" by (simp_all add: w_def)
    have "ip_value a AND 0xffffffff = w"
      using take_bit_eq_mask [of 32 "ip_value a"] by (simp add: w_def mask_eq_exp_minus_1 take_bit_eq_mod)
    then have "unmapped_ip a = \<lparr>ip_version_of = V4, ip_value = w\<rparr>" using True V6 by (simp add: unmapped_ip_def drop_bit_eq_div)
    then show ?thesis
      unfolding l local_destination_values unmapped_print [OF assms] pac_local_ipv6 [OF v] w_def [symmetric]
      using True local_ipv4_value [OF w] by simp
  next
    case False
    then have "unmapped_ip a = a" by (simp add: unmapped_ip_def drop_bit_eq_div)
    then show ?thesis
      unfolding l local_destination_values unmapped_print [OF assms] pac_local_ipv6 [OF v]
      using False V6 by simp
  qed
qed
end
