(* ===== verification/PacMeaning.thy ===== *)
theory PacMeaning
  imports PacLocal
begin

text \<open>
  What the proxy auto-configuration (\<open>ProxyPac\<close>) decides.  For names and for literal addresses its answer
  is that of the traffic policy the other paths use, and its cache of lookups changes no answer.
\<close>

section \<open>Walks over the labels\<close>

lemma matchesDomainOrParent_walk: "matchesDomainOrParent d keys = suffix_walk keys d"
proof (induction d keys rule: matchesDomainOrParent.induct)
  case (1 d keys)
  then show ?case
    by (subst matchesDomainOrParent.simps, subst suffix_walk.simps) (cases "index_of 46 d"; simp del: index_of_None)
qed

lemma matchesSubdomain_iff: "matchesSubdomain d keys \<longleftrightarrow> (\<exists>p \<in> set keys. ends_with (46 # p) d)"
proof (induction d keys rule: matchesSubdomain.induct)
  case (1 d keys)
  show ?case
  proof (cases "index_of 46 d")
    case None
    then have "\<not> ends_with (46 # p) d" for p by (auto simp: ends_with_iff)
    then show ?thesis by (subst matchesSubdomain.simps) (simp add: None del: index_of_None)
  next
    case (Some i)
    then have "matchesSubdomain d keys \<longleftrightarrow> drop (i + 1) d \<in> set keys \<or> matchesSubdomain (drop (i + 1) d) keys"
      by (subst matchesSubdomain.simps) (simp add: Let_def)
    then show ?thesis using 1 [OF Some refl] ends_with_step [OF Some] by auto
  qed
qed

section \<open>The keys\<close>

lemma lookup_keys [simp]: "set (domainLookupLiteral ds) = set ds - {[]}"
  by (auto simp: domainLookupLiteral_def)

lemma walk_keys: "set xs - {[]} = set ys - {[]} \<Longrightarrow> suffix_walk xs d = suffix_walk ys d"
  unfolding suffix_walk_covers by blast

lemma proxy_domain_suffix:
  assumes "normalizeProxyDomain v = Some d"
  shows "normalizeSuffixDomain d = (if starts_with (js ''.'') d then drop 1 d else d)"
proof -
  have "\<not> starts_with (js ''*.'') d"
    using assms by (auto simp: normalizeProxyDomain_def Let_def starts_with_def split: if_splits)
  then show ?thesis by (simp add: normalizeSuffixDomain_def)
qed

lemma suffix_keys:
  "set (map normalizeSuffixDomain (normalizeProxyDomains (Some ds))) - {[]} = set (normalizeProcessRouteDirectDomains ds)"
proof -
  have "set (fold (\<lambda>v n. case normalizeProxyDomain v of None \<Rightarrow> n
       | Some d \<Rightarrow> let suffix = (if starts_with (js ''.'') d then drop 1 d else d) in if suffix = [] then n else set_add suffix n) ds n) =
     set n \<union> (normalizeSuffixDomain ` set (List.map_filter normalizeProxyDomain ds) - {[]})" for n
  proof (induction ds arbitrary: n)
    case (Cons v ds)
    then show ?case
      by (cases "normalizeProxyDomain v") (auto simp: List.map_filter_def Let_def dest!: proxy_domain_suffix simp del: js_simps)
  qed (simp add: List.map_filter_def)
  from this [of "[]"] show ?thesis by (simp add: normalizeProcessRouteDirectDomains_def normalizeProxyDomains_def)
qed

section \<open>The rules as the PAC holds them\<close>

definition pac_of :: "routing_rule list \<Rightarrow> jsstring \<Rightarrow> int \<Rightarrow> proxy_protocol \<Rightarrow> routing_mode \<Rightarrow> jsstring list \<Rightarrow> jsstring list \<Rightarrow> pac" where
  "pac_of rules host port protocol mode direct proxied = buildProxyPac rules host port protocol
     \<lparr>px_proxyDomains = Some proxied, px_directDomains = Some direct, px_mode = Some mode\<rparr>"

definition pac_policy :: "routing_mode \<Rightarrow> routing_rule list \<Rightarrow> jsstring list \<Rightarrow> jsstring list \<Rightarrow> traffic_policy" where
  "pac_policy mode rules direct proxied = policy_new mode rules (PolicyOptions
     \<lparr>po_udpSupported = None, po_protectedSshEndpoint = None, po_proxyListDomains = Some proxied, po_directListDomains = Some direct\<rparr>)"

definition learned_rule :: "routing_rule \<Rightarrow> bool" where
  "learned_rule r = starts_with LEARNED_PROCESS_IP_RULE_PREFIX (rr_id r)"

abbreviation valid_rules :: "routing_rule list \<Rightarrow> routing_rule list" where
  "valid_rules rules \<equiv> filter (\<lambda>r. rr_enabled r \<and> vr_ok (validateRoutingRuleValue (rr_type r) (rr_value r))) rules"

lemma names_by_keys:
  "(\<exists>r \<in> set rules. names_domain r d) \<longleftrightarrow>
     matchesDomainOrParent d (pac_proxyRuleDomains (pac_of rules host port protocol mode direct proxied)) \<or>
     matchesSubdomain d (pac_proxyWildcardDomains (pac_of rules host port protocol mode direct proxied))"
  (is "?names \<longleftrightarrow> matchesDomainOrParent d (pac_proxyRuleDomains ?p) \<or> _")
proof -
  define valid where "valid = (\<lambda>r :: routing_rule. rr_enabled r \<and> rr_type r = DomainRule \<and> vr_ok (validateRoutingRuleValue (rr_type r) (rr_value r)))"
  define star where "star = (\<lambda>s. starts_with (js ''*.'') s)"
  define name where "name = (\<lambda>r :: routing_rule. normalizeDomainRule (rr_value r))"
  have pattern: "domain_pattern r = (if valid r then Some (if star (name r) then (True, drop 2 (name r)) else (False, name r)) else None)" for r
    by (auto simp: domain_pattern_def valid_def star_def name_def normalizeDomainRule_def normalizeRuleValue_def Let_def simp del: js_simps)
  have ne: "valid r \<Longrightarrow> (if star (name r) then drop 2 (name r) else name r) \<noteq> []" for r
    using domain_pattern_nonempty [of r True "drop 2 (name r)"] domain_pattern_nonempty [of r False "name r"]
    by (simp add: pattern del: drop_eq_Nil)
  have doms: "filter (\<lambda>r. rr_type r = DomainRule) (valid_rules rules) = filter valid rules"
    by (auto simp: valid_def intro!: filter_cong)
  have plain: "set (pac_proxyRuleDomains ?p) = {name r | r. r \<in> set rules \<and> valid r \<and> \<not> star (name r)}"
    using ne unfolding pac_of_def buildProxyPac_def Let_def pac.select_convs lookup_keys doms star_def [symmetric] name_def [symmetric] by force
  have wild: "set (pac_proxyWildcardDomains ?p) = {drop 2 (name r) | r. r \<in> set rules \<and> valid r \<and> star (name r)}"
    using ne unfolding pac_of_def buildProxyPac_def Let_def pac.select_convs lookup_keys doms star_def [symmetric] name_def [symmetric] by force
  have "names_domain r d \<longleftrightarrow> valid r \<and> (if star (name r) then ends_with (46 # drop 2 (name r)) d else covers (name r) d)" for r
    by (auto simp: names_domain_def covers_def pattern)
  then show ?thesis
    unfolding matchesDomainOrParent_walk matchesSubdomain_iff suffix_walk_covers plain wild using ne by (auto split: if_splits) metis+
qed

lemma list_keys:
  "matchesDomainOrParent d (pac_directDomains (pac_of rules host port protocol mode direct proxied)) =
     suffix_walk (normalizeProcessRouteDirectDomains direct) d"
  "matchesDomainOrParent d (pac_proxyListDomains (pac_of rules host port protocol mode direct proxied)) =
     suffix_walk (normalizeProcessRouteDirectDomains proxied) d"
  unfolding matchesDomainOrParent_walk pac_of_def buildProxyPac_def Let_def pac.select_convs pac_options.select_convs
proof -
  have "suffix_walk (domainLookupLiteral (map normalizeSuffixDomain (normalizeProxyDomains (Some ds)))) d =
      suffix_walk (normalizeProcessRouteDirectDomains ds) d" for ds
    by (rule walk_keys) (use suffix_keys [of ds] in \<open>simp add: domainLookupLiteral_def\<close>, blast)
  then show "suffix_walk (domainLookupLiteral (map normalizeSuffixDomain (normalizeProxyDomains (Some direct)))) d =
      suffix_walk (normalizeProcessRouteDirectDomains direct) d"
    "suffix_walk (domainLookupLiteral (map normalizeSuffixDomain (normalizeProxyDomains (Some proxied)))) d =
      suffix_walk (normalizeProcessRouteDirectDomains proxied) d" by this+
qed

text \<open>The entries of the PAC for address rules are the valid rules with their ranges.\<close>

lemma ip_rules:
  "(\<exists>e \<in> set (pac_ip_rules (valid_rules rules)). Q (pi_range e) (pi_learned e)) \<longleftrightarrow>
     (\<exists>r \<in> set rules. \<exists>g. ip_rule_range r = Some g \<and> Q g (learned_rule r))"
  "e \<in> set (pac_ip_rules (valid_rules rules)) \<Longrightarrow> parseCidrRange (pi_rule e) = Some (pi_range e)"
proof -
  have m: "set (List.map_filter f xs) = {y. \<exists>x \<in> set xs. f x = Some y}" for f :: "routing_rule \<Rightarrow> pac_ip_rule option" and xs
    by (force simp: List.map_filter_def)
  show "(\<exists>e \<in> set (pac_ip_rules (valid_rules rules)). Q (pi_range e) (pi_learned e)) \<longleftrightarrow>
     (\<exists>r \<in> set rules. \<exists>g. ip_rule_range r = Some g \<and> Q g (learned_rule r))"
    by (force simp: pac_ip_rules_def m ip_rule_range_def normalizeRuleValue_def learned_rule_def)
  show "e \<in> set (pac_ip_rules (valid_rules rules)) \<Longrightarrow> parseCidrRange (pi_rule e) = Some (pi_range e)"
    by (auto simp: pac_ip_rules_def m split: if_splits)
qed

lemma range_of_rule: "ip_rule_range r = Some g \<Longrightarrow> range_ok g"
  by (auto simp: ip_rule_range_def elim: parseCidrRange_Some split: if_splits)

definition exact_of :: "cidr_range \<Rightarrow> parsed_ip" where
  "exact_of g = \<lparr>ip_version_of = cr_version g, ip_value = cr_network g\<rparr>"

lemma exact_matches:
  assumes "range_ok g" "exact_range g" "ip_ok a"
  shows "ip_ok (exact_of g)" "print_ip a = exact_address g \<longleftrightarrow> ipMatchesCidr a g"
proof -
  show ok: "ip_ok (exact_of g)" using assms(1) by (simp add: ip_ok_def range_ok_def exact_of_def)
  have "range_shift g = 0" using assms(2) by (cases "cr_version g") (simp_all add: exact_range_def range_shift_def)
  then have "ipMatchesCidr a g \<longleftrightarrow> a = exact_of g"
    using ipMatchesCidr_prefix [OF assms(3,1)] by (cases a) (auto simp: exact_of_def)
  then show "print_ip a = exact_address g \<longleftrightarrow> ipMatchesCidr a g"
    using print_ip_eq [OF assms(3) ok] by (simp add: exact_print exact_of_def)
qed

section \<open>Looking up\<close>

text \<open>
  What the code relies on: the resolver of the browser lists the addresses of a host, separated by
  semicolons, or only the older function knows one; and the network functions compare an address, or the
  addresses of a name, with a range.
\<close>

definition lookup_answers :: "pac_env \<Rightarrow> jsstring \<Rightarrow> parsed_ip list \<Rightarrow> bool" where
  "lookup_answers e host as \<longleftrightarrow> list_all ip_ok as \<and>
     (env_dnsResolveEx e host = Some (js_join (js '';'') (map print_ip as)) \<and> (as = [] \<longrightarrow> env_dnsResolve e host = None) \<or>
      env_dnsResolveEx e host = None \<and> length as \<le> 1 \<and>
      env_dnsResolve e host = (case as of [] \<Rightarrow> None | a # _ \<Rightarrow> Some (print_ip a)))"

definition net_functions :: "pac_env \<Rightarrow> jsstring \<Rightarrow> parsed_ip list \<Rightarrow> bool" where
  "net_functions e host as \<longleftrightarrow>
     (\<forall>g. range_ok g \<and> cr_version g = V4 \<longrightarrow>
        (\<forall>a. ip_ok a \<longrightarrow> env_isInNet e (print_ip a) (formatIpv4 (cr_network g)) (dotted_mask (cr_prefixLength g)) = ipMatchesCidr a g) \<and>
        env_isInNet e host (formatIpv4 (cr_network g)) (dotted_mask (cr_prefixLength g)) = (\<exists>a \<in> set as. ipMatchesCidr a g)) \<and>
     (\<exists>f. env_isInNetEx e = Some f \<and> (\<forall>g. range_ok g \<longrightarrow>
        (\<forall>a. ip_ok a \<longrightarrow> f (print_ip a) (formatCidrRange g) = ipMatchesCidr a g) \<and>
        f host (formatCidrRange g) = (\<exists>a \<in> set as. ipMatchesCidr a g)))"

definition entries_of :: "jsstring \<Rightarrow> parsed_ip list \<Rightarrow> jsstring list" where
  "entries_of host as = (if as = [] then [host] else map print_ip as)"

lemma net_checks:
  assumes "net_functions e host as" "list_all ip_ok as" "range_ok g"
    and "resolvedHost \<in> insert host (set (entries_of host as))" "parseCidrRange t = Some g" "\<not> (cr_version g = V4 \<and> exact_range g)"
  shows "list_ex (check_holds e resolvedHost (entries_of host as)) (buildIpChecks t) \<longleftrightarrow> (\<exists>a \<in> set as. ipMatchesCidr a g)"
proof -
  obtain f where f: "env_isInNetEx e = Some f" "\<And>a. ip_ok a \<Longrightarrow> f (print_ip a) (formatCidrRange g) = ipMatchesCidr a g"
    "f host (formatCidrRange g) = (\<exists>a \<in> set as. ipMatchesCidr a g)"
    using assms(1,3) by (auto simp: net_functions_def)
  have ok: "ip_ok a" if "a \<in> set as" for a using assms(2) that by (simp add: list_all_iff)
  have ex: "resolvedIsInNetEx e (entries_of host as) (formatCidrRange g) \<longleftrightarrow> (\<exists>a \<in> set as. ipMatchesCidr a g)"
    using f ok by (auto simp: resolvedIsInNetEx_def entries_of_def list_ex_iff)
  show ?thesis
  proof (cases "cr_version g")
    case V4
    have "env_isInNet e resolvedHost (formatIpv4 (cr_network g)) (dotted_mask (cr_prefixLength g)) \<Longrightarrow> \<exists>a \<in> set as. ipMatchesCidr a g"
      using assms(1,3,4) V4 ok by (auto simp: net_functions_def entries_of_def split: if_splits)
    then show ?thesis using V4 assms(5,6) ex
      by (auto simp: buildIpChecks_def exact_range_def formatCidrRange_def dotted_format Let_def)
  next
    case V6
    then show ?thesis using assms(5) ex by (simp add: buildIpChecks_def formatCidrRange_def colon_format)
  qed
qed

section \<open>The conditions after the lookup\<close>

definition literal_known :: "jsstring \<Rightarrow> parsed_ip list \<Rightarrow> bool" where
  "literal_known host as \<longleftrightarrow> (\<forall>b. ip_ok b \<and> host = print_ip b \<longrightarrow> b \<in> set as)"

lemma exact_entries:
  assumes "literal_known host as" "list_all ip_ok as" "\<And>g. g \<in> G \<Longrightarrow> range_ok g \<and> exact_range g"
    and "resolvedHost \<in> insert host (set (entries_of host as))" "set ks = exact_address ` G"
  shows "resolvedHost \<in> exact_address ` G \<or> resolvedHasOwn (entries_of host as) ks \<longleftrightarrow>
      (\<exists>a \<in> set as. \<exists>g \<in> G. ipMatchesCidr a g)"
proof -
  have hit: "\<exists>a \<in> set as. ipMatchesCidr a g" if "x \<in> insert host (set (entries_of host as))" "g \<in> G" "x = exact_address g" for x g
  proof -
    have g: "range_ok g" "exact_range g" using assms(3) that(2) by blast+
    consider "x = host" | a where "a \<in> set as" "x = print_ip a" using \<open>x \<in> insert host (set (entries_of host as))\<close>
      by (cases "as = []") (auto simp: entries_of_def)
    then show ?thesis
    proof cases
      case 1
      have ok: "ip_ok (exact_of g)" using g(1) by (simp add: ip_ok_def range_ok_def exact_of_def)
      have "host = print_ip (exact_of g)" using 1 that(3) by (simp add: exact_print exact_of_def)
      then have "exact_of g \<in> set as" "print_ip (exact_of g) = exact_address g"
        using assms(1) ok by (simp_all add: literal_known_def exact_print exact_of_def)
      then show ?thesis using exact_matches(2) [OF g ok] by blast
    next
      case 2
      then show ?thesis using exact_matches(2) [OF g, of a] assms(2) that(3) by (auto simp: list_all_iff)
    qed
  qed
  moreover have "\<exists>x \<in> set (entries_of host as). x \<in> exact_address ` G" if "a \<in> set as" "g \<in> G" "ipMatchesCidr a g" for a g
    using exact_matches(2) [of g a] assms(2,3) that by (force simp: list_all_iff entries_of_def)
  ultimately show ?thesis
    unfolding resolvedHasOwn_def list_ex_iff assms(5) using assms(4) by (metis imageE insertCI)
qed

lemma exact_address_ne: "range_ok g \<Longrightarrow> exact_address g \<noteq> []"
  using print_ip_text(3) [of "exact_of g"] by (simp add: exact_print exact_of_def ip_ok_def range_ok_def)

lemma resolved_rules:
  assumes "net_functions e host as" "list_all ip_ok as" "literal_known host as"
    and "resolvedHost \<in> insert host (set (entries_of host as))"
    and p_def: "p = pac_of rules h port protocol mode direct proxied"
  shows "resolved_hit e (pac_proxyResolvedExactIps p) (pac_ipChecks p) resolvedHost (entries_of host as) \<longleftrightarrow>
      (\<exists>r \<in> set rules. \<not> learned_rule r \<and> (\<exists>a \<in> set as. names_ip r a))"
    "resolved_hit e (pac_learnedResolvedExactIps p) (pac_learnedIpChecks p) resolvedHost (entries_of host as) \<longleftrightarrow>
      (\<exists>r \<in> set rules. learned_rule r \<and> (\<exists>a \<in> set as. names_ip r a))"
proof -
  define dns where "dns = pac_ip_rules (valid_rules rules)"
  have parse: "parseCidrRange (pi_rule x) = Some (pi_range x)" if "x \<in> set dns" for x using that ip_rules(2) by (simp add: dns_def)
  have rng: "range_ok (pi_range x)" if "x \<in> set dns" for x using parse [OF that] by (auto elim: parseCidrRange_Some)
  have any: "(\<exists>x \<in> set dns. pi_learned x = l \<and> (\<exists>a \<in> set as. ipMatchesCidr a (pi_range x))) \<longleftrightarrow>
      (\<exists>r \<in> set rules. learned_rule r = l \<and> (\<exists>a \<in> set as. names_ip r a))" for l
    using ip_rules(1) [of rules "\<lambda>g k. k = l \<and> (\<exists>a \<in> set as. ipMatchesCidr a g)"]
    by (force simp: dns_def names_ip_def split: option.split)
  have part: "((resolvedHost \<in> set ks \<or> resolvedHasOwn (entries_of host as) ks) \<longleftrightarrow>
      (\<exists>x \<in> set dns. pi_learned x = l \<and> exact_range (pi_range x) \<and> (\<exists>a \<in> set as. ipMatchesCidr a (pi_range x))))"
    if "set ks = exact_address ` {pi_range x | x. x \<in> set dns \<and> pi_learned x = l \<and> exact_range (pi_range x)}" for ks l
    using exact_entries [OF assms(3,2) _ assms(4) that] rng unfolding that by fastforce
  have none: "buildIpChecks (pi_rule x) = []" if "x \<in> set dns" "cr_version (pi_range x) = V4 \<and> exact_range (pi_range x)" for x
    using parse [OF that(1)] that(2) by (simp add: buildIpChecks_def exact_range_def Let_def)
  have checks: "list_ex (check_holds e resolvedHost (entries_of host as)) (buildIpChecks (pi_rule x)) \<longleftrightarrow>
      \<not> (cr_version (pi_range x) = V4 \<and> exact_range (pi_range x)) \<and> (\<exists>a \<in> set as. ipMatchesCidr a (pi_range x))" if "x \<in> set dns" for x
    using none [OF that] net_checks [OF assms(1,2) rng [OF that] assms(4) parse [OF that]] by fastforce
  have user: "set (pac_proxyResolvedExactIps p) = exact_address ` {pi_range x | x. x \<in> set dns \<and> pi_learned x = False \<and> exact_range (pi_range x)}"
    and learned: "set (pac_learnedResolvedExactIps p) = exact_address ` {pi_range x | x. x \<in> set dns \<and> pi_learned x = True \<and> exact_range (pi_range x)}"
    using exact_address_ne [OF rng]
    unfolding p_def pac_of_def buildProxyPac_def Let_def pac.select_convs lookup_keys dns_def [symmetric] by force+
  have "pac_ipChecks p = concat (map (\<lambda>r. buildIpChecks (pi_rule r)) (filter (\<lambda>r. \<not> pi_learned r) dns))"
    "pac_learnedIpChecks p = concat (map (\<lambda>r. buildIpChecks (pi_rule r)) (filter (\<lambda>r. pi_learned r \<and> \<not> exact_range (pi_range r)) dns))"
    by (simp_all add: p_def pac_of_def buildProxyPac_def Let_def dns_def)
  then have ipChecks: "list_ex Q (pac_ipChecks p) \<longleftrightarrow> (\<exists>x \<in> set dns. \<not> pi_learned x \<and> list_ex Q (buildIpChecks (pi_rule x)))"
    "list_ex Q (pac_learnedIpChecks p) \<longleftrightarrow> (\<exists>x \<in> set dns. pi_learned x \<and> \<not> exact_range (pi_range x) \<and> list_ex Q (buildIpChecks (pi_rule x)))" for Q
    by (auto simp: list_ex_iff)
  have hit: "resolved_hit e ks cs resolvedHost (entries_of host as) \<longleftrightarrow>
      (resolvedHost \<in> set ks \<or> resolvedHasOwn (entries_of host as) ks) \<or> list_ex (check_holds e resolvedHost (entries_of host as)) cs" for ks cs
    by (auto simp: resolved_hit_def resolvedHasOwn_def list_ex_iff)
  show "resolved_hit e (pac_proxyResolvedExactIps p) (pac_ipChecks p) resolvedHost (entries_of host as) \<longleftrightarrow>
      (\<exists>r \<in> set rules. \<not> learned_rule r \<and> (\<exists>a \<in> set as. names_ip r a))"
    unfolding hit part [OF user] ipChecks using checks any [of False] by blast
  show "resolved_hit e (pac_learnedResolvedExactIps p) (pac_learnedIpChecks p) resolvedHost (entries_of host as) \<longleftrightarrow>
      (\<exists>r \<in> set rules. learned_rule r \<and> (\<exists>a \<in> set as. names_ip r a))"
    unfolding hit part [OF learned] ipChecks using checks any [of True] by blast
qed

section \<open>The entries and the cache\<close>

lemma split_entries_word:
  "\<forall>u \<in> set w. \<not> entry_separator u \<Longrightarrow> split_entries acc (w @ s) = split_entries (acc @ w) s"
  by (induction w arbitrary: acc) auto

lemma split_entries_join:
  assumes "\<forall>w \<in> set ws. w \<noteq> [] \<and> (\<forall>u \<in> set w. \<not> entry_separator u)"
  shows "splitResolvedHosts (js_join [59] ws) = ws"
proof -
  have sep: "entry_separator 59" by (simp add: entry_separator_def)
  have "split_entries [] (js_join [59] ws) = ws" using assms
  proof (induction "[59 :: nat]" ws rule: js_join.induct)
    case (2 w)
    then show ?case using split_entries_word [of w "[]" "[]"] by simp
  next
    case (3 w v ws)
    then show ?case using split_entries_word [of w "[]"] sep by simp
  qed simp
  then show ?thesis by (simp add: splitResolvedHosts_def)
qed

lemma print_ip_unit:
  assumes "u \<in> set (print_ip a)"
  shows "is_digit u \<or> (97 \<le> u \<and> u \<le> 102) \<or> u = 58 \<or> u = 46"
  using assms formatIpv4_units(1) [of u] formatIpv6_units [of u] by (auto simp: print_ip_def split: ip_version.splits)

lemma js_lower_join: "js_lower (js_join sep ws) = js_join (js_lower sep) (map js_lower ws)"
  by (induction sep ws rule: js_join.induct) (auto simp: js_lower_def)

lemma uncached_entries:
  assumes "lookup_answers e host as"
  shows "resolveHostsUncached e host = entries_of host as"
proof -
  have ok: "ip_ok a" if "a \<in> set as" for a using assms that by (auto simp: lookup_answers_def list_all_iff)
  have w: "print_ip a \<noteq> [] \<and> (\<forall>u \<in> set (print_ip a). \<not> entry_separator u)" if "a \<in> set as" for a
    using print_ip_text(3) [OF ok [OF that]] print_ip_unit [of _ a]
    by (fastforce simp: entry_separator_def js_ws_def is_digit_def)
  have "js_lower (js_join [59] (map print_ip as)) = js_join [59] (map print_ip as)"
    using print_ip_text(2) [OF ok] by (simp add: js_lower_join lower_unit_def cong: map_cong)
  moreover have "splitResolvedHosts (js_join [59] (map print_ip as)) = map print_ip as"
    by (rule split_entries_join) (use w in auto)
  moreover have "splitResolvedHosts [] = []" by (simp add: splitResolvedHosts_def)
  ultimately show ?thesis using assms print_ip_text(2,3) ok
    by (cases as) (auto simp: lookup_answers_def resolveHostsUncached_def entries_of_def Let_def)
qed

definition pac_cache_ok :: "pac_env \<Rightarrow> pac_cache \<Rightarrow> bool" where
  "pac_cache_ok e c \<longleftrightarrow> jm_keys (rc_entries c) = rc_order c \<and> distinct (rc_order c) \<and> length (rc_order c) \<le> 256 \<and>
     (\<forall>kv \<in> set (rc_entries c). \<exists>host. fst kv = 36 # host \<and> snd kv = resolveHostsUncached e host)"

lemma pac_cache_new_ok: "pac_cache_ok e pac_cache_new"
  by (simp add: pac_cache_ok_def pac_cache_new_def jm_keys_def)

lemma delete_first: "distinct (k # map fst xs) \<Longrightarrow> jm_delete k ((k, v) # xs) = xs"
  by (auto simp: jm_delete_def filter_id_conv)

lemma set_fresh: "\<not> jm_has k m \<Longrightarrow> jm_set k v m = m @ [(k, v)]"
  by (simp add: jm_set_def)

lemma resolveHosts_cached:
  assumes "pac_cache_ok e c"
  shows "fst (resolveHosts e host c) = resolveHostsUncached e host \<and> pac_cache_ok e (snd (resolveHosts e host c))"
proof (cases "map_of (rc_entries c) (36 # host)")
  case (Some entries)
  then have "(36 # host, entries) \<in> set (rc_entries c)" by (rule map_of_SomeD)
  then show ?thesis using assms Some by (fastforce simp: resolveHosts_def pac_cache_ok_def)
next
  case None
  define r where "r = resolveHostsUncached e host"
  show ?thesis
  proof (cases "r = [host]")
    case True
    then show ?thesis using assms None by (simp add: resolveHosts_def r_def)
  next
    case False
    define c1 where "c1 = (if resolvedHostCacheLimit \<le> length (rc_order c)
       then (case rc_order c of [] \<Rightarrow> c
         | expiredKey # order \<Rightarrow> \<lparr>rc_entries = jm_delete expiredKey (rc_entries c), rc_order = order\<rparr>) else c)"
    have "set (rc_order c) = fst ` set (rc_entries c)" using assms by (metis pac_cache_ok_def jm_keys_def list.set_map)
    then have fresh: "36 # host \<notin> set (rc_order c)" using None by (simp add: map_of_eq_None_iff)
    have c1: "jm_keys (rc_entries c1) = rc_order c1 \<and> distinct (rc_order c1) \<and> length (rc_order c1) < 256 \<and>
        set (rc_entries c1) \<subseteq> set (rc_entries c) \<and> set (rc_order c1) \<subseteq> set (rc_order c)"
    proof (cases "256 \<le> length (rc_order c)")
      case True
      then obtain k order where k: "rc_order c = k # order" by (cases "rc_order c") auto
      then obtain v xs where x: "rc_entries c = (k, v) # xs" "map fst xs = order"
        using assms by (auto simp: pac_cache_ok_def jm_keys_def map_eq_Cons_conv)
      then have "jm_delete k (rc_entries c) = xs" using delete_first [of k xs v] assms k by (simp add: pac_cache_ok_def)
      then show ?thesis using True k x assms by (auto simp: c1_def resolvedHostCacheLimit_def pac_cache_ok_def jm_keys_def)
    next
      case False
      then show ?thesis using assms by (auto simp: c1_def resolvedHostCacheLimit_def pac_cache_ok_def)
    qed
    then have "\<not> jm_has (36 # host) (rc_entries c1)" using fresh by (auto simp: jm_has_def)
    then have "pac_cache_ok e \<lparr>rc_entries = jm_set (36 # host) r (rc_entries c1), rc_order = rc_order c1 @ [36 # host]\<rparr>"
      using c1 fresh assms by (auto simp: pac_cache_ok_def set_fresh jm_keys_def r_def)
    then show ?thesis using None False by (simp add: resolveHosts_def Let_def r_def [symmetric] c1_def [symmetric])
  qed
qed

lemma find_cached:
  assumes "pac_cache_ok e c"
  shows "fst (FindProxyForURL e p host c) = fst (FindProxyForURL e p host pac_cache_new) \<and>
    pac_cache_ok e (snd (FindProxyForURL e p host c))"
proof -
  have "fst (resolveHosts e h c) = fst (resolveHosts e h pac_cache_new)" "pac_cache_ok e (snd (resolveHosts e h c))" for h
    using resolveHosts_cached [OF assms, of h] resolveHosts_cached [OF pac_cache_new_ok, of e h] by simp_all
  then show ?thesis using assms by (auto simp: FindProxyForURL_def Let_def split: prod.splits) (metis fst_conv snd_conv)+
qed

definition pac_history :: "pac_env \<Rightarrow> pac \<Rightarrow> jsstring list \<Rightarrow> pac_cache" where
  "pac_history e p hosts = fold (\<lambda>host c. snd (FindProxyForURL e p host c)) hosts pac_cache_new"

lemma pac_history_ok: "pac_cache_ok e (pac_history e p hosts)"
proof -
  have "pac_cache_ok e c \<Longrightarrow> pac_cache_ok e (fold (\<lambda>host c. snd (FindProxyForURL e p host c)) hosts c)" for c
    by (induction hosts arbitrary: c) (auto simp: find_cached)
  then show ?thesis by (simp add: pac_history_def pac_cache_new_ok)
qed

section \<open>The answer\<close>

lemma proxy_not_direct: "pac_proxy (pac_of rules h port protocol mode direct proxied) \<noteq> DIRECT"
  by (simp add: pac_of_def buildProxyPac_def buildPacProxyReturn_def DIRECT_def Let_def)

lemma no_lookup_no_hit:
  assumes "\<not> looks_up p" "p = pac_of rules h port protocol mode direct proxied"
  shows "\<not> resolved_hit e (pac_proxyResolvedExactIps p) (pac_ipChecks p) x xs"
    "\<not> resolved_hit e (pac_learnedResolvedExactIps p) (pac_learnedIpChecks p) x xs"
proof -
  have "pac_proxyResolvedExactIps p = [] \<and> pac_ipChecks p = [] \<and> pac_learnedResolvedExactIps p = [] \<and> pac_learnedIpChecks p = []"
  proof (cases "pac_resolvesHosts p")
    case True
    then show ?thesis using assms(1) by (simp add: looks_up_def)
  next
    case False
    then show ?thesis
      by (simp add: assms(2) pac_of_def buildProxyPac_def Let_def domainLookupLiteral_def to_set_def)
  qed
  then show "\<not> resolved_hit e (pac_proxyResolvedExactIps p) (pac_ipChecks p) x xs"
    "\<not> resolved_hit e (pac_learnedResolvedExactIps p) (pac_learnedIpChecks p) x xs" by (simp_all add: resolved_hit_def)
qed

lemma find_answer:
  assumes "p = pac_of rules h port protocol mode direct proxied" "strip_bracket_ends (js_lower host0) = host"
    and "resolveHostsUncached e host = entries_of host as" "net_functions e host as" "list_all ip_ok as" "literal_known host as"
  shows "fst (FindProxyForURL e p host0 (pac_history e q hosts)) = pac_proxy p \<longleftrightarrow>
    (\<exists>r \<in> set rules. names_domain r host) \<or> host \<in> set (pac_proxyExactIps p) \<or>
    (let local = pac_isLocalDestination host \<or> suffix_walk (normalizeProcessRouteDirectDomains direct) host in
      (\<not> local \<and> (mode = ProxyAll \<or> suffix_walk (normalizeProcessRouteDirectDomains proxied) host)) \<or>
      (\<exists>r \<in> set rules. \<not> learned_rule r \<and> (\<exists>a \<in> set as. names_ip r a)) \<or>
      (\<not> local \<and> (\<exists>r \<in> set rules. learned_rule r \<and> (\<exists>a \<in> set as. names_ip r a))))"
proof -
  obtain c1 where r: "resolveHosts e host (pac_history e q hosts) = (entries_of host as, c1)"
    using resolveHosts_cached [OF pac_history_ok, of e host q hosts] assms(3) by (cases "resolveHosts e host (pac_history e q hosts)") auto
  define rh where "rh = (if pac_needsIpv4Dns p then firstIpv4OrHost (entries_of host as) host else host)"
  have "rh \<in> insert host (set (entries_of host as))"
    by (auto simp: rh_def firstIpv4OrHost_def find_Some_iff split: option.split)
  note hits = resolved_rules [OF assms(4-6) this assms(1)]
  have user: "user_rule_hit p host \<longleftrightarrow> (\<exists>r \<in> set rules. names_domain r host) \<or> host \<in> set (pac_proxyExactIps p)"
    using names_by_keys [of rules host h port protocol mode direct proxied] by (auto simp: user_rule_hit_def assms(1))
  have mode: "pac_mode p = mode" by (simp add: assms(1) pac_of_def buildProxyPac_def Let_def)
  note none = no_lookup_no_hit [OF _ assms(1), of e rh "entries_of host as", unfolded hits]
  have ne: "DIRECT \<noteq> pac_proxy p" using proxy_not_direct assms(1) by metis
  show ?thesis
    unfolding FindProxyForURL_def assms(2) Let_def user mode r prod.case rh_def [symmetric] hits
      list_keys [of host rules h port protocol mode direct proxied, folded assms(1)]
    using ne none by (auto split: if_splits)
qed

section \<open>Names\<close>

text \<open>A host that is a name: labels as the validator has them, in lower case, and not in the form of an address.\<close>

definition web_name :: "jsstring \<Rightarrow> bool" where
  "web_name d \<longleftrightarrow> list_all domain_label (split_on [46] d) \<and> length d \<le> 253 \<and> js_lower d = d \<and> pac_ipv4 d = None"

lemma web_name_units:
  assumes "web_name d"
  shows "\<forall>u \<in> set d. is_alnum u \<or> u = 45 \<or> u = 46" "d \<noteq> []" "\<not> ends_with [46] d" "hd d \<noteq> 42"
proof -
  have l: "list_all domain_label (split_on [46] d)" using assms by (simp add: web_name_def)
  show u: "\<forall>u \<in> set d. is_alnum u \<or> u = 45 \<or> u = 46"
  proof
    fix u assume "u \<in> set d"
    then consider "u = 46" | w where "w \<in> set (split_on [46] d)" "u \<in> set w" using set_split_on [of d "[46]"] by auto
    then show "is_alnum u \<or> u = 45 \<or> u = 46"
    proof cases
      case 2
      then have "domain_label w" using l by (simp add: list_all_iff)
      then have "\<forall>u \<in> set w. is_alnum u \<or> u = 45"
        by (cases w; cases "tl w" rule: rev_cases) (auto simp: domain_label_def list_all_iff)
      then show ?thesis using 2(2) by blast
    qed simp
  qed
  show "d \<noteq> []" using l by (auto simp: domain_label_def)
  show "\<not> ends_with [46] d"
  proof
    assume "ends_with [46] d"
    then obtain z where "d = z @ [46]" by (auto simp: ends_with_iff)
    then obtain w ws where "split_on [46] d = (w # ws) @ [[]]" using ends_dot_split by blast
    then show False using l by (simp add: domain_label_def)
  qed
  then show "hd d \<noteq> 42" using u \<open>d \<noteq> []\<close> by (cases d) (auto simp: is_alnum_def is_alpha_def is_digit_def)
qed

lemma web_name_text:
  assumes "web_name d"
  shows "js_trim d = d" "js_lower d = d" "strip_brackets d = d" "strip_bracket_ends d = d" "strip_final_dot d = d" "route_name d = d"
    "58 \<notin> set d" "\<not> starts_with (js ''*.'') d"
proof -
  note u = web_name_units [OF assms]
  have "\<not> js_ws v" if "v \<in> set d" for v
    using u(1) that by (fastforce simp: is_alnum_def is_alpha_def is_digit_def js_ws_def)
  then show t: "js_trim d = d" by (blast intro: js_trim_id)
  show l: "js_lower d = d" using assms by (simp add: web_name_def)
  have "91 \<notin> set d" "93 \<notin> set d" using u(1) by (auto simp: is_alnum_def is_alpha_def is_digit_def)
  then show "strip_brackets d = d" "strip_bracket_ends d = d"
    by (cases d; auto simp: strip_brackets_def strip_bracket_ends_def starts_with_def ends_with_iff Let_def)+
  show f: "strip_final_dot d = d" using u(3) by (simp add: strip_final_dot_def)
  show "route_name d = d" by (simp add: route_name_def t l f)
  show "58 \<notin> set d" using u(1) by (auto simp: is_alnum_def is_alpha_def is_digit_def)
  show "\<not> starts_with (js ''*.'') d" using u(2,4) by (cases d) (auto simp: starts_with_def)
qed

lemma short_octet:
  assumes "all_digits w" "\<not> (1 < length w \<and> starts_with [48] w)" "radix_value 10 w \<le> 255"
  shows "length w \<le> 3"
proof (rule ccontr)
  assume "\<not> length w \<le> 3"
  then obtain u t where w: "w = u # t" "3 \<le> length t" by (cases w) auto
  have low: "a * 10 ^ length s \<le> foldl (\<lambda>a u. 10 * a + digit_val u) a s" for a s
  proof (induction s arbitrary: a)
    case (Cons v s)
    have "a * 10 ^ length (v # s) \<le> (10 * a + digit_val v) * 10 ^ length s" by (simp add: algebra_simps)
    also have "\<dots> \<le> foldl (\<lambda>a u. 10 * a + digit_val u) (10 * a + digit_val v) s" by (rule Cons.IH)
    finally show ?case by simp
  qed simp
  have "is_digit u" "u \<noteq> 48" using assms(1,2) w by (auto simp: all_digits_def starts_with_def)
  then have "1 \<le> digit_val u" by (auto simp: is_digit_def digit_val_def)
  moreover have "(1000 :: nat) \<le> 10 ^ length t" using power_increasing [OF w(2), of "10 :: nat"] by simp
  ultimately have "1000 \<le> digit_val u * 10 ^ length t" using mult_le_mono [of 1 "digit_val u" 1000] by simp
  also have "\<dots> \<le> radix_value 10 w" using low [of "digit_val u" t] by (simp add: radix_value_def w(1))
  finally show False using assms(3) by simp
qed

lemma parse_ipv4_shape: "parseIpv4 s \<noteq> None \<Longrightarrow> pac_ipv4 s \<noteq> None"
  using short_octet unfolding isValidIpv4_parse [symmetric]
  by (fastforce simp: isValidIpv4_def pac_ipv4_def Let_def all_digits_def list_all_iff Suc_le_eq split: if_splits)

lemma web_name_no_address:
  assumes "web_name d"
  shows "parseIpAddressUnmapped d = None"
proof -
  have "parseIpv4 d = None" by (cases "parseIpv4 d") (use parse_ipv4_shape [of d] assms in \<open>auto simp: web_name_def\<close>)
  then show ?thesis using web_name_text [OF assms]
    by (simp add: parseIpAddressUnmapped_def parseIpAddress_def dotted_tail_def last_index_of_def index_of_None [THEN iffD2])
qed

lemma web_name_not_printed: "web_name d \<Longrightarrow> ip_ok b \<Longrightarrow> d \<noteq> print_ip b"
  using web_name_no_address [of d] unmapped_print [of b] by auto

lemma web_name_local:
  assumes "web_name d"
  shows "isLocalDestinationHost d \<longleftrightarrow> 46 \<notin> set d \<or> ends_with (js ''.local'') d"
    "pac_isLocalDestination d \<longleftrightarrow> 46 \<notin> set d \<or> ends_with (js ''.local'') d"
proof -
  have "d = js ''localhost'' \<Longrightarrow> 46 \<notin> set d" by simp
  then show "isLocalDestinationHost d \<longleftrightarrow> 46 \<notin> set d \<or> ends_with (js ''.local'') d"
    using web_name_text [OF assms] web_name_units(2) [OF assms] web_name_no_address [OF assms]
    by (auto simp: isLocalDestinationHost_def Let_def)
  show "pac_isLocalDestination d \<longleftrightarrow> 46 \<notin> set d \<or> ends_with (js ''.local'') d"
    using web_name_text [OF assms] web_name_units(2) [OF assms] assms
    by (simp add: pac_isLocalDestination_def web_name_def)
qed

lemma web_name_listed:
  assumes "web_name d"
  shows "isDomainCoveredByDirectDomainSuffixes d suffixes \<longleftrightarrow> 46 \<in> set d \<and> suffix_walk suffixes d"
proof -
  have "vr_ok (validateRoutingRuleValue DomainRule d) \<longleftrightarrow> 46 \<in> set d"
  proof -
    have "2 \<le> length (split_on [46] d) \<longleftrightarrow> 46 \<in> set d"
    proof (cases "46 \<in> set d")
      case True
      then obtain a b where "d = a @ 46 # b" "46 \<notin> set a" by (meson split_list_first)
      then have "split_on [46] d = a # split_on [46] b" "split_on [46] b \<noteq> []" by (simp_all add: split_on_step)
      then show ?thesis using True by (cases "split_on [46] b") auto
    next
      case False
      then show ?thesis by (simp add: split_on_absent)
    qed
    then show ?thesis
      using web_name_text [OF assms] web_name_units(2) [OF assms] assms
      by (auto simp: validateRoutingRuleValue_def validateDomainPattern_def Let_def web_name_def)
  qed
  then show ?thesis
    using web_name_text [OF assms] by (simp add: isDomainCoveredByDirectDomainSuffixes_def)
qed

text \<open>C33: For a host name the PAC answers as the traffic policy does for that name, except that it also
  looks the name up: then a rule of the user's for an address it has claims it, and an address learned
  for an application claims it where neither the local network nor the direct list keeps it out.  What
  was asked before does not matter.\<close>

theorem pac_routes_names:
  assumes "web_name d" "lookup_answers e d as" "net_functions e d as"
  shows "let p = pac_of rules host proxyPort protocol mode direct proxied in
    fst (FindProxyForURL e p d (pac_history e p hosts)) = pac_proxy p \<longleftrightarrow>
    rm_shouldProxy (decide (pac_policy mode rules direct proxied) Tcp
      \<lparr>td_destinationDomain = Some d, td_destinationIp = None, td_processName = None\<rparr> port) \<or>
    (\<exists>r \<in> set rules. \<exists>a \<in> set as. names_ip r a \<and>
      (learned_rule r \<longrightarrow> \<not> isLocalDestinationHost d \<and> \<not> isDomainCoveredByDirectDomains d direct))"
proof -
  define p where l: "p = pac_of rules host proxyPort protocol mode direct proxied"
  let ?t = "\<lparr>td_destinationDomain = Some d, td_destinationIp = None, td_processName = None\<rparr>"
  note plain = web_name_text [OF assms(1)]
  have ok: "list_all ip_ok as" using assms(2) by (simp add: lookup_answers_def)
  have lit: "literal_known d as" using web_name_not_printed [OF assms(1)] by (auto simp: literal_known_def)
  have "d \<notin> set (pac_proxyExactIps p)"
  proof
    assume "d \<in> set (pac_proxyExactIps p)"
    then obtain x where x: "x \<in> set (pac_ip_rules (valid_rules rules))" "d = exact_address (pi_range x)"
      unfolding l pac_of_def buildProxyPac_def Let_def pac.select_convs lookup_keys by auto
    then have "range_ok (pi_range x)" using ip_rules(2) by (metis parseCidrRange_Some)
    then show False using web_name_not_printed [OF assms(1), of "exact_of (pi_range x)"] x(2)
      by (simp add: exact_print exact_of_def ip_ok_def range_ok_def)
  qed
  have b: "strip_bracket_ends (js_lower d) = d" using plain by simp
  define N L D X U G where "N \<longleftrightarrow> (\<exists>r \<in> set rules. names_domain r d)" and "L \<longleftrightarrow> isLocalDestinationHost d"
    and "D \<longleftrightarrow> suffix_walk (normalizeProcessRouteDirectDomains direct) d" and "X \<longleftrightarrow> suffix_walk (normalizeProcessRouteDirectDomains proxied) d"
    and "U \<longleftrightarrow> (\<exists>r \<in> set rules. \<not> learned_rule r \<and> (\<exists>a \<in> set as. names_ip r a))"
    and "G \<longleftrightarrow> (\<exists>r \<in> set rules. learned_rule r \<and> (\<exists>a \<in> set as. names_ip r a))"
  note defs = this
  have same: "pac_isLocalDestination d = L" unfolding defs web_name_local [OF assms(1)] ..
  have dot: "46 \<notin> set d \<Longrightarrow> L" unfolding defs web_name_local(1) [OF assms(1)] by blast
  from find_answer [OF l b uncached_entries [OF assms(2)] assms(3) ok lit, of p hosts]
  have F: "fst (FindProxyForURL e p d (pac_history e p hosts)) = pac_proxy p \<longleftrightarrow>
      N \<or> \<not> (L \<or> D) \<and> (mode = ProxyAll \<or> X) \<or> U \<or> \<not> (L \<or> D) \<and> G"
    using \<open>d \<notin> set (pac_proxyExactIps p)\<close> by (simp only: same Let_def defs [symmetric] simp_thms)
  have P: "rm_shouldProxy (decide (pac_policy mode rules direct proxied) Tcp ?t port) \<longleftrightarrow>
      N \<or> \<not> L \<and> \<not> isDomainCoveredByDirectDomains d direct \<and>
        (mode = ProxyAll \<or> isDomainCoveredByDirectDomainSuffixes d (normalizeProcessRouteDirectDomains proxied))"
  proof -
    have "domain_rule_hits ?t = (\<lambda>r. names_domain r d)" "ip_rule_hits ?t = (\<lambda>r. False)" "process_rule_hits ?t = (\<lambda>r. False)"
      using plain web_name_units(2) [OF assms(1)]
      by (auto simp: domain_rule_hits_def ip_rule_hits_def process_rule_hits_def traffic_domain_def traffic_ip_def)
    then show ?thesis
      using web_name_units(2) [OF assms(1)]
      unfolding pac_policy_def tunnelled_cases defs
      by (auto simp: list_ex_iff isProtectedSshConnection_def policy_new_def isLocalDestination_def on_list_def isDomainCoveredByDirectDomains_def)
  qed
  have "(\<exists>r \<in> set rules. \<exists>a \<in> set as. names_ip r a \<and> (learned_rule r \<longrightarrow> \<not> L \<and> \<not> (46 \<in> set d \<and> D))) \<longleftrightarrow>
      U \<or> G \<and> \<not> L \<and> \<not> (46 \<in> set d \<and> D)" unfolding defs by blast
  then show ?thesis
    unfolding Let_def l [symmetric] F P isDomainCoveredByDirectDomains_def web_name_listed [OF assms(1)]
    using dot unfolding defs by blast
qed

section \<open>A browser that keeps the contract\<close>

lemma parse_printed_range:
  assumes "range_ok g"
  shows "parseCidrRange (formatCidrRange g) = Some g"
proof -
  let ?a = "exact_of g" and ?p = "cr_prefixLength g"
  have ok: "ip_ok ?a" using assms by (simp add: ip_ok_def range_ok_def exact_of_def)
  have f: "formatCidrRange g = print_ip ?a @ 47 # dec ?p"
    by (cases "cr_version g") (simp_all add: formatCidrRange_def print_ip_def exact_of_def)
  have d: "list_all is_digit (dec ?p)" "dec ?p \<noteq> []" using radix_string_digits by (auto simp: dec_def list_all_iff)
  have u: "u \<noteq> 47 \<and> \<not> js_ws u" if "u \<in> set (print_ip ?a)" for u using print_ip_unit [OF that] by (auto simp: is_digit_def js_ws_def)
  have "\<not> js_ws 47" by (simp add: js_ws_def)
  then have "\<forall>w \<in> set (formatCidrRange g). \<not> js_ws w" using d u by (auto simp: f list_all_iff is_digit_not_ws)
  then have t: "js_trim (formatCidrRange g) = formatCidrRange g" by (rule js_trim_id)
  have "47 \<notin> set (print_ip ?a)" "47 \<notin> set (dec ?p)" using u d(1) by (auto simp: list_all_iff is_digit_def)
  then have s: "split_on [47] (formatCidrRange g) = [print_ip ?a, dec ?p]" by (simp add: f split_on_step split_on_absent)
  have n: "js_number (dec ?p) = Some ?p" using assms d js_number_digits [of "dec ?p"] radix_dec(1) [of ?p]
    by (simp add: all_digits_def range_ok_def)
  have "cr_network g AND prefixToMask (version_bits (cr_version g)) ?p = cr_network g"
    using assms and_prefixToMask [of "cr_network g" "version_bits (cr_version g)" ?p] by (simp add: range_ok_def range_shift_def)
  then show ?thesis
    using assms print_ip_parse [OF ok] print_ip_text(3) [OF ok]
    by (simp add: parseCidrRange_def t s n Let_def range_ok_def exact_of_def)
qed

lemma uint_mask: "0 \<le> p \<Longrightarrow> p \<le> 32 \<Longrightarrow> uint (if p = 0 then 0 else push_bit (nat (32 - p)) (-1 :: 32 word)) = prefixToMask 32 p"
proof -
  assume p: "0 \<le> p" "p \<le> 32"
  then obtain k where k: "p = int k" "k \<le> 32" by (metis nonneg_int_cases of_nat_le_iff of_nat_numeral)
  have "uint (push_bit (32 - k) (-1 :: 32 word)) = push_bit (32 - k) (mask k)"
  proof (rule bit_eqI)
    fix n show "bit (uint (push_bit (32 - k) (-1 :: 32 word))) n = bit (push_bit (32 - k) (mask k :: int)) n"
      using k(2) by (auto simp: bit_simps)
  qed
  then show ?thesis using k by (cases "k = 0") (simp_all add: prefixToMask_eq nat_diff_distrib' prefixToMask_def mask_eq_exp_minus_1)
qed

lemma dotted_mask_format:
  assumes "0 \<le> p" "p \<le> 32"
  shows "dotted_mask p = formatIpv4 (prefixToMask 32 p)"
proof -
  have "uint (drop_bit s w AND 255) = drop_bit s (uint w) AND 255" for s and w :: "32 word"
    using uint_lt2p [of w] by (simp add: unsigned_and_eq unsigned_drop_bit_eq take_bit_int_eq_self)
  then show ?thesis using assms uint_mask [OF assms] by (simp add: dotted_mask_def formatIpv4_def Let_def not_less)
qed

definition table_addresses :: "(jsstring \<times> parsed_ip list) list \<Rightarrow> jsstring \<Rightarrow> parsed_ip list" where
  "table_addresses dns host = (case parseIpAddress host of
     Some a \<Rightarrow> [a] | None \<Rightarrow> (case map_of dns host of Some as \<Rightarrow> as | None \<Rightarrow> []))"

definition table_env :: "(jsstring \<times> parsed_ip list) list \<Rightarrow> pac_env" where
  "table_env dns = \<lparr>
     env_dnsResolveEx = (\<lambda>host. case table_addresses dns host of [] \<Rightarrow> None | as \<Rightarrow> Some (js_join (js '';'') (map print_ip as))),
     env_dnsResolve = (\<lambda>host. None),
     env_isInNet = (\<lambda>host network netmask. case (parseIpv4 network, parseIpv4 netmask) of
         (Some n, Some m) \<Rightarrow> list_ex (\<lambda>a. ip_version_of a = V4 \<and> (ip_value a AND ip_value m) = ip_value n) (table_addresses dns host)
       | _ \<Rightarrow> False),
     env_isInNetEx = Some (\<lambda>host r. case parseCidrRange r of None \<Rightarrow> False
       | Some g \<Rightarrow> list_ex (\<lambda>a. ipMatchesCidr a g) (table_addresses dns host))\<rparr>"

lemma table_env_net:
  "net_functions (table_env dns) host (table_addresses dns host)"
proof -
  have p: "table_addresses dns (print_ip a) = [a]" if "ip_ok a" for a using print_ip_parse [OF that] by (simp add: table_addresses_def)
  have m: "parseIpv4 (dotted_mask (cr_prefixLength g)) = Some \<lparr>ip_version_of = V4, ip_value = prefixToMask 32 (cr_prefixLength g)\<rparr> \<and>
     parseIpv4 (formatIpv4 (cr_network g)) = Some \<lparr>ip_version_of = V4, ip_value = cr_network g\<rparr>"
    if "range_ok g" "cr_version g = V4" for g
  proof -
    have b: "0 \<le> cr_prefixLength g" "cr_prefixLength g \<le> 32" using that by (simp_all add: range_ok_def)
    obtain w :: "32 word" where "prefixToMask 32 (cr_prefixLength g) = uint w" using uint_mask [OF b] by metis
    then have "0 \<le> prefixToMask 32 (cr_prefixLength g) \<and> prefixToMask 32 (cr_prefixLength g) < 2 ^ 32"
      using uint_lt2p [of w] by simp
    then show ?thesis using that b by (simp add: dotted_mask_format parseIpv4_format range_ok_def)
  qed
  show ?thesis
    using p m parse_printed_range by (auto simp: net_functions_def table_env_def ipMatchesCidr_def list_ex_iff)
qed

lemma table_env_answers:
  assumes "list_all ip_ok (table_addresses dns host)"
  shows "lookup_answers (table_env dns) host (table_addresses dns host)"
  using assms by (auto simp: lookup_answers_def table_env_def split: list.split)

section \<open>Literal addresses, and the cache\<close>

text \<open>The property at a name the browser resolves, with a rule for the range of its address.\<close>

theorem pac_routes_names_witness:
  "let p = pac_of [\<lparr>rr_id = [1], rr_type = IpRule, rr_value = js ''8.8.8.8'', rr_enabled = True\<rparr>] (js ''127.0.0.1'') 1080 MixedProxy SelectedRules [] [];
       e = table_env [(js ''a.com'', [\<lparr>ip_version_of = V4, ip_value = 0x08080808\<rparr>])] in
     fst (FindProxyForURL e p (js ''a.com'') (pac_history e p [js ''b.com''])) = pac_proxy p"
proof -
  let ?dns = "[(js ''a.com'', [\<lparr>ip_version_of = V4, ip_value = 0x08080808\<rparr>])]"
  let ?r = "\<lparr>rr_id = [1], rr_type = IpRule, rr_value = js ''8.8.8.8'', rr_enabled = True\<rparr>"
  have name: "web_name (js ''a.com'')"
    by (simp add: web_name_def domain_label_def is_alnum_def is_alpha_def is_digit_def lower_unit_def pac_ipv4_def)
  have a: "table_addresses ?dns (js ''a.com'') = [\<lparr>ip_version_of = V4, ip_value = 0x08080808\<rparr>]"
    by (simp add: table_addresses_def parseIpAddress_def js_trim_def js_trim_start_def js_trim_end_def js_ws_def parseIpv4_def)
  have ok: "list_all ip_ok (table_addresses ?dns (js ''a.com''))" unfolding a by (simp add: ip_ok_def)
  have valid: "isValidIpv4 (js ''8.8.8.8'')"
    by (simp add: isValidIpv4_def all_digits_def is_digit_def radix_value_def digit_val_def)
  have parse: "parseIpAddress (js ''8.8.8.8'') = Some \<lparr>ip_version_of = V4, ip_value = 0x08080808\<rparr>"
    using valid valid_ip_parses(1) [OF disjI1 [OF valid]]
    by (simp add: parseIpv4_def ipv4_octet_def all_digits_def is_digit_def radix_value_def digit_val_def starts_with_def push_bit_eq_mult)
  have "js_trim (js ''8.8.8.8'') = js ''8.8.8.8''" by (rule js_trim_id) (simp add: js_ws_def)
  then have "names_ip ?r \<lparr>ip_version_of = V4, ip_value = 0x08080808\<rparr>"
    using valid parse
    by (simp add: names_ip_def ip_rule_range_def normalizeRuleValue_def validateRoutingRuleValue_def validateIpOrCidr_def parseCidrRange_def ipMatchesCidr_def Let_def)
  moreover have "\<not> learned_rule ?r" by (simp add: learned_rule_def LEARNED_PROCESS_IP_RULE_PREFIX_def starts_with_def)
  ultimately show ?thesis
    using pac_routes_names [OF name table_env_answers [OF ok] table_env_net, of "[?r]" "js ''127.0.0.1''" 1080 MixedProxy SelectedRules "[]" "[]" "[js ''b.com'']" None]
    unfolding a Let_def by (simp del: js_simps)
qed



text \<open>The cache of looked-up hosts never changes an answer, whatever was asked before, and holds at most
  256 hosts.\<close>

theorem pac_cache_transparent:
  "fst (FindProxyForURL e p host (pac_history e p hosts)) = fst (FindProxyForURL e p host pac_cache_new) \<and>
     length (rc_order (pac_history e p hosts)) \<le> 256 \<and> jm_keys (rc_entries (pac_history e p hosts)) = rc_order (pac_history e p hosts)"
  using find_cached [OF pac_history_ok] pac_history_ok [of e p hosts] by (simp add: pac_cache_ok_def)

end
