(* ===== verification/ProxyOwnership.thy ===== *)
theory ProxyOwnership
  imports ProxyPac
begin

text \<open>
  What of the proxy settings of Windows belongs to the application
  (\<open>src/core/network/windows-system-proxy.ts\<close>): the values the static proxy writes
  (\<open>buildWindowsProxyServer\<close>, \<open>staticProxyOverride\<close>), how leftovers of them are recognised
  (\<open>isShadowStaticProxy\<close>, \<open>isShadowPacUrl\<close>) and taken out of the settings that are to be put back
  (\<open>withoutAppOwnedProxyValues\<close>).  Node's \<open>URL\<close> parser is a parameter.
\<close>

section \<open>The values of the static proxy\<close>

definition buildWindowsProxyServer :: "jsstring \<Rightarrow> int \<Rightarrow> proxy_protocol \<Rightarrow> jsstring" where
  "buildWindowsProxyServer host port proxyProtocol =
     (let endpoint = formatProxyEndpoint host port
      in if proxyProtocol = SocksProxy then js ''socks='' @ endpoint
         else js ''http='' @ endpoint @ js '';https='' @ endpoint)"

datatype endpoint_fault = NotLoopback | PortOutOfRange

text \<open>The port is a number of the configuration, an integer here.\<close>

definition assertLocalProxyEndpoint :: "jsstring \<Rightarrow> int \<Rightarrow> endpoint_fault + unit" where
  "assertLocalProxyEndpoint host port =
     (let normalizedHost = strip_bracket_ends (js_lower (js_trim host))
      in if normalizedHost \<noteq> js ''127.0.0.1'' \<and> normalizedHost \<noteq> js ''localhost'' \<and> normalizedHost \<noteq> js ''::1''
         then Inl NotLoopback
         else if port < 1 \<or> 65535 < port then Inl PortOutOfRange else Inr ())"

definition LOCAL_PROXY_OVERRIDE_ENTRIES :: "jsstring list" where
  "LOCAL_PROXY_OVERRIDE_ENTRIES = [js ''<local>'', js ''localhost'', js ''*.local'', js ''[::1]'']"

definition local_rule_of :: "rule_type \<Rightarrow> routing_rule \<Rightarrow> bool" where
  "local_rule_of kind rule =
     (rr_enabled rule \<and> vr_ok (validateRoutingRuleValue (rr_type rule) (rr_value rule)) \<and> rr_type rule = kind \<and>
      (let value = normalizeRuleValue (rr_type rule) (rr_value rule)
       in if kind = IpRule then overlapsLocalDestinationRange value
          else kind = DomainRule \<and> isLocalDestinationHost (if starts_with (js ''*.'') value then drop 2 value else value)))"

definition staticProxyOverride :: "routing_rule list \<Rightarrow> jsstring" where
  "staticProxyOverride rules =
     (let localIpRule = list_ex (local_rule_of IpRule) rules;
          localDomainRule = list_ex (local_rule_of DomainRule) rules
      in js_join (js '';'') (filter (\<lambda>entry.
           if entry = js ''<local>'' then \<not> localIpRule
           else if entry = js ''*.local'' then \<not> localIpRule \<and> \<not> localDomainRule
           else True) LOCAL_PROXY_OVERRIDE_ENTRIES))"

definition STATIC_PROXY_OVERRIDE_FORMS :: "jsstring list list" where
  "STATIC_PROXY_OVERRIDE_FORMS = map (map js_lower)
     [LOCAL_PROXY_OVERRIDE_ENTRIES,
      filter (\<lambda>entry. entry \<noteq> js ''*.local'') LOCAL_PROXY_OVERRIDE_ENTRIES,
      filter (\<lambda>entry. entry \<noteq> js ''*.local'' \<and> entry \<noteq> js ''<local>'') LOCAL_PROXY_OVERRIDE_ENTRIES]"

section \<open>Recognising leftovers\<close>

text \<open>
  The pattern \<open>^(?:http=([^;]+);https=\1|socks=([^;]+))$\<close> and the endpoint it captures: the first group
  is all that stands before the first semicolon.
\<close>

definition static_proxy_endpoint :: "jsstring \<Rightarrow> jsstring option" where
  "static_proxy_endpoint value =
     (let web = drop 5 value; first = takeWhile (\<lambda>u. u \<noteq> 59) web; socks = drop 6 value
      in if starts_with (js ''http='') value \<and> first \<noteq> [] \<and> web = first @ js '';https='' @ first then Some first
         else if starts_with (js ''socks='') value \<and> socks \<noteq> [] \<and> 59 \<notin> set socks then Some socks
         else None)"

text \<open>The pattern \<open>^(?:127\.0\.0\.1|localhost|\[::1\]):\d{1,5}$\<close>.\<close>

definition loopback_endpoint :: "jsstring \<Rightarrow> bool" where
  "loopback_endpoint endpoint \<longleftrightarrow>
     (\<exists>host \<in> set [js ''127.0.0.1:'', js ''localhost:'', js ''[::1]:''].
        starts_with host endpoint \<and>
        (let port = drop (length host) endpoint in port \<noteq> [] \<and> length port \<le> 5 \<and> list_all is_digit port))"

definition override_entries :: "jsstring \<Rightarrow> jsstring list" where
  "override_entries proxyOverride =
     to_set (filter (\<lambda>entry. entry \<noteq> []) (map (\<lambda>entry. js_lower (js_trim entry)) (split_on (js '';'') proxyOverride)))"

definition isShadowStaticProxy :: "jsstring option \<Rightarrow> jsstring option \<Rightarrow> bool" where
  "isShadowStaticProxy proxyServer proxyOverride =
     (case (proxyServer, proxyOverride) of
        (Some server, Some bypass) \<Rightarrow>
          server \<noteq> [] \<and> bypass \<noteq> [] \<and>
          (case static_proxy_endpoint (js_lower (js_trim server)) of
             None \<Rightarrow> False
           | Some endpoint \<Rightarrow>
               loopback_endpoint endpoint \<and>
               (let entries = override_entries bypass
                in (\<forall>entry \<in> set LOCAL_PROXY_OVERRIDE_ENTRIES. js_lower entry \<in> set entries) \<or>
                   list_ex (\<lambda>form. length form = length entries \<and> (\<forall>entry \<in> set form. entry \<in> set entries))
                     STATIC_PROXY_OVERRIDE_FORMS))
      | _ \<Rightarrow> False)"

definition withoutLocalOverrideEntries :: "jsstring option \<Rightarrow> jsstring option" where
  "withoutLocalOverrideEntries proxyOverride =
     (let remaining = filter (\<lambda>entry. entry \<noteq> [] \<and> js_lower entry \<notin> set (map js_lower LOCAL_PROXY_OVERRIDE_ENTRIES))
            (map js_trim (split_on (js '';'') (case proxyOverride of None \<Rightarrow> [] | Some s \<Rightarrow> s)))
      in if remaining \<noteq> [] then Some (js_join (js '';'') remaining) else None)"

text \<open>The protocol, host name and path of a URL, as Node's parser gives them; \<open>None\<close> when it throws.\<close>

record parsed_url =
  url_protocol :: jsstring
  url_hostname :: jsstring
  url_pathname :: jsstring

definition pac_path :: jsstring where "pac_path = js ''/shadow-ssh-routing.pac''"

definition isShadowPacUrl :: "(jsstring \<Rightarrow> parsed_url option) \<Rightarrow> jsstring \<Rightarrow> bool" where
  "isShadowPacUrl parse_url value =
     (case parse_url (js_trim value) of
        None \<Rightarrow> False
      | Some url \<Rightarrow>
          (let host = strip_bracket_ends (url_hostname url)
           in url_protocol url = js ''http:'' \<and>
              (host = js ''127.0.0.1'' \<or> host = js ''localhost'' \<or> host = js ''::1'') \<and>
              url_pathname url = pac_path))"

section \<open>The settings to put back\<close>

datatype snapshot_field = ProxyServerField | ProxyOverrideField | AutoConfigUrlField

record proxy_snapshot =
  ps_proxyEnable :: "jsstring option"
  ps_proxyServer :: "jsstring option"
  ps_proxyOverride :: "jsstring option"
  ps_autoConfigUrl :: "jsstring option"
  ps_autoDetect :: "jsstring option"
  ps_expandStrings :: "snapshot_field list option"

definition withoutAppOwnedProxyValues ::
  "(jsstring \<Rightarrow> parsed_url option) \<Rightarrow> proxy_snapshot \<Rightarrow> jsstring \<Rightarrow> int \<Rightarrow> proxy_snapshot" where
  "withoutAppOwnedProxyValues parse_url snapshot socksHost socksPort =
     (let ownStaticProxies = map (\<lambda>protocol. js_lower (buildWindowsProxyServer socksHost socksPort protocol)) [MixedProxy, SocksProxy];
          leftoverStaticProxy = isShadowStaticProxy (ps_proxyServer snapshot) (ps_proxyOverride snapshot);
          ownStaticProxy = leftoverStaticProxy \<or>
            (case ps_proxyServer snapshot of None \<Rightarrow> False | Some server \<Rightarrow> js_lower (js_trim server) \<in> set ownStaticProxies);
          ownPacUrl = (case ps_autoConfigUrl snapshot of None \<Rightarrow> False | Some url \<Rightarrow> isShadowPacUrl parse_url url)
      in if \<not> ownStaticProxy \<and> \<not> ownPacUrl then snapshot
         else let userOverride = (if leftoverStaticProxy then withoutLocalOverrideEntries (ps_proxyOverride snapshot)
                                  else ps_proxyOverride snapshot);
                  expandStrings = map_option (filter (\<lambda>field.
                    \<not> (ownStaticProxy \<and> field = ProxyServerField) \<and>
                    \<not> (ownPacUrl \<and> field = AutoConfigUrlField) \<and>
                    \<not> (userOverride = None \<and> field = ProxyOverrideField))) (ps_expandStrings snapshot)
              in snapshot\<lparr>
                   ps_proxyServer := (if ownStaticProxy then None else ps_proxyServer snapshot),
                   ps_proxyEnable := (if ownStaticProxy then map_option (\<lambda>_. js ''0'') (ps_proxyEnable snapshot)
                                      else ps_proxyEnable snapshot),
                   ps_proxyOverride := (if leftoverStaticProxy then userOverride else ps_proxyOverride snapshot),
                   ps_autoConfigUrl := (if ownPacUrl then None else ps_autoConfigUrl snapshot),
                   ps_expandStrings := (case expandStrings of Some (f # fs) \<Rightarrow> Some (f # fs) | _ \<Rightarrow> None)\<rparr>)"

definition snapshotStringType :: "proxy_snapshot \<Rightarrow> snapshot_field \<Rightarrow> bool" where
  "snapshotStringType snapshot field =
     (case ps_expandStrings snapshot of None \<Rightarrow> False | Some listed \<Rightarrow> field \<in> set listed)"

section \<open>Everything written is recognised\<close>

lemma lower_unit_bracket: "lower_unit u = [v] \<Longrightarrow> v \<in> {58, 59, 91, 93} \<longleftrightarrow> u \<in> {58, 59, 91, 93}"
  by (auto simp: lower_unit_def split: if_splits)

lemma set_js_lower_mark: "m \<in> {58, 59, 91, 93} \<Longrightarrow> m \<in> set (js_lower s) \<longleftrightarrow> m \<in> set s"
  by (induction s) (auto simp: lower_unit_def split: if_splits)

lemma js_lower_nonempty: "js_lower s = [] \<longleftrightarrow> s = []"
  by (cases s) (auto simp: lower_unit_def)

lemma strip_bracket_ends_lower: "strip_bracket_ends (js_lower s) = js_lower (strip_bracket_ends s)"
proof -
  have front: "starts_with (js ''['') (js_lower s) \<longleftrightarrow> starts_with (js ''['') s" for s
    by (cases s) (auto simp: starts_with_def lower_unit_def)
  have drop1: "starts_with (js ''['') s \<Longrightarrow> drop (Suc 0) (js_lower s) = js_lower (drop (Suc 0) s)" for s
    by (cases s) (auto simp: starts_with_def lower_unit_def)
  have rear: "ends_with (js '']'') (js_lower s) \<longleftrightarrow> ends_with (js '']'') s" for s
    by (cases s rule: rev_cases) (auto simp: ends_with_iff lower_unit_def)
  have butlast1: "ends_with (js '']'') s \<Longrightarrow> butlast (js_lower s) = js_lower (butlast s)" for s
    by (auto simp: ends_with_iff lower_unit_def)
  show ?thesis
    unfolding strip_bracket_ends_def Let_def
    by (cases "starts_with (js ''['') s") (simp_all add: front drop1 rear butlast1 del: js_simps)
qed

definition loopback_hosts :: "jsstring list" where
  "loopback_hosts = [js ''127.0.0.1:'', js ''localhost:'', js ''[::1]:'']"

lemma lower_endpoint:
  assumes "assertLocalProxyEndpoint host port = Inr ()"
  obtains h where "h \<in> set loopback_hosts" "js_lower (formatProxyEndpoint host port) = h @ dec port" "1 \<le> port" "port \<le> 65535"
proof -
  let ?n = "strip_bracket_ends (js_trim host)"
  have n: "js_lower ?n \<in> {js ''127.0.0.1'', js ''localhost'', js ''::1''}" and port: "1 \<le> port" "port \<le> 65535"
    using assms by (auto simp: assertLocalProxyEndpoint_def Let_def strip_bracket_ends_lower simp del: js_simps split: if_splits)
  have colon: "58 \<in> set ?n \<longleftrightarrow> 58 \<in> set (js_lower ?n)" by (simp add: set_js_lower_mark)
  have dec_lower: "js_lower (dec port) = dec port"
    using port by (intro js_lower_id) (auto simp: dec_def lower_unit_def is_digit_def dest!: radix_string_digits)
  have "js_lower (formatProxyEndpoint host port) \<in> (\<lambda>h. h @ dec port) ` set loopback_hosts"
    using n colon dec_lower by (auto simp: formatProxyEndpoint_def Let_def loopback_hosts_def lower_unit_def)
  then show ?thesis using that port by auto
qed

lemma override_written:
  "staticProxyOverride rules \<in> {js ''<local>;localhost;*.local;[::1]'', js ''<local>;localhost;[::1]'', js ''localhost;[::1]''}"
  by (cases "list_ex (local_rule_of IpRule) rules"; cases "list_ex (local_rule_of DomainRule) rules")
    (simp_all add: staticProxyOverride_def LOCAL_PROXY_OVERRIDE_ENTRIES_def)

lemma override_recognised:
  "let entries = override_entries (staticProxyOverride rules)
   in (\<forall>entry \<in> set LOCAL_PROXY_OVERRIDE_ENTRIES. js_lower entry \<in> set entries) \<or>
      list_ex (\<lambda>form. length form = length entries \<and> (\<forall>entry \<in> set form. entry \<in> set entries)) STATIC_PROXY_OVERRIDE_FORMS"
  using override_written [of rules]
  by (elim insertE emptyE; simp add: override_entries_def to_set_def set_add_def STATIC_PROXY_OVERRIDE_FORMS_def
      LOCAL_PROXY_OVERRIDE_ENTRIES_def js_trim_def js_trim_start_def js_trim_end_def js_ws_def lower_unit_def)

lemma endpoint_recognised:
  assumes "h \<in> set loopback_hosts" "1 \<le> port" "port \<le> 65535"
  shows "loopback_endpoint (h @ dec port)" "59 \<notin> set (h @ dec port)"
proof -
  have digits: "list_all is_digit (dec port)" by (auto simp: list_all_iff dec_def dest: radix_string_digits)
  have "dec port \<noteq> []" by (simp add: dec_def)
  moreover have "length (dec port) \<le> 5" unfolding dec_def by (rule radix_string_length) (use assms in simp_all)
  ultimately show "loopback_endpoint (h @ dec port)"
    using assms(1) digits unfolding loopback_endpoint_def loopback_hosts_def Let_def
    by (intro bexI [of _ h]) (simp_all del: js_simps)
  show "59 \<notin> set (h @ dec port)"
    using assms(1) digits by (auto simp: loopback_hosts_def list_all_iff is_digit_def)
qed

lemma static_proxy_endpoint_web:
  assumes "e \<noteq> []" "59 \<notin> set e"
  shows "static_proxy_endpoint (js ''http='' @ e @ js '';https='' @ e) = Some e"
    and "static_proxy_endpoint (js ''socks='' @ e) = Some e"
proof -
  have "takeWhile (\<lambda>u. u \<noteq> 59) (e @ 59 # r) = e" for r
    using assms(2) by (metis (full_types, lifting) takeWhile.simps(2) takeWhile_append2 append.right_neutral)
  then show "static_proxy_endpoint (js ''http='' @ e @ js '';https='' @ e) = Some e"
    using assms by (simp add: static_proxy_endpoint_def starts_with_def)
  show "static_proxy_endpoint (js ''socks='' @ e) = Some e"
    using assms by (simp add: static_proxy_endpoint_def starts_with_def)
qed

lemma trim_proxy_server:
  assumes "assertLocalProxyEndpoint host port = Inr ()"
  shows "js_trim (buildWindowsProxyServer host port protocol) = buildWindowsProxyServer host port protocol"
    and "buildWindowsProxyServer host port protocol \<noteq> []"
proof -
  have "\<exists>p. formatProxyEndpoint host port = p @ dec port" by (auto simp: formatProxyEndpoint_def Let_def)
  then obtain p where "formatProxyEndpoint host port = p @ dec port" by blast
  then have "\<exists>c q. buildWindowsProxyServer host port protocol = c # q @ dec port \<and> \<not> js_ws c"
    by (auto simp: buildWindowsProxyServer_def Let_def js_ws_def)
  then obtain c q where shape: "buildWindowsProxyServer host port protocol = c # q @ dec port" "\<not> js_ws c" by blast
  have "\<not> js_ws (last (dec port))"
    unfolding dec_def by (rule is_digit_not_ws, rule radix_string_digits, rule last_in_set) simp
  then show "js_trim (buildWindowsProxyServer host port protocol) = buildWindowsProxyServer host port protocol"
    using shape by (intro js_trim_solid) (simp_all add: dec_def)
  show "buildWindowsProxyServer host port protocol \<noteq> []" using shape by simp
qed

lemma lower_proxy_server:
  "js_lower (buildWindowsProxyServer host port protocol) =
     (if protocol = SocksProxy then js ''socks='' @ js_lower (formatProxyEndpoint host port)
      else js ''http='' @ js_lower (formatProxyEndpoint host port) @ js '';https='' @ js_lower (formatProxyEndpoint host port))"
  by (simp add: buildWindowsProxyServer_def Let_def lower_unit_def)

lemma static_proxy_shape:
  assumes "assertLocalProxyEndpoint host port = Inr ()"
  obtains e where "static_proxy_endpoint (js_lower (js_trim (buildWindowsProxyServer host port protocol))) = Some e"
    "loopback_endpoint e"
proof -
  obtain h where h: "h \<in> set loopback_hosts" "js_lower (formatProxyEndpoint host port) = h @ dec port" "1 \<le> port" "port \<le> 65535"
    using lower_endpoint [OF assms] by blast
  note known = endpoint_recognised [OF h(1,3,4)]
  have "h @ dec port \<noteq> []" by (simp add: dec_def)
  then have "static_proxy_endpoint (js_lower (js_trim (buildWindowsProxyServer host port protocol))) = Some (h @ dec port)"
    using static_proxy_endpoint_web [OF _ known(2)] trim_proxy_server [OF assms]
    by (simp add: lower_proxy_server h(2) del: js_simps append_assoc)
  then show ?thesis using that known(1) by blast
qed

text \<open>C37: Every static proxy the application can write is recognised as its own afterwards, whatever
  the port and the rules were then.
\<close>

theorem static_proxy_recognised:
  assumes "assertLocalProxyEndpoint host port = Inr ()"
  shows "isShadowStaticProxy (Some (buildWindowsProxyServer host port protocol)) (Some (staticProxyOverride rules))"
proof -
  obtain e where "static_proxy_endpoint (js_lower (js_trim (buildWindowsProxyServer host port protocol))) = Some e"
    "loopback_endpoint e"
    by (rule static_proxy_shape [OF assms])
  moreover have "staticProxyOverride rules \<noteq> []" using override_written [of rules] by auto
  ultimately show ?thesis
    using trim_proxy_server(2) [OF assms, of protocol] override_recognised [of rules]
    by (simp only: isShadowStaticProxy_def prod.case option.case simp_thms not_False_eq_True)
qed

theorem static_proxy_recognised_witness:
  "isShadowStaticProxy (Some (buildWindowsProxyServer (js ''[::1]'') 1080 MixedProxy)) (Some (staticProxyOverride []))"
  by (rule static_proxy_recognised)
    (simp add: assertLocalProxyEndpoint_def js_trim_def js_trim_start_def js_trim_end_def js_ws_def lower_unit_def
      strip_bracket_ends_def starts_with_def ends_with_def)

end
