(* ===== verification/JsonText.thy ===== *)
theory JsonText
  imports Utf8 IpAddress
begin

text \<open>
  JSON: the values \<open>JSON.parse\<close> makes, and the compact text \<open>JSON.stringify\<close> writes for them.  Reading a
  text is the platform's and stays a parameter of what uses it.
\<close>

section \<open>Values\<close>

datatype json =
    JNull
  | JBool bool
  | JInteger int
  | JFraction jsstring               \<comment> \<open>a number that is not an integer, as \<open>String\<close> prints it\<close>
  | JString jsstring
  | JArray "json list"
  | JObject "(jsstring \<times> json) list"  \<comment> \<open>each key once\<close>

section \<open>Texts\<close>

text \<open>\<open>JSON.stringify\<close> of a string: the escapes of control characters, and of surrogates that stand alone.\<close>

definition unicode_escape :: "nat \<Rightarrow> jsstring" where
  "unicode_escape u = [92, 117] @ (let h = radix_string 16 u in replicate (4 - length h) 48 @ h)"

definition json_unit :: "nat \<Rightarrow> jsstring" where
  "json_unit u =
     (if u = 34 then [92, 34] else if u = 92 then [92, 92]
      else if u = 8 then [92, 98] else if u = 9 then [92, 116] else if u = 10 then [92, 110]
      else if u = 12 then [92, 102] else if u = 13 then [92, 114]
      else if u < 32 then unicode_escape u else [u])"

fun json_units :: "jsstring \<Rightarrow> jsstring" where
  "json_units [] = []"
| "json_units (u # s) =
     (if is_high u then (case s of
          v # r \<Rightarrow> if is_low v then u # v # json_units r else unicode_escape u @ json_units s
        | [] \<Rightarrow> unicode_escape u)
      else if is_low u then unicode_escape u @ json_units s
      else json_unit u @ json_units s)"

definition json_string :: "jsstring \<Rightarrow> jsstring" where
  "json_string s = [34] @ json_units s @ [34]"

text \<open>\<open>String\<close> of an integer, within the 15 digits in which a number is its digits.\<close>

definition int_text :: "int \<Rightarrow> jsstring" where
  "int_text n = (if n < 0 then 45 # dec (- n) else dec n)"

fun json_text :: "json \<Rightarrow> jsstring" where
  "json_text JNull = js ''null''"
| "json_text (JBool b) = (if b then js ''true'' else js ''false'')"
| "json_text (JInteger n) = int_text n"
| "json_text (JFraction t) = t"
| "json_text (JString s) = json_string s"
| "json_text (JArray vs) = js ''['' @ js_join (js '','') (map json_text vs) @ js '']''"
| "json_text (JObject ms) =
     js ''{'' @ js_join (js '','') (map (\<lambda>(key, v). json_string key @ js '':'' @ json_text v) ms) @ js ''}''"

end
