(* ===== verification/ProxyJournal.thy ===== *)
theory ProxyJournal
  imports ProxyOwnership JsonText
begin

text \<open>
  The recovery journal of \<open>src/core/network/windows-system-proxy.ts\<close>: the file that describes the user's
  proxy settings while the application's are in the registry.  A file is what \<open>JSON.parse\<close> makes of its
  text and its size in bytes; \<open>snapshot_text\<close> is the text \<open>JSON.stringify(value, null, 2)\<close> writes for a
  snapshot.
\<close>

section \<open>Files\<close>

datatype journal_text = NotJson jsstring | Json json

record journal_file =
  jf_text :: journal_text
  jf_size :: nat
  jf_modified :: nat

section \<open>Writing the journal\<close>

definition PROXY_SNAPSHOT_VERSION :: int where "PROXY_SNAPSHOT_VERSION = 1"
definition MAX_PROXY_SNAPSHOT_BYTES :: nat where "MAX_PROXY_SNAPSHOT_BYTES = 256 * 1024"
definition MAX_PROXY_REGISTRY_STRING_LENGTH :: nat where "MAX_PROXY_REGISTRY_STRING_LENGTH = 64 * 1024"

fun field_name :: "snapshot_field \<Rightarrow> jsstring" where
  "field_name ProxyServerField = js ''proxyServer''"
| "field_name ProxyOverrideField = js ''proxyOverride''"
| "field_name AutoConfigUrlField = js ''autoConfigUrl''"

text \<open>The members of the object written; a property that is \<open>undefined\<close> is left out.\<close>

definition string_member :: "jsstring \<Rightarrow> jsstring option \<Rightarrow> (jsstring \<times> json) list" where
  "string_member key v = (case v of None \<Rightarrow> [] | Some s \<Rightarrow> [(key, JString s)])"

definition snapshot_members :: "proxy_snapshot \<Rightarrow> (jsstring \<times> json) list" where
  "snapshot_members s =
     [(js ''journalVersion'', JInteger PROXY_SNAPSHOT_VERSION)] @
     string_member (js ''proxyEnable'') (ps_proxyEnable s) @
     string_member (js ''proxyServer'') (ps_proxyServer s) @
     string_member (js ''proxyOverride'') (ps_proxyOverride s) @
     string_member (js ''autoConfigUrl'') (ps_autoConfigUrl s) @
     string_member (js ''autoDetect'') (ps_autoDetect s) @
     (case ps_expandStrings s of None \<Rightarrow> [] | Some listed \<Rightarrow> [(js ''expandStrings'', JArray (map (JString \<circ> field_name) listed))])"

text \<open>
  The text of the members with an indentation of two blanks, and the size of the file, which ends with
  a line feed.
\<close>

fun member_value_text :: "json \<Rightarrow> jsstring" where
  "member_value_text (JString s) = json_string s"
| "member_value_text (JInteger n) = dec n"
| "member_value_text (JArray vs) =
     (if vs = [] then js ''[]''
      else js ''['' @ js_join (js '','') (map (\<lambda>v. [10] @ js ''    '' @ member_value_text v) vs) @ [10] @ js ''  ]'')"
| "member_value_text v = js ''null''"

definition snapshot_text :: "proxy_snapshot \<Rightarrow> jsstring" where
  "snapshot_text s =
     js ''{'' @ js_join (js '','') (map (\<lambda>(key, v). [10] @ js ''  '' @ json_string key @ js '': '' @ member_value_text v)
       (snapshot_members s)) @ [10] @ js ''}'' @ [10]"

definition journal_of :: "nat \<Rightarrow> proxy_snapshot \<Rightarrow> journal_file" where
  "journal_of now s = \<lparr>jf_text = Json (JObject (snapshot_members s)),
     jf_size = length (utf8_encode (snapshot_text s)), jf_modified = now\<rparr>"

section \<open>Reading it\<close>

datatype journal_fault =
    JournalTooLong
  | JournalInvalid jsstring
  | JournalNotObject
  | JournalVersion json
  | JournalUnknownFields
  | FieldInvalid jsstring
  | FieldNotDword jsstring
  | FieldOutsideDword jsstring
  | ExpandStringsInvalid

definition readSnapshotString :: "(jsstring \<times> json) list \<Rightarrow> jsstring \<Rightarrow> journal_fault + jsstring option" where
  "readSnapshotString snapshot name =
     (case map_of snapshot name of
        None \<Rightarrow> Inr None
      | Some (JString s) \<Rightarrow> if MAX_PROXY_REGISTRY_STRING_LENGTH < length s then Inl (FieldInvalid name) else Inr (Some s)
      | Some _ \<Rightarrow> Inl (FieldInvalid name))"

text \<open>The pattern \<open>^(?:0x[0-9a-f]+|\d+)$\<close>, case-insensitive, and \<open>BigInt\<close> of what it matches.\<close>

definition dword_text :: "jsstring \<Rightarrow> nat option" where
  "dword_text s =
     (if (starts_with (js ''0x'') s \<or> starts_with (js ''0X'') s) \<and> 2 < length s \<and> list_all is_hex_digit (drop 2 s)
      then Some (radix_value 16 (drop 2 s))
      else if all_digits s then Some (radix_value 10 s) else None)"

definition readSnapshotDword :: "(jsstring \<times> json) list \<Rightarrow> jsstring \<Rightarrow> journal_fault + jsstring option" where
  "readSnapshotDword snapshot name = res_bind (readSnapshotString snapshot name) (\<lambda>v.
     case v of
       None \<Rightarrow> Inr None
     | Some s \<Rightarrow> (case dword_text s of
         None \<Rightarrow> Inl (FieldNotDword name)
       | Some n \<Rightarrow> if 0xffffffff < n then Inl (FieldOutsideDword name) else Inr (Some s)))"

fun field_of :: "json \<Rightarrow> snapshot_field option" where
  "field_of (JString s) = find (\<lambda>f. field_name f = s) [ProxyServerField, ProxyOverrideField, AutoConfigUrlField]"
| "field_of _ = None"

definition readSnapshotExpandStrings :: "(jsstring \<times> json) list \<Rightarrow> journal_fault + snapshot_field list option" where
  "readSnapshotExpandStrings snapshot =
     (case map_of snapshot (js ''expandStrings'') of
        None \<Rightarrow> Inr None
      | Some (JArray vs) \<Rightarrow>
          if list_all (\<lambda>v. field_of v \<noteq> None) vs
          then Inr (if vs = [] then None else Some (rev (remdups (rev (List.map_filter field_of vs)))))
          else Inl ExpandStringsInvalid
      | Some _ \<Rightarrow> Inl ExpandStringsInvalid)"

definition snapshot_of_members :: "(jsstring \<times> json) list \<Rightarrow> journal_fault + proxy_snapshot" where
  "snapshot_of_members parsed =
     res_bind (readSnapshotExpandStrings parsed) (\<lambda>expandStrings.
     res_bind (readSnapshotDword parsed (js ''proxyEnable'')) (\<lambda>enable.
     res_bind (readSnapshotString parsed (js ''proxyServer'')) (\<lambda>server.
     res_bind (readSnapshotString parsed (js ''proxyOverride'')) (\<lambda>bypass.
     res_bind (readSnapshotString parsed (js ''autoConfigUrl'')) (\<lambda>url.
     res_bind (readSnapshotDword parsed (js ''autoDetect'')) (\<lambda>detect.
     Inr \<lparr>ps_proxyEnable = enable, ps_proxyServer = server, ps_proxyOverride = bypass,
          ps_autoConfigUrl = url, ps_autoDetect = detect, ps_expandStrings = expandStrings\<rparr>))))))"

definition parseProxySnapshotText :: "journal_text \<Rightarrow> journal_fault + proxy_snapshot" where
  "parseProxySnapshotText text =
     (case text of
        NotJson message \<Rightarrow> Inl (JournalInvalid message)
      | Json (JObject parsed) \<Rightarrow>
          let version = map_of parsed (js ''journalVersion'');
              legacyKeys = [js ''proxyEnable'', js ''proxyServer'', js ''proxyOverride'', js ''autoConfigUrl'', js ''autoDetect'']
          in case version of
               Some v \<Rightarrow> if v = JInteger PROXY_SNAPSHOT_VERSION then snapshot_of_members parsed else Inl (JournalVersion v)
             | None \<Rightarrow> if list_ex (\<lambda>m. fst m \<notin> set legacyKeys) parsed then Inl JournalUnknownFields
                       else snapshot_of_members parsed
      | Json _ \<Rightarrow> Inl JournalNotObject)"

section \<open>What is written can be read back\<close>

definition snapshot_valid :: "proxy_snapshot \<Rightarrow> bool" where
  "snapshot_valid s \<longleftrightarrow>
     (\<forall>v \<in> {ps_proxyEnable s, ps_proxyServer s, ps_proxyOverride s, ps_autoConfigUrl s, ps_autoDetect s}.
        case v of None \<Rightarrow> True | Some t \<Rightarrow> length t \<le> MAX_PROXY_REGISTRY_STRING_LENGTH) \<and>
     (\<forall>v \<in> {ps_proxyEnable s, ps_autoDetect s}.
        case v of None \<Rightarrow> True | Some t \<Rightarrow> (case dword_text t of None \<Rightarrow> False | Some n \<Rightarrow> n \<le> 0xffffffff)) \<and>
     (case ps_expandStrings s of None \<Rightarrow> True | Some listed \<Rightarrow> listed \<noteq> [] \<and> distinct listed)"

lemma field_of_name [simp]: "field_of (JString (field_name f)) = Some f"
  by (cases f) simp_all

lemma map_filter_field_names: "List.map_filter field_of (map (JString \<circ> field_name) fs) = fs"
  by (induction fs) (simp_all del: field_of.simps)

lemma read_member:
  assumes "case v of None \<Rightarrow> True | Some t \<Rightarrow> length t \<le> MAX_PROXY_REGISTRY_STRING_LENGTH"
    and "map_of ms key = map_option JString v"
  shows "readSnapshotString ms key = Inr v"
  using assms by (cases v) (simp_all add: readSnapshotString_def)

lemma read_dword_member:
  assumes "readSnapshotString ms key = Inr v"
    and "case v of None \<Rightarrow> True | Some t \<Rightarrow> (case dword_text t of None \<Rightarrow> False | Some n \<Rightarrow> n \<le> 0xffffffff)"
  shows "readSnapshotDword ms key = Inr v"
  using assms by (cases v) (auto simp: readSnapshotDword_def split: option.splits)

lemma snapshot_member_lookup:
  "map_of (snapshot_members s) (js ''journalVersion'') = Some (JInteger PROXY_SNAPSHOT_VERSION)"
  "map_of (snapshot_members s) (js ''proxyEnable'') = map_option JString (ps_proxyEnable s)"
  "map_of (snapshot_members s) (js ''proxyServer'') = map_option JString (ps_proxyServer s)"
  "map_of (snapshot_members s) (js ''proxyOverride'') = map_option JString (ps_proxyOverride s)"
  "map_of (snapshot_members s) (js ''autoConfigUrl'') = map_option JString (ps_autoConfigUrl s)"
  "map_of (snapshot_members s) (js ''autoDetect'') = map_option JString (ps_autoDetect s)"
  "map_of (snapshot_members s) (js ''expandStrings'') = map_option (\<lambda>fs. JArray (map (JString \<circ> field_name) fs)) (ps_expandStrings s)"
  by (simp_all add: snapshot_members_def string_member_def map_add_def del: js_simps split: option.splits)

lemma read_expand_strings:
  assumes "case ps_expandStrings s of None \<Rightarrow> True | Some listed \<Rightarrow> listed \<noteq> [] \<and> distinct listed"
  shows "readSnapshotExpandStrings (snapshot_members s) = Inr (ps_expandStrings s)"
proof (cases "ps_expandStrings s")
  case None
  then show ?thesis by (simp only: readSnapshotExpandStrings_def snapshot_member_lookup) simp
next
  case (Some listed)
  have "rev (remdups (rev listed)) = listed" using assms Some by (simp add: distinct_remdups_id)
  moreover have "list_all (\<lambda>v. field_of v \<noteq> None) (map (JString \<circ> field_name) listed)"
    by (simp add: list_all_iff del: field_of.simps)
  ultimately show ?thesis
    using assms Some by (simp only: readSnapshotExpandStrings_def snapshot_member_lookup map_filter_field_names
        option.map option.case json.case if_True) simp
qed

lemma snapshot_round_trip:
  assumes "snapshot_valid s"
  shows "parseProxySnapshotText (jf_text (journal_of now s)) = Inr s"
proof -
  have short: "case v of None \<Rightarrow> True | Some t \<Rightarrow> length t \<le> MAX_PROXY_REGISTRY_STRING_LENGTH"
    if "v \<in> {ps_proxyEnable s, ps_proxyServer s, ps_proxyOverride s, ps_autoConfigUrl s, ps_autoDetect s}" for v
    using assms that unfolding snapshot_valid_def by blast
  have number: "case v of None \<Rightarrow> True | Some t \<Rightarrow> (case dword_text t of None \<Rightarrow> False | Some n \<Rightarrow> n \<le> 0xffffffff)"
    if "v \<in> {ps_proxyEnable s, ps_autoDetect s}" for v
    using assms that unfolding snapshot_valid_def by blast
  have strings: "readSnapshotString (snapshot_members s) (js ''proxyEnable'') = Inr (ps_proxyEnable s)"
    "readSnapshotString (snapshot_members s) (js ''proxyServer'') = Inr (ps_proxyServer s)"
    "readSnapshotString (snapshot_members s) (js ''proxyOverride'') = Inr (ps_proxyOverride s)"
    "readSnapshotString (snapshot_members s) (js ''autoConfigUrl'') = Inr (ps_autoConfigUrl s)"
    "readSnapshotString (snapshot_members s) (js ''autoDetect'') = Inr (ps_autoDetect s)"
    by (rule read_member [OF short snapshot_member_lookup(2)] read_member [OF short snapshot_member_lookup(3)]
        read_member [OF short snapshot_member_lookup(4)] read_member [OF short snapshot_member_lookup(5)]
        read_member [OF short snapshot_member_lookup(6)]; blast)+
  have dwords: "readSnapshotDword (snapshot_members s) (js ''proxyEnable'') = Inr (ps_proxyEnable s)"
    "readSnapshotDword (snapshot_members s) (js ''autoDetect'') = Inr (ps_autoDetect s)"
    by (rule read_dword_member [OF strings(1) number] read_dword_member [OF strings(5) number]; blast)+
  have "readSnapshotExpandStrings (snapshot_members s) = Inr (ps_expandStrings s)"
    using assms by (intro read_expand_strings) (simp add: snapshot_valid_def)
  then have "snapshot_of_members (snapshot_members s) = Inr s"
    using strings dwords by (simp add: snapshot_of_members_def del: js_simps)
  then show ?thesis
    by (simp add: parseProxySnapshotText_def journal_of_def Let_def snapshot_member_lookup del: js_simps)
qed

text \<open>
  The limits of the reader are not those of the writer: a setting that is longer than a field may be is
  written all the same, and the journal cannot be used afterwards.
\<close>

lemma long_setting_unreadable:
  assumes "ps_proxyServer s = Some t" "MAX_PROXY_REGISTRY_STRING_LENGTH < length t"
  shows "\<exists>fault. parseProxySnapshotText (jf_text (journal_of now s)) = Inl fault"
proof -
  have long: "readSnapshotString (snapshot_members s) (js ''proxyServer'') = Inl (FieldInvalid (js ''proxyServer''))"
    using assms by (simp add: readSnapshotString_def snapshot_member_lookup del: js_simps)
  have "\<exists>fault. snapshot_of_members (snapshot_members s) = Inl fault"
    by (cases "readSnapshotExpandStrings (snapshot_members s)"; cases "readSnapshotDword (snapshot_members s) (js ''proxyEnable'')")
      (simp_all add: snapshot_of_members_def long del: js_simps)
  then show ?thesis
    by (simp add: parseProxySnapshotText_def journal_of_def Let_def snapshot_member_lookup del: js_simps)
qed

end
