(* ===== verification/WindowsProxy.thy ===== *)
theory WindowsProxy
  imports ProxyJournal
begin

text \<open>
  The manager of the Windows system proxy (\<open>src/core/network/windows-system-proxy.ts\<close>):
  \<open>WindowsSystemProxyManager\<close>, startup recovery, and the ways the settings are given back at once.

  The world is the five values of the registry, the recovery journals and the PAC files.  Every command,
  file operation and listener consumes one outcome of a plan, and every change of the world is appended to
  a trace, so that a theorem can speak of each moment at which the process may die.  The plan may also say
  that Windows ends the session just before an operation; \<open>restoreWindowsSystemProxyNow\<close> then runs there,
  outside the manager's queue.
\<close>

section \<open>The world\<close>

datatype reg_name = ProxyEnable | ProxyServer | ProxyOverride | AutoConfigURL | AutoDetect

text \<open>A value of the registry; \<open>RegOther\<close> is one of a type the source does not support.\<close>

datatype reg_value = RegDword "32 word" | RegSz jsstring | RegExpandSz jsstring | RegOther

type_synonym registry = "reg_name \<Rightarrow> reg_value option"

record world =
  w_registry :: registry
  w_journals :: "jsstring \<Rightarrow> journal_file option"  \<comment> \<open>\<open>windows-proxy-snapshot.json\<close> of a directory\<close>
  w_pacFiles :: "jsstring \<Rightarrow> jsstring option"       \<comment> \<open>\<open>shadow-ssh-routing.pac\<close> of a directory\<close>
  w_clock :: nat

definition set_value :: "reg_name \<Rightarrow> reg_value option \<Rightarrow> world \<Rightarrow> world" where
  "set_value name v w = w\<lparr>w_registry := (w_registry w)(name := v)\<rparr>"

definition set_journal :: "jsstring \<Rightarrow> journal_file option \<Rightarrow> world \<Rightarrow> world" where
  "set_journal directory j w = w\<lparr>w_journals := (w_journals w)(directory := j), w_clock := w_clock w + 1\<rparr>"

definition set_pacFile :: "jsstring \<Rightarrow> jsstring option \<Rightarrow> world \<Rightarrow> world" where
  "set_pacFile directory text w = w\<lparr>w_pacFiles := (w_pacFiles w)(directory := text)\<rparr>"

text \<open>
  How an operation may end: it is done; refused; done although it is reported as failed (a command killed by
  its timeout); or, for the query of a value, failed while the key itself can be read.
\<close>

datatype outcome = Done | Refused | DoneButFailed | Unanswered

datatype plan_step = Outcome outcome | SessionEnds "outcome list"

datatype proxy_fault =
    BadEndpoint endpoint_fault
  | CommandFailed
  | UnsupportedFormat reg_name
  | FileFailed
  | NotifyFailed
  | ListenFailed
  | JournalLost

datatype notice = SetAside journal_fault | LeftoversRemoved

text \<open>What the program uses of its surroundings: the platform, SHA-256 in hexadecimal, Node's \<open>URL\<close> parser, the
  text around the values of a PAC, the port the system gives to the n-th listener, and the directories that
  may hold a journal.\<close>

record proxy_env =
  pe_win32 :: bool
  pe_sha256 :: "jsstring \<Rightarrow> jsstring"
  pe_parseUrl :: "jsstring \<Rightarrow> parsed_url option"
  pe_pacText :: "pac \<Rightarrow> jsstring"
  pe_port :: "nat \<Rightarrow> int"
  pe_directories :: "jsstring list"

section \<open>Registry values as text\<close>

datatype value_kind = DwordKind | StringKind bool  \<comment> \<open>whether the string may hold references to variables\<close>

text \<open>
  What \<open>reg.exe query\<close> prints for a value, as the pattern of \<open>regQueryTypedValue\<close> reads it: the text up to
  the end of the line, without blanks at its ends, and its type.
\<close>

definition printed_value :: "jsstring \<Rightarrow> jsstring" where
  "printed_value s = js_trim (takeWhile (\<lambda>u. u \<noteq> 13 \<and> u \<noteq> 10) s)"

definition typed_value_of :: "reg_value \<Rightarrow> (jsstring \<times> value_kind) option" where
  "typed_value_of v =
     (case v of
        RegDword n \<Rightarrow> Some (js ''0x'' @ hex (uint n), DwordKind)
      | RegSz s \<Rightarrow> Some (printed_value s, StringKind False)
      | RegExpandSz s \<Rightarrow> Some (printed_value s, StringKind True)
      | RegOther \<Rightarrow> None)"

text \<open>
  The value \<open>reg.exe add\<close> writes.  \<open>regAddDword\<close> hands over a hexadecimal literal as it is and any other
  text as the decimal \<open>Number(value)\<close>; what is no number of 32 bits is refused by \<open>reg.exe\<close>.
\<close>

definition dword_data :: "jsstring \<Rightarrow> reg_value option" where
  "dword_data s =
     (case js_number s of
        None \<Rightarrow> None
      | Some n \<Rightarrow> if 0 \<le> n \<and> n \<le> 0xffffffff then Some (RegDword (word_of_int n)) else None)"

definition string_data :: "bool \<Rightarrow> jsstring \<Rightarrow> reg_value" where
  "string_data expand s = (if expand then RegExpandSz s else RegSz s)"

definition data_of :: "value_kind \<Rightarrow> jsstring \<Rightarrow> reg_value option" where
  "data_of kind s = (case kind of DwordKind \<Rightarrow> dword_data s | StringKind expand \<Rightarrow> Some (string_data expand s))"

text \<open>The five values of a snapshot in the order they are restored.\<close>

definition snapshot_values :: "proxy_snapshot \<Rightarrow> (reg_name \<times> value_kind \<times> jsstring option) list" where
  "snapshot_values snapshot =
     [(ProxyEnable, DwordKind, ps_proxyEnable snapshot),
      (ProxyServer, StringKind (snapshotStringType snapshot ProxyServerField), ps_proxyServer snapshot),
      (ProxyOverride, StringKind (snapshotStringType snapshot ProxyOverrideField), ps_proxyOverride snapshot),
      (AutoConfigURL, StringKind (snapshotStringType snapshot AutoConfigUrlField), ps_autoConfigUrl snapshot),
      (AutoDetect, DwordKind, ps_autoDetect snapshot)]"

section \<open>Giving the settings back at once\<close>

text \<open>
  \<open>restoreWindowsSystemProxyNow\<close>: the journals that can be read, one outcome for each directory, and the
  five writes, one outcome for each.  The worlds it passes through are returned, the last one last.
\<close>

definition journal_snapshot :: "journal_file \<Rightarrow> journal_fault + proxy_snapshot" where
  "journal_snapshot j =
     (if MAX_PROXY_SNAPSHOT_BYTES < jf_size j then Inl JournalTooLong else parseProxySnapshotText (jf_text j))"

definition readable_journal :: "world \<Rightarrow> jsstring \<Rightarrow> (nat \<times> proxy_snapshot) option" where
  "readable_journal w directory =
     (case w_journals w directory of
        None \<Rightarrow> None
      | Some j \<Rightarrow> (case journal_snapshot j of Inl _ \<Rightarrow> None | Inr snapshot \<Rightarrow> Some (jf_modified j, snapshot)))"

fun read_journals_now :: "world \<Rightarrow> jsstring list \<Rightarrow> outcome list \<Rightarrow> (nat \<times> proxy_snapshot) list" where
  "read_journals_now w [] xs = []"
| "read_journals_now w (d # ds) xs =
     (let rest = read_journals_now w ds (tl xs)
      in if xs \<noteq> [] \<and> hd xs \<noteq> Done then rest
         else case readable_journal w d of None \<Rightarrow> rest | Some c \<Rightarrow> c # rest)"

text \<open>\<open>restoreValueNow\<close>: whether the value is taken for restored, and the world after it.\<close>

definition restoreValueNow :: "reg_name \<times> value_kind \<times> jsstring option \<Rightarrow> outcome \<Rightarrow> world \<Rightarrow> bool \<times> world" where
  "restoreValueNow entry outcome w =
     (case entry of
        (name, kind, None) \<Rightarrow> (True, if outcome \<in> {Done, DoneButFailed} then set_value name None w else w)
      | (name, kind, Some s) \<Rightarrow> (case data_of kind s of
            None \<Rightarrow> (False, w)
          | Some v \<Rightarrow> (outcome = Done, if outcome \<in> {Done, DoneButFailed} then set_value name (Some v) w else w)))"

fun restore_values_now :: "(reg_name \<times> value_kind \<times> jsstring option) list \<Rightarrow> outcome list \<Rightarrow> world \<Rightarrow> bool \<times> world list" where
  "restore_values_now [] xs w = (True, [])"
| "restore_values_now (e # es) xs w =
     (let (ok, w1) = restoreValueNow e (if xs = [] then Done else hd xs) w;
          (rest, ws) = restore_values_now es (tl xs) w1
      in (ok \<and> rest, w1 # ws))"

definition restoreWindowsSystemProxyNow :: "proxy_env \<Rightarrow> jsstring list \<Rightarrow> outcome list \<Rightarrow> world \<Rightarrow> bool \<times> world list" where
  "restoreWindowsSystemProxyNow env directories xs w =
     (if \<not> pe_win32 env then (False, [])
      else let dirs = to_set directories
           in case sort_key fst (read_journals_now w dirs xs) of
                [] \<Rightarrow> (False, [])
              | (_, snapshot) # _ \<Rightarrow> restore_values_now (snapshot_values snapshot) (drop (length dirs) xs) w)"

section \<open>The manager and the operations it uses\<close>

text \<open>A listener: its number, and the PAC its handler holds on to when it was opened for one PAC alone.\<close>

datatype pac_server = PacServer (server_number: nat) (server_pac: "jsstring option")

record manager =
  m_snapshot :: "proxy_snapshot option"
  m_pacDirectory :: jsstring
  m_pacServer :: "pac_server option"
  m_retainedPacServers :: "pac_server list"
  m_currentPacFallbackServers :: "pac_server list"
  m_pacContent :: jsstring
  m_publishedPacContent :: jsstring
  m_pacVersions :: "jsstring js_map"
  m_registeredPacUrl :: "jsstring option"
  m_registryPacUrl :: "jsstring option"
  m_pendingPacNotificationUrl :: "jsstring option"
  m_registeredStaticProxy :: "jsstring option"
  m_proxyStateDirty :: bool
  m_hasDiagnostic :: bool
  m_journalNotices :: "notice list"

definition new_manager :: "jsstring \<Rightarrow> bool \<Rightarrow> manager" where
  "new_manager directory hasDiagnostic =
     \<lparr>m_snapshot = None, m_pacDirectory = directory, m_pacServer = None, m_retainedPacServers = [],
      m_currentPacFallbackServers = [], m_pacContent = [], m_publishedPacContent = [], m_pacVersions = [],
      m_registeredPacUrl = None, m_registryPacUrl = None, m_pendingPacNotificationUrl = None,
      m_registeredStaticProxy = None, m_proxyStateDirty = False, m_hasDiagnostic = hasDiagnostic, m_journalNotices = []\<rparr>"

record proxy_state =
  st_world :: world
  st_trace :: "world list"
  st_plan :: "plan_step list"
  st_listening :: "nat list"
  st_listens :: nat
  st_manager :: manager
  st_diagnostics :: "notice list"

type_synonym 'a proxy_op = "(proxy_state, proxy_fault, 'a) op"

definition enter_worlds :: "world list \<Rightarrow> proxy_state \<Rightarrow> proxy_state" where
  "enter_worlds ws s = s\<lparr>st_world := last (st_world s # ws), st_trace := st_trace s @ ws\<rparr>"

fun take_outcome :: "proxy_env \<Rightarrow> plan_step list \<Rightarrow> proxy_state \<Rightarrow> outcome \<times> proxy_state" where
  "take_outcome env [] s = (Done, s\<lparr>st_plan := []\<rparr>)"
| "take_outcome env (Outcome x # p) s = (x, s\<lparr>st_plan := p\<rparr>)"
| "take_outcome env (SessionEnds xs # p) s =
     take_outcome env p (enter_worlds (snd (restoreWindowsSystemProxyNow env (pe_directories env) xs (st_world s))) s)"

definition effect :: "proxy_env \<Rightarrow> proxy_fault \<Rightarrow> (world \<Rightarrow> world) \<Rightarrow> unit proxy_op" where
  "effect env fault f s =
     (let (x, s1) = take_outcome env (st_plan s) s
      in (if x = Done then Inr () else Inl fault,
          if x \<in> {Done, DoneButFailed} then enter_worlds [f (st_world s1)] s1 else s1))"

definition inspect :: "proxy_env \<Rightarrow> proxy_fault \<Rightarrow> (world \<Rightarrow> 'a) \<Rightarrow> 'a proxy_op" where
  "inspect env fault f s =
     (let (x, s1) = take_outcome env (st_plan s) s in (if x = Done then Inr (f (st_world s1)) else Inl fault, s1))"

definition attempt :: "proxy_env \<Rightarrow> proxy_fault \<Rightarrow> unit proxy_op" where
  "attempt env fault = inspect env fault (\<lambda>_. ())"

definition op_when :: "bool \<Rightarrow> unit proxy_op \<Rightarrow> unit proxy_op" where
  "op_when b m = (if b then m else op_return ())"

definition op_seq :: "unit proxy_op \<Rightarrow> 'a proxy_op \<Rightarrow> 'a proxy_op" where
  "op_seq m k = op_bind m (\<lambda>_. k)"

text \<open>\<open>try \<dots> catch (error) { handler; throw error; }\<close>.\<close>

definition op_rethrow :: "'a proxy_op \<Rightarrow> unit proxy_op \<Rightarrow> 'a proxy_op" where
  "op_rethrow m handler s =
     (case m s of
        (Inr x, s1) \<Rightarrow> (Inr x, s1)
      | (Inl e, s1) \<Rightarrow> (case handler s1 of (Inr _, s2) \<Rightarrow> (Inl e, s2) | (Inl e2, s2) \<Rightarrow> (Inl e2, s2)))"

definition the_manager :: "manager proxy_op" where
  "the_manager = op_get st_manager"

definition upd_manager :: "(manager \<Rightarrow> manager) \<Rightarrow> unit proxy_op" where
  "upd_manager f = op_modify (\<lambda>s. s\<lparr>st_manager := f (st_manager s)\<rparr>)"

section \<open>Commands\<close>

text \<open>A failed query of a value stands for an absent one when the key itself can be read.\<close>

definition regQueryTypedValue :: "proxy_env \<Rightarrow> reg_name \<Rightarrow> (jsstring \<times> value_kind) option proxy_op" where
  "regQueryTypedValue env name s =
     (let (x, s1) = take_outcome env (st_plan s) s
      in (if x = Unanswered then Inr None
          else if x \<noteq> Done then Inl CommandFailed
          else case w_registry (st_world s1) name of
                 None \<Rightarrow> Inr None
               | Some v \<Rightarrow> (case typed_value_of v of
                     None \<Rightarrow> Inl (UnsupportedFormat name)
                   | Some typed \<Rightarrow> Inr (Some typed)),
          s1))"

definition regQueryValue :: "proxy_env \<Rightarrow> reg_name \<Rightarrow> jsstring option proxy_op" where
  "regQueryValue env name = op_bind (regQueryTypedValue env name) (\<lambda>v. op_return (map_option fst v))"

definition regAddDword :: "proxy_env \<Rightarrow> reg_name \<Rightarrow> jsstring \<Rightarrow> unit proxy_op" where
  "regAddDword env name s =
     (case dword_data s of
        None \<Rightarrow> op_seq (attempt env CommandFailed) (op_throw CommandFailed)
      | Some v \<Rightarrow> effect env CommandFailed (set_value name (Some v)))"

definition regAddString :: "proxy_env \<Rightarrow> reg_name \<Rightarrow> jsstring \<Rightarrow> bool \<Rightarrow> unit proxy_op" where
  "regAddString env name s expand = effect env CommandFailed (set_value name (Some (string_data expand s)))"

definition regDeleteValue :: "proxy_env \<Rightarrow> reg_name \<Rightarrow> unit proxy_op" where
  "regDeleteValue env name = op_bind (regQueryValue env name) (\<lambda>v.
     op_when (v \<noteq> None) (effect env CommandFailed (set_value name None)))"

definition restoreValue :: "proxy_env \<Rightarrow> reg_name \<times> value_kind \<times> jsstring option \<Rightarrow> unit proxy_op" where
  "restoreValue env entry =
     (case entry of
        (name, kind, None) \<Rightarrow> regDeleteValue env name
      | (name, DwordKind, Some s) \<Rightarrow> regAddDword env name s
      | (name, StringKind expand, Some s) \<Rightarrow> regAddString env name s expand)"

definition refreshWindowsProxy :: "proxy_env \<Rightarrow> unit proxy_op" where
  "refreshWindowsProxy env = attempt env NotifyFailed"

definition is_expand :: "(jsstring \<times> value_kind) option \<Rightarrow> bool" where
  "is_expand v = (case v of Some (_, StringKind expand) \<Rightarrow> expand | _ \<Rightarrow> False)"

definition readProxySnapshot :: "proxy_env \<Rightarrow> proxy_snapshot proxy_op" where
  "readProxySnapshot env =
     op_bind (regQueryTypedValue env ProxyServer) (\<lambda>server.
     op_bind (regQueryTypedValue env ProxyOverride) (\<lambda>bypass.
     op_bind (regQueryTypedValue env AutoConfigURL) (\<lambda>url.
     op_bind (regQueryValue env ProxyEnable) (\<lambda>enable.
     op_bind (regQueryValue env AutoDetect) (\<lambda>detect.
     let expandStrings = map fst (filter (\<lambda>fv. is_expand (snd fv))
           [(ProxyServerField, server), (ProxyOverrideField, bypass), (AutoConfigUrlField, url)])
     in op_return \<lparr>ps_proxyEnable = enable, ps_proxyServer = map_option fst server,
          ps_proxyOverride = map_option fst bypass, ps_autoConfigUrl = map_option fst url, ps_autoDetect = detect,
          ps_expandStrings = (if expandStrings = [] then None else Some expandStrings)\<rparr>)))))"

section \<open>The journal on disk\<close>

text \<open>The temporary file is written, flushed and closed before it takes the journal's name.\<close>

definition persistProxySnapshot :: "proxy_env \<Rightarrow> jsstring \<Rightarrow> proxy_snapshot \<Rightarrow> unit proxy_op" where
  "persistProxySnapshot env directory snapshot =
     op_seq (attempt env FileFailed)   \<comment> \<open>\<open>mkdir\<close>\<close>
    (op_seq (attempt env FileFailed)   \<comment> \<open>\<open>open\<close>\<close>
    (op_seq (attempt env FileFailed)   \<comment> \<open>\<open>writeFile\<close>\<close>
    (op_seq (attempt env FileFailed)   \<comment> \<open>\<open>sync\<close>\<close>
    (op_seq (attempt env FileFailed)   \<comment> \<open>\<open>close\<close>\<close>
    (effect env FileFailed (\<lambda>w. set_journal directory (Some (journal_of (w_clock w) snapshot)) w))))))"

text \<open>\<open>stat\<close>, then \<open>readFile\<close>; \<open>Inl\<close> is a journal that exists but cannot be used.\<close>

definition readPersistedProxySnapshot :: "proxy_env \<Rightarrow> jsstring \<Rightarrow> (journal_fault + proxy_snapshot option) proxy_op" where
  "readPersistedProxySnapshot env directory =
     op_bind (inspect env FileFailed (\<lambda>w. w_journals w directory)) (\<lambda>info.
     case info of
       None \<Rightarrow> op_return (Inr None)
     | Some j \<Rightarrow>
         if MAX_PROXY_SNAPSHOT_BYTES < jf_size j then op_return (Inl JournalTooLong)
         else op_bind (inspect env FileFailed (\<lambda>w. w_journals w directory)) (\<lambda>file.
           case file of
             None \<Rightarrow> op_throw FileFailed
           | Some f \<Rightarrow> op_return (case parseProxySnapshotText (jf_text f) of Inl e \<Rightarrow> Inl e | Inr snapshot \<Rightarrow> Inr (Some snapshot))))"

definition readUsableProxySnapshot ::
  "proxy_env \<Rightarrow> jsstring \<Rightarrow> (notice \<Rightarrow> unit proxy_op) \<Rightarrow> proxy_snapshot option proxy_op" where
  "readUsableProxySnapshot env directory onSetAside =
     op_bind (readPersistedProxySnapshot env directory) (\<lambda>r.
     case r of
       Inr snapshot \<Rightarrow> op_return snapshot
     | Inl fault \<Rightarrow> op_seq (effect env FileFailed (set_journal directory None))
         (op_seq (onSetAside (SetAside fault)) (op_return None)))"

section \<open>The PAC server\<close>

definition MAX_SERVED_PAC_VERSIONS :: nat where "MAX_SERVED_PAC_VERSIONS = 8"
definition MAX_RETAINED_PAC_ENDPOINTS :: nat where "MAX_RETAINED_PAC_ENDPOINTS = 4"

definition base_url :: "proxy_env \<Rightarrow> pac_server \<Rightarrow> jsstring" where
  "base_url env server = js ''http://127.0.0.1:'' @ dec (pe_port env (server_number server)) @ pac_path"

definition pacVersion :: "proxy_env \<Rightarrow> jsstring \<Rightarrow> jsstring" where
  "pacVersion env pac = pe_sha256 env pac"

text \<open>
  The query \<open>v\<close> of a URL of this program, which has no other query: its value is a hexadecimal digest, which
  a URL does not encode.
\<close>

definition versionPacUrl :: "jsstring \<Rightarrow> jsstring \<Rightarrow> jsstring" where
  "versionPacUrl baseUrl version = baseUrl @ js ''?v='' @ version"

definition url_version :: "jsstring \<Rightarrow> jsstring option" where
  "url_version url =
     (case index_of 63 url of
        None \<Rightarrow> None
      | Some q \<Rightarrow> if starts_with (js ''v='') (drop (q + 1) url) then Some (drop (q + 3) url) else None)"

definition pacVersionFromUrl :: "jsstring option \<Rightarrow> jsstring option" where
  "pacVersionFromUrl url = (case url of None \<Rightarrow> None | Some u \<Rightarrow> if u = [] then None else url_version u)"

text \<open>The loop of \<open>rememberPacVersion\<close>: the oldest version that is not in use goes, until eight are left.\<close>

function evict_versions :: "jsstring list \<Rightarrow> jsstring js_map \<Rightarrow> jsstring js_map" where
  "evict_versions kept versions =
     (if length versions \<le> MAX_SERVED_PAC_VERSIONS then versions
      else case find (\<lambda>candidate. candidate \<notin> set kept) (jm_keys versions) of
             None \<Rightarrow> versions
           | Some removable \<Rightarrow> if removable = [] then versions else evict_versions kept (jm_delete removable versions))"
  by pat_completeness auto
termination
proof (relation "measure (\<lambda>(kept, versions). length versions)")
  fix kept :: "jsstring list" and versions :: "jsstring js_map" and removable
  assume "find (\<lambda>candidate. candidate \<notin> set kept) (jm_keys versions) = Some removable"
  then have "removable \<in> set (jm_keys versions)" by (auto simp: find_Some_iff)
  then obtain v where "(removable, v) \<in> set versions" by (auto simp: jm_keys_def)
  then have "length (jm_delete removable versions) < length versions"
    unfolding jm_delete_def by (rule length_filter_less) simp
  then show "((kept, jm_delete removable versions), kept, versions) \<in> measure (\<lambda>(kept, versions). length versions)"
    by simp
qed simp

declare evict_versions.simps [simp del]

definition rememberPacVersion :: "jsstring \<Rightarrow> jsstring \<Rightarrow> manager \<Rightarrow> manager" where
  "rememberPacVersion version pac m =
     (let versions = jm_set version pac (jm_delete version (m_pacVersions m));
          kept = version # (case pacVersionFromUrl (m_registeredPacUrl m) of None \<Rightarrow> [] | Some v \<Rightarrow> [v]) @
                 (case pacVersionFromUrl (m_registryPacUrl m) of None \<Rightarrow> [] | Some v \<Rightarrow> [v])
      in m\<lparr>m_pacVersions := evict_versions kept versions\<rparr>)"

definition closeServers :: "pac_server list \<Rightarrow> unit proxy_op" where
  "closeServers servers = op_modify (\<lambda>s. s\<lparr>st_listening :=
     filter (\<lambda>n. n \<notin> server_number ` set servers) (st_listening s)\<rparr>)"

definition stopPacServer :: "unit proxy_op" where
  "stopPacServer =
     op_bind the_manager (\<lambda>m.
     let servers = m_retainedPacServers m @ (case m_pacServer m of None \<Rightarrow> [] | Some server \<Rightarrow> [server])
     in op_seq (upd_manager (\<lambda>m. m\<lparr>m_pacServer := None, m_retainedPacServers := [], m_currentPacFallbackServers := []\<rparr>))
       (op_seq (closeServers servers)
       (upd_manager (\<lambda>m. m\<lparr>m_pacContent := [], m_publishedPacContent := [], m_pacVersions := [],
          m_registeredPacUrl := None, m_pendingPacNotificationUrl := None\<rparr>))))"

text \<open>\<open>isAddressInfo(server.address())\<close>: the server listens.\<close>

definition listens :: "pac_server \<Rightarrow> bool proxy_op" where
  "listens server = op_get (\<lambda>s. server_number server \<in> set (st_listening s))"

text \<open>Opening a listener on a port of the system's choice; a listener that opens has an address.\<close>

definition open_listener :: "proxy_env \<Rightarrow> jsstring option \<Rightarrow> pac_server proxy_op" where
  "open_listener env endpointPacContent s =
     (let (x, s1) = take_outcome env (st_plan s) s; server = PacServer (st_listens s1) endpointPacContent
      in if x = Done
         then (Inr server, s1\<lparr>st_listens := st_listens s1 + 1, st_listening := st_listening s1 @ [st_listens s1]\<rparr>)
         else (Inl ListenFailed, s1))"

record pac_endpoint =
  ep_baseUrl :: jsstring
  ep_version :: jsstring
  ep_server :: pac_server
  ep_previousServer :: "pac_server option"
  ep_previousPacContent :: "jsstring option"

definition open_endpoint :: "proxy_env \<Rightarrow> jsstring \<Rightarrow> bool \<Rightarrow> jsstring \<Rightarrow> pac_endpoint proxy_op" where
  "open_endpoint env pac forceNewEndpoint previousPacContent =
     op_bind the_manager (\<lambda>m.
     let previousServer = (if forceNewEndpoint then m_pacServer m else None)
     in op_bind (op_rethrow (open_listener env (if forceNewEndpoint then Some pac else None))
                   (upd_manager (\<lambda>m. m\<lparr>m_pacContent := previousPacContent\<rparr>))) (\<lambda>server.
        op_seq (upd_manager (\<lambda>m. m\<lparr>m_pacServer := Some server\<rparr>))
          (op_return \<lparr>ep_baseUrl = base_url env server, ep_version = pacVersion env pac, ep_server = server,
             ep_previousServer = previousServer,
             ep_previousPacContent = (if previousServer \<noteq> None then Some previousPacContent else None)\<rparr>)))"

definition startPacServer :: "proxy_env \<Rightarrow> jsstring \<Rightarrow> bool \<Rightarrow> pac_endpoint proxy_op" where
  "startPacServer env pac forceNewEndpoint =
     op_bind the_manager (\<lambda>m.
     let previousPacContent = m_pacContent m; version = pacVersion env pac;
         remember = upd_manager (\<lambda>m. rememberPacVersion version pac (m\<lparr>m_pacContent := pac\<rparr>))
     in op_seq remember (
        case m_pacServer m of
          Some server \<Rightarrow>
            if forceNewEndpoint then open_endpoint env pac forceNewEndpoint previousPacContent
            else op_bind (listens server) (\<lambda>bound.
              if bound
              then op_return \<lparr>ep_baseUrl = base_url env server, ep_version = version, ep_server = server,
                     ep_previousServer = None, ep_previousPacContent = None\<rparr>
              else op_seq stopPacServer (op_seq remember (open_endpoint env pac forceNewEndpoint previousPacContent)))
        | None \<Rightarrow> open_endpoint env pac forceNewEndpoint previousPacContent))"

definition publishRetainedPacServers :: "pac_server \<Rightarrow> unit proxy_op" where
  "publishRetainedPacServers activeServer =
     op_bind the_manager (\<lambda>m.
     let retained = filter (\<lambda>server. server \<noteq> activeServer) (m_retainedPacServers m);
         fallback = filter (\<lambda>server. server \<noteq> activeServer) (m_currentPacFallbackServers m);
         fallback2 = fallback @ filter (\<lambda>server. server \<notin> set fallback) retained;
         expired = take (length retained - MAX_RETAINED_PAC_ENDPOINTS) retained
     in op_seq (upd_manager (\<lambda>m. m\<lparr>
            m_retainedPacServers := filter (\<lambda>server. server \<notin> set expired) retained,
            m_currentPacFallbackServers := filter (\<lambda>server. server \<notin> set expired) fallback2\<rparr>))
          (closeServers expired))"

definition retain_server :: "pac_server \<Rightarrow> manager \<Rightarrow> manager" where
  "retain_server server m =
     m\<lparr>m_retainedPacServers := (if server \<in> set (m_retainedPacServers m) then m_retainedPacServers m
                               else m_retainedPacServers m @ [server])\<rparr>"

definition finishPacEndpointRotation :: "pac_endpoint \<Rightarrow> jsstring \<Rightarrow> bool \<Rightarrow> unit proxy_op" where
  "finishPacEndpointRotation endpoint pacUrl succeeded =
     (if succeeded
      then op_seq (case ep_previousServer endpoint of
               Some previous \<Rightarrow> op_when (previous \<noteq> ep_server endpoint) (upd_manager (retain_server previous))
             | None \<Rightarrow> op_return ())
             (publishRetainedPacServers (ep_server endpoint))
      else case ep_previousServer endpoint of
          None \<Rightarrow> op_return ()
        | Some previous \<Rightarrow>
            if previous = ep_server endpoint then op_return ()
            else op_bind the_manager (\<lambda>m.
              if m_registryPacUrl m = Some pacUrl then upd_manager (retain_server previous)
              else op_seq (op_when (m_pacServer m = Some (ep_server endpoint)) (upd_manager (\<lambda>m. m\<lparr>m_pacServer := Some previous\<rparr>)))
                (op_seq (closeServers [ep_server endpoint])
                (upd_manager (\<lambda>m. m\<lparr>m_pacContent :=
                   (case ep_previousPacContent endpoint of
                      Some content \<Rightarrow> content
                    | None \<Rightarrow> (case pacVersionFromUrl (m_registryPacUrl m) of
                          None \<Rightarrow> m_pacContent m
                        | Some version \<Rightarrow> if version = [] then m_pacContent m else jm_or (m_pacVersions m) version (m_pacContent m)))\<rparr>)))))"

definition retryPendingPacNotification :: "proxy_env \<Rightarrow> bool proxy_op" where
  "retryPendingPacNotification env =
     op_bind the_manager (\<lambda>m.
     case (m_pendingPacNotificationUrl m, m_pacServer m) of
       (Some pendingUrl, Some server) \<Rightarrow>
         op_bind (listens server) (\<lambda>bound.
         if pendingUrl = [] \<or> m_registryPacUrl m \<noteq> Some pendingUrl \<or> \<not> bound then op_return False
         else op_seq (regAddDword env ProxyEnable (js ''0''))
             (op_seq (regDeleteValue env ProxyServer)
             (op_seq (regAddDword env AutoDetect (js ''0''))
             (op_seq (regAddString env AutoConfigURL pendingUrl False)
             (op_seq (upd_manager (\<lambda>m. m\<lparr>m_registryPacUrl := Some pendingUrl\<rparr>))
             (op_seq (refreshWindowsProxy env)
             (op_seq (upd_manager (\<lambda>m. m\<lparr>m_registeredStaticProxy := None, m_registeredPacUrl := Some pendingUrl,
                        m_pendingPacNotificationUrl := None, m_proxyStateDirty := False,
                        m_publishedPacContent := m_pacContent m\<rparr>))
             (op_seq (publishRetainedPacServers server)
             (op_return True)))))))))
     | _ \<Rightarrow> op_return False)"

section \<open>Applying and restoring\<close>

definition restore_entries :: "proxy_env \<Rightarrow> (reg_name \<times> value_kind \<times> jsstring option) list \<Rightarrow> unit proxy_op" where
  "restore_entries env entries = foldr (\<lambda>entry k. op_seq (restoreValue env entry) k) entries (op_return ())"

definition notice_sink :: "notice \<Rightarrow> unit proxy_op" where
  "notice_sink notice = op_modify (\<lambda>s.
     if m_hasDiagnostic (st_manager s) then s\<lparr>st_diagnostics := st_diagnostics s @ [notice]\<rparr>
     else s\<lparr>st_manager := (st_manager s)\<lparr>m_journalNotices := m_journalNotices (st_manager s) @ [notice]\<rparr>\<rparr>)"

definition keep_notice :: "notice \<Rightarrow> unit proxy_op" where
  "keep_notice notice = upd_manager (\<lambda>m. m\<lparr>m_journalNotices := m_journalNotices m @ [notice]\<rparr>)"

definition restore_snapshot :: "proxy_env \<Rightarrow> proxy_snapshot \<Rightarrow> unit proxy_op" where
  "restore_snapshot env snapshot =
     op_seq (restore_entries env (take 4 (snapshot_values snapshot)))
    (op_seq (upd_manager (\<lambda>m. m\<lparr>m_registryPacUrl := None, m_pendingPacNotificationUrl := None\<rparr>))
    (op_seq (restore_entries env (drop 4 (snapshot_values snapshot)))
    (op_seq (refreshWindowsProxy env)
    (op_seq stopPacServer
    (op_seq (upd_manager (\<lambda>m. m\<lparr>m_snapshot := None, m_registeredPacUrl := None, m_registryPacUrl := None,
       m_pendingPacNotificationUrl := None, m_registeredStaticProxy := None, m_proxyStateDirty := False\<rparr>))
    (op_bind the_manager (\<lambda>m.
     op_seq (effect env FileFailed (set_pacFile (m_pacDirectory m) None))
       (effect env FileFailed (set_journal (m_pacDirectory m) None)))))))))"

definition restoreInternal :: "proxy_env \<Rightarrow> unit proxy_op" where
  "restoreInternal env =
     (let give_up = op_seq stopPacServer (upd_manager (\<lambda>m. m\<lparr>m_proxyStateDirty := False\<rparr>))
      in if \<not> pe_win32 env then give_up
         else op_bind the_manager (\<lambda>m.
           op_bind (case m_snapshot m of
                      Some snapshot \<Rightarrow> op_return (Some snapshot)
                    | None \<Rightarrow> readUsableProxySnapshot env (m_pacDirectory m) notice_sink) (\<lambda>snapshot.
           case snapshot of None \<Rightarrow> give_up | Some s \<Rightarrow> restore_snapshot env s)))"

definition restorePersistedSnapshot :: "proxy_env \<Rightarrow> unit proxy_op" where
  "restorePersistedSnapshot env =
     op_bind the_manager (\<lambda>m.
     if m_snapshot m \<noteq> None then op_return ()
     else op_bind (readUsableProxySnapshot env (m_pacDirectory m) keep_notice) (\<lambda>snapshot.
       op_when (snapshot \<noteq> None) (restoreInternal env)))"

record apply_request =
  ar_mode :: routing_mode
  ar_rules :: "routing_rule list"
  ar_proxyDomains :: "jsstring list option"
  ar_directDomains :: "jsstring list option"
  ar_socksHost :: jsstring
  ar_socksPort :: int
  ar_proxyProtocol :: "proxy_protocol option"
  ar_forcePacEndpointRotation :: bool

record apply_result =
  as_applied :: bool
  as_notices :: "notice list"
  as_message :: jsstring

definition request_protocol :: "apply_request \<Rightarrow> proxy_protocol" where
  "request_protocol r = (case ar_proxyProtocol r of None \<Rightarrow> MixedProxy | Some p \<Rightarrow> p)"

definition take_snapshot :: "proxy_env \<Rightarrow> apply_request \<Rightarrow> unit proxy_op" where
  "take_snapshot env r =
     op_bind the_manager (\<lambda>m.
     if m_snapshot m \<noteq> None then op_return ()
     else op_bind (readProxySnapshot env) (\<lambda>current.
       let snapshot = withoutAppOwnedProxyValues (pe_parseUrl env) current (ar_socksHost r) (ar_socksPort r)
       in op_seq (persistProxySnapshot env (m_pacDirectory m) snapshot)
            (upd_manager (\<lambda>m. m\<lparr>m_snapshot := Some snapshot\<rparr>))))"

definition apply_static :: "proxy_env \<Rightarrow> apply_request \<Rightarrow> apply_result proxy_op" where
  "apply_static env r =
     (let staticProxy = buildWindowsProxyServer (ar_socksHost r) (ar_socksPort r) (request_protocol r);
          proxyOverride = staticProxyOverride (ar_rules r);
          registration = staticProxy @ [10] @ proxyOverride
      in op_bind the_manager (\<lambda>m.
         op_seq (op_when (m_proxyStateDirty m \<or> m_registeredStaticProxy m \<noteq> Some registration \<or> m_pacServer m \<noteq> None)
             (op_seq (upd_manager (\<lambda>m. m\<lparr>m_registeredStaticProxy := None\<rparr>))
             (op_seq (regAddDword env ProxyEnable (js ''1''))
             (op_seq (regAddString env ProxyServer staticProxy False)
             (op_seq (regDeleteValue env AutoConfigURL)
             (op_seq (regAddString env ProxyOverride proxyOverride False)
             (op_seq (upd_manager (\<lambda>m. m\<lparr>m_registryPacUrl := None, m_pendingPacNotificationUrl := None\<rparr>))
             (op_seq (regAddDword env AutoDetect (js ''0''))
             (op_seq (refreshWindowsProxy env)
             (upd_manager (\<lambda>m. m\<lparr>m_registeredStaticProxy := Some registration\<rparr>)))))))))))
        (op_seq stopPacServer
        (op_seq (upd_manager (\<lambda>m. m\<lparr>m_registeredPacUrl := None\<rparr>))
        (op_return \<lparr>as_applied = True, as_notices = [],
           as_message = js ''Windows system proxy enabled at '' @ ar_socksHost r @ js '':'' @ dec (ar_socksPort r) @ js ''.''\<rparr>)))))"

definition mode_text :: "routing_mode \<Rightarrow> jsstring" where
  "mode_text mode = (case mode of ProxyAll \<Rightarrow> js ''proxy-all'' | SelectedRules \<Rightarrow> js ''selected-rules'')"

definition pac_message :: "apply_request \<Rightarrow> nat \<Rightarrow> nat \<Rightarrow> jsstring \<Rightarrow> jsstring" where
  "pac_message r proxied direct pacUrl =
     js ''Windows PAC routing enabled for '' @ mode_text (ar_mode r) @
     (if 0 < proxied then js '' with '' @ dec (int proxied) @ js '' proxy-list domains'' else []) @
     (if 0 < direct then js '' and '' @ dec (int direct) @ js '' direct-list domains'' else []) @
     js '' through '' @ ar_socksHost r @ js '':'' @ dec (ar_socksPort r) @ js '' at '' @ pacUrl @ js ''.''"

text \<open>The registry writes of the PAC path, between the start of its listener and the end of the rotation.\<close>

definition register_pac :: "proxy_env \<Rightarrow> bool \<Rightarrow> bool \<Rightarrow> jsstring \<Rightarrow> unit proxy_op" where
  "register_pac env forced pacChanged pacUrl =
     op_bind the_manager (\<lambda>m.
     if m_proxyStateDirty m \<or> m_registeredPacUrl m \<noteq> Some pacUrl
     then let revisingActivePac = (\<not> forced \<and> \<not> m_proxyStateDirty m \<and> m_registeredPacUrl m \<noteq> None \<and> m_registeredStaticProxy m = None)
          in op_seq (op_when (\<not> revisingActivePac)
               (op_seq (regAddDword env ProxyEnable (js ''0''))
               (op_seq (regDeleteValue env ProxyServer)
               (regAddDword env AutoDetect (js ''0'')))))
            (op_seq (regAddString env AutoConfigURL pacUrl False)
            (op_seq (upd_manager (\<lambda>m. m\<lparr>m_registryPacUrl := Some pacUrl\<rparr>))
            (op_seq (refreshWindowsProxy env)
            (upd_manager (\<lambda>m. m\<lparr>m_registeredStaticProxy := None, m_registeredPacUrl := Some pacUrl\<rparr>)))))
     else op_when pacChanged (refreshWindowsProxy env))"

definition request_pac :: "proxy_env \<Rightarrow> apply_request \<Rightarrow> jsstring" where
  "request_pac env r = pe_pacText env (buildProxyPac (ar_rules r) (ar_socksHost r) (ar_socksPort r) (request_protocol r)
     \<lparr>px_proxyDomains = Some (normalizeProxyDomains (ar_proxyDomains r)),
      px_directDomains = Some (normalizeProxyDomains (ar_directDomains r)), px_mode = Some (ar_mode r)\<rparr>)"

definition apply_pac :: "proxy_env \<Rightarrow> apply_request \<Rightarrow> apply_result proxy_op" where
  "apply_pac env r =
     (let pac = request_pac env r; forced = ar_forcePacEndpointRotation r
      in op_bind the_manager (\<lambda>m.
         let pacChanged = (pac \<noteq> m_pacContent m)
         in op_seq (op_when pacChanged
              (op_seq (attempt env FileFailed) (effect env FileFailed (set_pacFile (m_pacDirectory m) (Some pac)))))
           (op_bind (if forced then retryPendingPacNotification env else op_return False) (\<lambda>retriedPublishedEndpoint.
            let reusingRetriedEndpoint = (retriedPublishedEndpoint \<and> \<not> pacChanged)
            in op_bind (startPacServer env pac (forced \<and> \<not> reusingRetriedEndpoint)) (\<lambda>endpoint.
               let pacUrl = (if forced then ep_baseUrl endpoint else versionPacUrl (ep_baseUrl endpoint) (ep_version endpoint))
               in op_seq (op_rethrow (register_pac env forced pacChanged pacUrl)
                    (op_seq (upd_manager (\<lambda>m. if forced \<and> m_registryPacUrl m = Some pacUrl
                        then m\<lparr>m_pendingPacNotificationUrl := Some pacUrl\<rparr> else m))
                      (finishPacEndpointRotation endpoint pacUrl False)))
                 (op_seq (upd_manager (\<lambda>m. m\<lparr>m_pendingPacNotificationUrl := None, m_publishedPacContent := pac\<rparr>))
                 (op_seq (finishPacEndpointRotation endpoint pacUrl True)
                 (op_return \<lparr>as_applied = True, as_notices = [],
                    as_message = pac_message r (length (normalizeProxyDomains (ar_proxyDomains r)))
                      (length (normalizeProxyDomains (ar_directDomains r))) pacUrl\<rparr>))))))))"

definition applyInternal :: "proxy_env \<Rightarrow> apply_request \<Rightarrow> apply_result proxy_op" where
  "applyInternal env r =
     (if \<not> pe_win32 env
      then op_return \<lparr>as_applied = False, as_notices = [],
        as_message = js ''System proxy was not changed because this platform is not Windows.''\<rparr>
      else case assertLocalProxyEndpoint (ar_socksHost r) (ar_socksPort r) of
          Inl e \<Rightarrow> op_throw (BadEndpoint e)
        | Inr _ \<Rightarrow>
            op_seq (restorePersistedSnapshot env)
           (op_seq (take_snapshot env r)
           (if ar_mode r = ProxyAll \<and> normalizeProxyDomains (ar_directDomains r) = [] then apply_static env r
            else apply_pac env r)))"

section \<open>The queue's operations\<close>

text \<open>
  The manager runs one operation at a time; each notes whether the registry may be half written.  A set-aside
  journal is reported with the first apply that succeeds after it.
\<close>

definition dirty_after :: "'a proxy_op \<Rightarrow> 'a proxy_op" where
  "dirty_after m =
     op_bind (op_rethrow m (upd_manager (\<lambda>m. m\<lparr>m_proxyStateDirty := True\<rparr>))) (\<lambda>x.
     op_seq (upd_manager (\<lambda>m. m\<lparr>m_proxyStateDirty := False\<rparr>)) (op_return x))"

definition apply_proxy :: "proxy_env \<Rightarrow> apply_request \<Rightarrow> apply_result proxy_op" where
  "apply_proxy env r =
     dirty_after (op_bind (applyInternal env r) (\<lambda>result.
       op_bind the_manager (\<lambda>m.
       op_seq (upd_manager (\<lambda>m. m\<lparr>m_proxyStateDirty := False, m_journalNotices := []\<rparr>))
         (op_return (result\<lparr>as_notices := m_journalNotices m\<rparr>)))))"

definition restore_proxy :: "proxy_env \<Rightarrow> unit proxy_op" where
  "restore_proxy env = dirty_after (restoreInternal env)"

text \<open>A listener that fails after it was opened: the settings are given back when it is still the active one.\<close>

definition server_failed :: "proxy_env \<Rightarrow> pac_server \<Rightarrow> unit proxy_op" where
  "server_failed env server =
     op_bind the_manager (\<lambda>m. if m_pacServer m \<noteq> Some server then op_return () else dirty_after (restoreInternal env))"

text \<open>What a listener answers: \<open>version\<close> is the query \<open>v\<close> of the request, \<open>path\<close> its path.\<close>

datatype pac_answer = NotFound | Served jsstring

definition serve_pac :: "manager \<Rightarrow> pac_server \<Rightarrow> jsstring \<Rightarrow> jsstring option \<Rightarrow> pac_answer" where
  "serve_pac m server path version =
     (if path \<noteq> pac_path then NotFound
      else Served (case version of
             Some (c # v) \<Rightarrow> jm_or (m_pacVersions m) (c # v) (m_pacContent m)
           | _ \<Rightarrow>
               if server \<in> set (m_currentPacFallbackServers m)
               then if m_publishedPacContent m \<noteq> [] then m_publishedPacContent m else m_pacContent m
               else (case server_pac server of Some pac \<Rightarrow> pac | None \<Rightarrow> m_pacContent m)))"

section \<open>Startup recovery and quitting\<close>

definition clearAppOwnedProxyValues :: "proxy_env \<Rightarrow> bool proxy_op" where
  "clearAppOwnedProxyValues env =
     op_bind (readProxySnapshot env) (\<lambda>current.
     let ownPacUrl = (case ps_autoConfigUrl current of None \<Rightarrow> False | Some url \<Rightarrow> isShadowPacUrl (pe_parseUrl env) url);
         ownStatic = isShadowStaticProxy (ps_proxyServer current) (ps_proxyOverride current)
     in op_seq (op_when ownPacUrl (regDeleteValue env AutoConfigURL))
       (op_seq (op_when ownStatic
          (op_seq (regAddDword env ProxyEnable (js ''0''))
          (op_seq (regDeleteValue env ProxyServer)
          (case withoutLocalOverrideEntries (ps_proxyOverride current) of
             Some userOverride \<Rightarrow> regAddString env ProxyOverride userOverride (snapshotStringType current ProxyOverrideField)
           | None \<Rightarrow> regDeleteValue env ProxyOverride))))
       (op_seq (op_when (ownPacUrl \<or> ownStatic) (refreshWindowsProxy env))
       (op_return (ownPacUrl \<or> ownStatic)))))"

text \<open>
  The journals of the directories, read side by side; the set-aside notices are collected, and the first
  failure is thrown once all were tried.  A journal whose time cannot be read counts as the newest.
\<close>

fun read_candidates :: "proxy_env \<Rightarrow> jsstring list \<Rightarrow> ((nat option \<times> jsstring) list \<times> notice list \<times> bool) proxy_op" where
  "read_candidates env [] s = (Inr ([], [], True), s)"
| "read_candidates env (d # ds) s =
     (let (r, s1) = readPersistedProxySnapshot env d s;
          (found, notices, ok, s2) =
            (case r of
               Inl _ \<Rightarrow> ([], [], False, s1)
             | Inr (Inr None) \<Rightarrow> ([], [], True, s1)
             | Inr (Inl fault) \<Rightarrow> (case effect env FileFailed (set_journal d None) s1 of
                   (Inl _, s2) \<Rightarrow> ([], [], False, s2)
                 | (Inr _, s2) \<Rightarrow> ([], [SetAside fault], True, s2))
             | Inr (Inr (Some _)) \<Rightarrow> (case inspect env FileFailed (\<lambda>w. w_journals w d) s1 of
                   (Inr (Some j), s2) \<Rightarrow> ([(Some (jf_modified j), d)], [], True, s2)
                 | (_, s2) \<Rightarrow> ([(None, d)], [], True, s2)))
      in case read_candidates env ds s2 of
           (Inr (found2, notices2, ok2), s3) \<Rightarrow> (Inr (found @ found2, notices @ notices2, ok \<and> ok2), s3)
         | (Inl e, s3) \<Rightarrow> (Inl e, s3))"

text \<open>\<open>sort\<close> by time, stable, with the journals of unknown time last.\<close>

definition oldest_first :: "(nat option \<times> jsstring) list \<Rightarrow> jsstring list" where
  "oldest_first found =
     map snd (sort_key (\<lambda>c. the (fst c)) (filter (\<lambda>c. fst c \<noteq> None) found)) @ map snd (filter (\<lambda>c. fst c = None) found)"

definition discard_journal :: "proxy_env \<Rightarrow> jsstring \<Rightarrow> unit proxy_op" where
  "discard_journal env directory =
     op_seq (effect env FileFailed (set_journal directory None)) (effect env FileFailed (set_pacFile directory None))"

definition report :: "notice list \<Rightarrow> unit proxy_op" where
  "report notices = op_modify (\<lambda>s. s\<lparr>st_diagnostics := st_diagnostics s @ notices\<rparr>)"

text \<open>A manager of its own restores the directory, as \<open>new WindowsSystemProxyManager({\<dots>}).restore()\<close> does.\<close>

definition with_new_manager :: "jsstring \<Rightarrow> 'a proxy_op \<Rightarrow> 'a proxy_op" where
  "with_new_manager directory m s =
     (let (r, s1) = m (s\<lparr>st_manager := new_manager directory True\<rparr>) in (r, s1\<lparr>st_manager := st_manager s\<rparr>))"

definition recoverWindowsSystemProxy :: "proxy_env \<Rightarrow> bool proxy_op" where
  "recoverWindowsSystemProxy env =
     (if \<not> pe_win32 env then op_return False
      else op_bind (read_candidates env (to_set (pe_directories env))) (\<lambda>(found, setAside, ok).
        if \<not> ok then op_throw FileFailed
        else case oldest_first found of
          [] \<Rightarrow>
            if setAside = [] then op_return False
            else op_bind (clearAppOwnedProxyValues env) (\<lambda>cleared.
              if cleared then op_seq (report (setAside @ [LeftoversRemoved])) (op_return True)
              else op_throw JournalLost)
        | original # newer \<Rightarrow>
            op_seq (foldr (\<lambda>d k. op_seq (discard_journal env d) k) newer (op_return ()))
           (op_seq (with_new_manager original (restore_proxy env))
           (op_seq (report setAside)
           (op_return True)))))"

text \<open>\<open>restoreWindowsSystemProxyBeforeQuit\<close>: its synchronous part consumes the outcomes given.\<close>

definition restoreWindowsSystemProxyBeforeQuit :: "proxy_env \<Rightarrow> outcome list \<Rightarrow> bool proxy_op" where
  "restoreWindowsSystemProxyBeforeQuit env xs =
     (if \<not> pe_win32 env then op_return False
      else op_bind (\<lambda>s. let (restored, ws) = restoreWindowsSystemProxyNow env (pe_directories env) xs (st_world s)
                         in (Inr restored, enter_worlds ws s)) (\<lambda>restored.
        if restored then op_seq (refreshWindowsProxy env) (op_return True) else clearAppOwnedProxyValues env))"

section \<open>Runs of the program\<close>

datatype proxy_action =
    Apply apply_request
  | Restore
  | ServerFailed pac_server
  | Recover
  | BeforeQuit "outcome list"

fun perform :: "proxy_env \<Rightarrow> proxy_action \<Rightarrow> proxy_state \<Rightarrow> proxy_state" where
  "perform env (Apply r) s = snd (apply_proxy env r s)"
| "perform env Restore s = snd (restore_proxy env s)"
| "perform env (ServerFailed server) s = snd (server_failed env server s)"
| "perform env Recover s = snd (recoverWindowsSystemProxy env s)"
| "perform env (BeforeQuit xs) s = snd (restoreWindowsSystemProxyBeforeQuit env xs s)"

text \<open>A process that starts in a world, with the manager of a directory and a plan of what will go wrong.\<close>

definition process :: "jsstring \<Rightarrow> bool \<Rightarrow> plan_step list \<Rightarrow> world \<Rightarrow> proxy_state" where
  "process directory hasDiagnostic plan w =
     \<lparr>st_world = w, st_trace = [w], st_plan = plan, st_listening = [], st_listens = 0,
      st_manager = new_manager directory hasDiagnostic, st_diagnostics = []\<rparr>"

text \<open>
  The worlds in which the program may be found dead, process after process, once it ran in a world.  A
  process recovers only when it starts.  No request names the very endpoint the user's own settings name
  (\<open>other_endpoint\<close>: nothing but the application can serve there).
\<close>

definition other_endpoint :: "registry \<Rightarrow> proxy_action \<Rightarrow> bool" where
  "other_endpoint settings action =
     (case (action, map_option typed_value_of (settings ProxyServer)) of
        (Apply r, Some (Some (server, _))) \<Rightarrow> js_lower (js_trim server) \<notin>
          set (map (\<lambda>protocol. js_lower (buildWindowsProxyServer (ar_socksHost r) (ar_socksPort r) protocol)) [MixedProxy, SocksProxy])
      | _ \<Rightarrow> True)"

inductive may_be_left :: "proxy_env \<Rightarrow> jsstring \<Rightarrow> world \<Rightarrow> world \<Rightarrow> bool" for env directory w where
  before: "may_be_left env directory w w"
| killed: "may_be_left env directory w v \<Longrightarrow>
    u \<in> set (st_trace (fold (perform env) actions (process directory hasDiagnostic plan v))) \<Longrightarrow>
    Outcome Unanswered \<notin> set plan \<Longrightarrow> Recover \<notin> set (tl actions) \<Longrightarrow>
    list_all (other_endpoint (w_registry w)) actions \<Longrightarrow> may_be_left env directory w u"

end
