(* ===== verification/WindowsProxySafety.thy ===== *)
theory WindowsProxySafety
  imports WindowsProxy
begin

text \<open>
  The user's proxy settings survive the program: at each moment of each run either the registry holds them
  or the journal describes them, whatever fails and whenever the process dies, so that the recovery of the
  next start puts them back.
\<close>

section \<open>Operations with a precondition\<close>

definition holds :: "(proxy_state \<Rightarrow> bool) \<Rightarrow> 'a proxy_op \<Rightarrow> ('a \<Rightarrow> proxy_state \<Rightarrow> bool) \<Rightarrow> (proxy_state \<Rightarrow> bool) \<Rightarrow> bool" where
  "holds P m Q E \<longleftrightarrow> (\<forall>s. P s \<longrightarrow> (case m s of (Inr x, t) \<Rightarrow> Q x t | (Inl e, t) \<Rightarrow> E t))"

abbreviation keeps :: "(proxy_state \<Rightarrow> bool) \<Rightarrow> (proxy_state \<Rightarrow> bool) \<Rightarrow> 'a proxy_op \<Rightarrow> bool" where
  "keeps P E m \<equiv> holds P m (\<lambda>_. P) E"

named_theorems kept

lemma holds_conseq:
  "holds P m Q E \<Longrightarrow> (\<And>s. P' s \<Longrightarrow> P s) \<Longrightarrow> (\<And>x s. Q x s \<Longrightarrow> Q' x s) \<Longrightarrow> (\<And>s. E s \<Longrightarrow> E' s) \<Longrightarrow> holds P' m Q' E'"
  unfolding holds_def by (fastforce split: prod.splits sum.splits)

lemma holds_bind:
  "holds P m R E \<Longrightarrow> (\<And>x. holds (R x) (f x) Q E) \<Longrightarrow> holds P (op_bind m f) Q E"
  unfolding holds_def op_bind_def by (fastforce split: prod.splits sum.splits)

lemma holds_seq: "holds P m (\<lambda>_. R) E \<Longrightarrow> holds R k Q E \<Longrightarrow> holds P (op_seq m k) Q E"
  unfolding op_seq_def by (rule holds_bind)

lemma holds_return: "(\<And>s. P s \<Longrightarrow> Q x s) \<Longrightarrow> holds P (op_return x) Q E"
  by (simp add: holds_def op_return_def)

lemma holds_throw: "(\<And>s. P s \<Longrightarrow> E s) \<Longrightarrow> holds P (op_throw e) Q E"
  by (simp add: holds_def op_throw_def)

lemma holds_get: "(\<And>s. P s \<Longrightarrow> Q (f s) s) \<Longrightarrow> holds P (op_get f) Q E"
  by (simp add: holds_def op_get_def)

lemma holds_modify: "(\<And>s. P s \<Longrightarrow> Q () (f s)) \<Longrightarrow> holds P (op_modify f) Q E"
  by (simp add: holds_def op_modify_def)

lemma holds_when: "(b \<Longrightarrow> holds P m (\<lambda>_. Q) E) \<Longrightarrow> (\<And>s. \<not> b \<Longrightarrow> P s \<Longrightarrow> Q s) \<Longrightarrow> holds P (op_when b m) (\<lambda>_. Q) E"
  by (simp add: op_when_def holds_def op_return_def)

lemma holds_rethrow:
  "holds P m Q R \<Longrightarrow> holds R h (\<lambda>_. E) E \<Longrightarrow> holds P (op_rethrow m h) Q E"
  unfolding holds_def op_rethrow_def by (fastforce split: prod.splits sum.splits)

lemma keeps_bind [kept]: "keeps P E m \<Longrightarrow> (\<And>x. keeps P E (f x)) \<Longrightarrow> keeps P E (op_bind m f)"
  by (rule holds_bind)

lemma keeps_seq [kept]: "keeps P E m \<Longrightarrow> keeps P E k \<Longrightarrow> keeps P E (op_seq m k)"
  by (rule holds_seq)

lemma keeps_return [kept]: "keeps P E (op_return x)"
  by (rule holds_return)

lemma keeps_when [kept]: "keeps P E m \<Longrightarrow> keeps P E (op_when b m)"
  by (rule holds_when)

lemma keeps_rethrow [kept]: "keeps P E m \<Longrightarrow> keeps E E h \<Longrightarrow> keeps P E (op_rethrow m h)"
  by (rule holds_rethrow)

lemma keeps_get [kept]: "keeps P E (op_get f)"
  by (rule holds_get)

lemma keeps_if [kept]: "keeps P E m \<Longrightarrow> keeps P E k \<Longrightarrow> keeps P E (if b then m else k)"
  by simp

lemma keeps_option [kept]:
  "keeps P E m \<Longrightarrow> (\<And>x. keeps P E (f x)) \<Longrightarrow> keeps P E (case v of None \<Rightarrow> m | Some x \<Rightarrow> f x)"
  by (cases v) simp_all

section \<open>Settings that can be put back\<close>

definition typed_of :: "registry \<Rightarrow> reg_name \<Rightarrow> (jsstring \<times> value_kind) option" where
  "typed_of settings name = (case settings name of None \<Rightarrow> None | Some v \<Rightarrow> typed_value_of v)"

definition settings_of :: "registry \<Rightarrow> proxy_snapshot" where
  "settings_of settings =
     (let expandStrings = map fst (filter (\<lambda>fv. is_expand (snd fv))
            [(ProxyServerField, typed_of settings ProxyServer), (ProxyOverrideField, typed_of settings ProxyOverride),
             (AutoConfigUrlField, typed_of settings AutoConfigURL)])
      in \<lparr>ps_proxyEnable = map_option fst (typed_of settings ProxyEnable),
          ps_proxyServer = map_option fst (typed_of settings ProxyServer),
          ps_proxyOverride = map_option fst (typed_of settings ProxyOverride),
          ps_autoConfigUrl = map_option fst (typed_of settings AutoConfigURL),
          ps_autoDetect = map_option fst (typed_of settings AutoDetect),
          ps_expandStrings = (if expandStrings = [] then None else Some expandStrings)\<rparr>)"

text \<open>
  The settings a journal can hold: numbers where Windows keeps numbers, strings of one line without blanks
  at their ends where it keeps strings, none longer than the journal's fields and all together no longer
  than a journal.
\<close>

definition plain_number :: "reg_value option \<Rightarrow> bool" where
  "plain_number v = (case v of None \<Rightarrow> True | Some (RegDword n) \<Rightarrow> True | _ \<Rightarrow> False)"

definition plain_text :: "reg_value option \<Rightarrow> bool" where
  "plain_text v =
     (let fits = (\<lambda>s. printed_value s = s \<and> length s \<le> MAX_PROXY_REGISTRY_STRING_LENGTH)
      in case v of None \<Rightarrow> True | Some (RegSz s) \<Rightarrow> fits s | Some (RegExpandSz s) \<Rightarrow> fits s | _ \<Rightarrow> False)"

definition storable :: "registry \<Rightarrow> bool" where
  "storable settings \<longleftrightarrow>
     plain_number (settings ProxyEnable) \<and> plain_number (settings AutoDetect) \<and>
     plain_text (settings ProxyServer) \<and> plain_text (settings ProxyOverride) \<and> plain_text (settings AutoConfigURL) \<and>
     jf_size (journal_of 0 (settings_of settings)) \<le> MAX_PROXY_SNAPSHOT_BYTES"

text \<open>The user's own settings: not what an earlier run of the program left behind.\<close>

definition users_own :: "proxy_env \<Rightarrow> registry \<Rightarrow> bool" where
  "users_own env settings \<longleftrightarrow>
     \<not> isShadowStaticProxy (ps_proxyServer (settings_of settings)) (ps_proxyOverride (settings_of settings)) \<and>
     (case ps_autoConfigUrl (settings_of settings) of None \<Rightarrow> True | Some url \<Rightarrow> \<not> isShadowPacUrl (pe_parseUrl env) url)"

lemma number_text_exact:
  "dword_data (js ''0x'' @ hex (uint (n :: 32 word))) = Some (RegDword n)"
  "dword_text (js ''0x'' @ hex (uint n)) = Some (nat (uint n))" "length (js ''0x'' @ hex (uint n)) \<le> 10"
proof -
  let ?h = "hex (uint n)"
  have digits: "\<forall>u \<in> set ?h. is_hex_digit u" by (auto simp: hex_def dest: radix_string_hex)
  have ne: "?h \<noteq> []" by (simp add: hex_def)
  have trim: "js_trim (js ''0x'' @ ?h) = js ''0x'' @ ?h"
    by (rule js_trim_id) (use digits in \<open>auto simp: is_hex_digit_def is_digit_def js_ws_def\<close>)
  have worth: "radix_value 16 ?h = nat (uint n)" by (simp add: hex_def)
  have "js_number (js ''0x'' @ ?h) = Some (uint n)"
    using trim digits ne worth by (simp add: js_number_def Let_def radix_literal_def list_all_iff starts_with_def)
  moreover have "uint n \<le> 0xffffffff" using uint_lt2p [of n] by simp
  ultimately show "dword_data (js ''0x'' @ ?h) = Some (RegDword n)" by (simp add: dword_data_def)
  show "dword_text (js ''0x'' @ ?h) = Some (nat (uint n))"
    using digits ne worth by (cases ?h) (simp_all add: dword_text_def starts_with_def list_all_iff)
  have "length ?h \<le> 8"
    unfolding hex_def by (rule radix_string_length) (use unsigned_less [of n, where ?'a = nat] in simp_all)
  then show "length (js ''0x'' @ ?h) \<le> 10" by simp
qed

lemma settings_fields:
  "ps_proxyEnable (settings_of settings) = map_option fst (typed_of settings ProxyEnable)"
  "ps_proxyServer (settings_of settings) = map_option fst (typed_of settings ProxyServer)"
  "ps_proxyOverride (settings_of settings) = map_option fst (typed_of settings ProxyOverride)"
  "ps_autoConfigUrl (settings_of settings) = map_option fst (typed_of settings AutoConfigURL)"
  "ps_autoDetect (settings_of settings) = map_option fst (typed_of settings AutoDetect)"
  by (simp_all add: settings_of_def Let_def)

lemma settings_expand_strings:
  "case ps_expandStrings (settings_of settings) of None \<Rightarrow> True | Some listed \<Rightarrow> listed \<noteq> [] \<and> distinct listed"
  by (auto simp: settings_of_def Let_def)

lemma stored_types:
  "snapshotStringType (settings_of settings) ProxyServerField = is_expand (typed_of settings ProxyServer)"
  "snapshotStringType (settings_of settings) ProxyOverrideField = is_expand (typed_of settings ProxyOverride)"
  "snapshotStringType (settings_of settings) AutoConfigUrlField = is_expand (typed_of settings AutoConfigURL)"
  by (auto simp: snapshotStringType_def settings_of_def Let_def)

definition put_back_exactly :: "registry \<Rightarrow> reg_name \<times> value_kind \<times> jsstring option \<Rightarrow> bool" where
  "put_back_exactly settings entry \<longleftrightarrow>
     (case entry of
        (name, kind, None) \<Rightarrow> settings name = None
      | (name, kind, Some s) \<Rightarrow> data_of kind s \<noteq> None \<and> data_of kind s = settings name)"

lemma number_put_back:
  "plain_number (settings name) \<Longrightarrow> put_back_exactly settings (name, DwordKind, map_option fst (typed_of settings name))"
  by (auto simp: put_back_exactly_def plain_number_def typed_of_def typed_value_of_def data_of_def number_text_exact(1)
      simp del: js_simps split: option.splits reg_value.splits)

lemma text_put_back:
  "plain_text (settings name) \<Longrightarrow> put_back_exactly settings
     (name, StringKind (is_expand (typed_of settings name)), map_option fst (typed_of settings name))"
  by (auto simp: put_back_exactly_def plain_text_def Let_def typed_of_def typed_value_of_def data_of_def string_data_def
      is_expand_def split: option.splits reg_value.splits)

lemma settings_put_back:
  assumes "storable settings" "entry \<in> set (snapshot_values (settings_of settings))"
  shows "put_back_exactly settings entry"
proof -
  have names: "snapshot_values (settings_of settings) =
     [(ProxyEnable, DwordKind, map_option fst (typed_of settings ProxyEnable)),
      (ProxyServer, StringKind (is_expand (typed_of settings ProxyServer)), map_option fst (typed_of settings ProxyServer)),
      (ProxyOverride, StringKind (is_expand (typed_of settings ProxyOverride)), map_option fst (typed_of settings ProxyOverride)),
      (AutoConfigURL, StringKind (is_expand (typed_of settings AutoConfigURL)), map_option fst (typed_of settings AutoConfigURL)),
      (AutoDetect, DwordKind, map_option fst (typed_of settings AutoDetect))]"
    unfolding snapshot_values_def stored_types by (simp add: settings_of_def Let_def)
  show ?thesis
    using assms number_put_back text_put_back unfolding names storable_def by auto
qed

lemma settings_valid:
  assumes "storable settings"
  shows "snapshot_valid (settings_of settings)"
proof -
  have number: "case v of None \<Rightarrow> True
      | Some t \<Rightarrow> length t \<le> MAX_PROXY_REGISTRY_STRING_LENGTH \<and> (case dword_text t of None \<Rightarrow> False | Some n \<Rightarrow> n \<le> 0xffffffff)"
    if "plain_number (settings name)" "v = map_option fst (typed_of settings name)" for name v
  proof -
    have "nat (uint n) \<le> 0xffffffff" for n :: "32 word"
      using unsigned_less [of n, where ?'a = nat] by simp
    then show ?thesis
      using that number_text_exact(2,3) order_trans [OF number_text_exact(3), of MAX_PROXY_REGISTRY_STRING_LENGTH]
      by (auto simp: plain_number_def typed_of_def typed_value_of_def MAX_PROXY_REGISTRY_STRING_LENGTH_def
          simp del: js_simps split: option.splits reg_value.splits)
  qed
  have strings: "case v of None \<Rightarrow> True | Some t \<Rightarrow> length t \<le> MAX_PROXY_REGISTRY_STRING_LENGTH"
    if "plain_text (settings name)" "v = map_option fst (typed_of settings name)" for name v
    using that by (auto simp: plain_text_def Let_def typed_of_def typed_value_of_def split: option.splits reg_value.splits)
  have lengths: "case v of None \<Rightarrow> True | Some t \<Rightarrow> length t \<le> MAX_PROXY_REGISTRY_STRING_LENGTH"
    if "plain_number (settings name)" "v = map_option fst (typed_of settings name)" for name v
    using number [OF that] by (cases v) auto
  have numbers: "case v of None \<Rightarrow> True | Some t \<Rightarrow> (case dword_text t of None \<Rightarrow> False | Some n \<Rightarrow> n \<le> 0xffffffff)"
    if "plain_number (settings name)" "v = map_option fst (typed_of settings name)" for name v
    using number [OF that] by (cases v) auto
  show ?thesis
    using assms settings_expand_strings unfolding snapshot_valid_def storable_def settings_fields
    by (blast intro: lengths numbers strings)
qed

lemma settings_journal:
  assumes "storable settings"
  shows "journal_snapshot (journal_of now (settings_of settings)) = Inr (settings_of settings)"
proof -
  have "jf_size (journal_of now (settings_of settings)) = jf_size (journal_of 0 (settings_of settings))"
    by (simp add: journal_of_def)
  then show ?thesis
    using assms snapshot_round_trip [OF settings_valid [OF assms]] by (simp add: journal_snapshot_def storable_def)
qed

lemma own_settings_kept:
  assumes "users_own env settings" "other_endpoint settings (Apply r)"
  shows "withoutAppOwnedProxyValues (pe_parseUrl env) (settings_of settings) (ar_socksHost r) (ar_socksPort r) = settings_of settings"
proof -
  have server: "ps_proxyServer (settings_of settings) =
      (case settings ProxyServer of None \<Rightarrow> None | Some v \<Rightarrow> map_option fst (typed_value_of v))"
    by (auto simp: settings_of_def Let_def typed_of_def split: option.splits)
  show ?thesis
    using assms unfolding withoutAppOwnedProxyValues_def users_own_def other_endpoint_def Let_def server
    by (auto split: option.splits prod.splits simp del: js_simps)
qed

section \<open>Safe worlds\<close>

definition supported :: "registry \<Rightarrow> bool" where
  "supported settings \<longleftrightarrow> (\<forall>name. settings name \<noteq> Some RegOther)"

lemma data_of_supported [simp]: "data_of kind s \<noteq> Some RegOther" "dword_data s \<noteq> Some RegOther" "string_data expand s \<noteq> RegOther"
  by (auto simp: data_of_def dword_data_def string_data_def split: value_kind.splits option.splits)

lemma storable_supported: "storable settings \<Longrightarrow> supported settings"
  unfolding supported_def
proof
  fix name assume "storable settings"
  then show "settings name \<noteq> Some RegOther"
    by (cases name) (auto simp: storable_def plain_number_def plain_text_def Let_def)
qed

text \<open>
  Either no journal exists and the registry holds the user's settings, or the journal describes them; the
  other directories hold no journal.
\<close>

definition safe_world :: "proxy_env \<Rightarrow> jsstring \<Rightarrow> registry \<Rightarrow> world \<Rightarrow> bool" where
  "safe_world env d settings w \<longleftrightarrow>
     (\<forall>d' \<in> set (pe_directories env). d' \<noteq> d \<longrightarrow> w_journals w d' = None) \<and>
     (case w_journals w d of
        None \<Rightarrow> w_registry w = settings
      | Some j \<Rightarrow> journal_snapshot j = Inr (settings_of settings)) \<and>
     supported (w_registry w)"

definition intact :: "proxy_env \<Rightarrow> jsstring \<Rightarrow> registry \<Rightarrow> proxy_state \<Rightarrow> bool" where
  "intact env d settings s \<longleftrightarrow>
     (\<forall>w \<in> set (st_trace s). safe_world env d settings w) \<and> safe_world env d settings (st_world s) \<and>
     Outcome Unanswered \<notin> set (st_plan s) \<and> m_pacDirectory (st_manager s) = d \<and>
     (m_snapshot (st_manager s) = None \<or>
      m_snapshot (st_manager s) = Some (settings_of settings) \<and> w_journals (st_world s) d \<noteq> None)"

text \<open>A state with a journal, in which some values of the registry are the user's already; one without a journal.\<close>

definition journalled :: "proxy_env \<Rightarrow> jsstring \<Rightarrow> registry \<Rightarrow> reg_name set \<Rightarrow> proxy_state \<Rightarrow> bool" where
  "journalled env d settings names s \<longleftrightarrow>
     intact env d settings s \<and> w_journals (st_world s) d \<noteq> None \<and> (\<forall>n \<in> names. w_registry (st_world s) n = settings n)"

definition untouched :: "proxy_env \<Rightarrow> jsstring \<Rightarrow> registry \<Rightarrow> proxy_state \<Rightarrow> bool" where
  "untouched env d settings s \<longleftrightarrow> intact env d settings s \<and> w_journals (st_world s) d = None"

lemma intact_cases:
  "intact env d settings s \<longleftrightarrow> journalled env d settings {} s \<or> untouched env d settings s"
  by (auto simp: journalled_def untouched_def)

lemma untouched_settings:
  assumes "untouched env d settings s"
  shows "w_registry (st_world s) = settings" "m_snapshot (st_manager s) = None"
  using assms by (auto simp: untouched_def intact_def safe_world_def split: option.splits)

lemma journalled_mono: "journalled env d settings names s \<Longrightarrow> names' \<subseteq> names \<Longrightarrow> journalled env d settings names' s"
  by (auto simp: journalled_def)

lemma restore_values_now_steps:
  assumes "\<forall>e \<in> set es. put_back_exactly settings e" "v \<in> set (snd (restore_values_now es xs w))"
  shows "w_journals v = w_journals w \<and> (\<forall>n. w_registry w n = settings n \<longrightarrow> w_registry v n = settings n) \<and>
    (supported (w_registry w) \<longrightarrow> supported (w_registry v))"
  using assms
proof (induction es arbitrary: xs w)
  case (Cons e es)
  let ?w1 = "snd (restoreValueNow e (if xs = [] then Done else hd xs) w)"
  have step: "w_journals ?w1 = w_journals w \<and> (\<forall>n. w_registry w n = settings n \<longrightarrow> w_registry ?w1 n = settings n) \<and>
      (supported (w_registry w) \<longrightarrow> supported (w_registry ?w1))"
    using Cons.prems(1)
    by (auto simp: restoreValueNow_def put_back_exactly_def set_value_def supported_def split: prod.splits option.splits)
  have "v = ?w1 \<or> v \<in> set (snd (restore_values_now es (tl xs) ?w1))"
    using Cons.prems(2) by (auto simp: Let_def split: prod.splits)
  then show ?case using step Cons.IH [of "tl xs" ?w1] Cons.prems(1) by auto
qed simp

lemma read_journals_now_found:
  "c \<in> set (read_journals_now w ds xs) \<Longrightarrow> \<exists>d \<in> set ds. readable_journal w d = Some c"
  by (induction ds arbitrary: xs) (auto simp: Let_def split: if_splits option.splits)

lemma restore_now_steps:
  assumes "storable settings" "safe_world env d settings w"
    and "v \<in> set (snd (restoreWindowsSystemProxyNow env (pe_directories env) xs w))"
  shows "w_journals v = w_journals w \<and> (\<forall>n. w_registry w n = settings n \<longrightarrow> w_registry v n = settings n) \<and> w_journals w d \<noteq> None \<and>
    supported (w_registry v)"
proof -
  obtain now snapshot rest where found: "sort_key fst (read_journals_now w (to_set (pe_directories env)) xs) = (now, snapshot) # rest"
    and v: "v \<in> set (snd (restore_values_now (snapshot_values snapshot) (drop (length (to_set (pe_directories env))) xs) w))"
    using assms(3) by (auto simp: restoreWindowsSystemProxyNow_def Let_def split: if_splits list.splits)
  have "(now, snapshot) \<in> set (sort_key fst (read_journals_now w (to_set (pe_directories env)) xs))"
    unfolding found by simp
  then obtain d' where "d' \<in> set (pe_directories env)" "readable_journal w d' = Some (now, snapshot)"
    using read_journals_now_found by fastforce
  then have "w_journals w d \<noteq> None \<and> snapshot = settings_of settings"
    using assms(2) by (cases "d' = d") (auto simp: safe_world_def readable_journal_def split: option.splits sum.splits)
  then show ?thesis
    using restore_values_now_steps [OF _ v] settings_put_back [OF assms(1)] assms(2) unfolding safe_world_def by blast
qed

lemma safe_world_same_journals:
  "safe_world env d settings w \<Longrightarrow> w_journals v = w_journals w \<Longrightarrow> w_journals w d \<noteq> None \<Longrightarrow>
   supported (w_registry v) \<Longrightarrow> safe_world env d settings v"
  by (auto simp: safe_world_def)

lemma session_end_safe:
  assumes "storable settings" "safe_world env d settings w"
    and ws: "ws = snd (restoreWindowsSystemProxyNow env (pe_directories env) xs w)"
  shows "\<forall>v \<in> set (w # ws). safe_world env d settings v \<and> w_journals v = w_journals w \<and>
      (\<forall>n. w_registry w n = settings n \<longrightarrow> w_registry v n = settings n) \<and> (w_journals w d = None \<longrightarrow> v = w)"
proof -
  have "w_journals v = w_journals w \<and> (\<forall>n. w_registry w n = settings n \<longrightarrow> w_registry v n = settings n) \<and> w_journals w d \<noteq> None \<and>
      supported (w_registry v)"
    if "v \<in> set ws" for v
    using that unfolding ws by (rule restore_now_steps [OF assms(1,2)])
  then show ?thesis using assms(2) safe_world_same_journals [OF assms(2)] by (fastforce simp del: not_None_eq)
qed

definition only_ended :: "proxy_env \<Rightarrow> jsstring \<Rightarrow> registry \<Rightarrow> proxy_state \<Rightarrow> proxy_state \<Rightarrow> bool" where
  "only_ended env d settings s t \<longleftrightarrow>
     st_manager t = st_manager s \<and> w_journals (st_world t) = w_journals (st_world s) \<and>
     (\<forall>n. w_registry (st_world s) n = settings n \<longrightarrow> w_registry (st_world t) n = settings n) \<and>
     (w_journals (st_world s) d = None \<longrightarrow> st_world t = st_world s)"

lemma take_outcome_safe:
  assumes "storable settings" "take_outcome env p s = (x, t)"
    and "Outcome Unanswered \<notin> set p" "safe_world env d settings (st_world s)"
    and "\<forall>w \<in> set (st_trace s). safe_world env d settings w"
  shows "x \<noteq> Unanswered \<and> only_ended env d settings s t \<and> Outcome Unanswered \<notin> set (st_plan t) \<and>
    safe_world env d settings (st_world t) \<and> (\<forall>w \<in> set (st_trace t). safe_world env d settings w)"
  using assms(2-)
proof (induction env p s rule: take_outcome.induct)
  case (3 env xs p s)
  define ws where "ws = snd (restoreWindowsSystemProxyNow env (pe_directories env) xs (st_world s))"
  note safe = session_end_safe [OF assms(1) "3.prems"(3) ws_def]
  have last: "last (st_world s # ws) \<in> set (st_world s # ws)" by (rule last_in_set) simp
  have "x \<noteq> Unanswered \<and> only_ended env d settings (enter_worlds ws s) t \<and> Outcome Unanswered \<notin> set (st_plan t) \<and>
      safe_world env d settings (st_world t) \<and> (\<forall>w \<in> set (st_trace t). safe_world env d settings w)"
    by (rule "3.IH" [folded ws_def]) (use "3.prems" safe last in \<open>auto simp: ws_def enter_worlds_def\<close>)
  moreover have "only_ended env d settings s (enter_worlds ws s)"
    using safe last unfolding only_ended_def enter_worlds_def by (simp del: last.simps set_simps)
  ultimately show ?case unfolding only_ended_def by auto
qed (auto simp: only_ended_def)

lemma take_outcome_intact:
  assumes "storable settings" "intact env d settings s" "take_outcome env (st_plan s) s = (x, t)"
  shows "intact env d settings t" "x \<noteq> Unanswered" "only_ended env d settings s t"
proof -
  note facts = take_outcome_safe [OF assms(1,3), of d]
  show "x \<noteq> Unanswered" "only_ended env d settings s t" using facts assms(2) by (auto simp: intact_def)
  then show "intact env d settings t"
    using facts assms(2) by (auto simp: intact_def only_ended_def split: option.splits)
qed

section \<open>The operations beside a journal\<close>

lemma journalled_exit: "journalled env d settings names s \<Longrightarrow> journalled env d settings {} s"
  by (simp add: journalled_def)

lemma take_outcome_journalled:
  assumes "storable settings" "journalled env d settings names s" "take_outcome env (st_plan s) s = (x, t)"
  shows "journalled env d settings names t"
  using take_outcome_intact [OF assms(1) _ assms(3), of d] assms(2)
  by (auto simp: journalled_def only_ended_def simp del: not_None_eq)

lemma journalled_enter:
  assumes "journalled env d settings names s" "w_journals w = w_journals (st_world s)"
    and "\<forall>n \<in> names'. w_registry w n = settings n" "supported (w_registry w)"
  shows "journalled env d settings names' (enter_worlds [w] s)"
proof -
  have s: "intact env d settings s" "w_journals (st_world s) d \<noteq> None" using assms(1) by (simp_all add: journalled_def)
  have "safe_world env d settings (st_world s)" using s(1) by (simp add: intact_def)
  then have "safe_world env d settings w" by (rule safe_world_same_journals [OF _ assms(2) s(2) assms(4)])
  then have "intact env d settings (enter_worlds [w] s)"
    using s unfolding intact_def enter_worlds_def by (simp add: assms(2))
  then show ?thesis using s(2) assms(3) by (simp add: journalled_def enter_worlds_def assms(2))
qed

lemma effect_journalled:
  assumes "storable settings" "\<And>w. w_journals (f w) = w_journals w"
    and "\<And>w. (\<forall>n \<in> names. w_registry w n = settings n) \<Longrightarrow> \<forall>n \<in> names'. w_registry (f w) n = settings n"
    and "\<And>w. supported (w_registry w) \<Longrightarrow> supported (w_registry (f w))"
  shows "holds (journalled env d settings names) (effect env e f) (\<lambda>_. journalled env d settings names') (journalled env d settings {})"
  unfolding holds_def
proof (intro allI impI)
  fix s assume s: "journalled env d settings names s"
  obtain x t where t: "take_outcome env (st_plan s) s = (x, t)" by (cases "take_outcome env (st_plan s) s")
  note j = take_outcome_journalled [OF assms(1) s t]
  have after: "journalled env d settings names' (enter_worlds [f (st_world t)] t)"
  proof (rule journalled_enter [OF j])
    show "w_journals (f (st_world t)) = w_journals (st_world t)" by (rule assms(2))
    show "\<forall>n \<in> names'. w_registry (f (st_world t)) n = settings n"
      by (rule assms(3)) (use j in \<open>simp add: journalled_def\<close>)
    show "supported (w_registry (f (st_world t)))"
      by (rule assms(4)) (use j in \<open>simp add: journalled_def intact_def safe_world_def\<close>)
  qed
  show "case effect env e f s of (Inl e, t) \<Rightarrow> journalled env d settings {} t | (Inr x, t) \<Rightarrow> journalled env d settings names' t"
    using t journalled_exit [OF after] journalled_exit [OF j] after by (simp add: effect_def)
qed

lemma effect_kept [kept]:
  assumes "storable settings" "\<And>w. w_journals (f w) = w_journals w"
    and "\<And>w n. n \<in> names \<Longrightarrow> w_registry (f w) n = w_registry w n"
    and "\<And>w. supported (w_registry w) \<Longrightarrow> supported (w_registry (f w))"
  shows "keeps (journalled env d settings names) (journalled env d settings {}) (effect env e f)"
  by (rule effect_journalled) (use assms in auto)

lemma inspect_kept [kept]:
  "storable settings \<Longrightarrow> keeps (journalled env d settings names) (journalled env d settings {}) (inspect env e f)"
  unfolding holds_def inspect_def Let_def
  by (auto split: prod.splits dest: take_outcome_journalled journalled_exit)

lemma attempt_kept [kept]:
  "storable settings \<Longrightarrow> keeps (journalled env d settings names) (journalled env d settings {}) (attempt env e)"
  unfolding attempt_def by (rule inspect_kept)

lemma query_kept [kept]:
  "storable settings \<Longrightarrow> keeps (journalled env d settings names) (journalled env d settings {}) (regQueryTypedValue env name)"
  unfolding holds_def regQueryTypedValue_def Let_def
  by (auto split: prod.splits option.splits sum.splits if_splits dest: take_outcome_journalled journalled_exit)

lemma throw_kept [kept]: "keeps (journalled env d settings names) (journalled env d settings {}) (op_throw e)"
  by (rule holds_throw) (rule journalled_exit)

lemma upd_manager_kept [kept]:
  assumes "\<And>m. m_pacDirectory (f m) = m_pacDirectory m" "\<And>m. m_snapshot (f m) = m_snapshot m \<or> m_snapshot (f m) = None"
  shows "keeps (journalled env d settings names) E (upd_manager f)"
proof -
  have "journalled env d settings names (s\<lparr>st_manager := f (st_manager s)\<rparr>)" if "journalled env d settings names s" for s
    using that assms(2) [of "st_manager s"] by (auto simp: journalled_def intact_def assms(1))
  then show ?thesis unfolding upd_manager_def by (intro holds_modify)
qed

lemma modify_kept [kept]:
  assumes "\<And>s. st_world (f s) = st_world s" "\<And>s. st_trace (f s) = st_trace s" "\<And>s. st_plan (f s) = st_plan s"
    and "\<And>s. st_manager (f s) = st_manager s"
  shows "keeps (journalled env d settings names) E (op_modify f)"
  by (rule holds_modify) (auto simp: journalled_def intact_def assms)

lemmas unfolded_ops =
  regQueryValue_def regAddDword_def regAddString_def regDeleteValue_def refreshWindowsProxy_def the_manager_def
  listens_def closeServers_def Let_def

lemma commands_kept [kept]:
  assumes "storable settings" "name \<notin> names"
  shows "keeps (journalled env d settings names) (journalled env d settings {}) (regAddDword env name v)"
    and "keeps (journalled env d settings names) (journalled env d settings {}) (regAddString env name v expand)"
    and "keeps (journalled env d settings names) (journalled env d settings {}) (regDeleteValue env name)"
proof -
  have written: "keeps (journalled env d settings names) (journalled env d settings {}) (effect env e (set_value name (Some x)))"
    if "x \<noteq> RegOther" for e x
    using assms that by (intro effect_kept) (auto simp: set_value_def supported_def)
  have "dword_data v = Some x \<Longrightarrow> x \<noteq> RegOther" for x using data_of_supported(2) [of v] by auto
  then show "keeps (journalled env d settings names) (journalled env d settings {}) (regAddDword env name v)"
    unfolding regAddDword_def
    by (cases "dword_data v") (auto intro!: kept written assms)
  show "keeps (journalled env d settings names) (journalled env d settings {}) (regAddString env name v expand)"
    unfolding regAddString_def by (rule written) simp
  have deleted: "keeps (journalled env d settings names) (journalled env d settings {}) (effect env e (set_value name None))" for e
    using assms by (intro effect_kept) (auto simp: set_value_def supported_def)
  show "keeps (journalled env d settings names) (journalled env d settings {}) (regDeleteValue env name)"
    unfolding regDeleteValue_def regQueryValue_def
    by (intro keeps_bind keeps_when keeps_return query_kept deleted assms)
qed

lemma stopPacServer_kept [kept]: "keeps (journalled env d settings names) E stopPacServer"
  unfolding stopPacServer_def unfolded_ops
  by (auto intro!: kept)

lemma closeServers_kept [kept]: "keeps (journalled env d settings names) E (closeServers servers)"
  unfolding closeServers_def by (auto intro!: kept)

lemma publish_kept [kept]: "keeps (journalled env d settings names) E (publishRetainedPacServers server)"
  unfolding publishRetainedPacServers_def the_manager_def Let_def
  by (auto intro!: kept)

lemma listens_kept [kept]: "keeps P E (listens server)"
  unfolding listens_def by (rule keeps_get)

lemma the_manager_kept [kept]: "keeps P E the_manager"
  unfolding the_manager_def by (rule keeps_get)

lemma refresh_kept [kept]:
  "storable settings \<Longrightarrow> keeps (journalled env d settings names) (journalled env d settings {}) (refreshWindowsProxy env)"
  unfolding refreshWindowsProxy_def by (rule attempt_kept)

lemma open_listener_kept [kept]:
  "storable settings \<Longrightarrow> keeps (journalled env d settings {}) (journalled env d settings {}) (open_listener env content)"
  unfolding holds_def open_listener_def Let_def
  by (auto split: prod.splits dest!: take_outcome_journalled simp: journalled_def intact_def)

lemma retain_server_fields [simp]:
  "m_pacDirectory (retain_server server m) = m_pacDirectory m" "m_snapshot (retain_server server m) = m_snapshot m"
  by (simp_all add: retain_server_def)

lemma rememberPacVersion_fields [simp]:
  "m_pacDirectory (rememberPacVersion version pac m) = m_pacDirectory m"
  "m_snapshot (rememberPacVersion version pac m) = m_snapshot m"
  by (simp_all add: rememberPacVersion_def Let_def)

lemma rotation_kept [kept]: "keeps (journalled env d settings {}) (journalled env d settings {}) (finishPacEndpointRotation endpoint url succeeded)"
  unfolding finishPacEndpointRotation_def
  by (auto intro!: kept)

lemma startPacServer_kept [kept]:
  "storable settings \<Longrightarrow> keeps (journalled env d settings {}) (journalled env d settings {}) (startPacServer env pac forced)"
  unfolding startPacServer_def open_endpoint_def Let_def
  by (auto intro!: kept)

lemma retry_kept [kept]:
  assumes "storable settings"
  shows "keeps (journalled env d settings {}) (journalled env d settings {}) (retryPendingPacNotification env)"
  unfolding retryPendingPacNotification_def prod.case
  by (auto intro!: kept assms)

lemma apply_static_kept: "storable settings \<Longrightarrow> keeps (journalled env d settings {}) (journalled env d settings {}) (apply_static env r)"
  unfolding apply_static_def Let_def
  by (auto intro!: kept)

lemma apply_pac_kept: "storable settings \<Longrightarrow> keeps (journalled env d settings {}) (journalled env d settings {}) (apply_pac env r)"
  unfolding apply_pac_def register_pac_def Let_def
  by (auto intro!: kept simp: set_pacFile_def split: if_splits)

section \<open>Putting the settings back\<close>

lemma query_value:
  assumes "storable settings"
  shows "holds (journalled env d settings names) (regQueryValue env name)
     (\<lambda>v s. journalled env d settings names s \<and> (v = None \<longrightarrow> w_registry (st_world s) name = None)) (journalled env d settings {})"
  unfolding holds_def
proof (intro allI impI)
  fix s assume s: "journalled env d settings names s"
  obtain x t where t: "take_outcome env (st_plan s) s = (x, t)" by (cases "take_outcome env (st_plan s) s")
  note j = take_outcome_journalled [OF assms s t]
  have "x \<noteq> Unanswered" using take_outcome_intact(2) [OF assms _ t] s by (auto simp: journalled_def)
  then show "case regQueryValue env name s of (Inl e, t) \<Rightarrow> journalled env d settings {} t
      | (Inr v, t) \<Rightarrow> journalled env d settings names t \<and> (v = None \<longrightarrow> w_registry (st_world t) name = None)"
    using t j journalled_exit [OF j]
    by (simp add: regQueryValue_def op_bind_def op_return_def regQueryTypedValue_def split: option.splits)
qed

lemma delete_value:
  assumes "storable settings" "settings name = None"
  shows "holds (journalled env d settings names) (regDeleteValue env name)
     (\<lambda>_. journalled env d settings (insert name names)) (journalled env d settings {})"
  unfolding regDeleteValue_def
proof (rule holds_bind [OF query_value [OF assms(1)]])
  fix v
  have "holds (journalled env d settings names) (effect env CommandFailed (set_value name None))
      (\<lambda>_. journalled env d settings (insert name names)) (journalled env d settings {})"
    by (rule effect_journalled) (auto simp: assms set_value_def supported_def)
  then show "holds (\<lambda>s. journalled env d settings names s \<and> (v = None \<longrightarrow> w_registry (st_world s) name = None))
      (op_when (v \<noteq> None) (effect env CommandFailed (set_value name None)))
      (\<lambda>_. journalled env d settings (insert name names)) (journalled env d settings {})"
    by (intro holds_when) (auto elim!: holds_conseq simp: journalled_def assms)
qed

lemma write_value:
  assumes "storable settings" "Some v = settings name"
  shows "holds (journalled env d settings names) (effect env e (set_value name (Some v)))
     (\<lambda>_. journalled env d settings (insert name names)) (journalled env d settings {})"
  using storable_supported [OF assms(1)]
  by (intro effect_journalled) (auto simp: assms set_value_def supported_def)

lemma restoreValue_put_back:
  assumes "storable settings" "put_back_exactly settings entry"
  shows "holds (journalled env d settings names) (restoreValue env entry)
     (\<lambda>_. journalled env d settings (insert (fst entry) names)) (journalled env d settings {})"
proof -
  obtain name kind v where entry: "entry = (name, kind, v)" by (cases entry)
  show ?thesis
  proof (cases v)
    case None
    then show ?thesis using assms delete_value [OF assms(1)]
      by (cases kind) (simp_all add: entry restoreValue_def put_back_exactly_def)
  next
    case (Some s)
    then obtain x where x: "data_of kind s = Some x" "settings name = Some x"
      using assms(2) by (cases "data_of kind s") (auto simp: entry put_back_exactly_def)
    then show ?thesis
      using write_value [OF assms(1) x(2) [symmetric]] Some
      by (cases kind) (simp_all add: entry restoreValue_def data_of_def regAddDword_def regAddString_def)
  qed
qed

lemma restore_entries_put_back:
  assumes "storable settings" "\<forall>entry \<in> set entries. put_back_exactly settings entry"
  shows "holds (journalled env d settings names) (restore_entries env entries)
     (\<lambda>_. journalled env d settings (fst ` set entries \<union> names)) (journalled env d settings {})"
  using assms(2)
proof (induction entries arbitrary: names)
  case Nil
  then show ?case by (auto simp: restore_entries_def intro: holds_return)
next
  case (Cons entry entries)
  have "holds (journalled env d settings (insert (fst entry) names)) (restore_entries env entries)
      (\<lambda>_. journalled env d settings (fst ` set entries \<union> insert (fst entry) names)) (journalled env d settings {})"
    using Cons by (metis list.set_intros(2))
  moreover have "put_back_exactly settings entry" using Cons.prems by simp
  ultimately show ?case
    using holds_seq [OF restoreValue_put_back [OF assms(1)]]
    by (simp add: restore_entries_def del: insert_iff)
qed

definition all_names :: "reg_name set" where
  "all_names = {ProxyEnable, ProxyServer, ProxyOverride, AutoConfigURL, AutoDetect}"

lemma all_names [simp]: "name \<in> all_names"
  by (cases name) (simp_all add: all_names_def)

lemma snapshot_names: "fst ` set (snapshot_values snapshot) = all_names"
  by (simp add: snapshot_values_def all_names_def)

lemma take_outcome_manager: "take_outcome env p s = (x, t) \<Longrightarrow> st_manager t = st_manager s"
  by (induction env p s rule: take_outcome.induct) (auto simp: enter_worlds_def)

lemma effect_manager: "st_manager (snd (effect env e f s)) = st_manager s"
  by (cases "take_outcome env (st_plan s) s") (auto simp: effect_def enter_worlds_def dest: take_outcome_manager)

lemma effect_beside:
  assumes "holds P (effect env e f) Q E"
  shows "holds (\<lambda>s. P s \<and> g (st_manager s)) (effect env e f) (\<lambda>x s. Q x s \<and> g (st_manager s)) E"
  unfolding holds_def
proof (intro allI impI)
  fix s assume s: "P s \<and> g (st_manager s)"
  obtain r t where rt: "effect env e f s = (r, t)" by (cases "effect env e f s")
  then have "st_manager t = st_manager s" using effect_manager [of env e f s] by simp
  then show "case effect env e f s of (Inl e, t) \<Rightarrow> E t | (Inr x, t) \<Rightarrow> Q x t \<and> g (st_manager t)"
    using s assms rt by (cases r) (auto simp: holds_def)
qed

text \<open>Everything is put back, and the manager has let go of the snapshot: the journal may go.\<close>

definition put_back :: "proxy_env \<Rightarrow> jsstring \<Rightarrow> registry \<Rightarrow> proxy_state \<Rightarrow> bool" where
  "put_back env d settings s \<longleftrightarrow> journalled env d settings all_names s \<and> m_snapshot (st_manager s) = None"

lemma discard_own_journal:
  assumes "storable settings"
  shows "holds (put_back env d settings) (effect env e (set_journal d None)) (\<lambda>_. untouched env d settings) (intact env d settings)"
  unfolding holds_def
proof (intro allI impI)
  fix s assume s: "put_back env d settings s"
  obtain x t where t: "take_outcome env (st_plan s) s = (x, t)" by (cases "take_outcome env (st_plan s) s")
  have j: "journalled env d settings all_names t" and m: "m_snapshot (st_manager t) = None"
    using take_outcome_journalled [OF assms _ t] take_outcome_manager [OF t] s by (auto simp: put_back_def)
  let ?w = "set_journal d None (st_world t)"
  have "w_registry (st_world t) = settings" using j by (auto simp: journalled_def)
  then have "safe_world env d settings ?w"
    using j by (auto simp: journalled_def intact_def safe_world_def set_journal_def)
  then have "untouched env d settings (enter_worlds [?w] t)"
    using j m by (auto simp: untouched_def journalled_def intact_def enter_worlds_def set_journal_def)
  then show "case effect env e (set_journal d None) s of (Inl e, t) \<Rightarrow> intact env d settings t | (Inr v, t) \<Rightarrow> untouched env d settings t"
    using t j by (simp add: effect_def untouched_def journalled_def)
qed

lemma discard_pac_file:
  assumes "storable settings"
  shows "holds (put_back env d settings) (effect env e (set_pacFile d' None)) (\<lambda>_. put_back env d settings) (intact env d settings)"
proof -
  have "keeps (journalled env d settings all_names) (journalled env d settings {}) (effect env e (set_pacFile d' None))"
    by (rule effect_kept) (simp_all add: assms set_pacFile_def)
  from effect_beside [OF this, of "\<lambda>m. m_snapshot m = None"] show ?thesis
    unfolding put_back_def by (rule holds_conseq) (auto simp: journalled_def)
qed

lemma restore_snapshot_put_back:
  assumes "storable settings"
  shows "holds (journalled env d settings {}) (restore_snapshot env (settings_of settings)) (\<lambda>_. untouched env d settings) (intact env d settings)"
proof -
  let ?vs = "snapshot_values (settings_of settings)" and ?J = "journalled env d settings"
  have good: "\<forall>entry \<in> set ?vs. put_back_exactly settings entry" using settings_put_back [OF assms] by blast
  have all: "fst ` set (drop 4 ?vs) \<union> (fst ` set (take 4 ?vs) \<union> {}) = all_names"
    by (simp add: snapshot_values_def all_names_def insert_commute)
  have first: "holds (?J {}) (restore_entries env (take 4 ?vs)) (\<lambda>_. ?J (fst ` set (take 4 ?vs) \<union> {})) (?J {})"
    using good by (intro restore_entries_put_back [OF assms]) (auto dest: in_set_takeD)
  have second: "holds (?J (fst ` set (take 4 ?vs) \<union> {})) (restore_entries env (drop 4 ?vs)) (\<lambda>_. ?J all_names) (?J {})"
    unfolding all [symmetric] using good by (intro restore_entries_put_back [OF assms]) (auto dest: in_set_dropD)
  have rest: "holds (?J all_names)
      (op_seq (upd_manager (\<lambda>m. m\<lparr>m_snapshot := None, m_registeredPacUrl := None, m_registryPacUrl := None,
         m_pendingPacNotificationUrl := None, m_registeredStaticProxy := None, m_proxyStateDirty := False\<rparr>))
       (op_bind the_manager (\<lambda>m.
         op_seq (effect env FileFailed (set_pacFile (m_pacDirectory m) None))
           (effect env FileFailed (set_journal (m_pacDirectory m) None)))))
      (\<lambda>_. untouched env d settings) (intact env d settings)"
  proof (rule holds_seq)
    show "holds (?J all_names) (upd_manager (\<lambda>m. m\<lparr>m_snapshot := None, m_registeredPacUrl := None, m_registryPacUrl := None,
         m_pendingPacNotificationUrl := None, m_registeredStaticProxy := None, m_proxyStateDirty := False\<rparr>))
      (\<lambda>_. put_back env d settings) (intact env d settings)"
      unfolding upd_manager_def by (rule holds_modify) (auto simp: put_back_def journalled_def intact_def)
    have "holds (\<lambda>s. put_back env d settings s \<and> m_pacDirectory m = d)
        (op_seq (effect env FileFailed (set_pacFile (m_pacDirectory m) None)) (effect env FileFailed (set_journal (m_pacDirectory m) None)))
        (\<lambda>_. untouched env d settings) (intact env d settings)" for m
      using holds_seq [OF discard_pac_file [OF assms] discard_own_journal [OF assms]]
      by (cases "m_pacDirectory m = d") (auto simp: holds_def)
    then show "holds (put_back env d settings) (op_bind the_manager (\<lambda>m.
         op_seq (effect env FileFailed (set_pacFile (m_pacDirectory m) None))
           (effect env FileFailed (set_journal (m_pacDirectory m) None))))
      (\<lambda>_. untouched env d settings) (intact env d settings)"
      unfolding the_manager_def
      by (intro holds_bind [OF holds_get, where R = "\<lambda>m s. put_back env d settings s \<and> m_pacDirectory m = d"])
        (auto simp: put_back_def journalled_def intact_def)
  qed
  have let_go: "keeps (?J names) (intact env d settings)
      (upd_manager (\<lambda>m. m\<lparr>m_registryPacUrl := None, m_pendingPacNotificationUrl := None\<rparr>))" for names
    by (rule upd_manager_kept) simp_all
  have intact: "?J {} s \<Longrightarrow> intact env d settings s" for s by (simp add: journalled_def)
  show ?thesis
    unfolding restore_snapshot_def
    apply (rule holds_seq, rule holds_conseq [OF first], assumption, assumption, erule intact)
    apply (rule holds_seq, rule let_go)
    apply (rule holds_seq, rule holds_conseq [OF second], assumption, assumption, erule intact)
    apply (rule holds_seq, rule holds_conseq [OF refresh_kept [OF assms]], assumption, assumption, erule intact)
    apply (rule holds_seq, rule stopPacServer_kept)
    by (rule rest)
qed

section \<open>Reading the journal, and the settings before there is one\<close>

lemma take_outcome_untouched:
  assumes "storable settings" "untouched env d settings s" "take_outcome env (st_plan s) s = (x, t)"
  shows "untouched env d settings t" "x \<noteq> Unanswered" "st_world t = st_world s"
  using take_outcome_intact [OF assms(1) _ assms(3), of d] assms(2) by (auto simp: untouched_def only_ended_def)

lemma untouched_intact: "untouched env d settings s \<Longrightarrow> intact env d settings s"
  by (simp add: untouched_def)

lemma journalled_intact: "journalled env d settings names s \<Longrightarrow> intact env d settings s"
  by (simp add: journalled_def)

lemma inspect_untouched [kept]:
  "storable settings \<Longrightarrow> keeps (untouched env d settings) (untouched env d settings) (inspect env e f)"
  unfolding holds_def inspect_def Let_def by (auto split: prod.splits dest: take_outcome_untouched)

lemma attempt_untouched [kept]:
  "storable settings \<Longrightarrow> keeps (untouched env d settings) (untouched env d settings) (attempt env e)"
  unfolding attempt_def by (rule inspect_untouched)

lemma inspect_journal:
  assumes "storable settings"
  shows "holds (journalled env d settings {}) (inspect env e (\<lambda>w. w_journals w d))
      (\<lambda>j s. journalled env d settings {} s \<and> (\<exists>f. j = Some f \<and> journal_snapshot f = Inr (settings_of settings)))
      (journalled env d settings {})"
    and "holds (untouched env d settings) (inspect env e (\<lambda>w. w_journals w d))
      (\<lambda>j s. untouched env d settings s \<and> j = None) (untouched env d settings)"
    and "d' \<in> set (pe_directories env) \<Longrightarrow> d' \<noteq> d \<Longrightarrow> holds (intact env d settings) (inspect env e (\<lambda>w. w_journals w d'))
      (\<lambda>j s. intact env d settings s \<and> j = None) (intact env d settings)"
proof -
  have seen: "\<exists>f. w_journals (st_world s) d = Some f \<and> journal_snapshot f = Inr (settings_of settings)"
    if "journalled env d settings {} s" for s
    using that by (auto simp: journalled_def intact_def safe_world_def)
  show "holds (journalled env d settings {}) (inspect env e (\<lambda>w. w_journals w d))
      (\<lambda>j s. journalled env d settings {} s \<and> (\<exists>f. j = Some f \<and> journal_snapshot f = Inr (settings_of settings)))
      (journalled env d settings {})"
    unfolding holds_def inspect_def Let_def
    by (auto split: prod.splits dest: take_outcome_journalled [OF assms] intro: seen)
  have none: "untouched env d settings s \<Longrightarrow> w_journals (st_world s) d = None" for s by (simp add: untouched_def)
  show "holds (untouched env d settings) (inspect env e (\<lambda>w. w_journals w d))
      (\<lambda>j s. untouched env d settings s \<and> j = None) (untouched env d settings)"
    unfolding holds_def inspect_def Let_def
    by (auto split: prod.splits dest: take_outcome_untouched [OF assms] intro: none)
  assume "d' \<in> set (pe_directories env)" "d' \<noteq> d"
  then have other: "w_journals (st_world s) d' = None" if "intact env d settings s" for s
    using that by (auto simp: intact_def safe_world_def)
  then show "holds (intact env d settings) (inspect env e (\<lambda>w. w_journals w d'))
      (\<lambda>j s. intact env d settings s \<and> j = None) (intact env d settings)"
    unfolding holds_def inspect_def Let_def
    by (auto split: prod.splits dest: take_outcome_intact [OF assms])
qed

lemma holds_fact: "(b \<Longrightarrow> holds P m Q E) \<Longrightarrow> holds (\<lambda>s. P s \<and> b) m Q E"
  by (cases b) (simp_all add: holds_def)

lemma read_journalled:
  assumes "storable settings"
  shows "holds (journalled env d settings {}) (readPersistedProxySnapshot env d)
      (\<lambda>r s. journalled env d settings {} s \<and> r = Inr (Some (settings_of settings))) (journalled env d settings {})"
  unfolding readPersistedProxySnapshot_def
proof (intro holds_bind [OF inspect_journal(1) [OF assms]] holds_fact)
  fix info assume "\<exists>f. info = Some f \<and> journal_snapshot f = Inr (settings_of settings)"
  then obtain f where f: "info = Some f" "\<not> MAX_PROXY_SNAPSHOT_BYTES < jf_size f"
    by (auto simp: journal_snapshot_def split: if_splits)
  have "holds (journalled env d settings {}) (op_bind (inspect env FileFailed (\<lambda>w. w_journals w d)) (\<lambda>file.
           case file of None \<Rightarrow> op_throw FileFailed
           | Some f \<Rightarrow> op_return (case parseProxySnapshotText (jf_text f) of Inl e \<Rightarrow> Inl e | Inr snapshot \<Rightarrow> Inr (Some snapshot))))
      (\<lambda>r s. journalled env d settings {} s \<and> r = Inr (Some (settings_of settings))) (journalled env d settings {})"
    by (intro holds_bind [OF inspect_journal(1) [OF assms]] holds_fact)
      (auto intro!: holds_return simp: journal_snapshot_def split: if_splits)
  then show "holds (journalled env d settings {}) (case info of None \<Rightarrow> op_return (Inr None)
     | Some j \<Rightarrow>
         if MAX_PROXY_SNAPSHOT_BYTES < jf_size j then op_return (Inl JournalTooLong)
         else op_bind (inspect env FileFailed (\<lambda>w. w_journals w d)) (\<lambda>file.
           case file of
             None \<Rightarrow> op_throw FileFailed
           | Some f \<Rightarrow> op_return (case parseProxySnapshotText (jf_text f) of Inl e \<Rightarrow> Inl e | Inr snapshot \<Rightarrow> Inr (Some snapshot))))
      (\<lambda>r s. journalled env d settings {} s \<and> r = Inr (Some (settings_of settings))) (journalled env d settings {})"
    using f by simp
qed

lemma read_untouched:
  assumes "storable settings"
  shows "holds (untouched env d settings) (readPersistedProxySnapshot env d)
      (\<lambda>r s. untouched env d settings s \<and> r = Inr None) (untouched env d settings)"
    and "d' \<in> set (pe_directories env) \<Longrightarrow> d' \<noteq> d \<Longrightarrow> holds (intact env d settings) (readPersistedProxySnapshot env d')
      (\<lambda>r s. intact env d settings s \<and> r = Inr None) (intact env d settings)"
  unfolding readPersistedProxySnapshot_def
  by (intro holds_bind [OF inspect_journal(2) [OF assms]] holds_fact; auto intro!: holds_return)
    (intro holds_bind [OF inspect_journal(3) [OF assms]] holds_fact; auto intro!: holds_return)

lemma read_usable:
  assumes "storable settings"
  shows "holds (journalled env d settings {}) (readUsableProxySnapshot env d sink)
      (\<lambda>r s. journalled env d settings {} s \<and> r = Some (settings_of settings)) (journalled env d settings {})"
    and "holds (untouched env d settings) (readUsableProxySnapshot env d sink)
      (\<lambda>r s. untouched env d settings s \<and> r = None) (untouched env d settings)"
  unfolding readUsableProxySnapshot_def
  by (intro holds_bind [OF read_journalled [OF assms]] holds_fact; auto intro!: holds_return)
    (intro holds_bind [OF read_untouched(1) [OF assms]] holds_fact; auto intro!: holds_return)

lemma read_usable_intact:
  assumes "storable settings"
  shows "holds (journalled env d settings {}) (readUsableProxySnapshot env d sink)
      (\<lambda>r s. journalled env d settings {} s \<and> r = Some (settings_of settings)) (intact env d settings)"
    and "holds (untouched env d settings) (readUsableProxySnapshot env d sink)
      (\<lambda>r s. untouched env d settings s \<and> r = None) (intact env d settings)"
  by (rule holds_conseq [OF read_usable(1) [OF assms]], assumption, assumption, erule journalled_intact)
    (rule holds_conseq [OF read_usable(2) [OF assms]], assumption, assumption, erule untouched_intact)

section \<open>Every operation leaves the state intact\<close>

lemma holds_intact:
  "holds (journalled env d settings {}) m Q E \<Longrightarrow> holds (untouched env d settings) m Q E \<Longrightarrow> holds (intact env d settings) m Q E"
  by (auto simp: holds_def intact_cases)

lemma upd_manager_untouched [kept]:
  assumes "\<And>m. m_pacDirectory (f m) = m_pacDirectory m" "\<And>m. m_snapshot (f m) = m_snapshot m \<or> m_snapshot (f m) = None"
  shows "keeps (untouched env d settings) E (upd_manager f)" "keeps (intact env d settings) E (upd_manager f)"
proof -
  have same: "intact env d settings (s\<lparr>st_manager := f (st_manager s)\<rparr>)" if "intact env d settings s" for s
    using that assms(2) [of "st_manager s"] by (auto simp: intact_def assms(1))
  then show "keeps (untouched env d settings) E (upd_manager f)" "keeps (intact env d settings) E (upd_manager f)"
    unfolding upd_manager_def by (intro holds_modify; simp add: untouched_def)+
qed

lemma stopPacServer_untouched [kept]: "keeps (untouched env d settings) E stopPacServer"
proof -
  have "keeps (untouched env d settings) E (closeServers servers)" for servers
    unfolding closeServers_def by (rule holds_modify) (auto simp: untouched_def intact_def)
  then show ?thesis unfolding stopPacServer_def Let_def by (auto intro!: kept)
qed

lemma manager_journalled:
  "holds (journalled env d settings {}) the_manager (\<lambda>m s. journalled env d settings {} s \<and> (m_pacDirectory m = d \<and>
     (m_snapshot m = None \<or> m_snapshot m = Some (settings_of settings)))) E"
  unfolding the_manager_def by (rule holds_get) (auto simp: journalled_def intact_def)

lemma manager_untouched:
  "holds (untouched env d settings) the_manager (\<lambda>m s. untouched env d settings s \<and> (m_pacDirectory m = d \<and> m_snapshot m = None)) E"
  unfolding the_manager_def by (rule holds_get) (auto simp: untouched_def intact_def)

lemma give_up_untouched:
  "keeps (untouched env d settings) E (op_seq stopPacServer (upd_manager (\<lambda>m. m\<lparr>m_proxyStateDirty := False\<rparr>)))"
  by (auto intro!: kept)

lemma restoreInternal_intact:
  assumes "storable settings" "pe_win32 env"
  shows "holds (intact env d settings) (restoreInternal env) (\<lambda>_. untouched env d settings) (intact env d settings)"
proof (rule holds_intact)
  let ?J = "journalled env d settings {}" and ?I = "intact env d settings" and ?S = "settings_of settings"
  let ?step = "\<lambda>snapshot. case snapshot of
     None \<Rightarrow> op_seq stopPacServer (upd_manager (\<lambda>m. m\<lparr>m_proxyStateDirty := False\<rparr>)) | Some s \<Rightarrow> restore_snapshot env s"
  let ?read = "\<lambda>m. case m_snapshot m of Some snapshot \<Rightarrow> op_return (Some snapshot)
     | None \<Rightarrow> readUsableProxySnapshot env (m_pacDirectory m) notice_sink"
  have read: "holds ?J (?read m) (\<lambda>r s. ?J s \<and> r = Some ?S) ?I"
    if "m_pacDirectory m = d \<and> (m_snapshot m = None \<or> m_snapshot m = Some ?S)" for m
    using that by (auto intro!: holds_return read_usable_intact [OF assms(1)])
  have put: "holds (\<lambda>s. ?J s \<and> r = Some ?S) (?step r) (\<lambda>_. untouched env d settings) ?I" for r
    using restore_snapshot_put_back [OF assms(1)] by (intro holds_fact) auto
  have "holds ?J (op_bind (?read m) ?step) (\<lambda>_. untouched env d settings) ?I"
    if "m_pacDirectory m = d \<and> (m_snapshot m = None \<or> m_snapshot m = Some ?S)" for m
    by (rule holds_bind [OF read [OF that] put])
  then show "holds ?J (restoreInternal env) (\<lambda>_. untouched env d settings) ?I"
    unfolding restoreInternal_def Let_def using assms(2)
    by (simp only: not_True_eq_False if_False) (rule holds_bind [OF manager_journalled], rule holds_fact)
  have "holds (untouched env d settings) (op_bind (?read m) ?step) (\<lambda>_. untouched env d settings) ?I"
    if "m_pacDirectory m = d \<and> m_snapshot m = None" for m
  proof -
    have "holds (untouched env d settings) (?read m) (\<lambda>r s. untouched env d settings s \<and> r = None) ?I"
      using that read_usable_intact(2) [OF assms(1), of env d] by simp
    moreover have "holds (\<lambda>s. untouched env d settings s \<and> r = None) (?step r) (\<lambda>_. untouched env d settings) ?I" for r
      using give_up_untouched by (intro holds_fact) auto
    ultimately show ?thesis by (rule holds_bind)
  qed
  then show "holds (untouched env d settings) (restoreInternal env) (\<lambda>_. untouched env d settings) ?I"
    unfolding restoreInternal_def Let_def using assms(2)
    by (simp only: not_True_eq_False if_False) (rule holds_bind [OF manager_untouched], rule holds_fact)
qed

lemma restorePersisted_intact:
  assumes "storable settings" "pe_win32 env"
  shows "holds (intact env d settings) (restorePersistedSnapshot env)
      (\<lambda>_ s. intact env d settings s \<and> (m_snapshot (st_manager s) = None \<longrightarrow> untouched env d settings s)) (intact env d settings)"
proof (rule holds_intact)
  let ?J = "journalled env d settings {}" and ?I = "intact env d settings" and ?S = "settings_of settings"
  let ?Q = "\<lambda>_ s. ?I s \<and> (m_snapshot (st_manager s) = None \<longrightarrow> untouched env d settings s)"
  let ?rest = "\<lambda>m. if m_snapshot m \<noteq> None then op_return ()
     else op_bind (readUsableProxySnapshot env (m_pacDirectory m) keep_notice) (\<lambda>snapshot.
       op_when (snapshot \<noteq> None) (restoreInternal env))"
  have clean: "holds (intact env d settings) (restoreInternal env) ?Q ?I"
    by (rule holds_conseq [OF restoreInternal_intact [OF assms]]) (auto intro: untouched_intact)
  have journal: "holds ?J (op_bind (readUsableProxySnapshot env d keep_notice) (\<lambda>snapshot.
       op_when (snapshot \<noteq> None) (restoreInternal env))) ?Q ?I"
  proof (rule holds_bind [OF read_usable_intact(1) [OF assms(1)]])
    show "holds (\<lambda>s. ?J s \<and> r = Some ?S) (op_when (r \<noteq> None) (restoreInternal env)) ?Q ?I" for r
      by (rule holds_fact) (auto simp: op_when_def intro: holds_conseq [OF clean] journalled_intact)
  qed
  have none: "holds (untouched env d settings) (op_bind (readUsableProxySnapshot env d keep_notice) (\<lambda>snapshot.
       op_when (snapshot \<noteq> None) (restoreInternal env))) ?Q ?I"
  proof (rule holds_bind [OF read_usable_intact(2) [OF assms(1)]])
    show "holds (\<lambda>s. untouched env d settings s \<and> r = None) (op_when (r \<noteq> None) (restoreInternal env)) ?Q ?I" for r
      by (rule holds_fact) (auto simp: op_when_def intro!: holds_return intro: untouched_intact)
  qed
  have held: "holds (\<lambda>s. ?J s \<and> (m_snapshot (st_manager s) = m_snapshot m)) (?rest m) ?Q ?I"
    if "m_pacDirectory m = d" for m
  proof (cases "m_snapshot m")
    case None
    have "holds (\<lambda>s. ?J s \<and> m_snapshot (st_manager s) = m_snapshot m) (op_bind (readUsableProxySnapshot env d keep_notice)
        (\<lambda>snapshot. op_when (snapshot \<noteq> None) (restoreInternal env))) ?Q ?I"
      by (rule holds_conseq [OF journal]) simp_all
    then show ?thesis using that None by simp
  next
    case Some
    then show ?thesis by (auto intro!: holds_return journalled_intact)
  qed
  show "holds ?J (restorePersistedSnapshot env) ?Q ?I"
    unfolding restorePersistedSnapshot_def the_manager_def
  proof (rule holds_bind [OF holds_get, where R = "\<lambda>m s. (?J s \<and> m_snapshot (st_manager s) = m_snapshot m) \<and> m_pacDirectory m = d"])
    show "(?J s \<and> m_snapshot (st_manager s) = m_snapshot (st_manager s)) \<and> m_pacDirectory (st_manager s) = d" if "?J s" for s
      using that by (auto simp: journalled_def intact_def)
    show "holds (\<lambda>s. (?J s \<and> m_snapshot (st_manager s) = m_snapshot m) \<and> m_pacDirectory m = d) (?rest m) ?Q ?I" for m
      by (rule holds_fact) (rule held)
  qed
  show "holds (untouched env d settings) (restorePersistedSnapshot env) ?Q ?I"
    unfolding restorePersistedSnapshot_def
    by (rule holds_bind [OF manager_untouched], rule holds_fact) (use none in simp)
qed

lemma query_untouched:
  assumes "storable settings"
  shows "holds (untouched env d settings) (regQueryTypedValue env name)
      (\<lambda>v s. untouched env d settings s \<and> v = typed_of settings name) (untouched env d settings)"
  unfolding holds_def
proof (intro allI impI)
  fix s assume s: "untouched env d settings s"
  obtain x t where t: "take_outcome env (st_plan s) s = (x, t)" by (cases "take_outcome env (st_plan s) s")
  note u = take_outcome_untouched [OF assms s t]
  show "case regQueryTypedValue env name s of (Inl e, t) \<Rightarrow> untouched env d settings t
      | (Inr v, t) \<Rightarrow> untouched env d settings t \<and> v = typed_of settings name"
    using t u(1,2) untouched_settings(1) [OF u(1)]
    by (simp add: regQueryTypedValue_def typed_of_def split: option.splits)
qed

lemma query_text_untouched:
  assumes "storable settings"
  shows "holds (untouched env d settings) (regQueryValue env name)
      (\<lambda>v s. untouched env d settings s \<and> v = map_option fst (typed_of settings name)) (untouched env d settings)"
  unfolding regQueryValue_def
  by (rule holds_bind [OF query_untouched [OF assms]], rule holds_return) simp

lemma read_settings:
  assumes "storable settings"
  shows "holds (untouched env d settings) (readProxySnapshot env)
      (\<lambda>v s. untouched env d settings s \<and> v = settings_of settings) (untouched env d settings)"
  unfolding readProxySnapshot_def
  by (intro holds_bind [OF query_untouched [OF assms]] holds_bind [OF query_text_untouched [OF assms]] holds_fact)
    (auto simp: settings_of_def Let_def intro!: holds_return)

lemma write_journal:
  assumes "storable settings"
  shows "holds (untouched env d settings)
      (effect env e (\<lambda>w. set_journal d (Some (journal_of (w_clock w) (settings_of settings))) w))
      (\<lambda>_. journalled env d settings {}) (intact env d settings)"
  unfolding holds_def
proof (intro allI impI)
  fix s assume s: "untouched env d settings s"
  obtain x t where t: "take_outcome env (st_plan s) s = (x, t)" by (cases "take_outcome env (st_plan s) s")
  note u = take_outcome_untouched(1) [OF assms s t]
  let ?w = "set_journal d (Some (journal_of (w_clock (st_world t)) (settings_of settings))) (st_world t)"
  have "safe_world env d settings ?w"
    using u settings_journal [OF assms] by (auto simp: untouched_def intact_def safe_world_def set_journal_def)
  then have "journalled env d settings {} (enter_worlds [?w] t)"
    using u by (auto simp: untouched_def journalled_def intact_def enter_worlds_def set_journal_def)
  then show "case effect env e (\<lambda>w. set_journal d (Some (journal_of (w_clock w) (settings_of settings))) w) s of
      (Inl e, t) \<Rightarrow> intact env d settings t | (Inr v, t) \<Rightarrow> journalled env d settings {} t"
    using t u by (simp add: effect_def journalled_intact untouched_intact)
qed

lemma attempt_untouched_intact:
  "storable settings \<Longrightarrow> keeps (untouched env d settings) (intact env d settings) (attempt env e)"
  by (rule holds_conseq [OF attempt_untouched], assumption+, erule untouched_intact)

lemma take_snapshot_journalled:
  assumes "storable settings" "users_own env settings" "other_endpoint settings (Apply r)"
  shows "holds (\<lambda>s. intact env d settings s \<and> (m_snapshot (st_manager s) = None \<longrightarrow> untouched env d settings s))
      (take_snapshot env r) (\<lambda>_. journalled env d settings {}) (intact env d settings)"
proof -
  let ?J = "journalled env d settings {}" and ?U = "untouched env d settings" and ?I = "intact env d settings"
  let ?rest = "\<lambda>m. op_bind (readProxySnapshot env) (\<lambda>current.
       let snapshot = withoutAppOwnedProxyValues (pe_parseUrl env) current (ar_socksHost r) (ar_socksPort r)
       in op_seq (persistProxySnapshot env (m_pacDirectory m) snapshot) (upd_manager (\<lambda>m. m\<lparr>m_snapshot := Some snapshot\<rparr>)))"
  have "holds ?U (op_seq (persistProxySnapshot env d (settings_of settings)) (upd_manager (\<lambda>m. m\<lparr>m_snapshot := Some (settings_of settings)\<rparr>)))
      (\<lambda>_. ?J) ?I"
  proof (rule holds_seq)
    show "holds ?U (persistProxySnapshot env d (settings_of settings)) (\<lambda>_. ?J) ?I"
      unfolding persistProxySnapshot_def
      by (intro holds_seq [OF attempt_untouched_intact [OF assms(1)]] write_journal [OF assms(1)])
    show "holds ?J (upd_manager (\<lambda>m. m\<lparr>m_snapshot := Some (settings_of settings)\<rparr>)) (\<lambda>_. ?J) ?I"
      unfolding upd_manager_def by (rule holds_modify) (auto simp: journalled_def intact_def)
  qed
  then have rest: "holds ?U (?rest m) (\<lambda>_. ?J) ?I" if "m_pacDirectory m = d" for m
    using that own_settings_kept [OF assms(2,3)]
    by (intro holds_bind [OF holds_conseq [OF read_settings [OF assms(1)]], where R = "\<lambda>v s. ?U s \<and> v = settings_of settings"])
      (auto simp: Let_def intro!: holds_fact untouched_intact)
  have step: "holds (\<lambda>s. ?I s \<and> (m_snapshot (st_manager s) = None \<longrightarrow> ?U s) \<and> m_snapshot (st_manager s) = m_snapshot m)
      (if m_snapshot m \<noteq> None then op_return () else ?rest m) (\<lambda>_. ?J) ?I" if "m_pacDirectory m = d" for m
  proof (cases "m_snapshot m")
    case None
    then show ?thesis by (simp only: if_False simp_thms) (rule holds_conseq [OF rest [OF that]], auto)
  next
    case Some
    then show ?thesis by (auto intro!: holds_return simp: journalled_def intact_def)
  qed
  show ?thesis
    unfolding take_snapshot_def the_manager_def
  proof (rule holds_bind [OF holds_get, where R = "\<lambda>m s. (?I s \<and> (m_snapshot (st_manager s) = None \<longrightarrow> ?U s) \<and>
        m_snapshot (st_manager s) = m_snapshot m) \<and> m_pacDirectory m = d"])
    show "(?I s \<and> (m_snapshot (st_manager s) = None \<longrightarrow> ?U s) \<and> m_snapshot (st_manager s) = m_snapshot (st_manager s)) \<and>
        m_pacDirectory (st_manager s) = d" if "?I s \<and> (m_snapshot (st_manager s) = None \<longrightarrow> ?U s)" for s
      using that by (simp add: intact_def)
  qed (rule holds_fact, rule step)
qed

lemma applyInternal_intact:
  assumes "storable settings" "users_own env settings" "other_endpoint settings (Apply r)"
  shows "holds (intact env d settings) (applyInternal env r) (\<lambda>_. intact env d settings) (intact env d settings)"
proof (cases "pe_win32 env \<and> assertLocalProxyEndpoint (ar_socksHost r) (ar_socksPort r) = Inr ()")
  case False
  then show ?thesis
    by (auto simp: applyInternal_def intro!: holds_return holds_throw split: sum.splits)
next
  case True
  have "holds (journalled env d settings {})
      (if ar_mode r = ProxyAll \<and> normalizeProxyDomains (ar_directDomains r) = [] then apply_static env r else apply_pac env r)
      (\<lambda>_. intact env d settings) (intact env d settings)"
    by (rule holds_conseq [where P = "journalled env d settings {}" and Q = "\<lambda>_. journalled env d settings {}" and E = "journalled env d settings {}"])
      (auto intro: apply_static_kept apply_pac_kept assms journalled_intact)
  then show ?thesis
    using True unfolding applyInternal_def
    by (auto intro!: holds_seq [OF restorePersisted_intact] holds_seq [OF take_snapshot_journalled] assms)
qed

lemma upd_manager_dirty: "keeps (intact env d settings) E (upd_manager (\<lambda>m. m\<lparr>m_proxyStateDirty := b\<rparr>))"
  by (rule upd_manager_untouched) simp_all

lemma dirty_after_intact:
  assumes "holds P m (\<lambda>_. intact env d settings) (intact env d settings)"
  shows "holds P (dirty_after m) (\<lambda>_. intact env d settings) (intact env d settings)"
  unfolding dirty_after_def
  by (rule holds_bind [OF holds_rethrow [OF assms upd_manager_dirty]], rule holds_seq [OF upd_manager_dirty], rule keeps_return)

lemma restoreInternal_kept:
  "storable settings \<Longrightarrow> pe_win32 env \<Longrightarrow> keeps (intact env d settings) (intact env d settings) (restoreInternal env)"
  by (rule holds_conseq [OF restoreInternal_intact], assumption+, erule untouched_intact, assumption)

lemma apply_proxy_intact:
  assumes "storable settings" "users_own env settings" "other_endpoint settings (Apply r)"
  shows "keeps (intact env d settings) (intact env d settings) (apply_proxy env r)"
  unfolding apply_proxy_def
proof (intro dirty_after_intact keeps_bind keeps_seq applyInternal_intact [OF assms] keeps_return)
  show "keeps (intact env d settings) (intact env d settings) the_manager" by (rule the_manager_kept)
  show "keeps (intact env d settings) (intact env d settings) (upd_manager (\<lambda>m. m\<lparr>m_proxyStateDirty := False, m_journalNotices := []\<rparr>))"
    by (rule upd_manager_untouched) simp_all
qed

lemma server_failed_intact:
  assumes "storable settings" "pe_win32 env"
  shows "keeps (intact env d settings) (intact env d settings) (server_failed env server)"
  unfolding server_failed_def
  by (intro keeps_bind the_manager_kept keeps_if keeps_return dirty_after_intact restoreInternal_kept [OF assms])

section \<open>Startup recovery\<close>

lemma inspect_manager: "st_manager (snd (inspect env e f s)) = st_manager s"
  by (cases "take_outcome env (st_plan s) s") (auto simp: inspect_def dest: take_outcome_manager)

lemma readPersisted_manager: "st_manager (snd (readPersistedProxySnapshot env d s)) = st_manager s"
proof -
  define M where "M = (\<lambda>t :: proxy_state. st_manager t = st_manager s)"
  have look: "keeps M M (inspect env e (f :: world \<Rightarrow> journal_file option))" for e f
    unfolding holds_def
  proof (intro allI impI)
    fix t assume t: "M t"
    show "case inspect env e f t of (Inl e, t) \<Rightarrow> M t | (Inr x, t) \<Rightarrow> M t"
      using inspect_manager [of env e f t] t unfolding M_def by (cases "inspect env e f t") (simp split: sum.splits)
  qed
  have throw: "keeps M M (op_throw e)" for e by (rule holds_throw)
  have "keeps M M (readPersistedProxySnapshot env d)"
    unfolding readPersistedProxySnapshot_def
    by (intro keeps_bind look keeps_option keeps_return keeps_if throw)
  then have "case readPersistedProxySnapshot env d s of (Inl e, t) \<Rightarrow> M t | (Inr x, t) \<Rightarrow> M t"
    unfolding holds_def by (simp add: M_def)
  then show ?thesis unfolding M_def by (cases "readPersistedProxySnapshot env d s") (simp split: sum.splits)
qed

lemma read_persisted_safe:
  assumes "storable settings" "intact env d settings s" "d' \<in> set (pe_directories env)"
    and "readPersistedProxySnapshot env d' s = (r, t)"
  shows "intact env d settings t" "st_manager t = st_manager s"
    and "(\<exists>e. r = Inl e) \<or> r = Inr (Inr None) \<or> (d' = d \<and> (\<exists>snapshot. r = Inr (Inr (Some snapshot))))"
proof -
  show "st_manager t = st_manager s" using readPersisted_manager [of env d' s] assms(4) by simp
  have "intact env d settings t \<and> ((\<exists>e. r = Inl e) \<or> r = Inr (Inr None) \<or> (d' = d \<and> (\<exists>snapshot. r = Inr (Inr (Some snapshot)))))"
  proof (cases "d' = d")
    case True
    have "holds (intact env d settings) (readPersistedProxySnapshot env d)
       (\<lambda>r s. intact env d settings s \<and> (r = Inr None \<or> (\<exists>snapshot. r = Inr (Some snapshot)))) (intact env d settings)"
      by (rule holds_intact; rule holds_conseq [OF read_journalled [OF assms(1)]] holds_conseq [OF read_untouched(1) [OF assms(1)]])
        (auto intro: journalled_intact untouched_intact)
    then show ?thesis using assms(2,4) True by (cases r) (auto simp: holds_def)
  next
    case False
    then show ?thesis
      using read_untouched(2) [OF assms(1,3) False] assms(2,4) by (cases r) (auto simp: holds_def)
  qed
  then show "intact env d settings t"
    "(\<exists>e. r = Inl e) \<or> r = Inr (Inr None) \<or> (d' = d \<and> (\<exists>snapshot. r = Inr (Inr (Some snapshot))))" by auto
qed

lemma read_candidates_safe:
  assumes "storable settings" "intact env d settings s" "set ds \<subseteq> set (pe_directories env)" "distinct ds"
  shows "\<exists>found ok t. read_candidates env ds s = (Inr (found, [], ok), t) \<and> (found = [] \<or> (\<exists>x. found = [(x, d)])) \<and>
    (d \<notin> set ds \<longrightarrow> found = []) \<and> intact env d settings t \<and> st_manager t = st_manager s"
  using assms(2-)
proof (induction ds arbitrary: s)
  case Nil
  then show ?case by auto
next
  case (Cons d' ds)
  obtain r s1 where r: "readPersistedProxySnapshot env d' s = (r, s1)" by (cases "readPersistedProxySnapshot env d' s")
  have "d' \<in> set (pe_directories env)" using Cons.prems by simp
  note safe = read_persisted_safe [OF assms(1) Cons.prems(1) this r]
  obtain x s2 where x: "inspect env FileFailed (\<lambda>w. w_journals w d') s1 = (x, s2)" by (cases "inspect env FileFailed (\<lambda>w. w_journals w d') s1")
  have s2: "intact env d settings s2" "st_manager s2 = st_manager s"
  proof -
    obtain y u where y: "take_outcome env (st_plan s1) s1 = (y, u)" by (cases "take_outcome env (st_plan s1) s1")
    then have "s2 = u" using x by (simp add: inspect_def)
    then show "intact env d settings s2" "st_manager s2 = st_manager s"
      using take_outcome_intact(1) [OF assms(1) safe(1) y] take_outcome_manager [OF y] safe(2) by simp_all
  qed
  define s' where "s' = (case r of Inr (Inr (Some _)) \<Rightarrow> s2 | _ \<Rightarrow> s1)"
  have s': "intact env d settings s'" "st_manager s' = st_manager s"
    using safe(1,2) s2 by (auto simp: s'_def split: sum.splits option.splits)
  obtain found ok t where rest: "read_candidates env ds s' = (Inr (found, [], ok), t)" "found = [] \<or> (\<exists>x. found = [(x, d)])"
    "d \<notin> set ds \<longrightarrow> found = []" "intact env d settings t" "st_manager t = st_manager s'"
    using Cons.IH [of s'] Cons.prems s' by auto
  consider (failed) e where "r = Inl e" | (none) "r = Inr (Inr None)" | (some) snapshot where "d' = d" "r = Inr (Inr (Some snapshot))"
    using safe(3) by blast
  then show ?case
  proof cases
    case some
    then have "found = []" using rest(3) Cons.prems(3) by simp
    then show ?thesis using some r x rest s'(2) by (auto simp: s'_def split: sum.splits option.splits)
  qed (use r rest s'(2) in \<open>auto simp: s'_def\<close>)
qed

lemma oldest_only: "oldest_first [(x, d)] = [d]"
  by (cases x) (simp_all add: oldest_first_def)

lemma read_candidates_holds:
  assumes "storable settings" "set ds \<subseteq> set (pe_directories env)" "distinct ds"
  shows "holds (\<lambda>s. intact env d settings s \<and> m_snapshot (st_manager s) = None) (read_candidates env ds)
     (\<lambda>r s. (intact env d settings s \<and> m_snapshot (st_manager s) = None) \<and>
        fst (snd r) = [] \<and> (fst r = [] \<or> (\<exists>x. fst r = [(x, d)]))) E"
  unfolding holds_def
proof (intro allI impI)
  fix s assume "intact env d settings s \<and> m_snapshot (st_manager s) = None"
  with read_candidates_safe [OF assms(1) _ assms(2,3), of d s]
  show "case read_candidates env ds s of (Inl e, t) \<Rightarrow> E t | (Inr r, t) \<Rightarrow>
      (intact env d settings t \<and> m_snapshot (st_manager t) = None) \<and> fst (snd r) = [] \<and> (fst r = [] \<or> (\<exists>x. fst r = [(x, d)]))"
    by fastforce
qed

lemma with_new_manager_intact:
  assumes "keeps (intact env d settings) (intact env d settings) m"
  shows "keeps (\<lambda>s. intact env d settings s \<and> m_snapshot (st_manager s) = None) (intact env d settings) (with_new_manager d m)"
  unfolding holds_def
proof (intro allI impI)
  fix s assume s: "intact env d settings s \<and> m_snapshot (st_manager s) = None"
  then have start: "intact env d settings (s\<lparr>st_manager := new_manager d True\<rparr>)" by (auto simp: intact_def new_manager_def)
  obtain r t where t: "m (s\<lparr>st_manager := new_manager d True\<rparr>) = (r, t)" by (cases "m (s\<lparr>st_manager := new_manager d True\<rparr>)")
  have "intact env d settings t"
    using assms start t unfolding holds_def by (cases r) (auto dest!: spec [of _ "s\<lparr>st_manager := new_manager d True\<rparr>"])
  then have "intact env d settings (t\<lparr>st_manager := st_manager s\<rparr>)" using s by (auto simp: intact_def)
  then show "case with_new_manager d m s of (Inl e, t) \<Rightarrow> intact env d settings t
      | (Inr x, t) \<Rightarrow> intact env d settings t \<and> m_snapshot (st_manager t) = None"
    using s t by (simp add: with_new_manager_def split: sum.splits)
qed

lemma report_intact: "keeps (intact env d settings) E (report notices)"
  unfolding report_def by (rule holds_modify) (auto simp: intact_def)

lemma recover_intact:
  assumes "storable settings" "pe_win32 env"
  shows "holds (\<lambda>s. intact env d settings s \<and> m_snapshot (st_manager s) = None) (recoverWindowsSystemProxy env)
     (\<lambda>_. intact env d settings) (intact env d settings)"
proof -
  let ?I = "intact env d settings" and ?F = "\<lambda>s. intact env d settings s \<and> m_snapshot (st_manager s) = None"
  have distinct: "distinct (to_set ds)" for ds
  proof -
    have "distinct ys \<Longrightarrow> distinct (fold set_add ds ys)" for ys :: "jsstring list"
      by (induction ds arbitrary: ys) (auto simp: set_add_def)
    then show ?thesis by (simp add: to_set_def)
  qed
  have restored: "holds ?F (op_seq (with_new_manager d (restore_proxy env)) (op_seq (report []) (op_return True))) (\<lambda>_. ?I) ?I"
  proof (rule holds_seq)
    have "keeps ?I ?I (restore_proxy env)"
      unfolding restore_proxy_def by (intro dirty_after_intact restoreInternal_kept assms)
    then show "holds ?F (with_new_manager d (restore_proxy env)) (\<lambda>_. ?F) ?I"
      by (rule with_new_manager_intact)
    show "holds ?F (op_seq (report []) (op_return True)) (\<lambda>_. ?I) ?I"
      by (rule holds_conseq [where P = ?I and Q = "\<lambda>_. ?I" and E = ?I]) (intro keeps_seq report_intact keeps_return, auto)
  qed
  let ?rest = "\<lambda>r. case r of (found, setAside, ok) \<Rightarrow>
        if \<not> ok then op_throw FileFailed
        else case oldest_first found of
          [] \<Rightarrow>
            if setAside = [] then op_return False
            else op_bind (clearAppOwnedProxyValues env) (\<lambda>cleared.
              if cleared then op_seq (report (setAside @ [LeftoversRemoved])) (op_return True)
              else op_throw JournalLost)
        | original # newer \<Rightarrow>
            op_seq (foldr (\<lambda>d k. op_seq (discard_journal env d) k) newer (op_return ()))
           (op_seq (with_new_manager original (restore_proxy env))
           (op_seq (report setAside)
           (op_return True)))"
  have "holds ?F (op_throw FileFailed) (\<lambda>_. ?I) ?I" "holds ?F (op_return False) (\<lambda>_. ?I) ?I"
    by (auto intro: holds_throw holds_return)
  moreover have "holds ?F (op_seq (op_return ()) (op_seq (with_new_manager d (restore_proxy env)) (op_seq (report []) (op_return True)))) (\<lambda>_. ?I) ?I"
    by (rule holds_seq [OF keeps_return restored])
  ultimately have "holds ?F (?rest r) (\<lambda>_. ?I) ?I" if "fst (snd r) = [] \<and> (fst r = [] \<or> (\<exists>x. fst r = [(x, d)]))" for r
    using that by (cases r) (auto simp: oldest_only oldest_first_def)
  then have after: "holds (\<lambda>s. ?F s \<and> (fst (snd r) = [] \<and> (fst r = [] \<or> (\<exists>x. fst r = [(x, d)])))) (?rest r) (\<lambda>_. ?I) ?I" for r
    by (rule holds_fact)
  show ?thesis
    unfolding recoverWindowsSystemProxy_def using assms(2)
    by (simp only: not_True_eq_False if_False)
      (rule holds_bind [OF read_candidates_holds [OF assms(1) _ distinct] after], simp)
qed

section \<open>Quitting\<close>

lemma clear_journalled:
  assumes "storable settings"
  shows "keeps (journalled env d settings {}) (journalled env d settings {}) (clearAppOwnedProxyValues env)"
proof -
  have "keeps (journalled env d settings {}) (journalled env d settings {}) (regQueryValue env name)" for name
    unfolding regQueryValue_def by (intro keeps_bind query_kept keeps_return assms)
  then show ?thesis
    unfolding clearAppOwnedProxyValues_def readProxySnapshot_def Let_def
    by (intro keeps_bind keeps_seq keeps_when keeps_option keeps_return query_kept refresh_kept commands_kept assms) simp_all
qed

lemma clear_untouched:
  assumes "storable settings" "users_own env settings"
  shows "keeps (untouched env d settings) (untouched env d settings) (clearAppOwnedProxyValues env)"
  unfolding clearAppOwnedProxyValues_def
proof (rule holds_bind [OF read_settings [OF assms(1)]], rule holds_fact)
  fix current assume "current = settings_of settings"
  then have "\<not> (case ps_autoConfigUrl current of None \<Rightarrow> False | Some url \<Rightarrow> isShadowPacUrl (pe_parseUrl env) url)"
    "\<not> isShadowStaticProxy (ps_proxyServer current) (ps_proxyOverride current)"
    using assms(2) by (auto simp: users_own_def split: option.splits)
  then show "keeps (untouched env d settings) (untouched env d settings)
     (let ownPacUrl = (case ps_autoConfigUrl current of None \<Rightarrow> False | Some url \<Rightarrow> isShadowPacUrl (pe_parseUrl env) url);
         ownStatic = isShadowStaticProxy (ps_proxyServer current) (ps_proxyOverride current)
     in op_seq (op_when ownPacUrl (regDeleteValue env AutoConfigURL))
       (op_seq (op_when ownStatic
          (op_seq (regAddDword env ProxyEnable (js ''0''))
          (op_seq (regDeleteValue env ProxyServer)
          (case withoutLocalOverrideEntries (ps_proxyOverride current) of
             Some userOverride \<Rightarrow> regAddString env ProxyOverride userOverride (snapshotStringType current ProxyOverrideField)
           | None \<Rightarrow> regDeleteValue env ProxyOverride))))
       (op_seq (op_when (ownPacUrl \<or> ownStatic) (refreshWindowsProxy env))
       (op_return (ownPacUrl \<or> ownStatic)))))"
    by (simp add: op_when_def del: js_simps) (intro keeps_seq keeps_return)
qed

lemma enter_session_end:
  assumes "storable settings" "ws = snd (restoreWindowsSystemProxyNow env (pe_directories env) xs (st_world s))"
  shows "journalled env d settings {} s \<Longrightarrow> journalled env d settings {} (enter_worlds ws s)"
    and "untouched env d settings s \<Longrightarrow> untouched env d settings (enter_worlds ws s)"
proof -
  have entered: "intact env d settings (enter_worlds ws s) \<and> w_journals (st_world (enter_worlds ws s)) = w_journals (st_world s)"
    if s: "intact env d settings s"
  proof -
    have "safe_world env d settings (st_world s)" using s by (simp add: intact_def)
    note safe = session_end_safe [OF assms(1) this assms(2)]
    have "last (st_world s # ws) \<in> set (st_world s # ws)" by (rule last_in_set) simp
    then have l: "safe_world env d settings (last (st_world s # ws))" "w_journals (last (st_world s # ws)) = w_journals (st_world s)"
      using safe by blast+
    have "\<forall>w \<in> set ws. safe_world env d settings w" using safe by simp
    then show ?thesis using s l unfolding intact_def enter_worlds_def by (simp add: ball_Un del: last.simps)
  qed
  show "journalled env d settings {} s \<Longrightarrow> journalled env d settings {} (enter_worlds ws s)"
    "untouched env d settings s \<Longrightarrow> untouched env d settings (enter_worlds ws s)"
    using entered by (simp_all add: journalled_def untouched_def)
qed

lemma before_quit_intact:
  assumes "storable settings" "users_own env settings"
  shows "keeps (intact env d settings) (intact env d settings) (restoreWindowsSystemProxyBeforeQuit env xs)"
proof (cases "pe_win32 env")
  case False
  then show ?thesis by (simp add: restoreWindowsSystemProxyBeforeQuit_def keeps_return)
next
  case True
  let ?now = "\<lambda>s. let (restored, ws) = restoreWindowsSystemProxyNow env (pe_directories env) xs (st_world s)
                    in (Inr restored, enter_worlds ws s)"
  have now: "keeps (journalled env d settings {}) E ?now" "keeps (untouched env d settings) E ?now" for E
    using enter_session_end [OF assms(1)]
    by (auto simp: holds_def Let_def split: prod.splits) (metis snd_conv)+
  have "keeps (untouched env d settings) (untouched env d settings) (refreshWindowsProxy env)"
    unfolding refreshWindowsProxy_def by (rule attempt_untouched [OF assms(1)])
  then have "keeps (journalled env d settings {}) (journalled env d settings {}) (restoreWindowsSystemProxyBeforeQuit env xs)"
    "keeps (untouched env d settings) (untouched env d settings) (restoreWindowsSystemProxyBeforeQuit env xs)"
    using True unfolding restoreWindowsSystemProxyBeforeQuit_def
    by (simp_all only: not_True_eq_False if_False)
      (intro keeps_bind keeps_if keeps_seq keeps_return now clear_journalled clear_untouched refresh_kept assms; assumption)+
  note both = this
  show ?thesis
    by (rule holds_intact; rule holds_conseq [OF both(1)] holds_conseq [OF both(2)]) (auto intro: journalled_intact untouched_intact)
qed

section \<open>Runs\<close>

lemma holds_exit: "holds P m (\<lambda>_. Q) Q \<Longrightarrow> P s \<Longrightarrow> Q (snd (m s))"
  by (cases "m s") (auto simp: holds_def split: sum.splits)

lemma perform_intact:
  assumes "storable settings" "users_own env settings" "pe_win32 env" "intact env d settings s"
    and "other_endpoint settings action" "action = Recover \<longrightarrow> m_snapshot (st_manager s) = None"
  shows "intact env d settings (perform env action s)"
proof -
  let ?I = "intact env d settings"
  have restore: "keeps ?I ?I (restore_proxy env)"
    unfolding restore_proxy_def by (intro dirty_after_intact restoreInternal_kept assms)
  show ?thesis
  proof (cases action)
    case (Apply r)
    then show ?thesis using holds_exit [OF apply_proxy_intact [OF assms(1,2)] assms(4)] assms(5) by simp
  next
    case Restore
    then show ?thesis using holds_exit [OF restore assms(4)] by simp
  next
    case (ServerFailed server)
    then show ?thesis using holds_exit [OF server_failed_intact [OF assms(1,3)] assms(4)] by simp
  next
    case Recover
    then show ?thesis using holds_exit [OF recover_intact [OF assms(1,3), of d], of s] assms(4,6) by simp
  next
    case (BeforeQuit xs)
    then show ?thesis using holds_exit [OF before_quit_intact [OF assms(1,2)] assms(4)] by simp
  qed
qed

lemma run_intact:
  assumes "storable settings" "users_own env settings" "pe_win32 env" "intact env d settings s"
    and "list_all (other_endpoint settings) actions" "Recover \<notin> set (tl actions)" "m_snapshot (st_manager s) = None"
  shows "intact env d settings (fold (perform env) actions s)"
proof -
  have run: "intact env d settings (fold (perform env) actions s)"
    if "intact env d settings s" "list_all (other_endpoint settings) actions" "Recover \<notin> set actions" for s actions
    using that by (induction actions arbitrary: s) (auto intro!: perform_intact assms(1-3))
  show ?thesis
    using assms by (cases actions) (auto intro!: run perform_intact)
qed

lemma may_be_left_safe:
  assumes "storable (w_registry w)" "users_own env (w_registry w)" "pe_win32 env"
    and "\<forall>d' \<in> insert d (set (pe_directories env)). w_journals w d' = None" "may_be_left env d w u"
  shows "safe_world env d (w_registry w) u"
  using assms(5)
proof (induction rule: may_be_left.induct)
  case before
  then show ?case using assms(4) storable_supported [OF assms(1)] by (simp add: safe_world_def)
next
  case (killed v u actions hasDiagnostic plan)
  have "intact env d (w_registry w) (process d hasDiagnostic plan v)"
    using killed.IH killed.hyps(3) by (simp add: intact_def process_def new_manager_def)
  then have "intact env d (w_registry w) (fold (perform env) actions (process d hasDiagnostic plan v))"
    by (rule run_intact [OF assms(1-3)]) (use killed.hyps in \<open>simp_all add: process_def new_manager_def\<close>)
  then show ?case using killed.hyps(2) by (simp add: intact_def)
qed

section \<open>Nothing fails when nothing goes wrong\<close>

definition undisturbed :: "proxy_state \<Rightarrow> bool" where
  "undisturbed s \<longleftrightarrow> st_plan s = [] \<and> supported (w_registry (st_world s))"

definition sure :: "'a proxy_op \<Rightarrow> bool" where
  "sure m \<longleftrightarrow> (\<forall>s. undisturbed s \<longrightarrow> (\<exists>x t. m s = (Inr x, t) \<and> undisturbed t))"

lemma sureI: "(\<And>s. undisturbed s \<Longrightarrow> \<exists>x t. m s = (Inr x, t) \<and> undisturbed t) \<Longrightarrow> sure m"
  by (simp add: sure_def)

lemma sureE:
  assumes "sure m" "undisturbed s"
  obtains x t where "m s = (Inr x, t)" "undisturbed t"
  using assms unfolding sure_def by blast

lemma sure_return: "sure (op_return x)"
  by (rule sureI) (simp add: op_return_def)

lemma sure_bind:
  assumes "sure m" "\<And>x. sure (f x)"
  shows "sure (op_bind m f)"
proof (rule sureI)
  fix s assume "undisturbed s"
  then obtain x t where "m s = (Inr x, t)" "undisturbed t" by (rule sureE [OF assms(1)])
  moreover have "\<exists>y u. f x t = (Inr y, u) \<and> undisturbed u"
    using assms(2) [of x] calculation(2) unfolding sure_def by blast
  ultimately show "\<exists>y u. op_bind m f s = (Inr y, u) \<and> undisturbed u" by (simp add: op_bind_def)
qed

lemma sure_seq: "sure m \<Longrightarrow> sure k \<Longrightarrow> sure (op_seq m k)"
  unfolding op_seq_def by (rule sure_bind)

lemma sure_when: "sure m \<Longrightarrow> sure (op_when b m)"
  by (simp add: op_when_def sure_return)

lemma sure_modify: "(\<And>s. st_plan (f s) = st_plan s) \<Longrightarrow> (\<And>s. st_world (f s) = st_world s) \<Longrightarrow> sure (op_modify f)"
  by (rule sureI) (simp add: op_modify_def undisturbed_def)

lemma sure_upd_manager: "sure (upd_manager f)"
  unfolding upd_manager_def by (rule sure_modify) simp_all

lemma sure_get: "sure (op_get f)"
  by (rule sureI) (simp add: op_get_def)

lemma undisturbed_outcome: "undisturbed s \<Longrightarrow> take_outcome env (st_plan s) s = (Done, s)"
  by (simp add: undisturbed_def)

lemma sure_effect: "(\<And>w. supported (w_registry w) \<Longrightarrow> supported (w_registry (f w))) \<Longrightarrow> sure (effect env e f)"
  by (rule sureI) (simp add: effect_def undisturbed_outcome, simp add: undisturbed_def enter_worlds_def)

lemma inspect_undisturbed: "undisturbed s \<Longrightarrow> inspect env e f s = (Inr (f (st_world s)), s)"
  by (simp add: inspect_def undisturbed_outcome)

lemma sure_inspect: "sure (inspect env e f)"
  by (rule sureI) (simp add: inspect_undisturbed)

lemma sure_query: "sure (regQueryValue env name)"
proof -
  have "sure (regQueryTypedValue env name)"
  proof (rule sureI)
    fix s assume s: "undisturbed s"
    have "typed_value_of v \<noteq> None" if "w_registry (st_world s) name = Some v" for v
      using that s by (cases v) (auto simp: typed_value_of_def undisturbed_def supported_def)
    then show "\<exists>x t. regQueryTypedValue env name s = (Inr x, t) \<and> undisturbed t"
      using s by (auto simp: regQueryTypedValue_def undisturbed_outcome split: option.splits)
  qed
  then show ?thesis unfolding regQueryValue_def by (intro sure_bind sure_return)
qed

lemma sure_set_value: "v \<noteq> Some RegOther \<Longrightarrow> sure (effect env e (set_value name v))"
  by (rule sure_effect) (simp add: set_value_def supported_def)

lemma sure_restore_value:
  assumes "put_back_exactly settings entry"
  shows "sure (restoreValue env entry)"
proof -
  obtain name kind v where entry: "entry = (name, kind, v)" by (cases entry)
  show ?thesis
  proof (cases v)
    case None
    then show ?thesis
      by (cases kind) (simp_all add: entry restoreValue_def regDeleteValue_def sure_bind sure_query sure_when sure_set_value)
  next
    case (Some s)
    have "data_of kind s \<noteq> None"
      using assms unfolding entry put_back_exactly_def Some prod.case option.case by (rule conjunct1)
    then obtain x where x: "data_of kind s = Some x" by blast
    moreover have "x \<noteq> RegOther" using x data_of_supported(1) [of kind s] by auto
    ultimately show ?thesis
      using Some
      by (cases kind) (simp_all add: entry restoreValue_def data_of_def regAddDword_def regAddString_def sure_set_value)
  qed
qed

lemma sure_restore_entries:
  "\<forall>entry \<in> set entries. put_back_exactly settings entry \<Longrightarrow> sure (restore_entries env entries)"
  unfolding restore_entries_def
  by (induction entries) (auto intro!: sure_seq sure_restore_value sure_return)

lemma sure_stopPacServer: "sure stopPacServer"
  unfolding stopPacServer_def the_manager_def closeServers_def Let_def
  by (intro sure_bind sure_get sure_seq sure_upd_manager sure_modify) simp_all

lemma sure_restore_snapshot:
  assumes "storable settings"
  shows "sure (restore_snapshot env (settings_of settings))"
proof -
  have "\<forall>entry \<in> set (snapshot_values (settings_of settings)). put_back_exactly settings entry"
    using settings_put_back [OF assms] by blast
  then have "sure (restore_entries env (take 4 (snapshot_values (settings_of settings))))"
    "sure (restore_entries env (drop 4 (snapshot_values (settings_of settings))))"
    by (auto intro!: sure_restore_entries dest: in_set_takeD in_set_dropD)
  then show ?thesis
    unfolding restore_snapshot_def the_manager_def refreshWindowsProxy_def attempt_def
    by (intro sure_seq sure_upd_manager sure_inspect sure_stopPacServer sure_bind sure_get sure_effect)
      (simp_all add: set_pacFile_def set_journal_def)
qed

lemma readPersisted_undisturbed:
  assumes "undisturbed s"
  shows "w_journals (st_world s) d = None \<Longrightarrow> readPersistedProxySnapshot env d s = (Inr (Inr None), s)"
    and "w_journals (st_world s) d = Some j \<Longrightarrow> journal_snapshot j = Inr snapshot \<Longrightarrow>
      readPersistedProxySnapshot env d s = (Inr (Inr (Some snapshot)), s)"
  using assms
  by (auto simp: readPersistedProxySnapshot_def op_bind_def op_return_def inspect_undisturbed journal_snapshot_def split: if_splits)

lemma restore_undisturbed:
  assumes "storable settings" "pe_win32 env" "undisturbed s" "journalled env d settings {} s" "m_snapshot (st_manager s) = None"
  shows "\<exists>t. restore_proxy env s = (Inr (), t) \<and> undisturbed t \<and> untouched env d settings t"
proof -
  have dir: "m_pacDirectory (st_manager s) = d" using assms(4) by (simp add: journalled_def intact_def)
  obtain j where j: "w_journals (st_world s) d = Some j" "journal_snapshot j = Inr (settings_of settings)"
    using assms(4) by (auto simp: journalled_def intact_def safe_world_def)
  note seen = readPersisted_undisturbed(2) [OF assms(3) j]
  have same: "restoreInternal env s = restore_snapshot env (settings_of settings) s"
    using assms(2,5) dir seen
    by (simp add: restoreInternal_def the_manager_def op_bind_def op_get_def op_return_def readUsableProxySnapshot_def)
  obtain x t where t: "restore_snapshot env (settings_of settings) s = (Inr x, t)" "undisturbed t"
    by (rule sureE [OF sure_restore_snapshot [OF assms(1)] assms(3)])
  have "untouched env d settings t"
    using restore_snapshot_put_back [OF assms(1)] assms(4) t(1) unfolding holds_def by fastforce
  then have "untouched env d settings (t\<lparr>st_manager := (st_manager t)\<lparr>m_proxyStateDirty := False\<rparr>\<rparr>)"
    by (auto simp: untouched_def intact_def)
  then show ?thesis
    using same t by (auto simp: restore_proxy_def dirty_after_def op_rethrow_def op_bind_def op_seq_def upd_manager_def
        op_modify_def op_return_def undisturbed_def)
qed

lemma read_candidates_undisturbed:
  assumes "undisturbed s" "safe_world env d settings (st_world s)" "set ds \<subseteq> set (pe_directories env)" "distinct ds"
  shows "read_candidates env ds s = (Inr (case w_journals (st_world s) d of
      None \<Rightarrow> [] | Some j \<Rightarrow> if d \<in> set ds then [(Some (jf_modified j), d)] else [], [], True), s)"
  using assms(3,4)
proof (induction ds)
  case Nil
  then show ?case by (simp split: option.splits)
next
  case (Cons d' ds)
  note rest = Cons.IH [OF _ distinct_tl [OF Cons.prems(2), simplified]]
  show ?case
  proof (cases "d' = d \<and> w_journals (st_world s) d \<noteq> None")
    case True
    then obtain j where j: "w_journals (st_world s) d = Some j" "journal_snapshot j = Inr (settings_of settings)"
      using assms(2) by (auto simp: safe_world_def)
    show ?thesis
      using True j rest Cons.prems readPersisted_undisturbed(2) [OF assms(1) j]
      by (simp add: inspect_undisturbed [OF assms(1)])
  next
    case False
    then have "w_journals (st_world s) d' = None"
      using assms(2) Cons.prems(1) by (auto simp: safe_world_def)
    then show ?thesis
      using False rest Cons.prems readPersisted_undisturbed(1) [OF assms(1)]
      by (auto split: option.splits)
  qed
qed

lemma recover_undisturbed:
  assumes "storable settings" "pe_win32 env" "d \<in> set (pe_directories env)" "safe_world env d settings u"
  shows "\<exists>b t. recoverWindowsSystemProxy env (process d hasDiagnostic [] u) = (Inr b, t) \<and> safe_world env d settings (st_world t) \<and>
    w_journals (st_world t) d = None"
proof -
  let ?s = "process d hasDiagnostic [] u"
  have s: "undisturbed ?s" "intact env d settings ?s" "st_world ?s = u" "m_snapshot (st_manager ?s) = None"
    using assms(4) by (auto simp: undisturbed_def intact_def process_def new_manager_def safe_world_def)
  have distinct: "distinct (to_set (pe_directories env))"
  proof -
    have "distinct ys \<Longrightarrow> distinct (fold set_add ds ys)" for ds ys :: "jsstring list"
      by (induction ds arbitrary: ys) (auto simp: set_add_def)
    then show ?thesis by (simp add: to_set_def)
  qed
  have found: "read_candidates env (to_set (pe_directories env)) ?s = (Inr (case w_journals u d of
      None \<Rightarrow> [] | Some j \<Rightarrow> [(Some (jf_modified j), d)], [], True), ?s)"
    using read_candidates_undisturbed [OF s(1) _ _ distinct, of env d settings] assms(3,4) s(3) by (auto split: option.splits)
  show ?thesis
  proof (cases "w_journals u d")
    case None
    then have "recoverWindowsSystemProxy env ?s = (Inr False, ?s)"
      using found assms(2) by (simp add: recoverWindowsSystemProxy_def op_bind_def op_return_def oldest_first_def)
    then show ?thesis using None assms(4) s(3) by auto
  next
    case (Some j)
    let ?n = "?s\<lparr>st_manager := new_manager d True\<rparr>"
    have "undisturbed ?n" "journalled env d settings {} ?n" "m_snapshot (st_manager ?n) = None"
      using s Some by (simp_all add: undisturbed_def journalled_def intact_def new_manager_def)
    from restore_undisturbed [OF assms(1,2) this] obtain t
      where t: "restore_proxy env ?n = (Inr (), t)" "untouched env d settings t" by blast
    let ?t = "t\<lparr>st_manager := st_manager ?s\<rparr>"
    have "recoverWindowsSystemProxy env ?s = (Inr True, ?t\<lparr>st_diagnostics := st_diagnostics ?t\<rparr>)"
      using found Some assms(2) t(1)
      by (simp add: recoverWindowsSystemProxy_def op_bind_def op_return_def oldest_only op_seq_def with_new_manager_def
          report_def op_modify_def)
    then show ?thesis using t(2) by (auto simp: untouched_def intact_def)
  qed
qed


section \<open>An example\<close>

definition example_env :: proxy_env where
  "example_env = \<lparr>pe_win32 = True, pe_sha256 = (\<lambda>s. js ''5f''), pe_parseUrl = (\<lambda>_. None), pe_pacText = (\<lambda>p. pac_proxy p),
     pe_port = (\<lambda>n. 50000 + int n), pe_directories = [js ''routing'', js ''xray'']\<rparr>"

definition example_registry :: registry where
  "example_registry name =
     (if name = ProxyEnable then Some (RegDword 1) else if name = ProxyServer then Some (RegSz (js ''proxy:8080'')) else None)"

definition example_world :: world where
  "example_world = \<lparr>w_registry = example_registry, w_journals = (\<lambda>_. None), w_pacFiles = (\<lambda>_. None), w_clock = 0\<rparr>"

definition example_request :: apply_request where
  "example_request = \<lparr>ar_mode = ProxyAll, ar_rules = [], ar_proxyDomains = None, ar_directDomains = None,
     ar_socksHost = js ''127.0.0.1'', ar_socksPort = 1080, ar_proxyProtocol = None, ar_forcePacEndpointRotation = False\<rparr>"

lemmas example_defs = example_env_def example_request_def example_world_def example_registry_def process_def

lemma example_number: "dword_data (js ''1'') = Some (RegDword 1)"
  by (simp add: dword_data_def js_number_def js_trim_def js_trim_start_def js_trim_end_def js_ws_def starts_with_def
      unsigned_decimal_def is_digit_def scaled_int_def radix_value_def digit_val_def)

lemma example_endpoint: "assertLocalProxyEndpoint (js ''127.0.0.1'') 1080 = Inr ()"
  by (simp add: assertLocalProxyEndpoint_def js_trim_def js_trim_start_def js_trim_end_def js_ws_def lower_unit_def
      strip_bracket_ends_def starts_with_def ends_with_def)


lemma example_settings: "settings_of example_registry =
    \<lparr>ps_proxyEnable = Some (js ''0x1''), ps_proxyServer = Some (js ''proxy:8080''), ps_proxyOverride = None,
     ps_autoConfigUrl = None, ps_autoDetect = None, ps_expandStrings = None\<rparr>"
  by (simp add: settings_of_def typed_of_def example_registry_def typed_value_of_def printed_value_def is_expand_def hex_def
      radix_string.simps digit_unit_def js_trim_def js_trim_start_def js_trim_end_def js_ws_def)

lemma example_size: "jf_size (journal_of 0 (settings_of example_registry)) \<le> MAX_PROXY_SNAPSHOT_BYTES"
  unfolding example_settings
  by (simp add: journal_of_def snapshot_text_def snapshot_members_def string_member_def PROXY_SNAPSHOT_VERSION_def
      MAX_PROXY_SNAPSHOT_BYTES_def json_string_def json_unit_def is_high_def is_low_def dec_def radix_string.simps digit_unit_def
      utf8_unit_def)

lemma example_plain: "storable example_registry"
  using example_size
  by (simp add: storable_def example_registry_def plain_number_def plain_text_def printed_value_def
      js_trim_def js_trim_start_def js_trim_end_def js_ws_def MAX_PROXY_REGISTRY_STRING_LENGTH_def)

lemma example_own: "users_own example_env example_registry"
  by (simp add: users_own_def example_settings isShadowStaticProxy_def)

lemma example_other: "other_endpoint example_registry (Apply example_request)"
  by (simp add: other_endpoint_def example_registry_def example_request_def typed_value_of_def printed_value_def
      buildWindowsProxyServer_def formatProxyEndpoint_def strip_bracket_ends_def starts_with_def ends_with_def lower_unit_def
      js_trim_def js_trim_start_def js_trim_end_def js_ws_def)


lemma example_zero: "dword_data (js ''0'') = Some (RegDword 0)"
  by (simp add: dword_data_def js_number_def js_trim_def js_trim_start_def js_trim_end_def js_ws_def starts_with_def
      unsigned_decimal_def is_digit_def scaled_int_def radix_value_def digit_val_def)

lemmas step_defs = op_bind_def op_seq_def op_return_def op_rethrow_def upd_manager_def op_modify_def the_manager_def op_get_def
  op_when_def inspect_def attempt_def effect_def regQueryTypedValue_def regQueryValue_def enter_worlds_def Let_def
  regAddDword_def regAddString_def regDeleteValue_def string_data_def set_value_def

definition example_start :: proxy_state where
  "example_start = process (js ''routing'') True [] example_world"

definition example_journalled :: proxy_state where
  "example_journalled =
     (let w = set_journal (js ''routing'') (Some (journal_of 0 (settings_of example_registry))) example_world
      in example_start\<lparr>st_world := w, st_trace := [example_world, w],
           st_manager := (new_manager (js ''routing'') True)\<lparr>m_snapshot := Some (settings_of example_registry)\<rparr>\<rparr>)"

lemma example_no_journal: "restorePersistedSnapshot example_env example_start = (Inr (), example_start)"
  by (simp add: example_start_def example_defs new_manager_def restorePersistedSnapshot_def readUsableProxySnapshot_def
    readPersistedProxySnapshot_def step_defs del: js_simps)

lemma example_read: "readProxySnapshot example_env example_start = (Inr (settings_of example_registry), example_start)"
  by (simp add: example_start_def example_defs new_manager_def readProxySnapshot_def settings_of_def typed_of_def
      typed_value_of_def step_defs del: js_simps)

lemma example_taken: "take_snapshot example_env example_request example_start = (Inr (), example_journalled)"
proof -
  define snapshot where "snapshot = settings_of example_registry"
  have "withoutAppOwnedProxyValues (pe_parseUrl example_env) snapshot (ar_socksHost example_request) (ar_socksPort example_request) = snapshot"
    unfolding snapshot_def by (rule own_settings_kept [OF example_own example_other])
  then show ?thesis
    using example_read
    by (simp add: take_snapshot_def persistProxySnapshot_def example_start_def example_journalled_def process_def
        new_manager_def step_defs snapshot_def [symmetric] example_world_def del: js_simps)
qed

lemma example_applied:
  "\<exists>x t. apply_static example_env example_request example_journalled = (Inr x, t) \<and>
     (\<exists>u \<in> set (st_trace t). w_registry u ProxyServer = Some (RegSz (buildWindowsProxyServer (js ''127.0.0.1'') 1080 MixedProxy)))"
  by (simp add: example_number example_zero apply_static_def example_journalled_def example_start_def example_defs
      new_manager_def step_defs refreshWindowsProxy_def set_journal_def request_protocol_def stopPacServer_def
      closeServers_def del: js_simps)

lemma example_left:
  "\<exists>u. may_be_left example_env (js ''routing'') example_world u \<and>
     w_registry u ProxyServer = Some (RegSz (buildWindowsProxyServer (js ''127.0.0.1'') 1080 MixedProxy))"
proof -
  obtain x t u where t: "apply_static example_env example_request example_journalled = (Inr x, t)" "u \<in> set (st_trace t)"
    "w_registry u ProxyServer = Some (RegSz (buildWindowsProxyServer (js ''127.0.0.1'') 1080 MixedProxy))"
    using example_applied by blast
  have "applyInternal example_env example_request example_start = apply_static example_env example_request example_journalled"
    using example_no_journal example_taken example_endpoint
    by (simp add: applyInternal_def op_seq_def op_bind_def example_request_def example_env_def normalizeProxyDomains_def del: js_simps)
  then have "st_trace (perform example_env (Apply example_request) example_start) = st_trace t"
    using t(1) by (simp add: apply_proxy_def dirty_after_def step_defs)
  then have "u \<in> set (st_trace (fold (perform example_env) [Apply example_request] (process (js ''routing'') True [] example_world)))"
    using t(2) by (simp add: example_start_def)
  from killed [OF before this] have "may_be_left example_env (js ''routing'') example_world u"
    using example_other by (simp add: example_world_def)
  then show ?thesis using t(3) by blast
qed


end
