(* ===== verification/WindowsProxyServing.thy ===== *)
theory WindowsProxyServing
  imports WindowsProxySafety
begin

text \<open>
  What the PAC listener answers after an apply, how many PAC versions are kept, and three limits of the
  journal and of the listener that the model shows.
\<close>

section \<open>The versions kept\<close>

lemma evict_versions_bound:
  assumes "distinct (jm_keys versions)" "[] \<notin> set (jm_keys versions)" "length kept \<le> MAX_SERVED_PAC_VERSIONS"
  shows "length (evict_versions kept versions) \<le> MAX_SERVED_PAC_VERSIONS"
  using assms
proof (induction kept versions rule: evict_versions.induct)
  case (1 kept versions)
  show ?case
  proof (cases "length versions \<le> MAX_SERVED_PAC_VERSIONS")
    case True
    then show ?thesis by (simp add: evict_versions.simps [of kept versions])
  next
    case False
    have "find (\<lambda>candidate. candidate \<notin> set kept) (jm_keys versions) \<noteq> None"
    proof
      assume "find (\<lambda>candidate. candidate \<notin> set kept) (jm_keys versions) = None"
      then have "set (jm_keys versions) \<subseteq> set kept" by (auto simp: find_None_iff)
      then have "length (jm_keys versions) \<le> length kept"
        using "1.prems"(1) by (rule length_filter_distinct_bound [rotated])
      then show False using False "1.prems"(3) by (simp add: jm_keys_def)
    qed
    then obtain removable where found: "find (\<lambda>candidate. candidate \<notin> set kept) (jm_keys versions) = Some removable" by blast
    then have "removable \<noteq> []" using "1.prems"(2) by (auto simp: find_Some_iff) (metis nth_mem)
    moreover have "distinct (jm_keys (jm_delete removable versions))" "[] \<notin> set (jm_keys (jm_delete removable versions))"
      using "1.prems"(1,2) by (auto simp: jm_keys_def jm_delete_def distinct_map_filter)
    ultimately show ?thesis
      using False found "1.IH" [OF False found] "1.prems"(3) by (simp add: evict_versions.simps [of kept versions])
  qed
qed

lemma evict_versions_kept:
  "k \<in> set kept \<Longrightarrow> map_of (evict_versions kept versions) k = map_of versions k"
proof (induction kept versions rule: evict_versions.induct)
  case (1 kept versions)
  have gone: "map_of (jm_delete removable versions) k = map_of versions k" if "removable \<noteq> k" for removable
    unfolding jm_delete_def using that by (induction versions) auto
  show ?case
  proof (cases "find (\<lambda>candidate. candidate \<notin> set kept) (jm_keys versions)")
    case None
    then show ?thesis by (simp add: evict_versions.simps [of kept versions])
  next
    case (Some removable)
    then have "removable \<noteq> k" using "1.prems" by (auto simp: find_Some_iff)
    then show ?thesis
      using Some 1 gone by (simp add: evict_versions.simps [of kept versions])
  qed
qed

lemma jm_set_fresh: "k \<notin> set (jm_keys m) \<Longrightarrow> map_of (jm_set k v m) k = Some v"
proof -
  assume k: "k \<notin> set (jm_keys m)"
  then have "map_of m k = None" by (simp add: jm_keys_def map_of_eq_None_iff)
  then show ?thesis using k by (simp add: jm_set_def jm_has_def map_add_def)
qed

lemma remembered:
  "map_of (m_pacVersions (rememberPacVersion version pac m)) version = Some pac"
proof -
  have "version \<notin> set (jm_keys (jm_delete version (m_pacVersions m)))" by (auto simp: jm_keys_def jm_delete_def)
  then show ?thesis by (simp add: rememberPacVersion_def Let_def evict_versions_kept jm_set_fresh)
qed

text \<open>At most eight versions are kept, each once.\<close>

definition versions_ok :: "jsstring js_map \<Rightarrow> bool" where
  "versions_ok versions \<longleftrightarrow> distinct (jm_keys versions) \<and> [] \<notin> set (jm_keys versions)"

lemma evict_versions_ok: "versions_ok versions \<Longrightarrow> versions_ok (evict_versions kept versions)"
proof (induction kept versions rule: evict_versions.induct)
  case (1 kept versions)
  have "versions_ok (jm_delete removable versions)" for removable
    using "1.prems" by (auto simp: versions_ok_def jm_keys_def jm_delete_def distinct_map_filter)
  then show ?case
    using 1 by (auto simp: evict_versions.simps [of kept versions] split: option.splits)
qed

lemma remembered_bounded:
  assumes "versions_ok (m_pacVersions m)" "version \<noteq> []"
  shows "versions_ok (m_pacVersions (rememberPacVersion version pac m)) \<and>
    length (m_pacVersions (rememberPacVersion version pac m)) \<le> MAX_SERVED_PAC_VERSIONS"
proof -
  define versions where "versions = jm_set version pac (jm_delete version (m_pacVersions m))"
  define kept where "kept = version # (case pacVersionFromUrl (m_registeredPacUrl m) of None \<Rightarrow> [] | Some v \<Rightarrow> [v]) @
     (case pacVersionFromUrl (m_registryPacUrl m) of None \<Rightarrow> [] | Some v \<Rightarrow> [v])"
  have absent: "version \<notin> set (jm_keys (jm_delete version (m_pacVersions m)))" by (auto simp: jm_keys_def jm_delete_def)
  then have "versions = jm_delete version (m_pacVersions m) @ [(version, pac)]"
    by (simp add: versions_def jm_set_def jm_has_def)
  then have "versions_ok versions"
    using assms absent by (auto simp: versions_ok_def jm_keys_def jm_delete_def distinct_map_filter)
  moreover have "length kept \<le> MAX_SERVED_PAC_VERSIONS"
    by (simp add: kept_def MAX_SERVED_PAC_VERSIONS_def split: option.splits)
  moreover have "m_pacVersions (rememberPacVersion version pac m) = evict_versions kept versions"
    by (simp add: rememberPacVersion_def Let_def kept_def versions_def)
  ultimately show ?thesis
    using evict_versions_ok evict_versions_bound [of versions kept] by (simp add: versions_ok_def)
qed

section \<open>Predicates on the manager alone\<close>

abbreviation mgr :: "(manager \<Rightarrow> bool) \<Rightarrow> proxy_state \<Rightarrow> bool" where
  "mgr P s \<equiv> P (st_manager s)"

lemma mgr_same:
  assumes "\<And>s. st_manager (snd (m s)) = st_manager s"
  shows "keeps (mgr P) (\<lambda>_. True) m"
  unfolding holds_def
proof (intro allI impI)
  fix s assume "mgr P s"
  then show "case m s of (Inl e, t) \<Rightarrow> True | (Inr x, t) \<Rightarrow> mgr P t"
    using assms [of s] by (cases "m s") (simp split: sum.splits)
qed

lemma query_manager: "st_manager (snd (regQueryTypedValue env name s)) = st_manager s"
  by (cases "take_outcome env (st_plan s) s") (auto simp: regQueryTypedValue_def dest: take_outcome_manager)

lemmas same_manager = mgr_same [OF effect_manager] mgr_same [OF inspect_manager] mgr_same [OF query_manager]

lemma throw_mgr: "keeps (mgr P) (\<lambda>_. True) (op_throw e)"
  by (rule holds_throw) simp

lemma commands_mgr:
  "keeps (mgr P) (\<lambda>_. True) (regAddDword env name v)" "keeps (mgr P) (\<lambda>_. True) (regAddString env name v expand)"
  "keeps (mgr P) (\<lambda>_. True) (regDeleteValue env name)" "keeps (mgr P) (\<lambda>_. True) (refreshWindowsProxy env)"
  "keeps (mgr P) (\<lambda>_. True) (attempt env e)"
  unfolding regAddDword_def regAddString_def regDeleteValue_def regQueryValue_def refreshWindowsProxy_def attempt_def
  by (intro keeps_option keeps_seq keeps_bind keeps_when keeps_return same_manager throw_mgr)+

lemma closeServers_mgr: "keeps (mgr P) E (closeServers servers)"
  unfolding closeServers_def by (rule holds_modify) simp

lemma upd_manager_mgr: "(\<And>m. P m \<Longrightarrow> Q (f m)) \<Longrightarrow> holds (mgr P) (upd_manager f) (\<lambda>_. mgr Q) E"
  unfolding upd_manager_def by (rule holds_modify) simp

lemma publish_mgr:
  assumes "\<And>m retained fallback. P m \<Longrightarrow> server \<notin> set fallback \<Longrightarrow>
      Q (m\<lparr>m_retainedPacServers := retained, m_currentPacFallbackServers := fallback\<rparr>)"
  shows "holds (mgr P) (publishRetainedPacServers server) (\<lambda>_. mgr Q) E"
proof -
  let ?R = "\<lambda>m :: manager. filter (\<lambda>s. s \<noteq> server) (m_retainedPacServers m)"
  let ?F = "\<lambda>m. let fallback = filter (\<lambda>s. s \<noteq> server) (m_currentPacFallbackServers m)
     in fallback @ filter (\<lambda>s. s \<notin> set fallback) (?R m)"
  have "holds (mgr P) (op_seq (upd_manager (\<lambda>m'. m'\<lparr>m_retainedPacServers := filter (\<lambda>s. s \<notin> set expired) (?R m),
      m_currentPacFallbackServers := filter (\<lambda>s. s \<notin> set expired) (?F m)\<rparr>)) (closeServers expired)) (\<lambda>_. mgr Q) E" for m expired
    by (rule holds_seq [OF upd_manager_mgr closeServers_mgr], rule assms) (auto simp: Let_def)
  then show ?thesis
    unfolding publishRetainedPacServers_def the_manager_def Let_def
    by (intro holds_bind [OF holds_get [where Q = "\<lambda>_. mgr P"]])
qed

lemma rotation_mgr:
  assumes "\<And>m retained fallback. P m \<Longrightarrow> ep_server endpoint \<notin> set fallback \<Longrightarrow>
      Q (m\<lparr>m_retainedPacServers := retained, m_currentPacFallbackServers := fallback\<rparr>)"
    and "\<And>m retained. P m \<Longrightarrow> P (m\<lparr>m_retainedPacServers := retained\<rparr>)"
  shows "holds (mgr P) (finishPacEndpointRotation endpoint url True) (\<lambda>_. mgr Q) E"
proof -
  have "keeps (mgr P) E (case ep_previousServer endpoint of
       Some previous \<Rightarrow> op_when (previous \<noteq> ep_server endpoint) (upd_manager (retain_server previous)) | None \<Rightarrow> op_return ())"
    by (intro keeps_option keeps_when keeps_return upd_manager_mgr) (simp add: retain_server_def assms(2))
  then show ?thesis
    unfolding finishPacEndpointRotation_def by (simp only: if_True) (rule holds_seq, assumption, rule publish_mgr, rule assms(1))
qed

section \<open>What is answered after an apply\<close>

lemma holds_option:
  "(v = None \<Longrightarrow> holds P m Q E) \<Longrightarrow> (\<And>x. v = Some x \<Longrightarrow> holds P (f x) Q E) \<Longrightarrow>
   holds P (case v of None \<Rightarrow> m | Some x \<Rightarrow> f x) Q E"
  by (cases v) simp_all

lemma holds_if: "(b \<Longrightarrow> holds P m Q E) \<Longrightarrow> (\<not> b \<Longrightarrow> holds P k Q E) \<Longrightarrow> holds P (if b then m else k) Q E"
  by simp

abbreviation anything :: "proxy_state \<Rightarrow> bool" where
  "anything \<equiv> \<lambda>_. True"

definition endpoint_ready :: "proxy_env \<Rightarrow> jsstring \<Rightarrow> bool \<Rightarrow> pac_endpoint \<Rightarrow> manager \<Rightarrow> bool" where
  "endpoint_ready env pac forced endpoint m \<longleftrightarrow>
     m_pacServer m = Some (ep_server endpoint) \<and> ep_baseUrl endpoint = base_url env (ep_server endpoint) \<and>
     ep_version endpoint = pacVersion env pac \<and>
     (if forced then server_pac (ep_server endpoint) = Some pac
      else map_of (m_pacVersions m) (pacVersion env pac) = Some pac)"

lemma open_listener_mgr:
  "holds (mgr P) (open_listener env content) (\<lambda>server s. mgr P s \<and> server_pac server = content) anything"
  unfolding holds_def
proof (intro allI impI)
  fix s assume s: "mgr P s"
  obtain x t where t: "take_outcome env (st_plan s) s = (x, t)" by (cases "take_outcome env (st_plan s) s")
  show "case open_listener env content s of (Inl e, t) \<Rightarrow> True | (Inr server, t) \<Rightarrow> mgr P t \<and> server_pac server = content"
    using s t take_outcome_manager [OF t] by (simp add: open_listener_def)
qed

lemma open_endpoint_ready:
  assumes "\<not> forced \<Longrightarrow> (\<And>m. P m \<Longrightarrow> map_of (m_pacVersions m) (pacVersion env pac) = Some pac)"
  shows "holds (mgr P) (open_endpoint env pac forced previous) (\<lambda>endpoint. mgr (endpoint_ready env pac forced endpoint)) anything"
  unfolding open_endpoint_def the_manager_def Let_def
proof (rule holds_bind [OF holds_get [where Q = "\<lambda>_. mgr P"]], assumption, rule holds_bind)
  fix m :: manager
  show "holds (mgr P) (op_rethrow (open_listener env (if forced then Some pac else None)) (upd_manager (\<lambda>m. m\<lparr>m_pacContent := previous\<rparr>)))
     (\<lambda>server s. mgr P s \<and> server_pac server = (if forced then Some pac else None)) anything"
    by (rule holds_rethrow [OF open_listener_mgr]) (simp add: holds_def split: prod.splits sum.splits)
  fix server
  show "holds (\<lambda>s. mgr P s \<and> server_pac server = (if forced then Some pac else None))
     (op_seq (upd_manager (\<lambda>m. m\<lparr>m_pacServer := Some server\<rparr>))
       (op_return \<lparr>ep_baseUrl = base_url env server, ep_version = pacVersion env pac, ep_server = server,
          ep_previousServer = (if forced then m_pacServer m else None),
          ep_previousPacContent = (if (if forced then m_pacServer m else None) \<noteq> None then Some previous else None)\<rparr>))
     (\<lambda>endpoint. mgr (endpoint_ready env pac forced endpoint)) anything"
    using assms
    by (intro holds_fact holds_seq [OF upd_manager_mgr [where Q = "\<lambda>m. m_pacServer m = Some server \<and>
        (\<not> forced \<longrightarrow> map_of (m_pacVersions m) (pacVersion env pac) = Some pac)"]])
      (auto simp: endpoint_ready_def intro!: holds_return)
qed

lemma startPacServer_ready:
  "holds (mgr P) (startPacServer env pac forced) (\<lambda>endpoint. mgr (endpoint_ready env pac forced endpoint)) anything"
proof -
  let ?K = "\<lambda>m. map_of (m_pacVersions m) (pacVersion env pac) = Some pac"
  let ?remember = "upd_manager (\<lambda>m. rememberPacVersion (pacVersion env pac) pac (m\<lparr>m_pacContent := pac\<rparr>))"
  have keep: "m_pacServer (rememberPacVersion v q m) = m_pacServer m" for v q m
    by (simp add: rememberPacVersion_def Let_def)
  have opened: "holds (mgr ?K) (open_endpoint env pac forced previous) (\<lambda>endpoint. mgr (endpoint_ready env pac forced endpoint)) anything" for previous
    by (rule open_endpoint_ready)
  have again: "holds (mgr Q) (op_seq stopPacServer (op_seq ?remember (open_endpoint env pac forced previous)))
      (\<lambda>endpoint. mgr (endpoint_ready env pac forced endpoint)) anything" for Q previous
  proof (rule holds_seq)
    show "holds (mgr Q) stopPacServer (\<lambda>_. mgr (\<lambda>_. True)) anything"
      unfolding stopPacServer_def the_manager_def closeServers_def upd_manager_def Let_def
      by (intro holds_bind [OF holds_get [where Q = "\<lambda>_ _. True"]] holds_seq [OF holds_modify [where Q = "\<lambda>_ _. True"]] holds_modify) simp_all
    show "holds (mgr (\<lambda>_. True)) (op_seq ?remember (open_endpoint env pac forced previous))
        (\<lambda>endpoint. mgr (endpoint_ready env pac forced endpoint)) anything"
      by (rule holds_seq [OF upd_manager_mgr opened]) (rule remembered)
  qed
  let ?found = "\<lambda>m n. ?K n \<and> m_pacServer n = m_pacServer m"
  let ?ready = "\<lambda>endpoint. mgr (endpoint_ready env pac forced endpoint)"
  let ?reuse = "\<lambda>m server. op_bind (listens server) (\<lambda>bound.
      if bound
      then op_return \<lparr>ep_baseUrl = base_url env server, ep_version = pacVersion env pac, ep_server = server,
             ep_previousServer = None, ep_previousPacContent = None\<rparr>
      else op_seq stopPacServer (op_seq ?remember (open_endpoint env pac forced (m_pacContent m))))"
  have reused: "holds (mgr (?found m)) (?reuse m server) ?ready anything" if "m_pacServer m = Some server" "\<not> forced" for m server
    unfolding listens_def
    by (rule holds_bind [OF keeps_get]) (use again that in \<open>auto simp: endpoint_ready_def intro!: holds_return\<close>)
  have new: "holds (mgr (?found m)) (open_endpoint env pac forced previous) ?ready anything" for m previous
    by (rule open_endpoint_ready) simp
  have step: "holds (mgr P) (op_seq ?remember (case m_pacServer m of
          Some server \<Rightarrow> if forced then open_endpoint env pac forced (m_pacContent m) else ?reuse m server
        | None \<Rightarrow> open_endpoint env pac forced (m_pacContent m))) ?ready anything"
    if "\<And>n. P n \<Longrightarrow> m_pacServer n = m_pacServer m" for m P
  proof (rule holds_seq)
    show "holds (mgr P) ?remember (\<lambda>_. mgr (?found m)) anything"
      by (rule upd_manager_mgr) (simp add: remembered keep that)
  qed (intro holds_option holds_if new reused)
  have "holds (mgr P) the_manager (\<lambda>m s. mgr (\<lambda>n. m_pacServer n = m_pacServer m) s) anything"
    unfolding the_manager_def by (rule holds_get) simp
  then show ?thesis
    unfolding startPacServer_def Let_def by (rule holds_bind) (rule step)
qed

lemma register_pac_mgr:
  assumes "\<And>m registry registered static. P m \<Longrightarrow> P (m\<lparr>m_registryPacUrl := registry, m_registeredStaticProxy := static,
      m_registeredPacUrl := registered\<rparr>)"
  shows "holds (mgr P) (register_pac env forced changed url) (\<lambda>_. mgr (\<lambda>m. P m \<and> m_registeredPacUrl m = Some url)) anything"
proof -
  have upd: "P (m\<lparr>m_registryPacUrl := registry\<rparr>)" "P (m\<lparr>m_registeredStaticProxy := None, m_registeredPacUrl := registered\<rparr>)"
    if "P m" for m registry registered
    using assms [OF that, where registry = registry and registered = "m_registeredPacUrl m" and static = "m_registeredStaticProxy m"]
      assms [OF that, where registry = "m_registryPacUrl m" and registered = registered and static = None] by simp_all
  let ?putUrl = "\<lambda>revising. op_seq (op_when (\<not> revising)
               (op_seq (regAddDword env ProxyEnable (js ''0''))
               (op_seq (regDeleteValue env ProxyServer)
               (regAddDword env AutoDetect (js ''0'')))))
            (op_seq (regAddString env AutoConfigURL url False)
            (op_seq (upd_manager (\<lambda>m. m\<lparr>m_registryPacUrl := Some url\<rparr>))
            (op_seq (refreshWindowsProxy env)
            (upd_manager (\<lambda>m. m\<lparr>m_registeredStaticProxy := None, m_registeredPacUrl := Some url\<rparr>)))))"
  have written: "holds (mgr P) (?putUrl revising) (\<lambda>_. mgr (\<lambda>m. P m \<and> m_registeredPacUrl m = Some url)) anything" for revising
    by (intro holds_seq [OF keeps_when] holds_seq [OF commands_mgr(2)] holds_seq [OF commands_mgr(4)]
        holds_seq [OF upd_manager_mgr [of P P]] upd_manager_mgr keeps_seq commands_mgr) (auto intro: upd)
  have noted: "holds (mgr (\<lambda>m. P m \<and> m_registeredPacUrl m = Some url)) (op_when changed (refreshWindowsProxy env))
      (\<lambda>_. mgr (\<lambda>m. P m \<and> m_registeredPacUrl m = Some url)) anything"
    by (intro keeps_when commands_mgr)
  have got: "holds (mgr P) the_manager (\<lambda>m s. mgr P s \<and> m_registeredPacUrl (st_manager s) = m_registeredPacUrl m) anything"
    unfolding the_manager_def by (rule holds_get) simp
  show ?thesis
    unfolding register_pac_def Let_def
  proof (rule holds_bind [OF got])
    fix m
    show "holds (\<lambda>s. mgr P s \<and> m_registeredPacUrl (st_manager s) = m_registeredPacUrl m)
      (if m_proxyStateDirty m \<or> m_registeredPacUrl m \<noteq> Some url
       then ?putUrl (\<not> forced \<and> \<not> m_proxyStateDirty m \<and> m_registeredPacUrl m \<noteq> None \<and> m_registeredStaticProxy m = None)
       else op_when changed (refreshWindowsProxy env)) (\<lambda>_. mgr (\<lambda>m. P m \<and> m_registeredPacUrl m = Some url)) anything"
      by (rule holds_if; rule holds_conseq [OF written] holds_conseq [OF noted]) auto
  qed
qed

text \<open>The query of a URL of this program.\<close>

lemma base_url_plain: "63 \<notin> set (base_url env server)"
  by (auto simp: base_url_def pac_path_def dec_def is_digit_def dest: radix_string_digits)

lemma url_version_base: "url_version (base_url env server) = None"
proof -
  have none: "index_of 63 (base_url env server) = None" using base_url_plain [of env server] by simp
  show ?thesis unfolding url_version_def none by simp
qed

lemma url_version_versioned: "url_version (versionPacUrl (base_url env server) version) = Some version"
proof -
  have "index_of 63 (base_url env server @ 63 # r) = Some (length (base_url env server))" for r
    using base_url_plain by (rule index_of_append)
  then show ?thesis by (simp add: url_version_def versionPacUrl_def starts_with_def)
qed

text \<open>Until the listener is chosen, no publication becomes pending.\<close>

definition settled :: "bool \<Rightarrow> manager \<Rightarrow> bool" where
  "settled forced m \<longleftrightarrow> (forced \<longrightarrow> m_pendingPacNotificationUrl m = None)"

lemma read_usable_mgr:
  assumes "\<And>n. keeps (mgr P) anything (sink n)"
  shows "keeps (mgr P) anything (readUsableProxySnapshot env d sink)"
  unfolding readUsableProxySnapshot_def readPersistedProxySnapshot_def
  by (intro keeps_bind keeps_option keeps_if keeps_return throw_mgr same_manager)
    (auto split: sum.splits intro!: keeps_return keeps_seq same_manager assms)

lemma stop_mgr:
  assumes "\<And>m. P m \<Longrightarrow> P (m\<lparr>m_pacServer := None, m_retainedPacServers := [], m_currentPacFallbackServers := []\<rparr>)"
    and "\<And>m. P m \<Longrightarrow> P (m\<lparr>m_pacContent := [], m_publishedPacContent := [], m_pacVersions := [],
          m_registeredPacUrl := None, m_pendingPacNotificationUrl := None\<rparr>)"
  shows "keeps (mgr P) anything stopPacServer"
  unfolding stopPacServer_def the_manager_def Let_def
  by (intro keeps_bind keeps_get keeps_seq closeServers_mgr upd_manager_mgr assms)

lemma restore_entries_mgr: "keeps (mgr P) anything (restore_entries env entries)"
proof -
  have "keeps (mgr P) anything (restoreValue env entry)" for entry
    unfolding restoreValue_def by (auto split: prod.splits option.splits value_kind.splits intro!: commands_mgr)
  then show ?thesis unfolding restore_entries_def by (induction entries) (auto intro!: keeps_return keeps_seq)
qed

lemma restore_settled: "keeps (mgr (settled forced)) anything (restoreInternal env)"
proof -
  have "keeps (mgr (settled forced)) anything (notice_sink n)" for n
    unfolding notice_sink_def by (rule holds_modify) (simp add: settled_def)
  then show ?thesis
    unfolding restoreInternal_def restore_snapshot_def the_manager_def Let_def
    by (intro keeps_if keeps_bind keeps_get keeps_option keeps_seq keeps_return restore_entries_mgr commands_mgr
        same_manager stop_mgr read_usable_mgr upd_manager_mgr) (simp_all add: settled_def)
qed

lemma before_pac_settled:
  "keeps (mgr (settled forced)) anything (restorePersistedSnapshot env)" "keeps (mgr (settled forced)) anything (take_snapshot env r)"
  unfolding restorePersistedSnapshot_def take_snapshot_def the_manager_def keep_notice_def readProxySnapshot_def
    persistProxySnapshot_def regQueryValue_def Let_def
  by (intro keeps_if keeps_bind keeps_get keeps_return keeps_when keeps_seq restore_settled read_usable_mgr
      upd_manager_mgr same_manager commands_mgr; simp add: settled_def)+

lemma retry_settled:
  "holds (mgr (settled forced)) (if forced then retryPendingPacNotification env else op_return False)
     (\<lambda>retried s. mgr (\<lambda>_. True) s \<and> \<not> retried) anything"
  by (auto simp: holds_def retryPendingPacNotification_def the_manager_def op_bind_def op_get_def op_return_def settled_def
      split: option.splits)

definition answers :: "proxy_env \<Rightarrow> jsstring \<Rightarrow> manager \<Rightarrow> bool" where
  "answers env pac m \<longleftrightarrow>
     (case (m_pacServer m, m_registeredPacUrl m) of
        (Some server, Some url) \<Rightarrow>
          starts_with (base_url env server) url \<and> serve_pac m server pac_path (url_version url) = Served pac
      | _ \<Rightarrow> False)"

lemma answers_cong:
  assumes "m_pacServer n = m_pacServer m" "m_registeredPacUrl n = m_registeredPacUrl m" "m_pacVersions n = m_pacVersions m"
    and "m_currentPacFallbackServers n = m_currentPacFallbackServers m" "m_pacContent n = m_pacContent m"
    and "m_publishedPacContent n = m_publishedPacContent m"
  shows "answers env pac n \<longleftrightarrow> answers env pac m"
  unfolding answers_def serve_pac_def assms ..

lemma ready_answers:
  assumes "endpoint_ready env pac forced endpoint m" "pe_sha256 env pac \<noteq> []"
    and "m_registeredPacUrl m = Some (if forced then ep_baseUrl endpoint else versionPacUrl (ep_baseUrl endpoint) (ep_version endpoint))"
    and "ep_server endpoint \<notin> set (m_currentPacFallbackServers m)"
  shows "answers env pac m"
proof (cases forced)
  case True
  then show ?thesis
    using assms starts_with_append [of "base_url env (ep_server endpoint)" "[]"]
    by (simp add: answers_def endpoint_ready_def serve_pac_def url_version_base del: starts_with_append)
next
  case False
  obtain c v where version: "pacVersion env pac = c # v" using assms(2) by (cases "pe_sha256 env pac") (auto simp: pacVersion_def)
  show ?thesis
    using False assms version
    by (simp add: answers_def endpoint_ready_def serve_pac_def url_version_versioned jm_or_def) (simp add: versionPacUrl_def)
qed

lemma apply_pac_answers:
  assumes "pe_sha256 env (request_pac env r) \<noteq> []"
  shows "holds (mgr (settled (ar_forcePacEndpointRotation r))) (apply_pac env r) (\<lambda>_. mgr (answers env (request_pac env r))) anything"
proof -
  define pac where "pac = request_pac env r"
  define forced where "forced = ar_forcePacEndpointRotation r"
  define url where "url = (\<lambda>endpoint :: pac_endpoint. if forced then ep_baseUrl endpoint else versionPacUrl (ep_baseUrl endpoint) (ep_version endpoint))"
  let ?ready = "\<lambda>endpoint. endpoint_ready env pac forced endpoint"
  let ?done = "\<lambda>endpoint m. ?ready endpoint m \<and> m_registeredPacUrl m = Some (url endpoint)"
  have finish: "holds (mgr (?ready endpoint))
      (op_seq (op_rethrow (register_pac env forced changed (url endpoint)) handler)
        (op_seq (upd_manager (\<lambda>m. m\<lparr>m_pendingPacNotificationUrl := None, m_publishedPacContent := pac\<rparr>))
        (op_seq (finishPacEndpointRotation endpoint (url endpoint) True) (op_return result))))
      (\<lambda>_. mgr (answers env pac)) anything" for endpoint changed handler and result :: apply_result
  proof (intro holds_seq [OF holds_rethrow [OF register_pac_mgr]] holds_seq [OF upd_manager_mgr] holds_seq [OF rotation_mgr] keeps_return)
    show "answers env pac (m\<lparr>m_retainedPacServers := retained, m_currentPacFallbackServers := fallback\<rparr>)"
      if "?done endpoint m" "ep_server endpoint \<notin> set fallback" for m retained fallback
      by (rule ready_answers [of env pac forced endpoint])
        (use that assms in \<open>simp_all add: endpoint_ready_def pac_def url_def\<close>)
  qed (auto simp: endpoint_ready_def holds_def op_return_def split: prod.splits sum.splits)
  show ?thesis
    unfolding apply_pac_def Let_def pac_def [symmetric] forced_def [symmetric] the_manager_def
    by (rule holds_bind [OF keeps_get], rule holds_seq [OF keeps_when], intro keeps_seq commands_mgr same_manager,
        rule holds_bind [OF retry_settled], rule holds_fact, simp only: simp_thms,
        rule holds_bind [OF startPacServer_ready finish [unfolded url_def]])
qed

lemma dirty_after_holds:
  assumes "holds P m Q anything" "\<And>x s. Q x s \<Longrightarrow> Q x (s\<lparr>st_manager := (st_manager s)\<lparr>m_proxyStateDirty := False\<rparr>\<rparr>)"
  shows "holds P (dirty_after m) Q anything"
  unfolding dirty_after_def
proof (rule holds_bind)
  show "holds P (op_rethrow m (upd_manager (\<lambda>m. m\<lparr>m_proxyStateDirty := True\<rparr>))) Q anything"
    by (rule holds_rethrow [OF assms(1)]) (simp add: holds_def split: prod.splits sum.splits)
  show "holds (Q x) (op_seq (upd_manager (\<lambda>m. m\<lparr>m_proxyStateDirty := False\<rparr>)) (op_return x)) Q anything" for x
    using assms(2) by (simp add: holds_def op_seq_def op_bind_def upd_manager_def op_modify_def op_return_def)
qed

definition answered :: "proxy_env \<Rightarrow> jsstring \<Rightarrow> apply_result \<Rightarrow> proxy_state \<Rightarrow> bool" where
  "answered env pac x s \<longleftrightarrow> (as_applied x \<longrightarrow> answers env pac (st_manager s))"

lemma answered_same:
  assumes "answered env pac x s"
  shows "answered env pac x (s\<lparr>st_manager := (st_manager s)\<lparr>m_proxyStateDirty := a\<rparr>\<rparr>)"
    and "answered env pac (x\<lparr>as_notices := n\<rparr>) (s\<lparr>st_manager := (st_manager s)\<lparr>m_proxyStateDirty := a, m_journalNotices := b\<rparr>\<rparr>)"
proof -
  have "answers env pac (m\<lparr>m_proxyStateDirty := a, m_journalNotices := b\<rparr>)" "answers env pac (m\<lparr>m_proxyStateDirty := a\<rparr>)"
    if "answers env pac m" for m a b
    by (rule answers_cong [THEN iffD2, OF _ _ _ _ _ _ that]; simp)+
  then show "answered env pac x (s\<lparr>st_manager := (st_manager s)\<lparr>m_proxyStateDirty := a\<rparr>\<rparr>)"
    "answered env pac (x\<lparr>as_notices := n\<rparr>) (s\<lparr>st_manager := (st_manager s)\<lparr>m_proxyStateDirty := a, m_journalNotices := b\<rparr>\<rparr>)"
    using assms by (simp_all add: answered_def)
qed

lemma apply_proxy_answered:
  assumes "holds P (applyInternal env r) (answered env pac) anything"
  shows "holds P (apply_proxy env r) (answered env pac) anything"
proof -
  have "holds (answered env pac x) (op_seq (upd_manager (\<lambda>m. m\<lparr>m_proxyStateDirty := False, m_journalNotices := []\<rparr>))
      (op_return (x\<lparr>as_notices := n\<rparr>))) (answered env pac) anything" for x n
    using answered_same(2) by (simp add: holds_def op_seq_def op_bind_def upd_manager_def op_modify_def op_return_def)
  then have "holds P (op_bind (applyInternal env r) (\<lambda>result. op_bind (op_get st_manager) (\<lambda>m.
      op_seq (upd_manager (\<lambda>m. m\<lparr>m_proxyStateDirty := False, m_journalNotices := []\<rparr>))
        (op_return (result\<lparr>as_notices := m_journalNotices m\<rparr>))))) (answered env pac) anything"
    by (intro holds_bind [OF assms] holds_bind [OF keeps_get])
  then show ?thesis
    unfolding apply_proxy_def the_manager_def by (rule dirty_after_holds) (rule answered_same(1))
qed

text \<open>C36: After an apply that reports success on the PAC path, the active listener answers the URL that was
  registered with the PAC of that very request (unless the endpoint is rotated while an earlier publication is
  unresolved).
\<close>

theorem applied_pac_answered:
  assumes "apply_proxy env r s = (Inr result, t)" "as_applied result"
    and "\<not> (ar_mode r = ProxyAll \<and> normalizeProxyDomains (ar_directDomains r) = [])"
    and "pe_sha256 env (request_pac env r) \<noteq> []"
    and "ar_forcePacEndpointRotation r \<longrightarrow> m_pendingPacNotificationUrl (st_manager s) = None"
  shows "answers env (request_pac env r) (st_manager t)"
proof -
  let ?A = "answers env (request_pac env r)" and ?S = "settled (ar_forcePacEndpointRotation r)"
  have "holds (mgr ?S) (applyInternal env r) (\<lambda>x s. as_applied x \<longrightarrow> mgr ?A s) anything"
  proof (cases "pe_win32 env \<and> assertLocalProxyEndpoint (ar_socksHost r) (ar_socksPort r) = Inr ()")
    case True
    have "holds (mgr ?S) (op_seq (restorePersistedSnapshot env) (op_seq (take_snapshot env r) (apply_pac env r)))
        (\<lambda>_. mgr ?A) anything"
      by (intro holds_seq [OF before_pac_settled(1)] holds_seq [OF before_pac_settled(2)] apply_pac_answers assms(4))
    then have "holds (mgr ?S) (applyInternal env r) (\<lambda>_. mgr ?A) anything"
      unfolding applyInternal_def if_not_P [OF assms(3)] using True by simp
    then show ?thesis by (rule holds_conseq) auto
  next
    case False
    then show ?thesis by (auto simp: applyInternal_def intro!: holds_return holds_throw split: sum.splits)
  qed
  then have "holds (mgr ?S) (apply_proxy env r) (answered env (request_pac env r)) anything"
    by (intro apply_proxy_answered) (simp add: answered_def [abs_def])
  then show ?thesis using assms(1,2,5) unfolding holds_def by (auto simp: settled_def answered_def dest!: spec [of _ s])
qed

definition example_pac_request :: apply_request where
  "example_pac_request = example_request\<lparr>ar_mode := SelectedRules\<rparr>"

lemma example_pac_taken: "take_snapshot example_env example_pac_request example_start = (Inr (), example_journalled)"
proof -
  have same: "ar_socksHost example_pac_request = ar_socksHost example_request" "ar_socksPort example_pac_request = ar_socksPort example_request"
    by (simp_all add: example_pac_request_def)
  show ?thesis using example_taken unfolding take_snapshot_def same .
qed

text \<open>An apply does not fail when nothing goes wrong.\<close>

lemma sure_rethrow: "sure m \<Longrightarrow> sure (op_rethrow m h)"
  by (rule sureI) (auto simp: op_rethrow_def elim!: sureE)

lemma sure_if: "sure m \<Longrightarrow> sure k \<Longrightarrow> sure (if b then m else k)"
  by simp

lemma sure_option: "sure m \<Longrightarrow> (\<And>x. sure (f x)) \<Longrightarrow> sure (case v of None \<Rightarrow> m | Some x \<Rightarrow> f x)"
  by (cases v) simp_all

lemma sure_commands:
  "sure (regDeleteValue env name)" "sure (regAddString env name v expand)" "sure (regAddDword env name (js ''0''))"
  "sure (refreshWindowsProxy env)" "sure (attempt env e)" "sure the_manager" "sure (listens server)" "sure (closeServers servers)"
  by (auto simp: regDeleteValue_def regAddString_def regAddDword_def example_zero refreshWindowsProxy_def attempt_def
      the_manager_def listens_def closeServers_def string_data_def simp del: js_simps
      intro!: sure_bind sure_query sure_when sure_set_value sure_inspect sure_get sure_modify)

lemma sure_open_listener: "sure (open_listener env content)"
  by (rule sureI) (simp add: open_listener_def undisturbed_outcome, simp add: undisturbed_def)

lemma sure_publish: "sure (publishRetainedPacServers server)"
  unfolding publishRetainedPacServers_def Let_def by (intro sure_bind sure_seq sure_commands sure_upd_manager)

lemma sure_rotation: "sure (finishPacEndpointRotation endpoint url succeeded)"
  unfolding finishPacEndpointRotation_def
  by (intro sure_if sure_option sure_seq sure_when sure_return sure_bind sure_commands sure_upd_manager sure_publish)

lemma sure_retry: "sure (retryPendingPacNotification env)"
  unfolding retryPendingPacNotification_def prod.case
  by (intro sure_bind sure_option sure_if sure_seq sure_return sure_commands sure_upd_manager sure_publish)

lemma sure_start: "sure (startPacServer env pac forced)"
  unfolding startPacServer_def open_endpoint_def Let_def
  by (intro sure_bind sure_option sure_if sure_seq sure_return sure_commands sure_upd_manager sure_rethrow sure_open_listener
      sure_stopPacServer)

lemma sure_register: "sure (register_pac env forced changed url)"
  unfolding register_pac_def Let_def
  by (intro sure_bind sure_if sure_seq sure_when sure_commands sure_upd_manager)

lemma sure_apply_pac: "sure (apply_pac env r)"
  unfolding apply_pac_def Let_def
  by (intro sure_bind sure_if sure_seq sure_when sure_return sure_commands sure_upd_manager sure_rethrow sure_start
      sure_register sure_rotation sure_retry sure_effect) (simp add: set_pacFile_def)

lemma apply_pac_applied: "holds anything (apply_pac env r) (\<lambda>x _. as_applied x) anything"
proof -
  have ignored: "holds anything m (\<lambda>_. anything) anything" for m :: "'b proxy_op"
    by (simp add: holds_def split: prod.splits sum.splits)
  show ?thesis
    unfolding apply_pac_def Let_def
    by (intro holds_bind [OF ignored] holds_seq [OF ignored] holds_return) simp
qed

lemma example_pac_applied: "\<exists>result t. apply_pac example_env example_pac_request example_journalled = (Inr result, t) \<and> as_applied result"
proof -
  have "undisturbed example_journalled"
    by (auto simp: undisturbed_def supported_def example_journalled_def example_start_def example_world_def process_def
        set_journal_def example_registry_def Let_def)
  then obtain result t where "apply_pac example_env example_pac_request example_journalled = (Inr result, t)"
    by (rule sureE [OF sure_apply_pac])
  then show ?thesis using apply_pac_applied [of example_env example_pac_request] by (auto simp: holds_def dest!: spec [of _ example_journalled])
qed

theorem applied_pac_answered_witness:
  "\<exists>result t. apply_proxy example_env example_pac_request example_start = (Inr result, t) \<and> as_applied result \<and>
     answers example_env (request_pac example_env example_pac_request) (st_manager t)"
proof -
  obtain result t where t: "apply_pac example_env example_pac_request example_journalled = (Inr result, t)" "as_applied result"
    using example_pac_applied by blast
  have "applyInternal example_env example_pac_request example_start = apply_pac example_env example_pac_request example_journalled"
    using example_no_journal example_pac_taken example_endpoint
    by (simp add: applyInternal_def op_seq_def op_bind_def example_pac_request_def example_request_def example_env_def del: js_simps)
  then have run: "apply_proxy example_env example_pac_request example_start = (Inr (result\<lparr>as_notices := m_journalNotices (st_manager t)\<rparr>),
      t\<lparr>st_manager := (st_manager t)\<lparr>m_proxyStateDirty := False, m_journalNotices := []\<rparr>\<rparr>)"
    using t(1) by (simp add: apply_proxy_def dirty_after_def step_defs)
  have "answers example_env (request_pac example_env example_pac_request)
      (st_manager (t\<lparr>st_manager := (st_manager t)\<lparr>m_proxyStateDirty := False, m_journalNotices := []\<rparr>\<rparr>))"
    by (rule applied_pac_answered [OF run])
      (use t(2) in \<open>simp_all add: example_pac_request_def example_request_def example_env_def\<close>)
  then show ?thesis using run t(2) by simp
qed

text \<open>
  Without that condition it can fail.  A forced apply whose broadcast failed leaves its URL pending, and an
  apply of another PAC on the same listener that failed before it wrote anything leaves the new content as the
  current one.  A forced apply of that content then takes the pending endpoint over, whose listener holds on
  to the PAC it was opened for.
\<close>

lemma stale_pac_answered:
  assumes "pe_win32 env" "assertLocalProxyEndpoint (ar_socksHost r) (ar_socksPort r) = Inr ()"
    and "ar_mode r = SelectedRules" "ar_forcePacEndpointRotation r"
    and "st_plan s = []" "m_snapshot (st_manager s) \<noteq> None" "w_registry (st_world s) ProxyServer = None"
    and "m_pacServer (st_manager s) = Some server" "server_number server \<in> set (st_listening s)"
    and "m_pendingPacNotificationUrl (st_manager s) = Some (base_url env server)"
    and "m_registryPacUrl (st_manager s) = Some (base_url env server)"
    and "m_retainedPacServers (st_manager s) = []" "m_currentPacFallbackServers (st_manager s) = []"
    and "m_pacContent (st_manager s) = request_pac env r" "server_pac server = Some old" "old \<noteq> request_pac env r"
  shows "\<exists>result t. apply_proxy env r s = (Inr result, t) \<and> as_applied result \<and>
     m_registeredPacUrl (st_manager t) = Some (base_url env server) \<and>
     serve_pac (st_manager t) server pac_path (url_version (base_url env server)) = Served old"
proof -
  let ?m = "st_manager s" and ?url = "base_url env server" and ?pac = "request_pac env r"
  have zero: "dword_data (js ''0'') = Some (RegDword 0)" by (rule example_zero)
  have some: "?url \<noteq> []" by (simp add: base_url_def)
  define m1 where "m1 = ?m\<lparr>m_registryPacUrl := Some ?url, m_registeredStaticProxy := None, m_registeredPacUrl := Some ?url,
     m_pendingPacNotificationUrl := None, m_proxyStateDirty := False, m_publishedPacContent := ?pac,
     m_retainedPacServers := [], m_currentPacFallbackServers := []\<rparr>"
  have "\<exists>s1. retryPendingPacNotification env s = (Inr True, s1) \<and> st_plan s1 = [] \<and> st_listening s1 = st_listening s \<and> st_manager s1 = m1"
    using assms zero some
    by (simp add: retryPendingPacNotification_def listens_def step_defs refreshWindowsProxy_def publishRetainedPacServers_def
        closeServers_def m1_def del: js_simps)
  then obtain s1 where s1: "retryPendingPacNotification env s = (Inr True, s1)" "st_plan s1 = []" "st_listening s1 = st_listening s"
    "st_manager s1 = m1" by blast
  define m2 where "m2 = rememberPacVersion (pacVersion env ?pac) ?pac (m1\<lparr>m_pacContent := ?pac\<rparr>)"
  define ep where "ep = \<lparr>ep_baseUrl = ?url, ep_version = pacVersion env ?pac, ep_server = server, ep_previousServer = None, ep_previousPacContent = None\<rparr>"
  have m1: "m_pacServer m1 = Some server" "m_proxyStateDirty m1 = False" "m_registeredPacUrl m1 = Some ?url"
    using assms by (simp_all add: m1_def)
  have s2: "startPacServer env ?pac False s1 = (Inr ep, s1\<lparr>st_manager := m2\<rparr>)"
    using s1 m1 assms(9) by (simp add: startPacServer_def listens_def step_defs ep_def m2_def)
  have m2: "m_proxyStateDirty m2 = False" "m_registeredPacUrl m2 = Some ?url" "m_retainedPacServers m2 = []"
    "m_currentPacFallbackServers m2 = []" "m_pacServer m2 = Some server"
    using m1 by (simp_all add: m2_def rememberPacVersion_def Let_def m1_def assms)
  have "\<exists>result t. apply_pac env r s = (Inr result, t) \<and> as_applied result \<and>
     m_registeredPacUrl (st_manager t) = Some ?url \<and> m_currentPacFallbackServers (st_manager t) = []"
    using assms(4,14) s1 s2 m2
    by (simp add: apply_pac_def register_pac_def finishPacEndpointRotation_def publishRetainedPacServers_def closeServers_def
        step_defs ep_def del: js_simps)
  then obtain result t where t: "apply_pac env r s = (Inr result, t)" "as_applied result"
     "m_registeredPacUrl (st_manager t) = Some ?url" "m_currentPacFallbackServers (st_manager t) = []" by blast
  have "applyInternal env r s = apply_pac env r s"
    using assms(1-3,6) by (auto simp: applyInternal_def restorePersistedSnapshot_def take_snapshot_def op_seq_def op_bind_def
        the_manager_def op_get_def op_return_def)
  then have "apply_proxy env r s = (Inr (result\<lparr>as_notices := m_journalNotices (st_manager t)\<rparr>),
      t\<lparr>st_manager := (st_manager t)\<lparr>m_proxyStateDirty := False, m_journalNotices := []\<rparr>\<rparr>)"
    using t(1) by (simp add: apply_proxy_def dirty_after_def step_defs)
  then show ?thesis
    using t assms(15) by (simp add: serve_pac_def url_version_base)
qed

end
