(* ===== verification/JsDouble.thy ===== *)
theory JsDouble
  imports JsString Complex_Main "HOL-Library.Log_Nat"
begin

text \<open>
  JavaScript's numbers where rounding can be seen: a non-negative finite number is the rational it stands
  for, and an operation gives the nearest double of the exact result, ties to the even significand
  (IEEE 754 binary64).  The exponents that occur here are far from the limits of the format, so overflow
  and subnormal numbers do not arise.
\<close>

section \<open>Rounding to a double\<close>

definition half_even :: "rat \<Rightarrow> int" where
  "half_even r =
     (let n = \<lfloor>r\<rfloor>; d = r - of_int n
      in if d < 1 / 2 then n else if 1 / 2 < d then n + 1 else if even n then n else n + 1)"

definition pow2 :: "int \<Rightarrow> rat" where
  "pow2 e = (if 0 \<le> e then 2 ^ nat e else 1 / 2 ^ nat (- e))"

text \<open>The exponent \<open>e\<close> with \<open>2^e \<le> r < 2^(e+1)\<close>.\<close>

definition binade :: "rat \<Rightarrow> int" where
  "binade r =
     (let (p, q) = quotient_of r; e = int (floorlog 2 (nat p)) - int (floorlog 2 (nat q))
      in if pow2 e \<le> r then e else e - 1)"

definition double_of :: "rat \<Rightarrow> rat" where
  "double_of r =
     (if r = 0 then 0
      else let u = pow2 (binade r - 52) in of_int (half_even (r / u)) * u)"

text \<open>\<open>Number\<close> of a text of digits with at most one point, multiplication, and \<open>Math.round\<close>.\<close>

definition decimal_value :: "jsstring \<Rightarrow> rat" where
  "decimal_value s =
     (let ip = takeWhile is_digit s; fp = drop (Suc (length ip)) s
      in of_nat (radix_value 10 (ip @ fp)) / 10 ^ length fp)"

definition double_number :: "jsstring \<Rightarrow> rat" where
  "double_number s = double_of (decimal_value s)"

definition double_times :: "rat \<Rightarrow> rat \<Rightarrow> rat" where
  "double_times a b = double_of (a * b)"

definition js_round :: "rat \<Rightarrow> int" where
  "js_round r = \<lfloor>r + 1 / 2\<rfloor>"

section \<open>Printing\<close>

text \<open>
  \<open>String\<close> of a double that is a positive integer: the fewest digits that read back as the number, and of
  those the closest; up to 21 digits in full, with an exponent beyond.
\<close>

definition digits_for :: "nat \<Rightarrow> nat \<Rightarrow> nat \<Rightarrow> nat option" where
  "digits_for v n k =
     (let unit = 10 ^ (n - k); low = v div unit; reads = (\<lambda>s. double_of (of_nat (s * unit)) = of_nat v)
      in if reads low \<and> \<not> (reads (low + 1) \<and> unit < 2 * (v mod unit)) then Some (low * unit)
         else if reads (low + 1) then Some ((low + 1) * unit) else None)"

fun shortest :: "nat \<Rightarrow> nat \<Rightarrow> nat list \<Rightarrow> nat" where
  "shortest v n [] = v"
| "shortest v n (k # ks) = (case digits_for v n k of Some w \<Rightarrow> w | None \<Rightarrow> shortest v n ks)"

definition double_text :: "nat \<Rightarrow> jsstring" where
  "double_text v =
     (if v < 2 ^ 53 then radix_string 10 v
      else let n = length (radix_string 10 v); t = radix_string 10 (shortest v n [1..<n]);
               ds = rev (dropWhile (\<lambda>u. u = 48) (rev t))
           in if length t \<le> 21 then t
              else take 1 ds @ (if length ds \<le> 1 then [] else 46 # drop 1 ds) @ js ''e+'' @ radix_string 10 (length t - 1))"

section \<open>Integers below \<open>2 ^ 53\<close> are exact\<close>

lemma half_even_int [simp]: "half_even (of_int n) = n"
  by (simp add: half_even_def)

lemma pow2_pos [simp]: "0 < pow2 e"
  by (simp add: pow2_def)

lemma pow2_neg: "0 \<le> k \<Longrightarrow> x / pow2 (- k) = x * 2 ^ nat k"
  by (cases "k = 0") (simp_all add: pow2_def)

lemma floorlog2_bounds: "0 < n \<Longrightarrow> 2 ^ (floorlog 2 n - 1) \<le> n \<and> n < 2 ^ floorlog 2 n"
  using floorlog_bounds [of n 2] by simp

lemma binade_nat:
  assumes "0 < n" "n < 2 ^ 53"
  shows "binade (of_nat n) \<le> 52"
proof -
  have q: "quotient_of (of_nat n) = (int n, 1)"
    using quotient_of_int [of "int n"] by simp
  have "2 ^ (floorlog 2 n - 1) \<le> n" using floorlog2_bounds [OF assms(1)] by simp
  then have "(2 :: nat) ^ (floorlog 2 n - 1) < 2 ^ 53" using assms(2) by linarith
  then have "floorlog 2 n - 1 < 53" by (rule power_less_imp_less_exp [rotated]) simp
  moreover have "floorlog 2 (Suc 0) = 1" by (simp add: floorlog_def)
  ultimately have "floorlog 2 n \<le> 53" "floorlog 2 (Suc 0) = 1" by linarith+
  then show ?thesis by (simp add: binade_def q Let_def)
qed

lemma double_of_nat: "n < 2 ^ 53 \<Longrightarrow> double_of (of_nat n) = of_nat n"
proof (cases "n = 0")
  case False
  assume n: "n < 2 ^ 53"
  define k where "k = 52 - binade (of_nat n)"
  have k: "0 \<le> k" using binade_nat [of n] n False by (simp add: k_def)
  have u: "pow2 (binade (of_nat n) - 52) = pow2 (- k)" by (simp add: k_def)
  have "(of_nat n :: rat) * 2 ^ nat k = of_int (int n * 2 ^ nat k)" by simp
  then have h: "half_even (of_nat n / pow2 (- k)) = int n * 2 ^ nat k"
    unfolding pow2_neg [OF k] by (simp only: half_even_int)
  have "of_int (int n * 2 ^ nat k) * pow2 (- k) = (of_nat n :: rat)"
    using k by (cases "k = 0") (simp_all add: pow2_def)
  then show ?thesis using False by (simp add: double_of_def u h Let_def)
qed (simp add: double_of_def)

lemma js_round_nat [simp]: "js_round (of_nat n) = int n"
proof -
  have "\<lfloor>(of_int (int n) :: rat) + 1 / 2\<rfloor> = int n" by (rule floor_unique) simp_all
  then show ?thesis by (simp add: js_round_def)
qed

lemma decimal_value_digits: "all_digits s \<Longrightarrow> decimal_value s = of_nat (radix_value 10 s)"
  by (simp add: decimal_value_def all_digits_def takeWhile_all Let_def)

lemma double_text_small: "v < 2 ^ 53 \<Longrightarrow> double_text v = radix_string 10 v"
  by (simp add: double_text_def)

end
