(* ===== verification/HopPorts.thy ===== *)
theory HopPorts
  imports IpPrinting JsDouble
begin

text \<open>
  Port lists, hop intervals and rates of Hysteria 2 links (\<open>src/core/proxy/hysteria2-link.ts\<close>).  A hop list
  tells the proxy program which ports to use and the TUN helper which to keep off the adapter, so both
  must read the same ports out of it.
\<close>

section \<open>Errors and limits\<close>

datatype link_error =
    InvalidLink
  | NoServerHost
  | InvalidPortList
  | ObfsPasswordMissing
  | UnsupportedObfuscation jsstring
  | InvalidPin
  | InvalidFinalMask
  | UnsupportedMask jsstring
  | InvalidEch

definition HYSTERIA2_DEFAULT_PORT :: nat where "HYSTERIA2_DEFAULT_PORT = 443"
definition HYSTERIA2_DEFAULT_HOP_INTERVAL :: nat where "HYSTERIA2_DEFAULT_HOP_INTERVAL = 30"
definition MIN_HOP_INTERVAL :: nat where "MIN_HOP_INTERVAL = 5"
definition MAX_HOP_RANGES :: nat where "MAX_HOP_RANGES = 64"
definition MAX_SCALAR_LENGTH :: nat where "MAX_SCALAR_LENGTH = 128"
definition MIN_BRUTAL_BITS_PER_SECOND :: int where "MIN_BRUTAL_BITS_PER_SECOND = 65536 * 8"

text \<open>Trimmed text, or the empty text when it is too long to be a real value.\<close>

definition boundedTrim :: "jsstring option \<Rightarrow> jsstring" where
  "boundedTrim v = (case v of None \<Rightarrow> [] | Some t \<Rightarrow> if MAX_SCALAR_LENGTH < length t then [] else js_trim t)"

section \<open>Port lists\<close>

record port_range =
  range_from :: nat
  range_to :: nat

text \<open>The pattern \<open>^\d{1,n}$\<close>, and \<open>^(\d{1,5})(?:\s*-\s*(\d{1,5}))?$\<close> with what its groups match.\<close>

definition digits_upto :: "nat \<Rightarrow> jsstring \<Rightarrow> bool" where
  "digits_upto n s \<longleftrightarrow> all_digits s \<and> length s \<le> n"

definition port_item :: "jsstring \<Rightarrow> (jsstring \<times> jsstring option) option" where
  "port_item s =
     (let first = takeWhile is_digit s; rest = drop (length first) s
      in if \<not> digits_upto 5 first then None
         else if rest = [] then Some (first, None)
         else case dropWhile js_ws rest of
                [] \<Rightarrow> None
              | u # after \<Rightarrow> let last = dropWhile js_ws after
                             in if u = 45 \<and> digits_upto 5 last then Some (first, Some last) else None)"

definition readPortItem :: "jsstring \<Rightarrow> link_error + port_range" where
  "readPortItem item =
     (case port_item (js_trim item) of
        None \<Rightarrow> Inl InvalidPortList
      | Some (a, b) \<Rightarrow>
          let first = radix_value 10 a; last = (case b of None \<Rightarrow> first | Some t \<Rightarrow> radix_value 10 t);
              from = min first last; to = max first last
          in if from < 1 \<or> 65535 < to then Inl InvalidPortList else Inr \<lparr>range_from = from, range_to = to\<rparr>)"

fun res_map :: "('a \<Rightarrow> 'e + 'b) \<Rightarrow> 'a list \<Rightarrow> 'e + 'b list" where
  "res_map f [] = Inr []"
| "res_map f (x # xs) = res_bind (f x) (\<lambda>y. res_bind (res_map f xs) (\<lambda>ys. Inr (y # ys)))"

definition readPortList :: "jsstring \<Rightarrow> link_error + port_range list" where
  "readPortList spec =
     (let items = split_on [44] spec
      in if MAX_HOP_RANGES * 4 < length items then Inl InvalidPortList else res_map readPortItem items)"

definition merge_range :: "port_range \<Rightarrow> port_range list \<Rightarrow> port_range list" where
  "merge_range r merged =
     (if merged \<noteq> [] \<and> range_from r \<le> range_to (last merged) + 1
      then butlast merged @ [(last merged)\<lparr>range_to := max (range_to (last merged)) (range_to r)\<rparr>]
      else merged @ [r])"

definition mergePortRanges :: "port_range list \<Rightarrow> link_error + port_range list" where
  "mergePortRanges ranges =
     (let merged = fold merge_range (sort_key range_from ranges) []
      in if MAX_HOP_RANGES < length merged then Inl InvalidPortList else Inr merged)"

definition range_text :: "port_range \<Rightarrow> jsstring" where
  "range_text r =
     (if range_from r = range_to r then radix_string 10 (range_from r)
      else radix_string 10 (range_from r) @ [45] @ radix_string 10 (range_to r))"

definition formatPortList :: "port_range list \<Rightarrow> jsstring" where
  "formatPortList ranges = js_join [44] (map range_text ranges)"

text \<open>Only for merged ranges, of which there is always one.\<close>

definition coversSeveralPorts :: "port_range list \<Rightarrow> bool" where
  "coversSeveralPorts ranges \<longleftrightarrow> 1 < length ranges \<or> range_from (hd ranges) \<noteq> range_to (hd ranges)"

text \<open>\<open>replace(/(\d)\s*:\s*(\d)/gu, "$1-$2")\<close>: the digit after the colon is used up by the match.\<close>

function colons_to_dashes :: "jsstring \<Rightarrow> jsstring" where
  "colons_to_dashes [] = []"
| "colons_to_dashes (u # s) =
     (let after = dropWhile js_ws s
      in if is_digit u \<and> after \<noteq> [] \<and> hd after = 58
         then (let rest = dropWhile js_ws (tl after)
               in if rest \<noteq> [] \<and> is_digit (hd rest) then u # 45 # hd rest # colons_to_dashes (tl rest)
                  else u # colons_to_dashes s)
         else u # colons_to_dashes s)"
  by pat_completeness auto
termination
proof (relation "measure length")
  fix u s after rest
  assume after: "after = dropWhile js_ws s" and rest: "rest = dropWhile js_ws (tl after)"
  have "length rest \<le> length after - 1" using rest by (metis length_dropWhile_le length_tl)
  moreover have "length after \<le> length s" using after by (simp add: length_dropWhile_le)
  ultimately show "(tl rest, u # s) \<in> measure length" by simp
qed auto

section \<open>Hop intervals\<close>

datatype hop_interval = Seconds nat | SecondsRange nat nat

definition compact_text :: "jsstring option \<Rightarrow> jsstring" where
  "compact_text raw = filter (\<lambda>u. \<not> js_ws u) (boundedTrim raw)"

text \<open>\<open>s\<close> or \<open>S\<close>, and in a Unicode case-insensitive pattern also the long \<open>s\<close>.\<close>

definition is_s :: "nat \<Rightarrow> bool" where
  "is_s u \<longleftrightarrow> u = 115 \<or> u = 83 \<or> u = 0x17F"

definition seconds_of :: "jsstring option \<Rightarrow> nat option" where
  "seconds_of raw =
     (let t = compact_text raw; body = (if t \<noteq> [] \<and> is_s (last t) then butlast t else t)
      in if digits_upto 6 body then Some (max MIN_HOP_INTERVAL (radix_value 10 body)) else None)"

text \<open>The pattern \<open>^(\d{1,6})s?-(\d{1,6})s?$\<close>.\<close>

definition interval_range :: "jsstring \<Rightarrow> (jsstring \<times> jsstring) option" where
  "interval_range s =
     (let first = takeWhile is_digit s; rest = drop (length first) s;
          rest1 = (if rest \<noteq> [] \<and> is_s (hd rest) then tl rest else rest);
          tail = tl rest1; last = takeWhile is_digit tail; rest2 = drop (length last) tail
      in if digits_upto 6 first \<and> rest1 \<noteq> [] \<and> hd rest1 = 45 \<and> digits_upto 6 last \<and>
            (rest2 = [] \<or> (is_s (hd rest2) \<and> tl rest2 = []))
         then Some (first, last) else None)"

definition parseHopInterval :: "jsstring option \<Rightarrow> jsstring option \<Rightarrow> hop_interval option" where
  "parseHopInterval v maxValue =
     (let (low, high) = (case interval_range (compact_text v) of
            Some (a, b) \<Rightarrow> (seconds_of (Some a), seconds_of (Some b))
          | None \<Rightarrow> (seconds_of v, seconds_of maxValue))
      in case low of
           None \<Rightarrow> None
         | Some a \<Rightarrow> (case high of
             None \<Rightarrow> Some (Seconds a)
           | Some b \<Rightarrow> if b = a then Some (Seconds a) else Some (SecondsRange (min a b) (max a b))))"

section \<open>Rates\<close>

text \<open>The pattern \<open>^(\d+(?:\.\d+)?)\s*([a-z]*)$\<close>, with the Unicode case rules where \<open>iu\<close> says so.\<close>

definition rate_parts :: "jsstring \<Rightarrow> (jsstring \<times> jsstring) option" where
  "rate_parts s =
     (let ip = takeWhile is_digit s; rest = drop (length ip) s;
          fp = (if rest \<noteq> [] \<and> hd rest = 46 then takeWhile is_digit (tl rest) else []);
          number = (if fp = [] then ip else ip @ [46] @ fp);
          unit = dropWhile js_ws (drop (length number) s)
      in if ip \<noteq> [] \<and> list_all (\<lambda>u. is_alpha u \<or> u = 0x17F \<or> u = 0x212A) unit then Some (number, unit) else None)"

definition DECIMAL_BANDWIDTH_UNITS :: "(jsstring \<times> nat) list" where
  "DECIMAL_BANDWIDTH_UNITS =
     [([], 10 ^ 6), (js ''b'', 1), (js ''bps'', 1), (js ''k'', 10 ^ 3), (js ''kb'', 10 ^ 3), (js ''kbps'', 10 ^ 3),
      (js ''m'', 10 ^ 6), (js ''mb'', 10 ^ 6), (js ''mbps'', 10 ^ 6), (js ''g'', 10 ^ 9), (js ''gb'', 10 ^ 9),
      (js ''gbps'', 10 ^ 9), (js ''t'', 10 ^ 12), (js ''tb'', 10 ^ 12), (js ''tbps'', 10 ^ 12)]"

definition BINARY_BANDWIDTH_UNITS :: "(jsstring \<times> nat) list" where
  "BINARY_BANDWIDTH_UNITS =
     [([], 1), (js ''b'', 1), (js ''bps'', 1), (js ''k'', 2 ^ 10), (js ''kb'', 2 ^ 10), (js ''kbps'', 2 ^ 10),
      (js ''m'', 2 ^ 20), (js ''mb'', 2 ^ 20), (js ''mbps'', 2 ^ 20), (js ''g'', 2 ^ 30), (js ''gb'', 2 ^ 30),
      (js ''gbps'', 2 ^ 30), (js ''t'', 2 ^ 40), (js ''tb'', 2 ^ 40), (js ''tbps'', 2 ^ 40)]"

definition parseHysteriaBandwidth :: "jsstring option \<Rightarrow> jsstring option" where
  "parseHysteriaBandwidth v =
     (case rate_parts (boundedTrim v) of
        None \<Rightarrow> None
      | Some (number, unit) \<Rightarrow> (case map_of DECIMAL_BANDWIDTH_UNITS (js_lower unit) of
          None \<Rightarrow> None
        | Some multiplier \<Rightarrow>
            let bitsPerSecond = js_round (double_times (double_number number) (of_nat multiplier))
            in if MIN_BRUTAL_BITS_PER_SECOND \<le> bitsPerSecond
               then Some (double_text (nat bitsPerSecond) @ js '' bps'') else None))"

definition readXrayBandwidth :: "jsstring \<Rightarrow> jsstring option" where
  "readXrayBandwidth v =
     (case rate_parts (js_lower (boundedTrim (Some v))) of
        None \<Rightarrow> None
      | Some (number, unit) \<Rightarrow> (case map_of BINARY_BANDWIDTH_UNITS unit of
          None \<Rightarrow> None
        | Some multiplier \<Rightarrow>
            if of_int MIN_BRUTAL_BITS_PER_SECOND \<le> double_times (double_number number) (of_nat multiplier)
            then Some (js_trim v) else None))"

section \<open>Merging keeps the ports\<close>

definition range_ports :: "port_range \<Rightarrow> nat set" where
  "range_ports r = {range_from r..range_to r}"

definition ports_of :: "port_range list \<Rightarrow> nat set" where
  "ports_of ranges = (\<Union>r \<in> set ranges. range_ports r)"

definition ordered_range :: "port_range \<Rightarrow> bool" where
  "ordered_range r \<longleftrightarrow> range_from r \<le> range_to r"

text \<open>In order, and at least one port apart.\<close>

definition separated :: "port_range list \<Rightarrow> bool" where
  "separated ranges \<longleftrightarrow> list_all ordered_range ranges \<and> sorted_wrt (\<lambda>a b. range_to a + 1 < range_from b) ranges"

lemma ports_of_simps [simp]:
  "ports_of [] = {}" "ports_of (r # rs) = range_ports r \<union> ports_of rs"
  "ports_of (rs @ ss) = ports_of rs \<union> ports_of ss"
  by (auto simp: ports_of_def)

lemma separated_snoc:
  "separated (m @ [r]) \<longleftrightarrow> separated m \<and> ordered_range r \<and> (\<forall>a \<in> set m. range_to a + 1 < range_from r)"
  by (auto simp: separated_def sorted_wrt_append)

lemma separated_last:
  assumes "separated (m @ [l])" "a \<in> set (m @ [l])"
  shows "range_to a \<le> range_to l"
proof (cases "a = l")
  case False
  then have "range_to a + 1 < range_from l" "range_from l \<le> range_to l"
    using assms by (auto simp: separated_snoc ordered_range_def)
  then show ?thesis by linarith
qed simp

lemma merge_range_ok:
  assumes m: "separated m" and r: "ordered_range r" and after: "m \<noteq> [] \<Longrightarrow> range_from (last m) \<le> range_from r"
  shows "separated (merge_range r m)" (is ?sep)
    and "ports_of (merge_range r m) = ports_of m \<union> range_ports r" (is ?ports)
    and "range_from (last (merge_range r m)) \<le> range_from r" (is ?last)
proof -
  have "?sep \<and> ?ports \<and> ?last"
  proof (cases "m \<noteq> [] \<and> range_from r \<le> range_to (last m) + 1")
    case True
    then obtain b l where b: "m = b @ [l]" by (metis append_butlast_last_id)
    have l: "range_from l \<le> range_from r" "range_from l \<le> range_to l" "range_from r \<le> range_to r"
      using after m r b by (auto simp: separated_snoc ordered_range_def)
    have "range_ports (l\<lparr>range_to := max (range_to l) (range_to r)\<rparr>) = range_ports l \<union> range_ports r"
      using l True b by (auto simp: range_ports_def)
    then show ?thesis using m b l True
      by (auto simp: merge_range_def separated_snoc ordered_range_def)
  next
    case False
    have "range_to a + 1 < range_from r" if "a \<in> set m" for a
    proof -
      have "m \<noteq> []" using that by auto
      then obtain b l where b: "m = b @ [l]" by (metis append_butlast_last_id)
      have "range_to a \<le> range_to l" using separated_last [of b l a] m that b by simp
      then show ?thesis using False b by auto
    qed
    then show ?thesis using m r False by (auto simp: merge_range_def separated_snoc)
  qed
  then show ?sep ?ports ?last by blast+
qed

lemma fold_merge_ok:
  assumes "separated m" "list_all ordered_range xs" "sorted (map range_from xs)"
    and "\<And>x. x \<in> set xs \<Longrightarrow> m \<noteq> [] \<Longrightarrow> range_from (last m) \<le> range_from x"
  shows "separated (fold merge_range xs m) \<and> ports_of (fold merge_range xs m) = ports_of m \<union> ports_of xs"
  using assms
proof (induction xs arbitrary: m)
  case (Cons x xs)
  have o: "ordered_range x" using Cons.prems by simp
  have step: "separated (merge_range x m)" "ports_of (merge_range x m) = ports_of m \<union> range_ports x"
    "range_from (last (merge_range x m)) \<le> range_from x"
    using merge_range_ok [OF Cons.prems(1) o] Cons.prems(4) by auto
  have "range_from (last (merge_range x m)) \<le> range_from y" if "y \<in> set xs" for y
    using step(3) Cons.prems(3) that by fastforce
  then show ?case using Cons.IH [OF step(1)] Cons.prems step(2) by auto
qed simp

lemma fold_merge_separated: "separated (m @ xs) \<Longrightarrow> fold merge_range xs m = m @ xs"
proof (induction xs arbitrary: m)
  case (Cons x xs)
  have "merge_range x m = m @ [x]"
  proof (cases "m = []")
    case False
    then have "range_to (last m) + 1 < range_from x"
      using Cons.prems by (auto simp: separated_def sorted_wrt_append)
    then show ?thesis by (simp add: merge_range_def)
  qed (simp add: merge_range_def)
  then show ?case using Cons by simp
qed simp

lemma separated_sorted: "separated m \<Longrightarrow> sorted (map range_from m)"
proof (induction m)
  case (Cons r m)
  then have "range_from r \<le> range_from s" if "s \<in> set m" for s
    using that by (fastforce simp: separated_def ordered_range_def)
  then show ?case using Cons by (auto simp: separated_def)
qed simp

lemma mergePortRanges_ok:
  assumes "mergePortRanges ranges = Inr merged" "list_all ordered_range ranges"
  shows "separated merged \<and> ports_of merged = ports_of ranges \<and> length merged \<le> MAX_HOP_RANGES"
proof -
  have m: "merged = fold merge_range (sort_key range_from ranges) []" and len: "length merged \<le> MAX_HOP_RANGES"
    using assms(1) by (auto simp: mergePortRanges_def Let_def split: if_splits)
  have "ports_of (sort_key range_from ranges) = ports_of ranges" by (simp add: ports_of_def)
  then show ?thesis
    using fold_merge_ok [of "[]" "sort_key range_from ranges"] assms(2) m len
    by (simp add: separated_def list_all_iff)
qed

lemma mergePortRanges_again:
  "separated merged \<Longrightarrow> length merged \<le> MAX_HOP_RANGES \<Longrightarrow> mergePortRanges merged = Inr merged"
  using fold_merge_separated [of "[]" merged] separated_sorted [of merged]
  by (simp add: mergePortRanges_def sort_key_id_if_sorted)

section \<open>Reading a printed list\<close>

definition valid_range :: "port_range \<Rightarrow> bool" where
  "valid_range r \<longleftrightarrow> 1 \<le> range_from r \<and> range_from r \<le> range_to r \<and> range_to r \<le> 65535"

lemma decimal_port:
  assumes "n \<le> 65535"
  shows "digits_upto 5 (radix_string 10 n)"
  using radix_string_length [of 10 n 5] radix_string_digits [of _ n] assms
  by (auto simp: digits_upto_def all_digits_def list_all_iff)

lemma takeWhile_digits: "list_all is_digit s \<Longrightarrow> takeWhile is_digit (s @ 45 # t) = s"
  by (induction s) (auto simp: is_digit_def)

lemma port_item_range:
  assumes "valid_range r"
  shows "port_item (range_text r) =
    Some (radix_string 10 (range_from r), if range_from r = range_to r then None else Some (radix_string 10 (range_to r)))"
proof -
  have d: "digits_upto 5 (radix_string 10 (range_from r))" "digits_upto 5 (radix_string 10 (range_to r))"
    using assms by (auto simp: valid_range_def intro: decimal_port)
  have l: "list_all is_digit (radix_string 10 n)" for n
    by (auto simp: list_all_iff radix_string_digits)
  have w: "\<not> js_ws 45" "dropWhile js_ws (radix_string 10 n) = radix_string 10 n" for n
    by (simp add: js_ws_def) (rule dropWhile_none, auto simp: radix_string_digits is_digit_not_ws)
  show ?thesis
    using d l by (auto simp: range_text_def port_item_def Let_def takeWhile_all takeWhile_digits w)
qed

lemma range_text_units: "u \<in> set (range_text r) \<Longrightarrow> is_digit u \<or> u = 45"
  by (auto simp: range_text_def radix_string_digits split: if_splits)

lemma range_text_plain: "js_trim (range_text r) = range_text r" "44 \<notin> set (range_text r)"
proof -
  have "\<not> js_ws u" if "u \<in> set (range_text r)" for u
    using range_text_units [OF that] is_digit_not_ws by (auto simp: js_ws_def)
  then show "js_trim (range_text r) = range_text r" by (simp add: js_trim_id)
  show "44 \<notin> set (range_text r)" using range_text_units [of 44 r] by (auto simp: is_digit_def)
qed

lemma readPortItem_text: "valid_range r \<Longrightarrow> readPortItem (range_text r) = Inr r"
  by (auto simp: readPortItem_def range_text_plain port_item_range valid_range_def Let_def)

lemma res_map_all: "(\<And>x. x \<in> set xs \<Longrightarrow> f (g x) = Inr x) \<Longrightarrow> res_map f (map g xs) = Inr xs"
  by (induction xs) auto

lemma res_map_Inr:
  "res_map f xs = Inr ys \<Longrightarrow> length ys = length xs \<and> (\<forall>y \<in> set ys. \<exists>x \<in> set xs. f x = Inr y)"
proof (induction xs arbitrary: ys)
  case (Cons x xs)
  then obtain y zs where "f x = Inr y" "res_map f xs = Inr zs" "ys = y # zs" by auto
  then show ?case using Cons.IH [of zs] by auto
qed simp

lemma readPortList_format:
  assumes "rs \<noteq> []" "length rs \<le> MAX_HOP_RANGES * 4" "list_all valid_range rs"
  shows "readPortList (formatPortList rs) = Inr rs"
proof -
  have "split_on [44] (formatPortList rs) = map range_text rs"
    unfolding formatPortList_def using assms(1) range_text_plain(2) by (intro split_join) auto
  then show ?thesis
    using assms by (simp add: readPortList_def res_map_all readPortItem_text list_all_iff)
qed

lemma readPortItem_valid: "readPortItem item = Inr r \<Longrightarrow> valid_range r"
  by (auto simp: readPortItem_def valid_range_def Let_def split: option.splits if_splits prod.splits)

lemma readPortList_valid:
  assumes "readPortList spec = Inr ranges"
  shows "ranges \<noteq> [] \<and> list_all valid_range ranges"
proof -
  have r: "res_map readPortItem (split_on [44] spec) = Inr ranges"
    using assms by (auto simp: readPortList_def Let_def split: if_splits)
  then show ?thesis using res_map_Inr [OF r] readPortItem_valid by (force simp: list_all_iff)
qed

lemma valid_ports: "list_all valid_range rs \<Longrightarrow> ports_of rs \<subseteq> {1..65535}"
  by (force simp: ports_of_def range_ports_def valid_range_def list_all_iff)

lemma ports_valid:
  assumes "separated rs" "ports_of rs \<subseteq> {1..65535}"
  shows "list_all valid_range rs"
proof -
  have "valid_range r" if r: "r \<in> set rs" for r
  proof -
    have o: "range_from r \<le> range_to r" using assms(1) r by (auto simp: separated_def ordered_range_def list_all_iff)
    then have "range_from r \<in> ports_of rs" "range_to r \<in> ports_of rs"
      using r by (auto simp: ports_of_def range_ports_def)
    then show ?thesis using assms(2) o by (auto simp: valid_range_def)
  qed
  then show ?thesis by (simp add: list_all_iff)
qed

lemma merged_ports:
  assumes "readPortList spec = Inr ranges" "mergePortRanges ranges = Inr merged"
  shows "separated merged \<and> merged \<noteq> [] \<and> ports_of merged = ports_of ranges \<and> length merged \<le> MAX_HOP_RANGES \<and>
    list_all valid_range merged"
proof -
  have v: "ranges \<noteq> []" "list_all valid_range ranges" using readPortList_valid [OF assms(1)] by auto
  then have o: "list_all ordered_range ranges" by (auto simp: list_all_iff valid_range_def ordered_range_def)
  have m: "separated merged" "ports_of merged = ports_of ranges" "length merged \<le> MAX_HOP_RANGES"
    using mergePortRanges_ok [OF assms(2) o] by auto
  obtain r where r: "r \<in> set ranges" using v(1) by (cases ranges) auto
  then have "range_from r \<in> ports_of ranges"
    using v(2) by (auto simp: ports_of_def range_ports_def list_all_iff valid_range_def)
  then have "merged \<noteq> []" using m(2) by auto
  then show ?thesis using m v valid_ports [OF v(2)] ports_valid [of merged] by simp
qed

text \<open>C39: The list of hop ports in a link: merging and printing lose no port and add none, the printed list
  reads back as the same ranges, in order, apart and within the limit, and every port is a port.
\<close>

theorem hop_ports_exact:
  assumes "readPortList spec = Inr ranges" "mergePortRanges ranges = Inr merged"
  shows "readPortList (formatPortList merged) = Inr merged \<and> mergePortRanges merged = Inr merged \<and>
    ports_of merged = ports_of ranges \<and> ports_of merged \<subseteq> {1..65535} \<and>
    separated merged \<and> length merged \<le> 64"
proof -
  have m: "separated merged" "merged \<noteq> []" "ports_of merged = ports_of ranges" "length merged \<le> MAX_HOP_RANGES"
    "list_all valid_range merged" using merged_ports [OF assms] by auto
  have "length merged \<le> MAX_HOP_RANGES * 4" using m(4) by (simp add: MAX_HOP_RANGES_def)
  then show ?thesis
    using m readPortList_format [of merged] mergePortRanges_again [of merged] valid_ports [OF m(5)]
    by (simp add: MAX_HOP_RANGES_def)
qed

definition example_spec :: jsstring where
  "example_spec = js ''443, 30000-20000 ,20500-30001''"

lemma example_ranges:
  "readPortList example_spec =
    Inr [\<lparr>range_from = 443, range_to = 443\<rparr>, \<lparr>range_from = 20000, range_to = 30000\<rparr>, \<lparr>range_from = 20500, range_to = 30001\<rparr>]"
  by (simp add: example_spec_def readPortList_def MAX_HOP_RANGES_def readPortItem_def port_item_def digits_upto_def
      all_digits_def is_digit_def js_trim_def js_trim_start_def js_trim_end_def js_ws_def radix_value_def digit_val_def starts_with_def)

lemma example_merged:
  "mergePortRanges [\<lparr>range_from = 443, range_to = 443\<rparr>, \<lparr>range_from = 20000, range_to = 30000\<rparr>, \<lparr>range_from = 20500, range_to = 30001\<rparr>]
    = Inr [\<lparr>range_from = 443, range_to = 443\<rparr>, \<lparr>range_from = 20000, range_to = 30001\<rparr>]"
  by (simp add: mergePortRanges_def merge_range_def MAX_HOP_RANGES_def)

lemma hop_ports_exact_witness:
  "ports_of [\<lparr>range_from = 443, range_to = 443\<rparr>, \<lparr>range_from = 20000, range_to = 30001\<rparr>] =
    ports_of [\<lparr>range_from = 443, range_to = 443\<rparr>, \<lparr>range_from = 20000, range_to = 30000\<rparr>, \<lparr>range_from = 20500, range_to = 30001\<rparr>]"
  using hop_ports_exact [OF example_ranges example_merged] by simp

section \<open>Rates\<close>

text \<open>
  A whole number of megabits without unit gives exactly that rate, in bits per second: no rounding of
  JavaScript's numbers is in the way.
\<close>

theorem megabits_exact:
  assumes "all_digits t" "length t \<le> 128" "1 \<le> radix_value 10 t" "radix_value 10 t \<le> 9000000000"
  shows "parseHysteriaBandwidth (Some t) = Some (radix_string 10 (radix_value 10 t * 1000000) @ js '' bps'')"
proof -
  define n where "n = radix_value 10 t"
  have n: "1 \<le> n" "n < 2 ^ 53" "n * 1000000 < 2 ^ 53" using assms by (simp_all add: n_def)
  have d: "list_all is_digit t" "t \<noteq> []" using assms(1) by (simp_all add: all_digits_def)
  have "js_trim t = t" using d by (auto simp: list_all_iff is_digit_not_ws intro: js_trim_id)
  then have trim: "boundedTrim (Some t) = t" using assms(2) by (simp add: boundedTrim_def MAX_SCALAR_LENGTH_def)
  have parts: "rate_parts t = Some (t, [])"
    using d by (simp add: rate_parts_def takeWhile_all Let_def)
  have num: "double_number t = of_nat n"
    using double_of_nat [OF n(2)] assms(1) by (simp add: double_number_def decimal_value_digits n_def)
  have "(of_nat n * of_nat 1000000 :: rat) = of_nat (n * 1000000)" by (simp only: of_nat_mult)
  then have times: "double_times (of_nat n) (of_nat 1000000) = of_nat (n * 1000000)"
    unfolding double_times_def by (simp only: double_of_nat [OF n(3)])
  have unit: "map_of DECIMAL_BANDWIDTH_UNITS (js_lower []) = Some 1000000"
    by (simp add: DECIMAL_BANDWIDTH_UNITS_def)
  have bits: "js_round (double_times (double_number t) (of_nat 1000000)) = int (n * 1000000)"
    unfolding num times by (rule js_round_nat)
  show ?thesis
    unfolding parseHysteriaBandwidth_def trim parts option.case prod.case unit Let_def bits n_def [symmetric] nat_int
    using n by (simp add: MIN_BRUTAL_BITS_PER_SECOND_def double_text_small)
qed

lemma megabits_exact_witness: "parseHysteriaBandwidth (Some (js ''100'')) = Some (js ''100000000 bps'')"
  using megabits_exact [of "js ''100''"]
  by (simp add: all_digits_def is_digit_def radix_value_def digit_val_def radix_string.simps digit_unit_def)

end
