(* ===== verification/Hysteria2Link.thy ===== *)
theory Hysteria2Link
  imports HopPorts JsonText DomainLists
begin

text \<open>
  Hysteria 2 share links (\<open>src/core/proxy/hysteria2-link.ts\<close>): the parser that the profile store, the
  configuration of the proxy program and the preview of the windows share.  The platform's parsers of
  queries, URLs, percent encoding and JSON, and the order of \<open>localeCompare\<close>, are parameters.
\<close>

section \<open>The platform\<close>

record link_platform =
  lp_query :: "jsstring \<Rightarrow> (jsstring \<times> jsstring) list"    \<comment> \<open>the entries of \<open>new URLSearchParams(query)\<close>\<close>
  lp_hostname :: "jsstring \<Rightarrow> jsstring option"             \<comment> \<open>\<open>new URL(text).hostname\<close>, \<open>None\<close> where it throws\<close>
  lp_decode :: "jsstring \<Rightarrow> jsstring option"               \<comment> \<open>\<open>decodeURIComponent\<close>\<close>
  lp_json :: "jsstring \<Rightarrow> json option"                     \<comment> \<open>\<open>JSON.parse\<close>\<close>
  lp_before :: "jsstring \<Rightarrow> jsstring \<Rightarrow> bool"              \<comment> \<open>\<open>localeCompare\<close> is not positive\<close>

definition decodeComponent :: "link_platform \<Rightarrow> jsstring \<Rightarrow> jsstring" where
  "decodeComponent p v = (case lp_decode p v of Some t \<Rightarrow> t | None \<Rightarrow> v)"

text \<open>\<open>decodeName(hash, "")\<close>.\<close>

definition fragment_name :: "link_platform \<Rightarrow> jsstring \<Rightarrow> jsstring" where
  "fragment_name p hash = js_trim (decodeComponent p (if starts_with [35] hash then drop 1 hash else hash))"

section \<open>Parameters\<close>

text \<open>The first value of any of the keys, matched without case; the first occurrence of a key counts.\<close>

definition first_value :: "(jsstring \<times> jsstring) list \<Rightarrow> jsstring \<Rightarrow> jsstring option" where
  "first_value entries key = map_of (map (\<lambda>(k, v). (js_lower k, v)) entries) key"

fun firstParam :: "(jsstring \<times> jsstring) list \<Rightarrow> jsstring list \<Rightarrow> jsstring option" where
  "firstParam entries [] = None"
| "firstParam entries (key # keys) =
     (case first_value entries key of Some v \<Rightarrow> Some v | None \<Rightarrow> firstParam entries keys)"

text \<open>A trimmed value, if there is one that is not empty.\<close>

definition trimmed :: "jsstring option \<Rightarrow> jsstring option" where
  "trimmed v = (case v of None \<Rightarrow> None | Some t \<Rightarrow> if js_trim t = [] then None else Some (js_trim t))"

definition parseFlag :: "jsstring option \<Rightarrow> bool" where
  "parseFlag v = (case v of None \<Rightarrow> False
     | Some t \<Rightarrow> js_lower (js_trim t) \<in> set [js ''1'', js ''t'', js ''true'', js ''yes'', js ''on''])"

text \<open>Shortened for an error message.\<close>

definition echoed :: "jsstring \<Rightarrow> jsstring" where
  "echoed v = (if 40 < length v then take 40 v @ [0x2026] else v)"

definition not_empty :: "jsstring option \<Rightarrow> jsstring option" where
  "not_empty v = (if v = Some [] then None else v)"

definition or_else :: "'a option \<Rightarrow> 'a option \<Rightarrow> 'a option" where
  "or_else v w = (if v = None then w else v)"

definition readObfsPassword :: "jsstring option \<Rightarrow> jsstring option \<Rightarrow> jsstring option \<Rightarrow> link_error + jsstring option" where
  "readObfsPassword obfs password maskPassword =
     (let type = (case obfs of None \<Rightarrow> [] | Some t \<Rightarrow> js_lower (js_trim t))
      in if type = js ''none'' \<or> type = js ''plain'' \<or> (type = [] \<and> not_empty password = None \<and> maskPassword = None)
         then Inr None
         else if type \<noteq> [] \<and> type \<noteq> js ''salamander'' then Inl (UnsupportedObfuscation (echoed type))
         else case or_else (not_empty password) (not_empty maskPassword) of
                None \<Rightarrow> Inl ObfsPasswordMissing
              | Some chosen \<Rightarrow> Inr (Some chosen))"

section \<open>Base64, certificate pins and ECH\<close>

definition base64_value :: "nat \<Rightarrow> nat" where
  "base64_value u =
     (if 65 \<le> u \<and> u \<le> 90 then u - 65 else if 97 \<le> u \<and> u \<le> 122 then u - 71
      else if is_digit u then u + 4 else if u = 43 then 62 else 63)"

text \<open>\<open>atob\<close> on text of the alphabet whose length is not one more than a multiple of four.\<close>

fun base64_bytes :: "nat list \<Rightarrow> bytes" where
  "base64_bytes (a # b # c # d # s) =
     byte_of (a * 4 + b div 16) # byte_of (b mod 16 * 16 + c div 4) # byte_of (c mod 4 * 64 + d) # base64_bytes s"
| "base64_bytes [a, b, c] = [byte_of (a * 4 + b div 16), byte_of (b mod 16 * 16 + c div 4)]"
| "base64_bytes [a, b] = [byte_of (a * 4 + b div 16)]"
| "base64_bytes _ = []"

definition plain_alphabet :: "jsstring \<Rightarrow> jsstring" where
  "plain_alphabet s = map (\<lambda>u. if u = 45 then 43 else if u = 95 then 47 else u) s"

definition decodeBase64 :: "jsstring \<Rightarrow> bytes option" where
  "decodeBase64 v =
     (let data = plain_alphabet (rev (dropWhile (\<lambda>u. u = 61) (rev v)))
      in if \<not> list_all base64_char data \<or> length data mod 4 = 1 then None
         else Some (base64_bytes (map base64_value data)))"

definition byte_hex :: "byte \<Rightarrow> jsstring" where
  "byte_hex b = (let h = radix_string 16 (unat b) in replicate (2 - length h) 48 @ h)"

definition normalizePin :: "jsstring \<Rightarrow> link_error + jsstring" where
  "normalizePin v =
     (let hex = filter (\<lambda>u. \<not> (js_ws u \<or> u = 58 \<or> u = 45)) v
      in if MAX_SCALAR_LENGTH < length v then Inl InvalidPin
         else if length hex = 64 \<and> list_all is_hex_digit hex then Inr (js_lower hex)
         else case decodeBase64 v of
                Some bytes \<Rightarrow> if length bytes = 32 then Inr (concat (map byte_hex bytes)) else Inl InvalidPin
              | None \<Rightarrow> Inl InvalidPin)"

definition add_new :: "'a \<Rightarrow> 'a list \<Rightarrow> 'a list" where
  "add_new x xs = (if x \<in> set xs then xs else xs @ [x])"

fun read_pins :: "jsstring list \<Rightarrow> jsstring list \<Rightarrow> link_error + jsstring list" where
  "read_pins [] pins = Inr pins"
| "read_pins (item # items) pins =
     (if js_trim item = [] then read_pins items pins
      else res_bind (normalizePin (js_trim item)) (\<lambda>pin. read_pins items (add_new pin pins)))"

definition readPins :: "jsstring option list \<Rightarrow> link_error + jsstring list" where
  "readPins values = read_pins (concat (map (\<lambda>v. case v of None \<Rightarrow> [] | Some t \<Rightarrow> split_on [44] t) values)) []"

definition readEchConfigList :: "jsstring option \<Rightarrow> link_error + jsstring option" where
  "readEchConfigList v =
     (case trimmed v of
        None \<Rightarrow> Inr None
      | Some t \<Rightarrow> (case decodeBase64 t of
          None \<Rightarrow> Inl InvalidEch
        | Some bytes \<Rightarrow>
            if length bytes < 4 \<or> unat (bytes ! 0) * 256 + unat (bytes ! 1) \<noteq> length bytes - 2
            then Inl InvalidEch else Inr (Some t)))"

section \<open>Hints of a panel\<close>

text \<open>The \<open>fm\<close> parameter: finalmask JSON.\<close>

record quic_params =
  qp_initStreamReceiveWindow :: "int option"
  qp_maxStreamReceiveWindow :: "int option"
  qp_initConnectionReceiveWindow :: "int option"
  qp_maxConnectionReceiveWindow :: "int option"
  qp_maxIdleTimeout :: "int option"
  qp_keepAlivePeriod :: "int option"
  qp_disablePathMTUDiscovery :: bool

definition no_quic_params :: quic_params where
  "no_quic_params = \<lparr>qp_initStreamReceiveWindow = None, qp_maxStreamReceiveWindow = None,
     qp_initConnectionReceiveWindow = None, qp_maxConnectionReceiveWindow = None, qp_maxIdleTimeout = None,
     qp_keepAlivePeriod = None, qp_disablePathMTUDiscovery = False\<rparr>"

record mask_hints =
  mh_obfsPassword :: "jsstring option"
  mh_hopPorts :: "port_range list option"
  mh_hopInterval :: "hop_interval option"
  mh_congestion :: "jsstring option"
  mh_brutalUp :: "jsstring option"
  mh_brutalDown :: "jsstring option"
  mh_quic :: quic_params

definition no_hints :: mask_hints where
  "no_hints = \<lparr>mh_obfsPassword = None, mh_hopPorts = None, mh_hopInterval = None, mh_congestion = None,
     mh_brutalUp = None, mh_brutalDown = None, mh_quic = no_quic_params\<rparr>"

definition CONGESTION_CONTROLS :: "jsstring list" where
  "CONGESTION_CONTROLS = [js ''reno'', js ''bbr'', js ''brutal'', js ''force-brutal'']"

fun json_members :: "json \<Rightarrow> (jsstring \<times> json) list option" where
  "json_members (JObject ms) = Some ms"
| "json_members _ = None"

fun json_string_value :: "json option \<Rightarrow> jsstring option" where
  "json_string_value (Some (JString s)) = Some s"
| "json_string_value _ = None"

text \<open>\<open>String\<close> of a text or a number, and nothing else.\<close>

fun scalar_text :: "json option \<Rightarrow> jsstring option" where
  "scalar_text (Some (JString s)) = Some s"
| "scalar_text (Some (JInteger n)) = Some (int_text n)"
| "scalar_text (Some (JFraction t)) = Some t"
| "scalar_text _ = None"

fun readInteger :: "json option \<Rightarrow> int \<Rightarrow> int \<Rightarrow> int option" where
  "readInteger (Some (JInteger n)) low high = (if low \<le> n \<and> n \<le> high then Some n else None)"
| "readInteger _ low high = None"

definition MAX_SAFE_INTEGER :: int where "MAX_SAFE_INTEGER = 9007199254740991"

definition readMaskPorts :: "json option \<Rightarrow> link_error + port_range list option" where
  "readMaskPorts v =
     (case scalar_text v of
        None \<Rightarrow> Inr None
      | Some t \<Rightarrow> let spec = colons_to_dashes (js_trim t)
                  in if spec = [] then Inr None
                     else res_bind (readPortList spec) (\<lambda>ranges. res_bind (mergePortRanges ranges) (\<lambda>merged. Inr (Some merged))))"

text \<open>A value already there is kept, and then the new one is not read.\<close>

definition hop_hints :: "json option \<Rightarrow> json option \<Rightarrow> mask_hints \<Rightarrow> link_error + mask_hints" where
  "hop_hints ports interval hints =
     res_bind (case mh_hopPorts hints of Some r \<Rightarrow> Inr (Some r) | None \<Rightarrow> readMaskPorts ports) (\<lambda>hopPorts.
     Inr (hints\<lparr>mh_hopPorts := hopPorts,
       mh_hopInterval := or_else (mh_hopInterval hints) (parseHopInterval (scalar_text interval) None)\<rparr>))"

definition read_mask :: "json \<Rightarrow> mask_hints \<Rightarrow> link_error + mask_hints" where
  "read_mask m hints =
     (case json_members m of
        None \<Rightarrow> Inl InvalidFinalMask
      | Some ms \<Rightarrow> (case map_of ms (js ''type'') of
          Some (JString t) \<Rightarrow>
            let type = js_lower t;
                settings = (case map_of ms (js ''settings'') of Some (JObject ss) \<Rightarrow> ss | _ \<Rightarrow> [])
            in if type = js ''salamander'' \<and> map_of settings (js ''packetSize'') = None
               then Inr (hints\<lparr>mh_obfsPassword :=
                      or_else (mh_obfsPassword hints) (json_string_value (map_of settings (js ''password'')))\<rparr>)
               else if type = js ''udphop''
               then hop_hints (map_of settings (js ''remotePorts'')) (map_of settings (js ''interval'')) hints
               else Inl (UnsupportedMask
                      (if type = js ''salamander'' then js ''salamander with packetSize'' else echoed type))
        | _ \<Rightarrow> Inl InvalidFinalMask))"

fun read_masks :: "json list \<Rightarrow> mask_hints \<Rightarrow> link_error + mask_hints" where
  "read_masks [] hints = Inr hints"
| "read_masks (m # masks) hints = res_bind (read_mask m hints) (read_masks masks)"

definition quic_of_members :: "(jsstring \<times> json) list \<Rightarrow> quic_params" where
  "quic_of_members q =
     \<lparr>qp_initStreamReceiveWindow = readInteger (map_of q (js ''initStreamReceiveWindow'')) 16384 MAX_SAFE_INTEGER,
      qp_maxStreamReceiveWindow = readInteger (map_of q (js ''maxStreamReceiveWindow'')) 16384 MAX_SAFE_INTEGER,
      qp_initConnectionReceiveWindow = readInteger (map_of q (js ''initConnectionReceiveWindow'')) 16384 MAX_SAFE_INTEGER,
      qp_maxConnectionReceiveWindow = readInteger (map_of q (js ''maxConnectionReceiveWindow'')) 16384 MAX_SAFE_INTEGER,
      qp_maxIdleTimeout = readInteger (map_of q (js ''maxIdleTimeout'')) 4 120,
      qp_keepAlivePeriod = readInteger (map_of q (js ''keepAlivePeriod'')) 2 60,
      qp_disablePathMTUDiscovery = (map_of q (js ''disablePathMTUDiscovery'') = Some (JBool True))\<rparr>"

definition congestion_of :: "json option \<Rightarrow> jsstring option" where
  "congestion_of v =
     (case json_string_value v of
        None \<Rightarrow> None
      | Some t \<Rightarrow> if js_lower (js_trim t) \<in> set CONGESTION_CONTROLS then Some (js_lower (js_trim t)) else None)"

definition xray_rate :: "json option \<Rightarrow> jsstring option" where
  "xray_rate v = (case json_string_value v of None \<Rightarrow> None | Some t \<Rightarrow> readXrayBandwidth t)"

definition quic_rates :: "(jsstring \<times> json) list \<Rightarrow> mask_hints \<Rightarrow> mask_hints" where
  "quic_rates q hints = hints\<lparr>mh_congestion := congestion_of (map_of q (js ''congestion'')),
     mh_brutalUp := xray_rate (map_of q (js ''brutalUp'')), mh_brutalDown := xray_rate (map_of q (js ''brutalDown''))\<rparr>"

definition quic_hop :: "(jsstring \<times> json) list \<Rightarrow> mask_hints \<Rightarrow> link_error + mask_hints" where
  "quic_hop q hints =
     (case map_of q (js ''udpHop'') of
        Some (JObject hop) \<Rightarrow> hop_hints (map_of hop (js ''ports'')) (map_of hop (js ''interval'')) hints
      | _ \<Rightarrow> Inr hints)"

definition read_quic :: "json \<Rightarrow> mask_hints \<Rightarrow> link_error + mask_hints" where
  "read_quic quic hints =
     (case json_members quic of
        None \<Rightarrow> Inl InvalidFinalMask
      | Some q \<Rightarrow> res_bind (quic_hop q (quic_rates q hints)) (\<lambda>hopped. Inr (hopped\<lparr>mh_quic := quic_of_members q\<rparr>)))"

definition parseFinalMask :: "link_platform \<Rightarrow> jsstring option \<Rightarrow> link_error + mask_hints" where
  "parseFinalMask p v =
     (case v of
        None \<Rightarrow> Inr no_hints
      | Some t \<Rightarrow>
          if js_trim t = [] then Inr no_hints
          else case lp_json p t of
            Some (JObject ms) \<Rightarrow>
              res_bind (case map_of ms (js ''udp'') of
                  None \<Rightarrow> Inr []
                | Some (JArray masks) \<Rightarrow> Inr masks
                | Some _ \<Rightarrow> Inl InvalidFinalMask) (\<lambda>masks.
              res_bind (read_masks masks no_hints) (\<lambda>hints.
              case map_of ms (js ''quicParams'') of
                None \<Rightarrow> Inr hints
              | Some quic \<Rightarrow> read_quic quic hints))
          | _ \<Rightarrow> Inl InvalidFinalMask)"

section \<open>The link\<close>

record hysteria2_link =
  hl_name :: jsstring
  hl_auth :: jsstring
  hl_host :: jsstring
  hl_port :: nat
  hl_hopPorts :: "jsstring option"
  hl_hopInterval :: "hop_interval option"
  hl_sni :: jsstring
  hl_obfsPassword :: "jsstring option"
  hl_pinnedCertSha256 :: "jsstring list"
  hl_insecure :: bool
  hl_verifyPeerCertByName :: "jsstring option"
  hl_echConfigList :: "jsstring option"
  hl_congestion :: "jsstring option"
  hl_brutalUp :: "jsstring option"
  hl_brutalDown :: "jsstring option"
  hl_quic :: quic_params
  hl_canonical :: jsstring

definition isHysteria2Scheme :: "jsstring option \<Rightarrow> bool" where
  "isHysteria2Scheme scheme = (case scheme of None \<Rightarrow> False
     | Some s \<Rightarrow> js_lower s = js ''hysteria2'' \<or> js_lower s = js ''hy2'')"

text \<open>
  The pattern \<open>^([a-z][a-z0-9+.-]*):\/\/([^?#]*)(\?[^#]*)?(#.*)?$\<close>, case-insensitive over Unicode: the scheme
  and what follows it, then that cut into head, query and fragment.
\<close>

definition uri_scheme :: "jsstring \<Rightarrow> (jsstring \<times> jsstring) option" where
  "uri_scheme s =
     (let scheme = takeWhile (\<lambda>u. alpha_iu u \<or> is_digit u \<or> u = 43 \<or> u = 46 \<or> u = 45) s;
          rest = drop (length scheme) s
      in if scheme \<noteq> [] \<and> alpha_iu (hd scheme) \<and> starts_with (js ''://'') rest then Some (scheme, drop 3 rest) else None)"

definition uri_parts :: "jsstring \<Rightarrow> jsstring \<times> jsstring \<times> jsstring" where
  "uri_parts s =
     (let head = takeWhile (\<lambda>u. u \<noteq> 63 \<and> u \<noteq> 35) s; rest = drop (length head) s;
          query = takeWhile (\<lambda>u. u \<noteq> 35) rest
      in (head, query, drop (length query) rest))"

definition SERVER_DESCRIPTION :: jsstring where
  "SERVER_DESCRIPTION = js ''?serverDescription=''"

text \<open>Userinfo and authority: the last \<open>@\<close> ends the one, the first slash after it the other.\<close>

definition link_authority :: "jsstring \<Rightarrow> jsstring \<times> jsstring" where
  "link_authority head =
     (let (userinfo, after) = (case last_index_of 64 head of
            Some i \<Rightarrow> (take i head, drop (i + 1) head) | None \<Rightarrow> ([], head))
      in (userinfo, takeWhile (\<lambda>u. u \<noteq> 47) after))"

definition splitAuthority :: "jsstring \<Rightarrow> link_error + jsstring \<times> jsstring" where
  "splitAuthority authority =
     (if starts_with [91] authority
      then (case index_of 93 authority of
              None \<Rightarrow> Inl InvalidLink
            | Some e \<Rightarrow> let rest = drop (e + 1) authority
                        in if rest \<noteq> [] \<and> \<not> starts_with [58] rest then Inl InvalidLink
                           else Inr (drop 1 (take e authority), drop 1 rest))
      else case index_of 58 authority of
             Some colon \<Rightarrow> Inr (take colon authority, drop (colon + 1) authority)
           | None \<Rightarrow> Inr (authority, []))"

definition strip_host_brackets :: "jsstring \<Rightarrow> jsstring" where
  "strip_host_brackets s =
     (let t = (if starts_with [91] s then drop 1 s else s) in if ends_with [93] t then butlast t else t)"

definition MAX_HOST_LENGTH :: nat where "MAX_HOST_LENGTH = 253"

definition normalizeHost :: "link_platform \<Rightarrow> jsstring \<Rightarrow> link_error + jsstring" where
  "normalizeHost p rawHost =
     (if MAX_HOST_LENGTH < length rawHost then Inl InvalidLink
      else case lp_hostname p (if 58 \<in> set rawHost then js ''https://['' @ rawHost @ js '']/''
                                else js ''https://'' @ rawHost @ js ''/'') of
             Some hostname \<Rightarrow> Inr (js_lower (strip_host_brackets hostname))
           | None \<Rightarrow> Inl InvalidLink)"

definition hop_ranges ::
  "jsstring option \<Rightarrow> port_range list \<Rightarrow> port_range list option \<Rightarrow> link_error + port_range list" where
  "hop_ranges mport authorityPorts maskPorts =
     (case trimmed mport of
        Some t \<Rightarrow> res_bind (readPortList (colons_to_dashes t)) mergePortRanges
      | None \<Rightarrow> Inr (if coversSeveralPorts authorityPorts then authorityPorts
                     else case maskPorts of Some r \<Rightarrow> r | None \<Rightarrow> authorityPorts))"

definition canonical_text :: "link_platform \<Rightarrow> jsstring \<Rightarrow> jsstring \<Rightarrow> port_range list \<Rightarrow>
    (jsstring \<times> jsstring) list \<Rightarrow> jsstring \<Rightarrow> jsstring" where
  "canonical_text p auth host ports entries name =
     json_text (JObject [(js ''protocol'', JString (js ''hysteria2'')), (js ''auth'', JString auth),
       (js ''host'', JString host), (js ''ports'', JString (formatPortList ports)),
       (js ''params'', JArray (map (\<lambda>(k, v). JArray [JString k, JString v])
          (sort_by (\<lambda>a b. lp_before p (fst a) (fst b)) (map (\<lambda>(k, v). (js_lower k, v)) entries)))),
       (js ''hash'', JString name)])"

text \<open>What the link says once its authority is read: host, ports as written, and the rest of the text.\<close>

definition link_rest :: "link_platform \<Rightarrow> jsstring \<Rightarrow> jsstring \<Rightarrow> port_range list \<Rightarrow> jsstring \<Rightarrow> jsstring \<Rightarrow>
    link_error + hysteria2_link" where
  "link_rest p userinfo host writtenPorts query fragment =
     res_bind (mergePortRanges writtenPorts) (\<lambda>authorityPorts.
     let port = range_from (hd writtenPorts); entries = lp_query p query; param = firstParam entries in
     res_bind (parseFinalMask p (param [js ''fm''])) (\<lambda>fm.
     res_bind (hop_ranges (param [js ''mport'', js ''mports'']) authorityPorts (mh_hopPorts fm)) (\<lambda>hopRanges.
     let hopPorts = (if coversSeveralPorts hopRanges then Some (formatPortList hopRanges) else None);
         hopInterval = (if hopPorts = None then None
           else or_else (or_else (parseHopInterval
                  (param [js ''hopinterval'', js ''hop-interval'', js ''hop_interval'', js ''mporthopint''])
                  (param [js ''hop_interval_max'']))
                (mh_hopInterval fm)) (Some (Seconds HYSTERIA2_DEFAULT_HOP_INTERVAL)));
         brutalUp = or_else (parseHysteriaBandwidth (param [js ''up'', js ''upmbps''])) (mh_brutalUp fm);
         brutalDown = or_else (parseHysteriaBandwidth (param [js ''down'', js ''downmbps''])) (mh_brutalDown fm);
         congestion = (if mh_congestion fm = Some (js ''force-brutal'') \<and> brutalUp = None then None
                       else mh_congestion fm);
         name = fragment_name p fragment
     in res_bind (readObfsPassword (param [js ''obfs''])
            (param [js ''obfs-password'', js ''obfspassword'', js ''obfs_password'']) (mh_obfsPassword fm)) (\<lambda>obfs.
        res_bind (readPins [param [js ''pinsha256''], param [js ''pcs'']]) (\<lambda>pins.
        res_bind (readEchConfigList (param [js ''ech''])) (\<lambda>ech.
        Inr \<lparr>hl_name = (if name = [] then js ''hysteria2-'' @ host @ js '':'' @ radix_string 10 port else name),
             hl_auth = decodeComponent p userinfo, hl_host = host, hl_port = port,
             hl_hopPorts = hopPorts, hl_hopInterval = hopInterval,
             hl_sni = (case trimmed (param [js ''sni'', js ''peer'']) of Some s \<Rightarrow> s | None \<Rightarrow> host),
             hl_obfsPassword = obfs, hl_pinnedCertSha256 = pins,
             hl_insecure = parseFlag (param [js ''insecure'', js ''allowinsecure'', js ''allow_insecure'']),
             hl_verifyPeerCertByName = trimmed (param [js ''vcn'']), hl_echConfigList = ech,
             hl_congestion = congestion, hl_brutalUp = brutalUp, hl_brutalDown = brutalDown, hl_quic = mh_quic fm,
             hl_canonical = canonical_text p (decodeComponent p userinfo) host authorityPorts entries name\<rparr>))))))"

definition authority_ports :: "jsstring \<Rightarrow> link_error + port_range list" where
  "authority_ports portSpec =
     (if portSpec = [] then Inr [\<lparr>range_from = HYSTERIA2_DEFAULT_PORT, range_to = HYSTERIA2_DEFAULT_PORT\<rparr>]
      else readPortList portSpec)"

definition parseHysteria2Link :: "link_platform \<Rightarrow> jsstring \<Rightarrow> link_error + hysteria2_link" where
  "parseHysteria2Link p rawUri =
     (case uri_scheme rawUri of
        None \<Rightarrow> Inl InvalidLink
      | Some (scheme, after) \<Rightarrow>
          if \<not> isHysteria2Scheme (Some scheme) then Inl InvalidLink
          else let (head, query, tail) = uri_parts after;
                   fragment = hd (split_on SERVER_DESCRIPTION tail);
                   (userinfo, authority) = link_authority head
               in res_bind (splitAuthority authority) (\<lambda>(rawHost, portSpec).
                  if rawHost = [] then Inl NoServerHost
                  else res_bind (normalizeHost p rawHost) (\<lambda>host.
                  res_bind (authority_ports portSpec) (\<lambda>writtenPorts.
                  link_rest p userinfo host writtenPorts query fragment))))"

end
