(* ===== verification/Hysteria2Safety.thy ===== *)
theory Hysteria2Safety
  imports Hysteria2Link
begin

text \<open>
  What holds of every Hysteria 2 link that the parser of \<open>Hysteria2Link\<close> accepts, and of the two names of
  its scheme.
\<close>

section \<open>Values within their bounds\<close>

fun interval_ok :: "hop_interval \<Rightarrow> bool" where
  "interval_ok (Seconds a) \<longleftrightarrow> 5 \<le> a \<and> a \<le> 999999"
| "interval_ok (SecondsRange a b) \<longleftrightarrow> 5 \<le> a \<and> a < b \<and> b \<le> 999999"

lemma digits_upto_value:
  assumes "digits_upto n s"
  shows "radix_value 10 s < 10 ^ n"
proof -
  have "list_all is_digit t \<Longrightarrow> radix_value 10 t < 10 ^ length t" for t
  proof (induction t rule: rev_induct)
    case (snoc u t)
    then have "radix_value 10 t < 10 ^ length t" "digit_val u \<le> 9" by (auto simp: is_digit_def digit_val_def)
    then show ?case by simp
  qed simp
  then have "radix_value 10 s < 10 ^ length s" using assms by (simp add: digits_upto_def all_digits_def)
  also have "\<dots> \<le> 10 ^ n" using assms by (simp add: digits_upto_def power_increasing)
  finally show ?thesis .
qed

lemma seconds_of_bounds: "seconds_of raw = Some a \<Longrightarrow> 5 \<le> a \<and> a \<le> 999999"
  using digits_upto_value [of 6] by (fastforce simp: seconds_of_def Let_def MIN_HOP_INTERVAL_def split: if_splits)

lemma parseHopInterval_ok: "parseHopInterval v maxValue = Some i \<Longrightarrow> interval_ok i"
  by (auto simp: parseHopInterval_def Let_def dest!: seconds_of_bounds split: option.splits if_splits prod.splits)

text \<open>The ranges of a list that was read and merged.\<close>

definition good_ranges :: "port_range list \<Rightarrow> bool" where
  "good_ranges rs \<longleftrightarrow> separated rs \<and> rs \<noteq> [] \<and> length rs \<le> MAX_HOP_RANGES \<and> list_all valid_range rs"

lemma good_merged: "readPortList spec = Inr ranges \<Longrightarrow> mergePortRanges ranges = Inr merged \<Longrightarrow> good_ranges merged"
  using merged_ports [of spec ranges merged] by (simp add: good_ranges_def)

lemma good_default: "mergePortRanges [\<lparr>range_from = 443, range_to = 443\<rparr>] = Inr m \<Longrightarrow> good_ranges m"
  by (auto simp: mergePortRanges_def merge_range_def MAX_HOP_RANGES_def good_ranges_def separated_def ordered_range_def valid_range_def)

lemma good_read_back: "good_ranges rs \<Longrightarrow> readPortList (formatPortList rs) = Inr rs"
  using readPortList_format [of rs] by (simp add: good_ranges_def)

lemma several_ports:
  assumes "good_ranges rs" "coversSeveralPorts rs"
  shows "\<exists>a \<in> ports_of rs. \<exists>b \<in> ports_of rs. a \<noteq> b"
proof (cases rs)
  case (Cons r rest)
  have r: "range_from r \<in> ports_of rs" "range_to r \<in> ports_of rs"
    using assms(1) Cons by (auto simp: good_ranges_def range_ports_def valid_range_def)
  show ?thesis
  proof (cases rest)
    case Nil
    then show ?thesis using assms(2) r Cons by (auto simp: coversSeveralPorts_def)
  next
    case (Cons r2 rest2)
    have "range_from r2 \<in> ports_of rs" "range_to r + 1 < range_from r2"
      using assms(1) Cons \<open>rs = r # rest\<close> by (auto simp: good_ranges_def separated_def range_ports_def valid_range_def)
    then show ?thesis using r by (metis less_add_one less_asym)
  qed
qed (use assms in \<open>simp add: good_ranges_def\<close>)

section \<open>Hints\<close>

definition hints_ok :: "mask_hints \<Rightarrow> bool" where
  "hints_ok h \<longleftrightarrow> pred_option good_ranges (mh_hopPorts h) \<and> pred_option interval_ok (mh_hopInterval h) \<and>
     pred_option (\<lambda>c. c \<in> set CONGESTION_CONTROLS) (mh_congestion h)"

lemma readMaskPorts_ok: "readMaskPorts v = Inr (Some r) \<Longrightarrow> good_ranges r"
  by (auto simp: readMaskPorts_def Let_def good_merged split: option.splits if_splits)

lemma hop_hints_ok: "hop_hints ports interval h = Inr h' \<Longrightarrow> hints_ok h \<Longrightarrow> hints_ok h'"
  by (auto simp: hop_hints_def hints_ok_def or_else_def pred_option_def dest: readMaskPorts_ok parseHopInterval_ok
      split: option.splits if_splits)

lemma congestion_of_ok: "pred_option (\<lambda>c. c \<in> set CONGESTION_CONTROLS) (congestion_of v)"
  by (simp add: congestion_of_def split: option.splits)

lemma read_mask_ok: "read_mask m h = Inr h' \<Longrightarrow> hints_ok h \<Longrightarrow> hints_ok h'"
  by (auto simp: read_mask_def Let_def hop_hints_ok split: option.splits if_splits json.splits)
    (simp_all add: hints_ok_def)

lemma read_masks_ok: "read_masks ms h = Inr h' \<Longrightarrow> hints_ok h \<Longrightarrow> hints_ok h'"
  by (induction ms arbitrary: h) (auto intro: read_mask_ok)

lemma read_quic_ok:
  assumes "read_quic quic h = Inr h'" "hints_ok h"
  shows "hints_ok h'"
proof -
  obtain q hopped where hopped: "quic_hop q (quic_rates q h) = Inr hopped" and h': "h' = hopped\<lparr>mh_quic := quic_of_members q\<rparr>"
    using assms(1) by (auto simp: read_quic_def split: option.splits)
  have "hints_ok (quic_rates q h)" using assms(2) congestion_of_ok by (simp add: quic_rates_def hints_ok_def)
  then have "hints_ok hopped"
    using hopped unfolding quic_hop_def by (auto split: option.splits json.splits intro: hop_hints_ok)
  then show ?thesis using h' by (simp add: hints_ok_def)
qed

lemma no_hints_ok: "hints_ok no_hints"
  by (simp add: hints_ok_def no_hints_def)

lemma parseFinalMask_ok: "parseFinalMask p v = Inr h \<Longrightarrow> hints_ok h"
  using no_hints_ok
  by (auto simp: parseFinalMask_def intro: read_masks_ok read_quic_ok split: option.splits if_splits json.splits)

section \<open>Pins, ECH and obfuscation\<close>

definition hex_pin :: "jsstring \<Rightarrow> bool" where
  "hex_pin s \<longleftrightarrow> length s = 64 \<and> list_all (\<lambda>u. is_digit u \<or> (97 \<le> u \<and> u \<le> 102)) s"

lemma byte_hex_shape: "length (byte_hex b) = 2 \<and> list_all (\<lambda>u. is_digit u \<or> (97 \<le> u \<and> u \<le> 102)) (byte_hex b)"
proof -
  have "length (radix_string 16 (unat b)) \<le> 2"
    using radix_string_length [of 16 "unat b" 2] unat_byte_bounds [of b] by simp
  then show ?thesis
    using radix_string_hex_lower [of _ "unat b"] by (auto simp: byte_hex_def Let_def list_all_iff is_digit_def)
qed

lemma hex_of_bytes: "length bs = 32 \<Longrightarrow> hex_pin (concat (map byte_hex bs))"
proof -
  have "length (concat (map byte_hex bs)) = 2 * length bs \<and>
      list_all (\<lambda>u. is_digit u \<or> (97 \<le> u \<and> u \<le> 102)) (concat (map byte_hex bs))"
    by (induction bs) (use byte_hex_shape in auto)
  then show "length bs = 32 \<Longrightarrow> ?thesis" by (simp add: hex_pin_def)
qed

lemma lower_hex:
  "list_all is_hex_digit s \<Longrightarrow> length (js_lower s) = length s \<and> list_all (\<lambda>u. is_digit u \<or> (97 \<le> u \<and> u \<le> 102)) (js_lower s)"
  by (induction s) (auto simp: js_lower_def lower_unit_def is_hex_digit_def is_digit_def)

lemma normalizePin_ok: "normalizePin v = Inr pin \<Longrightarrow> hex_pin pin"
  using lower_hex by (auto simp: normalizePin_def Let_def hex_of_bytes split: if_splits option.splits) (auto simp: hex_pin_def)

lemma read_pins_ok: "read_pins items pins = Inr ps \<Longrightarrow> list_all hex_pin pins \<Longrightarrow> distinct pins \<Longrightarrow> list_all hex_pin ps \<and> distinct ps"
  by (induction items arbitrary: pins) (auto simp: add_new_def normalizePin_ok split: if_splits)

lemma decodeBase64_units: "decodeBase64 v = Some bs \<Longrightarrow> u \<in> set v \<Longrightarrow> is_alnum u \<or> u \<in> {43, 45, 47, 61, 95}"
proof -
  assume d: "decodeBase64 v = Some bs" and u: "u \<in> set v"
  let ?t = "rev (dropWhile (\<lambda>u. u = 61) (rev v))"
  have all: "list_all base64_char (plain_alphabet ?t)" using d by (auto simp: decodeBase64_def Let_def split: if_splits)
  have "u \<in> set (takeWhile (\<lambda>u. u = 61) (rev v) @ dropWhile (\<lambda>u. u = 61) (rev v))"
    using u by (simp only: takeWhile_dropWhile_id set_rev)
  then have "u \<in> set ?t \<or> u = 61" by (auto dest: set_takeWhileD simp del: takeWhile_dropWhile_id)
  then show ?thesis
    using all by (auto simp: plain_alphabet_def list_all_iff base64_char_def split: if_splits)
qed

lemma readEchConfigList_no_server: "readEchConfigList v = Inr (Some t) \<Longrightarrow> 58 \<notin> set t"
  using decodeBase64_units [of t _ 58]
  by (auto simp: readEchConfigList_def is_alnum_def is_digit_def is_alpha_def split: option.splits if_splits)

lemma readObfsPassword_ok: "readObfsPassword a b c = Inr d \<Longrightarrow> d \<noteq> Some []"
  by (auto simp: readObfsPassword_def Let_def or_else_def not_empty_def split: if_splits option.splits)

section \<open>Every accepted link\<close>

definition link_sound :: "hysteria2_link \<Rightarrow> bool" where
  "link_sound l \<longleftrightarrow>
     1 \<le> hl_port l \<and> hl_port l \<le> 65535 \<and>
     (case hl_hopPorts l of
        None \<Rightarrow> hl_hopInterval l = None
      | Some h \<Rightarrow> (\<exists>rs. readPortList h = Inr rs \<and> separated rs \<and> length rs \<le> 64 \<and> ports_of rs \<subseteq> {1..65535} \<and>
          (\<exists>a \<in> ports_of rs. \<exists>b \<in> ports_of rs. a \<noteq> b)) \<and>
          (\<exists>i. hl_hopInterval l = Some i \<and> interval_ok i)) \<and>
     list_all hex_pin (hl_pinnedCertSha256 l) \<and> distinct (hl_pinnedCertSha256 l) \<and>
     (\<forall>t. hl_echConfigList l = Some t \<longrightarrow> 58 \<notin> set t) \<and>
     hl_obfsPassword l \<noteq> Some [] \<and>
     (\<forall>c. hl_congestion l = Some c \<longrightarrow> c \<in> set CONGESTION_CONTROLS \<and>
        (c = js ''force-brutal'' \<longrightarrow> hl_brutalUp l \<noteq> None))"

lemma hop_ranges_ok:
  assumes "hop_ranges mport auth maskPorts = Inr rs" "good_ranges auth" "pred_option good_ranges maskPorts"
  shows "good_ranges rs"
  using assms by (auto simp: hop_ranges_def good_merged split: option.splits if_splits)

lemma link_rest_sound:
  assumes "link_rest p userinfo host written query fragment = Inr link"
    and written: "\<And>m. mergePortRanges written = Inr m \<Longrightarrow> good_ranges m" "written \<noteq> []" "list_all valid_range written"
  shows "link_sound link"
proof -
  let ?param = "firstParam (lp_query p query)"
  obtain auth fm rs obfs pins ech where
    auth: "mergePortRanges written = Inr auth"
    and fm: "parseFinalMask p (?param [js ''fm'']) = Inr fm"
    and rs: "hop_ranges (?param [js ''mport'', js ''mports'']) auth (mh_hopPorts fm) = Inr rs"
    and obfs: "readObfsPassword (?param [js ''obfs''])
      (?param [js ''obfs-password'', js ''obfspassword'', js ''obfs_password'']) (mh_obfsPassword fm) = Inr obfs"
    and pins: "readPins [?param [js ''pinsha256''], ?param [js ''pcs'']] = Inr pins"
    and ech: "readEchConfigList (?param [js ''ech'']) = Inr ech"
    and link: "hl_port link = range_from (hd written)"
      "hl_hopPorts link = (if coversSeveralPorts rs then Some (formatPortList rs) else None)"
      "hl_hopInterval link = (if hl_hopPorts link = None then None else
        or_else (or_else (parseHopInterval
             (?param [js ''hopinterval'', js ''hop-interval'', js ''hop_interval'', js ''mporthopint''])
             (?param [js ''hop_interval_max''])) (mh_hopInterval fm)) (Some (Seconds HYSTERIA2_DEFAULT_HOP_INTERVAL)))"
      "hl_pinnedCertSha256 link = pins" "hl_echConfigList link = ech" "hl_obfsPassword link = obfs"
      "hl_congestion link = (if mh_congestion fm = Some (js ''force-brutal'') \<and> hl_brutalUp link = None then None
        else mh_congestion fm)"
    using assms(1) by (auto simp: link_rest_def Let_def)
  have fm_ok: "hints_ok fm" using fm by (rule parseFinalMask_ok)
  have rs_ok: "good_ranges rs" using hop_ranges_ok [OF rs written(1) [OF auth]] fm_ok by (simp add: hints_ok_def)
  have port: "1 \<le> hl_port link \<and> hl_port link \<le> 65535"
    using written(2,3) by (cases written) (auto simp: link valid_range_def)
  have interval: "interval_ok i" if "hl_hopInterval link = Some i" for i
    using that fm_ok
    by (auto simp: link hints_ok_def or_else_def HYSTERIA2_DEFAULT_HOP_INTERVAL_def dest: parseHopInterval_ok split: if_splits)
  have some: "hl_hopPorts link \<noteq> None \<Longrightarrow> \<exists>i. hl_hopInterval link = Some i"
    by (auto simp: link or_else_def)
  have hop: "case hl_hopPorts link of None \<Rightarrow> hl_hopInterval link = None
      | Some h \<Rightarrow> (\<exists>rs. readPortList h = Inr rs \<and> separated rs \<and> length rs \<le> 64 \<and> ports_of rs \<subseteq> {1..65535} \<and>
          (\<exists>a \<in> ports_of rs. \<exists>b \<in> ports_of rs. a \<noteq> b)) \<and> (\<exists>i. hl_hopInterval link = Some i \<and> interval_ok i)"
  proof (cases "coversSeveralPorts rs")
    case True
    then have "hl_hopPorts link = Some (formatPortList rs)" by (simp add: link)
    moreover have "separated rs \<and> length rs \<le> 64 \<and> ports_of rs \<subseteq> {1..65535}"
      using rs_ok valid_ports by (simp add: good_ranges_def MAX_HOP_RANGES_def)
    ultimately show ?thesis
      using some interval several_ports [OF rs_ok True] good_read_back [OF rs_ok] by auto
  qed (simp add: link)
  have p: "list_all hex_pin pins \<and> distinct pins"
    using pins read_pins_ok [of _ "[]" pins] by (auto simp: readPins_def)
  have c: "c \<in> set CONGESTION_CONTROLS \<and> (c = js ''force-brutal'' \<longrightarrow> hl_brutalUp link \<noteq> None)"
    if "hl_congestion link = Some c" for c
    using that fm_ok by (auto simp: link hints_ok_def split: if_splits)
  show ?thesis
    unfolding link_sound_def using port hop p c ech obfs
    by (auto simp: link(4-6) dest: readEchConfigList_no_server readObfsPassword_ok)
qed

text \<open>C38: Every accepted Hysteria 2 link: its port is a port; it hops only over a list of at most 64 separate
  ranges with at least two ports, and then with an interval of five seconds or more; its pins are SHA-256
  values in lower-case hex, each once; an ECH value names no server to ask; salamander has a password; and
  a congestion control is one the proxy program knows, \<open>force-brutal\<close> only with a rate.
\<close>

theorem hysteria2_link_sound:
  assumes "parseHysteria2Link p rawUri = Inr link"
  shows "link_sound link"
proof -
  obtain userinfo host portSpec written query fragment where
    ports: "authority_ports portSpec = Inr written"
    and rest: "link_rest p userinfo host written query fragment = Inr link"
    using assms unfolding parseHysteria2Link_def Let_def
    by (auto split: option.splits prod.splits if_splits)
  have "mergePortRanges written = Inr m \<Longrightarrow> good_ranges m" for m
    using ports good_merged good_default by (auto simp: authority_ports_def HYSTERIA2_DEFAULT_PORT_def split: if_splits)
  moreover have "written \<noteq> [] \<and> list_all valid_range written"
    using ports readPortList_valid by (auto simp: authority_ports_def HYSTERIA2_DEFAULT_PORT_def valid_range_def split: if_splits)
  ultimately show ?thesis using link_rest_sound [OF rest] by blast
qed

text \<open>An instance of the platform, and a link that hops.\<close>

definition example_platform :: link_platform where
  "example_platform = \<lparr>lp_query = (\<lambda>q. if q = js ''?mport=443,5000-5002'' then [(js ''mport'', js ''443,5000-5002'')] else []),
     lp_hostname = (\<lambda>t. if t = js ''https://Example.com/'' then Some (js ''example.com'') else None),
     lp_decode = Some, lp_json = (\<lambda>_. None), lp_before = (\<lambda>_ _. True)\<rparr>"

definition example_link :: jsstring where
  "example_link = js ''hy2://pw@Example.com/?mport=443,5000-5002#Home''"

lemma example_uri:
  "uri_scheme example_link = Some (js ''hy2'', js ''pw@Example.com/?mport=443,5000-5002#Home'')"
  "uri_parts (js ''pw@Example.com/?mport=443,5000-5002#Home'') = (js ''pw@Example.com/'', js ''?mport=443,5000-5002'', js ''#Home'')"
  "link_authority (js ''pw@Example.com/'') = (js ''pw'', js ''Example.com'')"
  "isHysteria2Scheme (Some (js ''hy2''))"
  "splitAuthority (js ''Example.com'') = Inr (js ''Example.com'', [])"
  "hd (split_on SERVER_DESCRIPTION (js ''#Home'')) = js ''#Home''"
  by (simp_all add: uri_scheme_def uri_parts_def link_authority_def isHysteria2Scheme_def splitAuthority_def example_link_def
      SERVER_DESCRIPTION_def alpha_iu_def is_alpha_def is_digit_def last_index_of_def starts_with_def Let_def lower_unit_def split_on.simps)

lemma example_host:
  "normalizeHost example_platform (js ''Example.com'') = Inr (js ''example.com'')"
  "authority_ports [] = Inr [\<lparr>range_from = 443, range_to = 443\<rparr>]"
  "mergePortRanges [\<lparr>range_from = 443, range_to = 443\<rparr>] = Inr [\<lparr>range_from = 443, range_to = 443\<rparr>]"
  by (simp_all add: normalizeHost_def example_platform_def strip_host_brackets_def starts_with_def ends_with_def lower_unit_def
      authority_ports_def HYSTERIA2_DEFAULT_PORT_def MAX_HOST_LENGTH_def mergePortRanges_def merge_range_def MAX_HOP_RANGES_def Let_def)

lemma example_ports:
  "hop_ranges (Some (js ''443,5000-5002'')) [\<lparr>range_from = 443, range_to = 443\<rparr>] None =
    Inr [\<lparr>range_from = 443, range_to = 443\<rparr>, \<lparr>range_from = 5000, range_to = 5002\<rparr>]"
proof -
  have "trimmed (Some (js ''443,5000-5002'')) = Some (js ''443,5000-5002'')"
    by (simp add: trimmed_def js_trim_def js_trim_start_def js_trim_end_def js_ws_def)
  moreover have "colons_to_dashes (js ''443,5000-5002'') = js ''443,5000-5002''"
    by (simp add: Let_def is_digit_def js_ws_def)
  moreover have "readPortList (js ''443,5000-5002'') =
      Inr [\<lparr>range_from = 443, range_to = 443\<rparr>, \<lparr>range_from = 5000, range_to = 5002\<rparr>]"
    by (simp add: readPortList_def MAX_HOP_RANGES_def readPortItem_def port_item_def digits_upto_def
      all_digits_def is_digit_def js_trim_def js_trim_start_def js_trim_end_def js_ws_def radix_value_def digit_val_def starts_with_def)
  moreover have "mergePortRanges [\<lparr>range_from = 443, range_to = 443\<rparr>, \<lparr>range_from = 5000, range_to = 5002\<rparr>] =
      Inr [\<lparr>range_from = 443, range_to = 443\<rparr>, \<lparr>range_from = 5000, range_to = 5002\<rparr>]"
    by (simp add: mergePortRanges_def merge_range_def MAX_HOP_RANGES_def)
  ultimately show ?thesis by (simp add: hop_ranges_def)
qed

lemma example_rest:
  "\<exists>l. link_rest example_platform userinfo host [\<lparr>range_from = 443, range_to = 443\<rparr>] (js ''?mport=443,5000-5002'') tail = Inr l \<and>
    hl_hopPorts l \<noteq> None"
proof -
  have q: "lp_query example_platform (js ''?mport=443,5000-5002'') = [(js ''mport'', js ''443,5000-5002'')]"
    by (simp add: example_platform_def)
  have param: "firstParam [(js ''mport'', js ''443,5000-5002'')] [js ''mport'', js ''mports''] = Some (js ''443,5000-5002'')"
    "firstParam [(js ''mport'', js ''443,5000-5002'')] [js ''fm''] = None"
    "firstParam [(js ''mport'', js ''443,5000-5002'')] [js ''obfs''] = None"
    "firstParam [(js ''mport'', js ''443,5000-5002'')] [js ''obfs-password'', js ''obfspassword'', js ''obfs_password''] = None"
    "firstParam [(js ''mport'', js ''443,5000-5002'')] [js ''pinsha256''] = None"
    "firstParam [(js ''mport'', js ''443,5000-5002'')] [js ''pcs''] = None"
    "firstParam [(js ''mport'', js ''443,5000-5002'')] [js ''ech''] = None"
    by (simp_all add: first_value_def lower_unit_def)
  have none: "parseFinalMask p None = Inr no_hints" "readObfsPassword None None None = Inr None"
    "readPins [None, None] = Inr []" "readEchConfigList None = Inr None" "mh_hopPorts no_hints = None"
      "mh_obfsPassword no_hints = None" for p
    by (simp_all add: parseFinalMask_def readObfsPassword_def readPins_def readEchConfigList_def trimmed_def no_hints_def not_empty_def)
  show ?thesis
    unfolding link_rest_def Let_def q param example_host(3) none res_bind.simps example_ports
    by (simp add: coversSeveralPorts_def)
qed

lemma hysteria2_link_sound_witness:
  "\<exists>l. parseHysteria2Link example_platform example_link = Inr l \<and> hl_hopPorts l \<noteq> None \<and> link_sound l"
proof -
  have ne: "(js ''Example.com'' = []) = False" by simp
  have "\<exists>l. parseHysteria2Link example_platform example_link = Inr l \<and> hl_hopPorts l \<noteq> None"
    unfolding parseHysteria2Link_def
    using example_rest by (simp only: example_uri example_host option.case prod.case Let_def res_bind.simps refl if_True if_False not_True_eq_False ne)
  then show ?thesis using hysteria2_link_sound by blast
qed

end
