(* ===== verification/ShareLinks.thy ===== *)
theory ShareLinks
  imports Hysteria2Safety
begin

text \<open>
  Share links of proxy profiles: \<open>share-link-fields.ts\<close>, \<open>share-link-parser.ts\<close> and \<open>share-link-name.ts\<close>
  of \<open>src/core/proxy\<close>.  Beside the platform of \<open>Hysteria2Link\<close>, the URL parser, SHA-256, and the base64 and
  percent coding of whole texts are parameters.
\<close>

section \<open>Platform and profiles\<close>

record parsed_url =
  pu_hostname :: jsstring
  pu_port :: jsstring
  pu_username :: jsstring
  pu_hash :: jsstring
  pu_params :: "(jsstring \<times> jsstring) list"

record share_platform = link_platform +
  sp_url :: "jsstring \<Rightarrow> parsed_url option"          \<comment> \<open>\<open>new URL(text)\<close>, \<open>None\<close> where it throws\<close>
  sp_sha256hex :: "jsstring \<Rightarrow> jsstring"
  sp_fromBase64 :: "jsstring \<Rightarrow> jsstring"             \<comment> \<open>\<open>Buffer.from(text, "base64").toString("utf8")\<close>\<close>
  sp_toBase64 :: "jsstring \<Rightarrow> jsstring"               \<comment> \<open>\<open>Buffer.from(text, "utf8").toString("base64")\<close>\<close>
  sp_encode :: "jsstring \<Rightarrow> jsstring"                 \<comment> \<open>\<open>encodeURIComponent\<close>\<close>

definition link_part :: "share_platform \<Rightarrow> link_platform" where
  "link_part p = link_platform.truncate p"

datatype proxy_protocol = Vless | Vmess | Trojan | Hysteria2
datatype proxy_transport = TcpTransport | Ws | Grpc | Xhttp | Httpupgrade | Mkcp | HttpTransport | HysteriaTransport | UnknownTransport
datatype proxy_security = NoSecurity | TlsSecurity | RealitySecurity | UnknownSecurity

fun protocol_text :: "proxy_protocol \<Rightarrow> jsstring" where
  "protocol_text Vless = js ''vless''"
| "protocol_text Vmess = js ''vmess''"
| "protocol_text Trojan = js ''trojan''"
| "protocol_text Hysteria2 = js ''hysteria2''"

fun transport_text :: "proxy_transport \<Rightarrow> jsstring" where
  "transport_text TcpTransport = js ''tcp''"
| "transport_text Ws = js ''ws''"
| "transport_text Grpc = js ''grpc''"
| "transport_text Xhttp = js ''xhttp''"
| "transport_text Httpupgrade = js ''httpupgrade''"
| "transport_text Mkcp = js ''mkcp''"
| "transport_text HttpTransport = js ''http''"
| "transport_text HysteriaTransport = js ''hysteria''"
| "transport_text UnknownTransport = js ''unknown''"

fun security_text :: "proxy_security \<Rightarrow> jsstring" where
  "security_text NoSecurity = js ''none''"
| "security_text TlsSecurity = js ''tls''"
| "security_text RealitySecurity = js ''reality''"
| "security_text UnknownSecurity = js ''unknown''"

record parsed_profile =
  pp_name :: jsstring
  pp_protocol :: proxy_protocol
  pp_host :: jsstring
  pp_port :: int
  pp_hopPorts :: "jsstring option"
  pp_insecureWithoutPin :: bool
  pp_transport :: proxy_transport
  pp_security :: proxy_security
  pp_flow :: jsstring
  pp_rawUri :: jsstring
  pp_fingerprint :: jsstring

datatype share_error =
    LinkTooLong
  | UnsupportedScheme
  | InvalidUri proxy_protocol
  | HostOrPortMissing proxy_protocol
  | InvalidVmess
  | Hysteria2Error link_error
  | EmptyName
  | NameNotWritten proxy_protocol

section \<open>Fields\<close>

text \<open>
  \<open>String\<close> and \<open>Number\<close> of a JSON value; \<open>None\<close> is a number that is not an integer.  (Of an object with
  a member \<open>toString\<close> JavaScript makes an error; here it prints as any other.)
\<close>

fun value_text :: "json \<Rightarrow> jsstring" where
  "value_text JNull = js ''null''"
| "value_text (JBool b) = (if b then js ''true'' else js ''false'')"
| "value_text (JInteger n) = int_text n"
| "value_text (JFraction t) = t"
| "value_text (JString s) = s"
| "value_text (JArray vs) = js_join [44] (map (\<lambda>v. if v = JNull then [] else value_text v) vs)"
| "value_text (JObject ms) = js ''[object Object]''"

fun value_number :: "json \<Rightarrow> int option" where
  "value_number JNull = Some 0"
| "value_number (JBool b) = Some (if b then 1 else 0)"
| "value_number (JInteger n) = Some n"
| "value_number (JFraction t) = None"
| "value_number v = js_number (value_text v)"

text \<open>\<open>v ?? w\<close>: an absent member or \<open>null\<close> gives way.\<close>

definition given :: "json option \<Rightarrow> json option" where
  "given v = (if v = Some JNull then None else v)"

definition text_or :: "json option \<Rightarrow> jsstring \<Rightarrow> jsstring" where
  "text_or v fallback = (case given v of None \<Rightarrow> fallback | Some w \<Rightarrow> value_text w)"

fun vmessText :: "json option \<Rightarrow> jsstring option" where
  "vmessText (Some (JString s)) = Some s"
| "vmessText (Some (JBool b)) = Some (value_text (JBool b))"
| "vmessText (Some (JInteger n)) = Some (value_text (JInteger n))"
| "vmessText (Some (JFraction t)) = Some t"
| "vmessText _ = None"

definition uriSecurityText :: "proxy_protocol \<Rightarrow> (jsstring \<times> jsstring) list \<Rightarrow> jsstring" where
  "uriSecurityText protocol params =
     (case map_of params (js ''security'') of
        Some s \<Rightarrow> s
      | None \<Rightarrow> (case map_of params (js ''tls'') of
          Some t \<Rightarrow> if t = js ''1'' then js ''tls'' else js ''none''
        | None \<Rightarrow> if protocol = Trojan then js ''tls'' else js ''none''))"

fun vmessSecurityText :: "json option \<Rightarrow> jsstring" where
  "vmessSecurityText None = js ''none''"
| "vmessSecurityText (Some JNull) = js ''none''"
| "vmessSecurityText (Some (JBool b)) = (if b then js ''tls'' else js ''none'')"
| "vmessSecurityText (Some v) = value_text v"

definition canonicalShareLinkHost :: "jsstring \<Rightarrow> jsstring" where
  "canonicalShareLinkHost v = js_lower (strip_host_brackets (js_trim v))"

definition ascii_host :: "jsstring \<Rightarrow> bool" where
  "ascii_host h \<longleftrightarrow> list_all (\<lambda>u. u < 0x80 \<and> u \<noteq> 37) h"

definition shareLinkHostToAscii :: "link_platform \<Rightarrow> jsstring \<Rightarrow> jsstring option" where
  "shareLinkHostToAscii p v =
     (let host = canonicalShareLinkHost v
      in if ascii_host host then Some host
         else if list_ex (\<lambda>u. js_ws u \<or> u \<in> {47, 63, 35, 64, 58, 92, 91, 93}) host then None
         else case lp_hostname p (js ''https://'' @ host @ js ''/'') of
                None \<Rightarrow> None
              | Some h \<Rightarrow> let a = js_lower h
                          in if a \<noteq> [] \<and> list_all (\<lambda>u. 0x21 \<le> u \<and> u \<le> 0x7e \<and> u \<noteq> 37) a then Some a else None)"

section \<open>Reading one link\<close>

definition MAX_LINK_LENGTH :: nat where "MAX_LINK_LENGTH = 64 * 1024"
definition MAX_IMPORT_LINES :: nat where "MAX_IMPORT_LINES = 10000"
definition MAX_IMPORT_TEXT_LENGTH :: nat where "MAX_IMPORT_TEXT_LENGTH = 2 * 1024 * 1024"

definition detectProtocol :: "jsstring \<Rightarrow> share_error + proxy_protocol" where
  "detectProtocol rawUri =
     (let scheme = map_option (\<lambda>(s, _). js_lower s) (uri_scheme rawUri)
      in if scheme = Some (js ''vless'') then Inr Vless
         else if scheme = Some (js ''vmess'') then Inr Vmess
         else if scheme = Some (js ''trojan'') then Inr Trojan
         else if isHysteria2Scheme scheme then Inr Hysteria2 else Inl UnsupportedScheme)"

definition normalizeTransport :: "jsstring \<Rightarrow> proxy_transport" where
  "normalizeTransport v =
     (let t = js_lower (js_trim v)
      in if t = js ''raw'' then TcpTransport
         else if t = js ''kcp'' then Mkcp
         else case find (\<lambda>x. t = transport_text x) [TcpTransport, Ws, Grpc, Xhttp, Mkcp, HysteriaTransport] of
                Some x \<Rightarrow> x
              | None \<Rightarrow> if t \<in> set [js ''httpupgrade'', js ''http-upgrade'', js ''http_upgrade''] then Httpupgrade
                        else UnknownTransport)"

definition normalizeSecurity :: "jsstring \<Rightarrow> proxy_security" where
  "normalizeSecurity v =
     (let t = js_lower (js_trim v)
      in if t \<in> set [[], js ''0'', js ''false'', js ''none''] then NoSecurity
         else if t = js ''tls'' then TlsSecurity
         else if t = js ''reality'' then RealitySecurity else UnknownSecurity)"

definition fingerprint :: "share_platform \<Rightarrow> jsstring \<Rightarrow> jsstring" where
  "fingerprint p v = js ''sha256:'' @ sp_sha256hex p v"

definition decodeName :: "share_platform \<Rightarrow> jsstring \<Rightarrow> jsstring \<Rightarrow> jsstring" where
  "decodeName p hash fallback =
     (if hash = [] then fallback
      else let raw = (if starts_with [35] hash then drop 1 hash else hash);
               name = js_trim (case lp_decode p raw of Some t \<Rightarrow> t | None \<Rightarrow> raw)
           in if name = [] then fallback else name)"

definition valid_port :: "int option \<Rightarrow> bool" where
  "valid_port n = (case n of None \<Rightarrow> False | Some k \<Rightarrow> 1 \<le> k \<and> k \<le> 65535)"

definition fallback_name :: "proxy_protocol \<Rightarrow> jsstring \<Rightarrow> int \<Rightarrow> jsstring" where
  "fallback_name protocol host port = protocol_text protocol @ js ''-'' @ host @ js '':'' @ dec port"

definition canonicalizeUri :: "share_platform \<Rightarrow> parsed_url \<Rightarrow> proxy_protocol \<Rightarrow> jsstring" where
  "canonicalizeUri p url protocol =
     json_text (JObject [(js ''protocol'', JString (protocol_text protocol)), (js ''username'', JString (pu_username url)),
       (js ''host'', JString (canonicalShareLinkHost (pu_hostname url))),
       (js ''port'', JInteger (the (js_number (pu_port url)))),
       (js ''params'', JArray (map (\<lambda>(k, v). JArray [JString k, JString v])
          (sort_by (\<lambda>a b. lp_before p (fst a) (fst b)) (map (\<lambda>(k, v). (js_lower k, v)) (pu_params url))))),
       (js ''hash'', JString (decodeName p (pu_hash url) []))])"

text \<open>\<open>url.searchParams.get(a) ?? url.searchParams.get(b) ?? \<dots>\<close>.\<close>

fun param_of :: "(jsstring \<times> jsstring) list \<Rightarrow> jsstring list \<Rightarrow> jsstring option" where
  "param_of params [] = None"
| "param_of params (k # ks) = (case map_of params k of Some v \<Rightarrow> Some v | None \<Rightarrow> param_of params ks)"

definition param_or :: "(jsstring \<times> jsstring) list \<Rightarrow> jsstring list \<Rightarrow> jsstring \<Rightarrow> jsstring" where
  "param_or params keys fallback = (case param_of params keys of Some v \<Rightarrow> v | None \<Rightarrow> fallback)"

definition parseUriProtocol :: "share_platform \<Rightarrow> jsstring \<Rightarrow> proxy_protocol \<Rightarrow> share_error + parsed_profile" where
  "parseUriProtocol p rawUri protocol =
     (case sp_url p rawUri of
        None \<Rightarrow> Inl (InvalidUri protocol)
      | Some url \<Rightarrow>
          (case shareLinkHostToAscii (link_part p) (pu_hostname url) of
             None \<Rightarrow> Inl (HostOrPortMissing protocol)
           | Some host \<Rightarrow>
               if host = [] \<or> \<not> valid_port (js_number (pu_port url)) then Inl (HostOrPortMissing protocol)
               else let port = the (js_number (pu_port url)); params = pu_params url in
                 Inr \<lparr>pp_name = decodeName p (pu_hash url) (fallback_name protocol host port), pp_protocol = protocol,
                      pp_host = host, pp_port = port, pp_hopPorts = None, pp_insecureWithoutPin = False,
                      pp_transport = normalizeTransport (param_or params [js ''type'', js ''net''] (js ''tcp'')),
                      pp_security = normalizeSecurity (uriSecurityText protocol params),
                      pp_flow = js_trim (param_or params [js ''flow''] []), pp_rawUri = rawUri,
                      pp_fingerprint = fingerprint p (canonicalizeUri p url protocol)\<rparr>))"

definition parseHysteria2 :: "share_platform \<Rightarrow> jsstring \<Rightarrow> share_error + parsed_profile" where
  "parseHysteria2 p rawUri =
     (case parseHysteria2Link (link_part p) rawUri of
        Inl e \<Rightarrow> Inl (Hysteria2Error e)
      | Inr link \<Rightarrow>
          Inr \<lparr>pp_name = hl_name link, pp_protocol = Hysteria2, pp_host = hl_host link, pp_port = int (hl_port link),
               pp_hopPorts = hl_hopPorts link,
               pp_insecureWithoutPin = (hl_insecure link \<and> hl_pinnedCertSha256 link = []),
               pp_transport = HysteriaTransport, pp_security = TlsSecurity, pp_flow = [], pp_rawUri = rawUri,
               pp_fingerprint = fingerprint p (hl_canonical link)\<rparr>)"

text \<open>\<open>replace(/^vmess:\/\//iu, "")\<close>; both letters \<open>s\<close> may be the long \<open>s\<close>.\<close>

definition vmess_prefix :: "jsstring \<Rightarrow> bool" where
  "vmess_prefix s \<longleftrightarrow> map (\<lambda>u. if is_s u then 115 else u) (js_lower (take 8 s)) = js ''vmess://''"

definition strip_vmess :: "jsstring \<Rightarrow> jsstring" where
  "strip_vmess s = (if vmess_prefix s then drop 8 s else s)"

definition pad_base64 :: "jsstring \<Rightarrow> jsstring" where
  "pad_base64 s = s @ replicate ((4 - length s mod 4) mod 4) 61"

definition normalizeBase64 :: "jsstring \<Rightarrow> jsstring" where
  "normalizeBase64 s = pad_base64 (plain_alphabet (filter (\<lambda>u. \<not> js_ws u) s))"

text \<open>
  \<open>{...object, key: v}\<close>: a key that is there keeps its place.  In an object made anew, keys that are array
  indices come first.
\<close>

fun put_member :: "jsstring \<Rightarrow> json \<Rightarrow> (jsstring \<times> json) list \<Rightarrow> (jsstring \<times> json) list" where
  "put_member key v [] = [(key, v)]"
| "put_member key v ((k, w) # ms) = (if k = key then (k, v) # ms else (k, w) # put_member key v ms)"

definition index_key :: "jsstring \<Rightarrow> bool" where
  "index_key k \<longleftrightarrow> all_digits k \<and> radix_string 10 (radix_value 10 k) = k \<and> radix_value 10 k < 2 ^ 32 - 1"

definition object_order :: "(jsstring \<times> json) list \<Rightarrow> (jsstring \<times> json) list" where
  "object_order ms =
     sort_key (\<lambda>m. radix_value 10 (fst m)) (filter (\<lambda>m. index_key (fst m)) ms) @ filter (\<lambda>m. \<not> index_key (fst m)) ms"

definition sortObject :: "share_platform \<Rightarrow> (jsstring \<times> json) list \<Rightarrow> (jsstring \<times> json) list" where
  "sortObject p ms = object_order (sort_by (\<lambda>a b. lp_before p (fst a) (fst b)) ms)"

definition vmess_profile :: "share_platform \<Rightarrow> jsstring \<Rightarrow> (jsstring \<times> json) list \<Rightarrow> share_error + parsed_profile" where
  "vmess_profile p rawUri payload =
     (let canonicalHost = canonicalShareLinkHost (text_or (map_of payload (js ''add'')) []);
          number = Option.bind (map_of payload (js ''port'')) value_number
      in case shareLinkHostToAscii (link_part p) canonicalHost of
           None \<Rightarrow> Inl (HostOrPortMissing Vmess)
         | Some host \<Rightarrow>
             if host = [] \<or> \<not> valid_port number then Inl (HostOrPortMissing Vmess)
             else let port = the number; fallback = fallback_name Vmess host port;
                      name = js_trim (text_or (map_of payload (js ''ps'')) fallback);
                      transport = normalizeTransport (case vmessText (map_of payload (js ''net'')) of Some t \<Rightarrow> t | None \<Rightarrow> js ''tcp'');
                      security = normalizeSecurity (vmessSecurityText (map_of payload (js ''tls'')));
                      normalized = json_text (JObject (sortObject p
                        (put_member (js ''tls'') (JString (security_text security))
                        (put_member (js ''net'') (JString (transport_text transport))
                        (put_member (js ''port'') (JInteger port)
                        (put_member (js ''add'') (JString canonicalHost) payload))))))
                  in Inr \<lparr>pp_name = (if name = [] then fallback else name), pp_protocol = Vmess, pp_host = host,
                          pp_port = port, pp_hopPorts = None, pp_insecureWithoutPin = False,
                          pp_transport = transport, pp_security = security,
                          pp_flow = js_trim (text_or (map_of payload (js ''flow'')) []), pp_rawUri = rawUri,
                          pp_fingerprint = fingerprint p (js ''vmess:'' @ normalized)\<rparr>)"

text \<open>An array has none of the members, so it is refused for its missing address.\<close>

definition parseVmess :: "share_platform \<Rightarrow> jsstring \<Rightarrow> share_error + parsed_profile" where
  "parseVmess p rawUri =
     (case lp_json p (sp_fromBase64 p (normalizeBase64 (js_trim (strip_vmess rawUri)))) of
        None \<Rightarrow> Inl InvalidVmess
      | Some (JObject payload) \<Rightarrow> vmess_profile p rawUri payload
      | Some _ \<Rightarrow> Inl (HostOrPortMissing Vmess))"

definition parseProxyShareLink :: "share_platform \<Rightarrow> jsstring \<Rightarrow> share_error + parsed_profile" where
  "parseProxyShareLink p rawUri =
     (if MAX_LINK_LENGTH < length rawUri then Inl LinkTooLong
      else res_bind (detectProtocol rawUri) (\<lambda>protocol.
        if protocol = Vmess then parseVmess p rawUri
        else if protocol = Hysteria2 then parseHysteria2 p rawUri
        else parseUriProtocol p rawUri protocol))"

section \<open>Importing a list\<close>

datatype import_error = TextTooLong | TooManyLines nat | LineTooLong nat | LineError nat share_error

record import_result =
  ir_profiles :: "parsed_profile list"
  ir_errors :: "import_error list"
  ir_skipped :: nat

text \<open>One line.  A carriage return before the line feed belongs to the line break; here \<open>trim\<close> takes it away.\<close>

definition import_line :: "share_platform \<Rightarrow> nat \<Rightarrow> jsstring \<Rightarrow> import_result \<Rightarrow> import_result" where
  "import_line p number rawLine r =
     (let line = js_trim rawLine
      in if line = [] \<or> starts_with [35] line then r\<lparr>ir_skipped := ir_skipped r + 1\<rparr>
         else if MAX_LINK_LENGTH < length line then r\<lparr>ir_errors := ir_errors r @ [LineTooLong number]\<rparr>
         else case parseProxyShareLink p line of
                Inr profile \<Rightarrow> r\<lparr>ir_profiles := ir_profiles r @ [profile]\<rparr>
              | Inl e \<Rightarrow> r\<lparr>ir_errors := ir_errors r @ [LineError number e]\<rparr>)"

fun import_lines :: "share_platform \<Rightarrow> nat \<Rightarrow> jsstring list \<Rightarrow> import_result \<Rightarrow> import_result" where
  "import_lines p number [] r = r"
| "import_lines p number (line # rest) r = import_lines p (number + 1) rest (import_line p number line r)"

definition parseProxyShareLinks :: "share_platform \<Rightarrow> jsstring \<Rightarrow> import_result" where
  "parseProxyShareLinks p text =
     (if MAX_IMPORT_TEXT_LENGTH < length text
      then \<lparr>ir_profiles = [], ir_errors = [TextTooLong], ir_skipped = 0\<rparr>
      else let lines = split_on [10] text
           in import_lines p 1 (take MAX_IMPORT_LINES lines)
                \<lparr>ir_profiles = [], ir_errors = (if MAX_IMPORT_LINES < length lines then [TooManyLines (length lines)] else []),
                 ir_skipped = 0\<rparr>)"

section \<open>Writing a name into a link\<close>

definition cut_at :: "jsstring \<Rightarrow> jsstring \<Rightarrow> jsstring option" where
  "cut_at sep s = (if js_includes sep s then Some (drop (length (hd (split_on sep s))) s) else None)"

definition withFragmentName :: "share_platform \<Rightarrow> jsstring \<Rightarrow> jsstring \<Rightarrow> bool \<Rightarrow> jsstring" where
  "withFragmentName p rawUri name keepDescription =
     (let head = takeWhile (\<lambda>u. u \<noteq> 35) rawUri; fragment = drop (length head + 1) rawUri;
          tail = (if keepDescription then (case cut_at SERVER_DESCRIPTION fragment of Some t \<Rightarrow> t | None \<Rightarrow> []) else [])
      in head @ [35] @ sp_encode p name @ tail)"

text \<open>The parser has accepted the link, so its payload is an object.\<close>

definition withVmessName :: "share_platform \<Rightarrow> jsstring \<Rightarrow> jsstring \<Rightarrow> share_error + jsstring" where
  "withVmessName p rawUri name =
     (let scheme = (if vmess_prefix rawUri then take 8 rawUri else js ''vmess://'');
          body = filter (\<lambda>u. \<not> js_ws u) (drop (length scheme) rawUri);
          standard = plain_alphabet body
      in case lp_json p (sp_fromBase64 p (pad_base64 standard)) of
           Some (JObject payload) \<Rightarrow>
             let encoded = sp_toBase64 p (json_text (JObject (put_member (js ''ps'') (JString name) payload)));
                 alphabet = (if 45 \<in> set body \<or> 95 \<in> set body
                             then map (\<lambda>u. if u = 43 then 45 else if u = 47 then 95 else u) encoded else encoded)
             in Inr (scheme @ (if 61 \<in> set body \<or> length body mod 4 = 0 then alphabet
                               else rev (dropWhile (\<lambda>u. u = 61) (rev alphabet))))
         | _ \<Rightarrow> Inl InvalidVmess)"

text \<open>Every field but the name, the link and the fingerprint is the same.\<close>

definition only_name_changed :: "parsed_profile \<Rightarrow> parsed_profile \<Rightarrow> jsstring \<Rightarrow> bool" where
  "only_name_changed original renamed name \<longleftrightarrow>
     renamed = original\<lparr>pp_name := name, pp_rawUri := pp_rawUri renamed, pp_fingerprint := pp_fingerprint renamed\<rparr>"

definition withShareLinkName :: "share_platform \<Rightarrow> jsstring \<Rightarrow> jsstring \<Rightarrow> share_error + jsstring" where
  "withShareLinkName p rawUri name =
     (if js_trim name = [] then Inl EmptyName
      else res_bind (parseProxyShareLink p rawUri) (\<lambda>original.
        if pp_name original = name then Inr rawUri
        else res_bind (if pp_protocol original = Vmess then withVmessName p rawUri name
                       else Inr (withFragmentName p rawUri name (pp_protocol original = Hysteria2))) (\<lambda>out.
        res_bind (parseProxyShareLink p out) (\<lambda>renamed.
        if only_name_changed original renamed name then Inr out else Inl (NameNotWritten (pp_protocol original))))))"

end
