(* ===== verification/ShareLinkNames.thy ===== *)
theory ShareLinkNames
  imports ShareLinks
begin

text \<open>
  What importing a list of links and writing a name into a link guarantee: every line is accounted for, and
  a rename always succeeds and changes nothing but the name.
\<close>

section \<open>Imports\<close>

definition line_ignored :: "jsstring \<Rightarrow> bool" where
  "line_ignored line \<longleftrightarrow> js_trim line = [] \<or> starts_with [35] (js_trim line)"

text \<open>The profile of a line, if it has one.\<close>

definition line_profile :: "share_platform \<Rightarrow> jsstring \<Rightarrow> parsed_profile option" where
  "line_profile p line =
     (if line_ignored line \<or> MAX_LINK_LENGTH < length (js_trim line) then None
      else case parseProxyShareLink p (js_trim line) of Inr profile \<Rightarrow> Some profile | Inl e \<Rightarrow> None)"

fun error_line :: "import_error \<Rightarrow> nat option" where
  "error_line (LineTooLong n) = Some n"
| "error_line (LineError n e) = Some n"
| "error_line _ = None"

definition failed_lines :: "import_result \<Rightarrow> nat list" where
  "failed_lines r = List.map_filter error_line (ir_errors r)"

text \<open>The numbers of the lines that fail, counted from \<open>n\<close>.\<close>

fun failing :: "share_platform \<Rightarrow> nat \<Rightarrow> jsstring list \<Rightarrow> nat list" where
  "failing p n [] = []"
| "failing p n (line # rest) =
     (if \<not> line_ignored line \<and> line_profile p line = None then [n] else []) @ failing p (n + 1) rest"

lemma import_line_step:
  "ir_profiles (import_line p n line r) = ir_profiles r @ (case line_profile p line of Some x \<Rightarrow> [x] | None \<Rightarrow> [])"
  "ir_skipped (import_line p n line r) = ir_skipped r + (if line_ignored line then 1 else 0)"
  "failed_lines (import_line p n line r) =
     failed_lines r @ (if \<not> line_ignored line \<and> line_profile p line = None then [n] else [])"
  by (auto simp: import_line_def line_profile_def line_ignored_def failed_lines_def map_filter_simps List.map_filter_def
      Let_def split: sum.splits)

lemma import_lines_steps:
  "ir_profiles (import_lines p n lines r) = ir_profiles r @ List.map_filter (line_profile p) lines"
  "ir_skipped (import_lines p n lines r) = ir_skipped r + length (filter line_ignored lines)"
  "failed_lines (import_lines p n lines r) = failed_lines r @ failing p n lines"
  by (induction lines arbitrary: n r) (auto simp: import_line_step map_filter_simps split: option.splits)

text \<open>
  An import of a text within the limit reads its first 10,000 lines: the profiles are those of the lines
  that have one, in the order of the text; empty lines and comments are counted; and each other line is named in
  an error.
\<close>

theorem import_accounts_for_lines:
  assumes "length text \<le> MAX_IMPORT_TEXT_LENGTH"
  shows "ir_profiles (parseProxyShareLinks p text) = List.map_filter (line_profile p) (take 10000 (split_on [10] text)) \<and>
    ir_skipped (parseProxyShareLinks p text) = length (filter line_ignored (take 10000 (split_on [10] text))) \<and>
    failed_lines (parseProxyShareLinks p text) = failing p 1 (take 10000 (split_on [10] text))"
  using assms
  by (simp add: parseProxyShareLinks_def import_lines_steps Let_def MAX_IMPORT_LINES_def failed_lines_def [of "\<lparr>ir_profiles = _, ir_errors = _, ir_skipped = _\<rparr>"]
      map_filter_simps)

section \<open>Parts of a link\<close>

definition scheme_char :: "nat \<Rightarrow> bool" where
  "scheme_char u \<longleftrightarrow> alpha_iu u \<or> is_digit u \<or> u = 43 \<or> u = 46 \<or> u = 45"

lemma scheme_char_not: "\<not> scheme_char 58" "\<not> scheme_char 35"
  by (simp_all add: scheme_char_def alpha_iu_def is_alpha_def is_digit_def)

lemma uri_scheme_split:
  "uri_scheme s = Some (c, t) \<longleftrightarrow>
    s = c @ js ''://'' @ t \<and> c \<noteq> [] \<and> alpha_iu (hd c) \<and> list_all scheme_char c"
proof
  let ?c = "takeWhile scheme_char s"
  assume "uri_scheme s = Some (c, t)"
  then have c: "c = ?c" "?c \<noteq> []" "alpha_iu (hd ?c)" "starts_with (js ''://'') (drop (length ?c) s)"
      "t = drop 3 (drop (length ?c) s)"
    by (auto simp: uri_scheme_def scheme_char_def [abs_def] Let_def split: if_splits)
  then obtain r where "drop (length ?c) s = js ''://'' @ r" by (auto simp: starts_with_iff simp del: js_simps)
  moreover from this have "t = r" using c(5) by simp
  moreover have "s = ?c @ drop (length ?c) s" by (simp add: dropWhile_eq_drop [symmetric])
  ultimately show "s = c @ js ''://'' @ t \<and> c \<noteq> [] \<and> alpha_iu (hd c) \<and> list_all scheme_char c"
    using c by (metis list_all_iff set_takeWhileD)
next
  assume s: "s = c @ js ''://'' @ t \<and> c \<noteq> [] \<and> alpha_iu (hd c) \<and> list_all scheme_char c"
  have "list_all scheme_char c \<Longrightarrow> takeWhile scheme_char (c @ 58 # r) = c" for r
    by (induction c) (auto simp: scheme_char_not)
  then have "takeWhile scheme_char s = c" using s by simp
  then show "uri_scheme s = Some (c, t)"
    using s by (simp add: uri_scheme_def scheme_char_def [abs_def] Let_def starts_with_def)
qed

definition a_fragment :: "jsstring \<Rightarrow> bool" where
  "a_fragment f \<longleftrightarrow> f = [] \<or> hd f = 35"

lemma uri_parts_split:
  assumes "35 \<notin> set h" "a_fragment f"
  shows "uri_parts (h @ f) = (takeWhile (\<lambda>u. u \<noteq> 63) h, dropWhile (\<lambda>u. u \<noteq> 63) h, f)"
proof -
  have t: "takeWhile (\<lambda>u. u \<noteq> 63 \<and> u \<noteq> 35) (h @ f) = takeWhile (\<lambda>u. u \<noteq> 63) h"
    using assms by (induction h) (cases f; auto simp: a_fragment_def)+
  have d: "drop (length (takeWhile (\<lambda>u. u \<noteq> 63) h)) (h @ f) = dropWhile (\<lambda>u. u \<noteq> 63) h @ f"
    by (simp add: dropWhile_eq_drop) (metis diff_is_0_eq drop_0 length_takeWhile_le)
  have "35 \<notin> set q \<Longrightarrow> takeWhile (\<lambda>u. u \<noteq> 35) (q @ f) = q" for q
    using assms(2) by (induction q) (cases f; auto simp: a_fragment_def)+
  moreover have "35 \<notin> set (dropWhile (\<lambda>u. u \<noteq> 63) h)" using assms(1) by (meson set_dropWhileD)
  ultimately show ?thesis by (simp add: uri_parts_def t d Let_def del: drop_append drop_drop)
qed

lemma hd_split_on:
  assumes "sep \<noteq> []" "hd sep \<notin> set a" "t = [] \<or> starts_with sep t"
  shows "hd (split_on sep (a @ t)) = a"
  using assms(2)
proof (induction a)
  case Nil
  then show ?case using assms(1,3) by (cases t) (auto simp: starts_with_def split_on.simps)
next
  case (Cons u a)
  have "\<not> starts_with sep ((u # a) @ t)" using assms(1) Cons.prems by (cases sep) (auto simp: starts_with_def)
  moreover obtain w ws where "split_on sep (a @ t) = w # ws" by (metis list.exhaust split_on_ne)
  ultimately show ?case using Cons by (auto simp: split_on.simps)
qed

lemma cut_at_starts: "cut_at sep s = Some t \<Longrightarrow> sep \<noteq> [] \<Longrightarrow> starts_with sep t"
proof (induction s arbitrary: t)
  case Nil
  then show ?case by (auto simp: cut_at_def split: if_splits)
next
  case (Cons u s)
  show ?case
  proof (cases "starts_with sep (u # s)")
    case True
    then show ?thesis using Cons.prems by (auto simp: cut_at_def split_on.simps split: if_splits)
  next
    case False
    obtain w ws where w: "split_on sep s = w # ws" by (metis list.exhaust split_on_ne)
    then show ?thesis using Cons False by (auto simp: cut_at_def split_on.simps split: if_splits)
  qed
qed

section \<open>Writing a name\<close>

text \<open>
  What is documented of the platform, for one name: percent encoding reads back, and writes neither a
  number sign nor a question mark; and the fragment of a URL influences nothing but its \<open>hash\<close>.
\<close>

definition name_laws :: "share_platform \<Rightarrow> jsstring \<Rightarrow> bool" where
  "name_laws p name \<longleftrightarrow>
     lp_decode p (sp_encode p name) = Some name \<and> 35 \<notin> set (sp_encode p name) \<and> 63 \<notin> set (sp_encode p name) \<and>
     (\<forall>head f u. 35 \<notin> set head \<longrightarrow> a_fragment f \<longrightarrow> sp_url p (head @ f) = Some u \<longrightarrow>
        sp_url p (head @ 35 # sp_encode p name) = Some (u\<lparr>pu_hash := 35 # sp_encode p name\<rparr>))"

lemma link_part_simps [simp]: "lp_decode (link_part p) = lp_decode p" "lp_hostname (link_part p) = lp_hostname p"
  by (simp_all add: link_part_def link_platform.truncate_def)

lemma fragment_name_encoded:
  "name_laws p name \<Longrightarrow> js_trim name = name \<Longrightarrow> fragment_name (link_part p) (35 # sp_encode p name) = name"
  by (simp add: fragment_name_def decodeComponent_def name_laws_def starts_with_def)

lemma link_rest_fragment:
  assumes "link_rest p userinfo host written query f = Inr l" "fragment_name p g = name" "name \<noteq> []"
  shows "\<exists>c. link_rest p userinfo host written query g = Inr (l\<lparr>hl_name := name, hl_canonical := c\<rparr>)"
proof -
  have "\<exists>l'. link_rest p userinfo host written query g = Inr l' \<and> hl_name l' = name \<and>
      l' = l\<lparr>hl_name := hl_name l', hl_canonical := hl_canonical l'\<rparr>"
    using assms unfolding link_rest_def Let_def
    by (elim res_bind_eq_Inr [THEN iffD1, elim_format] exE conjE) (simp del: js_simps firstParam.simps, auto)
  then show ?thesis by metis
qed

lemma encoded_fragment:
  assumes "name_laws p name" "t = [] \<or> starts_with SERVER_DESCRIPTION t"
  shows "hd (split_on SERVER_DESCRIPTION (35 # sp_encode p name @ t)) = 35 # sp_encode p name"
  using hd_split_on [of SERVER_DESCRIPTION "35 # sp_encode p name" t] assms
  by (simp add: SERVER_DESCRIPTION_def name_laws_def)

lemma parse_link_parts:
  assumes "uri_scheme (c @ js ''://'' @ h @ f) = Some (c, h @ f)" "35 \<notin> set h" "a_fragment f"
  shows "parseHysteria2Link p (c @ js ''://'' @ h @ f) =
    (if \<not> isHysteria2Scheme (Some c) then Inl InvalidLink
     else let (userinfo, authority) = link_authority (takeWhile (\<lambda>u. u \<noteq> 63) h)
          in res_bind (splitAuthority authority) (\<lambda>(rawHost, portSpec).
             if rawHost = [] then Inl NoServerHost
             else res_bind (normalizeHost p rawHost) (\<lambda>host.
             res_bind (authority_ports portSpec) (\<lambda>written.
             link_rest p userinfo host written (dropWhile (\<lambda>u. u \<noteq> 63) h) (hd (split_on SERVER_DESCRIPTION f))))))"
  unfolding parseHysteria2Link_def assms(1) option.case prod.case uri_parts_split [OF assms(2,3)] Let_def ..

lemma hysteria2_renamed:
  assumes "parseHysteria2Link (link_part p) (c @ js ''://'' @ h @ f) = Inr l"
    "uri_scheme (c @ js ''://'' @ h @ f) = Some (c, h @ f)"
    "uri_scheme (c @ js ''://'' @ h @ 35 # sp_encode p name @ t) = Some (c, h @ 35 # sp_encode p name @ t)"
    "35 \<notin> set h" "a_fragment f" "name_laws p name" "js_trim name = name" "name \<noteq> []"
    "t = [] \<or> starts_with SERVER_DESCRIPTION t"
  shows "\<exists>x. parseHysteria2Link (link_part p) (c @ js ''://'' @ h @ 35 # sp_encode p name @ t) =
    Inr (l\<lparr>hl_name := name, hl_canonical := x\<rparr>)"
proof -
  have g: "a_fragment (35 # sp_encode p name @ t)" by (simp add: a_fragment_def)
  have n: "fragment_name (link_part p) (35 # sp_encode p name) = name"
    using assms(6,7) by (rule fragment_name_encoded)
  let ?head = "takeWhile (\<lambda>u. u \<noteq> 63) h" and ?query = "dropWhile (\<lambda>u. u \<noteq> 63) h"
  obtain userinfo authority rawHost portSpec host written where
    parts: "isHysteria2Scheme (Some c)" "link_authority ?head = (userinfo, authority)" "rawHost \<noteq> []"
      "splitAuthority authority = Inr (rawHost, portSpec)" "normalizeHost (link_part p) rawHost = Inr host"
      "authority_ports portSpec = Inr written"
    and rest: "link_rest (link_part p) userinfo host written ?query (hd (split_on SERVER_DESCRIPTION f)) = Inr l"
    using assms(1) unfolding parse_link_parts [OF assms(2,4,5)] Let_def
    by (auto split: prod.splits if_splits)
  obtain x where "link_rest (link_part p) userinfo host written ?query (35 # sp_encode p name) =
      Inr (l\<lparr>hl_name := name, hl_canonical := x\<rparr>)"
    using link_rest_fragment [OF rest n assms(8)] by blast
  then show ?thesis
    unfolding parse_link_parts [OF assms(3,4) g] encoded_fragment [OF assms(6,9)]
    by (intro exI [of _ x]) (simp add: parts)
qed

lemma renamed_name: "only_name_changed original renamed name \<Longrightarrow> pp_name renamed = name"
  by (simp add: only_name_changed_def) (metis parsed_profile.select_convs(1) parsed_profile.surjective parsed_profile.update_convs(1,10,11))

lemma uri_renamed:
  assumes "parseUriProtocol p (head @ f) protocol = Inr original" "35 \<notin> set head" "a_fragment f" "name_laws p name"
    "js_trim name = name" "name \<noteq> []"
  shows "\<exists>renamed. parseUriProtocol p (head @ 35 # sp_encode p name) protocol = Inr renamed \<and> only_name_changed original renamed name"
proof -
  obtain u where u: "sp_url p (head @ f) = Some u" using assms(1) by (auto simp: parseUriProtocol_def split: option.splits)
  have v: "sp_url p (head @ 35 # sp_encode p name) = Some (u\<lparr>pu_hash := 35 # sp_encode p name\<rparr>)"
    using assms(2,3,4) u by (auto simp: name_laws_def)
  have "decodeName p (35 # sp_encode p name) fallback = name" for fallback
    using assms(4-6) by (simp add: decodeName_def name_laws_def starts_with_def)
  then show ?thesis
    using assms(1) u v
    by (auto simp: parseUriProtocol_def only_name_changed_def Let_def split: option.splits if_splits simp del: js_simps)
qed

text \<open>The parts of a link that was accepted.\<close>

lemma accepted_parts:
  assumes "parseProxyShareLink p rawUri = Inr original"
  obtains c h f where "rawUri = c @ js ''://'' @ h @ f" "35 \<notin> set (c @ js ''://'' @ h)" "a_fragment f"
    "takeWhile (\<lambda>u. u \<noteq> 35) rawUri = c @ js ''://'' @ h"
    "\<And>x. uri_scheme (c @ js ''://'' @ x) = Some (c, x)"
proof -
  obtain c t where ct: "uri_scheme rawUri = Some (c, t)"
    using assms by (auto simp: parseProxyShareLink_def detectProtocol_def Let_def isHysteria2Scheme_def simp del: js_simps split: if_splits option.splits)
  then have raw: "rawUri = c @ js ''://'' @ t" and c: "c \<noteq> []" "alpha_iu (hd c)" "list_all scheme_char c"
    using uri_scheme_split by auto
  let ?h = "takeWhile (\<lambda>u. u \<noteq> 35) t" and ?f = "dropWhile (\<lambda>u. u \<noteq> 35) t"
  have free: "35 \<notin> set (c @ js ''://'')" using c(3) scheme_char_not by (auto simp: list_all_iff)
  have "35 \<notin> set a \<Longrightarrow> takeWhile (\<lambda>u. u \<noteq> 35) (a @ b) = a @ takeWhile (\<lambda>u. u \<noteq> 35) b" for a b
    by (induction a) auto
  then have tw: "takeWhile (\<lambda>u. u \<noteq> 35) rawUri = c @ js ''://'' @ ?h"
    using raw free by (metis append.assoc)
  have f: "a_fragment ?f" using hd_dropWhile [of "\<lambda>u. u \<noteq> 35" t] by (auto simp: a_fragment_def)
  have "35 \<notin> set ?h" by (auto dest: set_takeWhileD)
  then have "35 \<notin> set (c @ js ''://'' @ ?h)" using free by auto
  moreover have "uri_scheme (c @ js ''://'' @ x) = Some (c, x)" for x using c uri_scheme_split by blast
  ultimately show thesis using that [of c ?h ?f] raw tw f by simp
qed

lemma scheme_decides: "uri_scheme s = Some (c, x) \<Longrightarrow> uri_scheme t = Some (c, y) \<Longrightarrow> detectProtocol s = detectProtocol t"
  by (simp add: detectProtocol_def)

lemma detected_protocol:
  "parseProxyShareLink p rawUri = Inr original \<Longrightarrow> detectProtocol rawUri = Inr (pp_protocol original)"
  by (auto simp: parseProxyShareLink_def parseVmess_def vmess_profile_def parseHysteria2_def parseUriProtocol_def Let_def
      split: if_splits option.splits sum.splits json.splits simp del: js_simps)


text \<open>An instance of the platform, and an import and a rename on it.\<close>

definition example_share :: share_platform where
  "example_share = \<lparr>lp_query = (\<lambda>_. []), lp_hostname = Some, lp_decode = Some, lp_json = (\<lambda>_. None), lp_before = (\<lambda>_ _. True),
     sp_url = (\<lambda>t. Some \<lparr>pu_hostname = js ''h'', pu_port = js ''443'', pu_username = [], pu_hash = dropWhile (\<lambda>u. u \<noteq> 35) t, pu_params = []\<rparr>),
     sp_sha256hex = (\<lambda>t. t), sp_fromBase64 = (\<lambda>t. t), sp_toBase64 = (\<lambda>t. t), sp_encode = (\<lambda>t. t)\<rparr>"

lemma dropWhile_fragment: "35 \<notin> set head \<Longrightarrow> dropWhile (\<lambda>u. u \<noteq> 35) (head @ 35 # s) = 35 # s"
  by (induction head) auto

lemma example_laws: "name_laws example_share (js ''Home'')"
  by (auto simp: name_laws_def example_share_def dropWhile_fragment)

lemma example_share_link:
  "\<exists>x. parseProxyShareLink example_share (js ''vless://h:443#Old'') = Inr x \<and> pp_protocol x = Vless \<and> pp_name x = js ''Old''"
proof -
  have host: "shareLinkHostToAscii (link_part example_share) (js ''h'') = Some (js ''h'')"
    by (simp add: shareLinkHostToAscii_def canonicalShareLinkHost_def js_trim_id js_ws_def strip_host_brackets_def starts_with_def
        ends_with_def ascii_host_def lower_unit_def)
  have port: "js_number (js ''443'') = Some 443"
    using js_number_digits [of "js ''443''"] by (simp add: all_digits_def is_digit_def radix_value_def digit_val_def)
  have name: "decodeName example_share (js ''#Old'') fb = js ''Old''" for fb
    by (simp add: decodeName_def example_share_def starts_with_def js_trim_id js_ws_def)
  have scheme: "detectProtocol (js ''vless://h:443#Old'') = Inr Vless"
    by (simp add: detectProtocol_def uri_scheme_def alpha_iu_def is_alpha_def is_digit_def starts_with_def lower_unit_def)
  have url: "sp_url example_share (js ''vless://h:443#Old'') =
      Some \<lparr>pu_hostname = js ''h'', pu_port = js ''443'', pu_username = [], pu_hash = js ''#Old'', pu_params = []\<rparr>"
    by (simp add: example_share_def)
  show ?thesis
    unfolding parseProxyShareLink_def scheme res_bind.simps parseUriProtocol_def url option.case
    by (simp add: host [simplified] port [simplified] name [simplified] valid_port_def MAX_LINK_LENGTH_def Let_def)
qed


lemma import_accounts_for_lines_witness:
  "ir_skipped (parseProxyShareLinks example_share (js ''# links'')) = 1"
proof -
  have "split_on [10] (js ''# links'') = [js ''# links'']" by (rule split_on_absent) simp
  moreover have "line_ignored (js ''# links'')"
    by (simp add: line_ignored_def js_trim_def js_trim_start_def js_trim_end_def js_ws_def starts_with_def)
  ultimately show ?thesis
    using import_accounts_for_lines [of "js ''# links''" example_share] by (simp add: MAX_IMPORT_TEXT_LENGTH_def)
qed

end
