(* ===== verification/ProxyReader.thy ===== *)
theory ProxyReader
  imports Utf8 IpPrinting
begin

text \<open>
  \<open>ProxySocketReader\<close> and the errors of \<open>src/core/network/socks5-proxy.ts\<close>.  A socket is what the peer
  will still send: the chunks of its \<open>data\<close> events in order, after which the connection is closed or
  fails (the handshake deadline closes a silent one).  The reader keeps what it has not consumed in a
  buffer; what it answers is in \<open>pr_written\<close>.
\<close>

section \<open>Errors\<close>

datatype failure_protocol = FHttp | FSocks5 | FSocks4 | FUnknown

text \<open>The messages: fixed texts, and the ones with a value in them.\<close>

datatype proxy_message =
    Text string
  | UnsupportedFirstByte byte
  | UnsupportedAddressType byte
  | FieldTooLong string
  | DuplicateHeader jsstring
  | InvalidTargetPort jsstring
  | SocketMessage jsstring

datatype proxy_error =
    HandshakeError proxy_message failure_protocol bool
  | PlainError proxy_message

section \<open>The reader\<close>

datatype socket_end = SocketClosed | SocketFailed jsstring

record proxy_reader =
  pr_buffer :: bytes
  pr_incoming :: "bytes list"
  pr_end :: socket_end
  pr_written :: "bytes list"

type_synonym 'a proxy_op = "(proxy_reader, proxy_error, 'a) op"

definition reader_on :: "bytes list \<Rightarrow> socket_end \<Rightarrow> proxy_reader" where
  "reader_on chunks ending = \<lparr>pr_buffer = [], pr_incoming = chunks, pr_end = ending, pr_written = []\<rparr>"

text \<open>How \<open>readSocketChunk\<close> rejects when no further chunk comes.\<close>

definition socket_error :: "string \<Rightarrow> failure_protocol \<Rightarrow> socket_end \<Rightarrow> proxy_error" where
  "socket_error closeMessage closeProtocol ending = (case ending of
       SocketClosed \<Rightarrow> HandshakeError (Text closeMessage) closeProtocol False
     | SocketFailed message \<Rightarrow> PlainError (SocketMessage message))"

fun fill :: "nat \<Rightarrow> bytes \<Rightarrow> bytes list \<Rightarrow> bytes \<times> bytes list" where
  "fill n buffer [] = (buffer, [])"
| "fill n buffer (chunk # chunks) =
     (if n \<le> length buffer then (buffer, chunk # chunks) else fill n (buffer @ chunk) chunks)"

definition pr_read :: "nat \<Rightarrow> bytes proxy_op" where
  "pr_read n s =
     (if n = 0 then (Inr [], s)
      else let (buffer, incoming) = fill n (pr_buffer s) (pr_incoming s);
               s' = s\<lparr>pr_buffer := buffer, pr_incoming := incoming\<rparr> in
        if length buffer < n then (Inl (socket_error ''SOCKS/HTTP proxy socket closed during handshake.'' FSocks5 (pr_end s)), s')
        else (Inr (take n buffer), s'\<lparr>pr_buffer := drop n buffer\<rparr>))"

definition pr_write :: "bytes \<Rightarrow> unit proxy_op" where
  "pr_write data s = (Inr (), s\<lparr>pr_written := pr_written s @ [data]\<rparr>)"

definition pr_takeBuffered :: "bytes proxy_op" where
  "pr_takeBuffered s = (Inr (pr_buffer s), s\<lparr>pr_buffer := []\<rparr>)"

text \<open>\<open>headerBuffer.indexOf("\r\n\r\n")\<close>.\<close>

fun header_end :: "bytes \<Rightarrow> nat option" where
  "header_end [] = None"
| "header_end (b # bs) =
     (if take 4 (b # bs) = [13, 10, 13, 10] then Some 0 else map_option Suc (header_end bs))"

definition MAX_HEADER_BYTES :: nat where "MAX_HEADER_BYTES = 64 * 1024"

text \<open>The loop of \<open>readHttpHeader\<close>.  The reader's buffer joins the header first if it is not empty.\<close>

fun header_loop :: "bytes \<Rightarrow> socket_end \<Rightarrow> bytes list \<Rightarrow> (proxy_error + bytes \<times> bytes) \<times> bytes list" where
  "header_loop headerBuffer ending chunks =
     (case header_end headerBuffer of
        Some headerEnd \<Rightarrow>
          (if MAX_HEADER_BYTES < headerEnd + 4
             then Inl (HandshakeError (Text ''HTTP proxy request header is too large.'') FHttp False)
           else Inr (take (headerEnd + 4) headerBuffer, drop (headerEnd + 4) headerBuffer), chunks)
      | None \<Rightarrow>
          if MAX_HEADER_BYTES \<le> length headerBuffer
            then (Inl (HandshakeError (Text ''HTTP proxy request header is too large.'') FHttp False), chunks)
          else (case chunks of
              [] \<Rightarrow> (Inl (socket_error ''HTTP proxy socket closed during handshake.'' FHttp ending), [])
            | chunk # chunks' \<Rightarrow> header_loop (headerBuffer @ chunk) ending chunks'))"

definition pr_readHttpHeader :: "bytes \<Rightarrow> (bytes \<times> bytes) proxy_op" where
  "pr_readHttpHeader initial s =
     (let chunks = (if pr_buffer s = [] then pr_incoming s else pr_buffer s # pr_incoming s);
          enters = header_end initial = None \<and> length initial < MAX_HEADER_BYTES;
          (result, chunks') = header_loop initial (pr_end s) chunks in
      if enters then (result, s\<lparr>pr_buffer := [], pr_incoming := chunks'\<rparr>) else (result, s))"

declare header_loop.simps [simp del]

section \<open>The stream behind the chunks\<close>

text \<open>What the peer has sent and will send, no matter how it is cut.\<close>

definition pr_stream :: "proxy_reader \<Rightarrow> bytes" where
  "pr_stream s = pr_buffer s @ concat (pr_incoming s)"

definition same_stream :: "proxy_reader \<Rightarrow> proxy_reader \<Rightarrow> bool" where
  "same_stream s t \<longleftrightarrow> pr_stream s = pr_stream t \<and> pr_end s = pr_end t \<and> pr_written s = pr_written t"

lemma same_stream_refl [simp]: "same_stream s s"
  by (simp add: same_stream_def)

text \<open>An operation whose result and effect depend on the stream only.\<close>

definition stream_op :: "'a proxy_op \<Rightarrow> bool" where
  "stream_op m \<longleftrightarrow> (\<forall>s t. same_stream s t \<longrightarrow> fst (m s) = fst (m t) \<and> same_stream (snd (m s)) (snd (m t)))"

lemma stream_opD: "stream_op m \<Longrightarrow> same_stream s t \<Longrightarrow> fst (m s) = fst (m t) \<and> same_stream (snd (m s)) (snd (m t))"
  by (simp add: stream_op_def)

named_theorems stream_intros "operations that depend on the stream only"

lemma stream_op_return [stream_intros]: "stream_op (op_return x)"
  by (simp add: stream_op_def op_return_def)

lemma stream_op_throw [stream_intros]: "stream_op (op_throw e)"
  by (simp add: stream_op_def op_throw_def)

lemma stream_op_require [stream_intros]: "stream_op (op_require b e)"
  by (simp add: stream_op_def op_require_def)

lemma stream_op_lift [stream_intros]: "stream_op (op_lift r)"
  by (simp add: stream_op_def op_lift_def)

lemma stream_op_write [stream_intros]: "stream_op (pr_write d)"
  by (simp add: stream_op_def pr_write_def same_stream_def pr_stream_def)

lemma stream_op_bind [stream_intros]:
  assumes "stream_op m" "\<And>x. stream_op (f x)"
  shows "stream_op (op_bind m f)"
  unfolding stream_op_def
proof (intro allI impI)
  fix s t assume st: "same_stream s t"
  obtain r s' r' t' where m: "m s = (r, s')" "m t = (r', t')" by (cases "m s", cases "m t") auto
  have "r' = r" "same_stream s' t'" using stream_opD [OF assms(1) st] m by simp_all
  then show "fst (op_bind m f s) = fst (op_bind m f t) \<and> same_stream (snd (op_bind m f s)) (snd (op_bind m f t))"
    using m stream_opD [OF assms(2)] by (cases r) (simp_all add: op_bind_def)
qed

lemma stream_op_if [stream_intros]: "stream_op m \<Longrightarrow> stream_op m' \<Longrightarrow> stream_op (if b then m else m')"
  by simp

lemma fill_stream:
  "fst (fill n buffer chunks) @ concat (snd (fill n buffer chunks)) = buffer @ concat chunks"
  by (induction n buffer chunks rule: fill.induct) auto

lemma fill_enough: "n \<le> length (buffer @ concat chunks) \<Longrightarrow> n \<le> length (fst (fill n buffer chunks))"
  by (induction n buffer chunks rule: fill.induct) auto

lemma fill_short: "length (buffer @ concat chunks) < n \<Longrightarrow> fill n buffer chunks = (buffer @ concat chunks, [])"
  by (induction n buffer chunks rule: fill.induct) auto

text \<open>\<open>read\<close> on the stream: the next \<open>n\<close> bytes, or the error of a connection that ends too early.\<close>

lemma pr_read_stream:
  "fst (pr_read n s) = (if n \<le> length (pr_stream s) then Inr (take n (pr_stream s))
     else Inl (socket_error ''SOCKS/HTTP proxy socket closed during handshake.'' FSocks5 (pr_end s)))"
  "pr_stream (snd (pr_read n s)) = (if n \<le> length (pr_stream s) then drop n (pr_stream s) else pr_stream s)"
  "pr_end (snd (pr_read n s)) = pr_end s"
  "pr_written (snd (pr_read n s)) = pr_written s"
proof -
  obtain b c where f: "fill n (pr_buffer s) (pr_incoming s) = (b, c)" by fastforce
  have st: "b @ concat c = pr_stream s" using fill_stream [of n "pr_buffer s" "pr_incoming s"] f by (simp add: pr_stream_def)
  have l: "n \<le> length b \<longleftrightarrow> n \<le> length (pr_stream s)"
    using fill_enough [of n "pr_buffer s" "pr_incoming s"] f arg_cong [OF st, of length] by (auto simp: pr_stream_def)
  have t: "take n (pr_stream s) = take n b" "drop n (pr_stream s) = drop n b @ concat c" if "n \<le> length b"
    using that by (simp_all add: st [symmetric])
  show "fst (pr_read n s) = (if n \<le> length (pr_stream s) then Inr (take n (pr_stream s))
     else Inl (socket_error ''SOCKS/HTTP proxy socket closed during handshake.'' FSocks5 (pr_end s)))"
    using l t by (auto simp: pr_read_def f)
  show "pr_stream (snd (pr_read n s)) = (if n \<le> length (pr_stream s) then drop n (pr_stream s) else pr_stream s)"
    using l t st by (auto simp: pr_read_def f) (auto simp: pr_stream_def)
  show "pr_end (snd (pr_read n s)) = pr_end s" "pr_written (snd (pr_read n s)) = pr_written s"
    by (simp_all add: pr_read_def f Let_def)
qed

lemma stream_op_read [stream_intros]: "stream_op (pr_read n)"
  by (auto simp: stream_op_def same_stream_def pr_read_stream)


section \<open>The header on the stream\<close>

lemma header_end_Some: "header_end s = Some e \<Longrightarrow> e + 4 \<le> length s \<and> take 4 (drop e s) = [13, 10, 13, 10]"
proof (induction s arbitrary: e)
  case (Cons b s)
  show ?case
  proof (cases "take 4 (b # s) = [13, 10, 13, 10]")
    case True
    then have "length (take 4 (b # s)) = 4" by simp
    then have "4 \<le> length (b # s)" by (metis length_take min_def nat_le_linear)
    then show ?thesis using Cons.prems True by simp
  next
    case False
    then obtain e' where "header_end s = Some e'" "e = Suc e'" using Cons.prems by auto
    then show ?thesis using Cons.IH [of e'] by simp
  qed
qed simp

lemma header_end_None: "header_end s = None \<Longrightarrow> take 4 (drop e s) \<noteq> [13, 10, 13, 10]"
proof (induction s arbitrary: e)
  case (Cons b s)
  then show ?case by (cases e) (auto split: if_splits)
qed simp

lemma header_end_append: "header_end a = Some e \<Longrightarrow> header_end (a @ b) = Some e"
proof (induction a arbitrary: e)
  case (Cons x a)
  show ?case
  proof (cases "take 4 (x # a) = [13, 10, 13, 10]")
    case True
    then have "4 \<le> length (x # a)" using header_end_Some [of "x # a" 0] by simp
    then have "take 4 ((x # a) @ b) = take 4 (x # a)" by simp
    then show ?thesis using True Cons.prems by simp
  next
    case False
    then obtain e' where e': "header_end a = Some e'" "e = Suc e'" using Cons.prems by auto
    then have "4 \<le> length a" using header_end_Some by fastforce
    then have "take 4 ((x # a) @ b) = take 4 (x # a)" by (simp only: take_append) simp
    then have "take 4 (x # (a @ b)) \<noteq> [13, 10, 13, 10]" using False by (metis append_Cons)
    then have "header_end ((x # a) @ b) = map_option Suc (header_end (a @ b))"
      by (simp only: append_Cons header_end.simps if_False)
    then show ?thesis using e' Cons.IH [of e'] by simp
  qed
qed simp

lemma header_end_later:
  assumes "header_end a = None" "header_end (a @ b) = Some e"
  shows "length a < e + 4"
proof (rule ccontr)
  assume "\<not> length a < e + 4"
  then have "take 4 (drop e (a @ b)) = take 4 (drop e a)" by simp
  then show False using header_end_Some [OF assms(2)] header_end_None [OF assms(1), of e] by metis
qed

text \<open>The outcome as a function of the complete stream.\<close>

definition header_result :: "socket_end \<Rightarrow> bytes \<Rightarrow> proxy_error + bytes" where
  "header_result ending stream = (case header_end stream of
       Some e \<Rightarrow> if MAX_HEADER_BYTES < e + 4
         then Inl (HandshakeError (Text ''HTTP proxy request header is too large.'') FHttp False) else Inr (take (e + 4) stream)
     | None \<Rightarrow> if MAX_HEADER_BYTES \<le> length stream
         then Inl (HandshakeError (Text ''HTTP proxy request header is too large.'') FHttp False)
         else Inl (socket_error ''HTTP proxy socket closed during handshake.'' FHttp ending))"

lemma header_loop_stream:
  "(case fst (header_loop h ending chunks) of
      Inl e \<Rightarrow> header_result ending (h @ concat chunks) = Inl e
    | Inr (header, rest) \<Rightarrow> header_result ending (h @ concat chunks) = Inr header \<and>
        header @ rest @ concat (snd (header_loop h ending chunks)) = h @ concat chunks)"
proof (induction h ending chunks rule: header_loop.induct)
  case (1 h ending chunks)
  consider (found) e where "header_end h = Some e" | (large) "header_end h = None" "MAX_HEADER_BYTES \<le> length h"
    | (ended) "header_end h = None" "length h < MAX_HEADER_BYTES" "chunks = []"
    | (more) c cs where "header_end h = None" "length h < MAX_HEADER_BYTES" "chunks = c # cs"
    by (cases "header_end h"; cases chunks) force+
  then show ?case
  proof cases
    case found
    have "header_end (h @ concat chunks) = Some e" "e + 4 \<le> length h"
      using header_end_append [OF found] header_end_Some [OF found] by simp_all
    then show ?thesis by (subst (1 2) header_loop.simps) (simp add: found header_result_def)
  next
    case large
    have "header_result ending (h @ concat chunks) = Inl (HandshakeError (Text ''HTTP proxy request header is too large.'') FHttp False)"
      using header_end_later [OF large(1), of "concat chunks"] large(2)
      by (force simp: header_result_def split: option.split)
    then show ?thesis by (subst (1 2) header_loop.simps) (simp add: large)
  next
    case ended
    then show ?thesis by (subst (1 2) header_loop.simps) (simp add: header_result_def)
  next
    case more
    have step: "header_loop h ending chunks = header_loop (h @ c) ending cs"
      by (subst header_loop.simps) (simp add: more linorder_not_le [THEN iffD2, OF more(2)])
    have "h @ concat chunks = (h @ c) @ concat cs" using more by simp
    then show ?thesis unfolding step using "1.IH" [OF more(1) linorder_not_le [THEN iffD2, OF more(2)] more(3)] by (simp only:)
  qed
qed

lemma readHttpHeader_stream:
  "case fst (pr_readHttpHeader h s) of
      Inl e \<Rightarrow> header_result (pr_end s) (h @ pr_stream s) = Inl e
    | Inr (header, rest) \<Rightarrow> header_result (pr_end s) (h @ pr_stream s) = Inr header \<and>
        header @ rest @ pr_stream (snd (pr_readHttpHeader h s)) = h @ pr_stream s"
  "pr_end (snd (pr_readHttpHeader h s)) = pr_end s"
  "pr_written (snd (pr_readHttpHeader h s)) = pr_written s"
proof -
  define chunks where "chunks = (if pr_buffer s = [] then pr_incoming s else pr_buffer s # pr_incoming s)"
  have c: "concat chunks = pr_stream s" by (simp add: pr_stream_def chunks_def)
  obtain r cs where l: "header_loop h (pr_end s) chunks = (r, cs)" by fastforce
  have "snd (header_loop h (pr_end s) chunks) = chunks" if "\<not> (header_end h = None \<and> length h < MAX_HEADER_BYTES)"
    using that by (subst header_loop.simps) (auto split: option.split)
  then have stays: "concat cs = pr_stream s" if "\<not> (header_end h = None \<and> length h < MAX_HEADER_BYTES)"
    unfolding c [symmetric] using that l by simp
  have r: "fst (pr_readHttpHeader h s) = r" "pr_stream (snd (pr_readHttpHeader h s)) = concat cs"
    using stays l unfolding pr_readHttpHeader_def Let_def chunks_def [symmetric] by (simp_all split: prod.split) (auto simp: pr_stream_def)
  show "case fst (pr_readHttpHeader h s) of
      Inl e \<Rightarrow> header_result (pr_end s) (h @ pr_stream s) = Inl e
    | Inr (header, rest) \<Rightarrow> header_result (pr_end s) (h @ pr_stream s) = Inr header \<and>
        header @ rest @ pr_stream (snd (pr_readHttpHeader h s)) = h @ pr_stream s"
    using header_loop_stream [where h = h and ending = "pr_end s" and chunks = chunks] unfolding c l r fst_conv snd_conv .
  show "pr_end (snd (pr_readHttpHeader h s)) = pr_end s" "pr_written (snd (pr_readHttpHeader h s)) = pr_written s"
    unfolding pr_readHttpHeader_def Let_def by (auto split: prod.split)
qed

end
