(* ===== verification/HttpProxy.thy ===== *)
theory HttpProxy
  imports ProxyReader DomainLists
begin

text \<open>
  The HTTP side of \<open>src/core/network/socks5-proxy.ts\<close>: request line, headers, targets, the header sent
  on to the origin, the framing of the body, and the gate that lets exactly one request body through.
  Node's WHATWG \<open>URL\<close> parser, whose \<open>port\<close> is empty or decimal, is the parameter \<open>parse_url\<close>; \<open>None\<close> is its \<open>TypeError\<close>.
\<close>

section \<open>Data\<close>

record tcp_target =
  tt_host :: jsstring
  tt_port :: int

record url_parts =
  url_protocol :: jsstring
  url_hostname :: jsstring
  url_port :: jsstring
  url_pathname :: jsstring
  url_search :: jsstring

datatype proxy_protocol = Socks5 | Socks4 | HttpConnect | HttpForward

datatype body_mode = BodyNone | BodyLength | BodyChunked | BodyStream

record forward_body =
  fb_mode :: body_mode
  fb_contentLength :: "nat option"
  fb_initialData :: bytes

record connect_request =
  cr_protocol :: proxy_protocol
  cr_target :: tcp_target
  cr_initialData :: "bytes option"
  cr_httpForwardBody :: "forward_body option"

abbreviation http_error :: "string \<Rightarrow> proxy_error" where
  "http_error message \<equiv> HandshakeError (Text message) FHttp False"

abbreviation plain_error :: "string \<Rightarrow> proxy_error" where
  "plain_error message \<equiv> PlainError (Text message)"

definition latin1 :: "bytes \<Rightarrow> jsstring" where
  "latin1 bs = map unat bs"

text \<open>\<open>Buffer.from(text, "latin1")\<close> keeps the low byte of every unit.\<close>

definition latin1_bytes :: "jsstring \<Rightarrow> bytes" where
  "latin1_bytes s = map byte_of s"

section \<open>The request line\<close>

text \<open>\<open>/^([A-Z]+)\s+(\S+)\s+HTTP\/(\d+(?:\.\d+)?)$/u\<close>.\<close>

definition is_upper :: "nat \<Rightarrow> bool" where
  "is_upper u \<longleftrightarrow> 65 \<le> u \<and> u \<le> 90"

definition http_version_text :: "jsstring \<Rightarrow> bool" where
  "http_version_text s =
     (let major = takeWhile is_digit s; rest = drop (length major) s in
      major \<noteq> [] \<and> (if rest = [] then True else starts_with (js ''.'') rest \<and> all_digits (drop 1 rest)))"

definition parse_request_line :: "jsstring \<Rightarrow> (jsstring \<times> jsstring) option" where
  "parse_request_line line =
     (let httpMethod = takeWhile is_upper line;
          rest1 = drop (length httpMethod) line;
          rest2 = dropWhile js_ws rest1;
          target = takeWhile (\<lambda>u. \<not> js_ws u) rest2;
          rest3 = drop (length target) rest2;
          rest4 = dropWhile js_ws rest3
      in if httpMethod \<noteq> [] \<and> rest1 \<noteq> rest2 \<and> target \<noteq> [] \<and> rest3 \<noteq> rest4 \<and> starts_with (js ''HTTP/'') rest4 \<and>
            http_version_text (drop 5 rest4)
         then Some (httpMethod, target) else None)"

section \<open>Headers\<close>

text \<open>\<open>/^[!#$%&'*+\-.^_`|~0-9A-Za-z]+$/u\<close>.\<close>

definition token_char :: "nat \<Rightarrow> bool" where
  "token_char u \<longleftrightarrow> is_alnum u \<or> u \<in> set (js ''!#$%&'' @ [39] @ js ''*+-.^_`|~'')"

definition header_value_char :: "nat \<Rightarrow> bool" where
  "header_value_char u \<longleftrightarrow> u = 9 \<or> (32 \<le> u \<and> u \<le> 126) \<or> (128 \<le> u \<and> u \<le> 255)"

definition parse_header_line :: "(jsstring \<rightharpoonup> jsstring) \<Rightarrow> jsstring \<Rightarrow> proxy_error + (jsstring \<rightharpoonup> jsstring)" where
  "parse_header_line headers line =
     (if line = [] then Inr headers
      else if hd line = 32 \<or> hd line = 9 then Inl (http_error ''Obsolete folded HTTP proxy headers are not supported.'')
      else case index_of 58 line of
        None \<Rightarrow> Inl (http_error ''Malformed HTTP proxy request header.'')
      | Some separator \<Rightarrow>
          if separator = 0 then Inl (http_error ''Malformed HTTP proxy request header.'')
          else let rawName = take separator line in
            if rawName \<noteq> js_trim rawName \<or> \<not> list_all token_char rawName
              then Inl (http_error ''Malformed HTTP proxy request header name.'')
            else let name = js_lower rawName; value = js_trim (drop (separator + 1) line) in
              if \<not> list_all header_value_char value then Inl (http_error ''Malformed HTTP proxy request header value.'')
              else (case headers name of
                  None \<Rightarrow> Inr (headers(name \<mapsto> value))
                | Some old \<Rightarrow>
                    if name = js ''host'' \<or> name = js ''transfer-encoding''
                      then Inl (HandshakeError (DuplicateHeader name) FHttp False)
                    else if name = js ''connection'' then Inr (headers(name \<mapsto> old @ js '','' @ value))
                    else Inr (headers(name \<mapsto> value))))"

fun parse_header_lines :: "jsstring list \<Rightarrow> (jsstring \<rightharpoonup> jsstring) \<Rightarrow> proxy_error + (jsstring \<rightharpoonup> jsstring)" where
  "parse_header_lines [] headers = Inr headers"
| "parse_header_lines (line # lines) headers =
     res_bind (parse_header_line headers line) (parse_header_lines lines)"

definition parseHttpHeaders :: "jsstring list \<Rightarrow> proxy_error + (jsstring \<rightharpoonup> jsstring)" where
  "parseHttpHeaders lines = parse_header_lines lines Map.empty"

section \<open>Targets\<close>

definition parsePort :: "jsstring \<Rightarrow> proxy_error + int" where
  "parsePort value =
     (if value = [] then Inl (plain_error ''Proxy target port is empty.'')
      else case js_number value of
        None \<Rightarrow> Inl (PlainError (InvalidTargetPort value))
      | Some port \<Rightarrow> if port \<le> 0 \<or> 65535 < port then Inl (PlainError (InvalidTargetPort value)) else Inr port)"

definition parseHostPort :: "jsstring \<Rightarrow> int \<Rightarrow> proxy_error + tcp_target" where
  "parseHostPort value defaultPort =
     (let trimmed = js_trim value in
      if trimmed = [] then Inl (plain_error ''Proxy target host is empty.'')
      else if starts_with (js ''['') trimmed then
        (case index_of 93 trimmed of
           None \<Rightarrow> Inl (plain_error ''Invalid IPv6 proxy target.'')
         | Some e \<Rightarrow>
             if e \<le> 1 then Inl (plain_error ''Invalid IPv6 proxy target.'')
             else let host = drop 1 (take e trimmed); rest = drop (e + 1) trimmed in
               if rest = [] then Inr \<lparr>tt_host = unmapIpv4MappedAddress host, tt_port = defaultPort\<rparr>
               else if \<not> starts_with (js '':'') rest then Inl (plain_error ''Invalid IPv6 proxy target.'')
               else res_bind (parsePort (drop 1 rest))
                 (\<lambda>port. Inr \<lparr>tt_host = unmapIpv4MappedAddress host, tt_port = port\<rparr>))
      else case last_index_of 58 trimmed of
        None \<Rightarrow> Inr \<lparr>tt_host = trimmed, tt_port = defaultPort\<rparr>
      | Some separator \<Rightarrow>
          if 0 < separator \<and> index_of 58 trimmed = Some separator
            then res_bind (parsePort (drop (separator + 1) trimmed))
              (\<lambda>port. Inr \<lparr>tt_host = take separator trimmed, tt_port = port\<rparr>)
          else Inl (plain_error ''IPv6 proxy targets must use bracket notation.''))"

text \<open>\<open>/^(?:http|ws)s?:\/\//iu\<close>.\<close>

definition absolute_form :: "jsstring \<Rightarrow> bool" where
  "absolute_form target =
     list_ex (\<lambda>scheme. starts_with (js scheme) (js_lower (take 8 target))) [''http://'', ''https://'', ''ws://'', ''wss://'']"

definition parseHttpForwardTarget ::
  "(jsstring \<Rightarrow> url_parts option) \<Rightarrow> jsstring \<Rightarrow> jsstring option \<Rightarrow> proxy_error + tcp_target \<times> jsstring" where
  "parseHttpForwardTarget parse_url requestTarget hostHeader =
     (if absolute_form requestTarget then
        (case parse_url requestTarget of
           None \<Rightarrow> Inl (plain_error ''Invalid URL'')
         | Some url \<Rightarrow>
             if url_protocol url \<noteq> js ''http:'' \<and> url_protocol url \<noteq> js ''ws:''
               then Inl (http_error ''HTTPS/WSS absolute-form requests require HTTP CONNECT.'')
             else Inr (\<lparr>tt_host = unmapIpv4MappedAddress (strip_brackets (url_hostname url)),
                        tt_port = (if url_port url = [] then 80 else (case js_number (url_port url) of Some n \<Rightarrow> n | None \<Rightarrow> -1))\<rparr>,
                       (if url_pathname url = [] then js ''/'' else url_pathname url) @ url_search url))
      else if hostHeader = None \<or> hostHeader = Some [] then Inl (plain_error ''HTTP proxy request is missing Host header.'')
      else res_bind (parseHostPort (the hostHeader) 80)
        (\<lambda>target. Inr (target, if starts_with (js ''/'') requestTarget then requestTarget else js ''/'')))"

section \<open>The header sent on\<close>

text \<open>\<open>/^name\s*:/iu\<close>.\<close>

definition header_named :: "string \<Rightarrow> jsstring \<Rightarrow> bool" where
  "header_named name line \<longleftrightarrow> js_lower (take (length name) line) = js name \<and>
     starts_with (js '':'') (dropWhile js_ws (drop (length name) line))"

definition word_at :: "nat \<Rightarrow> jsstring list \<Rightarrow> jsstring" where
  "word_at i ws = (if i < length ws then ws ! i else js ''undefined'')"

definition kept_header :: "bool \<Rightarrow> jsstring \<Rightarrow> bool" where
  "kept_header forceClose line \<longleftrightarrow> line \<noteq> [] \<and>
     \<not> (header_named ''proxy-authorization'' line \<or> header_named ''proxy-connection'' line) \<and>
     (\<not> forceClose \<or> \<not> header_named ''connection'' line)"

definition rewriteHttpProxyHeader :: "jsstring \<Rightarrow> jsstring list \<Rightarrow> jsstring \<Rightarrow> bool \<Rightarrow> jsstring" where
  "rewriteHttpProxyHeader requestLine lines path forceClose =
     (let parts = split_ws requestLine;
          filteredHeaders = filter (kept_header forceClose) lines
            @ (if forceClose then [js ''Connection: close''] else [])
      in js_join [13, 10] ([word_at 0 parts @ js '' '' @ path @ js '' '' @ word_at 2 parts] @ filteredHeaders @ [[], []]))"

definition isWebSocketUpgrade :: "(jsstring \<rightharpoonup> jsstring) \<Rightarrow> bool" where
  "isWebSocketUpgrade headers \<longleftrightarrow>
     map_option js_lower (headers (js ''upgrade'')) = Some (js ''websocket'') \<and>
     (case headers (js ''connection'') of
        None \<Rightarrow> False
      | Some v \<Rightarrow> list_ex (\<lambda>t. js_trim t = js ''upgrade'') (split_on (js '','') (js_lower v)))"

section \<open>Body framing\<close>

definition MAX_SAFE_INTEGER :: nat where "MAX_SAFE_INTEGER = 9007199254740991"

definition header_line_value :: "jsstring \<Rightarrow> jsstring" where
  "header_line_value line = js_trim (case index_of 58 line of None \<Rightarrow> line | Some i \<Rightarrow> drop (i + 1) line)"

definition describeHttpForwardBody ::
  "jsstring list \<Rightarrow> (jsstring \<rightharpoonup> jsstring) \<Rightarrow> bool \<Rightarrow> proxy_error + body_mode \<times> nat option" where
  "describeHttpForwardBody lines headers stream =
     (let transferEncoding = map_option js_lower (headers (js ''transfer-encoding''));
          contentLengthValues = map header_line_value (filter (header_named ''content-length'') lines);
          encodings = filter (\<lambda>v. v \<noteq> []) (map js_trim (split_on (js '','') (case transferEncoding of None \<Rightarrow> [] | Some t \<Rightarrow> t)));
          chunked = (transferEncoding \<noteq> None)
      in
      if transferEncoding \<noteq> None \<and> contentLengthValues \<noteq> []
        then Inl (http_error ''HTTP proxy request has ambiguous body framing.'')
      else if transferEncoding \<noteq> None \<and> (encodings = [] \<or> last encodings \<noteq> js ''chunked'')
        then Inl (http_error ''Unsupported HTTP proxy Transfer-Encoding.'')
      else if contentLengthValues \<noteq> [] \<and>
          (\<not> list_all (\<lambda>v. v = hd contentLengthValues) contentLengthValues \<or> \<not> all_digits (hd contentLengthValues) \<or>
           MAX_SAFE_INTEGER < radix_value 10 (hd contentLengthValues))
        then Inl (http_error ''Invalid HTTP proxy Content-Length.'')
      else let contentLength = (if contentLengthValues = [] then 0 else radix_value 10 (hd contentLengthValues)) in
        if stream then
          (if chunked \<or> 0 < contentLength
             then Inl (http_error ''WebSocket proxy upgrades cannot include an HTTP request body.'')
           else Inr (BodyStream, None))
        else if chunked then Inr (BodyChunked, None)
        else if contentLength = 0 then Inr (BodyNone, None) else Inr (BodyLength, Some contentLength))"

section \<open>The request\<close>

definition http_request_of ::
  "(jsstring \<Rightarrow> url_parts option) \<Rightarrow> bytes \<Rightarrow> bytes \<Rightarrow> proxy_error + connect_request" where
  "http_request_of parse_url header rest =
     (let lines0 = split_on [13, 10] (latin1 header); requestLine = hd lines0; lines = tl lines0 in
      case parse_request_line requestLine of
        None \<Rightarrow> Inl (plain_error ''Unsupported HTTP proxy request line.'')
      | Some (httpMethod, requestTarget) \<Rightarrow>
          res_bind (parseHttpHeaders lines) (\<lambda>headers.
            if httpMethod = js ''CONNECT'' then
              res_bind (parseHostPort requestTarget 443) (\<lambda>target.
                Inr \<lparr>cr_protocol = HttpConnect, cr_target = target,
                     cr_initialData = (if rest = [] then None else Some rest), cr_httpForwardBody = None\<rparr>)
            else
              res_bind (parseHttpForwardTarget parse_url requestTarget (headers (js ''host''))) (\<lambda>(target, path).
                let websocketUpgrade = isWebSocketUpgrade headers in
                res_bind (describeHttpForwardBody lines headers websocketUpgrade) (\<lambda>(mode, contentLength).
                  Inr \<lparr>cr_protocol = HttpForward, cr_target = target,
                       cr_initialData = Some (latin1_bytes (rewriteHttpProxyHeader requestLine lines path (\<not> websocketUpgrade))),
                       cr_httpForwardBody = Some \<lparr>fb_mode = mode, fb_contentLength = contentLength, fb_initialData = rest\<rparr>\<rparr>))))"

definition readHttpProxyRequest :: "(jsstring \<Rightarrow> url_parts option) \<Rightarrow> byte \<Rightarrow> connect_request proxy_op" where
  "readHttpProxyRequest parse_url firstByte =
     op_bind (pr_readHttpHeader [firstByte]) (\<lambda>(header, rest). op_lift (http_request_of parse_url header rest))"

end
