(* ===== verification/ProxyHandshake.thy ===== *)
theory ProxyHandshake
  imports HttpProxy
begin

text \<open>
  The handshakes of the local proxy (\<open>src/core/network/socks5-proxy.ts\<close>): SOCKS5, SOCKS4 and SOCKS4a
  requests, the dispatch on the first byte, the failure replies; and the request the client side sends
  (\<open>src/core/network/socks5-check.ts\<close>, \<open>src/core/network/socks5-upstream.ts\<close>).
\<close>

section \<open>SOCKS5\<close>

fun hex_pairs :: "bytes \<Rightarrow> jsstring list" where
  "hex_pairs (a # b # bs) = radix_string 16 (256 * unat a + unat b) # hex_pairs bs"
| "hex_pairs _ = []"

definition format_ipv6_bytes :: "bytes \<Rightarrow> jsstring" where
  "format_ipv6_bytes bs = js_join (js '':'') (hex_pairs bs)"

definition dotted :: "bytes \<Rightarrow> jsstring" where
  "dotted bs = js_join (js ''.'') (map (\<lambda>b. dec (uint b)) bs)"

definition uint16_at :: "bytes \<Rightarrow> nat \<Rightarrow> int" where
  "uint16_at bs i = 256 * uint (bs ! i) + uint (bs ! (i + 1))"

definition readSocksHost :: "byte \<Rightarrow> jsstring proxy_op" where
  "readSocksHost addressType =
     (if addressType = 1 then op_bind (pr_read 4) (\<lambda>a. op_return (dotted a))
      else if addressType = 3 then
        op_bind (pr_read 1) (\<lambda>l.
          if l ! 0 = 0 then op_throw (plain_error ''SOCKS5 target host is empty.'')
          else op_bind (pr_read (unat (l ! 0))) (\<lambda>name. op_return (unmapIpv4MappedAddress (utf8_decode name))))
      else if addressType = 4 then
        op_bind (pr_read 16) (\<lambda>a. op_return (unmapIpv4MappedAddress (format_ipv6_bytes a)))
      else op_throw (PlainError (UnsupportedAddressType addressType)))"

definition readSocksConnectRequestFromReader :: "byte option \<Rightarrow> tcp_target proxy_op" where
  "readSocksConnectRequestFromReader firstByte =
     op_bind (case firstByte of None \<Rightarrow> pr_read 2 | Some b \<Rightarrow> op_bind (pr_read 1) (\<lambda>r. op_return (b # r))) (\<lambda>greeting.
     if greeting ! 0 \<noteq> 5 then op_throw (plain_error ''Unsupported SOCKS version.'')
     else op_bind (pr_read (unat (greeting ! 1))) (\<lambda>methods.
     if 0 \<notin> set methods then
       op_bind (pr_write [5, 0xff]) (\<lambda>_.
         op_throw (HandshakeError (Text ''SOCKS5 client does not support no-auth mode.'') FSocks5 True))
     else op_bind (pr_write [5, 0]) (\<lambda>_.
     op_bind (pr_read 4) (\<lambda>header.
     if header ! 0 \<noteq> 5 \<or> header ! 1 \<noteq> 1 \<or> header ! 2 \<noteq> 0
       then op_throw (plain_error ''Only SOCKS5 CONNECT requests are supported.'')
     else op_bind (readSocksHost (header ! 3)) (\<lambda>host.
     op_bind (pr_read 2) (\<lambda>portBytes.
     if uint16_at portBytes 0 = 0 then op_throw (plain_error ''SOCKS5 target port must be between 1 and 65535.'')
     else op_return \<lparr>tt_host = host, tt_port = uint16_at portBytes 0\<rparr>))))))"

text \<open>The exported \<open>readSocksConnectRequest\<close>, on a fresh reader.\<close>

definition readSocksConnectRequest :: "bytes list \<Rightarrow> socket_end \<Rightarrow> byte option \<Rightarrow> proxy_error + tcp_target" where
  "readSocksConnectRequest chunks ending firstByte = fst (readSocksConnectRequestFromReader firstByte (reader_on chunks ending))"

section \<open>SOCKS4\<close>

text \<open>
  The loop of \<open>readSocks4Field\<close>.  \<open>room\<close> is how many bytes it may still collect; the loop ends with the
  zero byte, when the room is used up, or when the stream ends.
\<close>

fun readSocks4Bytes :: "nat \<Rightarrow> string \<Rightarrow> bytes \<Rightarrow> bytes proxy_op" where
  "readSocks4Bytes 0 description collected =
     op_bind (pr_read 1) (\<lambda>b.
       if b ! 0 = 0 then op_return collected
       else op_throw (HandshakeError (FieldTooLong description) FSocks4 False))"
| "readSocks4Bytes (Suc room) description collected =
     op_bind (pr_read 1) (\<lambda>b.
       if b ! 0 = 0 then op_return collected
       else readSocks4Bytes room description (collected @ [b ! 0]))"

definition readSocks4Field :: "nat \<Rightarrow> string \<Rightarrow> jsstring proxy_op" where
  "readSocks4Field maxLength description =
     op_bind (readSocks4Bytes maxLength description []) (\<lambda>bs. op_return (utf8_decode bs))"

definition readSocks4ConnectRequestFromReader :: "tcp_target proxy_op" where
  "readSocks4ConnectRequestFromReader =
     op_bind (pr_read 7) (\<lambda>header.
     if header ! 0 \<noteq> 1 then op_throw (HandshakeError (Text ''Only SOCKS4 CONNECT requests are supported.'') FSocks4 False)
     else let port = uint16_at header 1 in
     if port = 0 then op_throw (HandshakeError (Text ''SOCKS4 target port must be between 1 and 65535.'') FSocks4 False)
     else let address = drop 3 header in
     op_bind (readSocks4Field 255 ''user id'') (\<lambda>_.
     if \<not> (address ! 0 = 0 \<and> address ! 1 = 0 \<and> address ! 2 = 0 \<and> address ! 3 \<noteq> 0)
       then op_return \<lparr>tt_host = dotted address, tt_port = port\<rparr>
     else op_bind (readSocks4Field 255 ''host name'') (\<lambda>host.
     if host = [] then op_throw (HandshakeError (Text ''SOCKS4a target host is empty.'') FSocks4 False)
     else op_return \<lparr>tt_host = host, tt_port = port\<rparr>)))"

section \<open>The dispatch\<close>

definition isHttpMethodStart :: "byte \<Rightarrow> bool" where
  "isHttpMethodStart b \<longleftrightarrow> 0x41 \<le> unat b \<and> unat b \<le> 0x5a"

definition socks_request :: "proxy_protocol \<Rightarrow> tcp_target \<Rightarrow> bytes \<Rightarrow> connect_request" where
  "socks_request protocol target rest =
     \<lparr>cr_protocol = protocol, cr_target = target, cr_initialData = (if rest = [] then None else Some rest),
      cr_httpForwardBody = None\<rparr>"

text \<open>The \<open>catch\<close> around the HTTP branch: other errors are answered in HTTP too.\<close>

definition as_http_error :: "proxy_error \<Rightarrow> proxy_error" where
  "as_http_error e = (case e of HandshakeError m p sent \<Rightarrow> e | PlainError m \<Rightarrow> HandshakeError m FHttp False)"

definition map_error :: "('e \<Rightarrow> 'e) \<Rightarrow> ('s, 'e, 'a) op \<Rightarrow> ('s, 'e, 'a) op" where
  "map_error f m s = (case m s of (Inl e, s') \<Rightarrow> (Inl (f e), s') | (Inr x, s') \<Rightarrow> (Inr x, s'))"

definition readProxyConnectRequest :: "(jsstring \<Rightarrow> url_parts option) \<Rightarrow> connect_request proxy_op" where
  "readProxyConnectRequest parse_url =
     op_bind (pr_read 1) (\<lambda>b. let firstByte = b ! 0 in
       if firstByte = 5 then
         op_bind (readSocksConnectRequestFromReader (Some firstByte)) (\<lambda>target.
           op_bind pr_takeBuffered (\<lambda>rest. op_return (socks_request Socks5 target rest)))
       else if firstByte = 4 then
         op_bind readSocks4ConnectRequestFromReader (\<lambda>target.
           op_bind pr_takeBuffered (\<lambda>rest. op_return (socks_request Socks4 target rest)))
       else if isHttpMethodStart firstByte then map_error as_http_error (readHttpProxyRequest parse_url firstByte)
       else op_throw (HandshakeError (UnsupportedFirstByte firstByte) FUnknown False))"

section \<open>Failure replies\<close>

definition proxyFailureProtocol :: "proxy_protocol \<Rightarrow> failure_protocol" where
  "proxyFailureProtocol p = (case p of Socks5 \<Rightarrow> FSocks5 | Socks4 \<Rightarrow> FSocks4 | _ \<Rightarrow> FHttp)"

definition handshakeFailureProtocol :: "proxy_error \<Rightarrow> failure_protocol" where
  "handshakeFailureProtocol e = (case e of
       HandshakeError m p sent \<Rightarrow> if p = FHttp \<or> p = FSocks4 then p else FSocks5
     | PlainError m \<Rightarrow> FSocks5)"

definition proxy_failure :: "failure_protocol \<Rightarrow> bytes" where
  "proxy_failure p = (case p of
       FHttp \<Rightarrow> utf8_encode (js ''HTTP/1.1 502 Bad Gateway'' @ [13, 10] @ js ''Proxy-Agent: Shadow'' @ [13, 10] @
         js ''Connection: close'' @ [13, 10] @ js ''Content-Length: 0'' @ [13, 10, 13, 10])
     | FSocks4 \<Rightarrow> [0, 0x5b, 0, 0, 0, 0, 0, 0]
     | _ \<Rightarrow> [5, 1, 0, 1, 0, 0, 0, 0, 0, 0])"

definition proxy_success :: "proxy_protocol \<Rightarrow> bytes option" where
  "proxy_success p = (case p of
       Socks5 \<Rightarrow> Some [5, 0, 0, 1, 0, 0, 0, 0, 0, 0]
     | Socks4 \<Rightarrow> Some [0, 0x5a, 0, 0, 0, 0, 0, 0]
     | HttpConnect \<Rightarrow> Some (utf8_encode (js ''HTTP/1.1 200 Connection Established'' @ [13, 10] @
         js ''Proxy-Agent: Shadow'' @ [13, 10, 13, 10]))
     | HttpForward \<Rightarrow> None)"

text \<open>The event text of a failed tunnel.\<close>

definition formatProtocol :: "proxy_protocol \<Rightarrow> jsstring" where
  "formatProtocol p = (case p of
       Socks5 \<Rightarrow> js ''SOCKS5 CONNECT'' | Socks4 \<Rightarrow> js ''SOCKS4 CONNECT'' | HttpConnect \<Rightarrow> js ''HTTP CONNECT''
     | HttpForward \<Rightarrow> js ''HTTP proxy'')"

definition formatProxyTunnelError :: "connect_request option \<Rightarrow> jsstring \<Rightarrow> jsstring" where
  "formatProxyTunnelError request message = (case request of
       None \<Rightarrow> message
     | Some r \<Rightarrow> formatProtocol (cr_protocol r) @ js '' tunnel failed for '' @ tt_host (cr_target r) @ js '':'' @
         dec (tt_port (cr_target r)) @ js '': '' @ message)"

section \<open>The client side\<close>

text \<open>\<open>net.isIPv4\<close> accepts four decimal octets without leading zeros, as \<open>parseIpv4\<close> does.\<close>

definition buildSocks5ConnectRequest :: "tcp_target \<Rightarrow> proxy_error + bytes" where
  "buildSocks5ConnectRequest target =
     (let host = js_trim (tt_host target); port = tt_port target in
      if port < 0 \<or> 65535 < port then Inl (plain_error ''ERR_OUT_OF_RANGE'')
      else let portBytes = [byte_of (nat port div 256), byte_of (nat port)] in
      if parseIpv4 host \<noteq> None then
        Inr ([5, 1, 0, 1] @ map (\<lambda>part. byte_of (radix_value 10 part)) (split_on (js ''.'') host) @ portBytes)
      else let encodedHost = utf8_encode host in
        if 255 < length encodedHost then Inl (plain_error ''SOCKS target host is too long.'')
        else Inr ([5, 1, 0, 3, byte_of (length encodedHost)] @ encodedHost @ portBytes))"

definition socks5ReplyLength :: "bytes \<Rightarrow> nat option" where
  "socks5ReplyLength header =
     (let addressType = header ! 3 in
      if addressType = 1 then Some (4 + 4 + 2)
      else if addressType = 4 then Some (4 + 16 + 2)
      else if addressType = 3 then Some (4 + 1 + unat (header ! 4) + 2)
      else None)"


lemma example_connect_request:
  "buildSocks5ConnectRequest \<lparr>tt_host = js ''ab'', tt_port = 80\<rparr> = Inr [5, 1, 0, 3, 2, 97, 98, 0, 80]"
proof -
  have t: "js_trim (js ''ab'') = js ''ab''" by (simp add: js_trim_id js_ws_def)
  have v: "parseIpv4 (js ''ab'') = None" by (simp add: parseIpv4_def)
  show ?thesis
    using v by (simp add: buildSocks5ConnectRequest_def t Let_def byte_of_def utf8_encode_ascii del: js_simps)
      (simp add: byte_of_def utf8_unit_def is_high_def)
qed

end
