(* ===== verification/ProxyTransparency.thy ===== *)
theory ProxyTransparency
  imports ProxyHandshake
begin

text \<open>
  The handshake depends on the bytes of the client and not on how they are cut into chunks; what it does
  not consume is handed on completely; and the server understands what the client side sends.
\<close>

section \<open>Chunking\<close>

lemma stream_op_host [stream_intros]: "stream_op (readSocksHost t)"
  unfolding readSocksHost_def by (intro stream_intros)

lemma stream_op_socks5 [stream_intros]: "stream_op (readSocksConnectRequestFromReader b)"
  unfolding readSocksConnectRequestFromReader_def
  by (intro stream_intros) (auto split: option.split intro: stream_intros)

lemma stream_op_socks4_bytes [stream_intros]: "stream_op (readSocks4Bytes room d bs)"
  by (induction room arbitrary: bs) (simp_all add: stream_intros)

lemma stream_op_socks4 [stream_intros]: "stream_op readSocks4ConnectRequestFromReader"
  unfolding readSocks4ConnectRequestFromReader_def readSocks4Field_def Let_def by (intro stream_intros)

text \<open>The bytes a request hands on because they had arrived with it, and the request without them.\<close>

definition request_rest :: "connect_request \<Rightarrow> bytes" where
  "request_rest r = (case cr_httpForwardBody r of
       Some b \<Rightarrow> fb_initialData b
     | None \<Rightarrow> (case cr_initialData r of None \<Rightarrow> [] | Some d \<Rightarrow> d))"

definition request_head :: "connect_request \<Rightarrow> proxy_protocol \<times> tcp_target \<times> bytes option \<times> (body_mode \<times> nat option) option" where
  "request_head r = (cr_protocol r, cr_target r, if cr_httpForwardBody r = None then None else cr_initialData r,
     map_option (\<lambda>b. (fb_mode b, fb_contentLength b)) (cr_httpForwardBody r))"

definition same_outcome ::
  "(proxy_error + connect_request) \<times> proxy_reader \<Rightarrow> (proxy_error + connect_request) \<times> proxy_reader \<Rightarrow> bool" where
  "same_outcome a b \<longleftrightarrow> pr_written (snd a) = pr_written (snd b) \<and>
     (case fst a of
        Inl e \<Rightarrow> fst b = Inl e
      | Inr r \<Rightarrow> (case fst b of Inl e \<Rightarrow> False
          | Inr r' \<Rightarrow> request_head r = request_head r' \<and>
              request_rest r @ pr_stream (snd a) = request_rest r' @ pr_stream (snd b)))"

definition request_op :: "connect_request proxy_op \<Rightarrow> bool" where
  "request_op m \<longleftrightarrow> (\<forall>s t. same_stream s t \<longrightarrow> same_outcome (m s) (m t))"

lemma request_op_throw: "request_op (op_throw e)"
  by (simp add: request_op_def same_outcome_def op_throw_def same_stream_def)

lemma request_op_bind:
  assumes "stream_op m" "\<And>x. request_op (f x)"
  shows "request_op (op_bind m f)"
  unfolding request_op_def
proof (intro allI impI)
  fix s t assume st: "same_stream s t"
  obtain r s' r' t' where m: "m s = (r, s')" "m t = (r', t')" by (cases "m s", cases "m t") auto
  have e: "r' = r" "same_stream s' t'" using stream_opD [OF assms(1) st] m by simp_all
  show "same_outcome (op_bind m f s) (op_bind m f t)"
  proof (cases r)
    case (Inl x)
    then show ?thesis using m e by (simp add: op_bind_def same_outcome_def same_stream_def)
  next
    case (Inr x)
    then show ?thesis using m e assms(2) [of x] by (simp add: op_bind_def request_op_def)
  qed
qed

lemma request_op_socks:
  assumes "stream_op m"
  shows "request_op (op_bind m (\<lambda>target. op_bind pr_takeBuffered (\<lambda>rest. op_return (socks_request p target rest))))"
proof (rule request_op_bind [OF assms])
  fix target
  show "request_op (op_bind pr_takeBuffered (\<lambda>rest. op_return (socks_request p target rest)))"
    by (auto simp: request_op_def same_outcome_def op_bind_def pr_takeBuffered_def op_return_def same_stream_def
        socks_request_def request_head_def request_rest_def pr_stream_def)
qed

text \<open>The HTTP request depends on the header only, up to the rest it carries along.\<close>

lemma http_request_rest:
  "case http_request_of parse_url header rest of
     Inl e \<Rightarrow> http_request_of parse_url header rest' = Inl e
   | Inr r \<Rightarrow> (case http_request_of parse_url header rest' of Inl e \<Rightarrow> False
       | Inr r' \<Rightarrow> request_head r = request_head r' \<and> request_rest r = rest \<and> request_rest r' = rest')"
proof -
  define ls where "ls = split_on [13, 10] (latin1 header)"
  show ?thesis
  proof (cases "parse_request_line (hd ls)")
    case None
    then show ?thesis by (simp add: http_request_of_def ls_def Let_def)
  next
    case (Some mt)
    obtain mth tgt where mt: "mt = (mth, tgt)" by fastforce
    show ?thesis
    proof (cases "parseHttpHeaders (tl ls)")
      case (Inl e)
      then show ?thesis using Some mt by (simp add: http_request_of_def ls_def Let_def)
    next
      case (Inr hs)
      show ?thesis
      proof (cases "mth = js ''CONNECT''")
        case True
        then show ?thesis using Some mt Inr
          by (cases "parseHostPort tgt 443")
            (simp_all add: http_request_of_def ls_def Let_def request_head_def request_rest_def del: js_simps)
      next
        case False
        then show ?thesis using Some mt Inr
          by (cases "parseHttpForwardTarget parse_url tgt (hs (js ''host''))";
              cases "describeHttpForwardBody (tl ls) hs (isWebSocketUpgrade hs)")
            (auto simp: http_request_of_def ls_def Let_def request_head_def request_rest_def split: prod.split simp del: js_simps)
      qed
    qed
  qed
qed

lemma request_op_http: "request_op (map_error as_http_error (readHttpProxyRequest parse_url b))"
  unfolding request_op_def
proof (intro allI impI)
  fix s t assume st: "same_stream s t"
  obtain r s' r' t' where m: "pr_readHttpHeader [b] s = (r, s')" "pr_readHttpHeader [b] t = (r', t')" by fastforce
  have same: "pr_stream s = pr_stream t" "pr_end s = pr_end t" "pr_written s' = pr_written t'"
    using st readHttpHeader_stream(3) [where h = "[b]" and s = s] readHttpHeader_stream(3) [where h = "[b]" and s = t] m by (simp_all add: same_stream_def)
  have out: "readHttpProxyRequest parse_url b u = (case q of Inl e \<Rightarrow> Inl e | Inr (h, rest) \<Rightarrow> http_request_of parse_url h rest, u')"
    if "pr_readHttpHeader [b] u = (q, u')" for u q u'
    using that by (auto simp: readHttpProxyRequest_def op_bind_def op_lift_def split: sum.split)
  note os = out [OF m(1)] out [OF m(2)]
  show "same_outcome (map_error as_http_error (readHttpProxyRequest parse_url b) s) (map_error as_http_error (readHttpProxyRequest parse_url b) t)"
  proof (cases r)
    case (Inl e)
    then have "r' = Inl e" using readHttpHeader_stream(1) [where h = "[b]" and s = s] readHttpHeader_stream(1) [where h = "[b]" and s = t] m same
      by (auto split: sum.splits)
    then show ?thesis using os Inl same by (simp add: map_error_def same_outcome_def)
  next
    case (Inr hr)
    obtain h rest where hr: "hr = (h, rest)" by fastforce
    obtain rest' where r': "r' = Inr (h, rest')" "rest @ pr_stream s' = rest' @ pr_stream t'"
      using readHttpHeader_stream(1) [where h = "[b]" and s = s] readHttpHeader_stream(1) [where h = "[b]" and s = t] m same Inr hr
      by (cases r') (auto, metis same_append_eq)
    then show ?thesis using os Inr hr same http_request_rest [of parse_url h rest rest']
      by (auto simp: map_error_def same_outcome_def split: sum.splits)
  qed
qed

lemma request_op_handshake: "request_op (readProxyConnectRequest parse_url)"
  unfolding readProxyConnectRequest_def Let_def
proof (rule request_op_bind [OF stream_op_read])
  fix b :: bytes
  show "request_op (if b ! 0 = 5 then op_bind (readSocksConnectRequestFromReader (Some (b ! 0)))
           (\<lambda>target. op_bind pr_takeBuffered (\<lambda>rest. op_return (socks_request Socks5 target rest)))
      else if b ! 0 = 4 then op_bind readSocks4ConnectRequestFromReader
           (\<lambda>target. op_bind pr_takeBuffered (\<lambda>rest. op_return (socks_request Socks4 target rest)))
      else if isHttpMethodStart (b ! 0) then map_error as_http_error (readHttpProxyRequest parse_url (b ! 0))
      else op_throw (HandshakeError (UnsupportedFirstByte (b ! 0)) FUnknown False))"
    using request_op_socks [OF stream_op_socks5] request_op_socks [OF stream_op_socks4] request_op_http request_op_throw
    by presburger
qed

text \<open>C18: The handshake does not depend on how the client's bytes are cut into chunks: the request or the
  error, and the replies, are the same, and the bytes handed on with the request followed by those still
  to come are the same payload.\<close>

theorem handshake_chunking:
  assumes "concat chunks = concat chunks'"
  shows "same_outcome (readProxyConnectRequest parse_url (reader_on chunks ending))
    (readProxyConnectRequest parse_url (reader_on chunks' ending))"
proof -
  have "same_stream (reader_on chunks ending) (reader_on chunks' ending)"
    using assms by (simp add: same_stream_def reader_on_def pr_stream_def)
  then show ?thesis using request_op_handshake by (simp add: request_op_def)
qed

lemma handshake_chunking_witness:
  "same_outcome (readProxyConnectRequest (\<lambda>u. None) (reader_on [[4, 1, 0], [80, 10, 0, 0, 7, 0, 42]] SocketClosed))
    (readProxyConnectRequest (\<lambda>u. None) (reader_on [[4, 1, 0, 80, 10], [0], [0, 7, 0, 42]] SocketClosed))"
  by (rule handshake_chunking) simp


section \<open>Nothing is lost\<close>

definition consumes :: "nat \<Rightarrow> 'a proxy_op \<Rightarrow> bool" where
  "consumes n m \<longleftrightarrow> (\<forall>s. \<exists>p. pr_stream s = p @ pr_stream (snd (m s)) \<and> length p \<le> n)"

lemma consumes_zero: "pr_stream (snd (m s)) = pr_stream s \<Longrightarrow> \<exists>p. pr_stream s = p @ pr_stream (snd (m s)) \<and> length p \<le> n"
  by (intro exI [of _ "[]"]) simp

lemma consumes_return: "consumes n (op_return x)" and consumes_throw: "consumes n (op_throw e)"
  and consumes_write: "consumes n (pr_write d)"
  by (simp_all add: consumes_def op_return_def op_throw_def pr_write_def pr_stream_def)

lemma consumes_read: "n \<le> k \<Longrightarrow> consumes k (pr_read n)"
  unfolding consumes_def
proof
  fix s assume "n \<le> k"
  then show "\<exists>p. pr_stream s = p @ pr_stream (snd (pr_read n s)) \<and> length p \<le> k"
    by (intro exI [of _ "if n \<le> length (pr_stream s) then take n (pr_stream s) else []"]) (simp add: pr_read_stream(2))
qed

lemma consumes_bind:
  assumes "consumes a m" "\<And>x. consumes b (f x)" "a + b \<le> n"
  shows "consumes n (op_bind m f)"
  unfolding consumes_def
proof
  fix s
  obtain r s' where m: "m s = (r, s')" by fastforce
  obtain p where p: "pr_stream s = p @ pr_stream s'" "length p \<le> a" using assms(1) m unfolding consumes_def by (metis snd_conv)
  show "\<exists>p. pr_stream s = p @ pr_stream (snd (op_bind m f s)) \<and> length p \<le> n"
  proof (cases r)
    case (Inl e)
    then show ?thesis using p m assms(3) by (intro exI [of _ p]) (simp add: op_bind_def)
  next
    case (Inr x)
    obtain q where "pr_stream s' = q @ pr_stream (snd (f x s'))" "length q \<le> b" using assms(2) unfolding consumes_def by blast
    then show ?thesis using p m Inr assms(3) by (intro exI [of _ "p @ q"]) (simp add: op_bind_def)
  qed
qed

lemma consumes_if: "consumes n m \<Longrightarrow> consumes n m' \<Longrightarrow> consumes n (if b then m else m')"
  by simp

lemma unat_byte_le: "unat (b :: byte) \<le> 255"
  using unat_byte_bounds [of b] by linarith

lemma consumes_host: "consumes 256 (readSocksHost t)"
proof -
  have name: "consumes 256 (op_bind (pr_read 1) (\<lambda>l. if l ! 0 = 0 then op_throw (plain_error ''SOCKS5 target host is empty.'')
      else op_bind (pr_read (unat (l ! 0))) (\<lambda>name. op_return (unmapIpv4MappedAddress (utf8_decode name)))))"
    by (rule consumes_bind [where a = 1 and b = 255])
      (auto intro!: consumes_read consumes_if consumes_throw consumes_bind [where a = 255 and b = 0] consumes_return simp: unat_byte_le)
  have fixed: "consumes 256 (op_bind (pr_read k) (\<lambda>a. op_return (h a)))" if "k \<le> 16" for k and h :: "bytes \<Rightarrow> jsstring"
    by (rule consumes_bind [where a = k and b = 0]) (use that in \<open>auto intro: consumes_read consumes_return\<close>)
  show ?thesis unfolding readSocksHost_def by (intro consumes_if name fixed consumes_throw) simp_all
qed

lemma consumes_then_read: "k \<le> b \<Longrightarrow> b + c = n \<Longrightarrow> (\<And>x. consumes c (f x)) \<Longrightarrow> consumes n (op_bind (pr_read k) f)"
  by (rule consumes_bind [OF consumes_read]) auto

lemma consumes_then_write: "(\<And>x. consumes n (f x)) \<Longrightarrow> consumes n (op_bind (pr_write d) f)"
  by (rule consumes_bind [OF consumes_write [of 0]]) auto

lemma consumes_socks5: "consumes 518 (readSocksConnectRequestFromReader (Some b))"
proof -
  have port: "consumes 2 (op_bind (pr_read 2) (\<lambda>portBytes. if uint16_at portBytes 0 = 0
       then op_throw (plain_error ''SOCKS5 target port must be between 1 and 65535.'')
       else op_return \<lparr>tt_host = host, tt_port = uint16_at portBytes 0\<rparr>))" for host
    by (rule consumes_then_read [where b = 2 and c = 0]) (auto intro: consumes_if consumes_throw consumes_return)
  have greeting: "consumes 1 (op_bind (pr_read 1) (\<lambda>r. op_return (b # r)))"
    by (rule consumes_then_read [where b = 1 and c = 0]) (auto intro: consumes_return)
  show ?thesis
    unfolding readSocksConnectRequestFromReader_def option.case
  proof (rule consumes_bind [OF greeting, where b = 517]; (intro consumes_if consumes_throw)?)
    fix greeting methods :: bytes
    show "consumes 517 (op_bind (pr_read (unat (greeting ! 1))) (\<lambda>methods.
       if 0 \<notin> set methods then op_bind (pr_write [5, 0xff]) (\<lambda>_.
         op_throw (HandshakeError (Text ''SOCKS5 client does not support no-auth mode.'') FSocks5 True))
       else op_bind (pr_write [5, 0]) (\<lambda>_. op_bind (pr_read 4) (\<lambda>header.
         if header ! 0 \<noteq> 5 \<or> header ! 1 \<noteq> 1 \<or> header ! 2 \<noteq> 0
           then op_throw (plain_error ''Only SOCKS5 CONNECT requests are supported.'')
         else op_bind (readSocksHost (header ! 3)) (\<lambda>host. op_bind (pr_read 2) (\<lambda>portBytes.
           if uint16_at portBytes 0 = 0 then op_throw (plain_error ''SOCKS5 target port must be between 1 and 65535.'')
           else op_return \<lparr>tt_host = host, tt_port = uint16_at portBytes 0\<rparr>))))))"
    proof (rule consumes_then_read [where b = 255 and c = 262, OF unat_byte_le]; (intro consumes_if consumes_then_write consumes_throw)?)
      fix methods :: bytes
      show "consumes 262 (op_bind (pr_read 4) (\<lambda>header.
         if header ! 0 \<noteq> 5 \<or> header ! 1 \<noteq> 1 \<or> header ! 2 \<noteq> 0
           then op_throw (plain_error ''Only SOCKS5 CONNECT requests are supported.'')
         else op_bind (readSocksHost (header ! 3)) (\<lambda>host. op_bind (pr_read 2) (\<lambda>portBytes.
           if uint16_at portBytes 0 = 0 then op_throw (plain_error ''SOCKS5 target port must be between 1 and 65535.'')
           else op_return \<lparr>tt_host = host, tt_port = uint16_at portBytes 0\<rparr>))))"
        by (rule consumes_then_read [where b = 4 and c = 258])
          (auto intro!: consumes_if consumes_throw consumes_bind [OF consumes_host port])
    qed simp
  qed simp
qed

lemma consumes_socks4_bytes: "consumes (Suc room) (readSocks4Bytes room d bs)"
proof (induction room arbitrary: bs)
  case 0
  show ?case unfolding readSocks4Bytes.simps
    by (rule consumes_then_read [where b = 1 and c = 0]) (auto intro: consumes_if consumes_throw consumes_return)
next
  case (Suc room)
  show ?case unfolding readSocks4Bytes.simps
    by (rule consumes_then_read [where b = 1 and c = "Suc room"]) (auto intro: consumes_if consumes_return Suc)
qed

lemma consumes_socks4: "consumes 519 readSocks4ConnectRequestFromReader"
proof -
  have field: "consumes 256 (readSocks4Field 255 d)" for d
    unfolding readSocks4Field_def
    by (rule consumes_bind [where a = 256 and b = 0]) (use consumes_socks4_bytes [of 255 d "[]"] in \<open>simp_all add: consumes_return\<close>)
  have last: "consumes 256 (op_bind (readSocks4Field 255 d) f)" if "\<And>x. consumes 0 (f x)" for d and f :: "jsstring \<Rightarrow> tcp_target proxy_op"
    by (rule consumes_bind [OF field that]) simp
  have first: "consumes 512 (op_bind (readSocks4Field 255 d) f)" if "\<And>x. consumes 256 (f x)" for d and f :: "jsstring \<Rightarrow> tcp_target proxy_op"
    by (rule consumes_bind [OF field that]) simp
  show ?thesis
    unfolding readSocks4ConnectRequestFromReader_def Let_def
    by (rule consumes_then_read [where b = 7 and c = 512])
      (simp, simp, intro consumes_if consumes_throw first last consumes_return)
qed

lemma consumed_by_socks:
  assumes "consumes n m"
    "op_bind m (\<lambda>target. op_bind pr_takeBuffered (\<lambda>rest. op_return (socks_request p target rest))) s = (Inr r, s')"
  shows "\<exists>q. length q \<le> n \<and> pr_stream s = q @ request_rest r @ pr_stream s'"
proof -
  obtain x t where m: "m s = (Inr x, t)" using assms(2) by (auto simp: op_bind_def split: prod.splits sum.splits)
  obtain q where q: "pr_stream s = q @ pr_stream t" "length q \<le> n" using assms(1) m unfolding consumes_def by (metis snd_conv)
  have "request_rest r @ pr_stream s' = pr_stream t"
    using assms(2) m by (auto simp: op_bind_def pr_takeBuffered_def op_return_def socks_request_def request_rest_def pr_stream_def)
  then show ?thesis using q by auto
qed

lemma header_result_bound: "header_result ending stream = Inr h \<Longrightarrow> length h \<le> MAX_HEADER_BYTES"
  using header_end_Some [of stream] by (auto simp: header_result_def split: option.splits if_splits)

lemma consumed_by_http:
  assumes "map_error as_http_error (readHttpProxyRequest parse_url b) s = (Inr r, s')"
  shows "\<exists>q. length q \<le> 65536 \<and> b # pr_stream s = q @ request_rest r @ pr_stream s'"
proof -
  obtain h rest where h: "pr_readHttpHeader [b] s = (Inr (h, rest), s')" "http_request_of parse_url h rest = Inr r"
    using assms by (auto simp: map_error_def readHttpProxyRequest_def op_bind_def op_lift_def split: prod.splits sum.splits)
  have st: "header_result (pr_end s) (b # pr_stream s) = Inr h" "h @ rest @ pr_stream s' = b # pr_stream s"
    using readHttpHeader_stream(1) [where h = "[b]" and s = s] h(1) by simp_all
  have "request_rest r = rest" using http_request_rest [of parse_url h rest rest] h(2) by simp
  moreover have "length h \<le> 65536" using header_result_bound [OF st(1)] by (simp add: MAX_HEADER_BYTES_def)
  ultimately show ?thesis using st(2) by (intro exI [of _ h]) simp
qed



section \<open>The client side and the server side\<close>

lemma radix_value_digits: "all_digits s \<Longrightarrow> \<not> (1 < length s \<and> hd s = 48) \<Longrightarrow> radix_string 10 (radix_value 10 s) = s"
proof (induction s rule: rev_induct)
  case Nil
  then show ?case by (simp add: all_digits_def)
next
  case (snoc u s)
  have u: "48 \<le> u" "u \<le> 57" using snoc.prems by (simp_all add: all_digits_def is_digit_def)
  then have d: "digit_val u < 10" "digit_unit (digit_val u) = u" by (auto simp: digit_val_def digit_unit_def)
  show ?case
  proof (cases "s = []")
    case True
    then have v: "radix_value 10 (s @ [u]) = digit_val u" by (simp only: radix_value_simps)
    show ?thesis unfolding v using d True by (subst radix_string.simps) simp
  next
    case False
    then have ih: "radix_string 10 (radix_value 10 s) = s" using snoc by (auto simp: all_digits_def)
    have "radix_value 10 s \<noteq> 0"
    proof
      assume z: "radix_value 10 s = 0"
      have "s = [48]" using ih unfolding z by (subst (asm) radix_string.simps) (simp add: digit_unit_def)
      then show False using snoc.prems(2) by simp
    qed
    then have "\<not> 10 * radix_value 10 s + digit_val u < 10" by simp
    then show ?thesis using d ih by (subst radix_string.simps) simp
  qed
qed

lemma octet_text: "ipv4_octet w = Some d \<Longrightarrow> dec (uint (byte_of (radix_value 10 w))) = w"
  using radix_value_digits [of w]
  by (cases w) (auto simp: ipv4_octet_def dec_def starts_with_single Let_def split: if_splits)

lemma dotted_octets:
  assumes "parseIpv4 h = Some ip"
  shows "dotted (map (\<lambda>part. byte_of (radix_value 10 part)) (split_on [46] h)) = h"
    and "length (split_on [46] h) = 4"
proof -
  obtain ds where ds: "map ipv4_octet (split_on [46] h) = map Some ds" "length (split_on [46] h) = 4"
    using assms by (auto simp: parseIpv4_def ipv4_octets_Some Let_def split: if_splits)
  have "map (\<lambda>b. dec (uint b)) (map (\<lambda>part. byte_of (radix_value 10 part)) (split_on [46] h)) = split_on [46] h"
  proof (rule nth_equalityI)
    fix i assume "i < length (map (\<lambda>b. dec (uint b)) (map (\<lambda>part. byte_of (radix_value 10 part)) (split_on [46] h)))"
    then have i: "i < length (split_on [46] h)" by simp
    moreover have "length ds = length (split_on [46] h)" using arg_cong [OF ds(1), of length] by simp
    ultimately have "ipv4_octet (split_on [46] h ! i) = Some (ds ! i)" using arg_cong [OF ds(1), of "\<lambda>xs. xs ! i"] by simp
    with i show "map (\<lambda>b. dec (uint b)) (map (\<lambda>part. byte_of (radix_value 10 part)) (split_on [46] h)) ! i = split_on [46] h ! i"
      using octet_text by simp
  qed simp
  then show "dotted (map (\<lambda>part. byte_of (radix_value 10 part)) (split_on [46] h)) = h"
    unfolding dotted_def by (simp only:) (simp add: join_split)
  show "length (split_on [46] h) = 4" by (rule ds(2))
qed

text \<open>A reader that has everything in its buffer.\<close>

abbreviation buffered :: "bytes \<Rightarrow> socket_end \<Rightarrow> bytes list \<Rightarrow> proxy_reader" where
  "buffered b e w \<equiv> \<lparr>pr_buffer = b, pr_incoming = [], pr_end = e, pr_written = w\<rparr>"

lemma pr_read_buffered: "n \<le> length b \<Longrightarrow> pr_read n (buffered b e w) = (Inr (take n b), buffered (drop n b) e w)"
  by (simp add: pr_read_def)

lemma port_bytes: "0 \<le> p \<Longrightarrow> p \<le> 65535 \<Longrightarrow> uint16_at [byte_of (nat p div 256), byte_of (nat p)] 0 = p"
  by (simp add: uint16_at_def nat_mod_distrib of_nat_div)

lemma socks5_server_run:
  assumes host: "\<And>w. readSocksHost t (buffered (a @ pb @ rest) e w) = (Inr h, buffered (pb @ rest) e w)"
    and pb: "length pb = 2" "uint16_at pb 0 = p" "p \<noteq> 0"
  shows "readProxyConnectRequest parse_url (buffered ([5, 1, 0, 5, 1, 0, t] @ a @ pb @ rest) e []) =
     (Inr (socks_request Socks5 \<lparr>tt_host = h, tt_port = p\<rparr> rest), buffered [] e [[5, 0]])"
proof -
  have last: "pr_read 2 (buffered (pb @ rest) e w) = (Inr pb, buffered rest e w)" for w
    using pr_read_buffered [of 2 "pb @ rest" e w] pb(1) by simp
  show ?thesis
    using pb host last
    by (simp add: readProxyConnectRequest_def readSocksConnectRequestFromReader_def op_bind_def op_return_def pr_write_def
        pr_takeBuffered_def pr_read_buffered)
qed

lemma socks5_host_ipv4:
  assumes "length a = 4"
  shows "readSocksHost 1 (buffered (a @ rest) e w) = (Inr (dotted a), buffered rest e w)"
  using assms by (simp add: readSocksHost_def op_bind_def op_return_def pr_read_buffered)

lemma socks5_host_name:
  assumes "a \<noteq> []" "length a \<le> 255"
  shows "readSocksHost 3 (buffered ((byte_of (length a) # a) @ rest) e w) =
    (Inr (unmapIpv4MappedAddress (utf8_decode a)), buffered rest e w)"
proof -
  have l: "unat (byte_of (length a)) = length a" using assms by simp
  then have "byte_of (length a) \<noteq> 0" using assms(1) by (metis length_0_conv unat_0)
  then show ?thesis using l by (simp add: readSocksHost_def op_bind_def op_return_def pr_read_buffered)
qed

text \<open>C19: What the proxy's own client side sends is understood by the server side: it answers \<open>05 00\<close>, finds
  the target the client was given, and hands on the rest of the stream as payload, whatever the chunks.\<close>

theorem socks5_client_understood:
  assumes "buildSocks5ConnectRequest target = Inr req" and "tt_port target \<noteq> 0"
    and "js_trim (tt_host target) = host" "host \<noteq> []" "wf_utf16 host" "unmapIpv4MappedAddress host = host"
    and "concat chunks = [5, 1, 0] @ req @ payload"
  shows "\<exists>r s. readProxyConnectRequest parse_url (reader_on chunks ending) = (Inr r, s) \<and>
    cr_protocol r = Socks5 \<and> cr_target r = \<lparr>tt_host = host, tt_port = tt_port target\<rparr> \<and>
    request_rest r @ pr_stream s = payload \<and> pr_written s = [[5, 0]]"
proof -
  let ?p = "tt_port target"
  let ?pb = "[byte_of (nat ?p div 256), byte_of (nat ?p)]"
  have p: "0 \<le> ?p" "?p \<le> 65535" using assms(1) by (auto simp: buildSocks5ConnectRequest_def Let_def split: if_splits)
  have run: "readProxyConnectRequest parse_url (buffered ([5, 1, 0] @ req @ payload) ending []) =
     (Inr (socks_request Socks5 \<lparr>tt_host = host, tt_port = ?p\<rparr> payload), buffered [] ending [[5, 0]])"
  proof (cases "parseIpv4 host")
    case (Some ip)
    let ?a = "map (\<lambda>part. byte_of (radix_value 10 part)) (split_on [46] host)"
    have req: "req = [5, 1, 0, 1] @ ?a @ ?pb"
      using assms(1,3) Some p by (simp add: buildSocks5ConnectRequest_def Let_def not_less)
    have "length ?a = 4" "dotted ?a = host" using dotted_octets [OF Some] by simp_all
    then show ?thesis
      using socks5_server_run [of 1 ?a ?pb payload ending host ?p parse_url] socks5_host_ipv4 [of ?a "?pb @ payload" ending]
        port_bytes [OF p] assms(2) by (simp add: req)
  next
    case None
    let ?a = "utf8_encode host"
    have req: "req = [5, 1, 0, 3] @ (byte_of (length ?a) # ?a) @ ?pb" "length ?a \<le> 255"
      using assms(1,3) None p by (auto simp: buildSocks5ConnectRequest_def Let_def not_less split: if_splits)
    have "utf8_decode ?a = host" "?a \<noteq> []" using assms(4,5) by simp_all
    then show ?thesis
      using socks5_server_run [of 3 "byte_of (length ?a) # ?a" ?pb payload ending host ?p parse_url]
        socks5_host_name [of ?a "?pb @ payload" ending] req(2) port_bytes [OF p] assms(2,6) by (simp add: req(1))
  qed
  have "same_stream (buffered ([5, 1, 0] @ req @ payload) ending []) (reader_on chunks ending)"
    using assms(7) by (simp add: same_stream_def reader_on_def pr_stream_def)
  then have "same_outcome (readProxyConnectRequest parse_url (buffered ([5, 1, 0] @ req @ payload) ending []))
      (readProxyConnectRequest parse_url (reader_on chunks ending))"
    using request_op_handshake by (simp add: request_op_def)
  then show ?thesis unfolding run
    by (cases "readProxyConnectRequest parse_url (reader_on chunks ending)")
      (auto simp: same_outcome_def request_head_def socks_request_def request_rest_def pr_stream_def split: sum.splits if_splits)
qed


lemma socks5_client_understood_witness:
  "\<exists>r s. readProxyConnectRequest (\<lambda>u. None) (reader_on [[5, 1], [0, 5, 1, 0, 3, 2, 97], [98, 0, 80, 42]] SocketClosed) = (Inr r, s) \<and>
    cr_protocol r = Socks5 \<and> cr_target r = \<lparr>tt_host = js ''ab'', tt_port = 80\<rparr> \<and>
    request_rest r @ pr_stream s = [42] \<and> pr_written s = [[5, 0]]"
proof -
  have t: "js_trim (js ''ab'') = js ''ab''" by (simp add: js_trim_id js_ws_def)
  have u: "unmapIpv4MappedAddress (js ''ab'') = js ''ab''"
    by (auto simp: unmapIpv4MappedAddress_def starts_with_def split: option.split)
  have "wf_utf16 (js ''ab'')" by (rule ascii_wf_utf16) simp
  from socks5_client_understood [OF example_connect_request _ _ _ this u, of "[[5, 1], [0, 5, 1, 0, 3, 2, 97], [98, 0, 80, 42]]" "[42]" "\<lambda>u. None" SocketClosed]
  show ?thesis using t by simp
qed

end
