(* ===== verification/ProxyUpstream.thy ===== *)
theory ProxyUpstream
  imports ProxyHandshake
begin

text \<open>
  The client handshake with an upstream SOCKS5 proxy (\<open>src/core/network/socks5-upstream.ts\<close>).  The
  upstream is the chunks its socket delivers to successive reads, and how it then ends: it closes, fails,
  stays silent until the deadline, or the caller aborts.  Opening the socket and wrapping it as a channel
  are outside the model.
\<close>

section \<open>The reader\<close>

datatype upstream_end = UpstreamEnded | UpstreamFailed jsstring | UpstreamTimedOut | UpstreamAborted

datatype upstream_error =
    RejectedNoAuth
  | UnsupportedReplyVersion
  | Refused byte
  | UnsupportedReplyAddress
  | OversizedReply
  | ConnectionEnd upstream_end
  | RequestError proxy_error

record handshake_reader =
  hr_buffer :: bytes
  hr_incoming :: "bytes list"
  hr_end :: upstream_end
  hr_written :: "bytes list"
  hr_unshifted :: bytes

type_synonym 'a upstream_op = "(handshake_reader, upstream_error, 'a) op"

definition MAX_HANDSHAKE_BUFFER_BYTES :: nat where "MAX_HANDSHAKE_BUFFER_BYTES = 512"

definition upstream_on :: "bytes list \<Rightarrow> upstream_end \<Rightarrow> handshake_reader" where
  "upstream_on chunks ending =
     \<lparr>hr_buffer = [], hr_incoming = chunks, hr_end = ending, hr_written = [], hr_unshifted = []\<rparr>"

text \<open>The loop of \<open>readAtLeast\<close> over the chunks to come.\<close>

fun fill_at_least :: "nat \<Rightarrow> bytes \<Rightarrow> upstream_end \<Rightarrow> bytes list \<Rightarrow> (upstream_error + unit) \<times> bytes \<times> bytes list" where
  "fill_at_least n buffer ending [] =
     (if n \<le> length buffer then Inr () else Inl (ConnectionEnd ending), buffer, [])"
| "fill_at_least n buffer ending (chunk # chunks) =
     (if n \<le> length buffer then (Inr (), buffer, chunk # chunks)
      else if MAX_HANDSHAKE_BUFFER_BYTES < length (buffer @ chunk) then (Inl OversizedReply, buffer @ chunk, chunks)
      else fill_at_least n (buffer @ chunk) ending chunks)"

definition readAtLeast :: "nat \<Rightarrow> bytes upstream_op" where
  "readAtLeast n s =
     (case fill_at_least n (hr_buffer s) (hr_end s) (hr_incoming s) of
        (Inl e, buffer, incoming) \<Rightarrow> (Inl e, s\<lparr>hr_buffer := buffer, hr_incoming := incoming\<rparr>)
      | (Inr u, buffer, incoming) \<Rightarrow> (Inr buffer, s\<lparr>hr_buffer := buffer, hr_incoming := incoming\<rparr>))"

definition hr_consume :: "nat \<Rightarrow> unit upstream_op" where
  "hr_consume n s = (Inr (), s\<lparr>hr_buffer := drop n (hr_buffer s)\<rparr>)"

definition hr_write :: "bytes \<Rightarrow> unit upstream_op" where
  "hr_write data s = (Inr (), s\<lparr>hr_written := hr_written s @ [data]\<rparr>)"

text \<open>\<open>release\<close>, with the socket alive; it runs in a \<open>finally\<close>.\<close>

definition hr_release :: "handshake_reader \<Rightarrow> handshake_reader" where
  "hr_release s = s\<lparr>hr_unshifted := hr_buffer s, hr_buffer := []\<rparr>"

section \<open>The handshake\<close>

definition upstream_request :: "tcp_target \<Rightarrow> bytes upstream_op" where
  "upstream_request target =
     op_lift (case buildSocks5ConnectRequest target of Inl e \<Rightarrow> Inl (RequestError e) | Inr req \<Rightarrow> Inr req)"

definition upstream_exchange :: "tcp_target \<Rightarrow> unit upstream_op" where
  "upstream_exchange target =
     op_bind (hr_write [5, 1, 0]) (\<lambda>_.
     op_bind (readAtLeast 2) (\<lambda>greeting.
     if greeting ! 0 \<noteq> 5 \<or> greeting ! 1 \<noteq> 0 then op_throw RejectedNoAuth
     else op_bind (hr_consume 2) (\<lambda>_.
     op_bind (upstream_request target) (\<lambda>req.
     op_bind (hr_write req) (\<lambda>_.
     op_bind (readAtLeast 5) (\<lambda>header.
     if header ! 0 \<noteq> 5 then op_throw UnsupportedReplyVersion
     else if header ! 1 \<noteq> 0 then op_throw (Refused (header ! 1))
     else case socks5ReplyLength header of
       None \<Rightarrow> op_throw UnsupportedReplyAddress
     | Some replyLength \<Rightarrow> op_bind (readAtLeast replyLength) (\<lambda>_. hr_consume replyLength)))))))"

definition performSocks5Handshake :: "tcp_target \<Rightarrow> unit upstream_op" where
  "performSocks5Handshake target s =
     (case upstream_exchange target s of (result, s') \<Rightarrow> (result, hr_release s'))"

section \<open>What is left for the channel\<close>

definition hr_stream :: "handshake_reader \<Rightarrow> bytes" where
  "hr_stream s = hr_buffer s @ concat (hr_incoming s)"

text \<open>A successful reply of an upstream proxy.\<close>

definition success_reply :: "bytes \<Rightarrow> bool" where
  "success_reply reply \<longleftrightarrow> 5 \<le> length reply \<and> reply ! 0 = 5 \<and> reply ! 1 = 0 \<and> socks5ReplyLength reply = Some (length reply)"

lemma fill_at_least_props:
  "fill_at_least n buffer ending chunks = (r, b, c) \<Longrightarrow>
     b @ concat c = buffer @ concat chunks \<and> (r = Inr () \<longrightarrow> n \<le> length b)"
  by (induction n buffer ending chunks rule: fill_at_least.induct) (auto split: if_splits)

lemma readAtLeast_Inr:
  assumes "readAtLeast n s = (Inr b, t)"
  shows "hr_stream t = hr_stream s" "b = hr_buffer t" "n \<le> length b" "hr_written t = hr_written s"
proof -
  obtain r b' c where f: "fill_at_least n (hr_buffer s) (hr_end s) (hr_incoming s) = (r, b', c)" by (metis prod_cases3)
  show "hr_stream t = hr_stream s" "b = hr_buffer t" "n \<le> length b" "hr_written t = hr_written s"
    using assms fill_at_least_props [OF f] by (auto simp: readAtLeast_def f hr_stream_def split: sum.splits)
qed

lemma reply_length_prefix: "5 \<le> length a \<Longrightarrow> socks5ReplyLength (a @ b) = socks5ReplyLength a"
  by (simp add: socks5ReplyLength_def nth_append Let_def)

lemma reply_length_bounds: "socks5ReplyLength h = Some n \<Longrightarrow> 5 \<le> n"
  by (auto simp: socks5ReplyLength_def Let_def split: if_splits)

lemma reply_length_take:
  assumes "5 \<le> n" "n \<le> length h" "socks5ReplyLength h = Some n"
  shows "socks5ReplyLength (take n h) = Some n"
  using reply_length_prefix [of "take n h" "drop n h"] assms by simp

lemma upstream_exchange_split:
  assumes "upstream_exchange target s = (Inr (), t)" "hr_written s = []"
  shows "\<exists>greeting reply req. hr_stream s = greeting @ reply @ hr_stream t \<and> greeting = [5, 0] \<and> success_reply reply \<and>
    buildSocks5ConnectRequest target = Inr req \<and> hr_written t = [[5, 1, 0], req]"
proof -
  obtain g s1 where g: "readAtLeast 2 (s\<lparr>hr_written := [[5, 1, 0]]\<rparr>) = (Inr g, s1)" "g ! 0 = 5" "g ! 1 = 0"
    using assms by (auto simp: upstream_exchange_def op_bind_def hr_write_def op_throw_def split: prod.splits sum.splits if_splits)
  obtain req where req: "buildSocks5ConnectRequest target = Inr req"
    using assms g by (auto simp: upstream_exchange_def op_bind_def hr_write_def hr_consume_def upstream_request_def op_lift_def split: sum.splits)
  let ?s2 = "s1\<lparr>hr_buffer := drop 2 (hr_buffer s1), hr_written := hr_written s1 @ [req]\<rparr>"
  obtain h s3 n where h: "readAtLeast 5 ?s2 = (Inr h, s3)" "h ! 0 = 5" "h ! 1 = 0" "socks5ReplyLength h = Some n"
    using assms g req
    by (auto simp: upstream_exchange_def op_bind_def hr_write_def hr_consume_def upstream_request_def op_lift_def op_throw_def
        split: prod.splits sum.splits if_splits option.splits)
  obtain b s4 where b: "readAtLeast n s3 = (Inr b, s4)" "t = s4\<lparr>hr_buffer := drop n (hr_buffer s4)\<rparr>"
    using assms g req h
    by (auto simp: upstream_exchange_def op_bind_def hr_write_def hr_consume_def upstream_request_def op_lift_def
        split: prod.splits sum.splits)
  have g2: "hr_stream s1 = hr_stream s" "g = hr_buffer s1" "2 \<le> length g" "hr_written s1 = [[5, 1, 0]]"
    using readAtLeast_Inr [OF g(1)] by (simp_all add: hr_stream_def)
  have h2: "hr_stream s3 = drop 2 g @ concat (hr_incoming s1)" "h = hr_buffer s3" "5 \<le> length h" "hr_written s3 = [[5, 1, 0], req]"
    using readAtLeast_Inr [OF h(1)] g2 by (simp_all add: hr_stream_def)
  have b2: "hr_stream s4 = hr_stream s3" "b = hr_buffer s4" "n \<le> length b" "hr_written s4 = hr_written s3"
    using readAtLeast_Inr [OF b(1)] by simp_all
  have n5: "5 \<le> n" using reply_length_bounds h(4) .
  have pre: "take 5 b = take 5 h"
  proof -
    have "take 5 (hr_stream s4) = take 5 (hr_stream s3)" using b2(1) by simp
    then show ?thesis using h2(2,3) b2(2,3) n5 by (simp add: hr_stream_def)
  qed
  have nth: "b ! i = h ! i" if "i < 5" for i using that pre by (metis nth_take)
  have rb: "socks5ReplyLength b = Some n" using h(4) nth by (simp add: socks5ReplyLength_def Let_def split: if_splits)
  have "success_reply (take n b)"
    using n5 b2(3) h(2,3) nth [of 0] nth [of 1] reply_length_take [OF n5 b2(3) rb] by (simp add: success_reply_def)
  moreover have "take 2 g = [5, 0]" using g2(3) g(2,3) by (cases g; cases "tl g") auto
  moreover have "hr_stream s = take 2 g @ take n b @ hr_stream t"
  proof -
    have "hr_stream s = g @ concat (hr_incoming s1)" using g2 by (simp add: hr_stream_def)
    also have "\<dots> = take 2 g @ hr_stream s3" unfolding h2(1) by (metis append_assoc append_take_drop_id)
    also have "hr_stream s3 = take n b @ hr_stream t" using b2 b(2) by (simp add: hr_stream_def) (metis append_assoc append_take_drop_id)
    finally show ?thesis .
  qed
  moreover have "hr_written t = [[5, 1, 0], req]" using b(2) b2(4) h2(4) by simp
  ultimately show ?thesis using req by blast
qed

text \<open>A handshake that succeeds has taken exactly the greeting and one complete success reply off the
  stream, after sending the greeting and the request for the target; everything behind the reply is
  given back to the socket, ahead of what has not arrived yet.\<close>

theorem upstream_gives_back_payload:
  assumes "performSocks5Handshake target (upstream_on chunks ending) = (Inr (), s)"
  shows "\<exists>reply req. concat chunks = [5, 0] @ reply @ hr_unshifted s @ concat (hr_incoming s) \<and> success_reply reply \<and>
    buildSocks5ConnectRequest target = Inr req \<and> hr_written s = [[5, 1, 0], req]"
proof -
  obtain t where t: "upstream_exchange target (upstream_on chunks ending) = (Inr (), t)" "s = hr_release t"
    using assms by (auto simp: performSocks5Handshake_def split: prod.splits)
  then show ?thesis
    using upstream_exchange_split [OF t(1)] by (auto simp: hr_stream_def hr_release_def upstream_on_def)
qed

text \<open>One segment with the reply and the first bytes of the payload: the handshake succeeds, and gives the
  payload back, only while they are together at most 512 bytes.  The limit is meant for replies, which
  have at most 262 bytes, but the payload behind the reply counts too.\<close>

theorem upstream_payload_with_reply:
  assumes "buildSocks5ConnectRequest target = Inr req" "success_reply reply"
  shows "case performSocks5Handshake target (upstream_on [[5, 0], reply @ payload] ending) of (result, s) \<Rightarrow>
    if length reply + length payload \<le> 512 then result = Inr () \<and> hr_unshifted s = payload
    else result = Inl OversizedReply"
proof -
  have l: "5 \<le> length reply" "reply ! 0 = 5" "reply ! 1 = 0" "socks5ReplyLength reply = Some (length reply)"
    using assms(2) by (simp_all add: success_reply_def)
  have pos: "0 < length reply" "1 < length reply" using l(1) by linarith+
  have n: "(reply @ payload) ! 0 = 5" "(reply @ payload) ! 1 = 0" "socks5ReplyLength (reply @ payload) = Some (length reply)"
    using l reply_length_prefix [of reply payload] pos by (simp_all add: nth_append)
  show ?thesis
    using assms(1) n l(1)
    by (simp add: performSocks5Handshake_def upstream_exchange_def upstream_on_def op_bind_def hr_write_def readAtLeast_def
        hr_consume_def upstream_request_def op_lift_def MAX_HANDSHAKE_BUFFER_BYTES_def hr_release_def op_throw_def)
qed


definition example_connect_reply :: bytes where "example_connect_reply = [5, 0, 0, 1, 0, 0, 0, 0, 0, 0]"

lemma example_connect_reply_success: "success_reply example_connect_reply"
  by (simp add: success_reply_def example_connect_reply_def socks5ReplyLength_def)

lemma upstream_payload_with_reply_witness:
  "case performSocks5Handshake \<lparr>tt_host = js ''ab'', tt_port = 80\<rparr>
      (upstream_on [[5, 0], example_connect_reply @ replicate 503 42] UpstreamEnded) of (result, s) \<Rightarrow>
    if length example_connect_reply + length (replicate 503 (42 :: byte)) \<le> 512 then result = Inr () \<and> hr_unshifted s = replicate 503 42
    else result = Inl OversizedReply"
  by (rule upstream_payload_with_reply [OF example_connect_request example_connect_reply_success])

lemma upstream_gives_back_payload_witness:
  "\<exists>s reply req. performSocks5Handshake \<lparr>tt_host = js ''ab'', tt_port = 80\<rparr>
      (upstream_on [[5], [0, 5, 0, 0, 1, 0, 0, 0], [0, 0, 0, 42], [43]] UpstreamEnded) = (Inr (), s) \<and>
    [5, 0, 5, 0, 0, 1, 0, 0, 0, 0, 0, 0, 42, 43] = [5, 0] @ reply @ hr_unshifted s @ concat (hr_incoming s) \<and> success_reply reply \<and>
    buildSocks5ConnectRequest \<lparr>tt_host = js ''ab'', tt_port = 80\<rparr> = Inr req \<and> hr_written s = [[5, 1, 0], req]"
proof -
  have "\<exists>s. performSocks5Handshake \<lparr>tt_host = js ''ab'', tt_port = 80\<rparr>
      (upstream_on [[5], [0, 5, 0, 0, 1, 0, 0, 0], [0, 0, 0, 42], [43]] UpstreamEnded) = (Inr (), s)"
    by (simp add: performSocks5Handshake_def upstream_exchange_def upstream_on_def op_bind_def hr_write_def readAtLeast_def
        hr_consume_def upstream_request_def example_connect_request op_lift_def MAX_HANDSHAKE_BUFFER_BYTES_def hr_release_def
        op_throw_def socks5ReplyLength_def del: js_simps)
  then obtain s where s: "performSocks5Handshake \<lparr>tt_host = js ''ab'', tt_port = 80\<rparr>
      (upstream_on [[5], [0, 5, 0, 0, 1, 0, 0, 0], [0, 0, 0, 42], [43]] UpstreamEnded) = (Inr (), s)" by blast
  show ?thesis using s upstream_gives_back_payload [OF s] by auto
qed

end
