(* ===== verification/ProxyListener.thy ===== *)
theory ProxyListener
  imports ProxyHandshake
begin

text \<open>
  The resources of \<open>Socks5Proxy\<close> (\<open>src/core/network/socks5-proxy.ts\<close>): the sockets it holds, the
  channel opens in flight, and the bytes queued for slow clients, over all interleavings of the events
  of all connections.  \<open>Math.max(0, a - b)\<close> is subtraction on natural numbers.  The channel behind a
  connection and the socket itself are outside the model: what they do shows as events.
\<close>

section \<open>State\<close>

record listener_options =
  lo_maxConnections :: "nat option"
  lo_maxPendingChannelOpens :: "nat option"
  lo_maxQueuedSocketBytes :: "nat option"
  lo_maxTotalQueuedSocketBytes :: "nat option"

text \<open>The fields of the proxy object, and its counters.\<close>

record listener =
  ln_sockets :: "nat list"
  ln_pendingChannelOpens :: nat
  ln_totalQueuedSocketBytes :: nat
  ln_acceptedConnections :: nat
  ln_establishedConnections :: nat
  ln_erroredConnections :: nat
  ln_bytesToClient :: nat
  ln_bytesToChannel :: nat

definition listener_new :: listener where
  "listener_new = \<lparr>ln_sockets = [], ln_pendingChannelOpens = 0, ln_totalQueuedSocketBytes = 0, ln_acceptedConnections = 0,
     ln_establishedConnections = 0, ln_erroredConnections = 0, ln_bytesToClient = 0, ln_bytesToChannel = 0\<rparr>"

record proxy_stats =
  st_active :: nat
  st_accepted :: nat
  st_established :: nat
  st_errored :: nat
  st_bytesToClient :: nat
  st_bytesToChannel :: nat
  st_pendingChannelOpens :: nat

definition snapshotStats :: "listener \<Rightarrow> proxy_stats" where
  "snapshotStats l = \<lparr>st_active = length (ln_sockets l), st_accepted = ln_acceptedConnections l,
     st_established = ln_establishedConnections l, st_errored = ln_erroredConnections l,
     st_bytesToClient = ln_bytesToClient l, st_bytesToChannel = ln_bytesToChannel l,
     st_pendingChannelOpens = ln_pendingChannelOpens l\<rparr>"

text \<open>The local variables of one \<open>handleSocket\<close> call: the bytes queued for the socket, the writes still
  in \<open>socketWriteQueue\<close>, and the lease on a pending open with its \<open>released\<close> flag.\<close>

datatype open_lease = NoLease | Leased | Released

record connection =
  cn_queuedSocketBytes :: nat
  cn_writes :: "nat list"
  cn_lease :: open_lease

definition connection_new :: connection where
  "connection_new = \<lparr>cn_queuedSocketBytes = 0, cn_writes = [], cn_lease = NoLease\<rparr>"

section \<open>Operations\<close>

definition or_default :: "nat \<Rightarrow> nat option \<Rightarrow> nat" where
  "or_default d o1 = (case o1 of None \<Rightarrow> d | Some n \<Rightarrow> n)"

definition DEFAULT_PROXY_CONNECTION_QUEUE_BYTES :: nat where
  "DEFAULT_PROXY_CONNECTION_QUEUE_BYTES = 16 * 1024 * 1024"
definition DEFAULT_PROXY_TOTAL_QUEUE_BYTES :: nat where
  "DEFAULT_PROXY_TOTAL_QUEUE_BYTES = 64 * 1024 * 1024"

text \<open>The start of \<open>handleSocket\<close>; \<open>None\<close> is a connection over the limit, which is destroyed.\<close>

definition admit :: "listener_options \<Rightarrow> nat \<Rightarrow> listener \<Rightarrow> listener option" where
  "admit options socket l =
     (if or_default 512 (lo_maxConnections options) \<le> length (ln_sockets l) then None
      else Some (l\<lparr>ln_sockets := ln_sockets l @ [socket], ln_acceptedConnections := ln_acceptedConnections l + 1\<rparr>))"

definition acquirePendingChannelOpen :: "listener_options \<Rightarrow> listener \<Rightarrow> listener option" where
  "acquirePendingChannelOpen options l =
     (let maximum = or_default (or_default 512 (lo_maxConnections options)) (lo_maxPendingChannelOpens options) in
      if maximum = 0 \<or> maximum \<le> ln_pendingChannelOpens l then None
      else Some (l\<lparr>ln_pendingChannelOpens := ln_pendingChannelOpens l + 1\<rparr>))"

definition release_open :: "connection \<Rightarrow> listener \<Rightarrow> connection \<times> listener" where
  "release_open c l =
     (if cn_lease c = Leased
      then (c\<lparr>cn_lease := Released\<rparr>, l\<lparr>ln_pendingChannelOpens := ln_pendingChannelOpens l - 1\<rparr>)
      else (c, l))"

text \<open>\<open>enqueueSocketWrite\<close>; \<open>None\<close> is a socket destroyed because a queue limit was reached.\<close>

definition enqueueSocketWrite :: "listener_options \<Rightarrow> bool \<Rightarrow> nat \<Rightarrow> connection \<Rightarrow> listener \<Rightarrow> (connection \<times> listener) option" where
  "enqueueSocketWrite options writable n c l =
     (if n = 0 \<or> \<not> writable then Some (c, l)
      else if or_default DEFAULT_PROXY_CONNECTION_QUEUE_BYTES (lo_maxQueuedSocketBytes options) < cn_queuedSocketBytes c + n \<or>
          or_default DEFAULT_PROXY_TOTAL_QUEUE_BYTES (lo_maxTotalQueuedSocketBytes options) < ln_totalQueuedSocketBytes l + n
        then None
      else Some (c\<lparr>cn_queuedSocketBytes := cn_queuedSocketBytes c + n, cn_writes := cn_writes c @ [n]\<rparr>,
                 l\<lparr>ln_totalQueuedSocketBytes := ln_totalQueuedSocketBytes l + n, ln_bytesToClient := ln_bytesToClient l + n\<rparr>))"

text \<open>The \<open>finally\<close> of the oldest write in the queue, whether it succeeded, failed or was skipped.\<close>

definition settle_write :: "connection \<Rightarrow> listener \<Rightarrow> connection \<times> listener" where
  "settle_write c l = (case cn_writes c of
       [] \<Rightarrow> (c, l)
     | n # writes \<Rightarrow> (c\<lparr>cn_queuedSocketBytes := cn_queuedSocketBytes c - n, cn_writes := writes\<rparr>,
         l\<lparr>ln_totalQueuedSocketBytes := ln_totalQueuedSocketBytes l - n\<rparr>))"

definition forget_socket :: "nat \<Rightarrow> listener \<Rightarrow> listener" where
  "forget_socket socket l = l\<lparr>ln_sockets := removeAll socket (ln_sockets l)\<rparr>"

section \<open>Events\<close>

datatype proxy_event =
    Accepted
  | OpenRequested nat
  | OpenSettled nat bool
  | ChannelData nat bool nat
  | WriteSettled nat
  | ClientData nat nat
  | ChannelError nat
  | ConnectionClosed nat
  | Stopped

type_synonym proxy_system = "listener \<times> connection list"

definition with_connection ::
  "proxy_system \<Rightarrow> nat \<Rightarrow> (connection \<Rightarrow> listener \<Rightarrow> connection \<times> listener) \<Rightarrow> proxy_system" where
  "with_connection s i f =
     (if i < length (snd s) then let (c, l) = f (snd s ! i) (fst s) in (l, (snd s)[i := c]) else s)"

text \<open>Connections are numbered in the order they arrive.  A refused connection gets its number too.\<close>

definition proxy_step :: "listener_options \<Rightarrow> proxy_event \<Rightarrow> proxy_system \<Rightarrow> proxy_system" where
  "proxy_step options e s = (case e of
       Accepted \<Rightarrow> (case admit options (length (snd s)) (fst s) of
           None \<Rightarrow> (fst s, snd s @ [connection_new])
         | Some l \<Rightarrow> (l, snd s @ [connection_new]))
     | OpenRequested i \<Rightarrow> with_connection s i (\<lambda>c l.
         if cn_lease c \<noteq> NoLease then (c, l)
         else (case acquirePendingChannelOpen options l of
             None \<Rightarrow> (c, forget_socket i l)
           | Some l' \<Rightarrow> (c\<lparr>cn_lease := Leased\<rparr>, l')))
     | OpenSettled i ok \<Rightarrow> with_connection s i (\<lambda>c l.
         let (c', l') = release_open c l in
         (c', if ok then l'\<lparr>ln_establishedConnections := ln_establishedConnections l' + 1\<rparr> else forget_socket i l'))
     | ChannelData i writable n \<Rightarrow> with_connection s i (\<lambda>c l.
         case enqueueSocketWrite options writable n c l of None \<Rightarrow> (c, l) | Some cl \<Rightarrow> cl)
     | WriteSettled i \<Rightarrow> with_connection s i settle_write
     | ClientData i n \<Rightarrow> with_connection s i (\<lambda>c l. (c, l\<lparr>ln_bytesToChannel := ln_bytesToChannel l + n\<rparr>))
     | ChannelError i \<Rightarrow> with_connection s i (\<lambda>c l. (c, l\<lparr>ln_erroredConnections := ln_erroredConnections l + 1\<rparr>))
     | ConnectionClosed i \<Rightarrow> with_connection s i (\<lambda>c l. (c, forget_socket i l))
     | Stopped \<Rightarrow> ((fst s)\<lparr>ln_sockets := []\<rparr>, snd s))"

definition proxy_run :: "listener_options \<Rightarrow> proxy_event list \<Rightarrow> proxy_system" where
  "proxy_run options events = fold (proxy_step options) events (listener_new, [])"

section \<open>The ledger\<close>

definition conn_ok :: "listener_options \<Rightarrow> connection \<Rightarrow> bool" where
  "conn_ok options c \<longleftrightarrow> cn_queuedSocketBytes c = sum_list (cn_writes c) \<and>
     cn_queuedSocketBytes c \<le> or_default DEFAULT_PROXY_CONNECTION_QUEUE_BYTES (lo_maxQueuedSocketBytes options)"

definition leases :: "connection list \<Rightarrow> nat" where
  "leases cs = sum_list (map (\<lambda>c. if cn_lease c = Leased then 1 else 0) cs)"

definition queued :: "connection list \<Rightarrow> nat" where
  "queued cs = sum_list (map cn_queuedSocketBytes cs)"

definition proxy_inv :: "listener_options \<Rightarrow> proxy_system \<Rightarrow> bool" where
  "proxy_inv options s \<longleftrightarrow>
     length (ln_sockets (fst s)) \<le> or_default 512 (lo_maxConnections options) \<and>
     ln_pendingChannelOpens (fst s) = leases (snd s) \<and>
     ln_pendingChannelOpens (fst s) \<le> or_default (or_default 512 (lo_maxConnections options)) (lo_maxPendingChannelOpens options) \<and>
     ln_totalQueuedSocketBytes (fst s) = queued (snd s) \<and>
     ln_totalQueuedSocketBytes (fst s) \<le> or_default DEFAULT_PROXY_TOTAL_QUEUE_BYTES (lo_maxTotalQueuedSocketBytes options) \<and>
     list_all (conn_ok options) (snd s)"

lemma sum_map_update:
  "i < length cs \<Longrightarrow> sum_list (map f (cs[i := c])) + f (cs ! i) = sum_list (map f cs) + (f c :: nat)"
proof (induction cs arbitrary: i)
  case (Cons x cs)
  then show ?case by (cases i) auto
qed simp

lemma update_counts:
  assumes "i < length cs"
  shows "queued (cs[i := c]) = queued cs + cn_queuedSocketBytes c - cn_queuedSocketBytes (cs ! i)"
    and "leases (cs[i := c]) = leases cs + (if cn_lease c = Leased then 1 else 0) - (if cn_lease (cs ! i) = Leased then 1 else 0)"
    and "cn_queuedSocketBytes (cs ! i) \<le> queued cs"
    and "cn_lease (cs ! i) = Leased \<Longrightarrow> 1 \<le> leases cs"
  using sum_map_update [OF assms, of cn_queuedSocketBytes c] sum_map_update [OF assms, of "\<lambda>c. if cn_lease c = Leased then 1 else 0" c]
    elem_le_sum_list [of i "map cn_queuedSocketBytes cs"] elem_le_sum_list [of i "map (\<lambda>c. if cn_lease c = Leased then 1 else 0 :: nat) cs"] assms
  by (auto simp: queued_def leases_def)

text \<open>An operation on a connection that keeps its share of the ledger.\<close>

definition balanced :: "listener_options \<Rightarrow> connection \<Rightarrow> listener \<Rightarrow> connection \<times> listener \<Rightarrow> bool" where
  "balanced options c l r \<longleftrightarrow> (case r of (c', l') \<Rightarrow>
     conn_ok options c' \<and>
     ln_totalQueuedSocketBytes l' + cn_queuedSocketBytes c = ln_totalQueuedSocketBytes l + cn_queuedSocketBytes c' \<and>
     ln_totalQueuedSocketBytes l' \<le> or_default DEFAULT_PROXY_TOTAL_QUEUE_BYTES (lo_maxTotalQueuedSocketBytes options) \<and>
     ln_pendingChannelOpens l' + (if cn_lease c = Leased then 1 else 0) =
       ln_pendingChannelOpens l + (if cn_lease c' = Leased then 1 else 0) \<and>
     ln_pendingChannelOpens l' \<le> or_default (or_default 512 (lo_maxConnections options)) (lo_maxPendingChannelOpens options) \<and>
     length (ln_sockets l') \<le> length (ln_sockets l))"

lemma with_connection_inv:
  assumes inv: "proxy_inv options s"
    and f: "\<And>c l. conn_ok options c \<Longrightarrow> cn_queuedSocketBytes c \<le> ln_totalQueuedSocketBytes l \<Longrightarrow>
      ln_totalQueuedSocketBytes l \<le> or_default DEFAULT_PROXY_TOTAL_QUEUE_BYTES (lo_maxTotalQueuedSocketBytes options) \<Longrightarrow>
      (cn_lease c = Leased \<longrightarrow> 1 \<le> ln_pendingChannelOpens l) \<Longrightarrow>
      ln_pendingChannelOpens l \<le> or_default (or_default 512 (lo_maxConnections options)) (lo_maxPendingChannelOpens options) \<Longrightarrow>
      balanced options c l (f c l)"
  shows "proxy_inv options (with_connection s i f)"
proof (cases "i < length (snd s)")
  case False
  then show ?thesis using inv by (simp add: with_connection_def)
next
  case True
  let ?c = "snd s ! i"
  obtain c' l' where r: "f ?c (fst s) = (c', l')" by fastforce
  note u = update_counts [OF True]
  have ok: "conn_ok options ?c" using inv True by (simp add: proxy_inv_def list_all_length)
  have q: "ln_totalQueuedSocketBytes (fst s) = queued (snd s)" "ln_pendingChannelOpens (fst s) = leases (snd s)"
    using inv by (simp_all add: proxy_inv_def)
  have b: "balanced options ?c (fst s) (c', l')"
    using f [OF ok] u(3,4) inv unfolding r [symmetric] q by (simp add: proxy_inv_def)
  have "list_all (conn_ok options) ((snd s)[i := c'])"
    using inv b True unfolding proxy_inv_def balanced_def by (auto simp: list_all_iff dest!: set_update_subset_insert [THEN subsetD])
  moreover have "ln_totalQueuedSocketBytes l' = queued ((snd s)[i := c'])" "ln_pendingChannelOpens l' = leases ((snd s)[i := c'])"
    using b u q unfolding balanced_def by auto
  ultimately show ?thesis using inv b r True by (simp add: proxy_inv_def balanced_def with_connection_def)
qed

lemma proxy_step_inv: "proxy_inv options s \<Longrightarrow> proxy_inv options (proxy_step options e s)"
proof (cases e)
  case Accepted
  assume "proxy_inv options s"
  then show ?thesis using Accepted
    by (auto simp: proxy_step_def admit_def proxy_inv_def connection_new_def conn_ok_def leases_def queued_def)
next
  case (OpenRequested i)
  assume "proxy_inv options s"
  then show ?thesis unfolding OpenRequested proxy_step_def proxy_event.case
    by (rule with_connection_inv)
      (auto simp: balanced_def acquirePendingChannelOpen_def forget_socket_def conn_ok_def Let_def length_removeAll_less_eq)
next
  case (OpenSettled i ok)
  assume "proxy_inv options s"
  then show ?thesis unfolding OpenSettled proxy_step_def proxy_event.case
    by (rule with_connection_inv) (auto simp: balanced_def release_open_def forget_socket_def conn_ok_def length_removeAll_less_eq)
next
  case (ChannelData i writable n)
  assume "proxy_inv options s"
  then show ?thesis unfolding ChannelData proxy_step_def proxy_event.case
    by (rule with_connection_inv) (auto simp: balanced_def enqueueSocketWrite_def conn_ok_def)
next
  case (WriteSettled i)
  assume "proxy_inv options s"
  then show ?thesis unfolding WriteSettled proxy_step_def proxy_event.case
    by (rule with_connection_inv) (auto simp: balanced_def settle_write_def conn_ok_def split: list.split)
next
  case (ClientData i n)
  assume "proxy_inv options s"
  then show ?thesis unfolding ClientData proxy_step_def proxy_event.case
    by (rule with_connection_inv) (auto simp: balanced_def)
next
  case (ChannelError i)
  assume "proxy_inv options s"
  then show ?thesis unfolding ChannelError proxy_step_def proxy_event.case
    by (rule with_connection_inv) (auto simp: balanced_def)
next
  case (ConnectionClosed i)
  assume "proxy_inv options s"
  then show ?thesis unfolding ConnectionClosed proxy_step_def proxy_event.case
    by (rule with_connection_inv) (auto simp: balanced_def forget_socket_def length_removeAll_less_eq)
next
  case Stopped
  assume "proxy_inv options s"
  then show ?thesis using Stopped by (simp add: proxy_step_def proxy_inv_def)
qed

interpretation proxy_resources: invariant_system "proxy_step options" "proxy_inv options"
  by unfold_locales (rule proxy_step_inv)

lemma proxy_run_inv: "proxy_inv options (proxy_run options events)"
  unfolding proxy_run_def
  by (rule proxy_resources.always)
    (simp add: proxy_inv_def listener_new_def leases_def queued_def)

text \<open>C20: The resources of the proxy stay within its limits whatever the order of the events of all
  connections: the sockets held, the channel opens in flight (which are the leases not yet released),
  and the bytes queued, in total and for each connection; the counters always agree with the writes
  that are still queued.\<close>

theorem proxy_resources_bounded:
  "let (l, cs) = proxy_run options events in
   st_active (snapshotStats l) \<le> or_default 512 (lo_maxConnections options) \<and>
   st_pendingChannelOpens (snapshotStats l) = length (filter (\<lambda>c. cn_lease c = Leased) cs) \<and>
   st_pendingChannelOpens (snapshotStats l) \<le> or_default (or_default 512 (lo_maxConnections options)) (lo_maxPendingChannelOpens options) \<and>
   ln_totalQueuedSocketBytes l = sum_list (map (\<lambda>c. sum_list (cn_writes c)) cs) \<and>
   ln_totalQueuedSocketBytes l \<le> or_default DEFAULT_PROXY_TOTAL_QUEUE_BYTES (lo_maxTotalQueuedSocketBytes options) \<and>
   list_all (\<lambda>c. sum_list (cn_writes c) \<le> or_default DEFAULT_PROXY_CONNECTION_QUEUE_BYTES (lo_maxQueuedSocketBytes options)) cs"
proof -
  obtain l cs where r: "proxy_run options events = (l, cs)" by fastforce
  have inv: "proxy_inv options (l, cs)" using proxy_run_inv [of options events] r by simp
  have len: "leases cs = length (filter (\<lambda>c. cn_lease c = Leased) cs)" for cs
    unfolding leases_def by (induction cs) auto
  have "map cn_queuedSocketBytes cs = map (\<lambda>c. sum_list (cn_writes c)) cs"
    using inv by (auto simp: proxy_inv_def conn_ok_def list_all_iff)
  then have "queued cs = sum_list (map (\<lambda>c. sum_list (cn_writes c)) cs)" unfolding queued_def by (rule arg_cong)
  moreover have "list_all (\<lambda>c. sum_list (cn_writes c) \<le> or_default DEFAULT_PROXY_CONNECTION_QUEUE_BYTES (lo_maxQueuedSocketBytes options)) cs"
    using inv by (auto simp: proxy_inv_def conn_ok_def list_all_iff)
  ultimately show ?thesis using inv unfolding r by (simp add: proxy_inv_def snapshotStats_def len)
qed

end
