(* ===== verification/HttpForward.thy ===== *)
theory HttpForward
  imports HttpProxy
begin

text \<open>
  What the origin gets to see of a forwarded HTTP request: the header is the client's without the
  fields meant for the proxy, and its body has one framing.
\<close>

section \<open>Field names\<close>

lemma token_char_props: "token_char u \<Longrightarrow> u < 128 \<and> \<not> js_ws u \<and> u \<noteq> 58"
  by (auto simp: token_char_def is_alnum_def is_alpha_def is_digit_def js_ws_def)

lemma lower_ascii_length: "list_all token_char s \<Longrightarrow> length (js_lower s) = length s"
proof (induction s)
  case (Cons u s)
  then have "length (lower_unit u) = 1" using token_char_props [of u] by (auto simp: lower_unit_def)
  then show ?case using Cons by simp
qed simp

lemma lower_colon: "58 \<in> set s \<Longrightarrow> 58 \<in> set (js_lower s)"
  by (induction s) (auto simp: lower_unit_def)

lemma header_named_iff:
  assumes i: "index_of 58 line = Some i" and raw: "list_all token_char (take i line)" and s: "58 \<notin> set (js s)"
  shows "header_named s line \<longleftrightarrow> js_lower (take i line) = js s"
proof -
  have l: "i < length line" "line ! i = 58" using i by (auto simp: index_of_Some)
  then have line: "line = take i line @ 58 # drop (i + 1) line" using id_take_nth_drop by fastforce
  show ?thesis
  proof
    assume "js_lower (take i line) = js s"
    then have n: "length s = i" using lower_ascii_length [OF raw] l(1) by (metis length_js length_take min.absorb2 order_less_imp_le)
    have d: "drop i line = 58 # drop (i + 1) line" using l by (metis Cons_nth_drop_Suc Suc_eq_plus1)
    have "dropWhile js_ws (drop i line) = drop i line" by (simp add: d js_ws_def)
    moreover have "starts_with (js '':'') (drop i line)" by (simp add: d starts_with_def)
    ultimately show "header_named s line" using \<open>js_lower (take i line) = js s\<close> n by (simp add: header_named_def)
  next
    assume h: "header_named s line"
    let ?n = "length s"
    have low: "js_lower (take ?n line) = js s" "starts_with (js '':'') (dropWhile js_ws (drop ?n line))"
      using h by (simp_all add: header_named_def)
    have "?n \<le> i"
    proof (rule ccontr)
      assume "\<not> ?n \<le> i"
      then have "58 \<in> set (take ?n line)" using l by (metis in_set_conv_nth length_take min_less_iff_conj not_le nth_take)
      then show False using lower_colon s low(1) by metis
    qed
    moreover have "\<not> ?n < i"
    proof
      assume n: "?n < i"
      then have d: "drop ?n line = line ! ?n # drop (?n + 1) line" using l(1) by (simp add: Cons_nth_drop_Suc)
      have "token_char (line ! ?n)" using raw n l(1) by (auto simp: list_all_length)
      then have "\<not> js_ws (line ! ?n)" "line ! ?n \<noteq> 58" using token_char_props by simp_all
      then show False using low(2) by (simp add: d starts_with_def)
    qed
    ultimately show "js_lower (take i line) = js s" using low(1) by simp
  qed
qed

section \<open>The fields sent on\<close>

definition drop_fields :: "bool \<Rightarrow> (jsstring \<rightharpoonup> jsstring) \<Rightarrow> (jsstring \<rightharpoonup> jsstring)" where
  "drop_fields forceClose headers n =
     (if n = js ''proxy-authorization'' \<or> n = js ''proxy-connection'' \<or> (forceClose \<and> n = js ''connection'') then None
      else headers n)"

lemma parse_header_line_Inr:
  assumes "parse_header_line headers line = Inr headers'" "line \<noteq> []"
  obtains i v where "index_of 58 line = Some i" "0 < i" "list_all token_char (take i line)"
    "\<And>h. h (js_lower (take i line)) = headers (js_lower (take i line)) \<Longrightarrow>
       parse_header_line h line = Inr (h(js_lower (take i line) \<mapsto> v))"
    "headers' = headers(js_lower (take i line) \<mapsto> v)"
proof -
  obtain i where i: "index_of 58 line = Some i" "0 < i" "list_all token_char (take i line)"
    using assms by (auto simp: parse_header_line_def Let_def split: if_splits option.splits)
  let ?n = "js_lower (take i line)"
  have "\<exists>v. headers' = headers(?n \<mapsto> v) \<and> (\<forall>h. h ?n = headers ?n \<longrightarrow> parse_header_line h line = Inr (h(?n \<mapsto> v)))"
    using assms i unfolding parse_header_line_def Let_def
    by (cases "headers ?n") (auto split: if_splits)
  then show thesis using that i by blast
qed

lemma kept_iff:
  assumes "index_of 58 line = Some i" "0 < i" "list_all token_char (take i line)"
  shows "kept_header fc line \<longleftrightarrow> \<not> (js_lower (take i line) = js ''proxy-authorization'' \<or>
    js_lower (take i line) = js ''proxy-connection'' \<or> (fc \<and> js_lower (take i line) = js ''connection''))"
proof -
  have "line \<noteq> []" using assms(1) by auto
  then show ?thesis
    using header_named_iff [OF assms(1,3), of "''proxy-authorization''"] header_named_iff [OF assms(1,3), of "''proxy-connection''"]
      header_named_iff [OF assms(1,3), of "''connection''"]
    by (auto simp: kept_header_def simp del: js_simps) (simp_all add: js_def)
qed

lemma parse_kept_lines:
  "parse_header_lines lines headers = Inr headers' \<Longrightarrow>
     parse_header_lines (filter (kept_header fc) lines) (drop_fields fc headers) = Inr (drop_fields fc headers')"
proof (induction lines arbitrary: headers)
  case (Cons line lines)
  obtain h1 where h1: "parse_header_line headers line = Inr h1" "parse_header_lines lines h1 = Inr headers'"
    using Cons.prems by auto
  have ih: "parse_header_lines (filter (kept_header fc) lines) (drop_fields fc h1) = Inr (drop_fields fc headers')"
    using Cons.IH [OF h1(2)] .
  show ?case
  proof (cases "line = []")
    case True
    then have "h1 = headers" using h1(1) by (simp add: parse_header_line_def)
    moreover have "\<not> kept_header fc []" by (simp add: kept_header_def)
    ultimately show ?thesis using ih True by simp
  next
    case False
    obtain i v where i: "index_of 58 line = Some i" "0 < i" "list_all token_char (take i line)"
      "\<And>h. h (js_lower (take i line)) = headers (js_lower (take i line)) \<Longrightarrow>
         parse_header_line h line = Inr (h(js_lower (take i line) \<mapsto> v))"
      "h1 = headers(js_lower (take i line) \<mapsto> v)"
      using parse_header_line_Inr [OF h1(1) False] by blast
    show ?thesis
    proof (cases "kept_header fc line")
      case True
      then have "drop_fields fc headers (js_lower (take i line)) = headers (js_lower (take i line))"
        unfolding kept_iff [OF i(1-3)] by (auto simp: drop_fields_def simp del: js_simps)
      moreover have "(drop_fields fc headers)(js_lower (take i line) \<mapsto> v) = drop_fields fc h1"
        using True unfolding kept_iff [OF i(1-3)] i(5) by (auto simp: drop_fields_def fun_eq_iff simp del: js_simps)
      ultimately show ?thesis using i(4) [of "drop_fields fc headers"] True ih by simp
    next
      case False
      then have "drop_fields fc h1 = drop_fields fc headers"
        unfolding kept_iff [OF i(1-3)] i(5) by (auto simp: drop_fields_def fun_eq_iff simp del: js_simps)
      then show ?thesis using False ih by simp
    qed
  qed
qed simp

lemma parse_header_lines_append:
  "parse_header_lines (a @ b) h = res_bind (parse_header_lines a h) (parse_header_lines b)"
proof (induction a arbitrary: h)
  case (Cons line a)
  then show ?case by (cases "parse_header_line h line") simp_all
qed simp

lemma parse_close: "h (js ''connection'') = None \<Longrightarrow>
    parse_header_lines [js ''Connection: close''] h = Inr (h(js ''connection'' \<mapsto> js ''close''))"
  by (simp add: parse_header_line_def token_char_def is_alnum_def is_alpha_def js_trim_def js_trim_start_def js_trim_end_def
      js_ws_def lower_unit_def header_value_char_def Let_def)

text \<open>The fields of the header that is sent on.\<close>

definition forwarded_fields :: "bool \<Rightarrow> (jsstring \<rightharpoonup> jsstring) \<Rightarrow> (jsstring \<rightharpoonup> jsstring)" where
  "forwarded_fields upgrade headers n =
     (if n = js ''proxy-authorization'' \<or> n = js ''proxy-connection'' then None
      else if n = js ''connection'' \<and> \<not> upgrade then Some (js ''close'') else headers n)"

lemma forwarded_lines:
  assumes "parseHttpHeaders lines = Inr headers"
  shows "parseHttpHeaders (filter (kept_header (\<not> upgrade)) lines @ (if \<not> upgrade then [js ''Connection: close''] else [])) =
    Inr (forwarded_fields upgrade headers)"
proof -
  have k: "parse_header_lines (filter (kept_header (\<not> upgrade)) lines) Map.empty = Inr (drop_fields (\<not> upgrade) headers)"
    using parse_kept_lines [of lines Map.empty headers "\<not> upgrade"] assms
    by (simp add: parseHttpHeaders_def) (simp add: drop_fields_def [abs_def])
  show ?thesis
  proof (cases upgrade)
    case True
    then show ?thesis using k by (simp add: parseHttpHeaders_def drop_fields_def forwarded_fields_def fun_eq_iff del: js_simps)
  next
    case False
    have "drop_fields True headers (js ''connection'') = None" by (simp add: drop_fields_def)
    then have "parse_header_lines [js ''Connection: close''] (drop_fields True headers) =
        Inr ((drop_fields True headers)(js ''connection'' \<mapsto> js ''close''))"
      by (rule parse_close)
    moreover have "(drop_fields True headers)(js ''connection'' \<mapsto> js ''close'') = forwarded_fields False headers"
      by (auto simp: drop_fields_def forwarded_fields_def fun_eq_iff simp del: js_simps)
    ultimately show ?thesis using k False by (simp add: parseHttpHeaders_def parse_header_lines_append del: parse_header_lines.simps)
  qed
qed

text \<open>A forwarded request reaches the origin with exactly the header fields the client sent, except that
  \<open>Proxy-Authorization\<close> and \<open>Proxy-Connection\<close> are gone and, unless it is a WebSocket upgrade,
  \<open>Connection\<close> is \<open>close\<close>.\<close>

theorem forwarded_header_exact:
  "case http_request_of parse_url header rest of
     Inl e \<Rightarrow> True
   | Inr r \<Rightarrow> (case cr_httpForwardBody r of
       None \<Rightarrow> cr_protocol r = HttpConnect
     | Some body \<Rightarrow> \<exists>first fields original.
         cr_initialData r = Some (latin1_bytes (js_join [13, 10] (first # fields @ [[], []]))) \<and>
         parseHttpHeaders (tl (split_on [13, 10] (latin1 header))) = Inr original \<and>
         parseHttpHeaders fields = Inr (forwarded_fields (fb_mode body = BodyStream) original))"
proof (cases "http_request_of parse_url header rest")
  case (Inl e)
  then show ?thesis by simp
next
  case (Inr r)
  define ls where "ls = split_on [13, 10] (latin1 header)"
  obtain mth tgt where line: "parse_request_line (hd ls) = Some (mth, tgt)"
    using Inr by (cases "parse_request_line (hd ls)") (auto simp: http_request_of_def ls_def Let_def)
  obtain hs where hs: "parseHttpHeaders (tl ls) = Inr hs"
    using Inr line by (cases "parseHttpHeaders (tl ls)") (auto simp: http_request_of_def ls_def Let_def)
  show ?thesis
  proof (cases "mth = js ''CONNECT''")
    case True
    then have "cr_httpForwardBody r = None \<and> cr_protocol r = HttpConnect"
      using Inr line hs by (auto simp: http_request_of_def ls_def Let_def simp del: js_simps)
    then show ?thesis using Inr by simp
  next
    case False
    let ?ws = "isWebSocketUpgrade hs"
    obtain target path mode n where fwd: "parseHttpForwardTarget parse_url tgt (hs (js ''host'')) = Inr (target, path)"
      "describeHttpForwardBody (tl ls) hs ?ws = Inr (mode, n)"
      using Inr line hs False by (auto simp: http_request_of_def ls_def Let_def split: prod.splits simp del: js_simps)
    have ws: "mode = BodyStream \<longleftrightarrow> ?ws"
      using fwd(2) by (auto simp: describeHttpForwardBody_def Let_def split: if_splits)
    have r: "r = \<lparr>cr_protocol = HttpForward, cr_target = target,
        cr_initialData = Some (latin1_bytes (rewriteHttpProxyHeader (hd ls) (tl ls) path (\<not> ?ws))),
        cr_httpForwardBody = Some \<lparr>fb_mode = mode, fb_contentLength = n, fb_initialData = rest\<rparr>\<rparr>"
      using Inr line hs False fwd by (simp add: http_request_of_def ls_def Let_def del: js_simps)
    define fields where "fields = filter (kept_header (\<not> ?ws)) (tl ls) @ (if \<not> ?ws then [js ''Connection: close''] else [])"
    define first where "first = word_at 0 (split_ws (hd ls)) @ js '' '' @ path @ js '' '' @ word_at 2 (split_ws (hd ls))"
    have "parseHttpHeaders fields = Inr (forwarded_fields (mode = BodyStream) hs)"
      unfolding ws fields_def by (rule forwarded_lines [OF hs])
    moreover have "rewriteHttpProxyHeader (hd ls) (tl ls) path (\<not> ?ws) = js_join [13, 10] (first # fields @ [[], []])"
      unfolding rewriteHttpProxyHeader_def Let_def fields_def first_def by (simp only: append_Cons append_Nil)
    ultimately have "\<exists>first fields original. cr_initialData r = Some (latin1_bytes (js_join [13, 10] (first # fields @ [[], []]))) \<and>
        parseHttpHeaders (tl ls) = Inr original \<and> parseHttpHeaders fields = Inr (forwarded_fields (mode = BodyStream) original)"
      using r hs by (intro exI [of _ first] exI [of _ fields] exI [of _ hs]) (simp only: connect_request.simps)
    then show ?thesis unfolding Inr sum.case by (simp add: r ls_def)
  qed
qed

end
