(* ===== verification/HttpBodyGate.thy ===== *)
theory HttpBodyGate
  imports HttpProxy
begin

text \<open>
  \<open>HttpForwardBodyGate\<close> of \<open>src/core/network/socks5-proxy.ts\<close>: the gate that passes exactly one request
  body on to the origin, for bodies of a given length and for chunked ones, and keeps what follows it.
\<close>

section \<open>The gate\<close>

datatype chunk_state = CSize | CData | CDataCrlf | CTrailers

record body_gate =
  bg_mode :: body_mode
  bg_remainingContentBytes :: nat
  bg_chunkState :: chunk_state
  bg_remainingChunkBytes :: nat
  bg_lineBuffer :: jsstring
  bg_dataCrlfOffset :: nat
  bg_trailerBytes :: nat
  bg_completed :: bool

definition gate_new :: "forward_body \<Rightarrow> body_gate" where
  "gate_new spec = \<lparr>bg_mode = fb_mode spec,
     bg_remainingContentBytes = (case fb_contentLength spec of None \<Rightarrow> 0 | Some n \<Rightarrow> n),
     bg_chunkState = CSize, bg_remainingChunkBytes = 0, bg_lineBuffer = [], bg_dataCrlfOffset = 0, bg_trailerBytes = 0,
     bg_completed = (fb_mode spec = BodyNone)\<rparr>"

text \<open>\<open>line.split(";", 1)[0].trim()\<close> and its hexadecimal value.\<close>

definition chunk_size :: "jsstring \<Rightarrow> proxy_error + nat" where
  "chunk_size line =
     (let sizeToken = js_trim (takeWhile (\<lambda>u. u \<noteq> 59) line) in
      if sizeToken = [] \<or> \<not> list_all is_hex_digit sizeToken
        then Inl (http_error ''Malformed chunked HTTP proxy request size.'')
      else if MAX_SAFE_INTEGER < radix_value 16 sizeToken
        then Inl (http_error ''Invalid chunked HTTP proxy request size.'')
      else Inr (radix_value 16 sizeToken))"

definition MAX_TRAILER_BYTES :: nat where "MAX_TRAILER_BYTES = 64 * 1024"
definition MAX_CHUNK_LINE :: nat where "MAX_CHUNK_LINE = 8 * 1024"

text \<open>What follows a complete line.\<close>

definition gate_line :: "jsstring \<Rightarrow> body_gate \<Rightarrow> proxy_error + body_gate" where
  "gate_line line g =
     (if bg_chunkState g = CTrailers then Inr (if line = [] then g\<lparr>bg_completed := True\<rparr> else g)
      else res_bind (chunk_size line) (\<lambda>n.
        if n = 0 then Inr (g\<lparr>bg_chunkState := CTrailers\<rparr>)
        else Inr (g\<lparr>bg_remainingChunkBytes := n, bg_chunkState := CData\<rparr>)))"

text \<open>One byte of a size line or of the trailers.\<close>

definition gate_line_byte :: "byte \<Rightarrow> body_gate \<Rightarrow> proxy_error + body_gate" where
  "gate_line_byte b g =
     (let lineBuffer = bg_lineBuffer g @ [unat b];
          trailerBytes = (if bg_chunkState g = CTrailers then bg_trailerBytes g + 1 else bg_trailerBytes g);
          g' = g\<lparr>bg_lineBuffer := lineBuffer, bg_trailerBytes := trailerBytes\<rparr> in
      if bg_chunkState g = CTrailers \<and> MAX_TRAILER_BYTES < trailerBytes
        then Inl (http_error ''Chunked HTTP proxy trailers are too large.'')
      else if MAX_CHUNK_LINE < length lineBuffer then Inl (http_error ''Chunked HTTP proxy line is too large.'')
      else if \<not> ends_with [13, 10] lineBuffer then Inr g'
      else gate_line (take (length lineBuffer - 2) lineBuffer) (g'\<lparr>bg_lineBuffer := []\<rparr>))"

text \<open>
  The loop of \<open>consume\<close> over the bytes left.  Its result is the gate and the bytes it did not consume.
\<close>

function gate_loop :: "bytes \<Rightarrow> body_gate \<Rightarrow> proxy_error + body_gate \<times> bytes" where
  "gate_loop data g =
     (if data = [] \<or> bg_completed g then Inr (g, data)
      else case bg_chunkState g of
        CData \<Rightarrow>
          (let consumed = min (bg_remainingChunkBytes g) (length data);
               remaining = bg_remainingChunkBytes g - consumed;
               g' = g\<lparr>bg_remainingChunkBytes := remaining\<rparr> in
           gate_loop (drop consumed data) (if remaining = 0 then g'\<lparr>bg_chunkState := CDataCrlf\<rparr> else g'))
      | CDataCrlf \<Rightarrow>
          if hd data \<noteq> (if bg_dataCrlfOffset g = 0 then 13 else 10)
            then Inl (http_error ''Malformed chunked HTTP proxy request body.'')
          else let offset = bg_dataCrlfOffset g + 1 in
            gate_loop (tl data)
              (if offset = 2 then g\<lparr>bg_dataCrlfOffset := 0, bg_chunkState := CSize\<rparr> else g\<lparr>bg_dataCrlfOffset := offset\<rparr>)
      | _ \<Rightarrow> (case gate_line_byte (hd data) g of Inl e \<Rightarrow> Inl e | Inr g' \<Rightarrow> gate_loop (tl data) g'))"
  by pat_completeness auto
termination
  by (relation "measures [\<lambda>(data, g). length data, \<lambda>(data, g). if bg_chunkState g = CData then 1 else 0]")
    (auto split: if_splits)

declare gate_loop.simps [simp del]

record gate_output =
  go_forward :: bytes
  go_extra :: bytes
  go_complete :: bool

definition gate_consume :: "bytes \<Rightarrow> body_gate \<Rightarrow> proxy_error + body_gate \<times> gate_output" where
  "gate_consume data g =
     (if bg_mode g = BodyStream then Inr (g, \<lparr>go_forward = data, go_extra = [], go_complete = False\<rparr>)
      else if bg_completed g then Inr (g, \<lparr>go_forward = [], go_extra = data, go_complete = True\<rparr>)
      else if bg_mode g = BodyLength then
        let forwardedBytes = min (bg_remainingContentBytes g) (length data);
            remaining = bg_remainingContentBytes g - forwardedBytes;
            g' = g\<lparr>bg_remainingContentBytes := remaining, bg_completed := (remaining = 0)\<rparr> in
        Inr (g', \<lparr>go_forward = take forwardedBytes data, go_extra = drop forwardedBytes data, go_complete = (remaining = 0)\<rparr>)
      else res_bind (gate_loop data g) (\<lambda>(g', extra).
        Inr (g', \<lparr>go_forward = take (length data - length extra) data, go_extra = extra, go_complete = bg_completed g'\<rparr>)))"

section \<open>Byte by byte\<close>

definition gate_byte :: "byte \<Rightarrow> body_gate \<Rightarrow> proxy_error + body_gate" where
  "gate_byte b g = (case bg_chunkState g of
       CData \<Rightarrow> Inr (if bg_remainingChunkBytes g = 1 then g\<lparr>bg_remainingChunkBytes := 0, bg_chunkState := CDataCrlf\<rparr>
         else g\<lparr>bg_remainingChunkBytes := bg_remainingChunkBytes g - 1\<rparr>)
     | CDataCrlf \<Rightarrow> if b \<noteq> (if bg_dataCrlfOffset g = 0 then 13 else 10)
         then Inl (http_error ''Malformed chunked HTTP proxy request body.'')
         else Inr (if bg_dataCrlfOffset g = 1 then g\<lparr>bg_dataCrlfOffset := 0, bg_chunkState := CSize\<rparr>
           else g\<lparr>bg_dataCrlfOffset := bg_dataCrlfOffset g + 1\<rparr>)
     | _ \<Rightarrow> gate_line_byte b g)"

fun gate_bytes :: "bytes \<Rightarrow> body_gate \<Rightarrow> proxy_error + body_gate \<times> bytes" where
  "gate_bytes [] g = Inr (g, [])"
| "gate_bytes (b # bs) g = (if bg_completed g then Inr (g, b # bs)
     else case gate_byte b g of Inl e \<Rightarrow> Inl e | Inr g' \<Rightarrow> gate_bytes bs g')"

definition gate_ok :: "body_gate \<Rightarrow> bool" where
  "gate_ok g \<longleftrightarrow> (if bg_chunkState g = CData then 0 < bg_remainingChunkBytes g else True)"

lemma gate_line_byte_ok:
  assumes "gate_line_byte b g = Inr g'" "bg_chunkState g \<noteq> CData"
  shows "gate_ok g'"
  using assms by (auto simp: gate_line_byte_def gate_line_def gate_ok_def Let_def split: if_splits)

lemma gate_byte_ok: "gate_byte b g = Inr g' \<Longrightarrow> gate_ok g \<Longrightarrow> gate_ok g'"
  using gate_line_byte_ok [of b g g']
  by (cases "bg_chunkState g") (auto simp: gate_byte_def gate_ok_def split: if_splits)

lemma gate_bytes_data:
  "bg_chunkState g = CData \<Longrightarrow> \<not> bg_completed g \<Longrightarrow> length ds < bg_remainingChunkBytes g \<Longrightarrow>
     gate_bytes (ds @ bs) g = gate_bytes bs (g\<lparr>bg_remainingChunkBytes := bg_remainingChunkBytes g - length ds\<rparr>)"
proof (induction ds arbitrary: g)
  case Nil
  then show ?case by simp
next
  case (Cons d ds)
  let ?g = "g\<lparr>bg_remainingChunkBytes := bg_remainingChunkBytes g - 1\<rparr>"
  have "gate_bytes ((d # ds) @ bs) g = gate_bytes (ds @ bs) ?g" using Cons.prems by (simp add: gate_byte_def)
  also have "\<dots> = gate_bytes bs (?g\<lparr>bg_remainingChunkBytes := bg_remainingChunkBytes ?g - length ds\<rparr>)"
    using Cons.prems by (intro Cons.IH) auto
  finally show ?case by simp
qed

text \<open>The loop, which takes chunk data in one piece, does what the bytes do one by one.\<close>

lemma gate_loop_bytes: "gate_ok g \<Longrightarrow> gate_loop data g = gate_bytes data g"
proof (induction data g rule: gate_loop.induct)
  case (1 data g)
  show ?case
  proof (cases "data = [] \<or> bg_completed g")
    case True
    then show ?thesis by (subst gate_loop.simps; cases data) auto
  next
    case False
    then obtain b bs where data: "data = b # bs" by (cases data) auto
    show ?thesis
    proof (cases "bg_chunkState g")
      case CData
      let ?n = "bg_remainingChunkBytes g"
      have n: "0 < ?n" using "1.prems" CData by (simp add: gate_ok_def)
      show ?thesis
      proof (cases "length data < ?n")
        case True
        then have "gate_loop data g = gate_loop [] (g\<lparr>bg_remainingChunkBytes := ?n - length data\<rparr>)"
          using False CData by (subst gate_loop.simps) (simp add: Let_def)
        also have "\<dots> = Inr (g\<lparr>bg_remainingChunkBytes := ?n - length data\<rparr>, [])" by (subst gate_loop.simps) simp
        finally show ?thesis using gate_bytes_data [of g data "[]"] CData False True by simp
      next
        case le: False
        let ?g = "g\<lparr>bg_remainingChunkBytes := 0, bg_chunkState := CDataCrlf\<rparr>"
        have loop: "gate_loop data g = gate_loop (drop ?n data) ?g"
          using False CData le by (subst gate_loop.simps) (simp add: Let_def min_def)
        have ih: "gate_loop (drop ?n data) ?g = gate_bytes (drop ?n data) ?g"
          using "1.IH"(2) [OF False CData refl refl refl] le by (simp add: gate_ok_def min_def)
        have sp: "data = take (?n - 1) data @ (data ! (?n - 1)) # drop ?n data"
          using le n id_take_nth_drop [of "?n - 1" data] by simp
        have "gate_bytes data g = gate_bytes ((data ! (?n - 1)) # drop ?n data)
            (g\<lparr>bg_remainingChunkBytes := ?n - length (take (?n - 1) data)\<rparr>)"
          using gate_bytes_data [of g "take (?n - 1) data" "(data ! (?n - 1)) # drop ?n data"] CData False le n sp by simp
        also have "?n - length (take (?n - 1) data) = 1" using le n by simp
        finally show ?thesis using loop ih False CData by (simp add: gate_byte_def)
      qed
    next
      case CDataCrlf
      then show ?thesis using "1.IH"(3) [OF False CDataCrlf] False data
        by (subst gate_loop.simps) (auto simp: gate_byte_def gate_ok_def Let_def)
    next
      case CSize
      then show ?thesis using "1.IH"(1) [OF False CSize] False data gate_line_byte_ok [of b g]
        by (subst gate_loop.simps) (auto simp: gate_byte_def split: sum.split)
    next
      case CTrailers
      then show ?thesis using "1.IH"(4) [OF False CTrailers] False data gate_line_byte_ok [of b g]
        by (subst gate_loop.simps) (auto simp: gate_byte_def split: sum.split)
    qed
  qed
qed


lemma gate_bytes_append:
  "gate_bytes (a @ b) g = (case gate_bytes a g of
     Inl e \<Rightarrow> Inl e
   | Inr (g', rest) \<Rightarrow> if bg_completed g' then Inr (g', rest @ b) else gate_bytes b g')"
proof (induction a arbitrary: g)
  case Nil
  then show ?case by (cases b) auto
next
  case (Cons x a)
  then show ?case by (auto split: sum.split)
qed

lemma gate_bytes_rest: "gate_bytes a g = Inr (g', rest) \<Longrightarrow> (\<not> bg_completed g' \<longrightarrow> rest = []) \<and> (\<exists>p. a = p @ rest)"
proof (induction a arbitrary: g)
  case (Cons x a)
  show ?case
  proof (cases "bg_completed g")
    case False
    then obtain g1 where "gate_byte x g = Inr g1" "gate_bytes a g1 = Inr (g', rest)" using Cons.prems by (auto split: sum.splits)
    then have "(\<not> bg_completed g' \<longrightarrow> rest = []) \<and> (\<exists>p. a = p @ rest)" using Cons.IH by blast
    then show ?thesis by (metis append_Cons)
  qed (use Cons.prems in auto)
qed simp

lemma gate_bytes_ok: "gate_bytes a g = Inr (g', rest) \<Longrightarrow> gate_ok g \<Longrightarrow> gate_ok g'"
  by (induction a arbitrary: g) (auto split: if_splits sum.splits dest: gate_byte_ok)

section \<open>Chunked bodies\<close>

text \<open>A line has no CR LF inside.\<close>

definition plain_line :: "bytes \<Rightarrow> bool" where
  "plain_line l \<longleftrightarrow> (\<nexists>x y. l = x @ 13 # 10 # y)"

inductive trailer_part :: "bytes \<Rightarrow> bool" where
  trailer_end: "trailer_part [13, 10]"
| trailer_line: "plain_line l \<Longrightarrow> l \<noteq> [] \<Longrightarrow> length l + 2 \<le> MAX_CHUNK_LINE \<Longrightarrow> trailer_part t \<Longrightarrow> trailer_part (l @ 13 # 10 # t)"

text \<open>The transfer coding of RFC 9112, section 7.1, within the limits of the gate.\<close>

inductive chunked_body :: "bytes \<Rightarrow> bool" where
  last_chunk: "plain_line l \<Longrightarrow> length l + 2 \<le> MAX_CHUNK_LINE \<Longrightarrow> chunk_size (latin1 l) = Inr 0 \<Longrightarrow>
     trailer_part t \<Longrightarrow> length t \<le> MAX_TRAILER_BYTES \<Longrightarrow> chunked_body (l @ 13 # 10 # t)"
| more_chunks: "plain_line l \<Longrightarrow> length l + 2 \<le> MAX_CHUNK_LINE \<Longrightarrow> chunk_size (latin1 l) = Inr (length d) \<Longrightarrow> d \<noteq> [] \<Longrightarrow>
     chunked_body r \<Longrightarrow> chunked_body (l @ 13 # 10 # d @ 13 # 10 # r)"

lemma plain_line_simps: "plain_line []" "plain_line (l @ b) \<Longrightarrow> plain_line l"
  unfolding plain_line_def by (simp, metis append_Cons append_assoc)

lemma latin1_append [simp]: "latin1 (a @ b) = latin1 a @ latin1 b" "latin1 [] = []" "length (latin1 a) = length a"
  by (simp_all add: latin1_def)

lemma crlf_end:
  "ends_with [13, 10] (latin1 (p @ [b])) \<longleftrightarrow> b = 10 \<and> p \<noteq> [] \<and> last p = 13"
proof -
  have u: "unat (c :: byte) = unat (d :: byte) \<longleftrightarrow> c = d" for c d by (simp add: word_unat_eq_iff)
  have "unat b = 10 \<longleftrightarrow> b = 10" "unat c = 13 \<longleftrightarrow> c = 13" for c :: byte using u [of b 10] u [of c 13] by simp_all
  then show ?thesis by (cases p rule: rev_cases) (auto simp: ends_with_iff latin1_def)
qed

lemma plain_line_snoc: "plain_line p \<Longrightarrow> \<not> (b = 10 \<and> p \<noteq> [] \<and> last p = 13) \<Longrightarrow> plain_line (p @ [b])"
proof (unfold plain_line_def, intro notI)
  assume p: "\<nexists>x y. p = x @ 13 # 10 # y" and nb: "\<not> (b = 10 \<and> p \<noteq> [] \<and> last p = 13)" and "\<exists>x y. p @ [b] = x @ 13 # 10 # y"
  then obtain x y where xy: "p @ [b] = x @ 13 # 10 # y" by blast
  show False
  proof (cases y rule: rev_cases)
    case Nil
    then have "p = x @ [13]" "b = 10" using xy by (simp_all add: append_eq_append_conv2 Cons_eq_append_conv append_eq_Cons_conv)
    then show False using nb by simp
  next
    case (snoc y' c)
    then have "p = x @ 13 # 10 # y'" using xy by simp
    then show False using p by blast
  qed
qed

text \<open>The states between two lines.\<close>

definition line_state :: "nat \<Rightarrow> chunk_state \<Rightarrow> nat \<Rightarrow> bytes \<Rightarrow> body_gate" where
  "line_state c st t p = \<lparr>bg_mode = BodyChunked, bg_remainingContentBytes = c, bg_chunkState = st, bg_remainingChunkBytes = 0,
     bg_lineBuffer = latin1 p, bg_dataCrlfOffset = 0, bg_trailerBytes = t, bg_completed = False\<rparr>"

definition line_cost :: "chunk_state \<Rightarrow> nat \<Rightarrow> nat" where
  "line_cost st n = (if st = CTrailers then n else 0)"

lemma line_state_byte:
  assumes "st = CSize \<or> st = CTrailers"
  shows "gate_byte b (line_state c st t p) =
    (if MAX_TRAILER_BYTES < t + line_cost st 1 \<and> st = CTrailers then Inl (http_error ''Chunked HTTP proxy trailers are too large.'')
     else if MAX_CHUNK_LINE < length p + 1 then Inl (http_error ''Chunked HTTP proxy line is too large.'')
     else if b = 10 \<and> p \<noteq> [] \<and> last p = 13 then gate_line (latin1 (butlast p)) (line_state c st (t + line_cost st 1) [])
     else Inr (line_state c st (t + line_cost st 1) (p @ [b])))"
proof -
  let ?g = "line_state c st t p"
  have buf: "bg_lineBuffer ?g @ [unat b] = latin1 (p @ [b])" by (simp add: latin1_def line_state_def)
  have len: "length (latin1 (p @ [b])) = length p + 1" by (simp add: latin1_def)
  have tk: "take (length p + 1 - 2) (latin1 (p @ [b])) = latin1 (butlast p)"
    by (cases p rule: rev_cases) (simp_all add: latin1_def)
  have tr: "(if st = CTrailers then bg_trailerBytes ?g + 1 else bg_trailerBytes ?g) = t + line_cost st 1"
    by (simp add: line_state_def line_cost_def)
  have upd: "?g\<lparr>bg_lineBuffer := latin1 q, bg_trailerBytes := u\<rparr> = line_state c st u q" for q u
    by (simp add: line_state_def)
  have nil: "(line_state c st u q)\<lparr>bg_lineBuffer := []\<rparr> = line_state c st u []" for q u by (simp add: line_state_def)
  have st: "bg_chunkState ?g = st" by (simp add: line_state_def)
  have "gate_byte b ?g = gate_line_byte b ?g" using assms by (auto simp: gate_byte_def line_state_def)
  then show ?thesis
    unfolding gate_line_byte_def Let_def buf tr upd len tk crlf_end nil st by (simp only: conj_commute not_not if_not_P if_P if_cancel) auto
qed

lemma line_sound:
  assumes "gate_bytes data (line_state c st t p) = Inr (g', extra)" "bg_completed g'" "plain_line p"
    and st: "st = CSize \<or> st = CTrailers"
  shows "\<exists>l bs g1. p @ data = l @ 13 # 10 # bs \<and> length p \<le> length l + 1 \<and> plain_line l \<and> length l + 2 \<le> MAX_CHUNK_LINE \<and>
    (st = CTrailers \<longrightarrow> t + (length l + 2 - length p) \<le> MAX_TRAILER_BYTES) \<and>
    gate_line (latin1 l) (line_state c st (t + line_cost st (length l + 2 - length p)) []) = Inr g1 \<and>
    gate_bytes bs g1 = Inr (g', extra)"
  using assms(1-3)
proof (induction data arbitrary: t p)
  case Nil
  then show ?case by (auto simp: line_state_def)
next
  case (Cons b data)
  have nc: "\<not> bg_completed (line_state c st t p)" by (simp add: line_state_def)
  obtain g2 where g2: "gate_byte b (line_state c st t p) = Inr g2" "gate_bytes data g2 = Inr (g', extra)"
    using Cons.prems(1) nc by (auto split: sum.splits)
  have lim: "st = CTrailers \<longrightarrow> t + 1 \<le> MAX_TRAILER_BYTES" "length p + 1 \<le> MAX_CHUNK_LINE"
    using g2(1) unfolding line_state_byte [OF st] line_cost_def by (auto split: if_splits)
  show ?case
  proof (cases "b = 10 \<and> p \<noteq> [] \<and> last p = 13")
    case True
    then have p: "p = butlast p @ [13]" by (metis append_butlast_last_id)
    have lb: "length (butlast p) + 1 = length p" using True by simp
    have "gate_line (latin1 (butlast p)) (line_state c st (t + line_cost st 1) []) = Inr g2"
      using g2(1) lim True unfolding line_state_byte [OF st] line_cost_def by (auto split: if_splits)
    moreover have "p @ b # data = butlast p @ 13 # 10 # data" using True p by (metis append_Cons append_Nil append_assoc)
    moreover have "plain_line (butlast p)" using Cons.prems(3) p plain_line_simps(2) by metis
    ultimately show ?thesis using lim lb g2(2)
      by (intro exI [of _ "butlast p"] exI [of _ data] exI [of _ g2]) auto
  next
    case False
    then have g: "g2 = line_state c st (t + line_cost st 1) (p @ [b])"
      using g2(1) lim unfolding line_state_byte [OF st] line_cost_def by (auto split: if_splits)
    obtain l bs g1 where ih: "(p @ [b]) @ data = l @ 13 # 10 # bs" "length (p @ [b]) \<le> length l + 1" "plain_line l"
      "length l + 2 \<le> MAX_CHUNK_LINE"
      "st = CTrailers \<longrightarrow> t + line_cost st 1 + (length l + 2 - length (p @ [b])) \<le> MAX_TRAILER_BYTES"
      "gate_line (latin1 l) (line_state c st (t + line_cost st 1 + line_cost st (length l + 2 - length (p @ [b]))) []) = Inr g1"
      "gate_bytes bs g1 = Inr (g', extra)"
      using Cons.IH [OF g2(2) [unfolded g] Cons.prems(2) plain_line_snoc [OF Cons.prems(3) False]] by blast
    have cost: "t + line_cost st 1 + line_cost st (length l + 2 - length (p @ [b])) = t + line_cost st (length l + 2 - length p)"
      using ih(2) by (simp add: line_cost_def Suc_diff_le)
    show ?thesis
      using ih unfolding cost by (intro exI [of _ l] exI [of _ bs] exI [of _ g1]) (auto simp: line_cost_def)
  qed
qed

lemma line_run:
  assumes "plain_line (p @ q)" "length (p @ q) + 2 \<le> MAX_CHUNK_LINE"
    "st = CTrailers \<longrightarrow> t + length q + 2 \<le> MAX_TRAILER_BYTES" and st: "st = CSize \<or> st = CTrailers"
  shows "gate_bytes (q @ 13 # 10 # bs) (line_state c st t p) =
    (case gate_line (latin1 (p @ q)) (line_state c st (t + line_cost st (length q + 2)) []) of
       Inl e \<Rightarrow> Inl e | Inr g \<Rightarrow> gate_bytes bs g)"
  using assms(1-3)
proof (induction q arbitrary: t p)
  case Nil
  have nc: "\<not> bg_completed (line_state c st u r)" for u r by (simp add: line_state_def)
  have "gate_byte 13 (line_state c st t p) = Inr (line_state c st (t + line_cost st 1) (p @ [13]))"
    unfolding line_state_byte [OF st] using Nil by (auto simp: line_cost_def)
  moreover have "gate_byte 10 (line_state c st (t + line_cost st 1) (p @ [13])) =
      gate_line (latin1 p) (line_state c st (t + line_cost st 1 + line_cost st 1) [])"
    unfolding line_state_byte [OF st] using Nil by (auto simp: line_cost_def)
  ultimately show ?case using nc by (auto simp: line_cost_def split: sum.split)
next
  case (Cons b q)
  have nl: "\<not> (b = 10 \<and> p \<noteq> [] \<and> last p = 13)"
  proof
    assume "b = 10 \<and> p \<noteq> [] \<and> last p = 13"
    then obtain p' where "p = p' @ [13]" "b = 10" by (metis append_butlast_last_id)
    then have "p @ b # q = p' @ 13 # 10 # q" by simp
    then show False using Cons.prems(1) unfolding plain_line_def by blast
  qed
  have "gate_byte b (line_state c st t p) = Inr (line_state c st (t + line_cost st 1) (p @ [b]))"
    unfolding line_state_byte [OF st] using Cons.prems nl by (auto simp: line_cost_def)
  moreover have "gate_bytes (q @ 13 # 10 # bs) (line_state c st (t + line_cost st 1) (p @ [b])) =
      (case gate_line (latin1 ((p @ [b]) @ q)) (line_state c st (t + line_cost st 1 + line_cost st (length q + 2)) []) of
       Inl e \<Rightarrow> Inl e | Inr g \<Rightarrow> gate_bytes bs g)"
    using Cons.prems by (intro Cons.IH) (auto simp: line_cost_def)
  ultimately show ?case by (simp add: line_state_def line_cost_def)
qed


definition data_state :: "nat \<Rightarrow> nat \<Rightarrow> nat \<Rightarrow> body_gate" where
  "data_state c t n = (line_state c CData t [])\<lparr>bg_remainingChunkBytes := n\<rparr>"

lemma data_bytes:
  assumes "0 < n"
  shows "length ds < n \<Longrightarrow> gate_bytes (ds @ bs) (data_state c t n) = gate_bytes bs (data_state c t (n - length ds))"
    and "length ds = n \<Longrightarrow> gate_bytes (ds @ bs) (data_state c t n) = gate_bytes bs ((line_state c CDataCrlf t []))"
proof -
  have step: "gate_bytes (es @ cs) (data_state c t n) = gate_bytes cs (data_state c t (n - length es))" if "length es < n" for es cs
    using gate_bytes_data [of "data_state c t n" es cs] that by (simp add: data_state_def line_state_def)
  then show "length ds < n \<Longrightarrow> gate_bytes (ds @ bs) (data_state c t n) = gate_bytes bs (data_state c t (n - length ds))" by simp
  assume n: "length ds = n"
  then obtain es e where ds: "ds = es @ [e]" using assms by (cases ds rule: rev_cases) auto
  have "gate_bytes (ds @ bs) (data_state c t n) = gate_bytes (e # bs) (data_state c t 1)"
  proof -
    have "n - length es = 1" "length es < n" using n by (simp_all add: ds)
    then show ?thesis using step [of es "e # bs"] by (simp only: ds append_assoc append_Cons append_Nil)
  qed
  then show "gate_bytes (ds @ bs) (data_state c t n) = gate_bytes bs ((line_state c CDataCrlf t []))"
    by (simp add: gate_byte_def data_state_def line_state_def)
qed

lemma crlf_bytes:
  "gate_bytes (13 # 10 # bs) (line_state c CDataCrlf t []) = gate_bytes bs (line_state c CSize t [])"
  by (simp add: line_state_def gate_byte_def)

lemma crlf_sound:
  assumes "gate_bytes bs (line_state c CDataCrlf t []) = Inr (g', extra)" "bg_completed g'"
  obtains r where "bs = 13 # 10 # r"
proof (cases bs)
  case Nil
  then show thesis using assms by (auto simp: line_state_def)
next
  case (Cons a as)
  then show thesis using assms that
    by (cases as) (auto simp: line_state_def gate_byte_def split: if_splits)
qed

lemma data_sound:
  assumes "gate_bytes bs (data_state c t n) = Inr (g', extra)" "bg_completed g'" "0 < n"
  obtains d r where "bs = d @ 13 # 10 # r" "length d = n" "gate_bytes r (line_state c CSize t []) = Inr (g', extra)"
proof (cases "length bs < n")
  case True
  then have "g' = data_state c t (n - length bs)" using data_bytes(1) [OF assms(3) True, of "[]" c t] assms(1) by simp
  then show thesis using assms(2) by (simp add: data_state_def line_state_def)
next
  case False
  then have l: "length (take n bs) = n" by simp
  have run: "gate_bytes (drop n bs) (line_state c CDataCrlf t []) = Inr (g', extra)"
    using data_bytes(2) [OF assms(3) l, of "drop n bs" c t] assms(1) by simp
  obtain r where r: "drop n bs = 13 # 10 # r" using crlf_sound [OF run assms(2)] .
  have "bs = take n bs @ 13 # 10 # r" using r by (metis append_take_drop_id)
  then show thesis using that [of "take n bs" r] l run crlf_bytes [of r c t] r by simp
qed

lemma gate_line_states:
  "gate_line l (line_state c CTrailers t []) = Inr (if l = [] then (line_state c CTrailers t [])\<lparr>bg_completed := True\<rparr> else line_state c CTrailers t [])"
  "gate_line l (line_state c CSize t []) = res_bind (chunk_size l) (\<lambda>n.
     Inr (if n = 0 then line_state c CTrailers t [] else data_state c t n))"
  by (auto simp: gate_line_def line_state_def data_state_def intro!: arg_cong [where f = "res_bind (chunk_size l)"])

lemma trailers_sound:
  "gate_bytes data (line_state c CTrailers t []) = Inr (g', extra) \<Longrightarrow> bg_completed g' \<Longrightarrow>
     \<exists>tr. data = tr @ extra \<and> trailer_part tr \<and> t + length tr \<le> MAX_TRAILER_BYTES"
proof (induction "length data" arbitrary: data t rule: less_induct)
  case less
  obtain l bs g1 where l: "data = l @ 13 # 10 # bs" "plain_line l" "length l + 2 \<le> MAX_CHUNK_LINE"
    "t + (length l + 2) \<le> MAX_TRAILER_BYTES"
    "gate_line (latin1 l) (line_state c CTrailers (t + (length l + 2)) []) = Inr g1" "gate_bytes bs g1 = Inr (g', extra)"
    using line_sound [OF less.prems plain_line_simps(1)] by (auto simp: line_cost_def)
  show ?case
  proof (cases "l = []")
    case True
    then have "bg_completed g1" using l(5) by (auto simp: gate_line_states)
    then have "extra = bs" using l(6) by (cases bs) auto
    then show ?thesis using l True trailer_end by (intro exI [of _ "[13, 10]"]) simp
  next
    case False
    then have "latin1 l \<noteq> []" by (simp add: latin1_def)
    then have "g1 = line_state c CTrailers (t + (length l + 2)) []" using l(5) by (simp add: gate_line_states)
    then obtain tr where "bs = tr @ extra" "trailer_part tr" "t + (length l + 2) + length tr \<le> MAX_TRAILER_BYTES"
      using less.hyps [of bs "t + (length l + 2)"] l less.prems(2) by auto
    then show ?thesis using l False trailer_line by (intro exI [of _ "l @ 13 # 10 # tr"]) simp
  qed
qed

lemma trailers_run:
  "trailer_part tr \<Longrightarrow> t + length tr \<le> MAX_TRAILER_BYTES \<Longrightarrow>
     \<exists>g'. gate_bytes (tr @ extra) (line_state c CTrailers t []) = Inr (g', extra) \<and> bg_completed g'"
proof (induction tr arbitrary: t rule: trailer_part.induct)
  case trailer_end
  have "gate_bytes ([] @ 13 # 10 # extra) (line_state c CTrailers t []) =
      gate_bytes extra ((line_state c CTrailers (t + 2) [])\<lparr>bg_completed := True\<rparr>)"
    using line_run [of "[]" "[]" CTrailers t extra c] trailer_end by (simp add: plain_line_simps MAX_CHUNK_LINE_def gate_line_states line_cost_def)
  then show ?case by (cases extra) auto
next
  case (trailer_line l tr)
  have "latin1 l \<noteq> []" using trailer_line by (simp add: latin1_def)
  then have "gate_bytes (l @ 13 # 10 # tr @ extra) (line_state c CTrailers t []) =
      gate_bytes (tr @ extra) (line_state c CTrailers (t + (length l + 2)) [])"
    using line_run [of "[]" l CTrailers t "tr @ extra" c] trailer_line by (simp add: gate_line_states line_cost_def)
  then show ?case using trailer_line.IH [of "t + (length l + 2)"] trailer_line.prems by simp
qed

lemma chunks_sound:
  "gate_bytes data (line_state c CSize 0 []) = Inr (g', extra) \<Longrightarrow> bg_completed g' \<Longrightarrow> \<exists>f. data = f @ extra \<and> chunked_body f"
proof (induction "length data" arbitrary: data rule: less_induct)
  case less
  obtain l bs g1 where l: "data = l @ 13 # 10 # bs" "plain_line l" "length l + 2 \<le> MAX_CHUNK_LINE"
    "gate_line (latin1 l) (line_state c CSize 0 []) = Inr g1" "gate_bytes bs g1 = Inr (g', extra)"
    using line_sound [OF less.prems plain_line_simps(1)] by (auto simp: line_cost_def)
  obtain n where n: "chunk_size (latin1 l) = Inr n" "g1 = (if n = 0 then line_state c CTrailers 0 [] else data_state c 0 n)"
    using l(4) unfolding gate_line_states by (cases "chunk_size (latin1 l)") auto
  show ?case
  proof (cases "n = 0")
    case True
    then obtain tr where "bs = tr @ extra" "trailer_part tr" "length tr \<le> MAX_TRAILER_BYTES"
      using trailers_sound [of bs c 0 g' extra] n l(5) less.prems(2) by auto
    then show ?thesis using last_chunk [OF l(2,3)] n True l(1) by (intro exI [of _ "l @ 13 # 10 # tr"]) simp
  next
    case False
    then obtain d r where d: "bs = d @ 13 # 10 # r" "length d = n" "gate_bytes r (line_state c CSize 0 []) = Inr (g', extra)"
      using data_sound [of bs c 0 n g' extra] n l(5) less.prems(2) by auto
    then obtain f where "r = f @ extra" "chunked_body f" using less.hyps [of r] l(1) less.prems(2) by auto
    then show ?thesis using more_chunks [OF l(2,3)] n d l(1) False by (intro exI [of _ "l @ 13 # 10 # d @ 13 # 10 # f"]) auto
  qed
qed

lemma chunks_run:
  "chunked_body f \<Longrightarrow> \<exists>g'. gate_bytes (f @ extra) (line_state c CSize 0 []) = Inr (g', extra) \<and> bg_completed g'"
proof (induction f rule: chunked_body.induct)
  case (last_chunk l t)
  have "gate_bytes (l @ 13 # 10 # t @ extra) (line_state c CSize 0 []) = gate_bytes (t @ extra) (line_state c CTrailers 0 [])"
    using line_run [of "[]" l CSize 0 "t @ extra" c] last_chunk by (simp add: gate_line_states line_cost_def)
  then show ?case using trailers_run [of t 0 extra c] last_chunk by simp
next
  case (more_chunks l d r)
  have "gate_bytes (l @ 13 # 10 # d @ 13 # 10 # r @ extra) (line_state c CSize 0 []) =
      gate_bytes (d @ 13 # 10 # r @ extra) (data_state c 0 (length d))"
    using line_run [of "[]" l CSize 0 "d @ 13 # 10 # r @ extra" c] more_chunks by (simp add: gate_line_states line_cost_def)
  also have "\<dots> = gate_bytes (r @ extra) (line_state c CSize 0 [])"
    using data_bytes(2) [of "length d" d "13 # 10 # r @ extra" c 0] more_chunks crlf_bytes by simp
  finally show ?case using more_chunks by simp
qed

lemma gate_bytes_chunked:
  "(\<exists>g'. gate_bytes data (line_state c CSize 0 []) = Inr (g', extra) \<and> bg_completed g') \<longleftrightarrow>
     (\<exists>f. data = f @ extra \<and> chunked_body f)"
  using chunks_sound chunks_run by blast


section \<open>One request body\<close>

text \<open>
  \<open>forwardClientData\<close> for the initial data and then for each \<open>data\<close> event, until the request is
  complete; after that the local socket stays paused.  The result is what reached the origin, what was
  left over, and whether the request was completed.
\<close>

fun gate_feed :: "bytes list \<Rightarrow> body_gate \<Rightarrow> proxy_error + bytes \<times> bytes \<times> bool" where
  "gate_feed [] g = Inr ([], [], False)"
| "gate_feed (c # cs) g =
     res_bind (gate_consume c g) (\<lambda>(g', out).
       if go_complete out then Inr (go_forward out, go_extra out, True)
       else res_bind (gate_feed cs g') (\<lambda>(f, extra, done). Inr (go_forward out @ f, extra, done)))"

text \<open>What a request body is, by the framing its header announced.  A stream has no end.\<close>

definition request_body :: "forward_body \<Rightarrow> bytes \<Rightarrow> bool" where
  "request_body spec f = (case fb_mode spec of
       BodyNone \<Rightarrow> f = []
     | BodyLength \<Rightarrow> length f = (case fb_contentLength spec of None \<Rightarrow> 0 | Some n \<Rightarrow> n)
     | BodyChunked \<Rightarrow> chunked_body f
     | BodyStream \<Rightarrow> False)"

lemma feed_stream: "bg_mode g = BodyStream \<Longrightarrow> gate_feed cs g \<noteq> Inr (f, extra, True)"
proof (induction cs arbitrary: f)
  case (Cons c cs)
  then show ?case by (cases "gate_feed cs g") (auto simp: gate_consume_def)
qed simp

lemma feed_length:
  assumes "bg_mode g = BodyLength" "\<not> bg_completed g"
  shows "(\<exists>extra. gate_feed cs g = Inr (f, extra, True)) \<longleftrightarrow>
    cs \<noteq> [] \<and> length f = bg_remainingContentBytes g \<and> (\<exists>rest. concat cs = f @ rest)"
  using assms
proof (induction cs arbitrary: g f)
  case Nil
  then show ?case by simp
next
  case (Cons c cs)
  let ?n = "bg_remainingContentBytes g"
  let ?k = "min ?n (length c)"
  let ?g = "g\<lparr>bg_remainingContentBytes := ?n - ?k, bg_completed := (?n - ?k = 0)\<rparr>"
  have con: "gate_consume c g = Inr (?g, \<lparr>go_forward = take ?k c, go_extra = drop ?k c, go_complete = (?n - ?k = 0)\<rparr>)"
    using Cons.prems by (simp add: gate_consume_def Let_def)
  show ?case
  proof (cases "?n \<le> length c")
    case True
    then have "gate_feed (c # cs) g = Inr (take ?n c, drop ?n c, True)" by (simp add: con)
    moreover have "length f = ?n \<and> (\<exists>rest. concat (c # cs) = f @ rest) \<longleftrightarrow> f = take ?n c"
    proof
      assume "length f = ?n \<and> (\<exists>rest. concat (c # cs) = f @ rest)"
      then have "f = take ?n (concat (c # cs))" by (metis append_eq_conv_conj)
      then show "f = take ?n c" using True by simp
    next
      assume "f = take ?n c"
      then have "length f = ?n" "concat (c # cs) = f @ (drop ?n c @ concat cs)" using True by simp_all
      then show "length f = ?n \<and> (\<exists>rest. concat (c # cs) = f @ rest)" by blast
    qed
    ultimately show ?thesis by (simp only: sum.inject prod.inject) (auto simp del: gate_feed.simps)
  next
    case False
    let ?h = "g\<lparr>bg_remainingContentBytes := ?n - length c, bg_completed := False\<rparr>"
    have feed: "gate_feed (c # cs) g = res_bind (gate_feed cs ?h) (\<lambda>(f, extra, done). Inr (c @ f, extra, done))"
      using False by (simp add: con min_def)
    have ih: "(\<exists>extra. gate_feed cs ?h = Inr (f', extra, True)) \<longleftrightarrow>
        cs \<noteq> [] \<and> length f' = ?n - length c \<and> (\<exists>rest. concat cs = f' @ rest)" for f'
      using Cons.IH [of ?h f'] Cons.prems by simp
    have "(\<exists>extra. gate_feed (c # cs) g = Inr (f, extra, True)) \<longleftrightarrow>
        (\<exists>f'. f = c @ f' \<and> (\<exists>extra. gate_feed cs ?h = Inr (f', extra, True)))"
      unfolding feed by (cases "gate_feed cs ?h") auto
    also have "\<dots> \<longleftrightarrow> (\<exists>f'. f = c @ f' \<and> cs \<noteq> [] \<and> length f' = ?n - length c \<and> (\<exists>rest. concat cs = f' @ rest))"
      unfolding ih ..
    also have "\<dots> \<longleftrightarrow> length f = ?n \<and> (\<exists>rest. concat (c # cs) = f @ rest)"
    proof
      assume "length f = ?n \<and> (\<exists>rest. concat (c # cs) = f @ rest)"
      then obtain rest where r: "length f = ?n" "c @ concat cs = f @ rest" by auto
      then obtain f' where f': "f = c @ f'" "concat cs = f' @ rest"
      proof -
        have "take (length c) f = c" using r False by (metis append_eq_append_conv_if nat_le_linear)
        then have "f = c @ drop (length c) f" by (metis append_take_drop_id)
        then show thesis using that [of "drop (length c) f"] r(2) by (metis append_assoc same_append_eq)
      qed
      moreover have "cs \<noteq> []" using f' r(1) False by auto
      ultimately show "\<exists>f'. f = c @ f' \<and> cs \<noteq> [] \<and> length f' = ?n - length c \<and> (\<exists>rest. concat cs = f' @ rest)"
        using r(1) by (intro exI [of _ f']) auto
    qed (use False in auto)
    finally show ?thesis by simp
  qed
qed

lemma gate_byte_mode: "gate_byte b g = Inr g' \<Longrightarrow> bg_mode g' = bg_mode g"
  by (cases "chunk_size (take (length (bg_lineBuffer g) - 1) (bg_lineBuffer g @ [unat b]))")
    (auto simp: gate_byte_def gate_line_byte_def gate_line_def Let_def split: chunk_state.splits if_splits)

lemma gate_bytes_mode: "gate_bytes bs g = Inr (g', rest) \<Longrightarrow> bg_mode g' = bg_mode g"
  by (induction bs arbitrary: g) (auto split: if_splits sum.splits dest: gate_byte_mode)

lemma feed_chunked:
  assumes "bg_mode g = BodyChunked" "\<not> bg_completed g" "gate_ok g"
  shows "(\<exists>extra. gate_feed cs g = Inr (f, extra, True)) \<longleftrightarrow>
    (\<exists>g' extra. gate_bytes (concat cs) g = Inr (g', extra) \<and> bg_completed g' \<and> concat cs = f @ extra)"
  using assms
proof (induction cs arbitrary: g f)
  case Nil
  then show ?case by auto
next
  case (Cons c cs)
  have con: "gate_consume c g = res_bind (gate_bytes c g) (\<lambda>(g', extra).
        Inr (g', \<lparr>go_forward = take (length c - length extra) c, go_extra = extra, go_complete = bg_completed g'\<rparr>))"
    using Cons.prems gate_loop_bytes by (simp add: gate_consume_def)
  show ?case
  proof (cases "gate_bytes c g")
    case (Inl e)
    then show ?thesis by (simp add: con gate_bytes_append)
  next
    case (Inr r)
    obtain g1 ex where r: "r = (g1, ex)" by fastforce
    obtain p where p: "c = p @ ex" "\<not> bg_completed g1 \<Longrightarrow> ex = []" using gate_bytes_rest [of c g g1 ex] Inr r by auto
    show ?thesis
    proof (cases "bg_completed g1")
      case True
      have "take (length c - length ex) c = p" using p(1) by simp
      then have "gate_feed (c # cs) g = Inr (p, ex, True)" using True Inr r by (simp add: con)
      moreover have "gate_bytes (concat (c # cs)) g = Inr (g1, ex @ concat cs)" using True Inr r by (simp add: gate_bytes_append)
      moreover have "concat (c # cs) = f @ ex @ concat cs \<longleftrightarrow> f = p" using p(1) by auto
      ultimately show ?thesis using True by (simp only: sum.inject prod.inject) (auto simp del: gate_feed.simps)
    next
      case False
      have mode: "bg_mode g1 = BodyChunked" using gate_bytes_mode Inr r Cons.prems(1) by metis
      have feed: "gate_feed (c # cs) g = res_bind (gate_feed cs g1) (\<lambda>(f, extra, done). Inr (c @ f, extra, done))"
        using Inr r False p(2) by (simp add: con)
      have bytes: "gate_bytes (concat (c # cs)) g = gate_bytes (concat cs) g1"
        using Inr r False by (simp add: gate_bytes_append)
      have ok: "gate_ok g1" using gate_bytes_ok Inr r Cons.prems(3) by blast
      have "(\<exists>extra. gate_feed (c # cs) g = Inr (f, extra, True)) \<longleftrightarrow>
          (\<exists>f'. f = c @ f' \<and> (\<exists>extra. gate_feed cs g1 = Inr (f', extra, True)))"
        unfolding feed by (cases "gate_feed cs g1") auto
      also have "\<dots> \<longleftrightarrow> (\<exists>f'. f = c @ f' \<and>
          (\<exists>g' extra. gate_bytes (concat cs) g1 = Inr (g', extra) \<and> bg_completed g' \<and> concat cs = f' @ extra))"
        using Cons.IH [OF mode False ok] by simp
      also have "\<dots> \<longleftrightarrow> (\<exists>g' extra. gate_bytes (concat (c # cs)) g = Inr (g', extra) \<and> bg_completed g' \<and> concat (c # cs) = f @ extra)"
        unfolding bytes
      proof (intro iffI; elim exE conjE)
        fix g' extra
        assume a: "gate_bytes (concat cs) g1 = Inr (g', extra)" "bg_completed g'" "concat (c # cs) = f @ extra"
        obtain q where "concat cs = q @ extra" using gate_bytes_rest [OF a(1)] by blast
        then show "\<exists>f'. f = c @ f' \<and>
          (\<exists>g' extra. gate_bytes (concat cs) g1 = Inr (g', extra) \<and> bg_completed g' \<and> concat cs = f' @ extra)"
          using a by (intro exI [of _ q]) auto
      qed auto
      finally show ?thesis .
    qed
  qed
qed

text \<open>C16: The gate passes exactly one request body to the origin: a request is complete with \<open>f\<close> forwarded
  exactly if \<open>f\<close> is a body framed as its header announced, chunked bodies within the limits included, and
  the client's data, however cut into chunks, begins with it.  What follows is never forwarded.\<close>

theorem one_request_body_forwarded:
  "(\<exists>extra. gate_feed (initial # later) (gate_new spec) = Inr (f, extra, True)) \<longleftrightarrow>
     request_body spec f \<and> (\<exists>rest. concat (initial # later) = f @ rest)"
proof (cases "fb_mode spec")
  case BodyNone
  then show ?thesis by (auto simp: gate_new_def gate_consume_def request_body_def)
next
  case BodyLength
  then show ?thesis using feed_length [of "gate_new spec" "initial # later" f] by (simp add: gate_new_def request_body_def)
next
  case BodyStream
  then show ?thesis using feed_stream [of "gate_new spec" "initial # later" f] by (simp add: gate_new_def request_body_def del: gate_feed.simps)
next
  case BodyChunked
  let ?g = "line_state (case fb_contentLength spec of None \<Rightarrow> 0 | Some n \<Rightarrow> n) CSize 0 []"
  have g: "gate_new spec = ?g" using BodyChunked by (simp add: gate_new_def line_state_def)
  have "(\<exists>extra. gate_feed (initial # later) ?g = Inr (f, extra, True)) \<longleftrightarrow>
      (\<exists>g' extra. gate_bytes (concat (initial # later)) ?g = Inr (g', extra) \<and> bg_completed g' \<and> concat (initial # later) = f @ extra)"
    by (rule feed_chunked) (simp_all add: line_state_def gate_ok_def)
  also have "\<dots> \<longleftrightarrow> (\<exists>extra. (\<exists>f. concat (initial # later) = f @ extra \<and> chunked_body f) \<and> concat (initial # later) = f @ extra)"
    using gate_bytes_chunked by blast
  also have "\<dots> \<longleftrightarrow> chunked_body f \<and> (\<exists>rest. concat (initial # later) = f @ rest)" by auto
  finally show ?thesis using BodyChunked by (simp add: g request_body_def)
qed

end
