(* ===== verification/Lifecycle.thy ===== *)
theory Lifecycle
  imports JsString
begin

text \<open>
  Three small state machines of the main process: the queue of transport changes
  (\<open>src/main/app/transport-mutation-coordinator.ts\<close>), the tracker that decides which tunnel transitions
  the user hears about (\<open>src/main/app/session-transitions.ts\<close>), and the guard that ties a tunnel check to
  its session (\<open>src/main/app/tunnel-check-guard.ts\<close>).
\<close>

section \<open>Transport changes\<close>

text \<open>
  A queued operation is an intent with the generation it was accepted under, or plain work given to
  \<open>enqueue\<close>; \<open>tail\<close> of the source is the chain of the operations that have not settled.  The head of the
  chain is the one running, once it has been started.  What an operation does, and the optional shortcut
  \<open>preempt\<close>, whose exceptions are ignored, are outside the model.
\<close>

datatype mutation = Intent nat | Work nat

record coordinator =
  tc_tail :: "mutation list"
  tc_currentGeneration :: nat
  tc_stopping :: bool

definition coordinator_new :: coordinator where
  "coordinator_new = \<lparr>tc_tail = [], tc_currentGeneration = 0, tc_stopping = False\<rparr>"

definition isCurrent :: "coordinator \<Rightarrow> nat \<Rightarrow> bool" where
  "isCurrent c generation \<longleftrightarrow> \<not> tc_stopping c \<and> generation = tc_currentGeneration c"

definition enqueue_mutation :: "mutation \<Rightarrow> coordinator \<Rightarrow> coordinator" where
  "enqueue_mutation m c = c\<lparr>tc_tail := tc_tail c @ [m]\<rparr>"

text \<open>\<open>None\<close> is the answer \<open>false\<close> at once.\<close>

definition requestIntent :: "nat option \<Rightarrow> coordinator \<Rightarrow> (nat \<times> coordinator) option" where
  "requestIntent expectedGeneration c =
     (if tc_stopping c \<or> (expectedGeneration \<noteq> None \<and> expectedGeneration \<noteq> Some (tc_currentGeneration c)) then None
      else let generation = tc_currentGeneration c + 1 in
        Some (generation, enqueue_mutation (Intent generation) (c\<lparr>tc_currentGeneration := generation\<rparr>)))"

definition stopAcceptingIntents :: "coordinator \<Rightarrow> coordinator" where
  "stopAcceptingIntents c =
     (if tc_stopping c then c else c\<lparr>tc_stopping := True, tc_currentGeneration := tc_currentGeneration c + 1\<rparr>)"

text \<open>
  The system with its history: the operations begun, the answers given to intents, and whether the head
  of the queue is running.
\<close>

datatype mutation_log = Begun mutation | Skipped nat | Answered nat bool | Finished nat

record coordination =
  co_state :: coordinator
  co_running :: bool
  co_log :: "mutation_log list"

definition coordination_new :: coordination where
  "coordination_new = \<lparr>co_state = coordinator_new, co_running = False, co_log = []\<rparr>"

datatype mutation_event = Request "nat option" | Enqueue nat | Stop | Begin | Settle

definition log_entry :: "mutation_log \<Rightarrow> coordination \<Rightarrow> coordination" where
  "log_entry e s = s\<lparr>co_log := co_log s @ [e]\<rparr>"

definition drop_head :: "coordination \<Rightarrow> coordination" where
  "drop_head s = s\<lparr>co_state := (co_state s)\<lparr>tc_tail := tl (tc_tail (co_state s))\<rparr>, co_running := False\<rparr>"

text \<open>The function queued by \<open>requestIntent\<close>, in its two parts: before and after the operation.\<close>

definition begin_head :: "coordination \<Rightarrow> coordination" where
  "begin_head s = (if co_running s then s else case tc_tail (co_state s) of
       [] \<Rightarrow> s
     | Work n # _ \<Rightarrow> log_entry (Begun (Work n)) (s\<lparr>co_running := True\<rparr>)
     | Intent g # _ \<Rightarrow>
         if isCurrent (co_state s) g then log_entry (Begun (Intent g)) (s\<lparr>co_running := True\<rparr>)
         else log_entry (Skipped g) (drop_head s))"

definition settle_head :: "coordination \<Rightarrow> coordination" where
  "settle_head s = (if \<not> co_running s then s else case tc_tail (co_state s) of
       [] \<Rightarrow> s
     | Work n # _ \<Rightarrow> log_entry (Finished n) (drop_head s)
     | Intent g # _ \<Rightarrow> log_entry (Answered g (isCurrent (co_state s) g)) (drop_head s))"

definition coordination_step :: "mutation_event \<Rightarrow> coordination \<Rightarrow> coordination" where
  "coordination_step e s = (case e of
       Request expected \<Rightarrow> (case requestIntent expected (co_state s) of
           None \<Rightarrow> s | Some (g, c) \<Rightarrow> s\<lparr>co_state := c\<rparr>)
     | Enqueue n \<Rightarrow> s\<lparr>co_state := enqueue_mutation (Work n) (co_state s)\<rparr>
     | Stop \<Rightarrow> s\<lparr>co_state := stopAcceptingIntents (co_state s)\<rparr>
     | Begin \<Rightarrow> begin_head s
     | Settle \<Rightarrow> settle_head s)"

text \<open>The generations in a queue grow and do not exceed the current one.\<close>

definition intents :: "mutation list \<Rightarrow> nat list" where
  "intents ms = concat (map (\<lambda>m. case m of Intent g \<Rightarrow> [g] | Work n \<Rightarrow> []) ms)"

lemma intents_simps [simp]:
  "intents [] = []" "intents (Intent g # ms) = g # intents ms" "intents (Work n # ms) = intents ms"
  "intents (a @ b) = intents a @ intents b"
  by (simp_all add: intents_def)

definition begun :: "mutation_log list \<Rightarrow> mutation list" where
  "begun l = concat (map (\<lambda>e. case e of Begun m \<Rightarrow> [m] | _ \<Rightarrow> []) l)"

lemma begun_simps [simp]:
  "begun [] = []" "begun (l @ l') = begun l @ begun l'" "begun [Begun m] = [m]" "begun [Skipped g] = []"
  "begun [Answered g b] = []" "begun [Finished n] = []"
  by (simp_all add: begun_def)

text \<open>Operations run one at a time: the log alternates between a begin and its own end.\<close>

fun serialized :: "mutation option \<Rightarrow> mutation_log list \<Rightarrow> mutation option option" where
  "serialized running [] = Some running"
| "serialized None (Begun m # l) = serialized (Some m) l"
| "serialized None (Skipped g # l) = serialized None l"
| "serialized (Some (Intent g)) (Answered g' b # l) = (if g = g' then serialized None l else None)"
| "serialized (Some (Work n)) (Finished n' # l) = (if n = n' then serialized None l else None)"
| "serialized _ (_ # _) = None"

lemma serialized_append: "serialized r (a @ b) = (case serialized r a of None \<Rightarrow> None | Some r' \<Rightarrow> serialized r' b)"
  by (induction r a rule: serialized.induct) auto

definition waiting :: "coordination \<Rightarrow> mutation list" where
  "waiting s = (if co_running s then tl (tc_tail (co_state s)) else tc_tail (co_state s))"

definition coordination_inv :: "coordination \<Rightarrow> bool" where
  "coordination_inv s \<longleftrightarrow>
     sorted_wrt (<) (intents (begun (co_log s)) @ intents (waiting s)) \<and>
     (\<forall>g \<in> set (intents (begun (co_log s)) @ intents (tc_tail (co_state s))). g \<le> tc_currentGeneration (co_state s)) \<and>
     (co_running s \<longrightarrow> tc_tail (co_state s) \<noteq> []) \<and>
     serialized None (co_log s) = Some (if co_running s then Some (hd (tc_tail (co_state s))) else None)"

lemma sorted_wrt_snoc_max: "sorted_wrt (<) (xs :: nat list) \<Longrightarrow> \<forall>x \<in> set xs. x \<le> n \<Longrightarrow> sorted_wrt (<) (xs @ [Suc n])"
  by (auto simp: sorted_wrt_append less_Suc_eq_le)

lemma coordination_step_inv: "coordination_inv s \<Longrightarrow> coordination_inv (coordination_step e s)"
proof (cases e)
  case (Request expected)
  assume inv: "coordination_inv s"
  show ?thesis
  proof (cases "requestIntent expected (co_state s)")
    case None
    then show ?thesis using inv Request by (simp add: coordination_step_def)
  next
    case (Some gc)
    let ?g = "Suc (tc_currentGeneration (co_state s))"
    have step: "coordination_step e s = s\<lparr>co_state := (co_state s)\<lparr>tc_currentGeneration := ?g, tc_tail := tc_tail (co_state s) @ [Intent ?g]\<rparr>\<rparr>"
      using Some Request by (auto simp: coordination_step_def requestIntent_def enqueue_mutation_def Let_def split: if_splits)
    let ?gs = "intents (begun (co_log s)) @ intents (waiting s)"
    have w: "set (intents (waiting s)) \<subseteq> set (intents (tc_tail (co_state s)))"
      by (cases "tc_tail (co_state s)"; cases "hd (tc_tail (co_state s))") (auto simp: waiting_def)
    have "sorted_wrt (<) (?gs @ [?g])" using inv w unfolding coordination_inv_def by (intro sorted_wrt_snoc_max) auto
    moreover have "intents (waiting (coordination_step e s)) = intents (waiting s) @ [?g]"
      using inv unfolding step by (cases "co_running s") (auto simp: waiting_def coordination_inv_def)
    moreover have "co_running s \<Longrightarrow> hd (tc_tail (co_state s) @ [Intent ?g]) = hd (tc_tail (co_state s))"
      using inv by (simp add: coordination_inv_def)
    moreover have "co_log (coordination_step e s) = co_log s" "co_running (coordination_step e s) = co_running s"
      "tc_currentGeneration (co_state (coordination_step e s)) = ?g"
      "tc_tail (co_state (coordination_step e s)) = tc_tail (co_state s) @ [Intent ?g]" by (simp_all add: step)
    ultimately show ?thesis using inv unfolding coordination_inv_def by (auto simp: le_Suc_eq)
  qed
next
  case (Enqueue n)
  assume inv: "coordination_inv s"
  have "intents (waiting (coordination_step e s)) = intents (waiting s)"
    using inv Enqueue
    by (cases "co_running s") (auto simp: coordination_step_def enqueue_mutation_def waiting_def coordination_inv_def)
  then show ?thesis using inv Enqueue
    by (auto simp: coordination_step_def enqueue_mutation_def coordination_inv_def)
next
  case Stop
  assume inv: "coordination_inv s"
  then show ?thesis using Stop
    by (auto simp: coordination_step_def stopAcceptingIntents_def coordination_inv_def waiting_def le_Suc_eq)
next
  case Begin
  assume inv: "coordination_inv s"
  show ?thesis
  proof (cases "co_running s \<or> tc_tail (co_state s) = []")
    case True
    then have "coordination_step e s = s" using Begin by (auto simp: coordination_step_def begin_head_def)
    then show ?thesis using inv by simp
  next
    case False
    then obtain m ms where q: "tc_tail (co_state s) = m # ms" by (cases "tc_tail (co_state s)") auto
    show ?thesis using inv False q Begin
      by (cases m) (auto simp: coordination_step_def begin_head_def log_entry_def drop_head_def coordination_inv_def waiting_def
          serialized_append sorted_wrt_append)
  qed
next
  case Settle
  assume inv: "coordination_inv s"
  show ?thesis
  proof (cases "co_running s")
    case False
    then have "coordination_step e s = s" using Settle by (simp add: coordination_step_def settle_head_def)
    then show ?thesis using inv by simp
  next
    case True
    then obtain m ms where q: "tc_tail (co_state s) = m # ms" using inv by (cases "tc_tail (co_state s)") (auto simp: coordination_inv_def)
    show ?thesis using inv True q Settle
      by (cases m) (auto simp: coordination_step_def settle_head_def log_entry_def drop_head_def coordination_inv_def waiting_def
          serialized_append)
  qed
qed

interpretation transport_changes: invariant_system coordination_step coordination_inv
  by unfold_locales (rule coordination_step_inv)

definition coordination_run :: "mutation_event list \<Rightarrow> coordination" where
  "coordination_run events = fold coordination_step events coordination_new"

lemma coordination_run_inv: "coordination_inv (coordination_run events)"
  unfolding coordination_run_def
  by (rule transport_changes.always) (simp add: coordination_inv_def coordination_new_def coordinator_new_def waiting_def)


text \<open>One round: the head of the queue begins, unless it runs already, and settles.\<close>

definition queue_round :: "coordination \<Rightarrow> coordination" where
  "queue_round s = coordination_step Settle (coordination_step Begin s)"

lemma round_props:
  assumes "tc_tail (co_state s) = m # ms"
  shows "tc_tail (co_state (queue_round s)) = ms" "\<not> co_running (queue_round s)"
    "isCurrent (co_state (queue_round s)) g = isCurrent (co_state s) g"
    "\<exists>l. co_log (queue_round s) = co_log s @ l \<and> (\<forall>g. Begun (Intent g) \<in> set l \<longrightarrow> m = Intent g \<and> isCurrent (co_state s) g)"
  using assms
  by (cases m; auto simp: queue_round_def coordination_step_def begin_head_def settle_head_def log_entry_def drop_head_def isCurrent_def)+

lemma rounds_props:
  "length (tc_tail (co_state s)) = length ms + n \<Longrightarrow> take (length ms) (tc_tail (co_state s)) = ms \<Longrightarrow>
     tc_tail (co_state ((queue_round ^^ length ms) s)) = drop (length ms) (tc_tail (co_state s)) \<and>
     (ms \<noteq> [] \<longrightarrow> \<not> co_running ((queue_round ^^ length ms) s)) \<and>
     isCurrent (co_state ((queue_round ^^ length ms) s)) = isCurrent (co_state s) \<and>
     (\<exists>l. co_log ((queue_round ^^ length ms) s) = co_log s @ l \<and> (\<forall>g. Begun (Intent g) \<in> set l \<longrightarrow> Intent g \<in> set ms \<and> isCurrent (co_state s) g))"
proof (induction ms arbitrary: s)
  case (Cons m ms)
  obtain ns where q: "tc_tail (co_state s) = m # ns" using Cons.prems by (cases "tc_tail (co_state s)") auto
  note r = round_props [OF q]
  obtain l where l: "co_log (queue_round s) = co_log s @ l" "\<forall>g. Begun (Intent g) \<in> set l \<longrightarrow> m = Intent g \<and> isCurrent (co_state s) g"
    using r(4) by blast
  have it: "(queue_round ^^ length (m # ms)) s = (queue_round ^^ length ms) (queue_round s)"
    by (simp add: funpow_swap1)
  have cur: "isCurrent (co_state (queue_round s)) = isCurrent (co_state s)" using r(3) by blast
  have ih: "tc_tail (co_state ((queue_round ^^ length ms) (queue_round s))) = drop (length ms) ns \<and>
     (ms \<noteq> [] \<longrightarrow> \<not> co_running ((queue_round ^^ length ms) (queue_round s))) \<and>
     isCurrent (co_state ((queue_round ^^ length ms) (queue_round s))) = isCurrent (co_state s) \<and>
     (\<exists>l'. co_log ((queue_round ^^ length ms) (queue_round s)) = co_log (queue_round s) @ l' \<and>
        (\<forall>g. Begun (Intent g) \<in> set l' \<longrightarrow> Intent g \<in> set ms \<and> isCurrent (co_state s) g))"
    using Cons.IH [of "queue_round s"] Cons.prems q r(1) unfolding cur by simp
  then obtain l' where l': "co_log ((queue_round ^^ length ms) (queue_round s)) = co_log (queue_round s) @ l'"
    "\<forall>g. Begun (Intent g) \<in> set l' \<longrightarrow> Intent g \<in> set ms \<and> isCurrent (co_state s) g" by blast
  have "\<not> co_running ((queue_round ^^ length ms) (queue_round s))" using ih r(2) by (cases "ms = []") auto
  then show ?case using ih l l' q unfolding it by (intro conjI exI [of _ "l @ l'"]) auto
qed simp




section \<open>Tunnel transitions\<close>

datatype connection_state = Disconnected | Connecting | Connected | Reconnecting | Disconnecting | Failed

datatype tunnel_transition = Lost | Restored | StoppedFor jsstring

record transition_tracker =
  tt_live :: bool
  tt_lostAnnounced :: bool
  tt_pendingStopReason :: "jsstring option"

definition tracker_reset :: transition_tracker where
  "tracker_reset = \<lparr>tt_live = False, tt_lostAnnounced = False, tt_pendingStopReason = None\<rparr>"

definition hasPendingStop :: "transition_tracker \<Rightarrow> bool" where
  "hasPendingStop t \<longleftrightarrow> tt_pendingStopReason t \<noteq> None"

definition isRecovering :: "transition_tracker \<Rightarrow> bool" where
  "isRecovering t \<longleftrightarrow> tt_lostAnnounced t"

definition tracker_observe :: "connection_state \<Rightarrow> jsstring \<Rightarrow> transition_tracker \<Rightarrow> tunnel_transition list \<times> transition_tracker" where
  "tracker_observe state message t = (case state of
       Connected \<Rightarrow> (if tt_live t \<and> tt_lostAnnounced t then [Restored] else [],
         t\<lparr>tt_pendingStopReason := None, tt_live := True, tt_lostAnnounced := False\<rparr>)
     | Reconnecting \<Rightarrow> if \<not> tt_live t \<or> tt_lostAnnounced t then ([], t\<lparr>tt_pendingStopReason := None\<rparr>)
         else ([Lost], t\<lparr>tt_pendingStopReason := None, tt_lostAnnounced := True\<rparr>)
     | Failed \<Rightarrow> if \<not> tt_live t then ([], t) else ([], t\<lparr>tt_pendingStopReason := Some message\<rparr>)
     | Disconnecting \<Rightarrow> ([], tracker_reset)
     | Disconnected \<Rightarrow> ([], tracker_reset)
     | Connecting \<Rightarrow> ([], t))"

definition tracker_settle :: "transition_tracker \<Rightarrow> tunnel_transition list \<times> transition_tracker" where
  "tracker_settle t = (case tt_pendingStopReason t of
       None \<Rightarrow> ([], t) | Some reason \<Rightarrow> ([StoppedFor reason], tracker_reset))"

datatype tracker_event = Observe connection_state jsstring | SettleDelay | ResetStory

definition tracker_step :: "tracker_event \<Rightarrow> transition_tracker \<Rightarrow> tunnel_transition list \<times> transition_tracker" where
  "tracker_step e t = (case e of
       Observe state message \<Rightarrow> tracker_observe state message t
     | SettleDelay \<Rightarrow> tracker_settle t
     | ResetStory \<Rightarrow> ([], tracker_reset))"

text \<open>The history of events, each with what the user was told at it.\<close>

fun tracker_run :: "tracker_event list \<Rightarrow> transition_tracker \<Rightarrow> (tracker_event \<times> tunnel_transition list) list" where
  "tracker_run [] t = []"
| "tracker_run (e # es) t = (let (out, t') = tracker_step e t in (e, out) # tracker_run es t')"

text \<open>A story ends with a reset, a disconnect, or the news that the tunnel has stopped.\<close>

definition ends_story :: "tracker_event \<times> tunnel_transition list \<Rightarrow> bool" where
  "ends_story eo \<longleftrightarrow> fst eo = ResetStory \<or> (\<exists>m. fst eo = Observe Disconnected m \<or> fst eo = Observe Disconnecting m) \<or>
     (\<exists>r. StoppedFor r \<in> set (snd eo))"

definition story :: "(tracker_event \<times> tunnel_transition list) list \<Rightarrow> (tracker_event \<times> tunnel_transition list) list" where
  "story h = rev (takeWhile (\<lambda>eo. \<not> ends_story eo) (rev h))"

definition was_up :: "(tracker_event \<times> tunnel_transition list) list \<Rightarrow> bool" where
  "was_up h \<longleftrightarrow> (\<exists>m. Observe Connected m \<in> fst ` set h)"

definition told :: "(tracker_event \<times> tunnel_transition list) list \<Rightarrow> tunnel_transition list" where
  "told h = concat (map snd h)"

text \<open>\<open>lost\<close> and \<open>restored\<close> in turn, beginning with \<open>lost\<close>.\<close>

fun alternating :: "bool \<Rightarrow> tunnel_transition list \<Rightarrow> bool \<Rightarrow> bool" where
  "alternating lost [] end_lost = (lost = end_lost)"
| "alternating lost (Lost # ns) end_lost = (\<not> lost \<and> alternating True ns end_lost)"
| "alternating lost (Restored # ns) end_lost = (lost \<and> alternating False ns end_lost)"
| "alternating lost (StoppedFor r # ns) end_lost = False"

lemma alternating_append: "alternating a (xs @ ys) c \<longleftrightarrow> (\<exists>b. alternating a xs b \<and> alternating b ys c)"
  by (induction a xs c rule: alternating.induct) auto

lemma story_snoc: "story (h @ [eo]) = (if ends_story eo then [] else story h @ [eo])"
  by (simp add: story_def)

lemma story_empty [simp]: "story [] = []" "told [] = []" "told (h @ h') = told h @ told h'" "told [(e, out)] = out"
    "was_up [] = False" "was_up (h @ h') = (was_up h \<or> was_up h')"
  by (auto simp: story_def told_def was_up_def)

definition story_inv :: "(tracker_event \<times> tunnel_transition list) list \<Rightarrow> transition_tracker \<Rightarrow> bool" where
  "story_inv h t \<longleftrightarrow> tt_live t = was_up (story h) \<and> alternating False (told (story h)) (tt_lostAnnounced t) \<and>
     (tt_lostAnnounced t \<longrightarrow> tt_live t) \<and> (tt_pendingStopReason t \<noteq> None \<longrightarrow> tt_live t) \<and>
     (\<not> tt_live t \<longrightarrow> told (story h) = [])"

lemma tracker_step_inv:
  assumes "story_inv h t" "tracker_step e t = (out, t')"
  shows "story_inv (h @ [(e, out)]) t'"
proof (cases e)
  case (Observe st m)
  then show ?thesis using assms
    by (cases st) (auto simp: tracker_step_def tracker_observe_def story_inv_def story_snoc ends_story_def tracker_reset_def
        alternating_append was_up_def split: if_splits)
next
  case SettleDelay
  then show ?thesis using assms
    by (cases "tt_pendingStopReason t") (auto simp: tracker_step_def tracker_settle_def story_inv_def story_snoc ends_story_def
        tracker_reset_def alternating_append was_up_def)
next
  case ResetStory
  then show ?thesis using assms by (auto simp: tracker_step_def story_inv_def story_snoc ends_story_def tracker_reset_def)
qed

lemma tracker_run_inv: "story_inv h t \<Longrightarrow> \<exists>t'. story_inv (h @ tracker_run es t) t'"
proof (induction es arbitrary: h t)
  case (Cons e es)
  obtain out t' where st: "tracker_step e t = (out, t')" by fastforce
  show ?case using Cons.IH [OF tracker_step_inv [OF Cons.prems st]] st by simp
qed auto

text \<open>Within a story - since the last reset, disconnect or final stop - the user is told \<open>lost\<close> and
  \<open>restored\<close> in turn, beginning with \<open>lost\<close>, and is told nothing before the tunnel has been up.\<close>

theorem tunnel_news_in_turn:
  "let news = told (story (tracker_run events tracker_reset)) in
   (alternating False news True \<or> alternating False news False) \<and>
   (if was_up (story (tracker_run events tracker_reset)) then True else news = [])"
proof -
  let ?h = "tracker_run events tracker_reset"
  obtain t where inv: "story_inv ?h t"
    using tracker_run_inv [of "[]" tracker_reset events] by (auto simp: story_inv_def tracker_reset_def)
  then show ?thesis by (cases "tt_lostAnnounced t") (auto simp: story_inv_def Let_def)
qed

section \<open>Tunnel checks\<close>

datatype global_tab = SshTab | XrayTab

record session_status =
  ss_state :: connection_state
  ss_activeConfigId :: "jsstring option"
  ss_connectedAt :: "jsstring option"

record check_ticket =
  ct_transport :: global_tab
  ct_generation :: nat
  ct_targetName :: "jsstring option"

record check_guard =
  cg_generation :: nat
  cg_sessionKey :: "jsstring option"

definition guard_new :: check_guard where
  "guard_new = \<lparr>cg_generation = 0, cg_sessionKey = None\<rparr>"

definition isCheckableState :: "connection_state \<Rightarrow> bool" where
  "isCheckableState state \<longleftrightarrow> state = Connected \<or> state = Reconnecting"

definition tab_name :: "global_tab \<Rightarrow> jsstring" where
  "tab_name t = (case t of SshTab \<Rightarrow> js ''ssh'' | XrayTab \<Rightarrow> js ''xray'')"

definition or_empty :: "jsstring option \<Rightarrow> jsstring" where
  "or_empty s = (case s of None \<Rightarrow> [] | Some t \<Rightarrow> t)"

definition session_key :: "global_tab \<Rightarrow> session_status \<Rightarrow> jsstring option" where
  "session_key transport status =
     (if isCheckableState (ss_state status)
      then Some (tab_name transport @ js '':'' @ or_empty (ss_activeConfigId status) @ js '':'' @ or_empty (ss_connectedAt status))
      else None)"

definition guard_reset :: "check_guard \<Rightarrow> check_guard" where
  "guard_reset g = g\<lparr>cg_generation := cg_generation g + 1, cg_sessionKey := None\<rparr>"

definition guard_observe :: "global_tab \<Rightarrow> session_status \<Rightarrow> check_guard \<Rightarrow> check_guard" where
  "guard_observe transport status g =
     (let key = session_key transport status in
      if key \<noteq> cg_sessionKey g then g\<lparr>cg_sessionKey := key, cg_generation := cg_generation g + 1\<rparr> else g)"

definition guard_begin :: "global_tab \<Rightarrow> jsstring option \<Rightarrow> check_guard \<Rightarrow> check_ticket" where
  "guard_begin transport targetName g = \<lparr>ct_transport = transport, ct_generation = cg_generation g,
     ct_targetName = (case targetName of None \<Rightarrow> None | Some n \<Rightarrow> if n = [] then None else Some n)\<rparr>"

definition guard_accepts :: "check_ticket \<Rightarrow> global_tab \<Rightarrow> connection_state \<Rightarrow> check_guard \<Rightarrow> bool" where
  "guard_accepts ticket activeTransport state g \<longleftrightarrow>
     ct_generation ticket = cg_generation g \<and> ct_transport ticket = activeTransport \<and> isCheckableState state"

datatype guard_event = GuardReset | GuardStatus global_tab session_status

definition guard_step :: "guard_event \<Rightarrow> check_guard \<Rightarrow> check_guard" where
  "guard_step e g = (case e of GuardReset \<Rightarrow> guard_reset g | GuardStatus t s \<Rightarrow> guard_observe t s g)"

definition same_session :: "jsstring option \<Rightarrow> guard_event \<Rightarrow> bool" where
  "same_session key e = (case e of GuardReset \<Rightarrow> False | GuardStatus t s \<Rightarrow> session_key t s = key)"

lemma guard_generation_mono: "cg_generation g \<le> cg_generation (fold guard_step es g)"
proof (induction es arbitrary: g)
  case (Cons e es)
  have "cg_generation g \<le> cg_generation (guard_step e g)"
    by (auto simp: guard_step_def guard_reset_def guard_observe_def Let_def split: guard_event.split)
  then show ?case using Cons [of "guard_step e g"] by simp
qed simp

lemma guard_generation_same:
  "cg_generation (fold guard_step es g) = cg_generation g \<longleftrightarrow> list_all (same_session (cg_sessionKey g)) es"
proof (induction es arbitrary: g)
  case (Cons e es)
  show ?case
  proof (cases "same_session (cg_sessionKey g) e")
    case True
    then have "guard_step e g = g" by (auto simp: guard_step_def guard_observe_def same_session_def split: guard_event.splits)
    then show ?thesis using Cons True by simp
  next
    case False
    then have "cg_generation (guard_step e g) = cg_generation g + 1"
      by (auto simp: guard_step_def guard_observe_def guard_reset_def same_session_def Let_def split: guard_event.splits)
    then show ?thesis using False guard_generation_mono [of "guard_step e g" es] by simp
  qed
qed simp

text \<open>The result of a tunnel check is taken exactly if the transport is still the active one, its tunnel is
  up, and since the check began no session was reset and every status named the session it began on.\<close>

theorem check_result_of_same_session:
  "guard_accepts (guard_begin transport name g) activeTransport state (fold guard_step events g) \<longleftrightarrow>
     activeTransport = transport \<and> isCheckableState state \<and> list_all (same_session (cg_sessionKey g)) events"
  using guard_generation_same [of events g] by (auto simp: guard_accepts_def guard_begin_def)

end
