(* ===== verification/Throttling.thy ===== *)
theory Throttling
  imports Utf8
begin

text \<open>
  The rate limiter that keeps producers of diagnostics from filling the queues of the logger
  (\<open>src/main/app/fixed-window-rate-limiter.ts\<close>).  Times are milliseconds.  Shown: how much gets
  through in any span of time shorter than a window, and that what is refused is counted.
\<close>

section \<open>The rate limiter\<close>

record rate_limiter =
  rl_maxPerWindow :: nat
  rl_windowMs :: int
  rl_windowStartedAt :: "int option"
  rl_acceptedInWindow :: nat
  rl_suppressedInWindow :: nat

record rate_decision =
  rd_allowed :: bool
  rd_suppressedSinceLastWindow :: nat

text \<open>\<open>None\<close> is the exception of the constructor.\<close>

definition limiter_new :: "int \<Rightarrow> int \<Rightarrow> rate_limiter option" where
  "limiter_new maxPerWindow windowMs =
     (if maxPerWindow \<le> 0 \<or> windowMs \<le> 0 then None
      else Some \<lparr>rl_maxPerWindow = nat maxPerWindow, rl_windowMs = windowMs, rl_windowStartedAt = None,
        rl_acceptedInWindow = 0, rl_suppressedInWindow = 0\<rparr>)"

definition limiter_take :: "int \<Rightarrow> rate_limiter \<Rightarrow> rate_decision \<times> rate_limiter" where
  "limiter_take now l =
     (if (case rl_windowStartedAt l of None \<Rightarrow> True | Some start \<Rightarrow> now < start \<or> rl_windowMs l \<le> now - start)
      then (\<lparr>rd_allowed = True, rd_suppressedSinceLastWindow = rl_suppressedInWindow l\<rparr>,
            l\<lparr>rl_windowStartedAt := Some now, rl_acceptedInWindow := 1, rl_suppressedInWindow := 0\<rparr>)
      else if rl_acceptedInWindow l < rl_maxPerWindow l
        then (\<lparr>rd_allowed = True, rd_suppressedSinceLastWindow = 0\<rparr>,
              l\<lparr>rl_acceptedInWindow := rl_acceptedInWindow l + 1\<rparr>)
      else (\<lparr>rd_allowed = False, rd_suppressedSinceLastWindow = 0\<rparr>,
            l\<lparr>rl_suppressedInWindow := rl_suppressedInWindow l + 1\<rparr>))"

fun limiter_run :: "int list \<Rightarrow> rate_limiter \<Rightarrow> rate_decision list \<times> rate_limiter" where
  "limiter_run [] l = ([], l)"
| "limiter_run (t # ts) l =
     (let (d, l1) = limiter_take t l; (ds, l2) = limiter_run ts l1 in (d # ds, l2))"

definition allowed_count :: "rate_decision list \<Rightarrow> nat" where
  "allowed_count ds = length (filter rd_allowed ds)"

definition reported :: "rate_decision list \<Rightarrow> nat" where
  "reported ds = sum_list (map rd_suppressedSinceLastWindow ds)"

text \<open>Nothing suppressed is forgotten: what was refused is what later decisions report, and what the
  current window still holds.\<close>

lemma limiter_accounting:
  "limiter_run ts l = (ds, l') \<Longrightarrow>
     rl_suppressedInWindow l + length (filter (\<lambda>d. \<not> rd_allowed d) ds) = reported ds + rl_suppressedInWindow l'"
proof (induction ts arbitrary: l ds)
  case Nil
  then show ?case by (simp add: reported_def)
next
  case (Cons t ts)
  obtain d l1 where d: "limiter_take t l = (d, l1)" by fastforce
  obtain ds' where r: "limiter_run ts l1 = (ds', l')" "ds = d # ds'" using Cons.prems d by (auto split: prod.splits)
  show ?case using Cons.IH [OF r(1)] d r(2) by (auto simp: limiter_take_def reported_def split: if_splits)
qed

definition limiter_ok :: "rate_limiter \<Rightarrow> bool" where
  "limiter_ok l \<longleftrightarrow> 0 < rl_maxPerWindow l \<and> 0 < rl_windowMs l \<and> rl_acceptedInWindow l \<le> rl_maxPerWindow l"

lemma limiter_take_ok: "limiter_ok l \<Longrightarrow> limiter_ok (snd (limiter_take t l))"
  by (auto simp: limiter_ok_def limiter_take_def)

lemma limiter_take_params:
  "rl_maxPerWindow (snd (limiter_take t l)) = rl_maxPerWindow l" "rl_windowMs (snd (limiter_take t l)) = rl_windowMs l"
  by (simp_all add: limiter_take_def)

text \<open>What is left of the current window is left for requests before its end; a span no longer than the
  window reaches into at most one further window.\<close>

lemma limiter_second_window:
  assumes "limiter_ok l" "rl_windowStartedAt l = Some start" "sorted (start # ts)" "\<forall>t \<in> set ts. t - start < rl_windowMs l"
    "limiter_run ts l = (ds, l')"
  shows "allowed_count ds + rl_acceptedInWindow l \<le> rl_maxPerWindow l"
  using assms
proof (induction ts arbitrary: l ds)
  case Nil
  then show ?case by (simp add: allowed_count_def limiter_ok_def)
next
  case (Cons t ts)
  obtain d l1 where d: "limiter_take t l = (d, l1)" by fastforce
  obtain ds' where r: "limiter_run ts l1 = (ds', l')" "ds = d # ds'" using Cons.prems(5) d by (auto split: prod.splits)
  have nw: "\<not> (t < start \<or> rl_windowMs l \<le> t - start)" using Cons.prems by auto
  have l1: "limiter_ok l1" "rl_windowStartedAt l1 = Some start" "rl_windowMs l1 = rl_windowMs l" "rl_maxPerWindow l1 = rl_maxPerWindow l"
    using limiter_take_ok [of l t] d nw Cons.prems by (auto simp: limiter_take_def split: if_splits)
  have "allowed_count ds' + rl_acceptedInWindow l1 \<le> rl_maxPerWindow l"
    using Cons.IH [OF l1(1,2) _ _ r(1)] Cons.prems l1 by simp
  then show ?case using d nw Cons.prems(2) r(2) by (auto simp: limiter_take_def allowed_count_def split: if_splits)
qed

lemma limiter_span:
  assumes "limiter_ok l" "sorted ts" "\<forall>t \<in> set ts. \<forall>u \<in> set ts. u - t < rl_windowMs l" "limiter_run ts l = (ds, l')"
    and first: "case rl_windowStartedAt l of None \<Rightarrow> True | Some start \<Rightarrow> \<forall>t \<in> set ts. start \<le> t"
  shows "allowed_count ds \<le> 2 * rl_maxPerWindow l - (if rl_windowStartedAt l = None then rl_maxPerWindow l else rl_acceptedInWindow l)"
  using assms
proof (induction ts arbitrary: l ds)
  case Nil
  then show ?case by (simp add: allowed_count_def limiter_ok_def)
next
  case (Cons t ts)
  obtain d l1 where d: "limiter_take t l = (d, l1)" by fastforce
  obtain ds' where r: "limiter_run ts l1 = (ds', l')" "ds = d # ds'" using Cons.prems(4) d by (auto split: prod.splits)
  have ok: "limiter_ok l1" using limiter_take_ok [OF Cons.prems(1), of t] d by simp
  have par: "rl_windowMs l1 = rl_windowMs l" "rl_maxPerWindow l1 = rl_maxPerWindow l"
    using limiter_take_params [of t l] d by simp_all
  show ?case
  proof (cases "case rl_windowStartedAt l of None \<Rightarrow> True | Some start \<Rightarrow> t < start \<or> rl_windowMs l \<le> t - start")
    case True
    then have l1: "rl_windowStartedAt l1 = Some t" "rl_acceptedInWindow l1 = 1" "rd_allowed d" using d by (auto simp: limiter_take_def)
    have "allowed_count ds' + rl_acceptedInWindow l1 \<le> rl_maxPerWindow l1"
      by (rule limiter_second_window [OF ok l1(1) _ _ r(1)]) (use Cons.prems par in auto)
    then show ?thesis using l1 r(2) par Cons.prems(1) by (auto simp: allowed_count_def limiter_ok_def)
  next
    case False
    then obtain start where start: "rl_windowStartedAt l = Some start" "\<not> (t < start \<or> rl_windowMs l \<le> t - start)"
      by (auto split: option.splits)
    then have l1: "rl_windowStartedAt l1 = Some start"
      "rl_acceptedInWindow l1 = rl_acceptedInWindow l + (if rd_allowed d then 1 else 0)"
      using d by (auto simp: limiter_take_def split: if_splits)
    have "allowed_count ds' \<le> 2 * rl_maxPerWindow l1 - rl_acceptedInWindow l1"
      using Cons.IH [OF ok _ _ r(1)] Cons.prems par l1 start by simp
    then show ?thesis using l1 r(2) par start ok by (auto simp: allowed_count_def limiter_ok_def)
  qed
qed

text \<open>In every span of time shorter than a window the limiter lets at most twice the number per window
  through, whatever came before the span; and everything it refused is reported in the end.\<close>

theorem rate_limited:
  assumes "limiter_new maxPerWindow windowMs = Some l0" "sorted (before @ ts)"
    "\<forall>t \<in> set ts. \<forall>u \<in> set ts. u - t < windowMs"
    "limiter_run before l0 = (ds0, l)" "limiter_run ts l = (ds, l')"
  shows "int (allowed_count ds) \<le> 2 * maxPerWindow \<and>
    length (filter (\<lambda>d. \<not> rd_allowed d) (ds0 @ ds)) = reported (ds0 @ ds) + rl_suppressedInWindow l'"
proof -
  have run: "limiter_run us m = (es, m') \<Longrightarrow> limiter_ok m \<Longrightarrow> limiter_ok m' \<and> rl_maxPerWindow m' = rl_maxPerWindow m \<and>
      rl_windowMs m' = rl_windowMs m \<and> (rl_windowStartedAt m' = rl_windowStartedAt m \<or> (\<exists>u \<in> set us. rl_windowStartedAt m' = Some u))"
    for us m es m'
  proof (induction us arbitrary: m es)
    case (Cons u us)
    obtain d m1 where d: "limiter_take u m = (d, m1)" by fastforce
    obtain es' where r: "limiter_run us m1 = (es', m')" using Cons.prems d by (auto split: prod.splits)
    have "limiter_ok m1" using limiter_take_ok [OF Cons.prems(2), of u] d by simp
    moreover have "rl_windowStartedAt m1 = rl_windowStartedAt m \<or> rl_windowStartedAt m1 = Some u"
      using d by (auto simp: limiter_take_def split: if_splits)
    ultimately show ?case using Cons.IH [OF r] limiter_take_params [of u m] d by auto
  qed auto
  have l0: "limiter_ok l0" "rl_windowStartedAt l0 = None" "int (rl_maxPerWindow l0) = maxPerWindow" "rl_windowMs l0 = windowMs"
    "rl_suppressedInWindow l0 = 0"
    using assms(1) by (auto simp: limiter_new_def limiter_ok_def split: if_splits)
  note l = run [OF assms(4) l0(1)]
  have "allowed_count ds \<le> 2 * rl_maxPerWindow l - (if rl_windowStartedAt l = None then rl_maxPerWindow l else rl_acceptedInWindow l)"
    by (rule limiter_span [OF _ _ _ assms(5)])
      (use l l0 assms(2,3) in \<open>auto simp: sorted_append split: option.split\<close>)
  then have "allowed_count ds \<le> 2 * rl_maxPerWindow l0" using l by linarith
  moreover have "length (filter (\<lambda>d. \<not> rd_allowed d) (ds0 @ ds)) = reported (ds0 @ ds) + rl_suppressedInWindow l'"
    using limiter_accounting [OF assms(4)] limiter_accounting [OF assms(5)] l0(5) by (simp add: reported_def)
  ultimately show ?thesis using l0(3) by linarith
qed

lemma rate_limited_witness:
  "\<exists>l0 ds l'. limiter_new 2 1000 = Some l0 \<and> limiter_run [0, 1, 2] l0 = (ds, l') \<and>
     int (allowed_count ds) \<le> 2 * 2 \<and> length (filter (\<lambda>d. \<not> rd_allowed d) ([] @ ds)) = reported ([] @ ds) + rl_suppressedInWindow l'"
proof -
  obtain l0 where l0: "limiter_new 2 1000 = Some l0" by (simp add: limiter_new_def)
  obtain ds l' where r: "limiter_run [0, 1, 2] l0 = (ds, l')" by fastforce
  have "int (allowed_count ds) \<le> 2 * 2 \<and> length (filter (\<lambda>d. \<not> rd_allowed d) ([] @ ds)) = reported ([] @ ds) + rl_suppressedInWindow l'"
    by (rule rate_limited [OF l0, of "[]" "[0, 1, 2]" _ l0]) (use r in simp_all)
  then show ?thesis using l0 r by blast
qed

end
