(* ===== verification/Histories.thy ===== *)
theory Histories
  imports Utf8
begin

text \<open>
  The bounded histories the main process and the renderers keep: terminal output
  (\<open>src/shared/terminal-history.ts\<close>) and diagnostics (\<open>src/shared/diagnostics-history.ts\<close>).
  Both are shown to keep the newest tail of all that was ever appended, as one reference function
  describes it, and to keep the cache of byte lengths right; cutting a message never splits a
  character and never exceeds its limit.
\<close>

section \<open>Byte lengths\<close>

fun utf8ByteLength :: "jsstring \<Rightarrow> nat" where
  "utf8ByteLength [] = 0"
| "utf8ByteLength [code] = (if code < 128 then 1 else if code < 2048 then 2 else 3)"
| "utf8ByteLength (code # following # str) =
     (if code < 128 then 1 + utf8ByteLength (following # str)
      else if code < 2048 then 2 + utf8ByteLength (following # str)
      else if is_high code
        then if is_low following then 4 + utf8ByteLength str
             else 3 + utf8ByteLength (following # str)
      else 3 + utf8ByteLength (following # str))"

lemma utf8ByteLength_encode: "utf8ByteLength s = length (utf8_encode s)"
  by (induction s rule: utf8ByteLength.induct) (auto simp: length_utf8_unit is_high_def)

text \<open>The first character: how many bytes and how many code units it takes.\<close>

definition utf8CharacterSize :: "jsstring \<Rightarrow> nat \<Rightarrow> nat \<times> nat" where
  "utf8CharacterSize str index =
     (let code = str ! index
      in if code < 128 then (1, 1)
         else if code < 2048 then (2, 1)
         else if is_high code \<and> index + 1 < length str \<and> is_low (str ! (index + 1)) then (4, 2)
         else (3, 1))"

section \<open>The newest tail\<close>

text \<open>
  The reference: the longest tail with at most \<open>maxEntries\<close> entries and \<open>maxBytes\<close> bytes.
\<close>

definition total_bytes :: "('a \<Rightarrow> nat) \<Rightarrow> 'a list \<Rightarrow> int" where
  "total_bytes f xs = int (sum_list (map f xs))"

definition fits :: "('a \<Rightarrow> nat) \<Rightarrow> int \<Rightarrow> int \<Rightarrow> 'a list \<Rightarrow> bool" where
  "fits f maxEntries maxBytes xs \<longleftrightarrow> int (length xs) \<le> maxEntries \<and> total_bytes f xs \<le> maxBytes"

fun newest_tail :: "('a \<Rightarrow> nat) \<Rightarrow> int \<Rightarrow> int \<Rightarrow> 'a list \<Rightarrow> 'a list" where
  "newest_tail f maxEntries maxBytes [] = []"
| "newest_tail f maxEntries maxBytes (x # xs) =
     (if fits f maxEntries maxBytes (x # xs) then x # xs else newest_tail f maxEntries maxBytes xs)"

lemma total_bytes_simps [simp]:
  "total_bytes f [] = 0" "total_bytes f (x # xs) = int (f x) + total_bytes f xs"
  "total_bytes f (xs @ ys) = total_bytes f xs + total_bytes f ys"
  by (simp_all add: total_bytes_def)

lemma total_bytes_nonneg [simp]: "0 \<le> total_bytes f xs"
  by (simp add: total_bytes_def)

lemma fits_suffix: "fits f n b (xs @ ys) \<Longrightarrow> fits f n b ys"
  using total_bytes_nonneg [of f xs] unfolding fits_def total_bytes_simps length_append by linarith

lemma fits_ConsD: "fits f n b (x # xs) \<Longrightarrow> fits f n b xs"
  using fits_suffix [of f n b "[x]" xs] by simp

lemma newest_tail_fits: "0 \<le> n \<Longrightarrow> 0 \<le> b \<Longrightarrow> fits f n b (newest_tail f n b xs)"
  by (induction xs) (simp_all add: fits_def)

lemma newest_tail_id: "fits f n b xs \<Longrightarrow> newest_tail f n b xs = xs"
  by (cases xs) auto

lemma fits_prefix: "fits f n b (xs @ ys) \<Longrightarrow> fits f n b xs"
  using total_bytes_nonneg [of f ys] unfolding fits_def total_bytes_simps length_append by linarith

lemma newest_tail_append: "newest_tail f n b (newest_tail f n b xs @ ys) = newest_tail f n b (xs @ ys)"
proof (induction xs)
  case (Cons x xs)
  then show ?case using fits_prefix [of f n b "x # xs" ys] by (cases "fits f n b (x # xs)") auto
qed simp

lemma newest_tail_suffix: "\<exists>p. xs = p @ newest_tail f n b xs"
  by (induction xs) (auto intro: exI [of _ "_ # _"])

lemma newest_tail_skip: "\<not> fits f n b (x # xs) \<Longrightarrow> newest_tail f n b (p @ x # xs) = newest_tail f n b (x # xs)"
proof (induction p)
  case (Cons y p)
  then have "\<not> fits f n b (y # p @ x # xs)" using fits_suffix [of f n b "y # p" "x # xs"] by auto
  then show ?case using Cons by simp
qed simp

text \<open>The loop that drops the oldest entries.  Running past the end is \<open>None\<close>: there the terminal's
  loop does not end and the diagnostics' throws.\<close>

fun drop_oldest :: "('a \<Rightarrow> nat) \<Rightarrow> int \<Rightarrow> int \<Rightarrow> 'a list \<Rightarrow> int \<Rightarrow> ('a list \<times> int) option" where
  "drop_oldest f maxEntries maxBytes [] totalBytes = (if maxEntries < 0 \<or> maxBytes < totalBytes then None else Some ([], totalBytes))"
| "drop_oldest f maxEntries maxBytes (x # xs) totalBytes =
     (if maxEntries < int (length (x # xs)) \<or> maxBytes < totalBytes
      then drop_oldest f maxEntries maxBytes xs (totalBytes - int (f x)) else Some (x # xs, totalBytes))"

lemma drop_oldest_newest_tail:
  assumes "0 \<le> n" "0 \<le> b"
  shows "drop_oldest f n b xs (total_bytes f xs) =
    Some (newest_tail f n b xs, total_bytes f (newest_tail f n b xs))"
  by (induction xs) (use assms in \<open>auto simp: fits_def\<close>)

section \<open>Histories with a cached byte length\<close>

text \<open>
  A history is an array together with its entry in the \<open>WeakMap\<close>, if it has one.  An array is
  never changed after it was made, so the entry belongs to it for good.
\<close>

record 'a history =
  hs_lines :: "'a list"
  hs_cached :: "int option"

definition cache_right :: "('a \<Rightarrow> nat) \<Rightarrow> 'a history \<Rightarrow> bool" where
  "cache_right f h \<longleftrightarrow> hs_cached h = None \<or> hs_cached h = Some (total_bytes f (hs_lines h))"

definition cached_total :: "('a \<Rightarrow> nat) \<Rightarrow> 'a history \<Rightarrow> int" where
  "cached_total f h = (case hs_cached h of Some totalBytes \<Rightarrow> totalBytes | None \<Rightarrow> total_bytes f (hs_lines h))"

lemma cached_total_right: "cache_right f h \<Longrightarrow> cached_total f h = total_bytes f (hs_lines h)"
  by (auto simp: cache_right_def cached_total_def)

definition history_of :: "'a list \<times> int \<Rightarrow> 'a history" where
  "history_of r = \<lparr>hs_lines = fst r, hs_cached = Some (snd r)\<rparr>"

section \<open>Terminal output\<close>

datatype terminal_stream = Stdout | Stderr | SystemStream

record terminal_line =
  tl_id :: jsstring
  tl_at :: jsstring
  tl_stream :: terminal_stream
  tl_text :: jsstring

definition MAX_TERMINAL_HISTORY_LINES :: int where "MAX_TERMINAL_HISTORY_LINES = 2000"
definition MAX_TERMINAL_HISTORY_BYTES :: int where "MAX_TERMINAL_HISTORY_BYTES = 2097152"

definition line_bytes :: "terminal_line \<Rightarrow> nat" where
  "line_bytes line = utf8ByteLength (tl_text line)"

text \<open>The loop of \<open>trimExistingHistory\<close> runs from the end: the first argument is what is before
  \<open>start\<close>, last line first; the second what is behind.\<close>

fun trim_loop :: "int \<Rightarrow> int \<Rightarrow> terminal_line list \<Rightarrow> terminal_line list \<Rightarrow> int \<Rightarrow> terminal_line list \<times> int" where
  "trim_loop maxLines maxBytes [] kept bytes = (kept, bytes)"
| "trim_loop maxLines maxBytes (line # older) kept bytes =
     (if int (length kept) < maxLines
      then if maxBytes < bytes + int (line_bytes line) then (kept, bytes)
           else trim_loop maxLines maxBytes older (line # kept) (bytes + int (line_bytes line))
      else (kept, bytes))"

definition trimExistingHistory :: "terminal_line list \<Rightarrow> int \<Rightarrow> int \<Rightarrow> terminal_line history" where
  "trimExistingHistory lines maxLines maxBytes = history_of (trim_loop maxLines maxBytes (rev lines) [] 0)"

definition appendBoundedTerminalLines ::
  "terminal_line history \<Rightarrow> terminal_line list \<Rightarrow> int \<Rightarrow> int \<Rightarrow> terminal_line history option" where
  "appendBoundedTerminalLines h appendedLines maxLines maxBytes =
     (if maxLines \<le> 0 \<or> maxBytes \<le> 0 then Some \<lparr>hs_lines = [], hs_cached = Some 0\<rparr>
      else if appendedLines = [] then Some \<lparr>hs_lines = hs_lines h, hs_cached = None\<rparr>
      else let acceptedLines = filter (\<lambda>line. int (line_bytes line) \<le> maxBytes) appendedLines
        in if acceptedLines = [] then Some (trimExistingHistory (hs_lines h) maxLines maxBytes)
           else map_option history_of (drop_oldest line_bytes maxLines maxBytes (hs_lines h @ acceptedLines)
                  (cached_total line_bytes h + total_bytes line_bytes acceptedLines)))"

definition appendBoundedTerminalLine ::
  "terminal_line history \<Rightarrow> terminal_line \<Rightarrow> int \<Rightarrow> int \<Rightarrow> terminal_line history option" where
  "appendBoundedTerminalLine h line maxLines maxBytes = appendBoundedTerminalLines h [line] maxLines maxBytes"

lemma trim_loop_newest_tail:
  assumes "fits line_bytes n b kept"
  shows "trim_loop n b older kept (total_bytes line_bytes kept) =
    (newest_tail line_bytes n b (rev older @ kept), total_bytes line_bytes (newest_tail line_bytes n b (rev older @ kept)))"
  using assms
proof (induction older arbitrary: kept)
  case Nil
  then show ?case by (simp add: newest_tail_id)
next
  case (Cons x older)
  show ?case
  proof (cases "fits line_bytes n b (x # kept)")
    case True
    then show ?thesis using Cons.IH [OF True] by (auto simp: fits_def add.commute)
  next
    case False
    then have "newest_tail line_bytes n b (rev older @ x # kept) = kept"
      using newest_tail_skip [OF False] newest_tail_id [OF Cons.prems] by simp
    then show ?thesis using False Cons.prems by (auto simp: fits_def)
  qed
qed

lemma trimExistingHistory_newest_tail:
  assumes "0 \<le> n" "0 \<le> b"
  shows "trimExistingHistory xs n b =
    \<lparr>hs_lines = newest_tail line_bytes n b xs, hs_cached = Some (total_bytes line_bytes (newest_tail line_bytes n b xs))\<rparr>"
  using trim_loop_newest_tail [of n b "[]" "rev xs"] assms
  by (simp add: trimExistingHistory_def history_of_def fits_def)

lemma append_terminal_newest_tail:
  assumes "0 < n" "0 < b" "cache_right line_bytes h" "fits line_bytes n b (hs_lines h)"
  shows "\<exists>h'. appendBoundedTerminalLines h xs n b = Some h' \<and> cache_right line_bytes h' \<and>
    hs_lines h' = newest_tail line_bytes n b (hs_lines h @ filter (\<lambda>line. int (line_bytes line) \<le> b) xs)"
proof -
  define ok where "ok = filter (\<lambda>line. int (line_bytes line) \<le> b) xs"
  have "drop_oldest line_bytes n b (hs_lines h @ ok) (cached_total line_bytes h + total_bytes line_bytes ok) =
      Some (newest_tail line_bytes n b (hs_lines h @ ok), total_bytes line_bytes (newest_tail line_bytes n b (hs_lines h @ ok)))"
    using drop_oldest_newest_tail [of n b line_bytes "hs_lines h @ ok"] assms cached_total_right [OF assms(3)] by simp
  then show ?thesis
    using assms unfolding appendBoundedTerminalLines_def Let_def ok_def [symmetric]
    by (auto simp: trimExistingHistory_newest_tail newest_tail_id cache_right_def history_of_def ok_def)
qed

text \<open>Bursts of lines, appended one after another.\<close>

fun terminal_bursts :: "int \<Rightarrow> int \<Rightarrow> terminal_line list list \<Rightarrow> terminal_line history \<Rightarrow> terminal_line history option" where
  "terminal_bursts maxLines maxBytes [] h = Some h"
| "terminal_bursts maxLines maxBytes (burst # bursts) h =
     (case appendBoundedTerminalLines h burst maxLines maxBytes of None \<Rightarrow> None
      | Some h' \<Rightarrow> terminal_bursts maxLines maxBytes bursts h')"

lemma terminal_bursts_newest_tail:
  assumes "0 < n" "0 < b" "cache_right line_bytes h" "fits line_bytes n b (hs_lines h)"
  shows "\<exists>h'. terminal_bursts n b bursts h = Some h' \<and> cache_right line_bytes h' \<and>
    hs_lines h' = newest_tail line_bytes n b (hs_lines h @ filter (\<lambda>line. int (line_bytes line) \<le> b) (concat bursts))"
  using assms(3,4)
proof (induction bursts arbitrary: h)
  case Nil
  then show ?case by (simp add: newest_tail_id)
next
  case (Cons burst bursts)
  obtain h1 where h1: "appendBoundedTerminalLines h burst n b = Some h1" "cache_right line_bytes h1"
    "hs_lines h1 = newest_tail line_bytes n b (hs_lines h @ filter (\<lambda>line. int (line_bytes line) \<le> b) burst)"
    using append_terminal_newest_tail [OF assms(1,2) Cons.prems] by blast
  have "fits line_bytes n b (hs_lines h1)" using newest_tail_fits [of n b] assms h1(3) by simp
  then show ?case using Cons.IH [OF h1(2)] h1 by (simp add: newest_tail_append)
qed

definition empty_history :: "'a history" where
  "empty_history = \<lparr>hs_lines = [], hs_cached = None\<rparr>"

text \<open>C23: However output arrives in bursts, appending always returns, and the history is the longest
  tail of all lines that fit the byte limit on their own, within both limits.\<close>

theorem terminal_history_newest_tail:
  assumes "0 < maxLines" "0 < maxBytes"
  shows "map_option hs_lines (terminal_bursts maxLines maxBytes bursts empty_history) =
    Some (newest_tail line_bytes maxLines maxBytes (filter (\<lambda>line. int (line_bytes line) \<le> maxBytes) (concat bursts)))"
  using terminal_bursts_newest_tail [OF assms, of empty_history bursts] assms
  by (auto simp: empty_history_def cache_right_def fits_def)

lemma terminal_history_newest_tail_witness:
  "map_option hs_lines (terminal_bursts 2 4
       [[\<lparr>tl_id = [], tl_at = [], tl_stream = Stdout, tl_text = [65]\<rparr>, \<lparr>tl_id = [], tl_at = [], tl_stream = Stdout, tl_text = [66]\<rparr>],
        [\<lparr>tl_id = [], tl_at = [], tl_stream = Stderr, tl_text = [233]\<rparr>]] empty_history) =
     Some [\<lparr>tl_id = [], tl_at = [], tl_stream = Stdout, tl_text = [66]\<rparr>, \<lparr>tl_id = [], tl_at = [], tl_stream = Stderr, tl_text = [233]\<rparr>]"
  by (subst terminal_history_newest_tail) (simp_all add: fits_def line_bytes_def)

section \<open>Cutting a message to a number of bytes\<close>

definition MAX_SAFE_INT :: int where "MAX_SAFE_INT = 9007199254740991"

function truncate_loop :: "jsstring \<Rightarrow> int \<Rightarrow> jsstring \<Rightarrow> nat \<Rightarrow> nat \<Rightarrow> nat \<Rightarrow> jsstring" where
  "truncate_loop str maxBytes marker bytes index markedEnd =
     (let markerBytes = int (utf8ByteLength marker);
          markedLimit = (if markerBytes < maxBytes then maxBytes - markerBytes else maxBytes)
      in if index < length str
         then let (characterBytes, width) = utf8CharacterSize str index
           in if maxBytes < int (bytes + characterBytes)
              then if markerBytes < maxBytes then take markedEnd str @ marker else take index str
              else truncate_loop str maxBytes marker (bytes + characterBytes) (index + width)
                     (if int (bytes + characterBytes) \<le> markedLimit then index + width else markedEnd)
         else str)"
  by pat_completeness auto
termination
  by (relation "measure (\<lambda>(str, _, _, _, index, _). length str - index)")
    (auto simp: utf8CharacterSize_def Let_def split: if_splits)

declare truncate_loop.simps [simp del]

definition truncateUtf8 :: "jsstring \<Rightarrow> int \<Rightarrow> jsstring \<Rightarrow> jsstring" where
  "truncateUtf8 str maxBytes marker =
     (if MAX_SAFE_INT < maxBytes \<or> maxBytes \<le> 0 then [] else truncate_loop str maxBytes marker 0 0 0)"

text \<open>Where a string may be cut: not between the halves of a surrogate pair.\<close>

definition character_boundary :: "jsstring \<Rightarrow> nat \<Rightarrow> bool" where
  "character_boundary str i \<longleftrightarrow>
     i \<le> length str \<and> \<not> (0 < i \<and> i < length str \<and> is_high (str ! (i - 1)) \<and> is_low (str ! i))"

lemma not_high_and_low: "is_high u \<Longrightarrow> \<not> is_low u"
  by (simp add: is_high_def is_low_def)

lemma utf8ByteLength_append:
  "\<not> (xs \<noteq> [] \<and> ys \<noteq> [] \<and> is_high (last xs) \<and> is_low (hd ys)) \<Longrightarrow>
     utf8ByteLength (xs @ ys) = utf8ByteLength xs + utf8ByteLength ys"
proof (induction xs rule: utf8ByteLength.induct)
  case (2 code)
  then show ?case by (cases ys) (auto simp: is_high_def)
next
  case (3 code following xs)
  then show ?case by (cases "xs = []") (auto simp: not_high_and_low)
qed simp

lemma utf8ByteLength_append_le: "utf8ByteLength (xs @ ys) \<le> utf8ByteLength xs + utf8ByteLength ys"
proof (induction xs rule: utf8ByteLength.induct)
  case (2 code)
  then show ?case
    by (cases ys rule: utf8ByteLength.cases) (auto simp: is_high_def is_low_def)
qed auto

lemma boundary_split:
  assumes "character_boundary str i"
  shows "utf8ByteLength str = utf8ByteLength (take i str) + utf8ByteLength (drop i str)"
proof -
  have "utf8ByteLength (take i str @ drop i str) = utf8ByteLength (take i str) + utf8ByteLength (drop i str)"
    by (rule utf8ByteLength_append) (use assms in \<open>auto simp: character_boundary_def last_conv_nth hd_drop_conv_nth min_def\<close>)
  then show ?thesis by simp
qed

lemma character_step:
  assumes "i < length str" "utf8CharacterSize str i = (b, w)"
  shows "0 < w" "i + w \<le> length str" "character_boundary str (i + w)"
    "utf8ByteLength (drop i str) = b + utf8ByteLength (drop (i + w) str)"
    "\<And>j. i < j \<Longrightarrow> character_boundary str j \<Longrightarrow> i + w \<le> j"
proof -
  obtain u rest where u: "drop i str = u # rest" "str ! i = u" "drop (Suc i) str = rest"
    using Cons_nth_drop_Suc [OF assms(1)] by metis
  show "0 < w" "i + w \<le> length str"
    using assms by (auto simp: utf8CharacterSize_def Let_def split: if_splits)
  show "character_boundary str (i + w)"
    using assms by (auto simp: utf8CharacterSize_def character_boundary_def Let_def not_high_and_low is_high_def is_low_def split: if_splits)
  show "utf8ByteLength (drop i str) = b + utf8ByteLength (drop (i + w) str)"
  proof (cases rest)
    case Nil
    then have "length str = Suc i" using u(3) assms(1) by simp
    then show ?thesis using assms u Nil by (auto simp: utf8CharacterSize_def Let_def split: if_splits)
  next
    case (Cons v rest')
    then have len: "Suc i < length str" using u(3) by (metis drop_all list.distinct(1) not_le_imp_less)
    have v: "str ! Suc i = v" "drop (Suc (Suc i)) str = rest'"
      using Cons_nth_drop_Suc [OF len] u(3) Cons by simp_all
    show ?thesis using assms u Cons v len by (auto simp: utf8CharacterSize_def Let_def split: if_splits)
  qed
  show "i + w \<le> j" if "i < j" "character_boundary str j" for j
  proof (rule ccontr)
    assume "\<not> i + w \<le> j"
    then have "w = 2" "j = Suc i" using assms that by (auto simp: utf8CharacterSize_def Let_def split: if_splits)
    then show False using assms that by (auto simp: utf8CharacterSize_def character_boundary_def Let_def split: if_splits)
  qed
qed

lemma boundary_bytes_mono:
  assumes "character_boundary str i" "character_boundary str j" "i \<le> j"
  shows "utf8ByteLength (take i str) \<le> utf8ByteLength (take j str)"
proof -
  have "character_boundary (take j str) i"
    using assms by (auto simp: character_boundary_def)
  then have "utf8ByteLength (take j str) = utf8ByteLength (take i (take j str)) + utf8ByteLength (drop i (take j str))"
    by (rule boundary_split)
  then show ?thesis using assms(3) by (simp add: min_def)
qed

text \<open>What the cut text is: with \<open>limit\<close> bytes left for it, the longest such text ends at \<open>cutAt\<close>.\<close>

definition longest_cut :: "jsstring \<Rightarrow> int \<Rightarrow> nat \<Rightarrow> nat \<Rightarrow> bool" where
  "longest_cut str limit stop cutAt \<longleftrightarrow>
     cutAt \<le> stop \<and> character_boundary str cutAt \<and> int (utf8ByteLength (take cutAt str)) \<le> limit \<and>
     (\<forall>j. cutAt < j \<and> j \<le> stop \<and> character_boundary str j \<longrightarrow> limit < int (utf8ByteLength (take j str)))"

lemma boundary_bytes_step:
  assumes "character_boundary str i" "i < length str" "utf8CharacterSize str i = (b, w)"
  shows "utf8ByteLength (take (i + w) str) = utf8ByteLength (take i str) + b"
  using boundary_split [OF assms(1)] character_step(4) [OF assms(2,3)]
    boundary_split [OF character_step(3) [OF assms(2,3)]] by simp

lemma longest_cut_self:
  "character_boundary str i \<Longrightarrow> int (utf8ByteLength (take i str)) \<le> limit \<Longrightarrow> longest_cut str limit i i"
  by (auto simp: longest_cut_def)

lemma longest_cut_step:
  assumes "longest_cut str limit i cutAt" "character_boundary str i" "i < length str" "utf8CharacterSize str i = (b, w)"
  shows "longest_cut str limit (i + w) (if int (utf8ByteLength (take i str) + b) \<le> limit then i + w else cutAt)"
proof -
  note step = character_step [OF assms(3,4)]
  have ends: "j \<le> i \<or> j = i + w" if "j \<le> i + w" "character_boundary str j" for j
    using step(5) [of j] that by linarith
  show ?thesis
  proof (cases "int (utf8ByteLength (take i str) + b) \<le> limit")
    case True
    then show ?thesis using longest_cut_self [OF step(3)] boundary_bytes_step [OF assms(2-4)] by simp
  next
    case False
    then have "limit < int (utf8ByteLength (take j str))" if "cutAt < j" "j \<le> i + w" "character_boundary str j" for j
      using ends [OF that(2,3)] that assms(1) boundary_bytes_step [OF assms(2-4)] by (auto simp: longest_cut_def)
    then show ?thesis using False assms(1) by (auto simp: longest_cut_def)
  qed
qed

lemma longest_cut_beyond:
  assumes "longest_cut str limit i cutAt" "character_boundary str i" "i < length str" "utf8CharacterSize str i = (b, w)"
    "limit < int (utf8ByteLength (take i str) + b)"
  shows "longest_cut str limit (length str) cutAt"
proof -
  note step = character_step [OF assms(3,4)]
  have "limit < int (utf8ByteLength (take j str))" if "cutAt < j" "character_boundary str j" for j
  proof (cases "j \<le> i")
    case True
    then show ?thesis using assms(1) that by (auto simp: longest_cut_def)
  next
    case False
    then have "utf8ByteLength (take (i + w) str) \<le> utf8ByteLength (take j str)"
      using step(5) [of j] that boundary_bytes_mono [OF step(3)] by simp
    then show ?thesis using assms(5) boundary_bytes_step [OF assms(2-4)] by simp
  qed
  moreover have "cutAt \<le> length str" using assms(1,3) by (auto simp: longest_cut_def)
  ultimately show ?thesis using assms(1) by (auto simp: longest_cut_def)
qed

text \<open>The room left for the message: the marker is only put behind it when it is shorter than the limit.\<close>

definition marked_room :: "int \<Rightarrow> jsstring \<Rightarrow> int" where
  "marked_room maxBytes marker =
     (if int (utf8ByteLength marker) < maxBytes then maxBytes - int (utf8ByteLength marker) else maxBytes)"

definition marker_used :: "int \<Rightarrow> jsstring \<Rightarrow> jsstring" where
  "marker_used maxBytes marker = (if int (utf8ByteLength marker) < maxBytes then marker else [])"

lemma truncate_loop_result:
  assumes "character_boundary str i" "bytes = utf8ByteLength (take i str)" "int bytes \<le> maxBytes"
    "longest_cut str (marked_room maxBytes marker) i cutAt"
  shows "(int (utf8ByteLength str) \<le> maxBytes \<longrightarrow> truncate_loop str maxBytes marker bytes i cutAt = str) \<and>
    (maxBytes < int (utf8ByteLength str) \<longrightarrow>
      (\<exists>c. longest_cut str (marked_room maxBytes marker) (length str) c \<and>
           truncate_loop str maxBytes marker bytes i cutAt = take c str @ marker_used maxBytes marker))"
  using assms
proof (induction str maxBytes marker bytes i cutAt rule: truncate_loop.induct)
  case (1 str maxBytes marker bytes i cutAt)
  show ?case
  proof (cases "i < length str")
    case False
    then show ?thesis using "1.prems" by (auto simp: truncate_loop.simps [of str] Let_def character_boundary_def)
  next
    case True
    obtain b w where cw: "utf8CharacterSize str i = (b, w)" by fastforce
    note step = character_step [OF True cw]
    note bs = boundary_bytes_step [OF "1.prems"(1) True cw]
    have room: "marked_room maxBytes marker \<le> maxBytes" by (simp add: marked_room_def)
    show ?thesis
    proof (cases "maxBytes < int (bytes + b)")
      case over: True
      have "utf8ByteLength (take (i + w) str) \<le> utf8ByteLength (take (length str) str)"
        using step(2,3) by (intro boundary_bytes_mono) (auto simp: character_boundary_def)
      then have large: "maxBytes < int (utf8ByteLength str)" using over bs "1.prems"(2) by simp
      have beyond: "longest_cut str (marked_room maxBytes marker) i c \<Longrightarrow>
          longest_cut str (marked_room maxBytes marker) (length str) c" for c
        using longest_cut_beyond [OF _ "1.prems"(1) True cw] over room "1.prems"(2) by simp
      show ?thesis
      proof (cases "int (utf8ByteLength marker) < maxBytes")
        case True
        then show ?thesis using large over cw \<open>i < length str\<close> beyond [OF "1.prems"(4)]
          by (auto simp: truncate_loop.simps [of str] Let_def marker_used_def)
      next
        case False
        then have "longest_cut str (marked_room maxBytes marker) i i"
          using "1.prems" by (auto simp: marked_room_def intro: longest_cut_self)
        then show ?thesis using False large over cw \<open>i < length str\<close> beyond [of i]
          by (auto simp: truncate_loop.simps [of str] Let_def marker_used_def)
      qed
    next
      case False
      have next_cut: "longest_cut str (marked_room maxBytes marker) (i + w)
          (if int (bytes + b) \<le> marked_room maxBytes marker then i + w else cutAt)"
        using longest_cut_step [OF "1.prems"(4,1) True cw] "1.prems"(2) by simp
      have loop: "truncate_loop str maxBytes marker bytes i cutAt =
          truncate_loop str maxBytes marker (bytes + b) (i + w)
            (if int (bytes + b) \<le> marked_room maxBytes marker then i + w else cutAt)"
        using False True cw by (simp add: truncate_loop.simps [of str maxBytes marker bytes i cutAt] Let_def marked_room_def)
      show ?thesis unfolding loop
        by (rule "1.IH" [OF refl refl True refl cw [symmetric] _, folded marked_room_def])
          (use False step(3) bs "1.prems"(2) next_cut in auto)
    qed
  qed
qed

lemma longest_cut_start: "0 \<le> limit \<Longrightarrow> longest_cut str limit 0 0"
  by (simp add: longest_cut_def character_boundary_def)

lemma marked_room_nonneg: "0 \<le> maxBytes \<Longrightarrow> 0 \<le> marked_room maxBytes marker"
  by (simp add: marked_room_def)

lemma truncateUtf8_result:
  assumes "0 < maxBytes" "maxBytes \<le> MAX_SAFE_INT"
  shows "int (utf8ByteLength str) \<le> maxBytes \<Longrightarrow> truncateUtf8 str maxBytes marker = str"
    and "maxBytes < int (utf8ByteLength str) \<Longrightarrow>
      \<exists>c. longest_cut str (marked_room maxBytes marker) (length str) c \<and>
          truncateUtf8 str maxBytes marker = take c str @ marker_used maxBytes marker"
  using truncate_loop_result [of str 0 0 maxBytes marker 0] longest_cut_start [OF marked_room_nonneg, of maxBytes str marker] assms
  by (auto simp: truncateUtf8_def character_boundary_def)

lemma truncateUtf8_bounded: "int (utf8ByteLength (truncateUtf8 str maxBytes marker)) \<le> max 0 maxBytes"
proof (cases "0 < maxBytes \<and> maxBytes \<le> MAX_SAFE_INT")
  case True
  show ?thesis
  proof (cases "int (utf8ByteLength str) \<le> maxBytes")
    case False
    then obtain c where c: "longest_cut str (marked_room maxBytes marker) (length str) c"
      "truncateUtf8 str maxBytes marker = take c str @ marker_used maxBytes marker"
      using truncateUtf8_result(2) [of maxBytes str marker] True by auto
    have "int (utf8ByteLength (take c str)) + int (utf8ByteLength (marker_used maxBytes marker)) \<le> maxBytes"
      using c(1) by (auto simp: longest_cut_def marked_room_def marker_used_def split: if_splits)
    then show ?thesis using utf8ByteLength_append_le [of "take c str" "marker_used maxBytes marker"] c(2) True by simp
  qed (use truncateUtf8_result(1) [of maxBytes str marker] True in simp)
qed (auto simp: truncateUtf8_def)

text \<open>A text that fits is left alone; any other is cut at the last character boundary that leaves room
  for the marker, and with it takes no more bytes in UTF-8 than the limit.\<close>

theorem truncated_text:
  assumes "0 < maxBytes" "maxBytes \<le> MAX_SAFE_INT"
  shows "int (length (utf8_encode (truncateUtf8 str maxBytes marker))) \<le> maxBytes \<and>
    (if int (length (utf8_encode str)) \<le> maxBytes then truncateUtf8 str maxBytes marker = str
     else \<exists>c. longest_cut str (marked_room maxBytes marker) (length str) c \<and>
            truncateUtf8 str maxBytes marker = take c str @ marker_used maxBytes marker)"
  using truncateUtf8_bounded [of str maxBytes marker] truncateUtf8_result [OF assms, of str marker] assms
  by (auto simp: utf8ByteLength_encode)

lemma truncated_text_witness:
  "int (length (utf8_encode (truncateUtf8 [8364, 8364, 8364] 7 [46]))) \<le> 7 \<and> truncateUtf8 [8364, 8364, 8364] 7 [46] = [8364, 8364, 46]"
  using truncated_text [of 7 "[8364, 8364, 8364]" "[46]"]
  by (simp add: MAX_SAFE_INT_def truncateUtf8_def truncate_loop.simps [of "[8364, 8364, 8364]"]
      utf8CharacterSize_def is_high_def utf8_unit_def is_low_def)

section \<open>Diagnostics\<close>

datatype diagnostics_level = Level_info | Level_warning | Level_error

record diagnostics_entry =
  de_id :: jsstring
  de_at :: jsstring
  de_level :: diagnostics_level
  de_message :: jsstring
  de_source :: "jsstring option"

definition MAX_DIAGNOSTICS_HISTORY_ENTRIES :: int where "MAX_DIAGNOSTICS_HISTORY_ENTRIES = 500"
definition MAX_DIAGNOSTICS_HISTORY_BYTES :: int where "MAX_DIAGNOSTICS_HISTORY_BYTES = 1048576"
definition MAX_DIAGNOSTIC_MESSAGE_BYTES :: int where "MAX_DIAGNOSTIC_MESSAGE_BYTES = 65536"
definition MAX_DIAGNOSTIC_ID_CHARACTERS :: nat where "MAX_DIAGNOSTIC_ID_CHARACTERS = 128"
definition MAX_DIAGNOSTIC_TIMESTAMP_CHARACTERS :: nat where "MAX_DIAGNOSTIC_TIMESTAMP_CHARACTERS = 64"

definition DIAGNOSTIC_TRUNCATION_MARKER :: jsstring where
  "DIAGNOSTIC_TRUNCATION_MARKER = 10 # js ''[diagnostic truncated]''"

definition DIAGNOSTIC_SOURCES :: "jsstring list" where
  "DIAGNOSTIC_SOURCES = [js ''ssh'', js ''xray'', js ''routing'', js ''update'', js ''app'']"

definition ROUTING_DIAGNOSTIC_PATTERN :: "jsstring list" where
  "ROUTING_DIAGNOSTIC_PATTERN =
     [js ''TUN '', js ''Routing '',
      js ''Selected rules '', js ''Selected routing '', js ''Selected process-name '',
      js ''Selected-rules '', js ''Selected-routing '', js ''Selected-process-name '',
      js ''Process-name '', js ''Per-process enforcement '', js ''Local routing proxy '',
      js ''Further local routing '', js ''Proxy-all TCP routing '', js ''Windows proxy '',
      js ''Reconnect through the protected address '', js ''The tunnel has been down for '',
      js ''Another program took Xray'' @ 39 # js ''s local port '']"

definition source_valid :: "jsstring option \<Rightarrow> bool" where
  "source_valid source = (case source of None \<Rightarrow> True | Some s \<Rightarrow> List.member DIAGNOSTIC_SOURCES s)"

definition normalizeDiagnosticEntry :: "diagnostics_entry \<Rightarrow> int \<Rightarrow> diagnostics_entry" where
  "normalizeDiagnosticEntry entry maxMessageBytes =
     (let entry_id = take MAX_DIAGNOSTIC_ID_CHARACTERS (de_id entry);
          entry_at = take MAX_DIAGNOSTIC_TIMESTAMP_CHARACTERS (de_at entry);
          message = truncateUtf8 (de_message entry) maxMessageBytes DIAGNOSTIC_TRUNCATION_MARKER;
          valid = source_valid (de_source entry)
      in if entry_id = de_id entry \<and> entry_at = de_at entry \<and> message = de_message entry \<and> valid then entry
         else let normalized = entry\<lparr>de_id := entry_id, de_at := entry_at, de_message := message\<rparr>
           in if valid then normalized else normalized\<lparr>de_source := None\<rparr>)"

definition classifyDiagnosticSource :: "jsstring \<Rightarrow> jsstring \<Rightarrow> jsstring" where
  "classifyDiagnosticSource message origin =
     (if (origin = js ''ssh'' \<or> origin = js ''xray'') \<and>
         list_ex (\<lambda>prefix. starts_with prefix message) ROUTING_DIAGNOSTIC_PATTERN
      then js ''routing'' else origin)"

definition withDiagnosticSource :: "diagnostics_entry \<Rightarrow> jsstring \<Rightarrow> diagnostics_entry" where
  "withDiagnosticSource entry origin =
     (if de_source entry \<noteq> None \<and> source_valid (de_source entry) then entry
      else entry\<lparr>de_source := Some (classifyDiagnosticSource (de_message entry) origin)\<rparr>)"

definition diagnosticEntryByteLength :: "diagnostics_entry \<Rightarrow> nat" where
  "diagnosticEntryByteLength entry =
     utf8ByteLength (de_id entry) + utf8ByteLength (de_at entry) + utf8ByteLength (de_message entry) + 16"

definition appendBoundedDiagnosticEntries ::
  "diagnostics_entry history \<Rightarrow> diagnostics_entry list \<Rightarrow> int \<Rightarrow> int \<Rightarrow> diagnostics_entry history option" where
  "appendBoundedDiagnosticEntries h appendedEntries maxEntries maxBytes =
     (if maxEntries \<le> 0 \<or> maxBytes \<le> 0 then Some \<lparr>hs_lines = [], hs_cached = Some 0\<rparr>
      else let accepted = filter (\<lambda>entry. int (diagnosticEntryByteLength entry) \<le> maxBytes)
                 (map (\<lambda>candidate. normalizeDiagnosticEntry candidate MAX_DIAGNOSTIC_MESSAGE_BYTES) appendedEntries)
        in map_option history_of (drop_oldest diagnosticEntryByteLength maxEntries maxBytes (hs_lines h @ accepted)
             (cached_total diagnosticEntryByteLength h + total_bytes diagnosticEntryByteLength accepted)))"

definition entry_bounded :: "diagnostics_entry \<Rightarrow> bool" where
  "entry_bounded entry \<longleftrightarrow> length (de_id entry) \<le> 128 \<and> length (de_at entry) \<le> 64 \<and>
     length (utf8_encode (de_message entry)) \<le> 65536 \<and> source_valid (de_source entry)"

lemma normalized_bounded: "entry_bounded (normalizeDiagnosticEntry entry MAX_DIAGNOSTIC_MESSAGE_BYTES)"
proof -
  define message where "message = truncateUtf8 (de_message entry) MAX_DIAGNOSTIC_MESSAGE_BYTES DIAGNOSTIC_TRUNCATION_MARKER"
  have "length (utf8_encode message) \<le> 65536"
    using truncateUtf8_bounded [of "de_message entry" MAX_DIAGNOSTIC_MESSAGE_BYTES DIAGNOSTIC_TRUNCATION_MARKER]
    by (simp add: message_def MAX_DIAGNOSTIC_MESSAGE_BYTES_def utf8ByteLength_encode)
  then show ?thesis
    unfolding normalizeDiagnosticEntry_def message_def [symmetric] Let_def
    by (auto simp: entry_bounded_def MAX_DIAGNOSTIC_ID_CHARACTERS_def MAX_DIAGNOSTIC_TIMESTAMP_CHARACTERS_def
        source_valid_def)
qed

lemma normalized_again:
  "entry_bounded entry \<Longrightarrow> normalizeDiagnosticEntry entry MAX_DIAGNOSTIC_MESSAGE_BYTES = entry"
  using truncateUtf8_result(1) [of MAX_DIAGNOSTIC_MESSAGE_BYTES "de_message entry" DIAGNOSTIC_TRUNCATION_MARKER]
  by (simp add: normalizeDiagnosticEntry_def entry_bounded_def MAX_DIAGNOSTIC_ID_CHARACTERS_def
      MAX_DIAGNOSTIC_TIMESTAMP_CHARACTERS_def MAX_DIAGNOSTIC_MESSAGE_BYTES_def MAX_SAFE_INT_def utf8ByteLength_encode)

lemma append_diagnostics_newest_tail:
  assumes "0 < n" "0 < b" "cache_right diagnosticEntryByteLength h"
  shows "\<exists>h'. appendBoundedDiagnosticEntries h xs n b = Some h' \<and> cache_right diagnosticEntryByteLength h' \<and>
    hs_lines h' = newest_tail diagnosticEntryByteLength n b (hs_lines h @
      filter (\<lambda>e. int (diagnosticEntryByteLength e) \<le> b)
        (map (\<lambda>e. normalizeDiagnosticEntry e MAX_DIAGNOSTIC_MESSAGE_BYTES) xs))"
proof -
  define ok where "ok = filter (\<lambda>e. int (diagnosticEntryByteLength e) \<le> b)
    (map (\<lambda>e. normalizeDiagnosticEntry e MAX_DIAGNOSTIC_MESSAGE_BYTES) xs)"
  have "drop_oldest diagnosticEntryByteLength n b (hs_lines h @ ok)
      (cached_total diagnosticEntryByteLength h + total_bytes diagnosticEntryByteLength ok) =
      Some (newest_tail diagnosticEntryByteLength n b (hs_lines h @ ok),
            total_bytes diagnosticEntryByteLength (newest_tail diagnosticEntryByteLength n b (hs_lines h @ ok)))"
    using drop_oldest_newest_tail [of n b diagnosticEntryByteLength "hs_lines h @ ok"] assms cached_total_right [OF assms(3)]
    by simp
  then show ?thesis using assms(1,2) unfolding appendBoundedDiagnosticEntries_def Let_def ok_def [symmetric]
    by (simp add: cache_right_def history_of_def)
qed

fun diagnostics_bursts :: "int \<Rightarrow> int \<Rightarrow> diagnostics_entry list list \<Rightarrow> diagnostics_entry history \<Rightarrow> diagnostics_entry history option" where
  "diagnostics_bursts maxEntries maxBytes [] h = Some h"
| "diagnostics_bursts maxEntries maxBytes (burst # bursts) h =
     (case appendBoundedDiagnosticEntries h burst maxEntries maxBytes of None \<Rightarrow> None
      | Some h' \<Rightarrow> diagnostics_bursts maxEntries maxBytes bursts h')"

lemma diagnostics_bursts_newest_tail:
  assumes "0 < n" "0 < b" "cache_right diagnosticEntryByteLength h" "fits diagnosticEntryByteLength n b (hs_lines h)"
  shows "\<exists>h'. diagnostics_bursts n b bursts h = Some h' \<and>
    hs_lines h' = newest_tail diagnosticEntryByteLength n b (hs_lines h @
      filter (\<lambda>e. int (diagnosticEntryByteLength e) \<le> b)
        (map (\<lambda>e. normalizeDiagnosticEntry e MAX_DIAGNOSTIC_MESSAGE_BYTES) (concat bursts)))"
  using assms(3,4)
proof (induction bursts arbitrary: h)
  case Nil
  then show ?case by (simp add: newest_tail_id)
next
  case (Cons burst bursts)
  obtain h1 where h1: "appendBoundedDiagnosticEntries h burst n b = Some h1" "cache_right diagnosticEntryByteLength h1"
    "hs_lines h1 = newest_tail diagnosticEntryByteLength n b (hs_lines h @
      filter (\<lambda>e. int (diagnosticEntryByteLength e) \<le> b)
        (map (\<lambda>e. normalizeDiagnosticEntry e MAX_DIAGNOSTIC_MESSAGE_BYTES) burst))"
    using append_diagnostics_newest_tail [OF assms(1,2) Cons.prems(1)] by blast
  have "fits diagnosticEntryByteLength n b (hs_lines h1)" using newest_tail_fits [of n b] assms h1(3) by simp
  then show ?case using Cons.IH [OF h1(2)] h1 by (simp add: newest_tail_append)
qed

text \<open>However diagnostics arrive, appending never fails; what is kept is the longest tail within the
  limits of all entries as normalised, and every entry kept is within its own limits.\<close>

theorem diagnostics_history_newest_tail:
  assumes "0 < maxEntries" "0 < maxBytes"
  shows "\<exists>h. diagnostics_bursts maxEntries maxBytes bursts empty_history = Some h \<and>
    hs_lines h = newest_tail diagnosticEntryByteLength maxEntries maxBytes
      (filter (\<lambda>e. int (diagnosticEntryByteLength e) \<le> maxBytes)
        (map (\<lambda>e. normalizeDiagnosticEntry e MAX_DIAGNOSTIC_MESSAGE_BYTES) (concat bursts))) \<and>
    list_all entry_bounded (hs_lines h)"
proof -
  define all where "all = filter (\<lambda>e. int (diagnosticEntryByteLength e) \<le> maxBytes)
    (map (\<lambda>e. normalizeDiagnosticEntry e MAX_DIAGNOSTIC_MESSAGE_BYTES) (concat bursts))"
  obtain h where h: "diagnostics_bursts maxEntries maxBytes bursts empty_history = Some h"
    "hs_lines h = newest_tail diagnosticEntryByteLength maxEntries maxBytes all"
    using diagnostics_bursts_newest_tail [OF assms, of empty_history bursts] assms
    by (auto simp: empty_history_def cache_right_def fits_def all_def)
  have "list_all entry_bounded all" by (auto simp: all_def list_all_iff normalized_bounded)
  then have "list_all entry_bounded (hs_lines h)"
    using newest_tail_suffix [of all diagnosticEntryByteLength maxEntries maxBytes] h(2)
    by (metis list_all_append)
  then show ?thesis using h unfolding all_def by blast
qed

lemma diagnostics_history_newest_tail_witness:
  "\<exists>h. diagnostics_bursts 1 1000 [[\<lparr>de_id = [65], de_at = [], de_level = Level_info, de_message = [], de_source = Some [88]\<rparr>]]
      empty_history = Some h \<and>
    hs_lines h = [\<lparr>de_id = [65], de_at = [], de_level = Level_info, de_message = [], de_source = None\<rparr>]"
proof -
  define e where "e = \<lparr>de_id = [65], de_at = [], de_level = Level_info, de_message = [], de_source = Some [88]\<rparr>"
  have n: "normalizeDiagnosticEntry e MAX_DIAGNOSTIC_MESSAGE_BYTES = e\<lparr>de_source := None\<rparr>"
    by (simp add: normalizeDiagnosticEntry_def e_def source_valid_def DIAGNOSTIC_SOURCES_def truncateUtf8_def
        truncate_loop.simps MAX_DIAGNOSTIC_MESSAGE_BYTES_def MAX_SAFE_INT_def
        MAX_DIAGNOSTIC_ID_CHARACTERS_def MAX_DIAGNOSTIC_TIMESTAMP_CHARACTERS_def)
  show ?thesis
    using diagnostics_history_newest_tail [of 1 1000 "[[e]]"] n
    by (auto simp: e_def diagnosticEntryByteLength_def fits_def)
qed

text \<open>Which source a diagnostic is filed under: a valid source it has is kept, and a message about
  routing goes from a transport to routing; nothing else changes.\<close>

lemma source_always_set:
  "origin \<in> set DIAGNOSTIC_SOURCES \<Longrightarrow> source_valid (de_source (withDiagnosticSource entry origin)) \<and>
     de_source (withDiagnosticSource entry origin) \<noteq> None"
  by (auto simp: withDiagnosticSource_def source_valid_def classifyDiagnosticSource_def DIAGNOSTIC_SOURCES_def)

lemma source_stable:
  assumes "origin \<in> set DIAGNOSTIC_SOURCES"
  shows "withDiagnosticSource (withDiagnosticSource entry origin) other = withDiagnosticSource entry origin"
  using source_always_set [OF assms, of entry] unfolding withDiagnosticSource_def [of _ other] by simp

end
