(* ===== verification/TerminalOutput.thy ===== *)
theory TerminalOutput
  imports Histories
begin

text \<open>
  The batcher of terminal output (\<open>src/main/app/terminal-output-batcher.ts\<close>): chunks on their way to
  the renderer are joined, held back for a moment, and dropped when too much is waiting.  Shown: what
  waits is bounded and never waits without a timer; the renderer gets every chunk that was not
  dropped, in order and unaltered, and is told exactly how many bytes were dropped.
\<close>

record output_batch =
  ob_source :: jsstring
  ob_lines :: "terminal_line list"
  ob_droppedBytes :: int

record terminal_segment =
  sg_line :: terminal_line
  sg_chunks :: "jsstring list"

record batcher =
  bt_maxPendingBytes :: int
  bt_maxSegments :: int
  bt_source :: "jsstring option"
  bt_segments :: "terminal_segment list"
  bt_pendingBytes :: int
  bt_droppedBytes :: int
  bt_timer :: bool

definition DEFAULT_MAX_PENDING_BYTES :: int where "DEFAULT_MAX_PENDING_BYTES = 262144"
definition DEFAULT_MAX_SEGMENTS :: int where "DEFAULT_MAX_SEGMENTS = 4"

definition positiveInteger :: "int option \<Rightarrow> int \<Rightarrow> int" where
  "positiveInteger value_given fallback =
     (case value_given of Some v \<Rightarrow> if 0 < v then v else fallback | None \<Rightarrow> fallback)"

definition batcher_new :: "int option \<Rightarrow> int option \<Rightarrow> batcher" where
  "batcher_new maxPendingBytes maxSegments =
     \<lparr>bt_maxPendingBytes = positiveInteger maxPendingBytes DEFAULT_MAX_PENDING_BYTES,
      bt_maxSegments = positiveInteger maxSegments DEFAULT_MAX_SEGMENTS,
      bt_source = None, bt_segments = [], bt_pendingBytes = 0, bt_droppedBytes = 0, bt_timer = False\<rparr>"

definition batcher_reset :: "batcher \<Rightarrow> batcher" where
  "batcher_reset s = s\<lparr>bt_source := None, bt_segments := [], bt_pendingBytes := 0, bt_droppedBytes := 0\<rparr>"

definition segment_line :: "terminal_segment \<Rightarrow> terminal_line" where
  "segment_line g = (sg_line g)\<lparr>tl_text := concat (sg_chunks g)\<rparr>"

text \<open>The operations return the batches handed to \<open>onFlush\<close> and the batcher.\<close>

definition batcher_flush :: "batcher \<Rightarrow> output_batch list \<times> batcher" where
  "batcher_flush s0 =
     (let s = s0\<lparr>bt_timer := False\<rparr>
      in case bt_source s of None \<Rightarrow> ([], s)
         | Some source \<Rightarrow>
             let batch = \<lparr>ob_source = source, ob_lines = map segment_line (bt_segments s), ob_droppedBytes = bt_droppedBytes s\<rparr>
             in (if ob_lines batch \<noteq> [] \<or> 0 < ob_droppedBytes batch then [batch] else [], batcher_reset s))"

definition batcher_clear :: "batcher \<Rightarrow> batcher" where
  "batcher_clear s = batcher_reset (s\<lparr>bt_timer := False\<rparr>)"

definition scheduleFlush :: "batcher \<Rightarrow> batcher" where
  "scheduleFlush s = s\<lparr>bt_timer := True\<rparr>"

definition flush_when :: "bool \<Rightarrow> batcher \<Rightarrow> output_batch list \<times> batcher" where
  "flush_when c s = (if c then batcher_flush s else ([], s))"

definition batcher_accept :: "terminal_line \<Rightarrow> batcher \<Rightarrow> batcher" where
  "batcher_accept line s =
     (let bytes = int (utf8ByteLength (tl_text line));
          same = bt_segments s \<noteq> [] \<and> tl_stream (sg_line (last (bt_segments s))) = tl_stream line;
          needsSegment = (\<not> same)
      in if bt_maxPendingBytes s < bt_pendingBytes s + bytes \<or>
            (needsSegment \<and> bt_maxSegments s \<le> int (length (bt_segments s)))
         then s\<lparr>bt_droppedBytes := min MAX_SAFE_INT (bt_droppedBytes s + bytes)\<rparr>
         else if same
           then s\<lparr>bt_segments := butlast (bt_segments s) @
                    [(last (bt_segments s))\<lparr>sg_chunks := sg_chunks (last (bt_segments s)) @ [tl_text line]\<rparr>],
                  bt_pendingBytes := bt_pendingBytes s + bytes\<rparr>
         else s\<lparr>bt_segments := bt_segments s @ [\<lparr>sg_line = line, sg_chunks = [tl_text line]\<rparr>],
                bt_pendingBytes := bt_pendingBytes s + bytes\<rparr>)"

definition batcher_enqueue :: "jsstring \<Rightarrow> terminal_line \<Rightarrow> batcher \<Rightarrow> output_batch list \<times> batcher" where
  "batcher_enqueue source line s0 =
     (if tl_text line = [] then ([], s0)
      else let (out1, s1) = flush_when (bt_source s0 \<noteq> None \<and> bt_source s0 \<noteq> Some source) s0;
          (out2, s2) = flush_when (tl_stream line = SystemStream \<and> (bt_segments s1 \<noteq> [] \<or> 0 < bt_droppedBytes s1)) s1;
          s3 = batcher_accept line (s2\<lparr>bt_source := Some source\<rparr>);
          (out3, s4) = (if tl_stream line = SystemStream then batcher_flush s3 else ([], scheduleFlush s3))
        in (out1 @ out2 @ out3, s4))"

section \<open>Any order of events\<close>

datatype batcher_event =
    Enqueue_output jsstring terminal_line
  | Flush_timer
  | Flush_now
  | Clear_output

definition batcher_step :: "batcher_event \<Rightarrow> batcher \<Rightarrow> output_batch list \<times> batcher" where
  "batcher_step ev s =
     (case ev of Enqueue_output source line \<Rightarrow> batcher_enqueue source line s
      | Flush_timer \<Rightarrow> if bt_timer s then batcher_flush (s\<lparr>bt_timer := False\<rparr>) else ([], s)
      | Flush_now \<Rightarrow> batcher_flush s
      | Clear_output \<Rightarrow> ([], batcher_clear s))"

fun batcher_run :: "batcher_event list \<Rightarrow> batcher \<Rightarrow> output_batch list \<times> batcher" where
  "batcher_run [] s = ([], s)"
| "batcher_run (ev # evs) s =
     (let (out, s1) = batcher_step ev s; (outs, s2) = batcher_run evs s1 in (out @ outs, s2))"

definition segment_bytes :: "terminal_segment \<Rightarrow> int" where
  "segment_bytes g = sum_list (map (\<lambda>c. int (utf8ByteLength c)) (sg_chunks g))"

definition batcher_ok :: "batcher \<Rightarrow> bool" where
  "batcher_ok s \<longleftrightarrow> 0 < bt_maxPendingBytes s \<and> 0 < bt_maxSegments s \<and>
     bt_pendingBytes s = sum_list (map segment_bytes (bt_segments s)) \<and>
     bt_pendingBytes s \<le> bt_maxPendingBytes s \<and> int (length (bt_segments s)) \<le> bt_maxSegments s \<and>
     0 \<le> bt_droppedBytes s \<and> bt_droppedBytes s \<le> MAX_SAFE_INT \<and>
     (bt_segments s \<noteq> [] \<or> 0 < bt_droppedBytes s \<longrightarrow> bt_source s \<noteq> None)"

definition batcher_timed :: "batcher \<Rightarrow> bool" where
  "batcher_timed s \<longleftrightarrow> (bt_source s \<noteq> None \<longrightarrow> bt_timer s)"

lemma batcher_flush_state: "snd (batcher_flush s) = batcher_reset (s\<lparr>bt_timer := False\<rparr>) \<or>
    bt_source s = None \<and> snd (batcher_flush s) = s\<lparr>bt_timer := False\<rparr>"
  by (simp add: batcher_flush_def Let_def split: option.split)

lemma batcher_flush_ok: "batcher_ok s \<Longrightarrow> batcher_ok (snd (batcher_flush s))"
  by (auto simp: batcher_flush_def Let_def batcher_ok_def batcher_reset_def MAX_SAFE_INT_def split: option.split)

lemma batcher_flush_empties: "bt_source (snd (batcher_flush s)) = None"
  by (auto simp: batcher_flush_def Let_def batcher_reset_def split: option.split)

lemma batcher_accept_ok:
  assumes "batcher_ok s" "bt_source s \<noteq> None"
  shows "batcher_ok (batcher_accept line s)"
proof (cases "bt_segments s" rule: rev_cases)
  case Nil
  then show ?thesis using assms by (auto simp: batcher_accept_def batcher_ok_def Let_def segment_bytes_def MAX_SAFE_INT_def)
next
  case (snoc gs g)
  then show ?thesis using assms
    by (auto simp: batcher_accept_def batcher_ok_def Let_def segment_bytes_def MAX_SAFE_INT_def)
qed

lemma batcher_accept_source [simp]: "bt_source (batcher_accept line s) = bt_source s"
  by (simp add: batcher_accept_def Let_def)

lemma batcher_source_ok: "batcher_ok s \<Longrightarrow> batcher_ok (s\<lparr>bt_source := Some source\<rparr>)"
  by (simp add: batcher_ok_def)

lemma batcher_timer_ok [simp]: "batcher_ok (s\<lparr>bt_timer := t\<rparr>) = batcher_ok s"
  by (simp add: batcher_ok_def)

lemma flush_when_ok: "batcher_ok s \<Longrightarrow> batcher_ok (snd (flush_when c s))"
  by (simp add: flush_when_def batcher_flush_ok)

lemma batcher_enqueue_parts:
  assumes "tl_text line \<noteq> []"
  obtains out1 s1 out2 s2 where
    "flush_when (bt_source s \<noteq> None \<and> bt_source s \<noteq> Some source) s = (out1, s1)"
    "flush_when (tl_stream line = SystemStream \<and> (bt_segments s1 \<noteq> [] \<or> 0 < bt_droppedBytes s1)) s1 = (out2, s2)"
    "batcher_enqueue source line s =
       (let s3 = batcher_accept line (s2\<lparr>bt_source := Some source\<rparr>)
        in if tl_stream line = SystemStream then (out1 @ out2 @ fst (batcher_flush s3), snd (batcher_flush s3))
           else (out1 @ out2, scheduleFlush s3))"
proof -
  obtain out1 s1 where f1: "flush_when (bt_source s \<noteq> None \<and> bt_source s \<noteq> Some source) s = (out1, s1)" by fastforce
  obtain out2 s2 where f2: "flush_when (tl_stream line = SystemStream \<and> (bt_segments s1 \<noteq> [] \<or> 0 < bt_droppedBytes s1)) s1 = (out2, s2)"
    by fastforce
  show ?thesis
    by (rule that [OF f1 f2]) (simp add: batcher_enqueue_def assms f1 [simplified] f2 [simplified] Let_def split: prod.split)
qed

lemma batcher_enqueue_ok:
  assumes "batcher_ok s" "batcher_timed s"
  shows "batcher_ok (snd (batcher_enqueue source line s)) \<and> batcher_timed (snd (batcher_enqueue source line s))"
proof (cases "tl_text line = []")
  case False
  obtain out1 s1 out2 s2 where f: "flush_when (bt_source s \<noteq> None \<and> bt_source s \<noteq> Some source) s = (out1, s1)"
    "flush_when (tl_stream line = SystemStream \<and> (bt_segments s1 \<noteq> [] \<or> 0 < bt_droppedBytes s1)) s1 = (out2, s2)"
    "batcher_enqueue source line s =
       (let s3 = batcher_accept line (s2\<lparr>bt_source := Some source\<rparr>)
        in if tl_stream line = SystemStream then (out1 @ out2 @ fst (batcher_flush s3), snd (batcher_flush s3))
           else (out1 @ out2, scheduleFlush s3))"
    using batcher_enqueue_parts [OF False] by metis
  have "batcher_ok s2" using flush_when_ok [OF assms(1)] flush_when_ok [of s1] f by (metis snd_conv)
  then have s3: "batcher_ok (batcher_accept line (s2\<lparr>bt_source := Some source\<rparr>))"
    by (intro batcher_accept_ok batcher_source_ok) simp_all
  show ?thesis using batcher_flush_ok [OF s3] s3
    by (auto simp: f(3) Let_def scheduleFlush_def batcher_timed_def batcher_flush_empties)
qed (use assms in \<open>simp add: batcher_enqueue_def\<close>)

lemma batcher_step_ok:
  assumes "batcher_ok s \<and> batcher_timed s"
  shows "batcher_ok (snd (batcher_step ev s)) \<and> batcher_timed (snd (batcher_step ev s))"
proof (cases ev)
  case (Enqueue_output source line)
  then show ?thesis using batcher_enqueue_ok assms by (simp add: batcher_step_def)
next
  case Clear_output
  then show ?thesis using assms
    by (simp add: batcher_step_def batcher_clear_def batcher_reset_def batcher_ok_def batcher_timed_def MAX_SAFE_INT_def)
qed (use assms in \<open>auto simp: batcher_step_def batcher_timed_def batcher_flush_empties intro!: batcher_flush_ok\<close>)

interpretation terminal_output: invariant_system "\<lambda>ev s. snd (batcher_step ev s)" "\<lambda>s. batcher_ok s \<and> batcher_timed s"
  by unfold_locales (rule batcher_step_ok)

lemma batcher_run_fold: "snd (batcher_run evs s) = fold (\<lambda>ev s. snd (batcher_step ev s)) evs s"
  by (induction evs arbitrary: s) (simp_all add: split: prod.split, metis snd_conv)

lemma batcher_new_ok: "batcher_ok (batcher_new m n) \<and> batcher_timed (batcher_new m n)"
  by (auto simp: batcher_new_def batcher_ok_def batcher_timed_def positiveInteger_def MAX_SAFE_INT_def
      DEFAULT_MAX_PENDING_BYTES_def DEFAULT_MAX_SEGMENTS_def split: option.split)

lemma batcher_step_params: "bt_maxPendingBytes (snd (batcher_step ev s)) = bt_maxPendingBytes s \<and>
    bt_maxSegments (snd (batcher_step ev s)) = bt_maxSegments s"
proof -
  have fl: "bt_maxPendingBytes (snd (batcher_flush s)) = bt_maxPendingBytes s \<and> bt_maxSegments (snd (batcher_flush s)) = bt_maxSegments s" for s
    by (auto simp: batcher_flush_def batcher_reset_def Let_def split: option.split)
  have fw: "bt_maxPendingBytes (snd (flush_when c s)) = bt_maxPendingBytes s \<and> bt_maxSegments (snd (flush_when c s)) = bt_maxSegments s" for c s
    using fl by (simp add: flush_when_def)
  have ac: "bt_maxPendingBytes (batcher_accept line s) = bt_maxPendingBytes s \<and> bt_maxSegments (batcher_accept line s) = bt_maxSegments s" for line s
    by (simp add: batcher_accept_def Let_def)
  have en: "bt_maxPendingBytes (snd (batcher_enqueue source line s)) = bt_maxPendingBytes s \<and>
      bt_maxSegments (snd (batcher_enqueue source line s)) = bt_maxSegments s" for source line
  proof (cases "tl_text line = []")
    case False
    show ?thesis
    proof (rule batcher_enqueue_parts [OF False, of s source], goal_cases)
      case (1 out1 s1 out2 s2)
      have "bt_maxPendingBytes s2 = bt_maxPendingBytes s \<and> bt_maxSegments s2 = bt_maxSegments s"
        using fw [of _ s] fw [of _ s1] 1(1,2) by (metis snd_conv)
      then show ?case unfolding 1(3) using fl ac by (simp add: Let_def scheduleFlush_def)
    qed
  qed (simp add: batcher_enqueue_def)
  show ?thesis using fl en
    by (simp add: batcher_step_def batcher_clear_def batcher_reset_def split: batcher_event.split)
qed

section \<open>Nothing is lost silently\<close>

definition line_units :: "jsstring \<times> terminal_line \<Rightarrow> (jsstring \<times> terminal_stream \<times> nat) list" where
  "line_units x = map (\<lambda>u. (fst x, tl_stream (snd x), u)) (tl_text (snd x))"

definition batch_units :: "output_batch \<Rightarrow> (jsstring \<times> terminal_stream \<times> nat) list" where
  "batch_units b = concat (map (\<lambda>l. line_units (ob_source b, l)) (ob_lines b))"

definition units_of :: "output_batch list \<Rightarrow> (jsstring \<times> terminal_stream \<times> nat) list" where
  "units_of bs = concat (map batch_units bs)"

definition dropped_in :: "output_batch list \<Rightarrow> int" where
  "dropped_in bs = sum_list (map ob_droppedBytes bs)"

definition pending_units :: "batcher \<Rightarrow> (jsstring \<times> terminal_stream \<times> nat) list" where
  "pending_units s = (case bt_source s of None \<Rightarrow> []
     | Some source \<Rightarrow> concat (map (\<lambda>g. line_units (source, segment_line g)) (bt_segments s)))"

fun enqueued :: "batcher_event list \<Rightarrow> (jsstring \<times> terminal_line) list" where
  "enqueued [] = []"
| "enqueued (Enqueue_output source line # evs) = (source, line) # enqueued evs"
| "enqueued (_ # evs) = enqueued evs"

definition chosen :: "bool list \<Rightarrow> 'a list \<Rightarrow> 'a list" where
  "chosen keep xs = map fst (filter snd (zip xs keep))"

definition lines_bytes :: "(jsstring \<times> terminal_line) list \<Rightarrow> int" where
  "lines_bytes xs = sum_list (map (\<lambda>x. int (utf8ByteLength (tl_text (snd x)))) xs)"

lemma units_simps [simp]:
  "units_of [] = []" "units_of (b # bs) = batch_units b @ units_of bs" "units_of (bs @ cs) = units_of bs @ units_of cs"
  "dropped_in [] = 0" "dropped_in (b # bs) = ob_droppedBytes b + dropped_in bs" "dropped_in (bs @ cs) = dropped_in bs + dropped_in cs"
  "lines_bytes [] = 0" "lines_bytes (x # xs) = int (utf8ByteLength (tl_text (snd x))) + lines_bytes xs"
  by (simp_all add: units_of_def dropped_in_def lines_bytes_def)

lemma pending_units_timer [simp]: "pending_units (s\<lparr>bt_timer := t\<rparr>) = pending_units s"
  by (simp add: pending_units_def split: option.split)

lemma chosen_simps [simp]:
  "chosen [] [] = []" "chosen (b # keep) (x # xs) = (if b then x # chosen keep xs else chosen keep xs)"
  by (simp_all add: chosen_def)

lemma lines_bytes_nonneg [simp]: "0 \<le> lines_bytes xs"
  by (induction xs) simp_all

lemma batcher_flush_conserves:
  assumes "batcher_ok s"
  shows "units_of (fst (batcher_flush s)) @ pending_units (snd (batcher_flush s)) = pending_units s \<and>
    dropped_in (fst (batcher_flush s)) + bt_droppedBytes (snd (batcher_flush s)) = bt_droppedBytes s \<and>
    pending_units (snd (batcher_flush s)) = [] \<and> bt_droppedBytes (snd (batcher_flush s)) = 0"
proof (cases "bt_source s")
  case None
  then show ?thesis using assms by (auto simp: batcher_flush_def pending_units_def batcher_ok_def)
next
  case (Some source)
  then show ?thesis using assms
    by (auto simp: batcher_flush_def pending_units_def batcher_reset_def Let_def batch_units_def batcher_ok_def o_def)
qed

lemma flush_when_conserves:
  assumes "batcher_ok s" "flush_when c s = (out, s')"
  shows "units_of out @ pending_units s' = pending_units s" "dropped_in out + bt_droppedBytes s' = bt_droppedBytes s" "batcher_ok s'"
  using batcher_flush_conserves [OF assms(1)] batcher_flush_ok [OF assms(1)] assms by (auto simp: flush_when_def split: if_splits)

lemma batcher_flush_nonneg: "batcher_ok s \<Longrightarrow> 0 \<le> dropped_in (fst (batcher_flush s))"
  by (auto simp: batcher_flush_def Let_def batcher_ok_def split: option.split)

lemma flush_when_nonneg: "batcher_ok s \<Longrightarrow> flush_when c s = (out, s') \<Longrightarrow> 0 \<le> dropped_in out"
  using batcher_flush_nonneg [of s] by (auto simp: flush_when_def split: if_splits)

lemma batcher_accept_conserves:
  assumes "bt_source s = Some source" "bt_droppedBytes s + int (utf8ByteLength (tl_text line)) \<le> MAX_SAFE_INT"
  obtains k where "pending_units (batcher_accept line s) = pending_units s @ (if k then line_units (source, line) else [])"
    "bt_droppedBytes (batcher_accept line s) = bt_droppedBytes s + (if k then 0 else int (utf8ByteLength (tl_text line)))"
proof (cases "bt_segments s" rule: rev_cases)
  case Nil
  then show ?thesis
    using that [of "bt_pendingBytes s + int (utf8ByteLength (tl_text line)) \<le> bt_maxPendingBytes s \<and> 0 < bt_maxSegments s"] assms
    by (auto simp: batcher_accept_def Let_def pending_units_def line_units_def segment_line_def not_le split: if_splits)
next
  case (snoc gs g)
  then show ?thesis
    using that [of "bt_pendingBytes s + int (utf8ByteLength (tl_text line)) \<le> bt_maxPendingBytes s \<and>
        (tl_stream (sg_line g) = tl_stream line \<or> int (length (bt_segments s)) < bt_maxSegments s)"] assms
    by (auto simp: batcher_accept_def Let_def pending_units_def line_units_def segment_line_def not_le split: if_splits)
qed

lemma batcher_enqueue_conserves:
  assumes "batcher_ok s" "bt_droppedBytes s + int (utf8ByteLength (tl_text line)) \<le> MAX_SAFE_INT"
    "batcher_enqueue source line s = (out, s')"
  obtains k where "units_of out @ pending_units s' = pending_units s @ (if k then line_units (source, line) else [])"
    "dropped_in out + bt_droppedBytes s' = bt_droppedBytes s + (if k then 0 else int (utf8ByteLength (tl_text line)))"
proof (cases "tl_text line = []")
  case True
  then show ?thesis using that [of True] assms(3) by (simp add: batcher_enqueue_def line_units_def)
next
  case False
  obtain out1 s1 out2 s2 where f: "flush_when (bt_source s \<noteq> None \<and> bt_source s \<noteq> Some source) s = (out1, s1)"
    "flush_when (tl_stream line = SystemStream \<and> (bt_segments s1 \<noteq> [] \<or> 0 < bt_droppedBytes s1)) s1 = (out2, s2)"
    "batcher_enqueue source line s =
       (let s3 = batcher_accept line (s2\<lparr>bt_source := Some source\<rparr>)
        in if tl_stream line = SystemStream then (out1 @ out2 @ fst (batcher_flush s3), snd (batcher_flush s3))
           else (out1 @ out2, scheduleFlush s3))"
    using batcher_enqueue_parts [OF False] by metis
  note c1 = flush_when_conserves [OF assms(1) f(1)]
  note c2 = flush_when_conserves [OF c1(3) f(2)]
  define s2' where "s2' = s2\<lparr>bt_source := Some source\<rparr>"
  define s3 where "s3 = batcher_accept line s2'"
  have "bt_source s1 = None \<or> bt_source s1 = Some source" "bt_source s2 = None \<or> bt_source s2 = bt_source s1"
    using f(1,2) batcher_flush_empties [of s] batcher_flush_empties [of s1] by (auto simp: flush_when_def split: if_splits)
  then have p2: "pending_units s2' = pending_units s2"
    using c2(3) by (auto simp: s2'_def pending_units_def batcher_ok_def)
  have d2: "bt_droppedBytes s2' \<le> bt_droppedBytes s"
    using c1(2) c2(2) flush_when_nonneg [OF assms(1) f(1)] flush_when_nonneg [OF c1(3) f(2)] by (simp add: s2'_def)
  have "bt_source s2' = Some source" by (simp add: s2'_def)
  then obtain k where k: "pending_units s3 = pending_units s2' @ (if k then line_units (source, line) else [])"
    "bt_droppedBytes s3 = bt_droppedBytes s2' + (if k then 0 else int (utf8ByteLength (tl_text line)))"
    using batcher_accept_conserves [of s2' source line] d2 assms(2) unfolding s3_def by (metis add_right_mono order_trans)
  have ok3: "batcher_ok s3" unfolding s3_def s2'_def using c2(3) by (intro batcher_accept_ok batcher_source_ok) simp_all
  have e: "(out, s') = (if tl_stream line = SystemStream then (out1 @ out2 @ fst (batcher_flush s3), snd (batcher_flush s3))
           else (out1 @ out2, scheduleFlush s3))"
    using f(3) assms(3) by (simp add: Let_def s3_def s2'_def)
  have "units_of out @ pending_units s' = units_of out1 @ units_of out2 @ pending_units s3"
    "dropped_in out + bt_droppedBytes s' = dropped_in out1 + dropped_in out2 + bt_droppedBytes s3"
    using e batcher_flush_conserves [OF ok3] by (auto simp: scheduleFlush_def split: if_splits)
  moreover have "units_of out1 @ units_of out2 @ pending_units s2 = pending_units s"
    "dropped_in out1 + dropped_in out2 + bt_droppedBytes s2 = bt_droppedBytes s" using c1 c2 by simp_all
  ultimately show ?thesis using that [of k] k p2 by (simp add: s2'_def)
qed

lemma batcher_step_conserves:
  assumes "batcher_ok s" "bt_droppedBytes s + lines_bytes (enqueued [ev]) \<le> MAX_SAFE_INT" "ev \<noteq> Clear_output"
    "batcher_step ev s = (out, s')"
  obtains keep where "length keep = length (enqueued [ev])"
    "units_of out @ pending_units s' = pending_units s @ concat (map line_units (chosen keep (enqueued [ev])))"
    "dropped_in out + bt_droppedBytes s' = bt_droppedBytes s + lines_bytes (chosen (map Not keep) (enqueued [ev]))"
proof (cases ev)
  case (Enqueue_output source line)
  then have e: "bt_droppedBytes s + int (utf8ByteLength (tl_text line)) \<le> MAX_SAFE_INT" "batcher_enqueue source line s = (out, s')"
    using assms(2,4) by (simp_all add: batcher_step_def)
  obtain k where "units_of out @ pending_units s' = pending_units s @ (if k then line_units (source, line) else [])"
    "dropped_in out + bt_droppedBytes s' = bt_droppedBytes s + (if k then 0 else int (utf8ByteLength (tl_text line)))"
    using batcher_enqueue_conserves [OF assms(1) e] by metis
  then show ?thesis using that [of "[k]"] Enqueue_output by (auto split: if_splits)
next
  case Flush_timer
  then show ?thesis using that [of "[]"] assms batcher_flush_conserves [of "s\<lparr>bt_timer := False\<rparr>"]
    by (auto simp: batcher_step_def split: if_splits)
next
  case Flush_now
  then show ?thesis using that [of "[]"] assms batcher_flush_conserves [of s] by (auto simp: batcher_step_def)
qed (use assms in simp)

lemma batcher_step_nonneg:
  assumes "batcher_ok s" shows "0 \<le> dropped_in (fst (batcher_step ev s))"
proof (cases "\<exists>source line. ev = Enqueue_output source line \<and> tl_text line \<noteq> []")
  case True
  then obtain source line where ev: "ev = Enqueue_output source line" and ne: "tl_text line \<noteq> []" by blast
  show ?thesis
  proof (rule batcher_enqueue_parts [OF ne, of s source], goal_cases)
    case (1 out1 s1 out2 s2)
    have s2: "batcher_ok s2" and nn: "0 \<le> dropped_in out1" "0 \<le> dropped_in out2"
      using flush_when_conserves(3) [OF assms 1(1)] flush_when_conserves(3) [OF _ 1(2)]
        flush_when_nonneg [OF assms 1(1)] flush_when_nonneg [OF _ 1(2)] by blast+
    have "batcher_ok (batcher_accept line (s2\<lparr>bt_source := Some source\<rparr>))"
      using s2 by (intro batcher_accept_ok batcher_source_ok) simp_all
    then show ?case using batcher_flush_nonneg nn 1(3) by (simp add: ev batcher_step_def Let_def)
  qed
qed (use assms batcher_flush_nonneg [of s] batcher_flush_nonneg [of "s\<lparr>bt_timer := False\<rparr>"] in
  \<open>auto simp: batcher_step_def batcher_enqueue_def split: batcher_event.split\<close>)

lemma chosen_append: "length keep = length xs \<Longrightarrow> chosen (keep @ keep') (xs @ ys) = chosen keep xs @ chosen keep' ys"
  by (simp add: chosen_def)

lemma lines_bytes_append [simp]: "lines_bytes (xs @ ys) = lines_bytes xs + lines_bytes ys"
  by (simp add: lines_bytes_def)

lemma enqueued_Cons: "enqueued (ev # evs) = enqueued [ev] @ enqueued evs"
  by (cases ev) simp_all

lemma lines_bytes_chosen: "length keep = length xs \<Longrightarrow> lines_bytes (chosen keep xs) \<le> lines_bytes xs"
  by (induction keep xs rule: list_induct2) auto

lemma batcher_run_conserves:
  assumes "batcher_ok s \<and> batcher_timed s" "bt_droppedBytes s + lines_bytes (enqueued evs) \<le> MAX_SAFE_INT"
    "Clear_output \<notin> set evs" "batcher_run evs s = (outs, s')"
  shows "\<exists>keep. length keep = length (enqueued evs) \<and>
    units_of outs @ pending_units s' = pending_units s @ concat (map line_units (chosen keep (enqueued evs))) \<and>
    dropped_in outs + bt_droppedBytes s' = bt_droppedBytes s + lines_bytes (chosen (map Not keep) (enqueued evs))"
  using assms
proof (induction evs arbitrary: s outs)
  case (Cons ev evs)
  obtain out s1 where st: "batcher_step ev s = (out, s1)" by fastforce
  obtain outs' where r: "batcher_run evs s1 = (outs', s')" "outs = out @ outs'"
    using Cons.prems(4) st by (auto split: prod.splits)
  have bytes: "lines_bytes (enqueued (ev # evs)) = lines_bytes (enqueued [ev]) + lines_bytes (enqueued evs)"
    by (subst enqueued_Cons) simp
  have small: "bt_droppedBytes s + lines_bytes (enqueued [ev]) \<le> MAX_SAFE_INT"
    using Cons.prems(2) bytes lines_bytes_nonneg [of "enqueued evs"] by linarith
  obtain k1 where k1: "length k1 = length (enqueued [ev])"
    "units_of out @ pending_units s1 = pending_units s @ concat (map line_units (chosen k1 (enqueued [ev])))"
    "dropped_in out + bt_droppedBytes s1 = bt_droppedBytes s + lines_bytes (chosen (map Not k1) (enqueued [ev]))"
    using batcher_step_conserves [OF conjunct1 [OF Cons.prems(1)] small _ st] Cons.prems(3) by (metis list.set_intros(1))
  have ok1: "batcher_ok s1 \<and> batcher_timed s1" using batcher_step_ok [OF Cons.prems(1), of ev] st by simp
  have "0 \<le> dropped_in out" using batcher_step_nonneg [of s ev] st Cons.prems(1) by simp
  then have small1: "bt_droppedBytes s1 + lines_bytes (enqueued evs) \<le> MAX_SAFE_INT"
    using k1(1,3) Cons.prems(2) bytes lines_bytes_chosen [of "map Not k1" "enqueued [ev]"] by simp
  obtain k2 where k2: "length k2 = length (enqueued evs)"
    "units_of outs' @ pending_units s' = pending_units s1 @ concat (map line_units (chosen k2 (enqueued evs)))"
    "dropped_in outs' + bt_droppedBytes s' = bt_droppedBytes s1 + lines_bytes (chosen (map Not k2) (enqueued evs))"
    using Cons.IH [OF ok1 small1 _ r(1)] Cons.prems(3) by auto
  have "units_of outs @ pending_units s' =
      pending_units s @ concat (map line_units (chosen k1 (enqueued [ev]) @ chosen k2 (enqueued evs)))"
    using k1(2) k2(2) r(2) by (metis append_assoc concat_append map_append units_simps(3))
  moreover have "dropped_in outs + bt_droppedBytes s' = bt_droppedBytes s +
      lines_bytes (chosen (map Not k1) (enqueued [ev]) @ chosen (map Not k2) (enqueued evs))"
    using k1(3) k2(3) r(2) by simp
  ultimately show ?case
    using k1(1) k2(1) chosen_append [OF k1(1), of k2 "enqueued evs"]
      chosen_append [of "map Not k1" "enqueued [ev]" "map Not k2" "enqueued evs"]
    unfolding enqueued_Cons [of ev evs] by (intro exI [of _ "k1 @ k2"]) simp
qed (auto intro: exI [of _ "[]"])

lemma batcher_run_append:
  "batcher_run (evs @ evs') s =
     (let (out, s1) = batcher_run evs s; (out', s2) = batcher_run evs' s1 in (out @ out', s2))"
  by (induction evs arbitrary: s) (simp_all split: prod.splits)

lemma enqueued_append [simp]: "enqueued (evs @ evs') = enqueued evs @ enqueued evs'"
  by (induction evs rule: enqueued.induct) simp_all

text \<open>C24: Whatever order output, timers and flushes come in, after a flush the renderer has got, per
  source and stream, exactly the chunks that were not dropped, unaltered and in order, and has been
  told exactly how many bytes were dropped.\<close>

theorem terminal_output_conserved:
  assumes "lines_bytes (enqueued evs) \<le> MAX_SAFE_INT" "Clear_output \<notin> set evs"
  shows "\<exists>keep. length keep = length (enqueued evs) \<and>
    (let outs = fst (batcher_run (evs @ [Flush_now]) (batcher_new maxPendingBytes maxSegments))
     in units_of outs = concat (map line_units (chosen keep (enqueued evs))) \<and>
        dropped_in outs = lines_bytes (chosen (map Not keep) (enqueued evs)))"
proof -
  define s0 where "s0 = batcher_new maxPendingBytes maxSegments"
  have s0: "bt_droppedBytes s0 = 0" "pending_units s0 = []" by (simp_all add: s0_def batcher_new_def pending_units_def)
  obtain outs s' where r: "batcher_run evs s0 = (outs, s')" by fastforce
  obtain keep where keep: "length keep = length (enqueued evs)"
    "units_of outs @ pending_units s' = concat (map line_units (chosen keep (enqueued evs)))"
    "dropped_in outs + bt_droppedBytes s' = lines_bytes (chosen (map Not keep) (enqueued evs))"
    using batcher_run_conserves [OF batcher_new_ok [of maxPendingBytes maxSegments, folded s0_def] _ assms(2) r] assms(1) s0 by auto
  have "batcher_ok s' \<and> batcher_timed s'"
    using terminal_output.always [OF batcher_new_ok, of evs maxPendingBytes maxSegments] batcher_run_fold [of evs s0] r by (simp add: s0_def)
  then have "units_of (fst (batcher_flush s')) = pending_units s'" "dropped_in (fst (batcher_flush s')) = bt_droppedBytes s'"
    using batcher_flush_conserves [of s'] by auto
  moreover obtain fo fs where "batcher_flush s' = (fo, fs)" by fastforce
  ultimately show ?thesis using keep r
    by (intro exI [of _ keep]) (simp add: batcher_run_append Let_def batcher_step_def flip: s0_def)
qed

lemma terminal_output_conserved_witness:
  "\<exists>keep. length keep = length (enqueued [Enqueue_output [120] \<lparr>tl_id = [], tl_at = [], tl_stream = Stdout, tl_text = [65]\<rparr>]) \<and>
    (let outs = fst (batcher_run ([Enqueue_output [120] \<lparr>tl_id = [], tl_at = [], tl_stream = Stdout, tl_text = [65]\<rparr>] @ [Flush_now]) (batcher_new None None))
     in units_of outs = concat (map line_units (chosen keep (enqueued [Enqueue_output [120] \<lparr>tl_id = [], tl_at = [], tl_stream = Stdout, tl_text = [65]\<rparr>]))) \<and>
        dropped_in outs = lines_bytes (chosen (map Not keep) (enqueued [Enqueue_output [120] \<lparr>tl_id = [], tl_at = [], tl_stream = Stdout, tl_text = [65]\<rparr>])))"
  by (rule terminal_output_conserved) (simp_all add: MAX_SAFE_INT_def)

text \<open>Nothing waits for ever and nothing grows without bound: whenever output or a drop count is held
  back a timer runs, and what is held back is within the limits.\<close>

theorem terminal_output_bounded:
  "let s = snd (batcher_run evs (batcher_new maxPendingBytes maxSegments))
   in (bt_timer s \<or> bt_segments s = [] \<and> bt_droppedBytes s = 0) \<and>
      sum_list (map segment_bytes (bt_segments s)) \<le> bt_maxPendingBytes (batcher_new maxPendingBytes maxSegments) \<and>
      int (length (bt_segments s)) \<le> bt_maxSegments (batcher_new maxPendingBytes maxSegments)"
proof -
  define s0 where "s0 = batcher_new maxPendingBytes maxSegments"
  have par: "bt_maxPendingBytes (fold (\<lambda>ev s. snd (batcher_step ev s)) evs s) = bt_maxPendingBytes s \<and>
      bt_maxSegments (fold (\<lambda>ev s. snd (batcher_step ev s)) evs s) = bt_maxSegments s" for s
    by (induction evs arbitrary: s) (simp_all add: batcher_step_params)
  have inv: "batcher_ok (fold (\<lambda>ev s. snd (batcher_step ev s)) evs s0) \<and> batcher_timed (fold (\<lambda>ev s. snd (batcher_step ev s)) evs s0)"
    using terminal_output.always batcher_new_ok [of maxPendingBytes maxSegments, folded s0_def] by blast
  show ?thesis using inv par [of s0]
    unfolding Let_def batcher_run_fold s0_def [symmetric] batcher_ok_def batcher_timed_def by auto
qed

end
