(* ===== verification/ClipboardGuard.thy ===== *)
theory ClipboardGuard
  imports JsString
begin

text \<open>
  The guard of the one secret the app may have put on the clipboard
  (\<open>src/main/app/clipboard-guard.ts\<close>).  The keyed digest (HMAC-SHA-256 under a random key) is a
  parameter; the clipboard, which other programs write too, is part of the state.  Shown: the secret
  is never handed back to the renderer and goes when the timer fires, and what the user copied
  afterwards is never cleared.
\<close>

record 'd clipboard_guard =
  cg_digest :: "'d option"
  cg_timer :: bool
  cg_clipboard :: jsstring

definition cg_new :: "jsstring \<Rightarrow> 'd clipboard_guard" where
  "cg_new clipboard = \<lparr>cg_digest = None, cg_timer = False, cg_clipboard = clipboard\<rparr>"

definition cg_stopTimer :: "'d clipboard_guard \<Rightarrow> 'd clipboard_guard" where
  "cg_stopTimer g = g\<lparr>cg_timer := False\<rparr>"

definition cg_forget :: "'d clipboard_guard \<Rightarrow> 'd clipboard_guard" where
  "cg_forget g = cg_stopTimer (g\<lparr>cg_digest := None\<rparr>)"

definition cg_writeSecret :: "(jsstring \<Rightarrow> 'd) \<Rightarrow> jsstring \<Rightarrow> 'd clipboard_guard \<Rightarrow> 'd clipboard_guard" where
  "cg_writeSecret digestOf secret g =
     (cg_stopTimer (g\<lparr>cg_clipboard := secret, cg_digest := Some (digestOf secret)\<rparr>))\<lparr>cg_timer := True\<rparr>"

definition cg_holds :: "(jsstring \<Rightarrow> 'd) \<Rightarrow> jsstring \<Rightarrow> 'd clipboard_guard \<Rightarrow> bool \<times> 'd clipboard_guard" where
  "cg_holds digestOf clip_text g =
     (case cg_digest g of None \<Rightarrow> (False, g)
      | Some digest \<Rightarrow> if digestOf clip_text = digest then (True, g) else (False, cg_forget g))"

definition cg_readText :: "(jsstring \<Rightarrow> 'd) \<Rightarrow> 'd clipboard_guard \<Rightarrow> jsstring option \<times> 'd clipboard_guard" where
  "cg_readText digestOf g =
     (let clip_text = cg_clipboard g; (held, g') = cg_holds digestOf clip_text g
      in (if held then None else Some clip_text, g'))"

text \<open>With \<open>works = False\<close> the clipboard throws; \<open>finally\<close> forgets the secret all the same.\<close>

definition cg_clearIfStillHeld :: "(jsstring \<Rightarrow> 'd) \<Rightarrow> bool \<Rightarrow> 'd clipboard_guard \<Rightarrow> bool \<times> 'd clipboard_guard" where
  "cg_clearIfStillHeld digestOf works g =
     (case cg_digest g of None \<Rightarrow> (True, g)
      | Some digest \<Rightarrow>
          if \<not> works then (False, cg_forget g)
          else (True, cg_forget (if digestOf (cg_clipboard g) = digest then g\<lparr>cg_clipboard := []\<rparr> else g)))"

datatype clipboard_event =
    Write_secret jsstring
  | User_copies jsstring
  | Read_clipboard
  | Guard_timer bool
  | Clear_if_held bool

text \<open>What the renderer got, and the state.\<close>

definition cg_step :: "(jsstring \<Rightarrow> 'd) \<Rightarrow> clipboard_event \<Rightarrow> 'd clipboard_guard \<Rightarrow> jsstring option list \<times> 'd clipboard_guard" where
  "cg_step digestOf ev g =
     (case ev of Write_secret secret \<Rightarrow> ([], cg_writeSecret digestOf secret g)
      | User_copies copied \<Rightarrow> ([], g\<lparr>cg_clipboard := copied\<rparr>)
      | Read_clipboard \<Rightarrow> (let (r, g') = cg_readText digestOf g in ([r], g'))
      | Guard_timer works \<Rightarrow>
          if cg_timer g then ([], snd (cg_clearIfStillHeld digestOf works (g\<lparr>cg_timer := False\<rparr>))) else ([], g)
      | Clear_if_held works \<Rightarrow> ([], snd (cg_clearIfStillHeld digestOf works g)))"

fun cg_run :: "(jsstring \<Rightarrow> 'd) \<Rightarrow> clipboard_event list \<Rightarrow> 'd clipboard_guard \<Rightarrow> jsstring option list \<times> 'd clipboard_guard" where
  "cg_run digestOf [] g = ([], g)"
| "cg_run digestOf (ev # evs) g =
     (let (out, g1) = cg_step digestOf ev g; (outs, g2) = cg_run digestOf evs g1 in (out @ outs, g2))"

fun leaves_clipboard :: "clipboard_event \<Rightarrow> bool" where
  "leaves_clipboard (Write_secret _) = False"
| "leaves_clipboard (User_copies _) = False"
| "leaves_clipboard Read_clipboard = True"
| "leaves_clipboard (Guard_timer works) = works"
| "leaves_clipboard (Clear_if_held works) = works"

fun removes_secret :: "clipboard_event \<Rightarrow> bool" where
  "removes_secret (Guard_timer _) = True"
| "removes_secret (Clear_if_held _) = True"
| "removes_secret _ = False"

text \<open>The two states while nobody else writes the clipboard: the secret is held and watched, or gone.\<close>

definition secret_held :: "(jsstring \<Rightarrow> 'd) \<Rightarrow> jsstring \<Rightarrow> 'd clipboard_guard \<Rightarrow> bool" where
  "secret_held digestOf secret g \<longleftrightarrow> cg_clipboard g = secret \<and> cg_digest g = Some (digestOf secret) \<and> cg_timer g"

definition secret_gone :: "'d clipboard_guard \<Rightarrow> bool" where
  "secret_gone g \<longleftrightarrow> cg_clipboard g = [] \<and> cg_digest g = None"

lemmas cg_defs = cg_step_def cg_readText_def cg_holds_def cg_clearIfStillHeld_def cg_forget_def
  cg_stopTimer_def cg_writeSecret_def Let_def

lemma cg_step_held:
  assumes "leaves_clipboard ev" "secret_held digestOf secret g \<or> secret_gone g" "cg_step digestOf ev g = (out, g')"
  shows "(secret_held digestOf secret g' \<and> \<not> removes_secret ev \<or> secret_gone g') \<and> set out \<subseteq> {None, Some []} \<and>
    (secret_gone g \<longrightarrow> secret_gone g')"
  using assms by (cases ev) (auto simp: cg_defs secret_held_def secret_gone_def split: if_splits)

lemma cg_run_held:
  "list_all leaves_clipboard evs \<Longrightarrow> secret_held digestOf secret g \<or> secret_gone g \<Longrightarrow> cg_run digestOf evs g = (outs, g') \<Longrightarrow>
     set outs \<subseteq> {None, Some []} \<and> (secret_gone g' \<or> secret_held digestOf secret g' \<and> \<not> list_ex removes_secret evs \<and> \<not> secret_gone g)"
proof (induction evs arbitrary: g outs)
  case (Cons ev evs)
  obtain out g1 where st: "cg_step digestOf ev g = (out, g1)" by fastforce
  obtain outs' where r: "cg_run digestOf evs g1 = (outs', g')" "outs = out @ outs'"
    using Cons.prems(3) st by (auto split: prod.splits)
  have "leaves_clipboard ev" using Cons.prems(1) by simp
  note step = cg_step_held [OF this Cons.prems(2) st]
  show ?case using Cons.IH [OF _ _ r(1)] Cons.prems(1) step r(2) by auto
qed (auto simp: secret_held_def secret_gone_def)



section \<open>The text of the user\<close>

definition digest_known :: "(jsstring \<Rightarrow> 'd) \<Rightarrow> jsstring list \<Rightarrow> 'd clipboard_guard \<Rightarrow> bool" where
  "digest_known digestOf secrets g \<longleftrightarrow> (case cg_digest g of None \<Rightarrow> True | Some d \<Rightarrow> d \<in> digestOf ` set secrets)"

fun secrets_of :: "clipboard_event list \<Rightarrow> jsstring list" where
  "secrets_of [] = []"
| "secrets_of (Write_secret secret # evs) = secret # secrets_of evs"
| "secrets_of (_ # evs) = secrets_of evs"

lemma cg_step_known:
  "digest_known digestOf secrets g \<Longrightarrow> cg_step digestOf ev g = (out, g') \<Longrightarrow>
     digest_known digestOf (secrets @ secrets_of [ev]) g'"
  by (cases ev) (auto simp: cg_defs digest_known_def split: if_splits option.splits prod.splits)

lemma cg_run_known:
  "digest_known digestOf secrets g \<Longrightarrow> cg_run digestOf evs g = (outs, g') \<Longrightarrow>
     digest_known digestOf (secrets @ secrets_of evs) g'"
proof (induction evs arbitrary: g secrets outs)
  case (Cons ev evs)
  obtain out g1 where st: "cg_step digestOf ev g = (out, g1)" by fastforce
  obtain outs' where r: "cg_run digestOf evs g1 = (outs', g')"
    using Cons.prems(2) st by (auto split: prod.splits)
  have "secrets_of (ev # evs) = secrets_of [ev] @ secrets_of evs" by (cases ev) simp_all
  then show ?case using Cons.IH [OF cg_step_known [OF Cons.prems(1) st] r] by simp
qed simp

fun copies :: "clipboard_event \<Rightarrow> bool" where
  "copies (Write_secret _) = True"
| "copies (User_copies _) = True"
| "copies _ = False"

lemma cg_run_user:
  "\<forall>s \<in> set secrets. digestOf (cg_clipboard g) \<noteq> digestOf s \<Longrightarrow> digest_known digestOf secrets g \<Longrightarrow>
     list_all (\<lambda>ev. \<not> copies ev) evs \<Longrightarrow> cg_run digestOf evs g = (outs, g') \<Longrightarrow>
     cg_clipboard g' = cg_clipboard g \<and> set outs \<subseteq> {Some (cg_clipboard g)}"
proof (induction evs arbitrary: g outs)
  case (Cons ev evs)
  obtain out g1 where st: "cg_step digestOf ev g = (out, g1)" by fastforce
  obtain outs' where r: "cg_run digestOf evs g1 = (outs', g')" "outs = out @ outs'"
    using Cons.prems(4) st by (auto split: prod.splits)
  have g1: "cg_clipboard g1 = cg_clipboard g" "set out \<subseteq> {Some (cg_clipboard g)}" "digest_known digestOf secrets g1"
    using st Cons.prems(1-3) by (cases ev; auto simp: cg_defs digest_known_def split: if_splits option.splits prod.splits)+
  show ?case using Cons.IH [OF _ g1(3) _ r(1)] Cons.prems g1 r(2) by auto
qed simp

text \<open>What the user copied is theirs: whatever secrets the app wrote before, as long as their digests
  differ from that of the text, it stays on the clipboard, timers and clearing included, and every
  reading gives it back.\<close>

theorem user_text_never_cleared:
  assumes "\<forall>s \<in> set (secrets_of evs). digestOf copied \<noteq> digestOf s" "list_all (\<lambda>ev. \<not> copies ev) evs'"
    "cg_run digestOf evs (cg_new clipboard) = (before, g)"
    "cg_run digestOf (User_copies copied # evs') g = (outs, g')"
  shows "cg_clipboard g' = copied \<and> set outs \<subseteq> {Some copied}"
proof -
  have "digest_known digestOf (secrets_of evs) g"
    using cg_run_known [OF _ assms(3), of "[]"] by (simp add: digest_known_def cg_new_def)
  then have k: "digest_known digestOf (secrets_of evs) (g\<lparr>cg_clipboard := copied\<rparr>)" by (simp add: digest_known_def)
  have "cg_run digestOf evs' (g\<lparr>cg_clipboard := copied\<rparr>) = (outs, g')"
    using assms(4) by (auto simp: cg_step_def split: prod.splits)
  then show ?thesis using cg_run_user [OF _ k assms(2)] assms(1) by simp
qed

lemma user_text_never_cleared_witness:
  "\<exists>g g'. cg_run id [Write_secret [65]] (cg_new []) = ([], g) \<and>
     cg_run id (User_copies [66] # [Guard_timer True, Read_clipboard]) g = ([Some [66]], g') \<and>
     cg_clipboard g' = [66] \<and> set [Some [66]] \<subseteq> {Some ([66] :: jsstring)}"
proof -
  obtain g where g: "cg_run id [Write_secret [65]] (cg_new []) = ([], g)" "g = cg_writeSecret id [65] (cg_new [])"
    by (simp add: cg_step_def)
  obtain g' where g': "cg_run id (User_copies [66] # [Guard_timer True, Read_clipboard]) g = ([Some [66]], g')"
    by (simp add: g(2) cg_defs cg_new_def)
  show ?thesis using user_text_never_cleared [OF _ _ g(1) g'] g g' by auto
qed

end
