(* ===== verification/Spec2Isabelle.thy ===== *)
theory Spec2Isabelle
  imports SshPacket SshSessionSafety KeyLoading RoutingMeaning LearningSafety PacMeaning WindowsProxyServing ShareLinkNames ProxyTransparency ProxyUpstream ProxyListener HttpForward HttpBodyGate
    Lifecycle Throttling Histories TerminalOutput ClipboardGuard
begin

text \<open>
  A verification library of the SSH/VPN client of this repository.  The program is an Electron
  application: a main process (\<open>src/main\<close>) that keeps settings and drives transports, services that
  run a transport (\<open>src/service\<close>), the protocol core they share (\<open>src/core\<close>), definitions shared with the
  windows (\<open>src/shared\<close>) and the windows themselves (\<open>src/renderer\<close>).  A connection is an SSH session
  over a TCP socket; applications reach it through a local SOCKS and HTTP proxy, and a routing
  policy decides which destinations go through it.

  \<^bold>\<open>Shared.\<close> \<open>Prelude\<close> holds bytes, results, operations on objects that may throw (a result and the
  object, so that what was assigned before a \<open>throw\<close> stays), the interface \<open>invariant_system\<close> of
  components driven by events, and lemmas on lists and words.  \<open>JsString\<close> and \<open>Utf8\<close> are JavaScript's strings
  (lists of UTF-16 code units), number parsing and printing, and Node's UTF-8 coding.

  \<^bold>\<open>The SSH protocol\<close> (\<open>src/core/ssh\<close>).  \<open>SshError\<close> lists every error thrown.  \<open>SshBinary\<close> models
  \<open>binary.ts\<close> (wire types, round trips).  \<open>SshPacket\<close> models \<open>packet.ts\<close>, \<open>packet-codec.ts\<close> and
  \<open>packet-stream.ts\<close>: the readers as state machines over chunks; chunking does not matter, what the
  writer sends is delivered, only authenticated payloads are, and buffers are bounded.
  \<open>SshMessages\<close> models the version line and all messages, \<open>SshAlgorithms\<close> the negotiation,
  \<open>SshChannel\<close> the channel table with its two windows (a ledger of bytes is the specification),
  \<open>SshKex\<close> key exchange, key derivation and host keys (the group operations, hashes, HMAC and
  signature checks of Node are a record of parameters), \<open>SshSession\<close> the session state machine, and
  \<open>SshSessionSafety\<close> what holds in every reachable state of it.  \<open>BlowfishTables\<close> and \<open>BcryptPbkdf\<close>
  compute \<open>bcrypt-pbkdf.ts\<close> in full and prove it equal to a reference definition; \<open>PrivateKey\<close> models
  \<open>private-key.ts\<close> (envelope, decryption, key object, cache of opened keys, what the key list is
  told, signatures), and \<open>KeyLoading\<close> shows that keys load to the numbers they hold, that the cache is
  transparent and what a signed request covers.

  \<^bold>\<open>Routing\<close> (\<open>src/core/routing\<close>, \<open>src/shared/validation.ts\<close>).  \<open>IpAddress\<close> and \<open>IpPrinting\<close>
  parse, compare and print addresses and ranges; \<open>Validation\<close> models the validators, \<open>DomainLists\<close> the
  curated lists and process hints, \<open>Routing\<close> the indexed matcher and the traffic policy, and
  \<open>RoutingMeaning\<close> shows that both do what their documentation says: first matching rule, the
  documented order of steps, exactly which traffic is tunnelled.  \<open>ProcessLearning\<close> models the learning
  of addresses and names of selected applications (\<open>src/service/process-route-learning.ts\<close>) as one
  function per stretch between two waits; \<open>LearningSafety\<close> interleaves cycles and shows that the learner
  stays bounded, keeps off the direct list, and that rules made of what it learned leave the local
  network alone.

  \<^bold>\<open>The local proxy\<close> (\<open>src/core/network\<close>).  \<open>ProxyReader\<close>, \<open>HttpProxy\<close> and \<open>ProxyHandshake\<close> model
  \<open>readProxyConnectRequest\<close> of \<open>socks5-proxy.ts\<close> over the chunks a socket delivers;
  \<open>ProxyTransparency\<close> shows that no byte is lost and that chunking does not matter; \<open>HttpForward\<close>
  is the header sent on, \<open>HttpBodyGate\<close> the gate that lets one request body through;
  \<open>ProxyListener\<close> the limits on sockets, opens and queued bytes; \<open>ProxyUpstream\<close> the client side
  (\<open>socks5-upstream.ts\<close>).

  \<^bold>\<open>The Windows system proxy\<close> (\<open>src/core/network/windows-system-proxy.ts\<close>).  \<open>AddressText\<close> holds the
  texts of addresses and ranges that the proxy auto-configuration (PAC) file uses; \<open>ProxyPac\<close> models how
  the file is generated and the functions inside it, \<open>PacLocal\<close> its tests for local addresses and
  \<open>PacMeaning\<close> shows that a browser obeying the file sends the same destinations through the tunnel as the
  traffic policy of \<open>Routing\<close>.  \<open>ProxyOwnership\<close> models how the program tells its own registry values
  from the user's, \<open>ProxyJournal\<close> the recovery journal and its parser, \<open>WindowsProxy\<close> the manager,
  its PAC listeners and the recovery at startup.  The world is the five registry values, the journals and
  the PAC files; a plan gives the outcome of every command, and a trace keeps the world of every moment.
  \<open>WindowsProxySafety\<close> shows that at each of those moments, thus wherever the process dies, the user's
  settings are in the registry or can be had from the journal, and \<open>WindowsProxyServing\<close> that
  the PAC listeners answer the address in the registry.  Assumed of Windows: a value is not
  reported unreadable while its key can be read.

  \<^bold>\<open>Share links\<close> (\<open>src/core/proxy\<close>).  \<open>JsDouble\<close> is JavaScript's rounding of numbers and \<open>JsonText\<close>
  JSON values and their text.  \<open>HopPorts\<close> and \<open>Hysteria2Link\<close> model \<open>hysteria2-link.ts\<close> (port lists, hop
  intervals, rates, certificate pins, the hints of a panel, the whole link); \<open>HopPorts\<close> shows that a
  hop list keeps exactly the ports that were written and reads back, \<open>Hysteria2Safety\<close> what holds of every
  link that is accepted.  \<open>ShareLinks\<close> models \<open>share-link-parser.ts\<close>, \<open>share-link-fields.ts\<close> and
  \<open>share-link-name.ts\<close> (the readers of all protocols, the import of a list, the writing of a name), and
  \<open>ShareLinkNames\<close> shows that an import accounts for every line and that a rename always succeeds and
  changes only the name.

  \<^bold>\<open>The main process\<close> (\<open>src/main/app\<close>, \<open>src/shared\<close>).  \<open>Lifecycle\<close> models the queue of transport changes,
  the tracker of tunnel news and the guard of tunnel checks; \<open>Throttling\<close> the rate limiter;
  \<open>Histories\<close> the bounded histories of terminal output and diagnostics; \<open>TerminalOutput\<close> the batcher
  between a transport and the windows; \<open>ClipboardGuard\<close> the guard of secrets on the clipboard.

  \<^bold>\<open>Bounds and fuel.\<close> No definition uses fuel.  Loops of the source are structural recursions or
  functions with a measure (bytes left, labels left, algorithms not yet tried); where a loop of the
  source may fail to end (dropping the oldest entries past the end of the list) it is a value
  \<open>None\<close>, shown never to be reached.  JavaScript numbers are integers, lengths are natural numbers, and
  32-bit values wrap where the source wraps them.

  \<^bold>\<open>Not modelled.\<close> Node's sockets, timers, processes, files and cryptography (parameters where the
  code's results depend on them); of the platform, SHA-256, the parser of URLs and the functions a browser gives to a PAC file
  (parameters); the live client and socket transport that wire the modelled parts
  to sockets (\<open>live-client.ts\<close>, \<open>socket-transport.ts\<close>); the DNS-cache and connection tables of Windows;
  the Xray configuration (\<open>src/core/proxy/xray-config.ts\<close>); updates; storage; the services that run
  transports; the windows; the native helper in Go.
\<close>

end
